(* ===== verification/Gallus_Base.thy ===== *)
theory Gallus_Base
  imports Main "HOL-Library.Word"
begin

text \<open>
  The prelude of the development: the result codes of the library
  (\<^verbatim>\<open>mk/ecode.def\<close>), the integer widths of the C code, C's truncating division,
  byte strings and the block copies the components share, and the lemma collections the
  component proofs use.

  A C pointer that the code compares with NULL is an option; a NUL-terminated string is the
  list of its characters before the terminator. A 64-bit signed quantity is an int that is
  passed through \<open>s64\<close> where the code stores the result of an addition.
\<close>

named_theorems gallus_defs \<open>definitions the component proofs unfold\<close>
named_theorems gallus_inv \<open>preservation lemmas of the component invariants\<close>

type_synonym gallus_result_t = int
type_synonym gallus_chrono_t = int
type_synonym byte = "8 word"

subsection \<open>Result codes\<close>

text \<open>
  \<^verbatim>\<open>mk/ecode2h.awk\<close> numbers the lines of \<^verbatim>\<open>mk/ecode.def\<close> downwards from 0, and
  \<^verbatim>\<open>gallus_result_t\<close> is a signed 64-bit integer: a function returns one of these codes or a
  non-negative count.
\<close>

abbreviation (input) GALLUS_RESULT_OK :: int where "GALLUS_RESULT_OK \<equiv> 0"
abbreviation (input) GALLUS_RESULT_ANY_FAILURES :: int where "GALLUS_RESULT_ANY_FAILURES \<equiv> - 1"
abbreviation (input) GALLUS_RESULT_POSIX_API_ERROR :: int where "GALLUS_RESULT_POSIX_API_ERROR \<equiv> - 2"
abbreviation (input) GALLUS_RESULT_NO_MEMORY :: int where "GALLUS_RESULT_NO_MEMORY \<equiv> - 3"
abbreviation (input) GALLUS_RESULT_NOT_FOUND :: int where "GALLUS_RESULT_NOT_FOUND \<equiv> - 4"
abbreviation (input) GALLUS_RESULT_ALREADY_EXISTS :: int where "GALLUS_RESULT_ALREADY_EXISTS \<equiv> - 5"
abbreviation (input) GALLUS_RESULT_NOT_OPERATIONAL :: int where "GALLUS_RESULT_NOT_OPERATIONAL \<equiv> - 6"
abbreviation (input) GALLUS_RESULT_INVALID_ARGS :: int where "GALLUS_RESULT_INVALID_ARGS \<equiv> - 7"
abbreviation (input) GALLUS_RESULT_NOT_OWNER :: int where "GALLUS_RESULT_NOT_OWNER \<equiv> - 8"
abbreviation (input) GALLUS_RESULT_NOT_STARTED :: int where "GALLUS_RESULT_NOT_STARTED \<equiv> - 9"
abbreviation (input) GALLUS_RESULT_TIMEDOUT :: int where "GALLUS_RESULT_TIMEDOUT \<equiv> - 10"
abbreviation (input) GALLUS_RESULT_ITERATION_HALTED :: int where "GALLUS_RESULT_ITERATION_HALTED \<equiv> - 11"
abbreviation (input) GALLUS_RESULT_OUT_OF_RANGE :: int where "GALLUS_RESULT_OUT_OF_RANGE \<equiv> - 12"
abbreviation (input) GALLUS_RESULT_NAN :: int where "GALLUS_RESULT_NAN \<equiv> - 13"
abbreviation (input) GALLUS_RESULT_ALREADY_HALTED :: int where "GALLUS_RESULT_ALREADY_HALTED \<equiv> - 14"
abbreviation (input) GALLUS_RESULT_INVALID_OBJECT :: int where "GALLUS_RESULT_INVALID_OBJECT \<equiv> - 15"
abbreviation (input) GALLUS_RESULT_INVALID_STATE_TRANSITION :: int
  where "GALLUS_RESULT_INVALID_STATE_TRANSITION \<equiv> - 16"
abbreviation (input) GALLUS_RESULT_BUSY :: int where "GALLUS_RESULT_BUSY \<equiv> - 18"
abbreviation (input) GALLUS_RESULT_QUOTE_NOT_CLOSED :: int where "GALLUS_RESULT_QUOTE_NOT_CLOSED \<equiv> - 23"
abbreviation (input) GALLUS_RESULT_NOT_DEFINED :: int where "GALLUS_RESULT_NOT_DEFINED \<equiv> - 25"
abbreviation (input) GALLUS_RESULT_WAKEUP_REQUESTED :: int where "GALLUS_RESULT_WAKEUP_REQUESTED \<equiv> - 26"
abbreviation (input) GALLUS_RESULT_TOO_LARGE :: int where "GALLUS_RESULT_TOO_LARGE \<equiv> - 30"
abbreviation (input) GALLUS_RESULT_TOO_SMALL :: int where "GALLUS_RESULT_TOO_SMALL \<equiv> - 31"
abbreviation (input) GALLUS_RESULT_INVALID_STATE :: int where "GALLUS_RESULT_INVALID_STATE \<equiv> - 35"
abbreviation (input) GALLUS_RESULT_INTERRUPTED :: int where "GALLUS_RESULT_INTERRUPTED \<equiv> - 37"

definition s_error_strs :: "string list" where
  "s_error_strs =
    [''No error(s)'', ''Unknown, any failure(s)'', ''POSIX API error(s)'', ''Insufficient memory'',
     ''Not found'', ''Already exists'', ''Not operational at this moment'', ''Invalid argument(s)'',
     ''Not the owner'', ''Not started'', ''Timedout'', ''Iteration halted'', ''Out of range'',
     ''Not a number'', ''Already halted'', ''An invalid object'', ''Invalid state transition'',
     ''Socket error(s)'', ''Busy'', ''Stop'', ''TLS connection error(s)'', ''EINPROGRESS error(s)'',
     ''Unsupported'', ''Quote not closed'', ''Not allowed'', ''Not defined'',
     ''Wake up requested'', ''Too many objects'', ''End of file'', ''No more action'',
     ''Too large'', ''Too small'', ''Too long'', ''Too short'', ''Address resolver failure'',
     ''Invalid state'', ''Invalid namespace'', ''Interrupted'']"

definition gallus_error_get_string :: "gallus_result_t \<Rightarrow> string" where
  "gallus_error_get_string r =
    (if r < 0 then
       (let ar = - r in
        if ar < int (length s_error_strs) then s_error_strs ! nat ar
        else ''??? error string out of range ???'')
     else if r = 0 then s_error_strs ! 0
     else ''Greater than zero, means not errors??'')"

subsection \<open>Integers\<close>

text \<open>A value stored into an \<^verbatim>\<open>int64_t\<close>: two's complement wrap-around.\<close>

definition s64 :: "int \<Rightarrow> int" where
  "s64 x = signed_take_bit 63 x"

lemma s64_id [simp]: "- 9223372036854775808 \<le> x \<Longrightarrow> x < 9223372036854775808 \<Longrightarrow> s64 x = x"
  by (simp add: s64_def signed_take_bit_int_eq_self)

lemma s64_range: "- 9223372036854775808 \<le> s64 x \<and> s64 x < 9223372036854775808"
  using signed_take_bit_int_greater_eq_minus_exp [of 63 x] signed_take_bit_int_less_exp [of 63 x]
  by (simp add: s64_def)

text \<open>C's division and remainder truncate towards zero.\<close>

definition c_div :: "int \<Rightarrow> int \<Rightarrow> int" where
  "c_div a b = sgn a * sgn b * (\<bar>a\<bar> div \<bar>b\<bar>)"

definition c_mod :: "int \<Rightarrow> int \<Rightarrow> int" where
  "c_mod a b = a - c_div a b * b"

lemma c_div_nonneg: "0 \<le> a \<Longrightarrow> 0 < b \<Longrightarrow> c_div a b = a div b"
  by (cases "a = 0") (auto simp: c_div_def)

lemma c_mod_nonneg: "0 \<le> a \<Longrightarrow> 0 < b \<Longrightarrow> c_mod a b = a mod b"
  by (simp add: c_mod_def c_div_nonneg minus_div_mult_eq_mod)

subsection \<open>Strings\<close>

definition is_valid_string :: "string option \<Rightarrow> bool" where
  "is_valid_string x = (case x of None \<Rightarrow> False | Some s \<Rightarrow> s \<noteq> [])"

lemma is_valid_string_iff [simp]:
  "is_valid_string (Some s) \<longleftrightarrow> s \<noteq> []" "\<not> is_valid_string None"
  by (simp_all add: is_valid_string_def)

text \<open>\<^verbatim>\<open>strchr(set, c) != NULL\<close>: the terminator counts as a member of every set.\<close>

definition strchr_hit :: "string \<Rightarrow> char \<Rightarrow> bool" where
  "strchr_hit delm c \<longleftrightarrow> c \<in> set delm \<or> c = CHR 0x00"

subsection \<open>Block copies\<close>

text \<open>
  \<open>blit dst d src s n\<close> is \<^verbatim>\<open>memcpy(dst + d, src + s, n)\<close> on byte lists whose ranges lie
  inside both blocks.
\<close>

definition blit :: "'a list \<Rightarrow> nat \<Rightarrow> 'a list \<Rightarrow> nat \<Rightarrow> nat \<Rightarrow> 'a list" where
  "blit dst d src s n = take d dst @ take n (drop s src) @ drop (d + n) dst"

lemma length_blit [simp]:
  "d + n \<le> length dst \<Longrightarrow> s + n \<le> length src \<Longrightarrow> length (blit dst d src s n) = length dst"
  by (simp add: blit_def)

lemma nth_blit:
  "d + n \<le> length dst \<Longrightarrow> s + n \<le> length src \<Longrightarrow> i < length dst \<Longrightarrow>
   blit dst d src s n ! i = (if d \<le> i \<and> i < d + n then src ! (s + (i - d)) else dst ! i)"
  by (auto simp: blit_def nth_append not_less)

subsection \<open>Rings\<close>

text \<open>
  The \<open>n\<close> cells of a ring that start at position \<open>r\<close>; positions count from the ring's
  creation and are reduced modulo its length.
\<close>

definition ring_slice :: "'a list \<Rightarrow> nat \<Rightarrow> nat \<Rightarrow> 'a list" where
  "ring_slice xs r n = map (\<lambda>i. xs ! ((r + i) mod length xs)) [0..<n]"

lemma length_ring_slice [simp]: "length (ring_slice xs r n) = n"
  by (simp add: ring_slice_def)

lemma ring_slice_0 [simp]: "ring_slice xs r 0 = []"
  by (simp add: ring_slice_def)

lemma nth_ring_slice: "i < n \<Longrightarrow> ring_slice xs r n ! i = xs ! ((r + i) mod length xs)"
  by (simp add: ring_slice_def)

lemma drop_drop_append: "i \<le> length xs \<Longrightarrow> drop g (drop i xs @ ys) = drop (i + g) (xs @ ys)"
  by (simp add: add.commute)

lemma take_ring_slice: "k \<le> n \<Longrightarrow> take k (ring_slice xs r n) = ring_slice xs r k"
  by (auto intro!: nth_equalityI simp: nth_ring_slice)

lemma drop_ring_slice: "drop k (ring_slice xs r n) = ring_slice xs (r + k) (n - k)"
  by (auto intro!: nth_equalityI simp: nth_ring_slice add.assoc)

lemma ring_slice_mod: "ring_slice xs (r mod length xs) n = ring_slice xs r n"
  by (simp add: ring_slice_def mod_add_left_eq)

text \<open>Reading \<open>n\<close> cells with one or two copies gives the slice.\<close>

lemma ring_slice_flat:
  assumes "r + n \<le> length xs"
  shows "take n (drop r xs) = ring_slice xs r n"
  using assms by (auto intro!: nth_equalityI simp: nth_ring_slice)

lemma ring_slice_split:
  assumes "r < length xs" "length xs < r + n" "n \<le> length xs"
  shows "drop r xs @ take (n - (length xs - r)) xs = ring_slice xs r n"
proof (rule nth_equalityI)
  show "length (drop r xs @ take (n - (length xs - r)) xs) = length (ring_slice xs r n)"
    using assms by simp
next
  fix i assume "i < length (drop r xs @ take (n - (length xs - r)) xs)"
  with assms have i: "i < n" by simp
  show "(drop r xs @ take (n - (length xs - r)) xs) ! i = ring_slice xs r n ! i"
  proof (cases "i < length xs - r")
    case True
    then show ?thesis using i by (simp add: nth_append nth_ring_slice)
  next
    case False
    then have "(r + i) mod length xs = r + i - length xs"
      using i assms by (subst mod_if) auto
    then show ?thesis using False i assms
      by (simp add: nth_append nth_ring_slice) (metis add.commute diff_diff_right less_imp_le)
  qed
qed

text \<open>Reading and writing \<open>n\<close> cells from position \<open>w\<close> with one copy, or with two when the end
  of the block is in between.\<close>

definition ring_get :: "'a list \<Rightarrow> nat \<Rightarrow> nat \<Rightarrow> 'a list" where
  "ring_get xs w n =
    (let q = w mod length xs in
     if q + n \<le> length xs then take n (drop q xs)
     else take (length xs - q) (drop q xs) @ take (n - (length xs - q)) xs)"

definition ring_put :: "'a list \<Rightarrow> nat \<Rightarrow> 'a list \<Rightarrow> nat \<Rightarrow> 'a list" where
  "ring_put xs w buf n =
    (let q = w mod length xs in
     if q + n \<le> length xs then blit xs q buf 0 n
     else blit (blit xs q buf 0 (length xs - q)) 0 buf (length xs - q) (n - (length xs - q)))"

lemma ring_get_slice:
  assumes "n \<le> length xs" "xs \<noteq> []"
  shows "ring_get xs w n = ring_slice xs w n"
proof -
  let ?q = "w mod length xs"
  have q: "?q < length xs" using assms by simp
  have "ring_get xs w n = ring_slice xs ?q n"
  proof (cases "?q + n \<le> length xs")
    case True
    then show ?thesis by (simp add: ring_get_def ring_slice_flat)
  next
    case False
    then show ?thesis using ring_slice_split [OF q _ assms(1)] by (simp add: ring_get_def)
  qed
  then show ?thesis by (simp add: ring_slice_mod)
qed

lemma length_ring_put [simp]:
  assumes "n \<le> length xs" "n \<le> length buf" "xs \<noteq> []"
  shows "length (ring_put xs w buf n) = length xs"
proof -
  define q where "q = w mod length xs"
  then have "q < length xs" using assms by simp
  then show ?thesis using assms unfolding ring_put_def q_def [symmetric] Let_def
    by (auto simp: blit_def)
qed

lemma ring_pos:
  assumes "i < L"
  shows "(w + i) mod L = (if w mod L + i < L then w mod L + i else w mod L + i - (L::nat))"
proof -
  define q where "q = w mod L"
  have q: "q < L" using assms by (simp add: q_def)
  have "(w + i) mod L = (q + i) mod L"
    by (simp add: q_def mod_add_left_eq)
  also have "\<dots> = (if q + i < L then q + i else q + i - L)"
    using q assms by (simp add: mod_if)
  finally show ?thesis by (simp add: q_def)
qed

lemma nth_ring_put:
  assumes "n \<le> length xs" "n \<le> length buf" "i < length xs"
  shows "ring_put xs w buf n ! ((w + i) mod length xs) =
    (if i < n then buf ! i else xs ! ((w + i) mod length xs))"
proof -
  define L where "L = length xs"
  define q where "q = w mod L"
  define p where "p = (if q + i < L then q + i else q + i - L)"
  have i: "i < L" using assms by (simp add: L_def)
  then have q: "q < L" "i < L" by (simp_all add: q_def)
  have "p < L" using q by (auto simp: p_def)
  moreover have "(w + i) mod L = p" using ring_pos [OF i, of w] by (simp add: p_def q_def)
  ultimately have p: "(w + i) mod L = p" "p < L" by simp_all
  show ?thesis
  proof (cases "q + n \<le> L")
    case True
    then have "ring_put xs w buf n ! p = (if q \<le> p \<and> p < q + n then buf ! (p - q) else xs ! p)"
      using p assms by (simp add: ring_put_def Let_def nth_blit flip: L_def q_def)
    also have "\<dots> = (if i < n then buf ! i else xs ! p)"
      using True q by (auto simp: p_def)
    finally show ?thesis using p by (simp add: L_def)
  next
    case False
    let ?m = "n - (L - q)"
    have m: "?m \<le> q" "L - q \<le> n" "L - q + ?m = n" using False q assms(1) by (auto simp: L_def)
    let ?xs = "blit xs q buf 0 (L - q)"
    have len: "length ?xs = L" using m assms(2) q by (simp flip: L_def)
    have "ring_put xs w buf n ! p = blit ?xs 0 buf (L - q) ?m ! p"
      using False by (simp add: ring_put_def Let_def flip: L_def q_def)
    also have "\<dots> = (if p < ?m then buf ! (L - q + p) else ?xs ! p)"
      using p m len assms(2) q by (subst nth_blit) auto
    also have "?xs ! p = (if q \<le> p then buf ! (p - q) else xs ! p)"
      using p q m assms(2) by (subst nth_blit) (auto simp flip: L_def)
    also have "(if p < ?m then buf ! (L - q + p) else if q \<le> p then buf ! (p - q) else xs ! p) =
        (if i < n then buf ! i else xs ! p)"
      using q m by (auto simp: p_def)
    finally show ?thesis using p by (simp add: L_def)
  qed
qed

text \<open>Writing behind a slice leaves it and appends.\<close>

lemma ring_slice_put:
  assumes "n + k \<le> length xs" "k \<le> length buf" "xs \<noteq> []"
  shows "ring_slice (ring_put xs (r + n) buf k) r (n + k) = ring_slice xs r n @ take k buf"
proof (rule nth_equalityI)
  show "length (ring_slice (ring_put xs (r + n) buf k) r (n + k)) =
      length (ring_slice xs r n @ take k buf)"
    using assms by simp
next
  fix i assume "i < length (ring_slice (ring_put xs (r + n) buf k) r (n + k))"
  then have i: "i < n + k" by simp
  let ?L = "length xs" and ?ys = "ring_put xs (r + n) buf k"
  have len: "length ?ys = ?L" using assms by simp
  show "ring_slice ?ys r (n + k) ! i = (ring_slice xs r n @ take k buf) ! i"
  proof (cases "i < n")
    case True
    have "(r + n + (?L - n + i)) mod ?L = (r + i) mod ?L"
      using assms True mod_add_self2 [of "r + i" ?L] by (simp add: add.commute add.left_commute)
    moreover have "?L - n + i < ?L" "\<not> ?L - n + i < k" using True assms by auto
    ultimately have "?ys ! ((r + i) mod ?L) = xs ! ((r + i) mod ?L)"
      using nth_ring_put [of k xs buf "?L - n + i" "r + n"] assms True by simp
    then show ?thesis using True i by (simp add: nth_ring_slice nth_append len)
  next
    case False
    with i assms have "i - n < k" "i - n < ?L" "r + n + (i - n) = r + i" by auto
    then have "?ys ! ((r + i) mod ?L) = buf ! (i - n)"
      using nth_ring_put [of k xs buf "i - n" "r + n"] assms by simp
    then show ?thesis using False i assms by (simp add: nth_ring_slice nth_append len)
  qed
qed

subsection \<open>Replacing an element of a list\<close>

lemma set_replace: "i < length xs \<Longrightarrow> y \<in> set (xs[i := x]) \<Longrightarrow> y = x \<or> y \<in> set xs"
  using set_update_subset_insert by fastforce

lemma sum_list_less_at:
  fixes f :: "'a \<Rightarrow> nat"
  assumes "i < length xs" "f y < f (xs ! i)"
  shows "sum_list (map f (xs[i := y])) < sum_list (map f xs)"
  using assms by (induction xs arbitrary: i) (auto split: nat.splits)

lemma filter_less_at:
  assumes "i < length xs" "P (xs ! i)" "\<not> P y"
  shows "length (filter P (xs[i := y])) < length (filter P xs)"
  using assms by (induction xs arbitrary: i) (auto split: nat.splits)

end
