(* ===== verification/Chrono.thy ===== *)
theory Chrono
  imports Gallus_Base
begin

text \<open>
  Time values (\<^verbatim>\<open>framework/lib/chrono.c\<close> and the conversion macros of
  \<^verbatim>\<open>gallus_macros.h\<close>): nanoseconds as \<^verbatim>\<open>int64_t\<close>, \<^verbatim>\<open>struct timespec\<close>,
  \<^verbatim>\<open>struct timeval\<close>, and the retrying sleep. The kernel's \<^verbatim>\<open>nanosleep(2)\<close> is a script
  of outcomes, one per call.
\<close>

record timespec =
  tv_sec :: int
  tv_nsec :: int

record timeval =
  tvs_sec :: int
  tvs_usec :: int

definition NSEC_TO_USEC :: "gallus_chrono_t \<Rightarrow> int" where
  "NSEC_TO_USEC nsec = c_div (c_div nsec 100 + 5) 10"

definition NSEC_TO_TS :: "gallus_chrono_t \<Rightarrow> timespec" where
  "NSEC_TO_TS nsec =
    (let sec = c_div nsec (1000 * 1000 * 1000)
     in \<lparr>tv_sec = sec, tv_nsec = nsec - sec * (1000 * 1000 * 1000)\<rparr>)"

definition NSEC_TO_TV :: "gallus_chrono_t \<Rightarrow> timeval" where
  "NSEC_TO_TV nsec =
    (let u_sec = NSEC_TO_USEC nsec; sec = c_div u_sec (1000 * 1000)
     in \<lparr>tvs_sec = sec, tvs_usec = u_sec - sec * (1000 * 1000)\<rparr>)"

definition TS_TO_NSEC :: "timespec \<Rightarrow> gallus_chrono_t" where
  "TS_TO_NSEC ts = s64 (tv_sec ts * 1000 * 1000 * 1000 + tv_nsec ts)"

definition TV_TO_NSEC :: "timeval \<Rightarrow> gallus_chrono_t" where
  "TV_TO_NSEC tv = s64 ((tvs_sec tv * 1000 * 1000 + tvs_usec tv) * 1000)"

text \<open>
  The exported functions write through \<open>dst\<close> unless it is NULL: the boolean says whether the
  destination pointer is given, and the option in the result is what is stored.
\<close>

definition gallus_chrono_to_timespec :: "bool \<Rightarrow> gallus_chrono_t \<Rightarrow> gallus_result_t \<times> timespec option" where
  "gallus_chrono_to_timespec dst nsec =
    (if dst then (GALLUS_RESULT_OK, Some (NSEC_TO_TS nsec)) else (GALLUS_RESULT_INVALID_ARGS, None))"

definition gallus_chrono_to_timeval :: "bool \<Rightarrow> gallus_chrono_t \<Rightarrow> gallus_result_t \<times> timeval option" where
  "gallus_chrono_to_timeval dst nsec =
    (if dst then (GALLUS_RESULT_OK, Some (NSEC_TO_TV nsec)) else (GALLUS_RESULT_INVALID_ARGS, None))"

definition gallus_chrono_from_timespec ::
  "bool \<Rightarrow> timespec option \<Rightarrow> gallus_result_t \<times> gallus_chrono_t option" where
  "gallus_chrono_from_timespec dst spec =
    (case spec of
       Some ts \<Rightarrow> if dst then (GALLUS_RESULT_OK, Some (TS_TO_NSEC ts)) else (GALLUS_RESULT_INVALID_ARGS, None)
     | None \<Rightarrow> (GALLUS_RESULT_INVALID_ARGS, None))"

definition gallus_chrono_from_timeval ::
  "bool \<Rightarrow> timeval option \<Rightarrow> gallus_result_t \<times> gallus_chrono_t option" where
  "gallus_chrono_from_timeval dst val =
    (case val of
       Some tv \<Rightarrow> if dst then (GALLUS_RESULT_OK, Some (TV_TO_NSEC tv)) else (GALLUS_RESULT_INVALID_ARGS, None)
     | None \<Rightarrow> (GALLUS_RESULT_INVALID_ARGS, None))"

text \<open>
  One call of \<^verbatim>\<open>nanosleep(2)\<close> returns 0, is interrupted with a remaining time, or fails
  with another \<^verbatim>\<open>errno\<close> (the remaining-time buffer then holds what it held). The retry
  loop consumes one outcome per call; \<open>None\<close> as a result means the script ended while the
  thread is still asleep. The list is the sequence of requests handed to the kernel.
\<close>

datatype sleep_outcome = Slept | Interrupted_with timespec | Sleep_error

fun nanosleep_retry :: "sleep_outcome list \<Rightarrow> timespec \<Rightarrow> gallus_result_t option \<times> timespec list" where
  "nanosleep_retry [] t = (None, [t])"
| "nanosleep_retry (Slept # os) t = (Some GALLUS_RESULT_OK, [t])"
| "nanosleep_retry (Interrupted_with r # os) t =
     (let (res, reqs) = nanosleep_retry os r in (res, t # reqs))"
| "nanosleep_retry (Sleep_error # os) t = (Some GALLUS_RESULT_POSIX_API_ERROR, [t])"

definition gallus_chrono_nanosleep ::
  "sleep_outcome list \<Rightarrow> timespec \<Rightarrow> gallus_chrono_t \<Rightarrow> bool \<Rightarrow>
   gallus_result_t option \<times> gallus_chrono_t option \<times> timespec list" where
  "gallus_chrono_nanosleep os junk nsec remptr =
    (if nsec < 0 then (Some GALLUS_RESULT_INVALID_ARGS, None, [])
     else
       (let t = NSEC_TO_TS nsec in
        if \<not> remptr then (let (res, reqs) = nanosleep_retry os t in (res, None, reqs))
        else
          (case os of
             [] \<Rightarrow> (None, None, [t])
           | Slept # _ \<Rightarrow> (Some GALLUS_RESULT_OK, None, [t])
           | Interrupted_with r # _ \<Rightarrow> (Some GALLUS_RESULT_POSIX_API_ERROR, Some (TS_TO_NSEC r), [t])
           | Sleep_error # _ \<Rightarrow> (Some GALLUS_RESULT_POSIX_API_ERROR, Some (TS_TO_NSEC junk), [t]))))"

subsection \<open>Conversions\<close>

lemma c_mod_bounds:
  assumes "0 < b"
  shows "\<bar>a - c_div a b * b\<bar> < b"
proof (cases "0 \<le> a")
  case True
  then show ?thesis using assms
    by (simp add: c_div_nonneg minus_div_mult_eq_mod)
next
  case False
  then have "a - c_div a b * b = - ((- a) mod b)"
    using assms by (simp add: c_div_def flip: minus_div_mult_eq_mod)
  then show ?thesis using assms by simp
qed

lemma TS_TO_NSEC_inverse:
  assumes "- 9223372036854775808 \<le> nsec" "nsec < 9223372036854775808"
  shows "TS_TO_NSEC (NSEC_TO_TS nsec) = nsec"
  using assms by (simp add: TS_TO_NSEC_def NSEC_TO_TS_def Let_def algebra_simps)


lemma NSEC_TO_TS_range:
  "\<bar>tv_nsec (NSEC_TO_TS nsec)\<bar> < 1000000000"
  using c_mod_bounds [of 1000000000 nsec] by (simp add: NSEC_TO_TS_def Let_def)

lemma NSEC_TO_USEC_nonneg: "0 \<le> nsec \<Longrightarrow> NSEC_TO_USEC nsec = (nsec div 100 + 5) div 10"
  by (simp add: NSEC_TO_USEC_def c_div_nonneg)

lemma TV_TO_NSEC_of_usec:
  assumes "0 \<le> nsec" "nsec < 9223372036854775000"
  shows "TV_TO_NSEC (NSEC_TO_TV nsec) = NSEC_TO_USEC nsec * 1000"
proof -
  have "0 \<le> NSEC_TO_USEC nsec * 1000" "NSEC_TO_USEC nsec * 1000 \<le> nsec + 500"
    using assms by (auto simp: NSEC_TO_USEC_nonneg)
  then show ?thesis using assms
    by (simp add: TV_TO_NSEC_def NSEC_TO_TV_def Let_def algebra_simps)
qed

text \<open>
  C40. Nanoseconds survive the conversion to \<^verbatim>\<open>struct timespec\<close> and back for every
  \<^verbatim>\<open>int64_t\<close>, negative ones included, and the nanosecond field stays below one second in
  magnitude.
\<close>

theorem chrono_timespec_roundtrip:
  assumes "- 9223372036854775808 \<le> nsec" "nsec < 9223372036854775808"
  shows "\<exists>ts. gallus_chrono_to_timespec True nsec = (GALLUS_RESULT_OK, Some ts) \<and>
     \<bar>tv_nsec ts\<bar> < 1000000000 \<and>
     gallus_chrono_from_timespec True (Some ts) = (GALLUS_RESULT_OK, Some nsec)"
  using TS_TO_NSEC_inverse [OF assms] NSEC_TO_TS_range [of nsec]
  by (simp add: gallus_chrono_to_timespec_def gallus_chrono_from_timespec_def)

theorem chrono_timespec_roundtrip_witness:
  "\<exists>ts. gallus_chrono_to_timespec True (- 1500000001) = (GALLUS_RESULT_OK, Some ts) \<and>
     \<bar>tv_nsec ts\<bar> < 1000000000 \<and>
     gallus_chrono_from_timespec True (Some ts) = (GALLUS_RESULT_OK, Some (- 1500000001))"
  by (rule chrono_timespec_roundtrip) simp_all

text \<open>
  C40. A non-negative time converted to \<^verbatim>\<open>struct timeval\<close> and back is off by at most half
  a microsecond: the macro rounds to the nearest microsecond, halves upwards.
\<close>

theorem chrono_timeval_rounding:
  assumes "0 \<le> nsec" "nsec < 9223372036854775000"
  shows "\<exists>tv d. gallus_chrono_to_timeval True nsec = (GALLUS_RESULT_OK, Some tv) \<and>
     gallus_chrono_from_timeval True (Some tv) = (GALLUS_RESULT_OK, Some d) \<and>
     - 499 \<le> d - nsec \<and> d - nsec \<le> 500 \<and> 0 \<le> tvs_usec tv \<and> tvs_usec tv < 1000000"
proof -
  have u: "0 \<le> NSEC_TO_USEC nsec" using assms by (simp add: NSEC_TO_USEC_nonneg)
  then have "0 \<le> tvs_usec (NSEC_TO_TV nsec) \<and> tvs_usec (NSEC_TO_TV nsec) < 1000000"
    by (simp add: NSEC_TO_TV_def Let_def c_div_nonneg minus_div_mult_eq_mod)
  moreover have "- 499 \<le> NSEC_TO_USEC nsec * 1000 - nsec" "NSEC_TO_USEC nsec * 1000 - nsec \<le> 500"
    using assms by (auto simp: NSEC_TO_USEC_nonneg)
  ultimately show ?thesis using TV_TO_NSEC_of_usec [OF assms]
    by (simp add: gallus_chrono_to_timeval_def gallus_chrono_from_timeval_def)
qed

theorem chrono_timeval_rounding_witness:
  "\<exists>tv d. gallus_chrono_to_timeval True 1234567 = (GALLUS_RESULT_OK, Some tv) \<and>
     gallus_chrono_from_timeval True (Some tv) = (GALLUS_RESULT_OK, Some d) \<and>
     - 499 \<le> d - 1234567 \<and> d - 1234567 \<le> 500 \<and> 0 \<le> tvs_usec tv \<and> tvs_usec tv < 1000000"
  by (rule chrono_timeval_rounding) simp_all

text \<open>
  An interrupted sleep is resumed with exactly the remaining times the kernel reported, until
  the kernel reports completion.
\<close>

lemma nanosleep_retry_resumes:
  "nanosleep_retry (map Interrupted_with rs @ Slept # os) t = (Some GALLUS_RESULT_OK, t # rs)"
  by (induction rs arbitrary: t) auto

end
