(* ===== verification/GState.thy ===== *)
theory GState
  imports Gallus_Base
begin

text \<open>
  The global state tracker (\<^verbatim>\<open>framework/lib/gstate.c\<close>, \<^verbatim>\<open>gallus_gstate.h\<close>): one
  variable \<open>s_gs\<close> that only moves forward, the grace level \<open>s_gl\<close> of the pending shutdown, and
  threads that wait on the condition variable for a state.

  Every operation runs under \<^verbatim>\<open>s_lck\<close> and is atomic; a \<^verbatim>\<open>gallus_cond_wait\<close>
  releases the lock. A blocking call takes a script: for each wait, the code the wait returned
  and the operations other threads completed meanwhile. When the script ends the call is still
  blocked, which is the value None.
\<close>

datatype global_state =
    GLOBAL_STATE_UNKNOWN
  | GLOBAL_STATE_INITIALIZING
  | GLOBAL_STATE_INITIALIZED
  | GLOBAL_STATE_STARTING
  | GLOBAL_STATE_STARTED
  | GLOBAL_STATE_REQUEST_SHUTDOWN
  | GLOBAL_STATE_ACCEPT_SHUTDOWN
  | GLOBAL_STATE_SHUTTINGDOWN
  | GLOBAL_STATE_SHUTDOWN
  | GLOBAL_STATE_FINALIZING
  | GLOBAL_STATE_FINALIZED

datatype shutdown_grace_level = SHUTDOWN_UNKNOWN | SHUTDOWN_RIGHT_NOW | SHUTDOWN_GRACEFULLY

text \<open>The code compares enumerators by their integer values.\<close>

fun gs_code :: "global_state \<Rightarrow> nat" where
  "gs_code GLOBAL_STATE_UNKNOWN = 0"
| "gs_code GLOBAL_STATE_INITIALIZING = 1"
| "gs_code GLOBAL_STATE_INITIALIZED = 2"
| "gs_code GLOBAL_STATE_STARTING = 3"
| "gs_code GLOBAL_STATE_STARTED = 4"
| "gs_code GLOBAL_STATE_REQUEST_SHUTDOWN = 5"
| "gs_code GLOBAL_STATE_ACCEPT_SHUTDOWN = 6"
| "gs_code GLOBAL_STATE_SHUTTINGDOWN = 7"
| "gs_code GLOBAL_STATE_SHUTDOWN = 8"
| "gs_code GLOBAL_STATE_FINALIZING = 9"
| "gs_code GLOBAL_STATE_FINALIZED = 10"

lemma gs_code_inject: "gs_code s = gs_code t \<Longrightarrow> s = t"
  by (cases s; cases t) simp_all

instantiation global_state :: linorder
begin

definition less_eq_global_state :: "global_state \<Rightarrow> global_state \<Rightarrow> bool" where
  "less_eq_global_state s t \<longleftrightarrow> gs_code s \<le> gs_code t"

definition less_global_state :: "global_state \<Rightarrow> global_state \<Rightarrow> bool" where
  "less_global_state s t \<longleftrightarrow> gs_code s < gs_code t"

instance
  by standard (auto simp: less_eq_global_state_def less_global_state_def intro: gs_code_inject)

end

lemmas gs_order = less_eq_global_state_def less_global_state_def

definition IS_VALID_GLOBAL_STATE :: "global_state \<Rightarrow> bool" where
  "IS_VALID_GLOBAL_STATE s \<longleftrightarrow> GLOBAL_STATE_UNKNOWN < s \<and> s \<le> GLOBAL_STATE_FINALIZED"

definition IS_GLOBAL_STATE_SHUTDOWN :: "global_state \<Rightarrow> bool" where
  "IS_GLOBAL_STATE_SHUTDOWN s \<longleftrightarrow> GLOBAL_STATE_ACCEPT_SHUTDOWN \<le> s"

definition IS_VALID_SHUTDOWN :: "shutdown_grace_level \<Rightarrow> bool" where
  "IS_VALID_SHUTDOWN l \<longleftrightarrow> l \<noteq> SHUTDOWN_UNKNOWN"

lemmas gs_preds = IS_VALID_GLOBAL_STATE_def IS_GLOBAL_STATE_SHUTDOWN_def IS_VALID_SHUTDOWN_def gs_order

record gstate =
  s_gs :: global_state
  s_gl :: shutdown_grace_level

definition gstate_init :: gstate where
  "gstate_init = \<lparr>s_gs = GLOBAL_STATE_UNKNOWN, s_gl = SHUTDOWN_UNKNOWN\<rparr>"

definition s_is_valid_state :: "gstate \<Rightarrow> global_state \<Rightarrow> bool" where
  "s_is_valid_state g s \<longleftrightarrow> s_gs g \<le> s"

definition global_state_set :: "gstate \<Rightarrow> global_state \<Rightarrow> gstate \<times> gallus_result_t" where
  "global_state_set g s =
    (if IS_VALID_GLOBAL_STATE s then
       (if s_is_valid_state g s then (g\<lparr>s_gs := s\<rparr>, GALLUS_RESULT_OK)
        else (g, GALLUS_RESULT_INVALID_STATE_TRANSITION))
     else (g, GALLUS_RESULT_INVALID_ARGS))"

text \<open>The result and what is stored through \<open>sptr\<close> when it is given.\<close>

definition global_state_get :: "gstate \<Rightarrow> bool \<Rightarrow> gallus_result_t \<times> global_state option" where
  "global_state_get g sptr =
    (if sptr then (GALLUS_RESULT_OK, Some (s_gs g)) else (GALLUS_RESULT_INVALID_ARGS, None))"

definition global_state_reset :: "gstate \<Rightarrow> gstate" where
  "global_state_reset g = g\<lparr>s_gs := GLOBAL_STATE_UNKNOWN\<rparr>"

text \<open>The part of a shutdown request that runs before its first wait.\<close>

definition request_enter :: "gstate \<Rightarrow> shutdown_grace_level \<Rightarrow> gstate" where
  "request_enter g l =
    (if IS_VALID_SHUTDOWN l \<and> \<not> IS_GLOBAL_STATE_SHUTDOWN (s_gs g) \<and>
        s_gs g \<noteq> GLOBAL_STATE_REQUEST_SHUTDOWN \<and>
        s_is_valid_state g GLOBAL_STATE_REQUEST_SHUTDOWN
     then g\<lparr>s_gs := GLOBAL_STATE_REQUEST_SHUTDOWN, s_gl := l\<rparr> else g)"

text \<open>The operations that change the tracker: what other threads do while a call waits.\<close>

datatype gs_action = Act_set global_state | Act_request shutdown_grace_level | Act_reset

fun gs_act :: "gs_action \<Rightarrow> gstate \<Rightarrow> gstate" where
  "gs_act (Act_set s) g = fst (global_state_set g s)"
| "gs_act (Act_request l) g = request_enter g l"
| "gs_act Act_reset g = global_state_reset g"

definition gs_acts :: "gs_action list \<Rightarrow> gstate \<Rightarrow> gstate" where
  "gs_acts as g = fold gs_act as g"

type_synonym gs_wake = "gallus_result_t \<times> gs_action list"

text \<open>
  The loop of \<open>global_state_wait_for\<close>: the final state, and unless the caller is still blocked
  the result with what was stored through \<open>cur_sptr\<close> and \<open>cur_gptr\<close>.
\<close>

definition wait_for_exit :: "gstate \<Rightarrow> global_state \<Rightarrow> gallus_result_t" where
  "wait_for_exit g w =
    (if w \<le> s_gs g then GALLUS_RESULT_OK
     else if IS_GLOBAL_STATE_SHUTDOWN (s_gs g) \<and> \<not> IS_GLOBAL_STATE_SHUTDOWN w
     then GALLUS_RESULT_NOT_OPERATIONAL
     else GALLUS_RESULT_OK)"

fun wait_for_loop ::
  "gs_wake list \<Rightarrow> global_state \<Rightarrow> gstate \<Rightarrow>
   gstate \<times> (gallus_result_t \<times> (global_state \<times> shutdown_grace_level) option) option" where
  "wait_for_loop [] w g =
    (if s_gs g < w \<and> \<not> IS_GLOBAL_STATE_SHUTDOWN (s_gs g) then (g, None)
     else (g, Some (wait_for_exit g w, Some (s_gs g, s_gl g))))"
| "wait_for_loop ((r, as) # ws) w g =
    (if s_gs g < w \<and> \<not> IS_GLOBAL_STATE_SHUTDOWN (s_gs g) then
       (let g' = gs_acts as g in
        if r = GALLUS_RESULT_OK then wait_for_loop ws w g' else (g', Some (r, None)))
     else (g, Some (wait_for_exit g w, Some (s_gs g, s_gl g))))"

definition global_state_wait_for ::
  "gs_wake list \<Rightarrow> gstate \<Rightarrow> global_state \<Rightarrow>
   gstate \<times> (gallus_result_t \<times> (global_state \<times> shutdown_grace_level) option) option" where
  "global_state_wait_for ws g w =
    (if IS_VALID_GLOBAL_STATE w then wait_for_loop ws w g
     else (g, Some (GALLUS_RESULT_INVALID_ARGS, None)))"

definition global_state_wait_for_shutdown_request ::
  "gs_wake list \<Rightarrow> gstate \<Rightarrow> gstate \<times> (gallus_result_t \<times> shutdown_grace_level option) option" where
  "global_state_wait_for_shutdown_request ws g =
    (let (g', res) = global_state_wait_for ws g GLOBAL_STATE_REQUEST_SHUTDOWN in
     (g', map_option (\<lambda>(r, out). (r, map_option snd out)) res))"

text \<open>
  The loop of \<open>global_state_request_shutdown\<close> waits without a time limit until someone accepts
  the request; \<open>ret\<close> is the variable the loop carries.
\<close>

fun request_loop :: "gs_wake list \<Rightarrow> gallus_result_t \<Rightarrow> gstate \<Rightarrow> gstate \<times> gallus_result_t option" where
  "request_loop [] ret g =
    (if \<not> IS_GLOBAL_STATE_SHUTDOWN (s_gs g) then (g, None) else (g, Some ret))"
| "request_loop ((r, as) # ws) ret g =
    (if \<not> IS_GLOBAL_STATE_SHUTDOWN (s_gs g) then
       (let g' = gs_acts as g in
        if r = GALLUS_RESULT_OK then request_loop ws r g' else (g', Some r))
     else (g, Some ret))"

definition global_state_request_shutdown ::
  "gs_wake list \<Rightarrow> gstate \<Rightarrow> shutdown_grace_level \<Rightarrow> gstate \<times> gallus_result_t option" where
  "global_state_request_shutdown ws g l =
    (if IS_VALID_SHUTDOWN l then
       (if \<not> IS_GLOBAL_STATE_SHUTDOWN (s_gs g) \<and> s_gs g \<noteq> GLOBAL_STATE_REQUEST_SHUTDOWN then
          (if s_is_valid_state g GLOBAL_STATE_REQUEST_SHUTDOWN
           then request_loop ws GALLUS_RESULT_ANY_FAILURES (request_enter g l)
           else (g, Some GALLUS_RESULT_INVALID_STATE_TRANSITION))
        else (g, Some GALLUS_RESULT_ANY_FAILURES))
     else (g, Some GALLUS_RESULT_INVALID_ARGS))"

subsection \<open>The state only moves forward\<close>

lemma global_state_set_forward: "s_gs g \<le> s_gs (fst (global_state_set g s))"
  by (simp add: global_state_set_def s_is_valid_state_def)

lemma request_enter_forward: "s_gs g \<le> s_gs (request_enter g l)"
  by (simp add: request_enter_def s_is_valid_state_def)

lemma gs_act_forward: "a \<noteq> Act_reset \<Longrightarrow> s_gs g \<le> s_gs (gs_act a g)"
  by (cases a) (simp_all add: global_state_set_forward request_enter_forward)

text \<open>Only a reset moves the state backwards.\<close>

lemma gs_acts_forward: "Act_reset \<notin> set as \<Longrightarrow> s_gs g \<le> s_gs (gs_acts as g)"
proof (induction as arbitrary: g)
  case Nil
  then show ?case by (simp add: gs_acts_def)
next
  case (Cons a as)
  have "s_gs g \<le> s_gs (gs_act a g)" using Cons.prems by (intro gs_act_forward) auto
  also have "\<dots> \<le> s_gs (gs_acts as (gs_act a g))" using Cons.prems by (intro Cons.IH) simp
  finally show ?case by (simp add: gs_acts_def)
qed

text \<open>The grace level is fixed by the first request: it changes only while leaving a state before
  \<open>GLOBAL_STATE_REQUEST_SHUTDOWN\<close>.\<close>

lemma gs_act_level:
  "GLOBAL_STATE_REQUEST_SHUTDOWN \<le> s_gs g \<Longrightarrow> s_gl (gs_act a g) = s_gl g"
  by (cases a; cases "s_gs g")
    (auto simp: global_state_set_def request_enter_def s_is_valid_state_def global_state_reset_def gs_preds)

lemma gs_acts_level:
  "GLOBAL_STATE_REQUEST_SHUTDOWN \<le> s_gs g \<Longrightarrow> Act_reset \<notin> set as \<Longrightarrow> s_gl (gs_acts as g) = s_gl g"
proof (induction as arbitrary: g)
  case Nil
  then show ?case by (simp add: gs_acts_def)
next
  case (Cons a as)
  then have "GLOBAL_STATE_REQUEST_SHUTDOWN \<le> s_gs (gs_act a g)"
    using gs_act_forward [of a g] order_trans by auto
  from Cons.IH [OF this] gs_act_level [OF Cons.prems(1)] Cons.prems(2) show ?case
    by (simp add: gs_acts_def)
qed



subsection \<open>Waiting\<close>

text \<open>A result that no wait reported comes from the final test of the loop.\<close>

lemma wait_for_loop_result:
  "wait_for_loop ws w g = (g', Some (ret, out)) \<Longrightarrow> \<forall>(r, as) \<in> set ws. r \<noteq> ret \<or> r = GALLUS_RESULT_OK \<Longrightarrow>
   ret = GALLUS_RESULT_OK \<and> out = Some (s_gs g', s_gl g') \<and>
   (w \<le> s_gs g' \<or> IS_GLOBAL_STATE_SHUTDOWN w \<and> IS_GLOBAL_STATE_SHUTDOWN (s_gs g'))"
proof (induction ws w g rule: wait_for_loop.induct)
  case (1 w g)
  then show ?case
    by (auto simp: wait_for_exit_def gs_preds not_less split: if_splits)
next
  case (2 r as ws w g)
  show ?case
  proof (cases "s_gs g < w \<and> \<not> IS_GLOBAL_STATE_SHUTDOWN (s_gs g)")
    case True
    with 2 show ?thesis by (auto simp: Let_def split: if_splits)
  next
    case False
    with "2.prems" show ?thesis
      by (auto simp: wait_for_exit_def gs_preds not_less split: if_splits)
  qed
qed

text \<open>A script in which nobody resets the tracker.\<close>

definition no_reset :: "gs_wake list \<Rightarrow> bool" where
  "no_reset ws \<longleftrightarrow> (\<forall>(r, as) \<in> set ws. Act_reset \<notin> set as)"

lemma no_reset_Cons [simp]: "no_reset ((r, as) # ws) \<longleftrightarrow> Act_reset \<notin> set as \<and> no_reset ws"
  by (simp add: no_reset_def)

lemma wait_for_loop_forward:
  "wait_for_loop ws w g = (g', res) \<Longrightarrow> no_reset ws \<Longrightarrow> s_gs g \<le> s_gs g'"
proof (induction ws w g rule: wait_for_loop.induct)
  case (2 r as ws w g)
  then show ?case
    by (auto simp: Let_def split: if_splits intro: order_trans [OF gs_acts_forward] gs_acts_forward)
qed (auto split: if_splits)

text \<open>
  Waiting for a state: when the waits themselves succeed (every wait of the script returned
  OK), a call that returns has result OK, reports the current state and grace level, and, if the
  awaited state comes before the shutdown states, that state has been reached. In particular the
  branch that returns \<open>GALLUS_RESULT_NOT_OPERATIONAL\<close> is never taken, whatever happens while
  waiting.
\<close>

theorem global_state_wait_for_result:
  assumes "IS_VALID_GLOBAL_STATE w" "\<forall>(r, as) \<in> set ws. r = GALLUS_RESULT_OK" "no_reset ws"
    and "global_state_wait_for ws g w = (g', Some (ret, out))"
  shows "ret = GALLUS_RESULT_OK \<and> out = Some (s_gs g', s_gl g') \<and> s_gs g \<le> s_gs g' \<and>
     (\<not> IS_GLOBAL_STATE_SHUTDOWN w \<longrightarrow> w \<le> s_gs g')"
proof -
  have loop: "wait_for_loop ws w g = (g', Some (ret, out))"
    using assms(1,4) by (simp add: global_state_wait_for_def)
  show ?thesis
    using wait_for_loop_result [OF loop] wait_for_loop_forward [OF loop assms(3)] assms(2) by auto
qed

theorem global_state_wait_for_result_witness:
  "global_state_wait_for [(GALLUS_RESULT_OK, [Act_set GLOBAL_STATE_STARTING]),
      (GALLUS_RESULT_OK, [Act_request SHUTDOWN_RIGHT_NOW, Act_set GLOBAL_STATE_ACCEPT_SHUTDOWN])]
      gstate_init GLOBAL_STATE_STARTED =
    (\<lparr>s_gs = GLOBAL_STATE_ACCEPT_SHUTDOWN, s_gl = SHUTDOWN_RIGHT_NOW\<rparr>,
     Some (GALLUS_RESULT_OK, Some (GLOBAL_STATE_ACCEPT_SHUTDOWN, SHUTDOWN_RIGHT_NOW))) \<and>
   GLOBAL_STATE_STARTED \<le> GLOBAL_STATE_ACCEPT_SHUTDOWN"
proof -
  let ?ws = "[(GALLUS_RESULT_OK, [Act_set GLOBAL_STATE_STARTING]),
      (GALLUS_RESULT_OK, [Act_request SHUTDOWN_RIGHT_NOW, Act_set GLOBAL_STATE_ACCEPT_SHUTDOWN])]"
  have run: "global_state_wait_for ?ws gstate_init GLOBAL_STATE_STARTED =
    (\<lparr>s_gs = GLOBAL_STATE_ACCEPT_SHUTDOWN, s_gl = SHUTDOWN_RIGHT_NOW\<rparr>,
     Some (GALLUS_RESULT_OK, Some (GLOBAL_STATE_ACCEPT_SHUTDOWN, SHUTDOWN_RIGHT_NOW)))"
    by (simp add: global_state_wait_for_def gstate_init_def gs_acts_def global_state_set_def
        request_enter_def s_is_valid_state_def wait_for_exit_def gs_preds)
  have "IS_VALID_GLOBAL_STATE GLOBAL_STATE_STARTED" by (simp add: gs_preds)
  from global_state_wait_for_result [OF this _ _ run] run show ?thesis
    by (simp add: gs_preds no_reset_def)
qed

subsection \<open>Requesting a shutdown\<close>

lemma request_loop_result:
  "request_loop ws ret g = (g', Some res) \<Longrightarrow> \<forall>(r, as) \<in> set ws. r = GALLUS_RESULT_OK \<Longrightarrow>
   IS_GLOBAL_STATE_SHUTDOWN (s_gs g') \<and>
   (res = (if IS_GLOBAL_STATE_SHUTDOWN (s_gs g) then ret else GALLUS_RESULT_OK))"
proof (induction ws ret g rule: request_loop.induct)
  case (2 r as ws ret g)
  then show ?case by (auto simp: Let_def split: if_splits)
qed (auto split: if_splits)

lemma request_loop_level:
  "GLOBAL_STATE_REQUEST_SHUTDOWN \<le> s_gs g \<Longrightarrow> request_loop ws ret g = (g', res) \<Longrightarrow> no_reset ws \<Longrightarrow>
    s_gl g' = s_gl g"
proof (induction ws ret g rule: request_loop.induct)
  case (2 r as ws ret g)
  have "GLOBAL_STATE_REQUEST_SHUTDOWN \<le> s_gs (gs_acts as g)"
    using "2.prems"(1,3) gs_acts_forward [of as g] order_trans by auto
  with 2 show ?case by (auto simp: Let_def gs_acts_level split: if_splits)
qed (auto split: if_splits)

text \<open>
  The first shutdown request made before a shutdown is pending blocks until a thread moves the
  state to \<open>GLOBAL_STATE_ACCEPT_SHUTDOWN\<close> or beyond; it then returns OK and the requested grace
  level is in force. A request made while one is pending, or after it was accepted, returns
  \<open>GALLUS_RESULT_ANY_FAILURES\<close> at once and changes nothing.
\<close>

theorem global_state_request_shutdown_result:
  assumes "IS_VALID_SHUTDOWN l" "\<forall>(r, as) \<in> set ws. r = GALLUS_RESULT_OK" "no_reset ws"
    and "global_state_request_shutdown ws g l = (g', Some ret)"
  shows "if GLOBAL_STATE_REQUEST_SHUTDOWN \<le> s_gs g
     then ret = GALLUS_RESULT_ANY_FAILURES \<and> g' = g
     else ret = GALLUS_RESULT_OK \<and> IS_GLOBAL_STATE_SHUTDOWN (s_gs g') \<and> s_gl g' = l"
proof (cases "GLOBAL_STATE_REQUEST_SHUTDOWN \<le> s_gs g")
  case True
  then have "IS_GLOBAL_STATE_SHUTDOWN (s_gs g) \<or> s_gs g = GLOBAL_STATE_REQUEST_SHUTDOWN"
    by (cases "s_gs g") (simp_all add: gs_preds)
  with True assms show ?thesis by (auto simp: global_state_request_shutdown_def)
next
  case False
  let ?g = "g\<lparr>s_gs := GLOBAL_STATE_REQUEST_SHUTDOWN, s_gl := l\<rparr>"
  from False have enter: "request_enter g l = ?g" "\<not> IS_GLOBAL_STATE_SHUTDOWN (s_gs g)"
      "s_gs g \<noteq> GLOBAL_STATE_REQUEST_SHUTDOWN" "s_is_valid_state g GLOBAL_STATE_REQUEST_SHUTDOWN"
    using assms(1) by (auto simp: request_enter_def s_is_valid_state_def gs_preds)
  then have loop: "request_loop ws GALLUS_RESULT_ANY_FAILURES ?g = (g', Some ret)"
    using assms by (simp add: global_state_request_shutdown_def)
  have "\<not> IS_GLOBAL_STATE_SHUTDOWN (s_gs ?g)" by (simp add: gs_preds)
  with request_loop_result [OF loop assms(2)] request_loop_level [OF _ loop assms(3)] False
  show ?thesis by simp
qed

theorem global_state_request_shutdown_result_witness:
  "global_state_request_shutdown
      [(GALLUS_RESULT_OK, [Act_request SHUTDOWN_RIGHT_NOW, Act_set GLOBAL_STATE_SHUTTINGDOWN])]
      \<lparr>s_gs = GLOBAL_STATE_STARTED, s_gl = SHUTDOWN_UNKNOWN\<rparr> SHUTDOWN_GRACEFULLY =
    (\<lparr>s_gs = GLOBAL_STATE_SHUTTINGDOWN, s_gl = SHUTDOWN_GRACEFULLY\<rparr>, Some GALLUS_RESULT_OK) \<and>
   s_gl \<lparr>s_gs = GLOBAL_STATE_SHUTTINGDOWN, s_gl = SHUTDOWN_GRACEFULLY\<rparr> = SHUTDOWN_GRACEFULLY"
proof -
  have run: "global_state_request_shutdown
      [(GALLUS_RESULT_OK, [Act_request SHUTDOWN_RIGHT_NOW, Act_set GLOBAL_STATE_SHUTTINGDOWN])]
      \<lparr>s_gs = GLOBAL_STATE_STARTED, s_gl = SHUTDOWN_UNKNOWN\<rparr> SHUTDOWN_GRACEFULLY =
    (\<lparr>s_gs = GLOBAL_STATE_SHUTTINGDOWN, s_gl = SHUTDOWN_GRACEFULLY\<rparr>, Some GALLUS_RESULT_OK)"
    by (simp add: global_state_request_shutdown_def gs_acts_def global_state_set_def
        request_enter_def s_is_valid_state_def gs_preds)
  have "IS_VALID_SHUTDOWN SHUTDOWN_GRACEFULLY" by (simp add: gs_preds)
  from global_state_request_shutdown_result [OF this _ _ run] run show ?thesis
    by (simp add: gs_preds no_reset_def split: if_splits)
qed

end
