(* ===== verification/CBuffer.thy ===== *)
theory CBuffer
  imports Gallus_Base
begin

unbundle bit_operations_syntax

text \<open>
  The circular buffer (\<^verbatim>\<open>framework/lib/cbuffer.c\<close>), which is also the bounded blocking
  queue \<^verbatim>\<open>gallus_bbq_t\<close> of the callout scheduler, the pools and the queue muxer.

  The record has the fields of \<^verbatim>\<open>gallus_cbuffer_record\<close> but its mutex and condition
  variables. \<open>m_data\<close> is the flexible array of bytes, \<open>m_n_max_allocd_elements\<close> elements of
  \<open>m_element_size\<close> bytes; the value free-up procedure and the muxer are foreign code, so calls of
  them, and the condition variable notifications, are recorded in order in \<open>m_trace\<close>.

  An operation between \<^verbatim>\<open>s_lock\<close> and \<^verbatim>\<open>s_unlock\<close> is atomic. A blocking operation
  takes a script with one entry per wait: the code \<^verbatim>\<open>gallus_cond_wait\<close> returned, what other
  threads did to the buffer while the lock was released, and the time the wait took. When the
  script ends the operation is still waiting and its result is None.
\<close>

datatype cb_effect =
    Notify_get
  | Notify_put
  | Notify_awakened
  | Notify_qmuxer nat
  | Del_value "byte list"

record cbuffer =
  m_r_idx :: int
  m_w_idx :: int
  m_n_elements :: int
  m_n_waiters :: nat
  m_is_operational :: bool
  m_is_awakened :: bool
  m_del_proc :: bool
  m_element_size :: nat
  m_n_max_elements :: int
  m_n_max_allocd_elements :: int
  m_qmuxer :: "nat option"
  m_type :: int
  m_data :: "byte list"
  m_trace :: "cb_effect list"

definition N_EMPTY_ROOM :: int where
  "N_EMPTY_ROOM = 1"

definition GALLUS_QMUXER_POLL_READABLE :: int where
  "GALLUS_QMUXER_POLL_READABLE = 1"

definition GALLUS_QMUXER_POLL_WRITABLE :: int where
  "GALLUS_QMUXER_POLL_WRITABLE = 2"

definition NEED_WAIT_READABLE :: "int \<Rightarrow> bool" where
  "NEED_WAIT_READABLE type \<longleftrightarrow> type AND GALLUS_QMUXER_POLL_READABLE = GALLUS_QMUXER_POLL_READABLE"

definition NEED_WAIT_WRITABLE :: "int \<Rightarrow> bool" where
  "NEED_WAIT_WRITABLE type \<longleftrightarrow> type AND GALLUS_QMUXER_POLL_WRITABLE = GALLUS_QMUXER_POLL_WRITABLE"

definition emit :: "cb_effect list \<Rightarrow> cbuffer \<Rightarrow> cbuffer" where
  "emit es cb = cb\<lparr>m_trace := m_trace cb @ es\<rparr>"

text \<open>\<^verbatim>\<open>qmuxer_notify\<close> on the buffer's muxer, if it has one.\<close>

definition notify_qmuxer :: "cbuffer \<Rightarrow> cbuffer" where
  "notify_qmuxer cb = (case m_qmuxer cb of None \<Rightarrow> cb | Some q \<Rightarrow> emit [Notify_qmuxer q] cb)"

subsection \<open>Indices and copies\<close>

definition s_adjust_indices :: "cbuffer \<Rightarrow> cbuffer" where
  "s_adjust_indices cb =
    (if m_w_idx cb \<ge> 0 then cb
     else cb\<lparr>m_w_idx := m_n_max_allocd_elements cb,
             m_r_idx := c_mod (m_r_idx cb) (m_n_max_allocd_elements cb)\<rparr>)"

definition s_data_addr :: "cbuffer \<Rightarrow> int \<Rightarrow> nat option" where
  "s_data_addr cb idx =
    (if idx \<ge> 0 then Some (nat (c_mod idx (m_n_max_allocd_elements cb)) * m_element_size cb) else None)"

definition s_freeup_one :: "int \<Rightarrow> cbuffer \<Rightarrow> cbuffer" where
  "s_freeup_one i cb =
    (case s_data_addr cb i of
       None \<Rightarrow> cb
     | Some addr \<Rightarrow> emit [Del_value (take (m_element_size cb) (drop addr (m_data cb)))] cb)"

definition s_freeup_all_values :: "cbuffer \<Rightarrow> cbuffer" where
  "s_freeup_all_values cb =
    (if m_del_proc cb then
       (let cb = s_adjust_indices cb in
        fold s_freeup_one (map (\<lambda>k. m_r_idx cb + int k) [0..<nat (m_w_idx cb - m_r_idx cb)]) cb)
     else cb)"

definition s_clean :: "bool \<Rightarrow> cbuffer \<Rightarrow> cbuffer" where
  "s_clean free_values cb =
    (let cb = (if free_values then s_freeup_all_values cb else cb) in
     cb\<lparr>m_r_idx := 0, m_w_idx := 0,
        m_data := replicate (m_element_size cb * nat (m_n_max_allocd_elements cb)) 0,
        m_n_elements := 0\<rparr>)"

definition s_shutdown :: "bool \<Rightarrow> cbuffer \<Rightarrow> cbuffer" where
  "s_shutdown free_values cb =
    (if m_is_operational cb then
       (let cb = s_clean free_values (cb\<lparr>m_is_operational := False\<rparr>) in
        emit [Notify_get, Notify_put, Notify_awakened] (notify_qmuxer cb))
     else cb)"

definition s_copyin :: "cbuffer \<Rightarrow> byte list \<Rightarrow> nat \<Rightarrow> cbuffer \<times> int" where
  "s_copyin cb buf n =
    (let max_rooms = m_n_max_elements cb - m_n_elements cb;
         max_n = (if max_rooms < s64 (int n) then max_rooms else s64 (int n));
         cb = s_adjust_indices cb
     in if max_n > 0 then
          (let es = m_element_size cb;
               alloc = m_n_max_allocd_elements cb;
               idx = c_mod (m_w_idx cb) alloc;
               data =
                 (if idx + max_n \<le> alloc
                  then blit (m_data cb) (nat idx * es) buf 0 (nat max_n * es)
                  else
                    (let max_n_0 = alloc - idx;
                         max_n_0_sz = nat max_n_0 * es;
                         max_n_1 = max_n - max_n_0
                     in blit (blit (m_data cb) (nat idx * es) buf 0 max_n_0_sz)
                          0 buf max_n_0_sz (nat max_n_1 * es)));
               cb = cb\<lparr>m_data := data, m_n_elements := m_n_elements cb + max_n,
                       m_w_idx := s64 (m_w_idx cb + max_n)\<rparr>;
               cb = (if NEED_WAIT_READABLE (m_type cb) then notify_qmuxer cb else cb)
           in (emit [Notify_get] cb, max_n))
        else (cb, max_n))"

text \<open>The bytes stored at \<open>buf\<close> are the third component.\<close>

definition s_copyout :: "cbuffer \<Rightarrow> nat \<Rightarrow> bool \<Rightarrow> cbuffer \<times> int \<times> byte list" where
  "s_copyout cb n do_incr =
    (let max_n = (if s64 (int n) < m_n_elements cb then s64 (int n) else m_n_elements cb);
         cb = s_adjust_indices cb
     in if max_n > 0 then
          (let es = m_element_size cb;
               alloc = m_n_max_allocd_elements cb;
               idx = c_mod (m_r_idx cb) alloc;
               out =
                 (if idx + max_n \<le> alloc
                  then take (nat max_n * es) (drop (nat idx * es) (m_data cb))
                  else
                    (let max_n_0 = alloc - idx;
                         max_n_0_sz = nat max_n_0 * es;
                         max_n_1 = max_n - max_n_0
                     in take max_n_0_sz (drop (nat idx * es) (m_data cb)) @
                        take (nat max_n_1 * es) (m_data cb)));
               cb =
                 (if do_incr then
                    (let cb = cb\<lparr>m_n_elements := m_n_elements cb - max_n,
                                 m_r_idx := s64 (m_r_idx cb + max_n)\<rparr>;
                         cb = (if NEED_WAIT_WRITABLE (m_type cb) then notify_qmuxer cb else cb)
                     in emit [Notify_put] cb)
                  else cb)
           in (cb, max_n, out))
        else (cb, max_n, []))"

subsection \<open>Waiting\<close>

type_synonym cb_wake = "gallus_result_t \<times> (cbuffer \<Rightarrow> cbuffer) \<times> gallus_chrono_t"

definition s_wait_begin :: "cbuffer \<Rightarrow> cbuffer" where
  "s_wait_begin cb = cb\<lparr>m_n_waiters := m_n_waiters cb + 1\<rparr>"

text \<open>The part of \<open>s_wait_io_ready\<close> after \<^verbatim>\<open>gallus_cond_wait\<close> has returned \<open>ret\<close>.\<close>

definition s_wait_end :: "gallus_result_t \<Rightarrow> cbuffer \<Rightarrow> cbuffer \<times> gallus_result_t" where
  "s_wait_end ret cb =
    (let cb = cb\<lparr>m_n_waiters := m_n_waiters cb - 1\<rparr>;
         n_waiters = m_n_waiters cb
     in if ret = GALLUS_RESULT_OK \<and> m_is_awakened cb then
          (if m_is_operational cb then
             (if n_waiters = 0 then emit [Notify_awakened] (cb\<lparr>m_is_awakened := False\<rparr>) else cb,
              GALLUS_RESULT_WAKEUP_REQUESTED)
           else
             (emit [Notify_awakened] (cb\<lparr>m_is_awakened := False\<rparr>), GALLUS_RESULT_NOT_OPERATIONAL))
        else (cb, ret))"

definition s_wait_io_ready :: "cb_wake \<Rightarrow> cbuffer \<Rightarrow> gallus_chrono_t \<Rightarrow> cbuffer \<times> gallus_result_t" where
  "s_wait_io_ready wk cb nsec =
    (case wk of (ret, env, elapsed) \<Rightarrow>
       if nsec \<noteq> 0 then s_wait_end ret (env (s_wait_begin cb)) else (cb, GALLUS_RESULT_OK))"

subsection \<open>Putting\<close>

text \<open>
  One pass over the body at the labels \<open>check_inf\<close> and \<open>check_to\<close> of \<open>s_put_n\<close>: either the call
  is decided, or it must wait. \<open>ret\<close> is the variable of the code, kept by the branch that only logs.
\<close>

datatype 's iteration = Iter_return 's int int | Iter_wait 's int

definition put_iteration ::
  "byte list \<Rightarrow> nat \<Rightarrow> nat \<Rightarrow> int \<Rightarrow> gallus_result_t \<Rightarrow> cbuffer \<Rightarrow> cbuffer iteration" where
  "put_iteration val n_vals valsz n_copyin ret cb =
    (if m_is_operational cb then
       (let (cb, k) = s_copyin cb (drop (nat n_copyin * valsz) val) (n_vals - nat n_copyin);
            n_copyin = n_copyin + k
        in if nat n_copyin < n_vals then
             (if m_n_elements cb \<ge> m_n_max_elements cb then Iter_wait cb n_copyin
              else Iter_return cb n_copyin ret)
           else Iter_return cb n_copyin n_copyin)
     else Iter_return cb n_copyin GALLUS_RESULT_NOT_OPERATIONAL)"

fun s_put_n_inf ::
  "cb_wake list \<Rightarrow> byte list \<Rightarrow> nat \<Rightarrow> nat \<Rightarrow> int \<Rightarrow> gallus_result_t \<Rightarrow> cbuffer \<Rightarrow>
   cbuffer \<times> int \<times> gallus_result_t option" where
  "s_put_n_inf [] val n_vals valsz n_copyin ret cb =
    (case put_iteration val n_vals valsz n_copyin ret cb of
       Iter_return cb n r \<Rightarrow> (cb, n, Some r)
     | Iter_wait cb n \<Rightarrow> (s_wait_begin cb, n, None))"
| "s_put_n_inf (wk # ws) val n_vals valsz n_copyin ret cb =
    (case put_iteration val n_vals valsz n_copyin ret cb of
       Iter_return cb n r \<Rightarrow> (cb, n, Some r)
     | Iter_wait cb n \<Rightarrow>
         (let (cb, r) = s_wait_io_ready wk cb (- 1) in
          if r = GALLUS_RESULT_OK then s_put_n_inf ws val n_vals valsz n r cb
          else (cb, n, Some r)))"

fun s_put_n_to ::
  "cb_wake list \<Rightarrow> byte list \<Rightarrow> nat \<Rightarrow> nat \<Rightarrow> gallus_chrono_t \<Rightarrow> int \<Rightarrow> gallus_result_t \<Rightarrow> cbuffer \<Rightarrow>
   cbuffer \<times> int \<times> gallus_result_t option" where
  "s_put_n_to [] val n_vals valsz to n_copyin ret cb =
    (case put_iteration val n_vals valsz n_copyin ret cb of
       Iter_return cb n r \<Rightarrow> (cb, n, Some r)
     | Iter_wait cb n \<Rightarrow> (s_wait_begin cb, n, None))"
| "s_put_n_to (wk # ws) val n_vals valsz to n_copyin ret cb =
    (case put_iteration val n_vals valsz n_copyin ret cb of
       Iter_return cb n r \<Rightarrow> (cb, n, Some r)
     | Iter_wait cb n \<Rightarrow>
         (let (cb, r) = s_wait_io_ready wk cb to in
          if r = GALLUS_RESULT_OK then
            (let to = to - snd (snd wk) in
             if to > 0 then s_put_n_to ws val n_vals valsz to n r cb
             else (cb, n, Some GALLUS_RESULT_TIMEDOUT))
          else (cb, n, Some r)))"

text \<open>
  The handle is NULL or points to a buffer; the value pointer is NULL or points to the bytes of
  \<open>n_vals\<close> elements. The result holds the buffer, the return value (None while blocked) and the
  count stored through \<open>n_actual_put\<close> on return.
\<close>

definition s_put_n ::
  "cb_wake list \<Rightarrow> cbuffer option \<Rightarrow> byte list option \<Rightarrow> nat \<Rightarrow> nat \<Rightarrow> gallus_chrono_t \<Rightarrow>
   cbuffer option \<times> gallus_result_t option \<times> int" where
  "s_put_n ws cbptr valptr n_vals valsz nsec =
    (case (cbptr, valptr) of
       (Some cb, Some val) \<Rightarrow>
         if valsz = m_element_size cb then
           (if n_vals > 0 then
              (if nsec = 0 then
                 (if m_is_operational cb
                  then (let (cb, k) = s_copyin cb val n_vals in (Some cb, Some k, k))
                  else (Some cb, Some GALLUS_RESULT_NOT_OPERATIONAL, 0))
               else if nsec < 0 then
                 (let (cb, n, r) = s_put_n_inf ws val n_vals valsz 0 GALLUS_RESULT_ANY_FAILURES cb
                  in (Some cb, r, n))
               else
                 (let (cb, n, r) = s_put_n_to ws val n_vals valsz nsec 0 GALLUS_RESULT_ANY_FAILURES cb
                  in (Some cb, r, n)))
            else (Some cb, Some GALLUS_RESULT_OK, 0))
         else (Some cb, Some GALLUS_RESULT_INVALID_ARGS, 0)
     | _ \<Rightarrow> (cbptr, Some GALLUS_RESULT_INVALID_ARGS, 0))"

definition gallus_cbuffer_put_n_with_size ::
  "cb_wake list \<Rightarrow> cbuffer option \<Rightarrow> byte list option \<Rightarrow> nat \<Rightarrow> nat \<Rightarrow> gallus_chrono_t \<Rightarrow>
   cbuffer option \<times> gallus_result_t option \<times> int" where
  "gallus_cbuffer_put_n_with_size ws cbptr valptr n_vals valsz nsec =
    s_put_n ws cbptr valptr n_vals valsz nsec"

definition gallus_cbuffer_put_with_size ::
  "cb_wake list \<Rightarrow> cbuffer option \<Rightarrow> byte list option \<Rightarrow> nat \<Rightarrow> gallus_chrono_t \<Rightarrow>
   cbuffer option \<times> gallus_result_t option" where
  "gallus_cbuffer_put_with_size ws cbptr valptr valsz nsec =
    (let (cb, n, _) = s_put_n ws cbptr valptr 1 valsz nsec in
     (cb, map_option (\<lambda>n. if n = 1 then GALLUS_RESULT_OK else n) n))"

subsection \<open>Getting and peeking\<close>

text \<open>
  \<open>need\<close> is \<open>n_vals_max\<close> in the loop without a time limit and \<open>n_at_least\<close> in the timed one. The
  bytes stored so far are carried along.
\<close>

definition get_iteration ::
  "nat \<Rightarrow> nat \<Rightarrow> bool \<Rightarrow> byte list \<Rightarrow> int \<Rightarrow> gallus_result_t \<Rightarrow> cbuffer \<Rightarrow>
   (cbuffer \<times> byte list) iteration" where
  "get_iteration n_vals_max need do_incr out n_copyout ret cb =
    (if m_is_operational cb then
       (let (cb, k, bytes) = s_copyout cb (n_vals_max - nat n_copyout) do_incr;
            n_copyout = n_copyout + k;
            out = out @ bytes
        in if nat n_copyout < need then
             (if m_n_elements cb < 1 then Iter_wait (cb, out) n_copyout
              else Iter_return (cb, out) n_copyout ret)
           else Iter_return (cb, out) n_copyout n_copyout)
     else Iter_return (cb, out) n_copyout GALLUS_RESULT_NOT_OPERATIONAL)"

fun s_get_n_inf ::
  "cb_wake list \<Rightarrow> nat \<Rightarrow> bool \<Rightarrow> byte list \<Rightarrow> int \<Rightarrow> gallus_result_t \<Rightarrow> cbuffer \<Rightarrow>
   (cbuffer \<times> byte list) \<times> int \<times> gallus_result_t option" where
  "s_get_n_inf [] n_vals_max do_incr out n_copyout ret cb =
    (case get_iteration n_vals_max n_vals_max do_incr out n_copyout ret cb of
       Iter_return (cb, out) n r \<Rightarrow> ((cb, out), n, Some r)
     | Iter_wait (cb, out) n \<Rightarrow> ((s_wait_begin cb, out), n, None))"
| "s_get_n_inf (wk # ws) n_vals_max do_incr out n_copyout ret cb =
    (case get_iteration n_vals_max n_vals_max do_incr out n_copyout ret cb of
       Iter_return (cb, out) n r \<Rightarrow> ((cb, out), n, Some r)
     | Iter_wait (cb, out) n \<Rightarrow>
         (let (cb, r) = s_wait_io_ready wk cb (- 1) in
          if r = GALLUS_RESULT_OK then s_get_n_inf ws n_vals_max do_incr out n r cb
          else ((cb, out), n, Some r)))"

fun s_get_n_to ::
  "cb_wake list \<Rightarrow> nat \<Rightarrow> nat \<Rightarrow> bool \<Rightarrow> gallus_chrono_t \<Rightarrow> byte list \<Rightarrow> int \<Rightarrow> gallus_result_t \<Rightarrow>
   cbuffer \<Rightarrow> (cbuffer \<times> byte list) \<times> int \<times> gallus_result_t option" where
  "s_get_n_to [] n_vals_max n_at_least do_incr to out n_copyout ret cb =
    (case get_iteration n_vals_max n_at_least do_incr out n_copyout ret cb of
       Iter_return (cb, out) n r \<Rightarrow> ((cb, out), n, Some r)
     | Iter_wait (cb, out) n \<Rightarrow> ((s_wait_begin cb, out), n, None))"
| "s_get_n_to (wk # ws) n_vals_max n_at_least do_incr to out n_copyout ret cb =
    (case get_iteration n_vals_max n_at_least do_incr out n_copyout ret cb of
       Iter_return (cb, out) n r \<Rightarrow> ((cb, out), n, Some r)
     | Iter_wait (cb, out) n \<Rightarrow>
         (let (cb, r) = s_wait_io_ready wk cb to in
          if r = GALLUS_RESULT_OK then
            (let to = to - snd (snd wk) in
             if to > 0 then s_get_n_to ws n_vals_max n_at_least do_incr to out n r cb
             else ((cb, out), n, Some GALLUS_RESULT_TIMEDOUT))
          else ((cb, out), n, Some r)))"

text \<open>The destination pointer is given or NULL; the stored bytes are the last component.\<close>

definition s_get_n ::
  "cb_wake list \<Rightarrow> cbuffer option \<Rightarrow> bool \<Rightarrow> nat \<Rightarrow> nat \<Rightarrow> nat \<Rightarrow> gallus_chrono_t \<Rightarrow> bool \<Rightarrow>
   cbuffer option \<times> gallus_result_t option \<times> int \<times> byte list" where
  "s_get_n ws cbptr valptr n_vals_max n_at_least valsz nsec do_incr =
    (case cbptr of
       Some cb \<Rightarrow>
         if valptr \<and> valsz = m_element_size cb then
           (if n_vals_max > 0 then
              (if nsec = 0 then
                 (if m_is_operational cb
                  then (let (cb, k, out) = s_copyout cb n_vals_max do_incr in (Some cb, Some k, k, out))
                  else (Some cb, Some GALLUS_RESULT_NOT_OPERATIONAL, 0, []))
               else if nsec < 0 then
                 (let ((cb, out), n, r) =
                    s_get_n_inf ws n_vals_max do_incr [] 0 GALLUS_RESULT_ANY_FAILURES cb
                  in (Some cb, r, n, out))
               else
                 (let ((cb, out), n, r) =
                    s_get_n_to ws n_vals_max n_at_least do_incr nsec [] 0 GALLUS_RESULT_ANY_FAILURES cb
                  in (Some cb, r, n, out)))
            else (Some cb, Some GALLUS_RESULT_OK, 0, []))
         else (Some cb, Some GALLUS_RESULT_INVALID_ARGS, 0, [])
     | None \<Rightarrow> (None, Some GALLUS_RESULT_INVALID_ARGS, 0, []))"

definition gallus_cbuffer_get_n_with_size ::
  "cb_wake list \<Rightarrow> cbuffer option \<Rightarrow> bool \<Rightarrow> nat \<Rightarrow> nat \<Rightarrow> nat \<Rightarrow> gallus_chrono_t \<Rightarrow>
   cbuffer option \<times> gallus_result_t option \<times> int \<times> byte list" where
  "gallus_cbuffer_get_n_with_size ws cbptr valptr n_vals_max n_at_least valsz nsec =
    s_get_n ws cbptr valptr n_vals_max n_at_least valsz nsec True"

definition gallus_cbuffer_peek_n_with_size ::
  "cb_wake list \<Rightarrow> cbuffer option \<Rightarrow> bool \<Rightarrow> nat \<Rightarrow> nat \<Rightarrow> nat \<Rightarrow> gallus_chrono_t \<Rightarrow>
   cbuffer option \<times> gallus_result_t option \<times> int \<times> byte list" where
  "gallus_cbuffer_peek_n_with_size ws cbptr valptr n_vals_max n_at_least valsz nsec =
    s_get_n ws cbptr valptr n_vals_max n_at_least valsz nsec False"

definition gallus_cbuffer_get_with_size ::
  "cb_wake list \<Rightarrow> cbuffer option \<Rightarrow> bool \<Rightarrow> nat \<Rightarrow> gallus_chrono_t \<Rightarrow>
   cbuffer option \<times> gallus_result_t option \<times> byte list" where
  "gallus_cbuffer_get_with_size ws cbptr valptr valsz nsec =
    (let (cb, n, _, out) = s_get_n ws cbptr valptr 1 1 valsz nsec True in
     (cb, map_option (\<lambda>n. if n = 1 then GALLUS_RESULT_OK else n) n, out))"

definition gallus_cbuffer_peek_with_size ::
  "cb_wake list \<Rightarrow> cbuffer option \<Rightarrow> bool \<Rightarrow> nat \<Rightarrow> gallus_chrono_t \<Rightarrow>
   cbuffer option \<times> gallus_result_t option \<times> byte list" where
  "gallus_cbuffer_peek_with_size ws cbptr valptr valsz nsec =
    (let (cb, n, _, out) = s_get_n ws cbptr valptr 1 1 valsz nsec False in
     (cb, map_option (\<lambda>n. if n = 1 then GALLUS_RESULT_OK else n) n, out))"

subsection \<open>Creation, shutdown, destruction\<close>

text \<open>
  \<open>mem\<close> is what \<^verbatim>\<open>malloc\<close> returned: NULL, or a block whose flexible array holds some bytes.
  \<open>prims\<close> are the results of creating the mutex and the three condition variables, in this order;
  the first failure stops the chain of \<open>&&\<close>.
\<close>

fun first_failure :: "gallus_result_t list \<Rightarrow> gallus_result_t" where
  "first_failure [] = GALLUS_RESULT_OK"
| "first_failure (r # rs) = (if r = GALLUS_RESULT_OK then first_failure rs else r)"

definition gallus_cbuffer_create_with_size ::
  "byte list option \<Rightarrow> gallus_result_t list \<Rightarrow> cbuffer option option \<Rightarrow> nat \<Rightarrow> int \<Rightarrow> bool \<Rightarrow>
   cbuffer option option \<times> gallus_result_t" where
  "gallus_cbuffer_create_with_size mem prims cbptr elemsize maxelems proc =
    (if cbptr \<noteq> None \<and> elemsize > 0 \<and> maxelems > 0 then
       (case mem of
          None \<Rightarrow> (Some None, GALLUS_RESULT_NO_MEMORY)
        | Some bytes \<Rightarrow>
            (if first_failure prims = GALLUS_RESULT_OK then
               (Some (Some
                  \<lparr>m_r_idx = 0, m_w_idx = 0, m_n_elements = 0, m_n_waiters = 0,
                   m_is_operational = True, m_is_awakened = False, m_del_proc = proc,
                   m_element_size = elemsize, m_n_max_elements = maxelems,
                   m_n_max_allocd_elements = maxelems + N_EMPTY_ROOM,
                   m_qmuxer = None, m_type = 0, m_data = bytes, m_trace = []\<rparr>),
                GALLUS_RESULT_OK)
             else (Some None, first_failure prims)))
     else (cbptr, GALLUS_RESULT_INVALID_ARGS))"

definition gallus_cbuffer_shutdown :: "cbuffer option \<Rightarrow> bool \<Rightarrow> cbuffer option" where
  "gallus_cbuffer_shutdown cbptr free_values = map_option (s_shutdown free_values) cbptr"

text \<open>The handle is NULL afterwards; the second component is what was released or notified.\<close>

definition gallus_cbuffer_destroy :: "cbuffer option \<Rightarrow> bool \<Rightarrow> cbuffer option \<times> cb_effect list" where
  "gallus_cbuffer_destroy cbptr free_values =
    (case cbptr of
       None \<Rightarrow> (None, [])
     | Some cb \<Rightarrow> (None, m_trace (s_shutdown free_values cb)))"

definition gallus_cbuffer_clear :: "cbuffer option \<Rightarrow> bool \<Rightarrow> cbuffer option \<times> gallus_result_t" where
  "gallus_cbuffer_clear cbptr free_values =
    (case cbptr of
       None \<Rightarrow> (None, GALLUS_RESULT_INVALID_ARGS)
     | Some cb \<Rightarrow>
         (let cb = s_clean free_values cb;
              cb = (if NEED_WAIT_READABLE (m_type cb) then notify_qmuxer cb else cb)
          in (Some (emit [Notify_put] cb), GALLUS_RESULT_OK)))"

subsection \<open>Waking the waiters up\<close>

fun wakeup_recheck :: "cb_wake list \<Rightarrow> cbuffer \<Rightarrow> cbuffer \<times> gallus_result_t option" where
  "wakeup_recheck [] cb =
    (if m_is_operational cb then
       (if m_is_awakened cb then (cb, None) else (cb, Some GALLUS_RESULT_OK))
     else (cb, Some GALLUS_RESULT_NOT_OPERATIONAL))"
| "wakeup_recheck ((ret, env, elapsed) # ws) cb =
    (if m_is_operational cb then
       (if m_is_awakened cb then
          (if ret = GALLUS_RESULT_OK then wakeup_recheck ws (env cb) else (env cb, Some ret))
        else (cb, Some GALLUS_RESULT_OK))
     else (cb, Some GALLUS_RESULT_NOT_OPERATIONAL))"

definition gallus_cbuffer_wakeup ::
  "cb_wake list \<Rightarrow> cbuffer option \<Rightarrow> gallus_chrono_t \<Rightarrow> cbuffer option \<times> gallus_result_t option" where
  "gallus_cbuffer_wakeup ws cbptr nsec =
    (case cbptr of
       None \<Rightarrow> (None, Some GALLUS_RESULT_INVALID_ARGS)
     | Some cb \<Rightarrow>
         if m_n_waiters cb > 0 then
           (if m_is_operational cb then
              (if \<not> m_is_awakened cb then
                 (let cb = emit [Notify_get, Notify_put] (cb\<lparr>m_is_awakened := True\<rparr>) in
                  if nsec \<noteq> 0 then (let (cb, r) = wakeup_recheck ws cb in (Some cb, r))
                  else (Some cb, Some GALLUS_RESULT_OK))
               else (Some cb, Some GALLUS_RESULT_OK))
            else (Some cb, Some GALLUS_RESULT_NOT_OPERATIONAL))
         else (Some cb, Some GALLUS_RESULT_OK))"

definition gallus_cbuffer_wait_gettable ::
  "cb_wake list \<Rightarrow> cbuffer option \<Rightarrow> gallus_chrono_t \<Rightarrow> cbuffer option \<times> gallus_result_t option" where
  "gallus_cbuffer_wait_gettable ws cbptr nsec =
    (case cbptr of
       None \<Rightarrow> (None, Some GALLUS_RESULT_INVALID_ARGS)
     | Some cb \<Rightarrow>
         if m_n_elements cb > 0 then (Some cb, Some (m_n_elements cb))
         else if nsec = 0 then (Some cb, Some (m_n_elements cb))
         else
           (case ws of
              [] \<Rightarrow> (Some (s_wait_begin cb), None)
            | wk # _ \<Rightarrow>
                (let (cb, r) = s_wait_io_ready wk cb nsec in
                 (Some cb, Some (if r = GALLUS_RESULT_OK then m_n_elements cb else r)))))"

definition gallus_cbuffer_wait_puttable ::
  "cb_wake list \<Rightarrow> cbuffer option \<Rightarrow> gallus_chrono_t \<Rightarrow> cbuffer option \<times> gallus_result_t option" where
  "gallus_cbuffer_wait_puttable ws cbptr nsec =
    (case cbptr of
       None \<Rightarrow> (None, Some GALLUS_RESULT_INVALID_ARGS)
     | Some cb \<Rightarrow>
         (let remains = m_n_max_elements cb - m_n_elements cb in
          if remains > 0 then (Some cb, Some remains)
          else if nsec = 0 then (Some cb, Some remains)
          else
            (case ws of
               [] \<Rightarrow> (Some (s_wait_begin cb), None)
             | wk # _ \<Rightarrow>
                 (let (cb, r) = s_wait_io_ready wk cb nsec in
                  (Some cb, Some (if r = GALLUS_RESULT_OK
                                  then m_n_max_elements cb - m_n_elements cb else r))))))"

subsection \<open>Queries\<close>

definition gallus_cbuffer_size :: "cbuffer option \<Rightarrow> gallus_result_t" where
  "gallus_cbuffer_size cbptr =
    (case cbptr of
       None \<Rightarrow> GALLUS_RESULT_INVALID_ARGS
     | Some cb \<Rightarrow> if m_is_operational cb then m_n_elements cb else GALLUS_RESULT_NOT_OPERATIONAL)"

definition gallus_cbuffer_remaining_capacity :: "cbuffer option \<Rightarrow> gallus_result_t" where
  "gallus_cbuffer_remaining_capacity cbptr =
    (case cbptr of
       None \<Rightarrow> GALLUS_RESULT_INVALID_ARGS
     | Some cb \<Rightarrow> if m_is_operational cb then m_n_max_elements cb - m_n_elements cb
         else GALLUS_RESULT_NOT_OPERATIONAL)"

definition gallus_cbuffer_max_capacity :: "cbuffer option \<Rightarrow> gallus_result_t" where
  "gallus_cbuffer_max_capacity cbptr =
    (case cbptr of
       None \<Rightarrow> GALLUS_RESULT_INVALID_ARGS
     | Some cb \<Rightarrow> if m_is_operational cb then m_n_max_elements cb else GALLUS_RESULT_NOT_OPERATIONAL)"

text \<open>The predicates store through \<open>retptr\<close>, which is NULL or given.\<close>

definition gallus_cbuffer_is_full :: "cbuffer option \<Rightarrow> bool \<Rightarrow> gallus_result_t \<times> bool option" where
  "gallus_cbuffer_is_full cbptr retptr =
    (case cbptr of
       None \<Rightarrow> (GALLUS_RESULT_INVALID_ARGS, None)
     | Some cb \<Rightarrow>
         if \<not> retptr then (GALLUS_RESULT_INVALID_ARGS, None)
         else if m_is_operational cb
         then (GALLUS_RESULT_OK, Some (m_n_elements cb \<ge> m_n_max_elements cb))
         else (GALLUS_RESULT_NOT_OPERATIONAL, Some False))"

definition gallus_cbuffer_is_empty :: "cbuffer option \<Rightarrow> bool \<Rightarrow> gallus_result_t \<times> bool option" where
  "gallus_cbuffer_is_empty cbptr retptr =
    (case cbptr of
       None \<Rightarrow> (GALLUS_RESULT_INVALID_ARGS, None)
     | Some cb \<Rightarrow>
         if \<not> retptr then (GALLUS_RESULT_INVALID_ARGS, None)
         else if m_is_operational cb then (GALLUS_RESULT_OK, Some (m_n_elements cb = 0))
         else (GALLUS_RESULT_NOT_OPERATIONAL, Some False))"

definition gallus_cbuffer_is_operational :: "cbuffer option \<Rightarrow> bool \<Rightarrow> gallus_result_t \<times> bool option" where
  "gallus_cbuffer_is_operational cbptr retptr =
    (case cbptr of
       None \<Rightarrow> (GALLUS_RESULT_INVALID_ARGS, None)
     | Some cb \<Rightarrow>
         if \<not> retptr then (GALLUS_RESULT_INVALID_ARGS, None)
         else (GALLUS_RESULT_OK, Some (m_is_operational cb)))"

text \<open>
  Registration of a queue muxer before a poll (\<open>is_pre\<close>) and its removal afterwards. The last
  component holds what is stored through \<open>szptr\<close> and \<open>remptr\<close>; the pointers themselves and the
  muxer are given.
\<close>

definition cbuffer_setup_for_qmuxer ::
  "cbuffer option \<Rightarrow> nat \<Rightarrow> int \<Rightarrow> bool \<Rightarrow> cbuffer option \<times> gallus_result_t \<times> (int \<times> int) option" where
  "cbuffer_setup_for_qmuxer cbptr qmx type is_pre =
    (case cbptr of
       None \<Rightarrow> (None, GALLUS_RESULT_INVALID_ARGS, None)
     | Some cb \<Rightarrow>
         if m_is_operational cb then
           (let sz = m_n_elements cb;
                rem = m_n_max_elements cb - m_n_elements cb;
                ret = (if NEED_WAIT_READABLE type \<and> sz = 0 then GALLUS_QMUXER_POLL_READABLE
                       else if NEED_WAIT_WRITABLE type \<and> rem = 0 then GALLUS_QMUXER_POLL_WRITABLE
                       else 0);
                cb = (if is_pre \<and> ret > 0 then cb\<lparr>m_qmuxer := Some qmx, m_type := ret\<rparr>
                      else cb\<lparr>m_qmuxer := None, m_type := 0\<rparr>)
            in (Some cb, ret, Some (sz, rem)))
         else (Some cb, GALLUS_RESULT_NOT_OPERATIONAL, None))"

subsection \<open>The invariant and the stored bytes\<close>

text \<open>
  Indices grow without bound and are reduced modulo the number of allocated elements; the invariant
  holds as long as the write index has not passed the largest \<^verbatim>\<open>int64_t\<close>.
\<close>

definition cb_inv :: "cbuffer \<Rightarrow> bool" where
  "cb_inv cb \<longleftrightarrow>
     0 < m_element_size cb \<and> 0 < m_n_max_elements cb \<and>
     m_n_max_allocd_elements cb = m_n_max_elements cb + 1 \<and>
     length (m_data cb) = nat (m_n_max_allocd_elements cb) * m_element_size cb \<and>
     0 \<le> m_r_idx cb \<and> 0 \<le> m_n_elements cb \<and> m_n_elements cb \<le> m_n_max_elements cb \<and>
     m_w_idx cb = m_r_idx cb + m_n_elements cb \<and> m_w_idx cb < 9223372036854775808"

text \<open>The bytes of the queued elements, oldest first.\<close>

definition cb_contents :: "cbuffer \<Rightarrow> byte list" where
  "cb_contents cb =
     ring_slice (m_data cb) (nat (m_r_idx cb) * m_element_size cb)
       (nat (m_n_elements cb) * m_element_size cb)"

text \<open>How many elements can still be put before the write index would overflow.\<close>

definition cb_headroom :: "cbuffer \<Rightarrow> nat" where
  "cb_headroom cb = nat (9223372036854775807 - m_w_idx cb)"

subsection \<open>Bookkeeping lemmas\<close>

lemma emit_simps [simp]:
  "m_r_idx (emit es cb) = m_r_idx cb" "m_w_idx (emit es cb) = m_w_idx cb"
  "m_n_elements (emit es cb) = m_n_elements cb" "m_n_waiters (emit es cb) = m_n_waiters cb"
  "m_is_operational (emit es cb) = m_is_operational cb"
  "m_is_awakened (emit es cb) = m_is_awakened cb" "m_del_proc (emit es cb) = m_del_proc cb"
  "m_element_size (emit es cb) = m_element_size cb"
  "m_n_max_elements (emit es cb) = m_n_max_elements cb"
  "m_n_max_allocd_elements (emit es cb) = m_n_max_allocd_elements cb"
  "m_qmuxer (emit es cb) = m_qmuxer cb" "m_type (emit es cb) = m_type cb"
  "m_data (emit es cb) = m_data cb" "m_trace (emit es cb) = m_trace cb @ es"
  by (simp_all add: emit_def)

lemma notify_qmuxer_simps [simp]:
  "m_r_idx (notify_qmuxer cb) = m_r_idx cb" "m_w_idx (notify_qmuxer cb) = m_w_idx cb"
  "m_n_elements (notify_qmuxer cb) = m_n_elements cb"
  "m_n_waiters (notify_qmuxer cb) = m_n_waiters cb"
  "m_is_operational (notify_qmuxer cb) = m_is_operational cb"
  "m_is_awakened (notify_qmuxer cb) = m_is_awakened cb"
  "m_del_proc (notify_qmuxer cb) = m_del_proc cb"
  "m_element_size (notify_qmuxer cb) = m_element_size cb"
  "m_n_max_elements (notify_qmuxer cb) = m_n_max_elements cb"
  "m_n_max_allocd_elements (notify_qmuxer cb) = m_n_max_allocd_elements cb"
  "m_qmuxer (notify_qmuxer cb) = m_qmuxer cb" "m_type (notify_qmuxer cb) = m_type cb"
  "m_data (notify_qmuxer cb) = m_data cb"
  by (simp_all add: notify_qmuxer_def split: option.splits)

lemma cb_inv_emit [simp]: "cb_inv (emit es cb) = cb_inv cb"
  by (simp add: cb_inv_def)

lemma cb_inv_notify [simp]: "cb_inv (notify_qmuxer cb) = cb_inv cb"
  by (simp add: cb_inv_def)

lemma cb_contents_emit [simp]: "cb_contents (emit es cb) = cb_contents cb"
  by (simp add: cb_contents_def)

lemma cb_contents_notify [simp]: "cb_contents (notify_qmuxer cb) = cb_contents cb"
  by (simp add: cb_contents_def)

lemma cb_invD:
  assumes "cb_inv cb"
  shows "0 < m_element_size cb" "0 < m_n_max_elements cb"
    "m_n_max_allocd_elements cb = m_n_max_elements cb + 1"
    "length (m_data cb) = nat (m_n_max_elements cb + 1) * m_element_size cb"
    "0 \<le> m_r_idx cb" "0 \<le> m_n_elements cb" "m_n_elements cb \<le> m_n_max_elements cb"
    "m_w_idx cb = m_r_idx cb + m_n_elements cb" "m_w_idx cb < 9223372036854775808"
  using assms by (auto simp: cb_inv_def)

lemma s_adjust_indices_id: "cb_inv cb \<Longrightarrow> s_adjust_indices cb = cb"
  by (simp add: s_adjust_indices_def cb_inv_def)

lemma length_cb_contents: "length (cb_contents cb) = nat (m_n_elements cb) * m_element_size cb"
  by (simp add: cb_contents_def)

text \<open>An element index scaled to a byte position of the ring.\<close>

lemma idx_scale:
  assumes "0 \<le> i" "0 < a"
  shows "nat (c_mod i a) * es = (nat i * es) mod (nat a * es)"
  using assms by (simp add: c_mod_nonneg nat_mod_distrib mod_mult_mult2)

subsection \<open>Copying in and out\<close>

lemma ring_scale:
  assumes "0 \<le> i" "0 < a" "0 < k" "length xs = nat a * es" "0 < es"
  shows "(nat i * es) mod length xs = nat (c_mod i a) * es"
    and "(nat (c_mod i a) * es + nat k * es \<le> length xs) \<longleftrightarrow> c_mod i a + k \<le> a"
    and "length xs - nat (c_mod i a) * es = nat (a - c_mod i a) * es"
    and "nat k * es - nat (a - c_mod i a) * es = nat (k - (a - c_mod i a)) * es"
proof -
  have m: "0 \<le> c_mod i a" "c_mod i a < a" using assms by (simp_all add: c_mod_nonneg)
  show "(nat i * es) mod length xs = nat (c_mod i a) * es"
    unfolding assms(4) by (rule idx_scale [OF assms(1,2), symmetric])
  show "(nat (c_mod i a) * es + nat k * es \<le> length xs) \<longleftrightarrow> c_mod i a + k \<le> a"
    using m assms by (simp flip: add_mult_distrib) (simp add: nat_le_eq_zle flip: nat_add_distrib)
  show "length xs - nat (c_mod i a) * es = nat (a - c_mod i a) * es"
    using m assms by (simp add: nat_diff_distrib diff_mult_distrib)
  have "nat (k - (a - c_mod i a)) = nat k - nat (a - c_mod i a)"
    using m assms by linarith
  then show "nat k * es - nat (a - c_mod i a) * es = nat (k - (a - c_mod i a)) * es"
    by (simp only: diff_mult_distrib)
qed

lemma ring_put_elements:
  assumes "0 \<le> i" "0 < a" "0 < k" "length xs = nat a * es" "0 < es"
  shows "(if c_mod i a + k \<le> a
      then blit xs (nat (c_mod i a) * es) buf 0 (nat k * es)
      else blit (blit xs (nat (c_mod i a) * es) buf 0 (nat (a - c_mod i a) * es)) 0 buf
             (nat (a - c_mod i a) * es) (nat (k - (a - c_mod i a)) * es)) =
    ring_put xs (nat i * es) buf (nat k * es)"
  using ring_scale [OF assms] by (simp add: ring_put_def Let_def)

lemma ring_get_elements:
  assumes "0 \<le> i" "0 < a" "0 < k" "length xs = nat a * es" "0 < es"
  shows "(if c_mod i a + k \<le> a
      then take (nat k * es) (drop (nat (c_mod i a) * es) xs)
      else take (nat (a - c_mod i a) * es) (drop (nat (c_mod i a) * es) xs) @
           take (nat (k - (a - c_mod i a)) * es) xs) =
    ring_get xs (nat i * es) (nat k * es)"
  using ring_scale [OF assms] by (simp add: ring_get_def Let_def)

text \<open>
  Copying in appends as many elements as there is room for; copying out yields the oldest ones.
\<close>

definition put_count :: "cbuffer \<Rightarrow> nat \<Rightarrow> int" where
  "put_count cb n = min (m_n_max_elements cb - m_n_elements cb) (int n)"

definition get_count :: "cbuffer \<Rightarrow> nat \<Rightarrow> int" where
  "get_count cb n = min (m_n_elements cb) (int n)"

text \<open>The fields no operation on elements writes.\<close>

definition same_config :: "cbuffer \<Rightarrow> cbuffer \<Rightarrow> bool" where
  "same_config cb cb' \<longleftrightarrow>
     m_element_size cb' = m_element_size cb \<and> m_n_max_elements cb' = m_n_max_elements cb \<and>
     m_n_max_allocd_elements cb' = m_n_max_allocd_elements cb"

lemma same_config_trans: "same_config a b \<Longrightarrow> same_config b c \<Longrightarrow> same_config a c"
  by (simp add: same_config_def)

lemma same_config_refl [simp]: "same_config a a"
  by (simp add: same_config_def)

lemma s_copyin_spec:
  assumes inv: "cb_inv cb" and buf: "n * m_element_size cb \<le> length buf"
    and room: "n \<le> cb_headroom cb"
    and res: "s_copyin cb buf n = (cb', k)"
  shows "k = put_count cb n" "cb_inv cb'" "same_config cb cb'"
    "cb_contents cb' = cb_contents cb @ take (nat k * m_element_size cb) buf"
    "m_n_elements cb' = m_n_elements cb + k" "m_w_idx cb' = m_w_idx cb + k"
    "m_is_operational cb' = m_is_operational cb" "m_is_awakened cb' = m_is_awakened cb"
    "m_n_waiters cb' = m_n_waiters cb" "m_r_idx cb' = m_r_idx cb"
proof -
  note D = cb_invD [OF inv]
  let ?es = "m_element_size cb" and ?a = "m_n_max_allocd_elements cb"
  have n: "s64 (int n) = int n" using room D by (simp add: cb_headroom_def)
  have k: "k = put_count cb n"
    using res n by (auto simp: s_copyin_def Let_def put_count_def split: if_splits)
  have all: "cb_inv cb' \<and> same_config cb cb' \<and>
      cb_contents cb' = cb_contents cb @ take (nat k * ?es) buf \<and>
      m_n_elements cb' = m_n_elements cb + k \<and> m_w_idx cb' = m_w_idx cb + k \<and>
      m_is_operational cb' = m_is_operational cb \<and> m_is_awakened cb' = m_is_awakened cb \<and>
      m_n_waiters cb' = m_n_waiters cb \<and> m_r_idx cb' = m_r_idx cb"
  proof (cases "0 < k")
    case False
    then have "k = 0" using k D by (auto simp: put_count_def)
    moreover have "cb' = cb"
      using res n False k by (auto simp: s_copyin_def Let_def s_adjust_indices_id [OF inv] split: if_splits)
    ultimately show ?thesis using inv by simp
  next
    case True
    have kn: "k \<le> int n" "k \<le> m_n_max_elements cb - m_n_elements cb"
      using k by (simp_all add: put_count_def)
    have w: "s64 (m_w_idx cb + k) = m_w_idx cb + k"
      using kn True D room by (simp add: cb_headroom_def)
    let ?d = "ring_put (m_data cb) (nat (m_w_idx cb) * ?es) buf (nat k * ?es)"
    have len: "length (m_data cb) = nat ?a * ?es" using D by simp
    have pre: "0 \<le> m_w_idx cb" "0 < ?a" "0 < ?es" using D by auto
    have max_n: "(if m_n_max_elements cb - m_n_elements cb < int n
        then m_n_max_elements cb - m_n_elements cb else int n) = k"
      using k by (simp add: put_count_def min_def)
    have cb': "m_data cb' = ?d" "m_n_elements cb' = m_n_elements cb + k" "m_w_idx cb' = m_w_idx cb + k"
        "m_r_idx cb' = m_r_idx cb" "same_config cb cb'" "m_is_operational cb' = m_is_operational cb"
        "m_is_awakened cb' = m_is_awakened cb" "m_n_waiters cb' = m_n_waiters cb"
      using res True ring_put_elements [OF pre(1,2) True len pre(3), of buf]
      by (auto simp: s_copyin_def Let_def s_adjust_indices_id [OF inv] n max_n w same_config_def
          split: if_splits)
    have kes: "nat k * ?es \<le> length buf"
    proof -
      have "nat k \<le> n" using kn by simp
      then have "nat k * ?es \<le> n * ?es" by (rule mult_le_mono1)
      then show ?thesis using buf by (rule order_trans)
    qed
    have fits: "nat (m_n_elements cb) * ?es + nat k * ?es \<le> length (m_data cb)"
    proof -
      have "nat (m_n_elements cb) + nat k \<le> nat ?a" using kn True D by simp
      then have "(nat (m_n_elements cb) + nat k) * ?es \<le> nat ?a * ?es" by simp
      then show ?thesis by (simp add: len add_mult_distrib)
    qed
    have ne: "m_data cb \<noteq> []" using len pre by auto
    have "length ?d = length (m_data cb)" using fits kes ne by (intro length_ring_put) auto
    then have "cb_inv cb'"
      using D kn w True s64_range [of "m_w_idx cb + k"] cb' unfolding cb_inv_def same_config_def by auto
    moreover have "cb_contents cb' = cb_contents cb @ take (nat k * ?es) buf"
    proof -
      have w_pos: "nat (m_w_idx cb) * ?es = nat (m_r_idx cb) * ?es + nat (m_n_elements cb) * ?es"
        using D by (simp add: nat_add_distrib add_mult_distrib)
      have n_pos: "nat (m_n_elements cb + k) * ?es = nat (m_n_elements cb) * ?es + nat k * ?es"
        using D True by (simp add: nat_add_distrib add_mult_distrib)
      show ?thesis
        using ring_slice_put [OF fits kes ne, of "nat (m_r_idx cb) * ?es"] cb'
        by (simp add: cb_contents_def w_pos n_pos same_config_def)
    qed
    ultimately show ?thesis using cb' by simp
  qed
  show "k = put_count cb n" by (rule k)
  show "cb_inv cb'" "same_config cb cb'"
    "cb_contents cb' = cb_contents cb @ take (nat k * m_element_size cb) buf"
    "m_n_elements cb' = m_n_elements cb + k" "m_w_idx cb' = m_w_idx cb + k"
    "m_is_operational cb' = m_is_operational cb" "m_is_awakened cb' = m_is_awakened cb"
    "m_n_waiters cb' = m_n_waiters cb" "m_r_idx cb' = m_r_idx cb"
    using all by simp_all
qed

lemma s_copyout_spec:
  assumes inv: "cb_inv cb" and n: "n < 9223372036854775808"
    and res: "s_copyout cb n do_incr = (cb', k, out)"
  shows "k = get_count cb n" "out = take (nat k * m_element_size cb) (cb_contents cb)"
    "cb_inv cb'" "same_config cb cb'"
    "cb_contents cb' = (if do_incr then drop (nat k * m_element_size cb) (cb_contents cb)
                        else cb_contents cb)"
    "m_n_elements cb' = (if do_incr then m_n_elements cb - k else m_n_elements cb)"
    "m_w_idx cb' = m_w_idx cb" "m_is_operational cb' = m_is_operational cb"
    "m_is_awakened cb' = m_is_awakened cb" "m_n_waiters cb' = m_n_waiters cb"
proof -
  note D = cb_invD [OF inv]
  let ?es = "m_element_size cb" and ?a = "m_n_max_allocd_elements cb"
  have n': "s64 (int n) = int n" using n by simp
  have k: "k = get_count cb n"
    using res n' by (auto simp: s_copyout_def Let_def get_count_def split: if_splits)
  have max_n: "(if int n < m_n_elements cb then int n else m_n_elements cb) = k"
    using k by (simp add: get_count_def min_def)
  have all: "out = take (nat k * ?es) (cb_contents cb) \<and> cb_inv cb' \<and> same_config cb cb' \<and>
      cb_contents cb' = (if do_incr then drop (nat k * ?es) (cb_contents cb) else cb_contents cb) \<and>
      m_n_elements cb' = (if do_incr then m_n_elements cb - k else m_n_elements cb) \<and>
      m_w_idx cb' = m_w_idx cb \<and> m_is_operational cb' = m_is_operational cb \<and>
      m_is_awakened cb' = m_is_awakened cb \<and> m_n_waiters cb' = m_n_waiters cb"
  proof (cases "0 < k")
    case False
    then have "k = 0" using k D by (auto simp: get_count_def)
    moreover have "cb' = cb" "out = []"
      using res n' max_n False by (auto simp: s_copyout_def Let_def s_adjust_indices_id [OF inv] split: if_splits)
    ultimately show ?thesis using inv by simp
  next
    case True
    have kn: "k \<le> m_n_elements cb" using k by (simp add: get_count_def)
    have len: "length (m_data cb) = nat ?a * ?es" using D by simp
    have pre: "0 \<le> m_r_idx cb" "0 < ?a" "0 < ?es" using D by auto
    have r: "s64 (m_r_idx cb + j) = m_r_idx cb + j" if "0 \<le> j" "j \<le> m_n_elements cb" for j
      using D that by simp
    have k0: "0 \<le> k" using True by simp
    note get = ring_get_elements [OF pre(1,2) True len pre(3)]
    have out: "out = ring_get (m_data cb) (nat (m_r_idx cb) * ?es) (nat k * ?es)"
      using res True get
      by (auto simp: s_copyout_def Let_def s_adjust_indices_id [OF inv] n' max_n split: if_splits)
    have cb': "m_data cb' = m_data cb" "m_w_idx cb' = m_w_idx cb" "same_config cb cb'"
        "m_n_elements cb' = (if do_incr then m_n_elements cb - k else m_n_elements cb)"
        "m_r_idx cb' = (if do_incr then m_r_idx cb + k else m_r_idx cb)"
        "m_is_operational cb' = m_is_operational cb"
        "m_is_awakened cb' = m_is_awakened cb" "m_n_waiters cb' = m_n_waiters cb"
      using res True r [OF k0 kn]
      by (auto simp: s_copyout_def Let_def s_adjust_indices_id [OF inv] n' max_n same_config_def
          split: if_splits)
    have kes: "nat k * ?es \<le> nat (m_n_elements cb) * ?es"
      by (intro mult_le_mono1 nat_mono kn)
    have nes: "nat (m_n_elements cb) * ?es \<le> length (m_data cb)"
    proof -
      have "nat (m_n_elements cb) \<le> nat ?a" using D by simp
      then show ?thesis unfolding len by simp
    qed
    have ne: "m_data cb \<noteq> []" using len pre by auto
    have "out = take (nat k * ?es) (cb_contents cb)"
      using out kes nes ne by (simp add: ring_get_slice cb_contents_def take_ring_slice)
    moreover have "cb_inv cb'"
      using D kn True cb' unfolding cb_inv_def same_config_def by auto
    moreover have "cb_contents cb' = (if do_incr then drop (nat k * ?es) (cb_contents cb) else cb_contents cb)"
    proof -
      have "nat (m_r_idx cb + k) * ?es = nat (m_r_idx cb) * ?es + nat k * ?es"
        "nat (m_n_elements cb - k) * ?es = nat (m_n_elements cb) * ?es - nat k * ?es"
        using D True kn by (simp_all add: nat_add_distrib add_mult_distrib nat_diff_distrib diff_mult_distrib)
      then show ?thesis using cb' by (simp add: cb_contents_def drop_ring_slice same_config_def)
    qed
    ultimately show ?thesis using cb' by simp
  qed
  show "k = get_count cb n" by (rule k)
  show "out = take (nat k * m_element_size cb) (cb_contents cb)"
    "cb_inv cb'" "same_config cb cb'"
    "cb_contents cb' = (if do_incr then drop (nat k * m_element_size cb) (cb_contents cb)
                        else cb_contents cb)"
    "m_n_elements cb' = (if do_incr then m_n_elements cb - k else m_n_elements cb)"
    "m_w_idx cb' = m_w_idx cb" "m_is_operational cb' = m_is_operational cb"
    "m_is_awakened cb' = m_is_awakened cb" "m_n_waiters cb' = m_n_waiters cb"
    using all by simp_all
qed

end
