(* ===== verification/CBuffer_Wait.thy ===== *)
theory CBuffer_Wait
  imports CBuffer
begin

text \<open>
  Blocking puts and gets of the circular buffer: one pass of their loops, what they return under any
  interference that keeps the buffer well formed, and that a producer and the consumers it waits for
  (or a consumer and its producers) transfer every element in order.
\<close>

subsection \<open>Waiting leaves the buffer alone\<close>

lemma s_wait_begin_simps [simp]:
  "cb_inv (s_wait_begin cb) = cb_inv cb" "cb_contents (s_wait_begin cb) = cb_contents cb"
  "cb_headroom (s_wait_begin cb) = cb_headroom cb" "same_config a (s_wait_begin cb) = same_config a cb"
  "same_config (s_wait_begin cb) a = same_config cb a"
  "m_n_elements (s_wait_begin cb) = m_n_elements cb" "m_is_operational (s_wait_begin cb) = m_is_operational cb"
  "m_is_awakened (s_wait_begin cb) = m_is_awakened cb" "m_element_size (s_wait_begin cb) = m_element_size cb"
  "m_n_max_elements (s_wait_begin cb) = m_n_max_elements cb"
  "m_n_max_allocd_elements (s_wait_begin cb) = m_n_max_allocd_elements cb"
  by (simp_all add: s_wait_begin_def cb_inv_def cb_contents_def cb_headroom_def same_config_def)

lemma s_wait_end_simps:
  assumes "s_wait_end r cb = (cb', r')"
  shows "cb_inv cb' = cb_inv cb" "cb_contents cb' = cb_contents cb" "cb_headroom cb' = cb_headroom cb"
    "same_config a cb' = same_config a cb" "m_n_elements cb' = m_n_elements cb"
    "m_is_operational cb' = m_is_operational cb" "m_element_size cb' = m_element_size cb"
    "m_n_max_elements cb' = m_n_max_elements cb"
  using assms
  by (auto simp: s_wait_end_def Let_def cb_inv_def cb_contents_def cb_headroom_def same_config_def
      split: if_splits)

lemma s_wait_end_result:
  assumes "s_wait_end r cb = (cb', r')"
  shows "r' = r \<or> r' = GALLUS_RESULT_WAKEUP_REQUESTED \<or> r' = GALLUS_RESULT_NOT_OPERATIONAL"
    "\<not> m_is_awakened cb \<Longrightarrow> r' = r \<and> \<not> m_is_awakened cb'"
  using assms by (auto simp: s_wait_end_def Let_def split: if_splits)

text \<open>
  Interference that may put at most \<open>d\<close> elements, take any, shut the buffer down or clear it, and
  keeps the invariant.
\<close>

definition env_ok :: "nat \<Rightarrow> (cbuffer \<Rightarrow> cbuffer) \<Rightarrow> bool" where
  "env_ok d env \<longleftrightarrow>
     (\<forall>cb. cb_inv cb \<longrightarrow> d \<le> cb_headroom cb \<longrightarrow>
        cb_inv (env cb) \<and> same_config cb (env cb) \<and> cb_headroom cb \<le> cb_headroom (env cb) + d)"

subsection \<open>One pass of the put loop\<close>

lemma put_iteration_cases:
  assumes inv: "cb_inv cb" and c: "c \<le> n" and val: "n * m_element_size cb \<le> length val"
    and room: "n - c \<le> cb_headroom cb" and op: "m_is_operational cb"
  obtains (all) cb' where "put_iteration val n (m_element_size cb) (int c) ret cb = Iter_return cb' (int n) (int n)"
      "cb_inv cb'" "same_config cb cb'"
      "cb_contents cb' = cb_contents cb @ take ((n - c) * m_element_size cb) (drop (c * m_element_size cb) val)"
  | (full) cb' k where "put_iteration val n (m_element_size cb) (int c) ret cb = Iter_wait cb' (int (c + k))"
      "c + k < n" "k = nat (m_n_max_elements cb - m_n_elements cb)" "cb_inv cb'" "same_config cb cb'"
      "m_n_elements cb' = m_n_max_elements cb'"
      "cb_headroom cb = cb_headroom cb' + k"
      "cb_contents cb' = cb_contents cb @ take (k * m_element_size cb) (drop (c * m_element_size cb) val)"
      "m_is_operational cb'" "m_is_awakened cb' = m_is_awakened cb"
proof -
  let ?es = "m_element_size cb"
  obtain cb' k where copy: "s_copyin cb (drop (c * ?es) val) (n - c) = (cb', k)" by fastforce
  have buf: "(n - c) * ?es \<le> length (drop (c * ?es) val)"
    using val c by (simp add: diff_mult_distrib)
  note S = s_copyin_spec [OF inv buf room copy] and D = cb_invD [OF inv]
  have k: "0 \<le> k" "k \<le> int (n - c)" using S(1) D by (simp_all add: put_count_def)
  show thesis
  proof (cases "k = int (n - c)")
    case True
    then have nk: "nat k = n - c" "int c + k = int n" using c by simp_all
    then show thesis using S(2-4) copy op by (intro all [of cb']) (auto simp: put_iteration_def Let_def)
  next
    case False
    then have full_k: "k = m_n_max_elements cb - m_n_elements cb" "c + nat k < n"
      using S(1) k c by (auto simp: put_count_def)
    have "m_n_elements cb' = m_n_max_elements cb'"
      using full_k S(3,5) by (simp add: same_config_def)
    moreover have "cb_headroom cb = cb_headroom cb' + nat k"
      using S(6) k room c by (simp add: cb_headroom_def)
    ultimately show thesis using S(2-4,7,8) copy full_k k op
      by (intro full [of cb' "nat k"]) (auto simp: put_iteration_def Let_def)
  qed
qed

lemma put_iteration_closed:
  "\<not> m_is_operational cb \<Longrightarrow>
     put_iteration val n es c ret cb = Iter_return cb c GALLUS_RESULT_NOT_OPERATIONAL"
  by (simp add: put_iteration_def)

subsection \<open>Results of a blocking put\<close>

definition wait_error :: "cb_wake list \<Rightarrow> gallus_result_t \<Rightarrow> bool" where
  "wait_error ws r \<longleftrightarrow> r \<in> fst ` set ws \<and> r \<noteq> GALLUS_RESULT_OK"

text \<open>
  The outcome of a blocking transfer of \<open>n\<close> elements: it is complete and reported as such, or it
  stopped for one of the reasons the interface names, with the number of elements transferred.
\<close>

definition transfer_outcome :: "cb_wake list \<Rightarrow> bool \<Rightarrow> nat \<Rightarrow> nat \<Rightarrow> gallus_result_t \<Rightarrow> int \<Rightarrow> bool" where
  "transfer_outcome ws timed need n r k \<longleftrightarrow>
     0 \<le> k \<and> k \<le> int n \<and>
     (r = k \<and> int need \<le> k \<or>
      r = GALLUS_RESULT_NOT_OPERATIONAL \<or> r = GALLUS_RESULT_WAKEUP_REQUESTED \<or>
      timed \<and> r = GALLUS_RESULT_TIMEDOUT \<or> wait_error ws r)"

lemma transfer_outcome_Cons: "transfer_outcome ws t m n r k \<Longrightarrow> transfer_outcome (w # ws) t m n r k"
  by (auto simp: transfer_outcome_def wait_error_def)

lemma wait_step:
  assumes full: "cb_inv cb" "d \<le> cb_headroom cb" and env: "env_ok d (fst (snd wk))" and nsec: "nsec \<noteq> 0"
    and w: "s_wait_io_ready wk cb nsec = (cb', r)"
  shows "cb_inv cb'" "same_config cb cb'" "cb_headroom cb \<le> cb_headroom cb' + d"
    "r = fst wk \<or> r = GALLUS_RESULT_WAKEUP_REQUESTED \<or> r = GALLUS_RESULT_NOT_OPERATIONAL"
proof -
  obtain ret f t where wk: "wk = (ret, f, t)" by (cases wk)
  have w': "s_wait_end ret (f (s_wait_begin cb)) = (cb', r)"
    using w nsec by (simp add: wk s_wait_io_ready_def)
  have "cb_inv (f (s_wait_begin cb)) \<and> same_config (s_wait_begin cb) (f (s_wait_begin cb)) \<and>
      cb_headroom (s_wait_begin cb) \<le> cb_headroom (f (s_wait_begin cb)) + d"
    using env full unfolding env_ok_def wk by (metis fst_conv snd_conv s_wait_begin_simps(1,3))
  then show "cb_inv cb'" "same_config cb cb'" "cb_headroom cb \<le> cb_headroom cb' + d"
    using s_wait_end_simps(1,3) [OF w'] s_wait_end_simps(4) [OF w', of cb] by simp_all
  show "r = fst wk \<or> r = GALLUS_RESULT_WAKEUP_REQUESTED \<or> r = GALLUS_RESULT_NOT_OPERATIONAL"
    using s_wait_end_result(1) [OF w'] by (simp add: wk)
qed

lemma s_put_n_inf_outcome:
  assumes "cb_inv cb" "c \<le> n" "n * m_element_size cb \<le> length val"
    "n - c + d * length ws \<le> cb_headroom cb" "\<forall>wk\<in>set ws. env_ok d (fst (snd wk))"
    "s_put_n_inf ws val n (m_element_size cb) (int c) ret cb = (cb', k, Some r)"
  shows "transfer_outcome ws False n n r k \<and> cb_inv cb' \<and> same_config cb cb'"
  using assms
proof (induction ws arbitrary: cb c ret)
  case Nil
  then have *: "n - c \<le> cb_headroom cb" by simp
  show ?case
  proof (cases "m_is_operational cb")
    case False
    then show ?thesis using Nil.prems by (auto simp: put_iteration_closed transfer_outcome_def)
  next
    case True
    show ?thesis
      using put_iteration_cases [OF Nil.prems(1,2,3) * True, of ret] Nil.prems(6)
      by cases (auto simp: transfer_outcome_def)
  qed
next
  case (Cons wk ws)
  then have *: "n - c \<le> cb_headroom cb" by simp
  show ?case
  proof (cases "m_is_operational cb")
    case False
    then show ?thesis using Cons.prems by (auto simp: put_iteration_closed transfer_outcome_def)
  next
    case True
    show ?thesis
    proof (cases rule: put_iteration_cases [OF Cons.prems(1,2,3) * True, of ret])
      case (1 cb')
      then show ?thesis using Cons.prems(6) by (auto simp: transfer_outcome_def)
    next
      case (2 cb1 j)
      obtain cb2 r2 where w: "s_wait_io_ready wk cb1 (- 1) = (cb2, r2)" by fastforce
      have "d \<le> cb_headroom cb1" using 2(7) Cons.prems(4) 2(2) by simp
      note W = wait_step [OF 2(4) this _ _ w]
      have W': "cb_inv cb2" "same_config cb1 cb2" "cb_headroom cb1 \<le> cb_headroom cb2 + d"
        "r2 = fst wk \<or> r2 = GALLUS_RESULT_WAKEUP_REQUESTED \<or> r2 = GALLUS_RESULT_NOT_OPERATIONAL"
        using W Cons.prems(5) by simp_all
      have es: "m_element_size cb2 = m_element_size cb" "same_config cb cb2"
        using 2(5) W'(2) by (auto simp: same_config_def)
      show ?thesis
      proof (cases "r2 = GALLUS_RESULT_OK")
        case True
        have "s_put_n_inf ws val n (m_element_size cb2) (int (c + j)) r2 cb2 = (cb', k, Some r)"
          using Cons.prems(6) 2(1) w True es by simp
        then have "transfer_outcome ws False n n r k \<and> cb_inv cb' \<and> same_config cb2 cb'"
          using 2(2,7) W'(1,3) es Cons.prems(3,4,5) by (intro Cons.IH [of cb2 "c + j" r2]) auto
        then show ?thesis using es same_config_trans transfer_outcome_Cons by blast
      next
        case False
        then have "r = r2" "k = int (c + j)" "cb' = cb2"
          using Cons.prems(6) 2(1) w by auto
        then show ?thesis using W' es False 2(2) by (auto simp: transfer_outcome_def wait_error_def)
      qed
    qed
  qed
qed


text \<open>
  A timed put runs as the untimed one whose last wait may have timed out: the time limit is only
  looked at after a wait that returned OK, which left nothing to undo.
\<close>

definition timed_script :: "cb_wake list \<Rightarrow> cb_wake list \<Rightarrow> bool" where
  "timed_script ws us \<longleftrightarrow>
     length us \<le> length ws \<and> (\<forall>u\<in>set us. \<exists>w\<in>set ws. snd u = snd w \<and>
       (fst u = fst w \<or> fst u = GALLUS_RESULT_TIMEDOUT))"

lemma timed_script_Nil [simp]: "timed_script ws []"
  by (simp add: timed_script_def)

lemma timed_script_Cons: "timed_script ws us \<Longrightarrow> timed_script (w # ws) (w # us)"
  by (auto simp: timed_script_def)

lemma timed_script_last: "timed_script (w # ws) [(GALLUS_RESULT_TIMEDOUT, snd w)]"
  by (simp add: timed_script_def)

lemma wait_nonzero: "a \<noteq> 0 \<Longrightarrow> b \<noteq> 0 \<Longrightarrow> s_wait_io_ready wk cb a = s_wait_io_ready wk cb b"
  by (simp add: s_wait_io_ready_def split: prod.split)

lemma wait_timed_out:
  assumes "s_wait_io_ready wk cb to = (cb', GALLUS_RESULT_OK)" "to \<noteq> 0"
  shows "s_wait_io_ready (GALLUS_RESULT_TIMEDOUT, snd wk) cb (- 1) = (cb', GALLUS_RESULT_TIMEDOUT)"
  using assms by (auto simp: s_wait_io_ready_def s_wait_end_def Let_def split: prod.splits if_splits)

lemma s_put_n_to_as_inf:
  assumes "s_put_n_to ws val n es to c ret cb = (cb', k, Some r)" "0 < to"
  shows "\<exists>us. timed_script ws us \<and> s_put_n_inf us val n es c ret cb = (cb', k, Some r)"
  using assms
proof (induction ws arbitrary: to c ret cb)
  case Nil
  then show ?case by (intro exI [of _ "[]"]) (auto split: iteration.splits)
next
  case (Cons wk ws)
  show ?case
  proof (cases "put_iteration val n es c ret cb")
    case (Iter_return cb1 j r1)
    then show ?thesis using Cons.prems by (intro exI [of _ "[]"]) auto
  next
    case (Iter_wait cb1 j)
    obtain cb2 r2 where w: "s_wait_io_ready wk cb1 to = (cb2, r2)" by fastforce
    have w': "s_wait_io_ready wk cb1 (- 1) = (cb2, r2)" using wait_nonzero [of to "- 1" wk cb1] w Cons.prems(2) by simp
    consider (go) "r2 = GALLUS_RESULT_OK" "0 < to - snd (snd wk)"
      | (late) "r2 = GALLUS_RESULT_OK" "\<not> 0 < to - snd (snd wk)" | (err) "r2 \<noteq> GALLUS_RESULT_OK"
      by blast
    then show ?thesis
    proof cases
      case go
      then have "s_put_n_to ws val n es (to - snd (snd wk)) j r2 cb2 = (cb', k, Some r)"
        using Cons.prems(1) Iter_wait w by simp
      then obtain us where "timed_script ws us" "s_put_n_inf us val n es j r2 cb2 = (cb', k, Some r)"
        using Cons.IH go by blast
      then show ?thesis using go Iter_wait w'
        by (intro exI [of _ "wk # us"]) (simp add: timed_script_Cons)
    next
      case late
      then show ?thesis using Cons.prems Iter_wait w wait_timed_out [of wk cb1 to cb2]
        by (intro exI [of _ "[(GALLUS_RESULT_TIMEDOUT, snd wk)]"]) (auto simp: timed_script_last)
    next
      case err
      then show ?thesis using Cons.prems Iter_wait w w'
        by (intro exI [of _ "[wk]"]) (auto intro: timed_script_Cons)
    qed
  qed
qed

lemma transfer_outcome_timed:
  assumes "transfer_outcome us False m n r k" "timed_script ws us"
  shows "transfer_outcome ws True m n r k"
  using assms by (auto simp: transfer_outcome_def timed_script_def wait_error_def image_iff)

subsection \<open>One pass of the get loop\<close>

lemma get_iteration_cases:
  assumes inv: "cb_inv cb" and c: "c \<le> n" and n: "n < 9223372036854775808" and op: "m_is_operational cb"
    and need: "0 < need" "need \<le> n"
  obtains (all) cb' k bytes where
      "get_iteration n need True out (int c) ret cb = Iter_return (cb', out @ bytes) (int (c + k)) (int (c + k))"
      "need \<le> c + k" "c + k \<le> n" "cb_inv cb'" "same_config cb cb'" "cb_headroom cb' = cb_headroom cb"
      "bytes @ cb_contents cb' = cb_contents cb" "length bytes = k * m_element_size cb"
  | (empty) cb' where
      "get_iteration n need True out (int c) ret cb =
         Iter_wait (cb', out @ cb_contents cb) (int (c + nat (m_n_elements cb)))"
      "c + nat (m_n_elements cb) < need" "cb_inv cb'" "same_config cb cb'" "m_n_elements cb' = 0"
      "cb_contents cb' = []" "cb_headroom cb' = cb_headroom cb"
      "m_is_operational cb'" "m_is_awakened cb' = m_is_awakened cb"
proof -
  let ?es = "m_element_size cb"
  obtain cb' k bytes where copy: "s_copyout cb (n - c) True = (cb', k, bytes)" by (metis prod_cases3)
  have "n - c < 9223372036854775808" using n by simp
  note S = s_copyout_spec [OF inv this copy] and D = cb_invD [OF inv]
  have k: "0 \<le> k" "k \<le> int (n - c)" "k \<le> m_n_elements cb" using S(1) D by (simp_all add: get_count_def)
  have head: "cb_headroom cb' = cb_headroom cb" using S(7) by (simp add: cb_headroom_def)
  show thesis
  proof (cases "need \<le> c + nat k")
    case True
    have len: "length bytes = nat k * ?es"
    proof -
      have "nat k * ?es \<le> nat (m_n_elements cb) * ?es" using k by (intro mult_le_mono1 nat_mono)
      then show ?thesis using S(2) by (simp add: length_cb_contents)
    qed
    show thesis
    proof (rule all [of cb' bytes "nat k"])
      show "get_iteration n need True out (int c) ret cb =
          Iter_return (cb', out @ bytes) (int (c + nat k)) (int (c + nat k))"
        using copy k True op by (simp add: get_iteration_def Let_def nat_add_distrib)
      show "bytes @ cb_contents cb' = cb_contents cb" using S(2,5) by simp
    qed (use True k c S(3,4) len head in simp_all)
  next
    case False
    have kn: "k = m_n_elements cb" using False S(1) k c need by (simp add: get_count_def)
    have "bytes = cb_contents cb" "cb_contents cb' = []"
      using S(2,5) kn by (simp_all add: length_cb_contents)
    then show thesis using S(3,4,6,8,9) head copy kn False k op
      by (intro empty [of cb']) (auto simp: get_iteration_def Let_def nat_add_distrib)
  qed
qed

lemma get_iteration_closed:
  "\<not> m_is_operational cb \<Longrightarrow>
     get_iteration n need incr out c ret cb = Iter_return (cb, out) c GALLUS_RESULT_NOT_OPERATIONAL"
  by (simp add: get_iteration_def)


subsection \<open>Results of a blocking get\<close>

lemma s_get_n_inf_outcome:
  assumes "cb_inv cb" "c \<le> n" "n < 9223372036854775808" "0 < n" "length out = c * m_element_size cb"
    "d * length ws \<le> cb_headroom cb" "\<forall>wk\<in>set ws. env_ok d (fst (snd wk))"
    "s_get_n_inf ws n True out (int c) ret cb = ((cb', out'), k, Some r)"
  shows "transfer_outcome ws False n n r k \<and> cb_inv cb' \<and> same_config cb cb' \<and>
    length out' = nat k * m_element_size cb"
  using assms
proof (induction ws arbitrary: cb c ret out)
  case Nil
  show ?case
  proof (cases "m_is_operational cb")
    case False
    then show ?thesis using Nil.prems by (auto simp: get_iteration_closed transfer_outcome_def)
  next
    case True
    show ?thesis
      using get_iteration_cases [OF Nil.prems(1-3) True Nil.prems(4) order_refl, of out ret] Nil.prems(5,8)
      by cases (auto simp: transfer_outcome_def add_mult_distrib nat_add_distrib)
  qed
next
  case (Cons wk ws)
  show ?case
  proof (cases "m_is_operational cb")
    case False
    then show ?thesis using Cons.prems by (auto simp: get_iteration_closed transfer_outcome_def)
  next
    case True
    show ?thesis
    proof (cases rule: get_iteration_cases [OF Cons.prems(1-3) True Cons.prems(4) order_refl, of out ret])
      case (1 cb' k bytes)
      then show ?thesis using Cons.prems(5,8)
        by (auto simp: transfer_outcome_def add_mult_distrib nat_add_distrib)
    next
      case (2 cb1)
      let ?c = "c + nat (m_n_elements cb)" and ?o = "out @ cb_contents cb"
      obtain cb2 r2 where w: "s_wait_io_ready wk cb1 (- 1) = (cb2, r2)" by fastforce
      have "d \<le> cb_headroom cb1" using 2(7) Cons.prems(6) by simp
      note W = wait_step [OF 2(3) this _ _ w]
      have W': "cb_inv cb2" "same_config cb1 cb2" "cb_headroom cb1 \<le> cb_headroom cb2 + d"
        "r2 = fst wk \<or> r2 = GALLUS_RESULT_WAKEUP_REQUESTED \<or> r2 = GALLUS_RESULT_NOT_OPERATIONAL"
        using W Cons.prems(7) by simp_all
      have es: "m_element_size cb2 = m_element_size cb" "same_config cb cb2"
        using 2(4) W'(2) by (auto simp: same_config_def)
      have o: "length ?o = ?c * m_element_size cb"
        using Cons.prems(5) by (simp add: length_cb_contents add_mult_distrib)
      show ?thesis
      proof (cases "r2 = GALLUS_RESULT_OK")
        case True
        have "s_get_n_inf ws n True ?o (int ?c) r2 cb2 = ((cb', out'), k, Some r)"
          using Cons.prems(8) 2(1) w True by simp
        then have "transfer_outcome ws False n n r k \<and> cb_inv cb' \<and> same_config cb2 cb' \<and>
            length out' = nat k * m_element_size cb2"
          using 2(2,7) W'(1,3) es o Cons.prems(3,4,6,7) by (intro Cons.IH [of cb2 ?c ?o r2]) auto
        then show ?thesis using es same_config_trans [OF es(2)] transfer_outcome_Cons by auto
      next
        case False
        then have "r = r2" "k = int ?c" "cb' = cb2" "out' = ?o"
          using Cons.prems(8) 2(1) w by auto
        then show ?thesis using W' es False 2(2) o by (auto simp: transfer_outcome_def wait_error_def)
      qed
    qed
  qed
qed

lemma s_get_n_to_outcome:
  assumes "cb_inv cb" "c \<le> n" "n < 9223372036854775808" "0 < need" "need \<le> n"
    "length out = c * m_element_size cb" "0 < to"
    "d * length ws \<le> cb_headroom cb" "\<forall>wk\<in>set ws. env_ok d (fst (snd wk))"
    "s_get_n_to ws n need True to out (int c) ret cb = ((cb', out'), k, Some r)"
  shows "transfer_outcome ws True need n r k \<and> cb_inv cb' \<and> same_config cb cb' \<and>
    length out' = nat k * m_element_size cb"
  using assms
proof (induction ws arbitrary: cb c ret out to)
  case Nil
  show ?case
  proof (cases "m_is_operational cb")
    case False
    then show ?thesis using Nil.prems by (auto simp: get_iteration_closed transfer_outcome_def)
  next
    case True
    show ?thesis
      using get_iteration_cases [OF Nil.prems(1-3) True Nil.prems(4,5), of out ret] Nil.prems(6,10)
      by cases (auto simp: transfer_outcome_def add_mult_distrib nat_add_distrib)
  qed
next
  case (Cons wk ws)
  show ?case
  proof (cases "m_is_operational cb")
    case False
    then show ?thesis using Cons.prems by (auto simp: get_iteration_closed transfer_outcome_def)
  next
    case True
    show ?thesis
    proof (cases rule: get_iteration_cases [OF Cons.prems(1-3) True Cons.prems(4,5), of out ret])
      case (1 cb' k bytes)
      then show ?thesis using Cons.prems(6,10)
        by (auto simp: transfer_outcome_def add_mult_distrib nat_add_distrib)
    next
      case (2 cb1)
      let ?c = "c + nat (m_n_elements cb)" and ?o = "out @ cb_contents cb"
      obtain cb2 r2 where w: "s_wait_io_ready wk cb1 to = (cb2, r2)" by fastforce
      have "d \<le> cb_headroom cb1" using 2(7) Cons.prems(8) by simp
      note W = wait_step [OF 2(3) this _ _ w]
      have W': "cb_inv cb2" "same_config cb1 cb2" "cb_headroom cb1 \<le> cb_headroom cb2 + d"
        "r2 = fst wk \<or> r2 = GALLUS_RESULT_WAKEUP_REQUESTED \<or> r2 = GALLUS_RESULT_NOT_OPERATIONAL"
        using W Cons.prems(7,9) by simp_all
      have es: "m_element_size cb2 = m_element_size cb" "same_config cb cb2"
        using 2(4) W'(2) by (auto simp: same_config_def)
      have o: "length ?o = ?c * m_element_size cb"
        using Cons.prems(6) by (simp add: length_cb_contents add_mult_distrib)
      have cn: "?c \<le> n" using 2(2) Cons.prems(5) by simp
      show ?thesis
      proof (cases "r2 = GALLUS_RESULT_OK \<and> 0 < to - snd (snd wk)")
        case True
        have "s_get_n_to ws n need True (to - snd (snd wk)) ?o (int ?c) r2 cb2 = ((cb', out'), k, Some r)"
          using Cons.prems(10) 2(1) w True by simp
        then have "transfer_outcome ws True need n r k \<and> cb_inv cb' \<and> same_config cb2 cb' \<and>
            length out' = nat k * m_element_size cb2"
          using 2(7) cn W'(1,3) es o Cons.prems(3,4,5,8,9) True
          by (intro Cons.IH [of cb2 ?c ?o "to - snd (snd wk)" r2]) auto
        then show ?thesis using es same_config_trans [OF es(2)] transfer_outcome_Cons by auto
      next
        case False
        then have "r = (if r2 = GALLUS_RESULT_OK then GALLUS_RESULT_TIMEDOUT else r2)" "k = int ?c" "cb' = cb2"
          "out' = ?o"
          using Cons.prems(10) 2(1) w by (auto split: if_splits)
        then show ?thesis using W' es False cn o by (auto simp: transfer_outcome_def wait_error_def)
      qed
    qed
  qed
qed

subsection \<open>Producers and consumers\<close>

text \<open>What another thread does during a wait: it takes up to \<open>k\<close> elements, or it puts some.\<close>

definition consumer :: "nat \<Rightarrow> cb_wake" where
  "consumer k = (GALLUS_RESULT_OK, \<lambda>cb. fst (s_copyout cb k True), 0)"

definition producer :: "byte list \<Rightarrow> nat \<Rightarrow> cb_wake" where
  "producer val k = (GALLUS_RESULT_OK, \<lambda>cb. fst (s_copyin cb val k), 0)"

lemma wait_for_consumer:
  assumes "cb_inv cb" "\<not> m_is_awakened cb" "k < 9223372036854775808"
  shows "\<exists>cb'. s_wait_io_ready (consumer k) cb (- 1) = (cb', GALLUS_RESULT_OK) \<and> cb_inv cb' \<and>
    same_config cb cb' \<and> cb_headroom cb' = cb_headroom cb \<and> \<not> m_is_awakened cb' \<and>
    m_is_operational cb' = m_is_operational cb \<and> m_n_elements cb' = m_n_elements cb - get_count cb k \<and>
    cb_contents cb' = drop (nat (get_count cb k) * m_element_size cb) (cb_contents cb)"
proof -
  let ?b = "s_wait_begin cb"
  obtain c j out where copy: "s_copyout ?b k True = (c, j, out)" by (metis prod_cases3)
  have inv: "cb_inv ?b" using assms by simp
  note S = s_copyout_spec [OF inv assms(3) copy]
  obtain cb' r' where e: "s_wait_end GALLUS_RESULT_OK c = (cb', r')" by fastforce
  have "s_wait_io_ready (consumer k) cb (- 1) = (cb', r')"
    using e copy by (simp add: s_wait_io_ready_def consumer_def)
  moreover have "get_count ?b k = get_count cb k" by (simp add: get_count_def)
  moreover have "cb_headroom c = cb_headroom cb" using S(7) by (simp add: cb_headroom_def s_wait_begin_def)
  moreover have "same_config cb c" using S(4) by simp
  ultimately show ?thesis
    using S(1,3,5,6,8,9) s_wait_end_simps [OF e] s_wait_end_result(2) [OF e] assms(2) by simp
qed

lemma put_with_consumers:
  assumes "cb_inv cb" "m_is_operational cb" "\<not> m_is_awakened cb" "c \<le> n"
    "n * m_element_size cb \<le> length val" "n - c \<le> cb_headroom cb"
    "\<forall>k\<in>set ks. 0 < k \<and> int k \<le> m_n_max_elements cb" "m_n_max_elements cb < 9223372036854775808"
    "int (n - c) \<le> m_n_max_elements cb - m_n_elements cb + int (sum_list ks)"
  shows "\<exists>cb' g. s_put_n_inf (map consumer ks) val n (m_element_size cb) (int c) ret cb =
      (cb', int n, Some (int n)) \<and> cb_inv cb' \<and> g \<le> sum_list ks \<and>
      cb_contents cb' = drop (g * m_element_size cb)
        (cb_contents cb @ take ((n - c) * m_element_size cb) (drop (c * m_element_size cb) val))"
  using assms
proof (induction ks arbitrary: cb c ret)
  case Nil
  show ?case
  proof (cases rule: put_iteration_cases [OF Nil.prems(1,4,5,6,2), of ret])
    case (1 cb')
    then show ?thesis by (intro exI [of _ cb'] exI [of _ 0]) simp
  next
    case (2 cb' k)
    then show ?thesis using Nil.prems(9) by simp
  qed
next
  case (Cons k ks)
  let ?es = "m_element_size cb"
  show ?case
  proof (cases rule: put_iteration_cases [OF Cons.prems(1,4,5,6,2), of ret])
    case (1 cb')
    then show ?thesis by (intro exI [of _ cb'] exI [of _ 0]) simp
  next
    case (2 cb1 j)
    have k: "k < 9223372036854775808" "int k \<le> m_n_max_elements cb1" "0 < k"
      using Cons.prems(7,8) 2(5) by (auto simp: same_config_def)
    have aw: "\<not> m_is_awakened cb1" using 2(10) Cons.prems(3) by simp
    obtain cb2 where w: "s_wait_io_ready (consumer k) cb1 (- 1) = (cb2, GALLUS_RESULT_OK)"
        "cb_inv cb2" "same_config cb1 cb2" "cb_headroom cb2 = cb_headroom cb1" "\<not> m_is_awakened cb2"
        "m_is_operational cb2" "m_n_elements cb2 = m_n_elements cb1 - int k"
        "cb_contents cb2 = drop (k * m_element_size cb1) (cb_contents cb1)"
      using wait_for_consumer [OF 2(4) aw k(1)] k(2) 2(6,9) by (auto simp: get_count_def)
    have cfg: "m_element_size cb1 = ?es" "m_element_size cb2 = ?es"
        "m_n_max_elements cb1 = m_n_max_elements cb" "m_n_max_elements cb2 = m_n_max_elements cb"
      using 2(5) w(3) by (simp_all add: same_config_def)
    have "\<exists>cb' g. s_put_n_inf (map consumer ks) val n (m_element_size cb2) (int (c + j)) GALLUS_RESULT_OK cb2 =
        (cb', int n, Some (int n)) \<and> cb_inv cb' \<and> g \<le> sum_list ks \<and>
        cb_contents cb' = drop (g * m_element_size cb2) (cb_contents cb2 @
          take ((n - (c + j)) * m_element_size cb2) (drop ((c + j) * m_element_size cb2) val))"
      using w 2(2,3,6,7) cfg Cons.prems(5,6,7,8,9) cb_invD(7) [OF Cons.prems(1)]
      by (intro Cons.IH) auto
    then obtain cb' g where fin: "s_put_n_inf (map consumer ks) val n ?es (int (c + j)) GALLUS_RESULT_OK cb2 =
        (cb', int n, Some (int n))" "cb_inv cb'" "g \<le> sum_list ks"
        "cb_contents cb' = drop (g * ?es) (cb_contents cb2 @
          take ((n - (c + j)) * ?es) (drop ((c + j) * ?es) val))"
      unfolding cfg by blast
    have "n - c = j + (n - (c + j))" using 2(2) by simp
    then have "take ((n - c) * ?es) (drop (c * ?es) val) =
        take (j * ?es) (drop (c * ?es) val) @ take ((n - (c + j)) * ?es) (drop ((c + j) * ?es) val)"
      by (simp only: add_mult_distrib take_add drop_drop) (simp add: add.commute)
    moreover have "k * ?es \<le> length (cb_contents cb1)"
    proof -
      have "k \<le> nat (m_n_elements cb1)" using k(2) 2(6) by linarith
      then show ?thesis unfolding length_cb_contents cfg(1) by (rule mult_le_mono1)
    qed
    then have "cb_contents cb' = drop (k * ?es + g * ?es)
        (cb_contents cb1 @ take ((n - (c + j)) * ?es) (drop ((c + j) * ?es) val))"
      unfolding fin(4) w(8) cfg(1) by (rule drop_drop_append)
    ultimately have "cb_contents cb' = drop ((k + g) * ?es)
        (cb_contents cb @ take ((n - c) * ?es) (drop (c * ?es) val))"
      by (simp only: 2(8) append.assoc add_mult_distrib)
    then show ?thesis using fin 2(1) w(1) by (intro exI [of _ cb'] exI [of _ "k + g"]) simp
  qed
qed


lemma wait_for_producer:
  assumes "cb_inv cb" "\<not> m_is_awakened cb" "k * m_element_size cb \<le> length val" "k \<le> cb_headroom cb"
  shows "\<exists>cb'. s_wait_io_ready (producer val k) cb (- 1) = (cb', GALLUS_RESULT_OK) \<and> cb_inv cb' \<and>
    same_config cb cb' \<and> cb_headroom cb \<le> cb_headroom cb' + k \<and> \<not> m_is_awakened cb' \<and>
    m_is_operational cb' = m_is_operational cb \<and> m_n_elements cb' = m_n_elements cb + put_count cb k \<and>
    cb_contents cb' = cb_contents cb @ take (nat (put_count cb k) * m_element_size cb) val"
proof -
  let ?b = "s_wait_begin cb"
  obtain c j where copy: "s_copyin ?b val k = (c, j)" by fastforce
  have inv: "cb_inv ?b" "k * m_element_size ?b \<le> length val" "k \<le> cb_headroom ?b" using assms by simp_all
  note S = s_copyin_spec [OF inv copy]
  obtain cb' r' where e: "s_wait_end GALLUS_RESULT_OK c = (cb', r')" by fastforce
  have "s_wait_io_ready (producer val k) cb (- 1) = (cb', r')"
    using e copy by (simp add: s_wait_io_ready_def producer_def)
  moreover have j: "put_count ?b k = put_count cb k" "put_count cb k \<le> int k"
    by (simp_all add: put_count_def)
  moreover have "cb_headroom cb \<le> cb_headroom c + k"
    using S(1,6) j by (simp add: cb_headroom_def s_wait_begin_def)
  moreover have "same_config cb c" using S(3) by simp
  ultimately show ?thesis
    using S(1,2,4,5,7,8) s_wait_end_simps [OF e] s_wait_end_result(2) [OF e] assms(2) by simp
qed

lemma get_with_producers:
  assumes "cb_inv cb" "m_is_operational cb" "\<not> m_is_awakened cb" "c \<le> n"
    "n < 9223372036854775808" "0 < n" "sum_list (map snd ps) \<le> cb_headroom cb"
    "\<forall>(val, k)\<in>set ps. int k \<le> m_n_max_elements cb \<and> k * m_element_size cb \<le> length val"
    "int (n - c) \<le> m_n_elements cb + int (sum_list (map snd ps))"
  shows "\<exists>cb' out' m. s_get_n_inf (map (\<lambda>(val, k). producer val k) ps) n True out (int c) ret cb =
      ((cb', out'), int n, Some (int n)) \<and> cb_inv cb' \<and> m \<le> length ps \<and>
      out' @ cb_contents cb' = out @ cb_contents cb @
        concat (map (\<lambda>(val, k). take (k * m_element_size cb) val) (take m ps))"
  using assms
proof (induction ps arbitrary: cb c ret out)
  case Nil
  show ?case
  proof (cases rule: get_iteration_cases [OF Nil.prems(1,4,5,2,6) order_refl, of out ret])
    case (1 cb' k bytes)
    then show ?thesis
      by (intro exI [of _ cb'] exI [of _ "out @ bytes"] exI [of _ 0]) simp
  next
    case (2 cb')
    then show ?thesis using Nil.prems(9) by simp
  qed
next
  case (Cons p ps)
  obtain val k where p: "p = (val, k)" by (cases p)
  let ?es = "m_element_size cb"
  let ?c = "c + nat (m_n_elements cb)" and ?o = "out @ cb_contents cb"
  show ?case
  proof (cases rule: get_iteration_cases [OF Cons.prems(1,4,5,2,6) order_refl, of out ret])
    case (1 cb' j bytes)
    then show ?thesis
      by (intro exI [of _ cb'] exI [of _ "out @ bytes"] exI [of _ 0]) simp
  next
    case (2 cb1)
    have cfg1: "m_element_size cb1 = ?es" "m_n_max_elements cb1 = m_n_max_elements cb"
      using 2(4) by (simp_all add: same_config_def)
    have aw: "\<not> m_is_awakened cb1" using 2(9) Cons.prems(3) by simp
    have k: "k * m_element_size cb1 \<le> length val" "k \<le> cb_headroom cb1" "int k \<le> m_n_max_elements cb1"
      using Cons.prems(7,8) 2(7) cfg1 by (auto simp: p)
    have put: "put_count cb1 k = int k" using k(3) 2(5) by (simp add: put_count_def)
    obtain cb2 where w: "s_wait_io_ready (producer val k) cb1 (- 1) = (cb2, GALLUS_RESULT_OK)"
        "cb_inv cb2" "same_config cb1 cb2" "cb_headroom cb1 \<le> cb_headroom cb2 + k" "\<not> m_is_awakened cb2"
        "m_is_operational cb2" "m_n_elements cb2 = int k"
        "cb_contents cb2 = take (k * m_element_size cb1) val"
      using wait_for_producer [OF 2(3) aw k(1,2)] 2(5,6,8) put by auto
    have cfg: "m_element_size cb2 = ?es" "m_n_max_elements cb2 = m_n_max_elements cb"
      using cfg1 w(3) by (simp_all add: same_config_def)
    have "\<exists>cb' out' m. s_get_n_inf (map (\<lambda>(val, k). producer val k) ps) n True ?o (int ?c)
          GALLUS_RESULT_OK cb2 = ((cb', out'), int n, Some (int n)) \<and> cb_inv cb' \<and> m \<le> length ps \<and>
        out' @ cb_contents cb' = ?o @ cb_contents cb2 @
          concat (map (\<lambda>(val, k). take (k * m_element_size cb2) val) (take m ps))"
      using w(2,4,5,6,7) 2(2,7) cfg Cons.prems(5,6,7,8,9) cb_invD(6) [OF Cons.prems(1)]
      by (intro Cons.IH) (auto simp: p)
    then obtain cb' out' m where fin:
        "s_get_n_inf (map (\<lambda>(val, k). producer val k) ps) n True ?o (int ?c) GALLUS_RESULT_OK cb2 =
          ((cb', out'), int n, Some (int n))" "cb_inv cb'" "m \<le> length ps"
        "out' @ cb_contents cb' = ?o @ cb_contents cb2 @
          concat (map (\<lambda>(val, k). take (k * m_element_size cb2) val) (take m ps))"
      by blast
    then show ?thesis using 2(1) w(1,8) cfg cfg1
      by (intro exI [of _ cb'] exI [of _ out'] exI [of _ "Suc m"]) (simp add: p)
  qed
qed

end
