(* ===== verification/Bounded_Queue.thy ===== *)
theory Bounded_Queue
  imports Gallus_Base
begin

text \<open>
  What the clients of a bounded queue rely on: the scheduler, the pools and the muxer see
  \<^verbatim>\<open>gallus_cbuffer_t\<close> and \<^verbatim>\<open>gallus_bbq_t\<close> only through operations that obey these laws. The
  locale states them for a non-blocking put and get over an abstract list of elements; the facts
  about whole runs are proved once here and hold for every implementation that is interpreted.

  \<open>room\<close> bounds the elements that can still be put during the lifetime of the queue (the indices of
  an implementation may be finite) and \<open>lim\<close> the count that one call may ask for.
\<close>

datatype 'a queue_op = Q_put "'a list" | Q_get nat

locale bounded_queue =
  fixes inv :: "'s \<Rightarrow> bool" and items :: "'s \<Rightarrow> 'a list" and cap :: "'s \<Rightarrow> nat"
    and ok :: "'s \<Rightarrow> 'a \<Rightarrow> bool" and room :: "'s \<Rightarrow> nat" and lim :: nat
    and put :: "'s \<Rightarrow> 'a list \<Rightarrow> 's \<times> nat" and get :: "'s \<Rightarrow> nat \<Rightarrow> 's \<times> 'a list"
  assumes bounded: "inv s \<Longrightarrow> length (items s) \<le> cap s"
    and put_law: "inv s \<Longrightarrow> \<forall>x\<in>set xs. ok s x \<Longrightarrow> length xs \<le> room s \<Longrightarrow> put s xs = (s', k) \<Longrightarrow>
      inv s' \<and> k = min (length xs) (cap s - length (items s)) \<and> items s' = items s @ take k xs \<and>
      cap s' = cap s \<and> ok s' = ok s \<and> room s' + k = room s"
    and get_law: "inv s \<Longrightarrow> n \<le> lim \<Longrightarrow> get s n = (s', ys) \<Longrightarrow>
      inv s' \<and> ys = take n (items s) \<and> items s' = drop n (items s) \<and>
      cap s' = cap s \<and> ok s' = ok s \<and> room s' = room s"
begin

text \<open>A run yields the final state, the elements accepted and the elements delivered, in order.\<close>

fun run :: "'a queue_op list \<Rightarrow> 's \<Rightarrow> 's \<times> 'a list \<times> 'a list" where
  "run [] s = (s, [], [])"
| "run (Q_put xs # ops) s =
    (let (s, k) = put s xs; (s, acc, out) = run ops s in (s, take k xs @ acc, out))"
| "run (Q_get n # ops) s =
    (let (s, ys) = get s n; (s, acc, out) = run ops s in (s, acc, ys @ out))"

fun op_ok :: "'s \<Rightarrow> 'a queue_op \<Rightarrow> bool" where
  "op_ok s (Q_put xs) \<longleftrightarrow> (\<forall>x\<in>set xs. ok s x)"
| "op_ok s (Q_get n) \<longleftrightarrow> n \<le> lim"

fun op_size :: "'a queue_op \<Rightarrow> nat" where
  "op_size (Q_put xs) = length xs"
| "op_size (Q_get n) = 0"

lemma op_ok_cong: "ok s' = ok s \<Longrightarrow> op_ok s' = op_ok s"
  by (rule ext, case_tac x) simp_all

text \<open>
  First in, first out: what was delivered followed by what is still queued is what was queued
  followed by what was accepted; the bound holds throughout.
\<close>

lemma run_fifo:
  assumes "inv s" "\<forall>q\<in>set ops. op_ok s q" "sum_list (map op_size ops) \<le> room s"
    "run ops s = (s', acc, out)"
  shows "inv s' \<and> out @ items s' = items s @ acc \<and> length (items s') \<le> cap s \<and> cap s' = cap s"
  using assms
proof (induction ops arbitrary: s acc out)
  case Nil
  then show ?case using bounded by simp
next
  case (Cons q ops)
  show ?case
  proof (cases q)
    case (Q_put xs)
    obtain s1 k where p: "put s xs = (s1, k)" by fastforce
    have law: "inv s1" "k \<le> length xs" "items s1 = items s @ take k xs" "cap s1 = cap s" "ok s1 = ok s"
        "room s1 + k = room s"
      using put_law [OF Cons.prems(1) _ _ p] Cons.prems(2,3) Q_put by simp_all
    obtain acc1 where r: "run ops s1 = (s', acc1, out)" "acc = take k xs @ acc1"
      using Cons.prems(4) Q_put p by (auto split: prod.splits)
    have "inv s' \<and> out @ items s' = items s1 @ acc1 \<and> length (items s') \<le> cap s1 \<and> cap s' = cap s1"
      using Cons.prems(2,3) Q_put law(2,6) op_ok_cong [OF law(5)]
      by (intro Cons.IH [OF law(1) _ _ r(1)]) auto
    then show ?thesis using law r by simp
  next
    case (Q_get n)
    obtain s1 ys where p: "get s n = (s1, ys)" by fastforce
    have law: "inv s1" "ys = take n (items s)" "items s1 = drop n (items s)" "cap s1 = cap s" "ok s1 = ok s"
        "room s1 = room s"
      using get_law [OF Cons.prems(1) _ p] Cons.prems(2) Q_get by simp_all
    obtain out1 where r: "run ops s1 = (s', acc, out1)" "out = ys @ out1"
      using Cons.prems(4) Q_get p by (auto split: prod.splits)
    have "inv s' \<and> out1 @ items s' = items s1 @ acc \<and> length (items s') \<le> cap s1 \<and> cap s' = cap s1"
      using Cons.prems(2,3) Q_get law(6) op_ok_cong [OF law(5)]
      by (intro Cons.IH [OF law(1) _ _ r(1)]) auto
    then show ?thesis using law r by (metis append.assoc append_take_drop_id)
  qed
qed

text \<open>A queue with enough free places accepts everything, and enough gets empty it.\<close>

lemma put_fits:
  assumes "inv s" "\<forall>x\<in>set xs. ok s x" "length xs \<le> room s" "length (items s) + length xs \<le> cap s"
  shows "\<exists>s'. put s xs = (s', length xs) \<and> inv s' \<and> items s' = items s @ xs"
  using put_law [OF assms(1-3)] assms(4) by (cases "put s xs") auto

lemma get_drains:
  assumes "inv s" "cap s \<le> lim"
  shows "\<exists>s'. get s (cap s) = (s', items s) \<and> inv s' \<and> items s' = []"
  using get_law [OF assms] bounded [OF assms(1)] by (cases "get s (cap s)") auto

end

end
