(* ===== verification/CBuffer_Queue.thy ===== *)
theory CBuffer_Queue
  imports CBuffer_Wait Bounded_Queue
begin

text \<open>
  What the circular buffer promises its users: it is a bounded first-in first-out queue of
  elements of a fixed size (the interpretation \<open>cbq\<close> of the queue laws), a blocking put or get
  transfers all of its elements or reports why it stopped, releasing the buffer hands every queued
  element to the free-up procedure once, and a wakeup reaches every waiter.
\<close>

subsection \<open>Elements\<close>

definition chunks :: "nat \<Rightarrow> 'a list \<Rightarrow> 'a list list" where
  "chunks es bs = map (\<lambda>i. take es (drop (i * es) bs)) [0..<length bs div es]"

definition cb_elements :: "cbuffer \<Rightarrow> byte list list" where
  "cb_elements cb = chunks (m_element_size cb) (cb_contents cb)"

lemma length_chunks [simp]: "length (chunks es bs) = length bs div es"
  by (simp add: chunks_def)

lemma chunks_concat:
  assumes "\<forall>x\<in>set xs. length x = es" "0 < es"
  shows "chunks es (concat xs) = xs"
  using assms
proof (induction xs)
  case Nil
  then show ?case by (simp add: chunks_def)
next
  case (Cons x xs)
  then have x: "length x = es" and IH: "chunks es (concat xs) = xs" by simp_all
  have "length (concat (x # xs)) div es = Suc (length (concat xs) div es)"
    using x Cons.prems by (simp add: div_add_self1)
  then have "chunks es (concat (x # xs)) =
      take es (concat (x # xs)) # map (\<lambda>i. take es (drop (Suc i * es) (x @ concat xs))) [0..<length (concat xs) div es]"
    by (simp add: chunks_def upt_conv_Cons map_Suc_upt [symmetric] del: upt_Suc)
  also have "\<dots> = x # chunks es (concat xs)"
    using x by (simp add: chunks_def)
  finally show ?case using IH by simp
qed

lemma length_concat_const: "\<forall>x\<in>set xs. length x = es \<Longrightarrow> length (concat xs) = length xs * es"
  by (induction xs) auto

lemma concat_take_const: "\<forall>x\<in>set xs. length x = es \<Longrightarrow> take (k * es) (concat xs) = concat (take k xs)"
proof (induction xs arbitrary: k)
  case (Cons x xs)
  then show ?case by (cases k) auto
qed simp

lemma concat_drop_const: "\<forall>x\<in>set xs. length x = es \<Longrightarrow> drop (k * es) (concat xs) = concat (drop k xs)"
proof (induction xs arbitrary: k)
  case (Cons x xs)
  then show ?case by (cases k) auto
qed simp

lemma chunks_exist:
  assumes "length bs = k * es" "0 < es"
  shows "concat (chunks es bs) = bs \<and> (\<forall>x\<in>set (chunks es bs). length x = es)"
  using assms
proof (induction k arbitrary: bs)
  case 0
  then show ?case by (simp add: chunks_def)
next
  case (Suc k)
  let ?x = "take es bs" and ?ys = "drop es bs"
  have IH: "concat (chunks es ?ys) = ?ys \<and> (\<forall>x\<in>set (chunks es ?ys). length x = es)"
    using Suc.prems by (intro Suc.IH) simp_all
  then have "bs = concat (?x # chunks es ?ys)" "\<forall>x\<in>set (?x # chunks es ?ys). length x = es"
    using Suc.prems by simp_all
  then show ?case using chunks_concat [of "?x # chunks es ?ys" es] Suc.prems(2) by metis
qed

lemma cb_elements_concat:
  assumes "cb_inv cb"
  shows "concat (cb_elements cb) = cb_contents cb"
    "\<forall>x\<in>set (cb_elements cb). length x = m_element_size cb"
    "length (cb_elements cb) = nat (m_n_elements cb)"
  using chunks_exist [of "cb_contents cb" "nat (m_n_elements cb)" "m_element_size cb"] cb_invD [OF assms]
  by (simp_all add: cb_elements_def length_cb_contents)

lemma cb_elementsI:
  assumes "cb_inv cb" "cb_contents cb = concat xs" "\<forall>x\<in>set xs. length x = m_element_size cb"
  shows "cb_elements cb = xs"
  using assms cb_invD(1) [OF assms(1)] by (simp add: cb_elements_def chunks_concat)


subsection \<open>The non-blocking calls\<close>

lemma put_n_now:
  assumes "cb_inv cb" "m_is_operational cb" "n * m_element_size cb \<le> length val" "n \<le> cb_headroom cb"
    "0 < n"
  shows "\<exists>cb'. s_put_n ws (Some cb) (Some val) n (m_element_size cb) 0 =
      (Some cb', Some (put_count cb n), put_count cb n) \<and> s_copyin cb val n = (cb', put_count cb n)"
  using assms s_copyin_spec(1) [OF assms(1,3,4)]
  by (cases "s_copyin cb val n") (auto simp: s_put_n_def)

lemma get_n_now:
  assumes "cb_inv cb" "m_is_operational cb" "n < 9223372036854775808" "0 < n"
  shows "\<exists>cb' out. s_get_n ws (Some cb) True n m (m_element_size cb) 0 incr =
      (Some cb', Some (get_count cb n), get_count cb n, out) \<and>
      s_copyout cb n incr = (cb', get_count cb n, out)"
proof -
  obtain cb' k out where c: "s_copyout cb n incr = (cb', k, out)" by (metis prod_cases3)
  show ?thesis using assms c s_copyout_spec(1) [OF assms(1,3) c] by (auto simp: s_get_n_def)
qed

definition cbq_inv :: "cbuffer \<Rightarrow> bool" where
  "cbq_inv cb \<longleftrightarrow> cb_inv cb \<and> m_is_operational cb"

definition cbq_cap :: "cbuffer \<Rightarrow> nat" where
  "cbq_cap cb = nat (m_n_max_elements cb)"

definition cbq_ok :: "cbuffer \<Rightarrow> byte list \<Rightarrow> bool" where
  "cbq_ok cb x \<longleftrightarrow> length x = m_element_size cb"

definition cbq_put :: "cbuffer \<Rightarrow> byte list list \<Rightarrow> cbuffer \<times> nat" where
  "cbq_put cb xs =
    (case gallus_cbuffer_put_n_with_size [] (Some cb) (Some (concat xs)) (length xs) (m_element_size cb) 0 of
       (Some cb', _, k) \<Rightarrow> (cb', nat k)
     | (None, _, k) \<Rightarrow> (cb, nat k))"

definition cbq_get :: "cbuffer \<Rightarrow> nat \<Rightarrow> cbuffer \<times> byte list list" where
  "cbq_get cb n =
    (case gallus_cbuffer_get_n_with_size [] (Some cb) True n n (m_element_size cb) 0 of
       (Some cb', _, _, out) \<Rightarrow> (cb', chunks (m_element_size cb) out)
     | (None, _, _, out) \<Rightarrow> (cb, []))"

lemma copyin_elements:
  assumes inv: "cb_inv cb" and xs: "\<forall>x\<in>set xs. length x = m_element_size cb"
    and room: "length xs \<le> cb_headroom cb" and res: "s_copyin cb (concat xs) (length xs) = (cb', k)"
  shows "cb_elements cb' = cb_elements cb @ take (nat k) xs"
proof (rule cb_elementsI)
  have buf: "length xs * m_element_size cb \<le> length (concat xs)"
    using length_concat_const [OF xs] by simp
  note S = s_copyin_spec [OF inv buf room res]
  show "cb_inv cb'" by (rule S(2))
  show "cb_contents cb' = concat (cb_elements cb @ take (nat k) xs)"
    using S(4) cb_elements_concat(1) [OF inv] concat_take_const [OF xs] by simp
  show "\<forall>x\<in>set (cb_elements cb @ take (nat k) xs). length x = m_element_size cb'"
    using S(3) cb_elements_concat(2) [OF inv] xs by (auto simp: same_config_def dest: in_set_takeD)
qed

lemma copyout_elements:
  assumes inv: "cb_inv cb" and n: "n < 9223372036854775808"
    and res: "s_copyout cb n True = (cb', k, out)"
  shows "cb_elements cb' = drop n (cb_elements cb)" "chunks (m_element_size cb) out = take n (cb_elements cb)"
proof -
  note S = s_copyout_spec [OF inv n res] and E = cb_elements_concat [OF inv]
  have min: "take (nat k) (cb_elements cb) = take n (cb_elements cb)"
    "drop (nat k) (cb_elements cb) = drop n (cb_elements cb)"
    using S(1) E(3) cb_invD [OF inv] by (auto simp: get_count_def min_def)
  have c: "cb_contents cb' = concat (drop n (cb_elements cb))" "out = concat (take n (cb_elements cb))"
    using S(2,5) E(1) concat_drop_const [OF E(2), of "nat k"] concat_take_const [OF E(2), of "nat k"] min
    by simp_all
  show "cb_elements cb' = drop n (cb_elements cb)"
    using S(3,4) c(1) E(2) by (intro cb_elementsI) (auto simp: same_config_def dest: in_set_dropD)
  show "chunks (m_element_size cb) out = take n (cb_elements cb)"
    using c(2) E(2) cb_invD(1) [OF inv] by (auto intro!: chunks_concat dest: in_set_takeD)
qed

lemma cbq_put_law:
  assumes "cbq_inv cb" "\<forall>x\<in>set xs. cbq_ok cb x" "length xs \<le> cb_headroom cb" "cbq_put cb xs = (cb', k)"
  shows "cbq_inv cb' \<and> k = min (length xs) (cbq_cap cb - length (cb_elements cb)) \<and>
    cb_elements cb' = cb_elements cb @ take k xs \<and> cbq_cap cb' = cbq_cap cb \<and> cbq_ok cb' = cbq_ok cb \<and>
    cb_headroom cb' + k = cb_headroom cb"
proof (cases "xs = []")
  case True
  then show ?thesis using assms
    by (auto simp: cbq_put_def gallus_cbuffer_put_n_with_size_def s_put_n_def)
next
  case False
  have inv: "cb_inv cb" "m_is_operational cb" using assms by (simp_all add: cbq_inv_def)
  have xs: "\<forall>x\<in>set xs. length x = m_element_size cb" using assms by (simp add: cbq_ok_def)
  have buf: "length xs * m_element_size cb \<le> length (concat xs)"
    using length_concat_const [OF xs] by simp
  obtain c where c: "s_put_n [] (Some cb) (Some (concat xs)) (length xs) (m_element_size cb) 0 =
      (Some c, Some (put_count cb (length xs)), put_count cb (length xs))"
      "s_copyin cb (concat xs) (length xs) = (c, put_count cb (length xs))"
    using put_n_now [OF inv buf assms(3)] False by blast
  have k: "c = cb'" "k = nat (put_count cb (length xs))"
    using assms(4) c(1) by (simp_all add: cbq_put_def gallus_cbuffer_put_n_with_size_def)
  note S = s_copyin_spec [OF inv(1) buf assms(3) c(2)]
  have "0 \<le> put_count cb (length xs)" "put_count cb (length xs) \<le> int (length xs)"
    using cb_invD [OF inv(1)] by (simp_all add: put_count_def)
  then have "cb_headroom c + k = cb_headroom cb" using k S(6) assms(3) by (simp add: cb_headroom_def)
  moreover have "k = min (length xs) (cbq_cap cb - length (cb_elements cb))"
  proof -
    have "length (cb_elements cb) = nat (m_n_elements cb)" by (rule cb_elements_concat(3) [OF inv(1)])
    then show ?thesis using k cb_invD(6,7) [OF inv(1)] unfolding put_count_def cbq_cap_def by linarith
  qed
  moreover have "cbq_cap c = cbq_cap cb" "cbq_ok c = cbq_ok cb" "cbq_inv c"
    using S(2,3,7) inv by (auto simp: same_config_def cbq_cap_def cbq_ok_def cbq_inv_def)
  ultimately show ?thesis using copyin_elements [OF inv(1) xs assms(3) c(2)] k by simp
qed

lemma cbq_get_law:
  assumes "cbq_inv cb" "n \<le> 9223372036854775807" "cbq_get cb n = (cb', ys)"
  shows "cbq_inv cb' \<and> ys = take n (cb_elements cb) \<and> cb_elements cb' = drop n (cb_elements cb) \<and>
    cbq_cap cb' = cbq_cap cb \<and> cbq_ok cb' = cbq_ok cb \<and> cb_headroom cb' = cb_headroom cb"
proof (cases "n = 0")
  case True
  then show ?thesis using assms
    by (auto simp: cbq_get_def gallus_cbuffer_get_n_with_size_def s_get_n_def chunks_def)
next
  case False
  have inv: "cb_inv cb" "m_is_operational cb" using assms by (simp_all add: cbq_inv_def)
  have n: "n < 9223372036854775808" "0 < n" using assms False by simp_all
  obtain c out where c: "s_get_n [] (Some cb) True n n (m_element_size cb) 0 True =
      (Some c, Some (get_count cb n), get_count cb n, out)"
      "s_copyout cb n True = (c, get_count cb n, out)"
    using get_n_now [OF inv n] by blast
  have k: "c = cb'" "ys = chunks (m_element_size cb) out"
    using assms(3) c(1) by (simp_all add: cbq_get_def gallus_cbuffer_get_n_with_size_def)
  note S = s_copyout_spec [OF inv(1) n(1) c(2)]
  have "cbq_cap c = cbq_cap cb" "cbq_ok c = cbq_ok cb" "cbq_inv c" "cb_headroom c = cb_headroom cb"
    using S(3,4,7,8) inv by (auto simp: same_config_def cbq_cap_def cbq_ok_def cbq_inv_def cb_headroom_def)
  then show ?thesis using copyout_elements [OF inv(1) n(1) c(2)] k by simp
qed

interpretation cbq: bounded_queue cbq_inv cb_elements cbq_cap cbq_ok cb_headroom 9223372036854775807
  cbq_put cbq_get
proof unfold_locales
  fix cb assume "cbq_inv cb"
  then show "length (cb_elements cb) \<le> cbq_cap cb"
    using cb_elements_concat(3) cb_invD(7) by (simp add: cbq_inv_def cbq_cap_def nat_mono)
qed (use cbq_put_law cbq_get_law in blast)+


subsection \<open>Releasing the queued elements\<close>

lemma emit_emit [simp]: "emit b (emit a cb) = emit (a @ b) cb"
  by (simp add: emit_def)

lemma emit_Nil [simp]: "emit [] cb = cb"
  by (simp add: emit_def)

lemma freeup_one_element:
  assumes inv: "cb_inv cb" and k: "k < nat (m_n_elements cb)"
  shows "s_freeup_one (m_r_idx cb + int k) (emit es cb) = emit (es @ [Del_value (cb_elements cb ! k)]) cb"
proof -
  note D = cb_invD [OF inv]
  let ?es = "m_element_size cb" and ?a = "m_n_max_allocd_elements cb" and ?d = "m_data cb"
  let ?i = "m_r_idx cb + int k"
  let ?q = "nat (c_mod ?i ?a) * ?es"
  have i: "0 \<le> ?i" "0 < ?a" and len: "length ?d = nat ?a * ?es" and es: "0 < ?es" using D by simp_all
  have "0 < (1::int)" by simp
  note R = ring_scale [OF i this len es]
  have q: "(nat ?i * ?es) mod length ?d = ?q" by (rule R(1))
  have "c_mod ?i ?a < ?a" using i by (simp add: c_mod_nonneg)
  then have "c_mod ?i ?a + 1 \<le> ?a" by simp
  then have "?q + ?es \<le> length ?d" using R(2) by simp
  then have "take ?es (drop ?q ?d) = ring_slice ?d (nat ?i * ?es) ?es"
    using ring_slice_flat [of ?q ?es ?d] ring_slice_mod [of ?d "nat ?i * ?es" ?es] q by simp
  moreover have "nat ?i * ?es = nat (m_r_idx cb) * ?es + k * ?es"
    using D(5) by (simp add: nat_add_distrib add_mult_distrib)
  moreover have "take ?es (drop (k * ?es) (cb_contents cb)) = ring_slice ?d (nat (m_r_idx cb) * ?es + k * ?es) ?es"
  proof -
    have "Suc k * ?es \<le> nat (m_n_elements cb) * ?es" using k by (intro mult_le_mono1) simp
    then show ?thesis by (simp add: cb_contents_def drop_ring_slice take_ring_slice)
  qed
  moreover have "cb_elements cb ! k = take ?es (drop (k * ?es) (cb_contents cb))"
    using k cb_elements_concat(3) [OF inv] es by (simp add: cb_elements_def chunks_def length_cb_contents)
  ultimately show ?thesis using i by (simp add: s_freeup_one_def s_data_addr_def)
qed

lemma s_freeup_all_values_spec:
  assumes "cb_inv cb"
  shows "s_freeup_all_values cb = emit (if m_del_proc cb then map Del_value (cb_elements cb) else []) cb"
proof -
  have "fold s_freeup_one (map (\<lambda>k. m_r_idx cb + int k) [0..<n]) cb =
      emit (map Del_value (take n (cb_elements cb))) cb" if "n \<le> nat (m_n_elements cb)" for n
    using that
  proof (induction n)
    case (Suc n)
    then show ?case
      using freeup_one_element [OF assms, of n] cb_elements_concat(3) [OF assms]
      by (simp add: take_Suc_conv_app_nth)
  qed simp
  from this [of "nat (m_n_elements cb)"] show ?thesis
    using cb_elements_concat(3) [OF assms] cb_invD [OF assms]
    by (simp add: s_freeup_all_values_def s_adjust_indices_id [OF assms])
qed

definition frees :: "bool \<Rightarrow> cbuffer \<Rightarrow> cb_effect list" where
  "frees free_values cb =
    (if free_values \<and> m_del_proc cb then map Del_value (cb_elements cb) else [])"

definition is_del_value :: "cb_effect \<Rightarrow> bool" where
  "is_del_value e = (case e of Del_value _ \<Rightarrow> True | _ \<Rightarrow> False)"

lemma s_clean_spec:
  assumes "cb_inv cb"
  shows "cb_inv (s_clean fv cb)" "cb_elements (s_clean fv cb) = []" "m_n_elements (s_clean fv cb) = 0"
    "m_trace (s_clean fv cb) = m_trace cb @ frees fv cb"
    "m_is_operational (s_clean fv cb) = m_is_operational cb" "m_qmuxer (s_clean fv cb) = m_qmuxer cb"
    "m_type (s_clean fv cb) = m_type cb" "same_config cb (s_clean fv cb)"
proof -
  have c: "s_clean fv cb = (emit (frees fv cb) cb)\<lparr>m_r_idx := 0, m_w_idx := 0,
        m_data := replicate (m_element_size cb * nat (m_n_max_allocd_elements cb)) 0, m_n_elements := 0\<rparr>"
    using s_freeup_all_values_spec [OF assms] by (simp add: s_clean_def frees_def Let_def)
  show "cb_inv (s_clean fv cb)" "cb_elements (s_clean fv cb) = []" "m_n_elements (s_clean fv cb) = 0"
    "m_trace (s_clean fv cb) = m_trace cb @ frees fv cb"
    "m_is_operational (s_clean fv cb) = m_is_operational cb" "m_qmuxer (s_clean fv cb) = m_qmuxer cb"
    "m_type (s_clean fv cb) = m_type cb" "same_config cb (s_clean fv cb)"
    using cb_invD [OF assms] unfolding c
    by (simp_all add: cb_inv_def same_config_def cb_elements_def cb_contents_def chunks_def)
qed

lemma trace_notify: "\<exists>q. m_trace (notify_qmuxer cb) = m_trace cb @ q \<and> filter is_del_value q = []"
  by (cases "m_qmuxer cb") (simp_all add: notify_qmuxer_def is_del_value_def)

lemma s_shutdown_spec:
  assumes "cb_inv cb" "m_is_operational cb"
  shows "cb_inv (s_shutdown fv cb)" "cb_elements (s_shutdown fv cb) = []"
    "\<not> m_is_operational (s_shutdown fv cb)"
    "\<exists>q. m_trace (s_shutdown fv cb) = m_trace cb @ frees fv cb @ q \<and> filter is_del_value q = []"
proof -
  let ?c = "cb\<lparr>m_is_operational := False\<rparr>"
  have inv: "cb_inv ?c" using assms by (simp add: cb_inv_def)
  have fr: "frees fv ?c = frees fv cb" by (simp add: frees_def cb_elements_def cb_contents_def)
  note S = s_clean_spec [OF inv, of fv]
  have sd: "s_shutdown fv cb = emit [Notify_get, Notify_put, Notify_awakened] (notify_qmuxer (s_clean fv ?c))"
    using assms by (simp add: s_shutdown_def Let_def)
  show "cb_inv (s_shutdown fv cb)" "cb_elements (s_shutdown fv cb) = []" "\<not> m_is_operational (s_shutdown fv cb)"
    using S(1,2,5) by (simp_all add: sd cb_elements_def)
  show "\<exists>q. m_trace (s_shutdown fv cb) = m_trace cb @ frees fv cb @ q \<and> filter is_del_value q = []"
    using trace_notify [of "s_clean fv ?c"] S(4) fr by (auto simp: sd is_del_value_def)
qed


subsection \<open>Waking the waiters\<close>

text \<open>All waiters return from their condition variables, one after the other.\<close>

fun resume_waiters :: "nat \<Rightarrow> cbuffer \<Rightarrow> cbuffer \<times> gallus_result_t list" where
  "resume_waiters 0 cb = (cb, [])"
| "resume_waiters (Suc n) cb =
    (let (cb, r) = s_wait_end GALLUS_RESULT_OK cb; (cb, rs) = resume_waiters n cb in (cb, r # rs))"

lemma resume_waiters_awakened:
  assumes "m_is_operational cb" "m_is_awakened cb" "m_n_waiters cb = Suc n"
  shows "\<exists>cb'. resume_waiters (Suc n) cb = (cb', replicate (Suc n) GALLUS_RESULT_WAKEUP_REQUESTED) \<and>
    \<not> m_is_awakened cb' \<and> m_n_waiters cb' = 0 \<and> m_is_operational cb' \<and> cb_elements cb' = cb_elements cb"
  using assms
proof (induction n arbitrary: cb)
  case 0
  then show ?case by (simp add: s_wait_end_def cb_elements_def cb_contents_def)
next
  case (Suc n)
  let ?c = "cb\<lparr>m_n_waiters := Suc n\<rparr>"
  have step: "s_wait_end GALLUS_RESULT_OK cb = (?c, GALLUS_RESULT_WAKEUP_REQUESTED)"
    using Suc.prems by (simp add: s_wait_end_def)
  have "cb_elements ?c = cb_elements cb" by (simp add: cb_elements_def cb_contents_def)
  with Suc.IH [of ?c] Suc.prems obtain cb' where
    "resume_waiters (Suc n) ?c = (cb', replicate (Suc n) GALLUS_RESULT_WAKEUP_REQUESTED)"
    "\<not> m_is_awakened cb'" "m_n_waiters cb' = 0" "m_is_operational cb'" "cb_elements cb' = cb_elements cb"
    by auto
  with step show ?case by (subst resume_waiters.simps) (simp del: resume_waiters.simps)
qed

subsection \<open>Runs of calls\<close>

text \<open>A thread's sequence of non-blocking calls on one buffer; see \<open>bounded_queue.run\<close>.\<close>

fun cb_run :: "byte list queue_op list \<Rightarrow> cbuffer \<Rightarrow> cbuffer \<times> byte list list \<times> byte list list" where
  "cb_run [] cb = (cb, [], [])"
| "cb_run (Q_put xs # ops) cb =
    (let (cb, k) = cbq_put cb xs; (cb, acc, out) = cb_run ops cb in (cb, take k xs @ acc, out))"
| "cb_run (Q_get n # ops) cb =
    (let (cb, ys) = cbq_get cb n; (cb, acc, out) = cb_run ops cb in (cb, acc, ys @ out))"

lemma cb_run_run: "cb_run ops cb = cbq.run ops cb"
proof (induction ops arbitrary: cb)
  case (Cons q ops)
  then show ?case by (cases q) simp_all
qed simp

fun cb_op_ok :: "nat \<Rightarrow> byte list queue_op \<Rightarrow> bool" where
  "cb_op_ok es (Q_put xs) \<longleftrightarrow> list_all (\<lambda>x. length x = es) xs"
| "cb_op_ok es (Q_get n) \<longleftrightarrow> n < 9223372036854775808"

fun cb_op_size :: "byte list queue_op \<Rightarrow> nat" where
  "cb_op_size (Q_put xs) = length xs"
| "cb_op_size (Q_get n) = 0"

lemma cb_op_ok_cbq: "cb_op_ok (m_element_size cb) q \<Longrightarrow> cbq.op_ok cb q"
  by (cases q) (auto simp: cbq_ok_def list_all_iff)

lemma cb_op_size_cbq: "cb_op_size = cbq.op_size"
  by (rule ext, case_tac x) simp_all

lemma create_spec:
  assumes "gallus_cbuffer_create_with_size mem prims cbptr es maxel proc = (Some (Some cb), GALLUS_RESULT_OK)"
    "\<forall>bytes. mem = Some bytes \<longrightarrow> length bytes = es * nat (maxel + 1)" "maxel < 9223372036854775807"
    "cbptr \<noteq> Some (Some cb)"
  shows "cbq_inv cb" "cb_elements cb = []" "cbq_cap cb = nat maxel" "m_element_size cb = es"
    "cb_headroom cb = 9223372036854775807" "\<not> m_is_awakened cb" "m_n_waiters cb = 0"
proof -
  obtain bytes where m: "mem = Some bytes" "0 < es" "0 < maxel" and cb: "cb =
      \<lparr>m_r_idx = 0, m_w_idx = 0, m_n_elements = 0, m_n_waiters = 0,
       m_is_operational = True, m_is_awakened = False, m_del_proc = proc,
       m_element_size = es, m_n_max_elements = maxel,
       m_n_max_allocd_elements = maxel + N_EMPTY_ROOM,
       m_qmuxer = None, m_type = 0, m_data = bytes, m_trace = []\<rparr>"
    using assms(1,4)
    by (auto simp: gallus_cbuffer_create_with_size_def split: option.splits if_splits)
  show "cbq_inv cb" "cb_elements cb = []" "cbq_cap cb = nat maxel" "m_element_size cb = es"
    "cb_headroom cb = 9223372036854775807" "\<not> m_is_awakened cb" "m_n_waiters cb = 0"
    using assms(2) m unfolding cb
    by (simp_all add: cbq_inv_def cb_inv_def cb_elements_def cb_contents_def chunks_def cbq_cap_def
        cb_headroom_def N_EMPTY_ROOM_def mult.commute)
qed

subsection \<open>Properties\<close>

text \<open>
  C1. First in, first out, within the capacity: for every sequence of non-blocking puts and gets on
  a freshly created buffer (fewer than \<open>2 ^ 63\<close> elements offered in total), the elements delivered,
  followed by those still queued, are exactly the elements accepted, in order; at most the capacity
  is ever queued.
\<close>

theorem cbuffer_fifo:
  assumes "gallus_cbuffer_create_with_size (Some bytes) prims (Some None) es maxel proc =
      (Some (Some cb), GALLUS_RESULT_OK)"
    and "length bytes = es * nat (maxel + 1)" "maxel < 9223372036854775807"
    and "\<forall>q\<in>set ops. cb_op_ok es q" "sum_list (map cb_op_size ops) < 9223372036854775808"
    and "cb_run ops cb = (cb', acc, out)"
  shows "out @ cb_elements cb' = acc \<and> length (cb_elements cb') \<le> nat maxel"
proof -
  note C = create_spec [OF assms(1) _ assms(3)]
  have C': "cbq_inv cb" "cb_elements cb = []" "cbq_cap cb = nat maxel" "m_element_size cb = es"
      "cb_headroom cb = 9223372036854775807"
    using C assms(2) by simp_all
  have "\<forall>q\<in>set ops. cbq.op_ok cb q" using assms(4) C'(4) cb_op_ok_cbq by blast
  moreover have "sum_list (map cbq.op_size ops) \<le> cb_headroom cb"
    using assms(5) C'(5) by (simp add: cb_op_size_cbq)
  ultimately show ?thesis
    using cbq.run_fifo [OF C'(1) _ _ assms(6) [unfolded cb_run_run]] C' by simp
qed

definition sample_cbuffer :: "nat \<Rightarrow> int \<Rightarrow> cbuffer" where
  "sample_cbuffer es maxel =
    \<lparr>m_r_idx = 0, m_w_idx = 0, m_n_elements = 0, m_n_waiters = 0,
     m_is_operational = True, m_is_awakened = False, m_del_proc = True,
     m_element_size = es, m_n_max_elements = maxel,
     m_n_max_allocd_elements = maxel + 1,
     m_qmuxer = None, m_type = 0, m_data = replicate (es * nat (maxel + 1)) 0, m_trace = []\<rparr>"

lemma sample_create:
  assumes "0 < es" "0 < maxel"
  shows "gallus_cbuffer_create_with_size (Some (replicate (es * nat (maxel + 1)) 0)) [] (Some None) es maxel True =
    (Some (Some (sample_cbuffer es maxel)), GALLUS_RESULT_OK)"
  using assms by (simp add: gallus_cbuffer_create_with_size_def sample_cbuffer_def N_EMPTY_ROOM_def)

lemma sample_inv: "0 < es \<Longrightarrow> 0 < maxel \<Longrightarrow> cb_inv (sample_cbuffer es maxel)"
  by (simp add: cb_inv_def sample_cbuffer_def mult.commute)

lemma sample_simps [simp]:
  "m_element_size (sample_cbuffer es maxel) = es" "m_n_max_elements (sample_cbuffer es maxel) = maxel"
  "m_n_elements (sample_cbuffer es maxel) = 0" "cb_contents (sample_cbuffer es maxel) = []"
  "m_is_operational (sample_cbuffer es maxel)" "\<not> m_is_awakened (sample_cbuffer es maxel)"
  "cb_headroom (sample_cbuffer es maxel) = 9223372036854775807"
  by (simp_all add: sample_cbuffer_def cb_contents_def cb_headroom_def ring_slice_def)

theorem cbuffer_fifo_witness:
  "case cb_run [Q_put [[1, 2], [3, 4], [5, 6]], Q_get 1, Q_put [[7, 8]], Q_get 5] (sample_cbuffer 2 2) of
     (cb', acc, out) \<Rightarrow> out @ cb_elements cb' = acc \<and> length (cb_elements cb') \<le> 2"
proof -
  let ?ops = "[Q_put [[1, 2], [3, 4], [5, 6]], Q_get 1, Q_put [[7, 8]], Q_get 5] :: byte list queue_op list"
  obtain cb' acc out where r: "cb_run ?ops (sample_cbuffer 2 2) = (cb', acc, out)" by (metis prod_cases3)
  have "out @ cb_elements cb' = acc \<and> length (cb_elements cb') \<le> nat 2"
    by (rule cbuffer_fifo [OF sample_create _ _ _ _ r]) simp_all
  then show ?thesis using r by simp
qed


text \<open>
  C2. A put without a time limit that is larger than the free space completes once consumers have
  made room: while it waits other threads take \<open>ks\<close> elements, and when these are enough the call
  returns the number of elements it was given, all of them are queued behind the earlier ones, and
  nothing but what the consumers took is missing from the front.
\<close>

theorem cbuffer_blocking_put_completes:
  assumes "cb_inv cb" "m_is_operational cb" "\<not> m_is_awakened cb" "0 < n"
    and "n * m_element_size cb \<le> length val" "n \<le> cb_headroom cb"
    and "\<forall>k\<in>set ks. 0 < k \<and> int k \<le> m_n_max_elements cb" "m_n_max_elements cb < 9223372036854775808"
    and "int n \<le> m_n_max_elements cb - m_n_elements cb + int (sum_list ks)"
  shows "\<exists>cb' g. gallus_cbuffer_put_n_with_size (map consumer ks) (Some cb) (Some val) n (m_element_size cb) (- 1) =
      (Some cb', Some (int n), int n) \<and> cb_inv cb' \<and> g \<le> sum_list ks \<and>
      cb_contents cb' = drop (g * m_element_size cb) (cb_contents cb @ take (n * m_element_size cb) val)"
  using put_with_consumers [OF assms(1-3) le0 assms(5) _ assms(7,8), of GALLUS_RESULT_ANY_FAILURES] assms(4,6,9)
  by (fastforce simp: gallus_cbuffer_put_n_with_size_def s_put_n_def)

theorem cbuffer_blocking_put_completes_witness:
  "\<exists>cb' g. gallus_cbuffer_put_n_with_size (map consumer [2, 2]) (Some (sample_cbuffer 2 2))
        (Some [1, 2, 3, 4, 5, 6, 7, 8]) 4 2 (- 1) = (Some cb', Some 4, 4) \<and> cb_inv cb' \<and> g \<le> 4 \<and>
      cb_contents cb' = drop (g * 2) [1, 2, 3, 4, 5, 6, 7, 8]"
  using cbuffer_blocking_put_completes [of "sample_cbuffer 2 2" 4 "[1, 2, 3, 4, 5, 6, 7, 8]" "[2, 2]"]
  by (simp add: sample_inv)

text \<open>
  C3. A get without a time limit that asks for more elements than are queued completes once producers
  have supplied them: while it waits other threads put the elements \<open>ps\<close>, and when these are enough
  the call returns the number asked for, and the bytes delivered, followed by those still queued, are
  the earlier contents followed by what the first \<open>m\<close> producers put, in order.
\<close>

theorem cbuffer_blocking_get_completes:
  assumes "cb_inv cb" "m_is_operational cb" "\<not> m_is_awakened cb" "0 < n" "n < 9223372036854775808"
    and "sum_list (map snd ps) \<le> cb_headroom cb"
    and "\<forall>(val, k)\<in>set ps. int k \<le> m_n_max_elements cb \<and> k * m_element_size cb \<le> length val"
    and "int n \<le> m_n_elements cb + int (sum_list (map snd ps))"
  shows "\<exists>cb' out m. gallus_cbuffer_get_n_with_size (map (\<lambda>(val, k). producer val k) ps) (Some cb) True
        n m' (m_element_size cb) (- 1) = (Some cb', Some (int n), int n, out) \<and> cb_inv cb' \<and> m \<le> length ps \<and>
      out @ cb_contents cb' =
        cb_contents cb @ concat (map (\<lambda>(val, k). take (k * m_element_size cb) val) (take m ps))"
  using get_with_producers [OF assms(1-3) le0 assms(5,4,6,7), of "[]" GALLUS_RESULT_ANY_FAILURES] assms(4,8)
  by (fastforce simp: gallus_cbuffer_get_n_with_size_def s_get_n_def)

theorem cbuffer_blocking_get_completes_witness:
  "\<exists>cb' out m. gallus_cbuffer_get_n_with_size (map (\<lambda>(val, k). producer val k) [([1, 2, 3, 4], 2), ([5, 6, 7, 8], 2)])
        (Some (sample_cbuffer 2 2)) True 3 3 2 (- 1) = (Some cb', Some 3, 3, out) \<and> cb_inv cb' \<and> m \<le> 2 \<and>
      out @ cb_contents cb' =
        concat (map (\<lambda>(val, k). take (k * 2) val) (take m [([1, 2, 3, 4], 2), ([5, 6, 7, 8], 2)]))"
  using cbuffer_blocking_get_completes [of "sample_cbuffer 2 2" 3 "[([1, 2, 3, 4], 2), ([5, 6, 7, 8], 2)]" 3]
  by (simp add: sample_inv numeral_2_eq_2)

text \<open>
  C3. Whatever well-behaved threads do while a blocking put waits, the call either transfers all
  elements and returns their number, or returns that the buffer was shut down, that it was woken up,
  that its time ran out, or the error of the wait itself; it never reaches the branches the code marks
  as impossible, and the count it reports is within the request. The buffer stays well formed.
\<close>

theorem cbuffer_put_n_outcome:
  assumes "cb_inv cb" "0 < n" "n * m_element_size cb \<le> length val" "nsec \<noteq> 0"
    and "n + d * length ws \<le> cb_headroom cb" "\<forall>wk\<in>set ws. env_ok d (fst (snd wk))"
    and "gallus_cbuffer_put_n_with_size ws (Some cb) (Some val) n (m_element_size cb) nsec = (Some cb', Some r, k)"
  shows "transfer_outcome ws (0 < nsec) n n r k \<and> cb_inv cb' \<and> same_config cb cb'"
proof (cases "0 < nsec")
  case False
  then have "s_put_n_inf ws val n (m_element_size cb) (int 0) GALLUS_RESULT_ANY_FAILURES cb = (cb', k, Some r)"
    using assms(2,4,7) by (auto simp: gallus_cbuffer_put_n_with_size_def s_put_n_def split: prod.splits)
  from s_put_n_inf_outcome [OF assms(1) le0 assms(3) _ assms(6) this] show ?thesis
    using assms(5) False by simp
next
  case True
  then have to: "s_put_n_to ws val n (m_element_size cb) nsec (int 0) GALLUS_RESULT_ANY_FAILURES cb = (cb', k, Some r)"
    using assms(2,7) by (auto simp: gallus_cbuffer_put_n_with_size_def s_put_n_def split: prod.splits)
  obtain us where us: "timed_script ws us"
      "s_put_n_inf us val n (m_element_size cb) (int 0) GALLUS_RESULT_ANY_FAILURES cb = (cb', k, Some r)"
    using s_put_n_to_as_inf [OF to True] by blast
  have "length us \<le> length ws" using us(1) by (simp add: timed_script_def)
  then have "d * length us \<le> d * length ws" by (rule mult_le_mono2)
  then have "n + d * length us \<le> cb_headroom cb" using assms(5) by (rule le_trans [OF add_left_mono])
  then have "n - 0 + d * length us \<le> cb_headroom cb" by simp
  moreover have "\<forall>wk\<in>set us. env_ok d (fst (snd wk))" using us(1) assms(6) by (metis timed_script_def)
  ultimately have "transfer_outcome us False n n r k \<and> cb_inv cb' \<and> same_config cb cb'"
    using s_put_n_inf_outcome [OF assms(1) le0 assms(3) _ _ us(2)] by blast
  then show ?thesis using transfer_outcome_timed [OF _ us(1)] True by simp
qed


lemma env_ok_id: "env_ok 0 (\<lambda>cb. cb)"
  by (simp add: env_ok_def)

theorem cbuffer_put_n_outcome_witness:
  "\<exists>cb' r k. gallus_cbuffer_put_n_with_size [(GALLUS_RESULT_TIMEDOUT, \<lambda>cb. cb, 9)] (Some (sample_cbuffer 2 1))
        (Some [1, 2, 3, 4]) 2 2 9 = (Some cb', Some r, k) \<and>
      transfer_outcome [(GALLUS_RESULT_TIMEDOUT, \<lambda>cb. cb, 9)] True 2 2 r k \<and> cb_inv cb'"
proof -
  let ?ws = "[(GALLUS_RESULT_TIMEDOUT, \<lambda>cb. cb, 9)] :: cb_wake list"
  have "\<exists>cb' r k. gallus_cbuffer_put_n_with_size ?ws (Some (sample_cbuffer 2 1)) (Some [1, 2, 3, 4]) 2 2 9 =
      (Some cb', Some r, k)"
    by (simp add: gallus_cbuffer_put_n_with_size_def s_put_n_def put_iteration_def s_copyin_def
        s_adjust_indices_def c_mod_nonneg s_wait_io_ready_def s_wait_end_def s_wait_begin_def sample_cbuffer_def
        NEED_WAIT_READABLE_def GALLUS_QMUXER_POLL_READABLE_def)
  then obtain cb' r k where call: "gallus_cbuffer_put_n_with_size ?ws (Some (sample_cbuffer 2 1))
      (Some [1, 2, 3, 4]) 2 (m_element_size (sample_cbuffer 2 1)) 9 = (Some cb', Some r, k)" by auto
  show ?thesis
    using cbuffer_put_n_outcome [OF sample_inv [of 2 1] _ _ _ _ _ call, of 0] call env_ok_id by simp
qed

text \<open>
  C5. The same for a blocking get of up to \<open>n\<close> elements: complete (at least \<open>n_at_least\<close> elements when
  there is a time limit, all of them when there is none) with their number returned, or stopped for one
  of the named reasons; the caller's buffer received as many elements as the call reports.
\<close>

theorem cbuffer_get_n_outcome:
  assumes "cb_inv cb" "0 < m" "m \<le> n" "n < 9223372036854775808" "nsec \<noteq> 0"
    and "d * length ws \<le> cb_headroom cb" "\<forall>wk\<in>set ws. env_ok d (fst (snd wk))"
    and "gallus_cbuffer_get_n_with_size ws (Some cb) True n m (m_element_size cb) nsec = (Some cb', Some r, k, out)"
  shows "transfer_outcome ws (0 < nsec) (if 0 < nsec then m else n) n r k \<and> cb_inv cb' \<and> same_config cb cb' \<and>
    length out = nat k * m_element_size cb"
proof (cases "0 < nsec")
  case False
  then have g: "s_get_n_inf ws n True [] (int 0) GALLUS_RESULT_ANY_FAILURES cb = ((cb', out), k, Some r)"
    using assms(2,3,5,8) by (auto simp: gallus_cbuffer_get_n_with_size_def s_get_n_def split: prod.splits)
  have "0 < n" using assms(2,3) by simp
  from s_get_n_inf_outcome [OF assms(1) le0 assms(4) this _ assms(6,7) g] show ?thesis
    using False by simp
next
  case True
  then have g: "s_get_n_to ws n m True nsec [] (int 0) GALLUS_RESULT_ANY_FAILURES cb = ((cb', out), k, Some r)"
    using assms(2,3,8) by (auto simp: gallus_cbuffer_get_n_with_size_def s_get_n_def split: prod.splits)
  from s_get_n_to_outcome [OF assms(1) le0 assms(4,2,3) _ True assms(6,7) g] show ?thesis
    using True by simp
qed

theorem cbuffer_get_n_outcome_witness:
  "\<exists>cb' r k out. gallus_cbuffer_get_n_with_size [(GALLUS_RESULT_OK, \<lambda>cb. cb, 9)] (Some (sample_cbuffer 2 1)) True
        2 1 2 5 = (Some cb', Some r, k, out) \<and>
      transfer_outcome [(GALLUS_RESULT_OK, \<lambda>cb. cb, 9)] True 1 2 r k \<and> cb_inv cb' \<and> length out = nat k * 2"
proof -
  let ?ws = "[(GALLUS_RESULT_OK, \<lambda>cb. cb, 9)] :: cb_wake list"
  have "\<exists>cb' r k out. gallus_cbuffer_get_n_with_size ?ws (Some (sample_cbuffer 2 1)) True 2 1 2 5 =
      (Some cb', Some r, k, out)"
    by (simp add: gallus_cbuffer_get_n_with_size_def s_get_n_def get_iteration_def s_copyout_def
        s_adjust_indices_def s_wait_io_ready_def s_wait_end_def s_wait_begin_def sample_cbuffer_def)
  then obtain cb' r k out where call: "gallus_cbuffer_get_n_with_size ?ws (Some (sample_cbuffer 2 1)) True
      2 1 (m_element_size (sample_cbuffer 2 1)) 5 = (Some cb', Some r, k, out)" by auto
  show ?thesis
    using cbuffer_get_n_outcome [OF sample_inv [of 2 1] _ _ _ _ _ _ call, of 0] call env_ok_id by simp
qed

lemma release_each_once:
  assumes "cb_inv cb" "m_is_operational cb" "m_del_proc cb"
    and "gallus_cbuffer_clear (Some cb) True = (Some cleared, r)"
    and "gallus_cbuffer_shutdown (Some cb) True = Some down"
    and "gallus_cbuffer_destroy (Some cb) True = (gone, effects)"
  shows "r = GALLUS_RESULT_OK" "cb_elements cleared = []" "cb_elements down = []"
    "filter is_del_value (drop (length (m_trace cb)) (m_trace cleared)) = map Del_value (cb_elements cb)"
    "filter is_del_value (drop (length (m_trace cb)) (m_trace down)) = map Del_value (cb_elements cb)"
    "filter is_del_value (drop (length (m_trace cb)) effects) = map Del_value (cb_elements cb)"
    "gallus_cbuffer_size (Some cleared) = 0" "gallus_cbuffer_size (Some down) = GALLUS_RESULT_NOT_OPERATIONAL"
    "gallus_cbuffer_shutdown (Some down) fv = Some down" "gone = None"
proof -
  note S = s_clean_spec [OF assms(1), of True] and D = s_shutdown_spec [OF assms(1,2), of True]
  have fr: "frees True cb = map Del_value (cb_elements cb)" using assms(3) by (simp add: frees_def)
  have del: "filter is_del_value (map Del_value xs) = map Del_value xs" for xs
    by (simp add: is_del_value_def comp_def)
  have down: "down = s_shutdown True cb" "effects = m_trace (s_shutdown True cb)" "gone = None"
    using assms(5,6) by (simp_all add: gallus_cbuffer_shutdown_def gallus_cbuffer_destroy_def)
  have tr: "filter is_del_value (drop (length (m_trace cb)) (m_trace (s_shutdown True cb))) =
      map Del_value (cb_elements cb)"
    using D(4) fr del by auto
  obtain q where q: "m_trace cleared = m_trace cb @ frees True cb @ q" "filter is_del_value q = []"
    using assms(4) S(4) trace_notify [of "s_clean True cb"]
    by (auto simp: gallus_cbuffer_clear_def Let_def is_del_value_def split: if_splits)
  have cl: "cb_elements cleared = cb_elements (s_clean True cb)" "m_n_elements cleared = m_n_elements (s_clean True cb)"
    "m_is_operational cleared = m_is_operational cb"
    using assms(4) S(5) by (auto simp: gallus_cbuffer_clear_def Let_def cb_elements_def split: if_splits)
  show "r = GALLUS_RESULT_OK" using assms(4) by (simp add: gallus_cbuffer_clear_def Let_def)
  show "cb_elements cleared = []" "cb_elements down = []" "gone = None" using cl S D down by simp_all
  show "filter is_del_value (drop (length (m_trace cb)) (m_trace cleared)) = map Del_value (cb_elements cb)"
    using q fr del by simp
  show "filter is_del_value (drop (length (m_trace cb)) (m_trace down)) = map Del_value (cb_elements cb)"
    "filter is_del_value (drop (length (m_trace cb)) effects) = map Del_value (cb_elements cb)"
    using tr down by simp_all
  show "gallus_cbuffer_size (Some cleared) = 0" "gallus_cbuffer_size (Some down) = GALLUS_RESULT_NOT_OPERATIONAL"
    "gallus_cbuffer_shutdown (Some down) fv = Some down"
    using cl S(3) D(3) down assms(2)
    by (simp_all add: gallus_cbuffer_size_def gallus_cbuffer_shutdown_def s_shutdown_def)
qed

text \<open>
  C4. Clearing, shutting down or destroying a buffer with \<open>free_values\<close> passes every queued element
  to the free-up procedure exactly once, oldest first, also when the queue wraps around the end of the
  array; afterwards it is empty, and a second shutdown does nothing.
\<close>

theorem cbuffer_release_each_once:
  assumes "cb_inv cb" "m_is_operational cb" "m_del_proc cb"
    and "gallus_cbuffer_clear (Some cb) True = (Some cleared, r)"
    and "gallus_cbuffer_shutdown (Some cb) True = Some down"
    and "gallus_cbuffer_destroy (Some cb) True = (gone, effects)"
  shows "r = GALLUS_RESULT_OK \<and> cb_elements cleared = [] \<and> cb_elements down = [] \<and> gone = None \<and>
    filter is_del_value (drop (length (m_trace cb)) (m_trace cleared)) = map Del_value (cb_elements cb) \<and>
    filter is_del_value (drop (length (m_trace cb)) (m_trace down)) = map Del_value (cb_elements cb) \<and>
    filter is_del_value (drop (length (m_trace cb)) effects) = map Del_value (cb_elements cb) \<and>
    gallus_cbuffer_size (Some cleared) = 0 \<and>
    gallus_cbuffer_size (Some down) = GALLUS_RESULT_NOT_OPERATIONAL \<and>
    gallus_cbuffer_shutdown (Some down) fv = Some down"
  by (intro conjI release_each_once [OF assms])

text \<open>A buffer of two elements whose queue wraps around.\<close>

definition wrapped_cbuffer :: cbuffer where
  "wrapped_cbuffer = (sample_cbuffer 1 2)\<lparr>m_r_idx := 2, m_w_idx := 4, m_n_elements := 2, m_data := [7, 8, 9]\<rparr>"

lemma wrapped_inv: "cb_inv wrapped_cbuffer"
  by (simp add: wrapped_cbuffer_def sample_cbuffer_def cb_inv_def)

lemma wrapped_elements: "cb_elements wrapped_cbuffer = [[9], [7]]"
  by (simp add: wrapped_cbuffer_def sample_cbuffer_def cb_elements_def cb_contents_def ring_slice_def chunks_def upt_rec)

theorem cbuffer_release_each_once_witness:
  "\<exists>down. gallus_cbuffer_shutdown (Some wrapped_cbuffer) True = Some down \<and>
     filter is_del_value (m_trace down) = [Del_value [9], Del_value [7]] \<and> cb_elements down = []"
proof -
  obtain cleared r where c: "gallus_cbuffer_clear (Some wrapped_cbuffer) True = (Some cleared, r)"
    by (simp add: gallus_cbuffer_clear_def Let_def)
  obtain down where d: "gallus_cbuffer_shutdown (Some wrapped_cbuffer) True = Some down"
    by (simp add: gallus_cbuffer_shutdown_def)
  obtain gone effects where g: "gallus_cbuffer_destroy (Some wrapped_cbuffer) True = (gone, effects)" by fastforce
  have p: "m_is_operational wrapped_cbuffer" "m_del_proc wrapped_cbuffer" "m_trace wrapped_cbuffer = []"
    by (simp_all add: wrapped_cbuffer_def sample_cbuffer_def)
  note R = cbuffer_release_each_once [OF wrapped_inv p(1,2) c d g]
  show ?thesis using R d p(3) wrapped_elements by simp
qed

text \<open>
  A wakeup reaches every waiter and only those: after it all waiters return that a wakeup was
  requested, whatever is queued, the last of them resets the request, and a wait that begins later
  is not affected.
\<close>

theorem cbuffer_wakeup_reaches_every_waiter:
  assumes "m_is_operational cb" "\<not> m_is_awakened cb" "0 < m_n_waiters cb"
    and "gallus_cbuffer_wakeup [] (Some cb) 0 = (Some cb1, r)"
    and "resume_waiters (m_n_waiters cb) cb1 = (cb2, rs)"
  shows "r = Some GALLUS_RESULT_OK \<and> rs = replicate (m_n_waiters cb) GALLUS_RESULT_WAKEUP_REQUESTED \<and>
    \<not> m_is_awakened cb2 \<and> m_n_waiters cb2 = 0 \<and> cb_elements cb2 = cb_elements cb \<and>
    snd (s_wait_end GALLUS_RESULT_OK (s_wait_begin cb2)) = GALLUS_RESULT_OK"
proof -
  let ?c = "emit [Notify_get, Notify_put] (cb\<lparr>m_is_awakened := True\<rparr>)"
  have c: "cb1 = ?c" "r = Some GALLUS_RESULT_OK"
    using assms by (simp_all add: gallus_cbuffer_wakeup_def Let_def)
  obtain n where n: "m_n_waiters cb = Suc n" using assms(3) by (cases "m_n_waiters cb") auto
  have "cb_elements ?c = cb_elements cb" by (simp add: cb_elements_def cb_contents_def)
  with resume_waiters_awakened [of ?c n] assms(1,5) c n show ?thesis
    by (auto simp: s_wait_end_def Let_def simp del: resume_waiters.simps)
qed

theorem cbuffer_wakeup_reaches_every_waiter_witness:
  "\<exists>cb1 cb2. gallus_cbuffer_wakeup [] (Some (wrapped_cbuffer\<lparr>m_n_waiters := 2\<rparr>)) 0 = (Some cb1, Some GALLUS_RESULT_OK) \<and>
     resume_waiters 2 cb1 = (cb2, [GALLUS_RESULT_WAKEUP_REQUESTED, GALLUS_RESULT_WAKEUP_REQUESTED]) \<and>
     m_n_waiters cb2 = 0"
proof -
  let ?cb = "wrapped_cbuffer\<lparr>m_n_waiters := 2\<rparr>"
  have p: "m_is_operational ?cb" "\<not> m_is_awakened ?cb" "0 < m_n_waiters ?cb" "m_n_waiters ?cb = 2"
    by (simp_all add: wrapped_cbuffer_def sample_cbuffer_def)
  obtain cb1 r where w: "gallus_cbuffer_wakeup [] (Some ?cb) 0 = (Some cb1, r)"
    using p by (simp add: gallus_cbuffer_wakeup_def Let_def)
  obtain cb2 rs where s: "resume_waiters (m_n_waiters ?cb) cb1 = (cb2, rs)" by fastforce
  from cbuffer_wakeup_reaches_every_waiter [OF p(1-3) w s] w s p(4) show ?thesis
    by (simp add: numeral_2_eq_2 del: resume_waiters.simps)
qed


text \<open>
  A peek with a time limit or without one does not wait while fewer elements than needed are
  queued: unless the buffer is empty it delivers what is there and returns the failure code it was
  initialised with, whatever script of waits could follow, and takes nothing out.
\<close>

theorem cbuffer_peek_n_does_not_wait:
  assumes "cb_inv cb" "m_is_operational cb" "nsec \<noteq> 0" "n < 9223372036854775808"
    and "0 < m_n_elements cb" "m_n_elements cb < int (if 0 < nsec then m else n)" "m \<le> n"
  shows "gallus_cbuffer_peek_n_with_size ws (Some cb) True n m (m_element_size cb) nsec =
    (Some cb, Some GALLUS_RESULT_ANY_FAILURES, m_n_elements cb, cb_contents cb)"
proof -
  obtain cb' k bytes where copy: "s_copyout cb n False = (cb', k, bytes)" by (metis prod_cases3)
  note S = s_copyout_spec [OF assms(1,4) copy]
  have k: "k = m_n_elements cb" using S(1) assms(6,7) by (auto simp: get_count_def split: if_splits)
  have "cb' = cb"
    using copy by (auto simp: s_copyout_def Let_def s_adjust_indices_id [OF assms(1)] split: if_splits)
  moreover have "bytes = cb_contents cb" using S(2) k by (simp add: length_cb_contents)
  ultimately have it: "get_iteration n (if 0 < nsec then m else n) False [] 0 GALLUS_RESULT_ANY_FAILURES cb =
      Iter_return (cb, cb_contents cb) (m_n_elements cb) GALLUS_RESULT_ANY_FAILURES"
    using copy k assms(2,5,6) by (simp add: get_iteration_def Let_def)
  have "0 < n" using assms(5,6,7) by (auto split: if_splits)
  then show ?thesis using it assms(3)
    by (cases ws) (auto simp: gallus_cbuffer_peek_n_with_size_def s_get_n_def split: if_splits)
qed

theorem cbuffer_peek_n_does_not_wait_witness:
  "gallus_cbuffer_peek_n_with_size [] (Some wrapped_cbuffer) True 3 3 1 (- 1) =
     (Some wrapped_cbuffer, Some GALLUS_RESULT_ANY_FAILURES, 2, [9, 7])"
proof -
  have p: "m_is_operational wrapped_cbuffer" "m_n_elements wrapped_cbuffer = 2" "m_element_size wrapped_cbuffer = 1"
    "cb_contents wrapped_cbuffer = [9, 7]"
    by (simp_all add: wrapped_cbuffer_def sample_cbuffer_def cb_contents_def ring_slice_def upt_rec)
  show ?thesis
    using cbuffer_peek_n_does_not_wait [OF wrapped_inv p(1), of "- 1" 3 3 "[]"] by (simp add: p)
qed

text \<open>The muxer that is registered for the event is notified.\<close>

lemma copyin_notifies:
  assumes "cb_inv cb" "m_n_elements cb = 0" "0 < n" "n < 9223372036854775808"
  shows "Notify_qmuxer q \<in>
    set (drop (length (m_trace cb)) (m_trace (fst (s_copyin (cb\<lparr>m_qmuxer := Some q, m_type := 1\<rparr>) val n))))"
proof -
  note D = cb_invD [OF assms(1)]
  have n: "s64 (int n) = int n" using assms(4) by simp
  have "s_adjust_indices (cb\<lparr>m_qmuxer := Some q, m_type := 1\<rparr>) = cb\<lparr>m_qmuxer := Some q, m_type := 1\<rparr>"
    using D by (simp add: s_adjust_indices_def)
  then show ?thesis using D(2) assms(2,3) n
    by (simp add: s_copyin_def Let_def notify_qmuxer_def NEED_WAIT_READABLE_def GALLUS_QMUXER_POLL_READABLE_def)
qed

lemma copyout_notifies:
  assumes "cb_inv cb" "m_n_elements cb = m_n_max_elements cb" "0 < n" "n < 9223372036854775808"
  shows "Notify_qmuxer q \<in>
    set (drop (length (m_trace cb)) (m_trace (fst (s_copyout (cb\<lparr>m_qmuxer := Some q, m_type := 2\<rparr>) n True))))"
proof -
  note D = cb_invD [OF assms(1)]
  have n: "s64 (int n) = int n" using assms(4) by simp
  have "s_adjust_indices (cb\<lparr>m_qmuxer := Some q, m_type := 2\<rparr>) = cb\<lparr>m_qmuxer := Some q, m_type := 2\<rparr>"
    using D by (simp add: s_adjust_indices_def)
  then show ?thesis using D(2) assms(2,3) n
    by (simp add: s_copyout_def Let_def notify_qmuxer_def NEED_WAIT_WRITABLE_def GALLUS_QMUXER_POLL_WRITABLE_def)
qed

text \<open>
  A muxer that registers with an empty buffer for reading, or with a full one for writing, is
  told so by the positive result, and is notified by the next put, respectively get, that moves an
  element.
\<close>

theorem cbuffer_qmuxer_armed:
  assumes "cb_inv cb" "m_is_operational cb"
    and "cbuffer_setup_for_qmuxer (Some cb) q GALLUS_QMUXER_POLL_READABLE True = (Some rd, r, sz)"
    and "cbuffer_setup_for_qmuxer (Some cb) q GALLUS_QMUXER_POLL_WRITABLE True = (Some wr, w, sz')"
    and "0 < n" "n \<le> cb_headroom cb" "n * m_element_size cb \<le> length val" "n < 9223372036854775808"
  shows "(r > 0 \<longleftrightarrow> m_n_elements cb = 0) \<and> (w > 0 \<longleftrightarrow> m_n_elements cb = m_n_max_elements cb) \<and>
    (r > 0 \<longrightarrow> Notify_qmuxer q \<in> set (drop (length (m_trace cb)) (m_trace (fst (s_copyin rd val n))))) \<and>
    (w > 0 \<longrightarrow> Notify_qmuxer q \<in> set (drop (length (m_trace cb)) (m_trace (fst (s_copyout wr n True)))))"
proof -
  have r: "r = (if m_n_elements cb = 0 then 1 else 0)" "w = (if m_n_elements cb = m_n_max_elements cb then 2 else 0)"
    using assms(2,3,4) by (auto simp: cbuffer_setup_for_qmuxer_def Let_def NEED_WAIT_READABLE_def
        NEED_WAIT_WRITABLE_def GALLUS_QMUXER_POLL_READABLE_def GALLUS_QMUXER_POLL_WRITABLE_def split: if_splits)
  have rd: "rd = cb\<lparr>m_qmuxer := Some q, m_type := 1\<rparr>" if "r > 0"
    using assms(2,3) that by (auto simp: cbuffer_setup_for_qmuxer_def Let_def GALLUS_QMUXER_POLL_READABLE_def
        GALLUS_QMUXER_POLL_WRITABLE_def NEED_WAIT_READABLE_def NEED_WAIT_WRITABLE_def split: if_splits)
  have wr: "wr = cb\<lparr>m_qmuxer := Some q, m_type := 2\<rparr>" if "w > 0"
    using assms(2,4) that by (auto simp: cbuffer_setup_for_qmuxer_def Let_def GALLUS_QMUXER_POLL_READABLE_def
        GALLUS_QMUXER_POLL_WRITABLE_def NEED_WAIT_READABLE_def NEED_WAIT_WRITABLE_def split: if_splits)
  have "Notify_qmuxer q \<in> set (drop (length (m_trace cb)) (m_trace (fst (s_copyin rd val n))))" if "r > 0"
    using copyin_notifies [OF assms(1) _ assms(5,8), of q val] r(1) that rd by (simp split: if_splits)
  moreover have "Notify_qmuxer q \<in> set (drop (length (m_trace cb)) (m_trace (fst (s_copyout wr n True))))" if "w > 0"
    using copyout_notifies [OF assms(1) _ assms(5,8), of q] r(2) that wr by (simp split: if_splits)
  ultimately show ?thesis using r by simp
qed

theorem cbuffer_qmuxer_armed_witness:
  "\<exists>rd sz. cbuffer_setup_for_qmuxer (Some (sample_cbuffer 1 2)) 7 GALLUS_QMUXER_POLL_READABLE True = (Some rd, 1, sz) \<and>
     Notify_qmuxer 7 \<in> set (m_trace (fst (s_copyin rd [5] 1)))"
proof -
  let ?cb = "sample_cbuffer 1 2"
  obtain rd r sz where a: "cbuffer_setup_for_qmuxer (Some ?cb) 7 GALLUS_QMUXER_POLL_READABLE True = (Some rd, r, sz)" "r = 1"
    by (simp add: cbuffer_setup_for_qmuxer_def NEED_WAIT_READABLE_def GALLUS_QMUXER_POLL_READABLE_def)
  obtain wr w sz' where b: "cbuffer_setup_for_qmuxer (Some ?cb) 7 GALLUS_QMUXER_POLL_WRITABLE True = (Some wr, w, sz')"
    by (simp add: cbuffer_setup_for_qmuxer_def Let_def)
  have "m_trace ?cb = []" by (simp add: sample_cbuffer_def)
  with cbuffer_qmuxer_armed [OF sample_inv _ a(1) b, of 1 "[5]"] a show ?thesis by simp
qed

subsection \<open>Where the code departs from its documentation\<close>

text \<open>
  When the write index passes the largest \<^verbatim>\<open>int64_t\<close>, \<open>s_adjust_indices\<close> replaces it by the number
  of allocated elements and the read index by its residue, which are not the same distance apart as
  before: the element put after the wrap is not the one the next get delivers.
\<close>

lemma cbuffer_index_wrap:
  "(let cb = (sample_cbuffer 1 2)\<lparr>m_r_idx := 9223372036854775807, m_w_idx := 9223372036854775807\<rparr>;
        (cb, _) = s_copyin cb [1] 1;
        (cb, _, first) = s_copyout cb 1 True;
        (cb, _) = s_copyin cb [2] 1;
        (cb, _, second) = s_copyout cb 1 True
    in (first, second)) \<noteq> ([1], [2])"
  by code_simp

text \<open>
  Clearing a full buffer makes it writable, but a muxer waiting for that is not notified: the code
  tests for a muxer that waits to read.
\<close>

lemma cbuffer_clear_misses_writer:
  "(case cbuffer_setup_for_qmuxer
       (Some ((sample_cbuffer 1 1)\<lparr>m_w_idx := 1, m_n_elements := 1\<rparr>)) 7 GALLUS_QMUXER_POLL_WRITABLE True of
      (armed, r, _) \<Rightarrow> r > 0 \<and>
        (case gallus_cbuffer_clear armed False of
           (Some cb, _) \<Rightarrow> m_n_elements cb = 0 \<and> m_trace cb = [Notify_put]
         | (None, _) \<Rightarrow> False))"
  by (simp add: sample_cbuffer_def cbuffer_setup_for_qmuxer_def gallus_cbuffer_clear_def s_clean_def
      NEED_WAIT_READABLE_def NEED_WAIT_WRITABLE_def GALLUS_QMUXER_POLL_READABLE_def GALLUS_QMUXER_POLL_WRITABLE_def
      emit_def Let_def)


text \<open>
  A waiter that times out while a wakeup is pending does not reset the request. When it was the last
  one, the next wakeup notifies nobody, although a new waiter is there.
\<close>

lemma cbuffer_wakeup_stale:
  "(case gallus_cbuffer_wakeup [] (Some (s_wait_begin (sample_cbuffer 1 1))) 0 of
      (Some cb, _) \<Rightarrow>
        (let (cb, r) = s_wait_end GALLUS_RESULT_TIMEDOUT cb;
             n = length (m_trace cb)
         in r = GALLUS_RESULT_TIMEDOUT \<and> m_n_waiters cb = 0 \<and>
            (case gallus_cbuffer_wakeup [] (Some (s_wait_begin cb)) 0 of
               (Some cb, r) \<Rightarrow> r = Some GALLUS_RESULT_OK \<and> drop n (m_trace cb) = []
             | (None, _) \<Rightarrow> False))
    | (None, _) \<Rightarrow> False)"
  by (simp add: gallus_cbuffer_wakeup_def s_wait_begin_def s_wait_end_def sample_cbuffer_def emit_def Let_def)

end
