(* ===== verification/Hash.thy ===== *)
theory Hash
  imports Gallus_Base
begin

unbundle bit_operations_syntax

text \<open>
  The hash table (\<^verbatim>\<open>framework/lib/hash.c\<close>, after Tcl): chained buckets, three kinds of keys, and
  a table that grows by a factor of four.

  A chain is the list of its entries, first one first, so \<^verbatim>\<open>nextPtr\<close> is the tail of the list.
  \<open>h_addr\<close> is the address of an entry, what a pointer to it holds; \<open>bucketPtr\<close>
  the index of the bucket its chain starts from. The counters are 32 bit wide as in the code. The key
  union is a datatype; \<^verbatim>\<open>keyLen\<close>, from which the code takes the form of the keys, has to
  agree with it (\<open>key_fits\<close>). \<^verbatim>\<open>char\<close> is signed and integers are little endian, as on
  x86-64. An operation yields None where the code calls \<^verbatim>\<open>abort\<close> or leaves the bucket array.
\<close>

datatype hash_key = Key_string "byte list" | Key_word "64 word" | Key_bytes "byte list"

record hash_entry =
  h_addr :: nat
  bucketPtr :: nat
  clientData :: nat
  h_key :: hash_key

text \<open>The functions \<^verbatim>\<open>findProc\<close> and \<^verbatim>\<open>createProc\<close> point to.\<close>

datatype hash_procs = String_procs | One_word_procs | Array_procs | Bogus_procs | Null_procs

record hash_table =
  buckets :: "hash_entry list list"
  numBuckets :: "32 word"
  numEntries :: "32 word"
  rebuildSize :: "32 word"
  downShift :: "32 word"
  mask :: "32 word"
  keyLen :: "32 word"
  keyIntLen :: "32 word"
  keyModLen :: "32 word"
  procs :: hash_procs

definition REBUILD_MULTIPLIER :: "32 word" where
  "REBUILD_MULTIPLIER = 3"

definition HASH_SMALL_HASH_TABLE :: "32 word" where
  "HASH_SMALL_HASH_TABLE = 4"

definition HASH_STRING_KEYS :: "32 word" where
  "HASH_STRING_KEYS = 0"

definition HASH_ONE_WORD_KEYS :: "32 word" where
  "HASH_ONE_WORD_KEYS = 8"

definition SIZEOF_INT :: nat where
  "SIZEOF_INT = 4"

definition InitHashTable :: "32 word \<Rightarrow> hash_table" where
  "InitHashTable kl =
    (let tbl = \<lparr>buckets = replicate (unat HASH_SMALL_HASH_TABLE) [],
                numBuckets = HASH_SMALL_HASH_TABLE, numEntries = 0,
                rebuildSize = HASH_SMALL_HASH_TABLE * REBUILD_MULTIPLIER,
                downShift = 28, mask = 3, keyLen = kl, keyIntLen = 0, keyModLen = 0,
                procs = Null_procs\<rparr>
     in if kl = HASH_STRING_KEYS then tbl\<lparr>procs := String_procs\<rparr>
        else if kl \<le> HASH_ONE_WORD_KEYS then tbl\<lparr>keyLen := HASH_ONE_WORD_KEYS, procs := One_word_procs\<rparr>
        else tbl\<lparr>keyIntLen := word_of_int (c_div (sint kl) (int SIZEOF_INT)),
                 keyModLen := word_of_int (c_mod (sint kl) (int SIZEOF_INT)),
                 procs := Array_procs\<rparr>)"

subsection \<open>Hash functions\<close>

definition HashString :: "byte list \<Rightarrow> 32 word" where
  "HashString s = foldl (\<lambda>ret c. ret + (push_bit 3 ret + scast c)) 0 s"

fun uint_le :: "byte list \<Rightarrow> 32 word" where
  "uint_le [] = 0"
| "uint_le (b # bs) = ucast b + push_bit 8 (uint_le bs)"

definition HashArray :: "hash_table \<Rightarrow> byte list \<Rightarrow> 32 word" where
  "HashArray tbl key =
    (let n = unat (keyIntLen tbl);
         ret = (if keyModLen tbl > 0
                then uint_le (take (unat (keyModLen tbl)) (drop (n * SIZEOF_INT) key)) else 0)
     in foldl (\<lambda>ret i. ret + uint_le (take SIZEOF_INT (drop (i * SIZEOF_INT) key))) ret [0..<n])"

definition RANDOM_INDEX :: "hash_table \<Rightarrow> 64 word \<Rightarrow> 32 word" where
  "RANDOM_INDEX tbl i = ucast (drop_bit (unat (downShift tbl)) (i * 1103515245)) AND mask tbl"

text \<open>The bucket of a key, computed from its form as \<open>RebuildTable\<close> does.\<close>

fun hash_index :: "hash_table \<Rightarrow> hash_key \<Rightarrow> nat" where
  "hash_index tbl (Key_string s) = unat (HashString s AND mask tbl)"
| "hash_index tbl (Key_word w) = unat (RANDOM_INDEX tbl w)"
| "hash_index tbl (Key_bytes bs) = unat (RANDOM_INDEX tbl (ucast (HashArray tbl bs)))"

subsection \<open>Entries\<close>

definition all_entries :: "hash_table \<Rightarrow> hash_entry list" where
  "all_entries tbl = concat (buckets tbl)"

definition entry_at :: "hash_table \<Rightarrow> nat \<Rightarrow> hash_entry option" where
  "entry_at tbl a = List.find (\<lambda>e. h_addr e = a) (all_entries tbl)"

definition GetHashValue :: "hash_table \<Rightarrow> nat \<Rightarrow> nat option" where
  "GetHashValue tbl a = map_option clientData (entry_at tbl a)"

definition SetHashValue :: "hash_table \<Rightarrow> nat \<Rightarrow> nat \<Rightarrow> hash_table" where
  "SetHashValue tbl a v =
    tbl\<lparr>buckets := map (map (\<lambda>e. if h_addr e = a then e\<lparr>clientData := v\<rparr> else e)) (buckets tbl)\<rparr>"

text \<open>The search of a chain: the address of the first entry with the key.\<close>

definition chain_find :: "hash_entry list \<Rightarrow> hash_key \<Rightarrow> nat option" where
  "chain_find es k = map_option h_addr (List.find (\<lambda>e. h_key e = k) es)"

definition StringFind :: "hash_table \<Rightarrow> byte list \<Rightarrow> nat option" where
  "StringFind tbl key =
    (let idx = HashString key AND mask tbl in chain_find (buckets tbl ! unat idx) (Key_string key))"

definition OneWordFind :: "hash_table \<Rightarrow> 64 word \<Rightarrow> nat option" where
  "OneWordFind tbl key =
    (let idx = RANDOM_INDEX tbl key in chain_find (buckets tbl ! unat idx) (Key_word key))"

definition ArrayFind :: "hash_table \<Rightarrow> byte list \<Rightarrow> nat option" where
  "ArrayFind tbl key =
    (let idx = HashArray tbl key; idx = RANDOM_INDEX tbl (ucast idx)
     in chain_find (buckets tbl ! unat idx) (Key_bytes key))"

text \<open>A deleted table's procedures abort.\<close>

definition BogusFind :: "hash_table \<Rightarrow> hash_key \<Rightarrow> nat option option" where
  "BogusFind tbl key = None"

definition FindHashEntry :: "hash_table \<Rightarrow> hash_key \<Rightarrow> nat option option" where
  "FindHashEntry tbl key =
    (case (procs tbl, key) of
       (String_procs, Key_string s) \<Rightarrow> Some (StringFind tbl s)
     | (One_word_procs, Key_word w) \<Rightarrow> Some (OneWordFind tbl w)
     | (Array_procs, Key_bytes bs) \<Rightarrow> Some (ArrayFind tbl bs)
     | (Bogus_procs, key) \<Rightarrow> BogusFind tbl key
     | _ \<Rightarrow> None)"

subsection \<open>Growing\<close>

definition link_entry :: "hash_table \<Rightarrow> nat \<Rightarrow> hash_entry \<Rightarrow> hash_table" where
  "link_entry tbl idx e =
    tbl\<lparr>buckets := (buckets tbl)[idx := e\<lparr>bucketPtr := idx\<rparr> # (buckets tbl ! idx)]\<rparr>"

fun relink :: "hash_entry list \<Rightarrow> hash_table \<Rightarrow> hash_table option" where
  "relink [] tbl = Some tbl"
| "relink (e # es) tbl =
    (let idx = hash_index tbl (h_key e) in
     if idx < length (buckets tbl) then relink es (link_entry tbl idx e) else None)"

text \<open>\<open>mem\<close> tells whether \<^verbatim>\<open>malloc\<close> returned the new bucket array; the code does not check it.\<close>

definition RebuildTable :: "bool \<Rightarrow> hash_table \<Rightarrow> hash_table option" where
  "RebuildTable mem tbl =
    (let n = numBuckets tbl * 4;
         new = tbl\<lparr>numBuckets := n, buckets := replicate (unat n) [],
                   rebuildSize := rebuildSize tbl * 4, downShift := downShift tbl - 2,
                   mask := push_bit 2 (mask tbl) + 3\<rparr>
     in if mem \<or> n = 0 then relink (all_entries tbl) new else None)"

subsection \<open>Creating entries\<close>

text \<open>
  \<open>mem\<close> is the address of the entry \<^verbatim>\<open>malloc\<close> returned, or NULL, \<open>remem\<close> the outcome of the
  allocation of a rebuild. The result holds the table, the address and the flag stored at \<^verbatim>\<open>newPtr\<close>.
\<close>

type_synonym create_result = "hash_table \<times> nat option \<times> bool"

definition create_at ::
  "nat option \<Rightarrow> bool \<Rightarrow> hash_table \<Rightarrow> nat \<Rightarrow> hash_key \<Rightarrow> create_result option" where
  "create_at mem remem tbl idx key =
    (case chain_find (buckets tbl ! idx) key of
       Some a \<Rightarrow> Some (tbl, Some a, False)
     | None \<Rightarrow>
         (case mem of
            None \<Rightarrow> Some (tbl, None, False)
          | Some a \<Rightarrow>
              (let e = \<lparr>h_addr = a, bucketPtr = idx, clientData = 0, h_key = key\<rparr>;
                   tbl = (link_entry tbl idx e)\<lparr>numEntries := numEntries tbl + 1\<rparr>
               in if numEntries tbl \<ge> rebuildSize tbl
                  then map_option (\<lambda>tbl. (tbl, Some a, True)) (RebuildTable remem tbl)
                  else Some (tbl, Some a, True))))"

definition StringCreate :: "nat option \<Rightarrow> bool \<Rightarrow> hash_table \<Rightarrow> byte list option \<Rightarrow> create_result option" where
  "StringCreate mem remem tbl key =
    (case key of
       None \<Rightarrow> Some (tbl, None, False)
     | Some key \<Rightarrow>
         (let idx = HashString key AND mask tbl in create_at mem remem tbl (unat idx) (Key_string key)))"

definition OneWordCreate :: "nat option \<Rightarrow> bool \<Rightarrow> hash_table \<Rightarrow> 64 word \<Rightarrow> create_result option" where
  "OneWordCreate mem remem tbl key =
    (let idx = RANDOM_INDEX tbl key in create_at mem remem tbl (unat idx) (Key_word key))"

definition ArrayCreate :: "nat option \<Rightarrow> bool \<Rightarrow> hash_table \<Rightarrow> byte list \<Rightarrow> create_result option" where
  "ArrayCreate mem remem tbl key =
    (let idx = HashArray tbl key; idx = RANDOM_INDEX tbl (ucast idx)
     in create_at mem remem tbl (unat idx) (Key_bytes key))"

definition BogusCreate :: "hash_table \<Rightarrow> hash_key \<Rightarrow> create_result option" where
  "BogusCreate tbl key = None"

definition CreateHashEntry :: "nat option \<Rightarrow> bool \<Rightarrow> hash_table \<Rightarrow> hash_key \<Rightarrow> create_result option" where
  "CreateHashEntry mem remem tbl key =
    (case (procs tbl, key) of
       (String_procs, Key_string s) \<Rightarrow> StringCreate mem remem tbl (Some s)
     | (One_word_procs, Key_word w) \<Rightarrow> OneWordCreate mem remem tbl w
     | (Array_procs, Key_bytes bs) \<Rightarrow> ArrayCreate mem remem tbl bs
     | (Bogus_procs, key) \<Rightarrow> BogusCreate tbl key
     | _ \<Rightarrow> None)"

subsection \<open>Deleting\<close>

fun unlink :: "nat \<Rightarrow> hash_entry list \<Rightarrow> hash_entry list option" where
  "unlink a [] = None"
| "unlink a (e # es) = (if h_addr e = a then Some es else map_option (Cons e) (unlink a es))"

definition DeleteHashEntry :: "hash_table \<Rightarrow> nat \<Rightarrow> hash_table option" where
  "DeleteHashEntry tbl a =
    (case entry_at tbl a of
       None \<Rightarrow> None
     | Some e \<Rightarrow>
         map_option
           (\<lambda>es. tbl\<lparr>buckets := (buckets tbl)[bucketPtr e := es], numEntries := numEntries tbl - 1\<rparr>)
           (unlink a (buckets tbl ! bucketPtr e)))"

text \<open>The addresses passed to \<^verbatim>\<open>free\<close> are the second component.\<close>

definition DeleteHashTable :: "hash_table \<Rightarrow> hash_table \<times> nat list" where
  "DeleteHashTable tbl =
    (tbl\<lparr>buckets := [], procs := Bogus_procs\<rparr>,
     concat (map (\<lambda>i. map h_addr (buckets tbl ! i)) [0..<unat (numBuckets tbl)]))"

subsection \<open>Enumerating\<close>

text \<open>\<open>nextEntryPtr\<close> is the rest of the chain from the entry it points to.\<close>

record hash_search =
  nextIndex :: nat
  nextEntryPtr :: "hash_entry list"

function NextHashEntry :: "hash_table \<Rightarrow> hash_search \<Rightarrow> hash_entry option \<times> hash_search" where
  "NextHashEntry tbl s =
    (case nextEntryPtr s of
       e # es \<Rightarrow> (Some e, s\<lparr>nextEntryPtr := es\<rparr>)
     | [] \<Rightarrow>
         if nextIndex s \<ge> unat (numBuckets tbl) then (None, s)
         else NextHashEntry tbl \<lparr>nextIndex = nextIndex s + 1, nextEntryPtr = buckets tbl ! nextIndex s\<rparr>)"
  by auto
termination
  by (relation "measure (\<lambda>(tbl, s). unat (numBuckets tbl) - nextIndex s)") auto

declare NextHashEntry.simps [simp del]

definition FirstHashEntry :: "hash_table \<Rightarrow> hash_entry option \<times> hash_search" where
  "FirstHashEntry tbl = NextHashEntry tbl \<lparr>nextIndex = 0, nextEntryPtr = []\<rparr>"

text \<open>The bucket usage histogram of \<open>HashStats\<close>: the buckets with 0 to 9 entries, and with more.\<close>

definition NUM_COUNTERS :: nat where
  "NUM_COUNTERS = 10"

definition HashStats :: "hash_table \<Rightarrow> nat list \<times> nat" where
  "HashStats tbl =
    foldl (\<lambda>(count, overflow) i.
        let j = length (buckets tbl ! i) in
        if j < NUM_COUNTERS then (count[j := count ! j + 1], overflow) else (count, overflow + 1))
      (replicate NUM_COUNTERS 0, 0) [0..<unat (numBuckets tbl)]"

end
