(* ===== verification/List_Multiset.thy ===== *)
theory List_Multiset
  imports Gallus_Base "HOL-Library.Multiset"
begin

text \<open>
  The rest of the prelude, for the components that count the elements of lists of lists: the chains
  of a hash table, the objects held by the clients of a pool.
\<close>

lemma mset_concat_update:
  assumes "i < length xss"
  shows "mset (concat (xss[i := ys])) + mset (xss ! i) = mset (concat xss) + mset ys"
proof -
  have "concat xss = concat (take i xss) @ xss ! i @ concat (drop (Suc i) xss)"
    using assms by (metis append.assoc concat.simps(2) concat_append id_take_nth_drop)
  moreover have "concat (xss[i := ys]) = concat (take i xss) @ ys @ concat (drop (Suc i) xss)"
    using assms by (simp add: upd_conv_take_nth_drop)
  ultimately show ?thesis by simp
qed

lemma mset_concat_map_update:
  "i < length cs \<Longrightarrow>
   mset (concat (map f (cs[i := c]))) + mset (f (cs ! i)) = mset (concat (map f cs)) + mset (f c)"
  using mset_concat_update [of i "map f cs" "f c"] by (simp add: map_update)

end
