(* ===== verification/Hash_Refine.thy ===== *)
theory Hash_Refine
  imports Hash List_Multiset
begin

unbundle bit_operations_syntax

text \<open>
  The invariant of the hash table, the finite map it represents, and what each operation does to
  that map.
\<close>

subsection \<open>Chains and buckets\<close>

lemma mset_concat_push:
  assumes "i < length xss"
  shows "mset (concat (xss[i := x # xss ! i])) = add_mset x (mset (concat xss))"
  using mset_concat_update [OF assms, of "x # xss ! i"] by simp

lemma unlink_Some:
  assumes "\<exists>e\<in>set es. h_addr e = a"
  shows "\<exists>es' e. unlink a es = Some es' \<and> mset es = add_mset e (mset es') \<and> h_addr e = a"
  using assms
proof (induction es)
  case (Cons e es)
  show ?case
  proof (cases "h_addr e = a")
    case True
    then show ?thesis by (intro exI [of _ es] exI [of _ e]) simp
  next
    case False
    then obtain es' d where "unlink a es = Some es'" "mset es = add_mset d (mset es')" "h_addr d = a"
      using Cons by auto
    then show ?thesis using False by (intro exI [of _ "e # es'"] exI [of _ d]) simp
  qed
qed simp

subsection \<open>The invariant\<close>

text \<open>A table that was rebuilt \<open>k\<close> times. At \<open>k = 14\<close> it has \<open>2 ^ 30\<close> buckets and the shift is 0.\<close>

definition ht_level :: "hash_table \<Rightarrow> nat \<Rightarrow> bool" where
  "ht_level tbl k \<longleftrightarrow> k \<le> 14 \<and> numBuckets tbl = of_nat (4 ^ (k + 1)) \<and> mask tbl = of_nat (4 ^ (k + 1) - 1) \<and>
     downShift tbl = of_nat (28 - 2 * k) \<and> rebuildSize tbl = of_nat (3 * 4 ^ (k + 1))"

fun key_fits :: "hash_table \<Rightarrow> hash_key \<Rightarrow> bool" where
  "key_fits tbl (Key_string s) \<longleftrightarrow> procs tbl = String_procs \<and> 0 \<notin> set s"
| "key_fits tbl (Key_word w) \<longleftrightarrow> procs tbl = One_word_procs"
| "key_fits tbl (Key_bytes bs) \<longleftrightarrow> procs tbl = Array_procs \<and> length bs = unat (keyLen tbl)"

definition placed :: "hash_table \<Rightarrow> bool" where
  "placed tbl \<longleftrightarrow> length (buckets tbl) = unat (numBuckets tbl) \<and>
     (\<forall>i<length (buckets tbl). \<forall>e\<in>set (buckets tbl ! i). bucketPtr e = i \<and> hash_index tbl (h_key e) = i)"

definition ht_inv :: "hash_table \<Rightarrow> bool" where
  "ht_inv tbl \<longleftrightarrow> (\<exists>k. ht_level tbl k) \<and> placed tbl \<and>
     distinct (map h_key (all_entries tbl)) \<and> distinct (map h_addr (all_entries tbl)) \<and>
     numEntries tbl = of_nat (length (all_entries tbl)) \<and>
     length (all_entries tbl) < unat (rebuildSize tbl) \<and>
     (\<forall>e\<in>set (all_entries tbl). key_fits tbl (h_key e))"

definition ht_map :: "hash_table \<Rightarrow> hash_key \<Rightarrow> nat option" where
  "ht_map tbl = map_of (map (\<lambda>e. (h_key e, clientData e)) (all_entries tbl))"

definition ht_addrs :: "hash_table \<Rightarrow> nat set" where
  "ht_addrs tbl = h_addr ` set (all_entries tbl)"

lemma pow4_bound: "k \<le> 14 \<Longrightarrow> 4 ^ (k + 1) \<le> (1073741824::nat)"
  using power_increasing [of "k + 1" 15 "4::nat"] by simp

lemma unat_of_nat32: "n < 4294967296 \<Longrightarrow> unat (of_nat n :: 32 word) = n"
  by (simp add: unat_of_nat)

lemma ht_level_unat:
  assumes "ht_level tbl k"
  shows "unat (numBuckets tbl) = 4 ^ (k + 1)" "unat (mask tbl) = 4 ^ (k + 1) - 1"
    "unat (rebuildSize tbl) = 3 * 4 ^ (k + 1)"
  using assms pow4_bound [of k] unfolding ht_level_def
  by (simp_all add: unat_of_nat32 del: of_nat_power of_nat_mult of_nat_diff)

lemma masked_index:
  assumes "ht_level tbl k"
  shows "unat (x AND mask tbl) < unat (numBuckets tbl)"
proof -
  have "unat (x AND mask tbl) \<le> unat (mask tbl)"
    by (simp add: word_and_le1 flip: word_le_nat_alt)
  also have "\<dots> < unat (numBuckets tbl)" using ht_level_unat [OF assms] by simp
  finally show ?thesis .
qed

lemma hash_index_bound: "ht_level tbl k \<Longrightarrow> hash_index tbl key < unat (numBuckets tbl)"
  by (cases key) (simp_all add: RANDOM_INDEX_def masked_index)

lemma ht_map_iff:
  assumes "distinct (map h_key (all_entries tbl))"
  shows "ht_map tbl key = Some v \<longleftrightarrow> (\<exists>e\<in>set (all_entries tbl). h_key e = key \<and> clientData e = v)"
proof -
  have "distinct (map fst (map (\<lambda>e. (h_key e, clientData e)) (all_entries tbl)))"
    using assms by (simp add: comp_def)
  then show ?thesis by (auto simp: ht_map_def map_of_eq_Some_iff simp del: map_map)
qed

lemma ht_map_None: "ht_map tbl key = None \<longleftrightarrow> key \<notin> h_key ` set (all_entries tbl)"
  by (simp add: ht_map_def map_of_eq_None_iff image_image)

lemma in_all_entries: "e \<in> set (all_entries tbl) \<longleftrightarrow> (\<exists>i<length (buckets tbl). e \<in> set (buckets tbl ! i))"
  by (simp add: all_entries_def) (metis in_set_conv_nth)

subsection \<open>A fresh table\<close>

lemma InitHashTable_inv: "ht_inv (InitHashTable kl)" "ht_map (InitHashTable kl) = Map.empty"
  "ht_addrs (InitHashTable kl) = {}"
proof -
  have "ht_level (InitHashTable kl) 0"
    by (simp add: ht_level_def InitHashTable_def HASH_SMALL_HASH_TABLE_def REBUILD_MULTIPLIER_def Let_def)
  moreover have e: "all_entries (InitHashTable kl) = []"
    by (simp add: all_entries_def InitHashTable_def Let_def)
  moreover have "placed (InitHashTable kl)"
    by (simp add: placed_def InitHashTable_def Let_def)
  moreover have "0 < unat (rebuildSize (InitHashTable kl))"
    by (simp add: InitHashTable_def HASH_SMALL_HASH_TABLE_def REBUILD_MULTIPLIER_def Let_def)
  moreover have "numEntries (InitHashTable kl) = 0" by (simp add: InitHashTable_def Let_def)
  ultimately show "ht_inv (InitHashTable kl)" "ht_map (InitHashTable kl) = Map.empty"
    "ht_addrs (InitHashTable kl) = {}"
    by (auto simp: ht_inv_def ht_map_def ht_addrs_def)
qed

subsection \<open>Finding\<close>

lemma FindHashEntry_chain:
  "key_fits tbl key \<Longrightarrow>
     FindHashEntry tbl key = Some (chain_find (buckets tbl ! hash_index tbl key) key)"
  by (cases key) (simp_all add: FindHashEntry_def StringFind_def OneWordFind_def ArrayFind_def Let_def)

lemma chain_find_Some:
  assumes "chain_find es key = Some a"
  shows "\<exists>e\<in>set es. h_key e = key \<and> h_addr e = a"
  using assms by (auto simp: chain_find_def find_Some_iff)

lemma chain_find_None: "chain_find es key = None \<longleftrightarrow> key \<notin> h_key ` set es"
  by (auto simp: chain_find_def find_None_iff)

lemma key_in_its_bucket:
  assumes "ht_inv tbl" "e \<in> set (all_entries tbl)"
  shows "e \<in> set (buckets tbl ! hash_index tbl (h_key e))"
  using assms by (auto simp: ht_inv_def placed_def in_all_entries)

lemma bucket_in_all:
  assumes "ht_inv tbl" "e \<in> set (buckets tbl ! hash_index tbl key)"
  shows "e \<in> set (all_entries tbl)"
proof -
  obtain k where "ht_level tbl k" using assms by (auto simp: ht_inv_def)
  then have "hash_index tbl key < length (buckets tbl)"
    using hash_index_bound assms(1) by (simp add: ht_inv_def placed_def)
  then show ?thesis using assms(2) by (auto simp: in_all_entries)
qed

lemma entry_at_Some:
  assumes "distinct (map h_addr (all_entries tbl))" "e \<in> set (all_entries tbl)"
  shows "entry_at tbl (h_addr e) = Some e"
proof -
  have "entry_at tbl (h_addr e) \<noteq> None"
    using assms(2) by (auto simp: entry_at_def find_None_iff)
  then obtain x where x: "entry_at tbl (h_addr e) = Some x" by auto
  then have "x \<in> set (all_entries tbl)" "h_addr x = h_addr e"
    by (auto simp: entry_at_def find_Some_iff)
  then have "x = e" using assms by (simp add: distinct_map inj_on_def)
  then show ?thesis using x by simp
qed

lemma entry_at_in: "entry_at tbl a = Some e \<Longrightarrow> e \<in> set (all_entries tbl) \<and> h_addr e = a"
  by (auto simp: entry_at_def find_Some_iff)

lemma FindHashEntry_spec:
  assumes inv: "ht_inv tbl" and fits: "key_fits tbl key"
  obtains (found) e where "FindHashEntry tbl key = Some (Some (h_addr e))" "e \<in> set (all_entries tbl)"
      "h_key e = key" "ht_map tbl key = Some (clientData e)"
  | (missing) "FindHashEntry tbl key = Some None" "ht_map tbl key = None"
proof (cases "chain_find (buckets tbl ! hash_index tbl key) key")
  case None
  then have "key \<notin> h_key ` set (all_entries tbl)"
    using key_in_its_bucket [OF inv] by (auto simp: chain_find_None)
  then show thesis using None FindHashEntry_chain [OF fits] by (intro missing) (simp_all add: ht_map_None)
next
  case (Some a)
  then obtain e where e: "e \<in> set (buckets tbl ! hash_index tbl key)" "h_key e = key" "h_addr e = a"
    using chain_find_Some by blast
  then have "e \<in> set (all_entries tbl)" using bucket_in_all [OF inv] by blast
  moreover from this have "ht_map tbl key = Some (clientData e)"
    using inv e(2) by (auto simp: ht_inv_def ht_map_iff)
  ultimately show thesis using Some FindHashEntry_chain [OF fits] e by (intro found [of e]) simp_all
qed


subsection \<open>Changing the buckets only\<close>

lemma HashArray_cong:
  "keyIntLen t = keyIntLen u \<Longrightarrow> keyModLen t = keyModLen u \<Longrightarrow> HashArray t = HashArray u"
  by (rule ext) (simp add: HashArray_def Let_def)

lemma hash_index_buckets [simp]: "hash_index (tbl\<lparr>buckets := b\<rparr>) key = hash_index tbl key"
  using HashArray_cong [of "tbl\<lparr>buckets := b\<rparr>" tbl] by (cases key) (simp_all add: RANDOM_INDEX_def)

lemma hash_index_numEntries [simp]: "hash_index (tbl\<lparr>numEntries := n\<rparr>) key = hash_index tbl key"
  using HashArray_cong [of "tbl\<lparr>numEntries := n\<rparr>" tbl] by (cases key) (simp_all add: RANDOM_INDEX_def)

lemma key_fits_buckets [simp]: "key_fits (tbl\<lparr>buckets := b\<rparr>) key = key_fits tbl key"
  by (cases key) simp_all

lemma key_fits_numEntries [simp]: "key_fits (tbl\<lparr>numEntries := n\<rparr>) key = key_fits tbl key"
  by (cases key) simp_all

lemma ht_level_buckets [simp]: "ht_level (tbl\<lparr>buckets := b\<rparr>) k = ht_level tbl k"
  by (simp add: ht_level_def)

lemma ht_level_numEntries [simp]: "ht_level (tbl\<lparr>numEntries := b\<rparr>) k = ht_level tbl k"
  by (simp add: ht_level_def)

subsection \<open>Setting a value\<close>

lemma all_entries_set:
  "all_entries (SetHashValue tbl a v) =
     map (\<lambda>e. if h_addr e = a then e\<lparr>clientData := v\<rparr> else e) (all_entries tbl)"
  by (simp add: all_entries_def SetHashValue_def map_concat)

lemma SetHashValue_spec:
  assumes inv: "ht_inv tbl" and e: "e \<in> set (all_entries tbl)"
  shows "ht_inv (SetHashValue tbl (h_addr e) v)"
    "ht_map (SetHashValue tbl (h_addr e) v) = (ht_map tbl)(h_key e \<mapsto> v)"
    "ht_addrs (SetHashValue tbl (h_addr e) v) = ht_addrs tbl"
    "length (all_entries (SetHashValue tbl (h_addr e) v)) = length (all_entries tbl)"
    "key_fits (SetHashValue tbl (h_addr e) v) = key_fits tbl"
proof -
  let ?f = "\<lambda>x. if h_addr x = h_addr e then x\<lparr>clientData := v\<rparr> else x"
  let ?t = "SetHashValue tbl (h_addr e) v"
  have f: "h_key (?f x) = h_key x" "h_addr (?f x) = h_addr x" "bucketPtr (?f x) = bucketPtr x" for x by simp_all
  have keys: "map h_key (all_entries ?t) = map h_key (all_entries tbl)"
    "map h_addr (all_entries ?t) = map h_addr (all_entries tbl)"
    by (simp_all add: all_entries_set comp_def f)
  have fits: "key_fits ?t = key_fits tbl" by (rule ext) (simp add: SetHashValue_def)
  have "placed ?t"
    using inv by (auto simp: ht_inv_def placed_def SetHashValue_def)
  moreover have "\<forall>e\<in>set (all_entries ?t). key_fits ?t (h_key e)"
    using inv by (auto simp: ht_inv_def fits all_entries_set)
  moreover have "length (all_entries ?t) = length (all_entries tbl)" by (simp add: all_entries_set)
  moreover have "\<exists>k. ht_level ?t k" "numEntries ?t = numEntries tbl" "rebuildSize ?t = rebuildSize tbl"
    using inv by (simp_all add: ht_inv_def SetHashValue_def)
  ultimately show inv': "ht_inv ?t" and "length (all_entries ?t) = length (all_entries tbl)"
    using inv keys by (simp_all add: ht_inv_def)
  show "key_fits ?t = key_fits tbl" by (rule fits)
  show "ht_addrs ?t = ht_addrs tbl" using keys(2) by (simp add: ht_addrs_def flip: set_map)
  have dk: "distinct (map h_key (all_entries tbl))" "distinct (map h_addr (all_entries tbl))"
    "distinct (map h_key (all_entries ?t))"
    using inv inv' by (simp_all add: ht_inv_def)
  have same: "h_addr x = h_addr e \<longleftrightarrow> h_key x = h_key e" if "x \<in> set (all_entries tbl)" for x
    using that e dk by (auto simp: distinct_map inj_on_def)
  show "ht_map ?t = (ht_map tbl)(h_key e \<mapsto> v)"
  proof (rule ext)
    fix key
    show "ht_map ?t key = ((ht_map tbl)(h_key e \<mapsto> v)) key"
    proof (cases "key = h_key e")
      case True
      have "?f e \<in> set (all_entries ?t)" using imageI [OF e, of ?f] by (simp only: all_entries_set set_map)
      then have "ht_map ?t key = Some v"
        using True by (subst ht_map_iff [OF dk(3)]) (auto intro: bexI [of _ "?f e"])
      then show ?thesis using True by simp
    next
      case False
      have "ht_map ?t key = Some w \<longleftrightarrow> ht_map tbl key = Some w" for w
        using False same by (auto simp: ht_map_iff [OF dk(3)] ht_map_iff [OF dk(1)] all_entries_set)
      then have "ht_map ?t key = ht_map tbl key" by (metis option.exhaust)
      then show ?thesis using False by simp
    qed
  qed
qed

subsection \<open>Deleting an entry\<close>

lemma ht_map_delete:
  assumes "distinct (map h_key (all_entries tbl))"
    "mset (all_entries tbl) = add_mset e (mset (all_entries t))"
  shows "ht_map t = (ht_map tbl)(h_key e := None)" "distinct (map h_key (all_entries t))"
    "distinct (map h_addr (all_entries tbl)) \<Longrightarrow> distinct (map h_addr (all_entries t))"
    "distinct (map h_addr (all_entries tbl)) \<Longrightarrow> ht_addrs t = ht_addrs tbl - {h_addr e}"
    "set (all_entries tbl) = insert e (set (all_entries t))"
proof -
  have m: "mset (map f (all_entries tbl)) = mset (map f (e # all_entries t))" for f :: "hash_entry \<Rightarrow> 'a"
    using assms(2) by (simp only: mset_map mset.simps(2))
  have k: "distinct (map h_key (e # all_entries t))"
    using assms(1) m [of h_key] mset_eq_imp_distinct_iff by blast
  then show dt: "distinct (map h_key (all_entries t))" by simp
  show s: "set (all_entries tbl) = insert e (set (all_entries t))"
    using assms(2) by (metis set_mset_add_mset_insert set_mset_mset)
  show "distinct (map h_addr (all_entries t))" if "distinct (map h_addr (all_entries tbl))"
  proof -
    have "distinct (map h_addr (e # all_entries t))"
      using that m [of h_addr] mset_eq_imp_distinct_iff by blast
    then show ?thesis by simp
  qed
  show "ht_addrs t = ht_addrs tbl - {h_addr e}" if "distinct (map h_addr (all_entries tbl))"
  proof -
    have "distinct (map h_addr (e # all_entries t))"
      using that m [of h_addr] mset_eq_imp_distinct_iff by blast
    then show ?thesis using s by (auto simp: ht_addrs_def)
  qed
  show "ht_map t = (ht_map tbl)(h_key e := None)"
  proof (rule ext)
    fix key
    have nk: "h_key x \<noteq> h_key e" if "x \<in> set (all_entries t)" for x
      using k that by (metis distinct.simps(2) image_eqI list.simps(9) set_map)
    have "ht_map t key = Some v \<longleftrightarrow> key \<noteq> h_key e \<and> ht_map tbl key = Some v" for v
      using nk s by (auto simp: ht_map_iff [OF assms(1)] ht_map_iff [OF dt])
    then show "ht_map t key = ((ht_map tbl)(h_key e := None)) key" by (cases "ht_map t key") force+
  qed
qed

lemma DeleteHashEntry_spec:
  assumes inv: "ht_inv tbl" and e: "e \<in> set (all_entries tbl)"
  obtains t where "DeleteHashEntry tbl (h_addr e) = Some t" "ht_inv t"
    "ht_map t = (ht_map tbl)(h_key e := None)" "ht_addrs t = ht_addrs tbl - {h_addr e}"
    "length (all_entries tbl) = Suc (length (all_entries t))" "key_fits t = key_fits tbl"
proof -
  let ?i = "bucketPtr e"
  have d: "distinct (map h_addr (all_entries tbl))" "distinct (map h_key (all_entries tbl))"
    and pl: "placed tbl" using inv by (simp_all add: ht_inv_def)
  have i: "?i < length (buckets tbl)" "e \<in> set (buckets tbl ! ?i)"
    using e pl by (auto simp: in_all_entries placed_def)
  obtain es x where u: "unlink (h_addr e) (buckets tbl ! ?i) = Some es"
      "mset (buckets tbl ! ?i) = add_mset x (mset es)" "h_addr x = h_addr e"
    using unlink_Some [of "buckets tbl ! ?i" "h_addr e"] i(2) by blast
  have "x \<in> set (buckets tbl ! ?i)" using u(2) by (metis set_mset_mset union_single_eq_member)
  then have "x \<in> set (all_entries tbl)" using i(1) by (auto simp: in_all_entries)
  then have x: "x = e" using u(3) d(1) e by (auto simp: distinct_map inj_on_def)
  let ?t = "tbl\<lparr>buckets := (buckets tbl)[?i := es], numEntries := numEntries tbl - 1\<rparr>"
  have del: "DeleteHashEntry tbl (h_addr e) = Some ?t"
    using entry_at_Some [OF d(1) e] u(1) by (simp add: DeleteHashEntry_def)
  have m: "mset (all_entries tbl) = add_mset e (mset (all_entries ?t))"
    using mset_concat_update [OF i(1), of es] u(2) x by (simp add: all_entries_def)
  note M = ht_map_delete [OF d(2) m]
  have fits: "key_fits ?t = key_fits tbl" by (rule ext) (simp add: key_fits_buckets)
  have len: "length (all_entries tbl) = Suc (length (all_entries ?t))" using m by (metis size_add_mset size_mset)
  have "set es \<subseteq> set (buckets tbl ! ?i)" using u(2) by (metis set_mset_mset set_mset_mono subset_insertI set_mset_add_mset_insert)
  then have "placed ?t" using pl i(1) by (auto simp: placed_def nth_list_update split: if_splits)
  moreover have "numEntries ?t = of_nat (length (all_entries ?t))"
  proof -
    define n where "n = length (all_entries ?t)"
    have "numEntries tbl = of_nat (Suc n)" using inv len by (simp add: ht_inv_def flip: n_def)
    then have "numEntries tbl - 1 = of_nat n" by simp
    then show ?thesis by (simp add: n_def)
  qed
  moreover have "\<forall>e\<in>set (all_entries ?t). key_fits ?t (h_key e)"
    using inv M(5) by (auto simp: ht_inv_def fits)
  ultimately have "ht_inv ?t" using inv M(2,3) d len by (auto simp: ht_inv_def)
  then show thesis using that del M(1,4) d(1) len fits by blast
qed


subsection \<open>Growing\<close>

text \<open>What identifies an entry when it is moved between chains.\<close>

definition ent :: "hash_entry \<Rightarrow> nat \<times> nat \<times> hash_key" where
  "ent e = (h_addr e, clientData e, h_key e)"

abbreviation ents :: "hash_table \<Rightarrow> (nat \<times> nat \<times> hash_key) multiset" where
  "ents tbl \<equiv> mset (map ent (all_entries tbl))"

lemma link_entry_spec:
  assumes "i < length (buckets tbl)"
  shows "ents (link_entry tbl i e) = add_mset (ent e) (ents tbl)"
    "placed tbl \<Longrightarrow> hash_index tbl (h_key e) = i \<Longrightarrow> placed (link_entry tbl i e)"
proof -
  have "mset (all_entries (link_entry tbl i e)) = add_mset (e\<lparr>bucketPtr := i\<rparr>) (mset (all_entries tbl))"
    using mset_concat_push [OF assms] by (simp add: all_entries_def link_entry_def)
  then show "ents (link_entry tbl i e) = add_mset (ent e) (ents tbl)"
    by (simp add: ent_def)
  show "placed (link_entry tbl i e)" if "placed tbl" "hash_index tbl (h_key e) = i"
    using that assms by (auto simp: placed_def link_entry_def nth_list_update split: if_splits)
qed

lemma relink_spec:
  assumes "placed tbl" "\<And>key. hash_index tbl key < length (buckets tbl)"
  shows "\<exists>b. relink es tbl = Some (tbl\<lparr>buckets := b\<rparr>) \<and> placed (tbl\<lparr>buckets := b\<rparr>) \<and>
    ents (tbl\<lparr>buckets := b\<rparr>) = mset (map ent es) + ents tbl"
  using assms
proof (induction es arbitrary: tbl)
  case Nil
  then show ?case by (intro exI [of _ "buckets tbl"]) simp
next
  case (Cons e es)
  let ?i = "hash_index tbl (h_key e)" and ?t = "link_entry tbl (hash_index tbl (h_key e)) e"
  have i: "?i < length (buckets tbl)" by (rule Cons.prems(2))
  note L = link_entry_spec [OF i, of e]
  obtain b where "?t = tbl\<lparr>buckets := b\<rparr>" "length (buckets ?t) = length (buckets tbl)"
    by (simp add: link_entry_def)
  moreover from this have "\<And>key. hash_index ?t key < length (buckets ?t)" using Cons.prems(2) by simp
  ultimately obtain b' where
    "relink es ?t = Some (tbl\<lparr>buckets := b'\<rparr>)" "placed (tbl\<lparr>buckets := b'\<rparr>)"
    "ents (tbl\<lparr>buckets := b'\<rparr>) = mset (map ent es) + ents ?t"
    using Cons.IH [of ?t] L(2) Cons.prems(1) by auto
  then show ?case using i L(1) by (intro exI [of _ b']) simp
qed

lemma four_levels:
  assumes "k < 14"
  shows "of_nat (4 ^ (k + 1)) * 4 = (of_nat (4 ^ (k + 2)) :: 32 word)"
    "push_bit 2 (of_nat (4 ^ (k + 1) - 1)) + 3 = (of_nat (4 ^ (k + 2) - 1) :: 32 word)"
    "of_nat (28 - 2 * k) - 2 = (of_nat (28 - 2 * (k + 1)) :: 32 word)"
    "of_nat (3 * 4 ^ (k + 1)) * 4 = (of_nat (3 * 4 ^ (k + 2)) :: 32 word)"
proof -
  have w: "of_nat a * 4 = (of_nat (a * 4) :: 32 word)" for a by simp
  show "of_nat (4 ^ (k + 1)) * 4 = (of_nat (4 ^ (k + 2)) :: 32 word)" by (simp add: mult.commute)
  show "of_nat (3 * 4 ^ (k + 1)) * 4 = (of_nat (3 * 4 ^ (k + 2)) :: 32 word)" by (simp add: mult.commute)
  define x where "x = (4::nat) ^ k"
  have "0 < x" by (simp add: x_def)
  then have "(4 * x - 1) * 4 + 3 = 16 * x - 1" by arith
  then have "(4 ^ (k + 1) - 1) * 4 + 3 = 4 ^ (k + 2) - (1::nat)" by (simp add: x_def)
  then show "push_bit 2 (of_nat (4 ^ (k + 1) - 1)) + 3 = (of_nat (4 ^ (k + 2) - 1) :: 32 word)"
    by (metis (no_types, lifting) of_nat_add of_nat_numeral push_bit_eq_mult power2_eq_square mult_2 numeral_Bit0 of_nat_mult numeral_times_numeral)
  have "28 - 2 * k = Suc (Suc (28 - 2 * (k + 1)))" using assms by simp
  then show "of_nat (28 - 2 * k) - 2 = (of_nat (28 - 2 * (k + 1)) :: 32 word)" by simp
qed

lemma RebuildTable_spec:
  assumes lv: "ht_level tbl k" and k: "k < 14"
  obtains t where "RebuildTable True tbl = Some t" "ht_level t (k + 1)" "placed t" "ents t = ents tbl"
    "numEntries t = numEntries tbl" "key_fits t = key_fits tbl"
proof -
  let ?n = "numBuckets tbl * 4"
  let ?new = "tbl\<lparr>numBuckets := ?n, buckets := replicate (unat ?n) [], rebuildSize := rebuildSize tbl * 4,
      downShift := downShift tbl - 2, mask := push_bit 2 (mask tbl) + 3\<rparr>"
  have lv': "ht_level ?new (k + 1)"
    using lv k four_levels [OF k] by (simp add: ht_level_def del: of_nat_power of_nat_mult of_nat_diff power_Suc)
  have "placed ?new" by (simp add: placed_def)
  moreover have "\<And>key. hash_index ?new key < length (buckets ?new)"
    using hash_index_bound [OF lv'] by simp
  moreover have "all_entries ?new = []" by (simp add: all_entries_def)
  ultimately obtain b where r: "relink (all_entries tbl) ?new = Some (?new\<lparr>buckets := b\<rparr>)"
      "placed (?new\<lparr>buckets := b\<rparr>)" "ents (?new\<lparr>buckets := b\<rparr>) = ents tbl"
    using relink_spec [of ?new "all_entries tbl"] by auto
  have "RebuildTable True tbl = relink (all_entries tbl) ?new" by (simp add: RebuildTable_def Let_def)
  moreover have "key_fits (?new\<lparr>buckets := b\<rparr>) = key_fits tbl"
    by (rule ext, case_tac x) simp_all
  moreover have "ht_level (?new\<lparr>buckets := b\<rparr>) (k + 1)" using lv' by (simp only: ht_level_buckets)
  ultimately show thesis using r that [of "?new\<lparr>buckets := b\<rparr>"] by simp
qed


subsection \<open>Creating an entry\<close>

lemma ht_inv_add:
  assumes inv: "ht_inv tbl" and lv: "ht_level t k" and pl: "placed t"
    and ents: "ents t = add_mset (a, v, key) (ents tbl)"
    and key: "ht_map tbl key = None" and a: "a \<notin> ht_addrs tbl" and fits: "key_fits tbl key"
    and n: "numEntries t = numEntries tbl + 1" and kf: "key_fits t = key_fits tbl"
    and room: "length (all_entries tbl) + 1 < unat (rebuildSize t)"
  shows "ht_inv t" "ht_map t = (ht_map tbl)(key \<mapsto> v)" "ht_addrs t = insert a (ht_addrs tbl)"
    "length (all_entries t) = Suc (length (all_entries tbl))"
    "\<exists>e\<in>set (all_entries t). h_addr e = a \<and> h_key e = key"
proof -
  have im: "image_mset f (ents x) = mset (map (\<lambda>e. f (ent e)) (all_entries x))"
    for f :: "nat \<times> nat \<times> hash_key \<Rightarrow> 'b" and x
    by (simp add: image_mset.compositionality comp_def)
  have keys: "mset (map h_key (all_entries t)) = add_mset key (mset (map h_key (all_entries tbl)))"
    using arg_cong [OF ents, of "image_mset (\<lambda>(a, v, k). k)"] by (simp add: im ent_def del: mset_map)
  have addrs: "mset (map h_addr (all_entries t)) = add_mset a (mset (map h_addr (all_entries tbl)))"
    using arg_cong [OF ents, of "image_mset (\<lambda>(a, v, k). a)"] by (simp add: im ent_def del: mset_map)
  have d: "distinct (map h_key (all_entries tbl))" "distinct (map h_addr (all_entries tbl))"
    using inv by (simp_all add: ht_inv_def)
  have dk: "distinct (map h_key (all_entries t))"
    using mset_eq_imp_distinct_iff [of "map h_key (all_entries t)" "key # map h_key (all_entries tbl)"]
      keys d(1) key by (simp add: ht_map_None)
  have da: "distinct (map h_addr (all_entries t))"
    using mset_eq_imp_distinct_iff [of "map h_addr (all_entries t)" "a # map h_addr (all_entries tbl)"]
      addrs d(2) a by (simp add: ht_addrs_def)
  show len: "length (all_entries t) = Suc (length (all_entries tbl))"
    using arg_cong [OF keys, of size] by simp
  have sk: "h_key ` set (all_entries t) = insert key (h_key ` set (all_entries tbl))"
    using arg_cong [OF keys, of set_mset] by simp
  show "ht_addrs t = insert a (ht_addrs tbl)"
    using arg_cong [OF addrs, of set_mset] by (simp add: ht_addrs_def)
  have se: "ent ` set (all_entries t) = insert (a, v, key) (ent ` set (all_entries tbl))"
    using arg_cong [OF ents, of set_mset] by simp
  show "\<exists>e\<in>set (all_entries t). h_addr e = a \<and> h_key e = key"
  proof -
    have "(a, v, key) \<in> ent ` set (all_entries t)" using se by simp
    then show ?thesis by (auto simp: ent_def)
  qed
  have "\<forall>e\<in>set (all_entries t). key_fits t (h_key e)"
  proof
    fix e assume "e \<in> set (all_entries t)"
    then have "h_key e \<in> insert key (h_key ` set (all_entries tbl))" using sk by blast
    then show "key_fits t (h_key e)" using inv fits kf by (auto simp: ht_inv_def)
  qed
  moreover have "numEntries t = of_nat (length (all_entries t))"
    using inv len n by (simp add: ht_inv_def)
  ultimately show "ht_inv t" using lv pl dk da len room by (auto simp: ht_inv_def)
  have pairs: "(\<exists>e\<in>set (all_entries x). h_key e = k' \<and> clientData e = w) \<longleftrightarrow>
      (\<exists>b. (b, w, k') \<in> ent ` set (all_entries x))" for x k' w
    by (auto simp: ent_def)
  show "ht_map t = (ht_map tbl)(key \<mapsto> v)"
  proof (rule ext)
    fix k'
    have "ht_map t k' = Some w \<longleftrightarrow> ((ht_map tbl)(key \<mapsto> v)) k' = Some w" for w
      using key unfolding ht_map_iff [OF dk] pairs se
      by (auto simp: ht_map_iff [OF d(1)] pairs ht_map_None) (auto simp: ent_def)
    then show "ht_map t k' = ((ht_map tbl)(key \<mapsto> v)) k'" by (metis option.exhaust)
  qed
qed

lemma CreateHashEntry_at:
  "key_fits tbl key \<Longrightarrow>
     CreateHashEntry mem remem tbl key = create_at mem remem tbl (hash_index tbl key) key"
  by (cases key) (simp_all add: CreateHashEntry_def StringCreate_def OneWordCreate_def ArrayCreate_def Let_def)

lemma CreateHashEntry_no_memory:
  assumes "ht_inv tbl" "key_fits tbl key" "ht_map tbl key = None"
  shows "CreateHashEntry None remem tbl key = Some (tbl, None, False)"
proof -
  have "chain_find (buckets tbl ! hash_index tbl key) key = None"
    using assms(3) bucket_in_all [OF assms(1), of _ key] by (auto simp: chain_find_None ht_map_None)
  then show ?thesis using CreateHashEntry_at [OF assms(2)] by (simp add: create_at_def)
qed

lemma CreateHashEntry_spec:
  assumes inv: "ht_inv tbl" and fits: "key_fits tbl key" and key: "ht_map tbl key = None"
    and a: "a \<notin> ht_addrs tbl" and room: "length (all_entries tbl) < 3221225471"
  obtains t e where "CreateHashEntry (Some a) True tbl key = Some (t, Some a, True)" "ht_inv t"
    "ht_map t = (ht_map tbl)(key \<mapsto> 0)" "ht_addrs t = insert a (ht_addrs tbl)"
    "length (all_entries t) = Suc (length (all_entries tbl))" "key_fits t = key_fits tbl"
    "e \<in> set (all_entries t)" "h_addr e = a" "h_key e = key"
proof -
  obtain k where lv: "ht_level tbl k" using inv by (auto simp: ht_inv_def)
  let ?i = "hash_index tbl key"
  let ?e = "\<lparr>h_addr = a, bucketPtr = ?i, clientData = 0, h_key = key\<rparr>"
  let ?t1 = "(link_entry tbl ?i ?e)\<lparr>numEntries := numEntries tbl + 1\<rparr>"
  have i: "?i < length (buckets tbl)"
    using hash_index_bound [OF lv] inv by (simp add: ht_inv_def placed_def)
  have "chain_find (buckets tbl ! ?i) key = None"
    using key bucket_in_all [OF inv, of _ key] by (auto simp: chain_find_None ht_map_None)
  then have create: "CreateHashEntry (Some a) True tbl key =
      (if numEntries ?t1 \<ge> rebuildSize ?t1
       then map_option (\<lambda>t. (t, Some a, True)) (RebuildTable True ?t1) else Some (?t1, Some a, True))"
    using CreateHashEntry_at [OF fits] by (simp add: create_at_def Let_def)
  note L = link_entry_spec [OF i, of ?e]
  have e1: "ents ?t1 = add_mset (a, 0, key) (ents tbl)"
    using L(1) by (simp add: ent_def all_entries_def)
  have p1: "placed ?t1" using L(2) inv by (simp add: ht_inv_def placed_def)
  have l1: "ht_level ?t1 k" using lv by (simp add: ht_level_def link_entry_def)
  have k1: "key_fits ?t1 = key_fits tbl" by (rule ext) (simp add: link_entry_def)
  let ?n = "length (all_entries tbl)"
  have lim: "?n < 3 * 4 ^ (k + 1)" "unat (rebuildSize tbl) = 3 * 4 ^ (k + 1)" "k \<le> 14"
    using inv ht_level_unat [OF lv] lv by (simp_all add: ht_inv_def ht_level_def)
  have "numEntries ?t1 = of_nat (?n + 1)" using inv by (simp add: ht_inv_def)
  then have n1: "unat (numEntries ?t1) = ?n + 1" using room by (simp only: unat_of_nat32)
  show thesis
  proof (cases "numEntries ?t1 \<ge> rebuildSize ?t1")
    case False
    then have "?n + 1 < unat (rebuildSize ?t1)" using n1 by (simp add: word_less_nat_alt not_le)
    note A = ht_inv_add [OF inv l1 p1 e1 key a fits _ k1 this]
    show thesis using A create False k1 that [of ?t1] by auto
  next
    case True
    have "rebuildSize ?t1 = rebuildSize tbl" by (simp add: link_entry_def)
    then have full: "?n + 1 = 3 * 4 ^ (k + 1)" using True n1 lim by (simp add: word_le_nat_alt)
    have k14: "k < 14"
    proof (rule ccontr)
      assume "\<not> k < 14"
      then have "k = 14" using lim(3) by simp
      then show False using full room by simp
    qed
    obtain t where t: "RebuildTable True ?t1 = Some t" "ht_level t (k + 1)" "placed t" "ents t = ents ?t1"
        "numEntries t = numEntries ?t1" "key_fits t = key_fits ?t1"
      by (rule RebuildTable_spec [OF l1 k14])
    have e2: "ents t = add_mset (a, 0, key) (ents tbl)" using t(4) e1 by simp
    have "unat (rebuildSize t) = 3 * 4 ^ (k + 2)" using ht_level_unat(3) [OF t(2)] by simp
    then have r2: "?n + 1 < unat (rebuildSize t)" using full by simp
    have n2: "numEntries t = numEntries tbl + 1" "key_fits t = key_fits tbl" using t(5,6) k1 by simp_all
    note A = ht_inv_add [OF inv t(2,3) e2 key a fits n2 r2]
    show thesis using A create True t(1) n2(2) that [of t] by auto
  qed
qed

subsection \<open>Enumeration\<close>

definition rest_entries :: "hash_table \<Rightarrow> hash_search \<Rightarrow> hash_entry list" where
  "rest_entries tbl s = nextEntryPtr s @ concat (drop (nextIndex s) (buckets tbl))"

lemma NextHashEntry_rest:
  assumes "length (buckets tbl) = unat (numBuckets tbl)"
  shows "(case NextHashEntry tbl s of
      (None, s') \<Rightarrow> rest_entries tbl s = []
    | (Some e, s') \<Rightarrow> rest_entries tbl s = e # rest_entries tbl s')"
  using assms
proof (induction tbl s rule: NextHashEntry.induct)
  case (1 tbl s)
  show ?case
  proof (cases "nextEntryPtr s")
    case (Cons e es)
    then show ?thesis by (simp add: NextHashEntry.simps [of tbl s] rest_entries_def)
  next
    case Nil
    show ?thesis
    proof (cases "nextIndex s \<ge> unat (numBuckets tbl)")
      case True
      then show ?thesis using Nil 1(2) by (simp add: NextHashEntry.simps [of tbl s] rest_entries_def)
    next
      case False
      let ?s = "\<lparr>nextIndex = nextIndex s + 1, nextEntryPtr = buckets tbl ! nextIndex s\<rparr>"
      have "drop (nextIndex s) (buckets tbl) = buckets tbl ! nextIndex s # drop (nextIndex s + 1) (buckets tbl)"
        using False 1(2) by (simp add: Cons_nth_drop_Suc)
      then have "rest_entries tbl s = rest_entries tbl ?s" using Nil by (simp add: rest_entries_def)
      moreover have "NextHashEntry tbl s = NextHashEntry tbl ?s"
        using Nil False by (subst NextHashEntry.simps) simp
      ultimately show ?thesis using 1(1) [OF Nil False 1(2)] by (simp only:)
    qed
  qed
qed

end
