(* ===== verification/Key_Map.thy ===== *)
theory Key_Map
  imports Gallus_Base
begin

text \<open>
  The contract of a keyed container as the framework uses it: find, add with or without overwriting,
  and delete, with the result codes of the interface, over an abstract finite map. The locale's
  client facts concern whole sequences of calls.
\<close>

definition spec_find :: "('k \<Rightarrow> 'v option) \<Rightarrow> 'v \<Rightarrow> 'k \<Rightarrow> gallus_result_t \<times> 'v" where
  "spec_find m nul k = (case m k of Some v \<Rightarrow> (GALLUS_RESULT_OK, v) | None \<Rightarrow> (GALLUS_RESULT_NOT_FOUND, nul))"

definition spec_add ::
  "('k \<Rightarrow> 'v option) \<Rightarrow> 'v \<Rightarrow> 'k \<Rightarrow> 'v \<Rightarrow> bool \<Rightarrow> ('k \<Rightarrow> 'v option) \<times> gallus_result_t \<times> 'v" where
  "spec_add m nul k v overwrite =
    (case m k of
       None \<Rightarrow> (m(k \<mapsto> v), GALLUS_RESULT_OK, nul)
     | Some old \<Rightarrow>
         if overwrite then (m(k \<mapsto> v), GALLUS_RESULT_OK, old) else (m, GALLUS_RESULT_ALREADY_EXISTS, old))"

definition spec_del :: "('k \<Rightarrow> 'v option) \<Rightarrow> 'v \<Rightarrow> 'k \<Rightarrow> ('k \<Rightarrow> 'v option) \<times> gallus_result_t \<times> 'v" where
  "spec_del m nul k = (m(k := None), GALLUS_RESULT_OK, case m k of Some v \<Rightarrow> v | None \<Rightarrow> nul)"

datatype ('k, 'v) map_op = M_find 'k | M_add 'k 'v bool | M_del 'k

fun op_key :: "('k, 'v) map_op \<Rightarrow> 'k" where
  "op_key (M_find k) = k"
| "op_key (M_add k v ow) = k"
| "op_key (M_del k) = k"

text \<open>The calls on the abstract map: the final map and what every call returned.\<close>

fun spec_run ::
  "('k, 'v) map_op list \<Rightarrow> 'v \<Rightarrow> ('k \<Rightarrow> 'v option) \<Rightarrow> ('k \<Rightarrow> 'v option) \<times> (gallus_result_t \<times> 'v) list" where
  "spec_run [] nul m = (m, [])"
| "spec_run (M_find k # ops) nul m =
    (let (m', rs) = spec_run ops nul m in (m', spec_find m nul k # rs))"
| "spec_run (M_add k v ow # ops) nul m =
    (let (m, r) = spec_add m nul k v ow; (m', rs) = spec_run ops nul m in (m', r # rs))"
| "spec_run (M_del k # ops) nul m =
    (let (m, r) = spec_del m nul k; (m', rs) = spec_run ops nul m in (m', r # rs))"

lemma spec_simps:
  "fst (spec_add m nul k v ow) = (if m k = None \<or> ow then m(k \<mapsto> v) else m)"
  "fst (spec_del m nul k) = m(k := None)"
  by (auto simp: spec_add_def spec_del_def split: option.splits)

text \<open>Calls yield None where the implementation would abort; the laws exclude it.\<close>

locale key_map =
  fixes inv :: "'s \<Rightarrow> bool" and abs :: "'s \<Rightarrow> 'k \<Rightarrow> 'v option" and ok :: "'s \<Rightarrow> 'k \<Rightarrow> bool"
    and used :: "'s \<Rightarrow> nat" and cap :: nat and nul :: 'v
    and find :: "'s \<Rightarrow> 'k \<Rightarrow> (gallus_result_t \<times> 'v) option"
    and add :: "'s \<Rightarrow> 'k \<Rightarrow> 'v \<Rightarrow> bool \<Rightarrow> ('s \<times> gallus_result_t \<times> 'v) option"
    and del :: "'s \<Rightarrow> 'k \<Rightarrow> ('s \<times> gallus_result_t \<times> 'v) option"
  assumes find_law: "inv s \<Longrightarrow> ok s k \<Longrightarrow> find s k = Some (spec_find (abs s) nul k)"
    and add_law: "inv s \<Longrightarrow> ok s k \<Longrightarrow> used s < cap \<Longrightarrow>
      \<exists>s'. add s k v ow = Some (s', snd (spec_add (abs s) nul k v ow)) \<and> inv s' \<and>
        abs s' = fst (spec_add (abs s) nul k v ow) \<and> ok s' = ok s \<and> used s' \<le> Suc (used s)"
    and del_law: "inv s \<Longrightarrow> ok s k \<Longrightarrow>
      \<exists>s'. del s k = Some (s', snd (spec_del (abs s) nul k)) \<and> inv s' \<and>
        abs s' = fst (spec_del (abs s) nul k) \<and> ok s' = ok s \<and> used s' \<le> used s"
begin

fun run :: "('k, 'v) map_op list \<Rightarrow> 's \<Rightarrow> ('s \<times> (gallus_result_t \<times> 'v) list) option" where
  "run [] s = Some (s, [])"
| "run (M_find k # ops) s =
    (case find s k of None \<Rightarrow> None | Some r \<Rightarrow> map_option (\<lambda>(s, rs). (s, r # rs)) (run ops s))"
| "run (M_add k v ow # ops) s =
    (case add s k v ow of
       None \<Rightarrow> None | Some (s, r) \<Rightarrow> map_option (\<lambda>(s, rs). (s, r # rs)) (run ops s))"
| "run (M_del k # ops) s =
    (case del s k of
       None \<Rightarrow> None | Some (s, r) \<Rightarrow> map_option (\<lambda>(s, rs). (s, r # rs)) (run ops s))"

lemma run_refines:
  assumes "inv s" "\<forall>q\<in>set ops. ok s (op_key q)" "used s + length ops \<le> cap"
  shows "\<exists>s'. run ops s = Some (s', snd (spec_run ops nul (abs s))) \<and> inv s' \<and>
    abs s' = fst (spec_run ops nul (abs s))"
  using assms
proof (induction ops arbitrary: s)
  case (Cons q ops)
  show ?case
  proof (cases q)
    case (M_find k)
    have "find s k = Some (spec_find (abs s) nul k)" using Cons.prems M_find by (simp add: find_law)
    with Cons.IH [OF Cons.prems(1)] Cons.prems(2,3) M_find show ?thesis
      by (auto split: prod.splits)
  next
    case (M_add k v ow)
    obtain s1 where s1: "add s k v ow = Some (s1, snd (spec_add (abs s) nul k v ow))" "inv s1"
        "abs s1 = fst (spec_add (abs s) nul k v ow)" "ok s1 = ok s" "used s1 \<le> Suc (used s)"
      using add_law [OF Cons.prems(1), of k v ow] Cons.prems(2,3) M_add by auto
    have "\<exists>s'. run ops s1 = Some (s', snd (spec_run ops nul (abs s1))) \<and> inv s' \<and>
        abs s' = fst (spec_run ops nul (abs s1))"
      using s1 Cons.prems(2,3) by (intro Cons.IH) auto
    then show ?thesis using s1(1,3) M_add by (auto split: prod.splits)
  next
    case (M_del k)
    obtain s1 where s1: "del s k = Some (s1, snd (spec_del (abs s) nul k))" "inv s1"
        "abs s1 = fst (spec_del (abs s) nul k)" "ok s1 = ok s" "used s1 \<le> used s"
      using del_law [OF Cons.prems(1), of k] Cons.prems(2,3) M_del by auto
    have "\<exists>s'. run ops s1 = Some (s', snd (spec_run ops nul (abs s1))) \<and> inv s' \<and>
        abs s' = fst (spec_run ops nul (abs s1))"
      using s1 Cons.prems(2,3) by (intro Cons.IH) auto
    then show ?thesis using s1(1,3) M_del by (auto split: prod.splits)
  qed
qed simp

text \<open>What was added last and not deleted since is found.\<close>

lemma find_after_add:
  assumes "inv s" "ok s k" "used s < cap"
  shows "\<exists>s' r. add s k v True = Some (s', r) \<and> find s' k = Some (GALLUS_RESULT_OK, v)"
proof -
  obtain s' where "add s k v True = Some (s', snd (spec_add (abs s) nul k v True))" "inv s'"
    "abs s' = fst (spec_add (abs s) nul k v True)" "ok s' = ok s"
    using add_law [OF assms, of v True] by blast
  then show ?thesis using find_law [of s' k] assms(2) by (auto simp: spec_simps spec_find_def)
qed

end

end
