(* ===== verification/HashMap.thy ===== *)
theory HashMap
  imports Hash_Refine Key_Map
begin

text \<open>
  The hash map (\<^verbatim>\<open>framework/lib/hashmap.c\<close>) on top of the hash table: operational state, entry
  count, free-up procedure. Every call but the \<^verbatim>\<open>_no_lock\<close> ones holds the reader-writer lock, so
  it is one step. Values are addresses, 0 the NULL pointer. The free-up procedure is foreign code;
  \<open>m_freed\<close> lists the values passed to it. Calls yield None where the table below aborts.
\<close>

record hashmap =
  m_type :: "32 word"
  m_hashtable :: hash_table
  m_del_proc :: bool
  m_n_entries :: int
  m_is_operational :: bool
  m_freed :: "nat list"

subsection \<open>Iterating\<close>

definition gallus_hashmap_set_value :: "hash_table \<Rightarrow> nat option \<Rightarrow> nat \<Rightarrow> hash_table" where
  "gallus_hashmap_set_value tbl he val = (case he of Some a \<Rightarrow> SetHashValue tbl a val | None \<Rightarrow> tbl)"

text \<open>
  The iteration procedure gets the key, the value and the argument; it returns whether to go on, the
  argument, and the value the entry has afterwards (\<open>gallus_hashmap_set_value\<close>). It does not change
  the chains, so the search runs over the table \<open>tbl\<close> the iteration began with, and \<open>cur\<close> is the
  table with the values set so far.
\<close>

type_synonym 'a iteration_proc = "hash_key \<Rightarrow> nat \<Rightarrow> 'a \<Rightarrow> bool \<times> 'a \<times> nat"

definition search_size :: "hash_table \<Rightarrow> hash_search \<Rightarrow> nat" where
  "search_size tbl s = length (nextEntryPtr s) +
     sum_list (map (\<lambda>i. length (buckets tbl ! i)) [nextIndex s..<unat (numBuckets tbl)])"

lemma NextHashEntry_size: "NextHashEntry tbl s = (Some e, s') \<Longrightarrow> search_size tbl s' < search_size tbl s"
proof (induction tbl s rule: NextHashEntry.induct)
  case (1 tbl s)
  show ?case
  proof (cases "nextEntryPtr s")
    case (Cons x xs)
    then show ?thesis using 1(2) by (auto simp: NextHashEntry.simps [of tbl s] search_size_def)
  next
    case Nil
    have ne: "\<not> nextIndex s \<ge> unat (numBuckets tbl)"
      using 1(2) Nil by (auto simp: NextHashEntry.simps [of tbl s] split: if_splits)
    let ?s = "\<lparr>nextIndex = nextIndex s + 1, nextEntryPtr = buckets tbl ! nextIndex s\<rparr>"
    have "NextHashEntry tbl s = NextHashEntry tbl ?s" using Nil ne by (subst NextHashEntry.simps) simp
    then have "search_size tbl s' < search_size tbl ?s" using 1 Nil ne by simp
    also have "search_size tbl ?s = search_size tbl s"
      using Nil ne by (simp add: search_size_def upt_conv_Cons)
    finally show ?thesis .
  qed
qed

function iterate_from ::
  "'a iteration_proc \<Rightarrow> hash_table \<Rightarrow> hash_entry option \<times> hash_search \<Rightarrow> hash_table \<Rightarrow> 'a \<Rightarrow> bool \<Rightarrow>
   hash_table \<times> 'a \<times> bool" where
  "iterate_from proc tbl (None, s) cur arg ret = (cur, arg, ret)"
| "iterate_from proc tbl (Some he, s) cur arg ret =
    (case proc (h_key he) (clientData he) arg of
       (ret, arg, v) \<Rightarrow>
         (let cur = gallus_hashmap_set_value cur (Some (h_addr he)) v in
          if ret = False then (cur, arg, ret)
          else iterate_from proc tbl (NextHashEntry tbl s) cur arg ret))"
  by pat_completeness auto
termination
proof (relation "measure (\<lambda>(proc, tbl, (he, s), cur, arg, ret).
    (case he of None \<Rightarrow> 0 | Some _ \<Rightarrow> Suc (search_size tbl s)))")
  fix proc :: "'a iteration_proc" and tbl he s cur arg ret x ret' y arg' v c
  show "((proc, tbl, NextHashEntry tbl s, c, arg', ret'), proc, tbl, (Some he, s), cur, arg, ret)
      \<in> measure (\<lambda>(proc, tbl, (he, s), cur, arg, ret). case he of None \<Rightarrow> 0 | Some _ \<Rightarrow> Suc (search_size tbl s))"
    using NextHashEntry_size [of tbl s]
    by (cases "NextHashEntry tbl s") (auto split: option.splits)
qed simp

definition s_do_iterate :: "hashmap \<Rightarrow> 'a iteration_proc \<Rightarrow> 'a \<Rightarrow> hashmap \<times> 'a \<times> bool" where
  "s_do_iterate hm proc arg =
    (let tbl = m_hashtable hm;
         (cur, arg, ret) = iterate_from proc tbl (FirstHashEntry tbl) tbl arg False
     in (hm\<lparr>m_hashtable := cur\<rparr>, arg, ret))"

subsection \<open>Freeing values\<close>

text \<open>The argument of the code is the map itself; here it is the list of the freed values.\<close>

definition s_freeup_proc :: "hashmap \<Rightarrow> nat list iteration_proc" where
  "s_freeup_proc hm key val freed =
    (if m_del_proc hm then (True, if val \<noteq> 0 then freed @ [val] else freed, val) else (False, freed, val))"

definition s_freeup_all_values_hm :: "hashmap \<Rightarrow> hashmap" where
  "s_freeup_all_values_hm hm =
    (let (_, freed, _) = s_do_iterate hm (s_freeup_proc hm) (m_freed hm) in hm\<lparr>m_freed := freed\<rparr>)"

text \<open>The table after \<^verbatim>\<open>memset\<close>.\<close>

definition zero_table :: hash_table where
  "zero_table = \<lparr>buckets = [], numBuckets = 0, numEntries = 0, rebuildSize = 0, downShift = 0, mask = 0,
     keyLen = 0, keyIntLen = 0, keyModLen = 0, procs = Null_procs\<rparr>"

definition s_clean_hm :: "hashmap \<Rightarrow> bool \<Rightarrow> hashmap" where
  "s_clean_hm hm free_values =
    (let hm = (if free_values then s_freeup_all_values_hm hm else hm);
         (tbl, _) = DeleteHashTable (m_hashtable hm)
     in hm\<lparr>m_hashtable := zero_table, m_n_entries := 0\<rparr>)"

definition s_reinit :: "hashmap \<Rightarrow> bool \<Rightarrow> hashmap" where
  "s_reinit hm free_values =
    (let hm = s_clean_hm hm free_values in hm\<lparr>m_hashtable := InitHashTable (m_type hm)\<rparr>)"

subsection \<open>Creation and destruction\<close>

text \<open>\<open>mem\<close>: whether \<^verbatim>\<open>malloc\<close> succeeded; \<open>lk\<close>: the result of creating the lock.\<close>

definition gallus_hashmap_create ::
  "bool \<Rightarrow> gallus_result_t \<Rightarrow> hashmap option option \<Rightarrow> 32 word \<Rightarrow> bool \<Rightarrow>
   hashmap option option \<times> gallus_result_t" where
  "gallus_hashmap_create mem lk retptr t proc =
    (if retptr \<noteq> None then
       (if mem then
          (if lk = GALLUS_RESULT_OK then
             (Some (Some \<lparr>m_type = t, m_hashtable = InitHashTable t, m_del_proc = proc, m_n_entries = 0,
                          m_is_operational = True, m_freed = []\<rparr>), GALLUS_RESULT_OK)
           else (Some None, lk))
        else (Some None, GALLUS_RESULT_NO_MEMORY))
     else (retptr, GALLUS_RESULT_INVALID_ARGS))"

definition gallus_hashmap_shutdown :: "hashmap option \<Rightarrow> bool \<Rightarrow> hashmap option" where
  "gallus_hashmap_shutdown hmptr free_values =
    (case hmptr of
       None \<Rightarrow> None
     | Some hm \<Rightarrow>
         if m_is_operational hm then Some (s_clean_hm (hm\<lparr>m_is_operational := False\<rparr>) free_values)
         else Some hm)"

text \<open>The values freed are the second component.\<close>

definition gallus_hashmap_destroy :: "hashmap option \<Rightarrow> bool \<Rightarrow> hashmap option \<times> nat list" where
  "gallus_hashmap_destroy hmptr free_values =
    (case hmptr of
       None \<Rightarrow> (None, [])
     | Some hm \<Rightarrow>
         (let hm = (if m_is_operational hm
                    then s_clean_hm (hm\<lparr>m_is_operational := False\<rparr>) free_values else hm)
          in (None, m_freed hm)))"

definition s_clear :: "hashmap \<Rightarrow> bool \<Rightarrow> hashmap \<times> gallus_result_t" where
  "s_clear hm free_values =
    (if m_is_operational hm then
       (let hm = s_reinit (hm\<lparr>m_is_operational := False\<rparr>) free_values
        in (hm\<lparr>m_is_operational := True\<rparr>, GALLUS_RESULT_OK))
     else (hm, GALLUS_RESULT_NOT_OPERATIONAL))"

definition gallus_hashmap_clear_no_lock ::
  "hashmap option \<Rightarrow> bool \<Rightarrow> hashmap option \<times> gallus_result_t" where
  "gallus_hashmap_clear_no_lock hmptr free_values =
    (case hmptr of
       None \<Rightarrow> (None, GALLUS_RESULT_INVALID_ARGS)
     | Some hm \<Rightarrow> (let (hm, r) = s_clear hm free_values in (Some hm, r)))"

definition gallus_hashmap_clear :: "hashmap option \<Rightarrow> bool \<Rightarrow> hashmap option \<times> gallus_result_t" where
  "gallus_hashmap_clear hmptr free_values =
    (case hmptr of
       None \<Rightarrow> (None, GALLUS_RESULT_INVALID_ARGS)
     | Some hm \<Rightarrow> (let (hm, r) = s_clear hm free_values in (Some hm, r)))"

subsection \<open>Finding, adding, deleting\<close>

definition s_find_entry :: "hashmap \<Rightarrow> hash_key \<Rightarrow> nat option option" where
  "s_find_entry hm key = FindHashEntry (m_hashtable hm) key"

definition s_create_entry ::
  "nat option \<Rightarrow> bool \<Rightarrow> hashmap \<Rightarrow> hash_key \<Rightarrow> (hashmap \<times> nat option) option" where
  "s_create_entry mem remem hm key =
    map_option (\<lambda>(tbl, he, is_new). (hm\<lparr>m_hashtable := tbl\<rparr>, he))
      (CreateHashEntry mem remem (m_hashtable hm) key)"

text \<open>The value stored through \<^verbatim>\<open>valptr\<close> is the last component of each result.\<close>

definition s_find :: "hashmap \<Rightarrow> hash_key \<Rightarrow> (gallus_result_t \<times> nat) option" where
  "s_find hm key =
    (if m_is_operational hm then
       (case s_find_entry hm key of
          None \<Rightarrow> None
        | Some None \<Rightarrow> Some (GALLUS_RESULT_NOT_FOUND, 0)
        | Some (Some he) \<Rightarrow> map_option (\<lambda>v. (GALLUS_RESULT_OK, v)) (GetHashValue (m_hashtable hm) he))
     else Some (GALLUS_RESULT_NOT_OPERATIONAL, 0))"

definition gallus_hashmap_find_no_lock ::
  "hashmap option \<Rightarrow> hash_key \<Rightarrow> bool \<Rightarrow> (gallus_result_t \<times> nat option) option" where
  "gallus_hashmap_find_no_lock hmptr key valptr =
    (case hmptr of
       Some hm \<Rightarrow> if valptr then map_option (\<lambda>(r, v). (r, Some v)) (s_find hm key)
                  else Some (GALLUS_RESULT_INVALID_ARGS, None)
     | None \<Rightarrow> Some (GALLUS_RESULT_INVALID_ARGS, None))"

definition gallus_hashmap_find ::
  "hashmap option \<Rightarrow> hash_key \<Rightarrow> bool \<Rightarrow> (gallus_result_t \<times> nat option) option" where
  "gallus_hashmap_find hmptr key valptr =
    (case hmptr of
       Some hm \<Rightarrow> if valptr then map_option (\<lambda>(r, v). (r, Some v)) (s_find hm key)
                  else Some (GALLUS_RESULT_INVALID_ARGS, None)
     | None \<Rightarrow> Some (GALLUS_RESULT_INVALID_ARGS, None))"

definition s_add ::
  "nat option \<Rightarrow> bool \<Rightarrow> hashmap \<Rightarrow> hash_key \<Rightarrow> nat \<Rightarrow> bool \<Rightarrow> (hashmap \<times> gallus_result_t \<times> nat) option" where
  "s_add mem remem hm key val allow_overwrite =
    (if m_is_operational hm then
       (case s_find_entry hm key of
          None \<Rightarrow> None
        | Some (Some he) \<Rightarrow>
            (case GetHashValue (m_hashtable hm) he of
               None \<Rightarrow> None
             | Some oldval \<Rightarrow>
                 if allow_overwrite
                 then Some (hm\<lparr>m_hashtable := SetHashValue (m_hashtable hm) he val\<rparr>, GALLUS_RESULT_OK, oldval)
                 else Some (hm, GALLUS_RESULT_ALREADY_EXISTS, oldval))
        | Some None \<Rightarrow>
            (case s_create_entry mem remem hm key of
               None \<Rightarrow> None
             | Some (hm, Some he) \<Rightarrow>
                 Some (hm\<lparr>m_hashtable := SetHashValue (m_hashtable hm) he val,
                          m_n_entries := m_n_entries hm + 1\<rparr>, GALLUS_RESULT_OK, 0)
             | Some (hm, None) \<Rightarrow> Some (hm, GALLUS_RESULT_NO_MEMORY, 0)))
     else Some (hm, GALLUS_RESULT_NOT_OPERATIONAL, val))"

definition gallus_hashmap_add ::
  "nat option \<Rightarrow> bool \<Rightarrow> hashmap option \<Rightarrow> hash_key \<Rightarrow> nat option \<Rightarrow> bool \<Rightarrow>
   (hashmap option \<times> gallus_result_t \<times> nat option) option" where
  "gallus_hashmap_add mem remem hmptr key valptr allow_overwrite =
    (case (hmptr, valptr) of
       (Some hm, Some val) \<Rightarrow>
         map_option (\<lambda>(hm, r, v). (Some hm, r, Some v)) (s_add mem remem hm key val allow_overwrite)
     | _ \<Rightarrow> Some (hmptr, GALLUS_RESULT_INVALID_ARGS, valptr))"

definition gallus_hashmap_add_no_lock ::
  "nat option \<Rightarrow> bool \<Rightarrow> hashmap option \<Rightarrow> hash_key \<Rightarrow> nat option \<Rightarrow> bool \<Rightarrow>
   (hashmap option \<times> gallus_result_t \<times> nat option) option" where
  "gallus_hashmap_add_no_lock mem remem hmptr key valptr allow_overwrite =
    (case (hmptr, valptr) of
       (Some hm, Some val) \<Rightarrow>
         map_option (\<lambda>(hm, r, v). (Some hm, r, Some v)) (s_add mem remem hm key val allow_overwrite)
     | _ \<Rightarrow> Some (hmptr, GALLUS_RESULT_INVALID_ARGS, valptr))"

definition s_delete_hm :: "hashmap \<Rightarrow> hash_key \<Rightarrow> bool \<Rightarrow> (hashmap \<times> gallus_result_t \<times> nat) option" where
  "s_delete_hm hm key free_value =
    (if m_is_operational hm then
       (case s_find_entry hm key of
          None \<Rightarrow> None
        | Some None \<Rightarrow> Some (hm, GALLUS_RESULT_OK, 0)
        | Some (Some he) \<Rightarrow>
            (case GetHashValue (m_hashtable hm) he of
               None \<Rightarrow> None
             | Some val \<Rightarrow>
                 (let hm = (if val \<noteq> 0 \<and> free_value \<and> m_del_proc hm
                            then hm\<lparr>m_freed := m_freed hm @ [val]\<rparr> else hm)
                  in map_option
                       (\<lambda>tbl. (hm\<lparr>m_hashtable := tbl, m_n_entries := m_n_entries hm - 1\<rparr>, GALLUS_RESULT_OK, val))
                       (DeleteHashEntry (m_hashtable hm) he))))
     else Some (hm, GALLUS_RESULT_NOT_OPERATIONAL, 0))"

definition gallus_hashmap_delete ::
  "hashmap option \<Rightarrow> hash_key \<Rightarrow> bool \<Rightarrow> (hashmap option \<times> gallus_result_t \<times> nat option) option" where
  "gallus_hashmap_delete hmptr key free_value =
    (case hmptr of
       None \<Rightarrow> Some (None, GALLUS_RESULT_INVALID_ARGS, None)
     | Some hm \<Rightarrow> map_option (\<lambda>(hm, r, v). (Some hm, r, Some v)) (s_delete_hm hm key free_value))"

definition gallus_hashmap_delete_no_lock ::
  "hashmap option \<Rightarrow> hash_key \<Rightarrow> bool \<Rightarrow> (hashmap option \<times> gallus_result_t \<times> nat option) option" where
  "gallus_hashmap_delete_no_lock hmptr key free_value =
    (case hmptr of
       None \<Rightarrow> Some (None, GALLUS_RESULT_INVALID_ARGS, None)
     | Some hm \<Rightarrow> map_option (\<lambda>(hm, r, v). (Some hm, r, Some v)) (s_delete_hm hm key free_value))"

subsection \<open>Iteration and queries\<close>

definition s_iterate :: "hashmap \<Rightarrow> 'a iteration_proc \<Rightarrow> 'a \<Rightarrow> hashmap \<times> 'a \<times> gallus_result_t" where
  "s_iterate hm proc arg =
    (if m_is_operational hm then
       (let (hm, arg, ret) = s_do_iterate hm proc arg
        in (hm, arg, if ret then GALLUS_RESULT_OK else GALLUS_RESULT_ITERATION_HALTED))
     else (hm, arg, GALLUS_RESULT_NOT_OPERATIONAL))"

definition gallus_hashmap_iterate ::
  "hashmap option \<Rightarrow> 'a iteration_proc option \<Rightarrow> 'a \<Rightarrow> hashmap option \<times> 'a \<times> gallus_result_t" where
  "gallus_hashmap_iterate hmptr proc arg =
    (case (hmptr, proc) of
       (Some hm, Some proc) \<Rightarrow> (let (hm, arg, r) = s_iterate hm proc arg in (Some hm, arg, r))
     | _ \<Rightarrow> (hmptr, arg, GALLUS_RESULT_INVALID_ARGS))"

definition gallus_hashmap_iterate_no_lock ::
  "hashmap option \<Rightarrow> 'a iteration_proc option \<Rightarrow> 'a \<Rightarrow> hashmap option \<times> 'a \<times> gallus_result_t" where
  "gallus_hashmap_iterate_no_lock hmptr proc arg =
    (case (hmptr, proc) of
       (Some hm, Some proc) \<Rightarrow> (let (hm, arg, r) = s_iterate hm proc arg in (Some hm, arg, r))
     | _ \<Rightarrow> (hmptr, arg, GALLUS_RESULT_INVALID_ARGS))"

definition gallus_hashmap_size :: "hashmap option \<Rightarrow> gallus_result_t" where
  "gallus_hashmap_size hmptr =
    (case hmptr of
       None \<Rightarrow> GALLUS_RESULT_INVALID_ARGS
     | Some hm \<Rightarrow> if m_is_operational hm then m_n_entries hm else GALLUS_RESULT_NOT_OPERATIONAL)"

definition gallus_hashmap_size_no_lock :: "hashmap option \<Rightarrow> gallus_result_t" where
  "gallus_hashmap_size_no_lock hmptr =
    (case hmptr of
       None \<Rightarrow> GALLUS_RESULT_INVALID_ARGS
     | Some hm \<Rightarrow> if m_is_operational hm then m_n_entries hm else GALLUS_RESULT_NOT_OPERATIONAL)"

text \<open>\<open>mem\<close>: whether \<open>HashStats\<close> got the memory for its text; only its counts are modelled.\<close>

definition gallus_hashmap_statistics ::
  "bool \<Rightarrow> hashmap option \<Rightarrow> bool \<Rightarrow> gallus_result_t \<times> (nat list \<times> nat) option" where
  "gallus_hashmap_statistics mem hmptr msgptr =
    (case hmptr of
       None \<Rightarrow> (GALLUS_RESULT_INVALID_ARGS, None)
     | Some hm \<Rightarrow>
         if \<not> msgptr then (GALLUS_RESULT_INVALID_ARGS, None)
         else if m_is_operational hm then
           (if mem then (GALLUS_RESULT_OK, Some (HashStats (m_hashtable hm)))
            else (GALLUS_RESULT_NO_MEMORY, None))
         else (GALLUS_RESULT_NOT_OPERATIONAL, None))"

end
