(* ===== verification/HashMap_Laws.thy ===== *)
theory HashMap_Laws
  imports HashMap
begin

text \<open>
  The hash map as a keyed container: the interpretation of the map laws, what every call returns over
  any sequence of calls, iteration and clean-up.
\<close>

subsection \<open>The calls as map operations\<close>

definition hm_inv :: "hashmap \<Rightarrow> bool" where
  "hm_inv hm \<longleftrightarrow> ht_inv (m_hashtable hm) \<and> m_is_operational hm \<and>
     m_n_entries hm = int (length (all_entries (m_hashtable hm)))"

definition hm_map :: "hashmap \<Rightarrow> hash_key \<Rightarrow> nat option" where
  "hm_map hm = ht_map (m_hashtable hm)"

definition hm_ok :: "hashmap \<Rightarrow> hash_key \<Rightarrow> bool" where
  "hm_ok hm = key_fits (m_hashtable hm)"

definition hm_used :: "hashmap \<Rightarrow> nat" where
  "hm_used hm = length (all_entries (m_hashtable hm))"

text \<open>
  The memory allocator returns an address that is not in use. The table of \<open>2 ^ 30\<close> buckets is full at
  \<open>3 * 2 ^ 30\<close> entries.
\<close>

definition alloc_ok :: "(nat set \<Rightarrow> nat option) \<Rightarrow> bool" where
  "alloc_ok alloc \<longleftrightarrow> (\<forall>A. finite A \<longrightarrow> (\<exists>a. alloc A = Some a \<and> a \<notin> A))"

definition first_free :: "nat set \<Rightarrow> nat option" where
  "first_free A = Some (Suc (Max (insert 0 A)))"

definition hm_find :: "hashmap \<Rightarrow> hash_key \<Rightarrow> (gallus_result_t \<times> nat) option" where
  "hm_find hm k =
    (case gallus_hashmap_find (Some hm) k True of Some (r, Some v) \<Rightarrow> Some (r, v) | _ \<Rightarrow> None)"

definition hm_add ::
  "(nat set \<Rightarrow> nat option) \<Rightarrow> hashmap \<Rightarrow> hash_key \<Rightarrow> nat \<Rightarrow> bool \<Rightarrow> (hashmap \<times> gallus_result_t \<times> nat) option" where
  "hm_add alloc hm k v overwrite =
    (case gallus_hashmap_add (alloc (ht_addrs (m_hashtable hm))) True (Some hm) k (Some v) overwrite of
       Some (Some hm', r, Some v') \<Rightarrow> Some (hm', r, v') | _ \<Rightarrow> None)"

definition hm_del :: "hashmap \<Rightarrow> hash_key \<Rightarrow> (hashmap \<times> gallus_result_t \<times> nat) option" where
  "hm_del hm k =
    (case gallus_hashmap_delete (Some hm) k False of
       Some (Some hm', r, Some v') \<Rightarrow> Some (hm', r, v') | _ \<Rightarrow> None)"

lemma GetHashValue_entry: "ht_inv tbl \<Longrightarrow> e \<in> set (all_entries tbl) \<Longrightarrow> GetHashValue tbl (h_addr e) = Some (clientData e)"
  using entry_at_Some [of tbl e] by (simp add: GetHashValue_def ht_inv_def)

lemma s_find_law:
  assumes "hm_inv hm" "hm_ok hm k"
  shows "s_find hm k = Some (spec_find (hm_map hm) 0 k)"
proof -
  have i: "ht_inv (m_hashtable hm)" "key_fits (m_hashtable hm) k" "m_is_operational hm"
    using assms by (simp_all add: hm_inv_def hm_ok_def)
  show ?thesis
    by (cases rule: FindHashEntry_spec [OF i(1,2)])
      (simp_all add: s_find_def s_find_entry_def i GetHashValue_entry spec_find_def hm_map_def)
qed

lemma s_add_law:
  assumes "hm_inv hm" "hm_ok hm k" "hm_used hm < 3221225471" "a \<notin> ht_addrs (m_hashtable hm)"
  shows "\<exists>hm'. s_add (Some a) True hm k v ow = Some (hm', snd (spec_add (hm_map hm) 0 k v ow)) \<and>
    hm_inv hm' \<and> hm_map hm' = fst (spec_add (hm_map hm) 0 k v ow) \<and> hm_ok hm' = hm_ok hm \<and>
    hm_used hm' \<le> Suc (hm_used hm)"
proof -
  let ?t = "m_hashtable hm"
  have i: "ht_inv ?t" "key_fits ?t k" "m_is_operational hm"
    "m_n_entries hm = int (length (all_entries ?t))"
    using assms by (simp_all add: hm_inv_def hm_ok_def)
  show ?thesis
  proof (cases rule: FindHashEntry_spec [OF i(1,2)])
    case (1 e)
    note S = SetHashValue_spec [OF i(1) 1(2), of v]
    show ?thesis
      using 1 i S by (simp add: s_add_def s_find_entry_def GetHashValue_entry spec_add_def hm_map_def
          hm_inv_def hm_ok_def hm_used_def)
  next
    case 2
    have room: "length (all_entries ?t) < 3221225471" using assms(3) by (simp add: hm_used_def)
    obtain t e where c: "CreateHashEntry (Some a) True ?t k = Some (t, Some a, True)" "ht_inv t"
      "ht_map t = (ht_map ?t)(k \<mapsto> 0)" "ht_addrs t = insert a (ht_addrs ?t)"
      "length (all_entries t) = Suc (length (all_entries ?t))" "key_fits t = key_fits ?t"
      "e \<in> set (all_entries t)" "h_addr e = a" "h_key e = k"
      by (rule CreateHashEntry_spec [OF i(1,2) 2(2) assms(4) room])
    note S = SetHashValue_spec [OF c(2,7), of v]
    show ?thesis
      using 2 i c S by (simp add: s_add_def s_find_entry_def s_create_entry_def spec_add_def hm_map_def
          hm_inv_def hm_ok_def hm_used_def)
  qed
qed

lemma s_delete_law:
  assumes "hm_inv hm" "hm_ok hm k"
  shows "\<exists>hm'. s_delete_hm hm k fv = Some (hm', snd (spec_del (hm_map hm) 0 k)) \<and>
    hm_inv hm' \<and> hm_map hm' = fst (spec_del (hm_map hm) 0 k) \<and> hm_ok hm' = hm_ok hm \<and>
    hm_used hm' \<le> hm_used hm \<and>
    m_freed hm' = m_freed hm @ (case hm_map hm k of
      Some v \<Rightarrow> if v \<noteq> 0 \<and> fv \<and> m_del_proc hm then [v] else [] | None \<Rightarrow> [])"
proof -
  let ?t = "m_hashtable hm"
  have i: "ht_inv ?t" "key_fits ?t k" "m_is_operational hm"
    "m_n_entries hm = int (length (all_entries ?t))"
    using assms by (simp_all add: hm_inv_def hm_ok_def)
  show ?thesis
  proof (cases rule: FindHashEntry_spec [OF i(1,2)])
    case (1 e)
    obtain t where d: "DeleteHashEntry ?t (h_addr e) = Some t" "ht_inv t"
      "ht_map t = (ht_map ?t)(h_key e := None)"
      "length (all_entries ?t) = Suc (length (all_entries t))" "key_fits t = key_fits ?t"
      using DeleteHashEntry_spec [OF i(1) 1(2)] by metis
    show ?thesis
      using 1 i d by (simp add: s_delete_hm_def s_find_entry_def GetHashValue_entry spec_del_def hm_map_def
          hm_inv_def hm_ok_def hm_used_def Let_def)
  next
    case 2
    have "(ht_map ?t)(k := None) = ht_map ?t" using 2(2) by (simp add: fun_upd_idem)
    then show ?thesis
      using 2 i assms by (simp add: s_delete_hm_def s_find_entry_def spec_del_def hm_map_def)
  qed
qed

lemma finite_ht_addrs: "finite (ht_addrs tbl)"
  by (simp add: ht_addrs_def)

lemma hm_key_map:
  assumes "alloc_ok alloc"
  shows "key_map hm_inv hm_map hm_ok hm_used 3221225471 0 hm_find (hm_add alloc) hm_del"
proof unfold_locales
  fix hm k
  assume "hm_inv hm" "hm_ok hm k"
  then show "hm_find hm k = Some (spec_find (hm_map hm) 0 k)"
    using s_find_law by (simp add: hm_find_def gallus_hashmap_find_def split: prod.split)
next
  fix hm k v ow
  assume *: "hm_inv hm" "hm_ok hm k" "hm_used hm < 3221225471"
  obtain a where a: "alloc (ht_addrs (m_hashtable hm)) = Some a" "a \<notin> ht_addrs (m_hashtable hm)"
    using assms finite_ht_addrs by (auto simp: alloc_ok_def)
  from s_add_law [OF * a(2), of v ow]
  show "\<exists>hm'. hm_add alloc hm k v ow = Some (hm', snd (spec_add (hm_map hm) 0 k v ow)) \<and> hm_inv hm' \<and>
      hm_map hm' = fst (spec_add (hm_map hm) 0 k v ow) \<and> hm_ok hm' = hm_ok hm \<and>
      hm_used hm' \<le> Suc (hm_used hm)"
    by (auto simp: hm_add_def gallus_hashmap_add_def a(1) split: prod.splits)
next
  fix hm k
  assume "hm_inv hm" "hm_ok hm k"
  from s_delete_law [OF this, of False]
  show "\<exists>hm'. hm_del hm k = Some (hm', snd (spec_del (hm_map hm) 0 k)) \<and> hm_inv hm' \<and>
      hm_map hm' = fst (spec_del (hm_map hm) 0 k) \<and> hm_ok hm' = hm_ok hm \<and> hm_used hm' \<le> hm_used hm"
    by (auto simp: hm_del_def gallus_hashmap_delete_def split: prod.splits)
qed

lemma first_free_ok: "alloc_ok first_free"
proof -
  have "Suc (Max (insert 0 A)) \<notin> A" if "finite A" for A :: "nat set"
  proof
    assume "Suc (Max (insert 0 A)) \<in> A"
    then have "Suc (Max (insert 0 A)) \<le> Max (insert 0 A)" using that by (intro Max_ge) auto
    then show False by (rule Suc_n_not_le_n [THEN notE])
  qed
  then show ?thesis by (simp add: alloc_ok_def first_free_def)
qed

interpretation hm: key_map hm_inv hm_map hm_ok hm_used 3221225471 0 hm_find "hm_add first_free" hm_del
  by (rule hm_key_map [OF first_free_ok])


subsection \<open>Iteration\<close>

text \<open>The iteration over a list of entries: the values they have afterwards, the argument, the flag.\<close>

fun iterate_list ::
  "'a iteration_proc \<Rightarrow> hash_entry list \<Rightarrow> 'a \<Rightarrow> bool \<Rightarrow> (nat \<times> nat) list \<times> 'a \<times> bool" where
  "iterate_list proc [] arg ret = ([], arg, ret)"
| "iterate_list proc (e # es) arg ret =
    (case proc (h_key e) (clientData e) arg of
       (ret, arg, v) \<Rightarrow>
         if ret then (let (vs, arg, ret) = iterate_list proc es arg True in ((h_addr e, v) # vs, arg, ret))
         else ([(h_addr e, v)], arg, False))"

definition set_values :: "hash_table \<Rightarrow> (nat \<times> nat) list \<Rightarrow> hash_table" where
  "set_values tbl vs = foldl (\<lambda>tbl (a, v). SetHashValue tbl a v) tbl vs"

lemma iterate_from_list:
  assumes "length (buckets tbl) = unat (numBuckets tbl)"
  shows "iterate_from proc tbl (hs :: hash_entry option \<times> hash_search) cur arg ret =
    (let (vs, arg, ret) = iterate_list proc
        (case hs of (None, s) \<Rightarrow> [] | (Some e, s) \<Rightarrow> e # rest_entries tbl s) arg ret
     in (set_values cur vs, arg, ret))"
  using assms
proof (induction proc tbl hs cur arg ret rule: iterate_from.induct)
  case (1 proc tbl s cur arg ret)
  then show ?case by (simp add: set_values_def)
next
  case (2 proc tbl he s cur arg ret)
  obtain ok arg' v where p: "proc (h_key he) (clientData he) arg = (ok, arg', v)" by (metis prod_cases3)
  show ?case
  proof (cases ok)
    case False
    then show ?thesis using p by (simp add: set_values_def gallus_hashmap_set_value_def)
  next
    case True
    have rest: "(case NextHashEntry tbl s of (None, s) \<Rightarrow> [] | (Some e, s) \<Rightarrow> e # rest_entries tbl s) = rest_entries tbl s"
      using NextHashEntry_rest [OF 2(2), of s] by (cases "NextHashEntry tbl s") (auto split: option.splits)
    show ?thesis
      using 2(1) [OF p [symmetric] refl refl _ 2(2)] p True rest
      by (simp add: set_values_def gallus_hashmap_set_value_def Let_def split: prod.splits)
  qed
qed

lemma s_do_iterate_list:
  assumes "ht_inv (m_hashtable hm)"
  shows "s_do_iterate hm proc arg =
    (let (vs, arg, ret) = iterate_list proc (all_entries (m_hashtable hm)) arg False
     in (hm\<lparr>m_hashtable := set_values (m_hashtable hm) vs\<rparr>, arg, ret))"
proof -
  let ?t = "m_hashtable hm" and ?s = "\<lparr>nextIndex = 0, nextEntryPtr = []\<rparr>"
  have len: "length (buckets ?t) = unat (numBuckets ?t)"
    using assms by (simp add: ht_inv_def placed_def)
  have "(case NextHashEntry ?t ?s of (None, s) \<Rightarrow> [] | (Some e, s) \<Rightarrow> e # rest_entries ?t s) = all_entries ?t"
    using NextHashEntry_rest [OF len, of ?s]
    by (cases "NextHashEntry ?t ?s") (auto simp: rest_entries_def all_entries_def split: option.splits)
  then show ?thesis
    by (simp add: s_do_iterate_def FirstHashEntry_def iterate_from_list [OF len] Let_def split: prod.splits)
qed


text \<open>A procedure that goes on while \<open>p\<close> holds, records what it sees and sets new values by \<open>g\<close>.\<close>

definition visit_proc ::
  "(hash_key \<Rightarrow> nat \<Rightarrow> bool) \<Rightarrow> (hash_key \<Rightarrow> nat \<Rightarrow> nat) \<Rightarrow> (hash_key \<times> nat) list iteration_proc" where
  "visit_proc p g k v acc = (p k v, acc @ [(k, v)], g k v)"

text \<open>The entries up to and including the first that stops the iteration.\<close>

fun visited :: "(hash_key \<Rightarrow> nat \<Rightarrow> bool) \<Rightarrow> hash_entry list \<Rightarrow> hash_entry list" where
  "visited p [] = []"
| "visited p (e # es) = (if p (h_key e) (clientData e) then e # visited p es else [e])"

lemma iterate_list_visit:
  "iterate_list (visit_proc p g) es acc ret =
    (map (\<lambda>e. (h_addr e, g (h_key e) (clientData e))) (visited p es),
     acc @ map (\<lambda>e. (h_key e, clientData e)) (visited p es),
     if es = [] then ret else list_all (\<lambda>e. p (h_key e) (clientData e)) es)"
  by (induction es arbitrary: acc ret) (simp_all add: visit_proc_def)

lemma visited_facts:
  "\<exists>rest. es = visited p es @ rest"
  "list_all (\<lambda>e. p (h_key e) (clientData e)) es \<Longrightarrow> visited p es = es"
  "\<not> list_all (\<lambda>e. p (h_key e) (clientData e)) es \<Longrightarrow>
     visited p es \<noteq> [] \<and> \<not> p (h_key (last (visited p es))) (clientData (last (visited p es)))"
  by (induction es) auto

lemma set_values_spec:
  assumes "ht_inv tbl" "set es \<subseteq> set (all_entries tbl)" "distinct (map h_addr es)"
  shows "ht_inv (set_values tbl (map (\<lambda>e. (h_addr e, f e)) es)) \<and>
    ht_map (set_values tbl (map (\<lambda>e. (h_addr e, f e)) es)) = (ht_map tbl)(map h_key es [\<mapsto>] map f es) \<and>
    length (all_entries (set_values tbl (map (\<lambda>e. (h_addr e, f e)) es))) = length (all_entries tbl)"
  using assms
proof (induction es arbitrary: tbl)
  case (Cons e es)
  let ?t = "SetHashValue tbl (h_addr e) (f e)"
  have e: "e \<in> set (all_entries tbl)" using Cons.prems(2) by simp
  note S = SetHashValue_spec [OF Cons.prems(1) e, of "f e"]
  have "set es \<subseteq> set (all_entries ?t)"
  proof
    fix x assume x: "x \<in> set es"
    then have "h_addr x \<noteq> h_addr e"
      using Cons.prems(3) by (metis distinct.simps(2) image_eqI list.simps(9) set_map)
    moreover have "x \<in> set (all_entries tbl)" using x Cons.prems(2) by auto
    ultimately show "x \<in> set (all_entries ?t)" by (auto simp: all_entries_set image_iff)
  qed
  moreover have "distinct (map h_addr es)" using Cons.prems(3) by simp
  ultimately show ?case
    using Cons.IH [OF S(1), unfolded S(2,4)]
    by (simp only: set_values_def list.map foldl_Cons prod.case map_upds_Cons)
qed (simp add: set_values_def)

subsection \<open>Freeing values\<close>

lemma iterate_list_freeup:
  "m_del_proc hm \<Longrightarrow> iterate_list (s_freeup_proc hm) es freed ret =
     (map (\<lambda>e. (h_addr e, clientData e)) es, freed @ filter (\<lambda>v. v \<noteq> 0) (map clientData es),
      es \<noteq> [] \<or> ret)"
  "\<not> m_del_proc hm \<Longrightarrow> fst (snd (iterate_list (s_freeup_proc hm) es freed ret)) = freed"
  by (induction es arbitrary: freed ret) (simp_all add: s_freeup_proc_def)

text \<open>The values of the map that are not NULL, in the order of the table.\<close>

definition live_values :: "hashmap \<Rightarrow> nat list" where
  "live_values hm = filter (\<lambda>v. v \<noteq> 0) (map clientData (all_entries (m_hashtable hm)))"

lemma s_clean_hm_spec:
  assumes "ht_inv (m_hashtable hm)"
  shows "s_clean_hm hm fv = hm\<lparr>m_hashtable := zero_table, m_n_entries := 0,
    m_freed := m_freed hm @ (if fv \<and> m_del_proc hm then live_values hm else [])\<rparr>"
  using iterate_list_freeup [of hm "all_entries (m_hashtable hm)" "m_freed hm" False]
  by (cases "m_del_proc hm") (auto simp: s_clean_hm_def s_freeup_all_values_hm_def
      s_do_iterate_list [OF assms] DeleteHashTable_def live_values_def Let_def split: prod.splits)

lemma mset_live_values:
  assumes "ht_inv (m_hashtable hm)"
  shows "mset (live_values hm) =
    image_mset (\<lambda>k. the (hm_map hm k)) (mset_set {k. hm_map hm k \<noteq> None \<and> hm_map hm k \<noteq> Some 0})"
proof -
  let ?t = "m_hashtable hm"
  let ?es = "filter (\<lambda>e. clientData e \<noteq> 0) (all_entries ?t)"
  have d: "distinct (map h_key (all_entries ?t))" using assms by (simp add: ht_inv_def)
  have m: "hm_map hm (h_key e) = Some (clientData e)" if "e \<in> set (all_entries ?t)" for e
    using that by (auto simp: hm_map_def ht_map_iff [OF d])
  have "{k. hm_map hm k \<noteq> None \<and> hm_map hm k \<noteq> Some 0} = h_key ` set ?es"
  proof (rule set_eqI)
    fix k
    show "k \<in> {k. hm_map hm k \<noteq> None \<and> hm_map hm k \<noteq> Some 0} \<longleftrightarrow> k \<in> h_key ` set ?es"
    proof (cases "hm_map hm k")
      case None
      then have "k \<notin> h_key ` set (all_entries ?t)" by (simp add: hm_map_def ht_map_None)
      then show ?thesis using None by auto
    next
      case (Some v)
      then obtain e where e: "e \<in> set (all_entries ?t)" "h_key e = k" "clientData e = v"
        by (auto simp: hm_map_def ht_map_iff [OF d])
      have "clientData x = v" if "x \<in> set (all_entries ?t)" "h_key x = k" for x
        using m [OF that(1)] that(2) Some by simp
      then have "k \<in> h_key ` set ?es \<longleftrightarrow> v \<noteq> 0"
        using e by (auto intro!: image_eqI [of _ _ e])
      moreover have "k \<in> {k. hm_map hm k \<noteq> None \<and> hm_map hm k \<noteq> Some 0} \<longleftrightarrow> v \<noteq> 0" using Some by simp
      ultimately show ?thesis by (simp only:)
    qed
  qed
  moreover have "distinct (map h_key ?es)" using d by (simp add: distinct_map_filter)
  ultimately have "mset_set {k. hm_map hm k \<noteq> None \<and> hm_map hm k \<noteq> Some 0} = mset (map h_key ?es)"
    by (simp only: mset_set_set flip: set_map)
  then have "image_mset (\<lambda>k. the (hm_map hm k)) (mset_set {k. hm_map hm k \<noteq> None \<and> hm_map hm k \<noteq> Some 0}) =
      mset (map (\<lambda>e. the (hm_map hm (h_key e))) ?es)"
    by (simp add: image_mset.compositionality comp_def)
  also have "map (\<lambda>e. the (hm_map hm (h_key e))) ?es = map clientData ?es"
    using m by (intro map_cong) auto
  also have "map clientData ?es = live_values hm" by (simp add: live_values_def filter_map comp_def)
  finally show ?thesis by simp
qed


subsection \<open>Properties\<close>

text \<open>A sequence of calls on one map, with the memory allocator \<open>alloc\<close>.\<close>

fun hm_run ::
  "(nat set \<Rightarrow> nat option) \<Rightarrow> (hash_key, nat) map_op list \<Rightarrow> hashmap \<Rightarrow>
   (hashmap \<times> (gallus_result_t \<times> nat) list) option" where
  "hm_run alloc [] hm = Some (hm, [])"
| "hm_run alloc (M_find k # ops) hm =
    (case hm_find hm k of None \<Rightarrow> None | Some r \<Rightarrow> map_option (\<lambda>(hm, rs). (hm, r # rs)) (hm_run alloc ops hm))"
| "hm_run alloc (M_add k v ow # ops) hm =
    (case hm_add alloc hm k v ow of
       None \<Rightarrow> None | Some (hm, r) \<Rightarrow> map_option (\<lambda>(hm, rs). (hm, r # rs)) (hm_run alloc ops hm))"
| "hm_run alloc (M_del k # ops) hm =
    (case hm_del hm k of
       None \<Rightarrow> None | Some (hm, r) \<Rightarrow> map_option (\<lambda>(hm, rs). (hm, r # rs)) (hm_run alloc ops hm))"

lemma hm_run_run:
  assumes "alloc_ok alloc"
  shows "hm_run alloc ops hm = key_map.run hm_find (hm_add alloc) hm_del ops hm"
proof (induction ops arbitrary: hm)
  case Nil
  show ?case by (simp add: key_map.run.simps [OF hm_key_map [OF assms]])
next
  case (Cons q ops)
  then show ?case
    by (cases q) (simp_all add: key_map.run.simps [OF hm_key_map [OF assms]] split: option.split prod.split)
qed

lemma hm_created:
  assumes "gallus_hashmap_create mem lk retptr t proc = (Some (Some hm), GALLUS_RESULT_OK)" "retptr \<noteq> Some (Some hm)"
  shows "hm_inv hm" "hm_map hm = Map.empty" "hm_used hm = 0" "m_hashtable hm = InitHashTable t"
    "m_del_proc hm = proc" "m_freed hm = []"
proof -
  have hm: "hm = \<lparr>m_type = t, m_hashtable = InitHashTable t, m_del_proc = proc, m_n_entries = 0,
      m_is_operational = True, m_freed = []\<rparr>"
    using assms by (auto simp: gallus_hashmap_create_def split: if_splits)
  have "all_entries (InitHashTable t) = []" by (simp add: all_entries_def InitHashTable_def Let_def)
  then show "hm_inv hm" "hm_map hm = Map.empty" "hm_used hm = 0" "m_hashtable hm = InitHashTable t"
    "m_del_proc hm = proc" "m_freed hm = []"
    using InitHashTable_inv by (simp_all add: hm hm_inv_def hm_map_def hm_used_def)
qed

lemma hm_size: "hm_inv hm \<Longrightarrow> gallus_hashmap_size (Some hm) = int (card (dom (hm_map hm)))"
proof -
  assume "hm_inv hm"
  then have i: "m_is_operational hm" "m_n_entries hm = int (length (all_entries (m_hashtable hm)))"
    "distinct (map h_key (all_entries (m_hashtable hm)))"
    by (simp_all add: hm_inv_def ht_inv_def)
  have "k \<in> dom (hm_map hm) \<longleftrightarrow> k \<in> set (map h_key (all_entries (m_hashtable hm)))" for k
    using ht_map_None [of "m_hashtable hm" k] by (auto simp: hm_map_def)
  then have "dom (hm_map hm) = set (map h_key (all_entries (m_hashtable hm)))" by blast
  then have "card (dom (hm_map hm)) = length (all_entries (m_hashtable hm))"
    using i(3) by (metis distinct_card length_map)
  then show ?thesis using i by (simp add: gallus_hashmap_size_def)
qed

text \<open>
  C5. The hash map is a finite map: over any sequence of finds, adds and deletes on a created map,
  with keys of its kind and an allocator that returns unused addresses, every call returns what it
  returns on the abstract map, through all rebuilds of the table, and the size is the number of keys.
\<close>

theorem hashmap_refines_map:
  assumes "alloc_ok alloc"
    and "gallus_hashmap_create True GALLUS_RESULT_OK (Some None) t proc = (Some (Some hm), GALLUS_RESULT_OK)"
    and "\<forall>q\<in>set ops. key_fits (InitHashTable t) (op_key q)" "length ops \<le> 3221225471"
  shows "\<exists>hm'. hm_run alloc ops hm = Some (hm', snd (spec_run ops 0 Map.empty)) \<and>
    hm_map hm' = fst (spec_run ops 0 Map.empty) \<and>
    gallus_hashmap_size (Some hm') = int (card (dom (fst (spec_run ops 0 (Map.empty :: hash_key \<Rightarrow> nat option)))))"
proof -
  note C = hm_created [OF assms(2)]
  have ok: "\<forall>q\<in>set ops. hm_ok hm (op_key q)" using assms(3) C(4) by (simp add: hm_ok_def)
  have room: "hm_used hm + length ops \<le> 3221225471" using C(3) assms(4) by simp
  obtain hm' where r: "hm_run alloc ops hm = Some (hm', snd (spec_run ops 0 (hm_map hm)))"
      "hm_inv hm'" "hm_map hm' = fst (spec_run ops 0 (hm_map hm))"
    using key_map.run_refines [OF hm_key_map [OF assms(1)] C(1) ok room]
    unfolding hm_run_run [OF assms(1)] by blast
  then show ?thesis using hm_size [OF r(2)] C(2) by (intro exI [of _ hm']) simp
qed

theorem hashmap_refines_map_witness:
  "\<exists>hm hm'. gallus_hashmap_create True GALLUS_RESULT_OK (Some None) 8 True = (Some (Some hm), GALLUS_RESULT_OK) \<and>
     hm_run first_free [M_add (Key_word 5) 7 False, M_add (Key_word 5) 8 False, M_del (Key_word 5), M_find (Key_word 5)] hm =
       Some (hm', [(GALLUS_RESULT_OK, 0), (GALLUS_RESULT_ALREADY_EXISTS, 7), (GALLUS_RESULT_OK, 7),
                   (GALLUS_RESULT_NOT_FOUND, 0)]) \<and>
     gallus_hashmap_size (Some hm') = 0"
proof -
  obtain hm where c: "gallus_hashmap_create True GALLUS_RESULT_OK (Some None) 8 True = (Some (Some hm), GALLUS_RESULT_OK)"
    by (simp add: gallus_hashmap_create_def)
  let ?ops = "[M_add (Key_word 5) 7 False, M_add (Key_word 5) 8 False, M_del (Key_word 5), M_find (Key_word 5)]"
  have "procs (InitHashTable 8) = One_word_procs"
    by (simp add: InitHashTable_def HASH_STRING_KEYS_def HASH_ONE_WORD_KEYS_def)
  then have fits: "\<forall>q\<in>set ?ops. key_fits (InitHashTable 8) (op_key q)" by simp
  show ?thesis
    using hashmap_refines_map [OF first_free_ok c fits] c
    by (auto simp: spec_add_def spec_del_def spec_find_def simp del: hm_run.simps)
qed


lemma dom_hm_map: "dom (hm_map hm) = h_key ` set (all_entries (m_hashtable hm))"
proof (rule set_eqI)
  fix k
  have "hm_map hm k = None \<longleftrightarrow> k \<notin> h_key ` set (all_entries (m_hashtable hm))"
    unfolding hm_map_def by (rule ht_map_None)
  then show "k \<in> dom (hm_map hm) \<longleftrightarrow> k \<in> h_key ` set (all_entries (m_hashtable hm))"
    by (simp only: domIff) blast
qed

lemma hm_map_entry:
  assumes "ht_inv (m_hashtable hm)" "e \<in> set (all_entries (m_hashtable hm))"
  shows "hm_map hm (h_key e) = Some (clientData e)"
  using assms by (auto simp: hm_map_def ht_inv_def ht_map_iff)

lemma upd_if:
  assumes "a \<notin> K" "m a = Some b"
  shows "(if k \<in> K then map_option (g k) ((m(a \<mapsto> g a b)) k) else (m(a \<mapsto> g a b)) k) =
    (if k \<in> insert a K then map_option (g k) (m k) else m k)"
  using assms by (cases "k = a") simp_all

lemma map_upds_visited:
  assumes "distinct (map h_key es)" "\<forall>e\<in>set es. m (h_key e) = Some (clientData e)"
  shows "m(map h_key es [\<mapsto>] map (\<lambda>e. g (h_key e) (clientData e)) es) =
    (\<lambda>k. if k \<in> h_key ` set es then map_option (g k) (m k) else m k)"
  using assms
proof (induction es arbitrary: m)
  case (Cons e es)
  let ?m = "m(h_key e \<mapsto> g (h_key e) (clientData e))"
  have me: "m (h_key e) = Some (clientData e)" using Cons.prems(2) by simp
  have ne: "h_key x \<noteq> h_key e" if "x \<in> set es" for x
    using that Cons.prems(1) by (metis distinct.simps(2) image_eqI list.simps(9) set_map)
  have "?m(map h_key es [\<mapsto>] map (\<lambda>e. g (h_key e) (clientData e)) es) =
      (\<lambda>k. if k \<in> h_key ` set es then map_option (g k) (?m k) else ?m k)"
    using Cons.prems ne by (intro Cons.IH) simp_all
  moreover have "(\<lambda>k. if k \<in> h_key ` set es then map_option (g k) (?m k) else ?m k) =
      (\<lambda>k. if k \<in> h_key ` set (e # es) then map_option (g k) (m k) else m k)"
  proof (rule ext)
    fix k
    have "h_key e \<notin> h_key ` set es" using Cons.prems(1) by simp
    from upd_if [where a = "h_key e" and m = m and b = "clientData e" and k = k and g = g, OF this me]
    show "(if k \<in> h_key ` set es then map_option (g k) (?m k) else ?m k) =
        (if k \<in> h_key ` set (e # es) then map_option (g k) (m k) else m k)"
      by (simp only: list.set image_insert)
  qed
  ultimately show ?case by (simp only: list.map map_upds_Cons)
qed simp

text \<open>
  C6. An iteration visits entries of the map, each key at most once with its value, up to and
  including the first entry whose procedure call returns false; only the visited entries get the
  values the procedure set. The result is OK exactly when the map is not empty and all of it was
  visited without a stop, and an empty map is reported as halted.
\<close>

theorem hashmap_iterate:
  assumes "hm_inv hm"
    and "gallus_hashmap_iterate (Some hm) (Some (visit_proc p g)) [] = (Some hm', seen, r)"
  shows "distinct (map fst seen) \<and> (\<forall>(k, v)\<in>set seen. hm_map hm k = Some v) \<and> hm_inv hm' \<and>
    hm_map hm' = (\<lambda>k. if k \<in> fst ` set seen then map_option (g k) (hm_map hm k) else hm_map hm k) \<and>
    (if hm_map hm \<noteq> Map.empty \<and> (\<forall>k v. hm_map hm k = Some v \<longrightarrow> p k v)
     then r = GALLUS_RESULT_OK \<and> fst ` set seen = dom (hm_map hm)
     else r = GALLUS_RESULT_ITERATION_HALTED \<and>
       (seen = [] \<and> hm_map hm = Map.empty \<or> seen \<noteq> [] \<and> \<not> p (fst (last seen)) (snd (last seen))))"
proof -
  let ?t = "m_hashtable hm" and ?P = "\<lambda>e. p (h_key e) (clientData e)"
  let ?vis = "visited p (all_entries ?t)"
  have inv: "ht_inv ?t" "m_is_operational hm" using assms(1) by (simp_all add: hm_inv_def)
  have d: "distinct (map h_key (all_entries ?t))" "distinct (map h_addr (all_entries ?t))"
    using inv(1) by (simp_all add: ht_inv_def)
  obtain rest where split: "all_entries ?t = ?vis @ rest" using visited_facts(1) by blast
  have dv: "distinct (map h_key ?vis)" "distinct (map h_addr ?vis)" "set ?vis \<subseteq> set (all_entries ?t)"
    using d split by (metis distinct_append map_append, metis distinct_append map_append, metis Un_upper1 set_append)
  note m = hm_map_entry [OF inv(1)]
  note V = set_values_spec [OF inv(1) dv(3,2), of "\<lambda>e. g (h_key e) (clientData e)"]
  have run: "hm' = hm\<lparr>m_hashtable := set_values ?t (map (\<lambda>e. (h_addr e, g (h_key e) (clientData e))) ?vis)\<rparr>"
    "seen = map (\<lambda>e. (h_key e, clientData e)) ?vis"
    "r = (if all_entries ?t \<noteq> [] \<and> list_all ?P (all_entries ?t) then GALLUS_RESULT_OK
          else GALLUS_RESULT_ITERATION_HALTED)"
    using assms(2) inv(2)
    by (auto simp: gallus_hashmap_iterate_def s_iterate_def s_do_iterate_list [OF inv(1)] iterate_list_visit
        split: if_splits)
  have fs: "map fst seen = map h_key ?vis" "fst ` set seen = h_key ` set ?vis"
    by (simp_all add: run(2) comp_def image_image)
  have "hm_inv hm'" using V assms(1) by (simp add: run(1) hm_inv_def)
  moreover have "hm_map hm' = (\<lambda>k. if k \<in> fst ` set seen then map_option (g k) (hm_map hm k) else hm_map hm k)"
    using V map_upds_visited [OF dv(1), of "hm_map hm" g] m dv(3)
    unfolding fs(2) by (simp add: run(1) hm_map_def subset_iff)
  moreover have "\<forall>(k, v)\<in>set seen. hm_map hm k = Some v" using m dv(3) by (auto simp: run(2))
  moreover have "hm_map hm = Map.empty \<longleftrightarrow> all_entries ?t = []"
    using dom_hm_map [of hm] by (metis dom_eq_empty_conv image_is_empty set_empty)
  moreover have "(\<forall>k v. hm_map hm k = Some v \<longrightarrow> p k v) \<longleftrightarrow> list_all ?P (all_entries ?t)"
    using m by (auto simp: list_all_iff hm_map_def ht_map_iff [OF d(1)])
  moreover have "fst ` set seen = dom (hm_map hm)" if "list_all ?P (all_entries ?t)"
    using visited_facts(2) [OF that] fs(2) dom_hm_map [of hm] by simp
  moreover have "seen \<noteq> [] \<and> \<not> p (fst (last seen)) (snd (last seen))" if "\<not> list_all ?P (all_entries ?t)"
    using visited_facts(3) [OF that] by (simp add: run(2) last_map)
  moreover have "seen = []" if "all_entries ?t = []" using that by (simp add: run(2))
  ultimately show ?thesis using run(3) fs(1) dv(1) by (intro conjI) auto
qed


lemma one_entry_map:
  "\<exists>hm. hm_inv hm \<and> hm_map hm = [Key_word 5 \<mapsto> 7] \<and> m_del_proc hm \<and> m_freed hm = []"
proof -
  let ?hm = "\<lparr>m_type = 8, m_hashtable = InitHashTable 8, m_del_proc = True, m_n_entries = 0,
      m_is_operational = True, m_freed = []\<rparr>"
  have "gallus_hashmap_create True GALLUS_RESULT_OK (Some None) 8 True = (Some (Some ?hm), GALLUS_RESULT_OK)"
    by (simp add: gallus_hashmap_create_def)
  note C = hm_created [OF this]
  have p: "procs (InitHashTable 8) = One_word_procs"
    by (simp add: InitHashTable_def HASH_STRING_KEYS_def HASH_ONE_WORD_KEYS_def)
  have ok: "hm_ok ?hm (Key_word 5)" "hm_used ?hm < 3221225471" "1 \<notin> ht_addrs (m_hashtable ?hm)"
    using C(3) p InitHashTable_inv(3) [of 8] by (simp_all add: hm_ok_def)
  have inv: "hm_inv ?hm" "hm_map ?hm = Map.empty" using C by simp_all
  obtain hm' where s: "s_add (Some 1) True ?hm (Key_word 5) 7 False = Some (hm', GALLUS_RESULT_OK, 0)" "hm_inv hm'"
      "hm_map hm' = [Key_word 5 \<mapsto> 7]"
    using s_add_law [OF inv(1) ok, of 7 False] inv(2) by (auto simp: spec_add_def)
  moreover have "m_del_proc hm' \<and> m_freed hm' = []"
    using s(1) by (auto simp: s_add_def s_create_entry_def split: option.splits if_splits)
  ultimately show ?thesis by blast
qed

theorem hashmap_iterate_witness:
  "\<exists>hm hm' seen. hm_map hm = [Key_word 5 \<mapsto> 7] \<and>
     gallus_hashmap_iterate (Some hm) (Some (visit_proc (\<lambda>k v. v < 10) (\<lambda>k v. v + 1))) [] =
       (Some hm', seen, GALLUS_RESULT_OK) \<and>
     hm_map hm' = [Key_word 5 \<mapsto> 8]"
proof -
  obtain hm where hm: "hm_inv hm" "hm_map hm = [Key_word 5 \<mapsto> 7]" using one_entry_map by blast
  obtain hp seen r where it: "gallus_hashmap_iterate (Some hm) (Some (visit_proc (\<lambda>k v. v < 10) (\<lambda>k v. v + 1))) [] =
      (hp, seen, r)" by (metis prod_cases3)
  then obtain hm' where hp: "hp = Some hm'" by (auto simp: gallus_hashmap_iterate_def split: prod.splits)
  note T = hashmap_iterate [OF hm(1) it [unfolded hp]]
  have "hm_map hm \<noteq> Map.empty" "\<forall>k v. hm_map hm k = Some v \<longrightarrow> v < 10" using hm(2) by auto
  with T have "r = GALLUS_RESULT_OK" "fst ` set seen = {Key_word 5}" using hm(2) by simp_all
  moreover from this T have "hm_map hm' = [Key_word 5 \<mapsto> 8]" using hm(2) by (auto simp: fun_eq_iff)
  ultimately show ?thesis using hm(2) it hp by auto
qed

text \<open>
  C9. Clearing, shutting down or destroying a map with \<open>free_values\<close> passes the value of every key
  that is not NULL to the free-up procedure, exactly once per key. A cleared map is an empty map of the
  same kind; a map that was shut down refuses every call.
\<close>

theorem hashmap_release_each_once:
  assumes "hm_inv hm" "m_del_proc hm"
    and "gallus_hashmap_clear (Some hm) True = (Some cleared, r)"
    and "gallus_hashmap_shutdown (Some hm) True = Some down"
    and "gallus_hashmap_destroy (Some hm) True = (gone, freed)"
  defines "vals \<equiv> image_mset (\<lambda>k. the (hm_map hm k)) (mset_set {k. hm_map hm k \<noteq> None \<and> hm_map hm k \<noteq> Some 0})"
  shows "r = GALLUS_RESULT_OK \<and> hm_inv cleared \<and> hm_map cleared = Map.empty \<and> gone = None \<and>
    mset (drop (length (m_freed hm)) (m_freed cleared)) = vals \<and>
    mset (drop (length (m_freed hm)) (m_freed down)) = vals \<and>
    mset (drop (length (m_freed hm)) freed) = vals \<and>
    gallus_hashmap_find (Some down) key True = Some (GALLUS_RESULT_NOT_OPERATIONAL, Some 0) \<and>
    gallus_hashmap_add mem remem (Some down) key (Some v) ow =
      Some (Some down, GALLUS_RESULT_NOT_OPERATIONAL, Some v) \<and>
    gallus_hashmap_delete (Some down) key fv = Some (Some down, GALLUS_RESULT_NOT_OPERATIONAL, Some 0) \<and>
    gallus_hashmap_size (Some down) = GALLUS_RESULT_NOT_OPERATIONAL"
proof -
  let ?hm = "hm\<lparr>m_is_operational := False\<rparr>"
  have inv: "ht_inv (m_hashtable ?hm)" "m_is_operational hm" using assms(1) by (simp_all add: hm_inv_def)
  have lv: "live_values ?hm = live_values hm" "mset (live_values hm) = vals"
    using mset_live_values [of hm] inv by (simp_all add: live_values_def vals_def)
  note S = s_clean_hm_spec [OF inv(1), of True]
  have cl: "cleared = ?hm\<lparr>m_hashtable := InitHashTable (m_type hm), m_n_entries := 0,
      m_freed := m_freed hm @ live_values hm, m_is_operational := True\<rparr>" "r = GALLUS_RESULT_OK"
    using assms(2,3) inv(2) S lv(1) by (auto simp: gallus_hashmap_clear_def s_clear_def s_reinit_def Let_def)
  have dn: "down = ?hm\<lparr>m_hashtable := zero_table, m_n_entries := 0, m_freed := m_freed hm @ live_values hm\<rparr>"
      "gone = None" "freed = m_freed hm @ live_values hm"
    using assms(2,4,5) inv(2) S lv(1) by (auto simp: gallus_hashmap_shutdown_def gallus_hashmap_destroy_def)
  have "all_entries (InitHashTable (m_type hm)) = []"
    by (simp add: all_entries_def InitHashTable_def Let_def)
  then have "hm_inv cleared" "hm_map cleared = Map.empty"
    using InitHashTable_inv by (simp_all add: cl hm_inv_def hm_map_def)
  then show ?thesis using cl dn lv(2)
    by (simp add: gallus_hashmap_find_def s_find_def gallus_hashmap_add_def s_add_def gallus_hashmap_delete_def
        s_delete_hm_def gallus_hashmap_size_def)
qed

theorem hashmap_release_each_once_witness:
  "\<exists>hm down. hm_map hm = [Key_word 5 \<mapsto> 7] \<and> gallus_hashmap_shutdown (Some hm) True = Some down \<and>
     m_freed down = [7] \<and> gallus_hashmap_size (Some down) = GALLUS_RESULT_NOT_OPERATIONAL"
proof -
  obtain hm where hm: "hm_inv hm" "hm_map hm = [Key_word 5 \<mapsto> 7]" "m_del_proc hm" "m_freed hm = []"
    using one_entry_map by blast
  obtain cleared r where c: "gallus_hashmap_clear (Some hm) True = (Some cleared, r)"
    by (cases "s_clear hm True") (simp add: gallus_hashmap_clear_def)
  obtain down where d: "gallus_hashmap_shutdown (Some hm) True = Some down"
    by (cases "m_is_operational hm") (simp_all add: gallus_hashmap_shutdown_def)
  obtain gone freed where g: "gallus_hashmap_destroy (Some hm) True = (gone, freed)" by fastforce
  have "{k. hm_map hm k \<noteq> None \<and> hm_map hm k \<noteq> Some 0} = {Key_word 5}" using hm(2) by auto
  with hashmap_release_each_once [OF hm(1,3) c d g] have
    "mset (m_freed down) = {#7#}" "gallus_hashmap_size (Some down) = GALLUS_RESULT_NOT_OPERATIONAL"
    using hm(2,4) by simp_all
  then show ?thesis using hm(2) d by auto
qed

text \<open>
  When the memory for a new entry is not available an add returns that, and leaves the map as it
  was.
\<close>

theorem hashmap_add_no_memory:
  assumes "hm_inv hm" "hm_ok hm key" "hm_map hm key = None"
  shows "gallus_hashmap_add None remem (Some hm) key (Some v) ow = Some (Some hm, GALLUS_RESULT_NO_MEMORY, Some 0)"
proof -
  have i: "ht_inv (m_hashtable hm)" "key_fits (m_hashtable hm) key" "m_is_operational hm"
    "ht_map (m_hashtable hm) key = None"
    using assms by (simp_all add: hm_inv_def hm_ok_def hm_map_def)
  have "FindHashEntry (m_hashtable hm) key = Some None"
    by (cases rule: FindHashEntry_spec [OF i(1,2)]) (use i(4) in simp_all)
  then show ?thesis using CreateHashEntry_no_memory [OF i(1,2,4)] i(3)
    by (simp add: gallus_hashmap_add_def s_add_def s_find_entry_def s_create_entry_def)
qed

theorem hashmap_add_no_memory_witness:
  "\<exists>hm. gallus_hashmap_create True GALLUS_RESULT_OK (Some None) 8 True = (Some (Some hm), GALLUS_RESULT_OK) \<and>
     gallus_hashmap_add None True (Some hm) (Key_word 5) (Some 7) False = Some (Some hm, GALLUS_RESULT_NO_MEMORY, Some 0)"
proof -
  obtain hm where c: "gallus_hashmap_create True GALLUS_RESULT_OK (Some None) 8 True = (Some (Some hm), GALLUS_RESULT_OK)"
    by (simp add: gallus_hashmap_create_def)
  note C = hm_created [OF c]
  have p: "procs (InitHashTable 8) = One_word_procs"
    by (simp add: InitHashTable_def HASH_STRING_KEYS_def HASH_ONE_WORD_KEYS_def)
  have "hm_ok hm (Key_word 5)" "hm_map hm (Key_word 5) = None" using C p by (simp_all add: hm_ok_def)
  then show ?thesis using hashmap_add_no_memory [of hm "Key_word 5" True 7 False] C(1) c by simp
qed

text \<open>
  The table can not grow beyond \<open>2 ^ 30\<close> buckets: the next rebuild multiplies the 32-bit count to 0,
  and linking an entry leaves the empty bucket array.
\<close>

lemma hash_rebuild_limit:
  assumes "ht_level tbl 14" "all_entries tbl \<noteq> []"
  shows "RebuildTable mem tbl = None"
proof -
  have "numBuckets tbl * 4 = 0" using assms(1) by (simp add: ht_level_def)
  then show ?thesis using assms(2) by (cases "all_entries tbl") (simp_all add: RebuildTable_def Let_def)
qed

end
