(* ===== verification/Module.thy ===== *)
theory Module
  imports GState
begin

text \<open>
  The module manager (\<^verbatim>\<open>framework/lib/module.c\<close>): registration of the modules of a process and
  their life cycle, driven by calls that hold the manager's lock.

  A module is named by its index. The procedures of a module and the operations on its thread are
  foreign code: every call of them is appended to \<open>m_calls\<close>, with what it returned, and what the
  next one returns is a function \<open>env\<close> of the calls made so far and the call. Its boolean answer is
  whether an initialisation set a thread, respectively whether a waited-for thread had been cancelled.
  The array \<^verbatim>\<open>s_modules\<close> is the list of its first \<^verbatim>\<open>s_n_modules\<close> elements.
\<close>

definition MAX_MODULES :: nat where
  "MAX_MODULES = 1024"

definition MAX_MODULE_NAME :: nat where
  "MAX_MODULE_NAME = 64"

datatype s_module_global_state =
    MODULE_GLOBAL_STATE_UNKNOWN
  | MODULE_GLOBAL_STATE_INITIALIZING
  | MODULE_GLOBAL_STATE_INITIALIZED
  | MODULE_GLOBAL_STATE_STARTING
  | MODULE_GLOBAL_STATE_STARTED
  | MODULE_GLOBAL_STATE_SHUTTINGDOWN
  | MODULE_GLOBAL_STATE_STOPPING
  | MODULE_GLOBAL_STATE_WAITING
  | MODULE_GLOBAL_STATE_SHUTDOWN
  | MODULE_GLOBAL_STATE_FINALIZING
  | MODULE_GLOBAL_STATE_FINALIZED

datatype a_module_state =
    MODULE_STATE_UNKNOWN
  | MODULE_STATE_REGISTERED
  | MODULE_STATE_INITIALIZED
  | MODULE_STATE_STARTED
  | MODULE_STATE_SHUTDOWN
  | MODULE_STATE_CANCELLING
  | MODULE_STATE_STOPPED
  | MODULE_STATE_FINALIZED

text \<open>Of the procedure pointers and the thread pointer only whether they are NULL matters here.\<close>

record a_module =
  m_name :: string
  m_init_proc :: bool
  m_thdptr :: bool
  m_start_proc :: bool
  m_shutdown_proc :: bool
  m_stop_proc :: bool
  m_finalize_proc :: bool
  m_usage_proc :: bool
  m_status :: a_module_state

datatype proc_call =
    Call_init nat
  | Call_start nat
  | Call_shutdown nat shutdown_grace_level
  | Call_stop nat
  | Call_cancel nat
  | Call_wait nat gallus_chrono_t
  | Call_finalize nat
  | Call_usage nat

type_synonym call_record = "proc_call \<times> gallus_result_t \<times> bool"
type_synonym module_env = "call_record list \<Rightarrow> proc_call \<Rightarrow> gallus_result_t \<times> bool"

record module_manager =
  s_gstate :: s_module_global_state
  s_modules :: "a_module list"
  s_n_finalized_modules :: nat
  s_is_unloading :: bool
  s_is_inited :: bool
  s_is_mods_inited :: bool
  s_is_exit_handler_called :: nat
  m_calls :: "call_record list"

definition s_once_proc :: module_manager where
  "s_once_proc =
    \<lparr>s_gstate = MODULE_GLOBAL_STATE_UNKNOWN, s_modules = [], s_n_finalized_modules = 0,
     s_is_unloading = False, s_is_inited = True, s_is_mods_inited = False,
     s_is_exit_handler_called = 0, m_calls = []\<rparr>"

definition s_n_modules :: "module_manager \<Rightarrow> nat" where
  "s_n_modules mm = length (s_modules mm)"

definition call :: "module_env \<Rightarrow> proc_call \<Rightarrow> module_manager \<Rightarrow> module_manager \<times> gallus_result_t \<times> bool" where
  "call env c mm = (let (r, b) = env (m_calls mm) c in (mm\<lparr>m_calls := m_calls mm @ [(c, r, b)]\<rparr>, r, b))"

definition set_module :: "nat \<Rightarrow> (a_module \<Rightarrow> a_module) \<Rightarrow> module_manager \<Rightarrow> module_manager" where
  "set_module i f mm = mm\<lparr>s_modules := (s_modules mm)[i := f (s_modules mm ! i)]\<rparr>"

definition set_status :: "nat \<Rightarrow> a_module_state \<Rightarrow> module_manager \<Rightarrow> module_manager" where
  "set_status i st = set_module i (\<lambda>m. m\<lparr>m_status := st\<rparr>)"

subsection \<open>Registration\<close>

text \<open>
  \<open>retmptr\<close> tells whether the caller wants the module; the loop only returns a hit in that case.
\<close>

fun find_from :: "string \<Rightarrow> bool \<Rightarrow> nat \<Rightarrow> a_module list \<Rightarrow> nat option" where
  "find_from name retmptr i [] = None"
| "find_from name retmptr i (m # ms) =
    (if m_name m = name \<and> retmptr then Some i else find_from name retmptr (i + 1) ms)"

definition s_find_module :: "module_manager \<Rightarrow> string option \<Rightarrow> bool \<Rightarrow> gallus_result_t" where
  "s_find_module mm name retmptr =
    (case name of
       Some s \<Rightarrow>
         if is_valid_string name then
           (case find_from s retmptr 0 (s_modules mm) of
              Some i \<Rightarrow> int i | None \<Rightarrow> GALLUS_RESULT_NOT_FOUND)
         else GALLUS_RESULT_INVALID_ARGS
     | None \<Rightarrow> GALLUS_RESULT_INVALID_ARGS)"

text \<open>The procedures are given by which of the pointers are not NULL.\<close>

record module_procs =
  init_proc :: bool
  start_proc :: bool
  shutdown_proc :: bool
  stop_proc :: bool
  finalize_proc :: bool
  usage_proc :: bool

definition s_register_module ::
  "module_manager \<Rightarrow> string option \<Rightarrow> module_procs \<Rightarrow> module_manager \<times> gallus_result_t" where
  "s_register_module mm name p =
    (if s_n_modules mm < MAX_MODULES then
       (if is_valid_string name \<and> init_proc p \<and> start_proc p \<and> shutdown_proc p \<and> finalize_proc p then
          (if s_find_module mm name False = GALLUS_RESULT_NOT_FOUND then
             (mm\<lparr>s_modules := s_modules mm @
                [\<lparr>m_name = take (MAX_MODULE_NAME - 1) (the name), m_init_proc = True, m_thdptr = False,
                  m_start_proc = True, m_shutdown_proc = True, m_stop_proc = stop_proc p,
                  m_finalize_proc = True, m_usage_proc = usage_proc p,
                  m_status = MODULE_STATE_REGISTERED\<rparr>]\<rparr>, GALLUS_RESULT_OK)
           else (mm, GALLUS_RESULT_ALREADY_EXISTS))
        else (mm, GALLUS_RESULT_INVALID_ARGS))
     else (mm, GALLUS_RESULT_NO_MEMORY))"

definition gallus_module_register ::
  "module_manager \<Rightarrow> string option \<Rightarrow> module_procs \<Rightarrow> module_manager \<times> gallus_result_t" where
  "gallus_module_register mm name p = s_register_module mm name p"

definition gallus_module_find :: "module_manager \<Rightarrow> string option \<Rightarrow> gallus_result_t" where
  "gallus_module_find mm name = s_find_module mm name False"

subsection \<open>One module\<close>

definition s_initialize_module :: "module_env \<Rightarrow> nat \<Rightarrow> module_manager \<Rightarrow> module_manager \<times> gallus_result_t" where
  "s_initialize_module env i mm =
    (let m = s_modules mm ! i in
     if m_init_proc m then
       (if m_status m = MODULE_STATE_REGISTERED then
          (let (mm, ret, thd) = call env (Call_init i) mm;
               mm = set_module i (\<lambda>m. m\<lparr>m_thdptr := thd\<rparr>) mm
           in (if ret = GALLUS_RESULT_OK then set_status i MODULE_STATE_INITIALIZED mm else mm, ret))
        else (mm, GALLUS_RESULT_INVALID_STATE_TRANSITION))
     else (mm, GALLUS_RESULT_INVALID_ARGS))"

definition s_start_module :: "module_env \<Rightarrow> nat \<Rightarrow> module_manager \<Rightarrow> module_manager \<times> gallus_result_t" where
  "s_start_module env i mm =
    (let m = s_modules mm ! i in
     if m_start_proc m then
       (if m_status m = MODULE_STATE_INITIALIZED then
          (let (mm, ret, _) = call env (Call_start i) mm
           in (if ret = GALLUS_RESULT_OK then set_status i MODULE_STATE_STARTED mm else mm, ret))
        else if m_status m = MODULE_STATE_STARTED then (mm, GALLUS_RESULT_OK)
        else (mm, GALLUS_RESULT_INVALID_STATE_TRANSITION))
     else (mm, GALLUS_RESULT_INVALID_ARGS))"

definition s_shutdown_module ::
  "module_env \<Rightarrow> shutdown_grace_level \<Rightarrow> nat \<Rightarrow> module_manager \<Rightarrow> module_manager \<times> gallus_result_t" where
  "s_shutdown_module env level i mm =
    (let m = s_modules mm ! i in
     if m_shutdown_proc m \<and> IS_VALID_SHUTDOWN level then
       (if m_status m = MODULE_STATE_STARTED then
          (let (mm, ret, _) = call env (Call_shutdown i level) mm
           in (if \<not> m_thdptr m then set_status i MODULE_STATE_SHUTDOWN mm else mm, ret))
        else if m_status m = MODULE_STATE_SHUTDOWN \<or> m_status m = MODULE_STATE_STOPPED
        then (mm, GALLUS_RESULT_OK)
        else (mm, GALLUS_RESULT_INVALID_STATE_TRANSITION))
     else (mm, GALLUS_RESULT_INVALID_ARGS))"

definition s_stop_module :: "module_env \<Rightarrow> nat \<Rightarrow> module_manager \<Rightarrow> module_manager \<times> gallus_result_t" where
  "s_stop_module env i mm =
    (let m = s_modules mm ! i in
     if m_status m = MODULE_STATE_STARTED then
       (if \<not> m_stop_proc m \<and> \<not> m_thdptr m then (mm, GALLUS_RESULT_OK)
        else
          (let (mm, ret, _) = call env (if m_stop_proc m then Call_stop i else Call_cancel i) mm
           in (if ret = GALLUS_RESULT_OK
               then set_status i (if \<not> m_thdptr m then MODULE_STATE_SHUTDOWN else MODULE_STATE_CANCELLING) mm
               else mm, ret)))
     else if m_status m = MODULE_STATE_CANCELLING \<or> m_status m = MODULE_STATE_SHUTDOWN \<or>
             m_status m = MODULE_STATE_STOPPED
     then (mm, GALLUS_RESULT_OK)
     else (mm, GALLUS_RESULT_INVALID_STATE_TRANSITION))"

definition s_wait_module ::
  "module_env \<Rightarrow> gallus_chrono_t \<Rightarrow> nat \<Rightarrow> module_manager \<Rightarrow> module_manager \<times> gallus_result_t" where
  "s_wait_module env nsec i mm =
    (let m = s_modules mm ! i in
     if (m_status m = MODULE_STATE_CANCELLING \<or> m_status m = MODULE_STATE_STARTED) \<and> m_thdptr m then
       (let (mm, ret, is_canceled) = call env (Call_wait i nsec) mm
        in (if ret = GALLUS_RESULT_OK
            then set_status i (if \<not> is_canceled then MODULE_STATE_SHUTDOWN else MODULE_STATE_STOPPED) mm
            else mm, ret))
     else if m_status m = MODULE_STATE_SHUTDOWN \<or> m_status m = MODULE_STATE_STOPPED
     then (mm, GALLUS_RESULT_OK)
     else (mm, GALLUS_RESULT_INVALID_STATE_TRANSITION))"

definition s_finalize_module :: "module_env \<Rightarrow> nat \<Rightarrow> module_manager \<Rightarrow> module_manager" where
  "s_finalize_module env i mm =
    (let m = s_modules mm ! i in
     if m_finalize_proc m \<and>
        (m_status m = MODULE_STATE_INITIALIZED \<or> m_status m = MODULE_STATE_SHUTDOWN \<or>
         m_status m = MODULE_STATE_STOPPED)
     then (let (mm, _, _) = call env (Call_finalize i) mm
           in mm\<lparr>s_n_finalized_modules := s_n_finalized_modules mm + 1\<rparr>)
     else mm)"

definition s_usage_module :: "module_env \<Rightarrow> nat \<Rightarrow> module_manager \<Rightarrow> module_manager" where
  "s_usage_module env i mm =
    (if m_usage_proc (s_modules mm ! i) then fst (call env (Call_usage i) mm) else mm)"

subsection \<open>All modules\<close>

text \<open>The loop that stops at the first failure.\<close>

fun until_failure ::
  "(nat \<Rightarrow> module_manager \<Rightarrow> module_manager \<times> gallus_result_t) \<Rightarrow> nat list \<Rightarrow> module_manager \<Rightarrow>
   module_manager \<times> gallus_result_t" where
  "until_failure f [] mm = (mm, GALLUS_RESULT_OK)"
| "until_failure f (i # is) mm =
    (let (mm, ret) = f i mm in if ret = GALLUS_RESULT_OK then until_failure f is mm else (mm, ret))"

text \<open>The loop that carries on and keeps the first error.\<close>

fun carry_on ::
  "(nat \<Rightarrow> module_manager \<Rightarrow> module_manager \<times> gallus_result_t) \<Rightarrow> nat list \<Rightarrow> gallus_result_t \<Rightarrow>
   module_manager \<Rightarrow> module_manager \<times> gallus_result_t" where
  "carry_on f [] first_err mm = (mm, first_err)"
| "carry_on f (i # is) first_err mm =
    (let (mm, ret) = f i mm
     in carry_on f is (if ret \<noteq> GALLUS_RESULT_OK \<and> first_err = GALLUS_RESULT_OK then ret else first_err) mm)"

text \<open>The indices in the order of the reversed loops.\<close>

definition reverse_order :: "module_manager \<Rightarrow> nat list" where
  "reverse_order mm = map (\<lambda>i. s_n_modules mm - i - 1) [0..<s_n_modules mm]"

definition gallus_module_usage_all :: "module_env \<Rightarrow> bool \<Rightarrow> module_manager \<Rightarrow> module_manager" where
  "gallus_module_usage_all env fd mm =
    (if fd then fold (s_usage_module env) [0..<s_n_modules mm] mm else mm)"

definition gallus_module_initialize_all :: "module_env \<Rightarrow> module_manager \<Rightarrow> module_manager \<times> gallus_result_t" where
  "gallus_module_initialize_all env mm =
    (let (mm, ret) =
       (if s_n_modules mm > 0
        then until_failure (s_initialize_module env) [0..<s_n_modules mm]
               (mm\<lparr>s_gstate := MODULE_GLOBAL_STATE_INITIALIZING\<rparr>)
        else (mm, GALLUS_RESULT_OK))
     in (if ret = GALLUS_RESULT_OK
         then mm\<lparr>s_gstate := MODULE_GLOBAL_STATE_INITIALIZED, s_is_mods_inited := True\<rparr> else mm, ret))"

definition gallus_module_start_all :: "module_env \<Rightarrow> module_manager \<Rightarrow> module_manager \<times> gallus_result_t" where
  "gallus_module_start_all env mm =
    (let mm = mm\<lparr>s_gstate := MODULE_GLOBAL_STATE_STARTING\<rparr>;
         (mm, ret) =
           (if s_n_modules mm > 0 then until_failure (s_start_module env) [0..<s_n_modules mm] mm
            else (mm, GALLUS_RESULT_OK))
     in (if ret = GALLUS_RESULT_OK then mm\<lparr>s_gstate := MODULE_GLOBAL_STATE_STARTED\<rparr> else mm, ret))"

definition gallus_module_shutdown_all ::
  "module_env \<Rightarrow> shutdown_grace_level \<Rightarrow> module_manager \<Rightarrow> module_manager \<times> gallus_result_t" where
  "gallus_module_shutdown_all env level mm =
    (if IS_VALID_SHUTDOWN level then
       (let mm = mm\<lparr>s_gstate := MODULE_GLOBAL_STATE_SHUTTINGDOWN\<rparr> in
        if s_n_modules mm > 0
        then carry_on (s_shutdown_module env level) (reverse_order mm) GALLUS_RESULT_OK mm
        else (mm, GALLUS_RESULT_OK))
     else (mm, GALLUS_RESULT_INVALID_ARGS))"

definition gallus_module_stop_all :: "module_env \<Rightarrow> module_manager \<Rightarrow> module_manager \<times> gallus_result_t" where
  "gallus_module_stop_all env mm =
    (let mm = mm\<lparr>s_gstate := MODULE_GLOBAL_STATE_STOPPING\<rparr> in
     if s_n_modules mm > 0 then carry_on (s_stop_module env) (reverse_order mm) GALLUS_RESULT_OK mm
     else (mm, GALLUS_RESULT_OK))"

text \<open>\<open>elapsed i\<close> is the time the wait for module \<open>i\<close> took, as the clock shows it.\<close>

fun wait_timed ::
  "module_env \<Rightarrow> (nat \<Rightarrow> gallus_chrono_t) \<Rightarrow> gallus_chrono_t \<Rightarrow> nat list \<Rightarrow> gallus_chrono_t \<Rightarrow>
   gallus_result_t \<Rightarrow> module_manager \<Rightarrow> module_manager \<times> gallus_result_t" where
  "wait_timed env elapsed nsec [] w first_err mm = (mm, first_err)"
| "wait_timed env elapsed nsec (i # is) w first_err mm =
    (let (mm, ret) = s_wait_module env w i mm;
         w = nsec - elapsed i;
         w = (if w < 0 then 0 else w)
     in wait_timed env elapsed nsec is w
          (if ret \<noteq> GALLUS_RESULT_OK \<and> first_err = GALLUS_RESULT_OK then ret else first_err) mm)"

definition gallus_module_wait_all ::
  "module_env \<Rightarrow> (nat \<Rightarrow> gallus_chrono_t) \<Rightarrow> gallus_chrono_t \<Rightarrow> module_manager \<Rightarrow> module_manager \<times> gallus_result_t" where
  "gallus_module_wait_all env elapsed nsec mm =
    (let mm = mm\<lparr>s_gstate := MODULE_GLOBAL_STATE_WAITING\<rparr>;
         (mm, ret) =
           (if s_n_modules mm > 0 then
              (if nsec < 0 then carry_on (s_wait_module env (- 1)) (reverse_order mm) GALLUS_RESULT_OK mm
               else wait_timed env elapsed nsec (reverse_order mm) nsec GALLUS_RESULT_OK mm)
            else (mm, GALLUS_RESULT_OK))
     in (if ret = GALLUS_RESULT_OK then mm\<lparr>s_gstate := MODULE_GLOBAL_STATE_SHUTDOWN\<rparr> else mm, ret))"

definition gallus_module_finalize_all :: "module_env \<Rightarrow> module_manager \<Rightarrow> module_manager" where
  "gallus_module_finalize_all env mm =
    (let mm = mm\<lparr>s_gstate := MODULE_GLOBAL_STATE_FINALIZING\<rparr>;
         mm = (if s_n_modules mm > 0 then fold (s_finalize_module env) (reverse_order mm) mm else mm)
     in mm\<lparr>s_gstate := MODULE_GLOBAL_STATE_FINALIZED\<rparr>)"

definition gallus_module_is_finalized_cleanly :: "module_manager \<Rightarrow> bool" where
  "gallus_module_is_finalized_cleanly mm =
    (if s_is_inited mm \<and> s_is_mods_inited mm then s_n_modules mm = s_n_finalized_modules mm else True)"

definition gallus_module_is_unloading :: "module_manager \<Rightarrow> bool" where
  "gallus_module_is_unloading mm =
    (if s_is_inited mm \<and> s_is_mods_inited mm then (if s_n_modules mm > 0 then s_is_unloading mm else True)
     else True)"

subsection \<open>The exit handler\<close>

text \<open>
  The loop at \<^verbatim>\<open>recheck\<close>, with the lock held, takes a script of waits: the result and what the
  others did. The first component is None while it is still waiting, otherwise whether everything
  finished cleanly; the second tells whether a shutdown of the process was requested.
\<close>

fun exit_recheck ::
  "(gallus_result_t \<times> (module_manager \<Rightarrow> module_manager)) list \<Rightarrow> module_manager \<Rightarrow>
   module_manager \<times> bool option \<times> bool" where
  "exit_recheck [] mm =
    (if s_gstate mm = MODULE_GLOBAL_STATE_UNKNOWN then (mm, Some True, False)
     else if s_gstate mm = MODULE_GLOBAL_STATE_STARTED then (mm, Some False, True)
     else if s_gstate mm \<noteq> MODULE_GLOBAL_STATE_FINALIZED then (mm, None, False)
     else (mm, Some True, False))"
| "exit_recheck ((r, others) # ws) mm =
    (if s_gstate mm = MODULE_GLOBAL_STATE_UNKNOWN then (mm, Some True, False)
     else if s_gstate mm = MODULE_GLOBAL_STATE_STARTED then (mm, Some False, True)
     else if s_gstate mm \<noteq> MODULE_GLOBAL_STATE_FINALIZED then
       (if r = GALLUS_RESULT_OK then exit_recheck ws (others mm) else (others mm, Some False, False))
     else (mm, Some True, False))"

text \<open>
  \<open>lk\<close> is the result of the attempt to take the lock, \<open>initializer\<close> whether the exiting
  thread is the one that initialised the manager. The second component is None while the handler
  waits, otherwise whether it requested a shutdown of the process.
\<close>

definition s_atexit_handler ::
  "module_env \<Rightarrow> gallus_result_t \<Rightarrow> bool \<Rightarrow> (gallus_result_t \<times> (module_manager \<Rightarrow> module_manager)) list \<Rightarrow>
   module_manager \<Rightarrow> module_manager \<times> bool option" where
  "s_atexit_handler env lk initializer ws mm =
    (let first = (s_is_exit_handler_called mm = 0);
         mm = mm\<lparr>s_is_exit_handler_called := s_is_exit_handler_called mm + 1\<rparr>
     in if \<not> first then (mm, Some False)
        else if lk = GALLUS_RESULT_OK then
          (if s_n_modules mm > 0 then
             (case exit_recheck ws mm of
                (mm, None, _) \<Rightarrow> (mm, None)
              | (mm, Some clean, req) \<Rightarrow> (if clean then mm\<lparr>s_is_unloading := True\<rparr> else mm, Some req))
           else (mm, Some False))
        else if lk = GALLUS_RESULT_BUSY then
          (if s_gstate mm = MODULE_GLOBAL_STATE_UNKNOWN then (mm\<lparr>s_is_unloading := True\<rparr>, Some False)
           else if initializer then
             (if s_gstate mm = MODULE_GLOBAL_STATE_INITIALIZING \<or> s_gstate mm = MODULE_GLOBAL_STATE_INITIALIZED \<or>
                 s_gstate mm = MODULE_GLOBAL_STATE_STARTING
              then (gallus_module_finalize_all env mm, Some False)
              else if s_gstate mm = MODULE_GLOBAL_STATE_STARTED then (mm, Some True)
              else (mm, Some False))
           else (mm, Some False))
        else (mm, Some False))"

end
