(* ===== verification/Module_Life.thy ===== *)
theory Module_Life
  imports Module
begin

text \<open>
  The life cycle of the modules: an automaton of the calls a module may see, the invariant that the
  recorded calls of every module are a run of it that ends in the module's state, and the order in
  which the manager calls the modules.
\<close>

subsection \<open>The life cycle of one module\<close>

fun call_idx :: "proc_call \<Rightarrow> nat" where
  "call_idx (Call_init i) = i"
| "call_idx (Call_start i) = i"
| "call_idx (Call_shutdown i l) = i"
| "call_idx (Call_stop i) = i"
| "call_idx (Call_cancel i) = i"
| "call_idx (Call_wait i w) = i"
| "call_idx (Call_finalize i) = i"
| "call_idx (Call_usage i) = i"

definition is_finalize :: "proc_call \<Rightarrow> bool" where
  "is_finalize c = (case c of Call_finalize _ \<Rightarrow> True | _ \<Rightarrow> False)"

definition is_usage :: "proc_call \<Rightarrow> bool" where
  "is_usage c = (case c of Call_usage _ \<Rightarrow> True | _ \<Rightarrow> False)"

text \<open>
  The automaton: initialise, then start, then shut down or stop and wait; finalise only what is not
  running. The flag is whether the module has a thread, which has to be waited for.
\<close>

fun life_step :: "a_module_state \<times> bool \<Rightarrow> call_record \<Rightarrow> (a_module_state \<times> bool) option" where
  "life_step (st, thd) (Call_init i, r, b) =
    (if st = MODULE_STATE_REGISTERED
     then Some (if r = GALLUS_RESULT_OK then MODULE_STATE_INITIALIZED else st, b) else None)"
| "life_step (st, thd) (Call_start i, r, b) =
    (if st = MODULE_STATE_INITIALIZED
     then Some (if r = GALLUS_RESULT_OK then MODULE_STATE_STARTED else st, thd) else None)"
| "life_step (st, thd) (Call_shutdown i l, r, b) =
    (if st = MODULE_STATE_STARTED then Some (if thd then st else MODULE_STATE_SHUTDOWN, thd) else None)"
| "life_step (st, thd) (Call_stop i, r, b) =
    (if st = MODULE_STATE_STARTED
     then Some (if r \<noteq> GALLUS_RESULT_OK then st
                else if thd then MODULE_STATE_CANCELLING else MODULE_STATE_SHUTDOWN, thd) else None)"
| "life_step (st, thd) (Call_cancel i, r, b) =
    (if st = MODULE_STATE_STARTED \<and> thd
     then Some (if r = GALLUS_RESULT_OK then MODULE_STATE_CANCELLING else st, thd) else None)"
| "life_step (st, thd) (Call_wait i w, r, b) =
    (if (st = MODULE_STATE_STARTED \<or> st = MODULE_STATE_CANCELLING) \<and> thd
     then Some (if r \<noteq> GALLUS_RESULT_OK then st
                else if b then MODULE_STATE_STOPPED else MODULE_STATE_SHUTDOWN, thd) else None)"
| "life_step (st, thd) (Call_finalize i, r, b) =
    (if st = MODULE_STATE_INITIALIZED \<or> st = MODULE_STATE_SHUTDOWN \<or> st = MODULE_STATE_STOPPED
     then Some (st, thd) else None)"
| "life_step (st, thd) (Call_usage i, r, b) = Some (st, thd)"

fun life_run :: "a_module_state \<times> bool \<Rightarrow> call_record list \<Rightarrow> (a_module_state \<times> bool) option" where
  "life_run s [] = Some s"
| "life_run s (c # cs) = (case life_step s c of None \<Rightarrow> None | Some s \<Rightarrow> life_run s cs)"

definition calls_of :: "nat \<Rightarrow> call_record list \<Rightarrow> call_record list" where
  "calls_of i cs = filter (\<lambda>c. call_idx (fst c) = i) cs"

lemma life_run_snoc: "life_run s (cs @ [c]) = Option.bind (life_run s cs) (\<lambda>s. life_step s c)"
  by (induction cs arbitrary: s) (auto split: option.splits)

lemma calls_of_snoc [simp]:
  "calls_of i (cs @ [c]) = (if call_idx (fst c) = i then calls_of i cs @ [c] else calls_of i cs)"
  by (simp add: calls_of_def)

subsection \<open>The invariant\<close>

definition mod_ok :: "module_manager \<Rightarrow> nat \<Rightarrow> bool" where
  "mod_ok mm i \<longleftrightarrow> (let m = s_modules mm ! i in
     life_run (MODULE_STATE_REGISTERED, False) (calls_of i (m_calls mm)) = Some (m_status m, m_thdptr m) \<and>
     m_init_proc m \<and> m_start_proc m \<and> m_shutdown_proc m \<and> m_finalize_proc m)"

definition mm_inv :: "module_manager \<Rightarrow> bool" where
  "mm_inv mm \<longleftrightarrow> (\<forall>i < s_n_modules mm. mod_ok mm i) \<and> s_n_modules mm \<le> MAX_MODULES \<and>
     (\<forall>c\<in>set (m_calls mm). call_idx (fst c) < s_n_modules mm) \<and>
     s_n_finalized_modules mm = length (filter (\<lambda>c. is_finalize (fst c)) (m_calls mm))"

text \<open>A call of a procedure with the effect the automaton gives it.\<close>

definition record_call :: "proc_call \<Rightarrow> gallus_result_t \<Rightarrow> bool \<Rightarrow> a_module_state \<times> bool \<Rightarrow> module_manager \<Rightarrow> module_manager" where
  "record_call c r b s mm =
    mm\<lparr>m_calls := m_calls mm @ [(c, r, b)],
       s_modules := (s_modules mm)[call_idx c := (s_modules mm ! call_idx c)\<lparr>m_thdptr := snd s, m_status := fst s\<rparr>],
       s_n_finalized_modules := s_n_finalized_modules mm + (if is_finalize c then 1 else 0)\<rparr>"

lemma record_call_simps [simp]:
  "s_n_modules (record_call c r b s mm) = s_n_modules mm"
  "m_calls (record_call c r b s mm) = m_calls mm @ [(c, r, b)]"
  by (simp_all add: record_call_def s_n_modules_def)

lemma record_call_module:
  "s_modules (record_call c r b s mm) ! j =
     (if j = call_idx c \<and> j < s_n_modules mm
      then (s_modules mm ! j)\<lparr>m_thdptr := snd s, m_status := fst s\<rparr> else s_modules mm ! j)"
  by (auto simp: record_call_def s_n_modules_def nth_list_update list_update_beyond not_less)

lemma record_call_inv:
  assumes inv: "mm_inv mm" and i: "call_idx c < s_n_modules mm"
    and step: "life_step (m_status (s_modules mm ! call_idx c), m_thdptr (s_modules mm ! call_idx c)) (c, r, b) = Some s"
  shows "mm_inv (record_call c r b s mm)"
proof -
  have "mod_ok (record_call c r b s mm) j" if j: "j < s_n_modules mm" for j
  proof -
    have "mod_ok mm j" using inv j by (simp add: mm_inv_def)
    then show ?thesis using step j
      by (auto simp: mod_ok_def Let_def record_call_module life_run_snoc)
  qed
  then show ?thesis using inv i by (auto simp: mm_inv_def record_call_def s_n_modules_def)
qed

lemma same_module: "m\<lparr>m_thdptr := m_thdptr m, m_status := m_status m\<rparr> = (m :: a_module)"
  by simp

lemma set_module_id [simp]: "set_module i (\<lambda>m. m) mm = mm"
  by (simp add: set_module_def)

subsection \<open>Each operation is a step of the automaton, or leaves the state\<close>

text \<open>What one operation on module \<open>i\<close> may do.\<close>

definition module_step :: "module_env \<Rightarrow> nat \<Rightarrow> module_manager \<Rightarrow> module_manager \<Rightarrow> bool" where
  "module_step env i mm mm' \<longleftrightarrow> mm' = mm \<or>
     (\<exists>c r b s. call_idx c = i \<and> env (m_calls mm) c = (r, b) \<and> mm' = record_call c r b s mm \<and>
        life_step (m_status (s_modules mm ! i), m_thdptr (s_modules mm ! i)) (c, r, b) = Some s)"

lemma module_step_inv: "module_step env i mm mm' \<Longrightarrow> mm_inv mm \<Longrightarrow> i < s_n_modules mm \<Longrightarrow> mm_inv mm'"
  by (auto simp: module_step_def intro: record_call_inv)

lemma module_step_n: "module_step env i mm mm' \<Longrightarrow> s_n_modules mm' = s_n_modules mm"
  by (auto simp: module_step_def)

lemma module_stepI:
  assumes "env (m_calls mm) c = (r, b)" "call_idx c = i"
    "life_step (m_status (s_modules mm ! i), m_thdptr (s_modules mm ! i)) (c, r, b) = Some s"
    "mm' = record_call c r b s mm"
  shows "module_step env i mm mm'"
  using assms unfolding module_step_def by blast

lemma keep_status:
  "m_status (xs ! i) = st \<Longrightarrow> xs[i := (xs ! i)\<lparr>m_status := st\<rparr>] = xs"
  "m_status (xs ! i) = st \<Longrightarrow> xs[i := (xs ! i)\<lparr>m_thdptr := b, m_status := st\<rparr>] = xs[i := (xs ! i)\<lparr>m_thdptr := b\<rparr>]"
  by (auto intro: list_update_id)

lemma keep_thread: "m_thdptr m = b \<Longrightarrow> (m :: a_module)\<lparr>m_thdptr := b\<rparr> = m"
  by auto

lemma update_twice: "xs[i := (xs[i := a] ! i)\<lparr>m_status := st\<rparr>] = xs[i := a\<lparr>m_status := st\<rparr>]"
  by (cases "i < length xs") (simp_all add: list_update_beyond)

lemmas call_record_defs = call_def set_status_def set_module_def record_call_def is_finalize_def Let_def
  keep_status keep_thread update_twice

lemma s_initialize_module_step: "module_step env i mm (fst (s_initialize_module env i mm))"
proof (cases "m_init_proc (s_modules mm ! i) \<and> m_status (s_modules mm ! i) = MODULE_STATE_REGISTERED")
  case True
  obtain r b where e: "env (m_calls mm) (Call_init i) = (r, b)" by fastforce
  show ?thesis
    using True e unfolding s_initialize_module_def
    by (intro module_stepI [where env = env and mm = mm and c = "Call_init i" and r = r and b = b
          and s = "(if r = GALLUS_RESULT_OK then MODULE_STATE_INITIALIZED else m_status (s_modules mm ! i), b)"])
      (auto simp: call_record_defs)
qed (auto simp: s_initialize_module_def module_step_def Let_def)

lemma s_start_module_step: "module_step env i mm (fst (s_start_module env i mm))"
proof (cases "m_start_proc (s_modules mm ! i) \<and> m_status (s_modules mm ! i) = MODULE_STATE_INITIALIZED")
  case True
  obtain r b where e: "env (m_calls mm) (Call_start i) = (r, b)" by fastforce
  show ?thesis
    using True e unfolding s_start_module_def
    by (intro module_stepI [where env = env and mm = mm and c = "Call_start i" and r = r and b = b
          and s = "(if r = GALLUS_RESULT_OK then MODULE_STATE_STARTED else m_status (s_modules mm ! i),
                    m_thdptr (s_modules mm ! i))"])
      (auto simp: call_record_defs)
qed (auto simp: s_start_module_def module_step_def Let_def)

lemma s_shutdown_module_step: "module_step env i mm (fst (s_shutdown_module env l i mm))"
proof (cases "m_shutdown_proc (s_modules mm ! i) \<and> IS_VALID_SHUTDOWN l \<and>
    m_status (s_modules mm ! i) = MODULE_STATE_STARTED")
  case True
  obtain r b where e: "env (m_calls mm) (Call_shutdown i l) = (r, b)" by fastforce
  show ?thesis
    using True e unfolding s_shutdown_module_def
    by (intro module_stepI [where env = env and mm = mm and c = "Call_shutdown i l" and r = r and b = b
          and s = "(if m_thdptr (s_modules mm ! i) then m_status (s_modules mm ! i) else MODULE_STATE_SHUTDOWN,
                    m_thdptr (s_modules mm ! i))"])
      (auto simp: call_record_defs)
qed (auto simp: s_shutdown_module_def module_step_def Let_def)

lemma s_stop_module_step: "module_step env i mm (fst (s_stop_module env i mm))"
proof (cases "m_status (s_modules mm ! i) = MODULE_STATE_STARTED \<and>
    (m_stop_proc (s_modules mm ! i) \<or> m_thdptr (s_modules mm ! i))")
  case True
  let ?c = "if m_stop_proc (s_modules mm ! i) then Call_stop i else Call_cancel i"
  obtain r b where e: "env (m_calls mm) ?c = (r, b)" by fastforce
  show ?thesis
    using True e unfolding s_stop_module_def
    by (intro module_stepI [where env = env and mm = mm and c = ?c and r = r and b = b
          and s = "(if r \<noteq> GALLUS_RESULT_OK then m_status (s_modules mm ! i)
                    else if m_thdptr (s_modules mm ! i) then MODULE_STATE_CANCELLING else MODULE_STATE_SHUTDOWN,
                    m_thdptr (s_modules mm ! i))"])
      (auto simp: call_record_defs)
qed (auto simp: s_stop_module_def module_step_def Let_def)

lemma s_wait_module_step: "module_step env i mm (fst (s_wait_module env w i mm))"
proof (cases "(m_status (s_modules mm ! i) = MODULE_STATE_CANCELLING \<or>
    m_status (s_modules mm ! i) = MODULE_STATE_STARTED) \<and> m_thdptr (s_modules mm ! i)")
  case True
  obtain r b where e: "env (m_calls mm) (Call_wait i w) = (r, b)" by fastforce
  show ?thesis
    using True e unfolding s_wait_module_def
    by (intro module_stepI [where env = env and mm = mm and c = "Call_wait i w" and r = r and b = b
          and s = "(if r \<noteq> GALLUS_RESULT_OK then m_status (s_modules mm ! i)
                    else if b then MODULE_STATE_STOPPED else MODULE_STATE_SHUTDOWN,
                    m_thdptr (s_modules mm ! i))"])
      (auto simp: call_record_defs)
qed (auto simp: s_wait_module_def module_step_def Let_def)

lemma s_finalize_module_step: "module_step env i mm (s_finalize_module env i mm)"
proof (cases "m_finalize_proc (s_modules mm ! i) \<and>
    (m_status (s_modules mm ! i) = MODULE_STATE_INITIALIZED \<or> m_status (s_modules mm ! i) = MODULE_STATE_SHUTDOWN \<or>
     m_status (s_modules mm ! i) = MODULE_STATE_STOPPED)")
  case True
  obtain r b where e: "env (m_calls mm) (Call_finalize i) = (r, b)" by fastforce
  show ?thesis
    using True e unfolding s_finalize_module_def
    by (intro module_stepI [where env = env and mm = mm and c = "Call_finalize i" and r = r and b = b
          and s = "(m_status (s_modules mm ! i), m_thdptr (s_modules mm ! i))"])
      (auto simp: call_record_defs)
qed (auto simp: s_finalize_module_def module_step_def Let_def)

lemma s_usage_module_step: "module_step env i mm (s_usage_module env i mm)"
proof (cases "m_usage_proc (s_modules mm ! i)")
  case True
  obtain r b where e: "env (m_calls mm) (Call_usage i) = (r, b)" by fastforce
  show ?thesis
    using True e unfolding s_usage_module_def
    by (intro module_stepI [where env = env and mm = mm and c = "Call_usage i" and r = r and b = b
          and s = "(m_status (s_modules mm ! i), m_thdptr (s_modules mm ! i))"])
      (auto simp: call_record_defs)
qed (auto simp: s_usage_module_def module_step_def Let_def)


subsection \<open>Loops\<close>

lemma until_failure_inv:
  assumes "\<And>i mm. module_step env i mm (fst (f i mm))" "mm_inv mm" "\<forall>i\<in>set is. i < s_n_modules mm"
  shows "mm_inv (fst (until_failure f is mm)) \<and> s_n_modules (fst (until_failure f is mm)) = s_n_modules mm"
  using assms(2,3)
proof (induction "is" arbitrary: mm)
  case (Cons i "is")
  obtain mm1 r where f: "f i mm = (mm1, r)" by fastforce
  have step: "module_step env i mm mm1" using assms(1) [of i mm] f by simp
  have "mm_inv mm1" "s_n_modules mm1 = s_n_modules mm"
    using module_step_inv [OF step] module_step_n [OF step] Cons.prems by simp_all
  then show ?case using Cons.IH [of mm1] Cons.prems(2) f by (simp add: Let_def)
qed simp

lemma carry_on_inv:
  assumes "\<And>i mm. module_step env i mm (fst (f i mm))" "mm_inv mm" "\<forall>i\<in>set is. i < s_n_modules mm"
  shows "mm_inv (fst (carry_on f is e mm)) \<and> s_n_modules (fst (carry_on f is e mm)) = s_n_modules mm"
  using assms(2,3)
proof (induction "is" arbitrary: mm e)
  case (Cons i "is")
  obtain mm1 r where f: "f i mm = (mm1, r)" by fastforce
  have step: "module_step env i mm mm1" using assms(1) [of i mm] f by simp
  have "mm_inv mm1" "s_n_modules mm1 = s_n_modules mm"
    using module_step_inv [OF step] module_step_n [OF step] Cons.prems by simp_all
  then show ?case using Cons.IH [of mm1] Cons.prems(2) f by simp
qed simp

lemma wait_timed_inv:
  assumes "mm_inv mm" "\<forall>i\<in>set is. i < s_n_modules mm"
  shows "mm_inv (fst (wait_timed env el nsec is w e mm)) \<and>
    s_n_modules (fst (wait_timed env el nsec is w e mm)) = s_n_modules mm"
  using assms
proof (induction "is" arbitrary: mm e w)
  case (Cons i "is")
  obtain mm1 r where f: "s_wait_module env w i mm = (mm1, r)" by fastforce
  have step: "module_step env i mm mm1" using s_wait_module_step [of env i mm w] f by simp
  have "mm_inv mm1" "s_n_modules mm1 = s_n_modules mm"
    using module_step_inv [OF step] module_step_n [OF step] Cons.prems by simp_all
  then show ?case using Cons.IH [of mm1] Cons.prems(2) f by (simp add: Let_def)
qed simp

lemma fold_inv:
  assumes "\<And>i mm. module_step env i mm (f i mm)" "mm_inv mm" "\<forall>i\<in>set is. i < s_n_modules mm"
  shows "mm_inv (fold f is mm) \<and> s_n_modules (fold f is mm) = s_n_modules mm"
  using assms(2,3)
proof (induction "is" arbitrary: mm)
  case (Cons i "is")
  note step = assms(1) [of i mm]
  have "mm_inv (f i mm)" "s_n_modules (f i mm) = s_n_modules mm"
    using module_step_inv [OF step] module_step_n [OF step] Cons.prems by simp_all
  then show ?case using Cons.IH [of "f i mm"] Cons.prems(2) by simp
qed simp

lemma reverse_order_rev: "reverse_order mm = rev [0..<s_n_modules mm]"
  by (rule nth_equalityI) (simp_all add: reverse_order_def rev_nth)

lemma mm_inv_fields [simp]:
  "mm_inv (mm\<lparr>s_gstate := g\<rparr>) = mm_inv mm" "mm_inv (mm\<lparr>s_is_mods_inited := b\<rparr>) = mm_inv mm"
  "mm_inv (mm\<lparr>s_is_unloading := b\<rparr>) = mm_inv mm" "mm_inv (mm\<lparr>s_is_exit_handler_called := k\<rparr>) = mm_inv mm"
  "s_n_modules (mm\<lparr>s_gstate := g\<rparr>) = s_n_modules mm" "s_n_modules (mm\<lparr>s_is_mods_inited := b\<rparr>) = s_n_modules mm"
  by (simp_all add: mm_inv_def mod_ok_def s_n_modules_def)

lemma initialize_all_inv: "mm_inv mm \<Longrightarrow> mm_inv (fst (gallus_module_initialize_all env mm))"
  using until_failure_inv [OF s_initialize_module_step, of "mm\<lparr>s_gstate := MODULE_GLOBAL_STATE_INITIALIZING\<rparr>"
      "[0..<s_n_modules mm]" env]
  by (auto simp: gallus_module_initialize_all_def split: prod.splits)

lemma start_all_inv: "mm_inv mm \<Longrightarrow> mm_inv (fst (gallus_module_start_all env mm))"
  using until_failure_inv [OF s_start_module_step, of "mm\<lparr>s_gstate := MODULE_GLOBAL_STATE_STARTING\<rparr>"
      "[0..<s_n_modules mm]" env]
  by (auto simp: gallus_module_start_all_def Let_def split: prod.splits)

lemma shutdown_all_inv: "mm_inv mm \<Longrightarrow> mm_inv (fst (gallus_module_shutdown_all env l mm))"
  using carry_on_inv [OF s_shutdown_module_step, of "mm\<lparr>s_gstate := MODULE_GLOBAL_STATE_SHUTTINGDOWN\<rparr>"
      "rev [0..<s_n_modules mm]"]
  by (auto simp: gallus_module_shutdown_all_def Let_def reverse_order_rev)

lemma stop_all_inv: "mm_inv mm \<Longrightarrow> mm_inv (fst (gallus_module_stop_all env mm))"
  using carry_on_inv [OF s_stop_module_step, of "mm\<lparr>s_gstate := MODULE_GLOBAL_STATE_STOPPING\<rparr>"
      "rev [0..<s_n_modules mm]"]
  by (auto simp: gallus_module_stop_all_def Let_def reverse_order_rev)

lemma wait_all_inv: "mm_inv mm \<Longrightarrow> mm_inv (fst (gallus_module_wait_all env el nsec mm))"
  using carry_on_inv [where f = "s_wait_module env (- 1)" and env = env and e = GALLUS_RESULT_OK
      and mm = "mm\<lparr>s_gstate := MODULE_GLOBAL_STATE_WAITING\<rparr>",
      OF s_wait_module_step, of "rev [0..<s_n_modules mm]"]
    wait_timed_inv [of "mm\<lparr>s_gstate := MODULE_GLOBAL_STATE_WAITING\<rparr>" "rev [0..<s_n_modules mm]"
      env el nsec nsec GALLUS_RESULT_OK]
  by (auto simp: gallus_module_wait_all_def Let_def reverse_order_rev split: prod.splits)

lemma finalize_all_inv: "mm_inv mm \<Longrightarrow> mm_inv (gallus_module_finalize_all env mm)"
  using fold_inv [OF s_finalize_module_step, of "mm\<lparr>s_gstate := MODULE_GLOBAL_STATE_FINALIZING\<rparr>"
      "rev [0..<s_n_modules mm]"]
  by (auto simp: gallus_module_finalize_all_def Let_def reverse_order_rev)

lemma usage_all_inv: "mm_inv mm \<Longrightarrow> mm_inv (gallus_module_usage_all env fd mm)"
  using fold_inv [OF s_usage_module_step, of mm "[0..<s_n_modules mm]"]
  by (auto simp: gallus_module_usage_all_def)

lemma register_inv:
  assumes "mm_inv mm"
  shows "mm_inv (fst (gallus_module_register mm name p))"
proof -
  have "calls_of (s_n_modules mm) (m_calls mm) = []"
    using assms by (auto simp: calls_of_def mm_inv_def filter_empty_conv)
  then show ?thesis using assms
    by (auto simp: gallus_module_register_def s_register_module_def mm_inv_def mod_ok_def s_n_modules_def
        nth_append less_Suc_eq)
qed

lemma atexit_inv: "mm_inv mm \<Longrightarrow> mm_inv (fst (s_atexit_handler env lk ini [] mm))"
  by (auto simp: s_atexit_handler_def Let_def finalize_all_inv split: prod.splits option.splits)

subsection \<open>Reachable states\<close>

text \<open>Any sequence of calls of the manager, from its construction on.\<close>

inductive mm_reach :: "module_env \<Rightarrow> module_manager \<Rightarrow> bool" for env :: module_env where
  reach_once: "mm_reach env s_once_proc"
| reach_register: "mm_reach env mm \<Longrightarrow> mm_reach env (fst (gallus_module_register mm name p))"
| reach_initialize: "mm_reach env mm \<Longrightarrow> mm_reach env (fst (gallus_module_initialize_all env mm))"
| reach_start: "mm_reach env mm \<Longrightarrow> mm_reach env (fst (gallus_module_start_all env mm))"
| reach_shutdown: "mm_reach env mm \<Longrightarrow> mm_reach env (fst (gallus_module_shutdown_all env l mm))"
| reach_stop: "mm_reach env mm \<Longrightarrow> mm_reach env (fst (gallus_module_stop_all env mm))"
| reach_wait: "mm_reach env mm \<Longrightarrow> mm_reach env (fst (gallus_module_wait_all env el nsec mm))"
| reach_finalize: "mm_reach env mm \<Longrightarrow> mm_reach env (gallus_module_finalize_all env mm)"
| reach_usage: "mm_reach env mm \<Longrightarrow> mm_reach env (gallus_module_usage_all env fd mm)"
| reach_exit: "mm_reach env mm \<Longrightarrow> mm_reach env (fst (s_atexit_handler env lk ini [] mm))"

lemma mm_reach_inv: "mm_reach env mm \<Longrightarrow> mm_inv mm"
proof (induction rule: mm_reach.induct)
  case reach_once
  show ?case by (simp add: mm_inv_def s_once_proc_def s_n_modules_def)
qed (simp_all add: register_inv initialize_all_inv start_all_inv shutdown_all_inv stop_all_inv wait_all_inv
    finalize_all_inv usage_all_inv atexit_inv)


subsection \<open>The order of the calls\<close>

lemma s_initialize_module_run:
  assumes "m_init_proc (s_modules mm ! i)" "m_status (s_modules mm ! i) = MODULE_STATE_REGISTERED"
  shows "\<exists>r b. s_initialize_module env i mm = (record_call (Call_init i) r b
    (if r = GALLUS_RESULT_OK then MODULE_STATE_INITIALIZED else MODULE_STATE_REGISTERED, b) mm, r)"
proof -
  obtain r b where e: "env (m_calls mm) (Call_init i) = (r, b)" by fastforce
  show ?thesis
    using assms e unfolding s_initialize_module_def
    by (intro exI [of _ r] exI [of _ b]) (auto simp: call_record_defs)
qed

text \<open>
  The calls \<open>new\<close> that a pass over the modules from \<open>a\<close> on added: in ascending order, all successful
  but possibly the last, whose result is then the result of the pass.
\<close>

definition init_pass :: "nat \<Rightarrow> nat \<Rightarrow> gallus_result_t \<Rightarrow> call_record list \<Rightarrow> bool" where
  "init_pass a n ret new \<longleftrightarrow>
     map fst new = map Call_init [a..<a + length new] \<and> a + length new \<le> n \<and>
     (if ret = GALLUS_RESULT_OK then a + length new = n \<and> list_all (\<lambda>c. fst (snd c) = GALLUS_RESULT_OK) new
      else new \<noteq> [] \<and> fst (snd (last new)) = ret \<and>
        list_all (\<lambda>c. fst (snd c) = GALLUS_RESULT_OK) (butlast new))"

lemma initialize_pass:
  assumes "a \<le> s_n_modules mm"
    "\<And>j. a \<le> j \<Longrightarrow> j < s_n_modules mm \<Longrightarrow>
       m_init_proc (s_modules mm ! j) \<and> m_status (s_modules mm ! j) = MODULE_STATE_REGISTERED"
    "until_failure (s_initialize_module env) [a..<s_n_modules mm] mm = (mm', ret)"
  shows "\<exists>new. m_calls mm' = m_calls mm @ new \<and> init_pass a (s_n_modules mm) ret new \<and>
    s_n_modules mm' = s_n_modules mm \<and>
    (\<forall>j < s_n_modules mm. m_status (s_modules mm' ! j) =
       (if a \<le> j \<and> j < a + length new \<and> (ret = GALLUS_RESULT_OK \<or> j + 1 < a + length new)
        then MODULE_STATE_INITIALIZED else m_status (s_modules mm ! j)))"
  using assms
proof (induction "s_n_modules mm - a" arbitrary: a mm)
  case 0
  then show ?case by (intro exI [of _ "[]"]) (simp add: init_pass_def)
next
  case (Suc d)
  then have a: "a < s_n_modules mm" by simp
  obtain r b where i: "s_initialize_module env a mm = (record_call (Call_init a) r b
      (if r = GALLUS_RESULT_OK then MODULE_STATE_INITIALIZED else MODULE_STATE_REGISTERED, b) mm, r)"
    using s_initialize_module_run [of mm a env] Suc.prems(2) [of a] a by auto
  let ?m = "record_call (Call_init a) r b
      (if r = GALLUS_RESULT_OK then MODULE_STATE_INITIALIZED else MODULE_STATE_REGISTERED, b) mm"
  show ?case
  proof (cases "r = GALLUS_RESULT_OK")
    case False
    then have "mm' = ?m" "ret = r" using Suc.prems(3) a i by (auto simp: upt_conv_Cons Let_def)
    then show ?thesis using False a Suc.prems(2) [of a]
      by (intro exI [of _ "[(Call_init a, r, b)]"]) (auto simp: init_pass_def record_call_module)
  next
    case True
    have u: "until_failure (s_initialize_module env) [Suc a..<s_n_modules ?m] ?m = (mm', ret)"
      using Suc.prems(3) a i True by (simp add: upt_conv_Cons Let_def)
    have d: "d = s_n_modules ?m - Suc a" "Suc a \<le> s_n_modules ?m" using Suc.hyps(2) by simp_all
    have reg: "\<And>j. Suc a \<le> j \<Longrightarrow> j < s_n_modules ?m \<Longrightarrow>
       m_init_proc (s_modules ?m ! j) \<and> m_status (s_modules ?m ! j) = MODULE_STATE_REGISTERED"
      using Suc.prems(2) by (simp add: record_call_module)
    obtain new where new: "m_calls mm' = m_calls ?m @ new" "init_pass (Suc a) (s_n_modules ?m) ret new"
      "s_n_modules mm' = s_n_modules ?m"
      "\<forall>j < s_n_modules ?m. m_status (s_modules mm' ! j) =
        (if Suc a \<le> j \<and> j < Suc a + length new \<and> (ret = GALLUS_RESULT_OK \<or> j + 1 < Suc a + length new)
         then MODULE_STATE_INITIALIZED else m_status (s_modules ?m ! j))"
      using Suc.hyps(1) [OF d reg u] by blast
    have up: "[a..<a + length ((Call_init a, r, b) # new)] = a # [Suc a..<Suc a + length new]"
      by (subst upt_conv_Cons) simp_all
    have "init_pass a (s_n_modules mm) ret ((Call_init a, r, b) # new)"
      using new(2) True unfolding init_pass_def up by (auto simp del: upt_Suc split: if_splits)
    then show ?thesis using new True
      by (intro exI [of _ "(Call_init a, r, b) # new"]) (auto simp: record_call_module init_pass_def)
  qed
qed

text \<open>Finalisation: the finalisable modules in the order of the list.\<close>

definition finalizable :: "module_manager \<Rightarrow> nat \<Rightarrow> bool" where
  "finalizable mm i \<longleftrightarrow> m_finalize_proc (s_modules mm ! i) \<and>
     (m_status (s_modules mm ! i) = MODULE_STATE_INITIALIZED \<or> m_status (s_modules mm ! i) = MODULE_STATE_SHUTDOWN \<or>
      m_status (s_modules mm ! i) = MODULE_STATE_STOPPED)"

lemma finalize_pass:
  "\<exists>new. fold (s_finalize_module env) is mm =
      mm\<lparr>m_calls := m_calls mm @ new, s_n_finalized_modules := s_n_finalized_modules mm + length new\<rparr> \<and>
    map fst new = map Call_finalize (filter (finalizable mm) is)"
proof (induction "is" arbitrary: mm)
  case Nil
  show ?case by (intro exI [of _ "[]"]) simp
next
  case (Cons i "is")
  show ?case
  proof (cases "finalizable mm i")
    case False
    then have "s_finalize_module env i mm = mm"
      by (auto simp: s_finalize_module_def finalizable_def Let_def)
    then show ?thesis using Cons.IH [of mm] False by simp
  next
    case True
    obtain r b where e: "env (m_calls mm) (Call_finalize i) = (r, b)" by fastforce
    let ?m = "mm\<lparr>m_calls := m_calls mm @ [(Call_finalize i, r, b)],
        s_n_finalized_modules := s_n_finalized_modules mm + 1\<rparr>"
    have s: "s_finalize_module env i mm = ?m"
      using True e by (simp add: s_finalize_module_def finalizable_def call_def Let_def)
    have "finalizable ?m = finalizable mm" by (rule ext) (simp add: finalizable_def)
    then obtain new where "fold (s_finalize_module env) is ?m =
        ?m\<lparr>m_calls := m_calls ?m @ new, s_n_finalized_modules := s_n_finalized_modules ?m + length new\<rparr>"
      "map fst new = map Call_finalize (filter (finalizable mm) is)"
      using Cons.IH [of ?m] by auto
    then show ?thesis using s True by (intro exI [of _ "(Call_finalize i, r, b) # new"]) simp
  qed
qed

text \<open>Shutdown: every started module gets its call, whatever the others return.\<close>

lemma shutdown_pass:
  assumes "distinct is" "\<forall>i\<in>set is. m_shutdown_proc (s_modules mm ! i)" "IS_VALID_SHUTDOWN l"
  shows "\<exists>new. m_calls (fst (carry_on (s_shutdown_module env l) is e mm)) = m_calls mm @ new \<and>
    map fst new = map (\<lambda>i. Call_shutdown i l)
      (filter (\<lambda>i. m_status (s_modules mm ! i) = MODULE_STATE_STARTED) is)"
  using assms
proof (induction "is" arbitrary: mm e)
  case Nil
  show ?case by simp
next
  case (Cons i "is")
  obtain mm1 r where s: "s_shutdown_module env l i mm = (mm1, r)" by fastforce
  have same: "m_status (s_modules mm1 ! j) = m_status (s_modules mm ! j)" if "j \<noteq> i" for j
    using s that by (auto simp: s_shutdown_module_def call_record_defs split: if_splits prod.splits)
  have "m_shutdown_proc (s_modules mm1 ! j) = m_shutdown_proc (s_modules mm ! j)" if "j \<noteq> i" for j
    using s that by (auto simp: s_shutdown_module_def call_record_defs split: if_splits prod.splits)
  then have pr: "\<forall>j\<in>set is. m_shutdown_proc (s_modules mm1 ! j)"
    using Cons.prems(1,2) by (metis distinct.simps(2) list.set_intros(2))
  have fl: "filter (\<lambda>i. m_status (s_modules mm1 ! i) = MODULE_STATE_STARTED) is =
      filter (\<lambda>i. m_status (s_modules mm ! i) = MODULE_STATE_STARTED) is"
  proof (intro filter_cong refl)
    fix j assume "j \<in> set is"
    then have "j \<noteq> i" using Cons.prems(1) by auto
    then show "m_status (s_modules mm1 ! j) = MODULE_STATE_STARTED \<longleftrightarrow> m_status (s_modules mm ! j) = MODULE_STATE_STARTED"
      using same by simp
  qed
  obtain new where new: "m_calls (fst (carry_on (s_shutdown_module env l) is
        (if r \<noteq> GALLUS_RESULT_OK \<and> e = GALLUS_RESULT_OK then r else e) mm1)) = m_calls mm1 @ new"
      "map fst new = map (\<lambda>i. Call_shutdown i l)
        (filter (\<lambda>i. m_status (s_modules mm ! i) = MODULE_STATE_STARTED) is)"
    using Cons.IH [OF _ pr Cons.prems(3)] Cons.prems(1) fl by fastforce
  show ?case
  proof (cases "m_status (s_modules mm ! i) = MODULE_STATE_STARTED")
    case True
    then have "\<exists>b. m_calls mm1 = m_calls mm @ [(Call_shutdown i l, r, b)]"
      using s Cons.prems(2,3)
      by (auto simp: s_shutdown_module_def call_record_defs split: if_splits prod.splits)
    then obtain b where "m_calls mm1 = m_calls mm @ [(Call_shutdown i l, r, b)]" by blast
    then show ?thesis using new s True
      by (intro exI [of _ "(Call_shutdown i l, r, b) # new"]) simp
  next
    case False
    then have "mm1 = mm" using s by (auto simp: s_shutdown_module_def Let_def split: if_splits)
    then show ?thesis using new s False by (intro exI [of _ new]) simp
  qed
qed


subsection \<open>Properties\<close>

text \<open>
  C7. In every state the manager can reach, whatever the modules' procedures return, the procedures
  of each module have been called only in the order of its life cycle (initialise, start, shut down or
  stop, wait, finalise, a step being taken only after the earlier one succeeded and finalise never
  while it runs), and the recorded state and thread of the module are the ones this history leads to.
\<close>

theorem module_lifecycle:
  assumes "mm_reach env mm" "i < s_n_modules mm"
  shows "life_run (MODULE_STATE_REGISTERED, False) (calls_of i (m_calls mm)) =
      Some (m_status (s_modules mm ! i), m_thdptr (s_modules mm ! i)) \<and>
    s_n_finalized_modules mm = length (filter (\<lambda>c. is_finalize (fst c)) (m_calls mm))"
proof -
  have "mm_inv mm" using assms(1) by (rule mm_reach_inv)
  then show ?thesis using assms(2) by (simp add: mm_inv_def mod_ok_def Let_def)
qed

text \<open>An environment in which every call succeeds and no module has a thread.\<close>

definition good_env :: module_env where
  "good_env cs c = (GALLUS_RESULT_OK, False)"

definition all_procs :: module_procs where
  "all_procs = \<lparr>init_proc = True, start_proc = True, shutdown_proc = True, stop_proc = True,
     finalize_proc = True, usage_proc = True\<rparr>"

definition two_modules :: module_manager where
  "two_modules = fst (gallus_module_register
     (fst (gallus_module_register s_once_proc (Some ''a'') all_procs)) (Some ''b'') all_procs)"

lemma two_modules_eq: "two_modules = s_once_proc\<lparr>s_modules :=
    [\<lparr>m_name = ''a'', m_init_proc = True, m_thdptr = False, m_start_proc = True, m_shutdown_proc = True,
      m_stop_proc = True, m_finalize_proc = True, m_usage_proc = True, m_status = MODULE_STATE_REGISTERED\<rparr>,
     \<lparr>m_name = ''b'', m_init_proc = True, m_thdptr = False, m_start_proc = True, m_shutdown_proc = True,
      m_stop_proc = True, m_finalize_proc = True, m_usage_proc = True, m_status = MODULE_STATE_REGISTERED\<rparr>]\<rparr>"
  by code_simp

lemma two_modules_reach: "mm_reach env two_modules"
  unfolding two_modules_def by (intro mm_reach.intros)

theorem module_lifecycle_witness:
  "life_run (MODULE_STATE_REGISTERED, False)
     (calls_of 1 (m_calls (fst (gallus_module_start_all good_env (fst (gallus_module_initialize_all good_env two_modules)))))) =
   Some (MODULE_STATE_STARTED, False)"
proof -
  let ?mm = "fst (gallus_module_start_all good_env (fst (gallus_module_initialize_all good_env two_modules)))"
  have "mm_reach good_env ?mm" by (intro mm_reach.intros two_modules_reach)
  moreover have "1 < s_n_modules ?mm" "m_status (s_modules ?mm ! 1) = MODULE_STATE_STARTED"
    "\<not> m_thdptr (s_modules ?mm ! 1)"
    by code_simp+
  ultimately show ?thesis using module_lifecycle [of good_env ?mm 1] by simp
qed

text \<open>
  Initialisation calls the modules in the order of their registration and stops at the first
  that fails, whose result it returns; exactly the modules before it are initialised.
\<close>

theorem module_initialize_order:
  assumes "\<forall>j < s_n_modules mm. m_init_proc (s_modules mm ! j) \<and> m_status (s_modules mm ! j) = MODULE_STATE_REGISTERED"
    and "gallus_module_initialize_all env mm = (mm', ret)"
  shows "\<exists>new. m_calls mm' = m_calls mm @ new \<and> init_pass 0 (s_n_modules mm) ret new \<and>
    (\<forall>j < s_n_modules mm. m_status (s_modules mm' ! j) =
       (if j < length new \<and> (ret = GALLUS_RESULT_OK \<or> j + 1 < length new)
        then MODULE_STATE_INITIALIZED else MODULE_STATE_REGISTERED))"
proof (cases "s_n_modules mm = 0")
  case True
  then show ?thesis using assms(2)
    by (intro exI [of _ "[]"]) (auto simp: gallus_module_initialize_all_def init_pass_def)
next
  case False
  let ?m = "mm\<lparr>s_gstate := MODULE_GLOBAL_STATE_INITIALIZING\<rparr>"
  obtain mm1 where u: "until_failure (s_initialize_module env) [0..<s_n_modules ?m] ?m = (mm1, ret)"
      "m_calls mm' = m_calls mm1" "s_modules mm' = s_modules mm1"
    using assms(2) False by (auto simp: gallus_module_initialize_all_def Let_def split: prod.splits if_splits)
  have reg: "\<And>j. 0 \<le> j \<Longrightarrow> j < s_n_modules ?m \<Longrightarrow>
      m_init_proc (s_modules ?m ! j) \<and> m_status (s_modules ?m ! j) = MODULE_STATE_REGISTERED"
    using assms(1) by simp
  from initialize_pass [OF le0 reg u(1)] show ?thesis using u(2,3) assms(1) by auto
qed

theorem module_initialize_order_witness:
  "\<exists>new. m_calls (fst (gallus_module_initialize_all good_env two_modules)) = new \<and>
     map fst new = [Call_init 0, Call_init 1]"
proof -
  have n: "s_n_modules two_modules = 2" "m_calls two_modules = []" by code_simp+
  have "\<forall>j < s_n_modules two_modules. m_init_proc (s_modules two_modules ! j) \<and>
      m_status (s_modules two_modules ! j) = MODULE_STATE_REGISTERED"
    unfolding n by (simp add: two_modules_eq less_2_cases_iff)
  moreover obtain mm' ret where i: "gallus_module_initialize_all good_env two_modules = (mm', ret)" by fastforce
  moreover have "snd (gallus_module_initialize_all good_env two_modules) = GALLUS_RESULT_OK" by code_simp
  ultimately obtain new where "m_calls mm' = new" "init_pass 0 2 GALLUS_RESULT_OK new"
    using module_initialize_order [of two_modules good_env mm' ret] n by auto
  then show ?thesis using i by (auto simp: init_pass_def numeral_2_eq_2)
qed

text \<open>
  C8. Shutting all modules down calls every started module, in the reverse order of registration,
  also when some of them fail.
\<close>

theorem module_shutdown_reverse:
  assumes "mm_reach env mm" "IS_VALID_SHUTDOWN l" "gallus_module_shutdown_all env l mm = (mm', ret)"
  shows "map fst (drop (length (m_calls mm)) (m_calls mm')) = map (\<lambda>i. Call_shutdown i l)
    (rev (filter (\<lambda>i. m_status (s_modules mm ! i) = MODULE_STATE_STARTED) [0..<s_n_modules mm]))"
proof (cases "s_n_modules mm = 0")
  case True
  then show ?thesis using assms(2,3) by (auto simp: gallus_module_shutdown_all_def Let_def)
next
  case False
  let ?m = "mm\<lparr>s_gstate := MODULE_GLOBAL_STATE_SHUTTINGDOWN\<rparr>"
  have inv: "mm_inv mm" using assms(1) by (rule mm_reach_inv)
  have pr: "\<forall>i\<in>set (rev [0..<s_n_modules mm]). m_shutdown_proc (s_modules ?m ! i)"
    using inv by (auto simp: mm_inv_def mod_ok_def Let_def)
  have d: "distinct (rev [0..<s_n_modules mm])" by simp
  have "mm' = fst (carry_on (s_shutdown_module env l) (rev [0..<s_n_modules mm]) GALLUS_RESULT_OK ?m)"
    using assms(2,3) False by (auto simp: gallus_module_shutdown_all_def reverse_order_rev Let_def)
  then show ?thesis
    using shutdown_pass [OF d pr assms(2), of env GALLUS_RESULT_OK] by (auto simp: rev_filter)
qed

theorem module_shutdown_reverse_witness:
  "map fst (drop 4 (m_calls (fst (gallus_module_shutdown_all good_env SHUTDOWN_RIGHT_NOW
     (fst (gallus_module_start_all good_env (fst (gallus_module_initialize_all good_env two_modules)))))))) =
   [Call_shutdown 1 SHUTDOWN_RIGHT_NOW, Call_shutdown 0 SHUTDOWN_RIGHT_NOW]"
proof -
  let ?mm = "fst (gallus_module_start_all good_env (fst (gallus_module_initialize_all good_env two_modules)))"
  have r: "mm_reach good_env ?mm" by (intro mm_reach.intros two_modules_reach)
  obtain mm' ret where s: "gallus_module_shutdown_all good_env SHUTDOWN_RIGHT_NOW ?mm = (mm', ret)" by fastforce
  have "length (m_calls ?mm) = 4"
    "filter (\<lambda>i. m_status (s_modules ?mm ! i) = MODULE_STATE_STARTED) [0..<s_n_modules ?mm] = [0, 1]"
    by code_simp+
  then show ?thesis
    using module_shutdown_reverse [OF r _ s] s by (simp add: IS_VALID_SHUTDOWN_def)
qed

text \<open>
  Finalisation calls the finaliser of every module that is initialised and not running, in the
  reverse order of registration, and of no other; when nothing was finalised before, the process counts
  as finalised cleanly exactly when this was every module.
\<close>

theorem module_finalize_reverse:
  assumes "s_n_finalized_modules mm = 0" "s_is_inited mm" "s_is_mods_inited mm"
  shows "map fst (drop (length (m_calls mm)) (m_calls (gallus_module_finalize_all env mm))) =
      map Call_finalize (rev (filter (finalizable mm) [0..<s_n_modules mm])) \<and>
    (gallus_module_is_finalized_cleanly (gallus_module_finalize_all env mm) \<longleftrightarrow>
      (\<forall>i < s_n_modules mm. finalizable mm i))"
proof -
  let ?m = "mm\<lparr>s_gstate := MODULE_GLOBAL_STATE_FINALIZING\<rparr>"
  have fin: "finalizable ?m = finalizable mm" by (rule ext) (simp add: finalizable_def)
  obtain new where new: "fold (s_finalize_module env) (rev [0..<s_n_modules mm]) ?m =
      ?m\<lparr>m_calls := m_calls ?m @ new, s_n_finalized_modules := s_n_finalized_modules ?m + length new\<rparr>"
    "map fst new = map Call_finalize (filter (finalizable mm) (rev [0..<s_n_modules mm]))"
    using finalize_pass [of env "rev [0..<s_n_modules mm]" ?m] fin by auto
  have all: "gallus_module_finalize_all env mm = mm\<lparr>s_gstate := MODULE_GLOBAL_STATE_FINALIZED,
      m_calls := m_calls mm @ new, s_n_finalized_modules := length new\<rparr>"
  proof (cases "s_n_modules mm = 0")
    case True
    then have "new = []" using new(2) by simp
    then show ?thesis using True assms(1) by (simp add: gallus_module_finalize_all_def)
  next
    case False
    then show ?thesis using new(1) assms(1) by (simp add: gallus_module_finalize_all_def reverse_order_rev Let_def)
  qed
  have len: "length new = length (filter (finalizable mm) [0..<s_n_modules mm])"
    using arg_cong [OF new(2), of length] by (simp add: rev_filter [symmetric])
  have "length (filter (finalizable mm) [0..<s_n_modules mm]) = s_n_modules mm \<longleftrightarrow>
      (\<forall>i < s_n_modules mm. finalizable mm i)"
    using length_filter_less [of _ "[0..<s_n_modules mm]" "finalizable mm"]
    by (auto simp: filter_id_conv dest: less_imp_neq)
  then show ?thesis using new(2) assms(2,3) len
    by (auto simp: all gallus_module_is_finalized_cleanly_def s_n_modules_def rev_filter)
qed


theorem module_finalize_reverse_witness:
  "map fst (drop 2 (m_calls (gallus_module_finalize_all good_env
     (fst (gallus_module_initialize_all good_env two_modules))))) = [Call_finalize 1, Call_finalize 0] \<and>
   gallus_module_is_finalized_cleanly (gallus_module_finalize_all good_env
     (fst (gallus_module_initialize_all good_env two_modules)))"
proof -
  let ?mm = "fst (gallus_module_initialize_all good_env two_modules)"
  have "s_n_finalized_modules ?mm = 0" "s_is_inited ?mm" "s_is_mods_inited ?mm" "length (m_calls ?mm) = 2"
    "filter (finalizable ?mm) [0..<s_n_modules ?mm] = [0, 1]" "s_n_modules ?mm = 2"
    by code_simp+
  moreover from this have "\<forall>i < s_n_modules ?mm. finalizable ?mm i"
    by (metis atLeastLessThan_iff filter_id_conv le0 list.size(3,4) length_filter_less less_irrefl_nat
        numeral_2_eq_2 One_nat_def add_Suc add_0 length_upt minus_nat.diff_0 set_upt)
  ultimately show ?thesis using module_finalize_reverse [of ?mm good_env] by simp
qed

text \<open>
  Looking a module up never finds one, whatever was registered: the search only looks at the
  names when the caller passes a pointer for the result, and both callers pass NULL. So registering a
  name twice is not detected: registration only fails for lack of room or invalid arguments.
\<close>

theorem module_find_never_finds:
  "gallus_module_find mm name =
     (if is_valid_string name then GALLUS_RESULT_NOT_FOUND else GALLUS_RESULT_INVALID_ARGS) \<and>
   snd (gallus_module_register mm name p) \<noteq> GALLUS_RESULT_ALREADY_EXISTS"
proof -
  have "find_from s False i ms = None" for s i ms by (induction ms arbitrary: i) simp_all
  moreover have "\<not> is_valid_string None" by (simp add: is_valid_string_def)
  ultimately show ?thesis
    by (auto simp: gallus_module_find_def gallus_module_register_def s_register_module_def s_find_module_def
        split: option.splits)
qed

text \<open>
  A second finalisation calls the finalisers again, because the state of a module is never set to
  finalised, and the process then does not count as finalised cleanly.
\<close>

lemma module_finalized_twice:
  "(let mm = fst (gallus_module_initialize_all good_env two_modules);
        mm = gallus_module_finalize_all good_env mm;
        again = gallus_module_finalize_all good_env mm
    in gallus_module_is_finalized_cleanly mm \<and> \<not> gallus_module_is_finalized_cleanly again \<and>
       length (filter (\<lambda>c. is_finalize (fst c)) (m_calls again)) = 4)"
  by code_simp

text \<open>
  The time limit of waiting for all modules is applied anew to every module: after a wait of 6 out of
  10 units the next one may still take 4, and the one after that 6.
\<close>

definition thread_env :: module_env where
  "thread_env cs c = (GALLUS_RESULT_OK, True)"

lemma module_wait_budget:
  "(let mm = fst (gallus_module_register two_modules (Some ''c'') all_procs);
        mm = fst (gallus_module_start_all thread_env (fst (gallus_module_initialize_all thread_env mm)));
        mm = fst (gallus_module_wait_all thread_env (\<lambda>i. if i = 2 then 6 else 4) 10 mm)
    in map fst (drop 6 (m_calls mm)) = [Call_wait 2 10, Call_wait 1 4, Call_wait 0 6])"
  by code_simp

end
