(* ===== verification/Callout.thy ===== *)
theory Callout
  imports Gallus_Base
begin

text \<open>
  The callout scheduler (\<^verbatim>\<open>framework/lib/callout.c\<close>, \<^verbatim>\<open>callout_task.c\<close>,
  \<^verbatim>\<open>callout_queue.c\<close>): tasks that run at a time, repeatedly, at once or when idle.

  A task is named by its address, NULL is 0. \<open>c_tasks\<close> maps the addresses of the allocated task
  records to their contents. The table \<^verbatim>\<open>s_tsk_tbl\<close> is a partial map and \<open>malloc_ok\<close> says
  whether an allocation for a new entry succeeds now; the two blocking queues are lists bounded by
  \<^verbatim>\<open>CALLOUT_TASK_MAX\<close>. The hash map and the blocking queue have theories of their own. The clock
  is an argument \<open>now\<close>. Of the procedures, the argument and the name of a task only whether they are
  NULL matters; \<^verbatim>\<open>m_is_in_bbq\<close> is never read. Everything a task does to the outside is appended to
  \<open>c_trace\<close>. A thread that waits in \<^verbatim>\<open>s_cancel\<close> is an element of \<open>c_cancellers\<close>, with
  whether it is about to test the execution count (and not asleep).
\<close>

definition CALLOUT_TASK_MAX :: nat where
  "CALLOUT_TASK_MAX = 1000"

definition CALLOUT_TASK_SCHED_JITTER :: gallus_chrono_t where
  "CALLOUT_TASK_SCHED_JITTER = 1000"

definition CALLOUT_TASK_MIN_INTERVAL :: gallus_chrono_t where
  "CALLOUT_TASK_MIN_INTERVAL = 10 * 1000"

definition CALLOUT_IDLE_PROC_MIN_INTERVAL :: gallus_chrono_t where
  "CALLOUT_IDLE_PROC_MIN_INTERVAL = 1000 * 1000"

datatype callout_task_state =
    TASK_STATE_UNKNOWN
  | TASK_STATE_CREATED
  | TASK_STATE_ENQUEUED
  | TASK_STATE_DEQUEUED
  | TASK_STATE_EXECUTING
  | TASK_STATE_EXECUTED
  | TASK_STATE_EXEC_FAILED
  | TASK_STATE_CANCELLED
  | TASK_STATE_DELETING

type_synonym task_id = nat

record callout_task =
  m_status :: callout_task_state
  m_exec_ref_count :: nat
  m_cancel_ref_count :: nat
  m_proc :: bool
  m_arg :: bool
  m_freeproc :: bool
  m_do_repeat :: bool
  m_is_first :: bool
  m_is_in_timed_q :: bool
  m_initial_delay_time :: gallus_chrono_t
  m_interval_time :: gallus_chrono_t
  m_last_abstime :: gallus_chrono_t
  m_next_abstime :: gallus_chrono_t

datatype callout_event =
    Ev_create task_id bool
  | Ev_run task_id gallus_result_t
  | Ev_free_arg task_id
  | Ev_destroy task_id
  | Ev_wakeup
  | Ev_idle gallus_result_t

record callout =
  c_tasks :: "task_id \<rightharpoonup> callout_task"
  s_tsk_tbl :: "task_id \<rightharpoonup> callout_task_state"
  s_urgent_tsk_q :: "task_id list"
  s_chrono_tsk_q :: "task_id list"
  s_idle_tsk_q :: "task_id list"
  c_cancellers :: "(task_id \<times> bool) list"
  malloc_ok :: bool
  s_is_handler_inited :: bool
  s_idle_proc :: bool
  s_idle_interval :: gallus_chrono_t
  s_next_idle_abstime :: gallus_chrono_t
  s_do_loop :: bool
  c_trace :: "callout_event list"

definition callout_init :: callout where
  "callout_init =
    \<lparr>c_tasks = Map.empty, s_tsk_tbl = Map.empty, s_urgent_tsk_q = [], s_chrono_tsk_q = [],
     s_idle_tsk_q = [], c_cancellers = [], malloc_ok = True, s_is_handler_inited = False,
     s_idle_proc = False, s_idle_interval = - 1, s_next_idle_abstime = - 1, s_do_loop = False,
     c_trace = []\<rparr>"

definition new_task :: "bool \<Rightarrow> bool \<Rightarrow> bool \<Rightarrow> callout_task" where
  "new_task proc arg freeproc =
    \<lparr>m_status = TASK_STATE_CREATED, m_exec_ref_count = 0, m_cancel_ref_count = 0, m_proc = proc,
     m_arg = arg, m_freeproc = freeproc, m_do_repeat = False, m_is_first = True,
     m_is_in_timed_q = False, m_initial_delay_time = - 1, m_interval_time = - 1,
     m_last_abstime = 0, m_next_abstime = 0\<rparr>"

text \<open>The record at an address; nothing is known of what a freed address holds.\<close>

definition task :: "callout \<Rightarrow> task_id \<Rightarrow> callout_task" where
  "task c t = the (c_tasks c t)"

definition upd_task :: "task_id \<Rightarrow> (callout_task \<Rightarrow> callout_task) \<Rightarrow> callout \<Rightarrow> callout" where
  "upd_task t f c = c\<lparr>c_tasks := (c_tasks c)(t := map_option f (c_tasks c t))\<rparr>"

definition trace :: "callout_event \<Rightarrow> callout \<Rightarrow> callout" where
  "trace e c = c\<lparr>c_trace := c_trace c @ [e]\<rparr>"

definition s_wakeup_task :: "task_id \<Rightarrow> callout \<Rightarrow> callout" where
  "s_wakeup_task t c =
    c\<lparr>c_cancellers := map (\<lambda>(u, b). (u, b \<or> u = t)) (c_cancellers c)\<rparr>"

subsection \<open>The table of valid tasks\<close>

definition s_get_task_state_in_table :: "callout \<Rightarrow> task_id \<Rightarrow> callout_task_state" where
  "s_get_task_state_in_table c t =
    (if t \<noteq> 0 then (case s_tsk_tbl c t of Some st \<Rightarrow> st | None \<Rightarrow> TASK_STATE_UNKNOWN)
     else TASK_STATE_UNKNOWN)"

definition s_set_task_state_in_table ::
  "task_id \<Rightarrow> callout_task_state \<Rightarrow> callout \<Rightarrow> callout \<times> callout_task_state" where
  "s_set_task_state_in_table t st c =
    (if t \<noteq> 0 then
       (case s_tsk_tbl c t of
          Some old \<Rightarrow> (c\<lparr>s_tsk_tbl := (s_tsk_tbl c)(t \<mapsto> st)\<rparr>, old)
        | None \<Rightarrow>
            if malloc_ok c then (c\<lparr>s_tsk_tbl := (s_tsk_tbl c)(t \<mapsto> st)\<rparr>, st)
            else (c, TASK_STATE_UNKNOWN))
     else (c, TASK_STATE_UNKNOWN))"

definition s_delete_task_in_table :: "task_id \<Rightarrow> callout \<Rightarrow> callout" where
  "s_delete_task_in_table t c =
    (if t \<noteq> 0 then c\<lparr>s_tsk_tbl := (s_tsk_tbl c)(t := None)\<rparr> else c)"

text \<open>Where the code sets the state in the table and in the record.\<close>

definition set_states :: "task_id \<Rightarrow> callout_task_state \<Rightarrow> callout \<Rightarrow> callout" where
  "set_states t st c =
    upd_task t (\<lambda>k. k\<lparr>m_status := st\<rparr>) (fst (s_set_task_state_in_table t st c))"

subsection \<open>The queue of timed tasks\<close>

definition timed_insert :: "(task_id \<Rightarrow> gallus_chrono_t) \<Rightarrow> task_id \<Rightarrow> task_id list \<Rightarrow> task_id list" where
  "timed_insert next t q =
    (case q of
       [] \<Rightarrow> q @ [t]
     | e # _ \<Rightarrow>
         if next e > next t then t # q
         else takeWhile (\<lambda>e. next e \<le> next t) q @ t # dropWhile (\<lambda>e. next e \<le> next t) q)"

text \<open>The next execution time of a task.\<close>

definition sched_times :: "gallus_chrono_t \<Rightarrow> callout_task \<Rightarrow> callout_task" where
  "sched_times now k =
    (if \<not> m_is_first k \<and> m_do_repeat k
     then k\<lparr>m_next_abstime := s64 (m_last_abstime k + m_interval_time k)\<rparr>
     else k\<lparr>m_last_abstime := now, m_next_abstime := s64 (now + m_initial_delay_time k)\<rparr>)"

definition s_do_sched :: "gallus_chrono_t \<Rightarrow> task_id \<Rightarrow> callout \<Rightarrow> callout \<times> gallus_chrono_t" where
  "s_do_sched now t c =
    (if \<not> m_is_in_timed_q (task c t) then
       (let c = upd_task t (sched_times now) c;
            c = c\<lparr>s_chrono_tsk_q := timed_insert (\<lambda>e. m_next_abstime (task c e)) t (s_chrono_tsk_q c)\<rparr>;
            c = set_states t TASK_STATE_ENQUEUED c;
            c = upd_task t (\<lambda>k. k\<lparr>m_is_in_timed_q := True\<rparr>) c
        in (trace Ev_wakeup c, m_next_abstime (task c t)))
     else (c, - 1))"

definition s_schedule_timed_task :: "gallus_chrono_t \<Rightarrow> task_id \<Rightarrow> callout \<Rightarrow> callout \<times> gallus_chrono_t" where
  "s_schedule_timed_task now t c = (if t \<noteq> 0 then s_do_sched now t c else (c, - 1))"

definition s_do_unsched :: "task_id \<Rightarrow> callout \<Rightarrow> callout" where
  "s_do_unsched t c =
    (if m_is_in_timed_q (task c t) then
       (let c = c\<lparr>s_chrono_tsk_q := remove1 t (s_chrono_tsk_q c)\<rparr>;
            c = (if m_status (task c t) = TASK_STATE_ENQUEUED then set_states t TASK_STATE_DEQUEUED c else c)
        in upd_task t (\<lambda>k. k\<lparr>m_is_in_timed_q := False\<rparr>) c)
     else c)"

definition s_unschedule_timed_task :: "task_id \<Rightarrow> callout \<Rightarrow> callout" where
  "s_unschedule_timed_task t c = (if t \<noteq> 0 then s_do_unsched t c else c)"

definition s_peek_current_wakeup_time :: "callout \<Rightarrow> gallus_chrono_t" where
  "s_peek_current_wakeup_time c =
    (case s_chrono_tsk_q c of [] \<Rightarrow> - 1 | t # _ \<Rightarrow> m_next_abstime (task c t))"

text \<open>Taking a task out of the queue for execution.\<close>

definition take_out :: "task_id \<Rightarrow> callout \<Rightarrow> callout" where
  "take_out t c =
    (let c = c\<lparr>s_chrono_tsk_q := remove1 t (s_chrono_tsk_q c)\<rparr>;
         c = set_states t TASK_STATE_DEQUEUED c
     in upd_task t (\<lambda>k. k\<lparr>m_is_in_timed_q := False\<rparr>) c)"

definition s_get :: "callout \<Rightarrow> callout \<times> task_id option" where
  "s_get c = (case s_chrono_tsk_q c of [] \<Rightarrow> (c, None) | t # _ \<Rightarrow> (take_out t c, Some t))"

fun runnables_loop :: "gallus_chrono_t \<Rightarrow> nat \<Rightarrow> callout \<Rightarrow> callout \<times> task_id list" where
  "runnables_loop the_abstime 0 c = (c, [])"
| "runnables_loop the_abstime (Suc n) c =
    (case s_chrono_tsk_q c of
       [] \<Rightarrow> (c, [])
     | e # _ \<Rightarrow>
         if m_next_abstime (task c e) \<le> the_abstime
         then (let (c, es) = runnables_loop the_abstime n (take_out e c) in (c, e # es))
         else (c, []))"

text \<open>The third component is what is stored at \<open>next_wakeup\<close>.\<close>

definition s_get_runnables ::
  "gallus_chrono_t \<Rightarrow> nat \<Rightarrow> callout \<Rightarrow> callout \<times> task_id list \<times> gallus_chrono_t" where
  "s_get_runnables base_abstime n c =
    (let the_abstime = s64 (base_abstime + CALLOUT_TASK_SCHED_JITTER);
         (c, tasks) = runnables_loop the_abstime n c
     in (c, tasks, case s_chrono_tsk_q c of [] \<Rightarrow> - 1 | e # _ \<Rightarrow> m_next_abstime (task c e)))"

definition s_get_runnable_timed_task ::
  "gallus_chrono_t \<Rightarrow> nat \<Rightarrow> callout \<Rightarrow> callout \<times> task_id list \<times> gallus_result_t" where
  "s_get_runnable_timed_task base_abstime n c =
    (if base_abstime > 0 \<and> n > 0 then
       (let (c, tasks, _) = s_get_runnables base_abstime n c in (c, tasks, int (length tasks)))
     else (c, [], GALLUS_RESULT_ANY_FAILURES))"

subsection \<open>Creating and destroying tasks\<close>

text \<open>
  \<open>alloc\<close> is the outcome of the allocations of the name, the lock, the condition variable and the
  record, \<open>t\<close> the address of the record. The third component is what is stored at \<open>tptr\<close>.
\<close>

definition s_delete :: "task_id \<Rightarrow> callout \<Rightarrow> callout" where
  "s_delete t c =
    (let st = s_get_task_state_in_table c t in
     if st = TASK_STATE_CANCELLED then
       (let did_delete = (m_status (task c t) \<noteq> TASK_STATE_DELETING);
            c = (if did_delete then
                   (let c = s_delete_task_in_table t c;
                        c = upd_task t (\<lambda>k. k\<lparr>m_status := TASK_STATE_DELETING\<rparr>) c
                    in if m_freeproc (task c t) \<and> m_arg (task c t) then trace (Ev_free_arg t) c else c)
                 else c);
            c = upd_task t (\<lambda>k. k\<lparr>m_cancel_ref_count := 0, m_exec_ref_count := 0\<rparr>) c;
            c = s_wakeup_task t c
        in if did_delete then trace (Ev_destroy t) (c\<lparr>c_tasks := (c_tasks c)(t := None)\<rparr>) else c)
     else c)"

definition s_destroy_task_no_lock :: "task_id \<Rightarrow> callout \<Rightarrow> callout" where
  "s_destroy_task_no_lock t c = (if t \<noteq> 0 then s_delete t c else c)"

definition s_create_task ::
  "gallus_result_t \<Rightarrow> task_id \<Rightarrow> bool \<Rightarrow> bool \<Rightarrow> bool \<Rightarrow> callout \<Rightarrow>
   callout \<times> gallus_result_t \<times> task_id" where
  "s_create_task alloc t proc arg freeproc c =
    (if alloc = GALLUS_RESULT_OK then
       (let c = c\<lparr>c_tasks := (c_tasks c)(t \<mapsto> new_task proc arg freeproc)\<rparr>;
            (c, old) = s_set_task_state_in_table t TASK_STATE_CREATED c
        in if old \<noteq> TASK_STATE_CREATED then
             (let c = upd_task t (\<lambda>k. k\<lparr>m_arg := False, m_freeproc := False\<rparr>) c
              in (s_destroy_task_no_lock t c, GALLUS_RESULT_NO_MEMORY, 0))
           else (trace (Ev_create t (arg \<and> freeproc)) c, GALLUS_RESULT_OK, t))
     else (c, alloc, 0))"

definition s_set_cancel_and_destroy_task_no_lock :: "task_id \<Rightarrow> callout \<Rightarrow> callout" where
  "s_set_cancel_and_destroy_task_no_lock t c =
    (if t \<noteq> 0 then
       (let c = s_unschedule_timed_task t c;
            c = fst (s_set_task_state_in_table t TASK_STATE_CANCELLED c)
        in s_destroy_task_no_lock t c)
     else c)"

text \<open>The procedure the blocking queues release their elements with.\<close>

definition s_task_freeup :: "task_id \<Rightarrow> callout \<Rightarrow> callout" where
  "s_task_freeup t c = (if t \<noteq> 0 then s_set_cancel_and_destroy_task_no_lock t c else c)"

lemma chrono_q_simps [simp]:
  "s_chrono_tsk_q (upd_task t f c) = s_chrono_tsk_q c"
  "s_chrono_tsk_q (trace e c) = s_chrono_tsk_q c"
  "s_chrono_tsk_q (s_wakeup_task t c) = s_chrono_tsk_q c"
  "s_chrono_tsk_q (fst (s_set_task_state_in_table t st c)) = s_chrono_tsk_q c"
  "s_chrono_tsk_q (s_delete_task_in_table t c) = s_chrono_tsk_q c"
  "s_chrono_tsk_q (set_states t st c) = s_chrono_tsk_q c"
  "s_chrono_tsk_q (take_out t c) = remove1 t (s_chrono_tsk_q c)"
  by (simp_all add: upd_task_def trace_def s_wakeup_task_def s_set_task_state_in_table_def
      s_delete_task_in_table_def set_states_def take_out_def Let_def split: option.split)

lemma chrono_q_delete [simp]:
  "s_chrono_tsk_q (s_delete t c) = s_chrono_tsk_q c"
  "s_chrono_tsk_q (s_destroy_task_no_lock t c) = s_chrono_tsk_q c"
  by (simp_all add: s_delete_def s_destroy_task_no_lock_def Let_def)

lemma length_chrono_q_cancel:
  "length (s_chrono_tsk_q (s_set_cancel_and_destroy_task_no_lock t c)) \<le> length (s_chrono_tsk_q c)"
  by (auto simp: s_set_cancel_and_destroy_task_no_lock_def s_unschedule_timed_task_def
      s_do_unsched_def Let_def length_remove1)

lemma length_chrono_q_take_out:
  "s_chrono_tsk_q c = t # ts \<Longrightarrow>
    length (s_chrono_tsk_q (s_set_cancel_and_destroy_task_no_lock t (take_out t c))) < Suc (length ts)"
  using length_chrono_q_cancel [of t "take_out t c"] by simp

function s_destroy_all_queued_timed_tasks :: "callout \<Rightarrow> callout" where
  "s_destroy_all_queued_timed_tasks c =
    (case s_get c of
       (c, None) \<Rightarrow> c
     | (c, Some t) \<Rightarrow> s_destroy_all_queued_timed_tasks (s_set_cancel_and_destroy_task_no_lock t c))"
  by auto
termination
  by (relation "measure (\<lambda>c. length (s_chrono_tsk_q c))")
    (auto simp: s_get_def length_chrono_q_take_out split: list.splits)

declare s_destroy_all_queued_timed_tasks.simps [simp del]

subsection \<open>Executing\<close>

text \<open>
  The procedure of a task is foreign code: \<open>r\<close> is what it would return.
\<close>

definition s_runnable_run :: "gallus_result_t \<Rightarrow> task_id \<Rightarrow> callout \<Rightarrow> callout \<times> gallus_result_t" where
  "s_runnable_run r t c =
    (if m_proc (task c t) then (trace (Ev_run t r) c, r) else (c, GALLUS_RESULT_INVALID_ARGS))"

text \<open>
  \<^verbatim>\<open>s_exec_task\<close> in the parts between which other threads run: up to the start of the
  procedure, its return, the rescheduling, and the drop of the execution count. The first part ends
  with the procedure running, with a result, or with the fatal exit.
\<close>

datatype exec_entry =
    Exec_start
  | Exec_return gallus_result_t
  | Exec_fatal

definition not_the_dequeued_state :: "callout_task_state \<Rightarrow> task_id \<Rightarrow> callout \<Rightarrow> callout \<times> exec_entry" where
  "not_the_dequeued_state st t c =
    (case st of
       TASK_STATE_EXECUTING \<Rightarrow> (c, Exec_return GALLUS_RESULT_OK)
     | TASK_STATE_CANCELLED \<Rightarrow>
         (s_set_cancel_and_destroy_task_no_lock t c, Exec_return GALLUS_RESULT_OK)
     | TASK_STATE_UNKNOWN \<Rightarrow> (c, Exec_return GALLUS_RESULT_INVALID_OBJECT)
     | _ \<Rightarrow> (c, Exec_return GALLUS_RESULT_INVALID_STATE_TRANSITION))"

definition exec_enter :: "task_id \<Rightarrow> callout \<Rightarrow> callout \<times> exec_entry" where
  "exec_enter t c =
    (if t \<noteq> 0 then
       (let st = s_get_task_state_in_table c t in
        if st = TASK_STATE_DEQUEUED then
          (let is_execing = m_exec_ref_count (task c t);
               c = upd_task t (\<lambda>k. k\<lparr>m_exec_ref_count := m_exec_ref_count k + 1\<rparr>) c
           in if is_execing = 0 then
                (let st = s_get_task_state_in_table c t in
                 if st = TASK_STATE_DEQUEUED \<and> m_status (task c t) = TASK_STATE_DEQUEUED then
                   (upd_task t (\<lambda>k. k\<lparr>m_is_first := False\<rparr>) (set_states t TASK_STATE_EXECUTING c),
                    Exec_start)
                 else if st = m_status (task c t) then not_the_dequeued_state st t c
                 else (c, Exec_fatal))
              else
                (upd_task t (\<lambda>k. k\<lparr>m_exec_ref_count := m_exec_ref_count k - 1\<rparr>) c,
                 Exec_return GALLUS_RESULT_OK))
        else not_the_dequeued_state st t c)
     else (c, Exec_return GALLUS_RESULT_INVALID_ARGS))"

definition exec_ran :: "gallus_result_t \<Rightarrow> task_id \<Rightarrow> callout \<Rightarrow> callout \<times> gallus_result_t" where
  "exec_ran r t c =
    (let (c, ret) = s_runnable_run r t c
     in (if ret \<noteq> GALLUS_RESULT_OK then set_states t TASK_STATE_EXEC_FAILED c else c, ret))"

text \<open>The boolean is \<open>do_delete\<close>.\<close>

definition exec_resched ::
  "gallus_chrono_t \<Rightarrow> gallus_result_t \<Rightarrow> task_id \<Rightarrow> callout \<Rightarrow> callout \<times> gallus_result_t \<times> bool" where
  "exec_resched now ret t c =
    (if ret = GALLUS_RESULT_OK then
       (if m_cancel_ref_count (task c t) = 0 then
          (if m_do_repeat (task c t) then
             (let (c, ret) = s_schedule_timed_task now t c
              in if ret \<ge> 0 then (c, GALLUS_RESULT_OK, False) else (c, ret, True))
           else (c, ret, True))
        else (c, ret, True))
     else (c, ret, True))"

definition exec_leave :: "bool \<Rightarrow> task_id \<Rightarrow> callout \<Rightarrow> callout" where
  "exec_leave do_delete t c =
    (let drop_ref = upd_task t (\<lambda>k. k\<lparr>m_exec_ref_count := m_exec_ref_count k - 1\<rparr>)
     in if \<not> do_delete then drop_ref c
        else if m_cancel_ref_count (task c t) = 0
        then s_set_cancel_and_destroy_task_no_lock t (drop_ref c)
        else s_wakeup_task t (drop_ref c))"

definition exec_finish ::
  "gallus_chrono_t \<Rightarrow> gallus_result_t \<Rightarrow> task_id \<Rightarrow> callout \<Rightarrow> callout \<times> gallus_result_t" where
  "exec_finish now ret t c =
    (let (c, ret, do_delete) = exec_resched now ret t c in (exec_leave do_delete t c, ret))"

text \<open>
  A task may reset its interval while it runs. What a procedure does is a function \<open>env\<close> of the
  trace: its result, the interval it sets, and the time when it returns.
\<close>

definition gallus_callout_task_reset_interval ::
  "task_id \<Rightarrow> gallus_chrono_t \<Rightarrow> callout \<Rightarrow> callout \<times> gallus_result_t" where
  "gallus_callout_task_reset_interval t interval c =
    (if t \<noteq> 0 then
       (if interval \<ge> CALLOUT_TASK_MIN_INTERVAL then
          (if m_status (task c t) = TASK_STATE_EXECUTING
           then (upd_task t (\<lambda>k. k\<lparr>m_interval_time := interval\<rparr>) c, GALLUS_RESULT_OK)
           else (c, GALLUS_RESULT_INVALID_STATE_TRANSITION))
        else (c, GALLUS_RESULT_TOO_SMALL))
     else (c, GALLUS_RESULT_INVALID_ARGS))"

record proc_outcome =
  po_result :: gallus_result_t
  po_interval :: "gallus_chrono_t option"
  po_now :: gallus_chrono_t

type_synonym callout_env = "callout_event list \<Rightarrow> task_id \<Rightarrow> proc_outcome"

definition proc_resets :: "gallus_chrono_t option \<Rightarrow> task_id \<Rightarrow> callout \<Rightarrow> callout" where
  "proc_resets i t c =
    (case i of
       Some i \<Rightarrow> if m_proc (task c t) then fst (gallus_callout_task_reset_interval t i c) else c
     | None \<Rightarrow> c)"

text \<open>The whole of \<^verbatim>\<open>s_exec_task\<close> without interference; None is the fatal exit.\<close>

definition s_exec_task :: "callout_env \<Rightarrow> task_id \<Rightarrow> callout \<Rightarrow> callout \<times> gallus_result_t option" where
  "s_exec_task env t c =
    (case exec_enter t c of
       (c, Exec_return r) \<Rightarrow> (c, Some r)
     | (c, Exec_fatal) \<Rightarrow> (c, None)
     | (c, Exec_start) \<Rightarrow>
         (let p = env (c_trace c) t;
              c = proc_resets (po_interval p) t c;
              (c, ret) = exec_ran (po_result p) t c;
              (c, ret) = exec_finish (po_now p) ret t c
          in (c, Some ret)))"

subsection \<open>Cancelling\<close>

text \<open>The first part of \<^verbatim>\<open>s_cancel\<close>; the boolean tells whether the caller goes on to wait.\<close>

definition cancel_enter :: "task_id \<Rightarrow> callout \<Rightarrow> callout \<times> bool" where
  "cancel_enter t c =
    (let st = s_get_task_state_in_table c t in
     if st \<noteq> TASK_STATE_UNKNOWN \<and> st \<noteq> TASK_STATE_CANCELLED then
       (if m_exec_ref_count (task c t) \<noteq> 0 then
          (upd_task t (\<lambda>k. k\<lparr>m_cancel_ref_count := m_cancel_ref_count k + 1\<rparr>) c, True)
        else if st = TASK_STATE_ENQUEUED then
          (if m_is_in_timed_q (task c t) then (s_set_cancel_and_destroy_task_no_lock t c, False)
           else (set_states t TASK_STATE_CANCELLED c, False))
        else if st = TASK_STATE_DEQUEUED then (set_states t TASK_STATE_CANCELLED c, False)
        else (c, False))
     else (c, False))"

text \<open>What a canceller does when the execution it waited for is over.\<close>

definition cancel_leave :: "task_id \<Rightarrow> callout \<Rightarrow> callout" where
  "cancel_leave t c =
    (if m_status (task c t) = TASK_STATE_DELETING then c
     else
       (let c = upd_task t (\<lambda>k. k\<lparr>m_cancel_ref_count := m_cancel_ref_count k - 1\<rparr>) c
        in if m_cancel_ref_count (task c t) > 0 then c
           else s_set_cancel_and_destroy_task_no_lock t c))"

definition s_cancel :: "task_id \<Rightarrow> callout \<Rightarrow> callout" where
  "s_cancel t c =
    (if t \<noteq> 0 then
       (let (c, waits) = cancel_enter t c
        in if waits then c\<lparr>c_cancellers := c_cancellers c @ [(t, True)]\<rparr> else c)
     else c)"

definition gallus_callout_cancel_task :: "task_id \<Rightarrow> callout \<Rightarrow> callout" where
  "gallus_callout_cancel_task t c = (if s_is_handler_inited c \<and> t \<noteq> 0 then s_cancel t c else c)"

text \<open>
  One pass of the wait loop of the canceller \<open>i\<close>: it leaves when the count is 0 and sleeps otherwise.
\<close>

definition canceller_turn :: "nat \<Rightarrow> callout \<Rightarrow> callout" where
  "canceller_turn i c =
    (let t = fst (c_cancellers c ! i) in
     if m_exec_ref_count (task c t) \<noteq> 0
     then c\<lparr>c_cancellers := (c_cancellers c)[i := (t, False)]\<rparr>
     else cancel_leave t (c\<lparr>c_cancellers := take i (c_cancellers c) @ drop (i + 1) (c_cancellers c)\<rparr>))"

subsection \<open>Submitting\<close>

text \<open>
  A put into one of the blocking queues waits without limit while the queue is full, holding the
  global lock that every getter needs: it does not return, which is None.
\<close>

definition bbq_put :: "task_id list \<Rightarrow> task_id \<Rightarrow> task_id list option" where
  "bbq_put q t = (if length q < CALLOUT_TASK_MAX then Some (q @ [t]) else None)"

definition submitted_task :: "gallus_chrono_t \<Rightarrow> gallus_chrono_t \<Rightarrow> callout_task \<Rightarrow> callout_task" where
  "submitted_task initial_delay interval k =
    (let k = k\<lparr>m_initial_delay_time := initial_delay\<rparr>
     in if interval > 0 then k\<lparr>m_interval_time := interval, m_do_repeat := True\<rparr> else k)"

definition submit_put ::
  "gallus_chrono_t \<Rightarrow> task_id \<Rightarrow> gallus_chrono_t \<Rightarrow> callout \<Rightarrow> (callout \<times> gallus_result_t) option" where
  "submit_put now t initial_delay c =
    (if initial_delay = 0 then
       map_option (\<lambda>q. (c\<lparr>s_urgent_tsk_q := q\<rparr>, GALLUS_RESULT_OK)) (bbq_put (s_urgent_tsk_q c) t)
     else if initial_delay > 0 then
       (let (c, r) = s_schedule_timed_task now t c
        in Some (c, if r > 0 then GALLUS_RESULT_OK else GALLUS_RESULT_ANY_FAILURES))
     else
       map_option (\<lambda>q. (c\<lparr>s_idle_tsk_q := q\<rparr>, GALLUS_RESULT_OK)) (bbq_put (s_idle_tsk_q c) t))"

definition s_submit_task ::
  "gallus_chrono_t \<Rightarrow> task_id \<Rightarrow> gallus_chrono_t \<Rightarrow> gallus_chrono_t \<Rightarrow> callout \<Rightarrow>
   (callout \<times> gallus_result_t) option" where
  "s_submit_task now t initial_delay interval c =
    (if t \<noteq> 0 then
       (if interval \<ge> CALLOUT_TASK_MIN_INTERVAL \<or> interval = 0 then
          map_option
            (\<lambda>(c, ret).
               (if ret = GALLUS_RESULT_OK \<and> \<not> m_is_in_timed_q (task c t)
                then set_states t TASK_STATE_ENQUEUED c else c, ret))
            (submit_put now t initial_delay (upd_task t (submitted_task initial_delay interval) c))
        else Some (c, GALLUS_RESULT_TOO_SMALL))
     else Some (c, GALLUS_RESULT_INVALID_ARGS))"

text \<open>\<open>t\<close> is the task \<open>tptr\<close> points to, 0 when either pointer is NULL.\<close>

definition gallus_callout_submit_task ::
  "gallus_chrono_t \<Rightarrow> task_id \<Rightarrow> gallus_chrono_t \<Rightarrow> gallus_chrono_t \<Rightarrow> callout \<Rightarrow>
   (callout \<times> gallus_result_t) option" where
  "gallus_callout_submit_task now t delay interval c =
    (if s_is_handler_inited c then
       (if t \<noteq> 0 then
          (let st = s_get_task_state_in_table c t in
           if st = TASK_STATE_CREATED then s_submit_task now t delay interval c
           else if st = TASK_STATE_UNKNOWN then Some (c, GALLUS_RESULT_INVALID_OBJECT)
           else Some (c, GALLUS_RESULT_INVALID_STATE_TRANSITION))
        else Some (c, GALLUS_RESULT_INVALID_ARGS))
     else Some (c, GALLUS_RESULT_NOT_OPERATIONAL))"

definition gallus_callout_create_task ::
  "gallus_result_t \<Rightarrow> task_id \<Rightarrow> bool \<Rightarrow> bool \<Rightarrow> bool \<Rightarrow> bool \<Rightarrow> callout \<Rightarrow>
   callout \<times> gallus_result_t \<times> task_id" where
  "gallus_callout_create_task alloc t tptr proc arg freeproc c =
    (if s_is_handler_inited c then
       (if tptr then s_create_task alloc t proc arg freeproc c
        else (c, GALLUS_RESULT_INVALID_ARGS, 0))
     else (c, GALLUS_RESULT_NOT_OPERATIONAL, 0))"

definition gallus_callout_task_state :: "task_id \<Rightarrow> bool \<Rightarrow> callout \<Rightarrow> gallus_result_t \<times> callout_task_state option" where
  "gallus_callout_task_state t sptr c =
    (if t \<noteq> 0 \<and> sptr then (GALLUS_RESULT_OK, Some (s_get_task_state_in_table c t))
     else (GALLUS_RESULT_INVALID_ARGS, None))"

text \<open>
  Handing a task to its execution: the part \<open>s_run_tasks_by_self\<close> and \<open>s_submit_callout_stage\<close>
  share.
\<close>

definition dispatch_task :: "gallus_chrono_t \<Rightarrow> task_id \<Rightarrow> callout \<Rightarrow> callout" where
  "dispatch_task start_time t c =
    (let c = (if m_status (task c t) = TASK_STATE_ENQUEUED \<or> m_status (task c t) = TASK_STATE_CREATED
              then set_states t TASK_STATE_DEQUEUED c else c)
     in upd_task t (\<lambda>k. k\<lparr>m_last_abstime := start_time\<rparr>) c)"

fun run_each :: "callout_env \<Rightarrow> gallus_chrono_t \<Rightarrow> task_id list \<Rightarrow> callout \<Rightarrow> callout" where
  "run_each env start_time [] c = c"
| "run_each env start_time (t # ts) c =
    run_each env start_time ts (fst (s_exec_task env t (dispatch_task start_time t c)))"

definition s_run_tasks_by_self ::
  "callout_env \<Rightarrow> gallus_chrono_t \<Rightarrow> task_id list \<Rightarrow> callout \<Rightarrow> callout \<times> gallus_result_t" where
  "s_run_tasks_by_self env start_time tasks c =
    (if tasks \<noteq> [] then (run_each env start_time tasks c, int (length tasks))
     else (c, GALLUS_RESULT_INVALID_ARGS))"

text \<open>
  The locked part of a forced execution; the boolean tells whether the task is to be run now.
\<close>

definition force_enter :: "task_id \<Rightarrow> callout \<Rightarrow> callout \<times> gallus_result_t \<times> bool" where
  "force_enter t c =
    (let st = s_get_task_state_in_table c t in
     if st = TASK_STATE_CREATED \<or> st = TASK_STATE_ENQUEUED then
       (if m_exec_ref_count (task c t) = 0 then
          (if m_is_in_timed_q (task c t) then
             (set_states t TASK_STATE_DEQUEUED (s_unschedule_timed_task t c), GALLUS_RESULT_ANY_FAILURES, True)
           else (c, GALLUS_RESULT_INVALID_STATE, False))
        else (c, GALLUS_RESULT_OK, False))
     else (c, GALLUS_RESULT_INVALID_STATE, False))"

definition s_force_schedule_task ::
  "callout_env \<Rightarrow> gallus_chrono_t \<Rightarrow> task_id \<Rightarrow> callout \<Rightarrow> callout \<times> gallus_result_t" where
  "s_force_schedule_task env now t c =
    (if t \<noteq> 0 then
       (let (c, ret, do_run) = force_enter t c in
        if do_run then
          (let (c, ret) = s_run_tasks_by_self env now [t] c
           in (c, if ret = 1 then GALLUS_RESULT_OK else ret))
        else (c, ret))
     else (c, GALLUS_RESULT_INVALID_ARGS))"

definition gallus_callout_exec_task_forcibly ::
  "callout_env \<Rightarrow> gallus_chrono_t \<Rightarrow> task_id \<Rightarrow> callout \<Rightarrow> callout \<times> gallus_result_t" where
  "gallus_callout_exec_task_forcibly env now t c =
    (if s_is_handler_inited c then
       (if t \<noteq> 0 then
          (if s_get_task_state_in_table c t \<noteq> TASK_STATE_UNKNOWN then s_force_schedule_task env now t c
           else (c, GALLUS_RESULT_INVALID_OBJECT))
        else (c, GALLUS_RESULT_INVALID_ARGS))
     else (c, GALLUS_RESULT_NOT_OPERATIONAL))"

subsection \<open>The main loop without workers\<close>

text \<open>\<open>gallus_bbq_get_n\<close> of at most \<^verbatim>\<open>CALLOUT_TASK_MAX\<close> tasks without waiting.\<close>

definition fetch_tasks :: "gallus_chrono_t \<Rightarrow> callout \<Rightarrow> callout \<times> task_id list" where
  "fetch_tasks now c =
    (let urgent_tasks = take CALLOUT_TASK_MAX (s_urgent_tsk_q c);
         idle_tasks = take CALLOUT_TASK_MAX (s_idle_tsk_q c);
         c = c\<lparr>s_urgent_tsk_q := drop CALLOUT_TASK_MAX (s_urgent_tsk_q c),
               s_idle_tsk_q := drop CALLOUT_TASK_MAX (s_idle_tsk_q c)\<rparr>;
         (c, timed_tasks, _) = s_get_runnable_timed_task now CALLOUT_TASK_MAX c
     in (c, timed_tasks @ urgent_tasks @ idle_tasks))"

text \<open>
  One pass of the loop up to its wait. It stops the loop, waits for the given time, or goes on.
\<close>

datatype loop_next =
    Loop_stop
  | Loop_wait gallus_chrono_t
  | Loop_again

text \<open>When the idle procedure wants to stop the loop, the boolean is false.\<close>

definition run_idle_proc :: "gallus_result_t \<Rightarrow> gallus_chrono_t \<Rightarrow> callout \<Rightarrow> callout \<times> bool" where
  "run_idle_proc r now c =
    (if s_idle_proc c \<and> s_next_idle_abstime c < s64 (now + CALLOUT_TASK_SCHED_JITTER) then
       (let c = trace (Ev_idle r) c in
        if r = GALLUS_RESULT_OK then (c\<lparr>s_next_idle_abstime := s64 (now + s_idle_interval c)\<rparr>, True)
        else (c\<lparr>s_do_loop := False\<rparr>, False))
     else (c, True))"

definition loop_timeout :: "gallus_chrono_t \<Rightarrow> callout \<Rightarrow> callout \<times> loop_next" where
  "loop_timeout now c =
    (let next_wakeup = s_peek_current_wakeup_time c;
         (c, next_wakeup) =
           (if next_wakeup \<le> 0 then
              (let c = (if s_next_idle_abstime c \<le> 0
                        then c\<lparr>s_next_idle_abstime := s64 (now + s_idle_interval c)\<rparr> else c)
               in (c, s_next_idle_abstime c))
            else (c, next_wakeup));
         timeout = s64 (next_wakeup - now)
     in if timeout > 0
        then (c, Loop_wait (if timeout > s_idle_interval c then s_idle_interval c else timeout))
        else (c, Loop_again))"

definition main_loop_pass ::
  "callout_env \<Rightarrow> gallus_result_t \<Rightarrow> gallus_chrono_t \<Rightarrow> callout \<Rightarrow> callout \<times> loop_next" where
  "main_loop_pass env idle_result now c =
    (let (c, out_tasks) = fetch_tasks now c;
         c = (if out_tasks \<noteq> [] then fst (s_run_tasks_by_self env now out_tasks c) else c);
         (c, goes_on) = run_idle_proc idle_result now c
     in if goes_on then loop_timeout now c else (c, Loop_stop))"

definition gallus_callout_initialize_handler ::
  "bool \<Rightarrow> gallus_chrono_t \<Rightarrow> callout \<Rightarrow> callout \<times> gallus_result_t" where
  "gallus_callout_initialize_handler proc interval c =
    (if \<not> proc \<or> interval > CALLOUT_IDLE_PROC_MIN_INTERVAL
     then (c\<lparr>s_idle_proc := proc, s_idle_interval := interval, s_do_loop := False,
             s_is_handler_inited := True\<rparr>, GALLUS_RESULT_OK)
     else (c, GALLUS_RESULT_INVALID_ARGS))"

text \<open>Finalisation once the main loop has stopped.\<close>

definition gallus_callout_finalize_handler :: "callout \<Rightarrow> callout" where
  "gallus_callout_finalize_handler c =
    (if s_is_handler_inited c then
       (let c = s_destroy_all_queued_timed_tasks c;
            c = (fold s_task_freeup (s_urgent_tsk_q c) c)\<lparr>s_urgent_tsk_q := []\<rparr>;
            c = (fold s_task_freeup (s_idle_tsk_q c) c)\<lparr>s_idle_tsk_q := []\<rparr>
        in c\<lparr>s_is_handler_inited := False\<rparr>)
     else c)"

end
