(* ===== verification/Callout_Run.thy ===== *)
theory Callout_Run
  imports Callout "HOL-Library.Multiset"
begin

text \<open>
  The callout scheduler as a transition system, and the invariant of its states.

  A state \<open>callout_run\<close> adds the tasks that are on their way to be executed: \<open>fetched\<close> are those the
  main loop or a forced execution took, \<open>ready\<close> those whose record has been prepared, and \<open>execs\<close>
  those some thread executes. A step is one locked section of the code; the end of an execution, from
  the test for cancellers to the drop of the execution count, is one step, and so is a call of
  \<^verbatim>\<open>s_cancel\<close> up to its wait. A run with worker threads interleaves the steps, a run without
  workers is the special case where each fetched task is finished before the next. The main loop
  fetches from the blocking queues in one locked section, which is \<open>Step_fetch\<close> at a time of 0, and
  from the timed queue in another, which is \<open>Step_fetch_timed\<close>.
\<close>

datatype exec_phase =
    Phase_proc
  | Phase_ran gallus_result_t

record callout_run =
  co :: callout
  fetched :: "task_id list"
  ready :: "task_id list"
  execs :: "(task_id \<times> exec_phase) list"

definition run_init :: callout_run where
  "run_init = \<lparr>co = callout_init, fetched = [], ready = [], execs = []\<rparr>"

inductive co_step :: "callout_run \<Rightarrow> callout_run \<Rightarrow> bool" where
  Step_create:
    "t \<noteq> 0 \<Longrightarrow> c_tasks (co R) t = None \<Longrightarrow>
     gallus_callout_create_task alloc t tptr proc arg freeproc (co R) = (c, r, p) \<Longrightarrow>
     co_step R (R\<lparr>co := c\<rparr>)"
| Step_submit:
    "gallus_callout_submit_task now t delay interval (co R) = Some (c, r) \<Longrightarrow>
     co_step R (R\<lparr>co := c\<rparr>)"
| Step_cancel:
    "co_step R (R\<lparr>co := gallus_callout_cancel_task t (co R)\<rparr>)"
| Step_canceller:
    "i < length (c_cancellers (co R)) \<Longrightarrow> snd (c_cancellers (co R) ! i) \<Longrightarrow>
     co_step R (R\<lparr>co := canceller_turn i (co R)\<rparr>)"
| Step_force:
    "s_is_handler_inited (co R) \<Longrightarrow> t \<noteq> 0 \<Longrightarrow> force_enter t (co R) = (c, r, do_run) \<Longrightarrow>
     co_step R (R\<lparr>co := c, fetched := fetched R @ (if do_run then [t] else [])\<rparr>)"
| Step_fetch:
    "fetch_tasks now (co R) = (c, ts) \<Longrightarrow>
     co_step R (R\<lparr>co := c, fetched := fetched R @ ts\<rparr>)"
| Step_fetch_timed:
    "s_get_runnables now n (co R) = (c, ts, next_wakeup) \<Longrightarrow>
     co_step R (R\<lparr>co := c, fetched := fetched R @ ts\<rparr>)"
| Step_dispatch:
    "t \<in> set (fetched R) \<Longrightarrow>
     co_step R (R\<lparr>co := dispatch_task now t (co R), fetched := remove1 t (fetched R),
                  ready := ready R @ [t]\<rparr>)"
| Step_exec_start:
    "t \<in> set (ready R) \<Longrightarrow> exec_enter t (co R) = (c, Exec_start) \<Longrightarrow>
     co_step R (R\<lparr>co := c, ready := remove1 t (ready R), execs := execs R @ [(t, Phase_proc)]\<rparr>)"
| Step_exec_return:
    "t \<in> set (ready R) \<Longrightarrow> exec_enter t (co R) = (c, Exec_return r) \<Longrightarrow>
     co_step R (R\<lparr>co := c, ready := remove1 t (ready R)\<rparr>)"
| Step_reset:
    "(t, Phase_proc) \<in> set (execs R) \<Longrightarrow>
     co_step R (R\<lparr>co := fst (gallus_callout_task_reset_interval t interval (co R))\<rparr>)"
| Step_ran:
    "(t, Phase_proc) \<in> set (execs R) \<Longrightarrow> exec_ran r t (co R) = (c, ret) \<Longrightarrow>
     co_step R (R\<lparr>co := c, execs := remove1 (t, Phase_proc) (execs R) @ [(t, Phase_ran ret)]\<rparr>)"
| Step_finish:
    "(t, Phase_ran ret) \<in> set (execs R) \<Longrightarrow>
     co_step R (R\<lparr>co := fst (exec_finish now ret t (co R)), execs := remove1 (t, Phase_ran ret) (execs R)\<rparr>)"
| Step_malloc:
    "co_step R (R\<lparr>co := (co R)\<lparr>malloc_ok := b\<rparr>\<rparr>)"
| Step_initialize:
    "co_step R (R\<lparr>co := fst (gallus_callout_initialize_handler proc interval (co R))\<rparr>)"
| Step_finalize:
    "fetched R = [] \<Longrightarrow> ready R = [] \<Longrightarrow> execs R = [] \<Longrightarrow> c_cancellers (co R) = [] \<Longrightarrow>
     co_step R (R\<lparr>co := gallus_callout_finalize_handler (co R)\<rparr>)"

definition co_reachable :: "callout_run \<Rightarrow> bool" where
  "co_reachable = co_step\<^sup>*\<^sup>* run_init"

subsection \<open>Effects on live tasks\<close>

text \<open>A live task is in the table and has a record.\<close>

definition live :: "callout \<Rightarrow> task_id \<Rightarrow> bool" where
  "live c t \<longleftrightarrow> t \<noteq> 0 \<and> s_tsk_tbl c t \<noteq> None \<and> c_tasks c t \<noteq> None"

lemma task_eq: "c_tasks c t = Some k \<Longrightarrow> task c t = k"
  by (simp add: task_def)

lemma set_states_live:
  "t \<noteq> 0 \<Longrightarrow> s_tsk_tbl c t = Some s \<Longrightarrow> c_tasks c t = Some k \<Longrightarrow>
    set_states t st c =
      c\<lparr>c_tasks := (c_tasks c)(t \<mapsto> k\<lparr>m_status := st\<rparr>), s_tsk_tbl := (s_tsk_tbl c)(t \<mapsto> st)\<rparr>"
  by (simp add: set_states_def s_set_task_state_in_table_def upd_task_def)

lemma upd_task_live:
  "c_tasks c t = Some k \<Longrightarrow> upd_task t f c = c\<lparr>c_tasks := (c_tasks c)(t \<mapsto> f k)\<rparr>"
  by (simp add: upd_task_def)

text \<open>The release and the end of a task in the trace.\<close>

definition end_events :: "task_id \<Rightarrow> callout_task \<Rightarrow> callout_event list" where
  "end_events t k = (if m_freeproc k \<and> m_arg k then [Ev_free_arg t] else []) @ [Ev_destroy t]"

lemma destroy_live:
  assumes "t \<noteq> 0" "s_tsk_tbl c t = Some s" "c_tasks c t = Some k" "m_status k \<noteq> TASK_STATE_DELETING"
  shows "s_set_cancel_and_destroy_task_no_lock t c =
    c\<lparr>c_tasks := (c_tasks c)(t := None), s_tsk_tbl := (s_tsk_tbl c)(t := None),
      s_chrono_tsk_q := (if m_is_in_timed_q k then remove1 t (s_chrono_tsk_q c) else s_chrono_tsk_q c),
      c_cancellers := map (\<lambda>(u, b). (u, b \<or> u = t)) (c_cancellers c),
      c_trace := c_trace c @ end_events t k\<rparr>"
  using assms
  by (cases "m_is_in_timed_q k"; cases "m_status k = TASK_STATE_ENQUEUED")
    (simp_all add: s_set_cancel_and_destroy_task_no_lock_def s_unschedule_timed_task_def s_do_unsched_def
      s_destroy_task_no_lock_def s_delete_def s_delete_task_in_table_def s_get_task_state_in_table_def
      s_set_task_state_in_table_def set_states_def upd_task_def task_def trace_def s_wakeup_task_def
      end_events_def Let_def)

subsection \<open>The invariant\<close>

datatype place =
    In_timed
  | In_bbq
  | In_fetched
  | In_ready
  | In_exec exec_phase
  | Nowhere

definition where_is :: "callout_run \<Rightarrow> task_id \<Rightarrow> place" where
  "where_is R t =
    (if t \<in> set (s_chrono_tsk_q (co R)) then In_timed
     else if t \<in> set (s_urgent_tsk_q (co R)) \<union> set (s_idle_tsk_q (co R)) then In_bbq
     else if t \<in> set (fetched R) then In_fetched
     else if t \<in> set (ready R) then In_ready
     else (case map_of (execs R) t of Some ph \<Rightarrow> In_exec ph | None \<Rightarrow> Nowhere))"

definition busy :: "callout_run \<Rightarrow> task_id list" where
  "busy R = s_chrono_tsk_q (co R) @ s_urgent_tsk_q (co R) @ s_idle_tsk_q (co R) @ fetched R @ ready R @
    map fst (execs R)"

definition n_cancellers :: "callout \<Rightarrow> task_id \<Rightarrow> nat" where
  "n_cancellers c t = length (filter (\<lambda>p. fst p = t) (c_cancellers c))"

fun phase_state :: "exec_phase \<Rightarrow> callout_task_state" where
  "phase_state Phase_proc = TASK_STATE_EXECUTING"
| "phase_state (Phase_ran r) = (if r = GALLUS_RESULT_OK then TASK_STATE_EXECUTING else TASK_STATE_EXEC_FAILED)"

definition executed_states :: "callout_task_state list" where
  "executed_states = [TASK_STATE_EXECUTING, TASK_STATE_EXEC_FAILED]"

text \<open>The states of a task at a place, with \<open>n\<close> cancellers waiting for it.\<close>

fun states_at :: "place \<Rightarrow> nat \<Rightarrow> callout_task_state list" where
  "states_at In_timed n = [TASK_STATE_ENQUEUED]"
| "states_at In_bbq n = [TASK_STATE_ENQUEUED, TASK_STATE_CANCELLED]"
| "states_at In_fetched n = [TASK_STATE_ENQUEUED, TASK_STATE_DEQUEUED, TASK_STATE_CANCELLED]"
| "states_at In_ready n = [TASK_STATE_DEQUEUED, TASK_STATE_CANCELLED]"
| "states_at (In_exec ph) n = [phase_state ph]"
| "states_at Nowhere n = (if n = 0 then [TASK_STATE_CREATED] else executed_states)"

definition good_task :: "place \<Rightarrow> nat \<Rightarrow> callout_task_state \<Rightarrow> callout_task \<Rightarrow> bool" where
  "good_task p n st k \<longleftrightarrow>
    m_status k = st \<and> st \<in> set (states_at p n) \<and>
    m_is_in_timed_q k = (p = In_timed) \<and>
    m_exec_ref_count k = (case p of In_exec _ \<Rightarrow> 1 | _ \<Rightarrow> 0) \<and>
    (case p of In_exec _ \<Rightarrow> \<not> m_is_first k | _ \<Rightarrow> True) \<and>
    m_cancel_ref_count k = n \<and> (n > 0 \<longrightarrow> st \<in> set executed_states)"

definition task_ok :: "callout_run \<Rightarrow> task_id \<Rightarrow> bool" where
  "task_ok R t \<longleftrightarrow>
    (case s_tsk_tbl (co R) t of
       None \<Rightarrow> where_is R t = Nowhere \<and> n_cancellers (co R) t = 0
     | Some st \<Rightarrow>
         t \<noteq> 0 \<and> (\<exists>k. c_tasks (co R) t = Some k \<and> good_task (where_is R t) (n_cancellers (co R) t) st k))"

definition timed_sorted :: "callout \<Rightarrow> bool" where
  "timed_sorted c \<longleftrightarrow> sorted (map (\<lambda>t. m_next_abstime (task c t)) (s_chrono_tsk_q c))"

definition co_inv :: "callout_run \<Rightarrow> bool" where
  "co_inv R \<longleftrightarrow> distinct (busy R) \<and> timed_sorted (co R) \<and> (\<forall>t. task_ok R t)"

lemma co_invD:
  assumes "co_inv R"
  shows "distinct (busy R)" "timed_sorted (co R)" "task_ok R t"
  using assms by (auto simp: co_inv_def)

text \<open>A step that looks the same from task \<open>t\<close> keeps its part of the invariant.\<close>

lemma task_ok_cong:
  assumes "where_is R' t = where_is R t" "n_cancellers (co R') t = n_cancellers (co R) t"
    "s_tsk_tbl (co R') t = s_tsk_tbl (co R) t" "c_tasks (co R') t = c_tasks (co R) t"
  shows "task_ok R' t = task_ok R t"
  by (simp add: task_ok_def assms split: option.split)

lemma task_okI:
  assumes "t \<noteq> 0" "s_tsk_tbl (co R) t = Some st" "c_tasks (co R) t = Some k"
    "good_task (where_is R t) (n_cancellers (co R) t) st k"
  shows "task_ok R t"
  using assms by (simp add: task_ok_def)

lemma task_ok_deadI:
  assumes "s_tsk_tbl (co R) t = None" "where_is R t = Nowhere" "n_cancellers (co R) t = 0"
  shows "task_ok R t"
  using assms by (simp add: task_ok_def)

lemma where_is_busy: "where_is R t = Nowhere \<longleftrightarrow> t \<notin> set (busy R)"
  by (auto simp: where_is_def busy_def map_of_eq_None_iff dest: map_of_SomeD split: option.splits
      intro: rev_image_eqI)

text \<open>What the invariant says of a live task, and of a task in some place.\<close>

lemma inv_live:
  assumes "co_inv R" "s_tsk_tbl (co R) t = Some st"
  obtains k where "t \<noteq> 0" "c_tasks (co R) t = Some k"
    "good_task (where_is R t) (n_cancellers (co R) t) st k"
  using co_invD(3) [OF assms(1), of t] assms(2) by (auto simp: task_ok_def)

lemma inv_busy:
  assumes "co_inv R" "t \<in> set (busy R)"
  obtains st k where "t \<noteq> 0" "s_tsk_tbl (co R) t = Some st" "c_tasks (co R) t = Some k"
    "good_task (where_is R t) (n_cancellers (co R) t) st k"
proof (cases "s_tsk_tbl (co R) t")
  case None
  with co_invD(3) [OF assms(1), of t] assms(2) show ?thesis
    by (auto simp: task_ok_def where_is_busy)
next
  case (Some st)
  with inv_live [OF assms(1) Some] that show ?thesis by blast
qed

lemma inv_place:
  assumes "distinct (busy R)"
  shows "t \<in> set (s_chrono_tsk_q (co R)) \<Longrightarrow> where_is R t = In_timed"
    "t \<in> set (s_urgent_tsk_q (co R)) \<union> set (s_idle_tsk_q (co R)) \<Longrightarrow> where_is R t = In_bbq"
    "t \<in> set (fetched R) \<Longrightarrow> where_is R t = In_fetched"
    "t \<in> set (ready R) \<Longrightarrow> where_is R t = In_ready"
    "(t, ph) \<in> set (execs R) \<Longrightarrow> where_is R t = In_exec ph"
proof -
  show "(t, ph) \<in> set (execs R) \<Longrightarrow> where_is R t = In_exec ph"
  proof -
    assume a: "(t, ph) \<in> set (execs R)"
    with assms have "map_of (execs R) t = Some ph" by (simp add: busy_def)
    moreover from a have "t \<in> set (map fst (execs R))" by force
    ultimately show ?thesis using assms by (auto simp: where_is_def busy_def)
  qed
qed (use assms in \<open>auto simp: where_is_def busy_def\<close>)

lemma good_not_deleting: "good_task p n st k \<Longrightarrow> m_status k \<noteq> TASK_STATE_DELETING"
  by (cases p; cases n) (auto simp: good_task_def executed_states_def split: if_splits elim!: phase_state.elims)

text \<open>
  Changing one task: the invariant has to be shown for it only. The timed queue may lose elements.
\<close>

lemma co_inv_change:
  assumes inv: "co_inv R"
    and other: "\<And>u. u \<noteq> t \<Longrightarrow> where_is R' u = where_is R u \<and> n_cancellers (co R') u = n_cancellers (co R) u \<and>
      s_tsk_tbl (co R') u = s_tsk_tbl (co R) u \<and> c_tasks (co R') u = c_tasks (co R) u"
    and self: "task_ok R' t" and dist: "distinct (busy R')" and sort: "timed_sorted (co R')"
  shows "co_inv R'"
proof -
  have "task_ok R' u" for u
    using self co_invD(3) [OF inv, of u] other [of u] task_ok_cong [of R' u R] by (cases "u = t") auto
  with dist sort show ?thesis by (simp add: co_inv_def)
qed

lemma timed_sorted_cong:
  assumes "timed_sorted c" "s_chrono_tsk_q c' = s_chrono_tsk_q c"
    "\<And>u. u \<in> set (s_chrono_tsk_q c) \<Longrightarrow> m_next_abstime (task c' u) = m_next_abstime (task c u)"
  shows "timed_sorted c'"
  using assms by (simp add: timed_sorted_def cong: map_cong)

lemma timed_sorted_remove:
  assumes "timed_sorted c" "s_chrono_tsk_q c' = remove1 t (s_chrono_tsk_q c)"
    "\<And>u. u \<in> set (s_chrono_tsk_q c') \<Longrightarrow> m_next_abstime (task c' u) = m_next_abstime (task c u)"
  shows "timed_sorted c'"
proof -
  have "sorted (map (\<lambda>t. m_next_abstime (task c t)) (remove1 t (s_chrono_tsk_q c)))"
    using assms(1) by (simp add: timed_sorted_def sorted_map_remove1)
  with assms(2,3) show ?thesis by (simp add: timed_sorted_def cong: map_cong)
qed

text \<open>What the loop over the due tasks does first.\<close>

lemma runnables_cases:
  assumes "runnables_loop a (Suc n) c = (c', es)"
  obtains "c' = c" "es = []"
  | e q es' where "s_chrono_tsk_q c = e # q" "m_next_abstime (task c e) \<le> a"
    "runnables_loop a n (take_out e c) = (c', es')" "es = e # es'"
  using assms by (auto split: list.splits if_splits prod.splits)

end
