(* ===== verification/Callout_Inv.thy ===== *)
theory Callout_Inv
  imports Callout_Run
begin

text \<open>
  Every step of the callout scheduler preserves the invariant. For each operation there is a lemma
  that gives its effect on a task in a known place, and one that it keeps the invariant.
\<close>

subsection \<open>Its preservation\<close>

lemma map_of_remove1_other: "u \<noteq> t \<Longrightarrow> map_of (remove1 (t, ph) xs) u = map_of xs u"
  by (induction xs) auto

lemma n_cancellers_map:
  assumes "c_cancellers c' = map (\<lambda>(u, b). (u, f u b)) (c_cancellers c)"
  shows "n_cancellers c' t = n_cancellers c t"
proof -
  have "length (filter (\<lambda>p. fst p = t) (map (\<lambda>(u, b). (u, f u b)) xs)) = length (filter (\<lambda>p. fst p = t) xs)"
    for xs by (induction xs) auto
  then show ?thesis by (simp add: n_cancellers_def assms)
qed

lemma n_cancellers_cong: "c_cancellers c' = c_cancellers c \<Longrightarrow> n_cancellers c' t = n_cancellers c t"
  by (simp add: n_cancellers_def)

lemma where_is_cong:
  assumes "s_chrono_tsk_q (co R') = s_chrono_tsk_q (co R)" "s_urgent_tsk_q (co R') = s_urgent_tsk_q (co R)"
    "s_idle_tsk_q (co R') = s_idle_tsk_q (co R)" "fetched R' = fetched R" "ready R' = ready R"
    "execs R' = execs R"
  shows "where_is R' t = where_is R t"
  using assms by (simp add: where_is_def)

text \<open>A step that keeps the tasks, the table, the cancellers and all places.\<close>

lemma co_inv_same:
  assumes "co_inv R" "c_tasks (co R') = c_tasks (co R)" "s_tsk_tbl (co R') = s_tsk_tbl (co R)"
    "s_chrono_tsk_q (co R') = s_chrono_tsk_q (co R)" "s_urgent_tsk_q (co R') = s_urgent_tsk_q (co R)"
    "s_idle_tsk_q (co R') = s_idle_tsk_q (co R)" "c_cancellers (co R') = c_cancellers (co R)"
    "fetched R' = fetched R" "ready R' = ready R" "execs R' = execs R"
  shows "co_inv R'"
proof -
  have "task_ok R' t" for t
    using task_ok_cong [of R' t R] where_is_cong [of R' R t] n_cancellers_cong [of "co R'" "co R" t]
      assms co_invD(3) [OF assms(1), of t] by simp
  then show ?thesis using assms co_invD(1,2) [OF assms(1)]
    by (simp add: co_inv_def busy_def timed_sorted_def task_def)
qed

text \<open>Changing the record and the table entry of one task that is not in the timed queue.\<close>

lemma co_inv_update:
  assumes inv: "co_inv R" and nt: "t \<notin> set (s_chrono_tsk_q (co R))"
    and R': "c_tasks (co R') = (c_tasks (co R))(t := k')" "s_tsk_tbl (co R') = (s_tsk_tbl (co R))(t := st')"
      "s_chrono_tsk_q (co R') = s_chrono_tsk_q (co R)"
    and other: "\<And>u. u \<noteq> t \<Longrightarrow> where_is R' u = where_is R u \<and> n_cancellers (co R') u = n_cancellers (co R) u"
    and self: "task_ok R' t" and dist: "distinct (busy R')"
  shows "co_inv R'"
proof (rule co_inv_change [OF inv _ self dist])
  show "timed_sorted (co R')"
    by (rule timed_sorted_cong [OF co_invD(2) [OF inv] R'(3)])
      (use nt R'(1) in \<open>auto simp: task_def\<close>)
qed (use other R' in auto)

lemma co_inv_create:
  assumes inv: "co_inv R" and t: "t \<noteq> 0" "c_tasks (co R) t = None"
    and r: "gallus_callout_create_task alloc t tptr proc arg freeproc (co R) = (c, r, p)"
  shows "co_inv (R\<lparr>co := c\<rparr>)"
proof (cases "s_is_handler_inited (co R) \<and> tptr \<and> alloc = GALLUS_RESULT_OK")
  case False
  then have "c = co R" using r
    by (auto simp: gallus_callout_create_task_def s_create_task_def split: if_splits)
  then show ?thesis using inv by simp
next
  case True
  have dead: "s_tsk_tbl (co R) t = None"
    using co_invD(3) [OF inv, of t] t(2) by (auto simp: task_ok_def split: option.splits)
  then have nw: "where_is R t = Nowhere" "n_cancellers (co R) t = 0"
    using co_invD(3) [OF inv, of t] by (auto simp: task_ok_def)
  have nq: "t \<notin> set (s_chrono_tsk_q (co R))"
    using nw by (auto simp: where_is_busy busy_def)
  show ?thesis
  proof (cases "malloc_ok (co R)")
    case True
    then have c: "c = (co R)\<lparr>c_tasks := (c_tasks (co R))(t \<mapsto> new_task proc arg freeproc),
        s_tsk_tbl := (s_tsk_tbl (co R))(t \<mapsto> TASK_STATE_CREATED),
        c_trace := c_trace (co R) @ [Ev_create t (arg \<and> freeproc)]\<rparr>"
      using r \<open>s_is_handler_inited (co R) \<and> tptr \<and> alloc = GALLUS_RESULT_OK\<close> dead t
      by (auto simp: gallus_callout_create_task_def s_create_task_def s_set_task_state_in_table_def
          trace_def Let_def)
    let ?R = "R\<lparr>co := c\<rparr>"
    have wh: "where_is ?R u = where_is R u" for u by (rule where_is_cong) (simp_all add: c)
    have nc: "n_cancellers c u = n_cancellers (co R) u" for u by (rule n_cancellers_cong) (simp add: c)
    show ?thesis
    proof (rule co_inv_update [OF inv nq])
      show "task_ok ?R t"
        by (rule task_okI [where st = TASK_STATE_CREATED and k = "new_task proc arg freeproc"])
          (use t wh nc nw c in \<open>simp_all add: good_task_def new_task_def\<close>)
    qed (use c wh nc co_invD(1) [OF inv] in \<open>simp_all add: busy_def\<close>)
  next
    case False
    then have "\<exists>k. c = (co R)\<lparr>c_tasks := (c_tasks (co R))(t \<mapsto> k)\<rparr>"
      using r \<open>s_is_handler_inited (co R) \<and> tptr \<and> alloc = GALLUS_RESULT_OK\<close> dead t
      by (auto simp: gallus_callout_create_task_def s_create_task_def s_set_task_state_in_table_def
          s_destroy_task_no_lock_def s_delete_def s_get_task_state_in_table_def upd_task_def Let_def)
    then obtain k where c: "c = (co R)\<lparr>c_tasks := (c_tasks (co R))(t \<mapsto> k)\<rparr>" ..
    let ?R = "R\<lparr>co := c\<rparr>"
    have wh: "where_is ?R u = where_is R u" for u by (rule where_is_cong) (simp_all add: c)
    have nc: "n_cancellers c u = n_cancellers (co R) u" for u by (rule n_cancellers_cong) (simp add: c)
    show ?thesis
    proof (rule co_inv_update [OF inv nq])
      show "s_tsk_tbl (co ?R) = (s_tsk_tbl (co R))(t := s_tsk_tbl (co R) t)" by (simp add: c)
      show "task_ok ?R t"
        by (rule task_ok_deadI) (use t wh nc nw c dead in simp_all)
    qed (use c wh nc co_invD(1) [OF inv] in \<open>simp_all add: busy_def\<close>)
  qed
qed

subsection \<open>The timed queue\<close>

lemma mset_timed_insert: "mset (timed_insert f t q) = add_mset t (mset q)"
proof (cases q)
  case (Cons e es)
  have "mset (takeWhile P q) + mset (dropWhile P q) = mset q" for P
    by (simp flip: mset_append)
  then have "mset (takeWhile P q @ t # dropWhile P q) = add_mset t (mset q)" for P
    by simp
  with Cons show ?thesis by (simp add: timed_insert_def del: takeWhile.simps dropWhile.simps)
qed (simp add: timed_insert_def)

lemma set_timed_insert [simp]: "set (timed_insert f t q) = insert t (set q)"
  using arg_cong [OF mset_timed_insert, of set_mset f t q] by simp

lemma sorted_split:
  fixes f :: "'a \<Rightarrow> 'b::linorder"
  assumes "sorted (map f q)"
  shows "dropWhile (\<lambda>e. f e \<le> x) q = filter (\<lambda>e. \<not> f e \<le> x) q \<and>
    takeWhile (\<lambda>e. f e \<le> x) q = filter (\<lambda>e. f e \<le> x) q"
  using assms
proof (induction q)
  case (Cons e q)
  then show ?case
  proof (cases "f e \<le> x")
    case False
    with Cons.prems have "filter (\<lambda>e. f e \<le> x) q = []" "filter (\<lambda>e. \<not> f e \<le> x) q = q"
      by (auto simp: filter_empty_conv filter_id_conv)
    with False show ?thesis by simp
  qed simp
qed simp

text \<open>In a sorted queue a task goes behind those that are due no later, before the others.\<close>

lemma timed_insert_sorted_eq:
  assumes "sorted (map f q)"
  shows "timed_insert f t q = filter (\<lambda>e. f e \<le> f t) q @ t # filter (\<lambda>e. f e > f t) q"
proof (cases q)
  case (Cons e es)
  show ?thesis
  proof (cases "f e > f t")
    case True
    with assms Cons have "filter (\<lambda>e. f e \<le> f t) q = []" "filter (\<lambda>e. f e > f t) q = q"
      by (auto simp: filter_empty_conv filter_id_conv)
    with True Cons show ?thesis by (simp add: timed_insert_def)
  next
    case False
    with sorted_split [OF assms, of "f t"] Cons show ?thesis
      by (simp add: timed_insert_def not_le)
  qed
qed (simp add: timed_insert_def)

lemma sorted_timed_insert:
  assumes "sorted (map f q)"
  shows "sorted (map f (timed_insert f t q))"
proof -
  have "sorted (map f (filter P q))" for P
    using assms by (rule sorted_filter)
  then show ?thesis by (auto simp: timed_insert_sorted_eq [OF assms] sorted_append)
qed

lemma timed_insert_cong:
  assumes "\<And>e. e \<in> insert t (set q) \<Longrightarrow> f e = g e"
  shows "timed_insert f t q = timed_insert g t q"
proof -
  have "takeWhile (\<lambda>e. f e \<le> f t) q = takeWhile (\<lambda>e. g e \<le> g t) q"
    "dropWhile (\<lambda>e. f e \<le> f t) q = dropWhile (\<lambda>e. g e \<le> g t) q"
    using assms by (auto intro!: takeWhile_cong dropWhile_cong)
  then show ?thesis using assms by (auto simp: timed_insert_def split: list.split)
qed

lemma sched_live:
  fixes now :: gallus_chrono_t
  assumes "t \<noteq> 0" "s_tsk_tbl c t = Some s" "c_tasks c t = Some k" "\<not> m_is_in_timed_q k"
    "t \<notin> set (s_chrono_tsk_q c)"
  defines "k' \<equiv> (sched_times now k)\<lparr>m_status := TASK_STATE_ENQUEUED, m_is_in_timed_q := True\<rparr>"
  defines "c' \<equiv> c\<lparr>c_tasks := (c_tasks c)(t \<mapsto> k'), s_tsk_tbl := (s_tsk_tbl c)(t \<mapsto> TASK_STATE_ENQUEUED)\<rparr>"
  shows "s_schedule_timed_task now t c =
    (c'\<lparr>s_chrono_tsk_q := timed_insert (\<lambda>e. m_next_abstime (task c' e)) t (s_chrono_tsk_q c),
        c_trace := c_trace c @ [Ev_wakeup]\<rparr>, m_next_abstime k')"
proof -
  have "timed_insert (\<lambda>e. m_next_abstime (task (upd_task t (sched_times now) c) e)) t (s_chrono_tsk_q c) =
      timed_insert (\<lambda>e. m_next_abstime (task c' e)) t (s_chrono_tsk_q c)"
    by (rule timed_insert_cong) (use assms(1-5) in \<open>auto simp: c'_def k'_def task_def upd_task_def\<close>)
  with assms(1-5) show ?thesis
    by (simp add: s_schedule_timed_task_def s_do_sched_def c'_def k'_def task_def upd_task_live
        set_states_def s_set_task_state_in_table_def trace_def Let_def)
qed

lemma timed_sorted_insert:
  assumes "timed_sorted c" "t \<notin> set (s_chrono_tsk_q c)"
    "s_chrono_tsk_q c' = timed_insert (\<lambda>e. m_next_abstime (task c' e)) t (s_chrono_tsk_q c)"
    "\<And>u. u \<noteq> t \<Longrightarrow> c_tasks c' u = c_tasks c u"
  shows "timed_sorted c'"
proof -
  have "map (\<lambda>u. m_next_abstime (task c' u)) (s_chrono_tsk_q c) =
      map (\<lambda>u. m_next_abstime (task c u)) (s_chrono_tsk_q c)"
    using assms(2) by (intro map_cong refl) (metis assms(4) task_def)
  then have "sorted (map (\<lambda>u. m_next_abstime (task c' u)) (s_chrono_tsk_q c))"
    using assms(1) by (simp only: timed_sorted_def)
  from sorted_timed_insert [OF this, of t] show ?thesis
    by (simp add: timed_sorted_def assms(3))
qed

lemma not_in_timed:
  assumes "co_inv R" "where_is R t \<noteq> In_timed"
  shows "t \<notin> set (s_chrono_tsk_q (co R))"
  using assms(2) inv_place(1) [OF co_invD(1) [OF assms(1)]] by blast

lemma sched_times_simps [simp]:
  "m_status (sched_times now k) = m_status k"
  "m_exec_ref_count (sched_times now k) = m_exec_ref_count k"
  "m_cancel_ref_count (sched_times now k) = m_cancel_ref_count k"
  "m_is_in_timed_q (sched_times now k) = m_is_in_timed_q k"
  "m_do_repeat (sched_times now k) = m_do_repeat k"
  "m_is_first (sched_times now k) = m_is_first k"
  "m_freeproc (sched_times now k) = m_freeproc k"
  "m_arg (sched_times now k) = m_arg k"
  "m_proc (sched_times now k) = m_proc k"
  by (simp_all add: sched_times_def)

lemma submitted_task_simps [simp]:
  "m_status (submitted_task d i k) = m_status k"
  "m_exec_ref_count (submitted_task d i k) = m_exec_ref_count k"
  "m_cancel_ref_count (submitted_task d i k) = m_cancel_ref_count k"
  "m_is_in_timed_q (submitted_task d i k) = m_is_in_timed_q k"
  "m_is_first (submitted_task d i k) = m_is_first k"
  "m_freeproc (submitted_task d i k) = m_freeproc k"
  "m_arg (submitted_task d i k) = m_arg k"
  "m_proc (submitted_task d i k) = m_proc k"
  by (simp_all add: submitted_task_def Let_def)

lemma submit_cases:
  assumes s: "gallus_callout_submit_task now t delay interval c = Some (c', r)"
    and live: "c_tasks c t = Some k" "\<not> m_is_in_timed_q k" "t \<notin> set (s_chrono_tsk_q c)"
  defines "k1 \<equiv> submitted_task delay interval k"
  obtains "c' = c" "r \<noteq> GALLUS_RESULT_OK"
    "\<not> (s_is_handler_inited c \<and> t \<noteq> 0 \<and> s_tsk_tbl c t = Some TASK_STATE_CREATED \<and>
      (interval \<ge> CALLOUT_TASK_MIN_INTERVAL \<or> interval = 0))"
  | "t \<noteq> 0" "s_tsk_tbl c t = Some TASK_STATE_CREATED" "delay = 0" "r = GALLUS_RESULT_OK"
    "length (s_urgent_tsk_q c) < CALLOUT_TASK_MAX"
    "c' = c\<lparr>c_tasks := (c_tasks c)(t \<mapsto> k1\<lparr>m_status := TASK_STATE_ENQUEUED\<rparr>),
      s_tsk_tbl := (s_tsk_tbl c)(t \<mapsto> TASK_STATE_ENQUEUED), s_urgent_tsk_q := s_urgent_tsk_q c @ [t]\<rparr>"
  | "t \<noteq> 0" "s_tsk_tbl c t = Some TASK_STATE_CREATED" "delay < 0" "r = GALLUS_RESULT_OK"
    "length (s_idle_tsk_q c) < CALLOUT_TASK_MAX"
    "c' = c\<lparr>c_tasks := (c_tasks c)(t \<mapsto> k1\<lparr>m_status := TASK_STATE_ENQUEUED\<rparr>),
      s_tsk_tbl := (s_tsk_tbl c)(t \<mapsto> TASK_STATE_ENQUEUED), s_idle_tsk_q := s_idle_tsk_q c @ [t]\<rparr>"
  | k' where "t \<noteq> 0" "s_tsk_tbl c t = Some TASK_STATE_CREATED" "delay > 0"
    "k' = (sched_times now k1)\<lparr>m_status := TASK_STATE_ENQUEUED, m_is_in_timed_q := True\<rparr>"
    "c_tasks c' = (c_tasks c)(t \<mapsto> k')" "s_tsk_tbl c' = (s_tsk_tbl c)(t \<mapsto> TASK_STATE_ENQUEUED)"
    "s_chrono_tsk_q c' = timed_insert (\<lambda>e. m_next_abstime (task c' e)) t (s_chrono_tsk_q c)"
    "c_trace c' = c_trace c @ [Ev_wakeup]" "s_urgent_tsk_q c' = s_urgent_tsk_q c"
    "s_idle_tsk_q c' = s_idle_tsk_q c" "c_cancellers c' = c_cancellers c"
    "r = (if m_next_abstime k' > 0 then GALLUS_RESULT_OK else GALLUS_RESULT_ANY_FAILURES)"
proof (cases "s_is_handler_inited c \<and> t \<noteq> 0 \<and> s_get_task_state_in_table c t = TASK_STATE_CREATED \<and>
    (interval \<ge> CALLOUT_TASK_MIN_INTERVAL \<or> interval = 0)")
  case False
  with s have "c' = c \<and> r \<noteq> GALLUS_RESULT_OK"
    by (auto simp: gallus_callout_submit_task_def s_submit_task_def Let_def split: if_splits)
  moreover have "s_tsk_tbl c t = Some TASK_STATE_CREATED \<and> t \<noteq> 0 \<longrightarrow>
      s_get_task_state_in_table c t = TASK_STATE_CREATED"
    by (simp add: s_get_task_state_in_table_def)
  ultimately show ?thesis using that(1) False by blast
next
  case True
  then have t: "t \<noteq> 0" "s_tsk_tbl c t = Some TASK_STATE_CREATED"
    by (auto simp: s_get_task_state_in_table_def split: option.splits)
  define c1 where "c1 = c\<lparr>c_tasks := (c_tasks c)(t \<mapsto> k1)\<rparr>"
  have c1: "upd_task t (submitted_task delay interval) c = c1"
    using live by (simp add: c1_def k1_def upd_task_def)
  have s': "map_option (\<lambda>(c, ret).
        (if ret = GALLUS_RESULT_OK \<and> \<not> m_is_in_timed_q (task c t)
         then set_states t TASK_STATE_ENQUEUED c else c, ret)) (submit_put now t delay c1) = Some (c', r)"
    using s True by (simp only: c1 gallus_callout_submit_task_def s_submit_task_def if_True Let_def simp_thms)
  have t1: "s_tsk_tbl c1 t = Some TASK_STATE_CREATED" "c_tasks c1 t = Some k1" "\<not> m_is_in_timed_q k1"
    "t \<notin> set (s_chrono_tsk_q c1)"
    using t live by (simp_all add: c1_def k1_def)
  note set_states_live [of t _ TASK_STATE_CREATED k1, simp] submit_put_def [simp] task_def [simp]
  consider "delay = 0" | "delay < 0" | "delay > 0" by linarith
  then show ?thesis
  proof cases
    case 1
    with s' t t1 show ?thesis
      by (intro that(2)) (auto simp: bbq_put_def c1_def split: if_splits)
  next
    case 2
    with s' t t1 show ?thesis
      by (intro that(3)) (auto simp: bbq_put_def c1_def split: if_splits)
  next
    case 3
    with s' sched_live [OF t(1) t1, of now] t t1 show ?thesis
      by (intro that(4) [OF t 3 refl]) (auto simp: task_def c1_def Let_def)
  qed
qed

text \<open>Where a task of a given state can be.\<close>

lemma phase_state_cases: "phase_state ph = TASK_STATE_EXECUTING \<or> phase_state ph = TASK_STATE_EXEC_FAILED"
  by (cases ph) simp_all

lemma phase_state_neq [simp]:
  "phase_state ph \<noteq> TASK_STATE_CREATED" "TASK_STATE_CREATED \<noteq> phase_state ph"
  "phase_state ph \<noteq> TASK_STATE_ENQUEUED" "TASK_STATE_ENQUEUED \<noteq> phase_state ph"
  "phase_state ph \<noteq> TASK_STATE_DEQUEUED" "TASK_STATE_DEQUEUED \<noteq> phase_state ph"
  "phase_state ph \<noteq> TASK_STATE_CANCELLED" "TASK_STATE_CANCELLED \<noteq> phase_state ph"
  "phase_state ph \<noteq> TASK_STATE_UNKNOWN" "TASK_STATE_UNKNOWN \<noteq> phase_state ph"
  "phase_state ph \<noteq> TASK_STATE_DELETING" "TASK_STATE_DELETING \<noteq> phase_state ph"
  using phase_state_cases [of ph] by auto

lemma good_created: "good_task p n TASK_STATE_CREATED k \<Longrightarrow> p = Nowhere \<and> n = 0"
  by (cases p) (auto simp: good_task_def executed_states_def split: if_splits elim!: phase_state.elims)

lemma created_nowhere:
  assumes inv: "co_inv R" and st: "s_tsk_tbl (co R) t = Some TASK_STATE_CREATED"
  obtains k where "t \<noteq> 0" "c_tasks (co R) t = Some k" "where_is R t = Nowhere"
    "n_cancellers (co R) t = 0" "good_task Nowhere 0 TASK_STATE_CREATED k"
proof -
  obtain k where k: "t \<noteq> 0" "c_tasks (co R) t = Some k"
      "good_task (where_is R t) (n_cancellers (co R) t) TASK_STATE_CREATED k"
    by (rule inv_live [OF inv st])
  with good_created [OF k(3)] show ?thesis by (intro that [of k]) simp_all
qed

lemma n_cancellers_simp [simp]: "n_cancellers (c\<lparr>c_tasks := x, s_tsk_tbl := y\<rparr>) t = n_cancellers c t"
  by (simp add: n_cancellers_def)

lemma submit_unchanged:
  assumes "gallus_callout_submit_task now t delay interval c = Some (c', r)"
    "s_tsk_tbl c t \<noteq> Some TASK_STATE_CREATED"
  shows "c' = c" "r \<noteq> GALLUS_RESULT_OK"
  using assms by (auto simp: gallus_callout_submit_task_def s_get_task_state_in_table_def Let_def
      split: if_splits option.splits)

lemma co_inv_submit:
  assumes inv: "co_inv R" and s: "gallus_callout_submit_task now t delay interval (co R) = Some (c', r)"
  shows "co_inv (R\<lparr>co := c'\<rparr>)"
proof (cases "s_tsk_tbl (co R) t = Some TASK_STATE_CREATED")
  case False
  with submit_unchanged [OF s] inv show ?thesis by simp
next
  case True
  obtain k where k: "t \<noteq> 0" "c_tasks (co R) t = Some k" "where_is R t = Nowhere"
      "n_cancellers (co R) t = 0" "good_task Nowhere 0 TASK_STATE_CREATED k"
    by (rule created_nowhere [OF inv True])
  then have nb: "t \<notin> set (busy R)" by (simp add: where_is_busy)
  then have nq: "t \<notin> set (s_chrono_tsk_q (co R))" by (simp add: busy_def)
  have nt: "\<not> m_is_in_timed_q k" using k(5) by (simp add: good_task_def)
  note dist = co_invD(1) [OF inv]
  let ?R = "R\<lparr>co := c'\<rparr>"
  from s k(2) nt nq show ?thesis
  proof (cases rule: submit_cases)
    case 1
    with inv show ?thesis by simp
  next
    case 2
    show ?thesis
    proof (rule co_inv_update [OF inv nq])
      show "distinct (busy ?R)" using dist nb by (auto simp: 2 busy_def)
      then have "where_is ?R t = In_bbq" by (rule inv_place) (simp add: 2)
      then show "task_ok ?R t"
        using k by (intro task_okI [of t]) (auto simp: 2 good_task_def n_cancellers_def)
    qed (auto simp: 2 where_is_def n_cancellers_def)
  next
    case 3
    show ?thesis
    proof (rule co_inv_update [OF inv nq])
      show "distinct (busy ?R)" using dist nb by (auto simp: 3 busy_def)
      then have "where_is ?R t = In_bbq" by (rule inv_place) (simp add: 3)
      then show "task_ok ?R t"
        using k by (intro task_okI [of t]) (auto simp: 3 good_task_def n_cancellers_def)
    qed (auto simp: 3 where_is_def n_cancellers_def)
  next
    case (4 k')
    have mset: "mset (s_chrono_tsk_q c') = add_mset t (mset (s_chrono_tsk_q (co R)))"
      by (simp only: 4(7) mset_timed_insert)
    have set: "set (s_chrono_tsk_q c') = insert t (set (s_chrono_tsk_q (co R)))"
      using arg_cong [OF mset, of set_mset] by simp
    show ?thesis
    proof (rule co_inv_change [OF inv])
      have "mset (busy ?R) = add_mset t (mset (busy R))" by (simp add: busy_def 4 mset_timed_insert)
      with dist nb show d: "distinct (busy ?R)"
        by (metis distinct.simps(2) mset.simps(2) mset_eq_imp_distinct_iff)
      then have "where_is ?R t = In_timed" by (rule inv_place) (simp add: set)
      then show "task_ok ?R t"
        using k by (intro task_okI [of t _ TASK_STATE_ENQUEUED k']) (auto simp: 4 good_task_def n_cancellers_def)
      show "timed_sorted (co ?R)"
        by (rule timed_sorted_insert [OF co_invD(2) [OF inv] nq]) (auto simp: 4)
    qed (auto simp: 4 where_is_def n_cancellers_def)
  qed
qed

text \<open>Destroying a task, wherever the code does it.\<close>

lemma co_inv_destroy:
  assumes inv: "co_inv R"
    and R': "c_tasks (co R') = (c_tasks (co R))(t := None)" "s_tsk_tbl (co R') = (s_tsk_tbl (co R))(t := None)"
      "s_chrono_tsk_q (co R') = remove1 t (s_chrono_tsk_q (co R))"
    and other: "\<And>u. u \<noteq> t \<Longrightarrow> where_is R' u = where_is R u \<and> n_cancellers (co R') u = n_cancellers (co R) u"
    and self: "t \<notin> set (busy R')" "n_cancellers (co R') t = 0" and dist: "distinct (busy R')"
  shows "co_inv R'"
proof (rule co_inv_change [OF inv _ _ dist])
  show "timed_sorted (co R')"
  proof (rule timed_sorted_remove [OF co_invD(2) [OF inv] R'(3)])
    fix u assume "u \<in> set (s_chrono_tsk_q (co R'))"
    with self(1) have "u \<noteq> t" by (auto simp: busy_def)
    then show "m_next_abstime (task (co R') u) = m_next_abstime (task (co R) u)"
      by (simp add: task_def R'(1))
  qed
  show "task_ok R' t"
    by (rule task_ok_deadI) (use R' self in \<open>simp_all add: where_is_busy\<close>)
qed (use other R' in auto)

lemma no_cancellers:
  "good_task p n st k \<Longrightarrow> st \<notin> set executed_states \<Longrightarrow> n = 0"
  by (simp add: good_task_def)

lemma executed_states_simps [simp]:
  "TASK_STATE_CREATED \<notin> set executed_states" "TASK_STATE_ENQUEUED \<notin> set executed_states"
  "TASK_STATE_DEQUEUED \<notin> set executed_states" "TASK_STATE_CANCELLED \<notin> set executed_states"
  "TASK_STATE_EXECUTING \<in> set executed_states" "TASK_STATE_EXEC_FAILED \<in> set executed_states"
  by (simp_all add: executed_states_def)

lemma remove1_notin [simp]: "t \<notin> set xs \<Longrightarrow> remove1 t xs = xs"
  by (rule remove1_idem)

text \<open>The canceller leaves a mark on a task that is being executed, and takes or destroys any other.\<close>

lemma in_timed_iff:
  assumes "co_inv R" "c_tasks (co R) t = Some k" "good_task (where_is R t) n st k"
  shows "m_is_in_timed_q k \<longleftrightarrow> t \<in> set (s_chrono_tsk_q (co R))"
  using assms inv_place(1) [OF co_invD(1) [OF assms(1)], of t]
  by (auto simp: good_task_def where_is_def split: if_splits option.splits)

lemma co_inv_cancel_destroy:
  assumes inv: "co_inv R" and t: "s_tsk_tbl (co R) t = Some st" "where_is R t \<in> {In_timed, Nowhere}"
    "n_cancellers (co R) t = 0"
  shows "co_inv (R\<lparr>co := s_set_cancel_and_destroy_task_no_lock t (co R)\<rparr>)"
proof -
  obtain k where k: "t \<noteq> 0" "c_tasks (co R) t = Some k"
      "good_task (where_is R t) (n_cancellers (co R) t) st k"
    by (rule inv_live [OF inv t(1)])
  note d = destroy_live [OF k(1) t(1) k(2) good_not_deleting [OF k(3)]]
  have q: "(if m_is_in_timed_q k then remove1 t (s_chrono_tsk_q (co R)) else s_chrono_tsk_q (co R)) =
      remove1 t (s_chrono_tsk_q (co R))"
    using in_timed_iff [OF inv k(2,3)] by simp
  let ?R = "R\<lparr>co := s_set_cancel_and_destroy_task_no_lock t (co R)\<rparr>"
  have nc: "n_cancellers (co ?R) u = n_cancellers (co R) u" for u
    by (rule n_cancellers_map [where f = "\<lambda>u b. b \<or> u = t"]) (simp add: d)
  have dist: "distinct (busy R)" using co_invD(1) [OF inv] .
  have places: "t \<notin> set (s_urgent_tsk_q (co R))" "t \<notin> set (s_idle_tsk_q (co R))" "t \<notin> set (fetched R)"
    "t \<notin> set (ready R)" "t \<notin> fst ` set (execs R)"
    using t(2) inv_place(2-5) [OF dist, of t] by (auto simp: where_is_def split: if_splits)
  show ?thesis
  proof (rule co_inv_destroy [OF inv])
    show "distinct (busy ?R)"
      using dist by (auto simp: busy_def d q dest: notin_set_remove1)
    show "t \<notin> set (busy ?R)" using dist places by (auto simp: busy_def d q)
  qed (use t(3) nc in \<open>auto simp: d q where_is_def\<close>)
qed

lemma co_inv_mark_cancelled:
  assumes inv: "co_inv R" and t: "s_tsk_tbl (co R) t = Some st"
    "where_is R t \<in> {In_bbq, In_fetched, In_ready}" "n_cancellers (co R) t = 0"
  shows "co_inv (R\<lparr>co := set_states t TASK_STATE_CANCELLED (co R)\<rparr>)"
proof -
  obtain k where k: "t \<noteq> 0" "c_tasks (co R) t = Some k"
      "good_task (where_is R t) (n_cancellers (co R) t) st k"
    by (rule inv_live [OF inv t(1)])
  note s = set_states_live [OF k(1) t(1) k(2), of TASK_STATE_CANCELLED]
  have w: "where_is (R\<lparr>co := set_states t TASK_STATE_CANCELLED (co R)\<rparr>) u = where_is R u" for u
    by (rule where_is_cong) (simp_all add: s)
  have nc: "n_cancellers (set_states t TASK_STATE_CANCELLED (co R)) u = n_cancellers (co R) u" for u
    by (rule n_cancellers_cong) (simp add: s)
  show ?thesis
  proof (rule co_inv_update [OF inv])
    show "t \<notin> set (s_chrono_tsk_q (co R))" using t(2) by (intro not_in_timed [OF inv]) auto
    show "task_ok (R\<lparr>co := set_states t TASK_STATE_CANCELLED (co R)\<rparr>) t"
      by (rule task_okI [OF k(1), where st = TASK_STATE_CANCELLED and k = "k\<lparr>m_status := TASK_STATE_CANCELLED\<rparr>"])
        (use t k w nc s in \<open>auto simp: good_task_def\<close>)
  qed (use w nc co_invD(1) [OF inv] in \<open>auto simp: s busy_def\<close>)
qed

lemma get_state_live:
  "t \<noteq> 0 \<Longrightarrow> s_tsk_tbl c t = Some st \<Longrightarrow> s_get_task_state_in_table c t = st"
  by (simp add: s_get_task_state_in_table_def)

lemma get_state_dead: "s_tsk_tbl c t = None \<Longrightarrow> s_get_task_state_in_table c t = TASK_STATE_UNKNOWN"
  by (simp add: s_get_task_state_in_table_def)

lemma states_at_known: "st \<in> set (states_at p n) \<Longrightarrow> st \<noteq> TASK_STATE_UNKNOWN \<and> st \<noteq> TASK_STATE_DELETING"
  by (cases p) (auto simp: executed_states_def split: if_splits)

lemma exec_ref_zero:
  "good_task p n st k \<Longrightarrow> m_exec_ref_count k = 0 \<longleftrightarrow> (\<forall>ph. p \<noteq> In_exec ph)"
  by (cases p) (auto simp: good_task_def)

text \<open>The effect of a call of \<open>s_cancel\<close> by where the task is.\<close>

lemma cancel_effect:
  assumes inv: "co_inv R" and t: "t \<noteq> 0"
  shows "s_cancel t (co R) =
    (case s_tsk_tbl (co R) t of
       None \<Rightarrow> co R
     | Some st \<Rightarrow>
         if st = TASK_STATE_CANCELLED then co R
         else (case where_is R t of
           In_exec _ \<Rightarrow>
             (co R)\<lparr>c_tasks := (c_tasks (co R))
                 (t \<mapsto> (task (co R) t)\<lparr>m_cancel_ref_count := m_cancel_ref_count (task (co R) t) + 1\<rparr>),
               c_cancellers := c_cancellers (co R) @ [(t, True)]\<rparr>
         | In_timed \<Rightarrow> s_set_cancel_and_destroy_task_no_lock t (co R)
         | Nowhere \<Rightarrow> co R
         | _ \<Rightarrow> set_states t TASK_STATE_CANCELLED (co R)))"
proof (cases "s_tsk_tbl (co R) t")
  case None
  then show ?thesis using t by (simp add: s_cancel_def cancel_enter_def get_state_dead)
next
  case (Some st)
  obtain k where k: "c_tasks (co R) t = Some k"
      "good_task (where_is R t) (n_cancellers (co R) t) st k"
    by (rule inv_live [OF inv Some])
  have st: "s_get_task_state_in_table (co R) t = st" by (rule get_state_live [OF t Some])
  have unknown: "st \<noteq> TASK_STATE_UNKNOWN" using k(2) states_at_known by (auto simp: good_task_def)
  show ?thesis
  proof (cases "where_is R t")
    case (In_exec ph)
    then have "st \<noteq> TASK_STATE_CANCELLED" "m_exec_ref_count k = 1"
      using k(2) phase_state_cases [of ph] by (auto simp: good_task_def)
    with In_exec Some k(1) t unknown show ?thesis
      by (simp add: s_cancel_def cancel_enter_def st task_def upd_task_live)
  next
    case Nowhere
    then have "m_exec_ref_count k = 0" "st = TASK_STATE_CREATED \<or> st \<in> set executed_states"
      using k(2) by (auto simp: good_task_def split: if_splits)
    with Nowhere Some k(1) t show ?thesis
      by (auto simp: s_cancel_def cancel_enter_def st task_def executed_states_def)
  qed (use k t Some unknown in \<open>auto simp: s_cancel_def cancel_enter_def st task_def good_task_def\<close>)
qed

lemma co_inv_cancel_exec:
  assumes inv: "co_inv R" and t: "s_tsk_tbl (co R) t = Some st" "where_is R t = In_exec ph"
  shows "co_inv (R\<lparr>co := (co R)\<lparr>c_tasks := (c_tasks (co R))
      (t \<mapsto> (task (co R) t)\<lparr>m_cancel_ref_count := m_cancel_ref_count (task (co R) t) + 1\<rparr>),
      c_cancellers := c_cancellers (co R) @ [(t, True)]\<rparr>\<rparr>)" (is "co_inv ?R")
proof -
  obtain k where k: "t \<noteq> 0" "c_tasks (co R) t = Some k"
      "good_task (where_is R t) (n_cancellers (co R) t) st k"
    by (rule inv_live [OF inv t(1)])
  have w: "where_is ?R u = where_is R u" for u by (rule where_is_cong) simp_all
  show ?thesis
  proof (rule co_inv_update [OF inv])
    show "s_tsk_tbl (co ?R) = (s_tsk_tbl (co R))(t := s_tsk_tbl (co R) t)" by simp
    show "t \<notin> set (s_chrono_tsk_q (co R))" using t(2) by (intro not_in_timed [OF inv]) auto
    show "task_ok ?R t"
      by (rule task_okI [OF k(1), where st = st and k = "k\<lparr>m_cancel_ref_count := m_cancel_ref_count k + 1\<rparr>"])
        (use t k w phase_state_cases [of ph] in \<open>auto simp: good_task_def task_def n_cancellers_def executed_states_def\<close>)
  qed (use w co_invD(1) [OF inv] in \<open>auto simp: busy_def n_cancellers_def\<close>)
qed

lemma co_inv_cancel:
  assumes inv: "co_inv R"
  shows "co_inv (R\<lparr>co := gallus_callout_cancel_task t (co R)\<rparr>)"
proof (cases "s_is_handler_inited (co R) \<and> t \<noteq> 0 \<and> s_cancel t (co R) \<noteq> co R")
  case False
  with inv show ?thesis by (auto simp: gallus_callout_cancel_task_def)
next
  case True
  then have t: "t \<noteq> 0" and ne: "s_cancel t (co R) \<noteq> co R" by auto
  note eff = cancel_effect [OF inv t]
  obtain st where st: "s_tsk_tbl (co R) t = Some st"
    using ne eff by (auto split: option.splits)
  have nc: "st \<noteq> TASK_STATE_CANCELLED" using ne eff st by auto
  obtain k where k: "c_tasks (co R) t = Some k"
      "good_task (where_is R t) (n_cancellers (co R) t) st k"
    by (rule inv_live [OF inv st])
  have n0: "n_cancellers (co R) t = 0" if "\<forall>ph. where_is R t \<noteq> In_exec ph" "where_is R t \<noteq> Nowhere"
    using k(2) that by (cases "where_is R t") (auto simp: good_task_def)
  have "co_inv (R\<lparr>co := s_cancel t (co R)\<rparr>)"
  proof (cases "where_is R t")
    case In_timed
    with eff st nc n0 show ?thesis
      by (simp add: co_inv_cancel_destroy [OF inv st])
  next
    case (In_exec ph)
    with eff st nc co_inv_cancel_exec [OF inv st In_exec] show ?thesis by simp
  next
    case Nowhere
    with eff st ne nc show ?thesis by simp
  qed (use eff st nc n0 in \<open>simp_all add: co_inv_mark_cancelled [OF inv st]\<close>)
  with True show ?thesis by (simp add: gallus_callout_cancel_task_def)
qed

text \<open>Taking a task out of the timed queue.\<close>

lemma take_out_live:
  assumes "t \<noteq> 0" "s_tsk_tbl c t = Some s" "c_tasks c t = Some k"
  shows "take_out t c =
    c\<lparr>c_tasks := (c_tasks c)(t \<mapsto> k\<lparr>m_status := TASK_STATE_DEQUEUED, m_is_in_timed_q := False\<rparr>),
      s_tsk_tbl := (s_tsk_tbl c)(t \<mapsto> TASK_STATE_DEQUEUED),
      s_chrono_tsk_q := remove1 t (s_chrono_tsk_q c)\<rparr>"
  using assms by (simp add: take_out_def set_states_def s_set_task_state_in_table_def upd_task_def Let_def)

lemma co_inv_take_out:
  assumes inv: "co_inv R" and t: "t \<in> set (s_chrono_tsk_q (co R))"
  shows "co_inv (R\<lparr>co := take_out t (co R), fetched := fetched R @ [t]\<rparr>)" (is "co_inv ?R")
proof -
  have dist: "distinct (busy R)" using co_invD(1) [OF inv] .
  have b: "t \<in> set (busy R)" using t by (simp add: busy_def)
  obtain st k where k: "t \<noteq> 0" "s_tsk_tbl (co R) t = Some st" "c_tasks (co R) t = Some k"
      "good_task (where_is R t) (n_cancellers (co R) t) st k"
    by (rule inv_busy [OF inv b])
  note w = inv_place(1) [OF dist t]
  note s = take_out_live [OF k(1-3)]
  have nc: "n_cancellers (co ?R) u = n_cancellers (co R) u" for u by (rule n_cancellers_cong) (simp add: s)
  have n0: "n_cancellers (co R) t = 0" using k(4) w by (auto simp: good_task_def)
  show ?thesis
  proof (rule co_inv_change [OF inv])
    show d: "distinct (busy ?R)" using dist t by (auto simp: busy_def s dest: notin_set_remove1)
    have "where_is ?R t = In_fetched" by (rule inv_place(3) [OF d]) simp
    then show "task_ok ?R t"
      by (intro task_okI [OF k(1), where st = TASK_STATE_DEQUEUED and
            k = "k\<lparr>m_status := TASK_STATE_DEQUEUED, m_is_in_timed_q := False\<rparr>"])
        (use k w nc n0 in \<open>auto simp: good_task_def s\<close>)
    show "timed_sorted (co ?R)"
    proof (rule timed_sorted_remove [OF co_invD(2) [OF inv], of _ t])
      show "m_next_abstime (task (co ?R) u) = m_next_abstime (task (co R) u)" for u
        using k(3) by (simp add: task_def s)
    qed (simp add: s)
  qed (use nc in \<open>auto simp: s where_is_def\<close>)
qed

lemma force_effect:
  assumes inv: "co_inv R" and f: "force_enter t (co R) = (c, r, do_run)" and t: "t \<noteq> 0"
  shows "(do_run \<longrightarrow> t \<in> set (s_chrono_tsk_q (co R)) \<and> c = take_out t (co R)) \<and> (\<not> do_run \<longrightarrow> c = co R)"
proof (cases "s_tsk_tbl (co R) t")
  case None
  with f show ?thesis by (auto simp: force_enter_def get_state_dead)
next
  case (Some st)
  obtain k where k: "c_tasks (co R) t = Some k"
      "good_task (where_is R t) (n_cancellers (co R) t) st k"
    by (rule inv_live [OF inv Some])
  note st = get_state_live [OF t Some]
  show ?thesis
  proof (cases "(st = TASK_STATE_CREATED \<or> st = TASK_STATE_ENQUEUED) \<and> m_exec_ref_count k = 0 \<and>
      m_is_in_timed_q k")
    case False
    with f k(1) show ?thesis
      by (auto simp: force_enter_def st task_def Let_def split: if_splits)
  next
    case True
    then have q: "t \<in> set (s_chrono_tsk_q (co R))" "where_is R t = In_timed" "st = TASK_STATE_ENQUEUED"
      using in_timed_iff [OF inv k] k(2) by (auto simp: good_task_def)
    have comm: "k\<lparr>m_is_in_timed_q := False, m_status := TASK_STATE_DEQUEUED\<rparr> =
        k\<lparr>m_status := TASK_STATE_DEQUEUED, m_is_in_timed_q := False\<rparr>"
      by (rule callout_task.equality) simp_all
    have "set_states t TASK_STATE_DEQUEUED (s_unschedule_timed_task t (co R)) =
        (co R)\<lparr>s_chrono_tsk_q := remove1 t (s_chrono_tsk_q (co R)),
          s_tsk_tbl := (s_tsk_tbl (co R))(t \<mapsto> TASK_STATE_DEQUEUED),
          c_tasks := (c_tasks (co R))(t \<mapsto> k\<lparr>m_is_in_timed_q := False, m_status := TASK_STATE_DEQUEUED\<rparr>)\<rparr>"
      using True k q(3) t Some
      by (auto simp: s_unschedule_timed_task_def s_do_unsched_def task_def set_states_def good_task_def
          s_set_task_state_in_table_def upd_task_def Let_def)
    also have "\<dots> = take_out t (co R)"
      unfolding comm using take_out_live [OF t Some k(1)] by simp
    finally have "set_states t TASK_STATE_DEQUEUED (s_unschedule_timed_task t (co R)) = take_out t (co R)" .
    with f k(1) True q show ?thesis
      by (auto simp: force_enter_def st task_def)
  qed
qed

lemma co_inv_force:
  assumes inv: "co_inv R" and f: "force_enter t (co R) = (c, r, do_run)" and t: "t \<noteq> 0"
  shows "co_inv (R\<lparr>co := c, fetched := fetched R @ (if do_run then [t] else [])\<rparr>)"
  using force_effect [OF assms] co_inv_take_out [OF inv, of t] inv by (cases do_run) auto

text \<open>The order of the fetched tasks does not matter to the invariant.\<close>

lemma co_inv_fetched_perm:
  assumes inv: "co_inv R" and p: "mset ts = mset (fetched R)"
  shows "co_inv (R\<lparr>fetched := ts\<rparr>)"
proof -
  have "set ts = set (fetched R)" using p by (rule mset_eq_setD)
  then have "where_is (R\<lparr>fetched := ts\<rparr>) t = where_is R t" for t by (simp add: where_is_def)
  then have "task_ok (R\<lparr>fetched := ts\<rparr>) t" for t
    using co_invD(3) [OF inv, of t] task_ok_cong [of "R\<lparr>fetched := ts\<rparr>" t R] by simp
  moreover have "mset (busy (R\<lparr>fetched := ts\<rparr>)) = mset (busy R)" by (simp add: busy_def p)
  then have "distinct (busy (R\<lparr>fetched := ts\<rparr>))"
    using co_invD(1) [OF inv] mset_eq_imp_distinct_iff by blast
  ultimately show ?thesis using co_invD(2) [OF inv] by (simp add: co_inv_def)
qed

lemma co_inv_runnables:
  assumes "co_inv R" "runnables_loop a n (co R) = (c, es)"
  shows "co_inv (R\<lparr>co := c, fetched := fetched R @ es\<rparr>)"
  using assms
proof (induction n arbitrary: R c es)
  case (Suc n)
  show ?case
  proof (cases "\<exists>e q. s_chrono_tsk_q (co R) = e # q \<and> m_next_abstime (task (co R) e) \<le> a")
    case False
    with Suc.prems show ?thesis by (auto split: list.splits if_splits)
  next
    case True
    then obtain e q where e: "s_chrono_tsk_q (co R) = e # q" "m_next_abstime (task (co R) e) \<le> a" by blast
    let ?R = "R\<lparr>co := take_out e (co R), fetched := fetched R @ [e]\<rparr>"
    obtain es' where es': "runnables_loop a n (co ?R) = (c, es')" "es = e # es'"
      using Suc.prems(2) e by (auto split: prod.splits)
    have "co_inv ?R" by (rule co_inv_take_out [OF Suc.prems(1)]) (simp add: e)
    from Suc.IH [OF this es'(1)] es'(2) show ?thesis by simp
  qed
next
  case 0
  then have "c = co R" "es = []" by auto
  with 0 show ?case by simp
qed

lemma runnables_bbq:
  "runnables_loop a n c = (c', es) \<Longrightarrow> s_urgent_tsk_q c' = s_urgent_tsk_q c \<and> s_idle_tsk_q c' = s_idle_tsk_q c"
  by (induction n arbitrary: c es)
    (auto simp: take_out_def set_states_def upd_task_def s_set_task_state_in_table_def Let_def
      split: list.splits if_splits prod.splits option.splits)

lemma co_inv_fetch:
  assumes inv: "co_inv R" and f: "fetch_tasks now (co R) = (c, ts)"
  shows "co_inv (R\<lparr>co := c, fetched := fetched R @ ts\<rparr>)"
proof -
  define us where "us = take CALLOUT_TASK_MAX (s_urgent_tsk_q (co R)) @ take CALLOUT_TASK_MAX (s_idle_tsk_q (co R))"
  define c1 where "c1 = (co R)\<lparr>s_urgent_tsk_q := drop CALLOUT_TASK_MAX (s_urgent_tsk_q (co R)),
      s_idle_tsk_q := drop CALLOUT_TASK_MAX (s_idle_tsk_q (co R))\<rparr>"
  let ?R = "R\<lparr>co := c1, fetched := fetched R @ us\<rparr>"
  have sp: "set (take n xs) \<union> set (drop n xs) = set xs" for n and xs :: "nat list"
    by (metis append_take_drop_id set_append)
  have dist: "distinct (busy R)" using co_invD(1) [OF inv] .
  have "mset (take n xs) + mset (drop n xs) = mset xs" for n and xs :: "nat list"
    by (metis append_take_drop_id mset_append)
  then have "mset (busy ?R) = mset (busy R)"
    by (simp add: busy_def c1_def us_def union_ac) (metis union_assoc union_commute)
  with dist have d: "distinct (busy ?R)" using mset_eq_imp_distinct_iff by blast
  have same: "where_is ?R t = where_is R t" if "t \<notin> set us" for t
  proof -
    have "t \<in> set (drop CALLOUT_TASK_MAX (s_urgent_tsk_q (co R))) \<longleftrightarrow> t \<in> set (s_urgent_tsk_q (co R))"
      "t \<in> set (drop CALLOUT_TASK_MAX (s_idle_tsk_q (co R))) \<longleftrightarrow> t \<in> set (s_idle_tsk_q (co R))"
      using that sp by (auto simp: us_def)
    then show ?thesis using that by (simp add: where_is_def c1_def)
  qed
  have "task_ok ?R t" for t
  proof (cases "t \<in> set us")
    case False
    have "task_ok ?R t = task_ok R t"
      by (rule task_ok_cong) (use same [OF False] in \<open>simp_all add: c1_def n_cancellers_def\<close>)
    then show ?thesis using co_invD(3) [OF inv, of t] by simp
  next
    case True
    then have "t \<in> set (s_urgent_tsk_q (co R)) \<union> set (s_idle_tsk_q (co R))"
      by (auto simp: us_def dest: in_set_takeD)
    then have w: "where_is R t = In_bbq" "t \<in> set (busy R)"
      using inv_place(2) [OF dist, of t] by (auto simp: busy_def)
    have w': "where_is ?R t = In_fetched" by (rule inv_place(3) [OF d]) (simp add: True)
    obtain st k where k: "t \<noteq> 0" "s_tsk_tbl (co R) t = Some st" "c_tasks (co R) t = Some k"
        "good_task (where_is R t) (n_cancellers (co R) t) st k"
      by (rule inv_busy [OF inv w(2)])
    show ?thesis
      by (rule task_okI [OF k(1), where st = st and k = k])
        (use k w w' in \<open>auto simp: c1_def good_task_def n_cancellers_def\<close>)
  qed
  moreover have "timed_sorted c1"
    by (rule timed_sorted_cong [OF co_invD(2) [OF inv]]) (simp_all add: c1_def task_def)
  ultimately have inv1: "co_inv ?R" using d by (simp add: co_inv_def)
  show ?thesis
  proof (cases "now > 0")
    case False
    with f inv1 show ?thesis
      by (simp add: fetch_tasks_def s_get_runnable_timed_task_def Let_def c1_def us_def)
  next
    case True
    obtain es where es: "runnables_loop (s64 (now + CALLOUT_TASK_SCHED_JITTER)) CALLOUT_TASK_MAX c1 = (c, es)"
        "ts = es @ us"
      using f True by (auto simp: fetch_tasks_def s_get_runnable_timed_task_def s_get_runnables_def Let_def
          c1_def us_def CALLOUT_TASK_MAX_def split: prod.splits)
    have "co_inv (?R\<lparr>co := c, fetched := fetched ?R @ es\<rparr>)"
      using co_inv_runnables [OF inv1] es(1) by simp
    from co_inv_fetched_perm [OF this, of "fetched R @ ts"] es(2) show ?thesis by simp
  qed
qed

text \<open>The steps of an execution. A task is fetched, ready and executed as one of its kind.\<close>

lemma dispatch_live:
  assumes "t \<noteq> 0" "s_tsk_tbl c t = Some (m_status k)" "c_tasks c t = Some k"
    "m_status k \<in> set (states_at In_fetched n)"
  defines "k' \<equiv> if m_status k = TASK_STATE_CANCELLED then k else k\<lparr>m_status := TASK_STATE_DEQUEUED\<rparr>"
  shows "dispatch_task now t c =
    c\<lparr>c_tasks := (c_tasks c)(t \<mapsto> k'\<lparr>m_last_abstime := now\<rparr>),
      s_tsk_tbl := (s_tsk_tbl c)(t \<mapsto> m_status k')\<rparr>"
proof (cases "m_status k = TASK_STATE_ENQUEUED")
  case True
  with assms(1-3) show ?thesis
    by (simp add: dispatch_task_def set_states_live [of t c TASK_STATE_ENQUEUED k] upd_task_def task_def k'_def)
next
  case False
  with assms(4) have "k' = k"
    by (auto simp: k'_def intro: callout_task.equality)
  with False assms(2-4) show ?thesis
    by (auto simp: dispatch_task_def upd_task_def task_def fun_upd_idem)
qed

lemma co_inv_dispatch:
  assumes inv: "co_inv R" and t: "t \<in> set (fetched R)"
  shows "co_inv (R\<lparr>co := dispatch_task now t (co R), fetched := remove1 t (fetched R), ready := ready R @ [t]\<rparr>)"
    (is "co_inv ?R")
proof -
  have dist: "distinct (busy R)" using co_invD(1) [OF inv] .
  have b: "t \<in> set (busy R)" using t by (simp add: busy_def)
  obtain st k where k: "t \<noteq> 0" "s_tsk_tbl (co R) t = Some st" "c_tasks (co R) t = Some k"
      "good_task (where_is R t) (n_cancellers (co R) t) st k"
    by (rule inv_busy [OF inv b])
  note w = inv_place(3) [OF dist t]
  then have st: "st = m_status k" "m_status k \<in> set (states_at In_fetched 0)"
    using k(4) by (auto simp: good_task_def)
  note s = dispatch_live [OF k(1) k(2) [unfolded st(1)] k(3) st(2), of now]
  have nc: "n_cancellers (co ?R) u = n_cancellers (co R) u" for u by (rule n_cancellers_cong) (simp add: s)
  have q: "t \<notin> set (s_chrono_tsk_q (co R))" using w by (intro not_in_timed [OF inv]) simp
  show ?thesis
  proof (rule co_inv_update [OF inv q])
    show d: "distinct (busy ?R)" using dist t by (auto simp: busy_def s dest: notin_set_remove1)
    have w': "where_is ?R t = In_ready" by (rule inv_place(4) [OF d]) simp
    show "task_ok ?R t"
      unfolding task_ok_def w' nc using k w st by (auto simp: s good_task_def)
  qed (use nc in \<open>auto simp: s where_is_def\<close>)
qed

lemma exec_enter_ready:
  assumes inv: "co_inv R" and t: "t \<in> set (ready R)"
  obtains (start) k where "t \<noteq> 0" "s_tsk_tbl (co R) t = Some TASK_STATE_DEQUEUED" "c_tasks (co R) t = Some k"
      "good_task In_ready 0 TASK_STATE_DEQUEUED k" "n_cancellers (co R) t = 0"
      "exec_enter t (co R) = ((co R)\<lparr>c_tasks := (c_tasks (co R))
          (t \<mapsto> k\<lparr>m_exec_ref_count := 1, m_status := TASK_STATE_EXECUTING, m_is_first := False\<rparr>),
        s_tsk_tbl := (s_tsk_tbl (co R))(t \<mapsto> TASK_STATE_EXECUTING)\<rparr>, Exec_start)"
  | (cancelled) k where "t \<noteq> 0" "s_tsk_tbl (co R) t = Some TASK_STATE_CANCELLED" "c_tasks (co R) t = Some k"
      "good_task In_ready 0 TASK_STATE_CANCELLED k" "n_cancellers (co R) t = 0"
      "exec_enter t (co R) = (s_set_cancel_and_destroy_task_no_lock t (co R), Exec_return GALLUS_RESULT_OK)"
proof -
  have dist: "distinct (busy R)" using co_invD(1) [OF inv] .
  have b: "t \<in> set (busy R)" using t by (simp add: busy_def)
  obtain st k where k: "t \<noteq> 0" "s_tsk_tbl (co R) t = Some st" "c_tasks (co R) t = Some k"
      "good_task (where_is R t) (n_cancellers (co R) t) st k"
    by (rule inv_busy [OF inv b])
  note w = inv_place(4) [OF dist t]
  have n: "n_cancellers (co R) t = 0" using k(4) w by (auto simp: good_task_def)
  have g: "good_task In_ready 0 st k" using k(4) w n by simp
  then consider "st = TASK_STATE_DEQUEUED" | "st = TASK_STATE_CANCELLED" by (auto simp: good_task_def)
  then show ?thesis
  proof cases
    case 1
    with 1 k g n show ?thesis
      by (intro start [of k]) (auto simp: exec_enter_def get_state_live good_task_def upd_task_def
          task_def set_states_def s_set_task_state_in_table_def Let_def)
  next
    case 2
    with k g n show ?thesis
      by (intro cancelled [of k]) (auto simp: exec_enter_def get_state_live not_the_dequeued_state_def)
  qed
qed

lemma co_inv_exec_start:
  assumes inv: "co_inv R" and t: "t \<in> set (ready R)" and e: "exec_enter t (co R) = (c, Exec_start)"
  shows "co_inv (R\<lparr>co := c, ready := remove1 t (ready R), execs := execs R @ [(t, Phase_proc)]\<rparr>)"
    (is "co_inv ?R")
  using inv t
proof (cases rule: exec_enter_ready)
  case cancelled
  with e show ?thesis by simp
next
  case (start k)
  have dist: "distinct (busy R)" using co_invD(1) [OF inv] .
  have nc: "n_cancellers c u = n_cancellers (co R) u" for u
    by (rule n_cancellers_cong) (use e start in auto)
  have q: "t \<notin> set (s_chrono_tsk_q (co R))" using inv_place(4) [OF dist t] by (intro not_in_timed [OF inv]) simp
  have s: "s_chrono_tsk_q c = s_chrono_tsk_q (co R)" "s_urgent_tsk_q c = s_urgent_tsk_q (co R)"
    "s_idle_tsk_q c = s_idle_tsk_q (co R)" "s_tsk_tbl c = (s_tsk_tbl (co R))(t \<mapsto> TASK_STATE_EXECUTING)"
    "c_tasks c = (c_tasks (co R))
      (t \<mapsto> k\<lparr>m_exec_ref_count := 1, m_status := TASK_STATE_EXECUTING, m_is_first := False\<rparr>)"
    using e start by auto
  show ?thesis
  proof (rule co_inv_update [OF inv q])
    show d: "distinct (busy ?R)" using dist t by (auto simp: busy_def s dest: notin_set_remove1)
    have w: "where_is ?R t = In_exec Phase_proc" by (rule inv_place(5) [OF d]) simp
    show "task_ok ?R t"
      unfolding task_ok_def w using start nc by (auto simp: s good_task_def)
  qed (use nc in \<open>auto simp: s where_is_def map_add_Some_iff split: option.split\<close>)
qed

lemma co_inv_exec_return:
  assumes inv: "co_inv R" and t: "t \<in> set (ready R)" and e: "exec_enter t (co R) = (c, Exec_return r)"
  shows "co_inv (R\<lparr>co := c, ready := remove1 t (ready R)\<rparr>)" (is "co_inv ?R")
  using inv t
proof (cases rule: exec_enter_ready)
  case start
  with e show ?thesis by simp
next
  case (cancelled k)
  have dist: "distinct (busy R)" using co_invD(1) [OF inv] .
  note d = destroy_live [OF cancelled(1-3) good_not_deleting [OF cancelled(4)]]
  have c: "c = s_set_cancel_and_destroy_task_no_lock t (co R)" using e cancelled by simp
  have q: "t \<notin> set (s_chrono_tsk_q (co R))" using inv_place(4) [OF dist t] by (intro not_in_timed [OF inv]) simp
  have nc: "n_cancellers c u = n_cancellers (co R) u" for u
    by (rule n_cancellers_map [where f = "\<lambda>u b. b \<or> u = t"]) (simp add: c d)
  show ?thesis
  proof (rule co_inv_destroy [OF inv])
    show "distinct (busy ?R)" using dist by (auto simp: busy_def c d dest: notin_set_remove1)
    show "t \<notin> set (busy ?R)" using dist t by (auto simp: busy_def c d dest: notin_set_remove1)
  qed (use nc cancelled(5) q in \<open>auto simp: c d where_is_def\<close>)
qed

text \<open>A task that is being executed.\<close>

lemma exec_live:
  assumes inv: "co_inv R" and t: "(t, ph) \<in> set (execs R)"
  obtains k where "t \<noteq> 0" "s_tsk_tbl (co R) t = Some (phase_state ph)" "c_tasks (co R) t = Some k"
    "good_task (In_exec ph) (n_cancellers (co R) t) (phase_state ph) k" "t \<notin> set (s_chrono_tsk_q (co R))"
proof -
  have dist: "distinct (busy R)" using co_invD(1) [OF inv] .
  have b: "t \<in> set (busy R)" using t by (force simp: busy_def)
  note w = inv_place(5) [OF dist t]
  have q: "t \<notin> set (s_chrono_tsk_q (co R))" using w by (intro not_in_timed [OF inv]) simp
  obtain st k where k: "t \<noteq> 0" "s_tsk_tbl (co R) t = Some st" "c_tasks (co R) t = Some k"
      "good_task (where_is R t) (n_cancellers (co R) t) st k"
    by (rule inv_busy [OF inv b])
  with w have "st = phase_state ph" by (auto simp: good_task_def)
  with k w q show ?thesis by (intro that [of k]) auto
qed

lemma co_inv_reset:
  assumes inv: "co_inv R" and t: "(t, Phase_proc) \<in> set (execs R)"
  shows "co_inv (R\<lparr>co := fst (gallus_callout_task_reset_interval t interval (co R))\<rparr>)" (is "co_inv ?R")
  using inv t
proof (cases rule: exec_live)
  case (1 k)
  show ?thesis
  proof (cases "interval \<ge> CALLOUT_TASK_MIN_INTERVAL")
    case False
    with inv show ?thesis by (simp add: gallus_callout_task_reset_interval_def)
  next
    case True
    have s: "co ?R = (co R)\<lparr>c_tasks := (c_tasks (co R))(t \<mapsto> k\<lparr>m_interval_time := interval\<rparr>)\<rparr>"
      using 1 True by (simp add: gallus_callout_task_reset_interval_def task_def upd_task_live good_task_def)
    have w: "where_is ?R u = where_is R u" for u by (rule where_is_cong) (simp_all only: s, simp_all)
    have nc: "n_cancellers (co ?R) u = n_cancellers (co R) u" for u by (rule n_cancellers_cong) (simp only: s, simp)
    have w': "where_is R t = In_exec Phase_proc" by (rule inv_place(5) [OF co_invD(1) [OF inv] t])
    show ?thesis
    proof (rule co_inv_update [OF inv 1(5)])
      show "c_tasks (co ?R) = (c_tasks (co R))(t := Some (k\<lparr>m_interval_time := interval\<rparr>))"
        by (simp only: s) simp
      show "s_tsk_tbl (co ?R) = (s_tsk_tbl (co R))(t := s_tsk_tbl (co R) t)" by (simp only: s) simp
      show "s_chrono_tsk_q (co ?R) = s_chrono_tsk_q (co R)" by (simp only: s) simp
      show "task_ok ?R t"
        unfolding task_ok_def w nc w' using 1 by (simp add: s good_task_def)
      show "distinct (busy ?R)" using co_invD(1) [OF inv] by (simp add: busy_def s)
    qed (use w nc in auto)
  qed
qed

lemma exec_ran_live:
  assumes "t \<noteq> 0" "s_tsk_tbl c t = Some TASK_STATE_EXECUTING" "c_tasks c t = Some k"
    "m_status k = TASK_STATE_EXECUTING"
    and e: "exec_ran r t c = (c', ret)"
  shows "c_tasks c' = (c_tasks c)(t \<mapsto> k\<lparr>m_status := phase_state (Phase_ran ret)\<rparr>)"
    "s_tsk_tbl c' = (s_tsk_tbl c)(t \<mapsto> phase_state (Phase_ran ret))"
    "s_chrono_tsk_q c' = s_chrono_tsk_q c" "s_urgent_tsk_q c' = s_urgent_tsk_q c"
    "s_idle_tsk_q c' = s_idle_tsk_q c" "c_cancellers c' = c_cancellers c"
    "c_trace c' = c_trace c @ (if m_proc k then [Ev_run t r] else [])"
    "ret = (if m_proc k then r else GALLUS_RESULT_INVALID_ARGS)"
proof -
  have same: "k\<lparr>m_status := TASK_STATE_EXECUTING\<rparr> = k" using assms(4) by (auto intro: callout_task.equality)
  note s = set_states_live [of t _ TASK_STATE_EXECUTING k TASK_STATE_EXEC_FAILED]
  from e assms(1-3) same show "c_tasks c' = (c_tasks c)(t \<mapsto> k\<lparr>m_status := phase_state (Phase_ran ret)\<rparr>)"
    "s_tsk_tbl c' = (s_tsk_tbl c)(t \<mapsto> phase_state (Phase_ran ret))"
    "s_chrono_tsk_q c' = s_chrono_tsk_q c" "s_urgent_tsk_q c' = s_urgent_tsk_q c"
    "s_idle_tsk_q c' = s_idle_tsk_q c" "c_cancellers c' = c_cancellers c"
    "c_trace c' = c_trace c @ (if m_proc k then [Ev_run t r] else [])"
    "ret = (if m_proc k then r else GALLUS_RESULT_INVALID_ARGS)"
    by (auto simp: exec_ran_def s_runnable_run_def task_def trace_def s fun_upd_idem Let_def
        split: if_splits)
qed

lemma co_inv_ran:
  assumes inv: "co_inv R" and t: "(t, Phase_proc) \<in> set (execs R)" and e: "exec_ran r t (co R) = (c, ret)"
  shows "co_inv (R\<lparr>co := c, execs := remove1 (t, Phase_proc) (execs R) @ [(t, Phase_ran ret)]\<rparr>)"
    (is "co_inv ?R")
  using inv t
proof (cases rule: exec_live)
  case (1 k)
  then have st: "s_tsk_tbl (co R) t = Some TASK_STATE_EXECUTING" "m_status k = TASK_STATE_EXECUTING"
    by (simp_all add: good_task_def)
  note s = exec_ran_live [OF 1(1) st(1) 1(3) st(2) e]
  have dist: "distinct (busy R)" using co_invD(1) [OF inv] .
  have nc: "n_cancellers c u = n_cancellers (co R) u" for u by (rule n_cancellers_cong) (simp add: s)
  have m: "mset (map fst (remove1 (t, Phase_proc) (execs R) @ [(t, Phase_ran ret)])) = mset (map fst (execs R))"
  proof -
    have "mset (execs R) = add_mset (t, Phase_proc) (mset (remove1 (t, Phase_proc) (execs R)))"
      using t by simp
    from arg_cong [OF this, of "image_mset fst"] show ?thesis by simp
  qed
  show ?thesis
  proof (rule co_inv_update [OF inv 1(5)])
    have "mset (busy ?R) = mset (busy R)" using m by (simp add: busy_def s)
    with dist show d: "distinct (busy ?R)" using mset_eq_imp_distinct_iff by blast
    have w: "where_is ?R t = In_exec (Phase_ran ret)" by (rule inv_place(5) [OF d]) simp
    show "task_ok ?R t"
      unfolding task_ok_def w using 1 nc by (auto simp: s good_task_def executed_states_def)
  next
    fix u assume "u \<noteq> t"
    then show "where_is ?R u = where_is R u \<and> n_cancellers (co ?R) u = n_cancellers (co R) u"
      by (simp add: where_is_def s nc map_of_remove1_other map_add_def split: option.split)
  qed (simp_all add: s)
qed

text \<open>The end of an execution: the task is left to its cancellers, queued again, or destroyed.\<close>

lemma remove1_timed_insert: "t \<notin> set q \<Longrightarrow> remove1 t (timed_insert f t q) = q"
proof -
  assume t: "t \<notin> set q"
  then have "t \<notin> set (takeWhile P q)" for P by (auto dest: set_takeWhileD)
  then have "remove1 t (takeWhile P q @ t # dropWhile P q) = q" for P by (simp add: remove1_append)
  with t show ?thesis
    by (cases q) (simp_all add: timed_insert_def del: takeWhile.simps(2) dropWhile.simps(2))
qed

lemma finish_cases:
  assumes t: "t \<noteq> 0" "s_tsk_tbl c t = Some st" "c_tasks c t = Some k" "t \<notin> set (s_chrono_tsk_q c)"
    and g: "good_task (In_exec (Phase_ran ret)) n st k"
    and f: "exec_finish now ret t c = (c', r)"
  obtains (waiters) "n > 0"
      "c' = c\<lparr>c_tasks := (c_tasks c)(t \<mapsto> k\<lparr>m_exec_ref_count := 0\<rparr>),
        c_cancellers := map (\<lambda>(u, b). (u, b \<or> u = t)) (c_cancellers c)\<rparr>" "r = ret"
  | (requeue) k' where "n = 0" "ret = GALLUS_RESULT_OK" "m_do_repeat k" "r = GALLUS_RESULT_OK"
      "k' = (sched_times now k)\<lparr>m_status := TASK_STATE_ENQUEUED, m_is_in_timed_q := True, m_exec_ref_count := 0\<rparr>"
      "m_next_abstime k' \<ge> 0"
      "c_tasks c' = (c_tasks c)(t \<mapsto> k')" "s_tsk_tbl c' = (s_tsk_tbl c)(t \<mapsto> TASK_STATE_ENQUEUED)"
      "s_chrono_tsk_q c' = timed_insert (\<lambda>e. m_next_abstime (task c' e)) t (s_chrono_tsk_q c)"
      "s_urgent_tsk_q c' = s_urgent_tsk_q c" "s_idle_tsk_q c' = s_idle_tsk_q c"
      "c_cancellers c' = c_cancellers c" "c_trace c' = c_trace c @ [Ev_wakeup]"
  | (destroyed) evs where "n = 0"
      "c_tasks c' = (c_tasks c)(t := None)" "s_tsk_tbl c' = (s_tsk_tbl c)(t := None)"
      "s_chrono_tsk_q c' = s_chrono_tsk_q c"
      "s_urgent_tsk_q c' = s_urgent_tsk_q c" "s_idle_tsk_q c' = s_idle_tsk_q c"
      "c_cancellers c' = map (\<lambda>(u, b). (u, b \<or> u = t)) (c_cancellers c)"
      "c_trace c' = c_trace c @ evs @ end_events t k" "set evs \<subseteq> {Ev_wakeup}"
      "ret = GALLUS_RESULT_OK \<and> m_do_repeat k \<longrightarrow> m_next_abstime (sched_times now k) < 0"
proof -
  have k: "m_exec_ref_count k = 1" "m_cancel_ref_count k = n" "\<not> m_is_in_timed_q k" "m_status k = st"
    "st \<noteq> TASK_STATE_DELETING"
    using g by (auto simp: good_task_def)
  have drop: "upd_task t (\<lambda>k. k\<lparr>m_exec_ref_count := m_exec_ref_count k - 1\<rparr>) c =
      c\<lparr>c_tasks := (c_tasks c)(t \<mapsto> k\<lparr>m_exec_ref_count := 0\<rparr>)\<rparr>"
    using t k by (simp add: upd_task_live)
  consider (w) "n > 0" | (d) "n = 0" "\<not> (ret = GALLUS_RESULT_OK \<and> m_do_repeat k)"
    | (s) "n = 0" "ret = GALLUS_RESULT_OK" "m_do_repeat k" by blast
  then show ?thesis
  proof cases
    case w
    with f t k show ?thesis
      by (intro waiters) (auto simp: exec_finish_def exec_resched_def exec_leave_def task_def drop [simplified]
          s_wakeup_task_def Let_def split: if_splits)
  next
    case d
    let ?c = "c\<lparr>c_tasks := (c_tasks c)(t \<mapsto> k\<lparr>m_exec_ref_count := 0\<rparr>)\<rparr>"
    have "s_set_cancel_and_destroy_task_no_lock t ?c = ?c\<lparr>c_tasks := (c_tasks c)(t := None),
        s_tsk_tbl := (s_tsk_tbl c)(t := None),
        c_cancellers := map (\<lambda>(u, b). (u, b \<or> u = t)) (c_cancellers c),
        c_trace := c_trace c @ end_events t k\<rparr>"
      using t k by (simp add: destroy_live [of t ?c st "k\<lparr>m_exec_ref_count := 0\<rparr>"] end_events_def)
    moreover have "c' = s_set_cancel_and_destroy_task_no_lock t ?c"
      using f d t k by (auto simp: exec_finish_def exec_resched_def exec_leave_def task_def drop [simplified] Let_def
          split: if_splits)
    ultimately show ?thesis using d by (intro destroyed [of "[]"]) auto
  next
    case s
    define k1 where "k1 = (sched_times now k)\<lparr>m_status := TASK_STATE_ENQUEUED, m_is_in_timed_q := True\<rparr>"
    note l = sched_live [OF t(1-3) k(3) t(4), of now, folded k1_def]
    define c1 where "c1 = fst (s_schedule_timed_task now t c)"
    have c1: "c_tasks c1 = (c_tasks c)(t \<mapsto> k1)" "s_tsk_tbl c1 = (s_tsk_tbl c)(t \<mapsto> TASK_STATE_ENQUEUED)"
      "s_chrono_tsk_q c1 = timed_insert (\<lambda>e. m_next_abstime (task c1 e)) t (s_chrono_tsk_q c)"
      "s_urgent_tsk_q c1 = s_urgent_tsk_q c" "s_idle_tsk_q c1 = s_idle_tsk_q c"
      "c_cancellers c1 = c_cancellers c" "c_trace c1 = c_trace c @ [Ev_wakeup]"
      by (simp_all add: c1_def l task_def)
    have sc: "s_schedule_timed_task now t c = (c1, m_next_abstime k1)" by (simp add: c1_def l)
    let ?k = "k1\<lparr>m_exec_ref_count := 0\<rparr>" and ?c = "c1\<lparr>c_tasks := (c_tasks c)(t \<mapsto> k1\<lparr>m_exec_ref_count := 0\<rparr>)\<rparr>"
    have drop1: "upd_task t (\<lambda>k. k\<lparr>m_exec_ref_count := m_exec_ref_count k - 1\<rparr>) c1 = ?c"
      using c1 k by (simp add: upd_task_live k1_def)
    have cc: "m_cancel_ref_count (task c1 t) = 0" using c1 k s by (simp add: task_def k1_def)
    have rs: "exec_resched now ret t c = (if m_next_abstime k1 \<ge> 0 then (c1, GALLUS_RESULT_OK, False)
        else (c1, m_next_abstime k1, True))"
      using s t k sc by (simp add: exec_resched_def task_def Let_def)
    show ?thesis
    proof (cases "m_next_abstime k1 \<ge> 0")
      case True
      then have "c' = ?c" "r = GALLUS_RESULT_OK"
        using f rs by (auto simp: exec_finish_def exec_leave_def drop1 [simplified])
      moreover have "timed_insert (\<lambda>e. m_next_abstime (task c1 e)) t (s_chrono_tsk_q c) =
          timed_insert (\<lambda>e. m_next_abstime (task ?c e)) t (s_chrono_tsk_q c)"
        by (rule timed_insert_cong) (simp add: task_def c1)
      ultimately show ?thesis using True s c1
        by (intro requeue [of ?k]) (simp_all add: k1_def)
    next
      case False
      then have "c' = s_set_cancel_and_destroy_task_no_lock t ?c"
        using f rs cc by (simp add: exec_finish_def exec_leave_def drop1 [simplified])
      also have "\<dots> = ?c\<lparr>c_tasks := (c_tasks c)(t := None), s_tsk_tbl := (s_tsk_tbl c)(t := None),
          s_chrono_tsk_q := s_chrono_tsk_q c,
          c_cancellers := map (\<lambda>(u, b). (u, b \<or> u = t)) (c_cancellers c),
          c_trace := c_trace c @ [Ev_wakeup] @ end_events t k\<rparr>"
        using destroy_live [of t ?c TASK_STATE_ENQUEUED ?k] t c1
        by (simp add: k1_def remove1_timed_insert end_events_def)
      finally show ?thesis using False s c1
        by (intro destroyed [of "[Ev_wakeup]"]) (simp_all add: k1_def)
    qed
  qed
qed

lemma fst_remove1:
  assumes "distinct (map fst xs)" "(t, ph) \<in> set xs"
  shows "map fst (remove1 (t, ph) xs) = remove1 t (map fst xs)"
  using assms by (induction xs) (auto simp: rev_image_eqI)

lemma co_inv_finish:
  assumes inv: "co_inv R" and t: "(t, Phase_ran ret) \<in> set (execs R)"
  shows "co_inv (R\<lparr>co := fst (exec_finish now ret t (co R)), execs := remove1 (t, Phase_ran ret) (execs R)\<rparr>)"
    (is "co_inv ?R")
  using inv t
proof (cases rule: exec_live)
  case (1 k)
  have dist: "distinct (busy R)" using co_invD(1) [OF inv] .
  have w: "where_is R t = In_exec (Phase_ran ret)" by (rule inv_place(5) [OF dist t])
  have de: "distinct (map fst (execs R))" using dist by (simp add: busy_def)
  obtain c' r where e: "exec_finish now ret t (co R) = (c', r)" by (cases "exec_finish now ret t (co R)")
  have te: "t \<in> fst ` set (execs R)" using t by force
  have gone: "t \<notin> fst ` set (remove1 (t, Phase_ran ret) (execs R))"
    using fst_remove1 [OF de t] de by (metis list.set_map set_remove1_eq Diff_iff insertI1)
  have b: "distinct (s_chrono_tsk_q (co R) @ s_urgent_tsk_q (co R) @ s_idle_tsk_q (co R) @ fetched R @ ready R @
      map fst (remove1 (t, Phase_ran ret) (execs R)))"
    using dist by (auto simp: busy_def fst_remove1 [OF de t] dest: notin_set_remove1)
  have wo: "t \<notin> set (s_urgent_tsk_q (co R))" "t \<notin> set (s_idle_tsk_q (co R))" "t \<notin> set (fetched R)"
    "t \<notin> set (ready R)"
    using dist te by (auto simp: busy_def)
  from 1(1-3,5,4) e show ?thesis
  proof (cases rule: finish_cases)
    case waiters
    have c: "co ?R = c'" by (simp add: e)
    have nc: "n_cancellers c' u = n_cancellers (co R) u" for u
      by (rule n_cancellers_map [where f = "\<lambda>u b. b \<or> u = t"]) (simp add: waiters)
    show ?thesis
    proof (rule co_inv_update [OF inv 1(5)])
      show "s_tsk_tbl (co ?R) = (s_tsk_tbl (co R))(t := s_tsk_tbl (co R) t)" by (simp add: c waiters)
      show "distinct (busy ?R)" using b by (simp add: busy_def c waiters)
      have "where_is ?R t = Nowhere"
        using 1(5) gone wo by (simp add: where_is_busy busy_def c waiters)
      then show "task_ok ?R t"
        unfolding task_ok_def c nc using 1 waiters phase_state_cases [of "Phase_ran ret"]
        by (auto simp: good_task_def executed_states_def)
    next
      fix u assume "u \<noteq> t"
      then show "where_is ?R u = where_is R u \<and> n_cancellers (co ?R) u = n_cancellers (co R) u"
        by (simp add: where_is_def c nc map_of_remove1_other) (simp add: waiters)
    qed (simp_all add: c waiters)
  next
    case (requeue k')
    have c: "co ?R = c'" by (simp add: e)
    have nc: "n_cancellers c' u = n_cancellers (co R) u" for u
      by (rule n_cancellers_cong) (simp add: requeue)
    have set: "set (s_chrono_tsk_q c') = insert t (set (s_chrono_tsk_q (co R)))"
      by (simp only: requeue(9) set_timed_insert)
    show ?thesis
    proof (rule co_inv_change [OF inv])
      have "mset (busy ?R) = add_mset t (mset (s_chrono_tsk_q (co R) @ s_urgent_tsk_q (co R) @
          s_idle_tsk_q (co R) @ fetched R @ ready R @ map fst (remove1 (t, Phase_ran ret) (execs R))))"
        unfolding busy_def c by (simp add: requeue mset_timed_insert)
      also have "\<dots> = mset (t # s_chrono_tsk_q (co R) @ s_urgent_tsk_q (co R) @
          s_idle_tsk_q (co R) @ fetched R @ ready R @ map fst (remove1 (t, Phase_ran ret) (execs R)))"
        by simp
      finally have m: "mset (busy ?R) = \<dots>" .
      have "distinct (t # s_chrono_tsk_q (co R) @ s_urgent_tsk_q (co R) @
          s_idle_tsk_q (co R) @ fetched R @ ready R @ map fst (remove1 (t, Phase_ran ret) (execs R)))"
        using b 1(5) wo gone by simp
      then show d: "distinct (busy ?R)" using mset_eq_imp_distinct_iff [OF m] by blast
      have "where_is ?R t = In_timed" by (rule inv_place(1) [OF d]) (simp add: c set)
      then show "task_ok ?R t"
        unfolding task_ok_def c nc using 1 requeue by (auto simp: good_task_def)
      show "timed_sorted (co ?R)"
        unfolding c by (rule timed_sorted_insert [OF co_invD(2) [OF inv] 1(5) requeue(9)]) (simp add: requeue)
    next
      fix u assume "u \<noteq> t"
      then show "where_is ?R u = where_is R u \<and> n_cancellers (co ?R) u = n_cancellers (co R) u \<and>
          s_tsk_tbl (co ?R) u = s_tsk_tbl (co R) u \<and> c_tasks (co ?R) u = c_tasks (co R) u"
        by (simp add: where_is_def c nc map_of_remove1_other set) (simp add: requeue)
    qed
  next
    case (destroyed evs)
    have c: "co ?R = c'" by (simp add: e)
    have nc: "n_cancellers c' u = n_cancellers (co R) u" for u
      by (rule n_cancellers_map [where f = "\<lambda>u b. b \<or> u = t"]) (simp add: destroyed)
    show ?thesis
    proof (rule co_inv_destroy [OF inv])
      show "distinct (busy ?R)" using b by (simp add: busy_def c destroyed)
      show "t \<notin> set (busy ?R)" using 1(5) gone wo by (simp add: busy_def c destroyed)
      show "s_chrono_tsk_q (co ?R) = remove1 t (s_chrono_tsk_q (co R))" using 1(5) by (simp add: c destroyed)
      show "n_cancellers (co ?R) t = 0" by (simp add: c nc destroyed)
    next
      fix u assume "u \<noteq> t"
      then show "where_is ?R u = where_is R u \<and> n_cancellers (co ?R) u = n_cancellers (co R) u"
        by (simp add: where_is_def c nc map_of_remove1_other) (simp add: destroyed)
    qed (simp_all add: c destroyed)
  qed
qed

text \<open>A canceller that is awake.\<close>

lemma n_cancellers_fst:
  assumes "map fst (c_cancellers c') = map fst (c_cancellers c)"
  shows "n_cancellers c' u = n_cancellers c u"
proof -
  have "n_cancellers d u = length (filter (\<lambda>x. x = u) (map fst (c_cancellers d)))" for d
    by (simp add: n_cancellers_def filter_map o_def)
  then show ?thesis by (simp only: assms)
qed

lemma n_cancellers_remove:
  assumes "i < length (c_cancellers c)"
    "c_cancellers c' = take i (c_cancellers c) @ drop (i + 1) (c_cancellers c)"
  shows "n_cancellers c u = n_cancellers c' u + (if u = fst (c_cancellers c ! i) then 1 else 0)"
proof -
  have "c_cancellers c = take i (c_cancellers c) @ c_cancellers c ! i # drop (i + 1) (c_cancellers c)"
    using id_take_nth_drop [OF assms(1)] by simp
  then have "n_cancellers c u = length (filter (\<lambda>p. fst p = u)
      (take i (c_cancellers c) @ c_cancellers c ! i # drop (i + 1) (c_cancellers c)))"
    by (simp add: n_cancellers_def)
  then show ?thesis by (auto simp: n_cancellers_def assms(2))
qed

lemma canceller_live:
  assumes inv: "co_inv R" and i: "i < length (c_cancellers (co R))" and t: "t = fst (c_cancellers (co R) ! i)"
  obtains st k where "t \<noteq> 0" "s_tsk_tbl (co R) t = Some st" "c_tasks (co R) t = Some k"
    "good_task (where_is R t) (n_cancellers (co R) t) st k" "n_cancellers (co R) t > 0"
    "st \<in> set executed_states"
proof -
  have n: "n_cancellers (co R) t > 0"
    using i t by (auto simp: n_cancellers_def filter_empty_conv intro: nth_mem)
  then obtain st where st: "s_tsk_tbl (co R) t = Some st"
    using co_invD(3) [OF inv, of t] by (auto simp: task_ok_def split: option.splits)
  obtain k where "t \<noteq> 0" "c_tasks (co R) t = Some k" "good_task (where_is R t) (n_cancellers (co R) t) st k"
    by (rule inv_live [OF inv st])
  with st n show ?thesis by (intro that [of st k]) (auto simp: good_task_def)
qed

lemma executed_nowhere:
  assumes "good_task p n st k" "st \<in> set executed_states" "m_exec_ref_count k = 0"
  shows "p = Nowhere"
  using assms by (cases p) (auto simp: good_task_def executed_states_def)

lemma canceller_turn_cases:
  assumes inv: "co_inv R" and i: "i < length (c_cancellers (co R))" and t: "t = fst (c_cancellers (co R) ! i)"
  defines "cs \<equiv> take i (c_cancellers (co R)) @ drop (i + 1) (c_cancellers (co R))"
  obtains (sleeps) ph where "where_is R t = In_exec ph"
      "canceller_turn i (co R) = (co R)\<lparr>c_cancellers := (c_cancellers (co R))[i := (t, False)]\<rparr>"
  | (leaves) k where "where_is R t = Nowhere" "c_tasks (co R) t = Some k" "t \<noteq> 0"
      "n_cancellers (co R) t > 1"
      "canceller_turn i (co R) = (co R)\<lparr>c_cancellers := cs,
        c_tasks := (c_tasks (co R))(t \<mapsto> k\<lparr>m_cancel_ref_count := m_cancel_ref_count k - 1\<rparr>)\<rparr>"
  | (destroys) k where "where_is R t = Nowhere" "c_tasks (co R) t = Some k" "t \<noteq> 0"
      "n_cancellers (co R) t = 1"
      "canceller_turn i (co R) = (co R)\<lparr>c_tasks := (c_tasks (co R))(t := None),
        s_tsk_tbl := (s_tsk_tbl (co R))(t := None),
        c_cancellers := map (\<lambda>(u, b). (u, b \<or> u = t)) cs,
        c_trace := c_trace (co R) @ end_events t k\<rparr>"
proof -
  obtain st k where k: "t \<noteq> 0" "s_tsk_tbl (co R) t = Some st" "c_tasks (co R) t = Some k"
      "good_task (where_is R t) (n_cancellers (co R) t) st k" "n_cancellers (co R) t > 0"
      "st \<in> set executed_states"
    by (rule canceller_live [OF inv i t])
  show ?thesis
  proof (cases "m_exec_ref_count k = 0")
    case False
    then obtain ph where "where_is R t = In_exec ph" using exec_ref_zero [OF k(4)] by auto
    with False k(3) t show ?thesis by (intro sleeps) (simp_all add: canceller_turn_def task_def)
  next
    case True
    note w = executed_nowhere [OF k(4,6) True]
    have nd: "m_status k \<noteq> TASK_STATE_DELETING" by (rule good_not_deleting [OF k(4)])
    have nt: "\<not> m_is_in_timed_q k" using k(4) w by (simp add: good_task_def)
    have n: "m_cancel_ref_count k = n_cancellers (co R) t" using k(4) by (simp add: good_task_def)
    let ?c = "(co R)\<lparr>c_cancellers := cs,
        c_tasks := (c_tasks (co R))(t \<mapsto> k\<lparr>m_cancel_ref_count := m_cancel_ref_count k - 1\<rparr>)\<rparr>"
    have turn: "canceller_turn i (co R) =
        (if m_cancel_ref_count k - 1 > 0 then ?c else s_set_cancel_and_destroy_task_no_lock t ?c)"
      using True k(3) nd t by (simp add: canceller_turn_def cancel_leave_def task_def upd_task_def cs_def Let_def)
    show ?thesis
    proof (cases "n_cancellers (co R) t > 1")
      case True
      with n have "m_cancel_ref_count k - 1 > 0" by simp
      with True turn k(1,3) w show ?thesis by (intro leaves [of k]) simp_all
    next
      case False
      with k(5) n have 1: "n_cancellers (co R) t = 1" "m_cancel_ref_count k = 1" by auto
      have "s_set_cancel_and_destroy_task_no_lock t ?c = (co R)\<lparr>c_tasks := (c_tasks (co R))(t := None),
          s_tsk_tbl := (s_tsk_tbl (co R))(t := None),
          c_cancellers := map (\<lambda>(u, b). (u, b \<or> u = t)) cs,
          c_trace := c_trace (co R) @ end_events t k\<rparr>"
        using destroy_live [of t ?c st "k\<lparr>m_cancel_ref_count := m_cancel_ref_count k - 1\<rparr>"] k nd nt
        by (simp add: end_events_def)
      with turn 1 k w show ?thesis by (intro destroys [of k]) simp_all
    qed
  qed
qed

lemma co_inv_canceller:
  assumes inv: "co_inv R" and i: "i < length (c_cancellers (co R))"
  shows "co_inv (R\<lparr>co := canceller_turn i (co R)\<rparr>)" (is "co_inv ?R")
proof -
  define t where "t = fst (c_cancellers (co R) ! i)"
  note dist = co_invD(1) [OF inv]
  note rem = n_cancellers_remove [OF i]
  from inv i t_def show ?thesis
  proof (cases rule: canceller_turn_cases)
    case (sleeps ph)
    have "map fst ((c_cancellers (co R))[i := (t, False)]) = map fst (c_cancellers (co R))"
      using i by (simp add: map_update t_def) (metis list_update_id map_update nth_map)
    then have nc: "n_cancellers (co ?R) u = n_cancellers (co R) u" for u
      by (intro n_cancellers_fst) (simp add: sleeps)
    have "where_is ?R u = where_is R u" for u by (rule where_is_cong) (simp_all add: sleeps)
    then have "task_ok ?R u" for u
      using task_ok_cong [of ?R u R] nc co_invD(3) [OF inv, of u] by (simp add: sleeps)
    then show ?thesis using dist co_invD(2) [OF inv]
      by (simp add: co_inv_def busy_def sleeps timed_sorted_def task_def)
  next
    case (leaves k)
    have w: "where_is ?R u = where_is R u" for u by (rule where_is_cong) (simp_all add: leaves)
    have q: "t \<notin> set (s_chrono_tsk_q (co R))" using leaves by (intro not_in_timed [OF inv]) simp
    have nc: "n_cancellers (co R) u = n_cancellers (co ?R) u + (if u = t then 1 else 0)" for u
      using rem [of "co ?R"] by (simp add: leaves t_def)
    obtain st k' where k: "s_tsk_tbl (co R) t = Some st" "c_tasks (co R) t = Some k'"
        "good_task (where_is R t) (n_cancellers (co R) t) st k'"
      by (rule canceller_live [OF inv i t_def])
    show ?thesis
    proof (rule co_inv_update [OF inv q])
      show "s_tsk_tbl (co ?R) = (s_tsk_tbl (co R))(t := s_tsk_tbl (co R) t)" by (simp add: leaves)
      show "task_ok ?R t"
        unfolding task_ok_def w using k leaves nc [of t] by (auto simp: good_task_def)
    qed (use w nc dist in \<open>auto simp: leaves busy_def\<close>)
  next
    case (destroys k)
    have w: "where_is ?R u = where_is R u" for u by (rule where_is_cong) (simp_all add: destroys)
    have b: "t \<notin> set (busy R)" using destroys by (simp add: where_is_busy)
    let ?cs = "take i (c_cancellers (co R)) @ drop (i + 1) (c_cancellers (co R))"
    have "n_cancellers (co ?R) u = n_cancellers ((co R)\<lparr>c_cancellers := ?cs\<rparr>) u" for u
      by (rule n_cancellers_map [where f = "\<lambda>u b. b \<or> u = t"]) (simp add: destroys)
    then have nc: "n_cancellers (co R) u = n_cancellers (co ?R) u + (if u = t then 1 else 0)" for u
      using rem [of "(co R)\<lparr>c_cancellers := ?cs\<rparr>"] by (simp add: t_def)
    show ?thesis
    proof (rule co_inv_destroy [OF inv])
      show "s_chrono_tsk_q (co ?R) = remove1 t (s_chrono_tsk_q (co R))"
        using b by (simp add: destroys busy_def)
      show "n_cancellers (co ?R) t = 0" using nc [of t] destroys by simp
    qed (use w nc dist b in \<open>auto simp: destroys busy_def\<close>)
  qed
qed

subsection \<open>Finalisation\<close>

lemma freeup_fetched:
  assumes inv: "co_inv R" and t: "t \<in> set (fetched R)"
  shows "co_inv (R\<lparr>co := s_task_freeup t (co R), fetched := remove1 t (fetched R)\<rparr>)" (is "co_inv ?R")
    "s_chrono_tsk_q (s_task_freeup t (co R)) = s_chrono_tsk_q (co R)"
    "s_urgent_tsk_q (s_task_freeup t (co R)) = s_urgent_tsk_q (co R)"
    "s_idle_tsk_q (s_task_freeup t (co R)) = s_idle_tsk_q (co R)"
    "map fst (c_cancellers (s_task_freeup t (co R))) = map fst (c_cancellers (co R))"
proof -
  note dist = co_invD(1) [OF inv]
  have b: "t \<in> set (busy R)" using t by (simp add: busy_def)
  obtain st k where k: "t \<noteq> 0" "s_tsk_tbl (co R) t = Some st" "c_tasks (co R) t = Some k"
      "good_task (where_is R t) (n_cancellers (co R) t) st k"
    by (rule inv_busy [OF inv b])
  note w = inv_place(3) [OF dist t]
  have nt: "\<not> m_is_in_timed_q k" "n_cancellers (co R) t = 0" using k(4) w by (auto simp: good_task_def)
  have d: "s_task_freeup t (co R) = (co R)\<lparr>c_tasks := (c_tasks (co R))(t := None),
      s_tsk_tbl := (s_tsk_tbl (co R))(t := None),
      c_cancellers := map (\<lambda>(u, b). (u, b \<or> u = t)) (c_cancellers (co R)),
      c_trace := c_trace (co R) @ end_events t k\<rparr>"
    using destroy_live [OF k(1-3) good_not_deleting [OF k(4)]] k(1) nt by (simp add: s_task_freeup_def)
  have nc: "n_cancellers (co ?R) u = n_cancellers (co R) u" for u
    by (rule n_cancellers_map [where f = "\<lambda>u b. b \<or> u = t"]) (simp add: d)
  have q: "t \<notin> set (s_chrono_tsk_q (co R))" using w by (intro not_in_timed [OF inv]) simp
  show "co_inv ?R"
  proof (rule co_inv_destroy [OF inv])
    show "distinct (busy ?R)" using dist by (auto simp: busy_def d dest: notin_set_remove1)
    show "t \<notin> set (busy ?R)" using dist t by (auto simp: busy_def d dest: notin_set_remove1)
  qed (use nc nt q in \<open>auto simp: d where_is_def\<close>)
  show "s_chrono_tsk_q (s_task_freeup t (co R)) = s_chrono_tsk_q (co R)"
    "s_urgent_tsk_q (s_task_freeup t (co R)) = s_urgent_tsk_q (co R)"
    "s_idle_tsk_q (s_task_freeup t (co R)) = s_idle_tsk_q (co R)"
    "map fst (c_cancellers (s_task_freeup t (co R))) = map fst (c_cancellers (co R))"
    by (simp_all add: d split_beta)
qed

lemma freeup_all_fetched:
  assumes "co_inv R" "fetched R = ts"
  shows "co_inv (R\<lparr>co := fold s_task_freeup ts (co R), fetched := []\<rparr>) \<and>
    s_chrono_tsk_q (fold s_task_freeup ts (co R)) = s_chrono_tsk_q (co R) \<and>
    s_urgent_tsk_q (fold s_task_freeup ts (co R)) = s_urgent_tsk_q (co R) \<and>
    s_idle_tsk_q (fold s_task_freeup ts (co R)) = s_idle_tsk_q (co R)"
  using assms
proof (induction ts arbitrary: R)
  case (Cons t ts)
  let ?R = "R\<lparr>co := s_task_freeup t (co R), fetched := remove1 t (fetched R)\<rparr>"
  have t: "t \<in> set (fetched R)" using Cons.prems(2) by simp
  note f = freeup_fetched [OF Cons.prems(1) t]
  have "fetched ?R = ts" using Cons.prems(2) by simp
  from Cons.IH [OF f(1) this] f(2-4) show ?case by simp
next
  case Nil
  then show ?case by (cases R) simp
qed

text \<open>Elements of a blocking queue may be seen as fetched.\<close>

lemma co_inv_move_bbq:
  assumes inv: "co_inv R" and f: "fetched R = []" and c: "c = (co R)\<lparr>s_urgent_tsk_q := us, s_idle_tsk_q := is\<rparr>"
    and m: "mset us + mset is + mset ts = mset (s_urgent_tsk_q (co R)) + mset (s_idle_tsk_q (co R))"
  shows "co_inv (R\<lparr>co := c, fetched := ts\<rparr>)" (is "co_inv ?R")
proof -
  note dist = co_invD(1) [OF inv]
  have s: "set us \<union> set is \<union> set ts = set (s_urgent_tsk_q (co R)) \<union> set (s_idle_tsk_q (co R))"
    using arg_cong [OF m, of set_mset] by simp
  have "mset (busy ?R) = mset (busy R)" using m f by (simp add: busy_def c union_ac)
  with dist have d: "distinct (busy ?R)" using mset_eq_imp_distinct_iff by blast
  have "task_ok ?R t" for t
  proof (cases "t \<in> set ts")
    case False
    have "where_is ?R t = where_is R t" using False s f by (auto simp: where_is_def c)
    then have "task_ok ?R t = task_ok R t"
      by (intro task_ok_cong) (simp_all add: c n_cancellers_def)
    then show ?thesis using co_invD(3) [OF inv, of t] by simp
  next
    case True
    then have "t \<in> set (s_urgent_tsk_q (co R)) \<union> set (s_idle_tsk_q (co R))" using s by blast
    then have w: "where_is R t = In_bbq" "t \<in> set (busy R)"
      using inv_place(2) [OF dist, of t] by (auto simp: busy_def)
    have w': "where_is ?R t = In_fetched" by (rule inv_place(3) [OF d]) (simp add: True)
    obtain st k where k: "t \<noteq> 0" "s_tsk_tbl (co R) t = Some st" "c_tasks (co R) t = Some k"
        "good_task (where_is R t) (n_cancellers (co R) t) st k"
      by (rule inv_busy [OF inv w(2)])
    show ?thesis
      by (rule task_okI [OF k(1), where st = st and k = k])
        (use k w w' in \<open>auto simp: c good_task_def n_cancellers_def\<close>)
  qed
  moreover have "timed_sorted c"
    by (rule timed_sorted_cong [OF co_invD(2) [OF inv]]) (simp_all add: c task_def)
  ultimately show ?thesis using d by (simp add: co_inv_def)
qed

text \<open>Releasing a queue commutes with emptying it.\<close>

definition with_bbq :: "task_id list \<Rightarrow> task_id list \<Rightarrow> callout \<Rightarrow> callout" where
  "with_bbq us is c = c\<lparr>s_urgent_tsk_q := us, s_idle_tsk_q := is\<rparr>"

lemma with_bbq_simps:
  "task (with_bbq us is c) t = task c t"
  "s_get_task_state_in_table (with_bbq us is c) t = s_get_task_state_in_table c t"
  "upd_task t f (with_bbq us is c) = with_bbq us is (upd_task t f c)"
  "trace e (with_bbq us is c) = with_bbq us is (trace e c)"
  "s_wakeup_task t (with_bbq us is c) = with_bbq us is (s_wakeup_task t c)"
  "fst (s_set_task_state_in_table t st (with_bbq us is c)) =
    with_bbq us is (fst (s_set_task_state_in_table t st c))"
  "s_delete_task_in_table t (with_bbq us is c) = with_bbq us is (s_delete_task_in_table t c)"
  "set_states t st (with_bbq us is c) = with_bbq us is (set_states t st c)"
  by (simp_all add: with_bbq_def task_def s_get_task_state_in_table_def upd_task_def trace_def
      s_wakeup_task_def s_set_task_state_in_table_def s_delete_task_in_table_def set_states_def
      split: option.split)

lemma with_bbq_fields:
  "s_chrono_tsk_q (with_bbq us is c) = s_chrono_tsk_q c"
  "(with_bbq us is c)\<lparr>s_chrono_tsk_q := q\<rparr> = with_bbq us is (c\<lparr>s_chrono_tsk_q := q\<rparr>)"
  "c_tasks (with_bbq us is c) = c_tasks c"
  "(with_bbq us is c)\<lparr>c_tasks := k\<rparr> = with_bbq us is (c\<lparr>c_tasks := k\<rparr>)"
  by (simp_all add: with_bbq_def)

lemma unsched_bbq: "s_do_unsched t (with_bbq us is c) = with_bbq us is (s_do_unsched t c)"
  by (simp add: s_do_unsched_def with_bbq_simps with_bbq_fields Let_def)

lemma delete_bbq: "s_delete t (with_bbq us is c) = with_bbq us is (s_delete t c)"
  by (simp add: s_delete_def with_bbq_simps with_bbq_fields Let_def)

lemma freeup_bbq: "s_task_freeup t (with_bbq us is c) = with_bbq us is (s_task_freeup t c)"
  by (simp add: s_task_freeup_def s_set_cancel_and_destroy_task_no_lock_def s_unschedule_timed_task_def
      s_destroy_task_no_lock_def unsched_bbq delete_bbq with_bbq_simps Let_def)

lemma fold_freeup_bbq:
  "fold s_task_freeup ts (with_bbq us is c) = with_bbq us is (fold s_task_freeup ts c)"
  by (induction ts arbitrary: c) (simp_all add: freeup_bbq)

lemma co_inv_free_bbq:
  assumes inv: "co_inv R" and f: "fetched R = []"
    and m: "mset us + mset is + mset ts = mset (s_urgent_tsk_q (co R)) + mset (s_idle_tsk_q (co R))"
  shows "co_inv (R\<lparr>co := with_bbq us is (fold s_task_freeup ts (co R))\<rparr>)"
    "s_chrono_tsk_q (fold s_task_freeup ts (co R)) = s_chrono_tsk_q (co R)"
proof -
  let ?R = "R\<lparr>co := with_bbq us is (co R), fetched := ts\<rparr>"
  have inv1: "co_inv ?R" by (rule co_inv_move_bbq [OF inv f with_bbq_def m])
  have "fetched ?R = ts" by simp
  note a = freeup_all_fetched [OF inv1 this]
  have "R\<lparr>co := c, fetched := []\<rparr> = R\<lparr>co := c\<rparr>" for c
    using f by (cases R) simp
  with a show "co_inv (R\<lparr>co := with_bbq us is (fold s_task_freeup ts (co R))\<rparr>)"
    by (simp add: fold_freeup_bbq)
  from a show "s_chrono_tsk_q (fold s_task_freeup ts (co R)) = s_chrono_tsk_q (co R)"
    by (simp add: fold_freeup_bbq with_bbq_fields)
qed

lemma co_inv_destroy_all:
  assumes "co_inv R" "fetched R = []"
  shows "co_inv (R\<lparr>co := s_destroy_all_queued_timed_tasks (co R)\<rparr>) \<and>
    s_chrono_tsk_q (s_destroy_all_queued_timed_tasks (co R)) = []"
  using assms
proof (induction "co R" arbitrary: R rule: s_destroy_all_queued_timed_tasks.induct)
  case 1
  show ?case
  proof (cases "s_chrono_tsk_q (co R)")
    case Nil
    then have "s_destroy_all_queued_timed_tasks (co R) = co R"
      by (subst s_destroy_all_queued_timed_tasks.simps) (simp add: s_get_def)
    with 1 Nil show ?thesis by simp
  next
    case (Cons t ts)
    let ?R = "R\<lparr>co := take_out t (co R), fetched := fetched R @ [t]\<rparr>"
    have inv1: "co_inv ?R" by (rule co_inv_take_out [OF 1(2)]) (simp add: Cons)
    have "t \<in> set (fetched ?R)" by simp
    note f = freeup_fetched(1) [OF inv1 this]
    have t: "t \<noteq> 0"
      by (rule inv_busy [OF 1(2), of t]) (simp_all add: Cons busy_def)
    let ?R' = "R\<lparr>co := s_task_freeup t (take_out t (co R))\<rparr>"
    have "?R\<lparr>co := s_task_freeup t (co ?R), fetched := remove1 t (fetched ?R)\<rparr> = ?R'"
      using 1(3) by (cases R) simp
    with f have inv': "co_inv ?R'" by simp
    have "s_destroy_all_queued_timed_tasks (co R) = s_destroy_all_queued_timed_tasks (co ?R')"
      using t by (subst s_destroy_all_queued_timed_tasks.simps) (simp add: s_get_def Cons s_task_freeup_def)
    moreover have "s_get (co R) = (take_out t (co R), Some t)" by (simp add: s_get_def Cons)
    then have "co_inv (?R'\<lparr>co := s_destroy_all_queued_timed_tasks (co ?R')\<rparr>) \<and>
        s_chrono_tsk_q (s_destroy_all_queued_timed_tasks (co ?R')) = []"
      using 1(1) [of _ "Some t" t ?R'] inv' 1(3) t by (simp add: s_task_freeup_def)
    ultimately show ?thesis by simp
  qed
qed

lemma freeup_fields:
  "s_idle_tsk_q (fold s_task_freeup ts c) = s_idle_tsk_q c"
  "s_urgent_tsk_q (fold s_task_freeup ts c) = s_urgent_tsk_q c"
proof -
  have e: "fold s_task_freeup ts c = with_bbq (s_urgent_tsk_q c) (s_idle_tsk_q c) (fold s_task_freeup ts c)"
    using fold_freeup_bbq [of ts "s_urgent_tsk_q c" "s_idle_tsk_q c" c] by (simp add: with_bbq_def)
  show "s_idle_tsk_q (fold s_task_freeup ts c) = s_idle_tsk_q c"
    "s_urgent_tsk_q (fold s_task_freeup ts c) = s_urgent_tsk_q c"
    by (subst e, simp add: with_bbq_def)+
qed

text \<open>The finalisation as a sequence of releases.\<close>

lemma finalize_eq:
  assumes "s_is_handler_inited c"
  defines "c1 \<equiv> s_destroy_all_queued_timed_tasks c"
  defines "c2 \<equiv> with_bbq [] (s_idle_tsk_q c1) (fold s_task_freeup (s_urgent_tsk_q c1) c1)"
  defines "c3 \<equiv> with_bbq [] [] (fold s_task_freeup (s_idle_tsk_q c1) c2)"
  shows "gallus_callout_finalize_handler c = c3\<lparr>s_is_handler_inited := False\<rparr>"
proof -
  have c2: "(fold s_task_freeup (s_urgent_tsk_q c1) c1)\<lparr>s_urgent_tsk_q := []\<rparr> = c2"
    by (rule callout.equality) (simp_all add: c2_def with_bbq_def freeup_fields)
  have c3: "(fold s_task_freeup (s_idle_tsk_q c1) c2)\<lparr>s_idle_tsk_q := []\<rparr> = c3"
    by (rule callout.equality)
      (simp_all add: c3_def with_bbq_def freeup_fields, simp add: c2_def with_bbq_def)
  have "s_idle_tsk_q c2 = s_idle_tsk_q c1" by (simp add: c2_def with_bbq_def)
  with assms(1) show ?thesis
    by (simp add: gallus_callout_finalize_handler_def Let_def c1_def [symmetric] c2 c3 freeup_fields)
qed

lemma co_inv_finalize:
  assumes inv: "co_inv R" and f: "fetched R = []"
  shows "co_inv (R\<lparr>co := gallus_callout_finalize_handler (co R)\<rparr>)"
proof (cases "s_is_handler_inited (co R)")
  case True
  define c1 where "c1 = s_destroy_all_queued_timed_tasks (co R)"
  define c2 where "c2 = with_bbq [] (s_idle_tsk_q c1) (fold s_task_freeup (s_urgent_tsk_q c1) c1)"
  define c3 where "c3 = with_bbq [] [] (fold s_task_freeup (s_idle_tsk_q c1) c2)"
  have i1: "co_inv (R\<lparr>co := c1\<rparr>)" using co_inv_destroy_all [OF inv f] by (simp add: c1_def)
  have i2: "co_inv (R\<lparr>co := c2\<rparr>)"
    using co_inv_free_bbq(1) [OF i1, of "[]" "s_idle_tsk_q c1" "s_urgent_tsk_q c1"] f by (simp add: c2_def)
  have i3: "co_inv (R\<lparr>co := c3\<rparr>)"
    using co_inv_free_bbq(1) [OF i2, of "[]" "[]" "s_idle_tsk_q c1"] f
    by (simp add: c3_def) (simp add: c2_def with_bbq_def)
  have "co_inv (R\<lparr>co := c3\<lparr>s_is_handler_inited := False\<rparr>\<rparr>)"
    by (rule co_inv_same [OF i3]) simp_all
  then show ?thesis using finalize_eq [OF True] by (simp add: c1_def c2_def c3_def)
qed (use inv in \<open>simp add: gallus_callout_finalize_handler_def\<close>)

theorem co_inv_step:
  assumes "co_step R R'" "co_inv R"
  shows "co_inv R'"
  using assms
proof (cases rule: co_step.cases)
  case Step_create
  with assms(2) show ?thesis by (simp add: co_inv_create)
next
  case Step_submit
  with assms(2) show ?thesis by (simp add: co_inv_submit)
next
  case Step_cancel
  with assms(2) show ?thesis by (simp add: co_inv_cancel)
next
  case Step_canceller
  with assms(2) show ?thesis by (simp add: co_inv_canceller)
next
  case (Step_force t c r do_run)
  with co_inv_force [OF assms(2) Step_force(4,3)] show ?thesis by simp
next
  case (Step_fetch now c ts)
  with co_inv_fetch [OF assms(2) Step_fetch(2)] show ?thesis by simp
next
  case (Step_fetch_timed now n c ts nw)
  then have "runnables_loop (s64 (now + CALLOUT_TASK_SCHED_JITTER)) n (co R) = (c, ts)"
    by (auto simp: s_get_runnables_def Let_def split: prod.splits)
  with co_inv_runnables [OF assms(2)] Step_fetch_timed(1) show ?thesis by simp
next
  case Step_dispatch
  with assms(2) show ?thesis by (simp add: co_inv_dispatch)
next
  case Step_exec_start
  with assms(2) show ?thesis by (simp add: co_inv_exec_start)
next
  case (Step_exec_return t c r)
  with co_inv_exec_return [OF assms(2) Step_exec_return(2,3)] show ?thesis by simp
next
  case Step_reset
  with assms(2) show ?thesis by (simp add: co_inv_reset)
next
  case Step_ran
  with assms(2) show ?thesis by (simp add: co_inv_ran)
next
  case Step_finish
  with assms(2) show ?thesis by (simp add: co_inv_finish)
next
  case Step_malloc
  with assms(2) show ?thesis by (auto intro: co_inv_same [OF assms(2)])
next
  case Step_initialize
  then show ?thesis
    by (auto simp: gallus_callout_initialize_handler_def intro: co_inv_same [OF assms(2)])
next
  case Step_finalize
  with assms(2) show ?thesis by (simp add: co_inv_finalize)
qed

lemma co_inv_init: "co_inv run_init"
  by (simp add: co_inv_def run_init_def callout_init_def busy_def timed_sorted_def task_ok_def
      where_is_def n_cancellers_def)

lemma co_reachable_inv: "co_reachable R \<Longrightarrow> co_inv R"
  unfolding co_reachable_def
  by (induction rule: rtranclp_induct) (auto intro: co_inv_init co_inv_step)

end
