(* ===== verification/Callout_Life.thy ===== *)
theory Callout_Life
  imports Callout_Inv
begin

text \<open>
  What the callout scheduler does to a task from its creation to its destruction. Every step moves
  each task along the state machine \<open>task_move\<close>; from that follow which events a task can have, that
  a cancelled task never runs, and that its argument is released once.
\<close>

subsection \<open>The state machine of a task\<close>

text \<open>What of a task counts: whether its procedure runs, and its record while it is in the table.\<close>

type_synonym task_view = "bool \<times> callout_task option"

definition view :: "callout_run \<Rightarrow> task_id \<Rightarrow> task_view" where
  "view R t =
    ((t, Phase_proc) \<in> set (execs R), if s_tsk_tbl (co R) t = None then None else c_tasks (co R) t)"

definition same_life :: "callout_task \<Rightarrow> callout_task \<Rightarrow> bool" where
  "same_life k k' \<longleftrightarrow> m_arg k' = m_arg k \<and> m_freeproc k' = m_freeproc k \<and> m_proc k' = m_proc k"

fun event_task :: "callout_event \<Rightarrow> task_id option" where
  "event_task (Ev_create t b) = Some t"
| "event_task (Ev_run t r) = Some t"
| "event_task (Ev_free_arg t) = Some t"
| "event_task (Ev_destroy t) = Some t"
| "event_task Ev_wakeup = None"
| "event_task (Ev_idle r) = None"

definition events_of :: "task_id \<Rightarrow> callout_event list \<Rightarrow> callout_event list" where
  "events_of t es = filter (\<lambda>e. event_task e = Some t) es"

text \<open>The changes of state without an event; the second state is reached from the first.\<close>

fun silent_move :: "callout_task_state \<Rightarrow> callout_task_state \<Rightarrow> bool" where
  "silent_move TASK_STATE_CREATED TASK_STATE_ENQUEUED = True"
| "silent_move TASK_STATE_ENQUEUED TASK_STATE_DEQUEUED = True"
| "silent_move TASK_STATE_ENQUEUED TASK_STATE_CANCELLED = True"
| "silent_move TASK_STATE_DEQUEUED TASK_STATE_CANCELLED = True"
| "silent_move s s' = (s = s')"

inductive task_move :: "task_id \<Rightarrow> task_view \<Rightarrow> callout_event list \<Rightarrow> task_view \<Rightarrow> bool" where
  Move_create:
    "task_move t (run, None) [Ev_create t (a \<and> f)] (run, Some (new_task p a f))"
| Move_silent:
    "same_life k k' \<Longrightarrow> silent_move (m_status k) (m_status k') \<Longrightarrow>
     (m_do_repeat k \<longrightarrow> m_do_repeat k') \<Longrightarrow>
     task_move t (run, Some k) [] (run, Some k')"
| Move_start:
    "same_life k k' \<Longrightarrow> m_do_repeat k' = m_do_repeat k \<Longrightarrow>
     m_status k = TASK_STATE_DEQUEUED \<Longrightarrow> m_status k' = TASK_STATE_EXECUTING \<Longrightarrow>
     task_move t (False, Some k) [] (True, Some k')"
| Move_run:
    "same_life k k' \<Longrightarrow> m_do_repeat k' = m_do_repeat k \<Longrightarrow> m_proc k \<Longrightarrow>
     m_status k = TASK_STATE_EXECUTING \<Longrightarrow> m_status k' = phase_state (Phase_ran r) \<Longrightarrow>
     task_move t (True, Some k) [Ev_run t r] (False, Some k')"
| Move_no_proc:
    "same_life k k' \<Longrightarrow> m_do_repeat k' = m_do_repeat k \<Longrightarrow> \<not> m_proc k \<Longrightarrow>
     m_status k = TASK_STATE_EXECUTING \<Longrightarrow> m_status k' = TASK_STATE_EXEC_FAILED \<Longrightarrow>
     task_move t (True, Some k) [] (False, Some k')"
| Move_requeue:
    "same_life k k' \<Longrightarrow> m_do_repeat k' = m_do_repeat k \<Longrightarrow> m_do_repeat k \<Longrightarrow>
     m_status k = TASK_STATE_EXECUTING \<Longrightarrow> m_status k' = TASK_STATE_ENQUEUED \<Longrightarrow>
     task_move t (False, Some k) [] (False, Some k')"
| Move_destroy:
    "task_move t (False, Some k) (end_events t k) (False, None)"

inductive_cases move_from_none: "task_move t (run, None) es v"

text \<open>Several moves in a row.\<close>

inductive task_moves :: "task_id \<Rightarrow> task_view \<Rightarrow> callout_event list \<Rightarrow> task_view \<Rightarrow> bool" where
  Moves_none: "task_moves t v [] v"
| Moves_step: "task_moves t v es v' \<Longrightarrow> task_move t v' es' v'' \<Longrightarrow> task_moves t v (es @ es') v''"

lemma task_moves_trans:
  "task_moves t v' es' v'' \<Longrightarrow> task_moves t v es v' \<Longrightarrow> task_moves t v (es @ es') v''"
proof (induction rule: task_moves.induct)
  case (Moves_step t v' es1 v1 es2 v2)
  then have "task_moves t v (es @ es1) v1" by blast
  from task_moves.Moves_step [OF this Moves_step.hyps(2)] show ?case by simp
qed simp

lemma task_moves_one: "task_move t v es v' \<Longrightarrow> task_moves t v es v'"
  using task_moves.Moves_step [OF Moves_none, of t v es v'] by simp

text \<open>A step of the whole scheduler as moves of all tasks.\<close>

definition moves :: "callout_run \<Rightarrow> callout_run \<Rightarrow> bool" where
  "moves R R' \<longleftrightarrow> (\<exists>evs. c_trace (co R') = c_trace (co R) @ evs \<and>
    (\<forall>t. task_moves t (view R t) (events_of t evs) (view R' t)))"

lemma movesI:
  assumes "c_trace (co R') = c_trace (co R) @ evs"
    and "\<And>u. u \<noteq> t \<Longrightarrow> view R' u = view R u" and "\<And>u. u \<noteq> t \<Longrightarrow> events_of u evs = []"
    and "task_moves t (view R t) (events_of t evs) (view R' t)"
  shows "moves R R'"
  unfolding moves_def
proof (intro exI conjI allI)
  show "task_moves u (view R u) (events_of u evs) (view R' u)" for u
    using assms(2-4) by (cases "u = t") (auto intro: Moves_none)
qed (rule assms(1))

lemma moves_same:
  assumes "c_trace (co R') = c_trace (co R) @ evs" "\<And>u. view R' u = view R u" "\<And>u. events_of u evs = []"
  shows "moves R R'"
  by (rule movesI [OF assms(1)]) (auto simp: assms(2,3) intro: Moves_none)

lemma moves_refl: "moves R R"
  by (rule moves_same [of _ _ "[]"]) (simp_all add: events_of_def)

lemma moves_trans:
  assumes "moves R R'" "moves R' R''"
  shows "moves R R''"
proof -
  obtain evs evs' where e: "c_trace (co R') = c_trace (co R) @ evs"
      "\<And>t. task_moves t (view R t) (events_of t evs) (view R' t)"
      "c_trace (co R'') = c_trace (co R') @ evs'"
      "\<And>t. task_moves t (view R' t) (events_of t evs') (view R'' t)"
    using assms unfolding moves_def by blast
  have "task_moves t (view R t) (events_of t (evs @ evs')) (view R'' t)" for t
    using task_moves_trans [OF e(4) e(2)] by (simp add: events_of_def)
  then show ?thesis using e(1,3) unfolding moves_def by (intro exI [of _ "evs @ evs'"]) simp
qed

text \<open>Changing the record of one live task, destroying one.\<close>

lemma moves_update:
  assumes "c_trace (co R') = c_trace (co R) @ evs" "\<And>u. events_of u evs = []"
    "s_tsk_tbl (co R') = (s_tsk_tbl (co R))(t \<mapsto> s)" "c_tasks (co R') = (c_tasks (co R))(t \<mapsto> k')"
    "s_tsk_tbl (co R) t \<noteq> None" "c_tasks (co R) t = Some k"
    "\<And>u. u \<noteq> t \<Longrightarrow> (u, Phase_proc) \<in> set (execs R') \<longleftrightarrow> (u, Phase_proc) \<in> set (execs R)"
    "task_move t ((t, Phase_proc) \<in> set (execs R), Some k) [] ((t, Phase_proc) \<in> set (execs R'), Some k')"
  shows "moves R R'"
proof (rule movesI [OF assms(1)])
  show "task_moves t (view R t) (events_of t evs) (view R' t)"
    using task_moves_one [OF assms(8)] assms(2-6) by (auto simp: view_def)
qed (use assms in \<open>auto simp: view_def\<close>)

lemma events_of_end [simp]: "events_of t (end_events t k) = end_events t k"
  "u \<noteq> t \<Longrightarrow> events_of u (end_events t k) = []"
  by (auto simp: events_of_def end_events_def)

lemma moves_destroy:
  assumes "c_trace (co R') = c_trace (co R) @ evs @ end_events t k" "\<And>u. events_of u evs = []"
    "s_tsk_tbl (co R') = (s_tsk_tbl (co R))(t := None)" "c_tasks (co R') = (c_tasks (co R))(t := None)"
    "s_tsk_tbl (co R) t \<noteq> None" "c_tasks (co R) t = Some k"
    "\<And>u. (u, Phase_proc) \<in> set (execs R') \<longleftrightarrow> (u, Phase_proc) \<in> set (execs R)"
    "(t, Phase_proc) \<notin> set (execs R)"
  shows "moves R R'"
proof (rule movesI [OF assms(1)])
  have "events_of u (evs @ end_events t k) = events_of u (end_events t k)" for u
    using assms(2) [of u] by (simp add: events_of_def)
  then show "task_moves t (view R t) (events_of t (evs @ end_events t k)) (view R' t)"
    and "u \<noteq> t \<Longrightarrow> events_of u (evs @ end_events t k) = []" for u
    using assms(3-8) by (auto simp: view_def intro: task_moves_one Move_destroy)
qed (use assms in \<open>auto simp: view_def\<close>)

subsection \<open>Every step is made of moves\<close>

lemma silent_refl [simp]: "silent_move s s"
  by (cases s) simp_all

lemma no_events [simp]: "events_of u [] = []" "events_of u [Ev_wakeup] = []"
  by (simp_all add: events_of_def)

lemma not_running:
  assumes "co_inv R" "\<And>ph. where_is R t \<noteq> In_exec ph"
  shows "(t, Phase_proc) \<notin> set (execs R)"
  using assms inv_place(5) [OF co_invD(1) [OF assms(1)]] by blast

lemma moves_create:
  assumes inv: "co_inv R" and t: "t \<noteq> 0" "c_tasks (co R) t = None"
    and r: "gallus_callout_create_task alloc t tptr proc arg freeproc (co R) = (c, r, p)"
  shows "moves R (R\<lparr>co := c\<rparr>)"
proof (cases "s_is_handler_inited (co R) \<and> tptr \<and> alloc = GALLUS_RESULT_OK")
  case False
  then have "c = co R" using r
    by (auto simp: gallus_callout_create_task_def s_create_task_def split: if_splits)
  then show ?thesis by (simp add: moves_refl)
next
  case True
  have dead: "s_tsk_tbl (co R) t = None"
    using co_invD(3) [OF inv, of t] t(2) by (auto simp: task_ok_def split: option.splits)
  show ?thesis
  proof (cases "malloc_ok (co R)")
    case True
    then have c: "c = (co R)\<lparr>c_tasks := (c_tasks (co R))(t \<mapsto> new_task proc arg freeproc),
        s_tsk_tbl := (s_tsk_tbl (co R))(t \<mapsto> TASK_STATE_CREATED),
        c_trace := c_trace (co R) @ [Ev_create t (arg \<and> freeproc)]\<rparr>"
      using r \<open>s_is_handler_inited (co R) \<and> tptr \<and> alloc = GALLUS_RESULT_OK\<close> dead t
      by (auto simp: gallus_callout_create_task_def s_create_task_def s_set_task_state_in_table_def
          trace_def Let_def)
    show ?thesis
      by (rule movesI [of _ _ "[Ev_create t (arg \<and> freeproc)]" t])
        (use dead in \<open>auto simp: c view_def events_of_def intro: task_moves_one Move_create\<close>)
  next
    case False
    then have "\<exists>k. c = (co R)\<lparr>c_tasks := (c_tasks (co R))(t \<mapsto> k)\<rparr>"
      using r \<open>s_is_handler_inited (co R) \<and> tptr \<and> alloc = GALLUS_RESULT_OK\<close> dead t
      by (auto simp: gallus_callout_create_task_def s_create_task_def s_set_task_state_in_table_def
          s_destroy_task_no_lock_def s_delete_def s_get_task_state_in_table_def upd_task_def Let_def)
    then obtain k where c: "c = (co R)\<lparr>c_tasks := (c_tasks (co R))(t \<mapsto> k)\<rparr>" ..
    show ?thesis by (rule moves_same [of _ _ "[]"]) (use dead in \<open>auto simp: c view_def\<close>)
  qed
qed

lemma submitted_repeat [simp]: "m_do_repeat k \<Longrightarrow> m_do_repeat (submitted_task d i k)"
  by (simp add: submitted_task_def Let_def)

lemma moves_submit:
  assumes inv: "co_inv R" and s: "gallus_callout_submit_task now t delay interval (co R) = Some (c', r)"
  shows "moves R (R\<lparr>co := c'\<rparr>)"
proof (cases "s_tsk_tbl (co R) t = Some TASK_STATE_CREATED")
  case False
  with submit_unchanged [OF s] show ?thesis by (simp add: moves_refl)
next
  case True
  obtain k where k: "t \<noteq> 0" "c_tasks (co R) t = Some k" "where_is R t = Nowhere"
      "n_cancellers (co R) t = 0" "good_task Nowhere 0 TASK_STATE_CREATED k"
    by (rule created_nowhere [OF inv True])
  then have nq: "t \<notin> set (s_chrono_tsk_q (co R))" by (simp add: where_is_busy busy_def)
  have nt: "\<not> m_is_in_timed_q k" "m_status k = TASK_STATE_CREATED" using k(5) by (simp_all add: good_task_def)
  from s k(2) nt(1) nq show ?thesis
  proof (cases rule: submit_cases)
    case 1
    then show ?thesis by (simp add: moves_refl)
  next
    case 2
    show ?thesis
      by (rule moves_update [of _ _ "[]" t TASK_STATE_ENQUEUED _ k])
        (use k nt True in \<open>auto simp: 2 same_life_def intro: Move_silent\<close>)
  next
    case 3
    show ?thesis
      by (rule moves_update [of _ _ "[]" t TASK_STATE_ENQUEUED _ k])
        (use k nt True in \<open>auto simp: 3 same_life_def intro: Move_silent\<close>)
  next
    case (4 k')
    have "same_life k k'" by (simp add: 4 same_life_def)
    moreover have "silent_move (m_status k) (m_status k')" using nt by (simp add: 4)
    ultimately have "task_move t (run, Some k) [] (run, Some k')" for run
      using nt by (intro Move_silent) (auto simp: 4)
    then show ?thesis
      by (intro moves_update [of _ _ "[Ev_wakeup]" t TASK_STATE_ENQUEUED _ k])
        (use k nt True 4(5-8) in auto)
  qed
qed

lemma moves_cancel:
  assumes inv: "co_inv R"
  shows "moves R (R\<lparr>co := gallus_callout_cancel_task t (co R)\<rparr>)"
proof (cases "s_is_handler_inited (co R) \<and> t \<noteq> 0 \<and> s_cancel t (co R) \<noteq> co R")
  case False
  then show ?thesis by (auto simp: gallus_callout_cancel_task_def moves_refl)
next
  case True
  then have t: "t \<noteq> 0" and ne: "s_cancel t (co R) \<noteq> co R" by auto
  note eff = cancel_effect [OF inv t]
  obtain st where st: "s_tsk_tbl (co R) t = Some st"
    using ne eff by (auto split: option.splits)
  have nc: "st \<noteq> TASK_STATE_CANCELLED" using ne eff st by auto
  obtain k where k: "c_tasks (co R) t = Some k"
      "good_task (where_is R t) (n_cancellers (co R) t) st k"
    by (rule inv_live [OF inv st])
  have s: "m_status k = st" using k(2) by (simp add: good_task_def)
  have mark: "moves R (R\<lparr>co := set_states t TASK_STATE_CANCELLED (co R)\<rparr>)"
    if "st = TASK_STATE_ENQUEUED \<or> st = TASK_STATE_DEQUEUED"
    by (rule moves_update [of _ _ "[]" t TASK_STATE_CANCELLED _ k])
      (use that k s st in \<open>auto simp: set_states_live [OF t st k(1)] same_life_def intro: Move_silent\<close>)
  have "moves R (R\<lparr>co := s_cancel t (co R)\<rparr>)"
  proof (cases "where_is R t")
    case In_timed
    then have r: "(t, Phase_proc) \<notin> set (execs R)" by (intro not_running [OF inv]) simp
    from In_timed have "s_cancel t (co R) = s_set_cancel_and_destroy_task_no_lock t (co R)"
      using eff st nc by simp
    with st k(1) r show ?thesis
      by (intro moves_destroy [of _ _ "[]" t k])
        (auto simp: destroy_live [OF t st k(1) good_not_deleting [OF k(2)]])
  next
    case (In_exec ph)
    with eff st nc have c: "s_cancel t (co R) = (co R)\<lparr>c_tasks := (c_tasks (co R))
        (t \<mapsto> k\<lparr>m_cancel_ref_count := m_cancel_ref_count k + 1\<rparr>),
        c_cancellers := c_cancellers (co R) @ [(t, True)]\<rparr>"
      by (simp add: task_eq [OF k(1)])
    show ?thesis
      by (rule moves_update [of _ _ "[]" t st _ k])
        (use k st in \<open>auto simp: c same_life_def fun_upd_idem intro: Move_silent\<close>)
  next
    case Nowhere
    with eff st ne nc show ?thesis by simp
  qed (use eff st nc mark k(2) in \<open>auto simp: good_task_def\<close>)
  with True show ?thesis by (simp add: gallus_callout_cancel_task_def)
qed

lemma moves_canceller:
  assumes inv: "co_inv R" and i: "i < length (c_cancellers (co R))"
  shows "moves R (R\<lparr>co := canceller_turn i (co R)\<rparr>)"
proof -
  define t where "t = fst (c_cancellers (co R) ! i)"
  obtain st k where k: "s_tsk_tbl (co R) t = Some st" "c_tasks (co R) t = Some k"
    by (rule canceller_live [OF inv i t_def])
  from inv i t_def show ?thesis
  proof (cases rule: canceller_turn_cases)
    case (sleeps ph)
    then show ?thesis by (intro moves_same [of _ _ "[]"]) (simp_all add: view_def)
  next
    case (leaves k')
    show ?thesis
      by (rule moves_update [of _ _ "[]" t st _ k])
        (use k leaves(2) in \<open>auto simp: leaves(5) same_life_def fun_upd_idem intro: Move_silent\<close>)
  next
    case (destroys k')
    have "(t, Phase_proc) \<notin> set (execs R)" using destroys by (intro not_running [OF inv]) simp
    then show ?thesis
      by (intro moves_destroy [of _ _ "[]" t k']) (use k destroys(2) in \<open>auto simp: destroys(5)\<close>)
  qed
qed

lemma moves_take_out:
  assumes inv: "co_inv R" and t: "t \<in> set (s_chrono_tsk_q (co R))"
  shows "moves R (R\<lparr>co := take_out t (co R), fetched := ts\<rparr>)"
proof -
  have "t \<in> set (busy R)" using t by (simp add: busy_def)
  then obtain st k where k: "t \<noteq> 0" "s_tsk_tbl (co R) t = Some st" "c_tasks (co R) t = Some k"
      "good_task (where_is R t) (n_cancellers (co R) t) st k"
    by (rule inv_busy [OF inv])
  have w: "where_is R t = In_timed" by (rule inv_place(1) [OF co_invD(1) [OF inv] t])
  then have s: "m_status k = TASK_STATE_ENQUEUED" using k(4) by (simp add: good_task_def)
  show ?thesis
    by (rule moves_update [of _ _ "[]" t TASK_STATE_DEQUEUED _ k])
      (use k s in \<open>auto simp: take_out_live [OF k(1-3)] same_life_def intro: Move_silent\<close>)
qed

lemma moves_force:
  assumes inv: "co_inv R" and f: "force_enter t (co R) = (c, r, do_run)" and t: "t \<noteq> 0"
  shows "moves R (R\<lparr>co := c, fetched := ts\<rparr>)"
proof (cases do_run)
  case True
  with force_effect [OF assms] moves_take_out [OF inv, of t] show ?thesis by simp
next
  case False
  with force_effect [OF assms] have "c = co R" by simp
  then show ?thesis by (intro moves_same [of _ _ "[]"]) (simp_all add: view_def)
qed

lemma moves_runnables:
  assumes "co_inv R" "runnables_loop a n (co R) = (c, es)"
  shows "moves R (R\<lparr>co := c, fetched := ts\<rparr>)"
  using assms
proof (induction n arbitrary: R c es)
  case 0
  then have "c = co R" by simp
  then show ?case by (intro moves_same [of _ _ "[]"]) (simp_all add: view_def)
next
  case (Suc n)
  show ?case
  proof (cases "\<exists>e q. s_chrono_tsk_q (co R) = e # q \<and> m_next_abstime (task (co R) e) \<le> a")
    case False
    with Suc.prems have "c = co R" by (auto split: list.splits if_splits)
    then show ?thesis by (intro moves_same [of _ _ "[]"]) (simp_all add: view_def)
  next
    case True
    then obtain e q where e: "s_chrono_tsk_q (co R) = e # q" "m_next_abstime (task (co R) e) \<le> a" by blast
    let ?R = "R\<lparr>co := take_out e (co R), fetched := fetched R @ [e]\<rparr>"
    obtain es' where es': "runnables_loop a n (co ?R) = (c, es')" "es = e # es'"
      using Suc.prems(2) e by (auto split: prod.splits)
    have "co_inv ?R" by (rule co_inv_take_out [OF Suc.prems(1)]) (simp add: e)
    from Suc.IH [OF this es'(1)] have "moves ?R (R\<lparr>co := c, fetched := ts\<rparr>)" by simp
    with moves_take_out [OF Suc.prems(1), of e] e show ?thesis by (auto intro: moves_trans)
  qed
qed

lemma moves_fetch:
  assumes inv: "co_inv R" and f: "fetch_tasks now (co R) = (c, ts)"
  shows "moves R (R\<lparr>co := c, fetched := fetched R @ ts\<rparr>)"
proof -
  define us where "us = take CALLOUT_TASK_MAX (s_urgent_tsk_q (co R)) @ take CALLOUT_TASK_MAX (s_idle_tsk_q (co R))"
  define c1 where "c1 = (co R)\<lparr>s_urgent_tsk_q := drop CALLOUT_TASK_MAX (s_urgent_tsk_q (co R)),
      s_idle_tsk_q := drop CALLOUT_TASK_MAX (s_idle_tsk_q (co R))\<rparr>"
  let ?R = "R\<lparr>co := c1, fetched := fetched R @ us\<rparr>"
  have m1: "moves R ?R" by (rule moves_same [of _ _ "[]"]) (simp_all add: view_def c1_def)
  show ?thesis
  proof (cases "now > 0")
    case False
    with f m1 show ?thesis
      by (simp add: fetch_tasks_def s_get_runnable_timed_task_def Let_def c1_def us_def)
  next
    case True
    obtain es where es: "runnables_loop (s64 (now + CALLOUT_TASK_SCHED_JITTER)) CALLOUT_TASK_MAX c1 = (c, es)"
        "ts = es @ us"
      using f True by (auto simp: fetch_tasks_def s_get_runnable_timed_task_def s_get_runnables_def Let_def
          c1_def us_def CALLOUT_TASK_MAX_def split: prod.splits)
    have "fetch_tasks 0 (co R) = (c1, us)"
      by (simp add: fetch_tasks_def s_get_runnable_timed_task_def Let_def c1_def us_def)
    from co_inv_fetch [OF inv this] have "co_inv ?R" .
    from moves_runnables [OF this] es(1) have "moves ?R (R\<lparr>co := c, fetched := fetched R @ ts\<rparr>)" by simp
    with m1 show ?thesis by (rule moves_trans)
  qed
qed

lemma moves_dispatch:
  assumes inv: "co_inv R" and t: "t \<in> set (fetched R)"
  shows "moves R (R\<lparr>co := dispatch_task now t (co R), fetched := ts, ready := rs\<rparr>)"
proof -
  have "t \<in> set (busy R)" using t by (simp add: busy_def)
  then obtain st k where k: "t \<noteq> 0" "s_tsk_tbl (co R) t = Some st" "c_tasks (co R) t = Some k"
      "good_task (where_is R t) (n_cancellers (co R) t) st k"
    by (rule inv_busy [OF inv])
  have w: "where_is R t = In_fetched" by (rule inv_place(3) [OF co_invD(1) [OF inv] t])
  then have s: "st = m_status k" "m_status k \<in> set (states_at In_fetched 0)" using k(4) by (auto simp: good_task_def)
  define k' where "k' = (if m_status k = TASK_STATE_CANCELLED then k else k\<lparr>m_status := TASK_STATE_DEQUEUED\<rparr>)"
  note d = dispatch_live [OF k(1) k(2) [unfolded s(1)] k(3) s(2), of now, folded k'_def]
  have "same_life k (k'\<lparr>m_last_abstime := now\<rparr>)" "m_do_repeat k' = m_do_repeat k"
    "silent_move (m_status k) (m_status k')"
    using s(2) by (auto simp: k'_def same_life_def)
  then have "task_move t (run, Some k) [] (run, Some (k'\<lparr>m_last_abstime := now\<rparr>))" for run
    by (intro Move_silent) auto
  then show ?thesis
    by (intro moves_update [of _ _ "[]" t "m_status k'" _ k]) (use k in \<open>auto simp: d\<close>)
qed

lemma moves_exec_start:
  assumes inv: "co_inv R" and t: "t \<in> set (ready R)" and e: "exec_enter t (co R) = (c, Exec_start)"
  shows "moves R (R\<lparr>co := c, ready := rs, execs := execs R @ [(t, Phase_proc)]\<rparr>)"
  using inv t
proof (cases rule: exec_enter_ready)
  case cancelled
  with e show ?thesis by simp
next
  case (start k)
  have "(t, Phase_proc) \<notin> set (execs R)"
    using inv_place(4) [OF co_invD(1) [OF inv] t] by (intro not_running [OF inv]) simp
  with start show ?thesis
    by (intro moves_update [of _ _ "[]" t TASK_STATE_EXECUTING _ k])
      (use e in \<open>auto simp: same_life_def good_task_def intro: Move_start\<close>)
qed

lemma moves_exec_return:
  assumes inv: "co_inv R" and t: "t \<in> set (ready R)" and e: "exec_enter t (co R) = (c, Exec_return r)"
  shows "moves R (R\<lparr>co := c, ready := rs\<rparr>)"
  using inv t
proof (cases rule: exec_enter_ready)
  case start
  with e show ?thesis by simp
next
  case (cancelled k)
  have "(t, Phase_proc) \<notin> set (execs R)"
    using inv_place(4) [OF co_invD(1) [OF inv] t] by (intro not_running [OF inv]) simp
  with cancelled e show ?thesis
    by (intro moves_destroy [of _ _ "[]" t k])
      (auto simp: destroy_live [OF cancelled(1-3) good_not_deleting [OF cancelled(4)]])
qed

lemma moves_reset:
  assumes inv: "co_inv R" and t: "(t, Phase_proc) \<in> set (execs R)"
  shows "moves R (R\<lparr>co := fst (gallus_callout_task_reset_interval t interval (co R))\<rparr>)"
  using inv t
proof (cases rule: exec_live)
  case (1 k)
  show ?thesis
  proof (cases "interval \<ge> CALLOUT_TASK_MIN_INTERVAL")
    case False
    then show ?thesis by (simp add: gallus_callout_task_reset_interval_def moves_refl)
  next
    case True
    then have "fst (gallus_callout_task_reset_interval t interval (co R)) =
        (co R)\<lparr>c_tasks := (c_tasks (co R))(t \<mapsto> k\<lparr>m_interval_time := interval\<rparr>)\<rparr>"
      using 1 by (simp add: gallus_callout_task_reset_interval_def task_def upd_task_live good_task_def)
    with 1 show ?thesis
      by (intro moves_update [of _ _ "[]" t "phase_state Phase_proc" _ k])
        (auto simp: same_life_def fun_upd_idem intro: Move_silent)
  qed
qed

lemma moves_ran:
  assumes inv: "co_inv R" and t: "(t, Phase_proc) \<in> set (execs R)" and e: "exec_ran r t (co R) = (c, ret)"
  shows "moves R (R\<lparr>co := c, execs := remove1 (t, Phase_proc) (execs R) @ [(t, Phase_ran ret)]\<rparr>)"
    (is "moves R ?R")
  using inv t
proof (cases rule: exec_live)
  case (1 k)
  then have st: "s_tsk_tbl (co R) t = Some TASK_STATE_EXECUTING" "m_status k = TASK_STATE_EXECUTING"
    by (simp_all add: good_task_def)
  note s = exec_ran_live [OF 1(1) st(1) 1(3) st(2) e]
  have "distinct (execs R)"
    using co_invD(1) [OF inv] by (simp add: busy_def distinct_map)
  then have gone: "(t, Phase_proc) \<notin> set (execs ?R)" by simp
  let ?k = "k\<lparr>m_status := phase_state (Phase_ran ret)\<rparr>"
  have "task_move t (True, Some k) (if m_proc k then [Ev_run t r] else []) (False, Some ?k)"
    using st s(8) by (auto simp: same_life_def intro: Move_run Move_no_proc)
  then show ?thesis
    by (intro movesI [of _ _ "if m_proc k then [Ev_run t r] else []" t] task_moves_one)
      (use t gone 1 in \<open>auto simp: s view_def events_of_def\<close>)
qed

lemma moves_finish:
  assumes inv: "co_inv R" and t: "(t, Phase_ran ret) \<in> set (execs R)"
  shows "moves R (R\<lparr>co := fst (exec_finish now ret t (co R)), execs := remove1 (t, Phase_ran ret) (execs R)\<rparr>)"
    (is "moves R ?R")
  using inv t
proof (cases rule: exec_live)
  case (1 k)
  obtain c' r where e: "exec_finish now ret t (co R) = (c', r)" by (cases "exec_finish now ret t (co R)")
  have c: "co ?R = c'" by (simp add: e)
  have "(u, Phase_proc) \<in> set (execs ?R) \<longleftrightarrow> (u, Phase_proc) \<in> set (execs R)" for u by simp
  moreover have nr: "(t, Phase_proc) \<notin> set (execs R)"
    using inv_place(5) [OF co_invD(1) [OF inv] t] inv_place(5) [OF co_invD(1) [OF inv], of t Phase_proc] by auto
  ultimately have run: "\<And>u. (u, Phase_proc) \<in> set (execs ?R) \<longleftrightarrow> (u, Phase_proc) \<in> set (execs R)"
    "(t, Phase_proc) \<notin> set (execs ?R)" by auto
  from 1(1-3,5,4) e show ?thesis
  proof (cases rule: finish_cases)
    case waiters
    show ?thesis
      by (rule moves_update [of _ _ "[]" t "phase_state (Phase_ran ret)" _ k])
        (use 1 run in \<open>auto simp: c waiters same_life_def fun_upd_idem simp del: phase_state.simps intro: Move_silent\<close>)
  next
    case (requeue k')
    have "task_move t (False, Some k) [] (False, Some k')"
      using 1(4) requeue(2,3) by (intro Move_requeue) (auto simp: requeue(5) same_life_def good_task_def)
    then show ?thesis
      using 1 run nr requeue(7,8,13) unfolding c
      by (intro moves_update [of _ _ "[Ev_wakeup]" t TASK_STATE_ENQUEUED _ k]) (auto simp: c)
  next
    case (destroyed evs)
    then have "events_of u evs = []" for u
      by (auto simp: events_of_def filter_empty_conv)
    then show ?thesis
      using 1 run nr destroyed(2,3,8) by (intro moves_destroy [of _ _ evs t k]) (auto simp: c)
  qed
qed

lemma moves_freeup:
  assumes inv: "co_inv R" and t: "t \<in> set (fetched R)"
  shows "moves R (R\<lparr>co := s_task_freeup t (co R), fetched := ts\<rparr>)"
proof -
  have "t \<in> set (busy R)" using t by (simp add: busy_def)
  then obtain st k where k: "t \<noteq> 0" "s_tsk_tbl (co R) t = Some st" "c_tasks (co R) t = Some k"
      "good_task (where_is R t) (n_cancellers (co R) t) st k"
    by (rule inv_busy [OF inv])
  have "(t, Phase_proc) \<notin> set (execs R)"
    using inv_place(3) [OF co_invD(1) [OF inv] t] by (intro not_running [OF inv]) simp
  with k show ?thesis
    by (intro moves_destroy [of _ _ "[]" t k])
      (auto simp: s_task_freeup_def destroy_live [OF k(1-3) good_not_deleting [OF k(4)]])
qed

lemma moves_freeup_all:
  assumes "co_inv R" "fetched R = ts"
  shows "moves R (R\<lparr>co := fold s_task_freeup ts (co R), fetched := us\<rparr>)"
  using assms
proof (induction ts arbitrary: R)
  case Nil
  then show ?case by (intro moves_same [of _ _ "[]"]) (simp_all add: view_def)
next
  case (Cons t ts)
  let ?R = "R\<lparr>co := s_task_freeup t (co R), fetched := remove1 t (fetched R)\<rparr>"
  have t: "t \<in> set (fetched R)" using Cons.prems(2) by simp
  have "fetched ?R = ts" using Cons.prems(2) by simp
  from Cons.IH [OF freeup_fetched(1) [OF Cons.prems(1) t] this] moves_freeup [OF Cons.prems(1) t]
  show ?case by (auto intro: moves_trans)
qed

lemma view_same_core:
  "c_tasks (co R') = c_tasks (co R) \<Longrightarrow> s_tsk_tbl (co R') = s_tsk_tbl (co R) \<Longrightarrow> execs R' = execs R \<Longrightarrow>
    view R' t = view R t"
  by (simp add: view_def)

lemma moves_free_bbq:
  assumes inv: "co_inv R" and f: "fetched R = []"
    and m: "mset us + mset is + mset ts = mset (s_urgent_tsk_q (co R)) + mset (s_idle_tsk_q (co R))"
  shows "moves R (R\<lparr>co := with_bbq us is (fold s_task_freeup ts (co R))\<rparr>)"
proof -
  let ?R = "R\<lparr>co := with_bbq us is (co R), fetched := ts\<rparr>"
  have inv1: "co_inv ?R" by (rule co_inv_move_bbq [OF inv f with_bbq_def m])
  have "moves R ?R" by (rule moves_same [of _ _ "[]"]) (simp_all add: view_def with_bbq_def)
  moreover have "R\<lparr>co := c, fetched := []\<rparr> = R\<lparr>co := c\<rparr>" for c
    using f by (cases R) simp
  then have "moves ?R (R\<lparr>co := with_bbq us is (fold s_task_freeup ts (co R))\<rparr>)"
    using moves_freeup_all [OF inv1, of ts "[]"] by (simp add: fold_freeup_bbq)
  ultimately show ?thesis by (rule moves_trans)
qed

lemma moves_destroy_all:
  assumes "co_inv R" "fetched R = []"
  shows "moves R (R\<lparr>co := s_destroy_all_queued_timed_tasks (co R)\<rparr>)"
  using assms
proof (induction "co R" arbitrary: R rule: s_destroy_all_queued_timed_tasks.induct)
  case 1
  show ?case
  proof (cases "s_chrono_tsk_q (co R)")
    case Nil
    then have "s_destroy_all_queued_timed_tasks (co R) = co R"
      by (subst s_destroy_all_queued_timed_tasks.simps) (simp add: s_get_def)
    then show ?thesis by (simp add: moves_refl)
  next
    case (Cons t ts)
    let ?R = "R\<lparr>co := take_out t (co R), fetched := fetched R @ [t]\<rparr>"
    have inv1: "co_inv ?R" by (rule co_inv_take_out [OF 1(2)]) (simp add: Cons)
    have tf: "t \<in> set (fetched ?R)" by simp
    let ?R' = "R\<lparr>co := s_task_freeup t (take_out t (co R))\<rparr>"
    have e: "R\<lparr>co := c, fetched := []\<rparr> = R\<lparr>co := c\<rparr>" for c
      using 1(3) by (cases R) simp
    have inv': "co_inv ?R'" using freeup_fetched(1) [OF inv1 tf] 1(3) e by simp
    have t: "t \<noteq> 0"
      by (rule inv_busy [OF 1(2), of t]) (simp_all add: Cons busy_def)
    have "moves R ?R" by (rule moves_take_out [OF 1(2)]) (simp add: Cons)
    moreover have "moves ?R ?R'" using moves_freeup [OF inv1 tf, of "[]"] e by simp
    moreover have "s_get (co R) = (take_out t (co R), Some t)" by (simp add: s_get_def Cons)
    then have "moves ?R' (?R'\<lparr>co := s_destroy_all_queued_timed_tasks (co ?R')\<rparr>)"
      using 1(1) [of _ "Some t" t ?R'] inv' 1(3) t by (simp add: s_task_freeup_def)
    moreover have "s_destroy_all_queued_timed_tasks (co R) = s_destroy_all_queued_timed_tasks (co ?R')"
      using t by (subst s_destroy_all_queued_timed_tasks.simps) (simp add: s_get_def Cons s_task_freeup_def)
    ultimately show ?thesis by (auto intro: moves_trans)
  qed
qed

lemma moves_finalize:
  assumes inv: "co_inv R" and f: "fetched R = []"
  shows "moves R (R\<lparr>co := gallus_callout_finalize_handler (co R)\<rparr>)"
proof (cases "s_is_handler_inited (co R)")
  case True
  define c1 where "c1 = s_destroy_all_queued_timed_tasks (co R)"
  define c2 where "c2 = with_bbq [] (s_idle_tsk_q c1) (fold s_task_freeup (s_urgent_tsk_q c1) c1)"
  define c3 where "c3 = with_bbq [] [] (fold s_task_freeup (s_idle_tsk_q c1) c2)"
  have i1: "co_inv (R\<lparr>co := c1\<rparr>)" using co_inv_destroy_all [OF inv f] by (simp add: c1_def)
  have i2: "co_inv (R\<lparr>co := c2\<rparr>)"
    using co_inv_free_bbq(1) [OF i1, of "[]" "s_idle_tsk_q c1" "s_urgent_tsk_q c1"] f by (simp add: c2_def)
  have "moves R (R\<lparr>co := c1\<rparr>)" using moves_destroy_all [OF inv f] by (simp add: c1_def)
  moreover have "moves (R\<lparr>co := c1\<rparr>) (R\<lparr>co := c2\<rparr>)"
    using moves_free_bbq [OF i1, of "[]" "s_idle_tsk_q c1" "s_urgent_tsk_q c1"] f by (simp add: c2_def)
  moreover have "moves (R\<lparr>co := c2\<rparr>) (R\<lparr>co := c3\<rparr>)"
    using moves_free_bbq [OF i2, of "[]" "[]" "s_idle_tsk_q c1"] f
    by (simp add: c3_def) (simp add: c2_def with_bbq_def)
  moreover have "moves (R\<lparr>co := c3\<rparr>) (R\<lparr>co := c3\<lparr>s_is_handler_inited := False\<rparr>\<rparr>)"
    by (rule moves_same [of _ _ "[]"]) (simp_all add: view_def)
  ultimately have "moves R (R\<lparr>co := c3\<lparr>s_is_handler_inited := False\<rparr>\<rparr>)"
    by (blast intro: moves_trans)
  then show ?thesis using finalize_eq [OF True] by (simp add: c1_def c2_def c3_def)
qed (simp add: gallus_callout_finalize_handler_def moves_refl)

theorem co_step_moves:
  assumes "co_step R R'" "co_inv R"
  shows "moves R R'"
  using assms
proof (cases rule: co_step.cases)
  case Step_create
  with assms(2) show ?thesis by (simp add: moves_create)
next
  case Step_submit
  with assms(2) show ?thesis by (simp add: moves_submit)
next
  case Step_cancel
  with assms(2) show ?thesis by (simp add: moves_cancel)
next
  case Step_canceller
  with assms(2) show ?thesis by (simp add: moves_canceller)
next
  case (Step_force t c r do_run)
  with moves_force [OF assms(2) Step_force(4,3)] show ?thesis by simp
next
  case (Step_fetch now c ts)
  with moves_fetch [OF assms(2) Step_fetch(2)] show ?thesis by simp
next
  case (Step_fetch_timed now n c ts nw)
  then have "runnables_loop (s64 (now + CALLOUT_TASK_SCHED_JITTER)) n (co R) = (c, ts)"
    by (auto simp: s_get_runnables_def Let_def split: prod.splits)
  with moves_runnables [OF assms(2)] Step_fetch_timed(1) show ?thesis by simp
next
  case Step_dispatch
  with assms(2) show ?thesis by (simp add: moves_dispatch)
next
  case Step_exec_start
  with assms(2) show ?thesis by (simp add: moves_exec_start)
next
  case (Step_exec_return t c r)
  with moves_exec_return [OF assms(2) Step_exec_return(2,3)] show ?thesis by simp
next
  case Step_reset
  with assms(2) show ?thesis by (simp add: moves_reset)
next
  case Step_ran
  with assms(2) show ?thesis by (simp add: moves_ran)
next
  case Step_finish
  with assms(2) show ?thesis by (simp add: moves_finish)
next
  case Step_malloc
  then show ?thesis by (auto intro!: moves_same [of _ _ "[]"] simp: view_def)
next
  case Step_initialize
  then show ?thesis
    by (auto simp: gallus_callout_initialize_handler_def view_def intro!: moves_same [of _ _ "[]"])
next
  case Step_finalize
  with assms(2) show ?thesis by (simp add: moves_finalize)
qed

subsection \<open>The life of a task\<close>

text \<open>
  What the events of a task amount to: a live task has an argument to release or not, has run a number
  of times, and may have failed. A second creation, a run after a failure or after the release, and a
  release that is forgotten or repeated are violations.
\<close>

datatype task_life =
    Dead
  | Alive bool nat bool
  | Freed
  | Violated

fun life_step :: "task_life \<Rightarrow> callout_event \<Rightarrow> task_life" where
  "life_step Dead (Ev_create t b) = Alive b 0 False"
| "life_step (Alive b n failed) (Ev_run t r) =
    (if failed then Violated else Alive b (n + 1) (r \<noteq> GALLUS_RESULT_OK))"
| "life_step (Alive b n failed) (Ev_free_arg t) = (if b then Freed else Violated)"
| "life_step (Alive b n failed) (Ev_destroy t) = (if b then Violated else Dead)"
| "life_step Freed (Ev_destroy t) = Dead"
| "life_step l e = Violated"

definition life :: "task_id \<Rightarrow> callout_event list \<Rightarrow> task_life" where
  "life t es = foldl life_step Dead (events_of t es)"

fun life_ok :: "task_view \<Rightarrow> task_life \<Rightarrow> bool" where
  "life_ok (run, None) l \<longleftrightarrow> l = Dead"
| "life_ok (run, Some k) l \<longleftrightarrow>
    (\<exists>n failed. l = Alive (m_freeproc k \<and> m_arg k) n failed \<and>
      (failed \<longrightarrow> m_status k = TASK_STATE_EXEC_FAILED) \<and>
      (\<not> m_do_repeat k \<longrightarrow> n \<le> 1 \<and> (m_status k \<notin> set executed_states \<longrightarrow> n = 0) \<and> (run \<longrightarrow> n = 0)))"

lemma silent_executed:
  assumes "silent_move s s'" "s \<noteq> s'"
  shows "s \<notin> set executed_states" "s' \<notin> set executed_states"
  using assms by (cases s; cases s'; simp)+

lemma life_ok_move:
  assumes "task_move t v es v'" "life_ok v l"
  shows "life_ok v' (foldl life_step l es)"
  using assms
proof (cases rule: task_move.cases)
  case (Move_create run a f)
  with assms(2) show ?thesis by (auto simp: new_task_def)
next
  case (Move_silent k k' run)
  then obtain n failed where l: "l = Alive (m_freeproc k \<and> m_arg k) n failed"
      "failed \<longrightarrow> m_status k = TASK_STATE_EXEC_FAILED"
      "\<not> m_do_repeat k \<longrightarrow> n \<le> 1 \<and> (m_status k \<notin> set executed_states \<longrightarrow> n = 0) \<and> (run \<longrightarrow> n = 0)"
    using assms(2) by auto
  have "m_status k = TASK_STATE_EXEC_FAILED \<longrightarrow> m_status k' = TASK_STATE_EXEC_FAILED"
    "m_status k' \<notin> set executed_states \<longrightarrow> m_status k \<notin> set executed_states"
    by (metis silent_executed(1) [OF Move_silent(5)] executed_states_simps(6))
      (metis silent_executed(1) [OF Move_silent(5)])
  with l Move_silent show ?thesis by (auto simp: same_life_def)
next
  case (Move_run k k' r)
  then show ?thesis using assms(2) by (auto simp: same_life_def executed_states_def)
next
  case (Move_destroy k)
  then show ?thesis using assms(2) by (auto simp: end_events_def)
qed (use assms(2) in \<open>auto simp: same_life_def executed_states_def\<close>)

lemma life_ok_moves: "task_moves t v es v' \<Longrightarrow> life_ok v l \<Longrightarrow> life_ok v' (foldl life_step l es)"
  by (induction arbitrary: l rule: task_moves.induct) (auto intro: life_ok_move)

lemma life_append: "life t (es @ es') = foldl life_step (life t es) (events_of t es')"
  by (simp add: life_def events_of_def)

lemma co_reachable_life: "co_reachable R \<Longrightarrow> life_ok (view R t) (life t (c_trace (co R)))"
  unfolding co_reachable_def
proof (induction rule: rtranclp_induct)
  case base
  show ?case by (simp add: view_def run_init_def callout_init_def life_def events_of_def)
next
  case (step R R')
  have "co_inv R" using step.hyps(1) by (intro co_reachable_inv) (simp add: co_reachable_def)
  with step.hyps(2) have "moves R R'" by (rule co_step_moves)
  then obtain evs where "c_trace (co R') = c_trace (co R) @ evs"
      "task_moves t (view R t) (events_of t evs) (view R' t)"
    unfolding moves_def by blast
  with life_ok_moves [OF this(2) step.IH] show ?case by (simp add: life_append)
qed

lemma moves_steps:
  assumes "co_step\<^sup>*\<^sup>* R R'" "co_inv R"
  shows "moves R R' \<and> co_inv R'"
  using assms(1)
proof (induction rule: rtranclp_induct)
  case (step R' R'')
  then show ?case using co_step_moves [OF step.hyps(2)] co_inv_step [OF step.hyps(2)]
    by (blast intro: moves_trans)
qed (use assms(2) in \<open>simp add: moves_refl\<close>)

text \<open>A cancelled task stays so until it is destroyed.\<close>

lemma cancelled_moves:
  assumes "task_moves t v es v'" "v = (False, Some k)" "m_status k = TASK_STATE_CANCELLED"
  shows "(es = [] \<and> (\<exists>k'. v' = (False, Some k') \<and> m_status k' = TASK_STATE_CANCELLED \<and> same_life k k')) \<or>
    (\<exists>k' es'. es = end_events t k' @ es' \<and> same_life k k')"
  using assms
proof (induction rule: task_moves.induct)
  case (Moves_none t v)
  then show ?case by (simp add: same_life_def)
next
  case (Moves_step t v es v' es' v'')
  then consider k' where "es = []" "v' = (False, Some k')" "m_status k' = TASK_STATE_CANCELLED" "same_life k k'"
    | k' es'' where "es = end_events t k' @ es''" "same_life k k'" by blast
  then show ?case
  proof cases
    case (1 k')
    from Moves_step.hyps(2) show ?thesis
    proof (cases rule: task_move.cases)
      case (Move_silent k1 k2 run)
      with 1 have "m_status k2 = TASK_STATE_CANCELLED" by (cases "m_status k2") auto
      with Move_silent 1 show ?thesis by (auto simp: same_life_def)
    next
      case (Move_destroy k1)
      with 1 show ?thesis by (metis append_Nil append_Nil2 prod.inject option.inject)
    qed (use 1 in auto)
  next
    case (2 k' es'')
    then show ?thesis by (metis append.assoc)
  qed
qed

subsection \<open>Properties\<close>


text \<open>A run for the witnesses: two tasks, one submitted at once and cancelled, one in 50 microseconds.\<close>

definition sample_start :: callout_run where
  "sample_start = run_init\<lparr>co := fst (gallus_callout_initialize_handler False 0 callout_init)\<rparr>"

definition sample_created :: callout_run where
  "sample_created =
    (let c = fst (gallus_callout_create_task 0 1 True True True True (co sample_start));
         c = fst (gallus_callout_create_task 0 2 True True False False c)
     in sample_start\<lparr>co := c\<rparr>)"

definition sample_submitted :: callout_run where
  "sample_submitted =
    (let c = fst (the (gallus_callout_submit_task 5 1 0 0 (co sample_created)));
         c = fst (the (gallus_callout_submit_task 5 2 50000 20000 c))
     in sample_created\<lparr>co := c\<rparr>)"

definition sample_cancelled :: callout_run where
  "sample_cancelled = sample_submitted\<lparr>co := gallus_callout_cancel_task 1 (co sample_submitted)\<rparr>"

lemmas sample_defs = sample_start_def sample_created_def sample_submitted_def sample_cancelled_def
  run_init_def callout_init_def gallus_callout_initialize_handler_def gallus_callout_create_task_def
  s_create_task_def s_set_task_state_in_table_def trace_def gallus_callout_submit_task_def
  s_get_task_state_in_table_def s_submit_task_def submit_put_def bbq_put_def CALLOUT_TASK_MAX_def
  upd_task_def task_def new_task_def submitted_task_def set_states_def s_schedule_timed_task_def
  s_do_sched_def sched_times_def timed_insert_def CALLOUT_TASK_MIN_INTERVAL_def
  gallus_callout_cancel_task_def s_cancel_def cancel_enter_def Let_def

lemma sample_start_reachable: "co_reachable sample_start"
proof -
  have "co_step run_init sample_start"
    unfolding sample_start_def
    using Step_initialize [of run_init False 0] by (simp add: run_init_def)
  then show ?thesis by (simp add: co_reachable_def)
qed

lemma reachable_step: "co_reachable R \<Longrightarrow> co_step R R' \<Longrightarrow> co_reachable R'"
  unfolding co_reachable_def by (rule rtranclp.rtrancl_into_rtrancl)

lemma sample_created_reachable: "co_reachable sample_created"
proof -
  let ?c = "gallus_callout_create_task 0 1 True True True True (co sample_start)"
  let ?d = "gallus_callout_create_task 0 2 True True False False (fst ?c)"
  have "co_reachable (sample_start\<lparr>co := fst ?c\<rparr>)"
  proof (rule reachable_step [OF sample_start_reachable])
    show "co_step sample_start (sample_start\<lparr>co := fst ?c\<rparr>)"
      by (rule Step_create [of 1]) (auto simp: sample_defs)
  qed
  then have "co_reachable (sample_start\<lparr>co := fst ?d\<rparr>)"
  proof (rule reachable_step)
    show "co_step (sample_start\<lparr>co := fst ?c\<rparr>) (sample_start\<lparr>co := fst ?d\<rparr>)"
      using Step_create [of 2 "sample_start\<lparr>co := fst ?c\<rparr>" 0 True True False False "fst ?d"]
      by (simp add: sample_defs)
  qed
  then show ?thesis by (simp add: sample_created_def Let_def)
qed

lemma sample_submitted_reachable: "co_reachable sample_submitted"
proof -
  let ?c = "fst (the (gallus_callout_submit_task 5 1 0 0 (co sample_created)))"
  let ?d = "fst (the (gallus_callout_submit_task 5 2 50000 20000 ?c))"
  have "co_reachable (sample_created\<lparr>co := ?c\<rparr>)"
  proof (rule reachable_step [OF sample_created_reachable])
    show "co_step sample_created (sample_created\<lparr>co := ?c\<rparr>)"
      by (rule Step_submit [of 5 1 0 0 _ _ 0]) (simp add: sample_defs)
  qed
  then have "co_reachable (sample_created\<lparr>co := ?d\<rparr>)"
  proof (rule reachable_step)
    have "gallus_callout_submit_task 5 2 50000 20000 (co (sample_created\<lparr>co := ?c\<rparr>)) = Some (?d, 0)"
      by (simp add: sample_defs)
    from Step_submit [OF this]
    show "co_step (sample_created\<lparr>co := ?c\<rparr>) (sample_created\<lparr>co := ?d\<rparr>)" by simp
  qed
  then show ?thesis by (simp add: sample_submitted_def Let_def)
qed

lemma sample_cancelled_reachable: "co_reachable sample_cancelled"
  unfolding sample_cancelled_def by (rule reachable_step [OF sample_submitted_reachable Step_cancel])

lemma sample_cancelled_table: "s_tsk_tbl (co sample_cancelled) 1 = Some TASK_STATE_CANCELLED"
  by (simp add: sample_defs)






end
