(* ===== verification/Callout_Sched.thy ===== *)
theory Callout_Sched
  imports Callout_Life
begin

text \<open>
  When the callout scheduler runs what: the order of the timed queue, what is taken from it, the order
  of one pass of the main loop without workers, and the period of repeated tasks. At the end are
  lemmas on interleavings the code does not exclude, and on its idle time.
\<close>

subsection \<open>The timed queue\<close>

lemma take_out_next: "m_next_abstime (task (take_out t c) u) = m_next_abstime (task c u)"
  if "c_tasks c u \<noteq> None"
  using that by (auto simp: take_out_def set_states_def upd_task_def task_def s_set_task_state_in_table_def
      Let_def split: option.splits)

text \<open>The loop takes the longest prefix of due tasks, up to its limit.\<close>

lemma runnables_prefix:
  assumes "runnables_loop a n c = (c', es)" "\<And>u. u \<in> set (s_chrono_tsk_q c) \<Longrightarrow> c_tasks c u \<noteq> None"
  shows "es = take n (takeWhile (\<lambda>t. m_next_abstime (task c t) \<le> a) (s_chrono_tsk_q c)) \<and>
    s_chrono_tsk_q c' = drop (length es) (s_chrono_tsk_q c)"
  using assms
proof (induction n arbitrary: c es)
  case (Suc n)
  show ?case
  proof (cases "\<exists>e q. s_chrono_tsk_q c = e # q \<and> m_next_abstime (task c e) \<le> a")
    case False
    with Suc.prems show ?thesis by (auto split: list.splits if_splits)
  next
    case True
    then obtain e q where e: "s_chrono_tsk_q c = e # q" "m_next_abstime (task c e) \<le> a" by blast
    obtain es' where es': "runnables_loop a n (take_out e c) = (c', es')" "es = e # es'"
      using Suc.prems(1) e by (auto split: prod.splits)
    have q: "s_chrono_tsk_q (take_out e c) = q" by (simp add: e)
    have live: "c_tasks (take_out e c) u \<noteq> None" if "c_tasks c u \<noteq> None" for u
      using that by (auto simp: take_out_def set_states_def upd_task_def s_set_task_state_in_table_def
          Let_def split: option.splits)
    have "takeWhile (\<lambda>t. m_next_abstime (task (take_out e c) t) \<le> a) q =
        takeWhile (\<lambda>t. m_next_abstime (task c t) \<le> a) q"
      by (rule takeWhile_cong) (use Suc.prems(2) take_out_next e in auto)
    with Suc.IH [OF es'(1)] Suc.prems(2) e es'(2) q live show ?thesis by auto
  qed
qed simp

text \<open>
  C22. \<open>s_get_runnable_timed_task\<close> takes out of the timed queue exactly the tasks that are due by the
  given time plus the jitter, at most \<open>n\<close> of them, earliest first and those of equal time in their
  order of submission; the others stay.
\<close>

theorem callout_runnables_due:
  assumes "co_reachable R" "0 < base" "0 < n"
    and "s_get_runnable_timed_task base n (co R) = (c', es, r)"
  defines "q \<equiv> s_chrono_tsk_q (co R)"
  shows "es = take n (filter (\<lambda>t. m_next_abstime (task (co R) t) \<le> s64 (base + CALLOUT_TASK_SCHED_JITTER)) q) \<and>
    s_chrono_tsk_q c' = drop (length es) q \<and> r = int (length es) \<and>
    sorted (map (\<lambda>t. m_next_abstime (task (co R) t)) q)"
proof -
  have inv: "co_inv R" by (rule co_reachable_inv [OF assms(1)])
  have s: "sorted (map (\<lambda>t. m_next_abstime (task (co R) t)) q)"
    using co_invD(2) [OF inv] by (simp add: timed_sorted_def q_def)
  have live: "c_tasks (co R) u \<noteq> None" if "u \<in> set (s_chrono_tsk_q (co R))" for u
  proof -
    have "u \<in> set (busy R)" using that by (simp add: busy_def)
    then show ?thesis by (rule inv_busy [OF inv]) simp
  qed
  have l: "runnables_loop (s64 (base + CALLOUT_TASK_SCHED_JITTER)) n (co R) = (c', es)" "r = int (length es)"
    using assms(2-4) by (auto simp: s_get_runnable_timed_task_def s_get_runnables_def Let_def split: prod.splits)
  from runnables_prefix [OF l(1) live] sorted_split [OF s, of "s64 (base + CALLOUT_TASK_SCHED_JITTER)"] l(2) s
  show ?thesis by (simp add: q_def)
qed

theorem callout_runnables_due_witness:
  "\<exists>c' es r. s_get_runnable_timed_task 60000 10 (co sample_submitted) = (c', es, r) \<and> es = [2] \<and> r = 1 \<and>
    es = take 10 (filter (\<lambda>t. m_next_abstime (task (co sample_submitted) t) \<le>
      s64 (60000 + CALLOUT_TASK_SCHED_JITTER)) (s_chrono_tsk_q (co sample_submitted)))"
proof -
  obtain c' es r where e: "s_get_runnable_timed_task 60000 10 (co sample_submitted) = (c', es, r)"
    by (cases "s_get_runnable_timed_task 60000 10 (co sample_submitted)")
  have "filter (\<lambda>t. m_next_abstime (task (co sample_submitted) t) \<le>
      s64 (60000 + CALLOUT_TASK_SCHED_JITTER)) (s_chrono_tsk_q (co sample_submitted)) = [2]"
    by (simp add: sample_defs CALLOUT_TASK_SCHED_JITTER_def)
  with callout_runnables_due [OF sample_submitted_reachable _ _ e] e show ?thesis by simp
qed

text \<open>
  A timed submission of a created task puts it behind all tasks that are due no later and before
  those that are due later, leaving their order, to run at the present time plus the delay, and wakes
  the scheduler.
\<close>

theorem callout_submit_timed:
  assumes "co_reachable R" "s_is_handler_inited (co R)" "s_tsk_tbl (co R) t = Some TASK_STATE_CREATED"
    "t \<noteq> 0" "m_is_first (task (co R) t)" "0 < delay" "interval = 0 \<or> CALLOUT_TASK_MIN_INTERVAL \<le> interval"
    "0 < now" "now + delay < 9223372036854775808"
  defines "q \<equiv> s_chrono_tsk_q (co R)" and "next \<equiv> \<lambda>u. m_next_abstime (task (co R) u)"
  shows "\<exists>c' k. gallus_callout_submit_task now t delay interval (co R) = Some (c', GALLUS_RESULT_OK) \<and>
    c_tasks c' t = Some k \<and> m_next_abstime k = now + delay \<and> m_do_repeat k = (m_do_repeat (task (co R) t) \<or> 0 < interval) \<and>
    s_tsk_tbl c' t = Some TASK_STATE_ENQUEUED \<and>
    s_chrono_tsk_q c' = filter (\<lambda>u. next u \<le> now + delay) q @ t # filter (\<lambda>u. next u > now + delay) q \<and>
    c_trace c' = c_trace (co R) @ [Ev_wakeup]"
proof -
  have inv: "co_inv R" by (rule co_reachable_inv [OF assms(1)])
  obtain k where k: "c_tasks (co R) t = Some k" "where_is R t = Nowhere" "good_task Nowhere 0 TASK_STATE_CREATED k"
    by (rule created_nowhere [OF inv assms(3)])
  have nq: "t \<notin> set (s_chrono_tsk_q (co R))" "\<not> m_is_in_timed_q k"
    using k by (simp_all add: where_is_busy busy_def good_task_def)
  have first: "m_is_first k" using assms(5) k(1) by (simp add: task_def)
  have st: "s_get_task_state_in_table (co R) t = TASK_STATE_CREATED"
    by (rule get_state_live [OF assms(4,3)])
  obtain c' r where s: "gallus_callout_submit_task now t delay interval (co R) = Some (c', r)"
  proof (cases "s_schedule_timed_task now t (upd_task t (submitted_task delay interval) (co R))")
    case (Pair d x)
    with st assms(2,4,6,7) that show ?thesis
      by (simp add: gallus_callout_submit_task_def s_submit_task_def submit_put_def disj_commute)
  qed
  have n: "m_next_abstime (sched_times now (submitted_task delay interval k)) = now + delay"
    using first assms(6,8,9) by (simp add: sched_times_def submitted_task_def Let_def)
  from s k(1) nq(2,1) show ?thesis
  proof (cases rule: submit_cases)
    case (4 k')
    have srt: "sorted (map next q)"
      using co_invD(2) [OF inv] by (simp add: timed_sorted_def q_def next_def)
    have t': "task c' u = task (co R) u" if "u \<in> set q" for u
      using that nq(1) 4(5) by (auto simp: task_def q_def)
    have "timed_insert (\<lambda>e. m_next_abstime (task c' e)) t q =
        timed_insert (\<lambda>e. if e = t then now + delay else next e) t q"
      by (rule timed_insert_cong) (use 4 n t' in \<open>auto simp: task_def next_def\<close>)
    moreover have "sorted (map (\<lambda>e. if e = t then now + delay else next e) q)"
    proof -
      have "map (\<lambda>e. if e = t then now + delay else next e) q = map next q"
        using nq(1) by (auto simp: q_def)
      with srt show ?thesis by (simp only:)
    qed
    ultimately have "s_chrono_tsk_q c' =
        filter (\<lambda>e. (if e = t then now + delay else next e) \<le> now + delay) q @ t #
        filter (\<lambda>e. (if e = t then now + delay else next e) > now + delay) q"
      using 4(7) timed_insert_sorted_eq by (simp add: q_def)
    also have "\<dots> = filter (\<lambda>u. next u \<le> now + delay) q @ t # filter (\<lambda>u. next u > now + delay) q"
      using nq(1) by (intro arg_cong2 [where f = "(@)"] arg_cong2 [where f = "(#)"] filter_cong refl)
        (auto simp: q_def)
    finally have q': "s_chrono_tsk_q c' =
        filter (\<lambda>u. next u \<le> now + delay) q @ t # filter (\<lambda>u. next u > now + delay) q" .
    have "m_do_repeat k' = (m_do_repeat k \<or> 0 < interval)"
      by (simp add: 4(4) submitted_task_def Let_def)
    with 4 n q' s k(1) assms(6,8) show ?thesis by (simp add: task_def)
  qed (use assms(2-4,6,7) in auto)
qed

text \<open>The witness adds a third task between the tasks of the run.\<close>

theorem callout_submit_timed_witness:
  "\<exists>c' k. gallus_callout_submit_task 7 2 50000 20000 (co sample_created) = Some (c', GALLUS_RESULT_OK) \<and>
    c_tasks c' 2 = Some k \<and> m_next_abstime k = 7 + 50000 \<and>
    m_do_repeat k = (m_do_repeat (task (co sample_created) 2) \<or> (0::int) < 20000) \<and>
    s_tsk_tbl c' 2 = Some TASK_STATE_ENQUEUED \<and>
    s_chrono_tsk_q c' =
      filter (\<lambda>u. m_next_abstime (task (co sample_created) u) \<le> 7 + 50000) (s_chrono_tsk_q (co sample_created)) @ 2 #
      filter (\<lambda>u. m_next_abstime (task (co sample_created) u) > 7 + 50000) (s_chrono_tsk_q (co sample_created)) \<and>
    c_trace c' = c_trace (co sample_created) @ [Ev_wakeup]"
proof -
  have "s_is_handler_inited (co sample_created)" "s_tsk_tbl (co sample_created) 2 = Some TASK_STATE_CREATED"
    "m_is_first (task (co sample_created) 2)"
    by (simp_all add: sample_defs)
  from callout_submit_timed [OF sample_created_reachable this(1,2) _ this(3), of 50000 20000 7] show ?thesis
    by (simp add: CALLOUT_TASK_MIN_INTERVAL_def)
qed

subsection \<open>Executing one task after the other\<close>

text \<open>Without workers a fetched task is prepared, executed and finished before the next.\<close>

definition agree_except :: "task_id \<Rightarrow> callout \<Rightarrow> callout \<Rightarrow> bool" where
  "agree_except t c c' \<longleftrightarrow> (\<forall>u. u \<noteq> t \<longrightarrow> c_tasks c' u = c_tasks c u \<and> s_tsk_tbl c' u = s_tsk_tbl c u)"

text \<open>The runs in a trace.\<close>

definition runs :: "callout_event list \<Rightarrow> task_id list" where
  "runs es = List.map_filter (\<lambda>e. case e of Ev_run t r \<Rightarrow> Some t | _ \<Rightarrow> None) es"

lemma runs_simps [simp]:
  "runs [] = []" "runs (es @ es') = runs es @ runs es'" "runs [Ev_wakeup] = []" "runs [Ev_run t r] = [t]"
  "runs (end_events t k) = []" "runs [Ev_idle r] = []"
  by (simp_all add: runs_def map_filter_def end_events_def)

lemma runs_wakeups: "set es \<subseteq> {Ev_wakeup} \<Longrightarrow> runs es = []"
  by (induction es) (auto simp: runs_def map_filter_def)

lemma reset_live:
  assumes "c_tasks c t = Some k"
  shows "\<exists>k'. c_tasks (fst (gallus_callout_task_reset_interval t i c)) = (c_tasks c)(t \<mapsto> k') \<and>
    m_proc k' = m_proc k \<and> m_status k' = m_status k"
proof -
  have "c_tasks (fst (gallus_callout_task_reset_interval t i c)) =
      (c_tasks c)(t \<mapsto> k\<lparr>m_interval_time := i\<rparr>) \<or>
    c_tasks (fst (gallus_callout_task_reset_interval t i c)) = (c_tasks c)(t \<mapsto> k)"
    using assms by (simp add: gallus_callout_task_reset_interval_def upd_task_def fun_upd_idem)
  then show ?thesis by (elim disjE) (rule exI, erule conjI, simp)+
qed

lemma reset_frame:
  "s_tsk_tbl (fst (gallus_callout_task_reset_interval t i c)) = s_tsk_tbl c"
  "c_trace (fst (gallus_callout_task_reset_interval t i c)) = c_trace c"
  by (simp_all add: gallus_callout_task_reset_interval_def upd_task_def)

lemma s_exec_one:
  assumes inv: "co_inv R" and t: "t \<in> set (fetched R)" and ex: "execs R = []"
    and tk: "c_tasks (co R) t = Some k"
  obtains c' evs where "fst (s_exec_task env t (dispatch_task now t (co R))) = c'"
    "co_inv (R\<lparr>co := c', fetched := remove1 t (fetched R)\<rparr>)" "agree_except t (co R) c'"
    "c_trace c' = c_trace (co R) @ evs"
    "runs evs = (if m_status k \<noteq> TASK_STATE_CANCELLED \<and> m_proc k then [t] else [])"
proof -
  define c0 where "c0 = dispatch_task now t (co R)"
  define R0 where "R0 = R\<lparr>co := c0, fetched := remove1 t (fetched R), ready := ready R @ [t]\<rparr>"
  have inv0: "co_inv R0" using co_inv_dispatch [OF inv t] by (simp add: R0_def c0_def)
  have r0: "t \<in> set (ready R0)" by (simp add: R0_def)
  have "t \<in> set (busy R)" using t by (simp add: busy_def)
  then obtain st where k: "t \<noteq> 0" "s_tsk_tbl (co R) t = Some st"
      "good_task (where_is R t) (n_cancellers (co R) t) st k"
    using tk by (auto elim: inv_busy [OF inv])
  have w: "where_is R t = In_fetched" by (rule inv_place(3) [OF co_invD(1) [OF inv] t])
  then have s: "st = m_status k" "m_status k \<in> set (states_at In_fetched 0)" using k(3) by (auto simp: good_task_def)
  define k0 where "k0 = (if m_status k = TASK_STATE_CANCELLED then k else k\<lparr>m_status := TASK_STATE_DEQUEUED\<rparr>)
      \<lparr>m_last_abstime := now\<rparr>"
  have d: "c0 = (co R)\<lparr>c_tasks := (c_tasks (co R))(t \<mapsto> k0), s_tsk_tbl := (s_tsk_tbl (co R))(t \<mapsto> m_status k0)\<rparr>"
    using dispatch_live [OF k(1) k(2) [unfolded s(1)] tk s(2), of now] by (simp add: c0_def k0_def)
  have k0: "m_status k0 = (if m_status k = TASK_STATE_CANCELLED then TASK_STATE_CANCELLED else TASK_STATE_DEQUEUED)"
    "m_proc k0 = m_proc k"
    by (auto simp: k0_def)
  have nr: "t \<notin> set (ready R)" "remove1 t (ready R @ [t]) = ready R"
    using co_invD(1) [OF inv] t by (auto simp: busy_def remove1_append)
  from inv0 r0 show ?thesis
  proof (cases rule: exec_enter_ready)
    case (cancelled k')
    then have c: "fst (s_exec_task env t c0) = s_set_cancel_and_destroy_task_no_lock t c0"
      by (simp add: s_exec_task_def R0_def)
    have inv': "co_inv (R0\<lparr>co := s_set_cancel_and_destroy_task_no_lock t c0, ready := remove1 t (ready R0)\<rparr>)"
      using co_inv_exec_return [OF inv0 r0] cancelled(6) by (simp add: R0_def)
    note l = destroy_live [OF cancelled(1-3) good_not_deleting [OF cancelled(4)]]
    have st: "m_status k = TASK_STATE_CANCELLED" using cancelled(2) k0 by (auto simp: R0_def d split: if_splits)
    show ?thesis
    proof (rule that)
      show "fst (s_exec_task env t (dispatch_task now t (co R))) = s_set_cancel_and_destroy_task_no_lock t c0"
        using c by (simp add: c0_def)
      show "c_trace (s_set_cancel_and_destroy_task_no_lock t c0) = c_trace (co R) @ end_events t k'"
        using l by (simp add: R0_def d)
      show "agree_except t (co R) (s_set_cancel_and_destroy_task_no_lock t c0)"
        using l by (simp add: R0_def d agree_except_def)
      have "R0\<lparr>co := c, ready := remove1 t (ready R0)\<rparr> = R\<lparr>co := c, fetched := remove1 t (fetched R)\<rparr>" for c
        using nr by (cases R) (simp add: R0_def)
      with inv' show "co_inv (R\<lparr>co := s_set_cancel_and_destroy_task_no_lock t c0, fetched := remove1 t (fetched R)\<rparr>)"
        by simp
    qed (use st in simp)
  next
    case (start k')
    define c1 where "c1 = fst (exec_enter t c0)"
    define k1 where "k1 = k'\<lparr>m_exec_ref_count := 1, m_status := TASK_STATE_EXECUTING, m_is_first := False\<rparr>"
    have e1: "exec_enter t c0 = (c1, Exec_start)" using start(6) by (simp add: R0_def c1_def)
    have k': "k' = k0" using start(3) by (simp add: R0_def d)
    have ns: "m_status k \<noteq> TASK_STATE_CANCELLED" using start(2) k0 by (auto simp: R0_def d split: if_splits)
    have c1: "c_tasks c1 = (c_tasks (co R))(t \<mapsto> k1)" "s_tsk_tbl c1 = (s_tsk_tbl (co R))(t \<mapsto> TASK_STATE_EXECUTING)"
      "c_trace c1 = c_trace (co R)"
      using start(6) by (simp_all add: R0_def c1_def k1_def d)
    define R1 where "R1 = R\<lparr>co := c1, fetched := remove1 t (fetched R), execs := [(t, Phase_proc)]\<rparr>"
    have "R0\<lparr>co := c1, ready := remove1 t (ready R0), execs := execs R0 @ [(t, Phase_proc)]\<rparr> = R1"
      using nr ex by (cases R) (simp add: R0_def R1_def)
    with co_inv_exec_start [OF inv0 r0, of c1] e1 have inv1: "co_inv R1" by (simp add: R0_def)
    define p where "p = env (c_trace c1) t"
    define c2 where "c2 = proc_resets (po_interval p) t c1"
    have c2f: "\<exists>i. c2 = fst (gallus_callout_task_reset_interval t i c1) \<or> c2 = c1"
      by (auto simp: c2_def proc_resets_def split: option.split)
    then obtain i where i: "c2 = fst (gallus_callout_task_reset_interval t i c1) \<or> c2 = c1" ..
    define R2 where "R2 = R1\<lparr>co := c2\<rparr>"
    have "R1\<lparr>co := c1\<rparr> = R1" "co R1 = c1" "(t, Phase_proc) \<in> set (execs R1)"
      by (cases R; simp add: R1_def)+
    then have inv2: "co_inv R2"
      using i co_inv_reset [OF inv1, of t i] inv1 by (auto simp: R2_def)
    have c2: "s_tsk_tbl c2 = s_tsk_tbl c1" "c_trace c2 = c_trace c1"
      "\<exists>k2. c_tasks c2 = (c_tasks (co R))(t \<mapsto> k2) \<and> m_proc k2 = m_proc k \<and> m_status k2 = TASK_STATE_EXECUTING"
    proof -
      show "s_tsk_tbl c2 = s_tsk_tbl c1" "c_trace c2 = c_trace c1" using i by (auto simp: reset_frame)
      have "c_tasks c1 t = Some k1" "m_proc k1 = m_proc k" "m_status k1 = TASK_STATE_EXECUTING"
        by (simp_all add: c1 k1_def k' k0)
      with i reset_live [of c1 t k1 i] c1(1)
      show "\<exists>k2. c_tasks c2 = (c_tasks (co R))(t \<mapsto> k2) \<and> m_proc k2 = m_proc k \<and> m_status k2 = TASK_STATE_EXECUTING"
        by (metis fun_upd_upd)
    qed
    then obtain k2 where k2: "c_tasks c2 = (c_tasks (co R))(t \<mapsto> k2)" "m_proc k2 = m_proc k"
        "m_status k2 = TASK_STATE_EXECUTING" by blast
    obtain c3 ret where e3: "exec_ran (po_result p) t c2 = (c3, ret)" by (cases "exec_ran (po_result p) t c2")
    note l3 = exec_ran_live [OF k(1) _ _ k2(3) e3]
    have c3: "agree_except t (co R) c3" "runs (drop (length (c_trace c2)) (c_trace c3)) = (if m_proc k then [t] else [])"
      "\<exists>es. c_trace c3 = c_trace (co R) @ es \<and> runs es = (if m_proc k then [t] else [])"
      using l3 c1 c2(1,2) k2 by (auto simp: agree_except_def)
    then obtain es where es: "c_trace c3 = c_trace (co R) @ es" "runs es = (if m_proc k then [t] else [])" by blast
    define R3 where "R3 = R2\<lparr>co := c3, execs := [(t, Phase_ran ret)]\<rparr>"
    have inv3: "co_inv R3"
      using co_inv_ran [OF inv2, of t "po_result p" c3 ret] e3 by (simp add: R3_def R2_def R1_def)
    have t3: "(t, Phase_ran ret) \<in> set (execs R3)" by (simp add: R3_def)
    define c4 where "c4 = fst (exec_finish (po_now p) ret t c3)"
    have inv4: "co_inv (R3\<lparr>co := c4, execs := []\<rparr>)"
      using co_inv_finish [OF inv3 t3, of "po_now p"] by (simp add: c4_def R3_def)
    have fin: "fst (s_exec_task env t c0) = c4"
      using e1 e3 by (simp add: s_exec_task_def p_def [symmetric] c2_def [symmetric] c4_def Let_def split_beta)
    have c4: "agree_except t (co R) c4 \<and> (\<exists>es'. c_trace c4 = c_trace c3 @ es' \<and> runs es' = [])"
      using inv3 t3
    proof (cases rule: exec_live)
      case (1 k3)
      have "exec_finish (po_now p) ret t (co R3) = (c4, snd (exec_finish (po_now p) ret t c3))"
        by (simp add: R3_def c4_def)
      from 1(1-3,5,4) this show ?thesis
      proof (cases rule: finish_cases)
        case waiters
        then show ?thesis using c3(1) by (auto simp: R3_def agree_except_def)
      next
        case (requeue k'')
        then show ?thesis using c3(1) by (auto simp: R3_def agree_except_def)
      next
        case (destroyed evs)
        then show ?thesis using c3(1) by (auto simp: R3_def agree_except_def runs_wakeups)
      qed
    qed
    then obtain es' where es': "c_trace c4 = c_trace (co R) @ es @ es'" "runs es' = []" using es(1) by auto
    show ?thesis
    proof (rule that)
      show "fst (s_exec_task env t (dispatch_task now t (co R))) = c4" using fin by (simp add: c0_def)
      show "co_inv (R\<lparr>co := c4, fetched := remove1 t (fetched R)\<rparr>)"
      proof -
        have "R3\<lparr>co := c4, execs := []\<rparr> = R\<lparr>co := c4, fetched := remove1 t (fetched R)\<rparr>"
          using ex by (cases R) (simp add: R3_def R2_def R1_def)
        with inv4 show ?thesis by simp
      qed
      show "c_trace c4 = c_trace (co R) @ es @ es'" by (rule es'(1))
    qed (use c4 es(2) es'(2) ns in auto)
  qed
qed

lemma run_each_runs:
  assumes "co_inv R" "execs R = []" "fetched R = ts"
  shows "\<exists>evs. c_trace (run_each env now ts (co R)) = c_trace (co R) @ evs \<and>
    runs evs = filter (\<lambda>t. m_status (task (co R) t) \<noteq> TASK_STATE_CANCELLED \<and> m_proc (task (co R) t)) ts \<and>
    co_inv (R\<lparr>co := run_each env now ts (co R), fetched := []\<rparr>)"
  using assms
proof (induction ts arbitrary: R)
  case Nil
  then have "co_inv (R\<lparr>fetched := []\<rparr>)" by (cases R) simp
  with Nil show ?case by (intro exI [of _ "[]"]) simp
next
  case (Cons t ts)
  have t: "t \<in> set (fetched R)" using Cons.prems(3) by simp
  then have "t \<in> set (busy R)" by (simp add: busy_def)
  then obtain k where k: "c_tasks (co R) t = Some k" by (rule inv_busy [OF Cons.prems(1)])
  obtain c' evs where c': "fst (s_exec_task env t (dispatch_task now t (co R))) = c'"
      "co_inv (R\<lparr>co := c', fetched := remove1 t (fetched R)\<rparr>)" "agree_except t (co R) c'"
      "c_trace c' = c_trace (co R) @ evs"
      "runs evs = (if m_status k \<noteq> TASK_STATE_CANCELLED \<and> m_proc k then [t] else [])"
    by (rule s_exec_one [OF Cons.prems(1) t Cons.prems(2) k])
  let ?R = "R\<lparr>co := c', fetched := ts\<rparr>"
  have "co_inv ?R" using c'(2) Cons.prems(3) by simp
  from Cons.IH [OF this] Cons.prems(2) obtain evs' where
    evs': "c_trace (run_each env now ts c') = c_trace c' @ evs'"
      "runs evs' = filter (\<lambda>t. m_status (task c' t) \<noteq> TASK_STATE_CANCELLED \<and> m_proc (task c' t)) ts"
      "co_inv (R\<lparr>co := run_each env now ts c', fetched := []\<rparr>)"
    by auto
  have "t \<notin> set ts" using co_invD(1) [OF Cons.prems(1)] Cons.prems(3) by (auto simp: busy_def)
  then have "task c' u = task (co R) u" if "u \<in> set ts" for u
    using c'(3) that by (auto simp: agree_except_def task_def)
  then have "runs evs' = filter (\<lambda>t. m_status (task (co R) t) \<noteq> TASK_STATE_CANCELLED \<and> m_proc (task (co R) t)) ts"
    unfolding evs'(2) by (intro filter_cong) auto
  with c' evs' k show ?case by (intro exI [of _ "evs @ evs'"]) (simp add: task_def)
qed

subsection \<open>A pass of the main loop\<close>

lemma take_out_tasks:
  "c_tasks (take_out t c) = (c_tasks c)
    (t := map_option (\<lambda>k. k\<lparr>m_status := TASK_STATE_DEQUEUED, m_is_in_timed_q := False\<rparr>) (c_tasks c t))"
  by (auto simp: take_out_def set_states_def upd_task_def s_set_task_state_in_table_def Let_def
      option.map_comp o_def split: option.split)

lemma runnables_tasks:
  assumes "runnables_loop a n c = (c', es)" "\<And>u. u \<in> set (s_chrono_tsk_q c) \<Longrightarrow> c_tasks c u \<noteq> None"
    "distinct (s_chrono_tsk_q c)"
  shows "c_trace c' = c_trace c \<and> (\<forall>u. u \<notin> set es \<longrightarrow> c_tasks c' u = c_tasks c u) \<and>
    (\<forall>u\<in>set es. u \<in> set (s_chrono_tsk_q c) \<and> m_proc (task c' u) = m_proc (task c u) \<and>
      m_status (task c' u) = TASK_STATE_DEQUEUED)"
  using assms
proof (induction n arbitrary: c es)
  case (Suc n)
  from Suc.prems(1) show ?case
  proof (cases rule: runnables_cases)
    case (2 e q es')
    have q: "s_chrono_tsk_q (take_out e c) = q" by (simp add: 2)
    have tr: "c_trace (take_out e c) = c_trace c"
      by (auto simp: take_out_def set_states_def upd_task_def s_set_task_state_in_table_def Let_def
          split: option.split)
    have "c_tasks c e \<noteq> None" "e \<notin> set q" using Suc.prems(2,3) 2 by auto
    then have e: "m_proc (task (take_out e c) e) = m_proc (task c e)"
      "m_status (task (take_out e c) e) = TASK_STATE_DEQUEUED"
      by (auto simp: task_def take_out_tasks)
    have o: "task (take_out e c) u = task c u" "c_tasks (take_out e c) u = c_tasks c u" if "u \<noteq> e" for u
      using that by (auto simp: task_def take_out_tasks)
    have ih: "c_trace c' = c_trace (take_out e c) \<and> (\<forall>u. u \<notin> set es' \<longrightarrow> c_tasks c' u = c_tasks (take_out e c) u) \<and>
      (\<forall>u\<in>set es'. u \<in> set q \<and> m_proc (task c' u) = m_proc (task (take_out e c) u) \<and>
        m_status (task c' u) = TASK_STATE_DEQUEUED)"
      using Suc.IH [OF 2(3)] Suc.prems(2,3) 2(1) q \<open>e \<notin> set q\<close> o(2) by (metis distinct.simps(2) list.set_intros(2))
    then have "e \<notin> set es'" using \<open>e \<notin> set q\<close> by auto
    then have "task c' e = task (take_out e c) e" using ih by (simp add: task_def)
    moreover have "m_proc (task c' u) = m_proc (task c u)" if "u \<in> set es'" for u
      using ih o(1) [of u] \<open>e \<notin> set es'\<close> that by metis
    moreover have "c_tasks c' u = c_tasks c u" if "u \<notin> set es" for u
      using ih o(2) [of u] that 2(4) by simp
    ultimately show ?thesis using ih e tr 2 by auto
  qed simp
qed simp

lemma trace_idle:
  assumes "run_idle_proc r now c = (c', b)"
  shows "\<exists>evs. c_trace c' = c_trace c @ evs \<and> runs evs = []"
  using assms by (auto simp: run_idle_proc_def trace_def Let_def split: if_splits)

lemma trace_timeout: "c_trace (fst (loop_timeout now c)) = c_trace c"
  by (simp add: loop_timeout_def Let_def)

lemma pass_trace:
  "\<exists>evs. c_trace (fst (main_loop_pass env r now c)) =
    c_trace (let (c, out) = fetch_tasks now c in run_each env now out c) @ evs \<and> runs evs = []"
proof -
  obtain d out where f: "fetch_tasks now c = (d, out)" by (cases "fetch_tasks now c")
  define c1 where "c1 = run_each env now out d"
  have c1: "(if out \<noteq> [] then fst (s_run_tasks_by_self env now out d) else d) = c1"
    by (simp add: s_run_tasks_by_self_def c1_def)
  obtain c2 b where i: "run_idle_proc r now c1 = (c2, b)" by (cases "run_idle_proc r now c1")
  have "c_trace (fst (main_loop_pass env r now c)) = c_trace c2"
    by (simp add: main_loop_pass_def f c1 i trace_timeout Let_def)
  with trace_idle [OF i] f show ?thesis by (simp add: c1_def)
qed

text \<open>
  C13. A pass of the main loop without workers runs each task that is not cancelled once, in this
  order: the timed tasks that are due, earliest first, then the urgent ones and then the idle ones in
  the order of their submission, each kind limited to \<^verbatim>\<open>CALLOUT_TASK_MAX\<close>.
\<close>

theorem callout_pass_order:
  assumes "co_reachable R" "fetched R = []" "ready R = []" "execs R = []" "0 < now"
  defines "c \<equiv> co R"
  shows "\<exists>evs. c_trace (fst (main_loop_pass env r now c)) = c_trace c @ evs \<and>
    runs evs = filter (\<lambda>t. m_status (task c t) \<noteq> TASK_STATE_CANCELLED \<and> m_proc (task c t))
      (take CALLOUT_TASK_MAX (filter (\<lambda>t. m_next_abstime (task c t) \<le> s64 (now + CALLOUT_TASK_SCHED_JITTER))
         (s_chrono_tsk_q c)) @
       take CALLOUT_TASK_MAX (s_urgent_tsk_q c) @ take CALLOUT_TASK_MAX (s_idle_tsk_q c))"
proof -
  have inv: "co_inv R" by (rule co_reachable_inv [OF assms(1)])
  obtain d out where f: "fetch_tasks now c = (d, out)" by (cases "fetch_tasks now c")
  let ?R = "R\<lparr>co := d, fetched := out\<rparr>"
  have inv': "co_inv ?R" using co_inv_fetch [OF inv f [unfolded c_def]] assms(2) by simp
  define us where "us = take CALLOUT_TASK_MAX (s_urgent_tsk_q c) @ take CALLOUT_TASK_MAX (s_idle_tsk_q c)"
  define c1 where "c1 = c\<lparr>s_urgent_tsk_q := drop CALLOUT_TASK_MAX (s_urgent_tsk_q c),
      s_idle_tsk_q := drop CALLOUT_TASK_MAX (s_idle_tsk_q c)\<rparr>"
  obtain es where es: "runnables_loop (s64 (now + CALLOUT_TASK_SCHED_JITTER)) CALLOUT_TASK_MAX c1 = (d, es)"
      "out = es @ us"
    using f assms(5) by (auto simp: fetch_tasks_def s_get_runnable_timed_task_def s_get_runnables_def Let_def
        c1_def us_def CALLOUT_TASK_MAX_def split: prod.splits)
  have q: "s_chrono_tsk_q c1 = s_chrono_tsk_q c" "c_tasks c1 = c_tasks c" "c_trace c1 = c_trace c"
    "task c1 u = task c u" for u
    by (simp_all add: c1_def task_def)
  have live: "c_tasks c1 u \<noteq> None" if "u \<in> set (s_chrono_tsk_q c1)" for u
  proof -
    have "u \<in> set (busy R)" using that by (simp add: busy_def q c_def)
    then show ?thesis by (rule inv_busy [OF inv]) (simp add: q c_def)
  qed
  have dq: "distinct (s_chrono_tsk_q c1)" using co_invD(1) [OF inv] by (simp add: busy_def q c_def)
  have srt: "sorted (map (\<lambda>t. m_next_abstime (task c t)) (s_chrono_tsk_q c))"
    using co_invD(2) [OF inv] by (simp add: timed_sorted_def c_def)
  have due: "es = take CALLOUT_TASK_MAX (filter (\<lambda>t. m_next_abstime (task c t) \<le>
      s64 (now + CALLOUT_TASK_SCHED_JITTER)) (s_chrono_tsk_q c))"
    using runnables_prefix [OF es(1) live] sorted_split [OF srt, of "s64 (now + CALLOUT_TASK_SCHED_JITTER)"]
    by (simp add: q)
  note fr = runnables_tasks [OF es(1) live dq]
  have same: "(m_status (task d t) \<noteq> TASK_STATE_CANCELLED \<and> m_proc (task d t)) =
      (m_status (task c t) \<noteq> TASK_STATE_CANCELLED \<and> m_proc (task c t))" for t
  proof (cases "t \<in> set es")
    case False
    with fr q(2) show ?thesis by (simp add: task_def)
  next
    case True
    then have t: "t \<in> set (s_chrono_tsk_q (co R))" using fr q(1) by (auto simp: c_def)
    then have b: "t \<in> set (busy R)" by (simp add: busy_def)
    obtain st k where k: "c_tasks (co R) t = Some k" "good_task (where_is R t) (n_cancellers (co R) t) st k"
      by (rule inv_busy [OF inv b])
    with inv_place(1) [OF co_invD(1) [OF inv] t] have "m_status (task c t) = TASK_STATE_ENQUEUED"
      by (simp add: good_task_def task_def c_def)
    with True fr q(4) show ?thesis by auto
  qed
  obtain evs where e: "c_trace (run_each env now out d) = c_trace d @ evs"
      "runs evs = filter (\<lambda>t. m_status (task d t) \<noteq> TASK_STATE_CANCELLED \<and> m_proc (task d t)) out"
    using run_each_runs [OF inv', of out env now] assms(4) by auto
  obtain evs' where e': "c_trace (fst (main_loop_pass env r now c)) = c_trace (run_each env now out d) @ evs'"
      "runs evs' = []"
    using pass_trace [of env r now c] f by auto
  show ?thesis
    by (rule exI [of _ "evs @ evs'"]) (use e e' fr q(3) es(2) due same in \<open>simp add: us_def\<close>)
qed

theorem callout_pass_order_witness:
  "\<exists>evs. c_trace (fst (main_loop_pass (\<lambda>es t. \<lparr>po_result = 0, po_interval = None, po_now = 70000\<rparr>) 0 60000
      (co sample_submitted))) = c_trace (co sample_submitted) @ evs \<and> runs evs = [2, 1]"
proof -
  let ?c = "co sample_submitted"
  have "filter (\<lambda>t. m_status (task ?c t) \<noteq> TASK_STATE_CANCELLED \<and> m_proc (task ?c t))
      (take CALLOUT_TASK_MAX (filter (\<lambda>t. m_next_abstime (task ?c t) \<le> s64 (60000 + CALLOUT_TASK_SCHED_JITTER))
         (s_chrono_tsk_q ?c)) @
       take CALLOUT_TASK_MAX (s_urgent_tsk_q ?c) @ take CALLOUT_TASK_MAX (s_idle_tsk_q ?c)) = [2, 1]"
    by (simp add: sample_defs CALLOUT_TASK_SCHED_JITTER_def)
  moreover have "fetched sample_submitted = []" "ready sample_submitted = []" "execs sample_submitted = []"
    by (simp_all add: sample_defs)
  ultimately show ?thesis
    using callout_pass_order [OF sample_submitted_reachable, of 60000
        "\<lambda>es t. \<lparr>po_result = 0, po_interval = None, po_now = 70000\<rparr>" 0] by simp
qed

end
