(* ===== verification/Callout_Cancel.thy ===== *)
theory Callout_Cancel
  imports Callout_Sched
begin

text \<open>
  Cancelling and repeating tasks: the effect of a cancellation on a task in each place, that no
  canceller sleeps without somebody to wake it, and the period of a repeated task. At the end are
  lemmas on interleavings that the steps of \<open>co_step\<close> leave out and the code does not exclude, and on
  the idle time of the main loop.
\<close>

subsection \<open>Cancelling\<close>

text \<open>
  What cancelling a task does, by where it is: in the timed queue it is destroyed at once and its
  argument released, in another queue or on its way to execution it is only marked, and while it is
  executed the caller waits. A task that was never submitted stays as it is, and so does everything when
  the task is not valid any more.
\<close>

theorem callout_cancel_effect:
  assumes "co_reachable R" "s_is_handler_inited (co R)" "t \<noteq> 0"
  defines "c \<equiv> co R" and "c' \<equiv> gallus_callout_cancel_task t (co R)"
  shows "(s_tsk_tbl c t = None \<longrightarrow> c' = c) \<and> (s_tsk_tbl c t = Some TASK_STATE_CREATED \<longrightarrow> c' = c) \<and>
    (where_is R t = In_timed \<longrightarrow> s_tsk_tbl c' t = None \<and> c_tasks c' t = None \<and>
       s_chrono_tsk_q c' = remove1 t (s_chrono_tsk_q c) \<and>
       c_trace c' = c_trace c @ end_events t (task c t)) \<and>
    (where_is R t \<in> {In_bbq, In_fetched, In_ready} \<longrightarrow>
       s_tsk_tbl c' t = Some TASK_STATE_CANCELLED \<and> c_trace c' = c_trace c) \<and>
    (\<forall>ph. where_is R t = In_exec ph \<longrightarrow> s_tsk_tbl c' t = s_tsk_tbl c t \<and> c_trace c' = c_trace c \<and>
       c_cancellers c' = c_cancellers c @ [(t, True)])"
proof (cases "s_tsk_tbl c t")
  have inv: "co_inv R" by (rule co_reachable_inv [OF assms(1)])
  have c': "c' = s_cancel t c" using assms(2,3) by (simp add: c'_def c_def gallus_callout_cancel_task_def)
  note eff = cancel_effect [OF inv assms(3), folded c_def]
  {
    case None
    then have "where_is R t = Nowhere" using co_invD(3) [OF inv, of t] by (simp add: task_ok_def c_def)
    with None eff c' show ?thesis by simp
  next
    case (Some st)
    then have st: "s_tsk_tbl (co R) t = Some st" by (simp add: c_def)
    obtain k where k: "c_tasks (co R) t = Some k" "good_task (where_is R t) (n_cancellers (co R) t) st k"
      by (rule inv_live [OF inv st])
    have at: "st \<in> set (states_at (where_is R t) (n_cancellers (co R) t))" using k(2) by (simp add: good_task_def)
    note s = set_states_live [OF assms(3) st k(1), of TASK_STATE_CANCELLED, folded c_def]
    note d = destroy_live [OF assms(3) st k(1) good_not_deleting [OF k(2)], folded c_def]
    show ?thesis
    proof (cases "where_is R t")
      case In_timed
      then have "st = TASK_STATE_ENQUEUED" "m_is_in_timed_q k" using k(2) by (simp_all add: good_task_def)
      with In_timed Some eff c' k(1) d show ?thesis by (simp add: task_def c_def)
    next
      case (In_exec ph)
      with at have "st = phase_state ph" by simp
      with In_exec Some eff c' show ?thesis by simp
    next
      case Nowhere
      with Some eff c' show ?thesis by simp
    qed (use Some eff c' s at in auto)
  }
qed

theorem callout_cancel_effect_witness:
  "s_tsk_tbl (gallus_callout_cancel_task 2 (co sample_submitted)) 2 = None \<and>
    s_tsk_tbl (gallus_callout_cancel_task 1 (co sample_submitted)) 1 = Some TASK_STATE_CANCELLED"
proof -
  have "where_is sample_submitted 2 = In_timed" "where_is sample_submitted 1 = In_bbq"
    "s_is_handler_inited (co sample_submitted)"
    by (simp_all add: where_is_def sample_defs)
  with callout_cancel_effect [OF sample_submitted_reachable, of 2]
    callout_cancel_effect [OF sample_submitted_reachable, of 1]
  show ?thesis by simp
qed

subsection \<open>Waiting cancellers\<close>

definition attended :: "callout_run \<Rightarrow> bool" where
  "attended R \<longleftrightarrow> (\<forall>(t, awake) \<in> set (c_cancellers (co R)). awake \<or> t \<in> fst ` set (execs R))"

lemma attended_same:
  assumes "attended R" "c_cancellers (co R') = c_cancellers (co R)"
    "fst ` set (execs R) \<subseteq> fst ` set (execs R')"
  shows "attended R'"
  using assms unfolding attended_def by fastforce

lemma attended_sub:
  assumes "attended R" "execs R' = execs R"
    and "\<And>u. (u, False) \<in> set (c_cancellers (co R')) \<Longrightarrow>
      (u, False) \<in> set (c_cancellers (co R)) \<or> u \<in> fst ` set (execs R)"
  shows "attended R'"
  unfolding attended_def
proof (rule ballI, clarify)
  fix u b assume "(u, b) \<in> set (c_cancellers (co R'))" "u \<notin> fst ` set (execs R')"
  then show b
    using assms(3) [of u] bspec [OF assms(1) [unfolded attended_def], of "(u, False)"] assms(2)
    by (cases b) auto
qed

text \<open>The cancellers after a release are the same, but those of the task are awake.\<close>

lemma attended_notify:
  assumes "attended R" "set (c_cancellers (co R')) \<subseteq> (\<lambda>(u, b). (u, b \<or> u = t)) ` set (c_cancellers (co R))"
    "fst ` set (execs R) \<subseteq> insert t (fst ` set (execs R'))"
  shows "attended R'"
  unfolding attended_def
proof (rule ballI, clarify)
  fix u b assume u: "(u, b) \<in> set (c_cancellers (co R'))" "u \<notin> fst ` set (execs R')"
  then obtain b0 where "(u, b0) \<in> set (c_cancellers (co R))" "b = (b0 \<or> u = t)"
    using subsetD [OF assms(2) u(1)] by auto
  with bspec [OF assms(1) [unfolded attended_def], of "(u, b0)"] assms(3) u(2) show b by auto
qed

lemma cancellers_simps [simp]:
  "c_cancellers (upd_task t f c) = c_cancellers c"
  "c_cancellers (trace e c) = c_cancellers c"
  "c_cancellers (fst (s_set_task_state_in_table t st c)) = c_cancellers c"
  "c_cancellers (s_delete_task_in_table t c) = c_cancellers c"
  "c_cancellers (set_states t st c) = c_cancellers c"
  "c_cancellers (s_wakeup_task t c) = map (\<lambda>(u, b). (u, b \<or> u = t)) (c_cancellers c)"
  by (simp_all add: upd_task_def trace_def s_set_task_state_in_table_def s_delete_task_in_table_def
      set_states_def s_wakeup_task_def split: option.split)

lemma set_cancellers_destroy:
  "c_cancellers (s_set_cancel_and_destroy_task_no_lock t c) = c_cancellers c \<or>
    c_cancellers (s_set_cancel_and_destroy_task_no_lock t c) = map (\<lambda>(u, b). (u, b \<or> u = t)) (c_cancellers c)"
proof -
  define d where "d = fst (s_set_task_state_in_table t TASK_STATE_CANCELLED (s_do_unsched t c))"
  have d: "c_cancellers d = c_cancellers c"
    by (simp add: d_def s_do_unsched_def Let_def)
  have "c_cancellers (s_delete t d) = c_cancellers d \<or>
      c_cancellers (s_delete t d) = map (\<lambda>(u, b). (u, b \<or> u = t)) (c_cancellers d)"
    by (simp add: s_delete_def Let_def)
  moreover have "s_set_cancel_and_destroy_task_no_lock t c = (if t \<noteq> 0 then s_delete t d else c)"
    by (simp add: s_set_cancel_and_destroy_task_no_lock_def s_unschedule_timed_task_def
        s_destroy_task_no_lock_def d_def)
  ultimately show ?thesis by (simp add: d split: if_split)
qed

lemma cancellers_take_out [simp]: "c_cancellers (take_out t c) = c_cancellers c"
  by (auto simp: take_out_def set_states_def upd_task_def s_set_task_state_in_table_def Let_def
      split: option.split)

lemma cancellers_runnables: "runnables_loop a n c = (c', es) \<Longrightarrow> c_cancellers c' = c_cancellers c"
proof (induction n arbitrary: c es)
  case (Suc n)
  from Suc.prems show ?case
    by (cases rule: runnables_cases) (use Suc.IH in auto)
qed simp

lemma cancellers_fetch: "fetch_tasks now c = (c', ts) \<Longrightarrow> c_cancellers c' = c_cancellers c"
  by (auto simp: fetch_tasks_def s_get_runnable_timed_task_def s_get_runnables_def Let_def
      dest: cancellers_runnables split: prod.splits if_splits)

lemma no_cancellers_freeup: "c_cancellers c = [] \<Longrightarrow> c_cancellers (s_task_freeup t c) = []"
  using set_cancellers_destroy [of t c] by (auto simp: s_task_freeup_def)

lemma no_cancellers_fold: "c_cancellers c = [] \<Longrightarrow> c_cancellers (fold s_task_freeup ts c) = []"
  by (induction ts arbitrary: c) (simp_all add: no_cancellers_freeup)

lemma no_cancellers_destroy_all:
  "c_cancellers c = [] \<Longrightarrow> c_cancellers (s_destroy_all_queued_timed_tasks c) = []"
proof (induction c rule: s_destroy_all_queued_timed_tasks.induct)
  case (1 c)
  show ?case
  proof (cases "s_chrono_tsk_q c")
    case Nil
    then show ?thesis using 1(2)
      by (subst s_destroy_all_queued_timed_tasks.simps) (simp add: s_get_def)
  next
    case (Cons t ts)
    have "c_cancellers (s_set_cancel_and_destroy_task_no_lock t (take_out t c)) = []"
      using set_cancellers_destroy [of t "take_out t c"] 1(2) by auto
    with 1(1) [of "take_out t c" "Some t" t] Cons show ?thesis
      by (subst s_destroy_all_queued_timed_tasks.simps) (simp add: s_get_def)
  qed
qed

lemma no_cancellers_finalize:
  "c_cancellers c = [] \<Longrightarrow> c_cancellers (gallus_callout_finalize_handler c) = []"
  by (simp add: gallus_callout_finalize_handler_def Let_def no_cancellers_fold no_cancellers_destroy_all)

lemma cancellers_cancel:
  "set (c_cancellers (s_cancel t c)) \<subseteq>
    insert (t, True) (set (c_cancellers c) \<union> (\<lambda>(u, b). (u, b \<or> u = t)) ` set (c_cancellers c))"
proof -
  obtain d w where d: "cancel_enter t c = (d, w)" by (cases "cancel_enter t c")
  have "c_cancellers (fst (cancel_enter t c)) = c_cancellers c \<or>
      c_cancellers (fst (cancel_enter t c)) = map (\<lambda>(u, b). (u, b \<or> u = t)) (c_cancellers c)"
    using set_cancellers_destroy [of t c] by (simp add: cancel_enter_def Let_def)
  then show ?thesis by (auto simp: s_cancel_def d)
qed

lemma attended_step:
  assumes "co_step R R'" "co_inv R" "attended R"
  shows "attended R'"
  using assms(1)
proof (cases rule: co_step.cases)
  case (Step_create t alloc tptr proc arg freeproc c r p)
  then have "c_cancellers c = c_cancellers (co R) \<or>
      c_cancellers c = map (\<lambda>(u, b). (u, b \<or> u = t)) (c_cancellers (co R))"
    by (auto simp: gallus_callout_create_task_def s_create_task_def s_destroy_task_no_lock_def s_delete_def
        Let_def s_set_task_state_in_table_def s_get_task_state_in_table_def upd_task_def
        s_delete_task_in_table_def s_wakeup_task_def trace_def split: if_splits option.splits)
  then show ?thesis
  proof
    assume "c_cancellers c = c_cancellers (co R)"
    then show ?thesis by (intro attended_same [OF assms(3)]) (simp_all add: Step_create(1))
  next
    assume "c_cancellers c = map (\<lambda>(u, b). (u, b \<or> u = t)) (c_cancellers (co R))"
    then show ?thesis
      by (intro attended_notify [OF assms(3), of _ t]) (auto simp: Step_create(1))
  qed
next
  case (Step_submit now t delay interval c r)
  show ?thesis
  proof (cases "s_tsk_tbl (co R) t = Some TASK_STATE_CREATED")
    case False
    with submit_unchanged [OF Step_submit(2)] Step_submit(1) assms(3) show ?thesis by simp
  next
    case True
    obtain k where k: "t \<noteq> 0" "c_tasks (co R) t = Some k" "where_is R t = Nowhere"
        "n_cancellers (co R) t = 0" "good_task Nowhere 0 TASK_STATE_CREATED k"
      by (rule created_nowhere [OF assms(2) True])
    then have nq: "t \<notin> set (s_chrono_tsk_q (co R))" "\<not> m_is_in_timed_q k"
      by (simp_all add: where_is_busy busy_def good_task_def)
    have "c_cancellers c = c_cancellers (co R)"
      using Step_submit(2) k(2) nq(2,1) by (cases rule: submit_cases) auto
    then show ?thesis by (intro attended_same [OF assms(3)]) (simp_all add: Step_submit(1))
  qed
next
  case (Step_cancel t)
  show ?thesis
  proof (cases "s_is_handler_inited (co R) \<and> t \<noteq> 0")
    case False
    with Step_cancel assms(3) show ?thesis by (auto simp: gallus_callout_cancel_task_def)
  next
    case True
    then have c: "co R' = s_cancel t (co R)" "execs R' = execs R"
      by (simp_all add: Step_cancel gallus_callout_cancel_task_def)
    show ?thesis
    proof (rule attended_sub [OF assms(3) c(2)])
      fix u assume "(u, False) \<in> set (c_cancellers (co R'))"
      with subsetD [OF cancellers_cancel this [unfolded c(1)]]
      show "(u, False) \<in> set (c_cancellers (co R)) \<or> u \<in> fst ` set (execs R)" by auto
    qed
  qed
next
  case (Step_canceller i)
  define t where "t = fst (c_cancellers (co R) ! i)"
  have sub: "set (take i (c_cancellers (co R)) @ drop (i + 1) (c_cancellers (co R))) \<subseteq> set (c_cancellers (co R))"
    by (auto dest: in_set_takeD in_set_dropD)
  from assms(2) Step_canceller(2) t_def show ?thesis
  proof (cases rule: canceller_turn_cases)
    case (sleeps ph)
    then have "t \<in> fst ` set (execs R)"
      by (auto simp: where_is_def split: if_splits option.splits dest!: map_of_SomeD intro: rev_image_eqI)
    with set_update_subset_insert [of "c_cancellers (co R)" i "(t, False)"] show ?thesis
      by (intro attended_sub [OF assms(3)]) (auto simp: Step_canceller(1) sleeps(2))
  next
    case (leaves k)
    with sub show ?thesis
      by (intro attended_sub [OF assms(3)]) (auto simp: Step_canceller(1) leaves(5))
  next
    case (destroys k)
    show ?thesis
      by (rule attended_notify [OF assms(3), of _ t])
        (use sub in \<open>auto simp: Step_canceller(1) destroys(5)\<close>)
  qed
next
  case (Step_force t c r do_run)
  then have "c_cancellers c = c_cancellers (co R)"
    using force_effect [OF assms(2) Step_force(4,3)] by (cases do_run) auto
  then show ?thesis by (intro attended_same [OF assms(3)]) (simp_all add: Step_force(1))
next
  case (Step_fetch now c ts)
  with cancellers_fetch [OF Step_fetch(2)] show ?thesis by (intro attended_same [OF assms(3)]) simp_all
next
  case (Step_fetch_timed now n c ts nw)
  then have "c_cancellers c = c_cancellers (co R)"
    by (auto simp: s_get_runnables_def Let_def dest: cancellers_runnables split: prod.splits)
  with Step_fetch_timed(1) show ?thesis by (intro attended_same [OF assms(3)]) simp_all
next
  case (Step_dispatch t now)
  then have "c_cancellers (co R') = c_cancellers (co R)" by (simp add: dispatch_task_def Let_def)
  then show ?thesis by (intro attended_same [OF assms(3)]) (simp_all add: Step_dispatch(1))
next
  case (Step_exec_start t c)
  from assms(2) Step_exec_start(2) show ?thesis
    by (cases rule: exec_enter_ready) (use Step_exec_start in \<open>auto intro!: attended_same [OF assms(3)]\<close>)
next
  case (Step_exec_return t c r)
  from assms(2) Step_exec_return(2) show ?thesis
  proof (cases rule: exec_enter_ready)
    case start
    with Step_exec_return show ?thesis by simp
  next
    case (cancelled k)
    with Step_exec_return have c: "co R' = s_set_cancel_and_destroy_task_no_lock t (co R)" "execs R' = execs R"
      by simp_all
    from set_cancellers_destroy [of t "co R"] show ?thesis
    proof
      assume "c_cancellers (s_set_cancel_and_destroy_task_no_lock t (co R)) = c_cancellers (co R)"
      with c show ?thesis by (intro attended_same [OF assms(3)]) simp_all
    next
      assume "c_cancellers (s_set_cancel_and_destroy_task_no_lock t (co R)) =
        map (\<lambda>(u, b). (u, b \<or> u = t)) (c_cancellers (co R))"
      with c show ?thesis by (intro attended_notify [OF assms(3), of _ t]) auto
    qed
  qed
next
  case (Step_reset t interval)
  then have "c_cancellers (co R') = c_cancellers (co R)" by (simp add: gallus_callout_task_reset_interval_def)
  then show ?thesis by (intro attended_same [OF assms(3)]) (simp_all add: Step_reset(1))
next
  case (Step_ran t r c ret)
  then have "c_cancellers c = c_cancellers (co R)"
    by (auto simp: exec_ran_def s_runnable_run_def Let_def split: if_splits)
  moreover have "fst ` set (execs R) \<subseteq> fst ` set (execs R')"
    using Step_ran(1) by (auto simp: image_iff)
  ultimately show ?thesis by (intro attended_same [OF assms(3)]) (simp_all add: Step_ran(1))
next
  case (Step_finish t ret now)
  obtain c' r where e: "exec_finish now ret t (co R) = (c', r)" by (cases "exec_finish now ret t (co R)")
  have ex: "fst ` set (execs R) \<subseteq> insert t (fst ` set (execs R'))"
    using Step_finish(1) by (auto simp: image_iff)
  from assms(2) Step_finish(2) show ?thesis
  proof (cases rule: exec_live)
    case (1 k)
    from 1(1-3,5,4) e have "set (c_cancellers c') \<subseteq> (\<lambda>(u, b). (u, b \<or> u = t)) ` set (c_cancellers (co R))"
    proof (cases rule: finish_cases)
      case (requeue k')
      then have "t \<notin> fst ` set (c_cancellers (co R))"
        by (auto simp: n_cancellers_def filter_empty_conv)
      then show ?thesis using requeue(12) by force
    qed auto
    then show ?thesis
      by (intro attended_notify [OF assms(3) _ ex]) (simp add: Step_finish(1) e)
  qed
next
  case Step_malloc
  with assms(3) show ?thesis by (auto simp: attended_def)
next
  case Step_initialize
  with assms(3) show ?thesis by (auto simp: attended_def gallus_callout_initialize_handler_def)
next
  case Step_finalize
  then show ?thesis by (simp add: attended_def no_cancellers_finalize)
qed


lemma co_reachable_attended: "co_reachable R \<Longrightarrow> attended R"
  unfolding co_reachable_def
proof (induction rule: rtranclp_induct)
  case base
  show ?case by (simp add: attended_def run_init_def callout_init_def)
next
  case (step R R')
  then show ?case
    using attended_step co_reachable_inv [unfolded co_reachable_def, OF step(1)] by blast
qed

subsection \<open>A run with an execution\<close>

text \<open>
  The sample goes on: task 2 falls due and is executed, with a canceller that waits for it, or without.
\<close>

definition sample_fetched :: callout_run where
  "sample_fetched = sample_submitted\<lparr>co := fst (fetch_tasks 60000 (co sample_submitted)), fetched := [2, 1]\<rparr>"

definition sample_dispatched :: callout_run where
  "sample_dispatched =
    sample_fetched\<lparr>co := dispatch_task 60000 2 (co sample_fetched), fetched := [1], ready := [2]\<rparr>"

definition sample_executing :: callout_run where
  "sample_executing =
    sample_dispatched\<lparr>co := fst (exec_enter 2 (co sample_dispatched)), ready := [], execs := [(2, Phase_proc)]\<rparr>"

definition sample_ran :: callout_run where
  "sample_ran = sample_executing\<lparr>co := fst (exec_ran 0 2 (co sample_executing)), execs := [(2, Phase_ran 0)]\<rparr>"

definition sample_waiting :: callout_run where
  "sample_waiting = sample_ran\<lparr>co := gallus_callout_cancel_task 2 (co sample_ran)\<rparr>"

definition sample_asleep :: callout_run where
  "sample_asleep = sample_waiting\<lparr>co := canceller_turn 0 (co sample_waiting)\<rparr>"

lemma runnables_loop_numeral [simp]:
  "runnables_loop a (numeral v) c =
    (case s_chrono_tsk_q c of
       [] \<Rightarrow> (c, [])
     | e # _ \<Rightarrow>
         if m_next_abstime (task c e) \<le> a
         then (let (c, es) = runnables_loop a (pred_numeral v) (take_out e c) in (c, e # es))
         else (c, []))"
  by (simp add: numeral_eq_Suc)

lemmas exec_defs = fetch_tasks_def s_get_runnable_timed_task_def s_get_runnables_def CALLOUT_TASK_MAX_def
  CALLOUT_TASK_SCHED_JITTER_def dispatch_task_def exec_enter_def exec_ran_def s_runnable_run_def
  take_out_def set_states_def upd_task_def s_set_task_state_in_table_def s_get_task_state_in_table_def
  task_def trace_def Let_def

lemma sample_fetched_eq: "fetch_tasks 60000 (co sample_submitted) = (co sample_fetched, [2, 1])"
  by (simp add: sample_fetched_def sample_defs exec_defs)

lemma sample_fetched_reachable: "co_reachable sample_fetched"
proof -
  have "co_step sample_submitted
      (sample_submitted\<lparr>co := co sample_fetched, fetched := fetched sample_submitted @ [2, 1]\<rparr>)"
    by (rule Step_fetch [OF sample_fetched_eq])
  then have "co_step sample_submitted sample_fetched"
    by (simp add: sample_fetched_def sample_defs)
  with sample_submitted_reachable show ?thesis by (rule reachable_step)
qed

lemma sample_dispatched_reachable: "co_reachable sample_dispatched"
proof -
  have "co_step sample_fetched (sample_fetched\<lparr>co := dispatch_task 60000 2 (co sample_fetched),
      fetched := remove1 2 (fetched sample_fetched), ready := ready sample_fetched @ [2]\<rparr>)"
    by (rule Step_dispatch) (simp add: sample_fetched_def)
  then have "co_step sample_fetched sample_dispatched"
    by (simp add: sample_dispatched_def) (simp add: sample_fetched_def sample_defs)
  with sample_fetched_reachable show ?thesis by (rule reachable_step)
qed

lemma sample_executing_eq: "exec_enter 2 (co sample_dispatched) = (co sample_executing, Exec_start)"
  by (simp add: sample_executing_def)
    (simp add: sample_dispatched_def sample_fetched_def sample_defs exec_defs)

lemma sample_executing_reachable: "co_reachable sample_executing"
proof -
  have "co_step sample_dispatched (sample_dispatched\<lparr>co := co sample_executing,
      ready := remove1 2 (ready sample_dispatched), execs := execs sample_dispatched @ [(2, Phase_proc)]\<rparr>)"
    by (rule Step_exec_start [OF _ sample_executing_eq]) (simp add: sample_dispatched_def)
  then have "co_step sample_dispatched sample_executing"
    by (simp add: sample_executing_def)
      (simp add: sample_dispatched_def sample_fetched_def sample_defs)
  with sample_dispatched_reachable show ?thesis by (rule reachable_step)
qed

lemma sample_ran_eq: "exec_ran 0 2 (co sample_executing) = (co sample_ran, 0)"
  by (simp add: sample_ran_def)
    (simp add: sample_executing_def sample_dispatched_def sample_fetched_def sample_defs exec_defs)

lemma sample_ran_reachable: "co_reachable sample_ran"
proof -
  have "co_step sample_executing (sample_executing\<lparr>co := co sample_ran,
      execs := remove1 (2, Phase_proc) (execs sample_executing) @ [(2, Phase_ran 0)]\<rparr>)"
    by (rule Step_ran [OF _ sample_ran_eq]) (simp add: sample_executing_def)
  then have "co_step sample_executing sample_ran"
    by (simp add: sample_ran_def) (simp add: sample_executing_def)
  with sample_executing_reachable show ?thesis by (rule reachable_step)
qed

lemmas sample_run_defs = sample_asleep_def sample_waiting_def sample_ran_def sample_executing_def
  sample_dispatched_def sample_fetched_def sample_defs exec_defs

lemma sample_waiting_reachable: "co_reachable sample_waiting"
  unfolding sample_waiting_def by (rule reachable_step [OF sample_ran_reachable Step_cancel])

lemma sample_waiting_cancellers: "c_cancellers (co sample_waiting) = [(2, True)]"
  by (simp add: sample_run_defs gallus_callout_cancel_task_def s_cancel_def cancel_enter_def)

lemma sample_asleep_reachable: "co_reachable sample_asleep"
  unfolding sample_asleep_def
  by (rule reachable_step [OF sample_waiting_reachable Step_canceller])
    (simp_all add: sample_waiting_cancellers)

lemma sample_asleep_facts:
  "c_cancellers (co sample_asleep) = [(2, False)]" "execs sample_asleep = [(2, Phase_ran 0)]"
proof -
  show "c_cancellers (co sample_asleep) = [(2, False)]"
    by (simp add: sample_run_defs gallus_callout_cancel_task_def s_cancel_def cancel_enter_def canceller_turn_def)
  show "execs sample_asleep = [(2, Phase_ran 0)]"
    by (simp add: sample_asleep_def sample_waiting_def sample_ran_def)
qed

lemma sample_ran_facts:
  "execs sample_ran = [(2, Phase_ran 0)]" "n_cancellers (co sample_ran) 2 = 0"
  "m_do_repeat (task (co sample_ran) 2)" "m_last_abstime (task (co sample_ran) 2) = 60000"
  "m_interval_time (task (co sample_ran) 2) = 20000" "2 \<notin> set (s_chrono_tsk_q (co sample_ran))"
proof -
  show "execs sample_ran = [(2, Phase_ran 0)]" by (simp add: sample_ran_def)
qed (simp_all add: sample_run_defs n_cancellers_def)

subsection \<open>Waiting and repeating\<close>



text \<open>
  The end of a successful execution of a repeated task that nobody cancels queues it again. It
  falls due one interval after the start of this execution, whenever its procedure returned, so the
  period does not depend on the time the procedure takes. When that sum is a negative number the task
  is destroyed.
\<close>

theorem callout_repeat_period:
  assumes "co_reachable R" "(t, Phase_ran GALLUS_RESULT_OK) \<in> set (execs R)"
    and "n_cancellers (co R) t = 0" "m_do_repeat (task (co R) t)"
  defines "next \<equiv> s64 (m_last_abstime (task (co R) t) + m_interval_time (task (co R) t))"
  shows "case exec_finish now GALLUS_RESULT_OK t (co R) of (c', r) \<Rightarrow>
    if next \<ge> 0 then
      r = GALLUS_RESULT_OK \<and> s_tsk_tbl c' t = Some TASK_STATE_ENQUEUED \<and>
      m_next_abstime (task c' t) = next \<and>
      s_chrono_tsk_q c' = filter (\<lambda>u. m_next_abstime (task (co R) u) \<le> next) (s_chrono_tsk_q (co R)) @
        t # filter (\<lambda>u. m_next_abstime (task (co R) u) > next) (s_chrono_tsk_q (co R))
    else s_tsk_tbl c' t = None \<and> s_chrono_tsk_q c' = s_chrono_tsk_q (co R)"
proof -
  have inv: "co_inv R" by (rule co_reachable_inv [OF assms(1)])
  obtain c' r where f: "exec_finish now GALLUS_RESULT_OK t (co R) = (c', r)"
    by (cases "exec_finish now GALLUS_RESULT_OK t (co R)")
  from inv assms(2) show ?thesis
  proof (cases rule: exec_live)
    case (1 k)
    have "\<not> m_is_first k" using 1(4) by (simp add: good_task_def)
    with assms(4) 1(3) have nx: "m_next_abstime (sched_times now k) = next"
      by (simp add: sched_times_def next_def task_def)
    from 1(1-3,5,4) f show ?thesis
    proof (cases rule: finish_cases)
      case waiters
      with assms(3) show ?thesis by simp
    next
      case (requeue k')
      have k': "m_next_abstime (task c' t) = next" "next \<ge> 0"
        using requeue(5-7) nx by (simp_all add: task_def)
      have other: "task c' e = task (co R) e" if "e \<in> set (s_chrono_tsk_q (co R))" for e
        using that 1(5) requeue(7) by (auto simp: task_def)
      then have "sorted (map (\<lambda>e. m_next_abstime (task c' e)) (s_chrono_tsk_q (co R)))"
        using co_invD(2) [OF inv] by (simp add: timed_sorted_def cong: map_cong)
      from timed_insert_sorted_eq [OF this, of t] requeue(9) k'(1)
      have "s_chrono_tsk_q c' = filter (\<lambda>u. m_next_abstime (task (co R) u) \<le> next) (s_chrono_tsk_q (co R)) @
          t # filter (\<lambda>u. m_next_abstime (task (co R) u) > next) (s_chrono_tsk_q (co R))"
        using other by (simp cong: filter_cong)
      with k' requeue(4,8) f show ?thesis by simp
    next
      case (destroyed evs)
      with nx f assms(4) 1(3) show ?thesis by (auto simp: task_def)
    qed
  qed
qed


theorem callout_repeat_period_witness:
  "case exec_finish 99999 GALLUS_RESULT_OK 2 (co sample_ran) of (c', r) \<Rightarrow>
    r = GALLUS_RESULT_OK \<and> s_tsk_tbl c' 2 = Some TASK_STATE_ENQUEUED \<and>
    m_next_abstime (task c' 2) = 80000 \<and> s_chrono_tsk_q c' = [2]"
proof -
  have "s_chrono_tsk_q (co sample_ran) = []" by (simp add: sample_run_defs)
  with callout_repeat_period [OF sample_ran_reachable, of 2 99999] sample_ran_facts
  show ?thesis by simp
qed


subsection \<open>Between the rescheduling and the end of an execution\<close>

text \<open>
  The code releases its locks after it has queued a repeated task again and before it drops the
  execution count. In the steps above these are one. When another thread comes in between, two things
  go wrong. A canceller that finds the count raised waits, and the drop does not wake it, because
  only an execution that leaves the task to be deleted notifies: it sleeps while the task is not executed.
\<close>

definition sample_gap :: callout where
  "sample_gap = fst (exec_resched 61000 GALLUS_RESULT_OK 2 (co sample_ran))"

lemma sample_gap_facts:
  "exec_resched 61000 GALLUS_RESULT_OK 2 (co sample_ran) = (sample_gap, GALLUS_RESULT_OK, False)"
  "s_chrono_tsk_q sample_gap = [2]" "c_cancellers sample_gap = []"
  by (simp_all add: sample_gap_def sample_run_defs exec_resched_def s_schedule_timed_task_def s_do_sched_def
      sched_times_def timed_insert_def)

lemma callout_canceller_left_asleep:
  "let c = canceller_turn 0 (s_cancel 2 sample_gap);
       c = exec_leave False 2 c
   in c_cancellers c = [(2, False)] \<and> m_exec_ref_count (task c 2) = 0"
  by (simp add: sample_gap_def sample_run_defs exec_resched_def s_schedule_timed_task_def s_do_sched_def
      sched_times_def timed_insert_def s_cancel_def cancel_enter_def canceller_turn_def exec_leave_def)

text \<open>
  And when the task falls due again at once and another worker takes it, the worker sees the raised
  count, returns without executing it, and nobody queues the task again: it stays in the table, in no
  queue, and is never executed or destroyed.
\<close>

lemma callout_repeated_task_lost:
  "let (c, ts) = fetch_tasks 80000 sample_gap;
       c = dispatch_task 80000 2 c;
       (c, e) = exec_enter 2 c;
       c = exec_leave False 2 c
   in ts = [2] \<and> e = Exec_return GALLUS_RESULT_OK \<and> s_tsk_tbl c 2 = Some TASK_STATE_DEQUEUED \<and>
      2 \<notin> set (s_chrono_tsk_q c) \<union> set (s_urgent_tsk_q c) \<union> set (s_idle_tsk_q c)"
  by (simp add: sample_gap_def sample_run_defs exec_resched_def s_schedule_timed_task_def s_do_sched_def
      sched_times_def timed_insert_def exec_leave_def)

subsection \<open>Other observations\<close>

text \<open>A task that is cancelled from its own procedure waits for itself, at every turn.\<close>

lemma callout_cancel_from_own_procedure:
  assumes "co_reachable R" "(t, ph) \<in> set (execs R)"
    "i < length (c_cancellers (co R))" "fst (c_cancellers (co R) ! i) = t"
  shows "canceller_turn i (co R) = (co R)\<lparr>c_cancellers := (c_cancellers (co R))[i := (t, False)]\<rparr>"
proof -
  have inv: "co_inv R" by (rule co_reachable_inv [OF assms(1)])
  have "where_is R t = In_exec ph" by (rule inv_place(5) [OF co_invD(1) [OF inv] assms(2)])
  then show ?thesis
    using assms(4) by (cases rule: canceller_turn_cases [OF inv assms(3), of t]) auto
qed

text \<open>When the table can not take a new task, its record is not released.\<close>

lemma callout_create_leaks:
  assumes "t \<noteq> 0" "s_tsk_tbl c t = None" "\<not> malloc_ok c"
  shows "\<exists>c'. s_create_task GALLUS_RESULT_OK t proc arg freeproc c = (c', GALLUS_RESULT_NO_MEMORY, 0) \<and>
    c_tasks c' t \<noteq> None \<and> s_tsk_tbl c' t = None"
  using assms
  by (simp add: s_create_task_def s_set_task_state_in_table_def s_destroy_task_no_lock_def s_delete_def
      s_get_task_state_in_table_def upd_task_def Let_def)

text \<open>
  A submission to a full queue waits, holding the lock that the main loop needs to empty it.
\<close>

lemma callout_submit_full_blocks:
  assumes "s_is_handler_inited c" "t \<noteq> 0" "s_tsk_tbl c t = Some TASK_STATE_CREATED"
    and "length (s_urgent_tsk_q c) = CALLOUT_TASK_MAX"
  shows "gallus_callout_submit_task now t 0 0 c = None"
  using assms
  by (simp add: gallus_callout_submit_task_def s_submit_task_def submit_put_def bbq_put_def
      s_get_task_state_in_table_def upd_task_def)

text \<open>
  Without an idle procedure nothing renews \<^verbatim>\<open>s_next_idle_abstime\<close> once it is set. From that time on
  a main loop with empty queues goes round without waiting.
\<close>

lemma callout_idle_busy_loop:
  assumes "\<not> s_idle_proc c" "s_urgent_tsk_q c = []" "s_chrono_tsk_q c = []" "s_idle_tsk_q c = []"
    and "0 < s_next_idle_abstime c" "s_next_idle_abstime c \<le> now" "now < 2 ^ 63"
  shows "main_loop_pass env r now c = (c, Loop_again)"
proof -
  have "s64 (s_next_idle_abstime c - now) = s_next_idle_abstime c - now"
    using assms by (intro s64_id) auto
  with assms show ?thesis
    by (simp add: main_loop_pass_def fetch_tasks_def s_get_runnable_timed_task_def s_get_runnables_def
        CALLOUT_TASK_MAX_def run_idle_proc_def loop_timeout_def s_peek_current_wakeup_time_def Let_def)
qed

end
