(* ===== verification/StrUtils.thy ===== *)
theory StrUtils
  imports Gallus_Base "HOL-Library.Word"
begin

text \<open>
  The string utilities, \<^verbatim>\<open>framework/lib/strutils.c\<close>: parsing of numbers, floats and booleans.

  A C string is a list of characters without its terminator, a pointer that may be NULL an option. The
  C library's locale is the C locale. Two kinds of foreign code are arguments: \<open>dup\<close> is
  \<^verbatim>\<open>strdup\<close>, which gives None when there is no memory, and \<open>mpz s base\<close> is the number
  \<^verbatim>\<open>mpz_init_set_str\<close> of the GMP library reads from \<open>s\<close>, None when it does not accept \<open>s\<close>. A value is
  stored through a pointer only where the result has one.
\<close>

type_synonym strdup_fun = "string \<Rightarrow> string option"
type_synonym mpz_fun = "string \<Rightarrow> int \<Rightarrow> int option"

subsection \<open>White space\<close>

definition isspace :: "char \<Rightarrow> bool" where
  "isspace c \<longleftrightarrow> c \<in> {CHR '' '', CHR 0x09, CHR 0x0A, CHR 0x0B, CHR 0x0C, CHR 0x0D}"

definition skip_spaces :: "string \<Rightarrow> string" where
  "skip_spaces s = dropWhile isspace s"

definition trim_spaces :: "string \<Rightarrow> string" where
  "trim_spaces s = rev (dropWhile isspace (rev s))"

definition tolower :: "char \<Rightarrow> char" where
  "tolower c =
    (let n = of_char c :: nat in if 65 \<le> n \<and> n \<le> 90 then char_of (n + 32) else c)"

definition strcasecmp_eq :: "string \<Rightarrow> string \<Rightarrow> bool" where
  "strcasecmp_eq a b \<longleftrightarrow> map tolower a = map tolower b"

definition strncasecmp_eq :: "string \<Rightarrow> string \<Rightarrow> nat \<Rightarrow> bool" where
  "strncasecmp_eq a b n \<longleftrightarrow> strcasecmp_eq (take n a) (take n b)"

subsection \<open>Multiplier prefixes\<close>

text \<open>The two arrays of powers, and the table from the prefixes to their elements.\<close>

definition s_mult :: "nat \<Rightarrow> int" where
  "s_mult i = fold (\<lambda>_ m. m * 1000) [0..<i] 1000"

definition s_mult_i :: "nat \<Rightarrow> int" where
  "s_mult_i i = fold (\<lambda>_ m. m * 1024) [0..<i] 1024"

definition s_mult_tbl :: "string \<rightharpoonup> int" where
  "s_mult_tbl = map_of
    [(''k'', s_mult 0), (''ki'', s_mult_i 0), (''m'', s_mult 1), (''mi'', s_mult_i 1),
     (''g'', s_mult 2), (''gi'', s_mult_i 2), (''t'', s_mult 3), (''ti'', s_mult_i 3),
     (''p'', s_mult 4), (''pi'', s_mult_i 4), (''x'', s_mult 5), (''xi'', s_mult_i 5),
     (''z'', s_mult 6), (''zi'', s_mult_i 6), (''y'', s_mult 7), (''yi'', s_mult_i 7)]"

definition prefix_key :: "char \<Rightarrow> bool \<Rightarrow> string option" where
  "prefix_key c got_i =
    (if tolower c \<in> set ''kmgtpxzy'' then Some (tolower c # (if got_i then ''i'' else []))
     else None)"

text \<open>The multiplier, and what is left in the buffer.\<close>

definition prefix_multiplier_of :: "bool \<Rightarrow> string \<Rightarrow> int option \<times> string" where
  "prefix_multiplier_of got_i str =
    (let len = length str in
     if len < 1 then (None, str)
     else
       (let str = trim_spaces str;
            l_c = len - 1;
            key = prefix_key (str ! l_c) got_i;
            str = (if key \<noteq> None then trim_spaces (take l_c str) else str)
        in if length str < 1 then (None, str)
           else case key of
             Some k \<Rightarrow> (s_mult_tbl k, str)
           | None \<Rightarrow> (Some 1, str)))"

definition s_get_prefix_multiplier :: "string \<Rightarrow> int option \<times> string" where
  "s_get_prefix_multiplier str =
    (if length str > 0 then
       (let str = trim_spaces str;
            len = length str
        in if len < 1 then (None, str)
           else if str ! (len - 1) = CHR ''i'' \<or> str ! (len - 1) = CHR ''I'' then
             (if len - 1 < 1 then (None, str)
              else prefix_multiplier_of True (trim_spaces (take (len - 1) str)))
           else prefix_multiplier_of False str)
     else (None, str))"

subsection \<open>Numbers of any size\<close>

definition parse_sign :: "string \<Rightarrow> bool \<times> string" where
  "parse_sign str =
    (case str of
       c # cs \<Rightarrow> if c = CHR ''-'' then (True, cs) else if c = CHR ''+'' then (False, cs) else (False, str)
     | [] \<Rightarrow> (False, str))"

definition s_parse_bigint_by_base :: "strdup_fun \<Rightarrow> mpz_fun \<Rightarrow> int \<Rightarrow> string \<Rightarrow> int option" where
  "s_parse_bigint_by_base dup mpz base str =
    (let (is_neg, str) = parse_sign (skip_spaces str);
         str = skip_spaces str
     in if str \<noteq> [] then
          (case dup str of
             None \<Rightarrow> None
           | Some buf \<Rightarrow>
               (case s_get_prefix_multiplier (trim_spaces buf) of
                  (None, _) \<Rightarrow> None
                | (Some mul, buf) \<Rightarrow>
                    (case mpz buf base of
                       None \<Rightarrow> None
                     | Some tmp \<Rightarrow> Some (if is_neg then - (tmp * mul) else tmp * mul))))
        else None)"

definition parse_base :: "string \<Rightarrow> int \<times> string" where
  "parse_base str =
    (if strncasecmp_eq str ''0x'' 2 \<or> strncasecmp_eq str [CHR 0x5C, CHR ''x''] 2 then (16, drop 2 str)
     else if strncasecmp_eq str [CHR 0x5C, CHR ''0''] 2 then (8, drop 2 str)
     else if strncasecmp_eq str [CHR 0x5C, CHR ''b''] 2 then (2, drop 2 str)
     else if take 1 str = ''H'' \<or> take 1 str = ''h'' then (16, drop 1 str)
     else if take 1 str = ''B'' \<or> take 1 str = ''b'' then (2, drop 1 str)
     else (10, str))"

definition s_parse_bigint :: "strdup_fun \<Rightarrow> mpz_fun \<Rightarrow> string \<Rightarrow> int option" where
  "s_parse_bigint dup mpz str =
    (let (is_neg, str) = parse_sign (skip_spaces str);
         (base, str) = parse_base (skip_spaces str);
         str = skip_spaces str
     in if str \<noteq> [] then
          (case dup str of
             None \<Rightarrow> None
           | Some buf \<Rightarrow>
               map_option (\<lambda>v. if is_neg then - v else v) (s_parse_bigint_by_base dup mpz base buf))
        else None)"

subsection \<open>Numbers of a width\<close>

definition in_range :: "int option \<Rightarrow> int \<Rightarrow> int \<Rightarrow> gallus_result_t \<times> int option" where
  "in_range v lower upper =
    (case v of
       Some v \<Rightarrow>
         if v \<ge> lower \<and> v \<le> upper then (GALLUS_RESULT_OK, Some v) else (GALLUS_RESULT_OUT_OF_RANGE, None)
     | None \<Rightarrow> (GALLUS_RESULT_INVALID_ARGS, None))"

definition s_parse_bigint_by_base_in_range ::
  "strdup_fun \<Rightarrow> mpz_fun \<Rightarrow> string \<Rightarrow> int \<Rightarrow> int \<Rightarrow> int \<Rightarrow> gallus_result_t \<times> int option" where
  "s_parse_bigint_by_base_in_range dup mpz str base lower upper =
    in_range (s_parse_bigint_by_base dup mpz base str) lower upper"

definition s_parse_bigint_in_range ::
  "strdup_fun \<Rightarrow> mpz_fun \<Rightarrow> string \<Rightarrow> int \<Rightarrow> int \<Rightarrow> gallus_result_t \<times> int option" where
  "s_parse_bigint_in_range dup mpz str lower upper = in_range (s_parse_bigint dup mpz str) lower upper"

text \<open>
  The functions of a width differ in the limits and in the conversion only; \<open>vptr\<close> tells whether
  \<^verbatim>\<open>val\<close> is not NULL. An \<^verbatim>\<open>unsigned int\<close> base is converted to an \<^verbatim>\<open>int\<close>.
\<close>

definition s32 :: "int \<Rightarrow> int" where
  "s32 x = signed_take_bit 31 x"

definition str_parse_by_base ::
  "int \<Rightarrow> int \<Rightarrow> strdup_fun \<Rightarrow> mpz_fun \<Rightarrow> string option \<Rightarrow> bool \<Rightarrow> nat \<Rightarrow>
   gallus_result_t \<times> 'w::len word option" where
  "str_parse_by_base lower upper dup mpz buf vptr base =
    (if is_valid_string buf \<and> vptr \<and> base > 1 then
       (let (r, v) = s_parse_bigint_by_base_in_range dup mpz (the buf) (s32 (int base)) lower upper
        in (r, map_option word_of_int v))
     else (GALLUS_RESULT_ANY_FAILURES, None))"

definition str_parse ::
  "int \<Rightarrow> int \<Rightarrow> strdup_fun \<Rightarrow> mpz_fun \<Rightarrow> string option \<Rightarrow> bool \<Rightarrow>
   gallus_result_t \<times> 'w::len word option" where
  "str_parse lower upper dup mpz buf vptr =
    (if is_valid_string buf \<and> vptr then
       (let (r, v) = s_parse_bigint_in_range dup mpz (the buf) lower upper
        in (r, map_option word_of_int v))
     else (GALLUS_RESULT_ANY_FAILURES, None))"

definition gallus_str_parse_int64_by_base ::
  "strdup_fun \<Rightarrow> mpz_fun \<Rightarrow> string option \<Rightarrow> bool \<Rightarrow> nat \<Rightarrow> gallus_result_t \<times> 64 word option" where
  "gallus_str_parse_int64_by_base = str_parse_by_base (- (2 ^ 63)) (2 ^ 63 - 1)"

definition gallus_str_parse_uint64_by_base ::
  "strdup_fun \<Rightarrow> mpz_fun \<Rightarrow> string option \<Rightarrow> bool \<Rightarrow> nat \<Rightarrow> gallus_result_t \<times> 64 word option" where
  "gallus_str_parse_uint64_by_base = str_parse_by_base 0 (2 ^ 64 - 1)"

definition gallus_str_parse_int64 ::
  "strdup_fun \<Rightarrow> mpz_fun \<Rightarrow> string option \<Rightarrow> bool \<Rightarrow> gallus_result_t \<times> 64 word option" where
  "gallus_str_parse_int64 = str_parse (- (2 ^ 63)) (2 ^ 63 - 1)"

definition gallus_str_parse_uint64 ::
  "strdup_fun \<Rightarrow> mpz_fun \<Rightarrow> string option \<Rightarrow> bool \<Rightarrow> gallus_result_t \<times> 64 word option" where
  "gallus_str_parse_uint64 = str_parse 0 (2 ^ 64 - 1)"

definition gallus_str_parse_int32_by_base ::
  "strdup_fun \<Rightarrow> mpz_fun \<Rightarrow> string option \<Rightarrow> bool \<Rightarrow> nat \<Rightarrow> gallus_result_t \<times> 32 word option" where
  "gallus_str_parse_int32_by_base = str_parse_by_base (- (2 ^ 31)) (2 ^ 31 - 1)"

definition gallus_str_parse_uint32_by_base ::
  "strdup_fun \<Rightarrow> mpz_fun \<Rightarrow> string option \<Rightarrow> bool \<Rightarrow> nat \<Rightarrow> gallus_result_t \<times> 32 word option" where
  "gallus_str_parse_uint32_by_base = str_parse_by_base 0 (2 ^ 32 - 1)"

definition gallus_str_parse_int32 ::
  "strdup_fun \<Rightarrow> mpz_fun \<Rightarrow> string option \<Rightarrow> bool \<Rightarrow> gallus_result_t \<times> 32 word option" where
  "gallus_str_parse_int32 = str_parse (- (2 ^ 31)) (2 ^ 31 - 1)"

definition gallus_str_parse_uint32 ::
  "strdup_fun \<Rightarrow> mpz_fun \<Rightarrow> string option \<Rightarrow> bool \<Rightarrow> gallus_result_t \<times> 32 word option" where
  "gallus_str_parse_uint32 = str_parse 0 (2 ^ 32 - 1)"

definition gallus_str_parse_int16_by_base ::
  "strdup_fun \<Rightarrow> mpz_fun \<Rightarrow> string option \<Rightarrow> bool \<Rightarrow> nat \<Rightarrow> gallus_result_t \<times> 16 word option" where
  "gallus_str_parse_int16_by_base = str_parse_by_base (- (2 ^ 15)) (2 ^ 15 - 1)"

definition gallus_str_parse_uint16_by_base ::
  "strdup_fun \<Rightarrow> mpz_fun \<Rightarrow> string option \<Rightarrow> bool \<Rightarrow> nat \<Rightarrow> gallus_result_t \<times> 16 word option" where
  "gallus_str_parse_uint16_by_base = str_parse_by_base 0 (2 ^ 16 - 1)"

definition gallus_str_parse_int16 ::
  "strdup_fun \<Rightarrow> mpz_fun \<Rightarrow> string option \<Rightarrow> bool \<Rightarrow> gallus_result_t \<times> 16 word option" where
  "gallus_str_parse_int16 = str_parse (- (2 ^ 15)) (2 ^ 15 - 1)"

definition gallus_str_parse_uint16 ::
  "strdup_fun \<Rightarrow> mpz_fun \<Rightarrow> string option \<Rightarrow> bool \<Rightarrow> gallus_result_t \<times> 16 word option" where
  "gallus_str_parse_uint16 = str_parse 0 (2 ^ 16 - 1)"

subsection \<open>Floats and booleans\<close>

text \<open>
  \<open>strtof s\<close> is the number the C library reads and the length of what it read; the three functions for
  \<^verbatim>\<open>float\<close>, \<^verbatim>\<open>double\<close> and \<^verbatim>\<open>long double\<close> are the same code with another reader.
\<close>

definition gallus_str_parse_float ::
  "(string \<Rightarrow> 'f \<times> nat) \<Rightarrow> string option \<Rightarrow> bool \<Rightarrow> gallus_result_t \<times> 'f option" where
  "gallus_str_parse_float strtof buf vptr =
    (if is_valid_string buf \<and> vptr then
       (let len = length (the buf) in
        if len > 0 then
          (let (tmp, n) = strtof (the buf)
           in if n = len then (GALLUS_RESULT_OK, Some tmp) else (GALLUS_RESULT_NAN, None))
        else (GALLUS_RESULT_INVALID_ARGS, None))
     else (GALLUS_RESULT_INVALID_ARGS, None))"

definition gallus_str_parse_double ::
  "(string \<Rightarrow> 'f \<times> nat) \<Rightarrow> string option \<Rightarrow> bool \<Rightarrow> gallus_result_t \<times> 'f option" where
  "gallus_str_parse_double strtod = gallus_str_parse_float strtod"

definition gallus_str_parse_long_double ::
  "(string \<Rightarrow> 'f \<times> nat) \<Rightarrow> string option \<Rightarrow> bool \<Rightarrow> gallus_result_t \<times> 'f option" where
  "gallus_str_parse_long_double strtold = gallus_str_parse_float strtold"

definition gallus_str_parse_bool :: "string option \<Rightarrow> bool \<Rightarrow> gallus_result_t \<times> bool option" where
  "gallus_str_parse_bool buf vptr =
    (if is_valid_string buf \<and> vptr then
       (if strcasecmp_eq (the buf) ''true'' \<or> strcasecmp_eq (the buf) ''yes'' \<or>
           strcasecmp_eq (the buf) ''on'' \<or> the buf = ''1''
        then (GALLUS_RESULT_OK, Some True)
        else if strcasecmp_eq (the buf) ''false'' \<or> strcasecmp_eq (the buf) ''no'' \<or>
           strcasecmp_eq (the buf) ''off'' \<or> the buf = ''0''
        then (GALLUS_RESULT_OK, Some False)
        else (GALLUS_RESULT_INVALID_ARGS, None))
     else (GALLUS_RESULT_INVALID_ARGS, None))"

end
