(* ===== verification/Str_Parse.thy ===== *)
theory Str_Parse
  imports StrUtils
begin

text \<open>
  What the number parsers of \<open>StrUtils\<close> accept. The spellings of a number, after the grammar in the
  comment of \<^verbatim>\<open>s_parse_bigint\<close>, are a specification of their own; each is read as the number it
  spells, and a number that is stored in a variable of some width is exact.
\<close>

subsection \<open>Spellings of numbers\<close>

text \<open>The value of a digit of either case, and the number that a string of digits writes; it may begin with zeros.\<close>

definition digit_value :: "char \<Rightarrow> nat" where
  "digit_value c = length (takeWhile (\<lambda>d. d \<noteq> tolower c) ''0123456789abcdef'')"

definition digits_ok :: "nat \<Rightarrow> string \<Rightarrow> bool" where
  "digits_ok b ds \<longleftrightarrow> ds \<noteq> [] \<and> list_all (\<lambda>c. digit_value c < b) ds"

definition number_of_digits :: "nat \<Rightarrow> string \<Rightarrow> nat" where
  "number_of_digits b ds = foldl (\<lambda>a c. a * b + digit_value c) 0 ds"

text \<open>The base prefixes, and what each makes the base.\<close>

definition base_prefixes :: "(string \<times> nat) list" where
  "base_prefixes =
    [(''0x'', 16), (''0X'', 16), ([CHR 0x5C, CHR ''x''], 16), ([CHR 0x5C, CHR ''X''], 16),
     (''h'', 16), (''H'', 16), ([CHR 0x5C, CHR ''0''], 8),
     ([CHR 0x5C, CHR ''b''], 2), ([CHR 0x5C, CHR ''B''], 2), (''b'', 2), (''B'', 2)]"

text \<open>The SI and the binary multipliers.\<close>

definition letter_power :: "char \<rightharpoonup> nat" where
  "letter_power c = map_of (zip ''kmgtpxzy'' [1..<9]) (tolower c)"

fun suffix_value :: "string \<rightharpoonup> int" where
  "suffix_value [] = Some 1"
| "suffix_value [c] = map_option (\<lambda>p. 1000 ^ p) (letter_power c)"
| "suffix_value [c, i] =
    (if i \<in> {CHR ''i'', CHR ''I''} then map_option (\<lambda>p. 1024 ^ p) (letter_power c) else None)"
| "suffix_value _ = None"

record spelling =
  sp_sign :: string
  sp_prefix :: string
  sp_base :: nat
  sp_digits :: string
  sp_suffix :: string
  sp_spaces :: "string list"

text \<open>
  A spelling is a sign or none, one of the prefixes or none, digits of the base, a multiplier or none, and white
  space between these. A zero without a prefix and the multiplier \<^verbatim>\<open>x\<close> right behind it are the prefix \<^verbatim>\<open>0x\<close>, so
  that text is not a spelling of the zero. Two things the comment has are not among the spellings, for the code
  does not read them: the prefix \<^verbatim>\<open>0b\<close> and repeated multipliers (\<open>str_parse_0b_rejected\<close> and
  \<open>str_parse_repeated_multiplier_rejected\<close> below).
\<close>

definition spelling_ok :: "spelling \<Rightarrow> bool" where
  "spelling_ok s \<longleftrightarrow>
    sp_sign s \<in> {[], ''-'', ''+''} \<and>
    ((sp_prefix s, sp_base s) \<in> set base_prefixes \<or> sp_prefix s = [] \<and> sp_base s = 10) \<and>
    digits_ok (sp_base s) (sp_digits s) \<and>
    suffix_value (sp_suffix s) \<noteq> None \<and>
    length (sp_spaces s) = 5 \<and> list_all (list_all isspace) (sp_spaces s) \<and>
    \<not> (sp_prefix s = [] \<and> sp_digits s = ''0'' \<and> sp_spaces s ! 3 = [] \<and> sp_suffix s \<noteq> [] \<and>
       hd (sp_suffix s) \<in> {CHR ''x'', CHR ''X''})"

definition spell :: "spelling \<Rightarrow> string" where
  "spell s = sp_spaces s ! 0 @ sp_sign s @ sp_spaces s ! 1 @ sp_prefix s @ sp_spaces s ! 2 @
    sp_digits s @ sp_spaces s ! 3 @ sp_suffix s @ sp_spaces s ! 4"

definition spelled :: "spelling \<Rightarrow> int" where
  "spelled s = (if sp_sign s = ''-'' then - 1 else 1) * int (number_of_digits (sp_base s) (sp_digits s)) *
    the (suffix_value (sp_suffix s))"

text \<open>
  What the parsers rely on of GMP: it reads the digits of a number in the base they are written in.
\<close>

definition mpz_reads :: "mpz_fun \<Rightarrow> bool" where
  "mpz_reads mpz \<longleftrightarrow>
    (\<forall>b ds. 2 \<le> b \<and> b \<le> 16 \<and> digits_ok b ds \<longrightarrow> mpz ds (int b) = Some (int (number_of_digits b ds)))"

subsection \<open>Digits\<close>

abbreviation (input) hex_digits :: "char set" where
  "hex_digits \<equiv> set ''0123456789abcdefABCDEF''"

lemma upper_hex:
  "list_all (\<lambda>n. char_of (n + 32) \<in> set ''0123456789abcdef'' \<longrightarrow> char_of n \<in> hex_digits) [65..<91::nat]"
  by code_simp

lemma tolower_hex:
  assumes "tolower c \<in> set ''0123456789abcdef''"
  shows "c \<in> hex_digits"
proof (cases "65 \<le> (of_char c :: nat) \<and> of_char c \<le> (90 :: nat)")
  case True
  then have "(of_char c :: nat) \<in> set [65..<91]" by (simp only: set_upt) simp
  then have "char_of (of_char c + 32 :: nat) \<in> set ''0123456789abcdef'' \<longrightarrow> char_of (of_char c :: nat) \<in> hex_digits"
    using upper_hex unfolding list_all_iff by blast
  then show ?thesis using assms True by (simp add: tolower_def Let_def del: list.set)
next
  case False
  then have "tolower c = c" by (auto simp: tolower_def Let_def)
  then show ?thesis using assms by auto
qed

lemma index_mem: "length (takeWhile (\<lambda>d. d \<noteq> x) xs) < length xs \<Longrightarrow> x \<in> set xs"
  by (metis (mono_tags, lifting) nat_neq_iff takeWhile_eq_all_conv)

lemma digit_value_hex: "digit_value c < 16 \<Longrightarrow> c \<in> hex_digits"
  unfolding digit_value_def by (rule tolower_hex, rule index_mem) simp

lemma digits_ok_hex: "digits_ok b ds \<Longrightarrow> b \<le> 16 \<Longrightarrow> set ds \<subseteq> hex_digits"
  by (auto simp: digits_ok_def list_all_iff dest!: bspec intro!: digit_value_hex simp del: list.set)

lemma digit_value_decimal: "digit_value c < 10 \<Longrightarrow> c \<in> set ''0123456789''"
proof -
  assume v: "digit_value c < 10"
  then have "c \<in> hex_digits" by (intro digit_value_hex) simp
  moreover have "list_all (\<lambda>c. digit_value c < 10 \<longrightarrow> c \<in> set ''0123456789'') ''0123456789abcdefABCDEF''"
    by code_simp
  ultimately show ?thesis using v unfolding list_all_iff by blast
qed

lemma digits_ok_decimal: "digits_ok 10 ds \<Longrightarrow> set ds \<subseteq> set ''0123456789''"
  by (auto simp: digits_ok_def list_all_iff dest!: bspec intro!: digit_value_decimal simp del: list.set)

lemma digits_ok_not_Nil: "digits_ok b ds \<Longrightarrow> ds \<noteq> []"
  by (simp add: digits_ok_def)

text \<open>Characters of one case.\<close>

lemma tolower_eq:
  "tolower c = CHR ''x'' \<longleftrightarrow> c = CHR ''x'' \<or> c = CHR ''X''"
  "tolower c = CHR ''b'' \<longleftrightarrow> c = CHR ''b'' \<or> c = CHR ''B''"
  "tolower c = CHR ''0'' \<longleftrightarrow> c = CHR ''0''"
  "tolower c = CHR 0x5C \<longleftrightarrow> c = CHR 0x5C"
proof -
  define n where "n = (of_char c :: nat)"
  have c: "c = char_of n" "n < 256" by (simp_all add: n_def)
  show
    "tolower c = CHR ''x'' \<longleftrightarrow> c = CHR ''x'' \<or> c = CHR ''X''"
    "tolower c = CHR ''b'' \<longleftrightarrow> c = CHR ''b'' \<or> c = CHR ''B''"
    "tolower c = CHR ''0'' \<longleftrightarrow> c = CHR ''0''"
    "tolower c = CHR 0x5C \<longleftrightarrow> c = CHR 0x5C"
    using c(2) by (auto simp: tolower_def Let_def c(1) char_of_eq_iff take_bit_nat_eq_self)
qed

lemma digit_not_special:
  assumes "c \<in> hex_digits"
  shows "\<not> isspace c" "c \<noteq> CHR ''-''" "c \<noteq> CHR ''+''" "c \<noteq> CHR ''i''" "c \<noteq> CHR ''I''"
    "prefix_key c b = None"
  using assms by (auto simp: isspace_def prefix_key_def tolower_def char_of_eq_iff)

subsection \<open>White space\<close>

lemma skip_spaces_append [simp]: "list_all isspace w \<Longrightarrow> skip_spaces (w @ s) = skip_spaces s"
  by (simp add: skip_spaces_def list_all_iff dropWhile_append2)

lemma skip_spaces_Cons [simp]: "\<not> isspace c \<Longrightarrow> skip_spaces (c # s) = c # s"
  by (simp add: skip_spaces_def)

lemma trim_spaces_append [simp]: "list_all isspace w \<Longrightarrow> trim_spaces (s @ w) = trim_spaces s"
  by (simp add: trim_spaces_def list_all_iff) (subst dropWhile_append2; simp)

lemma trim_spaces_id [simp]: "s \<noteq> [] \<Longrightarrow> \<not> isspace (last s) \<Longrightarrow> trim_spaces s = s"
  by (cases s rule: rev_cases) (simp_all add: trim_spaces_def)

lemma trim_spaces_snoc [simp]: "\<not> isspace c \<Longrightarrow> trim_spaces (s @ [c]) = s @ [c]"
  by simp

lemma trim_spaces_Nil [simp]: "trim_spaces [] = []"
  by (simp add: trim_spaces_def)

lemma trim_spaces_last: "trim_spaces s \<noteq> [] \<Longrightarrow> \<not> isspace (last (trim_spaces s))"
  unfolding trim_spaces_def by (metis hd_dropWhile last_rev rev.simps(1))

lemma trim_spaces_idem [simp]: "trim_spaces (trim_spaces s) = trim_spaces s"
  by (cases "trim_spaces s = []") (use trim_spaces_last in \<open>auto\<close>)

subsection \<open>Multipliers\<close>

lemma s_mult_power: "s_mult i = 1000 ^ (i + 1)" "s_mult_i i = 1024 ^ (i + 1)"
  unfolding s_mult_def s_mult_i_def by (induction i) simp_all

text \<open>Every key the prefixes give is in the table: the fatal exit of the code is never taken.\<close>

lemma prefix_key_in_table: "prefix_key c got_i = Some key \<Longrightarrow> s_mult_tbl key \<noteq> None"
  by (auto simp: prefix_key_def s_mult_tbl_def split: if_splits)

lemma prefix_key_value:
  "letter_power c = Some p \<Longrightarrow> prefix_key c False = Some [tolower c] \<and> s_mult_tbl [tolower c] = Some (1000 ^ p)"
  "letter_power c = Some p \<Longrightarrow>
    prefix_key c True = Some [tolower c, CHR ''i''] \<and> s_mult_tbl [tolower c, CHR ''i''] = Some (1024 ^ p)"
  by (auto simp: letter_power_def prefix_key_def s_mult_tbl_def s_mult_power upt_rec split: if_splits)


lemma suffix_shape:
  assumes "suffix_value suf = Some v" "suf \<noteq> []"
  obtains (si) c p where "suf = [c]" "letter_power c = Some p" "v = 1000 ^ p"
  | (binary) c i p where "suf = [c, i]" "i = CHR ''i'' \<or> i = CHR ''I''" "letter_power c = Some p" "v = 1024 ^ p"
  using assms by (cases suf rule: suffix_value.cases) (auto split: if_splits)

lemma letter_not_special:
  "letter_power c = Some p \<Longrightarrow> \<not> isspace c \<and> c \<noteq> CHR ''i'' \<and> c \<noteq> CHR ''I''"
  by (auto simp: letter_power_def isspace_def tolower_def upt_rec char_of_eq_iff split: if_splits)

text \<open>Splitting a number from its multiplier.\<close>

lemma prefix_multiplier_letter:
  assumes ds: "ds \<noteq> []" "\<not> isspace (last ds)" and w: "list_all isspace w" and c: "letter_power c = Some p"
  shows "prefix_multiplier_of got_i (ds @ w @ [c]) = (Some ((if got_i then 1024 else 1000) ^ p), ds)"
proof -
  have t: "trim_spaces (ds @ w @ [c]) = ds @ w @ [c]"
    using letter_not_special [OF c] trim_spaces_snoc [of c "ds @ w"] by simp
  have n: "(ds @ w @ [c]) ! (length ds + length w) = c" "take (length ds + length w) (ds @ w @ [c]) = ds @ w"
    by (simp_all add: nth_append)
  show ?thesis
    using ds w prefix_key_value [OF c] by (cases got_i) (simp_all add: prefix_multiplier_of_def t n Let_def)
qed

lemma prefix_multiplier_digits:
  assumes ds: "ds \<noteq> []" "set ds \<subseteq> hex_digits"
  shows "prefix_multiplier_of False ds = (Some 1, ds)"
proof -
  have l: "last ds \<in> hex_digits" using ds last_in_set by blast
  then have "trim_spaces ds = ds" "prefix_key (ds ! (length ds - 1)) False = None"
    using ds(1) digit_not_special(1) [OF l] digit_not_special(6) [OF l] by (simp_all add: last_conv_nth)
  with ds(1) show ?thesis by (simp add: prefix_multiplier_of_def Let_def)
qed

lemma get_prefix_multiplier:
  assumes ds: "ds \<noteq> []" "set ds \<subseteq> hex_digits" and w: "list_all isspace w"
    and suf: "suffix_value suf = Some v"
  shows "s_get_prefix_multiplier (trim_spaces (ds @ w @ suf)) = (Some v, ds)"
proof -
  have l: "last ds \<in> hex_digits" using ds last_in_set by blast
  note ls = digit_not_special [OF l]
  show ?thesis
  proof (cases "suf = []")
    case True
    with suf have "v = 1" by simp
    with True ds w ls prefix_multiplier_digits [OF ds] show ?thesis
      by (simp add: s_get_prefix_multiplier_def Let_def last_conv_nth)
  next
    case False
    from suf False show ?thesis
    proof (cases rule: suffix_shape)
      case (si c p)
      note c = letter_not_special [OF si(2)]
      have "trim_spaces (ds @ w @ suf) = ds @ w @ [c]"
        using c trim_spaces_snoc [of c "ds @ w"] by (simp add: si(1))
      moreover have "(ds @ w @ [c]) ! (length ds + length w) = c" by (simp add: nth_append)
      ultimately show ?thesis
        using c prefix_multiplier_letter [OF ds(1) ls(1) w si(2), of False] trim_spaces_snoc [of c "ds @ w"]
        by (simp add: s_get_prefix_multiplier_def Let_def si(3))
    next
      case (binary c i p)
      have i: "\<not> isspace i" using binary(2) by (auto simp: isspace_def)
      have "trim_spaces (ds @ w @ suf) = ds @ w @ [c, i]"
        using i trim_spaces_snoc [of i "ds @ w @ [c]"] by (simp add: binary(1))
      moreover have "(ds @ w @ [c, i]) ! (length ds + Suc (length w)) = i"
        "take (length ds + Suc (length w)) (ds @ w @ [c, i]) = ds @ w @ [c]"
        by (simp_all add: nth_append)
      moreover have "trim_spaces (ds @ w @ [c]) = ds @ w @ [c]"
        using letter_not_special [OF binary(3)] trim_spaces_snoc [of c "ds @ w"] by simp
      ultimately show ?thesis
        using i binary(2) prefix_multiplier_letter [OF ds(1) ls(1) w binary(3), of True]
          trim_spaces_snoc [of i "ds @ w @ [c]"]
        by (simp add: s_get_prefix_multiplier_def Let_def binary(4))
    qed
  qed
qed


subsection \<open>Reading a spelling\<close>

lemma parse_sign_cases:
  "sg \<in> {[], ''-'', ''+''} \<Longrightarrow> s \<noteq> [] \<Longrightarrow> hd s \<noteq> CHR ''-'' \<Longrightarrow> hd s \<noteq> CHR ''+'' \<Longrightarrow> \<not> isspace (hd s) \<Longrightarrow>
    list_all isspace w \<Longrightarrow> list_all isspace w' \<Longrightarrow>
    (case parse_sign (skip_spaces (w @ sg @ w' @ s)) of (neg, r) \<Rightarrow> (neg, skip_spaces r)) = (sg = ''-'', s)"
  by (cases s) (auto simp: parse_sign_def isspace_def)

lemma parse_by_base_digits:
  assumes mpz: "mpz_reads mpz" and b: "2 \<le> b" "b \<le> 16" and w: "list_all isspace w" "list_all isspace w'"
    and suf: "suffix_value suf = Some v"
    and ok: "digits_ok b n"
  shows "s_parse_bigint_by_base Some mpz (int b) (n @ w @ suf @ w') = Some (int (number_of_digits b n) * v)"
proof -
  let ?t = "n @ w @ suf @ w'"
  obtain d ds where d: "n = d # ds" using digits_ok_not_Nil [OF ok] by (cases n) auto
  have dm: "d \<in> hex_digits" using digits_ok_hex [OF ok b(2)] d by auto
  note dd = digit_not_special [OF dm]
  have "skip_spaces ?t = ?t" "parse_sign ?t = (False, ?t)" "?t \<noteq> []"
    using dd by (simp_all add: d parse_sign_def)
  moreover have "trim_spaces ?t = trim_spaces (n @ w @ suf)"
    using trim_spaces_append [OF w(2), of "n @ w @ suf"] by simp
  moreover have "s_get_prefix_multiplier (trim_spaces (n @ w @ suf)) = (Some v, n)"
    by (rule get_prefix_multiplier [OF digits_ok_not_Nil [OF ok] digits_ok_hex [OF ok b(2)] w(1) suf])
  moreover have "mpz (n) (int b) = Some (int (number_of_digits b n))" using mpz b ok by (simp add: mpz_reads_def)
  ultimately show ?thesis by (simp add: s_parse_bigint_by_base_def)
qed

text \<open>The base of a number with a prefix, and of one without.\<close>

lemma strncasecmp_2:
  "strncasecmp_eq (c # d # s) [x, y] 2 \<longleftrightarrow> tolower c = tolower x \<and> tolower d = tolower y"
  "\<not> strncasecmp_eq [c] [x, y] 2"
  by (simp_all add: strncasecmp_eq_def strcasecmp_eq_def)

lemma tolower_values:
  "tolower (CHR ''0'') = CHR ''0''" "tolower (CHR ''x'') = CHR ''x''" "tolower (CHR ''b'') = CHR ''b''"
  "tolower (CHR 0x5C) = CHR 0x5C"
  by (simp_all add: tolower_eq)

lemma strncasecmp_1: "tolower c \<noteq> tolower y \<Longrightarrow> \<not> strncasecmp_eq (c # s) (y # z) 2"
  by (simp add: strncasecmp_eq_def strcasecmp_eq_def)

lemma parse_base_prefix:
  "parse_base (CHR ''0'' # CHR ''x'' # s) = (16, s)" "parse_base (CHR ''0'' # CHR ''X'' # s) = (16, s)"
  "parse_base (CHR 0x5C # CHR ''x'' # s) = (16, s)" "parse_base (CHR 0x5C # CHR ''X'' # s) = (16, s)"
  "parse_base (CHR ''h'' # s) = (16, s)" "parse_base (CHR ''H'' # s) = (16, s)"
  "parse_base (CHR 0x5C # CHR ''0'' # s) = (8, s)"
  "parse_base (CHR 0x5C # CHR ''b'' # s) = (2, s)" "parse_base (CHR 0x5C # CHR ''B'' # s) = (2, s)"
  "parse_base (CHR ''b'' # s) = (2, s)" "parse_base (CHR ''B'' # s) = (2, s)"
  by (simp_all add: parse_base_def strncasecmp_2 strncasecmp_1 tolower_values tolower_eq)

lemma base_prefixes_facts:
  assumes "(pre, b) \<in> set base_prefixes"
  shows "parse_base (pre @ s) = (int b, s)" "2 \<le> b \<and> b \<le> 16"
    "pre \<noteq> []" "\<not> isspace (hd pre)" "hd pre \<noteq> CHR ''-''" "hd pre \<noteq> CHR ''+''"
  using assms by (auto simp: base_prefixes_def parse_base_prefix isspace_def)

lemma parse_base_decimal:
  assumes d: "d \<in> set ''0123456789''" and x: "d = CHR ''0'' \<longrightarrow> s = [] \<or> tolower (hd s) \<noteq> CHR ''x''"
  shows "parse_base (d # s) = (10, d # s)"
proof -
  have "tolower d \<noteq> CHR 0x5C" using d by (auto simp: tolower_eq)
  then have "\<not> strncasecmp_eq (d # s) (CHR 0x5C # z) 2" for z
    by (intro strncasecmp_1) (simp add: tolower_values)
  moreover have "\<not> strncasecmp_eq (d # s) ''0x'' 2"
    using x by (cases s) (auto simp: strncasecmp_2 tolower_values tolower_eq)
  ultimately show ?thesis using d by (auto simp: parse_base_def)
qed


text \<open>The text behind the sign: where the base is read, the digits are left.\<close>

lemma parse_base_spelling:
  assumes "(pre, b) \<in> set base_prefixes \<or> pre = [] \<and> b = 10" and ok: "digits_ok b ds"
    and x: "\<not> (pre = [] \<and> ds = ''0'' \<and> w3 = [] \<and> suf \<noteq> [] \<and> hd suf \<in> {CHR ''x'', CHR ''X''})"
    and w: "list_all isspace w" "list_all isspace w3" "list_all isspace w4"
    and wp: "pre = [] \<longrightarrow> w = []"
  defines "r \<equiv> ds @ w3 @ suf @ w4"
  shows "(case parse_base (pre @ w @ r) of (base, s) \<Rightarrow> (base, skip_spaces s)) = (int b, r)" "2 \<le> b \<and> b \<le> 16"
proof -
  show b: "2 \<le> b \<and> b \<le> 16" using assms(1) base_prefixes_facts(2) by auto
  obtain d es where d: "ds = d # es" using digits_ok_not_Nil [OF ok] by (cases ds) auto
  have "d \<in> hex_digits" using digits_ok_hex [OF ok] b d by auto
  then have r: "skip_spaces r = r" using digit_not_special(1) by (simp add: r_def d)
  show "(case parse_base (pre @ w @ r) of (base, s) \<Rightarrow> (base, skip_spaces s)) = (int b, r)"
  proof (cases "pre = []")
    case False
    then have "(pre, b) \<in> set base_prefixes" using assms(1) by simp
    with base_prefixes_facts(1) w(1) r show ?thesis by simp
  next
    case True
    then have b10: "b = 10" using assms(1) base_prefixes_facts(3) by blast
    have dig: "set (d # es) \<subseteq> set ''0123456789''" using digits_ok_decimal [of ds] ok by (simp only: d b10)
    have sp: "tolower c \<noteq> CHR ''x''" if "isspace c" for c using that by (auto simp: isspace_def tolower_eq)
    have "parse_base (d # es @ w3 @ suf @ w4) = (10, d # es @ w3 @ suf @ w4)"
    proof (rule parse_base_decimal)
      show "d \<in> set ''0123456789''" using dig by simp
      show "d = CHR ''0'' \<longrightarrow> es @ w3 @ suf @ w4 = [] \<or> tolower (hd (es @ w3 @ suf @ w4)) \<noteq> CHR ''x''"
      proof (cases es)
        case (Cons e es)
        then show ?thesis using dig by (auto simp: tolower_eq)
      next
        case Nil
        then have "d = CHR ''0'' \<Longrightarrow> w3 = [] \<Longrightarrow> suf \<noteq> [] \<Longrightarrow> tolower (hd suf) \<noteq> CHR ''x''"
          using x True d by (auto simp: tolower_eq)
        then show ?thesis using Nil w(2,3) sp by (cases w3; cases suf; cases w4) auto
      qed
    qed
    with True wp r d b10 show ?thesis by (simp add: r_def)
  qed
qed

lemma parse_spelling:
  assumes ok: "spelling_ok s" and mpz: "mpz_reads mpz"
  shows "s_parse_bigint Some mpz (spell s) = Some (spelled s)" "spell s \<noteq> []"
proof -
  obtain w0 w1 w2 w3 w4 where ws: "sp_spaces s = [w0, w1, w2, w3, w4]"
    using ok by (auto simp: spelling_ok_def length_Suc_conv eval_nat_numeral)
  then have w: "list_all isspace w0" "list_all isspace w1" "list_all isspace w2" "list_all isspace w3"
    "list_all isspace w4"
    using ok by (simp_all add: spelling_ok_def)
  obtain v where v: "suffix_value (sp_suffix s) = Some v" using ok by (auto simp: spelling_ok_def)
  let ?pre = "sp_prefix s" and ?b = "sp_base s" and ?ds = "sp_digits s"
  have pre: "(?pre, ?b) \<in> set base_prefixes \<or> ?pre = [] \<and> ?b = 10"
    "\<not> (?pre = [] \<and> ?ds = ''0'' \<and> w3 = [] \<and> sp_suffix s \<noteq> [] \<and> hd (sp_suffix s) \<in> {CHR ''x'', CHR ''X''})"
    "sp_sign s \<in> {[], ''-'', ''+''}" and dok: "digits_ok ?b ?ds"
    using ok ws by (auto simp: spelling_ok_def eval_nat_numeral)
  define r where "r = ?ds @ w3 @ sp_suffix s @ w4"
  define w2' where "w2' = (if ?pre = [] then [] else w2)"
  define w1' where "w1' = (if ?pre = [] then w1 @ w2 else w1)"
  have sp: "spell s = w0 @ sp_sign s @ w1' @ (?pre @ w2' @ r)"
    by (simp add: spell_def ws r_def w1'_def w2'_def)
  have w': "list_all isspace w1'" "list_all isspace w2'" "?pre = [] \<longrightarrow> w2' = []"
    using w by (simp_all add: w1'_def w2'_def)
  note base = parse_base_spelling [OF pre(1) dok pre(2) w'(2) w(4,5) w'(3), folded r_def]
  have b: "2 \<le> ?b" "?b \<le> 16" using base(2) by auto
  obtain d ds where d: "?ds = d # ds" using digits_ok_not_Nil [OF dok] by (cases ?ds) auto
  have "d \<in> hex_digits" using digits_ok_hex [OF dok b(2)] d by auto
  note dd = digit_not_special [OF this]
  have hd: "hd (?pre @ w2' @ r) \<noteq> CHR ''-''" "hd (?pre @ w2' @ r) \<noteq> CHR ''+''" "\<not> isspace (hd (?pre @ w2' @ r))"
    using pre(1) base_prefixes_facts(3-6) dd w'(3) by (cases "?pre"; force simp: r_def d)+
  have ne: "r \<noteq> []" by (simp add: r_def d)
  then show "spell s \<noteq> []" by (simp add: sp)
  have sign: "(case parse_sign (skip_spaces (spell s)) of (neg, r) \<Rightarrow> (neg, skip_spaces r)) =
      (sp_sign s = ''-'', ?pre @ w2' @ r)"
    unfolding sp by (rule parse_sign_cases) (use pre(3) ne hd w(1) w'(1) in simp_all)
  have "s_parse_bigint_by_base Some mpz (int ?b) r = Some (int (number_of_digits ?b ?ds) * v)"
    unfolding r_def by (rule parse_by_base_digits [OF mpz b w(4,5) v dok])
  with sign base(1) ne v show "s_parse_bigint Some mpz (spell s) = Some (spelled s)"
    by (auto simp: s_parse_bigint_def spelled_def split: prod.splits)
qed


subsection \<open>A reader\<close>

text \<open>A function that has the assumed behaviour of GMP.\<close>

definition sample_mpz :: mpz_fun where
  "sample_mpz s b =
    (if digits_ok (nat b) s then Some (int (number_of_digits (nat b) s)) else None)"

lemma sample_mpz_reads: "mpz_reads sample_mpz"
  by (simp add: mpz_reads_def sample_mpz_def)

subsection \<open>Properties\<close>

lemma str_parse_eq:
  assumes "s_parse_bigint Some mpz t = Some v" "t \<noteq> []"
  shows "str_parse lower upper Some mpz (Some t) True =
    (if lower \<le> v \<and> v \<le> upper then (GALLUS_RESULT_OK, Some (word_of_int v :: 'w::len word))
     else (GALLUS_RESULT_OUT_OF_RANGE, None))"
  using assms by (simp add: str_parse_def s_parse_bigint_in_range_def in_range_def)




lemma sint_uint_exact:
  "- (2 ^ (LENGTH('w) - 1)) \<le> v \<Longrightarrow> v < 2 ^ (LENGTH('w) - 1) \<Longrightarrow> sint (word_of_int v :: 'w::len word) = v"
  "0 \<le> v \<Longrightarrow> v < 2 ^ LENGTH('w) \<Longrightarrow> uint (word_of_int v :: 'w::len word) = v"
  by (simp_all add: signed_take_bit_int_eq_self sint_sbintrunc' uint_word_of_int_eq take_bit_int_eq_self)

lemma str_parse_outcome:
  assumes "str_parse lower upper dup mpz buf vptr = (r, w)"
  shows "(w = None \<longleftrightarrow> r \<noteq> GALLUS_RESULT_OK) \<and>
    (\<forall>x. w = Some x \<longrightarrow> (\<exists>v. s_parse_bigint dup mpz (the buf) = Some v \<and> lower \<le> v \<and> v \<le> upper \<and> x = word_of_int v))"
  using assms
  by (auto simp: str_parse_def s_parse_bigint_in_range_def in_range_def split: if_splits option.splits)

lemma str_parse_by_base_outcome:
  assumes "str_parse_by_base lower upper dup mpz buf vptr base = (r, w)"
  shows "(w = None \<longleftrightarrow> r \<noteq> GALLUS_RESULT_OK) \<and>
    (\<forall>x. w = Some x \<longrightarrow>
      (\<exists>v. s_parse_bigint_by_base dup mpz (s32 (int base)) (the buf) = Some v \<and> lower \<le> v \<and> v \<le> upper \<and>
         x = word_of_int v))"
  using assms
  by (auto simp: str_parse_by_base_def s_parse_bigint_by_base_in_range_def in_range_def split: if_splits option.splits)

text \<open>
  C21. Whatever the text, the memory and the number library do: a parser stores a value exactly when it
  returns OK, and the value stored, read at its width and signedness, is the number that was read, never a
  truncated one. This holds of the twelve parsers.
\<close>

theorem str_parse_exact:
  shows
    "(case gallus_str_parse_int64 dup mpz buf vptr of (r, w) \<Rightarrow> if r = GALLUS_RESULT_OK
       then s_parse_bigint dup mpz (the buf) = map_option sint w \<and> w \<noteq> None else w = None) \<and>
    (case gallus_str_parse_uint64 dup mpz buf vptr of (r, w) \<Rightarrow> if r = GALLUS_RESULT_OK
       then s_parse_bigint dup mpz (the buf) = map_option uint w \<and> w \<noteq> None else w = None) \<and>
    (case gallus_str_parse_int32 dup mpz buf vptr of (r, w) \<Rightarrow> if r = GALLUS_RESULT_OK
       then s_parse_bigint dup mpz (the buf) = map_option sint w \<and> w \<noteq> None else w = None) \<and>
    (case gallus_str_parse_uint32 dup mpz buf vptr of (r, w) \<Rightarrow> if r = GALLUS_RESULT_OK
       then s_parse_bigint dup mpz (the buf) = map_option uint w \<and> w \<noteq> None else w = None) \<and>
    (case gallus_str_parse_int16 dup mpz buf vptr of (r, w) \<Rightarrow> if r = GALLUS_RESULT_OK
       then s_parse_bigint dup mpz (the buf) = map_option sint w \<and> w \<noteq> None else w = None) \<and>
    (case gallus_str_parse_uint16 dup mpz buf vptr of (r, w) \<Rightarrow> if r = GALLUS_RESULT_OK
       then s_parse_bigint dup mpz (the buf) = map_option uint w \<and> w \<noteq> None else w = None) \<and>
    (case gallus_str_parse_int64_by_base dup mpz buf vptr base of (r, w) \<Rightarrow> if r = GALLUS_RESULT_OK
       then s_parse_bigint_by_base dup mpz (s32 (int base)) (the buf) = map_option sint w \<and> w \<noteq> None
       else w = None) \<and>
    (case gallus_str_parse_uint64_by_base dup mpz buf vptr base of (r, w) \<Rightarrow> if r = GALLUS_RESULT_OK
       then s_parse_bigint_by_base dup mpz (s32 (int base)) (the buf) = map_option uint w \<and> w \<noteq> None
       else w = None) \<and>
    (case gallus_str_parse_int32_by_base dup mpz buf vptr base of (r, w) \<Rightarrow> if r = GALLUS_RESULT_OK
       then s_parse_bigint_by_base dup mpz (s32 (int base)) (the buf) = map_option sint w \<and> w \<noteq> None
       else w = None) \<and>
    (case gallus_str_parse_uint32_by_base dup mpz buf vptr base of (r, w) \<Rightarrow> if r = GALLUS_RESULT_OK
       then s_parse_bigint_by_base dup mpz (s32 (int base)) (the buf) = map_option uint w \<and> w \<noteq> None
       else w = None) \<and>
    (case gallus_str_parse_int16_by_base dup mpz buf vptr base of (r, w) \<Rightarrow> if r = GALLUS_RESULT_OK
       then s_parse_bigint_by_base dup mpz (s32 (int base)) (the buf) = map_option sint w \<and> w \<noteq> None
       else w = None) \<and>
    (case gallus_str_parse_uint16_by_base dup mpz buf vptr base of (r, w) \<Rightarrow> if r = GALLUS_RESULT_OK
       then s_parse_bigint_by_base dup mpz (s32 (int base)) (the buf) = map_option uint w \<and> w \<noteq> None
       else w = None)"
  by (intro conjI; simp only: gallus_str_parse_int64_def gallus_str_parse_uint64_def gallus_str_parse_int32_def
      gallus_str_parse_uint32_def gallus_str_parse_int16_def gallus_str_parse_uint16_def
      gallus_str_parse_int64_by_base_def gallus_str_parse_uint64_by_base_def gallus_str_parse_int32_by_base_def
      gallus_str_parse_uint32_by_base_def gallus_str_parse_int16_by_base_def gallus_str_parse_uint16_by_base_def
      split: prod.split; clarify;
      drule str_parse_outcome str_parse_by_base_outcome; auto simp: sint_uint_exact)

subsection \<open>Other observations\<close>

text \<open>Both levels of the parser read a sign, so a number may have two, which cancel each other.\<close>

lemma str_parse_two_signs: "s_parse_bigint Some sample_mpz ''--5'' = Some 5"
  by code_simp

text \<open>
  The comment gives \<^verbatim>\<open>0b\<close> as a prefix of binary numbers. The code does not know it: the number
  library gets the letter, and no digit of a decimal number is a letter.
\<close>

lemma str_parse_0b_rejected: "s_parse_bigint Some sample_mpz ''0b101'' = None"
  by code_simp

text \<open>The comment lets a multiplier be repeated. The code takes one, and the number library gets the other.\<close>

lemma str_parse_repeated_multiplier_rejected:
  "s_parse_bigint Some sample_mpz ''5kk'' = None" "s_parse_bigint Some sample_mpz ''5kii'' = None"
  "s_parse_bigint Some sample_mpz ''5k'' = Some 5000"
  by code_simp+

end
