(* ===== verification/Str_Token.thy ===== *)
theory Str_Token
  imports StrUtils
begin

text \<open>
  The tokenizers of \<^verbatim>\<open>framework/lib/strutils.c\<close>. They cut a string in place: the buffer is a list of
  characters with its terminators, a pointer into it a position, the array of tokens a list of positions,
  and a token the string that starts there in the final buffer. A read behind the end of the buffer is
  the value None.
\<close>

abbreviation NUL :: char where "NUL \<equiv> CHR 0x00"

definition cstr :: "string \<Rightarrow> nat \<Rightarrow> string" where
  "cstr buf p = takeWhile (\<lambda>c. c \<noteq> NUL) (drop p buf)"

text \<open>The loops that step over characters.\<close>

function scan :: "(char \<Rightarrow> bool) \<Rightarrow> string \<Rightarrow> nat \<Rightarrow> nat option" where
  "scan P buf p =
    (if p < length buf then (if P (buf ! p) then scan P buf (p + 1) else Some p) else None)"
  by auto
termination by (relation "measure (\<lambda>(P, buf, p). length buf - p)") auto

declare scan.simps [simp del]

lemma scan_bounds: "scan P buf p = Some q \<Longrightarrow> p \<le> q \<and> q < length buf"
  by (induction P buf p rule: scan.induct) (subst (asm) scan.simps, auto split: if_splits)

definition skips_delim :: "string \<Rightarrow> char \<Rightarrow> bool" where
  "skips_delim delm c \<longleftrightarrow> strchr_hit delm c \<and> c \<noteq> NUL"

definition skips_token :: "string \<Rightarrow> char \<Rightarrow> bool" where
  "skips_token delm c \<longleftrightarrow> \<not> strchr_hit delm c \<and> c \<noteq> NUL"

subsection \<open>Tokens with a limit\<close>

text \<open>The number of tokens so far is the length of their list.\<close>

function tokenize_loop ::
  "string \<Rightarrow> nat \<Rightarrow> nat \<Rightarrow> string \<Rightarrow> nat \<Rightarrow> nat list \<Rightarrow> (nat list \<times> string) option" where
  "tokenize_loop delm n_max limit buf p tokens =
    (if p < length buf then
       if buf ! p \<noteq> NUL \<and> length tokens < n_max then
         (case scan (skips_delim delm) buf p of
            None \<Rightarrow> None
          | Some p' \<Rightarrow>
              if buf ! p' = NUL then Some (tokens, buf)
              else if limit \<noteq> 0 \<and> limit \<le> length tokens then Some (tokens @ [p'], buf)
              else
                (case scan (skips_token delm) buf p' of
                   None \<Rightarrow> None
                 | Some q \<Rightarrow>
                     if buf ! q = NUL then Some (if q - p' > 0 then tokens @ [p'] else tokens, buf)
                     else if q + 1 < length buf then
                       (if buf ! (q + 1) = NUL then Some (tokens @ [p'], buf[q := NUL])
                        else tokenize_loop delm n_max limit (buf[q := NUL]) (q + 1) (tokens @ [p']))
                     else None))
       else Some (tokens, buf)
     else None)"
  by auto
termination
  by (relation "measure (\<lambda>(delm, n_max, limit, buf, p, tokens). length buf - p)") (auto dest!: scan_bounds)

declare tokenize_loop.simps [simp del]

definition gallus_str_tokenize_with_limit ::
  "string option \<Rightarrow> nat \<Rightarrow> nat \<Rightarrow> string option \<Rightarrow> (gallus_result_t \<times> nat list \<times> string) option" where
  "gallus_str_tokenize_with_limit buf n_max limit delm =
    (case buf of
       None \<Rightarrow> Some (GALLUS_RESULT_INVALID_ARGS, [], [])
     | Some buf \<Rightarrow>
         if cstr buf 0 \<noteq> [] \<and> is_valid_string delm then
           map_option (\<lambda>(tokens, buf). (int (length tokens), tokens, buf))
             (tokenize_loop (the delm) n_max limit buf 0 [])
         else Some (GALLUS_RESULT_INVALID_ARGS, [], buf))"

subsection \<open>Tokens with quotes\<close>

text \<open>The search for the closing quote, from behind the opening one.\<close>

datatype quote_end =
    Quote_closed nat
  | Quote_not_closed
  | Quote_at_end nat

function quote_loop :: "char \<Rightarrow> string \<Rightarrow> nat \<Rightarrow> quote_end option" where
  "quote_loop cur_quote buf p =
    (if p < length buf then
       if buf ! p \<noteq> NUL then
         (case scan (\<lambda>c. c \<noteq> cur_quote \<and> c \<noteq> NUL) buf p of
            None \<Rightarrow> None
          | Some q \<Rightarrow>
              if buf ! q = NUL then Some Quote_not_closed
              else if buf ! (q - 1) = CHR 0x5C then quote_loop cur_quote buf (q + 1)
              else Some (Quote_closed q))
       else Some (Quote_at_end p)
     else None)"
  by auto
termination
  by (relation "measure (\<lambda>(c, buf, p). length buf - p)") (auto dest!: scan_bounds)

declare quote_loop.simps [simp del]

text \<open>A store into element \<open>n\<close> of the array, of which the first \<open>n\<close> are in use.\<close>

definition set_token :: "nat \<Rightarrow> nat \<Rightarrow> nat list \<Rightarrow> nat list" where
  "set_token n p tokens = take n tokens @ [p]"

text \<open>
  The loop over the characters of a token. It ends at \<^verbatim>\<open>got_token\<close>, with the buffer, the position,
  the number of tokens, the array and \<^verbatim>\<open>no_delm\<close>, or leaves with a result.
\<close>

datatype token_end =
    Got_token string nat nat "nat list" nat
  | Token_result gallus_result_t "nat list" string

function quote_token ::
  "string \<Rightarrow> string \<Rightarrow> nat \<Rightarrow> string \<Rightarrow> nat \<Rightarrow> nat \<Rightarrow> nat list \<Rightarrow> nat \<Rightarrow> token_end option" where
  "quote_token delm quote n_max buf p n tokens no_delm =
    (if p < length buf then
       if buf ! p \<noteq> NUL \<and> \<not> strchr_hit delm (buf ! p) then
         (if strchr_hit quote (buf ! p) then
            (let cur_quote = buf ! p;
                 buf = buf[p := NUL]
             in if p + 1 < length buf then
                  if buf ! (p + 1) \<noteq> NUL then
                    (if no_delm > 0 \<and> \<not> n < n_max then Some (Token_result (int n) tokens buf)
                     else
                       (let n = (if no_delm > 0 then n + 1 else n);
                            tokens = set_token n (p + 1) tokens
                        in case quote_loop cur_quote buf (p + 1) of
                             None \<Rightarrow> None
                           | Some (Quote_closed q) \<Rightarrow> Some (Got_token buf q n tokens 1)
                           | Some Quote_not_closed \<Rightarrow>
                               Some (Token_result GALLUS_RESULT_QUOTE_NOT_CLOSED tokens buf)
                           | Some (Quote_at_end q) \<Rightarrow> Some (Got_token buf q n tokens no_delm)))
                  else Some (Token_result GALLUS_RESULT_QUOTE_NOT_CLOSED tokens buf)
                else None)
          else quote_token delm quote n_max buf (p + 1) n tokens (no_delm + 1))
       else Some (Got_token buf p n tokens no_delm)
     else None)"
  by auto
termination
  by (relation "measure (\<lambda>(delm, quote, n_max, buf, p, n, tokens, no_delm). length buf - p)") auto

declare quote_token.simps [simp del]

text \<open>Both loops only go forward, inside of the buffer.\<close>

lemma quote_loop_bounds:
  "quote_loop c buf p = Some e \<Longrightarrow> e = Quote_closed q \<or> e = Quote_at_end q \<Longrightarrow> p \<le> q \<and> q < length buf"
proof (induction c buf p rule: quote_loop.induct)
  case (1 c buf p)
  from 1(2) [unfolded quote_loop.simps [of c buf p]] show ?case
  proof (cases "p < length buf \<and> buf ! p \<noteq> NUL")
    case True
    then obtain i where i: "scan (\<lambda>x. x \<noteq> c \<and> x \<noteq> NUL) buf p = Some i"
      using 1(2) by (subst (asm) quote_loop.simps) (auto split: option.splits)
    have "buf ! i \<noteq> NUL \<and> (buf ! (i - 1) = CHR 0x5C \<and> quote_loop c buf (i + 1) = Some e \<or> e = Quote_closed i)"
      using 1(2,3) True i by (subst (asm) quote_loop.simps) (auto split: if_splits)
    with 1(1) [of i] 1(3) True scan_bounds [OF i] i show ?thesis by auto
  qed (use 1(3) in \<open>auto split: if_splits\<close>)
qed

lemma quote_token_bounds:
  "quote_token delm quote n_max buf p n tokens no_delm = Some (Got_token buf' q n' tokens' no_delm') \<Longrightarrow>
    p \<le> q \<and> q < length buf' \<and> length buf' = length buf"
proof (induction delm quote n_max buf p n tokens no_delm rule: quote_token.induct)
  case (1 delm quote n_max buf p n tokens no_delm)
  show ?case
  proof (cases "p < length buf \<and> buf ! p \<noteq> NUL \<and> \<not> strchr_hit delm (buf ! p) \<and> \<not> strchr_hit quote (buf ! p)")
    case True
    then have "quote_token delm quote n_max buf (p + 1) n tokens (no_delm + 1) =
        Some (Got_token buf' q n' tokens' no_delm')"
      using 1(2) by (subst (asm) quote_token.simps) simp
    with 1(1) True show ?thesis by auto
  next
    case False
    with 1(2) show ?thesis
      by (subst (asm) quote_token.simps)
        (auto simp: Let_def dest!: quote_loop_bounds split: if_splits option.splits quote_end.splits)
  qed
qed

function quote_outer ::
  "string \<Rightarrow> string \<Rightarrow> nat \<Rightarrow> string \<Rightarrow> nat \<Rightarrow> nat \<Rightarrow> nat list \<Rightarrow>
   (gallus_result_t \<times> nat list \<times> string) option" where
  "quote_outer delm quote n_max buf p n tokens =
    (if p < length buf then
       if buf ! p \<noteq> NUL \<and> n < n_max then
         (case scan (skips_delim delm) buf p of
            None \<Rightarrow> None
          | Some p' \<Rightarrow>
              if buf ! p' = NUL then Some (int n, tokens, buf)
              else
                (case quote_token delm quote n_max buf p' n (set_token n p' tokens) 0 of
                   None \<Rightarrow> None
                 | Some (Token_result r tokens buf) \<Rightarrow> Some (r, tokens, buf)
                 | Some (Got_token buf q n tokens no_delm) \<Rightarrow>
                     if buf ! q = NUL then Some (int (if no_delm > 0 then n + 1 else n), tokens, buf)
                     else if q + 1 < length buf then
                       (if buf ! (q + 1) = NUL then Some (int (n + 1), tokens, buf[q := NUL])
                        else quote_outer delm quote n_max (buf[q := NUL]) (q + 1) (n + 1) tokens)
                     else None))
       else Some (int n, tokens, buf)
     else None)"
  by auto
termination
  by (relation "measure (\<lambda>(delm, quote, n_max, buf, p, n, tokens). length buf - p)")
    (auto dest!: scan_bounds quote_token_bounds)

declare quote_outer.simps [simp del]

definition gallus_str_tokenize_quote ::
  "string option \<Rightarrow> nat \<Rightarrow> string option \<Rightarrow> string option \<Rightarrow>
   (gallus_result_t \<times> nat list \<times> string) option" where
  "gallus_str_tokenize_quote buf n_max delm quote =
    (case buf of
       None \<Rightarrow> Some (GALLUS_RESULT_INVALID_ARGS, [], [])
     | Some buf \<Rightarrow>
         if cstr buf 0 \<noteq> [] \<and> is_valid_string delm \<and> is_valid_string quote
         then quote_outer (the delm) (the quote) n_max buf 0 0 []
         else Some (GALLUS_RESULT_INVALID_ARGS, [], buf))"


end
