(* ===== verification/Str_Token_Laws.thy ===== *)
theory Str_Token_Laws
  imports Str_Token
begin

text \<open>
  What the tokenizers of \<open>Str_Token\<close> do: the first cuts a string into its words, which are defined
  on their own; the second ends on every string without leaving it, and does what the first does when
  nothing is quoted.
\<close>

subsection \<open>Words of a string\<close>

text \<open>The reference: the maximal runs of characters that are not delimiters.\<close>

definition next_word :: "string \<Rightarrow> string \<Rightarrow> string" where
  "next_word delm s = dropWhile (\<lambda>c. c \<in> set delm) s"

definition word_of :: "string \<Rightarrow> string \<Rightarrow> string" where
  "word_of delm t = takeWhile (\<lambda>c. c \<notin> set delm) t"

definition word_rest :: "string \<Rightarrow> string \<Rightarrow> string" where
  "word_rest delm t = dropWhile (\<lambda>c. c \<notin> set delm) t"

lemma word_rest_shorter: "next_word delm s \<noteq> [] \<Longrightarrow> length (word_rest delm (next_word delm s)) < length s"
proof -
  assume "next_word delm s \<noteq> []"
  then obtain c t where t: "next_word delm s = c # t" by (cases "next_word delm s") auto
  then have "c \<notin> set delm" by (metis hd_dropWhile list.discI list.sel(1) next_word_def)
  then have "length (word_rest delm (c # t)) \<le> length t" by (simp add: word_rest_def length_dropWhile_le)
  moreover have "length (c # t) \<le> length s" using t length_dropWhile_le [of _ s] by (metis next_word_def)
  ultimately show ?thesis using t by simp
qed

function words :: "string \<Rightarrow> string \<Rightarrow> string list" where
  "words delm s =
    (if next_word delm s = [] then []
     else word_of delm (next_word delm s) # words delm (word_rest delm (next_word delm s)))"
  by auto
termination by (relation "measure (\<lambda>(delm, s). length s)") (auto dest: word_rest_shorter)

declare words.simps [simp del]

text \<open>The words up to a limit, and then the whole rest as one token.\<close>

function words_from :: "string \<Rightarrow> nat \<Rightarrow> nat \<Rightarrow> nat \<Rightarrow> string \<Rightarrow> string list" where
  "words_from delm n_max limit n s =
    (if n < n_max \<and> next_word delm s \<noteq> [] then
       (if limit \<noteq> 0 \<and> limit \<le> n then [next_word delm s]
        else word_of delm (next_word delm s) #
          words_from delm n_max limit (n + 1) (word_rest delm (next_word delm s)))
     else [])"
  by auto
termination by (relation "measure (\<lambda>(delm, n_max, limit, n, s). length s)") (auto dest: word_rest_shorter)

declare words_from.simps [simp del]

lemma words_from_all: "words_from delm n_max 0 n s = take (n_max - n) (words delm s)"
proof (induction delm n_max "0::nat" n s rule: words_from.induct)
  case (1 delm n_max n s)
  show ?case
  proof (cases "n < n_max \<and> next_word delm s \<noteq> []")
    case True
    then have "n_max - n = Suc (n_max - (n + 1))" by arith
    with True 1 show ?thesis by (subst words_from.simps, subst words.simps) simp
  next
    case False
    then show ?thesis by (subst words_from.simps, subst words.simps) auto
  qed
qed

subsection \<open>Cutting in place\<close>

lemma scan_append:
  "list_all P a \<Longrightarrow> r \<noteq> [] \<Longrightarrow> \<not> P (hd r) \<Longrightarrow> scan P (d @ a @ r) (length d) = Some (length d + length a)"
proof (induction a arbitrary: d)
  case Nil
  then show ?case by (subst scan.simps) (simp add: nth_append hd_conv_nth)
next
  case (Cons c a)
  from Cons.IH [of "d @ [c]"] Cons.prems show ?case by (subst scan.simps) (simp add: nth_append)
qed

lemma cstr_append: "NUL \<notin> set w \<Longrightarrow> cstr (d @ w @ NUL # r) (length d) = w"
  by (simp add: cstr_def) (subst takeWhile_append2; auto)

text \<open>A string that ends before a position is not changed by what happens from there on.\<close>

lemma cstr_stable: "NUL \<in> set (drop t d) \<Longrightarrow> cstr (d @ r) t = cstr (d @ r') t"
  by (cases "t \<le> length d") (auto simp: cstr_def takeWhile_append1)


lemma hd_next_word: "next_word delm s \<noteq> [] \<Longrightarrow> hd (next_word delm s) \<notin> set delm"
  unfolding next_word_def by (rule hd_dropWhile)

lemma hd_word_rest: "word_rest delm t \<noteq> [] \<Longrightarrow> hd (word_rest delm t) \<in> set delm"
  unfolding word_rest_def using hd_dropWhile by blast

text \<open>The pieces of a string: delimiters, a word, and what is behind it.\<close>

lemma next_word_split:
  assumes "NUL \<notin> set s"
  obtains a where "s = a @ next_word delm s"
    "scan (skips_delim delm) (d @ s @ NUL # r) (length d) = Some (length (d @ a))"
proof -
  define a where "a = takeWhile (\<lambda>c. c \<in> set delm) s"
  have s: "s = a @ next_word delm s" by (simp add: a_def next_word_def)
  have "list_all (skips_delim delm) a"
    using assms unfolding a_def list_all_iff
    by (auto simp: skips_delim_def strchr_hit_def dest: set_takeWhileD)
  moreover have "\<not> skips_delim delm (hd (next_word delm s @ NUL # r))"
    using hd_next_word [of delm s]
    by (cases "next_word delm s") (auto simp: skips_delim_def strchr_hit_def)
  ultimately have "scan (skips_delim delm) (d @ a @ next_word delm s @ NUL # r) (length d) = Some (length (d @ a))"
    using scan_append [of "skips_delim delm" a "next_word delm s @ NUL # r" d] by simp
  then have "scan (skips_delim delm) (d @ s @ NUL # r) (length d) = Some (length (d @ a))"
    by (subst s) simp
  with s show ?thesis by (rule that)
qed

lemma word_split:
  assumes "NUL \<notin> set t" "t = next_word delm s" "t \<noteq> []"
  obtains w where "t = w @ word_rest delm t" "w = word_of delm t" "w \<noteq> []" "NUL \<notin> set w"
    "scan (skips_token delm) (d @ t @ NUL # r) (length d) = Some (length (d @ w))"
proof -
  let ?w = "word_of delm t" and ?u = "word_rest delm t"
  have t: "t = ?w @ ?u" by (simp add: word_of_def word_rest_def)
  have h: "hd t \<notin> set delm" using assms(2,3) hd_next_word [of delm s] by simp
  note u = hd_word_rest [of delm t]
  have "list_all (skips_token delm) ?w"
    using assms(1) unfolding word_of_def list_all_iff
    by (auto simp: skips_token_def strchr_hit_def dest: set_takeWhileD)
  moreover have "\<not> skips_token delm (hd (?u @ NUL # r))"
    using u by (cases ?u) (auto simp: skips_token_def strchr_hit_def)
  ultimately have "scan (skips_token delm) (d @ ?w @ ?u @ NUL # r) (length d) = Some (length (d @ ?w))"
    using scan_append [of "skips_token delm" ?w "?u @ NUL # r" d] by simp
  then have "scan (skips_token delm) (d @ t @ NUL # r) (length d) = Some (length (d @ ?w))"
    using t by (metis append.assoc)
  moreover have "?w \<noteq> []" using h assms(3) by (cases t) (auto simp: word_of_def)
  moreover have "NUL \<notin> set ?w" using assms(1) by (auto simp: word_of_def dest: set_takeWhileD)
  ultimately show ?thesis using t by (intro that [of ?w]) auto
qed

lemma words_from_Nil [simp]: "words_from delm n_max limit n [] = []"
  by (subst words_from.simps) (simp add: next_word_def)

lemma words_from_delim: "c \<in> set delm \<Longrightarrow> words_from delm n_max limit n (c # s) = words_from delm n_max limit n s"
  by (subst (1 2) words_from.simps) (simp add: next_word_def)

text \<open>One round of the loop, in each of its outcomes.\<close>

lemma loop_stops:
  assumes "NUL \<notin> set s" "\<not> (length ts < n_max \<and> next_word delm s \<noteq> [])"
  shows "tokenize_loop delm n_max limit (d @ s @ NUL # r) (length d) ts = Some (ts, d @ s @ NUL # r)"
proof -
  obtain a where a: "s = a @ next_word delm s"
      "scan (skips_delim delm) (d @ s @ NUL # r) (length d) = Some (length (d @ a))"
    by (rule next_word_split [OF assms(1)])
  have "(d @ s @ NUL # r) ! length (d @ a) = NUL" if "next_word delm s = []"
    using a(1) that by (simp add: nth_append)
  with a(2) assms(2) show ?thesis by (subst tokenize_loop.simps) auto
qed

lemma loop_round:
  assumes "NUL \<notin> set s" "length ts < n_max" "t = next_word delm s" "t \<noteq> []"
  obtains a where "s = a @ t"
    "tokenize_loop delm n_max limit (d @ s @ NUL # r) (length d) ts =
      (if limit \<noteq> 0 \<and> limit \<le> length ts then Some (ts @ [length (d @ a)], d @ s @ NUL # r)
       else case word_rest delm t of
         [] \<Rightarrow> Some (ts @ [length (d @ a)], d @ s @ NUL # r)
       | _ # u \<Rightarrow>
           (let d' = d @ a @ word_of delm t @ [NUL] in
            if u = [] then Some (ts @ [length (d @ a)], d' @ u @ NUL # r)
            else tokenize_loop delm n_max limit (d' @ u @ NUL # r) (length d') (ts @ [length (d @ a)])))"
proof -
  let ?b = "d @ s @ NUL # r"
  obtain a where a: "s = a @ next_word delm s" "scan (skips_delim delm) ?b (length d) = Some (length (d @ a))"
    by (rule next_word_split [OF assms(1)])
  have s: "s = a @ t" using a(1) assms(3) by simp
  have nt: "NUL \<notin> set t" using assms(1) s by simp
  obtain w where w: "t = w @ word_rest delm t" "w = word_of delm t" "w \<noteq> []" "NUL \<notin> set w"
      "scan (skips_token delm) ((d @ a) @ t @ NUL # r) (length (d @ a)) = Some (length ((d @ a) @ w))"
    by (rule word_split [OF nt assms(3,4), of "d @ a" r])
  let ?p = "length (d @ a)" and ?q = "length ((d @ a) @ w)" and ?u = "word_rest delm t"
  have b: "?b = (d @ a) @ t @ NUL # r" "?b = ((d @ a) @ w) @ ?u @ NUL # r" using s w(1) by simp_all
  have atp: "?b ! (?p + i) = (t @ NUL # r) ! i" for i by (subst b(1)) (rule nth_append_length_plus)
  have atq: "?b ! (?q + i) = (?u @ NUL # r) ! i" for i by (subst b(2)) (rule nth_append_length_plus)
  have at: "?b ! ?p = hd t" "?b ! ?q = hd (?u @ NUL # r)" "?b ! (?q + 1) = (?u @ NUL # r) ! 1"
    using atp [of 0] atq [of 0] atq [of 1] assms(4) by (simp_all add: nth_append hd_conv_nth)
  have z: "?b ! length d = hd s" "s \<noteq> []" "hd s \<noteq> NUL" "hd t \<noteq> NUL"
    using assms(1,4) nt s by (auto simp: nth_append hd_conv_nth) (metis hd_in_set hd_conv_nth append_is_Nil_conv)+
  have len: "?p < ?q" "?q < length ?b" using w(3) by (simp_all add: b(2) del: append_assoc)
  have eq: "tokenize_loop delm n_max limit ?b (length d) ts =
      (if limit \<noteq> 0 \<and> limit \<le> length ts then Some (ts @ [?p], ?b)
       else if ?b ! ?q = NUL then Some (ts @ [?p], ?b)
       else if ?q + 1 < length ?b then
         (if ?b ! (?q + 1) = NUL then Some (ts @ [?p], ?b[?q := NUL])
          else tokenize_loop delm n_max limit (?b[?q := NUL]) (?q + 1) (ts @ [?p]))
       else None)"
    using a(2) w(5) z at(1) len assms(2) unfolding b(1) [symmetric]
    by (subst tokenize_loop.simps) auto
  show ?thesis
  proof (rule that [OF s])
    show "tokenize_loop delm n_max limit ?b (length d) ts =
      (if limit \<noteq> 0 \<and> limit \<le> length ts then Some (ts @ [length (d @ a)], d @ s @ NUL # r)
       else case word_rest delm t of
         [] \<Rightarrow> Some (ts @ [length (d @ a)], d @ s @ NUL # r)
       | _ # u \<Rightarrow>
           (let d' = d @ a @ word_of delm t @ [NUL] in
            if u = [] then Some (ts @ [length (d @ a)], d' @ u @ NUL # r)
            else tokenize_loop delm n_max limit (d' @ u @ NUL # r) (length d') (ts @ [length (d @ a)])))"
    proof (cases ?u)
      case Nil
      with eq at(2) show ?thesis by simp
    next
      case (Cons c u)
      have "?b[?q := NUL] = (d @ a @ word_of delm t @ [NUL]) @ u @ NUL # r"
        unfolding b(2) Cons w(2) by (simp add: list_update_append)
      moreover have "c \<noteq> NUL" "NUL \<notin> set u" using nt w(1) Cons by (metis in_set_conv_decomp append_assoc append_Cons)+
      moreover have "?q + 1 < length ?b" unfolding b(2) Cons by simp
      moreover have "?q + 1 = length (d @ a @ word_of delm t @ [NUL])" using w(2) by simp
      moreover have "?b ! (?q + 1) = NUL \<longleftrightarrow> u = []"
        using at(3) Cons \<open>NUL \<notin> set u\<close> by (cases u) auto
      ultimately show ?thesis unfolding eq using at(2) Cons by (simp add: Let_def)
    qed
  qed
qed


text \<open>The whole loop, from a position where the tokens so far are cut off already.\<close>

lemma tokenize_loop_words:
  assumes "NUL \<notin> set s" "\<forall>t\<in>set ts. NUL \<in> set (drop t d)"
  shows "\<exists>ts' buf'. tokenize_loop delm n_max limit (d @ s @ NUL # r) (length d) ts = Some (ts @ ts', buf') \<and>
    (\<forall>x. map (cstr buf') (ts @ ts') = map (cstr (d @ x)) ts @ words_from delm n_max limit (length ts) s)"
  using assms
proof (induction "length s" arbitrary: d s ts rule: less_induct)
  case less
  have old: "map (cstr (d @ x)) ts = map (cstr (d @ y)) ts" for x y
    using less(3) by (auto intro: cstr_stable)
  define t where "t = next_word delm s"
  show ?case
  proof (cases "length ts < n_max \<and> t \<noteq> []")
    case False
    then have "words_from delm n_max limit (length ts) s = []"
      by (subst words_from.simps) (auto simp: t_def)
    moreover have "tokenize_loop delm n_max limit (d @ s @ NUL # r) (length d) ts = Some (ts, d @ s @ NUL # r)"
      by (rule loop_stops [OF less(2)]) (use False in \<open>simp add: t_def\<close>)
    ultimately show ?thesis using old by (intro exI [of _ "[]"] exI [of _ "d @ s @ NUL # r"]) simp
  next
    case True
    obtain a where a: "s = a @ t"
        "tokenize_loop delm n_max limit (d @ s @ NUL # r) (length d) ts =
          (if limit \<noteq> 0 \<and> limit \<le> length ts then Some (ts @ [length (d @ a)], d @ s @ NUL # r)
           else case word_rest delm t of
             [] \<Rightarrow> Some (ts @ [length (d @ a)], d @ s @ NUL # r)
           | _ # u \<Rightarrow>
               (let d' = d @ a @ word_of delm t @ [NUL] in
                if u = [] then Some (ts @ [length (d @ a)], d' @ u @ NUL # r)
                else tokenize_loop delm n_max limit (d' @ u @ NUL # r) (length d') (ts @ [length (d @ a)])))"
      using loop_round [OF less(2) _ t_def] True by blast
    have nt: "NUL \<notin> set t" using less(2) a(1) by simp
    let ?p = "length (d @ a)" and ?w = "word_of delm t"
    have wf: "words_from delm n_max limit (length ts) s =
        (if limit \<noteq> 0 \<and> limit \<le> length ts then [t]
         else ?w # words_from delm n_max limit (length ts + 1) (word_rest delm t))"
      using True by (subst words_from.simps) (simp add: t_def)
    have whole: "cstr (d @ s @ NUL # r) ?p = t"
      using cstr_append [OF nt, of "d @ a" r] a(1) by simp
    have t: "t = ?w @ word_rest delm t" by (simp add: word_of_def word_rest_def)
    have nw: "NUL \<notin> set ?w" using nt t by (metis Un_iff set_append)
    show ?thesis
    proof (cases "limit \<noteq> 0 \<and> limit \<le> length ts \<or> word_rest delm t = []")
      case lim: True
      with t have "words_from delm n_max limit (length ts) s = [t]" using wf by auto
      moreover have "tokenize_loop delm n_max limit (d @ s @ NUL # r) (length d) ts =
          Some (ts @ [?p], d @ s @ NUL # r)"
        using lim a(2) by auto
      ultimately show ?thesis
        using whole old by (intro exI [of _ "[?p]"] exI [of _ "d @ s @ NUL # r"]) simp
    next
      case False
      then obtain c u where u: "word_rest delm t = c # u" by (cases "word_rest delm t") auto
      let ?d = "d @ a @ ?w @ [NUL]"
      have c: "c \<in> set delm" using hd_word_rest [of delm t] u by simp
      have step: "tokenize_loop delm n_max limit (d @ s @ NUL # r) (length d) ts =
          (if u = [] then Some (ts @ [?p], ?d @ u @ NUL # r)
           else tokenize_loop delm n_max limit (?d @ u @ NUL # r) (length ?d) (ts @ [?p]))"
        using a(2) False u by (auto simp: Let_def)
      have tok: "cstr (?d @ x) ?p = ?w" for x
        using cstr_append [OF nw, of "d @ a" x] by simp
      have nxt: "words_from delm n_max limit (length ts) s = ?w # words_from delm n_max limit (length ts + 1) u"
        using wf False u c by (auto simp: words_from_delim)
      show ?thesis
      proof (cases "u = []")
        case True
        have m: "map (cstr (?d @ NUL # r)) (ts @ [?p]) =
            map (cstr (d @ x)) ts @ words_from delm n_max limit (length ts) s" for x
        proof -
          have "map (cstr (?d @ NUL # r)) ts = map (cstr (d @ x)) ts"
            using old [of "a @ ?w @ [NUL] @ NUL # r" x] by (simp only: append_assoc)
          moreover have "words_from delm n_max limit (length ts) s = [?w]"
            using nxt True by (simp only: words_from_Nil)
          ultimately show ?thesis by (simp only: map_append list.map tok)
        qed
        have "tokenize_loop delm n_max limit (d @ s @ NUL # r) (length d) ts = Some (ts @ [?p], ?d @ NUL # r)"
          using step True by simp
        with m show ?thesis by blast
      next
        case False
        have shorter: "length u < length s"
          using a(1) arg_cong [OF t, of length] u by simp
        have nu: "NUL \<notin> set u" using nt t u by (metis Un_iff list.set_intros(2) set_append)
        have cut: "\<forall>x\<in>set (ts @ [?p]). NUL \<in> set (drop x ?d)" using less(3) by auto
        obtain ts' buf' where ih: "tokenize_loop delm n_max limit (?d @ u @ NUL # r) (length ?d) (ts @ [?p]) =
              Some ((ts @ [?p]) @ ts', buf')"
            "map (cstr buf') ((ts @ [?p]) @ ts') =
              map (cstr (?d @ [])) (ts @ [?p]) @ words_from delm n_max limit (length (ts @ [?p])) u"
          using less(1) [OF shorter nu cut] by blast
        have m: "map (cstr buf') (ts @ ?p # ts') =
            map (cstr (d @ x)) ts @ words_from delm n_max limit (length ts) s" for x
        proof -
          have "map (cstr (?d @ [])) ts = map (cstr (d @ x)) ts"
            using old [of "a @ ?w @ [NUL]" x] by (simp only: append_assoc append_Nil2)
          moreover have "cstr (?d @ []) ?p = ?w" by (rule tok)
          ultimately show ?thesis using ih(2) nxt by (simp del: append_Nil2)
        qed
        have "tokenize_loop delm n_max limit (d @ s @ NUL # r) (length d) ts = Some (ts @ ?p # ts', buf')"
          using step ih(1) False by simp
        with m show ?thesis by blast
      qed
    qed
  qed
qed


subsection \<open>The loops end before the terminator\<close>

text \<open>The terminator stays where it is, and what is behind it does not change.\<close>

definition ends_at :: "nat \<Rightarrow> string \<Rightarrow> string \<Rightarrow> bool" where
  "ends_at e rest buf \<longleftrightarrow> e < length buf \<and> buf ! e = NUL \<and> drop (Suc e) buf = rest"

lemma ends_at_write: "ends_at e rest buf \<Longrightarrow> p \<le> e \<Longrightarrow> ends_at e rest (buf[p := NUL])"
  by (auto simp: ends_at_def nth_list_update)

lemma ends_at_less: "ends_at e rest buf \<Longrightarrow> p \<le> e \<Longrightarrow> buf ! p \<noteq> NUL \<Longrightarrow> p < e"
  by (cases "p = e") (auto simp: ends_at_def)

lemma scan_ends:
  assumes "ends_at e rest buf" "\<not> P NUL" "p \<le> e"
  obtains q where "scan P buf p = Some q" "p \<le> q" "q \<le> e" "\<not> P (buf ! q)"
proof -
  have "\<exists>q. scan P buf p = Some q \<and> p \<le> q \<and> q \<le> e \<and> \<not> P (buf ! q)"
    using assms
  proof (induction P buf p rule: scan.induct)
    case (1 P buf p)
    then have l: "p < length buf" by (simp add: ends_at_def)
    show ?case
    proof (cases "P (buf ! p)")
      case True
      with 1 have "p < e" by (cases "p = e") (auto simp: ends_at_def)
      with 1 True l show ?thesis by (subst scan.simps) auto
    qed (use l 1(4) in \<open>subst scan.simps, auto\<close>)
  qed
  then show ?thesis using that by blast
qed

lemma quote_loop_ends:
  assumes "ends_at e rest buf" "p \<le> e" "c \<noteq> NUL"
  obtains (closed) q where "quote_loop c buf p = Some (Quote_closed q)" "p \<le> q" "q \<le> e"
  | (not_closed) "quote_loop c buf p = Some Quote_not_closed"
  | (at_end) q where "quote_loop c buf p = Some (Quote_at_end q)" "p \<le> q" "q \<le> e" "buf ! q = NUL"
proof -
  have "\<exists>r. quote_loop c buf p = Some r \<and> (case r of Quote_closed q \<Rightarrow> p \<le> q \<and> q \<le> e
      | Quote_not_closed \<Rightarrow> True | Quote_at_end q \<Rightarrow> p \<le> q \<and> q \<le> e \<and> buf ! q = NUL)"
    using assms
  proof (induction c buf p rule: quote_loop.induct)
    case (1 c buf p)
    have l: "p < length buf" using 1(2,3) by (simp add: ends_at_def)
    obtain q where q: "scan (\<lambda>x. x \<noteq> c \<and> x \<noteq> NUL) buf p = Some q" "p \<le> q" "q \<le> e"
      by (rule scan_ends [OF 1(2) _ 1(3), of "\<lambda>x. x \<noteq> c \<and> x \<noteq> NUL"]) simp
    show ?case
    proof (cases "buf ! p \<noteq> NUL \<and> buf ! q \<noteq> NUL \<and> buf ! (q - 1) = CHR 0x5C")
      case True
      then have "q < e" using ends_at_less [OF 1(2) q(3)] by simp
      then have "\<exists>r. quote_loop c buf (q + 1) = Some r \<and> (case r of Quote_closed q' \<Rightarrow> q + 1 \<le> q' \<and> q' \<le> e
          | Quote_not_closed \<Rightarrow> True | Quote_at_end q' \<Rightarrow> q + 1 \<le> q' \<and> q' \<le> e \<and> buf ! q' = NUL)"
        using 1(1) [OF l _ q(1)] True 1(2,4) by simp
      then show ?thesis using l q True by (subst quote_loop.simps) (auto split: quote_end.splits)
    next
      case False
      then show ?thesis using l q 1(3) by (subst quote_loop.simps) auto
    qed
  qed
  then obtain r where r: "quote_loop c buf p = Some r" "case r of Quote_closed q \<Rightarrow> p \<le> q \<and> q \<le> e
      | Quote_not_closed \<Rightarrow> True | Quote_at_end q \<Rightarrow> p \<le> q \<and> q \<le> e \<and> buf ! q = NUL" by blast
  then show ?thesis by (cases r) (auto intro: closed not_closed at_end)
qed

text \<open>The tokens in use and the one behind them are positions in the string.\<close>

definition tokens_ok :: "nat \<Rightarrow> nat \<Rightarrow> nat list \<Rightarrow> bool" where
  "tokens_ok e n tokens \<longleftrightarrow> n \<le> length tokens \<and> (\<forall>t\<in>set tokens. t \<le> e)"

lemma tokens_ok_set:
  "tokens_ok e n tokens \<Longrightarrow> p \<le> e \<Longrightarrow> tokens_ok e (n + 1) (set_token n p tokens) \<and> length (set_token n p tokens) = n + 1"
  by (auto simp: tokens_ok_def set_token_def dest: in_set_takeD)

lemma quote_token_ends:
  assumes "ends_at e rest buf" "p \<le> e" "n < n_max" "tokens_ok e (n + 1) tokens" "length tokens = n + 1"
  shows "\<exists>r. quote_token delm quote n_max buf p n tokens no_delm = Some r \<and>
    (case r of
       Got_token buf' q n' tokens' no_delm' \<Rightarrow>
         ends_at e rest buf' \<and> p \<le> q \<and> q \<le> e \<and> n \<le> n' \<and> n' \<le> n + 1 \<and> tokens_ok e (n' + 1) tokens' \<and>
         length tokens' = n' + 1
     | Token_result r tokens' buf' \<Rightarrow>
         r = GALLUS_RESULT_QUOTE_NOT_CLOSED \<and> ends_at e rest buf' \<and> tokens_ok e 0 tokens' \<and>
         length tokens' \<le> n_max + 1)"
  using assms
proof (induction delm quote n_max buf p n tokens no_delm rule: quote_token.induct)
  case (1 delm quote n_max buf p n tokens no_delm)
  have l: "p < length buf" using 1(2,3) by (simp add: ends_at_def)
  consider (stop) "buf ! p = NUL \<or> strchr_hit delm (buf ! p)"
    | (plain) "buf ! p \<noteq> NUL" "\<not> strchr_hit delm (buf ! p)" "\<not> strchr_hit quote (buf ! p)"
    | (quote) "buf ! p \<noteq> NUL" "\<not> strchr_hit delm (buf ! p)" "strchr_hit quote (buf ! p)" by blast
  then show ?case
  proof cases
    case stop
    with l 1(2-6) show ?thesis by (subst quote_token.simps) auto
  next
    case plain
    have "p < e" using ends_at_less [OF 1(2,3)] plain by simp
    moreover have "quote_token delm quote n_max buf p n tokens no_delm =
        quote_token delm quote n_max buf (p + 1) n tokens (no_delm + 1)"
      using plain l by (subst quote_token.simps) simp
    ultimately obtain r where r: "quote_token delm quote n_max buf p n tokens no_delm = Some r"
        "case r of
           Got_token buf' q n' tokens' no_delm' \<Rightarrow>
             ends_at e rest buf' \<and> p + 1 \<le> q \<and> q \<le> e \<and> n \<le> n' \<and> n' \<le> n + 1 \<and> tokens_ok e (n' + 1) tokens' \<and>
             length tokens' = n' + 1
         | Token_result r tokens' buf' \<Rightarrow>
             r = GALLUS_RESULT_QUOTE_NOT_CLOSED \<and> ends_at e rest buf' \<and> tokens_ok e 0 tokens' \<and>
             length tokens' \<le> n_max + 1"
      using 1(1) [OF l _ plain(3)] plain(1,2) 1(2,4-6) by auto
    then show ?thesis by (cases r) auto
  next
    case quote
    have pe: "p + 1 \<le> e" using ends_at_less [OF 1(2,3)] quote by simp
    let ?b = "buf[p := NUL]" and ?n = "if no_delm > 0 then n + 1 else n"
    have b: "ends_at e rest ?b" by (rule ends_at_write [OF 1(2,3)])
    have l1: "p + 1 < length buf" using pe 1(2) by (simp add: ends_at_def)
    have t: "tokens_ok e ?n tokens" "tokens_ok e 0 tokens" using 1(5) by (auto simp: tokens_ok_def)
    note st = tokens_ok_set [OF t(1) pe]
    have st0: "tokens_ok e 0 (set_token ?n (p + 1) tokens)" using st by (auto simp: tokens_ok_def)
    have eq: "quote_token delm quote n_max buf p n tokens no_delm =
        (if ?b ! (p + 1) \<noteq> NUL then
           (case quote_loop (buf ! p) ?b (p + 1) of
              None \<Rightarrow> None
            | Some (Quote_closed q) \<Rightarrow> Some (Got_token ?b q ?n (set_token ?n (p + 1) tokens) 1)
            | Some Quote_not_closed \<Rightarrow>
                Some (Token_result GALLUS_RESULT_QUOTE_NOT_CLOSED (set_token ?n (p + 1) tokens) ?b)
            | Some (Quote_at_end q) \<Rightarrow> Some (Got_token ?b q ?n (set_token ?n (p + 1) tokens) no_delm))
         else Some (Token_result GALLUS_RESULT_QUOTE_NOT_CLOSED tokens ?b))"
      using quote l l1 1(4)
      by (subst quote_token.simps) (simp add: Let_def split: option.split quote_end.split)
    show ?thesis
    proof (cases "?b ! (p + 1) = NUL")
      case True
      with eq b t(2) 1(4,6) show ?thesis by simp
    next
      case False
      show ?thesis
        by (rule quote_loop_ends [OF b pe quote(1)])
          (use eq False b st st0 1(4) in \<open>auto split: if_splits\<close>)
    qed
  qed
qed


lemma quote_outer_ends:
  assumes "ends_at e rest buf" "p \<le> e" "n \<le> n_max + 1" "tokens_ok e n tokens" "length tokens \<le> n_max + 1"
  shows "\<exists>r tokens' buf'. quote_outer delm quote n_max buf p n tokens = Some (r, tokens', buf') \<and>
    (r = GALLUS_RESULT_QUOTE_NOT_CLOSED \<or> 0 \<le> r \<and> r \<le> int (length tokens')) \<and>
    ends_at e rest buf' \<and> tokens_ok e 0 tokens' \<and> length tokens' \<le> n_max + 1"
  using assms
proof (induction delm quote n_max buf p n tokens rule: quote_outer.induct)
  case (1 delm quote n_max buf p n tokens)
  have l: "p < length buf" using 1(2,3) by (simp add: ends_at_def)
  have t0: "tokens_ok e 0 tokens" "n \<le> length tokens" using 1(5) by (auto simp: tokens_ok_def)
  obtain p' where p': "scan (skips_delim delm) buf p = Some p'" "p \<le> p'" "p' \<le> e"
    by (rule scan_ends [OF 1(2) _ 1(3), of "skips_delim delm"]) (simp_all add: skips_delim_def)
  show ?case
  proof (cases "buf ! p \<noteq> NUL \<and> n < n_max \<and> buf ! p' \<noteq> NUL")
    case False
    with l p' t0 1(2,6) show ?thesis by (subst quote_outer.simps) auto
  next
    case True
    note st = tokens_ok_set [OF 1(5) p'(3)]
    obtain r where r: "quote_token delm quote n_max buf p' n (set_token n p' tokens) 0 = Some r"
        "case r of
           Got_token buf' q n' tokens' no_delm' \<Rightarrow>
             ends_at e rest buf' \<and> p' \<le> q \<and> q \<le> e \<and> n \<le> n' \<and> n' \<le> n + 1 \<and> tokens_ok e (n' + 1) tokens' \<and>
             length tokens' = n' + 1
         | Token_result r tokens' buf' \<Rightarrow>
             r = GALLUS_RESULT_QUOTE_NOT_CLOSED \<and> ends_at e rest buf' \<and> tokens_ok e 0 tokens' \<and>
             length tokens' \<le> n_max + 1"
      using quote_token_ends [OF 1(2) p'(3) _ conjunct1 [OF st] conjunct2 [OF st], of n_max delm quote 0] True by blast
    show ?thesis
    proof (cases r)
      case (Token_result x tokens' buf')
      with r l p' True show ?thesis by (subst quote_outer.simps) auto
    next
      case (Got_token b q n' ts nd)
      with r have g: "ends_at e rest b" "p' \<le> q" "q \<le> e" "n' \<le> n + 1" "tokens_ok e (n' + 1) ts" "length ts = n' + 1"
        by simp_all
      have ts0: "tokens_ok e 0 ts" using g(5) by (simp add: tokens_ok_def)
      let ?b = "b[q := NUL]"
      have eq: "quote_outer delm quote n_max buf p n tokens =
          (if b ! q = NUL then Some (int (if nd > 0 then n' + 1 else n'), ts, b)
           else if q + 1 < length b then
             (if b ! (q + 1) = NUL then Some (int (n' + 1), ts, ?b)
              else quote_outer delm quote n_max ?b (q + 1) (n' + 1) ts)
           else None)"
        using l p' r(1) True Got_token by (subst quote_outer.simps) simp
      show ?thesis
      proof (cases "b ! q = NUL")
        case True
        with eq g ts0 \<open>buf ! p \<noteq> NUL \<and> n < n_max \<and> buf ! p' \<noteq> NUL\<close> show ?thesis by auto
      next
        case False
        have qe: "q + 1 \<le> e" using ends_at_less [OF g(1,3)] False by simp
        have lq: "q + 1 < length b" using qe g(1) by (simp add: ends_at_def)
        have b: "ends_at e rest ?b" by (rule ends_at_write [OF g(1,3)])
        have n: "n' + 1 \<le> n_max + 1" "length ts \<le> n_max + 1" using g(4,6) True by auto
        show ?thesis
        proof (cases "b ! (q + 1) = NUL")
          case True
          with eq False lq b ts0 n g(6) show ?thesis by auto
        next
          case more: False
          have "\<exists>r tokens' buf'. quote_outer delm quote n_max ?b (q + 1) (n' + 1) ts = Some (r, tokens', buf') \<and>
              (r = GALLUS_RESULT_QUOTE_NOT_CLOSED \<or> 0 \<le> r \<and> r \<le> int (length tokens')) \<and>
              ends_at e rest buf' \<and> tokens_ok e 0 tokens' \<and> length tokens' \<le> n_max + 1"
            by (rule 1(1) [OF l _ p'(1) _ r(1) Got_token False lq more b qe n(1) _ n(2)])
              (use True g(5) in \<open>simp_all add: tokens_ok_def\<close>)
          with eq False lq more show ?thesis by simp
        qed
      qed
    qed
  qed
qed


subsection \<open>Nothing quoted\<close>

definition unquoted :: "string \<Rightarrow> string \<Rightarrow> bool" where
  "unquoted quote buf \<longleftrightarrow> (\<forall>c\<in>set buf. c = NUL \<or> c \<notin> set quote)"

lemma unquoted_write: "unquoted quote buf \<Longrightarrow> unquoted quote (buf[q := NUL])"
  unfolding unquoted_def using set_update_subset_insert [of buf q NUL] by blast

lemma quote_token_plain:
  assumes "unquoted quote buf"
  shows "quote_token delm quote n_max buf p n tokens no_delm =
    map_option (\<lambda>q. Got_token buf q n tokens (no_delm + (q - p))) (scan (skips_token delm) buf p)"
  using assms
proof (induction delm quote n_max buf p n tokens no_delm rule: quote_token.induct)
  case (1 delm quote n_max buf p n tokens no_delm)
  show ?case
  proof (cases "p < length buf \<and> buf ! p \<noteq> NUL \<and> \<not> strchr_hit delm (buf ! p)")
    case False
    then show ?thesis
      by (subst quote_token.simps, subst scan.simps) (auto simp: skips_token_def)
  next
    case True
    then have "buf ! p \<in> set buf" by simp
    with 1(2) True have nq: "\<not> strchr_hit quote (buf ! p)"
      unfolding unquoted_def strchr_hit_def by blast
    have "quote_token delm quote n_max buf (p + 1) n tokens (no_delm + 1) =
        map_option (\<lambda>q. Got_token buf q n tokens (no_delm + 1 + (q - (p + 1)))) (scan (skips_token delm) buf (p + 1))"
      by (rule 1(1) [OF _ _ nq 1(2)]) (use True in auto)
    with True nq show ?thesis
      by (subst quote_token.simps, subst scan.simps)
        (cases "scan (skips_token delm) buf (p + 1)"; auto simp: skips_token_def dest: scan_bounds)
  qed
qed

lemma quote_outer_plain:
  assumes "unquoted quote buf"
  shows "quote_outer delm quote n_max buf p (length tokens) tokens =
    map_option (\<lambda>(ts, b). (int (length ts), ts, b)) (tokenize_loop delm n_max 0 buf p tokens)"
  using assms
proof (induction delm n_max "0::nat" buf p tokens rule: tokenize_loop.induct)
  case (1 delm n_max buf p tokens)
  have st: "set_token (length tokens) x tokens = tokens @ [x]" for x by (simp add: set_token_def)
  show ?case
  proof (cases "p < length buf \<and> buf ! p \<noteq> NUL \<and> length tokens < n_max")
    case False
    then consider "\<not> p < length buf" | "p < length buf" "buf ! p = NUL" | "p < length buf" "\<not> length tokens < n_max"
      by blast
    then show ?thesis
      by cases (subst quote_outer.simps, subst tokenize_loop.simps, simp)+
  next
    case True
    show ?thesis
    proof (cases "scan (skips_delim delm) buf p")
      case None
      with True show ?thesis
        by (simp only: quote_outer.simps [of delm quote n_max buf p] tokenize_loop.simps [of delm n_max 0 buf p]
            if_True option.case option.map simp_thms)
    next
      case (Some p')
      show ?thesis
      proof (cases "buf ! p' = NUL")
        case z: True
        with True Some show ?thesis by (subst quote_outer.simps, subst tokenize_loop.simps) simp
      next
        case nz: False
        note qt = quote_token_plain [OF 1(2), of delm n_max p' "length tokens" "tokens @ [p']" 0]
        show ?thesis
        proof (cases "scan (skips_token delm) buf p'")
          case None
          with True Some nz qt show ?thesis
            by (subst quote_outer.simps, subst tokenize_loop.simps) (simp add: st)
        next
          case q: (Some q)
          have ih: "quote_outer delm quote n_max (buf[q := NUL]) (q + 1) (length (tokens @ [p'])) (tokens @ [p']) =
              map_option (\<lambda>(ts, b). (int (length ts), ts, b))
                (tokenize_loop delm n_max 0 (buf[q := NUL]) (q + 1) (tokens @ [p']))"
            if "buf ! q \<noteq> NUL" "q + 1 < length buf" "buf ! (q + 1) \<noteq> NUL"
            using 1(1) [OF _ _ Some nz _ q] True that unquoted_write [OF 1(2)] by simp
          have "p' < q \<or> p' = q" using scan_bounds [OF q] by auto
          moreover have "q \<noteq> p' \<or> buf ! q \<noteq> NUL" using nz by auto
          ultimately show ?thesis
            using True Some nz qt q ih
            by (subst quote_outer.simps, subst tokenize_loop.simps) (auto simp: st)
        qed
      qed
    qed
  qed
qed


subsection \<open>Properties\<close>

lemma cstr_0: "NUL \<notin> set s \<Longrightarrow> cstr (s @ NUL # r) 0 = s"
  using cstr_append [of s "[]" r] by simp

text \<open>
  C18. The tokenizer that cuts a string in place returns the words of the string: the tokens are, in
  order, the maximal runs of characters that are not delimiters, at most as many as the array has room
  for, and with a limit the token after the limit is all of the rest.
\<close>

theorem str_tokenize_words:
  assumes "NUL \<notin> set s" "s \<noteq> []" "delm \<noteq> []"
  shows "\<exists>tokens buf. gallus_str_tokenize_with_limit (Some (s @ NUL # rest)) n_max limit (Some delm) =
      Some (int (length tokens), tokens, buf) \<and>
    map (cstr buf) tokens = words_from delm n_max limit 0 s \<and>
    (limit = 0 \<longrightarrow> map (cstr buf) tokens = take n_max (words delm s))"
proof -
  obtain ts b where "tokenize_loop delm n_max limit (s @ NUL # rest) 0 [] = Some (ts, b)"
      "map (cstr b) ts = words_from delm n_max limit 0 s"
    using tokenize_loop_words [OF assms(1), of "[]" "[]" delm n_max limit rest] by auto
  then show ?thesis
    using assms words_from_all [of delm n_max 0 s]
    by (auto simp: gallus_str_tokenize_with_limit_def cstr_0)
qed

theorem str_tokenize_words_witness:
  "\<exists>tokens buf. gallus_str_tokenize_with_limit (Some (''  a bc ,d'' @ NUL # [])) 8 0 (Some '' ,'') =
      Some (int (length tokens), tokens, buf) \<and> map (cstr buf) tokens = [''a'', ''bc'', ''d'']"
proof -
  have "words '' ,'' ''  a bc ,d'' = [''a'', ''bc'', ''d'']"
    by (simp add: words.simps next_word_def word_of_def word_rest_def)
  with str_tokenize_words [of "''  a bc ,d''" "'' ,''" "[]" 8 0] show ?thesis by auto
qed

text \<open>
  C19. The tokenizer with quotes returns for every string: its loops end, no character behind the
  terminator is read or changed, every token is a position in the string, and the result is the number of
  tokens or that a quote is not closed. The array must have room for one token more than it is said to
  have.
\<close>

theorem str_tokenize_quote_ends:
  assumes "NUL \<notin> set s"
  shows "\<exists>r tokens buf. gallus_str_tokenize_quote (Some (s @ NUL # rest)) n_max delm quote = Some (r, tokens, buf) \<and>
    (r = GALLUS_RESULT_QUOTE_NOT_CLOSED \<or> r = GALLUS_RESULT_INVALID_ARGS \<or> 0 \<le> r \<and> r \<le> int (length tokens)) \<and>
    length tokens \<le> n_max + 1 \<and> list_all (\<lambda>t. t \<le> length s) tokens \<and>
    length buf = length (s @ NUL # rest) \<and> drop (length s) buf = NUL # rest"
proof -
  let ?b = "s @ NUL # rest"
  have e: "ends_at (length s) rest ?b" by (simp add: ends_at_def)
  have out: "length buf = length ?b \<and> drop (length s) buf = NUL # rest" if "ends_at (length s) rest buf" for buf
  proof -
    have l: "length s < length buf" "buf ! length s = NUL" "drop (Suc (length s)) buf = rest"
      using that by (simp_all add: ends_at_def)
    then have d: "drop (length s) buf = NUL # rest" using Cons_nth_drop_Suc [OF l(1)] by simp
    then have "length buf - length s = Suc (length rest)" by (metis length_Cons length_drop)
    with d l(1) show ?thesis by simp
  qed
  show ?thesis
  proof (cases "cstr ?b 0 \<noteq> [] \<and> is_valid_string delm \<and> is_valid_string quote")
    case False
    then show ?thesis using out [OF e] by (auto simp: gallus_str_tokenize_quote_def)
  next
    case True
    obtain r ts b where "quote_outer (the delm) (the quote) n_max ?b 0 0 [] = Some (r, ts, b)"
        "r = GALLUS_RESULT_QUOTE_NOT_CLOSED \<or> 0 \<le> r \<and> r \<le> int (length ts)"
        "ends_at (length s) rest b" "tokens_ok (length s) 0 ts" "length ts \<le> n_max + 1"
      using quote_outer_ends [OF e, of 0 0 n_max "[]" "the delm" "the quote"] by (auto simp: tokens_ok_def)
    with True out [of b] show ?thesis
      by (auto simp: gallus_str_tokenize_quote_def tokens_ok_def list_all_iff)
  qed
qed

theorem str_tokenize_quote_ends_witness:
  "gallus_str_tokenize_quote (Some (''a \"b'' @ NUL # ''x'')) 5 (Some '' '') (Some [CHR 0x22]) \<noteq> None"
  using str_tokenize_quote_ends [of "''a \"b''" "''x''" 5 "Some '' ''" "Some [CHR 0x22]"] by auto

text \<open>
  On a string without quote characters the tokenizer with quotes does exactly what the tokenizer
  without a limit does: the same result, the same tokens, and the same final buffer.
\<close>

theorem str_tokenize_quote_plain:
  assumes "\<forall>c\<in>set buf. c = NUL \<or> c \<notin> set quote" "quote \<noteq> []"
  shows "gallus_str_tokenize_quote (Some buf) n_max delm (Some quote) =
    gallus_str_tokenize_with_limit (Some buf) n_max 0 delm"
  using assms quote_outer_plain [of quote buf "the delm" n_max 0 "[]"]
  by (simp add: gallus_str_tokenize_quote_def gallus_str_tokenize_with_limit_def unquoted_def)

theorem str_tokenize_quote_plain_witness:
  "gallus_str_tokenize_quote (Some (''a b'' @ [NUL])) 3 (Some '' '') (Some [CHR 0x22]) =
    gallus_str_tokenize_with_limit (Some (''a b'' @ [NUL])) 3 0 (Some '' '')"
  by (rule str_tokenize_quote_plain) simp_all

subsection \<open>Other observations\<close>

text \<open>
  When a quote opens in the middle of a token the code counts the token before it and stores the start of
  the quoted one without looking at the size of the array again: with room for one token, two are stored.
\<close>

lemma str_tokenize_quote_overruns:
  "map_option (\<lambda>(r, tokens, _). (r, tokens))
    (gallus_str_tokenize_quote (Some (''a\"b\"'' @ [NUL])) 1 (Some '' '') (Some [CHR 0x22])) = Some (2, [0, 2])"
  by code_simp

text \<open>
  When the last quote character is escaped the search for the closing quote leaves its loop at the
  terminator, and the open quote is not reported: the text is dropped, or taken for a token when
  something stands before it.
\<close>

lemma str_tokenize_quote_open_unnoticed:
  "map_option (\<lambda>(r, _, _). r)
    (gallus_str_tokenize_quote (Some ([CHR 0x22] @ ''ab'' @ [CHR 0x5C, CHR 0x22, NUL])) 4 (Some '' '') (Some [CHR 0x22])) =
    Some 0"
  "map_option (\<lambda>(r, _, _). r)
    (gallus_str_tokenize_quote (Some (''x'' @ [CHR 0x22] @ ''ab'' @ [CHR 0x5C, CHR 0x22, NUL])) 4 (Some '' '') (Some [CHR 0x22])) =
    Some 2"
  by code_simp+

end
