(* ===== verification/Str_Escape.thy ===== *)
theory Str_Escape
  imports StrUtils
begin

text \<open>
  Escaping, trimming and searching of \<^verbatim>\<open>framework/lib/strutils.c\<close>. What is stored through a pointer
  to a string is an option: None when nothing is stored, \<open>Some None\<close> for NULL.
\<close>

abbreviation BS :: char where "BS \<equiv> CHR 0x5C"

subsection \<open>Escaping\<close>

fun unescape_loop :: "string \<Rightarrow> bool \<Rightarrow> string \<Rightarrow> string" where
  "unescape_loop escaped got_bs [] = []"
| "unescape_loop escaped got_bs (c # cs) =
    (if got_bs then
       (if strchr_hit escaped c then [c]
        else if c = BS then [BS, BS]
        else [BS, c]) @ unescape_loop escaped False cs
     else if c = BS then unescape_loop escaped True cs
     else c # unescape_loop escaped False cs)"

text \<open>\<open>mem\<close> tells whether \<^verbatim>\<open>malloc\<close> succeeds, \<open>retptr\<close> whether the pointer is not NULL.\<close>

definition gallus_str_unescape ::
  "bool \<Rightarrow> string option \<Rightarrow> string option \<Rightarrow> bool \<Rightarrow> gallus_result_t \<times> string option option" where
  "gallus_str_unescape mem org escaped retptr =
    (if is_valid_string org \<and> is_valid_string escaped then
       (let org = the org;
            escaped = the escaped;
            l = length org;
            null = (if retptr then Some None else None)
        in if \<not> strchr_hit escaped (org ! 0) \<and>
              (\<not> strchr_hit escaped (org ! (l - 1)) \<or>
               l \<ge> 2 \<and> strchr_hit escaped (org ! (l - 1)) \<and> org ! (l - 2) = BS) then
             (if mem then
                (let buf = unescape_loop escaped False org;
                     ret = int (length buf)
                 in (ret, if retptr \<and> ret > 0 then Some (Some buf) else null))
              else (GALLUS_RESULT_NO_MEMORY, null))
           else (GALLUS_RESULT_INVALID_ARGS, null))
     else (GALLUS_RESULT_INVALID_ARGS, None))"

fun escape_lens :: "string \<Rightarrow> string \<Rightarrow> nat \<times> nat" where
  "escape_lens escape_chars [] = (0, 0)"
| "escape_lens escape_chars (c # cs) =
    (let (len, escapes_len) = escape_lens escape_chars cs
     in if \<not> strchr_hit escape_chars c then (len + 1, escapes_len) else (len, escapes_len + 2))"

fun escape_loop :: "string \<Rightarrow> string \<Rightarrow> string" where
  "escape_loop escape_chars [] = []"
| "escape_loop escape_chars (c # cs) =
    (if \<not> strchr_hit escape_chars c then [c] else [BS, c]) @ escape_loop escape_chars cs"

text \<open>
  \<open>mem\<close> are the outcomes of the two allocations, \<open>out_ok\<close> whether \<^verbatim>\<open>out_str\<close> points to NULL. The
  second component is what is stored at \<^verbatim>\<open>is_escaped\<close>, the third the string at \<^verbatim>\<open>out_str\<close>.
\<close>

definition gallus_str_escape ::
  "bool \<times> bool \<Rightarrow> string option \<Rightarrow> string option \<Rightarrow> bool \<Rightarrow> bool \<Rightarrow>
   gallus_result_t \<times> bool option \<times> string option" where
  "gallus_str_escape mem in_str escape_chars is_escaped out_ok =
    (if is_valid_string in_str \<and> is_valid_string escape_chars \<and> out_ok then
       (if fst mem then
          (let escapes_len = snd (escape_lens (the escape_chars) (the in_str)) in
           if escapes_len = 0 then
             (if snd mem
              then (GALLUS_RESULT_OK, if is_escaped then Some False else None, Some (the in_str))
              else (GALLUS_RESULT_NO_MEMORY, None, None))
           else
             (if snd mem
              then (GALLUS_RESULT_OK, if is_escaped then Some True else None,
                    Some (escape_loop (the escape_chars) (the in_str)))
              else (GALLUS_RESULT_NO_MEMORY, None, None)))
        else (GALLUS_RESULT_NO_MEMORY, None, None))
     else (GALLUS_RESULT_INVALID_ARGS, None, None))"

subsection \<open>Trimming\<close>

function trim_right_loop :: "string \<Rightarrow> string \<Rightarrow> string" where
  "trim_right_loop trimchars buf =
    (if buf \<noteq> [] then
       (if strchr_hit trimchars (last buf) then trim_right_loop trimchars (butlast buf) else buf)
     else buf)"
  by auto
termination by (relation "measure (\<lambda>(t, b). length b)") auto

declare trim_right_loop.simps [simp del]

definition gallus_str_trim_right ::
  "strdup_fun \<Rightarrow> string option \<Rightarrow> string option \<Rightarrow> bool \<Rightarrow> gallus_result_t \<times> string option option" where
  "gallus_str_trim_right dup org trimchars retptr =
    (if is_valid_string org \<and> is_valid_string trimchars \<and> retptr then
       (case dup (the org) of
          None \<Rightarrow> (GALLUS_RESULT_NO_MEMORY, None)
        | Some buf \<Rightarrow>
            (let buf = trim_right_loop (the trimchars) buf;
                 n = int (length buf)
             in (n, if n > 0 then Some (Some buf) else Some None)))
     else (GALLUS_RESULT_INVALID_ARGS, None))"

fun trim_left_loop :: "string \<Rightarrow> string \<Rightarrow> string" where
  "trim_left_loop trimchars [] = []"
| "trim_left_loop trimchars (c # cs) =
    (if strchr_hit trimchars c then trim_left_loop trimchars cs else c # cs)"

definition gallus_str_trim_left ::
  "strdup_fun \<Rightarrow> string option \<Rightarrow> string option \<Rightarrow> bool \<Rightarrow> gallus_result_t \<times> string option option" where
  "gallus_str_trim_left dup org trimchars retptr =
    (if is_valid_string org \<and> is_valid_string trimchars \<and> retptr then
       (let st = trim_left_loop (the trimchars) (the org);
            n = int (length st)
        in if n > 0 then
             (case dup st of
                Some buf \<Rightarrow> (n, Some (Some buf))
              | None \<Rightarrow> (GALLUS_RESULT_NO_MEMORY, Some None))
           else (n, Some None))
     else (GALLUS_RESULT_INVALID_ARGS, None))"

text \<open>None is the store through a NULL pointer.\<close>

definition gallus_str_trim ::
  "strdup_fun \<Rightarrow> string option \<Rightarrow> string option \<Rightarrow> bool \<Rightarrow>
   (gallus_result_t \<times> string option option) option" where
  "gallus_str_trim dup org trimchars retptr =
    (let (n, tmp) = gallus_str_trim_right dup org trimchars True;
         tmp_str = (case tmp of Some s \<Rightarrow> s | None \<Rightarrow> None);
         (n, stored) = (if n > 0 then gallus_str_trim_left dup tmp_str trimchars retptr else (n, None))
     in if n = 0 then (if retptr then Some (n, Some tmp_str) else None)
        else Some (n, stored))"

subsection \<open>Searching\<close>

fun strstr :: "string \<Rightarrow> string \<Rightarrow> nat option" where
  "strstr [] s2 = (if s2 = [] then Some 0 else None)"
| "strstr (c # cs) s2 =
    (if take (length s2) (c # cs) = s2 then Some 0 else map_option Suc (strstr cs s2))"

definition gallus_str_indexof :: "string option \<Rightarrow> string option \<Rightarrow> gallus_result_t" where
  "gallus_str_indexof str1 str2 =
    (if str1 \<noteq> None \<and> str2 \<noteq> None then
       (case strstr (the str1) (the str2) of
          Some ptr \<Rightarrow> int ptr
        | None \<Rightarrow> GALLUS_RESULT_NOT_FOUND)
     else GALLUS_RESULT_INVALID_ARGS)"

subsection \<open>The round trip\<close>

text \<open>
  Read from the left, each backslash is taken together with the character behind it, which must not be one
  that is escaped; so a backslash before an ordinary character is fine, and so is one before another backslash.
\<close>

fun bs_paired :: "string \<Rightarrow> string \<Rightarrow> bool" where
  "bs_paired esc [] \<longleftrightarrow> True"
| "bs_paired esc [c] \<longleftrightarrow> c \<noteq> BS"
| "bs_paired esc (c # d # cs) \<longleftrightarrow> (if c = BS then d \<notin> set esc \<and> bs_paired esc cs else bs_paired esc (d # cs))"

lemma strchr_hit_iff: "c \<noteq> CHR 0x00 \<Longrightarrow> strchr_hit s c \<longleftrightarrow> c \<in> set s"
  by (simp add: strchr_hit_def)

lemma escape_lens_sum:
  "fst (escape_lens esc s) + snd (escape_lens esc s) = length (escape_loop esc s)"
  by (induction s) (auto simp: Let_def split: prod.splits)

lemma escape_lens_zero: "CHR 0x00 \<notin> set s \<Longrightarrow> snd (escape_lens esc s) = 0 \<longleftrightarrow> set s \<inter> set esc = {}"
  by (induction s) (auto simp: Let_def case_prod_beta strchr_hit_iff)

lemma escape_none: "snd (escape_lens esc s) = 0 \<Longrightarrow> escape_loop esc s = s"
  by (induction s) (auto simp: Let_def split: prod.splits if_splits)

lemma unescape_escape:
  "CHR 0x00 \<notin> set s \<Longrightarrow> BS \<notin> set esc \<Longrightarrow>
    unescape_loop esc False (escape_loop esc s) = s \<longleftrightarrow> bs_paired esc s"
proof (induction esc s rule: bs_paired.induct)
  case (2 esc c)
  then show ?case by (auto simp: strchr_hit_iff)
next
  case (3 esc c d cs)
  then have ok: "c \<noteq> CHR 0x00" "d \<noteq> CHR 0x00" by auto
  show ?case
  proof (cases "c = BS")
    case True
    with 3 ok show ?thesis by (auto simp: strchr_hit_iff)
  next
    case False
    with 3 have "unescape_loop esc False (escape_loop esc (d # cs)) = d # cs \<longleftrightarrow> bs_paired esc (d # cs)"
      by simp
    moreover have "unescape_loop esc False (escape_loop esc (c # d # cs)) =
        c # unescape_loop esc False (escape_loop esc (d # cs))"
      using False ok(1) by (subst escape_loop.simps) (auto simp: strchr_hit_iff simp del: escape_loop.simps)
    ultimately show ?thesis using False by simp
  qed
qed simp

text \<open>When the backslash is one of the escaped characters, nothing is ambiguous.\<close>

lemma unescape_escape_bs:
  "CHR 0x00 \<notin> set s \<Longrightarrow> BS \<in> set esc \<Longrightarrow> unescape_loop esc False (escape_loop esc s) = s"
  by (induction s) (auto simp: strchr_hit_iff)

text \<open>
  The first and the last character of an escaped string, as the other function tests them: the first one fails
  the test when it is a backslash that is itself one of the escaped characters.
\<close>

lemma escape_ends:
  fixes esc :: string
  assumes "s \<noteq> []" "CHR 0x00 \<notin> set s"
  defines "e \<equiv> escape_loop esc s"
  shows "e \<noteq> []" "strchr_hit esc (e ! 0) \<longleftrightarrow> BS \<in> set esc \<and> hd s \<in> set esc"
    "\<not> strchr_hit esc (e ! (length e - 1)) \<or>
      length e \<ge> 2 \<and> strchr_hit esc (e ! (length e - 1)) \<and> e ! (length e - 2) = BS"
proof -
  show ne: "e \<noteq> []" using assms(1) by (cases s) (auto simp: e_def)
  show "strchr_hit esc (e ! 0) \<longleftrightarrow> BS \<in> set esc \<and> hd s \<in> set esc"
    using assms by (cases s) (auto simp: strchr_hit_iff)
  have app: "escape_loop esc (a @ b) = escape_loop esc a @ escape_loop esc b" for a b by (induction a) auto
  obtain a c where s: "s = a @ [c]" using assms(1) by (cases s rule: rev_cases) auto
  show "\<not> strchr_hit esc (e ! (length e - 1)) \<or>
      length e \<ge> 2 \<and> strchr_hit esc (e ! (length e - 1)) \<and> e ! (length e - 2) = BS"
    by (cases "strchr_hit esc c") (auto simp: e_def s app nth_append)
qed

subsection \<open>Properties\<close>



lemma trim_right_split:
  assumes "CHR 0x00 \<notin> set s"
  obtains r where "s = trim_right_loop t s @ r" "set r \<subseteq> set t"
    "trim_right_loop t s = [] \<or> last (trim_right_loop t s) \<notin> set t"
proof -
  have "\<exists>r. s = trim_right_loop t s @ r \<and> set r \<subseteq> set t \<and>
      (trim_right_loop t s \<noteq> [] \<longrightarrow> last (trim_right_loop t s) \<notin> set t)"
    using assms
  proof (induction s rule: rev_induct)
    case Nil
    show ?case by (subst (1 2 3) trim_right_loop.simps) simp
  next
    case (snoc c s)
    then obtain r where r: "s = trim_right_loop t s @ r" "set r \<subseteq> set t"
        "trim_right_loop t s \<noteq> [] \<longrightarrow> last (trim_right_loop t s) \<notin> set t" by auto
    show ?case
    proof (cases "c \<in> set t")
      case True
      then have "trim_right_loop t (s @ [c]) = trim_right_loop t s"
        by (subst trim_right_loop.simps) (simp add: strchr_hit_def)
      with True r show ?thesis by (intro exI [of _ "r @ [c]"]) auto
    next
      case False
      then have "trim_right_loop t (s @ [c]) = s @ [c]"
        using snoc.prems by (subst trim_right_loop.simps) (auto simp: strchr_hit_def)
      with False show ?thesis by (intro exI [of _ "[]"]) auto
    qed
  qed
  then show ?thesis using that by blast
qed

lemma trim_left_split:
  assumes "CHR 0x00 \<notin> set s"
  obtains l where "s = l @ trim_left_loop t s" "set l \<subseteq> set t"
    "trim_left_loop t s = [] \<or> hd (trim_left_loop t s) \<notin> set t"
proof -
  have "\<exists>l. s = l @ trim_left_loop t s \<and> set l \<subseteq> set t \<and>
      (trim_left_loop t s \<noteq> [] \<longrightarrow> hd (trim_left_loop t s) \<notin> set t)"
    using assms
  proof (induction s)
    case (Cons c s)
    then obtain l where "s = l @ trim_left_loop t s" "set l \<subseteq> set t"
        "trim_left_loop t s \<noteq> [] \<longrightarrow> hd (trim_left_loop t s) \<notin> set t" by auto
    then show ?case
      using Cons.prems by (intro exI [of _ "if c \<in> set t then c # l else []"]) (auto simp: strchr_hit_def)
  qed simp
  then show ?thesis using that by blast
qed

text \<open>
  Trimming cuts the given characters off both ends of a string and nothing else. The result is the
  length of what is left, which is stored in new memory, and NULL is stored when nothing is left.
\<close>

theorem str_trim_both_ends:
  assumes "s \<noteq> []" "CHR 0x00 \<notin> set s" "chars \<noteq> []"
  shows "\<exists>l core r. s = l @ core @ r \<and> set l \<subseteq> set chars \<and> set r \<subseteq> set chars \<and>
    (core = [] \<or> hd core \<notin> set chars \<and> last core \<notin> set chars) \<and>
    gallus_str_trim Some (Some s) (Some chars) True =
      Some (int (length core), Some (if core = [] then None else Some core))"
proof -
  let ?b = "trim_right_loop chars s"
  obtain r where r: "s = ?b @ r" "set r \<subseteq> set chars" "?b = [] \<or> last ?b \<notin> set chars"
    by (rule trim_right_split [OF assms(2), of chars])
  have nb: "CHR 0x00 \<notin> set ?b" using assms(2) r(1) by (metis Un_iff set_append)
  let ?c = "trim_left_loop chars ?b"
  obtain l where l: "?b = l @ ?c" "set l \<subseteq> set chars" "?c = [] \<or> hd ?c \<notin> set chars"
    by (rule trim_left_split [OF nb, of chars])
  have s: "s = l @ ?c @ r" using r(1) l(1) by (metis append.assoc)
  have c: "?b \<noteq> [] \<Longrightarrow> ?c \<noteq> [] \<and> last ?c \<notin> set chars"
    using r(3) l(1,2) by (metis append_Nil2 last_appendR last_in_set subsetD)
  have "gallus_str_trim Some (Some s) (Some chars) True =
      Some (int (length ?c), Some (if ?c = [] then None else Some ?c))"
    using assms(1,3) c l(1)
    by (cases "?b = []")
      (auto simp: gallus_str_trim_def gallus_str_trim_right_def gallus_str_trim_left_def Let_def)
  with s r(2) l(2,3) c show ?thesis
    by (intro exI [of _ l] exI [of _ ?c] exI [of _ r]) (cases "?b = []"; auto)
qed

theorem str_trim_both_ends_witness:
  "\<exists>l core r. ''  a b '' = l @ core @ r \<and> set l \<subseteq> {CHR '' ''} \<and> set r \<subseteq> {CHR '' ''} \<and>
    (core = [] \<or> hd core \<noteq> CHR '' '' \<and> last core \<noteq> CHR '' '') \<and>
    gallus_str_trim Some (Some ''  a b '') (Some '' '') True =
      Some (int (length core), Some (if core = [] then None else Some core))"
  using str_trim_both_ends [of "''  a b ''" "'' ''"] by simp

subsection \<open>Other observations\<close>

text \<open>The position of a string in another is the first one where it occurs.\<close>

lemma strstr_first:
  "strstr s t = Some i \<Longrightarrow> take (length t) (drop i s) = t \<and> (\<forall>j<i. take (length t) (drop j s) \<noteq> t)"
proof (induction s arbitrary: i)
  case (Cons c s)
  then show ?case by (cases i) (auto simp: less_Suc_eq_0_disj split: if_splits)
qed (simp split: if_splits)

lemma strstr_none: "strstr s t = None \<Longrightarrow> take (length t) (drop j s) \<noteq> t"
proof (induction s arbitrary: j)
  case (Cons c s)
  then show ?case by (cases j) (auto split: if_splits)
qed (auto split: if_splits)

lemma str_indexof_first:
  "gallus_str_indexof (Some s) (Some t) =
    (if \<exists>i. take (length t) (drop i s) = t then int (LEAST i. take (length t) (drop i s) = t)
     else GALLUS_RESULT_NOT_FOUND)"
proof (cases "strstr s t")
  case None
  then show ?thesis using strstr_none [of s t] by (simp add: gallus_str_indexof_def)
next
  case (Some i)
  then have "(LEAST i. take (length t) (drop i s) = t) = i"
    using strstr_first [OF Some] by (intro Least_equality) (auto simp: not_less [symmetric])
  with Some strstr_first [OF Some] show ?thesis by (auto simp: gallus_str_indexof_def)
qed

text \<open>A backslash at the end is lost, and one before an escaped character is doubled.\<close>

lemma str_unescape_last_backslash:
  "gallus_str_unescape True (Some [CHR ''a'', BS]) (Some [CHR 0x22]) True = (1, Some (Some ''a''))"
  by (simp add: gallus_str_unescape_def strchr_hit_def)

text \<open>A NULL result pointer is written through when nothing is left of the string.\<close>

lemma str_trim_null: "gallus_str_trim Some (Some '' '') (Some '' '') False = None"
  by (simp add: gallus_str_trim_def gallus_str_trim_right_def trim_right_loop.simps strchr_hit_def)

end
