(* ===== verification/DString.thy ===== *)
theory DString
  imports Gallus_Base
begin

text \<open>
  Dynamic strings, \<^verbatim>\<open>framework/lib/dstring.c\<close>, on the level of the bytes of their blocks.

  A block is the list of its bytes; \<open>junk\<close> is what \<^verbatim>\<open>realloc\<close> finds in the new part. What a format
  expands to is an argument, once for each of the two calls of \<^verbatim>\<open>vsnprintf\<close>, None when the call
  fails. A handle is an option, None when it or the pointer to it is NULL. An operation that reads or
  writes outside of a block, or through NULL, has the value None.
\<close>

abbreviation NUL :: char where "NUL \<equiv> CHR 0x00"

record dstring =
  ds_size :: nat
  ds_str_size :: nat
  ds_str :: "string option"

text \<open>Stores and reads of a block.\<close>

definition store_at :: "nat \<Rightarrow> string \<Rightarrow> string \<Rightarrow> string option" where
  "store_at off bytes b =
    (if off + length bytes \<le> length b then Some (take off b @ bytes @ drop (off + length bytes) b) else None)"

definition cstr_at :: "string \<Rightarrow> nat \<Rightarrow> string option" where
  "cstr_at b off =
    (if off < length b \<and> NUL \<in> set (drop off b) then Some (takeWhile (\<lambda>c. c \<noteq> NUL) (drop off b)) else None)"

definition dstring_init :: dstring where
  "dstring_init = \<lparr>ds_size = 0, ds_str_size = 0, ds_str = None\<rparr>"

definition dstring_reset :: "dstring \<Rightarrow> dstring option" where
  "dstring_reset ds =
    (case ds_str ds of
       Some b \<Rightarrow> map_option (\<lambda>b. ds\<lparr>ds_str := Some b, ds_str_size := 0\<rparr>) (store_at 0 [NUL] b)
     | None \<Rightarrow> Some ds)"

definition str_free :: "dstring \<Rightarrow> dstring" where
  "str_free ds = ds\<lparr>ds_str := None\<rparr>"

definition str_realloc :: "bool \<Rightarrow> (nat \<Rightarrow> char) \<Rightarrow> nat \<Rightarrow> dstring \<Rightarrow> dstring \<times> gallus_result_t" where
  "str_realloc mem junk n ds =
    (let alloc_size = ds_str_size ds + n + 1;
         old = (case ds_str ds of Some b \<Rightarrow> b | None \<Rightarrow> [])
     in if ds_str ds = None \<or> n \<noteq> 0 \<and> ds_size ds < alloc_size then
          (if mem then
             (ds\<lparr>ds_str := Some (map (\<lambda>i. if i < length old then old ! i else junk i) [0..<alloc_size]),
                 ds_size := alloc_size\<rparr>, GALLUS_RESULT_OK)
           else (ds, GALLUS_RESULT_NO_MEMORY))
        else (ds, GALLUS_RESULT_OK))"

text \<open>\<^verbatim>\<open>DS_STRDUP\<close> without a failure of its allocation.\<close>

definition DS_STRDUP :: "dstring \<Rightarrow> nat \<Rightarrow> string option" where
  "DS_STRDUP ds offset =
    (if ds_str_size ds = 0 then Some []
     else case ds_str ds of Some b \<Rightarrow> cstr_at b offset | None \<Rightarrow> None)"

definition gallus_dstring_create :: "bool \<Rightarrow> gallus_result_t \<times> dstring option" where
  "gallus_dstring_create mem =
    (if mem then (GALLUS_RESULT_OK, Some dstring_init) else (GALLUS_RESULT_NO_MEMORY, None))"

definition gallus_dstring_destroy :: "dstring option \<Rightarrow> dstring option" where
  "gallus_dstring_destroy ds = None"

definition gallus_dstring_clear :: "dstring option \<Rightarrow> (dstring option \<times> gallus_result_t) option" where
  "gallus_dstring_clear ds =
    (case ds of
       Some d \<Rightarrow> map_option (\<lambda>d. (Some d, GALLUS_RESULT_OK)) (dstring_reset d)
     | None \<Rightarrow> Some (None, GALLUS_RESULT_INVALID_ARGS))"

text \<open>A second call of \<^verbatim>\<open>vsnprintf\<close>, into the block at an offset; the number is what it returns.\<close>

definition vsnprintf :: "nat \<Rightarrow> nat \<Rightarrow> string option \<Rightarrow> dstring \<Rightarrow> (dstring \<times> int) option" where
  "vsnprintf off n text ds =
    (case ds_str ds of
       None \<Rightarrow> None
     | Some b \<Rightarrow>
         (case text of
            None \<Rightarrow> Some (ds, - 1)
          | Some t \<Rightarrow>
              map_option (\<lambda>b. (ds\<lparr>ds_str := Some b\<rparr>, int (length t))) (store_at off (take (n - 1) t @ [NUL]) b)))"

definition gallus_dstring_vappendf ::
  "bool \<Rightarrow> (nat \<Rightarrow> char) \<Rightarrow> string option \<Rightarrow> string option \<Rightarrow> dstring option \<Rightarrow>
   (dstring option \<times> gallus_result_t) option" where
  "gallus_dstring_vappendf mem junk fmt fmt2 ds =
    (case ds of
       None \<Rightarrow> Some (None, GALLUS_RESULT_INVALID_ARGS)
     | Some d \<Rightarrow>
         (case fmt of
            None \<Rightarrow> Some (Some d, GALLUS_RESULT_OUT_OF_RANGE)
          | Some t \<Rightarrow>
              (let pre_size = length t;
                   (d, ret) = str_realloc mem junk pre_size d
               in if ret = GALLUS_RESULT_OK then
                    (case vsnprintf (ds_str_size d) (pre_size + 1) fmt2 d of
                       None \<Rightarrow> None
                     | Some (d, n) \<Rightarrow>
                         if n \<ge> 0 \<and> n = int pre_size
                         then Some (Some (d\<lparr>ds_str_size := ds_str_size d + nat n\<rparr>), GALLUS_RESULT_OK)
                         else Some (Some (str_free d), GALLUS_RESULT_OUT_OF_RANGE))
                  else Some (Some d, ret))))"

text \<open>
  The part of an insertion behind the copy \<open>cpy\<close> of the rest of the string, which has a terminator.
\<close>

definition move_behind :: "nat \<Rightarrow> nat \<Rightarrow> string \<Rightarrow> nat \<Rightarrow> dstring \<Rightarrow> dstring option" where
  "move_behind off n cpy count d =
    (if count \<le> length cpy + 1 then
       (case ds_str d of
          None \<Rightarrow> None
        | Some b \<Rightarrow>
            (case store_at (off + n) (take count (cpy @ [NUL])) b of
               None \<Rightarrow> None
             | Some b \<Rightarrow>
                 (let str_size = ds_str_size d + n
                  in map_option (\<lambda>b. d\<lparr>ds_str := Some b, ds_str_size := str_size\<rparr>) (store_at str_size [NUL] b))))
     else None)"

text \<open>\<open>mem\<close> are the outcomes of the reallocation and of the copy.\<close>

definition gallus_dstring_vprependf ::
  "bool \<times> bool \<Rightarrow> (nat \<Rightarrow> char) \<Rightarrow> string option \<Rightarrow> string option \<Rightarrow> dstring option \<Rightarrow>
   (dstring option \<times> gallus_result_t) option" where
  "gallus_dstring_vprependf mem junk fmt fmt2 ds =
    (case ds of
       None \<Rightarrow> Some (None, GALLUS_RESULT_INVALID_ARGS)
     | Some d \<Rightarrow>
         (case fmt of
            None \<Rightarrow> Some (Some (str_free d), GALLUS_RESULT_OUT_OF_RANGE)
          | Some t \<Rightarrow>
              (let pre_size = length t;
                   (d, ret) = str_realloc (fst mem) junk pre_size d
               in if ret = GALLUS_RESULT_OK then
                    (if snd mem then
                       (case DS_STRDUP d 0 of
                          None \<Rightarrow> None
                        | Some cpy_str \<Rightarrow>
                            (case vsnprintf 0 (pre_size + 1) fmt2 d of
                               None \<Rightarrow> None
                             | Some (d, n) \<Rightarrow>
                                 if n \<ge> 0 \<and> n = int pre_size
                                 then map_option (\<lambda>d. (Some d, GALLUS_RESULT_OK))
                                        (move_behind 0 (nat n) cpy_str (ds_str_size d) d)
                                 else Some (Some (str_free d), GALLUS_RESULT_OUT_OF_RANGE)))
                     else Some (Some (str_free d), GALLUS_RESULT_NO_MEMORY))
                  else Some (Some (str_free d), GALLUS_RESULT_NO_MEMORY))))"

definition gallus_dstring_vinsertf ::
  "bool \<times> bool \<Rightarrow> (nat \<Rightarrow> char) \<Rightarrow> nat \<Rightarrow> string option \<Rightarrow> string option \<Rightarrow> dstring option \<Rightarrow>
   (dstring option \<times> gallus_result_t) option" where
  "gallus_dstring_vinsertf mem junk offset fmt fmt2 ds =
    (case ds of
       None \<Rightarrow> Some (None, GALLUS_RESULT_INVALID_ARGS)
     | Some d \<Rightarrow>
         if ds_str_size d \<ge> offset then
           (case fmt of
              None \<Rightarrow> Some (Some (str_free d), GALLUS_RESULT_OUT_OF_RANGE)
            | Some t \<Rightarrow>
                (let pre_size = length t;
                     (d, ret) = str_realloc (fst mem) junk pre_size d
                 in if ret = GALLUS_RESULT_OK then
                      (if snd mem then
                         (case DS_STRDUP d offset of
                            None \<Rightarrow> None
                          | Some cpy_str \<Rightarrow>
                              (case vsnprintf offset (pre_size + 1) fmt2 d of
                                 None \<Rightarrow> None
                               | Some (d, n) \<Rightarrow>
                                   if n \<ge> 0 \<and> n = int pre_size
                                   then map_option (\<lambda>d. (Some d, GALLUS_RESULT_OK))
                                          (move_behind offset (nat n) cpy_str (ds_str_size d - offset) d)
                                   else Some (Some (str_free d), GALLUS_RESULT_OUT_OF_RANGE)))
                       else Some (Some (str_free d), GALLUS_RESULT_NO_MEMORY))
                    else Some (Some (str_free d), GALLUS_RESULT_NO_MEMORY)))
         else Some (Some d, GALLUS_RESULT_INVALID_ARGS))"

text \<open>
  The functions with a variable argument list. \<^verbatim>\<open>gallus_dstring_concat\<close> formats the bytes of another
  string with \<^verbatim>\<open>%s\<close>; \<open>null_text\<close> is what the C library prints for NULL.
\<close>

definition gallus_dstring_appendf ::
  "bool \<Rightarrow> (nat \<Rightarrow> char) \<Rightarrow> string option \<Rightarrow> string option \<Rightarrow> dstring option \<Rightarrow>
   (dstring option \<times> gallus_result_t) option" where
  "gallus_dstring_appendf mem junk fmt fmt2 ds =
    (if ds \<noteq> None then gallus_dstring_vappendf mem junk fmt fmt2 ds
     else Some (ds, GALLUS_RESULT_INVALID_ARGS))"

definition gallus_dstring_prependf ::
  "bool \<times> bool \<Rightarrow> (nat \<Rightarrow> char) \<Rightarrow> string option \<Rightarrow> string option \<Rightarrow> dstring option \<Rightarrow>
   (dstring option \<times> gallus_result_t) option" where
  "gallus_dstring_prependf mem junk fmt fmt2 ds =
    (if ds \<noteq> None then gallus_dstring_vprependf mem junk fmt fmt2 ds
     else Some (ds, GALLUS_RESULT_INVALID_ARGS))"

definition gallus_dstring_insertf ::
  "bool \<times> bool \<Rightarrow> (nat \<Rightarrow> char) \<Rightarrow> nat \<Rightarrow> string option \<Rightarrow> string option \<Rightarrow> dstring option \<Rightarrow>
   (dstring option \<times> gallus_result_t) option" where
  "gallus_dstring_insertf mem junk offset fmt fmt2 ds =
    (if ds \<noteq> None then gallus_dstring_vinsertf mem junk offset fmt fmt2 ds
     else Some (ds, GALLUS_RESULT_INVALID_ARGS))"

definition gallus_dstring_concat ::
  "bool \<Rightarrow> (nat \<Rightarrow> char) \<Rightarrow> string \<Rightarrow> dstring option \<Rightarrow> dstring option \<Rightarrow>
   (dstring option \<times> gallus_result_t) option" where
  "gallus_dstring_concat mem junk null_text dst_ds src_ds =
    (case (dst_ds, src_ds) of
       (Some d, Some s) \<Rightarrow>
         (case (case ds_str s of Some b \<Rightarrow> cstr_at b 0 | None \<Rightarrow> Some null_text) of
            None \<Rightarrow> None
          | Some t \<Rightarrow> gallus_dstring_appendf mem junk (Some t) (Some t) (Some d))
     | _ \<Rightarrow> Some (dst_ds, GALLUS_RESULT_INVALID_ARGS))"

text \<open>The string at \<^verbatim>\<open>str\<close> is an option: None is the NULL of a failed allocation.\<close>

definition gallus_dstring_str_get :: "bool \<Rightarrow> dstring option \<Rightarrow> (string option \<times> gallus_result_t) option" where
  "gallus_dstring_str_get mem ds =
    (case ds of
       None \<Rightarrow> Some (None, GALLUS_RESULT_INVALID_ARGS)
     | Some d \<Rightarrow>
         map_option (\<lambda>s. if mem then (Some s, GALLUS_RESULT_OK) else (None, GALLUS_RESULT_NO_MEMORY))
           (DS_STRDUP d 0))"

definition gallus_dstring_len_get :: "dstring option \<Rightarrow> gallus_result_t" where
  "gallus_dstring_len_get ds =
    (case ds of Some d \<Rightarrow> int (ds_str_size d) | None \<Rightarrow> GALLUS_RESULT_INVALID_ARGS)"

text \<open>The result code of the last branch becomes a boolean, which is true.\<close>

definition gallus_dstring_empty :: "dstring option \<Rightarrow> bool" where
  "gallus_dstring_empty ds =
    (case ds of
       Some d \<Rightarrow> if ds_str_size d \<noteq> 0 then False else True
     | None \<Rightarrow> GALLUS_RESULT_INVALID_ARGS \<noteq> 0)"

end
