(* ===== verification/DString_Laws.thy ===== *)
theory DString_Laws
  imports DString
begin

text \<open>
  A dynamic string is a string: what its block holds after any sequence of calls is what the same
  edits make of a list of characters, whatever \<^verbatim>\<open>realloc\<close> leaves in new memory. At the end, what
  the calls leave behind when they fail.
\<close>

subsection \<open>Invariant\<close>

definition dstring_holds :: "string \<Rightarrow> dstring \<Rightarrow> bool" where
  "dstring_holds s d \<longleftrightarrow>
     NUL \<notin> set s \<and> ds_str_size d = length s \<and>
     (case ds_str d of
        None \<Rightarrow> s = [] \<and> ds_size d = 0
      | Some b \<Rightarrow> length b = ds_size d \<and> take (length s + 1) b = s @ [NUL])"

text \<open>Between the reallocation and the formatting the block has room, but an empty string no terminator.\<close>

definition dstring_room :: "string \<Rightarrow> nat \<Rightarrow> dstring \<Rightarrow> bool" where
  "dstring_room s n d \<longleftrightarrow>
     NUL \<notin> set s \<and> ds_str_size d = length s \<and>
     (case ds_str d of
        None \<Rightarrow> False
      | Some b \<Rightarrow> length b = ds_size d \<and> length s + n < length b \<and> take (length s) b = s \<and>
                  (s = [] \<or> b ! length s = NUL))"

lemma take_Suc_nth: "take (Suc n) b = s @ [c] \<Longrightarrow> length s = n \<Longrightarrow> n < length b \<and> take n b = s \<and> b ! n = c"
proof -
  assume a: "take (Suc n) b = s @ [c]" and n: "length s = n"
  then have "length (take (Suc n) b) = Suc n" by simp
  then have "n < length b" by simp
  then show ?thesis using a n by (simp add: take_Suc_conv_app_nth)
qed

lemma dstring_init_holds: "dstring_holds [] dstring_init"
  by (simp add: dstring_holds_def dstring_init_def)

lemma str_realloc_room:
  assumes "dstring_holds s d"
  shows "\<exists>d'. str_realloc True junk n d = (d', GALLUS_RESULT_OK) \<and> dstring_room s n d'"
proof (cases "ds_str d")
  case None
  then show ?thesis using assms by (auto simp: dstring_holds_def dstring_room_def str_realloc_def)
next
  case (Some b)
  let ?new = "map (\<lambda>i. if i < length b then b ! i else junk i) [0..<length s + n + 1]"
  have b: "length b = ds_size d" "length s < length b" "take (length s) b = s" "b ! length s = NUL"
    and s: "NUL \<notin> set s" "ds_str_size d = length s"
    using assms Some take_Suc_nth [of "length s" b s NUL] by (auto simp: dstring_holds_def)
  have "take (length s) ?new = take (length s) b"
    using b(1,2) by (intro nth_equalityI) (auto simp del: upt_Suc)
  moreover have "?new ! length s = NUL"
    using b nth_map [of "length s" "[0..<length s + n + 1]"] by (simp del: upt_Suc)
  ultimately show ?thesis
    using b s Some by (auto simp: str_realloc_def dstring_room_def simp del: upt_Suc)
qed

lemma str_realloc_fails:
  "str_realloc False junk n d = (d', ret) \<Longrightarrow> d' = d \<and> ret \<in> {GALLUS_RESULT_OK, GALLUS_RESULT_NO_MEMORY}"
  by (auto simp: str_realloc_def Let_def split: if_splits)

subsection \<open>Copies and insertions\<close>

lemma DS_STRDUP_room:
  assumes "dstring_room s n d" "off \<le> length s"
  shows "DS_STRDUP d off = Some (drop off s)"
proof (cases "s = []")
  case True
  then show ?thesis using assms by (simp add: DS_STRDUP_def dstring_room_def)
next
  case False
  then obtain b where b: "ds_str d = Some b" "length s < length b" "take (length s) b = s" "b ! length s = NUL"
    and s: "NUL \<notin> set s" "ds_str_size d = length s"
    using assms by (auto simp: dstring_room_def split: option.splits)
  have "b = s @ NUL # drop (Suc (length s)) b"
    using b id_take_nth_drop by metis
  then have "drop off b = drop off s @ NUL # drop (Suc (length s)) b"
    using assms(2) by (metis drop_append diff_is_0_eq drop0)
  moreover have "takeWhile (\<lambda>c. c \<noteq> NUL) (drop off s @ NUL # drop (Suc (length s)) b) = drop off s"
    using s by (subst takeWhile_append2) (auto dest: in_set_dropD)
  ultimately show ?thesis
    using b s assms(2) False by (simp add: DS_STRDUP_def cstr_at_def)
qed

lemma store_at_some:
  "off + length t \<le> length b \<Longrightarrow> store_at off t b = Some (take off b @ t @ drop (off + length t) b)"
  by (simp add: store_at_def)

text \<open>The two stores of an insertion: the text over the rest of the string, then the rest behind it.\<close>

lemma insert_stores:
  assumes room: "dstring_room s (length t) d" and off: "off \<le> length s" and t: "NUL \<notin> set t"
  shows "\<exists>d1 d2. vsnprintf off (length t + 1) (Some t) d = Some (d1, int (length t)) \<and>
           ds_str_size d1 = length s \<and>
           move_behind off (length t) (drop off s) (length s - off) d1 = Some d2 \<and>
           dstring_holds (take off s @ t @ drop off s) d2"
proof -
  obtain b where b: "ds_str d = Some b" "length b = ds_size d" "length s + length t < length b" "take (length s) b = s"
    and s: "NUL \<notin> set s" "ds_str_size d = length s"
    using room by (auto simp: dstring_room_def split: option.splits)
  let ?b1 = "take off b @ (t @ [NUL]) @ drop (off + length (t @ [NUL])) b"
  let ?b2 = "take off s @ t @ drop off s @ drop (length s + length t) ?b1"
  let ?b3 = "take off s @ t @ drop off s @ NUL # drop (Suc (length s + length t)) ?b2"
  have off_b: "take off b = take off s"
    using b(4) off by (metis take_take min.absorb1)
  have 1: "store_at off (take (length t + 1 - 1) t @ [NUL]) b = Some ?b1"
    using b off by (simp add: store_at_def)
  have l1: "length ?b1 = length b"
    using b off by simp
  have 2: "store_at (off + length t) (take (length s - off) (drop off s @ [NUL])) ?b1 = Some ?b2"
    using b off off_b l1 by (simp add: store_at_def)
  have l2: "length ?b2 = length b"
    using b off by simp
  have 3: "store_at (length s + length t) [NUL] ?b2 = Some ?b3"
    using b off l2 by (simp add: store_at_def)
  have l3: "length ?b3 = length b"
    using b off l2 by simp
  show ?thesis
    using 1 2 3 b s t off l3
    by (intro exI [of _ "d\<lparr>ds_str := Some ?b1\<rparr>"]
        exI [of _ "d\<lparr>ds_str := Some ?b3, ds_str_size := length s + length t\<rparr>"])
      (auto simp: vsnprintf_def move_behind_def dstring_holds_def Let_def dest: in_set_takeD in_set_dropD
        simp del: append_assoc)
qed

lemma append_store:
  assumes room: "dstring_room s (length t) d" and t: "NUL \<notin> set t"
  shows "\<exists>d1. vsnprintf (length s) (length t + 1) (Some t) d = Some (d1, int (length t)) \<and>
           ds_str_size d1 = length s \<and>
           dstring_holds (s @ t) (d1\<lparr>ds_str_size := length s + length t\<rparr>)"
proof -
  obtain b where b: "ds_str d = Some b" "length b = ds_size d" "length s + length t < length b" "take (length s) b = s"
    and s: "NUL \<notin> set s" "ds_str_size d = length s"
    using room by (auto simp: dstring_room_def split: option.splits)
  show ?thesis using b s t by (auto simp: vsnprintf_def dstring_holds_def store_at_def)
qed

subsection \<open>The calls\<close>

lemma appendf_ok:
  assumes "dstring_holds s d" "NUL \<notin> set t"
  shows "\<exists>d'. gallus_dstring_appendf True junk (Some t) (Some t) (Some d) = Some (Some d', GALLUS_RESULT_OK) \<and>
           dstring_holds (s @ t) d'"
proof -
  obtain d1 where 1: "str_realloc True junk (length t) d = (d1, GALLUS_RESULT_OK)" "dstring_room s (length t) d1"
    using str_realloc_room [OF assms(1)] by blast
  then have "ds_str_size d1 = length s" by (simp add: dstring_room_def)
  then show ?thesis
    using 1 append_store [OF 1(2) assms(2)]
    by (auto simp: gallus_dstring_appendf_def gallus_dstring_vappendf_def Let_def)
qed

lemma insertf_ok:
  assumes "dstring_holds s d" "NUL \<notin> set t" "off \<le> length s"
  shows "\<exists>d'. gallus_dstring_insertf (True, True) junk off (Some t) (Some t) (Some d) = Some (Some d', GALLUS_RESULT_OK) \<and>
           dstring_holds (take off s @ t @ drop off s) d'"
proof -
  obtain d1 where 1: "str_realloc True junk (length t) d = (d1, GALLUS_RESULT_OK)" "dstring_room s (length t) d1"
    using str_realloc_room [OF assms(1)] by blast
  have "ds_str_size d = length s" using assms by (simp add: dstring_holds_def)
  then show ?thesis
    using 1 assms insert_stores [OF 1(2) assms(3,2)] DS_STRDUP_room [OF 1(2) assms(3)]
    by (auto simp: gallus_dstring_insertf_def gallus_dstring_vinsertf_def Let_def)
qed

lemma prependf_insertf:
  "gallus_dstring_prependf mem junk fmt fmt2 ds = gallus_dstring_insertf mem junk 0 fmt fmt2 ds"
  unfolding gallus_dstring_prependf_def gallus_dstring_insertf_def gallus_dstring_vprependf_def
    gallus_dstring_vinsertf_def diff_zero by (cases ds) simp_all

lemma insertf_beyond:
  assumes "length s < off" "dstring_holds s d"
  shows "gallus_dstring_insertf mem junk off fmt fmt2 (Some d) = Some (Some d, GALLUS_RESULT_INVALID_ARGS)"
  using assms by (simp add: gallus_dstring_insertf_def gallus_dstring_vinsertf_def dstring_holds_def)

lemma holds_cstr:
  assumes "dstring_holds s d" "ds_str d = Some b"
  shows "cstr_at b 0 = Some s"
proof -
  have b: "length s < length b" "take (length s) b = s" "b ! length s = NUL" and s: "NUL \<notin> set s"
    using assms take_Suc_nth [of "length s" b s NUL] by (auto simp: dstring_holds_def)
  have "b = s @ NUL # drop (Suc (length s)) b"
    using b id_take_nth_drop by metis
  moreover have "takeWhile (\<lambda>c. c \<noteq> NUL) (s @ NUL # drop (Suc (length s)) b) = s"
    using s by (subst takeWhile_append2) auto
  ultimately show ?thesis
    using b by (metis cstr_at_def drop0 in_set_conv_decomp gr_implies_not0 neq0_conv)
qed

lemma DS_STRDUP_holds:
  assumes "dstring_holds s d"
  shows "DS_STRDUP d 0 = Some s"
  using assms holds_cstr [OF assms] by (auto simp: DS_STRDUP_def dstring_holds_def split: option.splits)

lemma clear_ok:
  assumes "dstring_holds s d"
  shows "\<exists>d'. gallus_dstring_clear (Some d) = Some (Some d', GALLUS_RESULT_OK) \<and> dstring_holds [] d'"
proof (cases "ds_str d")
  case None
  then show ?thesis using assms by (auto simp: gallus_dstring_clear_def dstring_reset_def dstring_holds_def)
next
  case (Some b)
  then have "0 < ds_size d" using assms by (cases b) (auto simp: dstring_holds_def)
  then show ?thesis using assms Some
    by (auto simp: gallus_dstring_clear_def dstring_reset_def dstring_holds_def store_at_def Suc_le_eq)
qed

subsection \<open>Any sequence of calls\<close>

datatype dstring_call =
  D_append string | D_prepend string | D_insert nat string | D_concat dstring | D_clear | D_get | D_len | D_empty

datatype dstring_reply = R_code gallus_result_t | R_text "string option" gallus_result_t | R_flag bool

text \<open>
  The calls with the memory they need; \<open>junk\<close> is what is found in new memory and \<open>null_text\<close> what
  \<^verbatim>\<open>%s\<close> prints for NULL.
\<close>

fun dstring_do :: "string \<Rightarrow> (nat \<Rightarrow> char) \<Rightarrow> dstring_call \<Rightarrow> dstring \<Rightarrow> (dstring option \<times> dstring_reply) option" where
  "dstring_do null_text junk (D_append t) d =
     map_option (map_prod id R_code) (gallus_dstring_appendf True junk (Some t) (Some t) (Some d))"
| "dstring_do null_text junk (D_prepend t) d =
     map_option (map_prod id R_code) (gallus_dstring_prependf (True, True) junk (Some t) (Some t) (Some d))"
| "dstring_do null_text junk (D_insert off t) d =
     map_option (map_prod id R_code) (gallus_dstring_insertf (True, True) junk off (Some t) (Some t) (Some d))"
| "dstring_do null_text junk (D_concat e) d =
     map_option (map_prod id R_code) (gallus_dstring_concat True junk null_text (Some d) (Some e))"
| "dstring_do null_text junk D_clear d = map_option (map_prod id R_code) (gallus_dstring_clear (Some d))"
| "dstring_do null_text junk D_get d =
     map_option (\<lambda>(s, ret). (Some d, R_text s ret)) (gallus_dstring_str_get True (Some d))"
| "dstring_do null_text junk D_len d = Some (Some d, R_code (gallus_dstring_len_get (Some d)))"
| "dstring_do null_text junk D_empty d = Some (Some d, R_flag (gallus_dstring_empty (Some d)))"

fun dstring_run ::
  "string \<Rightarrow> ((nat \<Rightarrow> char) \<times> dstring_call) list \<Rightarrow> dstring \<Rightarrow> (dstring \<times> dstring_reply list) option" where
  "dstring_run null_text [] d = Some (d, [])"
| "dstring_run null_text ((junk, c) # cs) d =
     (case dstring_do null_text junk c d of
        Some (Some d, r) \<Rightarrow> map_option (\<lambda>(d, rs). (d, r # rs)) (dstring_run null_text cs d)
      | _ \<Rightarrow> None)"

text \<open>
  The same calls on a list of characters. A string that is concatenated adds its characters; one that was never
  filled is a NULL pointer to the code, and adds what \<^verbatim>\<open>%s\<close> prints for it.
\<close>

definition dstring_text :: "dstring \<Rightarrow> string" where
  "dstring_text d = (case ds_str d of Some b \<Rightarrow> take (ds_str_size d) b | None \<Rightarrow> [])"

definition concat_text :: "string \<Rightarrow> dstring \<Rightarrow> string" where
  "concat_text null_text e = (if ds_str e = None then null_text else dstring_text e)"

fun string_call :: "string \<Rightarrow> dstring_call \<Rightarrow> string \<Rightarrow> string \<times> dstring_reply" where
  "string_call null_text (D_append t) s = (s @ t, R_code GALLUS_RESULT_OK)"
| "string_call null_text (D_prepend t) s = (t @ s, R_code GALLUS_RESULT_OK)"
| "string_call null_text (D_insert off t) s =
     (if off \<le> length s then (take off s @ t @ drop off s, R_code GALLUS_RESULT_OK)
      else (s, R_code GALLUS_RESULT_INVALID_ARGS))"
| "string_call null_text (D_concat e) s = (s @ concat_text null_text e, R_code GALLUS_RESULT_OK)"
| "string_call null_text D_clear s = ([], R_code GALLUS_RESULT_OK)"
| "string_call null_text D_get s = (s, R_text (Some s) GALLUS_RESULT_OK)"
| "string_call null_text D_len s = (s, R_code (int (length s)))"
| "string_call null_text D_empty s = (s, R_flag (s = []))"

fun string_run :: "string \<Rightarrow> dstring_call list \<Rightarrow> string \<Rightarrow> string \<times> dstring_reply list" where
  "string_run null_text [] s = (s, [])"
| "string_run null_text (c # cs) s =
     (let (s, r) = string_call null_text c s; (s, rs) = string_run null_text cs s in (s, r # rs))"

text \<open>Formatted texts have no terminator in them, and a string to be concatenated is a well-formed one, filled or not.\<close>

fun dstring_call_ok :: "dstring_call \<Rightarrow> bool" where
  "dstring_call_ok (D_append t) = (NUL \<notin> set t)"
| "dstring_call_ok (D_prepend t) = (NUL \<notin> set t)"
| "dstring_call_ok (D_insert off t) = (NUL \<notin> set t)"
| "dstring_call_ok (D_concat e) = dstring_holds (dstring_text e) e"
| "dstring_call_ok _ = True"

lemma concat_ok:
  assumes d: "dstring_holds s d" and e: "dstring_holds (dstring_text e) e" and n: "NUL \<notin> set null_text"
  shows "\<exists>d'. gallus_dstring_concat True junk null_text (Some d) (Some e) = Some (Some d', GALLUS_RESULT_OK) \<and>
           dstring_holds (s @ concat_text null_text e) d'"
proof (cases "ds_str e")
  case None
  then show ?thesis using appendf_ok [OF d n] by (simp add: gallus_dstring_concat_def concat_text_def)
next
  case (Some b)
  have "NUL \<notin> set (dstring_text e)" using e by (simp add: dstring_holds_def)
  then show ?thesis
    using appendf_ok [OF d] holds_cstr [OF e Some] Some by (simp add: gallus_dstring_concat_def concat_text_def)
qed

lemma dstring_call_refines:
  assumes "dstring_holds s d" "dstring_call_ok c" "NUL \<notin> set null_text"
  shows "\<exists>d'. dstring_do null_text junk c d = Some (Some d', snd (string_call null_text c s)) \<and>
           dstring_holds (fst (string_call null_text c s)) d'"
proof (cases c)
  case (D_append t)
  then show ?thesis using appendf_ok [OF assms(1), of t junk] assms(2) by auto
next
  case (D_prepend t)
  then show ?thesis using insertf_ok [OF assms(1), of t 0 junk] assms(2) by (auto simp: prependf_insertf)
next
  case (D_insert off t)
  then show ?thesis
    using insertf_ok [OF assms(1), of t off junk] insertf_beyond [OF _ assms(1), of off] assms
    by (cases "off \<le> length s") auto
next
  case (D_concat e)
  then show ?thesis using concat_ok [OF assms(1) _ assms(3), of e junk] assms(2) by auto
next
  case D_clear
  then show ?thesis using clear_ok [OF assms(1)] by auto
next
  case D_get
  then show ?thesis using DS_STRDUP_holds [OF assms(1)] assms(1) by (simp add: gallus_dstring_str_get_def)
qed (use assms in \<open>auto simp: gallus_dstring_len_get_def gallus_dstring_empty_def dstring_holds_def\<close>)

lemma dstring_run_refines:
  assumes "dstring_holds s d" "list_all dstring_call_ok (map snd cs)" "NUL \<notin> set null_text"
  shows "\<exists>d'. dstring_run null_text cs d = Some (d', snd (string_run null_text (map snd cs) s)) \<and>
           dstring_holds (fst (string_run null_text (map snd cs) s)) d'"
  using assms(1,2)
proof (induction cs arbitrary: s d)
  case (Cons jc cs)
  obtain junk c where jc: "jc = (junk, c)" by (cases jc)
  obtain d' where d': "dstring_do null_text junk c d = Some (Some d', snd (string_call null_text c s))"
    "dstring_holds (fst (string_call null_text c s)) d'"
    using dstring_call_refines [of s d c null_text junk] Cons.prems jc assms(3) by auto
  show ?case
    using Cons.IH [OF d'(2)] Cons.prems d'(1) jc by (auto simp: split_beta Let_def)
qed simp



subsection \<open>Failures\<close>

text \<open>An append that gets no memory keeps the string.\<close>

lemma append_no_memory_keeps:
  assumes "gallus_dstring_appendf False junk (Some t) (Some t) (Some d) = Some (ds, ret)" "ret \<noteq> GALLUS_RESULT_OK"
    "dstring_holds s d"
  shows "ds = Some d \<and> ret = GALLUS_RESULT_NO_MEMORY"
proof -
  obtain d1 r where r: "str_realloc False junk (length t) d = (d1, r)" by fastforce
  then show ?thesis
    using assms str_realloc_fails [OF r]
    by (auto simp: gallus_dstring_appendf_def gallus_dstring_vappendf_def Let_def vsnprintf_def
        split: option.splits if_splits)
qed

text \<open>
  A prepend or an insertion that gets no memory drops the whole string but not its length: it says it
  has bytes, and reading it goes through NULL. Clearing it does not help.
\<close>

lemma prepend_no_memory_drops:
  assumes "str_realloc False junk (length t) d = (d, GALLUS_RESULT_NO_MEMORY)"
  shows "gallus_dstring_prependf (False, mem) junk (Some t) fmt2 (Some d) =
           Some (Some (str_free d), GALLUS_RESULT_NO_MEMORY)"
  using assms by (simp add: gallus_dstring_prependf_def gallus_dstring_vprependf_def)

lemma str_free_stale:
  assumes "0 < ds_str_size d"
  shows "gallus_dstring_empty (Some (str_free d)) = False"
    and "gallus_dstring_clear (Some (str_free d)) = Some (Some (str_free d), GALLUS_RESULT_OK)"
    and "gallus_dstring_str_get mem (Some (str_free d)) = None"
  using assms
  by (simp_all add: gallus_dstring_empty_def gallus_dstring_clear_def gallus_dstring_str_get_def DS_STRDUP_def
      dstring_reset_def str_free_def)

text \<open>The next append then puts its text behind as many bytes of new memory.\<close>

lemma stale_append_shows_junk:
  "\<exists>d. gallus_dstring_appendf True (\<lambda>i. CHR ''#'') (Some ''ab'') (Some ''ab'')
         (Some (str_free \<lparr>ds_size = 4, ds_str_size = 3, ds_str = Some (''xyz'' @ [NUL])\<rparr>)) =
           Some (Some d, GALLUS_RESULT_OK) \<and>
       gallus_dstring_str_get True (Some d) = Some (Some ''###ab'', GALLUS_RESULT_OK)"
  by (simp add: gallus_dstring_appendf_def gallus_dstring_vappendf_def str_free_def str_realloc_def vsnprintf_def
      store_at_def gallus_dstring_str_get_def DS_STRDUP_def cstr_at_def upt_rec [of _ "Suc _"] upt_rec [of _ "numeral _"])

text \<open>Appending a string that was never filled appends what the C library prints for NULL.\<close>

lemma concat_unfilled:
  assumes "dstring_holds s d" "NUL \<notin> set null_text"
  shows "\<exists>d'. gallus_dstring_concat True junk null_text (Some d) (Some dstring_init) = Some (Some d', GALLUS_RESULT_OK) \<and>
           dstring_holds (s @ null_text) d'"
  using appendf_ok [OF assms] by (simp add: gallus_dstring_concat_def dstring_init_def)

text \<open>\<^verbatim>\<open>gallus_dstring_empty\<close> says that NULL is empty, only because its result code is not 0.\<close>

lemma empty_null: "gallus_dstring_empty None"
  by (simp add: gallus_dstring_empty_def)

end
