(* ===== verification/Statistic.thy ===== *)
theory Statistic
  imports Gallus_Base Complex_Main
begin

text \<open>
  Statistics, \<^verbatim>\<open>framework/lib/statistic.c\<close>, with the atomic minimum and maximum of
  \<^verbatim>\<open>gallus_macros.h\<close>.

  The counters are 64 bit words; the signed ones are compared with \<open>sint\<close>. A statistic lives at an
  address of \<open>st_heap\<close>, its name in the table \<open>s_stat_tbl\<close>, a hash map that is here the partial map
  it represents. An access to an address that is not allocated has the value None. A handle is None
  when it or the pointer to it is NULL. The rounding of a real number to a double is the argument
  \<open>rnd\<close>; a double is None when it is not a number.
\<close>

abbreviation LLONG_MAX :: "64 word" where "LLONG_MAX \<equiv> 0x7FFFFFFFFFFFFFFF"
abbreviation LLONG_MIN :: "64 word" where "LLONG_MIN \<equiv> 0x8000000000000000"

record statistic =
  st_name :: string
  st_n :: "64 word"
  st_min :: "64 word"
  st_max :: "64 word"
  st_sum :: "64 word"
  st_sum2 :: "64 word"

record stat_world =
  s_stat_tbl :: "string \<rightharpoonup> nat"
  st_heap :: "nat \<rightharpoonup> statistic"

subsection \<open>One statistic\<close>

definition s_reset_stat :: "statistic \<Rightarrow> statistic" where
  "s_reset_stat s = s\<lparr>st_n := 0, st_min := LLONG_MAX, st_max := LLONG_MIN, st_sum := 0, st_sum2 := 0\<rparr>"

text \<open>
  The steps of \<^verbatim>\<open>s_record_stat\<close> in which it touches the statistic. The loop of
  \<^verbatim>\<open>gallus_atomic_update_cmp\<close> is at \<open>Cas_min\<close> and \<open>Cas_max\<close> with the value it read last; a failing
  compare and swap returns the value found.
\<close>

datatype record_pc =
  Add_n | Add_sum | Add_sum2 | Read_min | Cas_min "64 word" | Read_max | Cas_max "64 word" | Recorded

definition update_min :: "64 word \<Rightarrow> 64 word \<Rightarrow> statistic \<Rightarrow> record_pc \<times> statistic" where
  "update_min val tmp s =
    (if tmp = LLONG_MAX \<or> sint tmp > sint val then
       (let tmp2 = st_min s;
            s = (if st_min s = tmp then s\<lparr>st_min := val\<rparr> else s)
        in if tmp = tmp2 then (Read_max, s) else (Cas_min tmp2, s))
     else (Read_max, s))"

definition update_max :: "64 word \<Rightarrow> 64 word \<Rightarrow> statistic \<Rightarrow> record_pc \<times> statistic" where
  "update_max val tmp s =
    (if tmp = LLONG_MIN \<or> sint tmp < sint val then
       (let tmp2 = st_max s;
            s = (if st_max s = tmp then s\<lparr>st_max := val\<rparr> else s)
        in if tmp = tmp2 then (Recorded, s) else (Cas_max tmp2, s))
     else (Recorded, s))"

fun record_step :: "64 word \<Rightarrow> record_pc \<Rightarrow> statistic \<Rightarrow> record_pc \<times> statistic" where
  "record_step val Add_n s = (Add_sum, s\<lparr>st_n := st_n s + 1\<rparr>)"
| "record_step val Add_sum s = (Add_sum2, s\<lparr>st_sum := st_sum s + val\<rparr>)"
| "record_step val Add_sum2 s = (Read_min, s\<lparr>st_sum2 := st_sum2 s + val * val\<rparr>)"
| "record_step val Read_min s = (Cas_min (st_min s), s)"
| "record_step val (Cas_min tmp) s = update_min val tmp s"
| "record_step val Read_max s = (Cas_max (st_max s), s)"
| "record_step val (Cas_max tmp) s = update_max val tmp s"
| "record_step val Recorded s = (Recorded, s)"

text \<open>A call of \<^verbatim>\<open>s_record_stat\<close> that nobody disturbs: no compare and swap fails.\<close>

definition gallus_atomic_update_min :: "64 word \<Rightarrow> statistic \<Rightarrow> statistic" where
  "gallus_atomic_update_min val s =
    (if st_min s = LLONG_MAX \<or> sint (st_min s) > sint val then s\<lparr>st_min := val\<rparr> else s)"

definition gallus_atomic_update_max :: "64 word \<Rightarrow> statistic \<Rightarrow> statistic" where
  "gallus_atomic_update_max val s =
    (if st_max s = LLONG_MIN \<or> sint (st_max s) < sint val then s\<lparr>st_max := val\<rparr> else s)"

definition s_record_stat :: "64 word \<Rightarrow> statistic \<Rightarrow> statistic" where
  "s_record_stat val s =
    (let sum2 = val * val;
         s = s\<lparr>st_n := st_n s + 1\<rparr>;
         s = s\<lparr>st_sum := st_sum s + val\<rparr>;
         s = s\<lparr>st_sum2 := st_sum2 s + sum2\<rparr>;
         s = gallus_atomic_update_min val s
     in gallus_atomic_update_max val s)"

definition s_get_n_stat :: "statistic \<Rightarrow> gallus_result_t" where
  "s_get_n_stat s = sint (st_n s)"

definition s_get_min_stat :: "statistic \<Rightarrow> int" where
  "s_get_min_stat s = sint (st_min s)"

definition s_get_max_stat :: "statistic \<Rightarrow> int" where
  "s_get_max_stat s = sint (st_max s)"

definition s_get_avg_stat :: "(real \<Rightarrow> real) \<Rightarrow> statistic \<Rightarrow> real" where
  "s_get_avg_stat rnd s =
    (let n = sint (st_n s)
     in if n > 0 then (let sum = rnd (sint (st_sum s)) in rnd (sum / rnd n)) else 0)"

definition sqrt_double :: "(real \<Rightarrow> real) \<Rightarrow> real \<Rightarrow> real option" where
  "sqrt_double rnd x = (if x < 0 then None else Some (rnd (sqrt x)))"

definition s_get_sd_stat :: "(real \<Rightarrow> real) \<Rightarrow> bool \<Rightarrow> statistic \<Rightarrow> real option" where
  "s_get_sd_stat rnd is_ssd s =
    (let n = sint (st_n s)
     in if n = 0 then Some 0
        else
          (let sum = rnd (sint (st_sum s));
               sum2 = rnd (sint (st_sum2 s));
               avg = rnd (sum / rnd n);
               ssum = rnd (rnd (sum2 - rnd (rnd (2 * avg) * sum)) + rnd (rnd (avg * avg) * rnd n))
           in if is_ssd then
                (if n \<ge> 2 then sqrt_double rnd (rnd (ssum / rnd (n - 1))) else Some 0)
              else
                (if n \<ge> 1 then sqrt_double rnd (rnd (ssum / rnd n)) else Some 0)))"

subsection \<open>The table of statistics\<close>

text \<open>
  \<open>mem\<close> says whether the two allocations and the one of the table succeed; \<open>a\<close> is the address that
  \<^verbatim>\<open>malloc\<close> gives.
\<close>

definition stat_tbl_add :: "bool \<Rightarrow> string \<Rightarrow> nat \<Rightarrow> stat_world \<Rightarrow> stat_world \<times> gallus_result_t" where
  "stat_tbl_add mem name a w =
    (if s_stat_tbl w name \<noteq> None then (w, GALLUS_RESULT_ALREADY_EXISTS)
     else if mem then (w\<lparr>s_stat_tbl := (s_stat_tbl w)(name \<mapsto> a)\<rparr>, GALLUS_RESULT_OK)
     else (w, GALLUS_RESULT_NO_MEMORY))"

definition s_create_stat ::
  "bool \<times> bool \<times> bool \<Rightarrow> nat \<Rightarrow> string option \<Rightarrow> stat_world \<Rightarrow> stat_world \<times> nat option \<times> gallus_result_t" where
  "s_create_stat mem a name w =
    (case mem of (mem_s, mem_name, mem_tbl) \<Rightarrow>
      if is_valid_string name then
        (if mem_s \<and> mem_name then
           (case stat_tbl_add mem_tbl (the name) a w of
              (w, ret) \<Rightarrow>
                if ret = GALLUS_RESULT_OK then
                  (w\<lparr>st_heap := (st_heap w)(a \<mapsto> s_reset_stat
                      \<lparr>st_name = the name, st_n = 0, st_min = 0, st_max = 0, st_sum = 0, st_sum2 = 0\<rparr>)\<rparr>,
                   Some a, ret)
                else (w, None, ret))
         else (w, None, GALLUS_RESULT_NO_MEMORY))
      else (w, None, GALLUS_RESULT_INVALID_ARGS))"

definition s_destroy_stat :: "bool \<Rightarrow> nat \<Rightarrow> stat_world \<Rightarrow> stat_world option" where
  "s_destroy_stat delhash a w =
    (case st_heap w a of
       None \<Rightarrow> None
     | Some s \<Rightarrow>
         (let w = (if delhash then w\<lparr>s_stat_tbl := (s_stat_tbl w)(st_name s := None)\<rparr> else w)
          in Some (w\<lparr>st_heap := (st_heap w)(a := None)\<rparr>)))"

definition s_find_stat :: "string option \<Rightarrow> stat_world \<Rightarrow> nat option \<times> gallus_result_t" where
  "s_find_stat name w =
    (if is_valid_string name then
       (case s_stat_tbl w (the name) of
          Some a \<Rightarrow> (Some a, GALLUS_RESULT_OK)
        | None \<Rightarrow> (None, GALLUS_RESULT_NOT_FOUND))
     else (None, GALLUS_RESULT_INVALID_ARGS))"

subsection \<open>The calls\<close>

definition gallus_statistic_create ::
  "bool \<times> bool \<times> bool \<Rightarrow> nat \<Rightarrow> string option \<Rightarrow> stat_world \<Rightarrow> stat_world \<times> nat option \<times> gallus_result_t" where
  "gallus_statistic_create mem a name w = s_create_stat mem a name w"

definition gallus_statistic_find :: "string option \<Rightarrow> stat_world \<Rightarrow> nat option \<times> gallus_result_t" where
  "gallus_statistic_find name w = s_find_stat name w"

definition gallus_statistic_destroy :: "nat option \<Rightarrow> stat_world \<Rightarrow> stat_world option" where
  "gallus_statistic_destroy h w = (case h of Some a \<Rightarrow> s_destroy_stat True a w | None \<Rightarrow> Some w)"

definition gallus_statistic_destroy_by_name :: "string option \<Rightarrow> stat_world \<Rightarrow> stat_world option" where
  "gallus_statistic_destroy_by_name name w =
    (if is_valid_string name then
       (case s_find_stat name w of
          (Some a, ret) \<Rightarrow> if ret = GALLUS_RESULT_OK then s_destroy_stat True a w else Some w
        | (None, ret) \<Rightarrow> Some w)
     else Some w)"

definition gallus_statistic_record ::
  "nat option \<Rightarrow> 64 word \<Rightarrow> stat_world \<Rightarrow> (stat_world \<times> gallus_result_t) option" where
  "gallus_statistic_record h val w =
    (case h of
       Some a \<Rightarrow>
         map_option (\<lambda>s. (w\<lparr>st_heap := (st_heap w)(a \<mapsto> s_record_stat val s)\<rparr>, GALLUS_RESULT_OK)) (st_heap w a)
     | None \<Rightarrow> Some (w, GALLUS_RESULT_INVALID_ARGS))"

definition gallus_statistic_reset :: "nat option \<Rightarrow> stat_world \<Rightarrow> (stat_world \<times> gallus_result_t) option" where
  "gallus_statistic_reset h w =
    (case h of
       Some a \<Rightarrow>
         map_option (\<lambda>s. (w\<lparr>st_heap := (st_heap w)(a \<mapsto> s_reset_stat s)\<rparr>, GALLUS_RESULT_OK)) (st_heap w a)
     | None \<Rightarrow> Some (w, GALLUS_RESULT_INVALID_ARGS))"

text \<open>The calls that read give the value too, None when they store none.\<close>

definition stat_read ::
  "(statistic \<Rightarrow> 'a) \<Rightarrow> nat option \<Rightarrow> stat_world \<Rightarrow> ('a option \<times> gallus_result_t) option" where
  "stat_read f h w =
    (case h of
       Some a \<Rightarrow> map_option (\<lambda>s. (Some (f s), GALLUS_RESULT_OK)) (st_heap w a)
     | None \<Rightarrow> Some (None, GALLUS_RESULT_INVALID_ARGS))"

definition gallus_statistic_sample_n :: "nat option \<Rightarrow> stat_world \<Rightarrow> gallus_result_t option" where
  "gallus_statistic_sample_n h w =
    (case h of
       Some a \<Rightarrow> map_option s_get_n_stat (st_heap w a)
     | None \<Rightarrow> Some GALLUS_RESULT_INVALID_ARGS)"

definition gallus_statistic_min :: "nat option \<Rightarrow> stat_world \<Rightarrow> (int option \<times> gallus_result_t) option" where
  "gallus_statistic_min h w = stat_read s_get_min_stat h w"

definition gallus_statistic_max :: "nat option \<Rightarrow> stat_world \<Rightarrow> (int option \<times> gallus_result_t) option" where
  "gallus_statistic_max h w = stat_read s_get_max_stat h w"

definition gallus_statistic_average ::
  "(real \<Rightarrow> real) \<Rightarrow> nat option \<Rightarrow> stat_world \<Rightarrow> (real option \<times> gallus_result_t) option" where
  "gallus_statistic_average rnd h w = stat_read (s_get_avg_stat rnd) h w"

definition gallus_statistic_sd ::
  "(real \<Rightarrow> real) \<Rightarrow> bool \<Rightarrow> nat option \<Rightarrow> stat_world \<Rightarrow> (real option option \<times> gallus_result_t) option" where
  "gallus_statistic_sd rnd is_ssd h w = stat_read (s_get_sd_stat rnd is_ssd) h w"

text \<open>\<^verbatim>\<open>s_final\<close>: the table is destroyed and frees each statistic, whose name it still has.\<close>

definition s_stat_freeup :: "nat option \<Rightarrow> stat_world \<Rightarrow> stat_world option" where
  "s_stat_freeup arg w = (case arg of Some a \<Rightarrow> s_destroy_stat False a w | None \<Rightarrow> Some w)"

end
