(* ===== verification/Statistic_Laws.thy ===== *)
theory Statistic_Laws
  imports Statistic
begin

text \<open>
  Recording from several threads: whatever the interleaving of their atomic operations, the
  recordings end, and the statistic is the one a single thread makes. Then the numbers: average and
  standard deviation are those of the recorded values as long as the sums stay in 64 bits. At the end
  the table of the statistics.
\<close>

subsection \<open>Threads that record\<close>

text \<open>A thread is the value it records and where it is.\<close>

type_synonym recorders = "(64 word \<times> record_pc) list"

inductive record_turn :: "recorders \<times> statistic \<Rightarrow> recorders \<times> statistic \<Rightarrow> bool" where
  Record_turn:
    "i < length ts \<Longrightarrow> ts ! i = (val, pc) \<Longrightarrow> pc \<noteq> Recorded \<Longrightarrow> record_step val pc s = (pc', s') \<Longrightarrow>
     record_turn (ts, s) (ts[i := (val, pc')], s')"

definition recorders_of :: "64 word list \<Rightarrow> recorders" where
  "recorders_of vals = map (\<lambda>v. (v, Add_n)) vals"

fun rank :: "record_pc \<Rightarrow> nat" where
  "rank Add_n = 0"
| "rank Add_sum = 1"
| "rank Add_sum2 = 2"
| "rank Read_min = 3"
| "rank (Cas_min tmp) = 4"
| "rank Read_max = 5"
| "rank (Cas_max tmp) = 6"
| "rank Recorded = 7"

lemma sum_list_replace:
  "i < length xs \<Longrightarrow> sum_list (xs[i := x]) = sum_list xs - xs ! i + (x :: 'a :: ab_group_add)"
  by (induction xs arbitrary: i) (auto simp: algebra_simps split: nat.splits)

subsection \<open>The sums\<close>

text \<open>What the recordings so far add to the count and to the sums.\<close>

definition part_n :: "64 word \<times> record_pc \<Rightarrow> 64 word" where
  "part_n t = (if rank (snd t) > 0 then 1 else 0)"

definition part_sum :: "64 word \<times> record_pc \<Rightarrow> 64 word" where
  "part_sum t = (if rank (snd t) > 1 then fst t else 0)"

definition part_sum2 :: "64 word \<times> record_pc \<Rightarrow> 64 word" where
  "part_sum2 t = (if rank (snd t) > 2 then fst t * fst t else 0)"

lemmas part_defs = part_n_def part_sum_def part_sum2_def

lemma record_step_parts:
  assumes "record_step val pc s = (pc', s')"
  shows "st_n s' = st_n s - part_n (val, pc) + part_n (val, pc')"
    and "st_sum s' = st_sum s - part_sum (val, pc) + part_sum (val, pc')"
    and "st_sum2 s' = st_sum2 s - part_sum2 (val, pc) + part_sum2 (val, pc')"
    and "st_name s' = st_name s"
  using assms
  by (cases pc; (auto simp: part_defs update_min_def update_max_def Let_def split: if_splits; fail))+

definition sums_inv :: "statistic \<Rightarrow> recorders \<times> statistic \<Rightarrow> bool" where
  "sums_inv s0 c \<longleftrightarrow>
     st_n (snd c) = st_n s0 + sum_list (map part_n (fst c)) \<and>
     st_sum (snd c) = st_sum s0 + sum_list (map part_sum (fst c)) \<and>
     st_sum2 (snd c) = st_sum2 s0 + sum_list (map part_sum2 (fst c)) \<and>
     st_name (snd c) = st_name s0"

lemma sums_inv_turn:
  assumes "record_turn c c'" "sums_inv s0 c"
  shows "sums_inv s0 c'"
  using assms
proof (induction rule: record_turn.induct)
  case (Record_turn i ts val pc s pc' s')
  have "sum_list (map f (ts[i := (val, pc')])) = sum_list (map f ts) - f (val, pc) + f (val, pc')"
    for f :: "64 word \<times> record_pc \<Rightarrow> 64 word"
    using Record_turn(1,2) by (simp add: map_update sum_list_replace)
  then show ?case
    using Record_turn(5) record_step_parts [OF Record_turn(4)] by (simp add: sums_inv_def)
qed

subsection \<open>Minimum and maximum\<close>

text \<open>The extremes so far are recorded values, and behind them in order; a value read is not ahead of them.\<close>

definition min_inv :: "statistic \<Rightarrow> recorders \<times> statistic \<Rightarrow> bool" where
  "min_inv s0 c \<longleftrightarrow>
     st_min (snd c) \<in> insert (st_min s0) (fst ` set (fst c)) \<and>
     sint (st_min (snd c)) \<le> sint (st_min s0) \<and>
     (\<forall>(v, pc) \<in> set (fst c). rank pc > 4 \<longrightarrow> sint (st_min (snd c)) \<le> sint v) \<and>
     (\<forall>(v, pc) \<in> set (fst c). \<forall>tmp. pc = Cas_min tmp \<longrightarrow> sint (st_min (snd c)) \<le> sint tmp)"

definition max_inv :: "statistic \<Rightarrow> recorders \<times> statistic \<Rightarrow> bool" where
  "max_inv s0 c \<longleftrightarrow>
     st_max (snd c) \<in> insert (st_max s0) (fst ` set (fst c)) \<and>
     sint (st_max (snd c)) \<ge> sint (st_max s0) \<and>
     (\<forall>(v, pc) \<in> set (fst c). rank pc > 6 \<longrightarrow> sint (st_max (snd c)) \<ge> sint v) \<and>
     (\<forall>(v, pc) \<in> set (fst c). \<forall>tmp. pc = Cas_max tmp \<longrightarrow> sint (st_max (snd c)) \<ge> sint tmp)"

lemma sint_le_LLONG_MAX: "sint (w :: 64 word) \<le> sint LLONG_MAX"
  using sint_lt [of w] by simp

lemma sint_ge_LLONG_MIN: "sint LLONG_MIN \<le> sint (w :: 64 word)"
  using sint_ge [of w] by simp

lemma record_step_min:
  assumes "record_step val pc s = (pc', s')"
    and "\<forall>tmp. pc = Cas_min tmp \<longrightarrow> sint (st_min s) \<le> sint tmp"
    and "rank pc > 4 \<longrightarrow> sint (st_min s) \<le> sint val"
  shows "st_min s' \<in> {st_min s, val}" and "sint (st_min s') \<le> sint (st_min s)"
    and "rank pc' > 4 \<longrightarrow> sint (st_min s') \<le> sint val"
    and "\<forall>tmp. pc' = Cas_min tmp \<longrightarrow> sint (st_min s') \<le> sint tmp"
  using assms sint_le_LLONG_MAX [of val]
  by (cases pc; (auto simp: update_min_def update_max_def Let_def split: if_splits; fail))+

lemma record_step_max:
  assumes "record_step val pc s = (pc', s')"
    and "\<forall>tmp. pc = Cas_max tmp \<longrightarrow> sint (st_max s) \<ge> sint tmp"
    and "rank pc > 6 \<longrightarrow> sint (st_max s) \<ge> sint val"
  shows "st_max s' \<in> {st_max s, val}" and "sint (st_max s') \<ge> sint (st_max s)"
    and "rank pc' > 6 \<longrightarrow> sint (st_max s') \<ge> sint val"
    and "\<forall>tmp. pc' = Cas_max tmp \<longrightarrow> sint (st_max s') \<ge> sint tmp"
  using assms sint_ge_LLONG_MIN [of val]
  by (cases pc; (auto simp: update_min_def update_max_def Let_def split: if_splits; fail))+

lemma fst_replace:
  assumes "i < length ts" "ts ! i = (v, pc)"
  shows "fst ` set (ts[i := (v, pc')]) = fst ` set ts" and "v \<in> fst ` set ts"
proof -
  have "map fst (ts[i := (v, pc')]) = map fst ts"
    using assms by (metis fst_conv list_update_id map_update nth_map)
  then show "fst ` set (ts[i := (v, pc')]) = fst ` set ts" by (metis list.set_map)
  show "v \<in> fst ` set ts" using assms nth_mem by force
qed

lemma min_inv_turn:
  assumes "record_turn c c'" "min_inv s0 c"
  shows "min_inv s0 c'"
  using assms
proof (induction rule: record_turn.induct)
  case (Record_turn i ts val pc s pc' s')
  have t: "(val, pc) \<in> set ts" using Record_turn(1,2) nth_mem by metis
  have inv: "st_min s \<in> insert (st_min s0) (fst ` set ts)" "sint (st_min s) \<le> sint (st_min s0)"
    "\<And>v q. (v, q) \<in> set ts \<Longrightarrow> rank q > 4 \<Longrightarrow> sint (st_min s) \<le> sint v"
    "\<And>v tmp. (v, Cas_min tmp) \<in> set ts \<Longrightarrow> sint (st_min s) \<le> sint tmp"
    using Record_turn(5) by (auto simp: min_inv_def)
  have "\<forall>tmp. pc = Cas_min tmp \<longrightarrow> sint (st_min s) \<le> sint tmp" "rank pc > 4 \<longrightarrow> sint (st_min s) \<le> sint val"
    using inv(3,4) t by blast+
  note s = record_step_min [OF Record_turn(4) this]
  have new: "(v, q) \<in> set (ts[i := (val, pc')]) \<Longrightarrow> (v, q) = (val, pc') \<or> (v, q) \<in> set ts" for v q
    by (rule set_replace [OF Record_turn(1)])
  have 1: "st_min s' \<in> insert (st_min s0) (fst ` set ts)"
  proof (cases "st_min s' = val")
    case False
    then show ?thesis using s(1) inv(1) by (metis insertE singletonD)
  qed (simp only: insertI2 fst_replace(2) [OF Record_turn(1,2)])
  have 2: "sint (st_min s') \<le> sint (st_min s0)"
    using s(2) inv(2) by linarith
  have 3: "sint (st_min s') \<le> sint v" if "(v, q) \<in> set (ts[i := (val, pc')])" "rank q > 4" for v q
    using new [OF that(1)] that(2) s(2,3) inv(3) [of v q] by auto
  have 4: "sint (st_min s') \<le> sint tmp" if "(v, Cas_min tmp) \<in> set (ts[i := (val, pc')])" for v tmp
    using new [OF that] s(2,4) inv(4) [of v tmp] by auto
  show ?case
    unfolding min_inv_def fst_conv snd_conv fst_replace(1) [OF Record_turn(1,2)]
    using 1 2 3 4 by (auto simp del: insert_iff)
qed

lemma max_inv_turn:
  assumes "record_turn c c'" "max_inv s0 c"
  shows "max_inv s0 c'"
  using assms
proof (induction rule: record_turn.induct)
  case (Record_turn i ts val pc s pc' s')
  have t: "(val, pc) \<in> set ts" using Record_turn(1,2) nth_mem by metis
  have inv: "st_max s \<in> insert (st_max s0) (fst ` set ts)" "sint (st_max s) \<ge> sint (st_max s0)"
    "\<And>v q. (v, q) \<in> set ts \<Longrightarrow> rank q > 6 \<Longrightarrow> sint (st_max s) \<ge> sint v"
    "\<And>v tmp. (v, Cas_max tmp) \<in> set ts \<Longrightarrow> sint (st_max s) \<ge> sint tmp"
    using Record_turn(5) by (auto simp: max_inv_def)
  have "\<forall>tmp. pc = Cas_max tmp \<longrightarrow> sint (st_max s) \<ge> sint tmp" "rank pc > 6 \<longrightarrow> sint (st_max s) \<ge> sint val"
    using inv(3,4) t by blast+
  note s = record_step_max [OF Record_turn(4) this]
  have new: "(v, q) \<in> set (ts[i := (val, pc')]) \<Longrightarrow> (v, q) = (val, pc') \<or> (v, q) \<in> set ts" for v q
    by (rule set_replace [OF Record_turn(1)])
  have 1: "st_max s' \<in> insert (st_max s0) (fst ` set ts)"
  proof (cases "st_max s' = val")
    case False
    then show ?thesis using s(1) inv(1) by (metis insertE singletonD)
  qed (simp only: insertI2 fst_replace(2) [OF Record_turn(1,2)])
  have 2: "sint (st_max s') \<ge> sint (st_max s0)"
    using s(2) inv(2) by linarith
  have 3: "sint (st_max s') \<ge> sint v" if "(v, q) \<in> set (ts[i := (val, pc')])" "rank q > 6" for v q
    using new [OF that(1)] that(2) s(2,3) inv(3) [of v q] by auto
  have 4: "sint (st_max s') \<ge> sint tmp" if "(v, Cas_max tmp) \<in> set (ts[i := (val, pc')])" for v tmp
    using new [OF that] s(2,4) inv(4) [of v tmp] by auto
  show ?case
    unfolding max_inv_def fst_conv snd_conv fst_replace(1) [OF Record_turn(1,2)]
    using 1 2 3 4 by (auto simp del: insert_iff)
qed

subsection \<open>One recording after the other\<close>

lemma s_record_stat_fields:
  "st_n (s_record_stat v s) = st_n s + 1"
  "st_sum (s_record_stat v s) = st_sum s + v"
  "st_sum2 (s_record_stat v s) = st_sum2 s + v * v"
  "st_name (s_record_stat v s) = st_name s"
  by (simp_all add: s_record_stat_def gallus_atomic_update_min_def gallus_atomic_update_max_def Let_def)

lemma s_record_stat_extremes:
  "st_min (s_record_stat v s) \<in> {st_min s, v}"
  "sint (st_min (s_record_stat v s)) \<le> sint (st_min s)" "sint (st_min (s_record_stat v s)) \<le> sint v"
  "st_max (s_record_stat v s) \<in> {st_max s, v}"
  "sint (st_max (s_record_stat v s)) \<ge> sint (st_max s)" "sint (st_max (s_record_stat v s)) \<ge> sint v"
  using sint_le_LLONG_MAX [of v] sint_ge_LLONG_MIN [of v]
  by (auto simp: s_record_stat_def gallus_atomic_update_min_def gallus_atomic_update_max_def Let_def)

lemma fold_record_sums:
  "st_n (fold s_record_stat vals s) = st_n s + sum_list (map (\<lambda>_. 1) vals)"
  "st_sum (fold s_record_stat vals s) = st_sum s + sum_list vals"
  "st_sum2 (fold s_record_stat vals s) = st_sum2 s + sum_list (map (\<lambda>v. v * v) vals)"
  "st_name (fold s_record_stat vals s) = st_name s"
  by (induction vals arbitrary: s) (simp_all add: s_record_stat_fields algebra_simps)

text \<open>\<open>least f x vals y\<close>: \<open>y\<close> is the least of \<open>x\<close> and \<open>vals\<close> by \<open>f\<close>.\<close>

definition least_by :: "('a \<Rightarrow> int) \<Rightarrow> 'a \<Rightarrow> 'a list \<Rightarrow> 'a \<Rightarrow> bool" where
  "least_by f x vals y \<longleftrightarrow> y \<in> insert x (set vals) \<and> (\<forall>v \<in> insert x (set vals). f y \<le> f v)"

lemma least_by_step:
  "y \<in> {x, v} \<Longrightarrow> f y \<le> f x \<Longrightarrow> f y \<le> f v \<Longrightarrow> least_by f y vals z \<Longrightarrow> least_by f x (v # vals) z"
  unfolding least_by_def by (smt (verit) insertE insertI1 insertI2 list.simps(15) singletonD)

lemma fold_record_extremes:
  "least_by sint (st_min s) vals (st_min (fold s_record_stat vals s))"
  "least_by (\<lambda>w. - sint w) (st_max s) vals (st_max (fold s_record_stat vals s))"
proof (induction vals arbitrary: s)
  case Nil
  case 1 show ?case by (simp add: least_by_def)
  case 2 show ?case by (simp add: least_by_def)
next
  case (Cons v vals)
  case 1 show ?case
    using least_by_step [OF _ _ _ Cons.IH(1), of "s_record_stat v s"] s_record_stat_extremes(1-3) by simp
  case 2 show ?case
    using least_by_step [OF _ _ _ Cons.IH(2), of "s_record_stat v s"] s_record_stat_extremes(4-6) by simp
qed

lemma least_by_sint_unique: "least_by sint x vals y \<Longrightarrow> least_by sint x vals z \<Longrightarrow> y = z"
  by (metis least_by_def order_antisym signed_word_eqI)

lemma least_by_neg_unique:
  "least_by (\<lambda>w. - sint w) x vals y \<Longrightarrow> least_by (\<lambda>w. - sint w) x vals z \<Longrightarrow> y = z"
  by (metis least_by_def neg_equal_iff_equal order_antisym signed_word_eqI)

subsection \<open>Runs\<close>

lemma record_turn_values: "record_turn c c' \<Longrightarrow> map fst (fst c') = map fst (fst c)"
  by (induction rule: record_turn.induct) (metis fst_conv list_update_id map_update nth_map)

definition records_inv :: "64 word list \<Rightarrow> statistic \<Rightarrow> recorders \<times> statistic \<Rightarrow> bool" where
  "records_inv vals s0 c \<longleftrightarrow> map fst (fst c) = vals \<and> sums_inv s0 c \<and> min_inv s0 c \<and> max_inv s0 c"

lemma records_inv_start: "records_inv vals s0 (recorders_of vals, s0)"
  by (auto simp: records_inv_def recorders_of_def sums_inv_def min_inv_def max_inv_def part_defs comp_def)

lemma records_inv_run:
  assumes "(record_turn ^^ k) (recorders_of vals, s0) c"
  shows "records_inv vals s0 c"
  using assms
proof (induction k arbitrary: c)
  case 0
  then show ?case by (auto simp: records_inv_start)
next
  case (Suc k)
  then obtain d where "(record_turn ^^ k) (recorders_of vals, s0) d" "record_turn d c" by auto
  then show ?case
    using Suc.IH [of d] record_turn_values [of d c] sums_inv_turn min_inv_turn max_inv_turn
    by (simp add: records_inv_def)
qed

lemma all_recorded:
  assumes "list_all (\<lambda>t. snd t = Recorded) ts"
  shows "map part_n ts = map (\<lambda>_. 1) (map fst ts)" "map part_sum ts = map fst ts"
    "map part_sum2 ts = map (\<lambda>v. v * v) (map fst ts)"
  using assms by (simp_all add: list_all_iff part_defs)

lemma records_ended:
  assumes inv: "records_inv vals s0 (ts, s)" and ended: "list_all (\<lambda>t. snd t = Recorded) ts"
  shows "s = fold s_record_stat vals s0"
proof (rule statistic.equality)
  have vals: "map fst ts = vals" and sums: "sums_inv s0 (ts, s)" using inv by (simp_all add: records_inv_def)
  show "st_n s = st_n (fold s_record_stat vals s0)" "st_sum s = st_sum (fold s_record_stat vals s0)"
    "st_sum2 s = st_sum2 (fold s_record_stat vals s0)" "st_name s = st_name (fold s_record_stat vals s0)"
    using sums all_recorded [OF ended] vals by (simp_all add: sums_inv_def fold_record_sums)
  have fst_set: "fst ` set ts = set vals" using vals by (metis list.set_map)
  have all: "(v, Recorded) \<in> set ts" if "v \<in> set vals" for v
    using that ended fst_set by (force simp: list_all_iff)
  have "min_inv s0 (ts, s)" using inv by (simp add: records_inv_def)
  then have "st_min s \<in> insert (st_min s0) (set vals)" "sint (st_min s) \<le> sint (st_min s0)"
    "\<forall>v \<in> set vals. sint (st_min s) \<le> sint v"
    using all fst_set by (simp_all only: min_inv_def fst_conv snd_conv) fastforce
  then have "least_by sint (st_min s0) vals (st_min s)"
    unfolding least_by_def by (simp only: ball_simps neg_le_iff_le simp_thms)
  then show "st_min s = st_min (fold s_record_stat vals s0)"
    by (rule least_by_sint_unique) (rule fold_record_extremes)
  have "max_inv s0 (ts, s)" using inv by (simp add: records_inv_def)
  then have "st_max s \<in> insert (st_max s0) (set vals)" "sint (st_max s) \<ge> sint (st_max s0)"
    "\<forall>v \<in> set vals. sint (st_max s) \<ge> sint v"
    using all fst_set by (simp_all only: max_inv_def fst_conv snd_conv) fastforce
  then have "least_by (\<lambda>w. - sint w) (st_max s0) vals (st_max s)"
    unfolding least_by_def by (simp only: ball_simps neg_le_iff_le simp_thms)
  then show "st_max s = st_max (fold s_record_stat vals s0)"
    by (rule least_by_neg_unique) (rule fold_record_extremes)
qed simp

text \<open>A run that follows a list of turns, for examples.\<close>

fun run_turns :: "nat list \<Rightarrow> recorders \<times> statistic \<Rightarrow> (recorders \<times> statistic) option" where
  "run_turns [] c = Some c"
| "run_turns (i # is) (ts, s) =
     (if i < length ts \<and> snd (ts ! i) \<noteq> Recorded then
        (case record_step (fst (ts ! i)) (snd (ts ! i)) s of
           (pc, s) \<Rightarrow> run_turns is (ts[i := (fst (ts ! i), pc)], s))
      else None)"

lemma run_turns_run: "run_turns is c = Some c' \<Longrightarrow> (record_turn ^^ length is) c c'"
proof (induction "is" c rule: run_turns.induct)
  case (2 i "is" ts s)
  obtain pc s' where step: "record_step (fst (ts ! i)) (snd (ts ! i)) s = (pc, s')" by fastforce
  then have i: "i < length ts" "snd (ts ! i) \<noteq> Recorded"
    and rest: "run_turns is (ts[i := (fst (ts ! i), pc)], s') = Some c'"
    using 2(2) by (auto split: if_splits)
  have "record_turn (ts, s) (ts[i := (fst (ts ! i), pc)], s')"
    by (rule Record_turn [OF i(1) _ i(2) step]) simp
  moreover have "(record_turn ^^ length is) (ts[i := (fst (ts ! i), pc)], s') c'"
    using 2(1) [OF _ step [symmetric]] i rest by simp
  ultimately show ?case unfolding length_Cons by (rule relpowp_Suc_I2)
qed simp

text \<open>
  C23. Threads that record at the same time leave the statistic as if the values had been recorded one
  after the other, in whatever order their atomic operations were interleaved.
\<close>

theorem statistic_concurrent_records:
  assumes "(record_turn ^^ k) (recorders_of vals, s0) (ts, s)" "list_all (\<lambda>t. snd t = Recorded) ts"
  shows "s = fold s_record_stat vals s0"
  using records_ended [OF records_inv_run [OF assms(1)] assms(2)] .

lemma statistic_concurrent_records_witness:
  "\<exists>ts. (record_turn ^^ 15) (recorders_of [5, - 3], s_reset_stat undefined)
      (ts, fold s_record_stat [5, - 3] (s_reset_stat undefined)) \<and>
    list_all (\<lambda>t. snd t = Recorded) ts"
proof -
  let ?s = "s_reset_stat undefined"
  let ?is = "[0::nat, 0, 0, 1, 1, 1, 0, 1, 0, 1, 1, 1, 1, 0, 0]"
  obtain ts s where run: "run_turns ?is (recorders_of [5, - 3], ?s) = Some (ts, s)"
    and ended: "list_all (\<lambda>t. snd t = Recorded) ts"
    by (simp add: recorders_of_def s_reset_stat_def update_min_def update_max_def)
  have "length ?is = 15" by simp
  with run_turns_run [OF run] have "(record_turn ^^ 15) (recorders_of [5, - 3], ?s) (ts, s)" by (simp only:)
  with statistic_concurrent_records [OF this ended] ended show ?thesis by blast
qed


subsection \<open>Every run ends\<close>

text \<open>A thread is stale when the extreme it read is no longer the current one.\<close>

definition stale :: "statistic \<Rightarrow> 64 word \<times> record_pc \<Rightarrow> bool" where
  "stale s t \<longleftrightarrow>
     (case snd t of Cas_min tmp \<Rightarrow> tmp \<noteq> st_min s | Cas_max tmp \<Rightarrow> tmp \<noteq> st_max s | _ \<Rightarrow> False)"

definition work_left :: "recorders \<Rightarrow> nat" where
  "work_left ts = sum_list (map (\<lambda>t. 7 - rank (snd t)) ts)"

definition turns_left :: "recorders \<times> statistic \<Rightarrow> nat" where
  "turns_left c = work_left (fst c) * (length (fst c) + 1) + length (filter (stale (snd c)) (fst c))"

lemma record_step_work:
  assumes "record_step val pc s = (pc', s')" "pc \<noteq> Recorded"
  shows "rank pc < rank pc' \<and> rank pc' \<le> 7 \<or> s' = s \<and> rank pc' = rank pc \<and> stale s (val, pc) \<and> \<not> stale s (val, pc')"
  using assms by (cases pc) (auto simp: stale_def update_min_def update_max_def Let_def split: if_splits)

lemma turns_left_turn: "record_turn c c' \<Longrightarrow> turns_left c' < turns_left c"
proof (induction rule: record_turn.induct)
  case (Record_turn i ts val pc s pc' s')
  let ?ts = "ts[i := (val, pc')]"
  have few: "length (filter (stale s') ?ts) \<le> length ts" using length_filter_le [of "stale s'" ?ts] by simp
  consider "rank pc < rank pc'" "rank pc' \<le> 7"
    | "s' = s" "rank pc' = rank pc" "stale s (val, pc)" "\<not> stale s (val, pc')"
    using record_step_work [OF Record_turn(4,3)] by blast
  then show ?case
  proof cases
    case 1
    have "work_left ?ts < work_left ts"
      unfolding work_left_def using 1 Record_turn(1,2) by (intro sum_list_less_at) auto
    then have "(work_left ?ts + 1) * (length ts + 1) \<le> work_left ts * (length ts + 1)"
      by (intro mult_le_mono1) simp
    then show ?thesis using few by (simp add: turns_left_def algebra_simps)
  next
    case 2
    have "work_left ?ts = work_left ts"
      using 2(2) Record_turn(1,2) unfolding work_left_def by (metis (no_types, lifting) list_update_id map_update snd_conv)
    moreover have "length (filter (stale s) ?ts) < length (filter (stale s) ts)"
      using 2(3,4) Record_turn(1,2) by (intro filter_less_at) auto
    ultimately show ?thesis using 2(1) by (simp add: turns_left_def)
  qed
qed

lemma turns_left_run: "(record_turn ^^ k) c c' \<Longrightarrow> k + turns_left c' \<le> turns_left c"
proof (induction k arbitrary: c')
  case (Suc k)
  then obtain d where "(record_turn ^^ k) c d" "record_turn d c'" by auto
  then show ?case using Suc.IH [of d] turns_left_turn [of d c'] by simp
qed simp

lemma turns_left_start: "turns_left (recorders_of vals, s0) = 7 * length vals * (length vals + 1)"
  by (simp add: turns_left_def work_left_def recorders_of_def comp_def stale_def sum_list_triv)

lemma record_turn_progress:
  assumes "\<not> list_all (\<lambda>t. snd t = Recorded) ts"
  shows "\<exists>c'. record_turn (ts, s) c'"
proof -
  obtain i where i: "i < length ts" "snd (ts ! i) \<noteq> Recorded"
    using assms by (auto simp: list_all_length)
  obtain pc s' where "record_step (fst (ts ! i)) (snd (ts ! i)) s = (pc, s')" by fastforce
  then have "record_turn (ts, s) (ts[i := (fst (ts ! i), pc)], s')"
    using Record_turn [OF i(1) _ i(2)] by simp
  then show ?thesis ..
qed

text \<open>
  C24. Recording threads never hold each other up: \<open>n\<close> of them make at most \<open>7 n (n + 1)\<close> atomic
  operations in all, however often their compare and swaps fail, and when no turn is left all of them
  have returned.
\<close>

theorem statistic_records_end:
  assumes "(record_turn ^^ k) (recorders_of vals, s0) (ts, s)"
  shows "k \<le> 7 * length vals * (length vals + 1) \<and>
         (Ex (record_turn (ts, s)) = (\<not> list_all (\<lambda>t. snd t = Recorded) ts))"
proof
  show "k \<le> 7 * length vals * (length vals + 1)"
    using turns_left_run [OF assms] by (simp add: turns_left_start)
  have "list_all (\<lambda>t. snd t = Recorded) ts \<Longrightarrow> \<not> record_turn (ts, s) c'" for c'
    by (auto simp: list_all_length elim!: record_turn.cases)
  then show "Ex (record_turn (ts, s)) = (\<not> list_all (\<lambda>t. snd t = Recorded) ts)"
    using record_turn_progress [of ts s] by blast
qed

lemma statistic_records_end_witness:
  "Ex (record_turn ([(5, Add_sum)], (s_reset_stat undefined)\<lparr>st_n := 1\<rparr>))"
proof -
  have "(record_turn ^^ 1) (recorders_of [5], s_reset_stat undefined)
      ([(5, Add_sum)], (s_reset_stat undefined)\<lparr>st_n := 1\<rparr>)"
    using run_turns_run [of "[0]" "(recorders_of [5], s_reset_stat undefined)"]
    by (simp add: recorders_of_def s_reset_stat_def)
  from statistic_records_end [OF this] show ?thesis by simp
qed

subsection \<open>Average and deviation\<close>

text \<open>
  With exact arithmetic and sums that stay in 64 bits the average and the standard deviation are those
  of the recorded values.
\<close>

definition record_all :: "int list \<Rightarrow> statistic" where
  "record_all xs = fold s_record_stat (map word_of_int xs)
     (s_reset_stat \<lparr>st_name = [], st_n = 0, st_min = 0, st_max = 0, st_sum = 0, st_sum2 = 0\<rparr>)"

definition in_int64 :: "int \<Rightarrow> bool" where
  "in_int64 x \<longleftrightarrow> - (2 ^ 63) \<le> x \<and> x < 2 ^ 63"

lemma sint_in_int64: "in_int64 x \<Longrightarrow> sint (word_of_int x :: 64 word) = x"
  by (simp add: in_int64_def sint_sbintrunc' signed_take_bit_int_eq_self)

lemma sum_list_word_of_int: "sum_list (map (\<lambda>x. word_of_int (f x)) xs) = (word_of_int (sum_list (map f xs)) :: 64 word)"
proof (induction xs)
  case (Cons x xs)
  then show ?case by (simp only: list.map sum_list.Cons wi_hom_add)
qed simp

lemma record_all_sums:
  "st_n (record_all xs) = word_of_int (int (length xs))"
  "st_sum (record_all xs) = word_of_int (sum_list xs)"
  "st_sum2 (record_all xs) = word_of_int (sum_list (map (\<lambda>x. x * x) xs))"
proof -
  have 1: "map (\<lambda>_. 1) (map word_of_int xs) = map (\<lambda>x. word_of_int ((\<lambda>_. 1) x)) xs"
    and 2: "map (\<lambda>v. v * v) (map word_of_int xs) = map (\<lambda>x. word_of_int (x * x) :: 64 word) xs"
    by (simp_all add: comp_def)
  have n: "sum_list (map (\<lambda>_. 1) xs) = int (length xs)" by (simp add: sum_list_triv)
  show "st_n (record_all xs) = word_of_int (int (length xs))"
    unfolding record_all_def fold_record_sums 1 sum_list_word_of_int n by (simp add: s_reset_stat_def)
  show "st_sum (record_all xs) = word_of_int (sum_list xs)"
    unfolding record_all_def fold_record_sums sum_list_word_of_int by (simp add: s_reset_stat_def)
  show "st_sum2 (record_all xs) = word_of_int (sum_list (map (\<lambda>x. x * x) xs))"
    unfolding record_all_def fold_record_sums 2 sum_list_word_of_int by (simp add: s_reset_stat_def)
qed

definition mean :: "int list \<Rightarrow> real" where
  "mean xs = real_of_int (sum_list xs) / real (length xs)"

definition sq_deviations :: "int list \<Rightarrow> real" where
  "sq_deviations xs = sum_list (map (\<lambda>x. (real_of_int x - mean xs)\<^sup>2) xs)"

lemma sum_sq_shift:
  "sum_list (map (\<lambda>x. (real_of_int x - m)\<^sup>2) xs) =
     real_of_int (sum_list (map (\<lambda>x. x * x) xs)) - 2 * m * real_of_int (sum_list xs) + m * m * real (length xs)"
  by (induction xs) (simp_all add: power2_eq_square algebra_simps)

lemma sq_deviations_sums:
  assumes "xs \<noteq> []"
  shows "sq_deviations xs =
    real_of_int (sum_list (map (\<lambda>x. x * x) xs)) - 2 * mean xs * real_of_int (sum_list xs) +
    mean xs * mean xs * real (length xs)"
  unfolding sq_deviations_def by (rule sum_sq_shift)

lemma sq_deviations_nonneg: "0 \<le> sq_deviations xs"
  unfolding sq_deviations_def by (intro sum_list_nonneg) auto

text \<open>
  As long as the count and the sums of the values and of their squares stay in 64 bits, exact
  arithmetic makes the average of the recorded values and their standard deviation, over the number of
  values or, for a sample, over one less; with no value, or one value of a sample, it is 0.
\<close>

theorem statistic_moments:
  assumes "in_int64 (int (length xs))" "in_int64 (sum_list xs)" "in_int64 (sum_list (map (\<lambda>x. x * x) xs))"
  shows "s_get_avg_stat (\<lambda>x. x) (record_all xs) = mean xs \<and>
    s_get_sd_stat (\<lambda>x. x) False (record_all xs) = Some (sqrt (sq_deviations xs / real (length xs))) \<and>
    s_get_sd_stat (\<lambda>x. x) True (record_all xs) =
      Some (if length xs < 2 then 0 else sqrt (sq_deviations xs / (real (length xs) - 1)))"
proof (cases "xs = []")
  case True
  then show ?thesis
    by (simp add: record_all_def s_reset_stat_def s_get_avg_stat_def s_get_sd_stat_def mean_def)
next
  case False
  have sums: "sint (st_n (record_all xs)) = int (length xs)" "sint (st_sum (record_all xs)) = sum_list xs"
    "sint (st_sum2 (record_all xs)) = sum_list (map (\<lambda>x. x * x) xs)"
    using assms by (simp_all only: record_all_sums sint_in_int64)
  have n: "0 < length xs" "0 \<le> real (length xs) - 1" using False by (cases xs; simp)+
  have dev: "real_of_int (sum_list (map (\<lambda>x. x * x) xs)) - 2 * mean xs * real_of_int (sum_list xs) +
      mean xs * mean xs * real (length xs) = sq_deviations xs"
    using sq_deviations_sums [OF False] by simp
  have avg: "real_of_int (sum_list xs) / real (length xs) = mean xs" by (simp add: mean_def)
  have pos: "\<not> sq_deviations xs / real (length xs) < 0" "\<not> sq_deviations xs / (real (length xs) - 1) < 0"
    using sq_deviations_nonneg [of xs] n by (simp_all add: not_less divide_nonneg_nonneg)
  have one: "real_of_int (int (length xs) - 1) = real (length xs) - 1" by simp
  show ?thesis
    unfolding s_get_avg_stat_def s_get_sd_stat_def Let_def sums one of_int_of_nat_eq avg dev
    using n pos by (auto simp: sqrt_double_def)
qed

lemma statistic_moments_witness:
  "s_get_avg_stat (\<lambda>x. x) (record_all [1, 3]) = 2 \<and>
   s_get_sd_stat (\<lambda>x. x) False (record_all [1, 3]) = Some 1 \<and>
   s_get_sd_stat (\<lambda>x. x) True (record_all [1, 3]) = Some (sqrt 2)"
  using statistic_moments [of "[1, 3]"] by (simp add: in_int64_def mean_def sq_deviations_def)

text \<open>Beyond 64 bits the sum of the squares wraps around and the deviation is no number.\<close>

lemma statistic_deviation_overflow:
  "s_get_sd_stat (\<lambda>x. x) False (record_all [4000000000]) = None"
  by (simp add: record_all_def s_reset_stat_def s_record_stat_def gallus_atomic_update_min_def
      gallus_atomic_update_max_def s_get_sd_stat_def sqrt_double_def Let_def)

subsection \<open>The table\<close>

text \<open>A name in the table leads to the living statistic with that name, and only it.\<close>

definition stat_world_ok :: "stat_world \<Rightarrow> bool" where
  "stat_world_ok w \<longleftrightarrow>
     (\<forall>name a. s_stat_tbl w name = Some a \<longleftrightarrow> (\<exists>s. st_heap w a = Some s \<and> st_name s = name))"

lemma s_record_stat_name: "st_name (s_record_stat v s) = st_name s" by (rule s_record_stat_fields)

lemma stat_create_ok:
  assumes "stat_world_ok w" "st_heap w a = None" "gallus_statistic_create mem a name w = (w', h, ret)"
  shows "stat_world_ok w' \<and> (ret = GALLUS_RESULT_OK \<longrightarrow> h = Some a \<and> gallus_statistic_find name w' = (h, ret)) \<and>
         (ret \<noteq> GALLUS_RESULT_OK \<longrightarrow> w' = w \<and> h = None)"
  using assms
  by (auto simp: gallus_statistic_create_def s_create_stat_def stat_tbl_add_def stat_world_ok_def
      gallus_statistic_find_def s_find_stat_def s_reset_stat_def split: if_splits prod.splits)

lemma stat_destroy_ok:
  assumes ok: "stat_world_ok w" and d: "s_destroy_stat True a w = Some w'"
  shows "stat_world_ok w' \<and> st_heap w' a = None \<and> dom (st_heap w') = dom (st_heap w) - {a}"
proof -
  obtain s where s: "st_heap w a = Some s"
    and w': "w' = w\<lparr>s_stat_tbl := (s_stat_tbl w)(st_name s := None), st_heap := (st_heap w)(a := None)\<rparr>"
    using d by (auto simp: s_destroy_stat_def Let_def split: option.splits)
  have tbl: "s_stat_tbl w name = Some b \<longleftrightarrow> (\<exists>s. st_heap w b = Some s \<and> st_name s = name)" for name b
    using ok by (simp add: stat_world_ok_def)
  have at: "s_stat_tbl w (st_name s) = Some a" using tbl s by blast
  have a: "s_stat_tbl w name = Some a \<Longrightarrow> name = st_name s" for name using tbl [of name a] s by simp
  have "s_stat_tbl w' name = Some b \<longleftrightarrow> b \<noteq> a \<and> s_stat_tbl w name = Some b" for name b
  proof (cases "name = st_name s")
    case True
    then show ?thesis using at by (auto simp: w')
  next
    case False
    then show ?thesis using a [of name] by (auto simp: w')
  qed
  moreover have "(\<exists>t. st_heap w' b = Some t \<and> st_name t = name) \<longleftrightarrow>
      b \<noteq> a \<and> (\<exists>t. st_heap w b = Some t \<and> st_name t = name)" for name b
    by (simp add: w')
  ultimately have "stat_world_ok w'" using tbl by (simp only: stat_world_ok_def) blast
  moreover have "st_heap w' a = None" "dom (st_heap w') = dom (st_heap w) - {a}" by (simp_all add: w')
  ultimately show ?thesis by blast
qed

lemma stat_record_ok:
  assumes ok: "stat_world_ok w" and r: "gallus_statistic_record h v w = Some (w', ret)"
  shows "stat_world_ok w' \<and> dom (st_heap w') = dom (st_heap w)"
proof (cases h)
  case None
  then show ?thesis using ok r by (simp add: gallus_statistic_record_def)
next
  case (Some a)
  then obtain s where s: "st_heap w a = Some s" and w': "w' = w\<lparr>st_heap := (st_heap w)(a \<mapsto> s_record_stat v s)\<rparr>"
    using r by (auto simp: gallus_statistic_record_def)
  have "(\<exists>t. st_heap w' b = Some t \<and> st_name t = name) \<longleftrightarrow> (\<exists>t. st_heap w b = Some t \<and> st_name t = name)" for b name
    using s by (simp add: w' s_record_stat_name)
  then show ?thesis using ok s by (auto simp: stat_world_ok_def w')
qed

lemma stat_destroy_by_name_ok:
  assumes "stat_world_ok w" "is_valid_string name"
  shows "\<exists>w'. gallus_statistic_destroy_by_name name w = Some w' \<and> stat_world_ok w' \<and>
           gallus_statistic_find name w' = (None, GALLUS_RESULT_NOT_FOUND)"
proof (cases "s_stat_tbl w (the name)")
  case None
  then show ?thesis
    using assms by (simp add: gallus_statistic_destroy_by_name_def s_find_stat_def gallus_statistic_find_def)
next
  case (Some a)
  then obtain s where s: "st_heap w a = Some s" "st_name s = the name"
    using assms(1) unfolding stat_world_ok_def by blast
  let ?w = "w\<lparr>s_stat_tbl := (s_stat_tbl w)(the name := None), st_heap := (st_heap w)(a := None)\<rparr>"
  have d: "s_destroy_stat True a w = Some ?w" using s by (simp add: s_destroy_stat_def)
  then show ?thesis
    using stat_destroy_ok [OF assms(1) d] assms(2) Some
    by (simp add: gallus_statistic_destroy_by_name_def s_find_stat_def gallus_statistic_find_def)
qed

end
