(* ===== verification/Stage.thy ===== *)
theory Stage
  imports GState
begin

text \<open>
  Pipeline stages, \<^verbatim>\<open>framework/lib/pipeline_stage.c\<close>: a stage, its workers, and the calls that
  create, start, stop and destroy it.

  A call holds \<^verbatim>\<open>m_lock\<close> and is one function on the stage. The stage's procedures are foreign code;
  a procedure that is not NULL is a number, \<open>m_calls\<close> lists what the stage called. What the operating
  system answers is in the environment: the results of starting, cancelling and waiting for the thread
  of a worker, and how long a wait took. A call that reads through NULL, or ends the process, is None.
\<close>

datatype stage_state =
  STAGE_STATE_UNKNOWN | STAGE_STATE_INITIALIZED | STAGE_STATE_SETUP | STAGE_STATE_STARTED |
  STAGE_STATE_PAUSED | STAGE_STATE_MAINTENANCE_REQUESTED | STAGE_STATE_CANCELED |
  STAGE_STATE_SHUTDOWN | STAGE_STATE_FINALIZED | STAGE_STATE_DESTROYING

datatype stage_call =
  Call_setup | Call_pre_pause | Call_maint nat | Call_final bool | Call_shutdown shutdown_grace_level | Call_freeup |
  Thread_start nat | Thread_cancel nat | Thread_wait nat gallus_chrono_t | Thread_destroy nat |
  Free_buffer nat

record stage_procs =
  p_pre_pause :: "nat option"
  p_sched :: "nat option"
  p_setup :: "nat option"
  p_fetch :: "nat option"
  p_main :: "nat option"
  p_throw :: "nat option"
  p_shutdown :: "nat option"
  p_final :: "nat option"
  p_freeup :: "nat option"

datatype worker_main_proc = W_f_m_t | W_f_m | W_m_t | W_m

record worker =
  w_idx :: nat
  w_proc :: worker_main_proc
  w_is_started :: bool
  w_buf :: "nat option"
  w_freeup_proc :: "nat option"

record stage =
  m_procs :: stage_procs
  m_name :: string
  m_workers :: "worker option list"
  m_n_workers :: nat
  m_event_size :: nat
  m_max_batch :: nat
  m_batch_buffer_size :: nat
  m_is_heap_allocd :: bool
  m_do_loop :: bool
  m_sg_lvl :: shutdown_grace_level
  m_status :: stage_state
  m_n_canceled_workers :: nat
  m_n_shutdown_workers :: nat
  m_pause_requested :: bool
  m_maint_proc :: "nat option"
  m_maint_arg :: "nat option"
  m_post_start_proc :: "nat option"
  m_post_start_arg :: "nat option"
  m_calls :: "stage_call list"

record stage_env =
  env_setup :: gallus_result_t
  env_start :: "nat \<Rightarrow> gallus_result_t"
  env_cancel :: "nat \<Rightarrow> gallus_result_t"
  env_wait :: "nat \<Rightarrow> gallus_chrono_t \<Rightarrow> gallus_result_t \<times> gallus_chrono_t"

definition calls :: "stage_call list \<Rightarrow> stage \<Rightarrow> stage" where
  "calls cs ps = ps\<lparr>m_calls := m_calls ps @ cs\<rparr>"

subsection \<open>Workers\<close>

definition s_find_worker_proc :: "nat option \<Rightarrow> nat option \<Rightarrow> nat option \<Rightarrow> worker_main_proc option" where
  "s_find_worker_proc fetch_proc main_proc throw_proc =
    (if fetch_proc \<noteq> None \<and> main_proc \<noteq> None \<and> throw_proc \<noteq> None then Some W_f_m_t
     else if fetch_proc \<noteq> None \<and> main_proc \<noteq> None \<and> throw_proc = None then Some W_f_m
     else if fetch_proc = None \<and> main_proc \<noteq> None \<and> throw_proc \<noteq> None then Some W_m_t
     else if fetch_proc = None \<and> main_proc \<noteq> None \<and> throw_proc = None then Some W_m
     else None)"

text \<open>
  Creating a worker: \<open>ret\<close> is what its allocations and the creation of its thread come to, \<open>buf\<close> its
  buffer, which \<^verbatim>\<open>free\<close>, the procedure 0, releases. The worker is NULL unless that is OK.
\<close>

definition s_worker_create ::
  "gallus_result_t \<Rightarrow> nat \<Rightarrow> string \<Rightarrow> nat \<Rightarrow> worker_main_proc \<Rightarrow> gallus_result_t \<times> worker option" where
  "s_worker_create ret buf name idx proc =
    (if is_valid_string (Some name) then
       (if ret = GALLUS_RESULT_OK then
          (ret, Some \<lparr>w_idx = idx, w_proc = proc, w_is_started = False, w_buf = Some buf, w_freeup_proc = Some 0\<rparr>)
        else (ret, None))
     else (GALLUS_RESULT_INVALID_ARGS, None))"

definition s_worker_destroy :: "worker option \<Rightarrow> stage_call list option" where
  "s_worker_destroy w =
    (case w of
       None \<Rightarrow> None
     | Some w \<Rightarrow>
         Some ((case (w_buf w, w_freeup_proc w) of (Some b, Some f) \<Rightarrow> [Free_buffer b] | _ \<Rightarrow> []) @
           [Thread_destroy (w_idx w)]))"

definition s_worker_get_buffer :: "worker option \<Rightarrow> nat option" where
  "s_worker_get_buffer w = (case w of Some w \<Rightarrow> w_buf w | None \<Rightarrow> None)"

definition s_worker_set_buffer ::
  "worker option \<Rightarrow> nat option \<Rightarrow> nat option \<Rightarrow> worker option \<times> nat option \<times> stage_call list" where
  "s_worker_set_buffer w buf freeup_proc =
    (case (w, buf) of
       (Some w, Some b) \<Rightarrow>
         (Some (w\<lparr>w_buf := buf, w_freeup_proc := freeup_proc\<rparr>), w_buf w,
          (case (w_buf w, w_freeup_proc w) of (Some b, Some f) \<Rightarrow> [Free_buffer b] | _ \<Rightarrow> []))
     | _ \<Rightarrow> (w, None, []))"

text \<open>What the thread of a worker does to the stage when it has ended.\<close>

definition s_worker_finalize :: "bool \<Rightarrow> stage \<Rightarrow> stage" where
  "s_worker_finalize is_canceled ps =
    (let ps = (if is_canceled then ps\<lparr>m_n_canceled_workers := m_n_canceled_workers ps + 1\<rparr> else ps)
     in ps\<lparr>m_n_shutdown_workers := m_n_shutdown_workers ps + 1\<rparr>)"

subsection \<open>Stopping\<close>

fun cancel_loop :: "stage_env \<Rightarrow> nat list \<Rightarrow> gallus_result_t \<Rightarrow> gallus_result_t" where
  "cancel_loop env [] first_err = first_err"
| "cancel_loop env (i # is) first_err =
    (let ret = env_cancel env i
     in cancel_loop env is
          (if ret \<noteq> GALLUS_RESULT_OK \<and> first_err = GALLUS_RESULT_OK then ret else first_err))"

definition s_cancel_stage :: "stage_env \<Rightarrow> nat \<Rightarrow> stage \<Rightarrow> stage \<times> gallus_result_t" where
  "s_cancel_stage env n ps =
    (let first_err = cancel_loop env [0..<n] GALLUS_RESULT_OK;
         ps = calls (map Thread_cancel [0..<n]) ps
     in (ps\<lparr>m_sg_lvl := SHUTDOWN_RIGHT_NOW, m_do_loop := False\<rparr>, first_err))"

text \<open>The workers waited for with their limits, and the last result.\<close>

fun wait_loop ::
  "stage_env \<Rightarrow> nat list \<Rightarrow> gallus_result_t \<Rightarrow> gallus_chrono_t \<Rightarrow> stage_call list \<times> gallus_result_t" where
  "wait_loop env [] ret w = ([], ret)"
| "wait_loop env (i # is) ret w =
    (if ret = GALLUS_RESULT_OK \<and> w > 0 then
       (let (ret, duration) = env_wait env i w;
            w' = (if ret = GALLUS_RESULT_OK then duration else w);
            (cs, ret) = wait_loop env is ret w'
        in (Thread_wait i w # cs, ret))
     else ([], ret))"

definition s_wait_stage ::
  "stage_env \<Rightarrow> nat \<Rightarrow> gallus_chrono_t \<Rightarrow> bool \<Rightarrow> stage \<Rightarrow> stage \<times> gallus_result_t" where
  "s_wait_stage env n nsec is_in_destroy ps =
    (if \<not> is_in_destroy \<and> nsec > 0 then
       (let (cs, ret) = wait_loop env [0..<n] GALLUS_RESULT_OK nsec in (calls cs ps, ret))
     else (calls (map (\<lambda>i. Thread_wait i (- 1)) [0..<n]) ps, GALLUS_RESULT_OK))"

text \<open>The part of a resumption under the pause lock.\<close>

definition s_resume_stage :: "stage \<Rightarrow> stage" where
  "s_resume_stage ps = ps\<lparr>m_pause_requested := False\<rparr>"

subsection \<open>The calls on one stage\<close>

definition stage_setup :: "stage_env \<Rightarrow> stage \<Rightarrow> stage \<times> gallus_result_t" where
  "stage_setup env ps =
    (if m_status ps = STAGE_STATE_INITIALIZED then
       (if p_setup (m_procs ps) \<noteq> None then
          (let ps = calls [Call_setup] ps
           in if env_setup env = GALLUS_RESULT_OK then (ps\<lparr>m_status := STAGE_STATE_SETUP\<rparr>, GALLUS_RESULT_OK)
              else (ps, env_setup env))
        else (ps, GALLUS_RESULT_OK))
     else if m_status ps = STAGE_STATE_SETUP then (ps, GALLUS_RESULT_OK)
     else (ps, GALLUS_RESULT_INVALID_STATE_TRANSITION))"

text \<open>How many workers the loop went over, and the result of the last.\<close>

fun start_loop :: "stage_env \<Rightarrow> nat list \<Rightarrow> nat \<Rightarrow> gallus_result_t \<Rightarrow> nat \<times> gallus_result_t" where
  "start_loop env [] n ret = (n, ret)"
| "start_loop env (i # is) n ret =
    (if ret = GALLUS_RESULT_OK then start_loop env is (n + 1) (env_start env i) else (n, ret))"

definition stage_start :: "stage_env \<Rightarrow> stage \<Rightarrow> stage \<times> gallus_result_t" where
  "stage_start env ps =
    (if m_status ps = STAGE_STATE_INITIALIZED \<or> m_status ps = STAGE_STATE_SETUP \<or>
        m_status ps = STAGE_STATE_FINALIZED then
       (let ps = ps\<lparr>m_maint_proc := None, m_maint_arg := None, m_n_canceled_workers := 0,
                     m_n_shutdown_workers := 0, m_do_loop := True\<rparr>;
            (i, ret) = start_loop env [0..<m_n_workers ps] 0 GALLUS_RESULT_OK;
            ps = calls (map Thread_start [0..<i]) ps
        in if ret = GALLUS_RESULT_OK then (ps\<lparr>m_status := STAGE_STATE_STARTED\<rparr>, ret)
           else
             (let (ps, _) = s_cancel_stage env i ps;
                  (ps, _) = s_wait_stage env i (- 1) True ps
              in (ps\<lparr>m_n_canceled_workers := 0, m_n_shutdown_workers := 0\<rparr>, ret)))
     else (ps, GALLUS_RESULT_INVALID_STATE_TRANSITION))"

definition stage_cancel :: "stage_env \<Rightarrow> stage \<Rightarrow> stage \<times> gallus_result_t" where
  "stage_cancel env ps =
    (if m_status ps = STAGE_STATE_STARTED then s_cancel_stage env (m_n_workers ps) ps
     else (ps, GALLUS_RESULT_INVALID_STATE_TRANSITION))"

definition stage_shutdown :: "stage_env \<Rightarrow> shutdown_grace_level \<Rightarrow> stage \<Rightarrow> stage \<times> gallus_result_t" where
  "stage_shutdown env lvl ps =
    (if m_status ps = STAGE_STATE_STARTED \<or> m_status ps = STAGE_STATE_PAUSED then
       (let ps = (if m_status ps = STAGE_STATE_PAUSED
                  then (s_resume_stage ps)\<lparr>m_status := STAGE_STATE_STARTED\<rparr> else ps);
            ps = ps\<lparr>m_sg_lvl := lvl\<rparr>
        in if lvl = SHUTDOWN_RIGHT_NOW then s_cancel_stage env (m_n_workers ps) ps
           else (ps, GALLUS_RESULT_OK))
     else (ps, GALLUS_RESULT_INVALID_STATE_TRANSITION))"

text \<open>
  Waiting for the end: \<open>ended\<close> are the workers whose threads end meanwhile, with whether they were
  cancelled. None is the exit of the process when the numbers do not match.
\<close>

definition stage_wait ::
  "stage_env \<Rightarrow> bool list \<Rightarrow> gallus_chrono_t \<Rightarrow> stage \<Rightarrow> (stage \<times> gallus_result_t) option" where
  "stage_wait env ended nsec ps =
    (if m_status ps = STAGE_STATE_STARTED then
       (let (ps, ret) = s_wait_stage env (m_n_workers ps) nsec False ps;
            ps = fold s_worker_finalize ended ps;
            n_shutdown = m_n_shutdown_workers ps;
            n_canceled = m_n_canceled_workers ps
        in if ret = GALLUS_RESULT_OK then
             (if n_shutdown = m_n_workers ps then
                (let ps = ps\<lparr>m_status := (if n_canceled > 0 then STAGE_STATE_CANCELED else STAGE_STATE_SHUTDOWN)\<rparr>;
                     ps = (if p_final (m_procs ps) \<noteq> None then calls [Call_final (n_canceled > 0)] ps else ps);
                     ps = (if p_shutdown (m_procs ps) \<noteq> None then calls [Call_shutdown (m_sg_lvl ps)] ps else ps)
                 in Some (ps\<lparr>m_do_loop := False\<rparr>, ret))
              else None)
           else Some (ps, ret))
     else Some (ps, GALLUS_RESULT_INVALID_STATE_TRANSITION))"

text \<open>
  What the workers do to the stage: the one the barrier elects reports the pause or runs the
  maintenance procedure, under the pause lock, and each of them reports its end.
\<close>

datatype worker_act = Act_paused | Act_maintained | Act_ended bool

definition report_paused :: "stage \<Rightarrow> stage" where
  "report_paused ps = ps\<lparr>m_status := STAGE_STATE_PAUSED\<rparr>"

definition run_maintenance :: "stage \<Rightarrow> stage" where
  "run_maintenance ps =
    (let ps = (case m_maint_proc ps of Some f \<Rightarrow> calls [Call_maint f] ps | None \<Rightarrow> ps)
     in ps\<lparr>m_maint_proc := None, m_maint_arg := None, m_pause_requested := False,
           m_status := STAGE_STATE_STARTED\<rparr>)"

fun do_act :: "worker_act \<Rightarrow> stage \<Rightarrow> stage" where
  "do_act Act_paused ps = report_paused ps"
| "do_act Act_maintained ps = run_maintenance ps"
| "do_act (Act_ended is_canceled) ps = s_worker_finalize is_canceled ps"

text \<open>
  A pause. The loop at \<^verbatim>\<open>recheck\<close> takes a script: for each wait its result and what the workers did
  meanwhile. When the script is used up the caller is still waiting.
\<close>

type_synonym stage_wake = "gallus_result_t \<times> worker_act list"

definition pause_enter :: "stage \<Rightarrow> stage" where
  "pause_enter ps =
    (let ps = ps\<lparr>m_pause_requested := True\<rparr>
     in if p_pre_pause (m_procs ps) \<noteq> None then calls [Call_pre_pause] ps else ps)"

fun pause_recheck :: "stage_wake list \<Rightarrow> stage \<Rightarrow> stage \<times> gallus_result_t option" where
  "pause_recheck [] ps =
    (if m_status ps \<noteq> STAGE_STATE_PAUSED then (ps, None) else (ps, Some GALLUS_RESULT_OK))"
| "pause_recheck ((ret, meanwhile) # ws) ps =
    (if m_status ps \<noteq> STAGE_STATE_PAUSED then
       (let ps = fold do_act meanwhile ps
        in if ret = GALLUS_RESULT_OK then pause_recheck ws ps else (ps, Some ret))
     else (ps, Some GALLUS_RESULT_OK))"

definition pause_leave :: "gallus_result_t \<Rightarrow> stage \<Rightarrow> stage" where
  "pause_leave ret ps =
    (if ret \<noteq> GALLUS_RESULT_OK \<and> ret \<noteq> GALLUS_RESULT_TIMEDOUT then ps\<lparr>m_pause_requested := False\<rparr> else ps)"

definition stage_pause :: "stage_wake list \<Rightarrow> stage \<Rightarrow> stage \<times> gallus_result_t option" where
  "stage_pause ws ps =
    (if m_status ps = STAGE_STATE_STARTED then
       (case pause_recheck ws (pause_enter ps) of
          (ps, Some ret) \<Rightarrow> (pause_leave ret ps, Some ret)
        | (ps, None) \<Rightarrow> (ps, None))
     else if m_status ps = STAGE_STATE_PAUSED then (ps, Some GALLUS_RESULT_OK)
     else (ps, Some GALLUS_RESULT_INVALID_STATE_TRANSITION))"

definition stage_resume :: "stage \<Rightarrow> stage \<times> gallus_result_t" where
  "stage_resume ps =
    (if m_status ps = STAGE_STATE_PAUSED then
       ((s_resume_stage ps)\<lparr>m_status := STAGE_STATE_STARTED\<rparr>, GALLUS_RESULT_OK)
     else if m_status ps = STAGE_STATE_STARTED then (ps, GALLUS_RESULT_OK)
     else (ps, GALLUS_RESULT_INVALID_STATE_TRANSITION))"

text \<open>Maintenance is a pause in which one of the workers runs a procedure.\<close>

definition maint_enter :: "nat option \<Rightarrow> nat option \<Rightarrow> stage \<Rightarrow> stage" where
  "maint_enter func arg ps =
    (let ps = ps\<lparr>m_status := STAGE_STATE_MAINTENANCE_REQUESTED, m_maint_proc := func, m_maint_arg := arg,
                  m_pause_requested := True\<rparr>
     in if p_pre_pause (m_procs ps) \<noteq> None then calls [Call_pre_pause] ps else ps)"

definition maint_outcome :: "stage \<Rightarrow> gallus_result_t" where
  "maint_outcome ps =
    (if m_status ps = STAGE_STATE_STARTED then GALLUS_RESULT_OK else GALLUS_RESULT_INVALID_STATE_TRANSITION)"

fun maint_recheck :: "stage_wake list \<Rightarrow> stage \<Rightarrow> stage \<times> gallus_result_t option" where
  "maint_recheck [] ps =
    (if m_status ps = STAGE_STATE_MAINTENANCE_REQUESTED then (ps, None) else (ps, Some (maint_outcome ps)))"
| "maint_recheck ((ret, meanwhile) # ws) ps =
    (if m_status ps = STAGE_STATE_MAINTENANCE_REQUESTED then
       (let ps = fold do_act meanwhile ps
        in if ret = GALLUS_RESULT_OK then maint_recheck ws ps else (ps, Some ret))
     else (ps, Some (maint_outcome ps)))"

definition maint_leave :: "gallus_result_t \<Rightarrow> stage \<Rightarrow> stage" where
  "maint_leave ret ps =
    (if ret \<noteq> GALLUS_RESULT_OK then ps\<lparr>m_pause_requested := False, m_maint_proc := None, m_maint_arg := None\<rparr>
     else ps)"

definition stage_schedule_maintenance ::
  "stage_wake list \<Rightarrow> nat option \<Rightarrow> nat option \<Rightarrow> stage \<Rightarrow> stage \<times> gallus_result_t option" where
  "stage_schedule_maintenance ws func arg ps =
    (if m_status ps = STAGE_STATE_STARTED then
       (case maint_recheck ws (maint_enter func arg ps) of
          (ps, Some ret) \<Rightarrow> (maint_leave ret ps, Some ret)
        | (ps, None) \<Rightarrow> (ps, None))
     else (ps, Some GALLUS_RESULT_INVALID_STATE_TRANSITION))"

definition stage_set_post_start_hook :: "nat option \<Rightarrow> nat option \<Rightarrow> stage \<Rightarrow> stage \<times> gallus_result_t" where
  "stage_set_post_start_hook func arg ps =
    (ps\<lparr>m_post_start_proc := func, m_post_start_arg := arg\<rparr>, GALLUS_RESULT_OK)"

end
