(* ===== verification/Stage_Registry.thy ===== *)
theory Stage_Registry
  imports Stage
begin

text \<open>
  The tables of the stages in \<^verbatim>\<open>framework/lib/pipeline_stage.c\<close>, and the calls as their clients see
  them: a call looks its handle up in \<open>s_ps_obj_tbl\<close> before it reads the stage. The tables are hash maps,
  here the map and the set they represent; \<open>ps_gone\<close> has the stages as they were when they were
  destroyed. None is an access to memory that holds no stage, a read through NULL or the end of the
  process; a result of None is a call that still waits.
\<close>

record stage_world =
  s_ps_name_tbl :: "string \<rightharpoonup> nat"
  s_ps_obj_tbl :: "nat set"
  ps_heap :: "nat \<rightharpoonup> stage"
  ps_gone :: "(nat \<times> stage) list"

subsection \<open>The tables\<close>

text \<open>\<open>mem\<close> says whether each table has memory for an entry.\<close>

definition s_add_stage :: "bool \<times> bool \<Rightarrow> nat \<Rightarrow> string \<Rightarrow> stage_world \<Rightarrow> stage_world \<times> gallus_result_t" where
  "s_add_stage mem a name w =
    (if is_valid_string (Some name) then
       (if s_ps_name_tbl w name \<noteq> None then (w, GALLUS_RESULT_ALREADY_EXISTS)
        else if fst mem then
          (let w = w\<lparr>s_ps_name_tbl := (s_ps_name_tbl w)(name \<mapsto> a)\<rparr>
           in if snd mem \<or> a \<in> s_ps_obj_tbl w
              then (w\<lparr>s_ps_obj_tbl := insert a (s_ps_obj_tbl w)\<rparr>, GALLUS_RESULT_OK)
              else (w, GALLUS_RESULT_NO_MEMORY))
        else (w, GALLUS_RESULT_NO_MEMORY))
     else (w, GALLUS_RESULT_INVALID_ARGS))"

definition s_delete_stage :: "nat \<Rightarrow> string option \<Rightarrow> stage_world \<Rightarrow> stage_world" where
  "s_delete_stage a name w =
    (let w = w\<lparr>s_ps_obj_tbl := s_ps_obj_tbl w - {a}\<rparr>
     in if is_valid_string name then w\<lparr>s_ps_name_tbl := (s_ps_name_tbl w)(the name := None)\<rparr> else w)"

definition s_is_stage :: "nat \<Rightarrow> stage_world \<Rightarrow> bool" where
  "s_is_stage a w \<longleftrightarrow> a \<in> s_ps_obj_tbl w"

definition s_find_stage :: "string option \<Rightarrow> stage_world \<Rightarrow> nat option" where
  "s_find_stage name w = (if is_valid_string name then s_ps_name_tbl w (the name) else None)"

subsection \<open>Destruction\<close>

fun destroy_workers :: "worker option list \<Rightarrow> stage_call list option" where
  "destroy_workers [] = Some []"
| "destroy_workers (w # ws) =
    (case s_worker_destroy w of
       None \<Rightarrow> None
     | Some cs \<Rightarrow> map_option (\<lambda>cs'. cs @ cs') (destroy_workers ws))"

definition destroy_clean :: "stage_env \<Rightarrow> stage \<Rightarrow> stage option" where
  "destroy_clean env ps =
    (let ps = ps\<lparr>m_status := STAGE_STATE_DESTROYING\<rparr>;
         (ps, _) = s_cancel_stage env (m_n_workers ps) ps;
         (ps, _) = s_wait_stage env (m_n_workers ps) (- 1) True ps
     in map_option
          (\<lambda>cs. let ps = calls cs ps in if p_freeup (m_procs ps) \<noteq> None then calls [Call_freeup] ps else ps)
          (destroy_workers (take (m_n_workers ps) (m_workers ps))))"

text \<open>The name of a stage whose creation failed early is NULL; it is \<open>[]\<close> here, which is no valid name.\<close>

definition s_destroy_stage :: "stage_env \<Rightarrow> nat \<Rightarrow> bool \<Rightarrow> stage_world \<Rightarrow> stage_world option" where
  "s_destroy_stage env a is_clean_finish w =
    (case ps_heap w a of
       None \<Rightarrow> None
     | Some ps \<Rightarrow>
         map_option
           (\<lambda>ps. let w = s_delete_stage a (Some (m_name ps)) w
                 in w\<lparr>ps_heap := (ps_heap w)(a := (if m_is_heap_allocd ps then None else Some ps)),
                      ps_gone := ps_gone w @ [(a, ps)]\<rparr>)
           (if is_clean_finish then destroy_clean env ps else Some ps))"

subsection \<open>Creation\<close>

text \<open>
  What creating a stage gets from elsewhere: memory for the stage, the results of the locks before and
  after the barrier, memory for the name and the array of workers, the result and the buffer of each
  worker, memory in the tables; \<open>ce_others\<close> is what other threads do between the search for the name
  and its entry.
\<close>

record create_env =
  ce_alloc :: bool
  ce_locks :: gallus_result_t
  ce_locks2 :: gallus_result_t
  ce_mem :: bool
  ce_worker :: "nat \<Rightarrow> gallus_result_t"
  ce_buf :: "nat \<Rightarrow> nat"
  ce_tables :: "bool \<times> bool"
  ce_others :: "stage_world \<Rightarrow> stage_world"

definition no_procs :: stage_procs where
  "no_procs = \<lparr>p_pre_pause = None, p_sched = None, p_setup = None, p_fetch = None, p_main = None,
    p_throw = None, p_shutdown = None, p_final = None, p_freeup = None\<rparr>"

text \<open>A stage that is all zeroes.\<close>

definition stage_zero :: stage where
  "stage_zero = \<lparr>m_procs = no_procs, m_name = [], m_workers = [], m_n_workers = 0, m_event_size = 0,
     m_max_batch = 0, m_batch_buffer_size = 0, m_is_heap_allocd = False, m_do_loop = False,
     m_sg_lvl = SHUTDOWN_UNKNOWN, m_status = STAGE_STATE_UNKNOWN, m_n_canceled_workers = 0,
     m_n_shutdown_workers = 0, m_pause_requested = False, m_maint_proc = None, m_maint_arg = None,
     m_post_start_proc = None, m_post_start_arg = None, m_calls = []\<rparr>"

fun create_workers ::
  "create_env \<Rightarrow> string \<Rightarrow> worker_main_proc \<Rightarrow> nat list \<Rightarrow> gallus_result_t \<Rightarrow> worker option list \<times> gallus_result_t" where
  "create_workers ce name proc [] ret = ([], ret)"
| "create_workers ce name proc (i # is) ret =
    (if ret = GALLUS_RESULT_OK then
       (let (ret, w) = s_worker_create (ce_worker ce i) (ce_buf ce i) name i proc;
            (ws, ret) = create_workers ce name proc is ret
        in (w # ws, ret))
     else ([], ret))"

definition s_init_stage ::
  "create_env \<Rightarrow> string \<Rightarrow> bool \<Rightarrow> nat \<Rightarrow> nat \<Rightarrow> nat \<Rightarrow> stage_procs \<Rightarrow> stage \<Rightarrow> (stage \<times> gallus_result_t) option" where
  "s_init_stage ce name is_heap_allocd n_workers event_size max_batch_size procs ps =
    (case s_find_worker_proc (p_fetch procs) (p_main procs) (p_throw procs) of
       None \<Rightarrow> Some (ps, GALLUS_RESULT_INVALID_ARGS)
     | Some proc \<Rightarrow>
         (let ps = stage_zero;
              ret = (if ce_locks ce \<noteq> GALLUS_RESULT_OK then ce_locks ce
                     else if n_workers = 0 then GALLUS_RESULT_INVALID_ARGS else ce_locks2 ce)
          in if ret = GALLUS_RESULT_OK then
               (if ce_mem ce then
                  (let ps = ps\<lparr>m_name := name, m_event_size := event_size, m_max_batch := max_batch_size,
                              m_batch_buffer_size := event_size * max_batch_size\<rparr>;
                       (ws, ret) = create_workers ce name proc [0..<n_workers] ret;
                       ps = ps\<lparr>m_workers := ws\<rparr>
                   in if ret = GALLUS_RESULT_OK then
                        Some (ps\<lparr>m_procs := procs, m_n_workers := n_workers, m_is_heap_allocd := is_heap_allocd,
                                m_do_loop := False, m_sg_lvl := SHUTDOWN_UNKNOWN,
                                m_status := STAGE_STATE_INITIALIZED, m_n_canceled_workers := 0,
                                m_n_shutdown_workers := 0, m_pause_requested := False, m_maint_proc := None,
                                m_maint_arg := None, m_post_start_proc := None, m_post_start_arg := None\<rparr>,
                              GALLUS_RESULT_OK)
                      else map_option (\<lambda>cs. (calls cs ps, ret)) (destroy_workers ws))
                else Some (ps, GALLUS_RESULT_NO_MEMORY))
             else Some (ps, ret)))"

text \<open>\<open>a\<close> is the address \<^verbatim>\<open>malloc\<close> gives, \<open>mem\<close> what memory of the caller at \<open>*sptr\<close> holds.\<close>

definition gallus_pipeline_stage_create ::
  "stage_env \<Rightarrow> create_env \<Rightarrow> nat \<Rightarrow> stage \<Rightarrow> nat option \<Rightarrow> string option \<Rightarrow> nat \<Rightarrow> nat \<Rightarrow> nat \<Rightarrow> stage_procs \<Rightarrow>
   stage_world \<Rightarrow> (stage_world \<times> nat option \<times> gallus_result_t) option" where
  "gallus_pipeline_stage_create env ce a mem h name n_workers event_size max_batch_size procs w =
    (let checked_ps = s_find_stage name w
     in if is_valid_string name \<and> checked_ps = None \<and> event_size > 0 \<and> max_batch_size > 0 \<and> p_main procs \<noteq> None then
          (if h = None \<and> \<not> ce_alloc ce then Some (w, None, GALLUS_RESULT_NO_MEMORY)
           else
             (let b = (case h of Some b \<Rightarrow> b | None \<Rightarrow> a)
              in case s_init_stage ce (the name) (h = None) n_workers event_size max_batch_size procs mem of
                   None \<Rightarrow> None
                 | Some (ps, ret) \<Rightarrow>
                     (let w = ce_others ce (w\<lparr>ps_heap := (ps_heap w)(b \<mapsto> ps)\<rparr>);
                          (w, ret) = (if ret = GALLUS_RESULT_OK then s_add_stage (ce_tables ce) b (m_name ps) w
                                      else (w, ret))
                      in if ret = GALLUS_RESULT_OK then Some (w, Some b, ret)
                         else map_option (\<lambda>w. (w, None, ret)) (s_destroy_stage env b False w))))
        else Some (w, None, if checked_ps \<noteq> None then GALLUS_RESULT_ALREADY_EXISTS else GALLUS_RESULT_INVALID_ARGS))"

definition gallus_pipeline_stage_destroy :: "stage_env \<Rightarrow> nat option \<Rightarrow> stage_world \<Rightarrow> stage_world option" where
  "gallus_pipeline_stage_destroy env h w =
    (case h of
       Some a \<Rightarrow> if s_is_stage a w then s_destroy_stage env a True w else Some w
     | None \<Rightarrow> Some w)"

subsection \<open>The calls on a handle\<close>

definition on_stage ::
  "(stage \<Rightarrow> (stage \<times> gallus_result_t option) option) \<Rightarrow> nat option \<Rightarrow> stage_world \<Rightarrow>
   (stage_world \<times> gallus_result_t option) option" where
  "on_stage f h w =
    (case h of
       None \<Rightarrow> Some (w, Some GALLUS_RESULT_INVALID_ARGS)
     | Some a \<Rightarrow>
         if s_is_stage a w then
           (case ps_heap w a of
              None \<Rightarrow> None
            | Some ps \<Rightarrow> map_option (\<lambda>(ps, ret). (w\<lparr>ps_heap := (ps_heap w)(a \<mapsto> ps)\<rparr>, ret)) (f ps))
         else Some (w, Some GALLUS_RESULT_INVALID_OBJECT))"

definition gallus_pipeline_stage_setup ::
  "stage_env \<Rightarrow> nat option \<Rightarrow> stage_world \<Rightarrow> (stage_world \<times> gallus_result_t option) option" where
  "gallus_pipeline_stage_setup env = on_stage (\<lambda>ps. Some (map_prod id Some (stage_setup env ps)))"

definition gallus_pipeline_stage_start ::
  "stage_env \<Rightarrow> nat option \<Rightarrow> stage_world \<Rightarrow> (stage_world \<times> gallus_result_t option) option" where
  "gallus_pipeline_stage_start env = on_stage (\<lambda>ps. Some (map_prod id Some (stage_start env ps)))"

definition gallus_pipeline_stage_cancel ::
  "stage_env \<Rightarrow> nat option \<Rightarrow> stage_world \<Rightarrow> (stage_world \<times> gallus_result_t option) option" where
  "gallus_pipeline_stage_cancel env = on_stage (\<lambda>ps. Some (map_prod id Some (stage_cancel env ps)))"

definition gallus_pipeline_stage_shutdown ::
  "stage_env \<Rightarrow> shutdown_grace_level \<Rightarrow> nat option \<Rightarrow> stage_world \<Rightarrow> (stage_world \<times> gallus_result_t option) option" where
  "gallus_pipeline_stage_shutdown env lvl = on_stage (\<lambda>ps. Some (map_prod id Some (stage_shutdown env lvl ps)))"

definition gallus_pipeline_stage_wait ::
  "stage_env \<Rightarrow> bool list \<Rightarrow> gallus_chrono_t \<Rightarrow> nat option \<Rightarrow> stage_world \<Rightarrow>
   (stage_world \<times> gallus_result_t option) option" where
  "gallus_pipeline_stage_wait env ended nsec =
    on_stage (\<lambda>ps. map_option (map_prod id Some) (stage_wait env ended nsec ps))"

definition gallus_pipeline_stage_pause ::
  "stage_wake list \<Rightarrow> nat option \<Rightarrow> stage_world \<Rightarrow> (stage_world \<times> gallus_result_t option) option" where
  "gallus_pipeline_stage_pause ws = on_stage (\<lambda>ps. Some (stage_pause ws ps))"

definition gallus_pipeline_stage_resume ::
  "nat option \<Rightarrow> stage_world \<Rightarrow> (stage_world \<times> gallus_result_t option) option" where
  "gallus_pipeline_stage_resume = on_stage (\<lambda>ps. Some (map_prod id Some (stage_resume ps)))"

definition gallus_pipeline_stage_schedule_maintenance ::
  "stage_wake list \<Rightarrow> nat option \<Rightarrow> nat option \<Rightarrow> nat option \<Rightarrow> stage_world \<Rightarrow>
   (stage_world \<times> gallus_result_t option) option" where
  "gallus_pipeline_stage_schedule_maintenance ws func arg =
    on_stage (\<lambda>ps. Some (stage_schedule_maintenance ws func arg ps))"

definition gallus_pipeline_stage_set_post_start_hook ::
  "nat option \<Rightarrow> nat option \<Rightarrow> nat option \<Rightarrow> stage_world \<Rightarrow> (stage_world \<times> gallus_result_t option) option" where
  "gallus_pipeline_stage_set_post_start_hook func arg =
    on_stage (\<lambda>ps. Some (map_prod id Some (stage_set_post_start_hook func arg ps)))"

text \<open>The value stored through the pointer, None when there is none.\<close>

definition gallus_pipeline_stage_find ::
  "string option \<Rightarrow> stage_world \<Rightarrow> nat option option \<times> gallus_result_t" where
  "gallus_pipeline_stage_find name w =
    (if is_valid_string name then
       (let r = s_find_stage name w
        in (Some r, if r \<noteq> None then GALLUS_RESULT_OK else GALLUS_RESULT_NOT_FOUND))
     else (None, GALLUS_RESULT_INVALID_ARGS))"

text \<open>These read the stage without a look into the table.\<close>

definition raw_stage :: "(stage \<Rightarrow> 'a) \<Rightarrow> 'a \<Rightarrow> nat option \<Rightarrow> stage_world \<Rightarrow> 'a option" where
  "raw_stage f x h w = (case h of None \<Rightarrow> Some x | Some a \<Rightarrow> map_option f (ps_heap w a))"

text \<open>\<open>sched\<close> is what the schedule procedure does with the events.\<close>

definition gallus_pipeline_stage_submit ::
  "(nat \<Rightarrow> nat \<Rightarrow> gallus_result_t) \<Rightarrow> nat \<Rightarrow> nat option \<Rightarrow> stage_world \<Rightarrow> gallus_result_t option" where
  "gallus_pipeline_stage_submit sched n_evs =
    raw_stage
      (\<lambda>ps. case p_sched (m_procs ps) of Some p \<Rightarrow> sched p n_evs | None \<Rightarrow> GALLUS_RESULT_INVALID_ARGS)
      GALLUS_RESULT_INVALID_ARGS"

definition gallus_pipeline_stage_get_worker_nubmer :: "nat option \<Rightarrow> stage_world \<Rightarrow> gallus_result_t option" where
  "gallus_pipeline_stage_get_worker_nubmer = raw_stage (\<lambda>ps. int (m_n_workers ps)) GALLUS_RESULT_INVALID_ARGS"

definition gallus_pipeline_stage_get_worker_event_buffer ::
  "nat \<Rightarrow> nat option \<Rightarrow> stage_world \<Rightarrow> (nat option option \<times> gallus_result_t) option" where
  "gallus_pipeline_stage_get_worker_event_buffer index =
    raw_stage
      (\<lambda>ps. if index < m_n_workers ps
            then (Some (s_worker_get_buffer (m_workers ps ! index)), GALLUS_RESULT_OK)
            else (None, GALLUS_RESULT_INVALID_ARGS))
      (None, GALLUS_RESULT_INVALID_ARGS)"

definition set_event_buffer :: "nat \<Rightarrow> nat option \<Rightarrow> nat option \<Rightarrow> stage \<Rightarrow> stage \<times> gallus_result_t" where
  "set_event_buffer index buf freeup_proc ps =
    (if buf \<noteq> None \<and> index < m_n_workers ps then
       (case s_worker_set_buffer (m_workers ps ! index) buf freeup_proc of
          (wk, obuf, cs) \<Rightarrow>
            (calls cs (ps\<lparr>m_workers := (m_workers ps)[index := wk]\<rparr>),
             if obuf \<noteq> None then GALLUS_RESULT_OK else GALLUS_RESULT_INVALID_ARGS))
     else (ps, GALLUS_RESULT_INVALID_ARGS))"

definition gallus_pipeline_stage_set_worker_event_buffer ::
  "nat \<Rightarrow> nat option \<Rightarrow> nat option \<Rightarrow> nat option \<Rightarrow> stage_world \<Rightarrow> (stage_world \<times> gallus_result_t) option" where
  "gallus_pipeline_stage_set_worker_event_buffer index buf freeup_proc h w =
    (case h of
       None \<Rightarrow> Some (w, GALLUS_RESULT_INVALID_ARGS)
     | Some a \<Rightarrow>
         map_option
           (\<lambda>ps. case set_event_buffer index buf freeup_proc ps of
                   (ps, ret) \<Rightarrow> (w\<lparr>ps_heap := (ps_heap w)(a \<mapsto> ps)\<rparr>, ret))
           (ps_heap w a))"

definition gallus_pipeline_stage_get_name ::
  "nat option \<Rightarrow> stage_world \<Rightarrow> (string option \<times> gallus_result_t) option" where
  "gallus_pipeline_stage_get_name =
    raw_stage (\<lambda>ps. (Some (m_name ps), GALLUS_RESULT_OK)) (None, GALLUS_RESULT_INVALID_ARGS)"

end
