(* ===== verification/Stage_Laws.thy ===== *)
theory Stage_Laws
  imports Stage_Registry
begin

text \<open>
  The life of a stage: over any sequence of calls the finalization and the shutdown procedure run at
  most once, after all workers have ended. Cancelling reaches every worker. A stage that is created can
  be found by its name and its address, and its destruction releases everything once. At the end, what
  goes wrong when a start, a wait or a creation fails.
\<close>

subsection \<open>Calls and acts of the workers on one stage\<close>

datatype stage_op =
  Op_setup stage_env | Op_start stage_env | Op_cancel stage_env | Op_shutdown stage_env shutdown_grace_level |
  Op_wait stage_env "bool list" gallus_chrono_t | Op_pause "stage_wake list" | Op_resume |
  Op_maintenance "stage_wake list" "nat option" "nat option" | Op_hook "nat option" "nat option" |
  Op_act worker_act

definition live_status :: "stage_state \<Rightarrow> bool" where
  "live_status s \<longleftrightarrow> s \<in> {STAGE_STATE_STARTED, STAGE_STATE_PAUSED, STAGE_STATE_MAINTENANCE_REQUESTED}"

definition ended_status :: "stage_state \<Rightarrow> bool" where
  "ended_status s \<longleftrightarrow> s \<in> {STAGE_STATE_CANCELED, STAGE_STATE_SHUTDOWN}"

lemma live_status_simps [simp]:
  "live_status STAGE_STATE_STARTED" "live_status STAGE_STATE_PAUSED" "live_status STAGE_STATE_MAINTENANCE_REQUESTED"
  by (simp_all add: live_status_def)

text \<open>Workers act only while the stage runs; None is the end of the process or no possible run.\<close>

fun stage_do :: "stage_op \<Rightarrow> stage \<Rightarrow> stage option" where
  "stage_do (Op_setup env) ps = Some (fst (stage_setup env ps))"
| "stage_do (Op_start env) ps = Some (fst (stage_start env ps))"
| "stage_do (Op_cancel env) ps = Some (fst (stage_cancel env ps))"
| "stage_do (Op_shutdown env lvl) ps = Some (fst (stage_shutdown env lvl ps))"
| "stage_do (Op_wait env ended nsec) ps = map_option fst (stage_wait env ended nsec ps)"
| "stage_do (Op_pause ws) ps = Some (fst (stage_pause ws ps))"
| "stage_do Op_resume ps = Some (fst (stage_resume ps))"
| "stage_do (Op_maintenance ws func arg) ps = Some (fst (stage_schedule_maintenance ws func arg ps))"
| "stage_do (Op_hook func arg) ps = Some (fst (stage_set_post_start_hook func arg ps))"
| "stage_do (Op_act act) ps = (if live_status (m_status ps) then Some (do_act act ps) else None)"

fun stage_run :: "stage_op list \<Rightarrow> stage \<Rightarrow> stage option" where
  "stage_run [] ps = Some ps"
| "stage_run (op # ops) ps = (case stage_do op ps of Some ps \<Rightarrow> stage_run ops ps | None \<Rightarrow> None)"

subsection \<open>The last procedures\<close>

fun is_last_call :: "stage_call \<Rightarrow> bool" where
  "is_last_call (Call_final b) = True"
| "is_last_call (Call_shutdown l) = True"
| "is_last_call c = False"

definition last_calls :: "stage \<Rightarrow> stage_call list" where
  "last_calls ps = filter is_last_call (m_calls ps)"

definition final_calls :: "stage_procs \<Rightarrow> bool \<Rightarrow> shutdown_grace_level \<Rightarrow> stage_call list" where
  "final_calls procs is_canceled lvl =
    (if p_final procs \<noteq> None then [Call_final is_canceled] else []) @
    (if p_shutdown procs \<noteq> None then [Call_shutdown lvl] else [])"

definition stage_ok :: "stage \<Rightarrow> bool" where
  "stage_ok ps \<longleftrightarrow>
     m_status ps \<notin> {STAGE_STATE_FINALIZED, STAGE_STATE_DESTROYING, STAGE_STATE_UNKNOWN} \<and>
     (if ended_status (m_status ps) then
        last_calls ps = final_calls (m_procs ps) (m_status ps = STAGE_STATE_CANCELED) (m_sg_lvl ps) \<and>
        m_n_shutdown_workers ps = m_n_workers ps \<and>
        (m_status ps = STAGE_STATE_CANCELED) = (0 < m_n_canceled_workers ps)
      else last_calls ps = [])"

lemma last_calls_calls [simp]: "last_calls (calls cs ps) = last_calls ps @ filter is_last_call cs"
  by (simp add: last_calls_def calls_def)

lemma calls_simps [simp]:
  "m_status (calls cs ps) = m_status ps" "m_procs (calls cs ps) = m_procs ps" "m_sg_lvl (calls cs ps) = m_sg_lvl ps"
  "m_n_workers (calls cs ps) = m_n_workers ps" "m_n_shutdown_workers (calls cs ps) = m_n_shutdown_workers ps"
  "m_n_canceled_workers (calls cs ps) = m_n_canceled_workers ps"
  "m_workers (calls cs ps) = m_workers ps" "m_name (calls cs ps) = m_name ps"
  "m_is_heap_allocd (calls cs ps) = m_is_heap_allocd ps" "m_calls (calls cs ps) = m_calls ps @ cs"
  "m_do_loop (calls cs ps) = m_do_loop ps" "m_pause_requested (calls cs ps) = m_pause_requested ps"
  "m_maint_proc (calls cs ps) = m_maint_proc ps"
  by (simp_all add: calls_def)

lemma last_calls_update [simp]:
  "last_calls (ps\<lparr>m_status := a\<rparr>) = last_calls ps" "last_calls (ps\<lparr>m_sg_lvl := l\<rparr>) = last_calls ps"
  "last_calls (ps\<lparr>m_do_loop := b\<rparr>) = last_calls ps" "last_calls (ps\<lparr>m_pause_requested := b\<rparr>) = last_calls ps"
  "last_calls (ps\<lparr>m_maint_proc := f\<rparr>) = last_calls ps" "last_calls (ps\<lparr>m_maint_arg := f\<rparr>) = last_calls ps"
  "last_calls (ps\<lparr>m_post_start_proc := f\<rparr>) = last_calls ps" "last_calls (ps\<lparr>m_post_start_arg := f\<rparr>) = last_calls ps"
  "last_calls (ps\<lparr>m_n_canceled_workers := n\<rparr>) = last_calls ps"
  "last_calls (ps\<lparr>m_n_shutdown_workers := n\<rparr>) = last_calls ps"
  by (simp_all add: last_calls_def)

lemma filter_no_last [simp]:
  "filter is_last_call (map Thread_start is) = []" "filter is_last_call (map Thread_cancel is) = []"
  "filter is_last_call (map (\<lambda>i. Thread_wait i w) is) = []"
  by (simp_all add: filter_empty_conv)

lemma wait_loop_no_last: "wait_loop env is ret w = (cs, ret') \<Longrightarrow> filter is_last_call cs = []"
  by (induction "is" arbitrary: ret w cs) (auto simp: Let_def split: if_splits prod.splits)

lemma s_wait_stage_frame:
  assumes "s_wait_stage env n nsec d ps = (ps', ret)"
  shows "\<exists>cs. ps' = calls cs ps \<and> filter is_last_call cs = []"
proof (cases "\<not> d \<and> nsec > 0")
  case True
  obtain cs r where "wait_loop env [0..<n] GALLUS_RESULT_OK nsec = (cs, r)" by fastforce
  then show ?thesis using assms True wait_loop_no_last by (auto simp: s_wait_stage_def)
next
  case False
  then show ?thesis using assms by (auto simp: s_wait_stage_def)
qed

text \<open>Acts of the workers keep a running stage running and call none of the last procedures.\<close>

lemma do_act_live:
  assumes "live_status (m_status ps)" "last_calls ps = []"
  shows "live_status (m_status (do_act a ps)) \<and> last_calls (do_act a ps) = []"
  using assms
  by (cases a) (auto simp: report_paused_def run_maintenance_def s_worker_finalize_def live_status_def Let_def
      split: option.splits)

lemma acts_live:
  "live_status (m_status ps) \<Longrightarrow> last_calls ps = [] \<Longrightarrow>
   live_status (m_status (fold do_act as ps)) \<and> last_calls (fold do_act as ps) = []"
  by (induction "as" arbitrary: ps) (use do_act_live in auto)

lemma pause_recheck_live:
  assumes "live_status (m_status ps)" "last_calls ps = []"
  shows "live_status (m_status (fst (pause_recheck ws ps))) \<and> last_calls (fst (pause_recheck ws ps)) = []"
  using assms
proof (induction ws arbitrary: ps)
  case (Cons w ws)
  obtain r as where w: "w = (r, as)" by (cases w)
  have "live_status (m_status (fold do_act as ps))" "last_calls (fold do_act as ps) = []"
    using acts_live [OF Cons.prems] by simp_all
  from this Cons.IH [OF this] show ?case using Cons.prems by (simp add: w Let_def)
qed simp

lemma maint_recheck_live:
  assumes "live_status (m_status ps)" "last_calls ps = []"
  shows "live_status (m_status (fst (maint_recheck ws ps))) \<and> last_calls (fst (maint_recheck ws ps)) = []"
  using assms
proof (induction ws arbitrary: ps)
  case (Cons w ws)
  obtain r as where w: "w = (r, as)" by (cases w)
  have "live_status (m_status (fold do_act as ps))" "last_calls (fold do_act as ps) = []"
    using acts_live [OF Cons.prems] by simp_all
  from this Cons.IH [OF this] show ?case using Cons.prems by (simp add: w Let_def)
qed simp

lemma stage_ok_live: "live_status (m_status ps) \<Longrightarrow> stage_ok ps = (last_calls ps = [])"
  by (auto simp: stage_ok_def live_status_def ended_status_def)

lemma not_ended_statuses [simp]:
  "\<not> ended_status STAGE_STATE_INITIALIZED" "\<not> ended_status STAGE_STATE_SETUP" "\<not> ended_status STAGE_STATE_STARTED"
  "\<not> ended_status STAGE_STATE_PAUSED" "\<not> ended_status STAGE_STATE_MAINTENANCE_REQUESTED"
  "ended_status STAGE_STATE_CANCELED" "ended_status STAGE_STATE_SHUTDOWN"
  by (simp_all add: ended_status_def)

subsection \<open>Each call keeps the invariant\<close>

lemma stage_setup_ok: "stage_ok ps \<Longrightarrow> stage_ok (fst (stage_setup env ps))"
  by (auto simp: stage_ok_def stage_setup_def Let_def split: if_splits)

lemma s_cancel_stage_simps:
  "fst (s_cancel_stage env n ps) =
     (calls (map Thread_cancel [0..<n]) ps)\<lparr>m_sg_lvl := SHUTDOWN_RIGHT_NOW, m_do_loop := False\<rparr>"
  by (simp add: s_cancel_stage_def Let_def)

lemma stage_start_ok: "stage_ok ps \<Longrightarrow> stage_ok (fst (stage_start env ps))"
  by (auto simp: stage_ok_def stage_start_def s_cancel_stage_def s_wait_stage_def Let_def ended_status_def
      split: if_splits prod.splits)

lemma stage_cancel_ok: "stage_ok ps \<Longrightarrow> stage_ok (fst (stage_cancel env ps))"
  by (auto simp: stage_ok_def stage_cancel_def s_cancel_stage_def Let_def)

lemma stage_shutdown_ok: "stage_ok ps \<Longrightarrow> stage_ok (fst (stage_shutdown env lvl ps))"
  by (auto simp: stage_ok_def stage_shutdown_def s_cancel_stage_def s_resume_stage_def Let_def)

lemma finalize_frame:
  "last_calls (fold s_worker_finalize bs ps) = last_calls ps"
  "m_status (fold s_worker_finalize bs ps) = m_status ps"
  "m_procs (fold s_worker_finalize bs ps) = m_procs ps"
  "m_n_workers (fold s_worker_finalize bs ps) = m_n_workers ps"
  "m_sg_lvl (fold s_worker_finalize bs ps) = m_sg_lvl ps"
  by (induction bs arbitrary: ps) (simp_all add: s_worker_finalize_def Let_def)

lemma stage_wait_ok:
  assumes "stage_ok ps" "stage_wait env ended nsec ps = Some (ps', ret)"
  shows "stage_ok ps'"
proof (cases "m_status ps = STAGE_STATE_STARTED")
  case False
  then show ?thesis using assms by (simp add: stage_wait_def)
next
  case True
  obtain ps1 r where w: "s_wait_stage env (m_n_workers ps) nsec False ps = (ps1, r)" by fastforce
  then obtain cs where ps1: "ps1 = calls cs ps" "filter is_last_call cs = []" using s_wait_stage_frame by blast
  have "last_calls ps = []" using assms(1) True by (simp add: stage_ok_def)
  then show ?thesis
    using assms(2) True ps1
    by (auto simp: stage_wait_def w stage_ok_def finalize_frame final_calls_def Let_def split: if_splits)
qed

lemma pause_leave_simps [simp]:
  "last_calls (pause_leave ret ps) = last_calls ps" "m_status (pause_leave ret ps) = m_status ps"
  "last_calls (maint_leave ret ps) = last_calls ps" "m_status (maint_leave ret ps) = m_status ps"
  by (simp_all add: pause_leave_def maint_leave_def)

lemma stage_pause_ok:
  assumes "stage_ok ps"
  shows "stage_ok (fst (stage_pause ws ps))"
proof (cases "m_status ps = STAGE_STATE_STARTED")
  case True
  have "live_status (m_status (pause_enter ps))" "last_calls (pause_enter ps) = []"
    using assms True by (auto simp: pause_enter_def stage_ok_def live_status_def Let_def)
  then show ?thesis
    using True pause_recheck_live [of "pause_enter ps" ws]
    by (auto simp: stage_pause_def stage_ok_live split: prod.splits option.splits)
qed (use assms in \<open>auto simp: stage_pause_def\<close>)

lemma stage_schedule_maintenance_ok:
  assumes "stage_ok ps"
  shows "stage_ok (fst (stage_schedule_maintenance ws func arg ps))"
proof (cases "m_status ps = STAGE_STATE_STARTED")
  case True
  have "live_status (m_status (maint_enter func arg ps))" "last_calls (maint_enter func arg ps) = []"
    using assms True by (auto simp: maint_enter_def stage_ok_def live_status_def Let_def)
  then show ?thesis
    using True maint_recheck_live [of "maint_enter func arg ps" ws]
    by (auto simp: stage_schedule_maintenance_def stage_ok_live split: prod.splits option.splits)
qed (use assms in \<open>auto simp: stage_schedule_maintenance_def\<close>)

lemma stage_do_ok:
  assumes "stage_ok ps" "stage_do op ps = Some ps'"
  shows "stage_ok ps'"
proof (cases op)
  case (Op_act a)
  then have "live_status (m_status ps)" "ps' = do_act a ps" using assms by (auto split: if_splits)
  then show ?thesis using assms(1) do_act_live [of ps a] by (simp add: stage_ok_live)
next
  case (Op_wait env ended nsec)
  then show ?thesis using assms stage_wait_ok [of ps env ended nsec] by auto
next
  case (Op_pause ws)
  then show ?thesis using assms stage_pause_ok [of ps ws] by auto
next
  case (Op_maintenance ws func arg)
  then show ?thesis using assms stage_schedule_maintenance_ok [of ps ws func arg] by auto
next
  case (Op_start env)
  then show ?thesis using assms stage_start_ok [of ps env] by auto
next
  case Op_resume
  then show ?thesis using assms by (auto simp: stage_resume_def s_resume_stage_def stage_ok_def split: if_splits)
next
  case (Op_hook func arg)
  then show ?thesis using assms by (auto simp: stage_set_post_start_hook_def stage_ok_def)
qed (use assms stage_setup_ok stage_cancel_ok stage_shutdown_ok in auto)

lemma stage_run_ok: "stage_ok ps \<Longrightarrow> stage_run ops ps = Some ps' \<Longrightarrow> stage_ok ps'"
  by (induction ops arbitrary: ps) (auto split: option.splits dest: stage_do_ok)

text \<open>
  C28. Over any sequence of calls and acts of the workers the finalization and the shutdown procedure
  of a stage run at most once, in this order, when all of its workers have ended, and say whether one
  of them was cancelled; before that none of them has run.
\<close>

theorem stage_final_once:
  assumes "m_status ps = STAGE_STATE_INITIALIZED" "m_calls ps = []" "stage_run ops ps = Some ps'"
  shows "if ended_status (m_status ps')
         then last_calls ps' = final_calls (m_procs ps') (0 < m_n_canceled_workers ps') (m_sg_lvl ps') \<and>
              m_n_shutdown_workers ps' = m_n_workers ps'
         else last_calls ps' = []"
proof -
  have "stage_ok ps" using assms(1,2) by (simp add: stage_ok_def last_calls_def)
  then have "stage_ok ps'" using assms(3) by (rule stage_run_ok)
  then show ?thesis by (auto simp: stage_ok_def)
qed

text \<open>An environment in which everything succeeds, and a stage with two workers, for examples.\<close>

definition good_stage_env :: stage_env where
  "good_stage_env = \<lparr>env_setup = GALLUS_RESULT_OK, env_start = (\<lambda>i. GALLUS_RESULT_OK),
     env_cancel = (\<lambda>i. GALLUS_RESULT_OK), env_wait = (\<lambda>i w. (GALLUS_RESULT_OK, 1))\<rparr>"

definition two_workers :: stage where
  "two_workers = stage_zero\<lparr>m_procs := no_procs\<lparr>p_main := Some 1, p_final := Some 2, p_shutdown := Some 3\<rparr>,
     m_name := ''s'', m_n_workers := 2, m_status := STAGE_STATE_INITIALIZED,
     m_workers := map (\<lambda>i. Some \<lparr>w_idx = i, w_proc = W_m, w_is_started = False, w_buf = Some i, w_freeup_proc = Some 0\<rparr>) [0, 1]\<rparr>"

lemmas stage_example = good_stage_env_def two_workers_def stage_zero_def no_procs_def

lemma stage_final_once_witness:
  "\<exists>ps. stage_run [Op_start good_stage_env, Op_shutdown good_stage_env SHUTDOWN_GRACEFULLY,
        Op_wait good_stage_env [False, False] (- 1), Op_resume] two_workers = Some ps \<and>
      last_calls ps = [Call_final False, Call_shutdown SHUTDOWN_GRACEFULLY] \<and>
      m_n_shutdown_workers ps = 2"
proof -
  let ?ops = "[Op_start good_stage_env, Op_shutdown good_stage_env SHUTDOWN_GRACEFULLY,
        Op_wait good_stage_env [False, False] (- 1), Op_resume]"
  obtain ps where run: "stage_run ?ops two_workers = Some ps"
    and ps: "m_status ps = STAGE_STATE_SHUTDOWN" "m_procs ps = m_procs two_workers" "m_n_workers ps = 2"
      "m_n_canceled_workers ps = 0" "m_sg_lvl ps = SHUTDOWN_GRACEFULLY"
    by (simp add: stage_start_def stage_shutdown_def stage_wait_def stage_resume_def s_wait_stage_def
        s_worker_finalize_def stage_example Let_def upt_rec)
  have "m_status two_workers = STAGE_STATE_INITIALIZED" "m_calls two_workers = []" by (simp_all add: stage_example)
  from stage_final_once [OF this run] show ?thesis
    using run ps by (simp add: final_calls_def two_workers_def no_procs_def)
qed

lemma stage_ended_stays:
  assumes "ended_status (m_status ps)" "stage_do op ps = Some ps'"
  shows "m_status ps' = m_status ps \<and> m_calls ps' = m_calls ps"
  using assms
  by (cases op) (auto simp: ended_status_def live_status_def stage_setup_def stage_start_def stage_cancel_def
      stage_shutdown_def stage_wait_def stage_pause_def stage_resume_def stage_schedule_maintenance_def
      stage_set_post_start_hook_def split: if_splits)

subsection \<open>Cancellation\<close>

definition first_error :: "gallus_result_t list \<Rightarrow> gallus_result_t" where
  "first_error rs = (case filter (\<lambda>r. r \<noteq> GALLUS_RESULT_OK) rs of [] \<Rightarrow> GALLUS_RESULT_OK | r # _ \<Rightarrow> r)"

lemma cancel_loop_first:
  "cancel_loop env is e = (if e = GALLUS_RESULT_OK then first_error (map (env_cancel env) is) else e)"
  by (induction "is" arbitrary: e) (auto simp: first_error_def Let_def)

text \<open>Every worker is cancelled whatever the others return; the first error is reported.\<close>

lemma s_cancel_stage_all:
  "s_cancel_stage env n ps =
     ((calls (map Thread_cancel [0..<n]) ps)\<lparr>m_sg_lvl := SHUTDOWN_RIGHT_NOW, m_do_loop := False\<rparr>,
      first_error (map (env_cancel env) [0..<n]))"
  by (simp add: s_cancel_stage_def cancel_loop_first Let_def)

subsection \<open>Creation and destruction\<close>

lemma create_workers_ok:
  assumes "create_workers ce name proc is ret = (ws, GALLUS_RESULT_OK)" "is_valid_string (Some name)"
  shows "ws = map (\<lambda>i. Some \<lparr>w_idx = i, w_proc = proc, w_is_started = False, w_buf = Some (ce_buf ce i),
            w_freeup_proc = Some 0\<rparr>) is"
  using assms
proof (induction "is" arbitrary: ret ws)
  case (Cons i "is")
  have c: "create_workers ce name proc js r = (vs, r') \<Longrightarrow> r \<noteq> GALLUS_RESULT_OK \<Longrightarrow> r' = r" for js r r' vs
    by (cases js) (auto simp: Let_def)
  show ?case
    using Cons.prems Cons.IH
    by (auto simp: s_worker_create_def Let_def split: if_splits prod.splits dest: c)
qed simp

lemma destroy_workers_all:
  "destroy_workers (map (\<lambda>i. Some \<lparr>w_idx = i, w_proc = p, w_is_started = False, w_buf = Some (f i),
      w_freeup_proc = Some 0\<rparr>) is) = Some (concat (map (\<lambda>i. [Free_buffer (f i), Thread_destroy i]) is))"
  by (induction "is") (simp_all add: s_worker_destroy_def)

lemma s_init_stage_ok:
  assumes "s_init_stage ce name heap n ev batch procs mem = Some (ps, GALLUS_RESULT_OK)" "is_valid_string (Some name)"
  shows "\<exists>proc. m_workers ps = map (\<lambda>i. Some \<lparr>w_idx = i, w_proc = proc, w_is_started = False,
            w_buf = Some (ce_buf ce i), w_freeup_proc = Some 0\<rparr>) [0..<n]"
    and "m_name ps = name" "m_procs ps = procs" "m_n_workers ps = n" "m_is_heap_allocd ps = heap" "m_calls ps = []"
    and "m_status ps = STAGE_STATE_INITIALIZED"
proof -
  obtain proc where proc: "s_find_worker_proc (p_fetch procs) (p_main procs) (p_throw procs) = Some proc"
    using assms(1) by (auto simp: s_init_stage_def split: option.splits)
  obtain ws r where ws: "create_workers ce name proc [0..<n] GALLUS_RESULT_OK = (ws, r)" by fastforce
  have r: "r = GALLUS_RESULT_OK"
    using assms(1) proc ws by (auto simp: s_init_stage_def Let_def split: if_splits)
  note w = create_workers_ok [OF ws [unfolded r] assms(2)]
  show "\<exists>proc. m_workers ps = map (\<lambda>i. Some \<lparr>w_idx = i, w_proc = proc, w_is_started = False,
            w_buf = Some (ce_buf ce i), w_freeup_proc = Some 0\<rparr>) [0..<n]"
    using assms(1) proc ws w r by (auto simp: s_init_stage_def Let_def split: if_splits)
  show "m_name ps = name" "m_procs ps = procs" "m_n_workers ps = n" "m_is_heap_allocd ps = heap" "m_calls ps = []"
    "m_status ps = STAGE_STATE_INITIALIZED"
    using assms(1) proc ws r by (auto simp: s_init_stage_def Let_def stage_zero_def split: if_splits)
qed

lemma s_add_stage_ok:
  assumes "s_add_stage mem b name w = (w', GALLUS_RESULT_OK)"
  shows "w' = w\<lparr>s_ps_name_tbl := (s_ps_name_tbl w)(name \<mapsto> b), s_ps_obj_tbl := insert b (s_ps_obj_tbl w)\<rparr>"
    and "s_ps_name_tbl w name = None"
  using assms by (auto simp: s_add_stage_def Let_def split: if_splits)

lemma stage_create_world:
  assumes c: "gallus_pipeline_stage_create env ce a mem h (Some name) n ev batch procs w = Some (w', h', GALLUS_RESULT_OK)"
    and "ce_others ce = id"
  shows "\<exists>b ps proc. h' = Some b \<and> b = (case h of Some b \<Rightarrow> b | None \<Rightarrow> a) \<and>
      is_valid_string (Some name) \<and> s_ps_name_tbl w name = None \<and>
      w' = w\<lparr>ps_heap := (ps_heap w)(b \<mapsto> ps), s_ps_name_tbl := (s_ps_name_tbl w)(name \<mapsto> b),
             s_ps_obj_tbl := insert b (s_ps_obj_tbl w)\<rparr> \<and>
      m_workers ps = map (\<lambda>i. Some \<lparr>w_idx = i, w_proc = proc, w_is_started = False,
            w_buf = Some (ce_buf ce i), w_freeup_proc = Some 0\<rparr>) [0..<n] \<and>
      m_name ps = name \<and> m_procs ps = procs \<and> m_n_workers ps = n \<and> m_calls ps = [] \<and>
      m_status ps = STAGE_STATE_INITIALIZED"
proof -
  let ?b = "case h of Some b \<Rightarrow> b | None \<Rightarrow> a"
  have valid: "is_valid_string (Some name)"
    using c by (auto simp: gallus_pipeline_stage_create_def Let_def split: if_splits)
  obtain ps where init: "s_init_stage ce name (h = None) n ev batch procs mem = Some (ps, GALLUS_RESULT_OK)"
    and add: "s_add_stage (ce_tables ce) ?b (m_name ps) (w\<lparr>ps_heap := (ps_heap w)(?b \<mapsto> ps)\<rparr>) = (w', GALLUS_RESULT_OK)"
    and h': "h' = Some ?b"
    using c assms(2)
    by (auto simp: gallus_pipeline_stage_create_def Let_def split: if_splits option.splits prod.splits)
  note ps = s_init_stage_ok [OF init valid]
  show ?thesis
    using ps s_add_stage_ok [OF add] h' valid by (intro exI [of _ ?b]) auto
qed

text \<open>
  A stage that was created is found by its name and its address; destroying it takes it out of the
  tables and cancels, joins and destroys each of its workers and frees each buffer exactly once, and
  then any call on the old handle is refused.
\<close>

theorem stage_create_destroy:
  assumes "gallus_pipeline_stage_create env ce a mem h (Some name) n ev batch procs w = Some (w1, h', GALLUS_RESULT_OK)"
    and "ce_others ce = id" "a \<notin> s_ps_obj_tbl w" "h = None"
  shows "gallus_pipeline_stage_find (Some name) w1 = (Some h', GALLUS_RESULT_OK) \<and> h' = Some a \<and> s_is_stage a w1 \<and>
    (\<exists>w2 ps. gallus_pipeline_stage_destroy env' h' w1 = Some w2 \<and>
      s_ps_name_tbl w2 = s_ps_name_tbl w \<and> s_ps_obj_tbl w2 = s_ps_obj_tbl w \<and>
      ps_gone w2 = ps_gone w @ [(a, ps)] \<and>
      m_calls ps = map Thread_cancel [0..<n] @ map (\<lambda>i. Thread_wait i (- 1)) [0..<n] @
        concat (map (\<lambda>i. [Free_buffer (ce_buf ce i), Thread_destroy i]) [0..<n]) @
        (if p_freeup procs \<noteq> None then [Call_freeup] else []) \<and>
      gallus_pipeline_stage_start env' h' w2 = Some (w2, Some GALLUS_RESULT_INVALID_OBJECT))"
proof -
  obtain ps proc where h': "h' = Some a" and valid: "is_valid_string (Some name)" "s_ps_name_tbl w name = None"
    and w1: "w1 = w\<lparr>ps_heap := (ps_heap w)(a \<mapsto> ps), s_ps_name_tbl := (s_ps_name_tbl w)(name \<mapsto> a),
             s_ps_obj_tbl := insert a (s_ps_obj_tbl w)\<rparr>"
    and ws: "m_workers ps = map (\<lambda>i. Some \<lparr>w_idx = i, w_proc = proc, w_is_started = False,
            w_buf = Some (ce_buf ce i), w_freeup_proc = Some 0\<rparr>) [0..<n]"
    and ps: "m_name ps = name" "m_procs ps = procs" "m_n_workers ps = n" "m_calls ps = []"
    using stage_create_world [OF assms(1,2)] assms(4) by auto
  have find: "gallus_pipeline_stage_find (Some name) w1 = (Some h', GALLUS_RESULT_OK)" "s_is_stage a w1"
    using valid h' by (simp_all add: gallus_pipeline_stage_find_def s_find_stage_def s_is_stage_def w1)
  obtain ps' where clean: "destroy_clean env' ps = Some ps'"
    and ps': "m_name ps' = name" "m_calls ps' = map Thread_cancel [0..<n] @ map (\<lambda>i. Thread_wait i (- 1)) [0..<n] @
        concat (map (\<lambda>i. [Free_buffer (ce_buf ce i), Thread_destroy i]) [0..<n]) @
        (if p_freeup procs \<noteq> None then [Call_freeup] else [])"
    using ps by (auto simp: destroy_clean_def s_cancel_stage_all s_wait_stage_def Let_def ws destroy_workers_all)
  have restore: "(s_ps_name_tbl w)(name := None) = s_ps_name_tbl w" using valid(2) by (rule fun_upd_idem)
  show ?thesis
    using find h' clean ps' valid assms(3) restore
    by (auto simp: gallus_pipeline_stage_destroy_def s_destroy_stage_def s_delete_stage_def w1 s_is_stage_def
        gallus_pipeline_stage_start_def on_stage_def Let_def)
qed

definition good_create_env :: create_env where
  "good_create_env = \<lparr>ce_alloc = True, ce_locks = GALLUS_RESULT_OK, ce_locks2 = GALLUS_RESULT_OK, ce_mem = True,
     ce_worker = (\<lambda>i. GALLUS_RESULT_OK), ce_buf = (\<lambda>i. i + 10), ce_tables = (True, True), ce_others = id\<rparr>"

definition stage_world_empty :: stage_world where
  "stage_world_empty = \<lparr>s_ps_name_tbl = Map.empty, s_ps_obj_tbl = {}, ps_heap = Map.empty, ps_gone = []\<rparr>"

lemmas create_example = good_create_env_def stage_world_empty_def gallus_pipeline_stage_create_def s_find_stage_def
  s_init_stage_def s_find_worker_proc_def no_procs_def is_valid_string_def s_worker_create_def s_add_stage_def

lemma stage_create_destroy_witness:
  "\<exists>w1 w2 ps. gallus_pipeline_stage_create good_stage_env good_create_env 7 undefined None (Some ''s'') 2 8 4
        (no_procs\<lparr>p_main := Some 1\<rparr>) stage_world_empty = Some (w1, Some 7, GALLUS_RESULT_OK) \<and>
      gallus_pipeline_stage_destroy good_stage_env (Some 7) w1 = Some w2 \<and> ps_gone w2 = [(7, ps)] \<and>
      m_calls ps = [Thread_cancel 0, Thread_cancel 1, Thread_wait 0 (- 1), Thread_wait 1 (- 1),
        Free_buffer 10, Thread_destroy 0, Free_buffer 11, Thread_destroy 1]"
proof -
  obtain w1 where c: "gallus_pipeline_stage_create good_stage_env good_create_env 7 undefined None (Some ''s'') 2 8 4
        (no_procs\<lparr>p_main := Some 1\<rparr>) stage_world_empty = Some (w1, Some 7, GALLUS_RESULT_OK)"
    by (simp add: create_example Let_def upt_rec)
  have "ce_others good_create_env = id" "7 \<notin> s_ps_obj_tbl stage_world_empty" by (simp_all add: create_example)
  from stage_create_destroy [OF c this refl, of good_stage_env] c show ?thesis
    by (auto simp: stage_world_empty_def good_create_env_def no_procs_def upt_rec)
qed

lemma on_stage_unregistered:
  "a \<notin> s_ps_obj_tbl w \<Longrightarrow> on_stage f (Some a) w = Some (w, Some GALLUS_RESULT_INVALID_OBJECT)"
  by (simp add: on_stage_def s_is_stage_def)

subsection \<open>What goes wrong\<close>

text \<open>
  When the creation of a worker fails, the clean-up starts with one worker too many, the one that was
  not created, and reads through its NULL pointer.
\<close>

lemma stage_create_crashes:
  "gallus_pipeline_stage_create env (good_create_env\<lparr>ce_worker := (\<lambda>i. if i = 1 then GALLUS_RESULT_NO_MEMORY else GALLUS_RESULT_OK)\<rparr>)
     7 mem None (Some ''s'') 2 8 4 (no_procs\<lparr>p_main := Some 1\<rparr>) stage_world_empty = None"
  by (simp add: create_example s_worker_destroy_def Let_def upt_rec)

text \<open>
  A stage whose initialization fails before its end is not marked as allocated: nobody frees it.
\<close>

lemma stage_create_leaks:
  "\<exists>w. gallus_pipeline_stage_create env (good_create_env\<lparr>ce_mem := False\<rparr>)
     7 mem None (Some ''s'') 2 8 4 (no_procs\<lparr>p_main := Some 1\<rparr>) stage_world_empty =
       Some (w, None, GALLUS_RESULT_NO_MEMORY) \<and> ps_heap w 7 \<noteq> None"
  by (simp add: create_example s_destroy_stage_def s_delete_stage_def stage_zero_def Let_def)

text \<open>
  Two threads that create stages of the same name at the same time: the one that comes second takes the
  name of the first out of the table.
\<close>

lemma stage_create_race:
  "\<exists>w. gallus_pipeline_stage_create env
       (good_create_env\<lparr>ce_others := (\<lambda>w. fst (the (gallus_pipeline_stage_create env good_create_env 8 mem None
          (Some ''s'') 1 8 4 (no_procs\<lparr>p_main := Some 1\<rparr>) w)))\<rparr>)
       7 mem None (Some ''s'') 1 8 4 (no_procs\<lparr>p_main := Some 1\<rparr>) stage_world_empty =
       Some (w, None, GALLUS_RESULT_ALREADY_EXISTS) \<and>
     s_is_stage 8 w \<and> gallus_pipeline_stage_find (Some ''s'') w = (Some None, GALLUS_RESULT_NOT_FOUND)"
  by (simp add: create_example s_destroy_stage_def s_delete_stage_def stage_zero_def s_is_stage_def
      gallus_pipeline_stage_find_def Let_def)

text \<open>
  With a time limit the limit of the next worker is the time the last wait took, not what is left of
  the limit. When a worker has already ended the loop stops with success before the others are waited
  for, and the process exits because they have not ended.
\<close>

lemma stage_wait_gives_up:
  "s_wait_stage (good_stage_env\<lparr>env_wait := (\<lambda>i w. (GALLUS_RESULT_OK, 0))\<rparr>) 2 1000000000 False ps =
     (calls [Thread_wait 0 1000000000] ps, GALLUS_RESULT_OK)"
  by (simp add: s_wait_stage_def good_stage_env_def Let_def upt_rec)

lemma stage_wait_exits:
  assumes "m_status ps = STAGE_STATE_STARTED" "m_n_workers ps = 2" "m_n_shutdown_workers ps = 0"
  shows "stage_wait (good_stage_env\<lparr>env_wait := (\<lambda>i w. (GALLUS_RESULT_OK, 0))\<rparr>) [False] 1000000000 ps = None"
  using assms by (simp add: stage_wait_def stage_wait_gives_up s_worker_finalize_def Let_def)

text \<open>
  A start that fails leaves the shutdown level of the cancellation behind; the next start does not
  reset it, and its workers take it for a request.
\<close>

lemma stage_start_again:
  "\<exists>ps ps'. stage_start (good_stage_env\<lparr>env_start := (\<lambda>i. if i = 1 then GALLUS_RESULT_NO_MEMORY else GALLUS_RESULT_OK)\<rparr>)
       two_workers = (ps, GALLUS_RESULT_NO_MEMORY) \<and>
     stage_start good_stage_env ps = (ps', GALLUS_RESULT_OK) \<and>
     m_status ps' = STAGE_STATE_STARTED \<and> m_sg_lvl ps' = SHUTDOWN_RIGHT_NOW"
  by (simp add: stage_start_def s_cancel_stage_def s_wait_stage_def stage_example Let_def upt_rec)

text \<open>
  A pause that times out leaves its request behind: resuming succeeds and does not take it back, and the
  stage is paused when its workers get there.
\<close>

lemma stage_pause_timeout_stays:
  assumes "m_status ps = STAGE_STATE_STARTED" "stage_pause [(GALLUS_RESULT_TIMEDOUT, [])] ps = (ps', ret)"
    "stage_resume ps' = (ps'', ret')"
  shows "ret = Some GALLUS_RESULT_TIMEDOUT \<and> ret' = GALLUS_RESULT_OK \<and> m_pause_requested ps''"
  using assms
  by (auto simp: stage_pause_def pause_enter_def pause_leave_def stage_resume_def Let_def split: if_splits)

text \<open>No call ever makes a stage FINALIZED, the state from which it could be started again.\<close>

lemma stage_never_finalized:
  assumes "m_status ps = STAGE_STATE_INITIALIZED" "m_calls ps = []" "stage_run ops ps = Some ps'"
  shows "m_status ps' \<noteq> STAGE_STATE_FINALIZED"
proof -
  have "stage_ok ps" using assms(1,2) by (simp add: stage_ok_def last_calls_def)
  then have "stage_ok ps'" using assms(3) by (rule stage_run_ok)
  then show ?thesis by (simp add: stage_ok_def)
qed

end
