(* ===== verification/Stage_Worker.thy ===== *)
theory Stage_Worker
  imports Stage
begin

text \<open>
  The main loops of the workers, \<^verbatim>\<open>framework/lib/pipeline_worker.c\<close>.

  A turn of the loop is what the worker reads at its head (\<^verbatim>\<open>m_do_loop\<close>, \<^verbatim>\<open>m_sg_lvl\<close>,
  \<^verbatim>\<open>m_pause_requested\<close>, \<^verbatim>\<open>m_maint_proc\<close>) and what the procedures of the stage answer in it; they are
  foreign code. The result is what the worker calls with how many events, and its result; a worker
  whose turns are used up is still in the loop and has none.
\<close>

record turn =
  t_do_loop :: bool
  t_sg_lvl :: shutdown_grace_level
  t_pause :: bool
  t_maint :: bool
  t_fetch :: "nat \<Rightarrow> gallus_result_t"
  t_main :: "nat \<Rightarrow> gallus_result_t"
  t_throw :: "nat \<Rightarrow> gallus_result_t"

datatype worker_event = Fetch nat | Main nat | Throw nat | Pause | Maintenance

subsection \<open>One pass over the procedures\<close>

text \<open>The four bodies: the events of the pass and \<^verbatim>\<open>st\<close> at its end.\<close>

definition pass_f_m_t :: "nat \<Rightarrow> turn \<Rightarrow> worker_event list \<times> gallus_result_t" where
  "pass_f_m_t max_n_evs t =
    (let st = t_fetch t max_n_evs
     in if st > 0 then
          (let n = nat st; st = t_main t n
           in if st > 0 then (let n' = nat st; st = t_throw t n' in ([Fetch max_n_evs, Main n, Throw n'], st))
              else ([Fetch max_n_evs, Main n], st))
        else ([Fetch max_n_evs], st))"

definition pass_f_m :: "nat \<Rightarrow> turn \<Rightarrow> worker_event list \<times> gallus_result_t" where
  "pass_f_m max_n_evs t =
    (let st = t_fetch t max_n_evs
     in if st > 0 then (let n = nat st; st = t_main t n in ([Fetch max_n_evs, Main n], st))
        else ([Fetch max_n_evs], st))"

definition pass_m_t :: "nat \<Rightarrow> turn \<Rightarrow> worker_event list \<times> gallus_result_t" where
  "pass_m_t max_n_evs t =
    (let st = t_main t max_n_evs
     in if st > 0 then (let n = nat st; st = t_throw t n in ([Main max_n_evs, Throw n], st))
        else ([Main max_n_evs], st))"

definition pass_m :: "nat \<Rightarrow> turn \<Rightarrow> worker_event list \<times> gallus_result_t" where
  "pass_m max_n_evs t = (let st = t_main t max_n_evs in ([Main max_n_evs], st))"

fun worker_pass :: "worker_main_proc \<Rightarrow> nat \<Rightarrow> turn \<Rightarrow> worker_event list \<times> gallus_result_t" where
  "worker_pass W_f_m_t = pass_f_m_t"
| "worker_pass W_f_m = pass_f_m"
| "worker_pass W_m_t = pass_m_t"
| "worker_pass W_m = pass_m"

subsection \<open>The loop\<close>

definition loop_goes_on :: "turn \<Rightarrow> gallus_result_t \<Rightarrow> bool" where
  "loop_goes_on t st \<longleftrightarrow> t_do_loop t \<and> (st > 0 \<or> st = 0 \<and> t_sg_lvl t = SHUTDOWN_UNKNOWN)"

definition loop_result :: "shutdown_grace_level \<Rightarrow> gallus_result_t \<Rightarrow> gallus_result_t" where
  "loop_result lvl st =
    (if (lvl = SHUTDOWN_RIGHT_NOW \<or> lvl = SHUTDOWN_GRACEFULLY) \<and> st > 0 then GALLUS_RESULT_OK else st)"

text \<open>A procedure that fails leaves the loop at once.\<close>

fun WORKER_LOOP ::
  "worker_main_proc \<Rightarrow> nat \<Rightarrow> turn list \<Rightarrow> gallus_result_t \<Rightarrow> worker_event list \<times> gallus_result_t option" where
  "WORKER_LOOP proc max_n_evs [] st = ([], None)"
| "WORKER_LOOP proc max_n_evs (t # ts) st =
    (if loop_goes_on t st then
       (if \<not> t_pause t then
          (let (es, st) = worker_pass proc max_n_evs t
           in if st < 0 then (es, Some (loop_result (t_sg_lvl t) st))
              else (let (es', ret) = WORKER_LOOP proc max_n_evs ts st in (es @ es', ret)))
        else
          (let e = (if t_maint t then Maintenance else Pause);
               (es, ret) = WORKER_LOOP proc max_n_evs ts st
           in (e # es, ret)))
     else ([], Some (loop_result (t_sg_lvl t) st)))"

text \<open>
  The thread of a worker: it waits until the whole program has started, marks itself started, calls
  the post-start procedure and enters the loop. None is the exit of the process, a result of None a
  worker that still waits or works; the flag says whether it called the post-start procedure.
\<close>

definition s_worker_main ::
  "gs_wake list \<Rightarrow> gstate \<Rightarrow> stage \<Rightarrow> turn list \<Rightarrow> worker option \<Rightarrow>
   (worker option \<times> bool \<times> worker_event list \<times> gallus_result_t option) option" where
  "s_worker_main ws g ps ts w =
    (case w of
       None \<Rightarrow> Some (w, False, [], Some GALLUS_RESULT_INVALID_ARGS)
     | Some wk \<Rightarrow>
         (case snd (global_state_wait_for ws g GLOBAL_STATE_STARTED) of
            None \<Rightarrow> Some (w, False, [], None)
          | Some (ret, out) \<Rightarrow>
              if ret = GALLUS_RESULT_OK then
                (case out of
                   None \<Rightarrow> None
                 | Some (s, l) \<Rightarrow>
                     if s = GLOBAL_STATE_STARTED then
                       (let (es, ret) = WORKER_LOOP (w_proc wk) (m_max_batch ps) ts 0
                        in Some (Some (wk\<lparr>w_is_started := True\<rparr>), m_post_start_proc ps \<noteq> None, es, ret))
                     else if GLOBAL_STATE_REQUEST_SHUTDOWN \<le> s
                     then Some (w, False, [], Some GALLUS_RESULT_NOT_OPERATIONAL)
                     else None)
              else if ret = GALLUS_RESULT_NOT_OPERATIONAL \<and>
                 (case out of Some (s, l) \<Rightarrow> \<not> GLOBAL_STATE_REQUEST_SHUTDOWN \<le> s | None \<Rightarrow> True)
              then None
              else Some (w, False, [], Some ret)))"

subsection \<open>Missing procedures\<close>

text \<open>A pass in terms of all three procedures.\<close>

definition all_procs :: "worker_main_proc \<Rightarrow> turn \<Rightarrow> turn" where
  "all_procs proc t =
    t\<lparr>t_fetch := (if proc = W_f_m_t \<or> proc = W_f_m then t_fetch t else int),
      t_throw := (if proc = W_f_m_t \<or> proc = W_m_t then t_throw t else int)\<rparr>"

fun performed :: "worker_main_proc \<Rightarrow> worker_event \<Rightarrow> bool" where
  "performed proc (Fetch n) = (proc = W_f_m_t \<or> proc = W_f_m)"
| "performed proc (Throw n) = (proc = W_f_m_t \<or> proc = W_m_t)"
| "performed proc e = True"

lemma worker_pass_all_procs:
  assumes "0 < max_n_evs"
  shows "snd (worker_pass proc max_n_evs t) = snd (worker_pass W_f_m_t max_n_evs (all_procs proc t))"
    and "fst (worker_pass proc max_n_evs t) =
      filter (performed proc) (fst (worker_pass W_f_m_t max_n_evs (all_procs proc t)))"
  using assms
  by (cases proc; simp add: pass_f_m_t_def pass_f_m_def pass_m_t_def pass_m_def all_procs_def Let_def; fail)+

lemma all_procs_head [simp]:
  "t_do_loop (all_procs proc t) = t_do_loop t" "t_sg_lvl (all_procs proc t) = t_sg_lvl t"
  "t_pause (all_procs proc t) = t_pause t" "t_maint (all_procs proc t) = t_maint t"
  "loop_goes_on (all_procs proc t) st = loop_goes_on t st"
  by (simp_all add: all_procs_def loop_goes_on_def)

text \<open>
  C29. The four loops are one: a worker without a fetch procedure works as if it fetched a full batch
  each time, and a worker without a throw procedure as if all events were thrown.
\<close>

theorem worker_loops_agree:
  assumes "0 < max_n_evs"
  shows "WORKER_LOOP proc max_n_evs ts st =
    (case WORKER_LOOP W_f_m_t max_n_evs (map (all_procs proc) ts) st of
       (es, ret) \<Rightarrow> (filter (performed proc) es, ret))"
proof (induction ts arbitrary: st)
  case (Cons t ts)
  obtain es st' where p: "worker_pass W_f_m_t max_n_evs (all_procs proc t) = (es, st')" by fastforce
  have q: "worker_pass proc max_n_evs t = (filter (performed proc) es, st')"
    using worker_pass_all_procs [OF assms, of proc t] p by (simp add: prod_eq_iff)
  show ?case
    using p q Cons.IH [of st'] Cons.IH [of st] by (auto simp: Let_def simp del: worker_pass.simps split: prod.splits)
qed simp

lemma worker_loops_agree_witness:
  "WORKER_LOOP W_m 4
      [\<lparr>t_do_loop = True, t_sg_lvl = SHUTDOWN_UNKNOWN, t_pause = False, t_maint = False,
        t_fetch = (\<lambda>n. 0), t_main = (\<lambda>n. 3), t_throw = (\<lambda>n. 0)\<rparr>,
       \<lparr>t_do_loop = False, t_sg_lvl = SHUTDOWN_RIGHT_NOW, t_pause = False, t_maint = False,
        t_fetch = (\<lambda>n. 0), t_main = (\<lambda>n. 3), t_throw = (\<lambda>n. 0)\<rparr>] 0 = ([Main 4], Some 0)"
  by (subst worker_loops_agree) (simp_all add: pass_f_m_t_def all_procs_def loop_goes_on_def loop_result_def)

subsection \<open>Shutdown\<close>

text \<open>
  After a graceful shutdown was requested a worker goes on as long as its passes deliver events,
  and ends with the first one that does not: with success when there were none left, with the error
  when a procedure failed. It performs exactly the passes up to that one.
\<close>

theorem worker_graceful_drains:
  assumes "list_all (\<lambda>t. t_do_loop t \<and> t_sg_lvl t = SHUTDOWN_GRACEFULLY \<and> \<not> t_pause t) (ts @ [t, t'])"
    and "list_all (\<lambda>t. snd (worker_pass proc max_n_evs t) > 0) ts" "snd (worker_pass proc max_n_evs t) \<le> 0" "st > 0"
  shows "WORKER_LOOP proc max_n_evs (ts @ [t, t']) st =
    (concat (map (\<lambda>t. fst (worker_pass proc max_n_evs t)) (ts @ [t])), Some (snd (worker_pass proc max_n_evs t)))"
  using assms
proof (induction ts arbitrary: st)
  case Nil
  obtain es st' where p: "worker_pass proc max_n_evs t = (es, st')" by fastforce
  then have "st' < 0 \<or> st' = 0" using Nil by auto
  then show ?case using Nil p by (auto simp: loop_goes_on_def loop_result_def)
next
  case (Cons u ts)
  obtain es st' where p: "worker_pass proc max_n_evs u = (es, st')" by fastforce
  then have "st' > 0" using Cons.prems by simp
  then show ?case using Cons.prems Cons.IH [of st'] p by (auto simp: loop_goes_on_def Let_def)
qed

definition example_turn :: "shutdown_grace_level \<Rightarrow> gallus_result_t \<Rightarrow> turn" where
  "example_turn lvl n =
    \<lparr>t_do_loop = True, t_sg_lvl = lvl, t_pause = False, t_maint = False,
     t_fetch = (\<lambda>m. n), t_main = int, t_throw = int\<rparr>"

lemma worker_graceful_drains_witness:
  "WORKER_LOOP W_f_m_t 8 [example_turn SHUTDOWN_GRACEFULLY 5, example_turn SHUTDOWN_GRACEFULLY 0,
       example_turn SHUTDOWN_GRACEFULLY 7] 1 =
     ([Fetch 8, Main 5, Throw 5, Fetch 8], Some 0)"
  using worker_graceful_drains [of "[example_turn SHUTDOWN_GRACEFULLY 5]" "example_turn SHUTDOWN_GRACEFULLY 0"
      "example_turn SHUTDOWN_GRACEFULLY 7" W_f_m_t 8 1]
  by (simp add: example_turn_def pass_f_m_t_def)

text \<open>A worker whose last pass delivered nothing does not look for events again.\<close>

lemma worker_idle_graceful:
  assumes "t_sg_lvl t \<noteq> SHUTDOWN_UNKNOWN"
  shows "WORKER_LOOP proc max_n_evs (t # ts) 0 = ([], Some 0)"
  using assms by (simp add: loop_goes_on_def loop_result_def)

text \<open>A cancelled or immediately shut down worker leaves at the next head of the loop, with success.\<close>

lemma worker_right_now:
  assumes "\<not> t_do_loop t" "t_sg_lvl t = SHUTDOWN_RIGHT_NOW" "st \<ge> 0"
  shows "WORKER_LOOP proc max_n_evs (t # ts) st = ([], Some GALLUS_RESULT_OK)"
  using assms by (simp add: loop_goes_on_def loop_result_def)

text \<open>The loop is only entered once the whole program has started.\<close>

lemma worker_main_waits:
  assumes "s_worker_main ws g ps ts w = Some (w', hook, es, ret)" "es \<noteq> []"
  shows "\<exists>l. snd (global_state_wait_for ws g GLOBAL_STATE_STARTED) =
           Some (GALLUS_RESULT_OK, Some (GLOBAL_STATE_STARTED, l)) \<and> hook = (m_post_start_proc ps \<noteq> None)"
  using assms by (auto simp: s_worker_main_def Let_def split: option.splits if_splits prod.splits)

end
