(* ===== verification/Stage_Pause.thy ===== *)
theory Stage_Pause
  imports Stage
begin

text \<open>
  Pausing a running stage: the workers, the barrier they meet at, and a client that pauses, resumes or
  schedules maintenance, \<^verbatim>\<open>s_worker_pause\<close> and \<^verbatim>\<open>s_worker_maintenance\<close> of
  \<^verbatim>\<open>framework/lib/pipeline_worker.c\<close> with the calls of \<^verbatim>\<open>pipeline_stage.c\<close>.

  What a thread does between taking the pause lock and releasing it or falling asleep is one turn. The
  clients hold \<^verbatim>\<open>m_lock\<close> for the whole of a call, so one of them at a time is in a call. A shutdown of
  a paused stage does what a resumption does.
\<close>

text \<open>
  Where a worker is: at the head of its loop or at work; having seen the request; at the barrier, for a
  pause or for maintenance; past it and about to take the pause lock, elected or not; asleep for the
  resumption or for the end of the maintenance, or woken from it; out of its loop.
\<close>

datatype worker_pc =
  In_loop | Deciding | Barrier bool | Passed bool bool | Resume_wait | Resume_woken |
  Maint_wait | Maint_woken | Ended

text \<open>
  Where the client is: in no call; in a pause, with a time limit or without, asleep or woken; between
  the two steps of a resumption; in the scheduling of maintenance.
\<close>

datatype client_pc =
  Idle | Pausing bool | Pausing_woken bool | Resuming | Maintaining | Maintaining_woken

record stage_sys =
  sys_ps :: stage
  sys_ws :: "worker_pc list"
  sys_cl :: client_pc
  sys_ok :: nat

text \<open>\<open>sys_ok\<close> counts the maintenance calls that returned success.\<close>

subsection \<open>Notification\<close>

fun wake_resume_pc :: "worker_pc \<Rightarrow> worker_pc" where
  "wake_resume_pc Resume_wait = Resume_woken"
| "wake_resume_pc pc = pc"

fun wake_pause_pc :: "worker_pc \<Rightarrow> worker_pc" where
  "wake_pause_pc Maint_wait = Maint_woken"
| "wake_pause_pc pc = pc"

fun wake_client :: "client_pc \<Rightarrow> client_pc" where
  "wake_client (Pausing timed) = Pausing_woken timed"
| "wake_client Maintaining = Maintaining_woken"
| "wake_client pc = pc"

definition s_resume_notify_stage :: "stage_sys \<Rightarrow> stage_sys" where
  "s_resume_notify_stage s = s\<lparr>sys_ws := map wake_resume_pc (sys_ws s)\<rparr>"

definition s_pause_notify_stage :: "stage_sys \<Rightarrow> stage_sys" where
  "s_pause_notify_stage s = s\<lparr>sys_ws := map wake_pause_pc (sys_ws s), sys_cl := wake_client (sys_cl s)\<rparr>"

subsection \<open>The turns of a worker\<close>

definition set_pc :: "nat \<Rightarrow> worker_pc \<Rightarrow> stage_sys \<Rightarrow> stage_sys" where
  "set_pc i pc s = s\<lparr>sys_ws := (sys_ws s)[i := pc]\<rparr>"

text \<open>The check at \<^verbatim>\<open>recheck\<close> of a paused worker and of one that waits for the maintenance.\<close>

definition resume_recheck :: "nat \<Rightarrow> stage_sys \<Rightarrow> stage_sys" where
  "resume_recheck i s = set_pc i (if m_pause_requested (sys_ps s) then Resume_wait else In_loop) s"

definition maint_done_recheck :: "nat \<Rightarrow> stage_sys \<Rightarrow> stage_sys" where
  "maint_done_recheck i s =
    set_pc i (if m_status (sys_ps s) \<noteq> STAGE_STATE_STARTED then Maint_wait else In_loop) s"

definition s_worker_pause :: "nat \<Rightarrow> bool \<Rightarrow> stage_sys \<Rightarrow> stage_sys" where
  "s_worker_pause i is_master s =
    resume_recheck i
      (if is_master then s_pause_notify_stage (s\<lparr>sys_ps := report_paused (sys_ps s)\<rparr>) else s)"

definition s_worker_maintenance :: "nat \<Rightarrow> bool \<Rightarrow> stage_sys \<Rightarrow> stage_sys" where
  "s_worker_maintenance i is_master s =
    (if is_master then
       set_pc i In_loop (s_pause_notify_stage (s\<lparr>sys_ps := run_maintenance (sys_ps s)\<rparr>))
     else maint_done_recheck i s)"

text \<open>The barrier opens when all workers are at it and elects one.\<close>

fun at_barrier :: "worker_pc \<Rightarrow> bool" where
  "at_barrier (Barrier b) = True"
| "at_barrier pc = False"

fun pass_barrier :: "bool \<Rightarrow> worker_pc \<Rightarrow> worker_pc" where
  "pass_barrier is_master (Barrier b) = Passed b is_master"
| "pass_barrier is_master pc = pc"

definition open_barrier :: "nat \<Rightarrow> stage_sys \<Rightarrow> stage_sys" where
  "open_barrier m s =
    s\<lparr>sys_ws := map (\<lambda>i. pass_barrier (i = m) (sys_ws s ! i)) [0..<length (sys_ws s)]\<rparr>"

datatype stage_turn =
  See nat | Decide nat | End nat | Open nat | Lock nat | Recheck nat |
  Spurious nat | Spurious_client |
  Call_pause bool | Client_recheck | Client_timeout | Call_resume | Resumed |
  Call_maintenance "nat option" "nat option"

text \<open>\<open>worker_turn i pcs f s\<close>: worker \<open>i\<close> does \<open>f\<close> if it is at \<open>P\<close>.\<close>

definition worker_turn :: "nat \<Rightarrow> (worker_pc \<Rightarrow> bool) \<Rightarrow> (worker_pc \<Rightarrow> stage_sys) \<Rightarrow> stage_sys \<Rightarrow> stage_sys option" where
  "worker_turn i P f s =
    (if i < length (sys_ws s) \<and> P (sys_ws s ! i) then Some (f (sys_ws s ! i)) else None)"

fun lock_turn :: "nat \<Rightarrow> stage_sys \<Rightarrow> worker_pc \<Rightarrow> stage_sys" where
  "lock_turn i s (Passed False is_master) = s_worker_pause i is_master s"
| "lock_turn i s (Passed True is_master) = s_worker_maintenance i is_master s"
| "lock_turn i s pc = s"

fun has_passed :: "worker_pc \<Rightarrow> bool" where
  "has_passed (Passed b m) = True"
| "has_passed pc = False"

fun spurious_pc :: "worker_pc \<Rightarrow> worker_pc" where
  "spurious_pc pc = wake_resume_pc (wake_pause_pc pc)"

fun do_turn :: "stage_turn \<Rightarrow> stage_sys \<Rightarrow> stage_sys option" where
  "do_turn (See i) s =
     (if m_pause_requested (sys_ps s) then worker_turn i (\<lambda>pc. pc = In_loop) (\<lambda>pc. set_pc i Deciding s) s else None)"
| "do_turn (Decide i) s =
     worker_turn i (\<lambda>pc. pc = Deciding) (\<lambda>pc. set_pc i (Barrier (m_maint_proc (sys_ps s) \<noteq> None)) s) s"
| "do_turn (End i) s = worker_turn i (\<lambda>pc. pc = In_loop) (\<lambda>pc. set_pc i Ended s) s"
| "do_turn (Open m) s =
     (if m < length (sys_ws s) \<and> list_all at_barrier (sys_ws s) then Some (open_barrier m s) else None)"
| "do_turn (Lock i) s = worker_turn i has_passed (lock_turn i s) s"
| "do_turn (Recheck i) s =
     (if i < length (sys_ws s) \<and> sys_ws s ! i = Resume_woken then Some (resume_recheck i s)
      else if i < length (sys_ws s) \<and> sys_ws s ! i = Maint_woken then Some (maint_done_recheck i s)
      else None)"
| "do_turn (Spurious i) s = worker_turn i (\<lambda>pc. spurious_pc pc \<noteq> pc) (\<lambda>pc. set_pc i (spurious_pc pc) s) s"
| "do_turn Spurious_client s =
     (if wake_client (sys_cl s) \<noteq> sys_cl s then Some (s\<lparr>sys_cl := wake_client (sys_cl s)\<rparr>) else None)"
| "do_turn (Call_pause timed) s =
     (if sys_cl s = Idle \<and> m_status (sys_ps s) = STAGE_STATE_STARTED
      then Some (s\<lparr>sys_ps := pause_enter (sys_ps s), sys_cl := Pausing timed\<rparr>) else None)"
| "do_turn Client_recheck s =
     (case sys_cl s of
        Pausing_woken timed \<Rightarrow>
          Some (s\<lparr>sys_cl := (if m_status (sys_ps s) \<noteq> STAGE_STATE_PAUSED then Pausing timed else Idle)\<rparr>)
      | Maintaining_woken \<Rightarrow>
          (if m_status (sys_ps s) = STAGE_STATE_MAINTENANCE_REQUESTED then Some (s\<lparr>sys_cl := Maintaining\<rparr>)
           else
             (let ret = maint_outcome (sys_ps s)
              in Some (s\<lparr>sys_ps := maint_leave ret (sys_ps s), sys_cl := Idle,
                         sys_ok := sys_ok s + (if ret = GALLUS_RESULT_OK then 1 else 0)\<rparr>)))
      | _ \<Rightarrow> None)"
| "do_turn Client_timeout s =
     (if sys_cl s = Pausing True
      then Some (s\<lparr>sys_ps := pause_leave GALLUS_RESULT_TIMEDOUT (sys_ps s), sys_cl := Idle\<rparr>) else None)"
| "do_turn Call_resume s =
     (if sys_cl s = Idle \<and> m_status (sys_ps s) = STAGE_STATE_PAUSED
      then Some (s_resume_notify_stage (s\<lparr>sys_ps := s_resume_stage (sys_ps s), sys_cl := Resuming\<rparr>)) else None)"
| "do_turn Resumed s =
     (if sys_cl s = Resuming
      then Some (s\<lparr>sys_ps := (sys_ps s)\<lparr>m_status := STAGE_STATE_STARTED\<rparr>, sys_cl := Idle\<rparr>) else None)"
| "do_turn (Call_maintenance func arg) s =
     (if sys_cl s = Idle \<and> m_status (sys_ps s) = STAGE_STATE_STARTED
      then Some (s\<lparr>sys_ps := maint_enter func arg (sys_ps s), sys_cl := Maintaining\<rparr>) else None)"

fun do_turns :: "stage_turn list \<Rightarrow> stage_sys \<Rightarrow> stage_sys option" where
  "do_turns [] s = Some s"
| "do_turns (t # ts) s = (case do_turn t s of Some s \<Rightarrow> do_turns ts s | None \<Rightarrow> None)"

text \<open>A stage that was just started.\<close>

fun is_maint_call :: "stage_call \<Rightarrow> bool" where
  "is_maint_call (Call_maint f) = True"
| "is_maint_call c = False"

definition maint_calls :: "stage \<Rightarrow> stage_call list" where
  "maint_calls ps = filter is_maint_call (m_calls ps)"

definition started_stage :: "stage \<Rightarrow> bool" where
  "started_stage ps \<longleftrightarrow>
     m_status ps = STAGE_STATE_STARTED \<and> \<not> m_pause_requested ps \<and> m_maint_proc ps = None \<and> maint_calls ps = []"

definition started_sys :: "stage \<Rightarrow> stage_sys" where
  "started_sys ps = \<lparr>sys_ps = ps, sys_ws = replicate (m_n_workers ps) In_loop, sys_cl = Idle, sys_ok = 0\<rparr>"

subsection \<open>Invariant\<close>

text \<open>A parked worker has passed the barrier and is not back at work.\<close>

fun parked :: "worker_pc \<Rightarrow> bool" where
  "parked In_loop = False"
| "parked Deciding = False"
| "parked (Barrier b) = False"
| "parked Ended = False"
| "parked pc = True"

fun is_master :: "worker_pc \<Rightarrow> bool" where
  "is_master (Passed b m) = m"
| "is_master pc = False"

fun on_the_way :: "worker_pc \<Rightarrow> bool" where
  "on_the_way Deciding = True"
| "on_the_way (Barrier b) = True"
| "on_the_way (Passed b m) = m"
| "on_the_way pc = False"

fun for_maint :: "worker_pc \<Rightarrow> bool" where
  "for_maint (Passed b m) = b"
| "for_maint Maint_wait = True"
| "for_maint Maint_woken = True"
| "for_maint pc = False"

definition in_maint :: "client_pc \<Rightarrow> bool" where
  "in_maint c \<longleftrightarrow> c = Maintaining \<or> c = Maintaining_woken"

fun in_pause :: "client_pc \<Rightarrow> bool" where
  "in_pause (Pausing t) = True"
| "in_pause (Pausing_woken t) = True"
| "in_pause c = False"

text \<open>What holds of the workers, given the status, the request, and whether there is a procedure.\<close>

definition workers_ok :: "stage_state \<Rightarrow> bool \<Rightarrow> bool \<Rightarrow> worker_pc list \<Rightarrow> bool" where
  "workers_ok status req maint ws \<longleftrightarrow>
     (\<forall>w \<in> set ws. on_the_way w \<longrightarrow> req) \<and>
     (status = STAGE_STATE_PAUSED \<longrightarrow> req \<longrightarrow> (\<forall>w \<in> set ws. parked w)) \<and>
     (\<forall>w \<in> set ws. is_master w \<longrightarrow> status \<noteq> STAGE_STATE_PAUSED \<and>
        (\<forall>v \<in> set ws. parked v \<and> (for_maint v \<longrightarrow> status = STAGE_STATE_MAINTENANCE_REQUESTED))) \<and>
     (\<forall>w \<in> set ws. w = Barrier True \<or> w = Passed True True \<longrightarrow>
        status = STAGE_STATE_MAINTENANCE_REQUESTED \<and> maint) \<and>
     length (filter is_master ws) \<le> 1"

text \<open>What holds of the stage and the client.\<close>

definition client_ok :: "stage \<Rightarrow> client_pc \<Rightarrow> nat \<Rightarrow> bool" where
  "client_ok ps cl ok \<longleftrightarrow>
     m_status ps \<in> {STAGE_STATE_STARTED, STAGE_STATE_PAUSED, STAGE_STATE_MAINTENANCE_REQUESTED} \<and>
     (m_maint_proc ps \<noteq> None \<longrightarrow> in_maint cl \<and> m_pause_requested ps \<and> m_status ps \<noteq> STAGE_STATE_STARTED) \<and>
     (m_status ps = STAGE_STATE_MAINTENANCE_REQUESTED \<longrightarrow> in_maint cl \<and> m_pause_requested ps) \<and>
     (in_pause cl \<longrightarrow> m_pause_requested ps) \<and>
     (cl = Resuming \<longrightarrow> m_status ps = STAGE_STATE_PAUSED \<and> \<not> m_pause_requested ps) \<and>
     (in_maint cl \<and> m_status ps = STAGE_STATE_STARTED \<longrightarrow> \<not> m_pause_requested ps) \<and>
     length (maint_calls ps) = ok + (if in_maint cl \<and> m_status ps = STAGE_STATE_STARTED then 1 else 0)"

definition pause_inv :: "stage_sys \<Rightarrow> bool" where
  "pause_inv s \<longleftrightarrow>
     workers_ok (m_status (sys_ps s)) (m_pause_requested (sys_ps s)) (m_maint_proc (sys_ps s) \<noteq> None) (sys_ws s) \<and>
     client_ok (sys_ps s) (sys_cl s) (sys_ok s)"

end
