(* ===== verification/Stage_Pause_Inv.thy ===== *)
theory Stage_Pause_Inv
  imports Stage_Pause
begin

text \<open>
  Every turn keeps the invariant of the pause protocol. While a stage is paused at a client's request
  none of its workers works, and a maintenance procedure runs exactly once per successful call, while
  all workers are past the barrier.
\<close>

subsection \<open>One worker moves\<close>

lemma workers_ok_D:
  assumes "workers_ok st req m ws"
  shows "w \<in> set ws \<Longrightarrow> on_the_way w \<Longrightarrow> req"
    and "st = STAGE_STATE_PAUSED \<Longrightarrow> req \<Longrightarrow> w \<in> set ws \<Longrightarrow> parked w"
    and "w \<in> set ws \<Longrightarrow> is_master w \<Longrightarrow> st \<noteq> STAGE_STATE_PAUSED"
    and "w \<in> set ws \<Longrightarrow> is_master w \<Longrightarrow> v \<in> set ws \<Longrightarrow> parked v"
    and "w \<in> set ws \<Longrightarrow> is_master w \<Longrightarrow> v \<in> set ws \<Longrightarrow> for_maint v \<Longrightarrow> st = STAGE_STATE_MAINTENANCE_REQUESTED"
    and "Barrier True \<in> set ws \<Longrightarrow> st = STAGE_STATE_MAINTENANCE_REQUESTED \<and> m"
    and "Passed True True \<in> set ws \<Longrightarrow> st = STAGE_STATE_MAINTENANCE_REQUESTED \<and> m"
    and "length (filter is_master ws) \<le> 1"
proof -
  have a: "\<forall>w \<in> set ws. on_the_way w \<longrightarrow> req"
    and b: "st = STAGE_STATE_PAUSED \<longrightarrow> req \<longrightarrow> (\<forall>w \<in> set ws. parked w)"
    and c: "\<forall>w \<in> set ws. is_master w \<longrightarrow> st \<noteq> STAGE_STATE_PAUSED \<and>
        (\<forall>v \<in> set ws. parked v \<and> (for_maint v \<longrightarrow> st = STAGE_STATE_MAINTENANCE_REQUESTED))"
    and d: "\<forall>w \<in> set ws. w = Barrier True \<or> w = Passed True True \<longrightarrow>
        st = STAGE_STATE_MAINTENANCE_REQUESTED \<and> m"
    and e: "length (filter is_master ws) \<le> 1"
    using assms unfolding workers_ok_def by - (elim conjE, assumption)+
  show "w \<in> set ws \<Longrightarrow> on_the_way w \<Longrightarrow> req" using a by blast
  show "st = STAGE_STATE_PAUSED \<Longrightarrow> req \<Longrightarrow> w \<in> set ws \<Longrightarrow> parked w" using b by blast
  show "w \<in> set ws \<Longrightarrow> is_master w \<Longrightarrow> st \<noteq> STAGE_STATE_PAUSED" using c by blast
  show "w \<in> set ws \<Longrightarrow> is_master w \<Longrightarrow> v \<in> set ws \<Longrightarrow> parked v" using c by blast
  show "w \<in> set ws \<Longrightarrow> is_master w \<Longrightarrow> v \<in> set ws \<Longrightarrow> for_maint v \<Longrightarrow> st = STAGE_STATE_MAINTENANCE_REQUESTED"
    using c by blast
  show "Barrier True \<in> set ws \<Longrightarrow> st = STAGE_STATE_MAINTENANCE_REQUESTED \<and> m" using d by blast
  show "Passed True True \<in> set ws \<Longrightarrow> st = STAGE_STATE_MAINTENANCE_REQUESTED \<and> m" using d by blast
  show "length (filter is_master ws) \<le> 1" by (rule e)
qed

lemma workers_ok_replace:
  assumes ok: "workers_ok st req m ws" and i: "i < length ws"
    and pc: "\<not> is_master pc" "on_the_way pc \<longrightarrow> req" "st = STAGE_STATE_PAUSED \<longrightarrow> req \<longrightarrow> parked pc"
      "pc = Barrier True \<longrightarrow> st = STAGE_STATE_MAINTENANCE_REQUESTED \<and> m"
    and master: "\<And>w. w \<in> set ws \<Longrightarrow> is_master w \<Longrightarrow>
      parked pc \<and> (for_maint pc \<longrightarrow> st = STAGE_STATE_MAINTENANCE_REQUESTED)"
  shows "workers_ok st req m (ws[i := pc])"
proof -
  have mem: "w \<in> set (ws[i := pc]) \<Longrightarrow> w = pc \<or> w \<in> set ws" for w by (rule set_replace [OF i])
  have count: "length (filter is_master (ws[i := pc])) \<le> length (filter is_master ws)"
    using pc(1) i by (induction ws arbitrary: i) (auto split: nat.splits)
  show ?thesis
    unfolding workers_ok_def
  proof (intro conjI)
    show "\<forall>w \<in> set (ws[i := pc]). on_the_way w \<longrightarrow> req"
      using ok pc(2) by (auto simp: workers_ok_def dest!: mem)
    show "st = STAGE_STATE_PAUSED \<longrightarrow> req \<longrightarrow> (\<forall>w \<in> set (ws[i := pc]). parked w)"
      using ok pc(3) by (auto simp: workers_ok_def dest!: mem)
    show "\<forall>w \<in> set (ws[i := pc]). is_master w \<longrightarrow> st \<noteq> STAGE_STATE_PAUSED \<and>
        (\<forall>v \<in> set (ws[i := pc]). parked v \<and> (for_maint v \<longrightarrow> st = STAGE_STATE_MAINTENANCE_REQUESTED))"
    proof (intro ballI impI)
      fix w assume w: "w \<in> set (ws[i := pc])" "is_master w"
      then have wm: "w \<in> set ws" using mem [OF w(1)] pc(1) by auto
      have old: "st \<noteq> STAGE_STATE_PAUSED"
        "\<And>v. v \<in> set ws \<Longrightarrow> parked v \<and> (for_maint v \<longrightarrow> st = STAGE_STATE_MAINTENANCE_REQUESTED)"
        using ok wm w(2) unfolding workers_ok_def by blast+
      show "st \<noteq> STAGE_STATE_PAUSED \<and>
        (\<forall>v \<in> set (ws[i := pc]). parked v \<and> (for_maint v \<longrightarrow> st = STAGE_STATE_MAINTENANCE_REQUESTED))"
        using old master [OF wm w(2)] mem by blast
    qed
    show "\<forall>w \<in> set (ws[i := pc]). w = Barrier True \<or> w = Passed True True \<longrightarrow>
        st = STAGE_STATE_MAINTENANCE_REQUESTED \<and> m"
    proof (intro ballI)
      fix w assume "w \<in> set (ws[i := pc])"
      then consider "w = pc" | "w \<in> set ws" using mem by blast
      then show "w = Barrier True \<or> w = Passed True True \<longrightarrow> st = STAGE_STATE_MAINTENANCE_REQUESTED \<and> m"
      proof cases
        case 1
        then show ?thesis using pc(1,4) by (cases pc) simp_all
      next
        case 2
        then show ?thesis using ok unfolding workers_ok_def by blast
      qed
    qed
    show "length (filter is_master (ws[i := pc])) \<le> 1"
      using ok count by (simp add: workers_ok_def)
  qed
qed

text \<open>Replacing the elected worker leaves none elected.\<close>

lemma no_other_master:
  assumes "length (filter P ws) \<le> 1" "i < length ws" "P (ws ! i)" "\<not> P pc"
  shows "list_all (\<lambda>w. \<not> P w) (ws[i := pc])"
proof -
  have "length (filter P (ws[i := pc])) < length (filter P ws)"
    using assms(2-4) by (rule filter_less_at)
  then have "filter P (ws[i := pc]) = []"
    using assms(1) by (metis length_0_conv less_one order_less_le_trans)
  then show ?thesis by (simp add: filter_empty_conv list_all_iff)
qed

lemma is_master_on_the_way: "is_master w \<Longrightarrow> on_the_way w"
  by (cases w) auto

text \<open>With nobody elected and everybody parked, only the request and the status count.\<close>

lemma workers_ok_parked:
  assumes "list_all (\<lambda>w. \<not> is_master w) ws" "list_all parked ws"
  shows "workers_ok st req m ws"
proof -
  have "\<not> on_the_way w \<and> w \<noteq> Barrier True \<and> w \<noteq> Passed True True" if "w \<in> set ws" for w
    using assms that by (cases w) (auto simp: list_all_iff)
  then show ?thesis
    using assms by (auto simp: workers_ok_def list_all_iff filter_empty_conv [THEN iffD2])
qed

text \<open>Without a request only workers at work or parked are left.\<close>

lemma workers_ok_quiet:
  assumes "\<forall>w \<in> set ws. \<not> on_the_way w"
  shows "workers_ok st False m ws"
proof -
  have "\<not> is_master w \<and> w \<noteq> Barrier True \<and> w \<noteq> Passed True True" if "w \<in> set ws" for w
    using assms that by (cases w) auto
  then show ?thesis using assms by (auto simp: workers_ok_def filter_empty_conv [THEN iffD2])
qed

lemma workers_ok_no_request: "workers_ok st False m ws \<Longrightarrow> w \<in> set ws \<Longrightarrow> \<not> on_the_way w"
  by (auto simp: workers_ok_def)

lemma parked_not_on_the_way: "parked w \<Longrightarrow> \<not> is_master w \<Longrightarrow> \<not> on_the_way w"
  by (cases w) auto

lemma paused_quiet:
  assumes "workers_ok STAGE_STATE_PAUSED req m ws" "w \<in> set ws"
  shows "\<not> on_the_way w"
proof (cases req)
  case True
  then have "parked w" "\<not> is_master w" using assms by (auto simp: workers_ok_def)
  then show ?thesis by (rule parked_not_on_the_way)
next
  case False
  then have "workers_ok STAGE_STATE_PAUSED False m ws" using assms(1) by simp
  then show ?thesis using assms(2) by (rule workers_ok_no_request)
qed

lemma wake_pc_simps [simp]:
  "is_master (wake_resume_pc w) = is_master w" "is_master (wake_pause_pc w) = is_master w"
  "parked (wake_resume_pc w) = parked w" "parked (wake_pause_pc w) = parked w"
  "on_the_way (wake_resume_pc w) = on_the_way w" "on_the_way (wake_pause_pc w) = on_the_way w"
  "for_maint (wake_resume_pc w) = for_maint w" "for_maint (wake_pause_pc w) = for_maint w"
  "wake_resume_pc w = Barrier b \<longleftrightarrow> w = Barrier b" "wake_pause_pc w = Barrier b \<longleftrightarrow> w = Barrier b"
  "wake_resume_pc w = Passed b c \<longleftrightarrow> w = Passed b c" "wake_pause_pc w = Passed b c \<longleftrightarrow> w = Passed b c"
  by (cases w; simp)+

lemma workers_ok_wake [simp]:
  "workers_ok st req m (map wake_resume_pc ws) = workers_ok st req m ws"
  "workers_ok st req m (map wake_pause_pc ws) = workers_ok st req m ws"
  by (auto simp: workers_ok_def filter_map comp_def)

lemma wake_client_simps [simp]:
  "in_maint (wake_client c) = in_maint c" "in_pause (wake_client c) = in_pause c"
  "wake_client c = Resuming \<longleftrightarrow> c = Resuming" "wake_client c = Idle \<longleftrightarrow> c = Idle"
  by (cases c; simp add: in_maint_def)+

lemma client_ok_wake [simp]: "client_ok ps (wake_client c) n = client_ok ps c n"
  by (simp add: client_ok_def)

subsection \<open>The barrier\<close>

lemma workers_ok_open:
  assumes ok: "workers_ok st req m ws" and "list_all at_barrier ws" "k < length ws"
  shows "workers_ok st req m (map (\<lambda>i. pass_barrier (i = k) (ws ! i)) [0..<length ws])"
proof -
  let ?ws = "map (\<lambda>i. pass_barrier (i = k) (ws ! i)) [0..<length ws]"
  have at: "\<exists>b. ws ! i = Barrier b" if "i < length ws" for i
    using assms(2) that by (cases "ws ! i") (auto simp: list_all_length)
  have "on_the_way (ws ! k)" using at [OF assms(3)] by auto
  then have req: "req" and np: "st \<noteq> STAGE_STATE_PAUSED"
  proof -
    show req using workers_ok_D(1) [OF ok nth_mem [OF assms(3)] \<open>on_the_way (ws ! k)\<close>] .
    show "st \<noteq> STAGE_STATE_PAUSED"
    proof
      assume "st = STAGE_STATE_PAUSED"
      then have "workers_ok STAGE_STATE_PAUSED req m ws" using ok by simp
      from paused_quiet [OF this nth_mem [OF assms(3)]] \<open>on_the_way (ws ! k)\<close> show False by simp
    qed
  qed
  have new: "\<exists>i b. i < length ws \<and> ws ! i = Barrier b \<and> w = Passed b (i = k)" if "w \<in> set ?ws" for w
    using that at by force
  have maint: "b \<Longrightarrow> i < length ws \<Longrightarrow> ws ! i = Barrier b \<Longrightarrow> st = STAGE_STATE_MAINTENANCE_REQUESTED \<and> m" for i b
    using workers_ok_D(6) [OF ok] nth_mem [of i ws] by auto
  have "filter is_master ?ws = map (\<lambda>i. pass_barrier (i = k) (ws ! i)) (filter (\<lambda>i. i = k) [0..<length ws])"
    unfolding filter_map
  proof (rule arg_cong [OF filter_cong [OF refl]])
    fix i assume "i \<in> set [0..<length ws]"
    then obtain b where "ws ! i = Barrier b" using at [of i] by auto
    then show "(is_master \<circ> (\<lambda>i. pass_barrier (i = k) (ws ! i))) i = (i = k)" by simp
  qed
  moreover have "length (filter (\<lambda>i. i = k) [0..<length ws]) \<le> 1"
  proof -
    have "length (filter (\<lambda>i. i = k) [0..<n]) = (if k < n then 1 else 0)" for n by (induction n) auto
    then show ?thesis by simp
  qed
  ultimately have one: "length (filter is_master ?ws) \<le> 1" by simp
  show ?thesis
    unfolding workers_ok_def
  proof (intro conjI ballI impI)
    fix w assume w: "w \<in> set ?ws"
    show "req" by (rule req)
    show "w = Barrier True \<or> w = Passed True True \<Longrightarrow> st = STAGE_STATE_MAINTENANCE_REQUESTED"
      "w = Barrier True \<or> w = Passed True True \<Longrightarrow> m"
      using new [OF w] maint by auto
    show "parked w" using new [OF w] by auto
    show "st \<noteq> STAGE_STATE_PAUSED" by (rule np)
    fix v assume "v \<in> set ?ws"
    then show "parked v" "for_maint v \<Longrightarrow> st = STAGE_STATE_MAINTENANCE_REQUESTED"
      using new [of v] maint by auto
  qed (rule one)
qed

subsection \<open>Each turn\<close>

lemma pause_inv_D:
  assumes "pause_inv s"
  shows "workers_ok (m_status (sys_ps s)) (m_pause_requested (sys_ps s)) (m_maint_proc (sys_ps s) \<noteq> None) (sys_ws s)"
    and "client_ok (sys_ps s) (sys_cl s) (sys_ok s)"
  using assms unfolding pause_inv_def by blast+

lemma pause_inv_set_pc:
  assumes "pause_inv s" "i < length (sys_ws s)"
    and "\<not> is_master pc" "on_the_way pc \<longrightarrow> m_pause_requested (sys_ps s)"
      "m_status (sys_ps s) = STAGE_STATE_PAUSED \<longrightarrow> m_pause_requested (sys_ps s) \<longrightarrow> parked pc"
      "pc = Barrier True \<longrightarrow> m_status (sys_ps s) = STAGE_STATE_MAINTENANCE_REQUESTED \<and> m_maint_proc (sys_ps s) \<noteq> None"
    and "\<And>w. w \<in> set (sys_ws s) \<Longrightarrow> is_master w \<Longrightarrow>
      parked pc \<and> (for_maint pc \<longrightarrow> m_status (sys_ps s) = STAGE_STATE_MAINTENANCE_REQUESTED)"
  shows "pause_inv (set_pc i pc s)"
  using workers_ok_replace [OF pause_inv_D(1) [OF assms(1)] assms(2-7)] pause_inv_D(2) [OF assms(1)]
  by (simp add: pause_inv_def set_pc_def)

text \<open>A worker that is not parked moves to another place where it is not.\<close>

lemma pause_inv_unparked:
  assumes inv: "pause_inv s" and i: "i < length (sys_ws s)" "\<not> parked (sys_ws s ! i)"
    and pc: "\<not> parked pc" "on_the_way pc \<longrightarrow> m_pause_requested (sys_ps s)"
      "pc = Barrier True \<longrightarrow> m_status (sys_ps s) = STAGE_STATE_MAINTENANCE_REQUESTED \<and> m_maint_proc (sys_ps s) \<noteq> None"
  shows "pause_inv (set_pc i pc s)"
proof (rule pause_inv_set_pc [OF inv i(1) _ pc(2) _ pc(3)])
  note ok = pause_inv_D(1) [OF inv]
  show "\<not> is_master pc" using pc(1) by (cases pc) auto
  show "m_status (sys_ps s) = STAGE_STATE_PAUSED \<longrightarrow> m_pause_requested (sys_ps s) \<longrightarrow> parked pc"
    using workers_ok_D(2) [OF ok _ _ nth_mem [OF i(1)]] i(2) by blast
  fix w assume "w \<in> set (sys_ws s)" "is_master w"
  then show "parked pc \<and> (for_maint pc \<longrightarrow> m_status (sys_ps s) = STAGE_STATE_MAINTENANCE_REQUESTED)"
    using workers_ok_D(4) [OF ok _ _ nth_mem [OF i(1)]] i(2) by blast
qed

lemma pause_inv_decide:
  assumes inv: "pause_inv s" and i: "i < length (sys_ws s)" "sys_ws s ! i = Deciding"
  shows "pause_inv (set_pc i (Barrier (m_maint_proc (sys_ps s) \<noteq> None)) s)"
proof (rule pause_inv_unparked [OF inv i(1)])
  note ok = pause_inv_D(1) [OF inv] and cl = pause_inv_D(2) [OF inv]
  have mem: "Deciding \<in> set (sys_ws s)" using i nth_mem by metis
  have req: "m_pause_requested (sys_ps s)" using workers_ok_D(1) [OF ok mem] by simp
  then have np: "m_status (sys_ps s) \<noteq> STAGE_STATE_PAUSED" using workers_ok_D(2) [OF ok _ _ mem] by auto
  show "\<not> parked (sys_ws s ! i)" by (simp add: i)
  show "on_the_way (Barrier (m_maint_proc (sys_ps s) \<noteq> None)) \<longrightarrow> m_pause_requested (sys_ps s)" using req by simp
  show "Barrier (m_maint_proc (sys_ps s) \<noteq> None) = Barrier True \<longrightarrow>
      m_status (sys_ps s) = STAGE_STATE_MAINTENANCE_REQUESTED \<and> m_maint_proc (sys_ps s) \<noteq> None"
    using np cl unfolding client_ok_def by blast
qed simp

lemma pause_inv_resume_recheck:
  assumes inv: "pause_inv s" and i: "i < length (sys_ws s)"
  shows "pause_inv (resume_recheck i s)"
proof (cases "m_pause_requested (sys_ps s)")
  case True
  then show ?thesis unfolding resume_recheck_def by (auto intro!: pause_inv_set_pc [OF inv i])
next
  case False
  then have "\<not> is_master w" if "w \<in> set (sys_ws s)" for w
    using workers_ok_D(1) [OF pause_inv_D(1) [OF inv] that] is_master_on_the_way by blast
  then show ?thesis using False unfolding resume_recheck_def by (auto intro!: pause_inv_set_pc [OF inv i])
qed

lemma pause_inv_maint_recheck:
  assumes inv: "pause_inv s" and i: "i < length (sys_ws s)" "for_maint (sys_ws s ! i)"
  shows "pause_inv (maint_done_recheck i s)"
proof -
  note maint = workers_ok_D(5) [OF pause_inv_D(1) [OF inv] _ _ nth_mem [OF i(1)] i(2)]
  show ?thesis
  proof (cases "m_status (sys_ps s) = STAGE_STATE_STARTED")
    case True
    then have "\<not> is_master w" if "w \<in> set (sys_ws s)" for w using maint [OF that] by auto
    then show ?thesis using True unfolding maint_done_recheck_def by (auto intro!: pause_inv_set_pc [OF inv i(1)])
  next
    case False
    then show ?thesis using maint unfolding maint_done_recheck_def by (auto intro!: pause_inv_set_pc [OF inv i(1)])
  qed
qed

text \<open>The elected worker.\<close>

lemma elected:
  assumes inv: "pause_inv s" and i: "i < length (sys_ws s)" "sys_ws s ! i = Passed b True"
  shows "m_pause_requested (sys_ps s)" "m_status (sys_ps s) \<noteq> STAGE_STATE_PAUSED"
    and "list_all parked (sys_ws s)" "\<not> is_master pc \<Longrightarrow> list_all (\<lambda>w. \<not> is_master w) ((sys_ws s)[i := pc])"
proof -
  note ok = pause_inv_D(1) [OF inv]
  have mem: "Passed b True \<in> set (sys_ws s)" using i nth_mem by metis
  show "m_pause_requested (sys_ps s)" using workers_ok_D(1) [OF ok mem] by simp
  show "m_status (sys_ps s) \<noteq> STAGE_STATE_PAUSED" using workers_ok_D(3) [OF ok mem] by simp
  show "list_all parked (sys_ws s)" using workers_ok_D(4) [OF ok mem] by (simp add: list_all_iff)
  show "\<not> is_master pc \<Longrightarrow> list_all (\<lambda>w. \<not> is_master w) ((sys_ws s)[i := pc])"
    using no_other_master [OF workers_ok_D(8) [OF ok] i(1)] i(2) by simp
qed

lemma list_all_replace: "list_all P xs \<Longrightarrow> P x \<Longrightarrow> list_all P (xs[i := x])"
  using set_update_subset_insert [of xs i x] by (auto simp: list_all_iff)

lemma list_all_wake [simp]:
  "list_all parked (map wake_pause_pc ws) = list_all parked ws"
  "list_all (\<lambda>w. \<not> is_master w) (map wake_pause_pc ws) = list_all (\<lambda>w. \<not> is_master w) ws"
  by (simp_all add: list.pred_map comp_def)

lemma in_maint_not_pause: "in_maint c \<Longrightarrow> \<not> in_pause c"
  by (cases c) (simp_all add: in_maint_def)

lemma pause_inv_report:
  assumes inv: "pause_inv s" and i: "i < length (sys_ws s)" "sys_ws s ! i = Passed False True"
  shows "pause_inv (s_worker_pause i True s)"
proof -
  note e = elected [OF inv i]
  let ?ws = "map wake_pause_pc ((sys_ws s)[i := Resume_wait])"
  have eq: "(map wake_pause_pc (sys_ws s))[i := Resume_wait] = ?ws" by (simp add: map_update)
  have "workers_ok STAGE_STATE_PAUSED True m ?ws" for m
    by (rule workers_ok_parked) (use e(3) e(4) [of Resume_wait] in \<open>simp_all add: list_all_replace\<close>)
  moreover have "client_ok (report_paused (sys_ps s)) (sys_cl s) (sys_ok s)"
    using pause_inv_D(2) [OF inv] e(1,2) by (auto simp: client_ok_def report_paused_def maint_calls_def)
  ultimately show ?thesis
    using e(1) unfolding pause_inv_def s_worker_pause_def resume_recheck_def
    by (simp add: s_pause_notify_stage_def set_pc_def report_paused_def eq del: workers_ok_wake)
qed

lemma maint_calls_run:
  "maint_calls (run_maintenance ps) = maint_calls ps @ (case m_maint_proc ps of Some f \<Rightarrow> [Call_maint f] | None \<Rightarrow> [])"
  by (simp add: maint_calls_def run_maintenance_def calls_def Let_def split: option.split)

lemma run_maintenance_simps [simp]:
  "m_status (run_maintenance ps) = STAGE_STATE_STARTED" "\<not> m_pause_requested (run_maintenance ps)"
  "m_maint_proc (run_maintenance ps) = None"
  by (simp_all add: run_maintenance_def Let_def)

lemma pause_inv_maintained:
  assumes inv: "pause_inv s" and i: "i < length (sys_ws s)" "sys_ws s ! i = Passed True True"
  shows "pause_inv (s_worker_maintenance i True s)"
    and "maint_calls (sys_ps (s_worker_maintenance i True s)) \<noteq> maint_calls (sys_ps s)"
proof -
  note e = elected [OF inv i]
  have "Passed True True \<in> set (sys_ws s)" using i nth_mem by metis
  then have st: "m_status (sys_ps s) = STAGE_STATE_MAINTENANCE_REQUESTED" and m: "m_maint_proc (sys_ps s) \<noteq> None"
    using workers_ok_D(7) [OF pause_inv_D(1) [OF inv]] by auto
  let ?ws = "map wake_pause_pc ((sys_ws s)[i := In_loop])"
  have eq: "(map wake_pause_pc (sys_ws s))[i := In_loop] = ?ws" by (simp add: map_update)
  have "\<not> on_the_way w" if "w \<in> set ((sys_ws s)[i := In_loop])" for w
  proof (cases "w = In_loop")
    case False
    then have "w \<in> set (sys_ws s)" using set_replace [OF i(1) that] by blast
    then have "parked w" "\<not> is_master w" using e(3) e(4) [of In_loop] that by (auto simp: list_all_iff)
    then show ?thesis by (rule parked_not_on_the_way)
  qed simp
  then have "workers_ok st False m ((sys_ws s)[i := In_loop])" for st m by (intro workers_ok_quiet) simp
  then have "workers_ok st False m ?ws" for st m by simp
  moreover have "client_ok (run_maintenance (sys_ps s)) (sys_cl s) (sys_ok s)"
    using pause_inv_D(2) [OF inv] st m by (auto simp: client_ok_def maint_calls_run in_maint_not_pause)
  ultimately show "pause_inv (s_worker_maintenance i True s)"
    unfolding pause_inv_def s_worker_maintenance_def
    by (simp add: s_pause_notify_stage_def set_pc_def eq del: workers_ok_wake)
  show "maint_calls (sys_ps (s_worker_maintenance i True s)) \<noteq> maint_calls (sys_ps s)"
    using m by (auto simp: s_worker_maintenance_def s_pause_notify_stage_def set_pc_def maint_calls_run)
qed

subsection \<open>The turns of the client\<close>

lemma workers_ok_request:
  assumes "workers_ok STAGE_STATE_STARTED req m ws"
  shows "workers_ok STAGE_STATE_STARTED True m ws" "workers_ok STAGE_STATE_MAINTENANCE_REQUESTED True m' ws"
proof -
  note D = workers_ok_D [OF assms]
  show "workers_ok STAGE_STATE_STARTED True m ws"
    using assms unfolding workers_ok_def by simp
  have "w \<noteq> Barrier True \<and> w \<noteq> Passed True True" if "w \<in> set ws" for w
    using D(6,7) that by auto
  then show "workers_ok STAGE_STATE_MAINTENANCE_REQUESTED True m' ws"
    unfolding workers_ok_def using D(4,8) by simp
qed

lemma enter_simps [simp]:
  "m_status (pause_enter ps) = m_status ps" "m_pause_requested (pause_enter ps)"
  "m_maint_proc (pause_enter ps) = m_maint_proc ps" "maint_calls (pause_enter ps) = maint_calls ps"
  "m_status (maint_enter func arg ps) = STAGE_STATE_MAINTENANCE_REQUESTED" "m_pause_requested (maint_enter func arg ps)"
  "m_maint_proc (maint_enter func arg ps) = func" "maint_calls (maint_enter func arg ps) = maint_calls ps"
  by (simp_all add: pause_enter_def maint_enter_def calls_def maint_calls_def Let_def)

lemma maint_calls_update [simp]:
  "maint_calls (ps\<lparr>m_pause_requested := b\<rparr>) = maint_calls ps" "maint_calls (ps\<lparr>m_status := st\<rparr>) = maint_calls ps"
  "maint_calls (ps\<lparr>m_pause_requested := b, m_maint_proc := f, m_maint_arg := g\<rparr>) = maint_calls ps"
  by (simp_all add: maint_calls_def)

lemma client_simps [simp]:
  "\<not> in_maint Idle" "\<not> in_maint (Pausing t)" "\<not> in_maint (Pausing_woken t)" "\<not> in_maint Resuming"
  "in_maint Maintaining" "in_maint Maintaining_woken"
  by (simp_all add: in_maint_def)

lemma pause_inv_call_pause:
  assumes "pause_inv s" "sys_cl s = Idle" "m_status (sys_ps s) = STAGE_STATE_STARTED"
  shows "pause_inv (s\<lparr>sys_ps := pause_enter (sys_ps s), sys_cl := Pausing timed\<rparr>)"
  using workers_ok_request(1) [OF pause_inv_D(1) [OF assms(1), unfolded assms(3)]] pause_inv_D(2) [OF assms(1)] assms(2,3)
  by (auto simp: pause_inv_def client_ok_def)

lemma pause_inv_call_maint:
  assumes "pause_inv s" "sys_cl s = Idle" "m_status (sys_ps s) = STAGE_STATE_STARTED"
  shows "pause_inv (s\<lparr>sys_ps := maint_enter func arg (sys_ps s), sys_cl := Maintaining\<rparr>)"
  using workers_ok_request(2) [OF pause_inv_D(1) [OF assms(1), unfolded assms(3)]] pause_inv_D(2) [OF assms(1)] assms(2,3)
  by (auto simp: pause_inv_def client_ok_def)

lemma pause_inv_call_resume:
  assumes inv: "pause_inv s" and s: "sys_cl s = Idle" "m_status (sys_ps s) = STAGE_STATE_PAUSED"
  shows "pause_inv (s_resume_notify_stage (s\<lparr>sys_ps := s_resume_stage (sys_ps s), sys_cl := Resuming\<rparr>))"
proof -
  have "\<forall>w \<in> set (sys_ws s). \<not> on_the_way w"
    using paused_quiet [OF pause_inv_D(1) [OF inv, unfolded s(2)]] by blast
  then have "workers_ok st False m (sys_ws s)" for st m by (rule workers_ok_quiet)
  then show ?thesis
    using pause_inv_D(2) [OF inv] s
    by (auto simp: pause_inv_def client_ok_def s_resume_notify_stage_def s_resume_stage_def)
qed

lemma pause_inv_resumed:
  assumes inv: "pause_inv s" and s: "sys_cl s = Resuming"
  shows "pause_inv (s\<lparr>sys_ps := (sys_ps s)\<lparr>m_status := STAGE_STATE_STARTED\<rparr>, sys_cl := Idle\<rparr>)"
proof -
  have req: "\<not> m_pause_requested (sys_ps s)" using pause_inv_D(2) [OF inv] s by (simp add: client_ok_def)
  then have "\<forall>w \<in> set (sys_ws s). \<not> on_the_way w" using workers_ok_D(1) [OF pause_inv_D(1) [OF inv]] by blast
  then have "workers_ok st False m (sys_ws s)" for st m by (rule workers_ok_quiet)
  then show ?thesis
    using pause_inv_D(2) [OF inv] s req by (auto simp: pause_inv_def client_ok_def)
qed

lemma pause_inv_maint_returns:
  assumes inv: "pause_inv s" and s: "sys_cl s = Maintaining_woken"
    "m_status (sys_ps s) \<noteq> STAGE_STATE_MAINTENANCE_REQUESTED"
  shows "pause_inv (s\<lparr>sys_ps := maint_leave (maint_outcome (sys_ps s)) (sys_ps s), sys_cl := Idle,
      sys_ok := sys_ok s + (if maint_outcome (sys_ps s) = GALLUS_RESULT_OK then 1 else 0)\<rparr>)"
proof (cases "m_status (sys_ps s) = STAGE_STATE_STARTED")
  case True
  then show ?thesis
    using pause_inv_D [OF inv] s by (auto simp: pause_inv_def client_ok_def maint_outcome_def maint_leave_def)
next
  case False
  then have st: "m_status (sys_ps s) = STAGE_STATE_PAUSED"
    using pause_inv_D(2) [OF inv] s(2) by (simp add: client_ok_def)
  have "\<forall>w \<in> set (sys_ws s). \<not> on_the_way w"
    using paused_quiet [OF pause_inv_D(1) [OF inv, unfolded st]] by blast
  then have "workers_ok st False m (sys_ws s)" for st m by (rule workers_ok_quiet)
  then show ?thesis
    using pause_inv_D(2) [OF inv] s st
    by (auto simp: pause_inv_def client_ok_def maint_outcome_def maint_leave_def)
qed

lemma pause_inv_client:
  assumes "pause_inv s" "in_maint c = in_maint (sys_cl s)" "in_pause c \<longrightarrow> in_pause (sys_cl s)"
    "c = Resuming \<longrightarrow> sys_cl s = Resuming"
  shows "pause_inv (s\<lparr>sys_cl := c\<rparr>)"
  using assms by (auto simp: pause_inv_def client_ok_def)

lemma pause_inv_turn:
  assumes inv: "pause_inv s" and turn: "do_turn t s = Some s'"
  shows "pause_inv s'"
proof (cases t)
  case (See i)
  then show ?thesis
    using turn pause_inv_unparked [OF inv, of i Deciding] by (auto simp: worker_turn_def split: if_splits)
next
  case (Decide i)
  then show ?thesis using turn pause_inv_decide [OF inv, of i] by (auto simp: worker_turn_def split: if_splits)
next
  case (End i)
  then show ?thesis
    using turn pause_inv_unparked [OF inv, of i Ended] by (auto simp: worker_turn_def split: if_splits)
next
  case (Open m)
  then have "m < length (sys_ws s)" "list_all at_barrier (sys_ws s)" "s' = open_barrier m s"
    using turn by (auto split: if_splits)
  then show ?thesis
    using workers_ok_open [OF pause_inv_D(1) [OF inv]] pause_inv_D(2) [OF inv]
    by (simp add: pause_inv_def open_barrier_def)
next
  case (Lock i)
  then have i: "i < length (sys_ws s)" and p: "has_passed (sys_ws s ! i)" and s': "s' = lock_turn i s (sys_ws s ! i)"
    using turn by (auto simp: worker_turn_def split: if_splits)
  obtain b m where bm: "sys_ws s ! i = Passed b m" using p by (cases "sys_ws s ! i") auto
  have "pause_inv (lock_turn i s (Passed b m))"
    using i bm pause_inv_report [OF inv i] pause_inv_maintained(1) [OF inv i]
      pause_inv_resume_recheck [OF inv i] pause_inv_maint_recheck [OF inv i]
    by (cases b; cases m) (simp_all add: s_worker_pause_def s_worker_maintenance_def)
  then show ?thesis by (simp add: s' bm)
next
  case (Recheck i)
  then show ?thesis
    using turn pause_inv_resume_recheck [OF inv, of i] pause_inv_maint_recheck [OF inv, of i]
    by (auto split: if_splits)
next
  case (Spurious i)
  then have i: "i < length (sys_ws s)" "spurious_pc (sys_ws s ! i) \<noteq> sys_ws s ! i"
    "s' = set_pc i (spurious_pc (sys_ws s ! i)) s"
    using turn by (auto simp: worker_turn_def split: if_splits)
  have "sys_ws s ! i = Resume_wait \<or> sys_ws s ! i = Maint_wait" using i(2) by (cases "sys_ws s ! i") auto
  moreover have "for_maint (sys_ws s ! i) \<Longrightarrow> w \<in> set (sys_ws s) \<Longrightarrow> is_master w \<Longrightarrow>
      m_status (sys_ps s) = STAGE_STATE_MAINTENANCE_REQUESTED" for w
    using workers_ok_D(5) [OF pause_inv_D(1) [OF inv] _ _ nth_mem [OF i(1)]] by blast
  ultimately show ?thesis
    unfolding i(3) by (auto intro!: pause_inv_set_pc [OF inv i(1)])
next
  case Spurious_client
  then show ?thesis using turn inv by (auto simp: pause_inv_def split: if_splits)
next
  case (Call_pause timed)
  then show ?thesis using turn pause_inv_call_pause [OF inv] by (auto split: if_splits)
next
  case Client_recheck
  then show ?thesis
    using turn pause_inv_maint_returns [OF inv] pause_inv_client [OF inv]
    by (auto simp: Let_def split: client_pc.splits if_splits)
next
  case Client_timeout
  then show ?thesis
    using turn pause_inv_client [OF inv, of Idle] by (auto simp: pause_leave_def split: if_splits)
next
  case Call_resume
  then show ?thesis using turn pause_inv_call_resume [OF inv] by (auto split: if_splits)
next
  case Resumed
  then show ?thesis using turn pause_inv_resumed [OF inv] by (auto split: if_splits)
next
  case (Call_maintenance func arg)
  then show ?thesis using turn pause_inv_call_maint [OF inv] by (auto split: if_splits)
qed

lemma pause_inv_start: "started_stage ps \<Longrightarrow> pause_inv (started_sys ps)"
  by (auto simp: pause_inv_def started_sys_def started_stage_def client_ok_def intro!: workers_ok_quiet)

lemma pause_inv_turns: "pause_inv s \<Longrightarrow> do_turns ts s = Some s' \<Longrightarrow> pause_inv s'"
  by (induction ts arbitrary: s) (auto split: option.splits dest: pause_inv_turn)

end
