(* ===== verification/Stage_Pause_Laws.thy ===== *)
theory Stage_Pause_Laws
  imports Stage_Pause_Inv
begin

text \<open>
  What the pause protocol guarantees, and the runs in which it comes to a halt: a pause right after a
  resumption, maintenance right after maintenance, maintenance after a pause that timed out, and a pause
  when a worker has left its loop.
\<close>

subsection \<open>Guarantees\<close>

text \<open>
  C25. While a stage is paused and the request stands, in particular when a pause is about to return
  success, every worker has passed the barrier and none is back at work, whatever the interleaving of
  the workers and the calls and whatever wakes them up.
\<close>

theorem stage_pause_exclusive:
  assumes "started_stage ps" "do_turns ts (started_sys ps) = Some s"
    and "m_status (sys_ps s) = STAGE_STATE_PAUSED" "m_pause_requested (sys_ps s) \<or> in_pause (sys_cl s)"
  shows "list_all parked (sys_ws s)"
proof -
  have inv: "pause_inv s" using pause_inv_turns [OF pause_inv_start [OF assms(1)] assms(2)] .
  then have "m_pause_requested (sys_ps s)"
    using assms(4) pause_inv_D(2) [OF inv] by (auto simp: client_ok_def)
  then show ?thesis
    using workers_ok_D(2) [OF pause_inv_D(1) [OF inv] assms(3)] by (simp add: list_all_iff)
qed

definition example_stage :: "nat \<Rightarrow> stage" where
  "example_stage n = \<lparr>m_procs = \<lparr>p_pre_pause = None, p_sched = None, p_setup = None, p_fetch = None, p_main = Some 1,
       p_throw = None, p_shutdown = None, p_final = None, p_freeup = None\<rparr>,
     m_name = ''s'', m_workers = [], m_n_workers = n, m_event_size = 1, m_max_batch = 1, m_batch_buffer_size = 1,
     m_is_heap_allocd = True, m_do_loop = True, m_sg_lvl = SHUTDOWN_UNKNOWN, m_status = STAGE_STATE_STARTED,
     m_n_canceled_workers = 0, m_n_shutdown_workers = 0, m_pause_requested = False, m_maint_proc = None,
     m_maint_arg = None, m_post_start_proc = None, m_post_start_arg = None, m_calls = []\<rparr>"

lemma example_started: "started_stage (example_stage n)"
  by (simp add: started_stage_def example_stage_def maint_calls_def)

lemmas run_example = example_stage_def started_sys_def worker_turn_def set_pc_def open_barrier_def
  s_worker_pause_def s_worker_maintenance_def resume_recheck_def maint_done_recheck_def s_pause_notify_stage_def
  s_resume_notify_stage_def report_paused_def run_maintenance_def pause_enter_def maint_enter_def
  maint_outcome_def maint_leave_def pause_leave_def s_resume_stage_def calls_def Let_def upt_rec numeral_2_eq_2
  numeral_3_eq_3

definition pause_example_run :: "stage_turn list" where
  "pause_example_run = [Call_pause False, See 0, See 1, Decide 1, Decide 0, Open 1, Lock 0, Lock 1]"

lemma stage_pause_exclusive_witness:
  "\<exists>s. do_turns pause_example_run (started_sys (example_stage 2)) = Some s \<and>
       m_status (sys_ps s) = STAGE_STATE_PAUSED \<and> list_all parked (sys_ws s)"
proof -
  obtain s where s: "do_turns pause_example_run (started_sys (example_stage 2)) = Some s"
    "m_status (sys_ps s) = STAGE_STATE_PAUSED" "m_pause_requested (sys_ps s)"
    by (simp add: run_example pause_example_run_def)
  with stage_pause_exclusive [OF example_started s(1,2)] show ?thesis by blast
qed

text \<open>Only the elected worker of a maintenance calls the procedure.\<close>

lemma maint_calls_turn:
  assumes inv: "pause_inv s" and turn: "do_turn t s = Some s'"
    and changed: "maint_calls (sys_ps s') \<noteq> maint_calls (sys_ps s)"
  shows "\<exists>i. t = Lock i \<and> i < length (sys_ws s) \<and> sys_ws s ! i = Passed True True"
proof (cases t)
  case (Lock i)
  then have i: "i < length (sys_ws s)" and p: "has_passed (sys_ws s ! i)" and s': "s' = lock_turn i s (sys_ws s ! i)"
    using turn by (auto simp: worker_turn_def split: if_splits)
  obtain b m where bm: "sys_ws s ! i = Passed b m" using p by (cases "sys_ws s ! i") auto
  show ?thesis
    using changed Lock i bm
    by (cases b; cases m) (auto simp: s' s_worker_pause_def s_worker_maintenance_def resume_recheck_def
        maint_done_recheck_def set_pc_def s_pause_notify_stage_def report_paused_def)
qed (use turn changed in \<open>auto simp: worker_turn_def set_pc_def open_barrier_def resume_recheck_def
    maint_done_recheck_def s_resume_notify_stage_def s_resume_stage_def maint_leave_def pause_leave_def Let_def
    split: if_splits client_pc.splits\<close>)

text \<open>
  C26. A maintenance procedure is called exactly once for each call that schedules one and returns
  success, and once more at most for the one that is about to return; and whenever it is called, all
  workers have passed the barrier and exactly one of them was elected.
\<close>

theorem stage_maintenance_once:
  assumes "started_stage ps" "do_turns ts (started_sys ps) = Some s" "do_turn t s = Some s'"
  shows "length (maint_calls (sys_ps s)) =
      sys_ok s + (if in_maint (sys_cl s) \<and> m_status (sys_ps s) = STAGE_STATE_STARTED then 1 else 0) \<and>
    (maint_calls (sys_ps s') = maint_calls (sys_ps s) \<or>
     list_all parked (sys_ws s) \<and> length (filter is_master (sys_ws s)) = 1)"
proof -
  have inv: "pause_inv s" using pause_inv_turns [OF pause_inv_start [OF assms(1)] assms(2)] .
  have "list_all parked (sys_ws s) \<and> length (filter is_master (sys_ws s)) = 1"
    if changed: "maint_calls (sys_ps s') \<noteq> maint_calls (sys_ps s)"
  proof -
    obtain i where i: "i < length (sys_ws s)" "sys_ws s ! i = Passed True True"
      using maint_calls_turn [OF inv assms(3) changed] by blast
    have "Passed True True \<in> set (sys_ws s)" using i nth_mem by metis
    then have "Passed True True \<in> set (filter is_master (sys_ws s))" by simp
    then have "filter is_master (sys_ws s) \<noteq> []" by force
    then show ?thesis
      using elected(3) [OF inv i] workers_ok_D(8) [OF pause_inv_D(1) [OF inv]]
      by (cases "filter is_master (sys_ws s)") auto
  qed
  then show ?thesis using pause_inv_D(2) [OF inv] by (auto simp: client_ok_def)
qed

lemma stage_maintenance_once_witness:
  "\<exists>s. do_turns [Call_maintenance (Some 5) None, See 0, See 1, Decide 1, Decide 0, Open 1, Lock 0, Lock 1]
         (started_sys (example_stage 2)) = Some s \<and> length (maint_calls (sys_ps s)) = 1 \<and> sys_ok s = 0"
proof -
  obtain s s' where s: "do_turns [Call_maintenance (Some 5) None, See 0, See 1, Decide 1, Decide 0, Open 1, Lock 0, Lock 1]
      (started_sys (example_stage 2)) = Some s" "do_turn Client_recheck s = Some s'"
    and ok: "sys_ok s = 0" "sys_cl s = Maintaining_woken" "m_status (sys_ps s) = STAGE_STATE_STARTED"
    by (simp add: run_example)
  from stage_maintenance_once [OF example_started s] show ?thesis using s ok by auto
qed

subsection \<open>A pause completes\<close>

fun by_worker :: "stage_turn \<Rightarrow> bool" where
  "by_worker (See i) = True"
| "by_worker (Decide i) = True"
| "by_worker (Open i) = True"
| "by_worker (Lock i) = True"
| "by_worker (Recheck i) = True"
| "by_worker t = False"

fun way_left :: "worker_pc \<Rightarrow> nat" where
  "way_left In_loop = 4"
| "way_left Deciding = 3"
| "way_left (Barrier b) = 2"
| "way_left (Passed b m) = 1"
| "way_left pc = 0"

definition way_left_all :: "worker_pc list \<Rightarrow> nat" where
  "way_left_all ws = sum_list (map way_left ws)"

text \<open>On the way to the barrier, or past it with the elected worker still to come.\<close>

definition pausing :: "bool \<Rightarrow> stage_sys \<Rightarrow> bool" where
  "pausing timed s \<longleftrightarrow>
     sys_cl s = Pausing timed \<and> m_status (sys_ps s) = STAGE_STATE_STARTED \<and> m_pause_requested (sys_ps s) \<and>
     m_maint_proc (sys_ps s) = None \<and> sys_ws s \<noteq> [] \<and>
     (list_all (\<lambda>w. w \<in> {In_loop, Deciding, Barrier False}) (sys_ws s) \<or>
      list_all (\<lambda>w. w \<in> {Passed False True, Passed False False, Resume_wait}) (sys_ws s) \<and>
      Passed False True \<in> set (sys_ws s))"

definition paused :: "bool \<Rightarrow> stage_sys \<Rightarrow> bool" where
  "paused timed s \<longleftrightarrow>
     sys_cl s = Pausing_woken timed \<and> m_status (sys_ps s) = STAGE_STATE_PAUSED \<and> m_pause_requested (sys_ps s) \<and>
     list_all (\<lambda>w. w \<in> {Passed False False, Resume_wait}) (sys_ws s)"

lemma way_left_replace:
  "i < length ws \<Longrightarrow> way_left pc < way_left (ws ! i) \<Longrightarrow> way_left_all (ws[i := pc]) < way_left_all ws"
  unfolding way_left_all_def by (rule sum_list_less_at)

lemma way_left_open:
  assumes "list_all at_barrier ws" "ws \<noteq> []"
  shows "way_left_all (map (\<lambda>i. pass_barrier (i = m) (ws ! i)) [0..<length ws]) < way_left_all ws"
proof -
  have at: "\<exists>b. ws ! i = Barrier b" if "i < length ws" for i
    using assms(1) that by (cases "ws ! i") (auto simp: list_all_length)
  have "map (way_left \<circ> (\<lambda>i. pass_barrier (i = m) (ws ! i))) [0..<length ws] = map (\<lambda>i. 1) [0..<length ws]"
    using at by force
  moreover have "map way_left ws = map (\<lambda>i. 2) [0..<length ws]"
    using at by (intro nth_equalityI) force+
  ultimately show ?thesis
    unfolding way_left_all_def map_map using assms(2) by (simp only:) (simp add: sum_list_triv)
qed

lemma list_all_both: "list_all P xs \<Longrightarrow> list_all Q xs \<Longrightarrow> (\<And>x. P x \<Longrightarrow> Q x \<Longrightarrow> R x) \<Longrightarrow> list_all R xs"
  by (induction xs) simp_all

lemma pausing_turn:
  assumes p: "pausing timed s" and one: "length (filter is_master (sys_ws s)) \<le> 1"
    and turn: "do_turn t s = Some s'" "by_worker t"
  shows "(pausing timed s' \<or> paused timed s') \<and> way_left_all (sys_ws s') < way_left_all (sys_ws s)"
proof (cases t)
  case (See i)
  then have i: "i < length (sys_ws s)" "sys_ws s ! i = In_loop" "s' = set_pc i Deciding s"
    using turn by (auto simp: worker_turn_def split: if_splits)
  then have "In_loop \<in> set (sys_ws s)" using nth_mem by metis
  then have "list_all (\<lambda>w. w \<in> {In_loop, Deciding, Barrier False}) (sys_ws s)"
    using p by (auto simp: pausing_def list_all_iff)
  then have "list_all (\<lambda>w. w \<in> {In_loop, Deciding, Barrier False}) ((sys_ws s)[i := Deciding])"
    by (rule list_all_replace) simp
  then show ?thesis using p i way_left_replace [of i "sys_ws s" Deciding] by (simp add: pausing_def set_pc_def)
next
  case (Decide i)
  then have i: "i < length (sys_ws s)" "sys_ws s ! i = Deciding" "s' = set_pc i (Barrier False) s"
    using turn p by (auto simp: worker_turn_def pausing_def split: if_splits)
  then have "Deciding \<in> set (sys_ws s)" using nth_mem by metis
  then have "list_all (\<lambda>w. w \<in> {In_loop, Deciding, Barrier False}) (sys_ws s)"
    using p by (auto simp: pausing_def list_all_iff)
  then have "list_all (\<lambda>w. w \<in> {In_loop, Deciding, Barrier False}) ((sys_ws s)[i := Barrier False])"
    by (rule list_all_replace) simp
  then show ?thesis using p i way_left_replace [of i "sys_ws s" "Barrier False"] by (simp add: pausing_def set_pc_def)
next
  case (Open m)
  let ?ws = "map (\<lambda>i. pass_barrier (i = m) (sys_ws s ! i)) [0..<length (sys_ws s)]"
  have m: "m < length (sys_ws s)" "list_all at_barrier (sys_ws s)" "s' = open_barrier m s"
    using turn Open by (auto split: if_splits)
  have b: "sys_ws s ! i = Barrier False" if "i < length (sys_ws s)" for i
    using p m(2) that by (cases "sys_ws s ! i") (auto simp: pausing_def list_all_length)
  have "?ws ! m = Passed False True" "m < length ?ws" using m(1) b by simp_all
  then have "Passed False True \<in> set ?ws" using nth_mem by metis
  moreover have "list_all (\<lambda>w. w \<in> {Passed False True, Passed False False, Resume_wait}) ?ws"
    using b by (auto simp: list_all_length)
  ultimately show ?thesis
    using p m way_left_open [OF m(2), of m] by (simp add: pausing_def open_barrier_def)
next
  case (Lock i)
  then have i: "i < length (sys_ws s)" and hp: "has_passed (sys_ws s ! i)" and s': "s' = lock_turn i s (sys_ws s ! i)"
    using turn by (auto simp: worker_turn_def split: if_splits)
  have mem: "sys_ws s ! i \<in> set (sys_ws s)" using i by simp
  have "\<not> list_all (\<lambda>w. w \<in> {In_loop, Deciding, Barrier False}) (sys_ws s)"
  proof
    assume "list_all (\<lambda>w. w \<in> {In_loop, Deciding, Barrier False}) (sys_ws s)"
    then have "sys_ws s ! i \<in> {In_loop, Deciding, Barrier False}" using i unfolding list_all_length by blast
    with hp show False by auto
  qed
  then have all: "list_all (\<lambda>w. w \<in> {Passed False True, Passed False False, Resume_wait}) (sys_ws s)"
    and mst: "Passed False True \<in> set (sys_ws s)"
    using p unfolding pausing_def by blast+
  consider "sys_ws s ! i = Passed False True" | "sys_ws s ! i = Passed False False"
  proof -
    have "sys_ws s ! i \<in> {Passed False True, Passed False False, Resume_wait}"
      using all i unfolding list_all_length by blast
    with hp that show ?thesis by auto
  qed
  then show ?thesis
  proof cases
    case 1
    let ?ws = "(sys_ws s)[i := Resume_wait]"
    have none: "list_all (\<lambda>w. \<not> is_master w) ?ws"
      by (rule no_other_master [OF one i]) (simp_all add: 1)
    have "list_all (\<lambda>w. w \<in> {Passed False True, Passed False False, Resume_wait}) ?ws"
      using all by (rule list_all_replace) simp
    then have quiet: "list_all (\<lambda>w. w \<in> {Passed False False, Resume_wait}) ?ws"
      using none by (rule list_all_both) auto
    have "list_all (\<lambda>w. wake_pause_pc w = w) ?ws"
      using quiet none by (rule list_all_both) auto
    then have "map wake_pause_pc ?ws = ?ws" by (intro map_idI) (simp add: list_all_iff)
    moreover note quiet
    moreover have "way_left_all ?ws < way_left_all (sys_ws s)" using i 1 by (intro way_left_replace) simp_all
    ultimately show ?thesis
      using p 1
      by (simp add: s' s_worker_pause_def resume_recheck_def s_pause_notify_stage_def set_pc_def report_paused_def
          paused_def pausing_def map_update)
  next
    case 2
    let ?ws = "(sys_ws s)[i := Resume_wait]"
    have "list_all (\<lambda>w. w \<in> {Passed False True, Passed False False, Resume_wait}) ?ws"
      using all by (rule list_all_replace) simp
    moreover have "Passed False True \<in> set ?ws"
    proof -
      obtain j where "j < length (sys_ws s)" "sys_ws s ! j = Passed False True" using mst by (meson in_set_conv_nth)
      then show ?thesis using 2 by (metis length_list_update nth_list_update_neq nth_mem worker_pc.inject(2))
    qed
    moreover have "way_left_all ?ws < way_left_all (sys_ws s)" using i 2 by (intro way_left_replace) simp_all
    ultimately show ?thesis
      using p 2 by (simp add: s' s_worker_pause_def resume_recheck_def set_pc_def pausing_def)
  qed
next
  case (Recheck i)
  then have "i < length (sys_ws s)" "sys_ws s ! i = Resume_woken \<or> sys_ws s ! i = Maint_woken"
    using turn by (auto split: if_splits)
  then have False using p by (auto simp: pausing_def list_all_length)
  then show ?thesis ..
qed (use turn in auto)

lemma paused_turn:
  assumes p: "paused timed s" and turn: "do_turn t s = Some s'" "by_worker t"
  shows "paused timed s'"
proof -
  have w: "sys_ws s ! i = Passed False False \<or> sys_ws s ! i = Resume_wait" if "i < length (sys_ws s)" for i
    using p that by (auto simp: paused_def list_all_length)
  have "\<exists>i. t = Lock i \<and> i < length (sys_ws s) \<and> sys_ws s ! i = Passed False False"
  proof (cases t)
    case (Open m)
    then have "at_barrier (sys_ws s ! m)" "m < length (sys_ws s)" using turn by (auto simp: list_all_length split: if_splits)
    then show ?thesis using w [of m] by auto
  next
    case (See i)
    then show ?thesis using turn w [of i] by (auto simp: worker_turn_def split: if_splits)
  next
    case (Decide i)
    then show ?thesis using turn w [of i] by (auto simp: worker_turn_def split: if_splits)
  next
    case (Lock i)
    then show ?thesis using turn w [of i] by (auto simp: worker_turn_def split: if_splits)
  next
    case (Recheck i)
    then show ?thesis using turn w [of i] by (auto split: if_splits)
  qed (use turn in auto)
  then obtain i where t: "t = Lock i" and i: "i < length (sys_ws s)" "sys_ws s ! i = Passed False False" by blast
  have "list_all (\<lambda>w. w \<in> {Passed False False, Resume_wait}) ((sys_ws s)[i := Resume_wait])"
    using p by (intro list_all_replace) (simp_all add: paused_def)
  then show ?thesis
    using turn p i t by (auto simp: worker_turn_def s_worker_pause_def resume_recheck_def set_pc_def paused_def)
qed

lemma paused_turns:
  "paused timed s \<Longrightarrow> do_turns ts s = Some s' \<Longrightarrow> list_all by_worker ts \<Longrightarrow> paused timed s'"
  by (induction ts arbitrary: s) (auto split: option.splits dest: paused_turn)

lemma pausing_turns:
  assumes "pausing timed s \<or> paused timed s" "pause_inv s" "do_turns ts s = Some s'" "list_all by_worker ts"
  shows "paused timed s' \<or> pausing timed s' \<and> length ts + way_left_all (sys_ws s') \<le> way_left_all (sys_ws s)"
  using assms
proof (induction ts arbitrary: s)
  case (Cons t ts)
  obtain s1 where s1: "do_turn t s = Some s1" "do_turns ts s1 = Some s'" "by_worker t" "list_all by_worker ts"
    using Cons.prems by (auto split: option.splits)
  have inv: "pause_inv s1" using pause_inv_turn [OF Cons.prems(2) s1(1)] .
  show ?case
  proof (cases "paused timed s")
    case True
    then show ?thesis using paused_turns [OF True Cons.prems(3,4)] by blast
  next
    case False
    then have step: "pausing timed s1 \<or> paused timed s1" "way_left_all (sys_ws s1) < way_left_all (sys_ws s)"
      using pausing_turn [of timed s t s1] Cons.prems(1) s1
        workers_ok_D(8) [OF pause_inv_D(1) [OF Cons.prems(2)]] by blast+
    from Cons.IH [OF step(1) inv s1(2,4)] step(2) show ?thesis by auto
  qed
qed auto

lemma pausing_progress:
  assumes p: "pausing timed s"
  shows "\<exists>t s'. by_worker t \<and> do_turn t s = Some s'"
proof -
  consider (way) i where "i < length (sys_ws s)" "sys_ws s ! i = In_loop \<or> sys_ws s ! i = Deciding"
    | (barrier) "list_all at_barrier (sys_ws s)"
    | (master) i where "i < length (sys_ws s)" "sys_ws s ! i = Passed False True"
  proof (cases "Passed False True \<in> set (sys_ws s)")
    case True
    then show ?thesis using that(3) by (meson in_set_conv_nth)
  next
    case False
    then have "list_all (\<lambda>w. w \<in> {In_loop, Deciding, Barrier False}) (sys_ws s)"
      using p unfolding pausing_def by blast
    then have w: "sys_ws s ! i \<in> {In_loop, Deciding, Barrier False}" if "i < length (sys_ws s)" for i
      using that unfolding list_all_length by blast
    show ?thesis
    proof (cases "\<exists>i < length (sys_ws s). sys_ws s ! i = In_loop \<or> sys_ws s ! i = Deciding")
      case True
      then show ?thesis using that(1) by blast
    next
      case False
      then have "sys_ws s ! i = Barrier False" if "i < length (sys_ws s)" for i using w [OF that] that by blast
      then have "list_all at_barrier (sys_ws s)" by (simp add: list_all_length)
      then show ?thesis by (rule that(2))
    qed
  qed
  then show ?thesis
  proof cases
    case way
    then have "do_turn (See i) s \<noteq> None \<or> do_turn (Decide i) s \<noteq> None"
      using p by (auto simp: worker_turn_def pausing_def)
    then show ?thesis by (metis by_worker.simps(1,2) not_None_eq)
  next
    case barrier
    then have "do_turn (Open 0) s = Some (open_barrier 0 s)" using p by (simp add: pausing_def)
    then show ?thesis by (metis by_worker.simps(3))
  next
    case master
    then have "do_turn (Lock i) s = Some (lock_turn i s (sys_ws s ! i))" by (simp add: worker_turn_def)
    then show ?thesis by (metis by_worker.simps(4))
  qed
qed

text \<open>
  C27. A pause of a stage whose \<open>n\<close> workers are in their loops completes: however the turns of the
  workers are interleaved, after at most \<open>4 n\<close> of them the stage is paused and the client was woken,
  and until then one of the workers can go on.
\<close>

theorem stage_pause_completes:
  assumes "started_stage ps" "do_turns us (started_sys ps) = Some s0"
    and "list_all (\<lambda>w. w = In_loop) (sys_ws s0)" "sys_ws s0 \<noteq> []"
    and "do_turns (Call_pause timed # ts) s0 = Some s" "list_all by_worker ts"
  shows "m_status (sys_ps s) = STAGE_STATE_PAUSED \<and> sys_cl s = Pausing_woken timed \<or>
    length ts < 4 * length (sys_ws s0) \<and> (\<exists>t s'. by_worker t \<and> do_turn t s = Some s')"
proof -
  have inv0: "pause_inv s0" using pause_inv_turns [OF pause_inv_start [OF assms(1)] assms(2)] .
  obtain s1 where s1: "do_turn (Call_pause timed) s0 = Some s1" "do_turns ts s1 = Some s"
    using assms(5) by (auto split: option.splits if_splits)
  have inv: "pause_inv s1" using pause_inv_turn [OF inv0 s1(1)] .
  have start: "sys_cl s0 = Idle" "m_status (sys_ps s0) = STAGE_STATE_STARTED"
    and eq: "s1 = s0\<lparr>sys_ps := pause_enter (sys_ps s0), sys_cl := Pausing timed\<rparr>"
    using s1(1) by (auto split: if_splits)
  have "m_maint_proc (sys_ps s0) = None"
    using pause_inv_D(2) [OF inv0] start by (auto simp: client_ok_def)
  moreover have "list_all (\<lambda>w. w \<in> {In_loop, Deciding, Barrier False}) (sys_ws s0)"
    using assms(3) by (simp add: list_all_iff)
  ultimately have p: "pausing timed s1" using start assms(4) by (simp add: pausing_def eq)
  have "way_left_all (sys_ws s0) = sum_list (map (\<lambda>_. 4) (sys_ws s0))"
    unfolding way_left_all_def using assms(3) by (intro arg_cong [of _ _ sum_list] map_cong [OF refl]) (auto simp: list_all_iff)
  then have len: "way_left_all (sys_ws s1) = 4 * length (sys_ws s0)"
    by (simp add: sum_list_triv eq)
  consider "paused timed s" | "pausing timed s" "length ts + way_left_all (sys_ws s) \<le> way_left_all (sys_ws s1)"
    using pausing_turns [OF disjI1 [OF p] inv s1(2) assms(6)] by blast
  then show ?thesis
  proof cases
    case 1
    then show ?thesis by (simp add: paused_def)
  next
    case 2
    obtain t s' where t: "by_worker t" "do_turn t s = Some s'" using pausing_progress [OF 2(1)] by blast
    have "way_left_all (sys_ws s') < way_left_all (sys_ws s)"
      using pausing_turn [OF 2(1) _ t(2,1)] workers_ok_D(8) [OF pause_inv_D(1) [OF pause_inv_turns [OF inv s1(2)]]]
      by blast
    then show ?thesis using 2(2) len t by auto
  qed
qed

lemma stage_pause_completes_witness:
  "\<exists>s. do_turns (Call_pause True # [See 0, See 1, Decide 1, Decide 0, Open 1, Lock 0, Lock 1])
         (started_sys (example_stage 2)) = Some s \<and> m_status (sys_ps s) = STAGE_STATE_PAUSED"
proof -
  let ?ts = "[See 0, See 1, Decide 1, Decide 0, Open 1, Lock 0, Lock 1, Lock 1]"
  let ?us = "[See 0, See 1, Decide 1, Decide 0, Open 1, Lock 0, Lock 1]"
  obtain s where s: "do_turns (Call_pause True # ?us) (started_sys (example_stage 2)) = Some s"
    and stuck: "sys_ws s = [Resume_wait, Resume_wait]"
    by (simp add: run_example)
  have "\<not> (\<exists>t s'. by_worker t \<and> do_turn t s = Some s')"
  proof (intro notI, elim exE conjE)
    fix t s' assume t: "by_worker t" "do_turn t s = Some s'"
    then show False
      using stuck by (cases t) (auto simp: worker_turn_def nth_Cons' split: if_splits)
  qed
  moreover have "do_turns [] (started_sys (example_stage 2)) = Some (started_sys (example_stage 2))" by simp
  moreover have "list_all (\<lambda>w. w = In_loop) (sys_ws (started_sys (example_stage 2)))"
    "sys_ws (started_sys (example_stage 2)) \<noteq> []" "list_all by_worker ?us"
    by (simp_all add: run_example)
  ultimately show ?thesis
    using stage_pause_completes [OF example_started _ _ _ s] s by blast
qed

subsection \<open>Runs that come to a halt\<close>

text \<open>
  A client that pauses a stage right after it resumed it can be faster than a worker it woke: the worker
  sees the new request and goes back to sleep. The worker does not come to the barrier, so nobody
  reports the pause, and the client, which holds the lock of the stage, waits for good. No turn is left
  but wake-ups without a cause, and those do not help.
\<close>

definition pause_again_run :: "stage_turn list" where
  "pause_again_run = [Call_pause False, See 0, Decide 0, Open 0, Lock 0, Client_recheck, Call_resume, Resumed,
     Call_pause False, Recheck 0]"

definition asleep_again :: "stage_sys \<Rightarrow> bool" where
  "asleep_again s \<longleftrightarrow>
     (sys_ws s = [Resume_wait] \<or> sys_ws s = [Resume_woken]) \<and>
     (sys_cl s = Pausing False \<or> sys_cl s = Pausing_woken False) \<and>
     m_pause_requested (sys_ps s) \<and> m_status (sys_ps s) = STAGE_STATE_STARTED"

lemma stage_pause_again_stuck:
  "\<exists>s. do_turns pause_again_run (started_sys (example_stage 1)) = Some s \<and> asleep_again s"
  by (simp add: run_example pause_again_run_def asleep_again_def)

lemma asleep_again_turn: "asleep_again s \<Longrightarrow> do_turn t s = Some s' \<Longrightarrow> asleep_again s'"
  by (cases t)
    (auto simp: asleep_again_def worker_turn_def set_pc_def resume_recheck_def less_Suc_eq split: if_splits)

lemma stage_pause_again_forever:
  "asleep_again s \<Longrightarrow> do_turns ts s = Some s' \<Longrightarrow> asleep_again s'"
  by (induction ts arbitrary: s) (auto split: option.splits dest: asleep_again_turn)

text \<open>
  The same with maintenance: a worker that waited for the first one finds the second one requested when
  it looks, and waits on, while the others are at the barrier.
\<close>

definition maint_again_run :: "stage_turn list" where
  "maint_again_run = [Call_maintenance (Some 1) None, See 0, See 1, Decide 0, Decide 1, Open 0, Lock 1, Lock 0,
     Client_recheck, Call_maintenance (Some 2) None, Recheck 1, See 0, Decide 0]"

definition maint_asleep_again :: "stage_sys \<Rightarrow> bool" where
  "maint_asleep_again s \<longleftrightarrow>
     (sys_ws s = [Barrier True, Maint_wait] \<or> sys_ws s = [Barrier True, Maint_woken]) \<and>
     (sys_cl s = Maintaining \<or> sys_cl s = Maintaining_woken) \<and>
     m_status (sys_ps s) = STAGE_STATE_MAINTENANCE_REQUESTED"

lemma stage_maintenance_again_stuck:
  "\<exists>s. do_turns maint_again_run (started_sys (example_stage 2)) = Some s \<and> maint_asleep_again s \<and> sys_ok s = 1"
  by (simp add: run_example maint_again_run_def maint_asleep_again_def)

lemma maint_asleep_again_turn: "maint_asleep_again s \<Longrightarrow> do_turn t s = Some s' \<Longrightarrow> maint_asleep_again s'"
  by (cases t)
    (auto simp: maint_asleep_again_def worker_turn_def set_pc_def maint_done_recheck_def less_Suc_eq
      split: if_splits)

text \<open>
  After a pause that timed out its request stands. When maintenance is scheduled then, some workers come
  to the barrier for the pause and others for the maintenance. If the one elected came for the pause,
  the stage is marked paused, the maintenance is refused, and a worker can go back to work: the next
  pause returns success at once although a worker works.
\<close>

definition pause_maint_run :: "stage_turn list" where
  "pause_maint_run = [Call_pause True, See 0, Decide 0, See 1, Decide 1, Client_timeout,
     Call_maintenance (Some 1) None, See 2, Decide 2, Open 0, Lock 0, Client_recheck, Lock 1]"

lemma stage_paused_at_work:
  "\<exists>s. do_turns pause_maint_run (started_sys (example_stage 3)) = Some s \<and>
     m_status (sys_ps s) = STAGE_STATE_PAUSED \<and> sys_cl s = Idle \<and> sys_ws s ! 1 = In_loop \<and>
     stage_pause [] (sys_ps s) = (sys_ps s, Some GALLUS_RESULT_OK)"
  by (simp add: run_example pause_maint_run_def stage_pause_def)

text \<open>The barrier counts all workers: when one has left its loop no pause without a limit returns.\<close>

lemma stage_pause_ended_stuck:
  "\<exists>s. do_turns [End 1, Call_pause False, See 0, Decide 0] (started_sys (example_stage 2)) = Some s \<and>
     (\<forall>t. do_turn t s = None \<or> t = Spurious_client)"
proof -
  obtain s where s: "do_turns [End 1, Call_pause False, See 0, Decide 0] (started_sys (example_stage 2)) = Some s"
    and st: "sys_ws s = [Barrier False, Ended]" "sys_cl s = Pausing False"
    by (simp add: run_example)
  have "do_turn t s = None \<or> t = Spurious_client" for t
    using st by (cases t) (auto simp: worker_turn_def less_Suc_eq nth_Cons' split: if_splits)
  then show ?thesis using s by blast
qed

end
