(* ===== verification/QMuxer.thy ===== *)
theory QMuxer
  imports CBuffer Chrono
begin

text \<open>
  The queue muxer, \<^verbatim>\<open>framework/lib/qmuxer.c\<close>, and the poll objects, \<^verbatim>\<open>framework/lib/qpoll.c\<close>: a
  thread waits until one of several circular buffers is readable or writable.

  A muxer, a poll object and a queue have an address, a number. The queues are a function from their
  address to the buffer; they exist as long as they are polled. The poll objects of an array are
  values, so no two places of an array share one. The muxer holds no lock while it goes over the
  queues, so other threads run before each of them is looked at: \<open>others i\<close> is what they do to the
  queues before the \<open>i\<close>th.
\<close>

type_synonym queues = "nat \<Rightarrow> cbuffer"

record poll =
  mp_bbq :: "nat option"
  mp_type :: int
  mp_q_size :: int
  mp_q_rem_capacity :: int

definition GALLUS_QMUXER_POLL_UNKNOWN :: int where
  "GALLUS_QMUXER_POLL_UNKNOWN = 0"

definition GALLUS_QMUXER_POLL_BOTH :: int where
  "GALLUS_QMUXER_POLL_BOTH = 3"

definition IS_VALID_POLL_TYPE :: "int \<Rightarrow> bool" where
  "IS_VALID_POLL_TYPE t \<longleftrightarrow> t > GALLUS_QMUXER_POLL_UNKNOWN \<and> t \<le> GALLUS_QMUXER_POLL_BOTH"

subsection \<open>Poll objects\<close>

definition s_poll_initialize :: "nat option \<Rightarrow> int \<Rightarrow> poll \<Rightarrow> poll \<times> gallus_result_t" where
  "s_poll_initialize bbq type mp =
    (if bbq \<noteq> None \<and> IS_VALID_POLL_TYPE type then
       (\<lparr>mp_bbq = bbq, mp_type = type, mp_q_size = 0, mp_q_rem_capacity = 0\<rparr>, GALLUS_RESULT_OK)
     else (mp, GALLUS_RESULT_INVALID_ARGS))"

text \<open>
  \<open>mem\<close> is the address \<^verbatim>\<open>malloc\<close> gives and what the memory holds, or NULL. The result has the
  objects in memory, the handle and the code.
\<close>

definition gallus_qmuxer_poll_create ::
  "(nat \<times> poll) option \<Rightarrow> nat option \<Rightarrow> int \<Rightarrow> (nat \<rightharpoonup> poll) \<Rightarrow> (nat \<rightharpoonup> poll) \<times> nat option \<times> gallus_result_t" where
  "gallus_qmuxer_poll_create mem bbq type heap =
    (case mem of
       None \<Rightarrow> (heap, None, GALLUS_RESULT_NO_MEMORY)
     | Some (a, junk) \<Rightarrow>
         (let (mp, ret) = s_poll_initialize bbq type junk
          in if ret = GALLUS_RESULT_OK then (heap(a \<mapsto> mp), Some a, ret) else (heap(a := None), Some a, ret)))"

definition gallus_qmuxer_poll_destroy :: "nat option \<Rightarrow> (nat \<rightharpoonup> poll) \<Rightarrow> (nat \<rightharpoonup> poll)" where
  "gallus_qmuxer_poll_destroy h heap = (case h of Some a \<Rightarrow> heap(a := None) | None \<Rightarrow> heap)"

text \<open>The calls on a handle get the object it stands for, or None for NULL.\<close>

definition gallus_qmuxer_poll_reset :: "poll option \<Rightarrow> poll option \<times> gallus_result_t" where
  "gallus_qmuxer_poll_reset mpptr =
    (case mpptr of
       None \<Rightarrow> (None, GALLUS_RESULT_INVALID_ARGS)
     | Some mp \<Rightarrow> (Some (mp\<lparr>mp_q_size := 0, mp_q_rem_capacity := 0\<rparr>), GALLUS_RESULT_OK))"

definition gallus_qmuxer_poll_set_queue ::
  "queues \<Rightarrow> nat option \<Rightarrow> poll option \<Rightarrow> poll option \<times> gallus_result_t" where
  "gallus_qmuxer_poll_set_queue qs bbq mpptr =
    (case mpptr of
       None \<Rightarrow> (None, GALLUS_RESULT_INVALID_ARGS)
     | Some mp \<Rightarrow>
         (Some (mp\<lparr>mp_bbq := bbq\<rparr>),
          (case bbq of
             None \<Rightarrow> GALLUS_RESULT_OK
           | Some a \<Rightarrow>
               if gallus_cbuffer_is_operational (Some (qs a)) True = (GALLUS_RESULT_OK, Some True)
               then GALLUS_RESULT_OK else GALLUS_RESULT_NOT_OPERATIONAL)))"

definition gallus_qmuxer_poll_get_queue :: "bool \<Rightarrow> poll option \<Rightarrow> nat option option \<times> gallus_result_t" where
  "gallus_qmuxer_poll_get_queue bbqptr mpptr =
    (case mpptr of
       Some mp \<Rightarrow> if bbqptr then (Some (mp_bbq mp), GALLUS_RESULT_OK) else (None, GALLUS_RESULT_INVALID_ARGS)
     | None \<Rightarrow> (None, GALLUS_RESULT_INVALID_ARGS))"

definition gallus_qmuxer_poll_set_type :: "int \<Rightarrow> poll option \<Rightarrow> poll option \<times> gallus_result_t" where
  "gallus_qmuxer_poll_set_type type mpptr =
    (case mpptr of
       Some mp \<Rightarrow>
         if IS_VALID_POLL_TYPE type then
           (Some (mp\<lparr>mp_type := (if mp_bbq mp \<noteq> None then type else GALLUS_QMUXER_POLL_UNKNOWN)\<rparr>), GALLUS_RESULT_OK)
         else (mpptr, GALLUS_RESULT_INVALID_ARGS)
     | None \<Rightarrow> (mpptr, GALLUS_RESULT_INVALID_ARGS))"

definition gallus_qmuxer_poll_size :: "poll option \<Rightarrow> gallus_result_t" where
  "gallus_qmuxer_poll_size mpptr =
    (case mpptr of
       Some mp \<Rightarrow> if mp_bbq mp \<noteq> None then mp_q_size mp else 0
     | None \<Rightarrow> GALLUS_RESULT_INVALID_ARGS)"

definition gallus_qmuxer_poll_remaining_capacity :: "poll option \<Rightarrow> gallus_result_t" where
  "gallus_qmuxer_poll_remaining_capacity mpptr =
    (case mpptr of
       Some mp \<Rightarrow> if mp_bbq mp \<noteq> None then mp_q_rem_capacity mp else 0
     | None \<Rightarrow> GALLUS_RESULT_INVALID_ARGS)"

subsection \<open>Muxers\<close>

text \<open>Which of its parts were created, and what its destruction calls.\<close>

record qmuxer =
  qm_lock :: bool
  qm_cond :: bool

datatype qm_call = Mutex_lock | Mutex_unlock | Cond_destroy | Mutex_destroy | Free_qmuxer

definition s_qmx_initialize :: "gallus_result_t \<Rightarrow> gallus_result_t \<Rightarrow> qmuxer \<times> gallus_result_t" where
  "s_qmx_initialize lock cond =
    (if lock = GALLUS_RESULT_OK then
       (if cond = GALLUS_RESULT_OK then (\<lparr>qm_lock = True, qm_cond = True\<rparr>, cond)
        else (\<lparr>qm_lock = True, qm_cond = False\<rparr>, cond))
     else (\<lparr>qm_lock = False, qm_cond = False\<rparr>, lock))"

definition s_qmx_destroy :: "qmuxer \<Rightarrow> qm_call list" where
  "s_qmx_destroy qmx =
    (if qm_lock qmx
     then [Mutex_lock] @ (if qm_cond qmx then [Cond_destroy] else []) @ [Mutex_unlock, Mutex_destroy] else []) @
    [Free_qmuxer]"

definition gallus_qmuxer_create ::
  "nat option \<Rightarrow> gallus_result_t \<Rightarrow> gallus_result_t \<Rightarrow> (nat \<rightharpoonup> qmuxer) \<Rightarrow>
   (nat \<rightharpoonup> qmuxer) \<times> nat option \<times> qm_call list \<times> gallus_result_t" where
  "gallus_qmuxer_create mem lock cond heap =
    (case mem of
       None \<Rightarrow> (heap, None, [], GALLUS_RESULT_NO_MEMORY)
     | Some a \<Rightarrow>
         (let (qmx, ret) = s_qmx_initialize lock cond
          in if ret \<noteq> GALLUS_RESULT_OK then (heap(a := None), Some a, s_qmx_destroy qmx, ret)
             else (heap(a \<mapsto> qmx), Some a, [], ret)))"

definition gallus_qmuxer_destroy :: "nat option \<Rightarrow> (nat \<rightharpoonup> qmuxer) \<Rightarrow> (nat \<rightharpoonup> qmuxer) \<times> qm_call list" where
  "gallus_qmuxer_destroy h heap =
    (case h of
       Some a \<Rightarrow> (heap(a := None), (case heap a of Some qmx \<Rightarrow> s_qmx_destroy qmx | None \<Rightarrow> []))
     | None \<Rightarrow> (heap, []))"

subsection \<open>Going over the queues\<close>

text \<open>What the queue stores through the pointers to the sizes.\<close>

definition store_sizes :: "(int \<times> int) option \<Rightarrow> poll \<Rightarrow> poll" where
  "store_sizes out mp =
    (case out of Some (sz, rem) \<Rightarrow> mp\<lparr>mp_q_size := sz, mp_q_rem_capacity := rem\<rparr> | None \<Rightarrow> mp)"

text \<open>The loop: an error that ends it, or the numbers of poll objects without a queue and with an event.\<close>

fun setup_loop ::
  "(nat \<Rightarrow> queues \<Rightarrow> queues) \<Rightarrow> nat \<Rightarrow> bool \<Rightarrow> poll option list \<Rightarrow> queues \<Rightarrow> nat \<Rightarrow> int \<Rightarrow>
   poll option list \<times> queues \<times> (gallus_result_t + nat \<times> int)" where
  "setup_loop others qmx is_pre [] qs n_nulls nev = ([], qs, Inr (n_nulls, nev))"
| "setup_loop others qmx is_pre (p # ps) qs n_nulls nev =
    (case p of
       Some mp \<Rightarrow>
         (case mp_bbq mp of
            Some a \<Rightarrow>
              (let qs = others 0 qs;
                   (cb, st, out) = cbuffer_setup_for_qmuxer (Some (qs a)) qmx (mp_type mp) is_pre;
                   qs = qs(a := the cb);
                   mp = store_sizes out mp
               in if is_pre \<and> st < 0 then (Some mp # ps, qs, Inl st)
                  else
                    (let (ps, qs, r) = setup_loop (\<lambda>i. others (Suc i)) qmx is_pre ps qs n_nulls
                           (if st = 0 then nev + 1 else nev)
                     in (Some mp # ps, qs, r)))
          | None \<Rightarrow>
              (let (ps, qs, r) = setup_loop (\<lambda>i. others (Suc i)) qmx is_pre ps qs (n_nulls + 1) nev
               in (Some (mp\<lparr>mp_q_size := 0, mp_q_rem_capacity := 0\<rparr>) # ps, qs, r)))
     | None \<Rightarrow>
         (if is_pre then (p # ps, qs, Inl GALLUS_RESULT_INVALID_ARGS)
          else
            (let (ps, qs, r) = setup_loop (\<lambda>i. others (Suc i)) qmx is_pre ps qs n_nulls nev
             in (p # ps, qs, r))))"

definition s_qmx_setup_for_poll ::
  "(nat \<Rightarrow> queues \<Rightarrow> queues) \<Rightarrow> nat \<Rightarrow> bool \<Rightarrow> poll option list \<times> queues \<Rightarrow>
   (poll option list \<times> queues) \<times> gallus_result_t" where
  "s_qmx_setup_for_poll others qmx is_pre s =
    (case s of
       (polls, qs) \<Rightarrow>
         if length polls > 0 then
           (case setup_loop others qmx is_pre polls qs 0 0 of
              (polls', qs, Inl ret) \<Rightarrow> ((polls', qs), ret)
            | (polls', qs, Inr (n_nulls, nev)) \<Rightarrow>
                ((polls', qs), if n_nulls = length polls then GALLUS_RESULT_INVALID_ARGS else nev))
         else (s, GALLUS_RESULT_INVALID_ARGS))"

subsection \<open>Polling\<close>

text \<open>
  One wait: what other threads do from the end of the pass before it until it returns, its result, and what they
  do while the muxer goes over the queues afterwards and, if it found nothing, again before the next wait. No lock
  is held between the end of the pass and the wait, so a part of \<open>wk_env\<close> runs before the thread has fallen asleep
  and its notifications wake nobody.
\<close>

record qm_wake =
  wk_env :: "queues \<Rightarrow> queues"
  wk_ret :: gallus_result_t
  wk_post :: "nat \<Rightarrow> queues \<Rightarrow> queues"
  wk_pre :: "nat \<Rightarrow> queues \<Rightarrow> queues"

fun poll_recheck ::
  "qm_wake list \<Rightarrow> (nat \<Rightarrow> queues \<Rightarrow> queues) \<Rightarrow> (queues \<Rightarrow> queues) \<Rightarrow> nat \<Rightarrow> poll option list \<times> queues \<Rightarrow>
   (poll option list \<times> queues) \<times> gallus_result_t option" where
  "poll_recheck [] others gap qmx s =
    (let (s, ret) = s_qmx_setup_for_poll others qmx True s
     in if ret = 0 then (map_prod id gap s, None) else (s, Some ret))"
| "poll_recheck (wk # ws) others gap qmx s =
    (let (s, ret) = s_qmx_setup_for_poll others qmx True s
     in if ret = 0 then
          (let s = map_prod id (wk_env wk) s
           in if wk_ret wk = GALLUS_RESULT_OK then
                (let (s, ret) = s_qmx_setup_for_poll (wk_post wk) qmx False s
                 in if ret \<noteq> 0 then (s, Some ret) else poll_recheck ws (wk_pre wk) gap qmx s)
              else (s, Some (wk_ret wk)))
        else (s, Some ret))"

text \<open>
  Without a muxer it sleeps (\<open>os\<close> is what the sleep meets), without poll objects it waits once. A result
  of None is a thread that still waits, and \<open>gap\<close> is what the other threads have done since the end of its last
  pass, before it fell asleep and after.
\<close>

definition gallus_qmuxer_poll ::
  "sleep_outcome list \<Rightarrow> qm_wake list \<Rightarrow> (nat \<Rightarrow> queues \<Rightarrow> queues) \<Rightarrow> (queues \<Rightarrow> queues) \<Rightarrow> nat option \<Rightarrow> gallus_chrono_t \<Rightarrow>
   poll option list \<times> queues \<Rightarrow> (poll option list \<times> queues) \<times> gallus_result_t option" where
  "gallus_qmuxer_poll os ws others gap qmxptr nsec s =
    (case qmxptr of
       Some qmx \<Rightarrow>
         if length (fst s) > 0 then poll_recheck ws others gap qmx s
         else if nsec > 0 then
           (case ws of
              [] \<Rightarrow> (map_prod id gap s, None)
            | wk # _ \<Rightarrow> (map_prod id (wk_env wk) s, Some (wk_ret wk)))
         else (s, Some GALLUS_RESULT_INVALID_ARGS)
     | None \<Rightarrow>
         if nsec > 0 then
           (s, case fst (gallus_chrono_nanosleep os \<lparr>tv_sec = 0, tv_nsec = 0\<rparr> nsec False) of
                 None \<Rightarrow> None
               | Some ret \<Rightarrow> Some (if ret = GALLUS_RESULT_OK then GALLUS_RESULT_TIMEDOUT else ret))
         else (s, Some GALLUS_RESULT_INVALID_ARGS))"

end
