(* ===== verification/QMuxer_Laws.thy ===== *)
theory QMuxer_Laws
  imports QMuxer CBuffer_Queue
begin

text \<open>
  What a poll returns, and how it hangs together with the queues: a poll that sleeps is registered with
  each of its queues, so the next put or get notifies it, and a poll that is woken for an event returns.
  At the end, where the code leaves a registration or a pointer behind.
\<close>

subsection \<open>One pass over the queues\<close>

text \<open>The sizes a poll object holds allow what it polls for.\<close>

definition sizes_ready :: "int \<Rightarrow> int \<Rightarrow> int \<Rightarrow> bool" where
  "sizes_ready type sz rem \<longleftrightarrow> \<not> (NEED_WAIT_READABLE type \<and> sz = 0) \<and> \<not> (NEED_WAIT_WRITABLE type \<and> rem = 0)"

fun poll_ready :: "poll option \<Rightarrow> bool" where
  "poll_ready None = False"
| "poll_ready (Some mp) = (mp_bbq mp \<noteq> None \<and> sizes_ready (mp_type mp) (mp_q_size mp) (mp_q_rem_capacity mp))"

fun poll_queue :: "poll option \<Rightarrow> nat option" where
  "poll_queue None = None"
| "poll_queue (Some mp) = mp_bbq mp"

text \<open>What the passes keep of a poll object.\<close>

definition poll_key :: "poll option \<Rightarrow> (nat option \<times> int) option" where
  "poll_key p = map_option (\<lambda>mp. (mp_bbq mp, mp_type mp)) p"

definition no_queue :: "poll option \<Rightarrow> bool" where
  "no_queue p \<longleftrightarrow> p \<noteq> None \<and> poll_queue p = None"

lemma no_queue_simps [simp]: "\<not> no_queue None" "no_queue (Some mp) = (mp_bbq mp = None)"
  by (simp_all add: no_queue_def)

lemma setup_result:
  assumes "cbuffer_setup_for_qmuxer (Some cb) qmx type is_pre = (cb', st, out)"
  shows "m_is_operational cb \<Longrightarrow> out = Some (m_n_elements cb, m_n_max_elements cb - m_n_elements cb) \<and> st \<ge> 0 \<and>
           (st = 0) = sizes_ready type (m_n_elements cb) (m_n_max_elements cb - m_n_elements cb)"
    and "\<not> m_is_operational cb \<Longrightarrow> cb' = Some cb \<and> out = None \<and> st = GALLUS_RESULT_NOT_OPERATIONAL"
  using assms by (auto simp: cbuffer_setup_for_qmuxer_def Let_def sizes_ready_def
      GALLUS_QMUXER_POLL_READABLE_def GALLUS_QMUXER_POLL_WRITABLE_def split: if_splits)

lemma setup_loop_keys:
  "setup_loop others qmx is_pre ps qs n v = (ps', qs', r) \<Longrightarrow> map poll_key ps' = map poll_key ps"
  by (induction others qmx is_pre ps qs n v arbitrary: ps' qs' r rule: setup_loop.induct)
    (auto simp: poll_key_def store_sizes_def Let_def split: option.splits prod.splits if_splits)

lemma setup_loop_counts:
  assumes "setup_loop others qmx is_pre ps qs n v = (ps', qs', Inr (n', v'))"
    and "is_pre \<or> list_all (\<lambda>p. \<not> poll_ready p) ps"
  shows "v' = v + int (length (filter poll_ready ps')) \<and> n' = n + length (filter no_queue ps) \<and>
    (is_pre \<longrightarrow> None \<notin> set ps)"
  using assms
proof (induction ps arbitrary: others qs n v ps' qs')
  case (Cons p ps)
  show ?case
  proof (cases p)
    case None
    then show ?thesis using Cons.prems Cons.IH [of "\<lambda>i. others (Suc i)" qs n v] by (auto split: if_splits prod.splits)
  next
    case (Some mp)
    show ?thesis
    proof (cases "mp_bbq mp")
      case None
      then show ?thesis using Some Cons.prems Cons.IH [of "\<lambda>i. others (Suc i)" qs "n + 1" v]
        by (auto split: prod.splits)
    next
      case a: (Some a)
      obtain cb st out where c: "cbuffer_setup_for_qmuxer (Some (others 0 qs a)) qmx (mp_type mp) is_pre = (cb, st, out)"
        by (cases "cbuffer_setup_for_qmuxer (Some (others 0 qs a)) qmx (mp_type mp) is_pre") auto
      let ?mp = "store_sizes out mp"
      have ok: "\<not> (is_pre \<and> st < 0)" using Cons.prems(1) Some a c by (auto simp: Let_def split: if_splits)
      have ready: "poll_ready (Some ?mp) = (st = 0)"
      proof (cases "m_is_operational (others 0 qs a)")
        case True
        then show ?thesis using setup_result(1) [OF c] a by (auto simp: store_sizes_def)
      next
        case False
        then have "out = None" "st = GALLUS_RESULT_NOT_OPERATIONAL" using setup_result(2) [OF c] by auto
        moreover from this have "\<not> is_pre" using ok by simp
        ultimately show ?thesis using Cons.prems(2) Some by (simp add: store_sizes_def)
      qed
      show ?thesis
        using Cons.prems Some a c ok ready
          Cons.IH [of "\<lambda>i. others (Suc i)" "(others 0 qs)(a := the cb)" n "if st = 0 then v + 1 else v"]
        by (auto simp: Let_def simp del: fun_upd_apply poll_ready.simps split: prod.splits if_splits)
    qed
  qed
qed simp

lemma setup_loop_nulls:
  "setup_loop others qmx is_pre ps qs n v = (ps', qs', Inr (n', v')) \<Longrightarrow> n' = n + length (filter no_queue ps)"
  by (induction others qmx is_pre ps qs n v arbitrary: ps' qs' rule: setup_loop.induct)
    (auto simp: Let_def simp del: fun_upd_apply split: option.splits prod.splits if_splits)

lemma setup_loop_fails:
  assumes "setup_loop others qmx is_pre ps qs n v = (ps', qs', Inl r)"
  shows "is_pre \<and> (r = GALLUS_RESULT_INVALID_ARGS \<and> None \<in> set ps \<or>
    r = GALLUS_RESULT_NOT_OPERATIONAL \<and> (\<exists>p \<in> set ps. \<exists>a. poll_queue p = Some a \<and> \<not> m_is_operational (qs' a)))"
  using assms
proof (induction ps arbitrary: others qs n v ps' qs')
  case (Cons p ps)
  show ?case
  proof (cases p)
    case None
    then show ?thesis using Cons.prems Cons.IH [of "\<lambda>i. others (Suc i)" qs n v] by (auto split: if_splits prod.splits)
  next
    case (Some mp)
    show ?thesis
    proof (cases "mp_bbq mp")
      case None
      then show ?thesis using Some Cons.prems Cons.IH [of "\<lambda>i. others (Suc i)" qs "n + 1" v] by (auto split: prod.splits)
    next
      case a: (Some a)
      obtain cb st out where c: "cbuffer_setup_for_qmuxer (Some (others 0 qs a)) qmx (mp_type mp) is_pre = (cb, st, out)"
        by (cases "cbuffer_setup_for_qmuxer (Some (others 0 qs a)) qmx (mp_type mp) is_pre") auto
      show ?thesis
      proof (cases "is_pre \<and> st < 0")
        case True
        then have "\<not> m_is_operational (others 0 qs a)" using setup_result(1) [OF c] by auto
        then show ?thesis using setup_result(2) [OF c] Some a c True Cons.prems by (auto simp: Let_def)
      next
        case False
        then show ?thesis
          using Cons.prems Some a c
            Cons.IH [of "\<lambda>i. others (Suc i)" "(others 0 qs)(a := the cb)" n "if st = 0 then v + 1 else v"]
          by (auto simp: Let_def simp del: fun_upd_apply split: prod.splits)
      qed
    qed
  qed
qed simp

lemma setup_keys:
  "s_qmx_setup_for_poll others qmx is_pre (polls, qs) = ((polls', qs'), ret) \<Longrightarrow>
     map poll_key polls' = map poll_key polls"
  by (auto simp: s_qmx_setup_for_poll_def split: prod.splits sum.splits if_splits dest: setup_loop_keys)

text \<open>The result of a pass: a count of ready poll objects, or an error with its reason.\<close>

lemma setup_outcome:
  assumes "s_qmx_setup_for_poll others qmx is_pre (polls, qs) = ((polls', qs'), ret)" "polls \<noteq> []"
    and "is_pre \<or> list_all (\<lambda>p. \<not> poll_ready p) polls"
  shows "0 \<le> ret \<and> ret = int (length (filter poll_ready polls')) \<or>
    ret = GALLUS_RESULT_INVALID_ARGS \<and> (None \<in> set polls \<or> list_all no_queue polls) \<or>
    ret = GALLUS_RESULT_NOT_OPERATIONAL \<and>
      (\<exists>p \<in> set polls. \<exists>a. poll_queue p = Some a \<and> \<not> m_is_operational (qs' a))"
proof (cases "setup_loop others qmx is_pre polls qs 0 0")
  case (fields ps q r)
  show ?thesis
  proof (cases r)
    case (Inl e)
    then show ?thesis using assms(1,2) fields setup_loop_fails [of others qmx is_pre polls qs 0 0 ps q e]
      by (auto simp: s_qmx_setup_for_poll_def)
  next
    case (Inr x)
    obtain n v where x: "x = (n, v)" by (cases x)
    have c: "v = int (length (filter poll_ready ps))" "n = length (filter no_queue polls)"
      using setup_loop_counts [of others qmx is_pre polls qs 0 0 ps q n v] fields Inr x assms(3) by simp_all
    have "list_all no_queue polls" if "n = length polls"
      using that c(2) by (metis list_all_iff length_filter_less nat_neq_iff)
    then show ?thesis using assms(1,2) fields Inr x c by (auto simp: s_qmx_setup_for_poll_def split: if_splits)
  qed
qed

lemma count_zero: "int (length (filter P xs)) = 0 \<longleftrightarrow> list_all (\<lambda>x. \<not> P x) xs"
  by (induction xs) auto

lemma setup_zero:
  assumes "s_qmx_setup_for_poll others qmx is_pre (polls, qs) = ((polls', qs'), 0)" "polls \<noteq> []"
    and "is_pre \<or> list_all (\<lambda>p. \<not> poll_ready p) polls"
  shows "list_all (\<lambda>p. \<not> poll_ready p) polls'" "polls' \<noteq> []"
proof -
  show "list_all (\<lambda>p. \<not> poll_ready p) polls'"
    using setup_outcome [OF assms] count_zero [of poll_ready polls'] by auto
  show "polls' \<noteq> []" using setup_keys [OF assms(1)] assms(2) by auto
qed

subsection \<open>What a poll returns\<close>

lemma keys_props:
  assumes "map poll_key polls' = map poll_key polls"
  shows "None \<in> set polls' \<longleftrightarrow> None \<in> set polls" "list_all no_queue polls' = list_all no_queue polls"
    "(\<exists>p \<in> set polls'. \<exists>a. poll_queue p = Some a \<and> P a) = (\<exists>p \<in> set polls. \<exists>a. poll_queue p = Some a \<and> P a)"
proof -
  have k: "p = None \<longleftrightarrow> poll_key p = None" "no_queue p \<longleftrightarrow> (\<exists>t. poll_key p = Some (None, t))"
    "(\<exists>a. poll_queue p = Some a \<and> P a) = (\<exists>a t. poll_key p = Some (Some a, t) \<and> P a)" for p P
    by (cases p; auto simp: poll_key_def)+
  have s: "poll_key ` set polls' = poll_key ` set polls" using arg_cong [OF assms, of set] by simp
  have e: "(\<exists>p \<in> set ps. Q (poll_key p)) = (\<exists>x \<in> poll_key ` set ps. Q x)" for Q ps by blast
  show "None \<in> set polls' \<longleftrightarrow> None \<in> set polls"
    using e [of polls "\<lambda>x. x = None"] e [of polls' "\<lambda>x. x = None"] s k(1) by metis
  show "list_all no_queue polls' = list_all no_queue polls"
    using e [of polls "\<lambda>x. \<not> (\<exists>t. x = Some (None, t))"] e [of polls' "\<lambda>x. \<not> (\<exists>t. x = Some (None, t))"] s
    unfolding list_all_iff k(2) by metis
  show "(\<exists>p \<in> set polls'. \<exists>a. poll_queue p = Some a \<and> P a) = (\<exists>p \<in> set polls. \<exists>a. poll_queue p = Some a \<and> P a)"
    using e [of polls "\<lambda>x. \<exists>a t. x = Some (Some a, t) \<and> P a"] e [of polls' "\<lambda>x. \<exists>a t. x = Some (Some a, t) \<and> P a"] s
    unfolding k(3) by metis
qed

lemma poll_recheck_outcome:
  assumes "poll_recheck ws others gap qmx (polls, qs) = ((polls', qs'), Some r)" "polls \<noteq> []"
  shows "map poll_key polls' = map poll_key polls \<and>
    (0 < r \<and> r = int (length (filter poll_ready polls')) \<or>
     r = GALLUS_RESULT_INVALID_ARGS \<and> (None \<in> set polls \<or> list_all no_queue polls) \<or>
     r = GALLUS_RESULT_NOT_OPERATIONAL \<and>
       (\<exists>p \<in> set polls. \<exists>a. poll_queue p = Some a \<and> \<not> m_is_operational (qs' a)) \<or>
     (\<exists>wk \<in> set ws. r = wk_ret wk \<and> r \<noteq> GALLUS_RESULT_OK))"
  using assms
proof (induction ws arbitrary: others polls qs)
  case Nil
  obtain ps q ret where s: "s_qmx_setup_for_poll others qmx True (polls, qs) = ((ps, q), ret)"
    by (cases "s_qmx_setup_for_poll others qmx True (polls, qs)") auto
  then show ?case using Nil setup_outcome [OF s] setup_keys [OF s] by (auto split: if_splits)
next
  case (Cons wk ws)
  obtain ps q ret where s: "s_qmx_setup_for_poll others qmx True (polls, qs) = ((ps, q), ret)"
    by (cases "s_qmx_setup_for_poll others qmx True (polls, qs)") auto
  note k = setup_keys [OF s]
  consider "ret \<noteq> 0" | "ret = 0" "wk_ret wk \<noteq> GALLUS_RESULT_OK" | "ret = 0" "wk_ret wk = GALLUS_RESULT_OK" by blast
  then show ?case
  proof cases
    case 1
    then show ?thesis using Cons.prems s setup_outcome [OF s] k by auto
  next
    case 2
    then show ?thesis using Cons.prems s k by auto
  next
    case 3
    obtain ps2 q2 ret2 where s2: "s_qmx_setup_for_poll (wk_post wk) qmx False (ps, wk_env wk q) = ((ps2, q2), ret2)"
      by (cases "s_qmx_setup_for_poll (wk_post wk) qmx False (ps, wk_env wk q)") auto
    have z: "list_all (\<lambda>p. \<not> poll_ready p) ps" "ps \<noteq> []" using setup_zero [of others qmx True polls qs ps q] s 3 Cons.prems(2) by auto
    note k2 = setup_keys [OF s2]
    have kk: "map poll_key ps2 = map poll_key polls" using k k2 by simp
    show ?thesis
    proof (cases "ret2 = 0")
      case True
      have "ps2 \<noteq> []" using setup_zero(2) [of "wk_post wk" qmx False ps] s2 True z by auto
      then show ?thesis using Cons.IH [of "wk_pre wk" ps2 q2] Cons.prems s s2 3 True kk keys_props [OF kk] by auto
    next
      case False
      then show ?thesis using setup_outcome [OF s2] z keys_props [OF k] kk Cons.prems s s2 3 by auto
    qed
  qed
qed


definition poll_for :: "nat \<Rightarrow> int \<Rightarrow> poll" where
  "poll_for a type = \<lparr>mp_bbq = Some a, mp_type = type, mp_q_size = 0, mp_q_rem_capacity = 0\<rparr>"

definition idle :: "nat \<Rightarrow> queues \<Rightarrow> queues" where
  "idle i = id"

definition put_one :: "nat \<Rightarrow> queues \<Rightarrow> queues" where
  "put_one a qs = qs(a := fst (s_copyin (qs a) [5] 1))"

definition woken_by :: "(queues \<Rightarrow> queues) \<Rightarrow> qm_wake" where
  "woken_by f = \<lparr>wk_env = f, wk_ret = GALLUS_RESULT_OK, wk_post = idle, wk_pre = idle\<rparr>"

lemmas qmuxer_example = gallus_qmuxer_poll_def poll_for_def idle_def put_one_def woken_by_def
  s_qmx_setup_for_poll_def cbuffer_setup_for_qmuxer_def store_sizes_def sample_cbuffer_def NEED_WAIT_READABLE_def
  NEED_WAIT_WRITABLE_def GALLUS_QMUXER_POLL_READABLE_def GALLUS_QMUXER_POLL_WRITABLE_def s_copyin_def
  s_adjust_indices_def s_data_addr_def notify_qmuxer_def emit_def Let_def


subsection \<open>Polls and queues together\<close>

definition armed :: "nat \<Rightarrow> cbuffer \<Rightarrow> bool" where
  "armed qmx cb \<longleftrightarrow> m_is_operational cb \<and> m_qmuxer cb = Some qmx \<and>
     (m_type cb = GALLUS_QMUXER_POLL_READABLE \<and> m_n_elements cb = 0 \<or>
      m_type cb = GALLUS_QMUXER_POLL_WRITABLE \<and> m_n_elements cb = m_n_max_elements cb)"

lemma setup_arms_one:
  assumes "cbuffer_setup_for_qmuxer (Some cb) qmx type True = (cb', st, out)" "st > 0"
  shows "armed qmx (the cb')"
  using assms by (auto simp: cbuffer_setup_for_qmuxer_def Let_def armed_def GALLUS_QMUXER_POLL_READABLE_def
      GALLUS_QMUXER_POLL_WRITABLE_def split: if_splits)

text \<open>
  What other threads do to a queue: they put, get, peek, shut it down, wait for it and wake the waiters. Not
  among these are another poll of the queue, which takes over the registration, and \<^verbatim>\<open>gallus_cbuffer_clear\<close>,
  which tells the muxer nothing.
\<close>

inductive queue_use :: "cbuffer \<Rightarrow> cbuffer \<Rightarrow> bool" for cb where
  nothing: "queue_use cb cb"
| put: "queue_use cb cb' \<Longrightarrow> queue_use cb (fst (s_copyin cb' val n))"
| get: "queue_use cb cb' \<Longrightarrow> queue_use cb (fst (s_copyout cb' n do_incr))"
| shutdown: "queue_use cb cb' \<Longrightarrow> queue_use cb (s_shutdown free_values cb')"
| waiters: "queue_use cb cb' \<Longrightarrow> set es \<subseteq> {Notify_get, Notify_put, Notify_awakened} \<Longrightarrow>
    queue_use cb (emit es (cb'\<lparr>m_n_waiters := w, m_is_awakened := awakened\<rparr>))"

definition used_by :: "(queues \<Rightarrow> queues) \<Rightarrow> bool" where
  "used_by f \<longleftrightarrow> (\<forall>qs a. queue_use (qs a) (f qs a))"

lemma used_by_idle [simp]: "used_by (idle i)" "used_by id"
  by (simp_all add: used_by_def idle_def queue_use.nothing)

lemma used_by_put_one [simp]: "used_by (put_one a)"
  by (simp add: used_by_def put_one_def queue_use.put [OF queue_use.nothing] queue_use.nothing)

text \<open>A queue is armed, or has been and told the muxer.\<close>

definition armed_or_told :: "nat \<Rightarrow> nat \<Rightarrow> cbuffer \<Rightarrow> bool" where
  "armed_or_told qmx n cb \<longleftrightarrow> armed qmx cb \<or> Notify_qmuxer qmx \<in> set (drop n (m_trace cb))"

lemma told_later: "x \<in> set (drop n xs) \<Longrightarrow> x \<in> set (drop n (xs @ ys))"
  by simp

lemma armed_types: "armed qmx cb \<Longrightarrow> m_type cb = 1 \<and> m_n_elements cb = 0 \<or> m_type cb = 2 \<and> m_n_elements cb = m_n_max_elements cb"
  by (simp add: armed_def GALLUS_QMUXER_POLL_READABLE_def GALLUS_QMUXER_POLL_WRITABLE_def)

lemma adjust_fields [simp]:
  "m_trace (s_adjust_indices cb) = m_trace cb" "m_n_elements (s_adjust_indices cb) = m_n_elements cb"
  "m_n_max_elements (s_adjust_indices cb) = m_n_max_elements cb" "m_qmuxer (s_adjust_indices cb) = m_qmuxer cb"
  "m_type (s_adjust_indices cb) = m_type cb" "m_is_operational (s_adjust_indices cb) = m_is_operational cb"
  by (simp_all add: s_adjust_indices_def)

lemma need_types [simp]: "NEED_WAIT_READABLE 1" "NEED_WAIT_WRITABLE 2" "\<not> NEED_WAIT_READABLE 2" "\<not> NEED_WAIT_WRITABLE 1"
  by (simp_all add: NEED_WAIT_READABLE_def NEED_WAIT_WRITABLE_def GALLUS_QMUXER_POLL_READABLE_def GALLUS_QMUXER_POLL_WRITABLE_def)

lemma copyin_told:
  "n0 \<le> length (m_trace cb) \<Longrightarrow> armed_or_told qmx n0 cb \<Longrightarrow> armed_or_told qmx n0 (fst (s_copyin cb val n))"
  using armed_types [of qmx cb]
  by (auto simp: armed_or_told_def s_copyin_def Let_def notify_qmuxer_def emit_def armed_def split: option.splits if_splits)

lemma copyout_told:
  "n0 \<le> length (m_trace cb) \<Longrightarrow> armed_or_told qmx n0 cb \<Longrightarrow> armed_or_told qmx n0 (fst (s_copyout cb n do_incr))"
  using armed_types [of qmx cb]
  by (auto simp: armed_or_told_def s_copyout_def Let_def notify_qmuxer_def emit_def armed_def GALLUS_QMUXER_POLL_READABLE_def
      GALLUS_QMUXER_POLL_WRITABLE_def split: option.splits if_splits)

lemma freeup_one_fields [simp]:
  "m_qmuxer (s_freeup_one i cb) = m_qmuxer cb" "m_is_operational (s_freeup_one i cb) = m_is_operational cb"
  "\<exists>ys. m_trace (s_freeup_one i cb) = m_trace cb @ ys"
  by (auto simp: s_freeup_one_def emit_def split: option.splits if_splits)

lemma freeup_fold_fields:
  "m_qmuxer (fold s_freeup_one is cb) = m_qmuxer cb \<and> m_is_operational (fold s_freeup_one is cb) = m_is_operational cb \<and>
   (\<exists>ys. m_trace (fold s_freeup_one is cb) = m_trace cb @ ys)"
proof (induction "is" arbitrary: cb)
  case (Cons i "is")
  obtain ys where "m_trace (s_freeup_one i cb) = m_trace cb @ ys" using freeup_one_fields(3) by blast
  then show ?case using Cons.IH [of "s_freeup_one i cb"] by auto
qed simp

lemma freeup_all_fields:
  "m_qmuxer (s_freeup_all_values cb) = m_qmuxer cb \<and> m_is_operational (s_freeup_all_values cb) = m_is_operational cb \<and>
   (\<exists>ys. m_trace (s_freeup_all_values cb) = m_trace cb @ ys)"
  using freeup_fold_fields [of _ "s_adjust_indices cb"] by (simp add: s_freeup_all_values_def Let_def)

lemma shutdown_fields:
  "m_qmuxer (s_shutdown free_values cb) = m_qmuxer cb" "m_is_operational (s_shutdown free_values cb) = False"
  "\<exists>ys. m_trace (s_shutdown free_values cb) = m_trace cb @ ys \<and>
     (m_is_operational cb \<longrightarrow> m_qmuxer cb = Some qmx \<longrightarrow> Notify_qmuxer qmx \<in> set ys)"
  using freeup_all_fields [of "cb\<lparr>m_is_operational := False\<rparr>"]
  by (auto simp: s_shutdown_def s_clean_def notify_qmuxer_def emit_def Let_def split: option.splits)

lemma shutdown_told:
  "n0 \<le> length (m_trace cb) \<Longrightarrow> armed_or_told qmx n0 cb \<Longrightarrow> armed_or_told qmx n0 (s_shutdown free_values cb)"
  using shutdown_fields(3) [of free_values cb qmx] by (auto simp: armed_or_told_def armed_def)

lemma use_fields:
  assumes "queue_use cb cb'"
  shows "m_qmuxer cb' = m_qmuxer cb \<and> (m_is_operational cb' \<longrightarrow> m_is_operational cb) \<and>
    length (m_trace cb) \<le> length (m_trace cb')"
  using assms
proof induction
  case (put cb' val n)
  then show ?case by (auto simp: s_copyin_def Let_def notify_qmuxer_def emit_def split: option.splits)
next
  case (get cb' n do_incr)
  then show ?case by (auto simp: s_copyout_def Let_def notify_qmuxer_def emit_def split: option.splits)
next
  case (shutdown cb' free_values)
  then show ?case using shutdown_fields [of free_values cb'] by fastforce
qed (auto simp: emit_def)

lemma use_told:
  assumes "queue_use cb cb'" "n0 \<le> length (m_trace cb)" "armed_or_told qmx n0 cb"
  shows "armed_or_told qmx n0 cb'"
  using assms
proof induction
  case (put cb' val n)
  then show ?case using use_fields [OF put(1)] by (intro copyin_told) simp_all
next
  case (get cb' n do_incr)
  then show ?case using use_fields [OF get(1)] by (intro copyout_told) simp_all
next
  case (shutdown cb' free_values)
  then show ?case using use_fields [OF shutdown(1)] by (intro shutdown_told) simp_all
next
  case (waiters cb' es w awakened)
  then show ?case by (auto simp: armed_or_told_def armed_def emit_def)
qed simp

lemma setup_loop_arms:
  assumes "setup_loop others qmx True ps qs n v = (ps', qs', Inr (n', v))"
    and "\<forall>i. used_by (others i)" "n0 \<le> length (m_trace (qs b))"
  shows "n0 \<le> length (m_trace (qs' b)) \<and> (armed_or_told qmx n0 (qs b) \<longrightarrow> armed_or_told qmx n0 (qs' b)) \<and>
    (\<forall>p \<in> set ps. poll_queue p = Some b \<longrightarrow> armed_or_told qmx n0 (qs' b))"
  using assms
proof (induction ps arbitrary: others qs n ps' qs')
  case (Cons p ps)
  show ?case
  proof (cases p)
    case None
    then show ?thesis using Cons.prems by simp
  next
    case (Some mp)
    show ?thesis
    proof (cases "mp_bbq mp")
      case None
      then show ?thesis using Some Cons.prems Cons.IH [of "\<lambda>i. others (Suc i)" qs "n + 1"] by (auto split: prod.splits)
    next
      case a: (Some a)
      let ?q1 = "others 0 qs"
      obtain cb st out where c: "cbuffer_setup_for_qmuxer (Some (?q1 a)) qmx (mp_type mp) True = (cb, st, out)"
        by (cases "cbuffer_setup_for_qmuxer (Some (?q1 a)) qmx (mp_type mp) True") auto
      let ?qs = "?q1(a := the cb)"
      obtain qs2 ps2 n2 v2 where l: "setup_loop (\<lambda>i. others (Suc i)) qmx True ps ?qs n (if st = 0 then v + 1 else v) =
          (ps2, qs2, Inr (n2, v2))" "qs' = qs2" "v2 = v" "n2 = n'" "\<not> st < 0"
        using Cons.prems(1) Some a c by (auto simp: Let_def split: prod.splits if_splits)
      have "v \<ge> (if st = 0 then v + 1 else v)"
        using setup_loop_counts [OF l(1)] l(3) by simp
      then have st: "st > 0" using l(5) by (simp split: if_splits)
      have tr: "m_trace (the cb) = m_trace (?q1 a)" using c by (auto simp: cbuffer_setup_for_qmuxer_def Let_def split: if_splits)
      have u: "queue_use (qs b) (?q1 b)" using Cons.prems(2) by (simp add: used_by_def)
      have n0: "n0 \<le> length (m_trace (?qs b))" using use_fields [OF u] Cons.prems(3) tr by (cases "b = a") simp_all
      have "armed qmx (?qs a)" using setup_arms_one [OF c st] by simp
      then have now: "b = a \<Longrightarrow> armed_or_told qmx n0 (?qs b)" "armed_or_told qmx n0 (qs b) \<Longrightarrow> armed_or_told qmx n0 (?qs b)"
        using use_told [OF u Cons.prems(3)] by (cases "b = a"; simp add: armed_or_told_def)+
      have "setup_loop (\<lambda>i. others (Suc i)) qmx True ps ?qs n v = (ps2, qs', Inr (n', v))" using l st by simp
      note ih = Cons.IH [OF this _ n0]
      show ?thesis using ih Cons.prems(2) now Some a by auto
    qed
  qed
qed simp

lemma setup_arms:
  assumes "s_qmx_setup_for_poll others qmx True (polls, qs) = ((polls', qs'), 0)" "p \<in> set polls" "poll_queue p = Some a"
    and "\<forall>i. used_by (others i)" "n0 \<le> length (m_trace (qs a))"
  shows "armed_or_told qmx n0 (qs' a)" "n0 \<le> length (m_trace (qs' a))"
proof -
  obtain n v where l: "setup_loop others qmx True polls qs 0 0 = (polls', qs', Inr (n, 0))"
    using assms(1) setup_loop_fails [of others qmx True polls qs 0 0]
    by (auto simp: s_qmx_setup_for_poll_def split: prod.splits sum.splits if_splits)
  then show "armed_or_told qmx n0 (qs' a)" "n0 \<le> length (m_trace (qs' a))"
    using setup_loop_arms [OF l assms(4,5)] assms(2,3) by blast+
qed

text \<open>An armed queue tells the muxer of the next put or get.\<close>

lemma armed_notifies:
  assumes "armed qmx cb" "cb_inv cb" "0 < n" "n < 9223372036854775808"
  shows "m_n_elements cb = 0 \<and> Notify_qmuxer qmx \<in> set (drop (length (m_trace cb)) (m_trace (fst (s_copyin cb val n)))) \<or>
    m_n_elements cb = m_n_max_elements cb \<and>
      Notify_qmuxer qmx \<in> set (drop (length (m_trace cb)) (m_trace (fst (s_copyout cb n True))))"
proof -
  have cb: "cb\<lparr>m_qmuxer := Some qmx, m_type := m_type cb\<rparr> = cb" using assms(1) by (simp add: armed_def)
  consider "m_type cb = 1" "m_n_elements cb = 0" | "m_type cb = 2" "m_n_elements cb = m_n_max_elements cb"
    using assms(1) by (auto simp: armed_def GALLUS_QMUXER_POLL_READABLE_def GALLUS_QMUXER_POLL_WRITABLE_def)
  then show ?thesis
  proof cases
    case 1
    then show ?thesis using copyin_notifies [OF assms(2) 1(2) assms(3,4), of qmx val] cb by simp
  next
    case 2
    then show ?thesis using copyout_notifies [OF assms(2) 2(2) assms(3,4), of qmx] cb by simp
  qed
qed

text \<open>The other threads during the last pass of a poll that sleeps, and the poll objects and queues at its start.\<close>

fun last_pass ::
  "qm_wake list \<Rightarrow> (nat \<Rightarrow> queues \<Rightarrow> queues) \<Rightarrow> nat \<Rightarrow> poll option list \<times> queues \<Rightarrow>
   (nat \<Rightarrow> queues \<Rightarrow> queues) \<times> poll option list \<times> queues" where
  "last_pass [] others qmx s = (others, s)"
| "last_pass (wk # ws) others qmx s =
    last_pass ws (wk_pre wk) qmx
      (fst (s_qmx_setup_for_poll (wk_post wk) qmx False
        (map_prod id (wk_env wk) (fst (s_qmx_setup_for_poll others qmx True s)))))"

lemma recheck_last_pass:
  assumes "poll_recheck ws others gap qmx s = (s', None)" "last_pass ws others qmx s = (others1, s1)"
  shows "\<exists>s2. s_qmx_setup_for_poll others1 qmx True s1 = (s2, 0) \<and> s' = map_prod id gap s2 \<and>
    map poll_key (fst s1) = map poll_key (fst s)"
  using assms
proof (induction ws arbitrary: others s)
  case Nil
  then show ?case by (auto simp: Let_def split: prod.splits if_splits)
next
  case (Cons wk ws)
  obtain ps qs where s: "s = (ps, qs)" by (cases s)
  obtain ps1 q1 ret where s1: "s_qmx_setup_for_poll others qmx True s = ((ps1, q1), ret)"
    by (cases "s_qmx_setup_for_poll others qmx True s") auto
  obtain ps2 q2 ret2 where s2: "s_qmx_setup_for_poll (wk_post wk) qmx False (ps1, wk_env wk q1) = ((ps2, q2), ret2)"
    by (cases "s_qmx_setup_for_poll (wk_post wk) qmx False (ps1, wk_env wk q1)") auto
  have "poll_recheck ws (wk_pre wk) gap qmx (ps2, q2) = (s', None)" "last_pass ws (wk_pre wk) qmx (ps2, q2) = (others1, s1)"
    using Cons.prems s1 s2 by (auto simp: Let_def split: if_splits)
  from Cons.IH [OF this] setup_keys [OF s1 [unfolded s]] setup_keys [OF s2] show ?case by (simp add: s)
qed



text \<open>
  The notification can be lost: a put between the pass and the wait finds nobody asleep, and the poll sleeps on a
  queue that holds an element.
\<close>

lemma qmuxer_lost_notification:
  "\<exists>polls qs. gallus_qmuxer_poll [] [] idle (put_one 0) (Some 7) (- 1) ([Some (poll_for 0 1)], \<lambda>a. sample_cbuffer 1 2) =
       ((polls, qs), None) \<and> m_n_elements (qs 0) = 1 \<and> Notify_qmuxer 7 \<in> set (m_trace (qs 0))"
  by (simp add: qmuxer_example)

text \<open>The second pass: a registration is taken back, and a queue that is ready is counted.\<close>

definition ready_for :: "int \<Rightarrow> cbuffer \<Rightarrow> bool" where
  "ready_for type cb \<longleftrightarrow> m_is_operational cb \<and> 0 \<le> m_n_elements cb \<and>
    sizes_ready type (m_n_elements cb) (m_n_max_elements cb - m_n_elements cb)"

definition leaves_ready :: "nat \<Rightarrow> int \<Rightarrow> (queues \<Rightarrow> queues) \<Rightarrow> bool" where
  "leaves_ready a type f \<longleftrightarrow> (\<forall>qs. ready_for type (qs a) \<longrightarrow> ready_for type (f qs a))"

lemma setup_loop_frees:
  assumes "setup_loop others qmx False ps qs n v = (ps', qs', r)" "\<forall>i. used_by (others i)"
  shows "(m_is_operational (qs' b) \<longrightarrow> m_is_operational (qs b)) \<and>
    (m_qmuxer (qs b) = None \<longrightarrow> m_qmuxer (qs' b) = None) \<and>
    ((\<exists>p \<in> set ps. poll_queue p = Some b) \<longrightarrow> m_is_operational (qs' b) \<longrightarrow> m_qmuxer (qs' b) = None)"
  using assms
proof (induction ps arbitrary: others qs n v ps')
  case (Cons p ps)
  let ?o = "\<lambda>i. others (Suc i)"
  have u: "\<forall>i. used_by (?o i)" using Cons.prems(2) by simp
  show ?case
  proof (cases "poll_queue p")
    case None
    obtain n1 ps1 where "setup_loop ?o qmx False ps qs n1 v = (ps1, qs', r)"
      using Cons.prems(1) None by (cases p) (auto split: prod.splits option.splits)
    then show ?thesis using Cons.IH [OF _ u] None by fastforce
  next
    case (Some a)
    then obtain mp where mp: "p = Some mp" "mp_bbq mp = Some a" by (cases p) auto
    let ?q1 = "others 0 qs"
    obtain cb st out where c: "cbuffer_setup_for_qmuxer (Some (?q1 a)) qmx (mp_type mp) False = (cb, st, out)"
      by (cases "cbuffer_setup_for_qmuxer (Some (?q1 a)) qmx (mp_type mp) False") auto
    have cb: "m_is_operational (?q1 a) \<Longrightarrow> m_qmuxer (the cb) = None" "m_qmuxer (?q1 a) = None \<Longrightarrow> m_qmuxer (the cb) = None"
      "m_is_operational (the cb) = m_is_operational (?q1 a)"
      using c by (auto simp: cbuffer_setup_for_qmuxer_def Let_def split: if_splits)
    let ?qs = "?q1(a := the cb)"
    obtain v1 ps1 where "setup_loop ?o qmx False ps ?qs n v1 = (ps1, qs', r)"
      using Cons.prems(1) mp c by (auto simp: Let_def split: prod.splits if_splits)
    note ih = Cons.IH [OF this u]
    have use: "queue_use (qs b) (?q1 b)" using Cons.prems(2) by (simp add: used_by_def)
    show ?thesis using ih cb use_fields [OF use] Some by (cases "b = a") auto
  qed
qed simp

lemma setup_loop_mono:
  "setup_loop others qmx is_pre ps qs n v = (ps', qs', Inr (n', v')) \<Longrightarrow> v \<le> v'"
proof (induction ps arbitrary: others qs n v ps')
  case (Cons q ps)
  then show ?case
    by (auto simp: Let_def simp del: fun_upd_apply split: prod.splits option.splits if_splits)
      (metis (no_types) add_increasing2 dual_order.trans le_add_same_cancel1 zero_le_one)+
qed simp

lemma setup_loop_finds:
  assumes "setup_loop others qmx False ps qs n v = (ps', qs', Inr (n', v'))"
    and "p \<in> set ps" "poll_key p = Some (Some a, type)" "ready_for type (qs a)" "\<forall>i. leaves_ready a type (others i)"
  shows "v < v'"
  using assms
proof (induction ps arbitrary: others qs n v ps')
  case (Cons q ps)
  let ?o = "\<lambda>i. others (Suc i)"
  have o: "\<forall>i. leaves_ready a type (?o i)" using Cons.prems(5) by simp
  show ?case
  proof (cases "poll_queue q")
    case None
    then have "q \<noteq> p" using Cons.prems(3) by (cases p) (auto simp: poll_key_def)
    moreover obtain n1 ps1 where "setup_loop ?o qmx False ps qs n1 v = (ps1, qs', Inr (n', v'))"
      using Cons.prems(1) None by (cases q) (auto split: prod.splits option.splits)
    ultimately show ?thesis using Cons.IH [of ?o qs n1 v ps1] Cons.prems o by auto
  next
    case (Some b)
    then obtain mp where mp: "q = Some mp" "mp_bbq mp = Some b" by (cases q) auto
    let ?q1 = "others 0 qs"
    have r1: "ready_for type (?q1 a)" using Cons.prems(4,5) by (simp add: leaves_ready_def)
    obtain cb st out where c: "cbuffer_setup_for_qmuxer (Some (?q1 b)) qmx (mp_type mp) False = (cb, st, out)"
      by (cases "cbuffer_setup_for_qmuxer (Some (?q1 b)) qmx (mp_type mp) False") auto
    let ?qs = "?q1(b := the cb)" and ?v = "if st = 0 then v + 1 else v"
    obtain ps1 where l: "setup_loop ?o qmx False ps ?qs n ?v = (ps1, qs', Inr (n', v'))"
      using Cons.prems(1) mp c by (auto simp: Let_def split: prod.splits if_splits)
    have same: "ready_for type (?qs a)"
      using r1 c by (auto simp: ready_for_def cbuffer_setup_for_qmuxer_def Let_def split: if_splits)
    show ?thesis
    proof (cases "q = p")
      case True
      then have "mp_type mp = type" "b = a" using mp Cons.prems(3) by (auto simp: poll_key_def)
      then have "st = 0" using setup_result(1) [OF c] r1 by (auto simp: ready_for_def)
      then show ?thesis using setup_loop_mono [OF l] by simp
    next
      case False
      then have "?v < v'" using Cons.IH [OF l _ Cons.prems(3) same o] Cons.prems(2) by simp
      then show ?thesis by (simp split: if_splits)
    qed
  qed
qed simp

lemma post_setup:
  assumes "s_qmx_setup_for_poll others qmx False (polls, qs) = ((polls', qs'), ret)"
    and "p \<in> set polls" "poll_key p = Some (Some a, type)" "ready_for type (qs a)" "\<forall>i. leaves_ready a type (others i)"
    and "\<forall>i. used_by (others i)"
  shows "0 < ret" "q \<in> set polls \<Longrightarrow> poll_queue q = Some b \<Longrightarrow> m_is_operational (qs' b) \<Longrightarrow> m_qmuxer (qs' b) = None"
proof -
  obtain ps qx r where f: "setup_loop others qmx False polls qs 0 0 = (ps, qx, r)" by (metis prod_cases3)
  have ne: "polls \<noteq> []" using assms(2) by auto
  obtain n v where r: "r = Inr (n, v)"
    using setup_loop_fails [of others qmx False polls qs 0 0 ps qx] f by (cases r) auto
  have "0 < v" using setup_loop_finds [OF f [unfolded r] assms(2-5)] by simp
  moreover have "n = length (filter no_queue polls)" using setup_loop_nulls [OF f [unfolded r]] by simp
  moreover have "\<not> no_queue p" using assms(3) by (cases p) (auto simp: poll_key_def)
  ultimately show "0 < ret" using assms(1,2) f r ne length_filter_less [of p polls no_queue]
    by (auto simp: s_qmx_setup_for_poll_def split: if_splits)
  assume "q \<in> set polls" "poll_queue q = Some b" "m_is_operational (qs' b)"
  moreover have "qs' = qx" using assms(1) f r ne by (auto simp: s_qmx_setup_for_poll_def)
  ultimately show "m_qmuxer (qs' b) = None" using setup_loop_frees [OF f assms(6), of b] by auto
qed

lemma recheck_continues:
  assumes "poll_recheck ws others id qmx s = (s1, None)"
  shows "poll_recheck (ws @ wk # ws') others gap qmx s =
    (let s = map_prod id (wk_env wk) s1
     in if wk_ret wk = GALLUS_RESULT_OK then
          (let (s, ret) = s_qmx_setup_for_poll (wk_post wk) qmx False s
           in if ret \<noteq> 0 then (s, Some ret) else poll_recheck ws' (wk_pre wk) gap qmx s)
        else (s, Some (wk_ret wk)))"
  using assms
proof (induction ws arbitrary: others s)
  case (Cons w ws)
  then show ?case by (auto simp: Let_def split: prod.splits if_splits)
qed (auto simp: Let_def split: prod.splits if_splits)


lemma ready_put_one: "leaves_ready 0 1 (put_one 0)"
  by (auto simp: leaves_ready_def ready_for_def sizes_ready_def put_one_def s_copyin_def Let_def notify_qmuxer_def
      emit_def split: option.splits)


subsection \<open>What goes wrong\<close>

text \<open>
  A poll that times out stays registered. When the muxer is destroyed then, the next put notifies a
  muxer that does not exist any more.
\<close>

lemma qmuxer_timeout_stays_registered:
  "\<exists>polls qs. gallus_qmuxer_poll [] [woken_by id\<lparr>wk_ret := GALLUS_RESULT_TIMEDOUT\<rparr>] idle id (Some 7) 1
       ([Some (poll_for 0 1)], \<lambda>a. sample_cbuffer 1 2) = ((polls, qs), Some GALLUS_RESULT_TIMEDOUT) \<and>
     fst (gallus_qmuxer_destroy (Some 7) [7 \<mapsto> \<lparr>qm_lock = True, qm_cond = True\<rparr>]) 7 = None \<and>
     Notify_qmuxer 7 \<in> set (m_trace (fst (s_copyin (qs 0) [5] 1)))"
  by (simp add: qmuxer_example gallus_qmuxer_destroy_def)

text \<open>So does one that finds an event at once with the queues before that one in the array.\<close>

lemma qmuxer_ready_stays_registered:
  "\<exists>polls qs. gallus_qmuxer_poll [] [] idle id (Some 7) (- 1)
       ([Some (poll_for 0 1), Some (poll_for 1 2)], \<lambda>a. sample_cbuffer 1 2) = ((polls, qs), Some 1) \<and>
     m_qmuxer (qs 0) = Some 7"
  by (simp add: qmuxer_example)

text \<open>Polling for both waits for data although the queue is writable.\<close>

lemma qmuxer_both_waits:
  "\<exists>s. gallus_qmuxer_poll [] [] idle id (Some 7) (- 1)
     ([Some (poll_for 0 GALLUS_QMUXER_POLL_BOTH)], \<lambda>a. sample_cbuffer 1 2) = (s, None)"
  by (simp add: qmuxer_example GALLUS_QMUXER_POLL_BOTH_def)

text \<open>Without poll objects the result of a notification is 0.\<close>

lemma qmuxer_poll_returns_ok:
  "0 < nsec \<Longrightarrow> gallus_qmuxer_poll [] [woken_by id] idle id (Some 7) nsec ([], qs) = (([], qs), Some GALLUS_RESULT_OK)"
  by (simp add: gallus_qmuxer_poll_def woken_by_def)

text \<open>A creation that fails stores the address of the memory it has freed.\<close>

lemma qmuxer_create_dangling:
  "lock = GALLUS_RESULT_OK \<Longrightarrow> cond \<noteq> GALLUS_RESULT_OK \<Longrightarrow>
     gallus_qmuxer_create (Some a) lock cond heap =
       (heap(a := None), Some a, [Mutex_lock, Mutex_unlock, Mutex_destroy, Free_qmuxer], cond)"
  by (simp add: gallus_qmuxer_create_def s_qmx_initialize_def s_qmx_destroy_def)

lemma poll_create_dangling:
  "gallus_qmuxer_poll_create (Some (a, junk)) None type heap = (heap(a := None), Some a, GALLUS_RESULT_INVALID_ARGS)"
  by (simp add: gallus_qmuxer_poll_create_def s_poll_initialize_def)

end
