(* ===== verification/Poolable.thy ===== *)
theory Poolable
  imports GState
begin

text \<open>
  The objects of a pool, \<^verbatim>\<open>framework/lib/poolable.c\<close>: an object has the methods its creator gave it and
  goes from constructed to operational and, shut down or cancelled, to torn down. An object that
  executes something (\<^verbatim>\<open>m_is_executor\<close>) is torn down by its thread when that ends.

  The methods are foreign code that does not write the fields of the object; a method that is not NULL
  is a number, \<open>pb_calls\<close> lists the calls in order and the environment has their results. A wait on the
  condition variable takes a script: its result, and what other threads did meanwhile; a wait whose
  script is used up still waits.
\<close>

datatype poolable_state =
  GALLUS_POOLABLE_STATE_UNKNOWN | GALLUS_POOLABLE_STATE_CONSTRUCTED | GALLUS_POOLABLE_STATE_OPERATIONAL |
  GALLUS_POOLABLE_STATE_SHUTDOWNING | GALLUS_POOLABLE_STATE_CANCELLING | GALLUS_POOLABLE_STATE_NOT_OPERATIONAL

datatype poolable_call =
  M_construct | M_setup | M_shutdown shutdown_grace_level | M_cancel | M_teardown bool | M_wait | M_destruct

record poolable_methods =
  pm_construct :: "nat option"
  pm_setup :: "nat option"
  pm_shutdown :: "nat option"
  pm_cancel :: "nat option"
  pm_teardown :: "nat option"
  pm_wait :: "nat option"
  pm_destruct :: "nat option"

record poolable =
  pb_pool :: "nat option"
  pb_is_executor :: bool
  pb_obj_idx :: nat
  pb_is_used :: bool
  pb_is_cancelled :: bool
  pb_is_torndown :: bool
  pb_is_wait_done :: bool
  pb_total_obj_size :: nat
  pb_st :: poolable_state
  pb_last_result :: gallus_result_t
  pb_shutdown_lvl :: shutdown_grace_level
  pb_methods :: poolable_methods
  pb_calls :: "poolable_call list"

record method_env =
  me_construct :: gallus_result_t
  me_setup :: gallus_result_t
  me_shutdown :: gallus_result_t
  me_cancel :: gallus_result_t
  me_teardown :: gallus_result_t
  me_wait :: gallus_result_t

type_synonym pb_wake = "gallus_result_t \<times> (poolable \<Rightarrow> poolable)"

text \<open>\<open>call_method f c r p\<close> calls the method \<open>f\<close> when there is one; a method that is missing succeeds.\<close>

definition call_method :: "(poolable_methods \<Rightarrow> nat option) \<Rightarrow> poolable_call \<Rightarrow> gallus_result_t \<Rightarrow> poolable \<Rightarrow>
    poolable \<times> gallus_result_t" where
  "call_method f c r p =
    (if f (pb_methods p) \<noteq> None then (p\<lparr>pb_calls := pb_calls p @ [c]\<rparr>, r) else (p, GALLUS_RESULT_OK))"

subsection \<open>Creation\<close>

definition no_methods :: poolable_methods where
  "no_methods = \<lparr>pm_construct = None, pm_setup = None, pm_shutdown = None, pm_cancel = None, pm_teardown = None,
     pm_wait = None, pm_destruct = None\<rparr>"

definition sufficient_methods :: "bool \<Rightarrow> poolable_methods \<Rightarrow> bool" where
  "sufficient_methods is_executor m \<longleftrightarrow>
    (if is_executor then
       \<not> ((pm_construct m = None \<and> pm_setup m = None) \<or> pm_shutdown m = None \<or> pm_cancel m = None \<or>
          pm_teardown m = None \<or> pm_wait m = None \<or> pm_destruct m = None)
     else \<not> ((pm_construct m = None \<and> pm_setup m = None) \<or> pm_destruct m = None))"

definition poolable_new :: "bool \<Rightarrow> poolable_methods \<Rightarrow> nat \<Rightarrow> poolable" where
  "poolable_new is_executor m alloc_sz =
    \<lparr>pb_pool = None, pb_is_executor = is_executor, pb_obj_idx = 0, pb_is_used = False, pb_is_cancelled = False,
     pb_is_torndown = False, pb_is_wait_done = False, pb_total_obj_size = alloc_sz,
     pb_st = GALLUS_POOLABLE_STATE_UNKNOWN, pb_last_result = GALLUS_RESULT_ANY_FAILURES,
     pb_shutdown_lvl = SHUTDOWN_UNKNOWN, pb_methods = m, pb_calls = []\<rparr>"

text \<open>
  \<open>mem\<close> is memory from \<^verbatim>\<open>malloc\<close>, with what it holds, for a handle that is NULL, \<open>record_sz\<close> the size of
  the record, \<open>locks\<close> the result of creating lock and condition variable. \<open>pptr\<close> is NULL or what the
  handle holds. None is a read through NULL.
\<close>

definition gallus_poolable_create_with_size ::
  "poolable option \<Rightarrow> nat \<Rightarrow> gallus_result_t \<Rightarrow> method_env \<Rightarrow> poolable option option \<Rightarrow> bool \<Rightarrow>
   poolable_methods option \<Rightarrow> nat \<Rightarrow> (poolable option \<times> gallus_result_t) option" where
  "gallus_poolable_create_with_size mem record_sz locks env pptr is_executor m sz =
    (case pptr of
       None \<Rightarrow> None
     | Some h \<Rightarrow>
         (let alloc_sz = (if h = None \<and> sz < record_sz then record_sz else sz)
          in case (case h of None \<Rightarrow> mem | Some p \<Rightarrow> Some p) of
               None \<Rightarrow> Some (None, GALLUS_RESULT_NO_MEMORY)
             | Some p \<Rightarrow>
                 (let (p, ret) =
                    (if locks \<noteq> GALLUS_RESULT_OK then (p, locks)
                     else
                       (let m = (case m of Some m \<Rightarrow> m | None \<Rightarrow> no_methods);
                            p = poolable_new is_executor m alloc_sz
                        in if sufficient_methods is_executor m then
                             (let (p, ret) = call_method pm_construct M_construct (me_construct env) p
                              in if ret = GALLUS_RESULT_OK
                                 then (p\<lparr>pb_st := GALLUS_POOLABLE_STATE_CONSTRUCTED\<rparr>, ret) else (p, ret))
                           else (p, GALLUS_RESULT_INVALID_ARGS)))
                  in if ret \<noteq> GALLUS_RESULT_OK \<and> alloc_sz \<noteq> 0 then Some (None, ret) else Some (Some p, ret))))"

subsection \<open>Operations\<close>

text \<open>These are the calls on a handle that is not NULL; for NULL they return \<^verbatim>\<open>GALLUS_RESULT_INVALID_ARGS\<close>.\<close>

definition poolable_setup :: "method_env \<Rightarrow> poolable \<Rightarrow> poolable \<times> gallus_result_t" where
  "poolable_setup env p =
    (let (p, ret) =
       (if pb_st p = GALLUS_POOLABLE_STATE_CONSTRUCTED then
          (let (p, ret) = call_method pm_setup M_setup (me_setup env) p
           in if ret = GALLUS_RESULT_OK then (p\<lparr>pb_st := GALLUS_POOLABLE_STATE_OPERATIONAL\<rparr>, ret) else (p, ret))
        else (p, GALLUS_RESULT_INVALID_STATE_TRANSITION))
     in (p\<lparr>pb_last_result := ret\<rparr>, ret))"

text \<open>An object that is no executor is torn down by the call that shuts it down or cancels it.\<close>

definition teardown_here :: "method_env \<Rightarrow> bool \<Rightarrow> poolable \<Rightarrow> poolable \<times> gallus_result_t" where
  "teardown_here env is_cancelled p =
    (if pb_is_executor p then (p, GALLUS_RESULT_OK)
     else
       (let (p, ret) = call_method pm_teardown (M_teardown is_cancelled) (me_teardown env) p
        in if ret = GALLUS_RESULT_OK then (p\<lparr>pb_st := GALLUS_POOLABLE_STATE_NOT_OPERATIONAL\<rparr>, ret) else (p, ret)))"

definition poolable_shutdown :: "method_env \<Rightarrow> shutdown_grace_level \<Rightarrow> poolable \<Rightarrow> poolable \<times> gallus_result_t" where
  "poolable_shutdown env lvl p =
    (let (p, ret) =
       (if pb_st p = GALLUS_POOLABLE_STATE_NOT_OPERATIONAL \<and> pb_is_torndown p then (p, GALLUS_RESULT_OK)
        else if pb_st p = GALLUS_POOLABLE_STATE_OPERATIONAL then
          (let (p, ret) = call_method pm_shutdown (M_shutdown lvl) (me_shutdown env) (p\<lparr>pb_shutdown_lvl := lvl\<rparr>)
           in if ret = GALLUS_RESULT_OK
              then teardown_here env False (p\<lparr>pb_st := GALLUS_POOLABLE_STATE_SHUTDOWNING\<rparr>) else (p, ret))
        else (p, GALLUS_RESULT_INVALID_STATE_TRANSITION))
     in (p\<lparr>pb_last_result := ret\<rparr>, ret))"

definition poolable_cancel :: "method_env \<Rightarrow> poolable \<Rightarrow> poolable \<times> gallus_result_t" where
  "poolable_cancel env p =
    (let (p, ret) =
       (if pb_st p = GALLUS_POOLABLE_STATE_NOT_OPERATIONAL \<and> pb_is_torndown p then (p, GALLUS_RESULT_OK)
        else if pb_st p = GALLUS_POOLABLE_STATE_OPERATIONAL \<or>
            (pb_st p = GALLUS_POOLABLE_STATE_SHUTDOWNING \<and> pb_shutdown_lvl p = SHUTDOWN_RIGHT_NOW) then
          (let (p, ret) = call_method pm_cancel M_cancel (me_cancel env) p
           in if ret = GALLUS_RESULT_OK then
                (let p = p\<lparr>pb_st := GALLUS_POOLABLE_STATE_CANCELLING\<rparr>
                 in teardown_here env True (if pb_is_executor p then p else p\<lparr>pb_is_cancelled := True\<rparr>))
              else (p, ret))
        else (p, GALLUS_RESULT_INVALID_STATE_TRANSITION))
     in (p\<lparr>pb_last_result := ret\<rparr>, ret))"

text \<open>
  The end of an executor, in its own thread. The method runs without the lock: \<open>others\<close> is what other
  threads do to the object meanwhile. The waiters are notified.
\<close>

definition teardown_done :: "gallus_result_t \<Rightarrow> bool \<Rightarrow> poolable \<Rightarrow> poolable" where
  "teardown_done ret is_cancelled p =
    p\<lparr>pb_last_result := ret, pb_is_cancelled := is_cancelled, pb_st := GALLUS_POOLABLE_STATE_NOT_OPERATIONAL,
      pb_is_torndown := True, pb_is_wait_done := True\<rparr>"

definition poolable_teardown ::
  "method_env \<Rightarrow> (poolable \<Rightarrow> poolable) \<Rightarrow> bool \<Rightarrow> poolable \<Rightarrow> poolable \<times> gallus_result_t" where
  "poolable_teardown env others is_cancelled p =
    (if pb_is_torndown p then (p, GALLUS_RESULT_OK)
     else if pm_teardown (pb_methods p) \<noteq> None then
       (let (p, ret) = call_method pm_teardown (M_teardown is_cancelled) (me_teardown env) p
        in (teardown_done ret is_cancelled (others p), GALLUS_RESULT_OK))
     else (p, GALLUS_RESULT_OK))"

text \<open>The loop of a wait, with whether the wait method is to be called.\<close>

fun wait_torndown :: "pb_wake list \<Rightarrow> bool \<Rightarrow> poolable \<Rightarrow> poolable \<times> bool \<times> gallus_result_t option" where
  "wait_torndown [] do_call_wait p =
    (p, do_call_wait, if pb_is_torndown p \<and> pb_is_wait_done p then Some GALLUS_RESULT_OK else None)"
| "wait_torndown ((ret, others) # ws) do_call_wait p =
    (if pb_is_torndown p \<and> pb_is_wait_done p then (p, do_call_wait, Some GALLUS_RESULT_OK)
     else if ret = GALLUS_RESULT_OK
     then wait_torndown ws (do_call_wait \<or> pm_wait (pb_methods p) \<noteq> None) (others p)
     else (others p, do_call_wait, Some ret))"

definition poolable_wait :: "method_env \<Rightarrow> pb_wake list \<Rightarrow> poolable \<Rightarrow> poolable \<times> gallus_result_t option" where
  "poolable_wait env ws p =
    (case wait_torndown ws False p of
       (p, do_call_wait, None) \<Rightarrow> (p, None)
     | (p, do_call_wait, Some ret) \<Rightarrow>
         if do_call_wait then map_prod id Some (call_method pm_wait M_wait (me_wait env) p) else (p, Some ret))"

text \<open>
  Destruction: whether the object is gone, and the object as it was last; the first component is None
  while the caller still waits. An object that is not gone keeps its handle.
\<close>

definition poolable_destroy :: "method_env \<Rightarrow> pb_wake list \<Rightarrow> poolable \<Rightarrow> bool option \<times> poolable" where
  "poolable_destroy env ws p =
    (let (p, r1) = poolable_shutdown env SHUTDOWN_RIGHT_NOW p
     in case poolable_wait env ws p of
          (p, None) \<Rightarrow> (None, p)
        | (p, Some r2) \<Rightarrow>
            if r1 = GALLUS_RESULT_OK \<and> r2 = GALLUS_RESULT_OK \<and> \<not> pb_is_cancelled p then
              (let (p, _) = call_method pm_destruct M_destruct GALLUS_RESULT_OK p
               in (Some (pb_total_obj_size p \<noteq> 0), p))
            else (Some False, p))"

definition on_poolable :: "(poolable \<Rightarrow> poolable \<times> gallus_result_t) \<Rightarrow> poolable option \<Rightarrow>
    poolable option \<times> gallus_result_t" where
  "on_poolable f pptr =
    (case pptr of Some p \<Rightarrow> map_prod Some id (f p) | None \<Rightarrow> (None, GALLUS_RESULT_INVALID_ARGS))"

definition gallus_poolable_setup :: "method_env \<Rightarrow> poolable option \<Rightarrow> poolable option \<times> gallus_result_t" where
  "gallus_poolable_setup env = on_poolable (poolable_setup env)"

definition gallus_poolable_shutdown ::
  "method_env \<Rightarrow> shutdown_grace_level \<Rightarrow> poolable option \<Rightarrow> poolable option \<times> gallus_result_t" where
  "gallus_poolable_shutdown env lvl = on_poolable (poolable_shutdown env lvl)"

definition gallus_poolable_cancel :: "method_env \<Rightarrow> poolable option \<Rightarrow> poolable option \<times> gallus_result_t" where
  "gallus_poolable_cancel env = on_poolable (poolable_cancel env)"

definition gallus_poolable_teardown ::
  "method_env \<Rightarrow> (poolable \<Rightarrow> poolable) \<Rightarrow> bool \<Rightarrow> poolable option \<Rightarrow> poolable option \<times> gallus_result_t" where
  "gallus_poolable_teardown env others is_cancelled = on_poolable (poolable_teardown env others is_cancelled)"

definition gallus_poolable_wait ::
  "method_env \<Rightarrow> pb_wake list \<Rightarrow> poolable option \<Rightarrow> poolable option \<times> gallus_result_t option" where
  "gallus_poolable_wait env ws pptr =
    (case pptr of Some p \<Rightarrow> map_prod Some id (poolable_wait env ws p) | None \<Rightarrow> (None, Some GALLUS_RESULT_INVALID_ARGS))"

text \<open>The handle afterwards, in Some; None while the caller waits.\<close>

definition gallus_poolable_destroy :: "method_env \<Rightarrow> pb_wake list \<Rightarrow> poolable option \<Rightarrow> poolable option option" where
  "gallus_poolable_destroy env ws pptr =
    (case pptr of
       None \<Rightarrow> Some None
     | Some p \<Rightarrow>
         (case poolable_destroy env ws p of
            (None, p) \<Rightarrow> None
          | (Some gone, p) \<Rightarrow> Some (if gone then None else Some p)))"

definition gallus_poolable_is_operational :: "bool \<Rightarrow> poolable option \<Rightarrow> bool option \<times> gallus_result_t" where
  "gallus_poolable_is_operational bptr pptr =
    (case pptr of
       Some p \<Rightarrow>
         if bptr then (Some (pb_st p = GALLUS_POOLABLE_STATE_OPERATIONAL), GALLUS_RESULT_OK)
         else (None, GALLUS_RESULT_INVALID_ARGS)
     | None \<Rightarrow> (None, GALLUS_RESULT_INVALID_ARGS))"

definition gallus_poolable_get_status :: "bool \<Rightarrow> poolable option \<Rightarrow> poolable_state option \<times> gallus_result_t" where
  "gallus_poolable_get_status st pptr =
    (case pptr of
       Some p \<Rightarrow> if st then (Some (pb_st p), GALLUS_RESULT_OK) else (None, GALLUS_RESULT_INVALID_ARGS)
     | None \<Rightarrow> (None, GALLUS_RESULT_INVALID_ARGS))"

end
