(* ===== verification/Pool.thy ===== *)
theory Pool
  imports Poolable "HOL-Library.Word"
begin

text \<open>
  Object pools, \<^verbatim>\<open>framework/lib/pool.c\<close>: a pool of type QUEUE creates its objects when they are needed
  and keeps the free ones in a blocking queue; one of type INDEX holds objects its client puts in their
  places.

  A pool and its objects are memory: objects and pools have addresses. The lock of a pool is recursive;
  \<open>pl_lck\<close> counts how often the thread that is in a call holds it. The free queue is the list of its
  elements, in the bound \<^verbatim>\<open>n_max_objs + 1\<close>; a wait takes a script as in the other theories, here
  with what other threads did to the pool and its objects. The table of pools is the map it represents.
\<close>

datatype pool_type = GALLUS_POOL_TYPE_UNKNOWN | GALLUS_POOL_TYPE_QUEUE | GALLUS_POOL_TYPE_INDEX

datatype pool_state =
  GALLUS_POOL_STATE_UNKNOWN | GALLUS_POOL_STATE_CONSTRUCTED | GALLUS_POOL_STATE_OPERATIONAL |
  GALLUS_POOL_STATE_SHUTTINGDOWN | GALLUS_POOL_STATE_NOT_OPERATIONAL

record pool =
  pl_type :: pool_type
  pl_is_executor :: bool
  pl_state :: pool_state
  pl_total_obj_size :: nat
  pl_name :: "string option"
  pl_lck :: nat
  pl_is_awakened :: bool
  pl_is_cancelled :: bool
  pl_n_waiters :: nat
  pl_obj_idx :: nat
  pl_m :: poolable_methods
  pl_pobj_size :: nat
  pl_n_max :: nat
  pl_n_cur :: nat
  pl_n_free :: "64 word"
  pl_objs :: "nat option list"
  pl_free_q :: "nat list"

type_synonym psys = "pool \<times> (nat \<rightharpoonup> poolable)"
type_synonym pool_wake = "gallus_result_t \<times> (psys \<Rightarrow> psys)"

definition lock_pool :: "pool \<Rightarrow> pool" where
  "lock_pool p = p\<lparr>pl_lck := pl_lck p + 1\<rparr>"

definition unlock_pool :: "pool \<Rightarrow> pool" where
  "unlock_pool p = p\<lparr>pl_lck := pl_lck p - 1\<rparr>"

subsection \<open>Creating an object\<close>

text \<open>What a new object needs: its memory, the locks, its methods, and the waits if it is destroyed again.\<close>

record pool_env =
  pe_mem :: "(nat \<times> poolable) option"
  pe_record_sz :: nat
  pe_locks :: gallus_result_t
  pe_methods :: method_env
  pe_destroy :: "pb_wake list"

text \<open>
  Create and set up; an object whose set-up fails is destroyed, and is still there when that did not
  free it. None: the destruction still waits.
\<close>

definition make_poolable :: "pool_env \<Rightarrow> nat \<Rightarrow> pool \<Rightarrow> ((nat \<times> poolable) option \<times> gallus_result_t) option" where
  "make_poolable pe i p =
    (case gallus_poolable_create_with_size (map_option snd (pe_mem pe)) (pe_record_sz pe) (pe_locks pe)
            (pe_methods pe) (Some None) (pl_is_executor p) (Some (pl_m p)) (pl_pobj_size p) of
       Some (Some ob, ret) \<Rightarrow>
         if ret = GALLUS_RESULT_OK then
           (let (ob, ret) = poolable_setup (pe_methods pe) (ob\<lparr>pb_obj_idx := i\<rparr>)
            in if ret = GALLUS_RESULT_OK then Some (Some (fst (the (pe_mem pe)), ob), ret)
               else
                 (case poolable_destroy (pe_methods pe) (pe_destroy pe) ob of
                    (None, _) \<Rightarrow> None
                  | (Some gone, ob) \<Rightarrow> Some (if gone then None else Some (fst (the (pe_mem pe)), ob), ret)))
         else Some (None, ret)
     | Some (None, ret) \<Rightarrow> Some (None, ret)
     | None \<Rightarrow> None)"

definition objs_at :: "pool \<Rightarrow> nat \<Rightarrow> nat option" where
  "objs_at p i = (if i < length (pl_objs p) then pl_objs p ! i else None)"

definition pool_add_by_index :: "pool_env \<Rightarrow> nat \<Rightarrow> nat \<Rightarrow> psys \<Rightarrow> psys \<times> gallus_result_t option" where
  "pool_add_by_index pe pa index s =
    (case s of
       (p, objs) \<Rightarrow>
         if pl_state p = GALLUS_POOL_STATE_OPERATIONAL \<and> pl_type p = GALLUS_POOL_TYPE_INDEX \<and>
            index < pl_n_max p \<and> objs_at p index = None then
           (case make_poolable pe 0 p of
              None \<Rightarrow> ((lock_pool p, objs), None)
            | Some (Some (a, ob), ret) \<Rightarrow>
                if ret = GALLUS_RESULT_OK then
                  ((p\<lparr>pl_objs := (pl_objs p)[index := Some a],
                      pl_obj_idx := (if pl_obj_idx p < index then index else pl_obj_idx p),
                      pl_n_cur := pl_n_cur p + 1\<rparr>,
                    objs(a \<mapsto> ob\<lparr>pb_obj_idx := index, pb_pool := Some pa\<rparr>)), Some ret)
                else ((p, objs(a \<mapsto> ob)), Some ret)
            | Some (None, ret) \<Rightarrow> (s, Some ret))
         else
           (s, Some
             (if pl_state p \<noteq> GALLUS_POOL_STATE_CONSTRUCTED then GALLUS_RESULT_NOT_OPERATIONAL
              else if index \<ge> pl_n_max p then GALLUS_RESULT_TOO_LARGE
              else if objs_at p index \<noteq> None then GALLUS_RESULT_ALREADY_EXISTS
              else GALLUS_RESULT_ANY_FAILURES)))"

subsection \<open>Acquiring an object\<close>

definition obj_used :: "(nat \<rightharpoonup> poolable) \<Rightarrow> nat \<Rightarrow> bool" where
  "obj_used objs a = (case objs a of Some ob \<Rightarrow> pb_is_used ob | None \<Rightarrow> False)"

definition set_used :: "bool \<Rightarrow> nat \<Rightarrow> (nat \<rightharpoonup> poolable) \<Rightarrow> (nat \<rightharpoonup> poolable)" where
  "set_used b a objs = objs(a := map_option (\<lambda>ob. ob\<lparr>pb_is_used := b\<rparr>) (objs a))"

definition take_obj :: "nat \<Rightarrow> psys \<Rightarrow> psys" where
  "take_obj a s = (case s of (p, objs) \<Rightarrow> (p\<lparr>pl_n_free := pl_n_free p - 1\<rparr>, set_used True a objs))"

definition waiters :: "(nat \<Rightarrow> nat) \<Rightarrow> psys \<Rightarrow> psys" where
  "waiters f s = (case s of (p, objs) \<Rightarrow> (p\<lparr>pl_n_waiters := f (pl_n_waiters p)\<rparr>, objs))"

text \<open>The loop of a pool of type INDEX: the object, whether the thread was woken up, and the result.\<close>

fun acquire_loop ::
  "(psys \<Rightarrow> nat option) \<Rightarrow> pool_wake list \<Rightarrow> psys \<Rightarrow> psys \<times> nat option \<times> bool \<times> gallus_result_t option" where
  "acquire_loop try [] s =
    (case try s of
       Some a \<Rightarrow> (s, Some a, False, Some GALLUS_RESULT_OK)
     | None \<Rightarrow> (s, None, False, None))"
| "acquire_loop try ((ret, others) # ws) s =
    (case try s of
       Some a \<Rightarrow> (s, Some a, False, Some GALLUS_RESULT_OK)
     | None \<Rightarrow>
         (let s = others s
          in if ret = GALLUS_RESULT_OK \<and> pl_is_awakened (fst s) then (s, None, True, Some ret)
             else if ret \<noteq> GALLUS_RESULT_OK then (s, None, False, Some ret)
             else acquire_loop try ws s))"

text \<open>
  The part under the lock. What is stored through \<^verbatim>\<open>pobjptr\<close> is NULL or the object; a thread that is
  asleep holds no lock.
\<close>

definition acquire_indexed ::
  "(psys \<Rightarrow> nat option) \<Rightarrow> pool_wake list \<Rightarrow> psys \<Rightarrow> psys \<times> gallus_result_t option \<times> nat option" where
  "acquire_indexed try ws s =
    (case acquire_loop try ws (waiters Suc s) of
       (s, found, is_awakened, None) \<Rightarrow> (s, None, None)
     | (s, found, is_awakened, Some ret) \<Rightarrow>
         (let s = waiters (\<lambda>n. n - 1) s;
              ret = (if is_awakened then GALLUS_RESULT_WAKEUP_REQUESTED else ret)
          in case found of
               Some a \<Rightarrow> if ret = GALLUS_RESULT_OK then (take_obj a s, Some ret, Some a) else (s, Some ret, None)
             | None \<Rightarrow> (s, Some ret, None)))"

text \<open>The last component is what is stored, None when nothing is.\<close>

definition pool_acquire_by_index ::
  "pool_wake list \<Rightarrow> nat \<Rightarrow> psys \<Rightarrow> psys \<times> gallus_result_t option \<times> nat option option" where
  "pool_acquire_by_index ws index s =
    (case s of
       (p, objs) \<Rightarrow>
         (case (if pl_state p = GALLUS_POOL_STATE_OPERATIONAL \<and> pl_type p = GALLUS_POOL_TYPE_INDEX \<and>
                   index \<le> pl_obj_idx p then objs_at p index else None) of
            Some a \<Rightarrow>
              (case acquire_indexed (\<lambda>(p, objs). if obj_used objs a then None else Some a) ws s of
                 (s, ret, ob) \<Rightarrow> (s, ret, Some ob))
          | None \<Rightarrow>
              (s, Some
                (if pl_state p \<noteq> GALLUS_POOL_STATE_CONSTRUCTED then GALLUS_RESULT_NOT_OPERATIONAL
                 else if index \<ge> pl_n_max p then GALLUS_RESULT_TOO_LARGE
                 else if objs_at p index = None then GALLUS_RESULT_NOT_FOUND
                 else GALLUS_RESULT_ANY_FAILURES), None)))"

text \<open>The search over the places below \<^verbatim>\<open>m_obj_idx\<close>.\<close>

definition find_free :: "psys \<Rightarrow> nat option" where
  "find_free s =
    (case s of
       (p, objs) \<Rightarrow>
         (case [a. Some a \<leftarrow> take (pl_obj_idx p) (pl_objs p), \<not> obj_used objs a] of
            a # _ \<Rightarrow> Some a
          | [] \<Rightarrow> None))"

text \<open>
  A pool of type QUEUE, the first region, which holds the lock of the pool. It reads the size of the queue first.
  When that is not 0 it takes an element without waiting; the waiters of the pool take elements without the lock,
  so there may be none any more, which \<^verbatim>\<open>gallus_bbq_get\<close> reports as \<^verbatim>\<open>GALLUS_RESULT_OK\<close>: the code goes on with a
  NULL object and writes through it, which is None.
\<close>

definition region1_get :: "psys \<Rightarrow> (psys \<times> nat) option" where
  "region1_get s =
    (case s of
       (p, objs) \<Rightarrow>
         (case pl_free_q p of
            a # q \<Rightarrow> Some (take_obj a (p\<lparr>pl_free_q := q\<rparr>, objs), a)
          | [] \<Rightarrow> None))"

text \<open>
  When the queue is empty: the object found, which is a new one; an object whose set-up failed and that the
  variable still points to; and the result. None as its result: the thread waits in the destruction of such an
  object, with the lock.
\<close>

definition region1_create ::
  "pool_env \<Rightarrow> nat \<Rightarrow> psys \<Rightarrow> psys \<times> nat option \<times> nat option \<times> gallus_result_t option" where
  "region1_create pe pa s =
    (case s of
       (p, objs) \<Rightarrow>
         if pl_obj_idx p < pl_n_max p then
           (case make_poolable pe (pl_obj_idx p) p of
              None \<Rightarrow> ((lock_pool p, objs), None, None, None)
            | Some (Some (a, ob), ret) \<Rightarrow>
                if ret = GALLUS_RESULT_OK then
                  (take_obj a
                     (p\<lparr>pl_objs := (pl_objs p)[pl_obj_idx p := Some a], pl_obj_idx := pl_obj_idx p + 1,
                        pl_n_cur := pl_obj_idx p + 1\<rparr>,
                      objs(a \<mapsto> ob\<lparr>pb_pool := Some pa\<rparr>)),
                   Some a, None, Some ret)
                else ((p, objs(a \<mapsto> ob)), None, Some a, Some ret)
            | Some (None, ret) \<Rightarrow> (s, None, None, Some ret))
         else (s, None, None, Some GALLUS_RESULT_ANY_FAILURES))"

text \<open>\<open>takers\<close> is what the waiters do between the two calls on the queue.\<close>

definition acquire_region1 ::
  "pool_env \<Rightarrow> (psys \<Rightarrow> psys) \<Rightarrow> nat \<Rightarrow> psys \<Rightarrow>
   (psys \<times> nat option \<times> nat option \<times> gallus_result_t option) option" where
  "acquire_region1 pe takers pa s =
    (if pl_free_q (fst s) \<noteq> []
     then map_option (\<lambda>(s, a). (s, Some a, None, Some GALLUS_RESULT_OK)) (region1_get (takers s))
     else Some (region1_create pe pa s))"

text \<open>
  Taking an element from the queue, \<^verbatim>\<open>gallus_bbq_get\<close> with time limit \<open>to\<close>: with a limit of 0 the
  result is \<^verbatim>\<open>GALLUS_RESULT_OK\<close> also when there was none.
\<close>

fun fq_wait :: "pool_wake list \<Rightarrow> psys \<Rightarrow> psys \<times> gallus_result_t option \<times> nat option" where
  "fq_wait [] s =
    (case pl_free_q (fst s) of
       a # q \<Rightarrow> ((fst s\<lparr>pl_free_q := q\<rparr>, snd s), Some GALLUS_RESULT_OK, Some a)
     | [] \<Rightarrow> (s, None, None))"
| "fq_wait ((ret, others) # ws) s =
    (case pl_free_q (fst s) of
       a # q \<Rightarrow> ((fst s\<lparr>pl_free_q := q\<rparr>, snd s), Some GALLUS_RESULT_OK, Some a)
     | [] \<Rightarrow> if ret = GALLUS_RESULT_OK then fq_wait ws (others s) else (others s, Some ret, None))"

definition fq_get :: "pool_wake list \<Rightarrow> gallus_chrono_t \<Rightarrow> psys \<Rightarrow> psys \<times> gallus_result_t option \<times> nat option" where
  "fq_get ws to s =
    (if to = 0 \<and> pl_free_q (fst s) = [] then (s, Some GALLUS_RESULT_OK, None) else fq_wait ws s)"

text \<open>
  \<open>others\<close> and \<open>others2\<close> are what other threads do around the wait for the queue, where no lock is held. None: the
  code writes through a NULL object.
\<close>

definition acquire_queued ::
  "pool_env \<Rightarrow> (psys \<Rightarrow> psys) \<Rightarrow> pool_wake list \<Rightarrow> (psys \<Rightarrow> psys) \<Rightarrow> (psys \<Rightarrow> psys) \<Rightarrow> nat \<Rightarrow> gallus_chrono_t \<Rightarrow> psys \<Rightarrow>
   (psys \<times> gallus_result_t option \<times> nat option) option" where
  "acquire_queued pe takers ws others others2 pa to s =
    (case acquire_region1 pe takers pa s of
       None \<Rightarrow> None
     | Some (s, found, pobj, None) \<Rightarrow> Some (s, None, None)
     | Some (s, Some a, pobj, Some ret) \<Rightarrow> Some (s, Some ret, Some a)
     | Some (s, None, pobj, Some ret) \<Rightarrow>
         (case fq_get ws to (others s) of
            (s, Some ret, ob) \<Rightarrow>
              (case (if ob \<noteq> None then ob else if ret = GALLUS_RESULT_OK then pobj else None) of
                 Some a \<Rightarrow> Some (take_obj a (others2 s), Some ret, Some a)
               | None \<Rightarrow> Some (s, Some ret, None))
          | (s, None, ob) \<Rightarrow> Some (s, None, None)))"

definition pool_acquire ::
  "pool_env \<Rightarrow> (psys \<Rightarrow> psys) \<Rightarrow> pool_wake list \<Rightarrow> (psys \<Rightarrow> psys) \<Rightarrow> (psys \<Rightarrow> psys) \<Rightarrow> nat \<Rightarrow> gallus_chrono_t \<Rightarrow> psys \<Rightarrow>
   (psys \<times> gallus_result_t option \<times> nat option option) option" where
  "pool_acquire pe takers ws others others2 pa to s =
    (if pl_state (fst s) = GALLUS_POOL_STATE_OPERATIONAL then
       (if pl_type (fst s) = GALLUS_POOL_TYPE_INDEX then
          (case acquire_indexed find_free ws s of (s, ret, ob) \<Rightarrow> Some (s, ret, Some ob))
        else if pl_type (fst s) = GALLUS_POOL_TYPE_QUEUE then
          map_option (\<lambda>(s, ret, ob). (s, ret, Some ob)) (acquire_queued pe takers ws others others2 pa to s)
        else Some (s, Some GALLUS_RESULT_INVALID_OBJECT, Some None))
     else Some (s, Some GALLUS_RESULT_NOT_OPERATIONAL, None))"

subsection \<open>Releasing an object\<close>

text \<open>Putting an element into the queue, without a time limit.\<close>

fun fq_put :: "pool_wake list \<Rightarrow> nat \<Rightarrow> psys \<Rightarrow> psys \<times> gallus_result_t option" where
  "fq_put [] a s =
    (if length (pl_free_q (fst s)) < pl_n_max (fst s) + 1
     then ((fst s\<lparr>pl_free_q := pl_free_q (fst s) @ [a]\<rparr>, snd s), Some GALLUS_RESULT_OK)
     else (s, None))"
| "fq_put ((ret, others) # ws) a s =
    (if length (pl_free_q (fst s)) < pl_n_max (fst s) + 1
     then ((fst s\<lparr>pl_free_q := pl_free_q (fst s) @ [a]\<rparr>, snd s), Some GALLUS_RESULT_OK)
     else if ret = GALLUS_RESULT_OK then fq_put ws a (others s) else (others s, Some ret))"

definition free_one :: "psys \<Rightarrow> psys" where
  "free_one s = (case s of (p, objs) \<Rightarrow> (p\<lparr>pl_n_free := pl_n_free p + 1\<rparr>, objs))"

definition pool_release :: "pool_wake list \<Rightarrow> nat \<Rightarrow> psys \<Rightarrow> psys \<times> gallus_result_t option" where
  "pool_release ws a s =
    (case s of
       (p, objs) \<Rightarrow>
         if pl_state p = GALLUS_POOL_STATE_OPERATIONAL then
           (if pl_type p = GALLUS_POOL_TYPE_INDEX then
              (if objs_at p (case objs a of Some ob \<Rightarrow> pb_obj_idx ob | None \<Rightarrow> 0) = Some a then
                 (if obj_used objs a then (free_one (p, set_used False a objs), Some GALLUS_RESULT_OK)
                  else (s, Some GALLUS_RESULT_INVALID_OBJECT))
               else (s, Some GALLUS_RESULT_INVALID_STATE))
            else if pl_type p = GALLUS_POOL_TYPE_QUEUE then
              (case fq_put ws a (p, set_used False a objs) of
                 (s, None) \<Rightarrow> ((lock_pool (fst s), snd s), None)
               | (s, Some ret) \<Rightarrow> (if ret = GALLUS_RESULT_OK then free_one s else s, Some ret))
            else (s, Some GALLUS_RESULT_ANY_FAILURES))
         else (s, Some GALLUS_RESULT_NOT_OPERATIONAL))"

definition pool_outstanding :: "pool \<Rightarrow> gallus_result_t" where
  "pool_outstanding p = sint (pl_n_free p)"

end
