(* ===== verification/Pool_Life.thy ===== *)
theory Pool_Life
  imports Pool
begin

text \<open>
  The life of a pool, \<^verbatim>\<open>framework/lib/pool.c\<close>: creation, wakeup of its waiters, shutdown, cancellation,
  waiting for its objects, destruction, and the table of pools.
\<close>

subsection \<open>Waking up and shutting down\<close>

text \<open>
  A wakeup: the script has the wait for the acknowledgement of a pool of type INDEX, or the call
  \<^verbatim>\<open>gallus_bbq_wakeup\<close> on the queue. The code ends the first with a second locking.
\<close>

definition pool_wakeup :: "pool_wake list \<Rightarrow> psys \<Rightarrow> psys \<times> gallus_result_t option" where
  "pool_wakeup ws s =
    (case s of
       (p, objs) \<Rightarrow>
         if pl_state p = GALLUS_POOL_STATE_OPERATIONAL \<or> pl_state p = GALLUS_POOL_STATE_SHUTTINGDOWN then
           (if pl_type p = GALLUS_POOL_TYPE_INDEX then
              (let p = (lock_pool p)\<lparr>pl_is_awakened := True\<rparr>
               in if pl_n_waiters p > 0 then
                    (case ws of
                       [] \<Rightarrow> ((p, objs), None)
                     | (ret, others) # _ \<Rightarrow>
                         (case others (p, objs) of (p, objs) \<Rightarrow> ((lock_pool (p\<lparr>pl_is_awakened := False\<rparr>), objs), Some ret)))
                  else ((lock_pool (p\<lparr>pl_is_awakened := False\<rparr>), objs), Some GALLUS_RESULT_OK))
            else if pl_type p = GALLUS_POOL_TYPE_QUEUE then
              (case ws of [] \<Rightarrow> (s, None) | (ret, others) # _ \<Rightarrow> (others s, Some ret))
            else (s, Some GALLUS_RESULT_ANY_FAILURES))
         else (s, Some GALLUS_RESULT_NOT_OPERATIONAL))"

text \<open>A call on each object in the places of a list, with the results in order.\<close>

fun for_objs ::
  "(nat \<Rightarrow> poolable option \<Rightarrow> poolable option \<times> gallus_result_t) \<Rightarrow> pool \<Rightarrow> nat list \<Rightarrow> (nat \<rightharpoonup> poolable) \<Rightarrow>
   (nat \<rightharpoonup> poolable) \<times> gallus_result_t list" where
  "for_objs f p [] objs = (objs, [])"
| "for_objs f p (i # is) objs =
    (case objs_at p i of
       None \<Rightarrow> (let (_, r) = f i None; (objs, rs) = for_objs f p is objs in (objs, r # rs))
     | Some a \<Rightarrow>
         (let (ob, r) = f i (objs a); (objs, rs) = for_objs f p is (objs(a := ob)) in (objs, r # rs)))"

fun first_err :: "gallus_result_t list \<Rightarrow> gallus_result_t \<Rightarrow> gallus_result_t" where
  "first_err [] e = e"
| "first_err (r # rs) e =
    first_err rs (if r \<noteq> GALLUS_RESULT_OK \<and> e = GALLUS_RESULT_ANY_FAILURES then r else e)"

text \<open>The result of a pass over the objects; \<open>ret\<close> is what the variable held before.\<close>

definition objs_result :: "gallus_result_t \<Rightarrow> gallus_result_t list \<Rightarrow> gallus_result_t" where
  "objs_result ret rs =
    (if list_all (\<lambda>r. r = GALLUS_RESULT_OK) rs then (if rs = [] then ret else last rs)
     else first_err rs GALLUS_RESULT_ANY_FAILURES)"

definition pool_shutdown ::
  "pool_wake list \<Rightarrow> (nat \<Rightarrow> method_env) \<Rightarrow> shutdown_grace_level \<Rightarrow> psys \<Rightarrow> psys \<times> gallus_result_t option" where
  "pool_shutdown ws env lvl s =
    (case s of
       (p, objs) \<Rightarrow>
         if pl_state p = GALLUS_POOL_STATE_OPERATIONAL then
           (case pool_wakeup ws ((lock_pool p)\<lparr>pl_state := GALLUS_POOL_STATE_SHUTTINGDOWN\<rparr>, objs) of
              (s, None) \<Rightarrow> (s, None)
            | ((p, objs), Some ret) \<Rightarrow>
                if ret = GALLUS_RESULT_OK then
                  (let (objs, rs) = for_objs (\<lambda>i. gallus_poolable_shutdown (env i) lvl) p [0..<pl_obj_idx p] objs
                   in ((unlock_pool p, objs), Some (objs_result ret rs)))
                else ((unlock_pool p, objs), Some ret))
         else (s, Some GALLUS_RESULT_NOT_OPERATIONAL))"

definition pool_cancel :: "(nat \<Rightarrow> method_env) \<Rightarrow> psys \<Rightarrow> psys \<times> gallus_result_t" where
  "pool_cancel env s =
    (case s of
       (p, objs) \<Rightarrow>
         if \<not> pl_is_cancelled p \<and>
            (pl_state p = GALLUS_POOL_STATE_OPERATIONAL \<or> pl_state p = GALLUS_POOL_STATE_SHUTTINGDOWN) then
           (let (objs, rs) = for_objs (\<lambda>i. gallus_poolable_cancel (env i)) p [0..<pl_obj_idx p] objs
            in ((p, objs), objs_result GALLUS_RESULT_ANY_FAILURES rs))
         else (s, if pl_is_cancelled p then GALLUS_RESULT_OK else GALLUS_RESULT_NOT_OPERATIONAL))"

subsection \<open>Waiting for the objects\<close>

text \<open>One pass of waits of a millisecond; None when one of them still waits.\<close>

fun wait_objs ::
  "(nat \<Rightarrow> method_env \<times> pb_wake list) \<Rightarrow> pool \<Rightarrow> nat list \<Rightarrow> (nat \<rightharpoonup> poolable) \<Rightarrow>
   (nat \<rightharpoonup> poolable) \<times> gallus_result_t list option" where
  "wait_objs env p [] objs = (objs, Some [])"
| "wait_objs env p (i # is) objs =
    (case gallus_poolable_wait (fst (env i)) (snd (env i)) (case objs_at p i of Some a \<Rightarrow> objs a | None \<Rightarrow> None) of
       (ob, r) \<Rightarrow>
         (let objs = (case objs_at p i of Some a \<Rightarrow> objs(a := ob) | None \<Rightarrow> objs)
          in case r of
               None \<Rightarrow> (objs, None)
             | Some r \<Rightarrow> (case wait_objs env p is objs of (objs, rs) \<Rightarrow> (objs, map_option (\<lambda>rs. r # rs) rs))))"

text \<open>
  The passes: for each the time it begins and the waits in it. The result has the number of errors and
  the time of the last pass and its last result.
\<close>

fun wait_rounds ::
  "gallus_chrono_t option \<Rightarrow> (gallus_chrono_t \<times> (nat \<Rightarrow> method_env \<times> pb_wake list)) list \<Rightarrow> gallus_result_t \<Rightarrow>
   psys \<Rightarrow> psys \<times> (nat \<times> gallus_chrono_t \<times> gallus_result_t) option" where
  "wait_rounds limit [] ret s = (s, None)"
| "wait_rounds limit ((now, env) # rounds) ret s =
    (case wait_objs env (fst s) [0..<pl_obj_idx (fst s)] (snd s) of
       (objs, None) \<Rightarrow> ((fst s, objs), None)
     | (objs, Some rs) \<Rightarrow>
         (let n_errs = length (filter (\<lambda>r. r \<noteq> GALLUS_RESULT_OK) rs);
              ret = (if rs = [] then ret else last rs)
          in if n_errs \<noteq> 0 \<and> (case limit of Some e \<Rightarrow> now < e | None \<Rightarrow> True)
             then wait_rounds limit rounds ret (fst s, objs)
             else ((fst s, objs), Some (n_errs, now, ret))))"

definition pool_wait ::
  "gallus_chrono_t \<Rightarrow> (gallus_chrono_t \<times> (nat \<Rightarrow> method_env \<times> pb_wake list)) list \<Rightarrow> gallus_chrono_t \<Rightarrow>
   psys \<Rightarrow> psys \<times> gallus_result_t option" where
  "pool_wait begin_time rounds to s =
    (if pl_state (fst s) = GALLUS_POOL_STATE_SHUTTINGDOWN then
       (if to \<ge> 0 then
          (case wait_rounds (Some (begin_time + to)) rounds GALLUS_RESULT_ANY_FAILURES s of
             (s, None) \<Rightarrow> (s, None)
           | (s, Some (n_errs, now, ret)) \<Rightarrow>
               (s, Some (if n_errs = 0 then GALLUS_RESULT_OK
                         else if now \<ge> begin_time + to then GALLUS_RESULT_TIMEDOUT else ret)))
        else
          (case wait_rounds None rounds GALLUS_RESULT_ANY_FAILURES s of
             (s, None) \<Rightarrow> (s, None)
           | (s, Some (n_errs, now, ret)) \<Rightarrow> (s, Some ret)))
     else (s, Some (if pl_state (fst s) \<noteq> GALLUS_POOL_STATE_OPERATIONAL then GALLUS_RESULT_NOT_OPERATIONAL
                    else GALLUS_RESULT_INVALID_ARGS)))"

subsection \<open>Pools in memory\<close>

record pool_world =
  s_pools :: "string \<rightharpoonup> nat"
  pw_pools :: "nat \<rightharpoonup> pool"
  pw_objs :: "nat \<rightharpoonup> poolable"

text \<open>The value stored through the pointer, None when there is none.\<close>

definition gallus_pool_get_pool :: "string option \<Rightarrow> pool_world \<Rightarrow> nat option option \<times> gallus_result_t" where
  "gallus_pool_get_pool name w =
    (if is_valid_string name then
       (case s_pools w (the name) of
          Some a \<Rightarrow> (Some (Some a), GALLUS_RESULT_OK)
        | None \<Rightarrow> (Some None, GALLUS_RESULT_NOT_FOUND))
     else (None, GALLUS_RESULT_INVALID_ARGS))"

text \<open>Destroying the objects; None when the destruction of one still waits. All places are NULL afterwards.\<close>

fun destroy_objs ::
  "(nat \<Rightarrow> method_env \<times> pb_wake list) \<Rightarrow> pool \<Rightarrow> nat list \<Rightarrow> (nat \<rightharpoonup> poolable) \<Rightarrow> (nat \<rightharpoonup> poolable) option" where
  "destroy_objs env p [] objs = Some objs"
| "destroy_objs env p (i # is) objs =
    (case objs_at p i of
       None \<Rightarrow> destroy_objs env p is objs
     | Some a \<Rightarrow>
         (case gallus_poolable_destroy (fst (env i)) (snd (env i)) (objs a) of
            None \<Rightarrow> None
          | Some ob \<Rightarrow> destroy_objs env p is (objs(a := ob))))"

definition gallus_pool_destroy ::
  "(nat \<Rightarrow> method_env \<times> pb_wake list) \<Rightarrow> nat option \<Rightarrow> pool_world \<Rightarrow> pool_world option" where
  "gallus_pool_destroy env h w =
    (case h of
       None \<Rightarrow> Some w
     | Some a \<Rightarrow>
         (case pw_pools w a of
            None \<Rightarrow> None
          | Some p \<Rightarrow>
              (let w = (case pl_name p of Some name \<Rightarrow> w\<lparr>s_pools := (s_pools w)(name := None)\<rparr> | None \<Rightarrow> w)
               in map_option
                    (\<lambda>objs. w\<lparr>pw_objs := objs,
                              pw_pools := (pw_pools w)(a := (if pl_total_obj_size p > 0 then None else Some p))\<rparr>)
                    (destroy_objs env p [0..<pl_n_max p] (pw_objs w)))))"

text \<open>
  What a creation gets from elsewhere: the address \<^verbatim>\<open>malloc\<close> gives, memory for the name and the array,
  the results of the lock, of the two condition variables and of the queue, and memory in the table.
\<close>

record pool_create_env =
  pc_alloc :: "nat option"
  pc_record_sz :: nat
  pc_name :: bool
  pc_lock :: gallus_result_t
  pc_objs :: bool
  pc_cond :: gallus_result_t
  pc_cond2 :: gallus_result_t
  pc_queue :: gallus_result_t
  pc_tbl :: bool

definition pool_zero :: pool where
  "pool_zero = \<lparr>pl_type = GALLUS_POOL_TYPE_UNKNOWN, pl_is_executor = False, pl_state = GALLUS_POOL_STATE_UNKNOWN,
     pl_total_obj_size = 0, pl_name = None, pl_lck = 0, pl_is_awakened = False, pl_is_cancelled = False,
     pl_n_waiters = 0, pl_obj_idx = 0, pl_m = no_methods, pl_pobj_size = 0, pl_n_max = 0, pl_n_cur = 0,
     pl_n_free = 0, pl_objs = [], pl_free_q = []\<rparr>"

text \<open>The parts of the pool, up to its entry in the table.\<close>

definition init_pool ::
  "pool_create_env \<Rightarrow> string \<Rightarrow> pool_type \<Rightarrow> bool \<Rightarrow> nat \<Rightarrow> nat \<Rightarrow> nat \<Rightarrow> poolable_methods \<Rightarrow> pool \<times> gallus_result_t" where
  "init_pool ce name type is_executor alloc_sz n_max_objs pobj_size m =
    (let p = pool_zero\<lparr>pl_type := type, pl_is_executor := is_executor, pl_state := GALLUS_POOL_STATE_CONSTRUCTED,
               pl_total_obj_size := alloc_sz\<rparr>
     in if \<not> pc_name ce then (p, GALLUS_RESULT_NO_MEMORY)
        else
          (let p = p\<lparr>pl_name := Some name\<rparr>
           in if pc_lock ce \<noteq> GALLUS_RESULT_OK then (p, pc_lock ce)
              else
                (let p = p\<lparr>pl_m := m, pl_pobj_size := pobj_size, pl_n_max := n_max_objs, pl_n_cur := 0,
                           pl_n_free := of_nat n_max_objs\<rparr>
                 in if \<not> pc_objs ce then (p, GALLUS_RESULT_NO_MEMORY)
                    else
                      (let p = p\<lparr>pl_objs := replicate n_max_objs None\<rparr>
                       in if type = GALLUS_POOL_TYPE_INDEX then
                            (if pc_cond ce \<noteq> GALLUS_RESULT_OK then (p, pc_cond ce) else (p, pc_cond2 ce))
                          else (p, pc_queue ce)))))"

definition add_pool :: "bool \<Rightarrow> string \<Rightarrow> nat \<Rightarrow> pool_world \<Rightarrow> pool_world \<times> gallus_result_t" where
  "add_pool mem name a w =
    (if s_pools w name \<noteq> None then (w, GALLUS_RESULT_ALREADY_EXISTS)
     else if mem then (w\<lparr>s_pools := (s_pools w)(name \<mapsto> a)\<rparr>, GALLUS_RESULT_OK)
     else (w, GALLUS_RESULT_NO_MEMORY))"

text \<open>
  \<open>pptr\<close> is NULL or what the handle holds. The outer None is a write through NULL: when the arguments
  are refused the handle is cleared without a look at the pointer.
\<close>

definition gallus_pool_create ::
  "(nat \<Rightarrow> method_env \<times> pb_wake list) \<Rightarrow> pool_create_env \<Rightarrow> nat option option \<Rightarrow> nat \<Rightarrow> string option \<Rightarrow> pool_type \<Rightarrow>
   bool \<Rightarrow> nat \<Rightarrow> nat \<Rightarrow> poolable_methods option \<Rightarrow> pool_world \<Rightarrow> (pool_world \<times> nat option \<times> gallus_result_t) option" where
  "gallus_pool_create env ce pptr sz name type is_executor n_max_objs pobj_size m w =
    (case pptr of
       None \<Rightarrow> None
     | Some h \<Rightarrow>
         if is_valid_string name \<and> (type = GALLUS_POOL_TYPE_QUEUE \<or> type = GALLUS_POOL_TYPE_INDEX) \<and>
            n_max_objs > 0 \<and> m \<noteq> None then
           (case (case h of None \<Rightarrow> pc_alloc ce | Some a \<Rightarrow> Some a) of
              None \<Rightarrow> Some (w, None, GALLUS_RESULT_NO_MEMORY)
            | Some a \<Rightarrow>
                (let alloc_sz = (if h = None \<and> sz < pc_record_sz ce then pc_record_sz ce else sz);
                     (p, ret) = init_pool ce (the name) type is_executor alloc_sz n_max_objs pobj_size (the m);
                     w = w\<lparr>pw_pools := (pw_pools w)(a \<mapsto> p)\<rparr>;
                     (w, ret) = (if ret = GALLUS_RESULT_OK then add_pool (pc_tbl ce) (the name) a w else (w, ret))
                 in if ret = GALLUS_RESULT_OK then
                      Some (w\<lparr>pw_pools := (pw_pools w)(a \<mapsto> p\<lparr>pl_state := GALLUS_POOL_STATE_OPERATIONAL\<rparr>)\<rparr>, Some a, ret)
                    else map_option (\<lambda>w. (w, None, ret)) (gallus_pool_destroy env (Some a) w)))
         else Some (w, None, GALLUS_RESULT_INVALID_ARGS))"

subsection \<open>The calls on a handle\<close>

text \<open>None: the handle is of no pool.\<close>

definition on_pool ::
  "(nat \<Rightarrow> psys \<Rightarrow> psys \<times> gallus_result_t option) \<Rightarrow> nat option \<Rightarrow> pool_world \<Rightarrow>
   (pool_world \<times> gallus_result_t option) option" where
  "on_pool f h w =
    (case h of
       None \<Rightarrow> Some (w, Some GALLUS_RESULT_INVALID_ARGS)
     | Some a \<Rightarrow>
         (case pw_pools w a of
            None \<Rightarrow> None
          | Some p \<Rightarrow>
              (case f a (p, pw_objs w) of
                 ((p, objs), ret) \<Rightarrow> Some (w\<lparr>pw_pools := (pw_pools w)(a \<mapsto> p), pw_objs := objs\<rparr>, ret))))"

definition gallus_pool_add_poolable_by_index ::
  "pool_env \<Rightarrow> nat \<Rightarrow> nat option \<Rightarrow> pool_world \<Rightarrow> (pool_world \<times> gallus_result_t option) option" where
  "gallus_pool_add_poolable_by_index pe index = on_pool (\<lambda>a. pool_add_by_index pe a index)"

definition gallus_pool_wakeup ::
  "pool_wake list \<Rightarrow> nat option \<Rightarrow> pool_world \<Rightarrow> (pool_world \<times> gallus_result_t option) option" where
  "gallus_pool_wakeup ws = on_pool (\<lambda>a. pool_wakeup ws)"

definition gallus_pool_shutdown ::
  "pool_wake list \<Rightarrow> (nat \<Rightarrow> method_env) \<Rightarrow> shutdown_grace_level \<Rightarrow> nat option \<Rightarrow> pool_world \<Rightarrow>
   (pool_world \<times> gallus_result_t option) option" where
  "gallus_pool_shutdown ws env lvl = on_pool (\<lambda>a. pool_shutdown ws env lvl)"

definition gallus_pool_cancel ::
  "(nat \<Rightarrow> method_env) \<Rightarrow> nat option \<Rightarrow> pool_world \<Rightarrow> (pool_world \<times> gallus_result_t option) option" where
  "gallus_pool_cancel env = on_pool (\<lambda>a s. map_prod id Some (pool_cancel env s))"

definition gallus_pool_wait ::
  "gallus_chrono_t \<Rightarrow> (gallus_chrono_t \<times> (nat \<Rightarrow> method_env \<times> pb_wake list)) list \<Rightarrow> gallus_chrono_t \<Rightarrow>
   nat option \<Rightarrow> pool_world \<Rightarrow> (pool_world \<times> gallus_result_t option) option" where
  "gallus_pool_wait begin_time rounds to = on_pool (\<lambda>a. pool_wait begin_time rounds to)"

definition gallus_pool_get_outstanding_obj_num ::
  "nat option \<Rightarrow> pool_world \<Rightarrow> (pool_world \<times> gallus_result_t option) option" where
  "gallus_pool_get_outstanding_obj_num = on_pool (\<lambda>a s. (s, Some (pool_outstanding (fst s))))"

text \<open>These store an object through \<^verbatim>\<open>pobjptr\<close>, which is NULL or given.\<close>

definition acquiring ::
  "(nat \<Rightarrow> psys \<Rightarrow> (psys \<times> gallus_result_t option \<times> nat option option) option) \<Rightarrow> bool \<Rightarrow> nat option \<Rightarrow> pool_world \<Rightarrow>
   (pool_world \<times> gallus_result_t option \<times> nat option option) option" where
  "acquiring f pobjptr h w =
    (case (if pobjptr then h else None) of
       None \<Rightarrow> Some (w, Some GALLUS_RESULT_INVALID_ARGS, None)
     | Some a \<Rightarrow>
         (case pw_pools w a of
            None \<Rightarrow> None
          | Some p \<Rightarrow>
              (case f a (p, pw_objs w) of
                 None \<Rightarrow> None
               | Some ((p, objs), ret) \<Rightarrow> Some (w\<lparr>pw_pools := (pw_pools w)(a \<mapsto> p), pw_objs := objs\<rparr>, ret))))"

definition gallus_pool_acquire_poolable_by_index ::
  "pool_wake list \<Rightarrow> nat \<Rightarrow> bool \<Rightarrow> nat option \<Rightarrow> pool_world \<Rightarrow>
   (pool_world \<times> gallus_result_t option \<times> nat option option) option" where
  "gallus_pool_acquire_poolable_by_index ws index = acquiring (\<lambda>a s. Some (pool_acquire_by_index ws index s))"

definition gallus_pool_acquire_poolable ::
  "pool_env \<Rightarrow> (psys \<Rightarrow> psys) \<Rightarrow> pool_wake list \<Rightarrow> (psys \<Rightarrow> psys) \<Rightarrow> (psys \<Rightarrow> psys) \<Rightarrow> gallus_chrono_t \<Rightarrow> bool \<Rightarrow> nat option \<Rightarrow>
   pool_world \<Rightarrow> (pool_world \<times> gallus_result_t option \<times> nat option option) option" where
  "gallus_pool_acquire_poolable pe takers ws others others2 to =
    acquiring (\<lambda>a. pool_acquire pe takers ws others others2 a to)"

definition gallus_pool_release_poolable ::
  "pool_wake list \<Rightarrow> nat option \<Rightarrow> pool_world \<Rightarrow> (pool_world \<times> gallus_result_t option) option" where
  "gallus_pool_release_poolable ws h w =
    (case h of
       None \<Rightarrow> Some (w, Some GALLUS_RESULT_INVALID_ARGS)
     | Some ob \<Rightarrow>
         (case pw_objs w ob of
            None \<Rightarrow> None
          | Some pb \<Rightarrow> on_pool (\<lambda>a. pool_release ws ob) (pb_pool pb) w))"

end
