(* ===== verification/Poolable_Laws.thy ===== *)
theory Poolable_Laws
  imports Poolable
begin

text \<open>
  The life of an object of a pool: an executor is torn down once, whatever calls of other threads are
  made in whatever order, and its destruction ends it properly. At the end, an object that is no
  executor, whose destruction never returns.
\<close>

subsection \<open>Calls and waits\<close>

text \<open>
  \<open>Act_teardown env c as\<close>: the teardown method runs without the lock, and the other threads do \<open>as\<close> meanwhile.
  \<open>Act_waited\<close> is a wait of another thread that ends here, with a call of its wait method. A teardown with \<open>c\<close> first
  unlocks the lock of the object; that no other thread holds it then is assumed here.
\<close>

datatype pb_act =
  Act_setup method_env | Act_shutdown method_env shutdown_grace_level | Act_cancel method_env |
  Act_waited method_env | Act_teardown method_env bool "pb_act list"

fun do_act :: "pb_act \<Rightarrow> poolable \<Rightarrow> poolable" and do_acts :: "pb_act list \<Rightarrow> poolable \<Rightarrow> poolable" where
  "do_act (Act_setup env) = (\<lambda>p. fst (poolable_setup env p))"
| "do_act (Act_shutdown env lvl) = (\<lambda>p. fst (poolable_shutdown env lvl p))"
| "do_act (Act_cancel env) = (\<lambda>p. fst (poolable_cancel env p))"
| "do_act (Act_waited env) = (\<lambda>p. fst (call_method pm_wait M_wait (me_wait env) p))"
| "do_act (Act_teardown env c as) = (\<lambda>p. fst (poolable_teardown env (do_acts as) c p))"
| "do_acts [] = (\<lambda>p. p)"
| "do_acts (a # as) = (\<lambda>p. do_acts as (do_act a p))"

lemma do_acts_fold [simp]: "do_acts as = fold do_act as"
  by (rule ext, induction "as" rule: list.induct) simp_all

text \<open>A wait, with what the other threads do in it.\<close>

datatype pb_op = Act pb_act | Wait method_env "(gallus_result_t \<times> pb_act list) list"

definition wakes :: "(gallus_result_t \<times> pb_act list) list \<Rightarrow> pb_wake list" where
  "wakes ws = map (map_prod id (fold do_act)) ws"

fun do_op :: "pb_op \<Rightarrow> poolable \<Rightarrow> poolable" where
  "do_op (Act a) p = do_act a p"
| "do_op (Wait env ws) p = fst (poolable_wait env (wakes ws) p)"

subsection \<open>An executor is torn down once\<close>

fun is_teardown :: "poolable_call \<Rightarrow> bool" where
  "is_teardown (M_teardown c) = True"
| "is_teardown c = False"

fun ends_thread :: "pb_act \<Rightarrow> bool" where
  "ends_thread (Act_teardown env c as) = True"
| "ends_thread a = False"

text \<open>Teardowns do not overlap; and, with \<open>quiet\<close>, no call of another thread overlaps one.\<close>

fun act_apart :: "bool \<Rightarrow> pb_act \<Rightarrow> bool" where
  "act_apart quiet (Act_teardown env c as) \<longleftrightarrow> list_all (\<lambda>a. \<not> ends_thread a) as \<and> (quiet \<longrightarrow> as = [])"
| "act_apart quiet a \<longleftrightarrow> True"

fun op_apart :: "bool \<Rightarrow> pb_op \<Rightarrow> bool" where
  "op_apart quiet (Act a) \<longleftrightarrow> act_apart quiet a"
| "op_apart quiet (Wait env ws) \<longleftrightarrow> list_all (\<lambda>w. list_all (act_apart quiet) (snd w)) ws"

definition torndown_calls :: "bool \<Rightarrow> bool \<Rightarrow> poolable_call list \<Rightarrow> bool" where
  "torndown_calls quiet c calls \<longleftrightarrow>
    (\<exists>cs ds ws. calls = cs @ [M_teardown c] @ ds @ ws \<and> list_all (\<lambda>c. \<not> is_teardown c) (cs @ ds) \<and>
       list_all (\<lambda>c. c = M_wait) ws \<and> (quiet \<longrightarrow> ds = []))"

lemma torndown_calls_wait: "torndown_calls quiet c calls \<Longrightarrow> torndown_calls quiet c (calls @ [M_wait])"
proof -
  assume "torndown_calls quiet c calls"
  then obtain cs ds ws where d: "calls = cs @ [M_teardown c] @ ds @ ws" "list_all (\<lambda>c. \<not> is_teardown c) (cs @ ds)"
    "list_all (\<lambda>c. c = M_wait) ws" "quiet \<longrightarrow> ds = []"
    unfolding torndown_calls_def by blast
  then have "calls @ [M_wait] = cs @ [M_teardown c] @ ds @ (ws @ [M_wait])" "list_all (\<lambda>c. c = M_wait) (ws @ [M_wait])" by simp_all
  then show ?thesis unfolding torndown_calls_def using d(2,4) by blast
qed

lemma torndown_calls_first:
  "list_all (\<lambda>c. \<not> is_teardown c) (cs @ ds) \<Longrightarrow> (quiet \<longrightarrow> ds = []) \<Longrightarrow> torndown_calls quiet c (cs @ [M_teardown c] @ ds)"
  unfolding torndown_calls_def by (rule exI [of _ cs], rule exI [of _ ds], rule exI [of _ "[]"]) simp

text \<open>What holds of an executor: its calls before the teardown, and only waits after it.\<close>

definition executor_ok :: "bool \<Rightarrow> poolable \<Rightarrow> bool" where
  "executor_ok quiet p \<longleftrightarrow> pb_is_executor p \<and> pm_teardown (pb_methods p) \<noteq> None \<and>
     (if pb_is_torndown p then
        pb_st p = GALLUS_POOLABLE_STATE_NOT_OPERATIONAL \<and> pb_is_wait_done p \<and>
        torndown_calls quiet (pb_is_cancelled p) (pb_calls p)
      else list_all (\<lambda>c. \<not> is_teardown c) (pb_calls p) \<and> pb_st p \<noteq> GALLUS_POOLABLE_STATE_NOT_OPERATIONAL)"

text \<open>The calls of other threads on an executor that is not torn down.\<close>

lemma act_before_end:
  assumes "pb_is_executor p" "\<not> pb_is_torndown p" "pb_st p \<noteq> GALLUS_POOLABLE_STATE_NOT_OPERATIONAL" "\<not> ends_thread a"
  shows "pb_is_executor (do_act a p) \<and> \<not> pb_is_torndown (do_act a p) \<and>
    pb_st (do_act a p) \<noteq> GALLUS_POOLABLE_STATE_NOT_OPERATIONAL \<and> pb_methods (do_act a p) = pb_methods p \<and>
    pb_total_obj_size (do_act a p) = pb_total_obj_size p \<and>
    (\<exists>cs. pb_calls (do_act a p) = pb_calls p @ cs \<and> list_all (\<lambda>c. \<not> is_teardown c) cs)"
  using assms
  by (cases a)
    (auto simp: poolable_setup_def poolable_shutdown_def poolable_cancel_def teardown_here_def call_method_def Let_def)

lemma acts_before_end:
  assumes "pb_is_executor p" "\<not> pb_is_torndown p" "pb_st p \<noteq> GALLUS_POOLABLE_STATE_NOT_OPERATIONAL"
    "list_all (\<lambda>a. \<not> ends_thread a) as"
  shows "pb_is_executor (fold do_act as p) \<and> \<not> pb_is_torndown (fold do_act as p) \<and>
    pb_st (fold do_act as p) \<noteq> GALLUS_POOLABLE_STATE_NOT_OPERATIONAL \<and> pb_methods (fold do_act as p) = pb_methods p \<and>
    pb_total_obj_size (fold do_act as p) = pb_total_obj_size p \<and>
    (\<exists>cs. pb_calls (fold do_act as p) = pb_calls p @ cs \<and> list_all (\<lambda>c. \<not> is_teardown c) cs)"
  using assms
proof (induction "as" arbitrary: p)
  case (Cons a "as")
  have a: "pb_is_executor (do_act a p)" "\<not> pb_is_torndown (do_act a p)"
    "pb_st (do_act a p) \<noteq> GALLUS_POOLABLE_STATE_NOT_OPERATIONAL" "pb_methods (do_act a p) = pb_methods p"
    "pb_total_obj_size (do_act a p) = pb_total_obj_size p"
    "\<exists>cs. pb_calls (do_act a p) = pb_calls p @ cs \<and> list_all (\<lambda>c. \<not> is_teardown c) cs"
    using act_before_end [OF Cons.prems(1-3), of a] Cons.prems(4) by simp_all
  from Cons.IH [OF a(1-3)] Cons.prems(4) a(4-6) show ?case by fastforce
qed simp

lemma executor_torndown_keeps:
  assumes "executor_ok quiet p" "pb_is_torndown p"
  shows "\<exists>r. do_act a p = p\<lparr>pb_last_result := r\<rparr> \<or> do_act a p = p\<lparr>pb_calls := pb_calls p @ [M_wait]\<rparr>"
  using assms by (cases a)
    (auto simp: executor_ok_def poolable_setup_def poolable_shutdown_def poolable_cancel_def poolable_teardown_def
      call_method_def Let_def intro: exI [of _ "pb_last_result p"])

lemma executor_wait_called:
  assumes "executor_ok quiet p"
  shows "executor_ok quiet (p\<lparr>pb_calls := pb_calls p @ [M_wait]\<rparr>)"
  using assms by (auto simp: executor_ok_def intro: torndown_calls_wait)

lemma executor_teardown:
  assumes ok: "executor_ok quiet p" and nt: "\<not> pb_is_torndown p" and "as": "list_all (\<lambda>a. \<not> ends_thread a) as"
    and q: "quiet \<longrightarrow> as = []"
  shows "executor_ok quiet (do_act (Act_teardown env c as) p)"
proof -
  define p1 where "p1 = p\<lparr>pb_calls := pb_calls p @ [M_teardown c]\<rparr>"
  have p1: "pb_is_executor p1" "\<not> pb_is_torndown p1" "pb_st p1 \<noteq> GALLUS_POOLABLE_STATE_NOT_OPERATIONAL"
    "pb_methods p1 = pb_methods p" "pb_calls p1 = pb_calls p @ [M_teardown c]"
    using ok nt by (simp_all add: p1_def executor_ok_def)
  obtain ds where ds: "pb_calls (fold do_act as p1) = pb_calls p1 @ ds" "list_all (\<lambda>c. \<not> is_teardown c) ds"
    and p2: "pb_is_executor (fold do_act as p1)" "pb_methods (fold do_act as p1) = pb_methods p1"
    using acts_before_end [OF p1(1-3) "as"] by auto
  have "quiet \<longrightarrow> ds = []" using q ds(1) by auto
  then have "torndown_calls quiet c (pb_calls p @ [M_teardown c] @ ds)"
    using ok nt ds(2) by (intro torndown_calls_first) (auto simp: executor_ok_def)
  moreover have "do_act (Act_teardown env c as) p = teardown_done (me_teardown env) c (fold do_act as p1)"
    using ok nt by (simp add: poolable_teardown_def call_method_def p1_def executor_ok_def)
  ultimately show ?thesis using ok p1(4,5) ds(1) p2 by (simp add: executor_ok_def teardown_done_def)
qed

lemma executor_act:
  assumes ok: "executor_ok quiet p" and a: "act_apart quiet a"
  shows "executor_ok quiet (do_act a p)"
proof (cases "pb_is_torndown p")
  case True
  then obtain r where "do_act a p = p\<lparr>pb_last_result := r\<rparr> \<or> do_act a p = p\<lparr>pb_calls := pb_calls p @ [M_wait]\<rparr>"
    using executor_torndown_keeps ok by blast
  then show ?thesis using ok executor_wait_called [OF ok] by (auto simp: executor_ok_def)
next
  case False
  show ?thesis
  proof (cases "ends_thread a")
    case True
    then obtain env c "as" where "a = Act_teardown env c as" by (cases a) auto
    then show ?thesis using executor_teardown [OF ok False] a by simp
  next
    case n: False
    have "pb_is_executor p" "pb_st p \<noteq> GALLUS_POOLABLE_STATE_NOT_OPERATIONAL" using ok False by (simp_all add: executor_ok_def)
    from act_before_end [OF this(1) False this(2) n] show ?thesis using ok False by (auto simp: executor_ok_def)
  qed
qed

lemma executor_acts: "executor_ok quiet p \<Longrightarrow> list_all (act_apart quiet) as \<Longrightarrow> executor_ok quiet (fold do_act as p)"
  by (induction "as" arbitrary: p) (auto intro: executor_act)

lemma wait_torndown_done [simp]:
  "pb_is_torndown p \<Longrightarrow> pb_is_wait_done p \<Longrightarrow> wait_torndown ws d p = (p, d, Some GALLUS_RESULT_OK)"
  by (cases ws) auto

lemma wait_torndown_ok:
  assumes "executor_ok quiet p" "wait_torndown (wakes ws) b p = (p', d, r)" "list_all (\<lambda>w. list_all (act_apart quiet) (snd w)) ws"
  shows "executor_ok quiet p' \<and> (r = Some GALLUS_RESULT_OK \<longrightarrow> pb_is_torndown p')"
  using assms
proof (induction ws arbitrary: p b)
  case Nil
  then show ?case by (auto simp: wakes_def split: if_splits)
next
  case (Cons w ws)
  obtain ret acts where w: "w = (ret, acts)" by (cases w)
  have acts: "executor_ok quiet (fold do_act acts p)" using executor_acts [OF Cons.prems(1)] Cons.prems(3) w by simp
  show ?case
  proof (cases "pb_is_torndown p \<and> pb_is_wait_done p")
    case True
    then show ?thesis using Cons.prems by auto
  next
    case False
    show ?thesis
    proof (cases "ret = GALLUS_RESULT_OK")
      case True
      then have "wait_torndown (wakes ws) (b \<or> pm_wait (pb_methods p) \<noteq> None) (fold do_act acts p) = (p', d, r)"
        using Cons.prems(2) False w by (simp add: wakes_def)
      from Cons.IH [OF acts this] show ?thesis using Cons.prems(3) by simp
    next
      case False
      then show ?thesis
        using Cons.prems w acts \<open>\<not> (pb_is_torndown p \<and> pb_is_wait_done p)\<close> by (auto simp: wakes_def)
    qed
  qed
qed

lemma executor_op: "executor_ok quiet p \<Longrightarrow> op_apart quiet op \<Longrightarrow> executor_ok quiet (do_op op p)"
proof (cases op)
  case (Wait env ws)
  assume p: "executor_ok quiet p" "op_apart quiet op"
  obtain p' d r where w: "wait_torndown (wakes ws) False p = (p', d, r)" by (cases "wait_torndown (wakes ws) False p")
  have ok: "executor_ok quiet p'" using wait_torndown_ok [OF p(1) w] p(2) Wait by simp
  show ?thesis
    using Wait w ok executor_wait_called [OF ok] call_method_def [of pm_wait M_wait "me_wait env" p']
    by (cases r) (auto simp: poolable_wait_def)
qed (auto intro: executor_act)

lemma executor_ops: "executor_ok quiet p \<Longrightarrow> list_all (op_apart quiet) ops \<Longrightarrow> executor_ok quiet (fold do_op ops p)"
  by (induction ops arbitrary: p) (auto intro: executor_op)


definition good_methods :: method_env where
  "good_methods = \<lparr>me_construct = 0, me_setup = 0, me_shutdown = 0, me_cancel = 0, me_teardown = 0, me_wait = 0\<rparr>"

definition all_methods :: poolable_methods where
  "all_methods = \<lparr>pm_construct = Some 1, pm_setup = Some 2, pm_shutdown = Some 3, pm_cancel = Some 4,
     pm_teardown = Some 5, pm_wait = Some 6, pm_destruct = Some 7\<rparr>"

definition some_mem :: poolable where
  "some_mem = poolable_new False no_methods 0"

lemmas poolable_example = good_methods_def all_methods_def some_mem_def poolable_new_def no_methods_def
  gallus_poolable_create_with_size_def sufficient_methods_def call_method_def poolable_setup_def poolable_shutdown_def
  poolable_cancel_def poolable_teardown_def teardown_here_def teardown_done_def poolable_wait_def Let_def


subsection \<open>Destruction\<close>

text \<open>
  The destruction of an operational executor shuts it down, sleeps until its thread has ended, calls
  the wait and the destruct method, in this order, and gives the memory back, whatever else other
  threads call meanwhile, if the thread was not cancelled.
\<close>

theorem poolable_destroy_ends:
  assumes "executor_ok quiet p" "pb_st p = GALLUS_POOLABLE_STATE_OPERATIONAL" "0 < pb_total_obj_size p"
    and "pm_shutdown (pb_methods p) \<noteq> None" "pm_wait (pb_methods p) \<noteq> None" "pm_destruct (pb_methods p) \<noteq> None"
    and "me_shutdown env = GALLUS_RESULT_OK" "me_wait env = GALLUS_RESULT_OK"
    and "list_all (\<lambda>a. \<not> ends_thread a) as"
  shows "\<exists>p' cs. poolable_destroy env (wakes ((GALLUS_RESULT_OK, as @ [Act_teardown tenv False []]) # ws)) p = (Some True, p') \<and>
    pb_calls p' = pb_calls p @ [M_shutdown SHUTDOWN_RIGHT_NOW] @ cs @ [M_teardown False, M_wait, M_destruct] \<and>
    list_all (\<lambda>c. \<not> is_teardown c) cs"
proof -
  have nt: "\<not> pb_is_torndown p" using assms(1,2) by (auto simp: executor_ok_def)
  define p1 where "p1 = fst (poolable_shutdown env SHUTDOWN_RIGHT_NOW p)"
  have s: "poolable_shutdown env SHUTDOWN_RIGHT_NOW p = (p1, GALLUS_RESULT_OK)"
    and c1: "pb_calls p1 = pb_calls p @ [M_shutdown SHUTDOWN_RIGHT_NOW]"
    and m1: "pb_methods p1 = pb_methods p" "pb_total_obj_size p1 = pb_total_obj_size p" "\<not> pb_is_torndown p1"
    using assms(1,2,4,7) nt
    by (auto simp: p1_def poolable_shutdown_def call_method_def teardown_here_def executor_ok_def Let_def)
  have ok1: "executor_ok quiet p1" using executor_act [OF assms(1), of "Act_shutdown env SHUTDOWN_RIGHT_NOW"] s by simp
  define p2 where "p2 = fold do_act as p1"
  obtain cs where c2: "pb_calls p2 = pb_calls p1 @ cs" "list_all (\<lambda>c. \<not> is_teardown c) cs"
    and m2: "pb_methods p2 = pb_methods p" "pb_total_obj_size p2 = pb_total_obj_size p" "\<not> pb_is_torndown p2"
    using acts_before_end [of p1 as] ok1 m1 assms(9) by (auto simp: p2_def executor_ok_def)
  have ok2: "pm_teardown (pb_methods p2) \<noteq> None" using assms(1) m2(1) by (simp add: executor_ok_def)
  define p3 where "p3 = do_act (Act_teardown tenv False []) p2"
  have p3: "pb_is_torndown p3" "pb_is_wait_done p3" "\<not> pb_is_cancelled p3" "pb_methods p3 = pb_methods p"
    "pb_total_obj_size p3 = pb_total_obj_size p" "pb_calls p3 = pb_calls p2 @ [M_teardown False]"
    using ok2 m2 by (auto simp: p3_def poolable_teardown_def call_method_def teardown_done_def Let_def)
  have "wait_torndown (wakes ((GALLUS_RESULT_OK, as @ [Act_teardown tenv False []]) # ws)) False p1 =
      (p3, True, Some GALLUS_RESULT_OK)"
    using m1 p3(1,2) assms(5) by (simp add: wakes_def p3_def p2_def)
  then show ?thesis
    using s c1 c2 p3 assms(3,5,6,8) by (auto simp: poolable_destroy_def poolable_wait_def call_method_def Let_def)
qed

lemma poolable_destroy_ends_witness:
  "\<exists>p'. poolable_destroy good_methods (wakes [(GALLUS_RESULT_OK, [Act_cancel good_methods, Act_teardown good_methods False []])])
       (poolable_new True all_methods 8\<lparr>pb_st := GALLUS_POOLABLE_STATE_OPERATIONAL\<rparr>) = (Some True, p') \<and>
     last (pb_calls p') = M_destruct"
proof -
  let ?p = "poolable_new True all_methods 8\<lparr>pb_st := GALLUS_POOLABLE_STATE_OPERATIONAL\<rparr>"
  have p: "executor_ok True ?p" "pb_st ?p = GALLUS_POOLABLE_STATE_OPERATIONAL" "0 < pb_total_obj_size ?p"
    "pm_shutdown (pb_methods ?p) \<noteq> None" "pm_wait (pb_methods ?p) \<noteq> None" "pm_destruct (pb_methods ?p) \<noteq> None"
    by (simp_all add: executor_ok_def poolable_new_def all_methods_def)
  show ?thesis
    using poolable_destroy_ends [OF p, of good_methods "[Act_cancel good_methods]" good_methods "[]"]
    by (auto simp: good_methods_def)
qed

subsection \<open>What goes wrong\<close>

text \<open>
  Shutting an object down that is no executor calls its teardown method, but neither that nor anything
  else marks it torn down: its destruction waits for good.
\<close>

lemma wait_torndown_stuck:
  "\<not> pb_is_torndown p \<Longrightarrow> list_all (\<lambda>w. w = (GALLUS_RESULT_OK, id)) ws \<Longrightarrow>
     \<exists>d. wait_torndown ws b p = (p, d, None)"
  by (induction ws arbitrary: b) auto

lemma poolable_destroy_hangs:
  assumes "\<not> pb_is_executor p" "\<not> pb_is_torndown p" "list_all (\<lambda>w. w = (GALLUS_RESULT_OK, id)) ws"
  shows "fst (poolable_destroy env ws p) = None"
proof -
  have "\<not> pb_is_torndown (fst (poolable_shutdown env SHUTDOWN_RIGHT_NOW p))"
    using assms(1,2) by (auto simp: poolable_shutdown_def call_method_def teardown_here_def Let_def)
  then show ?thesis
    using wait_torndown_stuck [OF _ assms(3), of "fst (poolable_shutdown env SHUTDOWN_RIGHT_NOW p)" False]
    by (auto simp: poolable_destroy_def poolable_wait_def split: prod.splits)
qed

text \<open>So does the destruction of an executor whose set-up failed: it has no thread that could end.\<close>

lemma poolable_failed_setup_hangs:
  assumes "pb_st p = GALLUS_POOLABLE_STATE_CONSTRUCTED" "\<not> pb_is_torndown p" "list_all (\<lambda>w. w = (GALLUS_RESULT_OK, id)) ws"
  shows "fst (poolable_destroy env ws p) = None"
  using assms wait_torndown_stuck [of "p\<lparr>pb_last_result := GALLUS_RESULT_INVALID_STATE_TRANSITION\<rparr>" ws False]
  by (auto simp: poolable_destroy_def poolable_wait_def poolable_shutdown_def split: prod.splits)

text \<open>An executor that was cancelled is never destructed or freed.\<close>

lemma poolable_cancelled_leaks:
  assumes "pb_is_torndown p" "pb_is_wait_done p" "pb_st p = GALLUS_POOLABLE_STATE_NOT_OPERATIONAL" "pb_is_cancelled p"
  shows "poolable_destroy env ws p = (Some False, p\<lparr>pb_last_result := GALLUS_RESULT_OK\<rparr>)"
  using assms by (simp add: poolable_destroy_def poolable_wait_def poolable_shutdown_def)

text \<open>Two ends of the thread that overlap both call the teardown method.\<close>

lemma poolable_two_teardowns:
  assumes "\<not> pb_is_torndown p" "pm_teardown (pb_methods p) \<noteq> None"
  shows "pb_calls (do_act (Act_teardown env False [Act_teardown env True []]) p) = pb_calls p @ [M_teardown False, M_teardown True]"
  using assms by (simp add: poolable_teardown_def call_method_def teardown_done_def)

text \<open>The creation reads through the pointer it has found to be NULL.\<close>

lemma poolable_create_null: "gallus_poolable_create_with_size mem n locks env None is_executor m sz = None"
  by (simp add: gallus_poolable_create_with_size_def)

end
