(* ===== verification/Pool_Laws.thy ===== *)
theory Pool_Laws
  imports Pool_Life Poolable_Laws List_Multiset
begin

text \<open>
  A pool of type QUEUE under many clients: each object is held by one of them at a time, the free count
  is right, a release never waits, and a client waits only when every object is in use. At the end, what
  goes wrong: the last place of a pool of type INDEX, wakeups, releasing twice, failing creations.
\<close>

subsection \<open>Clients of a pool\<close>

text \<open>
  A client has no object, is between the two calls on the queue of the first region, waits for the queue, has taken
  an object out of it, or holds one; or it wrote through NULL, and the process is gone. The regions under the lock
  and the operations of the queue are its turns: \<open>Enter\<close> takes the lock, creates an object or, when the queue has
  elements, stops before it takes one, which is \<open>Get\<close>.
\<close>

datatype client = No_object | Entering | Waits | Taken nat | Holds nat | Null_object

datatype pool_turn =
  Enter nat pool_env | Get nat | Take nat | Give_up nat | Mark nat | Release nat

text \<open>Memory for a new object is not in use.\<close>

definition fresh :: "pool_env \<Rightarrow> psys \<Rightarrow> bool" where
  "fresh pe s \<longleftrightarrow> (case pe_mem pe of Some (a, _) \<Rightarrow> snd s a = None | None \<Rightarrow> True)"

definition client_at :: "nat \<Rightarrow> client list \<Rightarrow> client option" where
  "client_at i cs = (if i < length cs then Some (cs ! i) else None)"

text \<open>Nobody has the lock, and the process is there.\<close>

definition lock_free :: "client list \<Rightarrow> bool" where
  "lock_free cs \<longleftrightarrow> list_all (\<lambda>c. c \<noteq> Entering \<and> c \<noteq> Null_object) cs"

definition alive :: "client list \<Rightarrow> bool" where
  "alive cs \<longleftrightarrow> list_all (\<lambda>c. c \<noteq> Null_object) cs"

text \<open>
  Not among the turns is the creation of an object whose set-up fails and that its destruction does not free
  (\<open>pool_acquire_failed_object\<close> below).
\<close>

fun client_turn :: "nat \<Rightarrow> pool_turn \<Rightarrow> psys \<times> client list \<Rightarrow> (psys \<times> client list) option" where
  "client_turn pa (Enter i pe) (s, cs) =
    (if client_at i cs = Some No_object \<and> fresh pe s \<and> lock_free cs then
       (if pl_free_q (fst s) \<noteq> [] then Some (s, cs[i := Entering])
        else
          (case region1_create pe pa s of
             (s, Some a, pobj, Some ret) \<Rightarrow> Some (s, cs[i := Holds a])
           | (s, None, None, Some ret) \<Rightarrow> Some (s, cs[i := Waits])
           | (s, found, pobj, ret) \<Rightarrow> None))
     else None)"
| "client_turn pa (Get i) (s, cs) =
    (if client_at i cs = Some Entering \<and> alive cs then
       (case region1_get s of
          Some (s, a) \<Rightarrow> Some (s, cs[i := Holds a])
        | None \<Rightarrow> Some (s, cs[i := Null_object]))
     else None)"
| "client_turn pa (Take i) (s, cs) =
    (if client_at i cs = Some Waits \<and> alive cs then
       (case fq_wait [] s of
          (s, Some ret, Some a) \<Rightarrow> Some (s, cs[i := Taken a])
        | _ \<Rightarrow> None)
     else None)"
| "client_turn pa (Give_up i) (s, cs) =
    (if client_at i cs = Some Waits \<and> alive cs then Some (s, cs[i := No_object]) else None)"
| "client_turn pa (Mark i) (s, cs) =
    (case client_at i cs of
       Some (Taken a) \<Rightarrow> if lock_free cs then Some (take_obj a s, cs[i := Holds a]) else None
     | _ \<Rightarrow> None)"
| "client_turn pa (Release i) (s, cs) =
    (case client_at i cs of
       Some (Holds a) \<Rightarrow>
         if lock_free cs then
           (case pool_release [] a s of
              (s, Some ret) \<Rightarrow> if ret = GALLUS_RESULT_OK then Some (s, cs[i := No_object]) else None
            | (s, None) \<Rightarrow> None)
         else None
     | _ \<Rightarrow> None)"

lemma client_at_update [simp]: "client_at i cs = Some c \<Longrightarrow> client_at j (cs[i := d]) = (if i = j then Some d else client_at j cs)"
  by (auto simp: client_at_def split: if_splits)

lemma alive_update: "alive cs \<Longrightarrow> d \<noteq> Null_object \<Longrightarrow> alive (cs[i := d])"
  using set_update_subset_insert [of cs i d] by (auto simp: alive_def list_all_iff)

lemma lock_free_alive: "lock_free cs \<Longrightarrow> alive cs"
  by (auto simp: alive_def lock_free_def list_all_iff)

text \<open>The two turns are the region of the code.\<close>

lemma enter_get_region1:
  assumes "client_at i cs = Some No_object" "client_turn pa (Enter i pe) (s, cs) = Some (s1, cs1)"
  shows "if pl_free_q (fst s) = [] then
      \<exists>found pobj ret. acquire_region1 pe takers pa s = Some (s1, found, pobj, Some ret) \<and>
        cs1 = cs[i := (case found of Some a \<Rightarrow> Holds a | None \<Rightarrow> Waits)]
    else s1 = s \<and> cs1 = cs[i := Entering] \<and>
      client_turn pa (Get i) (takers s, cs1) =
        (case acquire_region1 pe takers pa s of
           Some (s2, Some a, pobj, ret) \<Rightarrow> Some (s2, cs1[i := Holds a])
         | _ \<Rightarrow> Some (takers s, cs1[i := Null_object]))"
proof -
  have "lock_free cs" using assms(2) by (simp split: if_splits)
  then have "alive (cs[i := Entering])" using alive_update lock_free_alive by blast
  then show ?thesis using assms
    by (auto simp: acquire_region1_def split: if_splits option.splits prod.splits)
qed

fun client_turns :: "nat \<Rightarrow> pool_turn list \<Rightarrow> psys \<times> client list \<Rightarrow> (psys \<times> client list) option" where
  "client_turns pa [] s = Some s"
| "client_turns pa (t # ts) s = (case client_turn pa t s of Some s \<Rightarrow> client_turns pa ts s | None \<Rightarrow> None)"

subsection \<open>Invariant\<close>

fun held_by :: "client \<Rightarrow> nat list" where
  "held_by (Holds a) = [a]"
| "held_by c = []"

fun taken_by :: "client \<Rightarrow> nat list" where
  "taken_by (Taken a) = [a]"
| "taken_by c = []"

definition held :: "client list \<Rightarrow> nat list" where
  "held cs = concat (map held_by cs)"

definition taken :: "client list \<Rightarrow> nat list" where
  "taken cs = concat (map taken_by cs)"

definition created :: "pool \<Rightarrow> nat list" where
  "created p = [a. Some a \<leftarrow> take (pl_obj_idx p) (pl_objs p)]"

definition pool_inv :: "psys \<times> client list \<Rightarrow> bool" where
  "pool_inv s \<longleftrightarrow>
    (case s of
       ((p, objs), cs) \<Rightarrow>
         pl_type p = GALLUS_POOL_TYPE_QUEUE \<and> pl_state p = GALLUS_POOL_STATE_OPERATIONAL \<and>
         length (pl_objs p) = pl_n_max p \<and> pl_obj_idx p \<le> pl_n_max p \<and> length (created p) = pl_obj_idx p \<and>
         distinct (created p) \<and>
         mset (pl_free_q p) + mset (taken cs) + mset (held cs) = mset (created p) \<and>
         (\<forall>a \<in> set (created p). objs a \<noteq> None) \<and>
         pl_n_free p + of_nat (length (held cs)) = of_nat (pl_n_max p))"

lemma held_update:
  "client_at i cs = Some c \<Longrightarrow> mset (held (cs[i := d])) + mset (held_by c) = mset (held cs) + mset (held_by d)"
  using mset_concat_map_update [of i cs held_by d] by (auto simp: held_def client_at_def split: if_splits)

lemma taken_update:
  "client_at i cs = Some c \<Longrightarrow> mset (taken (cs[i := d])) + mset (taken_by c) = mset (taken cs) + mset (taken_by d)"
  using mset_concat_map_update [of i cs taken_by d] by (auto simp: taken_def client_at_def split: if_splits)

lemma length_held_update:
  "client_at i cs = Some c \<Longrightarrow> length (held (cs[i := d])) + length (held_by c) = length (held cs) + length (held_by d)"
  using arg_cong [OF held_update, of i cs c size d] by simp

text \<open>What the invariant says of the parts.\<close>

lemma pool_inv_iff:
  "pool_inv ((p, objs), cs) \<longleftrightarrow>
     pl_type p = GALLUS_POOL_TYPE_QUEUE \<and> pl_state p = GALLUS_POOL_STATE_OPERATIONAL \<and>
     length (pl_objs p) = pl_n_max p \<and> pl_obj_idx p \<le> pl_n_max p \<and> length (created p) = pl_obj_idx p \<and>
     distinct (created p) \<and>
     mset (pl_free_q p) + mset (taken cs) + mset (held cs) = mset (created p) \<and>
     (\<forall>a \<in> set (created p). objs a \<noteq> None) \<and>
     pl_n_free p + of_nat (length (held cs)) = of_nat (pl_n_max p)"
  by (simp add: pool_inv_def)

lemma created_cong:
  "pl_objs p' = pl_objs p \<Longrightarrow> pl_obj_idx p' = pl_obj_idx p \<Longrightarrow> created p' = created p"
  by (simp add: created_def)

lemma take_obj_simps:
  "take_obj a (p, objs) = (p\<lparr>pl_n_free := pl_n_free p - 1\<rparr>, set_used True a objs)"
  "set_used b a objs c = None \<longleftrightarrow> objs c = None"
  by (auto simp: take_obj_def set_used_def)

text \<open>A client whose state changes without an object changing hands.\<close>

lemma pool_inv_waiting:
  assumes "pool_inv ((p, objs), cs)" "client_at i cs = Some c" "held_by c = held_by d" "taken_by c = taken_by d"
  shows "pool_inv ((p, objs), cs[i := d])"
proof -
  have "mset (held (cs[i := d])) = mset (held cs)" "mset (taken (cs[i := d])) = mset (taken cs)"
    using held_update [OF assms(2), of d] taken_update [OF assms(2), of d] assms(3,4) by simp_all
  moreover from this have "length (held (cs[i := d])) = length (held cs)" by (metis size_mset)
  ultimately show ?thesis using assms(1) by (simp add: pool_inv_iff)
qed

lemma pool_inv_take:
  assumes "pool_inv ((p, objs), cs)" "client_at i cs = Some Waits" "fq_wait [] (p, objs) = (s, Some ret, Some a)"
  shows "pool_inv (s, cs[i := Taken a])"
proof -
  obtain q where q: "pl_free_q p = a # q" "s = (p\<lparr>pl_free_q := q\<rparr>, objs)"
    using assms(3) by (auto split: list.splits)
  have h: "mset (held (cs[i := Taken a])) = mset (held cs)" and t: "mset (taken (cs[i := Taken a])) = mset (taken cs) + {#a#}"
    using held_update [OF assms(2), of "Taken a"] taken_update [OF assms(2), of "Taken a"] by simp_all
  have l: "length (held (cs[i := Taken a])) = length (held cs)" using h by (metis size_mset)
  have c: "created (p\<lparr>pl_free_q := q\<rparr>) = created p" by (simp add: created_def)
  show ?thesis using assms(1) unfolding q(2) pool_inv_iff c by (simp add: q(1) h t l)
qed

lemma pool_inv_mark:
  assumes "pool_inv ((p, objs), cs)" "client_at i cs = Some (Taken a)"
  shows "pool_inv (take_obj a (p, objs), cs[i := Holds a])"
proof -
  have h: "mset (held (cs[i := Holds a])) = mset (held cs) + {#a#}" and t: "mset (taken (cs[i := Holds a])) + {#a#} = mset (taken cs)"
    using held_update [OF assms(2), of "Holds a"] taken_update [OF assms(2), of "Holds a"] by simp_all
  have l: "length (held (cs[i := Holds a])) = length (held cs) + 1" using length_held_update [OF assms(2), of "Holds a"] by simp
  have c: "created (p\<lparr>pl_n_free := pl_n_free p - 1\<rparr>) = created p" by (simp add: created_def)
  have m: "mset (pl_free_q p) + mset (taken (cs[i := Holds a])) + mset (held (cs[i := Holds a])) = mset (created p)"
    using assms(1) t h unfolding pool_inv_iff by (metis add.assoc add.commute)
  show ?thesis using assms(1) m unfolding take_obj_simps pool_inv_iff c by (simp add: l take_obj_simps(2))
qed

lemma pool_inv_free_room:
  assumes "pool_inv ((p, objs), cs)"
  shows "length (pl_free_q p) + length (taken cs) + length (held cs) = pl_obj_idx p"
proof -
  have "mset (pl_free_q p) + mset (taken cs) + mset (held cs) = mset (created p)" "length (created p) = pl_obj_idx p"
    using assms by (simp_all add: pool_inv_iff)
  from arg_cong [OF this(1), of size] this(2) show ?thesis by simp
qed

lemma pool_inv_release:
  assumes "pool_inv ((p, objs), cs)" "client_at i cs = Some (Holds a)"
  shows "\<exists>s. pool_release [] a (p, objs) = (s, Some GALLUS_RESULT_OK) \<and> pool_inv (s, cs[i := No_object])"
proof -
  have room: "length (pl_free_q p) < pl_n_max p + 1"
    using pool_inv_free_room [OF assms(1)] assms(1) by (simp add: pool_inv_iff)
  have h: "mset (held (cs[i := No_object])) + {#a#} = mset (held cs)" and t: "mset (taken (cs[i := No_object])) = mset (taken cs)"
    using held_update [OF assms(2), of No_object] taken_update [OF assms(2), of No_object] by simp_all
  have l: "length (held (cs[i := No_object])) + 1 = length (held cs)" using length_held_update [OF assms(2), of No_object] by simp
  let ?p = "p\<lparr>pl_free_q := pl_free_q p @ [a], pl_n_free := pl_n_free p + 1\<rparr>"
  have c: "created ?p = created p" by (simp add: created_def)
  have m: "mset (pl_free_q p @ [a]) + mset (taken (cs[i := No_object])) + mset (held (cs[i := No_object])) = mset (created p)"
    using assms(1) t h unfolding pool_inv_iff by (simp add: add.assoc flip: h)
  have "of_nat (length (held cs)) = (of_nat (length (held (cs[i := No_object]))) + 1 :: 64 word)" using l by (metis of_nat_1 of_nat_add)
  then have "pool_inv ((?p, set_used False a objs), cs[i := No_object])"
    using assms(1) m unfolding pool_inv_iff c by (simp add: take_obj_simps(2) add.assoc add.commute [of 1])
  moreover have "pool_release [] a (p, objs) = ((?p, set_used False a objs), Some GALLUS_RESULT_OK)"
    using assms(1) room by (simp add: pool_release_def pool_inv_iff free_one_def)
  ultimately show ?thesis by blast
qed

lemma make_poolable_mem:
  assumes "make_poolable pe i p = Some (Some (a, ob), ret)"
  shows "\<exists>junk. pe_mem pe = Some (a, junk)"
proof -
  obtain c r where c: "gallus_poolable_create_with_size (map_option snd (pe_mem pe)) (pe_record_sz pe) (pe_locks pe)
      (pe_methods pe) (Some None) (pl_is_executor p) (Some (pl_m p)) (pl_pobj_size p) = Some (Some c, r)"
    using assms by (auto simp: make_poolable_def split: option.splits if_splits)
  then have "pe_mem pe \<noteq> None" by (cases "pe_mem pe") (auto simp: gallus_poolable_create_with_size_def Let_def)
  then show "\<exists>junk. pe_mem pe = Some (a, junk)"
    using assms c by (auto simp: make_poolable_def split: option.splits if_splits prod.splits)
qed

lemma pool_inv_get:
  assumes inv: "pool_inv (s, cs)" and c: "client_at i cs = Some Entering" and r: "region1_get s = Some (s', a)"
  shows "pool_inv (s', cs[i := Holds a])"
proof -
  obtain p objs where s: "s = (p, objs)" by (cases s)
  obtain q where q: "pl_free_q p = a # q" "s' = take_obj a (p\<lparr>pl_free_q := q\<rparr>, objs)"
    using r s by (auto simp: region1_get_def split: list.splits)
  have "pool_inv ((p, objs), cs[i := Waits])" using pool_inv_waiting [of p objs cs i Entering Waits] inv c s by simp
  moreover have "fq_wait [] (p, objs) = ((p\<lparr>pl_free_q := q\<rparr>, objs), Some GALLUS_RESULT_OK, Some a)" using q by simp
  moreover have "client_at i (cs[i := Waits]) = Some Waits" using c by simp
  ultimately have "pool_inv ((p\<lparr>pl_free_q := q\<rparr>, objs), (cs[i := Waits])[i := Taken a])"
    using pool_inv_take by blast
  from pool_inv_mark [OF this, of i a] c show ?thesis by (simp add: q(2))
qed

lemma pool_inv_enter:
  assumes inv: "pool_inv ((p, objs), cs)" and c: "client_at i cs = Some No_object" "fresh pe (p, objs)"
    and r: "region1_create pe pa (p, objs) = (s, found, pobj, Some ret)"
  shows "pool_inv (s, cs[i := (case found of Some a \<Rightarrow> Holds a | None \<Rightarrow> Waits)])"
proof (cases "found")
  case None
  then have "s = (p, objs) \<or> (\<exists>a ob. s = (p, objs(a \<mapsto> ob)))"
    using r by (auto simp: region1_create_def split: if_splits option.splits prod.splits)
  moreover have "pool_inv ((p, objs(a \<mapsto> ob)), cs)" for a ob using inv by (simp add: pool_inv_iff)
  ultimately show ?thesis using None inv pool_inv_waiting [OF _ c(1), of p _ Waits] by auto
next
  case (Some a)
  obtain ob r0 where m: "make_poolable pe (pl_obj_idx p) p = Some (Some (a, ob), r0)" and lt: "pl_obj_idx p < pl_n_max p"
    and s: "s = take_obj a (p\<lparr>pl_objs := (pl_objs p)[pl_obj_idx p := Some a], pl_obj_idx := pl_obj_idx p + 1,
         pl_n_cur := pl_obj_idx p + 1\<rparr>, objs(a \<mapsto> ob\<lparr>pb_pool := Some pa\<rparr>))"
    using r Some by (auto simp: region1_create_def split: if_splits option.splits prod.splits)
  have new: "objs a = None" using make_poolable_mem [OF m] c(2) by (auto simp: fresh_def)
  let ?p = "p\<lparr>pl_objs := (pl_objs p)[pl_obj_idx p := Some a], pl_obj_idx := pl_obj_idx p + 1, pl_n_cur := pl_obj_idx p + 1\<rparr>"
  let ?n = "?p\<lparr>pl_n_free := pl_n_free p - 1\<rparr>"
  have cr: "created ?n = created p @ [a]"
    using inv lt by (simp add: created_def pool_inv_iff take_Suc_conv_app_nth)
  have notin: "a \<notin> set (created p)" using inv new unfolding pool_inv_iff by blast
  have h: "mset (held (cs[i := Holds a])) = mset (held cs) + {#a#}" and t: "mset (taken (cs[i := Holds a])) = mset (taken cs)"
    using held_update [OF c(1), of "Holds a"] taken_update [OF c(1), of "Holds a"] by simp_all
  have l: "length (held (cs[i := Holds a])) = length (held cs) + 1" using length_held_update [OF c(1), of "Holds a"] by simp
  have "pool_inv ((?n, set_used True a (objs(a \<mapsto> ob\<lparr>pb_pool := Some pa\<rparr>))), cs[i := Holds a])"
    using inv lt notin unfolding pool_inv_iff cr by (auto simp: h t l take_obj_simps(2))
  then show ?thesis by (simp add: s take_obj_simps(1) Some)
qed

lemma pool_inv_turn:
  assumes "pool_inv (s, cs)" "client_turn pa t (s, cs) = Some (s', cs')"
  shows "pool_inv (s', cs')"
proof -
  obtain p objs where s: "s = (p, objs)" by (cases s)
  show ?thesis
  proof (cases t)
    case (Enter i pe)
    have c: "client_at i cs = Some No_object" "fresh pe s" using assms(2) Enter by (auto split: if_splits)
    show ?thesis
    proof (cases "pl_free_q p")
      case Nil
      then obtain s1 found pobj ret where r: "region1_create pe pa s = (s1, found, pobj, Some ret)"
        and e: "s' = s1" "cs' = cs[i := (case found of Some a \<Rightarrow> Holds a | None \<Rightarrow> Waits)]"
        using assms(2) Enter s by (auto split: if_splits prod.splits option.splits)
      then show ?thesis using pool_inv_enter [of p objs cs i pe pa s1 found pobj ret] assms(1) s c by simp
    next
      case Cons
      then show ?thesis using assms Enter s c pool_inv_waiting [of p objs cs i No_object Entering]
        by (auto split: if_splits)
    qed
  next
    case (Get i)
    then show ?thesis using assms s pool_inv_get [of s cs i] pool_inv_waiting [of p objs cs i Entering Null_object]
      by (auto split: if_splits option.splits)
  next
    case (Take i)
    then show ?thesis using assms s pool_inv_take [of p objs cs i]
      by (auto simp del: fq_wait.simps split: if_splits prod.splits option.splits)
  next
    case (Give_up i)
    then show ?thesis using assms s pool_inv_waiting [of p objs cs i Waits No_object] by (auto split: if_splits)
  next
    case (Mark i)
    then show ?thesis using assms s pool_inv_mark [of p objs cs i] by (auto split: option.splits client.splits if_splits)
  next
    case (Release i)
    then obtain a where a: "client_at i cs = Some (Holds a)" using assms(2) by (auto split: option.splits client.splits)
    from pool_inv_release [OF assms(1) [unfolded s] a] show ?thesis using assms(2) Release a s by (auto split: if_splits)
  qed
qed

lemma pool_inv_turns:
  "pool_inv s \<Longrightarrow> client_turns pa ts s = Some s' \<Longrightarrow> pool_inv s'"
proof (induction ts arbitrary: s)
  case (Cons t ts)
  then obtain s1 where "client_turn pa t s = Some s1" "client_turns pa ts s1 = Some s'" by (auto split: option.splits)
  then show ?case using Cons pool_inv_turn [of "fst s" "snd s" pa t "fst s1" "snd s1"] by simp
qed simp

text \<open>A pool that was just created, and clients without objects.\<close>

definition new_pool :: "string \<Rightarrow> bool \<Rightarrow> nat \<Rightarrow> nat \<Rightarrow> nat \<Rightarrow> poolable_methods \<Rightarrow> pool" where
  "new_pool name is_executor alloc_sz n_max_objs pobj_size m =
    pool_zero\<lparr>pl_type := GALLUS_POOL_TYPE_QUEUE, pl_is_executor := is_executor, pl_state := GALLUS_POOL_STATE_OPERATIONAL,
      pl_total_obj_size := alloc_sz, pl_name := Some name, pl_m := m, pl_pobj_size := pobj_size,
      pl_n_max := n_max_objs, pl_n_free := of_nat n_max_objs, pl_objs := replicate n_max_objs None\<rparr>"

lemma pool_create_new:
  assumes "gallus_pool_create env ce (Some None) sz (Some name) GALLUS_POOL_TYPE_QUEUE x n po m w = Some (w', Some a, GALLUS_RESULT_OK)"
  shows "\<exists>alloc_sz. pw_pools w' a = Some (new_pool name x alloc_sz n po (the m))" "pw_objs w' = pw_objs w"
proof -
  have i: "init_pool ce name GALLUS_POOL_TYPE_QUEUE x k n po m' = (p, GALLUS_RESULT_OK) \<Longrightarrow>
      p\<lparr>pl_state := GALLUS_POOL_STATE_OPERATIONAL\<rparr> = new_pool name x k n po m'" for k p m'
    by (auto simp: init_pool_def new_pool_def pool_zero_def Let_def split: if_splits)
  show "\<exists>alloc_sz. pw_pools w' a = Some (new_pool name x alloc_sz n po (the m))" "pw_objs w' = pw_objs w"
    using assms i by (auto simp: gallus_pool_create_def add_pool_def Let_def split: if_splits option.splits prod.splits)
qed

lemma pool_inv_new:
  assumes "list_all (\<lambda>c. c = No_object) cs"
  shows "pool_inv ((new_pool name x k n po m, objs), cs)"
proof -
  have "held cs = []" "taken cs = []" using assms by (induction cs) (auto simp: held_def taken_def)
  then show ?thesis by (simp add: pool_inv_iff new_pool_def pool_zero_def created_def)
qed

lemma distinct_held:
  assumes "distinct (held cs)" "client_at i cs = Some (Holds a)" "client_at j cs = Some (Holds a)"
  shows "i = j"
  using assms
proof (induction cs arbitrary: i j)
  case (Cons c cs)
  have h: "a \<in> set (held cs)" if "client_at k cs = Some (Holds a)" for k
  proof -
    have "Holds a \<in> set cs" using that by (metis client_at_def nth_mem option.distinct(1) option.inject)
    then show ?thesis by (force simp: held_def)
  qed
  show ?case
  proof (cases i; cases j)
    fix i' assume "i = Suc i'" "j = 0"
    then show ?thesis using Cons.prems h [of i'] by (auto simp: client_at_def held_def split: if_splits)
  next
    fix j' assume "i = 0" "j = Suc j'"
    then show ?thesis using Cons.prems h [of j'] by (auto simp: client_at_def held_def split: if_splits)
  next
    fix i' j' assume "i = Suc i'" "j = Suc j'"
    then show ?thesis using Cons.prems Cons.IH [of i' j'] by (auto simp: client_at_def held_def split: if_splits)
  qed simp
qed (simp add: client_at_def)


definition example_ce :: pool_create_env where
  "example_ce = \<lparr>pc_alloc = Some 9, pc_record_sz = 8, pc_name = True, pc_lock = 0, pc_objs = True, pc_cond = 0,
     pc_cond2 = 0, pc_queue = 0, pc_tbl = True\<rparr>"

definition empty_world :: pool_world where
  "empty_world = \<lparr>s_pools = Map.empty, pw_pools = Map.empty, pw_objs = Map.empty\<rparr>"

definition example_pe :: "nat \<Rightarrow> pool_env" where
  "example_pe a = \<lparr>pe_mem = Some (a, some_mem), pe_record_sz = 8, pe_locks = 0, pe_methods = good_methods, pe_destroy = []\<rparr>"

definition no_destroy :: "nat \<Rightarrow> method_env \<times> pb_wake list" where
  "no_destroy i = (good_methods, [])"

lemmas pool_example = gallus_pool_create_def init_pool_def add_pool_def example_ce_def empty_world_def example_pe_def
  pool_zero_def is_valid_string_def acquire_region1_def region1_create_def region1_get_def lock_free_def alive_def
  make_poolable_def fresh_def client_at_def take_obj_def
  pool_release_def free_one_def set_used_def objs_at_def created_def held_def Let_def

lemma example_pool_create:
  "gallus_pool_create no_destroy example_ce (Some None) 0 (Some ''p'') GALLUS_POOL_TYPE_QUEUE True 2 8 (Some all_methods) empty_world =
     Some (empty_world\<lparr>s_pools := [''p'' \<mapsto> 9], pw_pools := [9 \<mapsto> new_pool ''p'' True 8 2 8 all_methods]\<rparr>, Some 9, GALLUS_RESULT_OK)"
  by (simp add: pool_example new_pool_def)

definition example_turns :: "pool_turn list" where
  "example_turns = [Enter 0 (example_pe 10), Enter 1 (example_pe 11), Enter 2 (example_pe 12), Release 0, Enter 0 (example_pe 12),
     Get 0, Release 0, Take 2, Mark 2]"

lemma example_run:
  "\<exists>p objs. client_turns 9 example_turns ((new_pool ''p'' True 8 2 8 all_methods, Map.empty), [No_object, No_object, No_object]) =
     Some ((p, objs), [No_object, Holds 11, Holds 10])"
  by (simp add: example_turns_def pool_example new_pool_def poolable_example)


text \<open>While a client has the lock, only the waiters can take something from the queue.\<close>

fun turn_of :: "pool_turn \<Rightarrow> nat" where
  "turn_of (Enter i pe) = i"
| "turn_of (Get i) = i"
| "turn_of (Take i) = i"
| "turn_of (Give_up i) = i"
| "turn_of (Mark i) = i"
| "turn_of (Release i) = i"

lemma client_at_mem: "client_at i cs = Some c \<Longrightarrow> c \<in> set cs"
  by (auto simp: client_at_def split: if_splits)

lemma turn_while_entering:
  assumes "client_at i cs = Some Entering" "Waits \<notin> set cs" "\<forall>j. client_at j cs = Some Entering \<longrightarrow> j = i" "alive cs"
    and "client_turn pa t (s, cs) = Some s'" "turn_of t \<noteq> i"
  shows False
proof -
  have "\<not> lock_free cs" using client_at_mem [OF assms(1)] by (auto simp: lock_free_def list_all_iff)
  moreover have "client_at k cs \<noteq> Some Waits" for k using client_at_mem assms(2) by blast
  ultimately show False using assms(3,5,6) by (cases t) (auto split: if_splits option.splits client.splits)
qed



subsection \<open>What goes wrong\<close>

text \<open>
  A wakeup locks the pool of type INDEX where it should unlock it, and so does a shutdown, which calls
  it: the thread keeps the lock, and every other thread that needs it waits for good.
\<close>

lemma pool_wakeup_keeps_lock:
  assumes "pl_state p = GALLUS_POOL_STATE_OPERATIONAL" "pl_type p = GALLUS_POOL_TYPE_INDEX" "pl_n_waiters p = 0" "pl_lck p = 0"
  shows "\<exists>q. pool_wakeup [] (p, objs) = (q, Some GALLUS_RESULT_OK) \<and> pl_lck (fst q) = 2"
    and "\<exists>q r. pool_shutdown [] env lvl (p, objs) = (q, Some r) \<and> pl_lck (fst q) = 2"
  using assms by (auto simp: pool_wakeup_def pool_shutdown_def lock_pool_def unlock_pool_def Let_def split: prod.splits)

text \<open>
  The search for a free object, and a shutdown, end before the last place of a pool of type INDEX: its
  object is never found, and a pool with one object waits for good.
\<close>

lemma pool_index_last_place:
  assumes "pl_obj_idx p = 0"
  shows "find_free (p, objs) = None"
    and "pl_state p = GALLUS_POOL_STATE_OPERATIONAL \<Longrightarrow> pl_type p = GALLUS_POOL_TYPE_INDEX \<Longrightarrow>
      \<exists>q. pool_acquire pe h [] f g pa to (p, objs) = Some (q, None, Some None)"
    and "fst (for_objs f' p [0..<pl_obj_idx p] objs) = objs"
  using assms by (simp_all add: find_free_def pool_acquire_def acquire_indexed_def waiters_def)

text \<open>Without a time to wait an acquisition returns success and no object when all are in use.\<close>

lemma pool_acquire_nothing:
  assumes "pl_state p = GALLUS_POOL_STATE_OPERATIONAL" "pl_type p = GALLUS_POOL_TYPE_QUEUE" "pl_free_q p = []"
    "pl_obj_idx p = pl_n_max p"
  shows "pool_acquire pe id [] id id pa 0 (p, objs) = Some ((p, objs), Some GALLUS_RESULT_OK, Some None)"
  using assms by (simp add: pool_acquire_def acquire_queued_def acquire_region1_def region1_create_def fq_get_def)

text \<open>
  A client that has seen an element in the queue does not get it when a waiter takes it first: it writes through a
  NULL object. Both come about when an object is released while another client waits.
\<close>

lemma pool_acquire_null_object:
  "map_option snd (client_turns 9
      [Enter 0 (example_pe 10), Enter 1 (example_pe 11), Release 0, Enter 0 (example_pe 11), Take 1, Get 0]
      ((new_pool ''p'' True 8 1 8 all_methods, Map.empty), [No_object, No_object])) = Some [Null_object, Taken 10]"
  "pl_state p = GALLUS_POOL_STATE_OPERATIONAL \<Longrightarrow> pl_type p = GALLUS_POOL_TYPE_QUEUE \<Longrightarrow> pl_free_q p = [d] \<Longrightarrow>
    pool_acquire pe (\<lambda>s. (fst s\<lparr>pl_free_q := []\<rparr>, snd s)) ws f g pa to (p, objs) = None"
  by (simp_all add: pool_example new_pool_def poolable_example pool_acquire_def acquire_queued_def)

text \<open>
  When a new object can not be made the error is dropped and the client waits for the queue, without
  limit if it has none, even when the pool has no object at all.
\<close>

lemma pool_acquire_failed_waits:
  assumes "pl_state p = GALLUS_POOL_STATE_OPERATIONAL" "pl_type p = GALLUS_POOL_TYPE_QUEUE" "pl_free_q p = []"
    "pl_obj_idx p = 0" "0 < pl_n_max p" "pe_mem pe = None"
  shows "pool_acquire pe id [] id id pa (- 1) (p, objs) = Some ((p, objs), None, Some None)"
  using assms
  by (simp add: pool_acquire_def acquire_queued_def acquire_region1_def region1_create_def fq_get_def make_poolable_def
      gallus_poolable_create_with_size_def Let_def)

text \<open>
  When the set-up of a new object failed and its destruction did not free it, an acquisition without a
  time to wait returns success with that object, which is torn down.
\<close>

lemma pool_acquire_failed_object:
  "\<exists>s ob. pool_acquire ((example_pe 10)\<lparr>pe_methods := good_methods\<lparr>me_setup := GALLUS_RESULT_NO_MEMORY\<rparr>,
         pe_destroy := wakes [(GALLUS_RESULT_OK, [Act_teardown good_methods False []])]\<rparr>) id [] id id 9 0
       (new_pool ''p'' True 8 2 8 all_methods, Map.empty) = Some (s, Some GALLUS_RESULT_OK, Some (Some 10)) \<and>
     snd s 10 = Some ob \<and> pb_is_torndown ob"
  by (simp add: pool_example new_pool_def poolable_example pool_acquire_def acquire_queued_def fq_get_def
      poolable_destroy_def wakes_def)

text \<open>A pool of type QUEUE takes an object back twice, and gives it to two clients then.\<close>

lemma pool_release_twice:
  assumes "pl_state p = GALLUS_POOL_STATE_OPERATIONAL" "pl_type p = GALLUS_POOL_TYPE_QUEUE" "pl_free_q p = []" "1 < pl_n_max p"
  shows "\<exists>s s'. pool_release [] a (p, objs) = (s, Some GALLUS_RESULT_OK) \<and>
    pool_release [] a s = (s', Some GALLUS_RESULT_OK) \<and> pl_free_q (fst s') = [a, a] \<and>
    pl_n_free (fst s') = pl_n_free p + 2"
  using assms by (simp add: pool_release_def free_one_def)

text \<open>
  Creating a pool with a name that is taken fails, and its destruction removes the name, which belongs
  to the other pool.
\<close>

lemma pool_create_unregisters:
  "\<exists>w w'. gallus_pool_create no_destroy example_ce (Some None) 0 (Some ''p'') GALLUS_POOL_TYPE_QUEUE True 2 8 (Some all_methods)
       empty_world = Some (w, Some 9, GALLUS_RESULT_OK) \<and>
     gallus_pool_create no_destroy (example_ce\<lparr>pc_alloc := Some 10\<rparr>) (Some None) 0 (Some ''p'') GALLUS_POOL_TYPE_QUEUE True 2 8
       (Some all_methods) w = Some (w', None, GALLUS_RESULT_ALREADY_EXISTS) \<and>
     pw_pools w' 9 \<noteq> None \<and> gallus_pool_get_pool (Some ''p'') w' = (Some None, GALLUS_RESULT_NOT_FOUND)"
  by (simp add: pool_example gallus_pool_destroy_def gallus_pool_get_pool_def numeral_2_eq_2)

text \<open>
  The number of outstanding objects is the number of free ones; a cancellation of a pool without objects
  fails; a place that does not exist is reported as a pool that is not operational.
\<close>

lemma pool_results:
  "gallus_pool_create env ce (Some None) sz (Some name) GALLUS_POOL_TYPE_QUEUE x 2 po m w = Some (w', Some a, GALLUS_RESULT_OK) \<Longrightarrow>
     \<exists>p. pw_pools w' a = Some p \<and> pool_outstanding p = 2"
  "pl_state p = GALLUS_POOL_STATE_OPERATIONAL \<Longrightarrow> pl_obj_idx p = 0 \<Longrightarrow> \<not> pl_is_cancelled p \<Longrightarrow>
     pool_cancel env' (p, objs) = ((p, objs), GALLUS_RESULT_ANY_FAILURES)"
  "pl_state p = GALLUS_POOL_STATE_OPERATIONAL \<Longrightarrow> pl_n_max p \<le> i \<Longrightarrow>
     pool_add_by_index pe pa i (p, objs) = ((p, objs), Some GALLUS_RESULT_NOT_OPERATIONAL)"
proof -
  show "\<exists>p. pw_pools w' a = Some p \<and> pool_outstanding p = 2"
    if "gallus_pool_create env ce (Some None) sz (Some name) GALLUS_POOL_TYPE_QUEUE x 2 po m w = Some (w', Some a, GALLUS_RESULT_OK)"
    using pool_create_new(1) [OF that] by (auto simp: pool_outstanding_def new_pool_def)
qed (simp_all add: pool_cancel_def pool_add_by_index_def objs_result_def)

text \<open>The failing creation writes through the pointer that it has found to be NULL.\<close>

lemma pool_create_null: "gallus_pool_create env ce None sz name type x n po m w = None"
  by (simp add: gallus_pool_create_def)

text \<open>Making an object whose set-up fails waits for its end, with the lock of the pool.\<close>

lemma pool_make_hangs:
  assumes "gallus_poolable_create_with_size (map_option snd (pe_mem pe)) (pe_record_sz pe) (pe_locks pe) (pe_methods pe)
      (Some None) (pl_is_executor p) (Some (pl_m p)) (pl_pobj_size p) = Some (Some ob, GALLUS_RESULT_OK)"
    and "pb_st ob = GALLUS_POOLABLE_STATE_CONSTRUCTED" "\<not> pb_is_torndown ob" "pm_setup (pb_methods ob) \<noteq> None"
    and "me_setup (pe_methods pe) \<noteq> GALLUS_RESULT_OK" "list_all (\<lambda>w. w = (GALLUS_RESULT_OK, id)) (pe_destroy pe)"
  shows "make_poolable pe i p = None"
    and "pl_state p = GALLUS_POOL_STATE_OPERATIONAL \<Longrightarrow> pl_type p = GALLUS_POOL_TYPE_QUEUE \<Longrightarrow> pl_free_q p = [] \<Longrightarrow>
      pl_obj_idx p < pl_n_max p \<Longrightarrow>
      \<exists>q. pool_acquire pe h ws f g pa to (p, objs) = Some (q, None, Some None) \<and> pl_lck (fst q) = pl_lck p + 1"
proof -
  show m: "make_poolable pe i p = None" for i
  proof -
    define ob' where "ob' = fst (poolable_setup (pe_methods pe) (ob\<lparr>pb_obj_idx := i\<rparr>))"
    have s: "poolable_setup (pe_methods pe) (ob\<lparr>pb_obj_idx := i\<rparr>) = (ob', me_setup (pe_methods pe))"
      "pb_st ob' = GALLUS_POOLABLE_STATE_CONSTRUCTED" "\<not> pb_is_torndown ob'"
      using assms(2-5) by (auto simp: ob'_def poolable_setup_def call_method_def Let_def)
    then have "fst (poolable_destroy (pe_methods pe) (pe_destroy pe) ob') = None"
      using poolable_failed_setup_hangs assms(6) by blast
    then show ?thesis using assms(1,5) s(1) by (auto simp: make_poolable_def split: prod.splits)
  qed
  show "\<exists>q. pool_acquire pe h ws f g pa to (p, objs) = Some (q, None, Some None) \<and> pl_lck (fst q) = pl_lck p + 1"
    if "pl_state p = GALLUS_POOL_STATE_OPERATIONAL" "pl_type p = GALLUS_POOL_TYPE_QUEUE" "pl_free_q p = []" "pl_obj_idx p < pl_n_max p"
    using that m by (simp add: pool_acquire_def acquire_queued_def acquire_region1_def region1_create_def lock_pool_def)
qed

end
