(* ===== verification/Lock.thy ===== *)
theory Lock
  imports Chrono
begin

text \<open>
  Locks, condition variables and barriers (\<^verbatim>\<open>framework/lib/lock.c\<close>) and the spin locks of
  \<^verbatim>\<open>gallus_lock.h\<close>.

  The POSIX objects under them have the behaviour POSIX and glibc document: a mutex has an owner and,
  when it is recursive, a count; a read-write lock has its readers and its writer. A call that has to
  wait is the value None: the thread has not returned yet and the call is made again when the lock may
  have become free. A thread is a number, and \<open>t\<close> is the calling thread. A handle
  (\<^verbatim>\<open>gallus_mutex_t *\<close>) is None when it is NULL and \<open>Some None\<close> when it points to NULL.
  The allocation succeeds when \<open>mem\<close>, and \<open>st\<close> is what the POSIX initialization returns.
\<close>

abbreviation (input) EPERM :: int where "EPERM \<equiv> 1"
abbreviation (input) EINTR :: int where "EINTR \<equiv> 4"
abbreviation (input) EAGAIN :: int where "EAGAIN \<equiv> 11"
abbreviation (input) EBUSY :: int where "EBUSY \<equiv> 16"
abbreviation (input) EINVAL :: int where "EINVAL \<equiv> 22"
abbreviation (input) EDEADLK :: int where "EDEADLK \<equiv> 35"
abbreviation (input) ETIMEDOUT :: int where "ETIMEDOUT \<equiv> 110"
abbreviation (input) PTHREAD_CANCEL_ENABLE :: int where "PTHREAD_CANCEL_ENABLE \<equiv> 0"
abbreviation (input) PTHREAD_CANCEL_DISABLE :: int where "PTHREAD_CANCEL_DISABLE \<equiv> 1"
abbreviation (input) PTHREAD_BARRIER_SERIAL_THREAD :: int where "PTHREAD_BARRIER_SERIAL_THREAD \<equiv> - 1"

section \<open>The POSIX objects\<close>

record pthread_mutex =
  px_recursive :: bool
  px_owner :: "nat option"
  px_count :: nat

definition pthread_mutex_of :: "bool \<Rightarrow> pthread_mutex" where
  "pthread_mutex_of recur = \<lparr>px_recursive = recur, px_owner = None, px_count = 0\<rparr>"

definition mutex_max_count :: nat where
  "mutex_max_count = 4294967295"

definition mutex_take :: "nat \<Rightarrow> pthread_mutex \<Rightarrow> (int \<times> pthread_mutex) option" where
  "mutex_take t x =
    (case px_owner x of
       None \<Rightarrow> Some (0, x\<lparr>px_owner := Some t, px_count := 1\<rparr>)
     | Some u \<Rightarrow>
         if px_recursive x \<and> u = t then
           (if px_count x = mutex_max_count then Some (EAGAIN, x) else Some (0, x\<lparr>px_count := px_count x + 1\<rparr>))
         else None)"

definition pthread_mutex_lock :: "nat \<Rightarrow> pthread_mutex \<Rightarrow> (int \<times> pthread_mutex) option" where
  "pthread_mutex_lock t x = mutex_take t x"

definition pthread_mutex_trylock :: "nat \<Rightarrow> pthread_mutex \<Rightarrow> int \<times> pthread_mutex" where
  "pthread_mutex_trylock t x = (case mutex_take t x of None \<Rightarrow> (EBUSY, x) | Some r \<Rightarrow> r)"

text \<open>A time of the clock, in nanoseconds, is at or after a deadline.\<close>

definition deadline_passed :: "int \<Rightarrow> timespec \<Rightarrow> bool" where
  "deadline_passed clock ts \<longleftrightarrow> tv_sec ts * 1000000000 + tv_nsec ts \<le> clock"

definition valid_deadline :: "timespec \<Rightarrow> bool" where
  "valid_deadline ts \<longleftrightarrow> 0 \<le> tv_nsec ts \<and> tv_nsec ts < 1000000000"

definition timed_take :: "int \<Rightarrow> timespec \<Rightarrow> (int \<times> 'x) option \<Rightarrow> 'x \<Rightarrow> (int \<times> 'x) option" where
  "timed_take clock ts r x =
    (case r of
       Some r \<Rightarrow> Some r
     | None \<Rightarrow>
         if \<not> valid_deadline ts then Some (EINVAL, x)
         else if deadline_passed clock ts then Some (ETIMEDOUT, x) else None)"

definition pthread_mutex_timedlock :: "nat \<Rightarrow> int \<Rightarrow> timespec \<Rightarrow> pthread_mutex \<Rightarrow> (int \<times> pthread_mutex) option" where
  "pthread_mutex_timedlock t clock ts x = timed_take clock ts (mutex_take t x) x"

definition pthread_mutex_unlock :: "nat \<Rightarrow> pthread_mutex \<Rightarrow> (int \<times> pthread_mutex) option" where
  "pthread_mutex_unlock t x =
    Some (if px_recursive x then
            (if px_owner x \<noteq> Some t then (EPERM, x)
             else if px_count x = 1 then (0, x\<lparr>px_owner := None, px_count := 0\<rparr>)
             else (0, x\<lparr>px_count := px_count x - 1\<rparr>))
          else (0, x\<lparr>px_owner := None, px_count := 0\<rparr>))"

record pthread_rwlock =
  rx_readers :: "nat list"
  rx_writer :: "nat option"

definition rwlock_read :: "nat \<Rightarrow> pthread_rwlock \<Rightarrow> (int \<times> pthread_rwlock) option" where
  "rwlock_read t x =
    (case rx_writer x of
       None \<Rightarrow> Some (0, x\<lparr>rx_readers := t # rx_readers x\<rparr>)
     | Some u \<Rightarrow> if u = t then Some (EDEADLK, x) else None)"

definition rwlock_write :: "nat \<Rightarrow> pthread_rwlock \<Rightarrow> (int \<times> pthread_rwlock) option" where
  "rwlock_write t x =
    (case rx_writer x of
       None \<Rightarrow> if rx_readers x = [] then Some (0, x\<lparr>rx_writer := Some t\<rparr>) else None
     | Some u \<Rightarrow> if u = t then Some (EDEADLK, x) else None)"

text \<open>A try meets a held lock with \<open>EBUSY\<close>, also the one its own thread holds.\<close>

definition rwlock_try :: "(int \<times> pthread_rwlock) option \<Rightarrow> pthread_rwlock \<Rightarrow> (int \<times> pthread_rwlock) option" where
  "rwlock_try r x = (case r of Some (st, y) \<Rightarrow> if st = 0 then Some (0, y) else Some (EBUSY, x) | None \<Rightarrow> Some (EBUSY, x))"

definition pthread_rwlock_unlock :: "nat \<Rightarrow> pthread_rwlock \<Rightarrow> (int \<times> pthread_rwlock) option" where
  "pthread_rwlock_unlock t x =
    Some (if rx_writer x = Some t then (0, x\<lparr>rx_writer := None\<rparr>)
          else if t \<in> set (rx_readers x) then (0, x\<lparr>rx_readers := remove1 t (rx_readers x)\<rparr>)
          else (EPERM, x))"

section \<open>Results\<close>

definition posix_result :: "int \<Rightarrow> gallus_result_t" where
  "posix_result st = (if st = 0 then GALLUS_RESULT_OK else GALLUS_RESULT_POSIX_API_ERROR)"

definition posix_try_result :: "int \<Rightarrow> gallus_result_t" where
  "posix_try_result st =
    (if st = 0 then GALLUS_RESULT_OK
     else if st = EBUSY then GALLUS_RESULT_BUSY else GALLUS_RESULT_POSIX_API_ERROR)"

definition posix_timed_result :: "int \<Rightarrow> gallus_result_t" where
  "posix_timed_result st =
    (if st = 0 then GALLUS_RESULT_OK
     else if st = ETIMEDOUT then GALLUS_RESULT_TIMEDOUT else GALLUS_RESULT_POSIX_API_ERROR)"

text \<open>The deadline of a wait that starts \<open>now\<close>: the addition is one of \<^verbatim>\<open>int64_t\<close>.\<close>

definition wait_deadline :: "gallus_chrono_t \<Rightarrow> gallus_chrono_t \<Rightarrow> timespec" where
  "wait_deadline now nsec = NSEC_TO_TS (s64 (now + nsec))"

section \<open>Mutexes\<close>

datatype gallus_mutex_type = GALLUS_MUTEX_TYPE_DEFAULT | GALLUS_MUTEX_TYPE_RECURSIVE

record gallus_mutex =
  m_mtx :: pthread_mutex
  m_creator_pid :: int
  m_type :: gallus_mutex_type

text \<open>The result, and the value of the handle afterwards; the caller may pass the NULL handle.\<close>

definition s_create_mutex ::
  "bool \<Rightarrow> int \<Rightarrow> int \<Rightarrow> gallus_mutex option option \<Rightarrow> gallus_mutex_type \<Rightarrow> gallus_result_t \<times> gallus_mutex option option" where
  "s_create_mutex mem st getpid mtxptr type =
    (case mtxptr of
       None \<Rightarrow> (GALLUS_RESULT_INVALID_ARGS, None)
     | Some _ \<Rightarrow>
         if \<not> mem then (GALLUS_RESULT_NO_MEMORY, Some None)
         else if st = 0 then
           (GALLUS_RESULT_OK,
            Some (Some \<lparr>m_mtx = pthread_mutex_of (type = GALLUS_MUTEX_TYPE_RECURSIVE),
                        m_creator_pid = getpid, m_type = type\<rparr>))
         else (GALLUS_RESULT_POSIX_API_ERROR, Some None))"

definition gallus_mutex_create ::
  "bool \<Rightarrow> int \<Rightarrow> int \<Rightarrow> gallus_mutex option option \<Rightarrow> gallus_result_t \<times> gallus_mutex option option" where
  "gallus_mutex_create mem st getpid mtxptr = s_create_mutex mem st getpid mtxptr GALLUS_MUTEX_TYPE_DEFAULT"

definition gallus_mutex_create_recursive ::
  "bool \<Rightarrow> int \<Rightarrow> int \<Rightarrow> gallus_mutex option option \<Rightarrow> gallus_result_t \<times> gallus_mutex option option" where
  "gallus_mutex_create_recursive mem st getpid mtxptr =
     s_create_mutex mem st getpid mtxptr GALLUS_MUTEX_TYPE_RECURSIVE"

text \<open>Destroying: whether \<^verbatim>\<open>pthread_mutex_destroy\<close> is called, and the handle.\<close>

definition gallus_mutex_destroy :: "int \<Rightarrow> gallus_mutex option option \<Rightarrow> bool \<times> gallus_mutex option option" where
  "gallus_mutex_destroy getpid mtxptr =
    (case mtxptr of
       Some (Some m) \<Rightarrow> (m_creator_pid m = getpid, Some None)
     | _ \<Rightarrow> (False, mtxptr))"

definition gallus_mutex_reinitialize ::
  "int \<Rightarrow> gallus_mutex option option \<Rightarrow> gallus_result_t \<times> gallus_mutex option option" where
  "gallus_mutex_reinitialize st mtxptr =
    (case mtxptr of
       Some (Some m) \<Rightarrow>
         if st = 0 then
           (GALLUS_RESULT_OK,
            Some (Some (m\<lparr>m_mtx := pthread_mutex_of (m_type m = GALLUS_MUTEX_TYPE_RECURSIVE)\<rparr>)))
         else (GALLUS_RESULT_POSIX_API_ERROR, mtxptr)
     | _ \<Rightarrow> (GALLUS_RESULT_INVALID_ARGS, mtxptr))"

definition gallus_mutex_get_type ::
  "gallus_mutex option option \<Rightarrow> bool \<Rightarrow> gallus_result_t \<times> gallus_mutex_type option" where
  "gallus_mutex_get_type mtxptr tptr =
    (case mtxptr of
       Some (Some m) \<Rightarrow>
         if tptr then (GALLUS_RESULT_OK, Some (m_type m)) else (GALLUS_RESULT_INVALID_ARGS, None)
     | _ \<Rightarrow> (GALLUS_RESULT_INVALID_ARGS, None))"

text \<open>
  A call on the mutex of a handle: None while it waits. \<open>result\<close> is the result of what the POSIX
  function returned.
\<close>

definition on_mutex ::
  "gallus_mutex option option \<Rightarrow> (pthread_mutex \<Rightarrow> (int \<times> pthread_mutex) option) \<Rightarrow>
   (int \<Rightarrow> gallus_result_t) \<Rightarrow> (gallus_result_t \<times> gallus_mutex option option) option" where
  "on_mutex mtxptr f result =
    (case mtxptr of
       Some (Some m) \<Rightarrow>
         (case f (m_mtx m) of
            Some (st, x) \<Rightarrow> Some (result st, Some (Some (m\<lparr>m_mtx := x\<rparr>)))
          | None \<Rightarrow> None)
     | _ \<Rightarrow> Some (GALLUS_RESULT_INVALID_ARGS, mtxptr))"

definition gallus_mutex_lock ::
  "nat \<Rightarrow> gallus_mutex option option \<Rightarrow> (gallus_result_t \<times> gallus_mutex option option) option" where
  "gallus_mutex_lock t mtxptr = on_mutex mtxptr (pthread_mutex_lock t) posix_result"

definition gallus_mutex_trylock ::
  "nat \<Rightarrow> gallus_mutex option option \<Rightarrow> (gallus_result_t \<times> gallus_mutex option option) option" where
  "gallus_mutex_trylock t mtxptr = on_mutex mtxptr (Some \<circ> pthread_mutex_trylock t) posix_try_result"

text \<open>\<open>now\<close> is the time of the call and \<open>clock\<close> the time at which it is looked at.\<close>

definition gallus_mutex_timedlock ::
  "nat \<Rightarrow> int \<Rightarrow> int \<Rightarrow> gallus_mutex option option \<Rightarrow> gallus_chrono_t \<Rightarrow>
   (gallus_result_t \<times> gallus_mutex option option) option" where
  "gallus_mutex_timedlock t now clock mtxptr nsec =
    (if nsec < 0 then on_mutex mtxptr (pthread_mutex_lock t) posix_result
     else on_mutex mtxptr (pthread_mutex_timedlock t clock (wait_deadline now nsec)) posix_timed_result)"

definition gallus_mutex_unlock ::
  "nat \<Rightarrow> gallus_mutex option option \<Rightarrow> (gallus_result_t \<times> gallus_mutex option option) option" where
  "gallus_mutex_unlock t mtxptr = on_mutex mtxptr (pthread_mutex_unlock t) posix_result"

section \<open>Critical sections\<close>

text \<open>
  The cancellation of a thread: whether it is enabled, whether it was requested, and whether the
  thread ended by it.
\<close>

record cancel_ctl =
  cc_state :: int
  cc_requested :: bool
  cc_ended :: bool

definition pthread_setcancelstate :: "int \<Rightarrow> cancel_ctl \<Rightarrow> int \<times> int \<times> cancel_ctl" where
  "pthread_setcancelstate s c = (0, cc_state c, c\<lparr>cc_state := s\<rparr>)"

definition pthread_testcancel :: "cancel_ctl \<Rightarrow> cancel_ctl" where
  "pthread_testcancel c =
    (if cc_requested c \<and> cc_state c = PTHREAD_CANCEL_ENABLE then c\<lparr>cc_ended := True\<rparr> else c)"

text \<open>
  Entering: the result, the lock, what is stored in \<open>*ostateptr\<close> and the cancellation of the
  thread, with \<open>lock\<close> what the POSIX call on the lock \<open>x\<close> gives. Cancellation is switched off
  before the lock is waited for.
\<close>

definition enter_critical_on ::
  "(int \<times> 'x) option \<Rightarrow> 'x \<Rightarrow> cancel_ctl \<Rightarrow> (gallus_result_t \<times> 'x \<times> int option \<times> cancel_ctl) option" where
  "enter_critical_on lock x c =
    (let (st, ostate, c) = pthread_setcancelstate PTHREAD_CANCEL_DISABLE c in
     if st = 0 then
       (case lock of
          Some (st, x) \<Rightarrow> Some (posix_result st, x, Some ostate, c)
        | None \<Rightarrow> None)
     else Some (GALLUS_RESULT_POSIX_API_ERROR, x, Some ostate, c))"

definition gallus_mutex_enter_critical ::
  "nat \<Rightarrow> gallus_mutex option option \<Rightarrow> bool \<Rightarrow> cancel_ctl \<Rightarrow>
   (gallus_result_t \<times> gallus_mutex option option \<times> int option \<times> cancel_ctl) option" where
  "gallus_mutex_enter_critical t mtxptr ostateptr c =
    (case mtxptr of
       Some (Some m) \<Rightarrow>
         if ostateptr then
           map_option (\<lambda>(ret, x, ostate, c). (ret, Some (Some (m\<lparr>m_mtx := x\<rparr>)), ostate, c))
             (enter_critical_on (pthread_mutex_lock t (m_mtx m)) (m_mtx m) c)
         else Some (GALLUS_RESULT_INVALID_ARGS, mtxptr, None, c)
     | _ \<Rightarrow> Some (GALLUS_RESULT_INVALID_ARGS, mtxptr, None, c))"

text \<open>Leaving: unlock first, then restore the state of the cancellation, and end here when it is due.\<close>

definition leave_critical_on ::
  "(int \<times> 'x) option \<Rightarrow> int \<Rightarrow> cancel_ctl \<Rightarrow> (gallus_result_t \<times> 'x \<times> cancel_ctl) option" where
  "leave_critical_on unlock ostate c =
    (case unlock of
       None \<Rightarrow> None
     | Some (st, x) \<Rightarrow>
         if st = 0 then
           (let (st, _, c) = pthread_setcancelstate ostate c in
            if st = 0 then
              Some (GALLUS_RESULT_OK, x, if ostate = PTHREAD_CANCEL_ENABLE then pthread_testcancel c else c)
            else Some (GALLUS_RESULT_POSIX_API_ERROR, x, c))
         else Some (GALLUS_RESULT_POSIX_API_ERROR, x, c))"

definition gallus_mutex_leave_critical ::
  "nat \<Rightarrow> gallus_mutex option option \<Rightarrow> int \<Rightarrow> cancel_ctl \<Rightarrow>
   (gallus_result_t \<times> gallus_mutex option option \<times> cancel_ctl) option" where
  "gallus_mutex_leave_critical t mtxptr ostate c =
    (case mtxptr of
       Some (Some m) \<Rightarrow>
         if ostate = PTHREAD_CANCEL_ENABLE \<or> ostate = PTHREAD_CANCEL_DISABLE then
           map_option (\<lambda>(ret, x, c). (ret, Some (Some (m\<lparr>m_mtx := x\<rparr>)), c))
             (leave_critical_on (pthread_mutex_unlock t (m_mtx m)) ostate c)
         else Some (GALLUS_RESULT_INVALID_ARGS, mtxptr, c)
     | _ \<Rightarrow> Some (GALLUS_RESULT_INVALID_ARGS, mtxptr, c))"

section \<open>Read-write locks\<close>

record gallus_rwlock =
  m_rwl :: pthread_rwlock
  rw_creator_pid :: int

definition new_rwlock :: pthread_rwlock where
  "new_rwlock = \<lparr>rx_readers = [], rx_writer = None\<rparr>"

definition gallus_rwlock_create ::
  "bool \<Rightarrow> int \<Rightarrow> int \<Rightarrow> gallus_rwlock option option \<Rightarrow> gallus_result_t \<times> gallus_rwlock option option" where
  "gallus_rwlock_create mem st getpid rwlptr =
    (case rwlptr of
       None \<Rightarrow> (GALLUS_RESULT_INVALID_ARGS, None)
     | Some _ \<Rightarrow>
         if \<not> mem then (GALLUS_RESULT_NO_MEMORY, Some None)
         else if st = 0 then
           (GALLUS_RESULT_OK, Some (Some \<lparr>m_rwl = new_rwlock, rw_creator_pid = getpid\<rparr>))
         else (GALLUS_RESULT_POSIX_API_ERROR, Some None))"

definition gallus_rwlock_destroy :: "int \<Rightarrow> gallus_rwlock option option \<Rightarrow> bool \<times> gallus_rwlock option option" where
  "gallus_rwlock_destroy getpid rwlptr =
    (case rwlptr of
       Some (Some l) \<Rightarrow> (rw_creator_pid l = getpid, Some None)
     | _ \<Rightarrow> (False, rwlptr))"

definition gallus_rwlock_reinitialize ::
  "int \<Rightarrow> gallus_rwlock option option \<Rightarrow> gallus_result_t \<times> gallus_rwlock option option" where
  "gallus_rwlock_reinitialize st rwlptr =
    (case rwlptr of
       Some (Some l) \<Rightarrow>
         if st = 0 then (GALLUS_RESULT_OK, Some (Some (l\<lparr>m_rwl := new_rwlock\<rparr>)))
         else (GALLUS_RESULT_POSIX_API_ERROR, rwlptr)
     | _ \<Rightarrow> (GALLUS_RESULT_INVALID_ARGS, rwlptr))"

definition on_rwlock ::
  "gallus_rwlock option option \<Rightarrow> (pthread_rwlock \<Rightarrow> (int \<times> pthread_rwlock) option) \<Rightarrow>
   (int \<Rightarrow> gallus_result_t) \<Rightarrow> (gallus_result_t \<times> gallus_rwlock option option) option" where
  "on_rwlock rwlptr f result =
    (case rwlptr of
       Some (Some l) \<Rightarrow>
         (case f (m_rwl l) of
            Some (st, x) \<Rightarrow> Some (result st, Some (Some (l\<lparr>m_rwl := x\<rparr>)))
          | None \<Rightarrow> None)
     | _ \<Rightarrow> Some (GALLUS_RESULT_INVALID_ARGS, rwlptr))"

definition rwlock_timed ::
  "(pthread_rwlock \<Rightarrow> (int \<times> pthread_rwlock) option) \<Rightarrow> int \<Rightarrow> timespec \<Rightarrow> pthread_rwlock \<Rightarrow>
   (int \<times> pthread_rwlock) option" where
  "rwlock_timed f clock ts x = timed_take clock ts (f x) x"

definition gallus_rwlock_reader_lock ::
  "nat \<Rightarrow> gallus_rwlock option option \<Rightarrow> (gallus_result_t \<times> gallus_rwlock option option) option" where
  "gallus_rwlock_reader_lock t rwlptr = on_rwlock rwlptr (rwlock_read t) posix_result"

definition gallus_rwlock_reader_trylock ::
  "nat \<Rightarrow> gallus_rwlock option option \<Rightarrow> (gallus_result_t \<times> gallus_rwlock option option) option" where
  "gallus_rwlock_reader_trylock t rwlptr = on_rwlock rwlptr (\<lambda>x. rwlock_try (rwlock_read t x) x) posix_try_result"

definition gallus_rwlock_reader_timedlock ::
  "nat \<Rightarrow> int \<Rightarrow> int \<Rightarrow> gallus_rwlock option option \<Rightarrow> gallus_chrono_t \<Rightarrow>
   (gallus_result_t \<times> gallus_rwlock option option) option" where
  "gallus_rwlock_reader_timedlock t now clock rwlptr nsec =
    (if nsec < 0 then on_rwlock rwlptr (rwlock_read t) posix_result
     else on_rwlock rwlptr (rwlock_timed (rwlock_read t) clock (wait_deadline now nsec)) posix_timed_result)"

definition gallus_rwlock_writer_lock ::
  "nat \<Rightarrow> gallus_rwlock option option \<Rightarrow> (gallus_result_t \<times> gallus_rwlock option option) option" where
  "gallus_rwlock_writer_lock t rwlptr = on_rwlock rwlptr (rwlock_write t) posix_result"

definition gallus_rwlock_writer_trylock ::
  "nat \<Rightarrow> gallus_rwlock option option \<Rightarrow> (gallus_result_t \<times> gallus_rwlock option option) option" where
  "gallus_rwlock_writer_trylock t rwlptr = on_rwlock rwlptr (\<lambda>x. rwlock_try (rwlock_write t x) x) posix_try_result"

definition gallus_rwlock_writer_timedlock ::
  "nat \<Rightarrow> int \<Rightarrow> int \<Rightarrow> gallus_rwlock option option \<Rightarrow> gallus_chrono_t \<Rightarrow>
   (gallus_result_t \<times> gallus_rwlock option option) option" where
  "gallus_rwlock_writer_timedlock t now clock rwlptr nsec =
    (if nsec < 0 then on_rwlock rwlptr (rwlock_write t) posix_result
     else on_rwlock rwlptr (rwlock_timed (rwlock_write t) clock (wait_deadline now nsec)) posix_timed_result)"

definition gallus_rwlock_unlock ::
  "nat \<Rightarrow> gallus_rwlock option option \<Rightarrow> (gallus_result_t \<times> gallus_rwlock option option) option" where
  "gallus_rwlock_unlock t rwlptr = on_rwlock rwlptr (pthread_rwlock_unlock t) posix_result"

definition gallus_rwlock_reader_enter_critical ::
  "nat \<Rightarrow> gallus_rwlock option option \<Rightarrow> bool \<Rightarrow> cancel_ctl \<Rightarrow>
   (gallus_result_t \<times> gallus_rwlock option option \<times> int option \<times> cancel_ctl) option" where
  "gallus_rwlock_reader_enter_critical t rwlptr ostateptr c =
    (case rwlptr of
       Some (Some l) \<Rightarrow>
         if ostateptr then
           map_option (\<lambda>(ret, x, ostate, c). (ret, Some (Some (l\<lparr>m_rwl := x\<rparr>)), ostate, c))
             (enter_critical_on (rwlock_read t (m_rwl l)) (m_rwl l) c)
         else Some (GALLUS_RESULT_INVALID_ARGS, rwlptr, None, c)
     | _ \<Rightarrow> Some (GALLUS_RESULT_INVALID_ARGS, rwlptr, None, c))"

definition gallus_rwlock_writer_enter_critical ::
  "nat \<Rightarrow> gallus_rwlock option option \<Rightarrow> bool \<Rightarrow> cancel_ctl \<Rightarrow>
   (gallus_result_t \<times> gallus_rwlock option option \<times> int option \<times> cancel_ctl) option" where
  "gallus_rwlock_writer_enter_critical t rwlptr ostateptr c =
    (case rwlptr of
       Some (Some l) \<Rightarrow>
         if ostateptr then
           map_option (\<lambda>(ret, x, ostate, c). (ret, Some (Some (l\<lparr>m_rwl := x\<rparr>)), ostate, c))
             (enter_critical_on (rwlock_write t (m_rwl l)) (m_rwl l) c)
         else Some (GALLUS_RESULT_INVALID_ARGS, rwlptr, None, c)
     | _ \<Rightarrow> Some (GALLUS_RESULT_INVALID_ARGS, rwlptr, None, c))"

definition gallus_rwlock_leave_critical ::
  "nat \<Rightarrow> gallus_rwlock option option \<Rightarrow> int \<Rightarrow> cancel_ctl \<Rightarrow>
   (gallus_result_t \<times> gallus_rwlock option option \<times> cancel_ctl) option" where
  "gallus_rwlock_leave_critical t rwlptr ostate c =
    (case rwlptr of
       Some (Some l) \<Rightarrow>
         if ostate = PTHREAD_CANCEL_ENABLE \<or> ostate = PTHREAD_CANCEL_DISABLE then
           map_option (\<lambda>(ret, x, c). (ret, Some (Some (l\<lparr>m_rwl := x\<rparr>)), c))
             (leave_critical_on (pthread_rwlock_unlock t (m_rwl l)) ostate c)
         else Some (GALLUS_RESULT_INVALID_ARGS, rwlptr, c)
     | _ \<Rightarrow> Some (GALLUS_RESULT_INVALID_ARGS, rwlptr, c))"

section \<open>Condition variables\<close>

record gallus_cond =
  m_cond_waiters :: "nat list"
  cd_creator_pid :: int

definition gallus_cond_create ::
  "bool \<Rightarrow> int \<Rightarrow> int \<Rightarrow> gallus_cond option option \<Rightarrow> gallus_result_t \<times> gallus_cond option option" where
  "gallus_cond_create mem st getpid cndptr =
    (case cndptr of
       None \<Rightarrow> (GALLUS_RESULT_INVALID_ARGS, None)
     | Some _ \<Rightarrow>
         if \<not> mem then (GALLUS_RESULT_NO_MEMORY, Some None)
         else if st = 0 then (GALLUS_RESULT_OK, Some (Some \<lparr>m_cond_waiters = [], cd_creator_pid = getpid\<rparr>))
         else (GALLUS_RESULT_POSIX_API_ERROR, Some None))"

definition gallus_cond_destroy :: "int \<Rightarrow> gallus_cond option option \<Rightarrow> bool \<times> gallus_cond option option" where
  "gallus_cond_destroy getpid cndptr =
    (case cndptr of
       Some (Some c) \<Rightarrow> (cd_creator_pid c = getpid, Some None)
     | _ \<Rightarrow> (False, cndptr))"

text \<open>
  Waiting: one entry of \<open>sts\<close> for each call of the POSIX wait, its result; None when the last of them
  has not returned. With the result come the deadlines of the calls, None for one without.
\<close>

fun timedwait_loop :: "timespec \<Rightarrow> int list \<Rightarrow> gallus_result_t option \<times> timespec option list" where
  "timedwait_loop ts [] = (None, [Some ts])"
| "timedwait_loop ts (st # sts) =
    (if st = 0 then (Some GALLUS_RESULT_OK, [Some ts])
     else if st = EINTR then (let (ret, calls) = timedwait_loop ts sts in (ret, Some ts # calls))
     else if st = ETIMEDOUT then (Some GALLUS_RESULT_TIMEDOUT, [Some ts])
     else (Some GALLUS_RESULT_POSIX_API_ERROR, [Some ts]))"

definition gallus_cond_wait ::
  "gallus_chrono_t \<Rightarrow> int list \<Rightarrow> gallus_cond option option \<Rightarrow> gallus_mutex option option \<Rightarrow> gallus_chrono_t \<Rightarrow>
   gallus_result_t option \<times> timespec option list" where
  "gallus_cond_wait now sts cndptr mtxptr nsec =
    (case (mtxptr, cndptr) of
       (Some (Some _), Some (Some _)) \<Rightarrow>
         if nsec < 0 then
           (case sts of
              [] \<Rightarrow> (None, [None])
            | st # _ \<Rightarrow> (Some (posix_result st), [None]))
         else timedwait_loop (wait_deadline now nsec) sts
     | _ \<Rightarrow> (Some GALLUS_RESULT_INVALID_ARGS, []))"

text \<open>Notifying: the waiting threads that are woken, the first of them or all.\<close>

definition gallus_cond_notify ::
  "gallus_cond option option \<Rightarrow> bool \<Rightarrow> gallus_result_t \<times> nat list \<times> gallus_cond option option" where
  "gallus_cond_notify cndptr for_all =
    (case cndptr of
       Some (Some c) \<Rightarrow>
         if for_all then (GALLUS_RESULT_OK, m_cond_waiters c, Some (Some (c\<lparr>m_cond_waiters := []\<rparr>)))
         else (GALLUS_RESULT_OK, take 1 (m_cond_waiters c),
               Some (Some (c\<lparr>m_cond_waiters := drop 1 (m_cond_waiters c)\<rparr>)))
     | _ \<Rightarrow> (GALLUS_RESULT_INVALID_ARGS, [], cndptr))"

section \<open>Barriers\<close>

record pthread_barrier =
  pb_count :: "32 word"
  pb_arrived :: nat

record gallus_barrier =
  m_barrier :: pthread_barrier
  br_creator_pid :: int

text \<open>The number of threads is a \<^verbatim>\<open>size_t\<close> that is cast to \<^verbatim>\<open>unsigned\<close>.\<close>

definition pthread_barrier_init :: "32 word \<Rightarrow> int \<times> pthread_barrier" where
  "pthread_barrier_init n = (if n = 0 then EINVAL else 0, \<lparr>pb_count = n, pb_arrived = 0\<rparr>)"

definition gallus_barrier_create ::
  "bool \<Rightarrow> int \<Rightarrow> gallus_barrier option option \<Rightarrow> 64 word \<Rightarrow> gallus_result_t \<times> gallus_barrier option option" where
  "gallus_barrier_create mem getpid bptr n =
    (case bptr of
       None \<Rightarrow> (GALLUS_RESULT_INVALID_ARGS, None)
     | Some _ \<Rightarrow>
         if n > 0 then
           (if \<not> mem then (GALLUS_RESULT_NO_MEMORY, Some None)
            else (case pthread_barrier_init (ucast n) of
                    (st, x) \<Rightarrow>
                      if st = 0 then (GALLUS_RESULT_OK, Some (Some \<lparr>m_barrier = x, br_creator_pid = getpid\<rparr>))
                      else (GALLUS_RESULT_POSIX_API_ERROR, Some None)))
         else (GALLUS_RESULT_INVALID_ARGS, bptr))"

definition gallus_barrier_destroy :: "int \<Rightarrow> gallus_barrier option option \<Rightarrow> bool \<times> gallus_barrier option option" where
  "gallus_barrier_destroy getpid bptr =
    (case bptr of
       Some (Some b) \<Rightarrow> (br_creator_pid b = getpid, Some None)
     | _ \<Rightarrow> (False, bptr))"

text \<open>
  A thread arrives at a barrier: the last of a round sets the others free and is the one that gets
  \<open>PTHREAD_BARRIER_SERIAL_THREAD\<close>. \<open>gallus_barrier_wait\<close> is what a thread makes of the value it gets;
  \<open>is_master\<close> is what the caller's variable holds, None when the caller passes NULL.
\<close>

definition pthread_barrier_arrive :: "pthread_barrier \<Rightarrow> bool \<times> pthread_barrier" where
  "pthread_barrier_arrive x =
    (if pb_arrived x + 1 = unat (pb_count x) then (True, x\<lparr>pb_arrived := 0\<rparr>)
     else (False, x\<lparr>pb_arrived := pb_arrived x + 1\<rparr>))"

definition gallus_barrier_wait ::
  "int \<Rightarrow> gallus_barrier option option \<Rightarrow> bool option \<Rightarrow> gallus_result_t \<times> bool option" where
  "gallus_barrier_wait st bptr is_master =
    (case bptr of
       Some (Some _) \<Rightarrow>
         if st = 0 \<or> st = PTHREAD_BARRIER_SERIAL_THREAD then
           (GALLUS_RESULT_OK,
            if st = PTHREAD_BARRIER_SERIAL_THREAD then map_option (\<lambda>_. True) is_master else is_master)
         else (GALLUS_RESULT_POSIX_API_ERROR, is_master)
     | _ \<Rightarrow> (GALLUS_RESULT_INVALID_ARGS, is_master))"

section \<open>Spin locks\<close>

text \<open>
  The inline functions of \<^verbatim>\<open>gallus_lock.h\<close>, with the value of \<^verbatim>\<open>errno\<close> after the call. The
  lock is its owner; \<open>None\<close> as the result of locking means that the thread still spins. \<open>st\<close> is what
  the POSIX function returned, and the C code stores the value of \<^verbatim>\<open>st == 0\<close> in its variable.
\<close>

type_synonym spinlock = "nat option"

definition of_c_bool :: "bool \<Rightarrow> int" where
  "of_c_bool b = (if b then 1 else 0)"

definition spin_result :: "int \<Rightarrow> gallus_result_t \<times> int" where
  "spin_result st =
    (let v = of_c_bool (st = 0) in
     if v \<noteq> 0 then (GALLUS_RESULT_OK, 0) else (GALLUS_RESULT_POSIX_API_ERROR, v))"

definition gallus_spinlock_initialize :: "int \<Rightarrow> spinlock option \<Rightarrow> int \<Rightarrow> gallus_result_t \<times> int \<times> spinlock option" where
  "gallus_spinlock_initialize st l errno =
    (case l of
       Some _ \<Rightarrow>
         if st = 0 then (GALLUS_RESULT_OK, 0, Some None) else (GALLUS_RESULT_POSIX_API_ERROR, st, l)
     | None \<Rightarrow> (GALLUS_RESULT_INVALID_ARGS, errno, None))"

definition gallus_spinlock_lock ::
  "nat \<Rightarrow> spinlock option \<Rightarrow> int \<Rightarrow> (gallus_result_t \<times> int \<times> spinlock option) option" where
  "gallus_spinlock_lock t l errno =
    (case l of
       Some None \<Rightarrow> (let (ret, e) = spin_result 0 in Some (ret, e, Some (Some t)))
     | Some (Some _) \<Rightarrow> None
     | None \<Rightarrow> Some (GALLUS_RESULT_INVALID_ARGS, errno, None))"

definition gallus_spinlock_trylock ::
  "nat \<Rightarrow> spinlock option \<Rightarrow> int \<Rightarrow> gallus_result_t \<times> int \<times> spinlock option" where
  "gallus_spinlock_trylock t l errno =
    (case l of
       Some None \<Rightarrow> (let (ret, e) = spin_result 0 in (ret, e, Some (Some t)))
     | Some (Some u) \<Rightarrow> (let (ret, e) = spin_result EBUSY in (ret, e, l))
     | None \<Rightarrow> (GALLUS_RESULT_INVALID_ARGS, errno, None))"

definition gallus_spinlock_unlock :: "spinlock option \<Rightarrow> int \<Rightarrow> gallus_result_t \<times> int \<times> spinlock option" where
  "gallus_spinlock_unlock l errno =
    (case l of
       Some _ \<Rightarrow> (let (ret, e) = spin_result 0 in (ret, e, Some None))
     | None \<Rightarrow> (GALLUS_RESULT_INVALID_ARGS, errno, None))"

end
