(* ===== verification/Lock_Laws.thy ===== *)
theory Lock_Laws
  imports Lock
begin

text \<open>
  What the locks give: threads that enter and leave critical sections, nested as they like, exclude
  each other and are never cancelled while they hold a lock; a timed call is the plain one with a
  deadline; a barrier has one master in each round.
\<close>

section \<open>Threads in critical sections\<close>

datatype lock_obj = Mtx gallus_mutex | Rwl gallus_rwlock

text \<open>
  The locks by address, the cancellation of the threads, and for each thread the critical sections it
  is in, the innermost first, with the state that its variable \<open>o_cancel_state\<close> holds.
\<close>

record lock_world =
  lw_lock :: "nat \<Rightarrow> lock_obj"
  lw_ctl :: "nat \<Rightarrow> cancel_ctl"
  lw_in :: "nat \<Rightarrow> (nat \<times> int) list"

datatype critical_turn =
    Enter_critical nat nat
  | Reader_enter_critical nat nat
  | Writer_enter_critical nat nat
  | Leave_critical nat
  | Cancel nat
  | Cancellation_point nat

definition entered ::
  "nat \<Rightarrow> nat \<Rightarrow> gallus_result_t \<Rightarrow> lock_obj \<Rightarrow> int option \<Rightarrow> cancel_ctl \<Rightarrow> lock_world \<Rightarrow> lock_world" where
  "entered t a ret l ostate c w =
     w\<lparr>lw_lock := (lw_lock w)(a := l), lw_ctl := (lw_ctl w)(t := c),
       lw_in := (case ostate of
                   Some s \<Rightarrow> if ret = GALLUS_RESULT_OK then (lw_in w)(t := (a, s) # lw_in w t) else lw_in w
                 | None \<Rightarrow> lw_in w)\<rparr>"

definition left_critical :: "nat \<Rightarrow> nat \<Rightarrow> lock_obj \<Rightarrow> cancel_ctl \<Rightarrow> lock_world \<Rightarrow> lock_world" where
  "left_critical t a l c w =
     w\<lparr>lw_lock := (lw_lock w)(a := l), lw_ctl := (lw_ctl w)(t := c), lw_in := (lw_in w)(t := tl (lw_in w t))\<rparr>"

text \<open>A turn is None when its thread has ended, has to wait, or does not call this way.\<close>

definition lock_step :: "critical_turn \<Rightarrow> lock_world \<Rightarrow> lock_world option" where
  "lock_step u w =
    (case u of
       Enter_critical t a \<Rightarrow>
         (case lw_lock w a of
            Mtx m \<Rightarrow>
              if cc_ended (lw_ctl w t) then None
              else (case gallus_mutex_enter_critical t (Some (Some m)) True (lw_ctl w t) of
                      Some (ret, Some (Some m'), ostate, c) \<Rightarrow> Some (entered t a ret (Mtx m') ostate c w)
                    | _ \<Rightarrow> None)
          | Rwl _ \<Rightarrow> None)
     | Reader_enter_critical t a \<Rightarrow>
         (case lw_lock w a of
            Rwl l \<Rightarrow>
              if cc_ended (lw_ctl w t) then None
              else (case gallus_rwlock_reader_enter_critical t (Some (Some l)) True (lw_ctl w t) of
                      Some (ret, Some (Some l'), ostate, c) \<Rightarrow> Some (entered t a ret (Rwl l') ostate c w)
                    | _ \<Rightarrow> None)
          | Mtx _ \<Rightarrow> None)
     | Writer_enter_critical t a \<Rightarrow>
         (case lw_lock w a of
            Rwl l \<Rightarrow>
              if cc_ended (lw_ctl w t) then None
              else (case gallus_rwlock_writer_enter_critical t (Some (Some l)) True (lw_ctl w t) of
                      Some (ret, Some (Some l'), ostate, c) \<Rightarrow> Some (entered t a ret (Rwl l') ostate c w)
                    | _ \<Rightarrow> None)
          | Mtx _ \<Rightarrow> None)
     | Leave_critical t \<Rightarrow>
         (case lw_in w t of
            [] \<Rightarrow> None
          | (a, s) # _ \<Rightarrow>
              if cc_ended (lw_ctl w t) then None
              else (case lw_lock w a of
                      Mtx m \<Rightarrow>
                        (case gallus_mutex_leave_critical t (Some (Some m)) s (lw_ctl w t) of
                           Some (_, Some (Some m'), c) \<Rightarrow> Some (left_critical t a (Mtx m') c w)
                         | _ \<Rightarrow> None)
                    | Rwl l \<Rightarrow>
                        (case gallus_rwlock_leave_critical t (Some (Some l)) s (lw_ctl w t) of
                           Some (_, Some (Some l'), c) \<Rightarrow> Some (left_critical t a (Rwl l') c w)
                         | _ \<Rightarrow> None)))
     | Cancel t \<Rightarrow> Some (w\<lparr>lw_ctl := (lw_ctl w)(t := (lw_ctl w t)\<lparr>cc_requested := True\<rparr>)\<rparr>)
     | Cancellation_point t \<Rightarrow> Some (w\<lparr>lw_ctl := (lw_ctl w)(t := pthread_testcancel (lw_ctl w t))\<rparr>))"

fun lock_steps :: "critical_turn list \<Rightarrow> lock_world \<Rightarrow> lock_world option" where
  "lock_steps [] w = Some w"
| "lock_steps (u # us) w = (case lock_step u w of None \<Rightarrow> None | Some w \<Rightarrow> lock_steps us w)"

definition new_lock :: "lock_obj \<Rightarrow> bool" where
  "new_lock l =
    (case l of
       Mtx m \<Rightarrow> m_mtx m = pthread_mutex_of (m_type m = GALLUS_MUTEX_TYPE_RECURSIVE)
     | Rwl r \<Rightarrow> m_rwl r = new_rwlock)"

definition locks_start :: "(nat \<Rightarrow> lock_obj) \<Rightarrow> lock_world" where
  "locks_start locks =
     \<lparr>lw_lock = locks,
      lw_ctl = (\<lambda>_. \<lparr>cc_state = PTHREAD_CANCEL_ENABLE, cc_requested = False, cc_ended = False\<rparr>),
      lw_in = (\<lambda>_. [])\<rparr>"

text \<open>How often a thread holds a lock, and whether it holds it for itself alone.\<close>

definition holds_times :: "nat \<Rightarrow> lock_obj \<Rightarrow> nat" where
  "holds_times t l =
    (case l of
       Mtx m \<Rightarrow> if px_owner (m_mtx m) = Some t then px_count (m_mtx m) else 0
     | Rwl r \<Rightarrow> count_list (rx_readers (m_rwl r)) t + (if rx_writer (m_rwl r) = Some t then 1 else 0))"

definition holds_alone :: "nat \<Rightarrow> lock_obj \<Rightarrow> bool" where
  "holds_alone t l =
    (case l of
       Mtx m \<Rightarrow> px_owner (m_mtx m) = Some t
     | Rwl r \<Rightarrow> rx_writer (m_rwl r) = Some t)"

section \<open>The invariant\<close>

definition lock_sane :: "lock_obj \<Rightarrow> bool" where
  "lock_sane l =
    (case l of
       Mtx m \<Rightarrow> (px_owner (m_mtx m) = None \<longleftrightarrow> px_count (m_mtx m) = 0) \<and> (\<not> px_recursive (m_mtx m) \<longrightarrow> px_count (m_mtx m) \<le> 1)
     | Rwl r \<Rightarrow> rx_writer (m_rwl r) = None \<or> rx_readers (m_rwl r) = [])"

definition thread_sane :: "lock_world \<Rightarrow> nat \<Rightarrow> bool" where
  "thread_sane w t \<longleftrightarrow>
     (lw_in w t \<noteq> [] \<longrightarrow> cc_state (lw_ctl w t) = PTHREAD_CANCEL_DISABLE \<and> \<not> cc_ended (lw_ctl w t)) \<and>
     (\<forall>x \<in> set (butlast (lw_in w t)). snd x = PTHREAD_CANCEL_DISABLE) \<and>
     (\<forall>x \<in> set (lw_in w t). snd x = PTHREAD_CANCEL_ENABLE \<or> snd x = PTHREAD_CANCEL_DISABLE) \<and>
     (cc_state (lw_ctl w t) = PTHREAD_CANCEL_ENABLE \<or> cc_state (lw_ctl w t) = PTHREAD_CANCEL_DISABLE) \<and>
     (\<forall>a. count_list (map fst (lw_in w t)) a = holds_times t (lw_lock w a))"

definition locks_inv :: "lock_world \<Rightarrow> bool" where
  "locks_inv w \<longleftrightarrow> (\<forall>a. lock_sane (lw_lock w a)) \<and> (\<forall>t. thread_sane w t)"

text \<open>What a lock is after a thread took it, and after the thread gave it back.\<close>

definition took :: "nat \<Rightarrow> lock_obj \<Rightarrow> lock_obj \<Rightarrow> bool" where
  "took t l l' \<longleftrightarrow>
     lock_sane l' \<and> holds_times t l' = Suc (holds_times t l) \<and>
     (\<forall>u. u \<noteq> t \<longrightarrow> holds_times u l' = holds_times u l)"

definition gave_back :: "nat \<Rightarrow> lock_obj \<Rightarrow> lock_obj \<Rightarrow> bool" where
  "gave_back t l l' \<longleftrightarrow>
     lock_sane l' \<and> Suc (holds_times t l') = holds_times t l \<and>
     (\<forall>u. u \<noteq> t \<longrightarrow> holds_times u l' = holds_times u l)"

lemma mutex_take_cases:
  assumes "mutex_take t (m_mtx m) = Some (st, x)" "lock_sane (Mtx m)"
  shows "st = 0 \<and> took t (Mtx m) (Mtx (m\<lparr>m_mtx := x\<rparr>)) \<or> st \<noteq> 0 \<and> x = m_mtx m"
  using assms
  by (auto simp: mutex_take_def took_def lock_sane_def holds_times_def split: option.splits if_splits)

lemma rwlock_read_cases:
  assumes "rwlock_read t (m_rwl r) = Some (st, x)" "lock_sane (Rwl r)"
  shows "st = 0 \<and> took t (Rwl r) (Rwl (r\<lparr>m_rwl := x\<rparr>)) \<or> st \<noteq> 0 \<and> x = m_rwl r"
  using assms
  by (auto simp: rwlock_read_def took_def lock_sane_def holds_times_def split: option.splits if_splits)

lemma rwlock_write_cases:
  assumes "rwlock_write t (m_rwl r) = Some (st, x)" "lock_sane (Rwl r)"
  shows "st = 0 \<and> took t (Rwl r) (Rwl (r\<lparr>m_rwl := x\<rparr>)) \<or> st \<noteq> 0 \<and> x = m_rwl r"
  using assms
  by (auto simp: rwlock_write_def took_def lock_sane_def holds_times_def split: option.splits if_splits)

lemma mutex_unlock_cases:
  assumes "pthread_mutex_unlock t (m_mtx m) = Some (st, x)" "lock_sane (Mtx m)" "0 < holds_times t (Mtx m)"
  shows "st = 0 \<and> gave_back t (Mtx m) (Mtx (m\<lparr>m_mtx := x\<rparr>))"
  using assms
  by (auto simp: pthread_mutex_unlock_def gave_back_def lock_sane_def holds_times_def split: if_splits)

lemma count_list_remove1:
  "count_list (remove1 x xs) y = count_list xs y - (if x = y then 1 else 0)"
  by (induction xs) (auto simp: count_list_0_iff)

lemma rwlock_unlock_cases:
  assumes "pthread_rwlock_unlock t (m_rwl r) = Some (st, x)" "lock_sane (Rwl r)" "0 < holds_times t (Rwl r)"
  shows "st = 0 \<and> gave_back t (Rwl r) (Rwl (r\<lparr>m_rwl := x\<rparr>))"
  using assms
  by (auto simp: pthread_rwlock_unlock_def gave_back_def lock_sane_def holds_times_def count_list_remove1
        count_list_0_iff split: if_splits)

text \<open>A thread that comes in.\<close>

lemma locks_inv_entered:
  assumes inv: "locks_inv w" and live: "\<not> cc_ended (lw_ctl w t)"
    and c: "c = (lw_ctl w t)\<lparr>cc_state := PTHREAD_CANCEL_DISABLE\<rparr>"
    and l: "ret = GALLUS_RESULT_OK \<and> took t (lw_lock w a) l \<or> ret \<noteq> GALLUS_RESULT_OK \<and> l = lw_lock w a"
  shows "locks_inv (entered t a ret l (Some (cc_state (lw_ctl w t))) c w)" (is "locks_inv ?w")
proof -
  have "thread_sane ?w u" for u
  proof -
    have "thread_sane w u" using inv by (simp add: locks_inv_def)
    then show ?thesis
      using l live by (auto simp: thread_sane_def entered_def c took_def)
  qed
  moreover have "lock_sane (lw_lock ?w b)" for b
    using inv l by (auto simp: locks_inv_def entered_def took_def)
  ultimately show ?thesis by (simp add: locks_inv_def)
qed

text \<open>A thread that goes out.\<close>

lemma locks_inv_left:
  assumes inv: "locks_inv w" and top: "lw_in w t = (a, s) # rest"
    and c: "c = (lw_ctl w t)\<lparr>cc_state := s\<rparr> \<or>
            rest = [] \<and> c = (lw_ctl w t)\<lparr>cc_state := s, cc_ended := True\<rparr>"
    and l: "gave_back t (lw_lock w a) l"
  shows "locks_inv (left_critical t a l c w)" (is "locks_inv ?w")
proof -
  have "count_list (map fst (lw_in w t)) a = holds_times t (lw_lock w a)"
    using inv by (auto simp: locks_inv_def thread_sane_def)
  then have left: "holds_times t l = count_list (map fst rest) a"
    using l top by (simp add: gave_back_def)
  have "thread_sane ?w u" for u
  proof -
    have "thread_sane w u" using inv by (simp add: locks_inv_def)
    then show ?thesis
      using l top c left by (auto simp: thread_sane_def left_critical_def gave_back_def split: if_splits)
  qed
  moreover have "lock_sane (lw_lock ?w b)" for b
    using inv l by (auto simp: locks_inv_def left_critical_def gave_back_def)
  ultimately show ?thesis by (simp add: locks_inv_def)
qed

lemma locks_inv_ctl:
  assumes "locks_inv w" "c = (lw_ctl w t)\<lparr>cc_requested := r\<rparr> \<or> c = pthread_testcancel (lw_ctl w t)"
  shows "locks_inv (w\<lparr>lw_ctl := (lw_ctl w)(t := c)\<rparr>)"
proof -
  have "thread_sane (w\<lparr>lw_ctl := (lw_ctl w)(t := c)\<rparr>) u" for u
  proof -
    have "thread_sane w u" using assms(1) by (simp add: locks_inv_def)
    then show ?thesis using assms(2) by (auto simp: thread_sane_def pthread_testcancel_def split: if_splits)
  qed
  then show ?thesis using assms(1) by (simp add: locks_inv_def)
qed

lemma posix_result_ok: "posix_result st = 0 \<longleftrightarrow> st = 0"
  by (simp add: posix_result_def)

text \<open>Every way in is one of the two cases, and leaving the innermost section is the third.\<close>

lemma enter_critical_on_cases:
  assumes "enter_critical_on lock x c = Some (ret, y, ostate, d)"
  shows "\<exists>st. lock = Some (st, y) \<and> ret = posix_result st \<and> ostate = Some (cc_state c) \<and>
    d = c\<lparr>cc_state := PTHREAD_CANCEL_DISABLE\<rparr>"
  using assms by (auto simp: enter_critical_on_def pthread_setcancelstate_def split: option.splits)

lemma leave_critical_on_cases:
  assumes "leave_critical_on (Some (0, y)) s c = Some (ret, z, d)"
  shows "z = y \<and> (d = c\<lparr>cc_state := s\<rparr> \<or> s = PTHREAD_CANCEL_ENABLE \<and> d = c\<lparr>cc_state := s, cc_ended := True\<rparr>)"
  using assms
  by (auto simp: leave_critical_on_def pthread_setcancelstate_def pthread_testcancel_def split: if_splits)

lemma locks_inv_enter:
  assumes "locks_inv w" "lock_step (Enter_critical t a) w = Some w'"
  shows "locks_inv w'"
proof -
  obtain m r c st x where m: "lw_lock w a = Mtx m" and live: "\<not> cc_ended (lw_ctl w t)"
    and e: "enter_critical_on (pthread_mutex_lock t (m_mtx m)) (m_mtx m) (lw_ctl w t) = Some (r, x, st, c)"
    and w': "w' = entered t a r (Mtx (m\<lparr>m_mtx := x\<rparr>)) st c w"
    using assms(2)
    by (auto simp: lock_step_def gallus_mutex_enter_critical_def split: lock_obj.splits if_splits option.splits)
  have "lock_sane (Mtx m)" using assms(1) m by (auto simp: locks_inv_def dest: spec [of _ a])
  with enter_critical_on_cases [OF e] mutex_take_cases [of t m] m w' show ?thesis
    by (auto simp: pthread_mutex_lock_def posix_result_ok intro!: locks_inv_entered [OF assms(1) live])
qed

lemma locks_inv_reader_enter:
  assumes "locks_inv w" "lock_step (Reader_enter_critical t a) w = Some w'"
  shows "locks_inv w'"
proof -
  obtain m r c st x where m: "lw_lock w a = Rwl m" and live: "\<not> cc_ended (lw_ctl w t)"
    and e: "enter_critical_on (rwlock_read t (m_rwl m)) (m_rwl m) (lw_ctl w t) = Some (r, x, st, c)"
    and w': "w' = entered t a r (Rwl (m\<lparr>m_rwl := x\<rparr>)) st c w"
    using assms(2)
    by (auto simp: lock_step_def gallus_rwlock_reader_enter_critical_def split: lock_obj.splits if_splits option.splits)
  have "lock_sane (Rwl m)" using assms(1) m by (auto simp: locks_inv_def dest: spec [of _ a])
  with enter_critical_on_cases [OF e] rwlock_read_cases [of t m] m w' show ?thesis
    by (auto simp: posix_result_ok intro!: locks_inv_entered [OF assms(1) live])
qed

lemma locks_inv_writer_enter:
  assumes "locks_inv w" "lock_step (Writer_enter_critical t a) w = Some w'"
  shows "locks_inv w'"
proof -
  obtain m r c st x where m: "lw_lock w a = Rwl m" and live: "\<not> cc_ended (lw_ctl w t)"
    and e: "enter_critical_on (rwlock_write t (m_rwl m)) (m_rwl m) (lw_ctl w t) = Some (r, x, st, c)"
    and w': "w' = entered t a r (Rwl (m\<lparr>m_rwl := x\<rparr>)) st c w"
    using assms(2)
    by (auto simp: lock_step_def gallus_rwlock_writer_enter_critical_def split: lock_obj.splits if_splits option.splits)
  have "lock_sane (Rwl m)" using assms(1) m by (auto simp: locks_inv_def dest: spec [of _ a])
  with enter_critical_on_cases [OF e] rwlock_write_cases [of t m] m w' show ?thesis
    by (auto simp: posix_result_ok intro!: locks_inv_entered [OF assms(1) live])
qed

text \<open>The innermost section of a thread is one it holds the lock of, and the state it restores is known.\<close>

lemma locks_inv_top:
  assumes "locks_inv w" "lw_in w t = (a, s) # rest"
  shows "0 < holds_times t (lw_lock w a)" "lock_sane (lw_lock w a)"
    "s = PTHREAD_CANCEL_ENABLE \<or> s = PTHREAD_CANCEL_DISABLE" "rest \<noteq> [] \<longrightarrow> s = PTHREAD_CANCEL_DISABLE"
proof -
  have "thread_sane w t" using assms(1) by (simp add: locks_inv_def)
  moreover from this have "count_list (map fst (lw_in w t)) a = holds_times t (lw_lock w a)"
    by (simp add: thread_sane_def)
  ultimately show "0 < holds_times t (lw_lock w a)" "s = PTHREAD_CANCEL_ENABLE \<or> s = PTHREAD_CANCEL_DISABLE"
    "rest \<noteq> [] \<longrightarrow> s = PTHREAD_CANCEL_DISABLE"
    using assms(2) by (auto simp: thread_sane_def)
  show "lock_sane (lw_lock w a)" using assms(1) by (simp add: locks_inv_def)
qed

lemma locks_inv_leave:
  assumes "locks_inv w" "lock_step (Leave_critical t) w = Some w'"
  shows "locks_inv w'"
proof -
  obtain a s rest where top: "lw_in w t = (a, s) # rest"
    using assms(2) by (auto simp: lock_step_def split: list.splits)
  note top_facts = locks_inv_top [OF assms(1) top]
  show ?thesis
  proof (cases "lw_lock w a")
    case (Mtx m)
    obtain ret x c where e: "leave_critical_on (pthread_mutex_unlock t (m_mtx m)) s (lw_ctl w t) = Some (ret, x, c)"
      and w': "w' = left_critical t a (Mtx (m\<lparr>m_mtx := x\<rparr>)) c w"
      using assms(2) Mtx top top_facts(3)
      by (auto simp: lock_step_def gallus_mutex_leave_critical_def split: if_splits option.splits)
    obtain st y where u: "pthread_mutex_unlock t (m_mtx m) = Some (st, y)"
      by (metis pthread_mutex_unlock_def surj_pair)
    have st: "st = 0" and gave: "gave_back t (lw_lock w a) (Mtx (m\<lparr>m_mtx := y\<rparr>))"
      using mutex_unlock_cases [OF u] top_facts(1,2) Mtx by auto
    from leave_critical_on_cases [OF e [unfolded u st]] show ?thesis
      unfolding w' using gave top_facts(4) by (auto intro!: locks_inv_left [OF assms(1) top])
  next
    case (Rwl m)
    obtain ret x c where e: "leave_critical_on (pthread_rwlock_unlock t (m_rwl m)) s (lw_ctl w t) = Some (ret, x, c)"
      and w': "w' = left_critical t a (Rwl (m\<lparr>m_rwl := x\<rparr>)) c w"
      using assms(2) Rwl top top_facts(3)
      by (auto simp: lock_step_def gallus_rwlock_leave_critical_def split: if_splits option.splits)
    obtain st y where u: "pthread_rwlock_unlock t (m_rwl m) = Some (st, y)"
      by (metis pthread_rwlock_unlock_def surj_pair)
    have st: "st = 0" and gave: "gave_back t (lw_lock w a) (Rwl (m\<lparr>m_rwl := y\<rparr>))"
      using rwlock_unlock_cases [OF u] top_facts(1,2) Rwl by auto
    from leave_critical_on_cases [OF e [unfolded u st]] show ?thesis
      unfolding w' using gave top_facts(4) by (auto intro!: locks_inv_left [OF assms(1) top])
  qed
qed

lemma locks_inv_step:
  assumes "locks_inv w" "lock_step u w = Some w'"
  shows "locks_inv w'"
proof (cases u)
  case (Cancel t)
  then show ?thesis using assms(2) locks_inv_ctl [OF assms(1)] by (auto simp: lock_step_def)
next
  case (Cancellation_point t)
  then show ?thesis using assms(2) locks_inv_ctl [OF assms(1)] by (auto simp: lock_step_def)
qed (use assms locks_inv_enter locks_inv_reader_enter locks_inv_writer_enter locks_inv_leave in blast)+

lemma locks_inv_steps: "lock_steps us w = Some w' \<Longrightarrow> locks_inv w \<Longrightarrow> locks_inv w'"
  by (induction us w rule: lock_steps.induct) (auto split: option.splits dest: locks_inv_step)

lemma new_lock_free: "new_lock l \<Longrightarrow> lock_sane l \<and> holds_times t l = 0"
  by (auto simp: new_lock_def lock_sane_def holds_times_def pthread_mutex_of_def new_rwlock_def
      split: lock_obj.splits)

lemma locks_inv_start: "(\<And>a. new_lock (locks a)) \<Longrightarrow> locks_inv (locks_start locks)"
  by (simp add: locks_inv_def locks_start_def thread_sane_def new_lock_free)

lemma holds_alone_excludes:
  "lock_sane l \<Longrightarrow> holds_alone t l \<Longrightarrow> 0 < holds_times u l \<Longrightarrow> u = t"
  by (auto simp: lock_sane_def holds_alone_def holds_times_def split: lock_obj.splits if_splits)

text \<open>
  C34. Threads that enter and leave critical sections in brackets, of mutexes and of read-write locks,
  nested and interleaved in any order and with cancellation requested at any moment: a thread that was
  cancelled holds no lock; a thread holds a lock exactly as often as it is in its critical sections;
  and when a thread holds a mutex, or a read-write lock as the writer, no other thread holds it.
\<close>

theorem critical_sections_safe:
  assumes "\<And>a. new_lock (locks a)" "lock_steps us (locks_start locks) = Some w"
  shows "(cc_ended (lw_ctl w t) \<longrightarrow> holds_times t (lw_lock w a) = 0) \<and>
    holds_times t (lw_lock w a) = count_list (map fst (lw_in w t)) a \<and>
    (holds_alone t (lw_lock w a) \<and> 0 < holds_times u (lw_lock w a) \<longrightarrow> u = t)"
proof -
  have inv: "locks_inv w" using locks_inv_steps [OF assms(2)] locks_inv_start assms(1) by blast
  then have sane: "lock_sane (lw_lock w a)" and t: "thread_sane w t" by (auto simp: locks_inv_def)
  from t have n: "count_list (map fst (lw_in w t)) a = holds_times t (lw_lock w a)"
    and e: "cc_ended (lw_ctl w t) \<Longrightarrow> lw_in w t = []"
    by (auto simp: thread_sane_def)
  from e have "cc_ended (lw_ctl w t) \<longrightarrow> holds_times t (lw_lock w a) = 0" by (auto simp: n [symmetric])
  then show ?thesis using n holds_alone_excludes [OF sane, of t u] by auto
qed

text \<open>
  Thread 1 is cancelled inside two sections, of a mutex and of a read-write lock, and ends when it
  leaves the outer one, while thread 2 comes in.
\<close>

definition example_locks :: "nat \<Rightarrow> lock_obj" where
  "example_locks a =
    (if even a then Mtx \<lparr>m_mtx = pthread_mutex_of False, m_creator_pid = 7, m_type = GALLUS_MUTEX_TYPE_DEFAULT\<rparr>
     else Rwl \<lparr>m_rwl = new_rwlock, rw_creator_pid = 7\<rparr>)"

definition example_critical_turns :: "critical_turn list" where
  "example_critical_turns =
     [Enter_critical 1 0, Writer_enter_critical 1 1, Cancel 1, Cancellation_point 1, Leave_critical 1,
      Reader_enter_critical 2 1, Leave_critical 1, Enter_critical 2 0]"

definition example_locks_end :: lock_world where
  "example_locks_end = the (lock_steps example_critical_turns (locks_start example_locks))"

lemma example_locks_new: "new_lock (example_locks a)"
  by (simp add: example_locks_def new_lock_def)

lemma example_locks_run: "lock_steps example_critical_turns (locks_start example_locks) = Some example_locks_end"
proof -
  have "lock_steps example_critical_turns (locks_start example_locks) \<noteq> None" by code_simp
  then show ?thesis by (auto simp: example_locks_end_def)
qed

lemma critical_sections_safe_witness:
  "cc_ended (lw_ctl example_locks_end 1) \<and> holds_times 1 (lw_lock example_locks_end 0) = 0 \<and>
   holds_alone 2 (lw_lock example_locks_end 0)"
proof -
  have "cc_ended (lw_ctl example_locks_end 1)" "holds_alone 2 (lw_lock example_locks_end 0)" by code_simp+
  with critical_sections_safe [OF example_locks_new example_locks_run, of 1 0 2] show ?thesis by blast
qed

section \<open>Limits of time\<close>

lemma c_div_id: "c_div n 1000000000 * 1000000000 + (n - c_div n 1000000000 * 1000000000) = n"
  by simp

lemma wait_deadline_valid:
  assumes "0 \<le> now" "0 \<le> nsec" "now + nsec < 2 ^ 63"
  shows "valid_deadline (wait_deadline now nsec)"
    "deadline_passed clock (wait_deadline now nsec) \<longleftrightarrow> now + nsec \<le> clock"
proof -
  have s: "s64 (now + nsec) = now + nsec" using assms by (intro s64_id) auto
  have "c_div (now + nsec) 1000000000 = (now + nsec) div 1000000000" using assms by (simp add: c_div_nonneg)
  then show "valid_deadline (wait_deadline now nsec)"
    "deadline_passed clock (wait_deadline now nsec) \<longleftrightarrow> now + nsec \<le> clock"
    by (simp_all add: wait_deadline_def s NSEC_TO_TS_def Let_def valid_deadline_def deadline_passed_def
        minus_div_mult_eq_mod)
qed

lemma mutex_take_result: "mutex_take t x = Some (st, y) \<Longrightarrow> st \<noteq> ETIMEDOUT"
  by (auto simp: mutex_take_def split: option.splits if_splits)

lemma rwlock_read_result: "rwlock_read t x = Some (st, y) \<Longrightarrow> st \<noteq> ETIMEDOUT"
  by (auto simp: rwlock_read_def split: option.splits if_splits)

lemma rwlock_write_result: "rwlock_write t x = Some (st, y) \<Longrightarrow> st \<noteq> ETIMEDOUT"
  by (auto simp: rwlock_write_def split: option.splits if_splits)

text \<open>What is done of a call while it waits: it goes on, or it is over because its time is up.\<close>

definition bounded :: "bool \<Rightarrow> 'l \<Rightarrow> (gallus_result_t \<times> 'l) option \<Rightarrow> (gallus_result_t \<times> 'l) option" where
  "bounded up l r = (case r of Some x \<Rightarrow> Some x | None \<Rightarrow> if up then Some (GALLUS_RESULT_TIMEDOUT, l) else None)"

text \<open>
  A timed call that is given a limit which does not overflow the clock takes the lock like the plain
  call does when it need not wait, and otherwise gives up with a timeout exactly when the limit after
  the call has passed; a negative limit is none.
\<close>

theorem lock_timed_outcome:
  assumes "0 \<le> now" "now + nsec < 2 ^ 63"
  shows "gallus_mutex_timedlock t now clock m nsec =
      bounded (0 \<le> nsec \<and> now + nsec \<le> clock) m (gallus_mutex_lock t m) \<and>
    gallus_rwlock_reader_timedlock t now clock l nsec =
      bounded (0 \<le> nsec \<and> now + nsec \<le> clock) l (gallus_rwlock_reader_lock t l) \<and>
    gallus_rwlock_writer_timedlock t now clock l nsec =
      bounded (0 \<le> nsec \<and> now + nsec \<le> clock) l (gallus_rwlock_writer_lock t l)"
proof (cases "nsec < 0")
  case True
  then show ?thesis
    by (auto simp: gallus_mutex_timedlock_def gallus_mutex_lock_def gallus_rwlock_reader_timedlock_def
        gallus_rwlock_reader_lock_def gallus_rwlock_writer_timedlock_def gallus_rwlock_writer_lock_def
        bounded_def split: option.splits)
next
  case False
  have valid: "valid_deadline (wait_deadline now nsec)"
    and passed: "deadline_passed clock (wait_deadline now nsec) \<longleftrightarrow> now + nsec \<le> clock"
    using wait_deadline_valid [of now nsec] assms False by auto
  note defs = bounded_def timed_take_def valid passed posix_timed_result_def posix_result_def
  have "gallus_mutex_timedlock t now clock m nsec = bounded (now + nsec \<le> clock) m (gallus_mutex_lock t m)"
    using False
    by (auto simp: gallus_mutex_timedlock_def gallus_mutex_lock_def on_mutex_def pthread_mutex_timedlock_def
        pthread_mutex_lock_def defs dest: mutex_take_result split: option.splits)
  moreover have "gallus_rwlock_reader_timedlock t now clock l nsec =
      bounded (now + nsec \<le> clock) l (gallus_rwlock_reader_lock t l)"
    using False
    by (auto simp: gallus_rwlock_reader_timedlock_def gallus_rwlock_reader_lock_def on_rwlock_def
        rwlock_timed_def defs dest: rwlock_read_result split: option.splits)
  moreover have "gallus_rwlock_writer_timedlock t now clock l nsec =
      bounded (now + nsec \<le> clock) l (gallus_rwlock_writer_lock t l)"
    using False
    by (auto simp: gallus_rwlock_writer_timedlock_def gallus_rwlock_writer_lock_def on_rwlock_def
        rwlock_timed_def defs dest: rwlock_write_result split: option.splits)
  ultimately show ?thesis using False by simp
qed

text \<open>Waiting at most two seconds for a mutex of thread 1, looked at before and after that.\<close>

definition held_mutex :: gallus_mutex where
  "held_mutex = \<lparr>m_mtx = \<lparr>px_recursive = False, px_owner = Some 1, px_count = 1\<rparr>,
     m_creator_pid = 7, m_type = GALLUS_MUTEX_TYPE_DEFAULT\<rparr>"

definition read_lock :: gallus_rwlock where
  "read_lock = \<lparr>m_rwl = \<lparr>rx_readers = [1], rx_writer = None\<rparr>, rw_creator_pid = 7\<rparr>"

lemma held_outcome:
  "gallus_mutex_lock 2 (Some (Some held_mutex)) = None" "gallus_rwlock_writer_lock 2 (Some (Some read_lock)) = None"
  by code_simp+

lemma lock_timed_outcome_witness:
  "gallus_mutex_timedlock 2 1000 2000000999 (Some (Some held_mutex)) 2000000000 = None \<and>
   gallus_mutex_timedlock 2 1000 2000001000 (Some (Some held_mutex)) 2000000000 =
     Some (GALLUS_RESULT_TIMEDOUT, Some (Some held_mutex)) \<and>
   gallus_rwlock_writer_timedlock 2 1000 2000001000 (Some (Some read_lock)) 2000000000 =
     Some (GALLUS_RESULT_TIMEDOUT, Some (Some read_lock))"
  using lock_timed_outcome [of 1000 2000000000 2 2000000999 "Some (Some held_mutex)" "Some (Some read_lock)"]
    lock_timed_outcome [of 1000 2000000000 2 2000001000 "Some (Some held_mutex)" "Some (Some read_lock)"]
  by (simp add: held_outcome bounded_def)

text \<open>Every call of a wait that is interrupted has the deadline of the first.\<close>

lemma timedwait_one_deadline: "x \<in> set (snd (timedwait_loop ts sts)) \<Longrightarrow> x = Some ts"
  by (induction ts sts rule: timedwait_loop.induct) (auto split: prod.splits if_splits)

lemma cond_wait_one_deadline:
  assumes "0 \<le> now" "0 \<le> nsec" "now + nsec < 2 ^ 63"
    "x \<in> set (snd (gallus_cond_wait now sts cndptr mtxptr nsec))"
  shows "\<exists>ts. x = Some ts \<and> valid_deadline ts \<and> (\<forall>clock. deadline_passed clock ts \<longleftrightarrow> now + nsec \<le> clock)"
  using assms(2,4) wait_deadline_valid [OF assms(1-3)]
  by (auto simp: gallus_cond_wait_def dest!: timedwait_one_deadline split: option.splits)

section \<open>Barriers\<close>

fun barrier_arrivals :: "nat \<Rightarrow> pthread_barrier \<Rightarrow> bool list \<times> pthread_barrier" where
  "barrier_arrivals 0 x = ([], x)"
| "barrier_arrivals (Suc n) x =
    (let (b, x) = pthread_barrier_arrive x; (bs, x) = barrier_arrivals n x in (b # bs, x))"

lemma barrier_round:
  "pb_arrived x + n = unat (pb_count x) \<Longrightarrow> 0 < n \<Longrightarrow>
   barrier_arrivals n x = (replicate (n - 1) False @ [True], x\<lparr>pb_arrived := 0\<rparr>)"
proof (induction n arbitrary: x)
  case (Suc n)
  show ?case
  proof (cases "n = 0")
    case True
    then show ?thesis using Suc.prems by (simp add: pthread_barrier_arrive_def)
  next
    case False
    have "pthread_barrier_arrive x = (False, x\<lparr>pb_arrived := pb_arrived x + 1\<rparr>)"
      using Suc.prems False by (simp add: pthread_barrier_arrive_def)
    moreover have "replicate n False = False # replicate (n - 1) False"
      using False by (cases n) auto
    ultimately show ?thesis using Suc.IH [of "x\<lparr>pb_arrived := pb_arrived x + 1\<rparr>"] Suc.prems False by simp
  qed
qed simp

section \<open>Behaviour that a caller may not expect\<close>

text \<open>A section that cannot be entered leaves the cancellation of its thread switched off.\<close>

lemma critical_error_stays_disabled:
  "gallus_rwlock_reader_enter_critical 1 (Some (Some \<lparr>m_rwl = \<lparr>rx_readers = [], rx_writer = Some 1\<rparr>, rw_creator_pid = 7\<rparr>))
     True \<lparr>cc_state = PTHREAD_CANCEL_ENABLE, cc_requested = False, cc_ended = False\<rparr> =
   Some (GALLUS_RESULT_POSIX_API_ERROR,
     Some (Some \<lparr>m_rwl = \<lparr>rx_readers = [], rx_writer = Some 1\<rparr>, rw_creator_pid = 7\<rparr>),
     Some PTHREAD_CANCEL_ENABLE, \<lparr>cc_state = PTHREAD_CANCEL_DISABLE, cc_requested = False, cc_ended = False\<rparr>)"
  by code_simp

text \<open>A limit near the largest \<^verbatim>\<open>int64_t\<close> overflows the clock: the call fails at once.\<close>

lemma timed_overflow:
  "gallus_mutex_timedlock 2 1700000000000000000 1700000000000000000 (Some (Some held_mutex)) (2 ^ 63 - 1) =
   Some (GALLUS_RESULT_POSIX_API_ERROR, Some (Some held_mutex))"
  by code_simp

text \<open>A barrier for \<open>2 ^ 32 + 1\<close> threads lets every thread pass by itself.\<close>

lemma barrier_truncates:
  "gallus_barrier_create True 7 (Some None) (2 ^ 32 + 1) =
   (GALLUS_RESULT_OK, Some (Some \<lparr>m_barrier = \<lparr>pb_count = 1, pb_arrived = 0\<rparr>, br_creator_pid = 7\<rparr>))"
  by code_simp

text \<open>The variable of a thread that is not the master keeps its value.\<close>

lemma barrier_master_not_cleared:
  "gallus_barrier_wait 0 (Some (Some b)) (Some True) = (GALLUS_RESULT_OK, Some True)"
  by (simp add: gallus_barrier_wait_def)

text \<open>A spin lock that is held is reported as a failed call, with no error number.\<close>

lemma spin_trylock_not_busy:
  "gallus_spinlock_trylock 2 (Some (Some 1)) e = (GALLUS_RESULT_POSIX_API_ERROR, 0, Some (Some 1))"
  by (simp add: gallus_spinlock_trylock_def spin_result_def of_c_bool_def)

text \<open>A mutex that a child made anew after a fork keeps the creator: the child does not destroy it.\<close>

lemma mutex_reinit_not_destroyed:
  "m_creator_pid m \<noteq> child \<Longrightarrow> gallus_mutex_reinitialize 0 (Some (Some m)) = (ret, p) \<Longrightarrow>
   gallus_mutex_destroy child p = (False, Some None)"
  by (auto simp: gallus_mutex_reinitialize_def gallus_mutex_destroy_def)

text \<open>Sections left in the order they were entered: the thread is cancelled while it holds the second lock.\<close>

definition crossed_end :: "cancel_ctl \<times> gallus_mutex option option" where
  "crossed_end =
    (let m = Some (Some \<lparr>m_mtx = pthread_mutex_of False, m_creator_pid = 7, m_type = GALLUS_MUTEX_TYPE_DEFAULT\<rparr>);
         c = \<lparr>cc_state = PTHREAD_CANCEL_ENABLE, cc_requested = True, cc_ended = False\<rparr>;
         (_, a, s, c) = the (gallus_mutex_enter_critical 1 m True c);
         (_, b, _, c) = the (gallus_mutex_enter_critical 1 m True c);
         (_, a, c) = the (gallus_mutex_leave_critical 1 a (the s) c)
     in (c, b))"

lemma critical_crossed_cancelled:
  "cc_ended (fst crossed_end) \<and> px_owner (m_mtx (the (the (snd crossed_end)))) = Some 1"
  by code_simp

end
