(* ===== verification/Thread.thy ===== *)
theory Thread
  imports Gallus_Base
begin

text \<open>
  Thread objects (\<^verbatim>\<open>framework/lib/thread.c\<close>): the record, the tables of the threads and of
  those that destruction frees, creation, the state calls and the CPU affinity. Starting, cancelling,
  waiting and finalization are in \<open>Thread_Run\<close>.

  A handle is None when it or what it points to is NULL, and an address otherwise. The tables are hash
  maps from addresses to true, here sets. A call is None when it reads an object that is not there. The
  locks of an object are not fields: a call does its work between taking and releasing them.
\<close>

record thread =
  m_pthd :: "nat option"
  m_cpusetptr :: "bool list option"
  m_arg :: "nat option"
  m_is_allocd :: bool
  m_name :: string
  m_creator_pid :: int
  m_main_proc :: "nat option"
  m_final_proc :: "nat option"
  m_freeup_proc :: "nat option"
  m_result_code :: gallus_result_t
  m_is_started :: bool
  m_is_activated :: bool
  m_is_canceled :: bool
  m_is_finalized :: bool
  m_is_destroying :: bool
  m_do_autodelete :: bool
  m_startup_sync_done :: bool
  m_n_finalized_count :: "64 word"

text \<open>No thread, \<open>GALLUS_INVALID_THREAD\<close>, is None in \<open>m_pthd\<close>. An object that is all zeroes has thread id 0.\<close>

definition thread_zero :: thread where
  "thread_zero =
     \<lparr>m_pthd = Some 0, m_cpusetptr = None, m_arg = None, m_is_allocd = False, m_name = [], m_creator_pid = 0,
      m_main_proc = None, m_final_proc = None, m_freeup_proc = None, m_result_code = 0, m_is_started = False,
      m_is_activated = False, m_is_canceled = False, m_is_finalized = False, m_is_destroying = False,
      m_do_autodelete = False, m_startup_sync_done = False, m_n_finalized_count = 0\<rparr>"

section \<open>CPU sets\<close>

text \<open>
  The machine: its CPUs, whether it has NUMA nodes, and the node of each CPU. A set of CPUs has one
  boolean for each.
\<close>

record cpu_env =
  s_n_cpus :: nat
  s_is_numa_available :: bool
  s_n_numa_nodes :: nat
  numa_node_of_cpu :: "nat \<Rightarrow> nat"

definition s_full_cpu_set :: "cpu_env \<Rightarrow> bool list" where
  "s_full_cpu_set ce = replicate (s_n_cpus ce) True"

definition s_numa_cpu_set :: "cpu_env \<Rightarrow> bool list list" where
  "s_numa_cpu_set ce =
    map (\<lambda>j. if s_is_numa_available ce then map (\<lambda>i. numa_node_of_cpu ce i = j) [0..<s_n_cpus ce]
             else s_full_cpu_set ce)
      [0..<s_n_numa_nodes ce]"

text \<open>\<open>mem\<close> is what a new set holds, None when there is no memory for it.\<close>

definition s_cpu_set_alloc ::
  "cpu_env \<Rightarrow> bool list option \<Rightarrow> bool list option \<Rightarrow> bool \<Rightarrow> gallus_result_t \<times> bool list option" where
  "s_cpu_set_alloc ce mem cset do_clear =
    (case (case cset of Some s \<Rightarrow> Some s | None \<Rightarrow> mem) of
       Some s \<Rightarrow> (GALLUS_RESULT_OK, Some (if do_clear then replicate (s_n_cpus ce) False else s))
     | None \<Rightarrow> (GALLUS_RESULT_NO_MEMORY, None))"

definition s_cpu_set_any ::
  "cpu_env \<Rightarrow> bool list option \<Rightarrow> bool list option \<Rightarrow> gallus_result_t \<times> bool list option" where
  "s_cpu_set_any ce mem cset =
    (let (ret, cset) = s_cpu_set_alloc ce mem cset False
     in if ret = GALLUS_RESULT_OK then (ret, Some (s_full_cpu_set ce)) else (ret, cset))"

definition s_cpu_set_numa_node ::
  "cpu_env \<Rightarrow> bool list option \<Rightarrow> bool list option \<Rightarrow> int \<Rightarrow> gallus_result_t \<times> bool list option" where
  "s_cpu_set_numa_node ce mem cset node =
    (if s_is_numa_available ce then
       (if 0 \<le> node \<and> nat node < s_n_numa_nodes ce then
          (let (ret, cset) = s_cpu_set_alloc ce mem cset False
           in if ret = GALLUS_RESULT_OK then (ret, Some (s_numa_cpu_set ce ! nat node)) else (ret, cset))
        else (GALLUS_RESULT_INVALID_ARGS, cset))
     else
       (let (ret, cset) = s_cpu_set_alloc ce mem cset False
        in if ret = GALLUS_RESULT_OK then s_cpu_set_any ce mem cset else (ret, cset)))"

definition s_cpu_set_cpu ::
  "cpu_env \<Rightarrow> bool list option \<Rightarrow> bool list option \<Rightarrow> int \<Rightarrow> gallus_result_t \<times> bool list option" where
  "s_cpu_set_cpu ce mem cset cpu =
    (if 0 \<le> cpu \<and> nat cpu < s_n_cpus ce then
       (let (ret, cset) = s_cpu_set_alloc ce mem cset False
        in if ret = GALLUS_RESULT_OK then (ret, map_option (\<lambda>s. s[nat cpu := True]) cset) else (ret, cset))
     else if cpu < 0 then s_cpu_set_alloc ce mem cset True
     else (GALLUS_RESULT_INVALID_ARGS, cset))"

section \<open>The tables\<close>

text \<open>\<open>th_freed\<close> has the addresses given to \<^verbatim>\<open>free\<close>, \<open>th_freeups\<close> the objects whose freeup procedure was called.\<close>

record thread_world =
  s_thd_tbl :: "nat set"
  s_alloc_tbl :: "nat set"
  th_heap :: "nat \<rightharpoonup> thread"
  th_freed :: "nat list"
  th_freeups :: "nat list"

text \<open>\<open>ok\<close>: the table has memory for an entry; the code does not look at the result.\<close>

definition s_add_thd :: "bool \<Rightarrow> nat \<Rightarrow> thread_world \<Rightarrow> thread_world" where
  "s_add_thd ok a w = (if ok then w\<lparr>s_thd_tbl := insert a (s_thd_tbl w)\<rparr> else w)"

definition s_alloc_mark_thd :: "bool \<Rightarrow> nat \<Rightarrow> thread_world \<Rightarrow> thread_world" where
  "s_alloc_mark_thd ok a w = (if ok then w\<lparr>s_alloc_tbl := insert a (s_alloc_tbl w)\<rparr> else w)"

definition s_delete_thd :: "nat \<Rightarrow> thread_world \<Rightarrow> thread_world" where
  "s_delete_thd a w = w\<lparr>s_thd_tbl := s_thd_tbl w - {a}, s_alloc_tbl := s_alloc_tbl w - {a}\<rparr>"

definition s_is_thd :: "nat \<Rightarrow> thread_world \<Rightarrow> bool" where
  "s_is_thd a w \<longleftrightarrow> a \<in> s_thd_tbl w"

definition s_is_alloc_marked :: "nat \<Rightarrow> thread_world \<Rightarrow> bool" where
  "s_is_alloc_marked a w \<longleftrightarrow> a \<in> s_alloc_tbl w"

section \<open>Destruction\<close>

definition free_thd :: "nat \<Rightarrow> thread_world \<Rightarrow> thread_world" where
  "free_thd a w = w\<lparr>th_heap := (th_heap w)(a := None), th_freed := th_freed w @ [a]\<rparr>"

text \<open>\<open>others\<close> is what other threads do between freeing the object and taking it out of the tables.\<close>

definition s_delete_thread_object :: "(thread_world \<Rightarrow> thread_world) \<Rightarrow> nat \<Rightarrow> thread_world \<Rightarrow> thread_world option" where
  "s_delete_thread_object others a w =
    (if s_is_thd a w then
       (case th_heap w a of
          None \<Rightarrow> None
        | Some thd \<Rightarrow>
            Some (s_delete_thd a
                   (others (if m_is_allocd thd \<or> s_is_alloc_marked a w then free_thd a w else w))))
     else Some w)"

definition s_destroy ::
  "(thread_world \<Rightarrow> thread_world) \<Rightarrow> nat \<Rightarrow> bool \<Rightarrow> thread_world \<Rightarrow> thread_world option" where
  "s_destroy others a is_clean_finish w =
    (case th_heap w a of
       None \<Rightarrow> None
     | Some thd \<Rightarrow>
         (let clean = is_clean_finish \<and> \<not> m_is_destroying thd;
              w = (if clean \<and> m_freeup_proc thd \<noteq> None then w\<lparr>th_freeups := th_freeups w @ [a]\<rparr> else w);
              thd = (if clean then thd\<lparr>m_is_destroying := True\<rparr> else thd);
              thd = thd\<lparr>m_cpusetptr := None\<rparr>
          in s_delete_thread_object others a (w\<lparr>th_heap := (th_heap w)(a \<mapsto> thd)\<rparr>)))"

section \<open>Creation\<close>

text \<open>
  What creating a thread gets from elsewhere: memory and the address of the object, memory in the two
  tables, the first failure of the four mutexes and three condition variables, the default set of CPUs.
\<close>

record thread_create_env =
  te_alloc :: "nat option"
  te_tbl :: bool
  te_mark :: bool
  te_locks :: gallus_result_t
  te_set :: "bool list option"
  te_pid :: int

definition s_initialize ::
  "cpu_env \<Rightarrow> thread_create_env \<Rightarrow> nat \<Rightarrow> bool \<Rightarrow> nat option \<Rightarrow> nat option \<Rightarrow> nat option \<Rightarrow> string option \<Rightarrow>
   nat option \<Rightarrow> thread_world \<Rightarrow> thread_world \<times> gallus_result_t" where
  "s_initialize ce te a is_allocd mainproc finalproc freeproc name arg w =
    (let w = s_add_thd (te_tbl te) a (w\<lparr>th_heap := (th_heap w)(a \<mapsto> thread_zero)\<rparr>);
         (ret, def_set) = (if te_locks te = GALLUS_RESULT_OK then s_cpu_set_any ce (te_set te) None
                           else (te_locks te, None))
     in if ret = GALLUS_RESULT_OK then
          (w\<lparr>th_heap := (th_heap w)(a \<mapsto>
               thread_zero\<lparr>m_arg := arg, m_is_allocd := is_allocd,
                 m_name := (if is_valid_string name then take 15 (the name) else []),
                 m_creator_pid := te_pid te, m_pthd := None,
                 m_main_proc := mainproc, m_final_proc := finalproc, m_freeup_proc := freeproc,
                 m_result_code := GALLUS_RESULT_NOT_STARTED, m_cpusetptr := def_set,
                 m_is_started := False, m_is_activated := False, m_is_canceled := False,
                 m_is_finalized := False, m_is_destroying := False, m_do_autodelete := False,
                 m_startup_sync_done := False, m_n_finalized_count := 0\<rparr>)\<rparr>, GALLUS_RESULT_OK)
        else (w, ret))"

text \<open>
  The outer option of \<open>thdptr\<close> is the pointer to the handle. The result has the world, the handle as it is
  left and the result code.
\<close>

definition gallus_thread_create_with_size ::
  "cpu_env \<Rightarrow> thread_create_env \<Rightarrow> nat option option \<Rightarrow> nat option \<Rightarrow> nat option \<Rightarrow> nat option \<Rightarrow> string option \<Rightarrow>
   nat option \<Rightarrow> thread_world \<Rightarrow> (thread_world \<times> nat option option \<times> gallus_result_t) option" where
  "gallus_thread_create_with_size ce te thdptr mainproc finalproc freeproc name arg w =
    (case thdptr of
       None \<Rightarrow> Some (w, thdptr, GALLUS_RESULT_INVALID_ARGS)
     | Some thd \<Rightarrow>
         if mainproc = None then Some (w, thdptr, GALLUS_RESULT_INVALID_ARGS)
         else
           (let init = (\<lambda>a is_allocd w.
                  (let (w, ret) = s_initialize ce te a is_allocd mainproc finalproc freeproc name arg w
                   in if ret \<noteq> GALLUS_RESULT_OK then
                        map_option (\<lambda>w. (w, Some (Some a), ret)) (s_destroy id a False w)
                      else Some (w, Some (Some a), ret)))
            in case thd of
                 Some a \<Rightarrow> init a False w
               | None \<Rightarrow>
                   (case te_alloc te of
                      None \<Rightarrow> Some (w, Some None, GALLUS_RESULT_NO_MEMORY)
                    | Some a \<Rightarrow> init a True (s_alloc_mark_thd (te_mark te) a (w\<lparr>th_heap := (th_heap w)(a \<mapsto> thread_zero)\<rparr>)))))"

definition gallus_thread_create ::
  "cpu_env \<Rightarrow> thread_create_env \<Rightarrow> nat option option \<Rightarrow> nat option \<Rightarrow> nat option \<Rightarrow> nat option \<Rightarrow> string option \<Rightarrow>
   nat option \<Rightarrow> thread_world \<Rightarrow> (thread_world \<times> nat option option \<times> gallus_result_t) option" where
  "gallus_thread_create ce te thdptr mainproc finalproc freeproc name arg w =
     gallus_thread_create_with_size ce te thdptr mainproc finalproc freeproc name arg w"

section \<open>Calls on an object\<close>

text \<open>A call that checks the handle and does \<open>f\<close> on the object.\<close>

definition on_thread ::
  "nat option \<Rightarrow> (thread \<Rightarrow> thread \<times> 'r) \<Rightarrow> (gallus_result_t \<Rightarrow> 'r) \<Rightarrow> thread_world \<Rightarrow> (thread_world \<times> 'r) option" where
  "on_thread thdptr f err w =
    (case thdptr of
       None \<Rightarrow> Some (w, err GALLUS_RESULT_INVALID_ARGS)
     | Some a \<Rightarrow>
         if s_is_thd a w then
           (case th_heap w a of
              None \<Rightarrow> None
            | Some thd \<Rightarrow> (let (thd, r) = f thd in Some (w\<lparr>th_heap := (th_heap w)(a \<mapsto> thd)\<rparr>, r)))
         else Some (w, err GALLUS_RESULT_INVALID_OBJECT))"

definition s_get_pthdid :: "thread \<Rightarrow> gallus_result_t \<times> nat option" where
  "s_get_pthdid thd =
    (if m_is_started thd then
       (if m_pthd thd \<noteq> None then GALLUS_RESULT_OK else GALLUS_RESULT_ALREADY_HALTED, m_pthd thd)
     else (GALLUS_RESULT_NOT_STARTED, None))"

text \<open>With the result comes what is stored in \<open>*tidptr\<close>; \<open>tidptr\<close> is whether the pointer is given.\<close>

definition gallus_thread_get_pthread_id ::
  "nat option \<Rightarrow> bool \<Rightarrow> thread_world \<Rightarrow> (thread_world \<times> gallus_result_t \<times> nat option) option" where
  "gallus_thread_get_pthread_id thdptr tidptr w =
    (if tidptr then on_thread thdptr (\<lambda>thd. (thd, s_get_pthdid thd)) (\<lambda>e. (e, None)) w
     else Some (w, GALLUS_RESULT_INVALID_ARGS, None))"

text \<open>
  Setting the affinity: \<open>upd\<close> changes the set of the object, and a running thread is told of the new set;
  \<open>setaff\<close> is the value of \<^verbatim>\<open>pthread_setaffinity_np\<close> for a thread and a set.
\<close>

definition set_affinity ::
  "(bool list option \<Rightarrow> gallus_result_t \<times> bool list option) \<Rightarrow> (nat \<Rightarrow> bool list \<Rightarrow> int) \<Rightarrow> nat option \<Rightarrow>
   thread_world \<Rightarrow> (thread_world \<times> gallus_result_t) option" where
  "set_affinity upd setaff thdptr w =
    on_thread thdptr
      (\<lambda>thd. let (ret, cset) = upd (m_cpusetptr thd);
                 thd = thd\<lparr>m_cpusetptr := cset\<rparr>
             in if ret = GALLUS_RESULT_OK then
                  (let (ret, tid) = s_get_pthdid thd
                   in if ret = GALLUS_RESULT_OK then
                        (thd, if setaff (the tid) (the cset) = 0 then GALLUS_RESULT_OK
                              else GALLUS_RESULT_POSIX_API_ERROR)
                      else (thd, if ret = GALLUS_RESULT_NOT_STARTED then GALLUS_RESULT_OK else ret))
                else (thd, ret))
      id w"

definition gallus_thread_set_cpu_affinity ::
  "cpu_env \<Rightarrow> bool list option \<Rightarrow> (nat \<Rightarrow> bool list \<Rightarrow> int) \<Rightarrow> nat option \<Rightarrow> int \<Rightarrow> thread_world \<Rightarrow>
   (thread_world \<times> gallus_result_t) option" where
  "gallus_thread_set_cpu_affinity ce mem setaff thdptr cpu w =
     set_affinity (\<lambda>cset. s_cpu_set_cpu ce mem cset cpu) setaff thdptr w"

definition gallus_thread_set_numa_node_affinity ::
  "cpu_env \<Rightarrow> bool list option \<Rightarrow> (nat \<Rightarrow> bool list \<Rightarrow> int) \<Rightarrow> nat option \<Rightarrow> int \<Rightarrow> thread_world \<Rightarrow>
   (thread_world \<times> gallus_result_t) option" where
  "gallus_thread_set_numa_node_affinity ce mem setaff thdptr node w =
     set_affinity (\<lambda>cset. s_cpu_set_numa_node ce mem cset node) setaff thdptr w"

definition gallus_thread_set_cpu_affinity_any ::
  "cpu_env \<Rightarrow> bool list option \<Rightarrow> (nat \<Rightarrow> bool list \<Rightarrow> int) \<Rightarrow> nat option \<Rightarrow> thread_world \<Rightarrow>
   (thread_world \<times> gallus_result_t) option" where
  "gallus_thread_set_cpu_affinity_any ce mem setaff thdptr w =
     set_affinity (s_cpu_set_any ce mem) setaff thdptr w"

text \<open>The smallest CPU of a set.\<close>

fun first_cpu :: "nat \<Rightarrow> bool list \<Rightarrow> nat option" where
  "first_cpu i [] = None"
| "first_cpu i (b # bs) = (if b then Some i else first_cpu (Suc i) bs)"

text \<open>\<open>getaff\<close> is what \<^verbatim>\<open>pthread_getaffinity_np\<close> stores, None when it fails; a CPU number is a result too.\<close>

definition gallus_thread_get_cpu_affinity ::
  "cpu_env \<Rightarrow> bool list option \<Rightarrow> (nat \<Rightarrow> bool list option) \<Rightarrow> nat option \<Rightarrow> thread_world \<Rightarrow>
   (thread_world \<times> gallus_result_t) option" where
  "gallus_thread_get_cpu_affinity ce mem getaff thdptr w =
    on_thread thdptr
      (\<lambda>thd. let (ret, tid) = s_get_pthdid thd
             in if ret = GALLUS_RESULT_OK then
                  (let (ret, _) = s_cpu_set_alloc ce mem None True
                   in if ret = GALLUS_RESULT_OK then
                        (case getaff (the tid) of
                           Some cset \<Rightarrow>
                             (thd, case first_cpu 0 (take (s_n_cpus ce) cset) of
                                     Some cpu \<Rightarrow> int cpu
                                   | None \<Rightarrow> GALLUS_RESULT_POSIX_API_ERROR)
                         | None \<Rightarrow> (thd, GALLUS_RESULT_POSIX_API_ERROR))
                      else (thd, ret))
                else if ret = GALLUS_RESULT_NOT_STARTED then
                  (thd, case m_cpusetptr thd of
                          Some cset \<Rightarrow>
                            (case first_cpu 0 (take (s_n_cpus ce) cset) of
                               Some cpu \<Rightarrow> int cpu
                             | None \<Rightarrow> GALLUS_RESULT_NOT_DEFINED)
                        | None \<Rightarrow> GALLUS_RESULT_NOT_DEFINED)
                else (thd, ret))
      id w"

definition gallus_thread_set_result_code ::
  "nat option \<Rightarrow> gallus_result_t \<Rightarrow> thread_world \<Rightarrow> (thread_world \<times> gallus_result_t) option" where
  "gallus_thread_set_result_code thdptr code w =
     on_thread thdptr (\<lambda>thd. (thd\<lparr>m_result_code := code\<rparr>, GALLUS_RESULT_OK)) id w"

text \<open>\<open>waited\<close> is what \<^verbatim>\<open>gallus_thread_wait\<close> returned and \<open>others\<close> what happened meanwhile.\<close>

definition gallus_thread_get_result_code ::
  "gallus_result_t \<Rightarrow> (thread_world \<Rightarrow> thread_world) \<Rightarrow> nat option \<Rightarrow> bool \<Rightarrow> thread_world \<Rightarrow>
   (thread_world \<times> gallus_result_t \<times> gallus_result_t option) option" where
  "gallus_thread_get_result_code waited others thdptr codeptr w =
    (case thdptr of
       Some a \<Rightarrow>
         if codeptr then
           (if s_is_thd a w then
              (let w = others w
               in if waited = GALLUS_RESULT_OK then
                    (case th_heap w a of
                       None \<Rightarrow> None
                     | Some thd \<Rightarrow> Some (w, GALLUS_RESULT_OK, Some (m_result_code thd)))
                  else Some (w, waited, Some GALLUS_RESULT_ANY_FAILURES))
            else Some (w, GALLUS_RESULT_INVALID_OBJECT, Some GALLUS_RESULT_ANY_FAILURES))
         else Some (w, GALLUS_RESULT_INVALID_ARGS, None)
     | None \<Rightarrow> Some (w, GALLUS_RESULT_INVALID_ARGS, None))"

definition gallus_thread_is_canceled ::
  "nat option \<Rightarrow> bool \<Rightarrow> thread_world \<Rightarrow> (thread_world \<times> gallus_result_t \<times> bool option) option" where
  "gallus_thread_is_canceled thdptr retptr w =
    (if retptr then
       on_thread thdptr (\<lambda>thd. (thd, GALLUS_RESULT_OK, Some (m_is_canceled thd)))
         (\<lambda>e. (e, if thdptr = None then None else Some False)) w
     else Some (w, GALLUS_RESULT_INVALID_ARGS, None))"

definition gallus_thread_free_when_destroy ::
  "bool \<Rightarrow> nat option \<Rightarrow> thread_world \<Rightarrow> thread_world \<times> gallus_result_t" where
  "gallus_thread_free_when_destroy ok thdptr w =
    (case thdptr of
       None \<Rightarrow> (w, GALLUS_RESULT_INVALID_ARGS)
     | Some a \<Rightarrow>
         if s_is_thd a w then (s_alloc_mark_thd ok a w, GALLUS_RESULT_OK)
         else (w, GALLUS_RESULT_INVALID_OBJECT))"

definition gallus_thread_is_valid ::
  "nat option \<Rightarrow> bool \<Rightarrow> thread_world \<Rightarrow> gallus_result_t \<times> bool option" where
  "gallus_thread_is_valid thdptr retptr w =
    (case thdptr of
       Some a \<Rightarrow>
         if retptr then
           (if s_is_thd a w then (GALLUS_RESULT_OK, Some True) else (GALLUS_RESULT_INVALID_OBJECT, Some False))
         else (GALLUS_RESULT_INVALID_ARGS, None)
     | None \<Rightarrow> (GALLUS_RESULT_INVALID_ARGS, None))"

text \<open>
  The name: neither call looks the handle up in the table, so the object is read first. The name is
  what the buffer of \<open>n\<close> bytes takes of it; \<open>os_names\<close> has the names given to running threads.
\<close>

definition gallus_thread_get_name ::
  "nat option \<Rightarrow> bool \<Rightarrow> nat \<Rightarrow> thread_world \<Rightarrow> (gallus_result_t \<times> string option) option" where
  "gallus_thread_get_name thdptr buf n w =
    (case thdptr of
       Some a \<Rightarrow>
         if buf \<and> 0 < n then
           (case th_heap w a of
              None \<Rightarrow> None
            | Some thd \<Rightarrow>
                if is_valid_string (Some (m_name thd)) then Some (GALLUS_RESULT_OK, Some (take (n - 1) (m_name thd)))
                else Some (GALLUS_RESULT_INVALID_ARGS, None))
         else Some (GALLUS_RESULT_INVALID_ARGS, None)
     | None \<Rightarrow> Some (GALLUS_RESULT_INVALID_ARGS, None))"

definition gallus_thread_set_name ::
  "nat option \<Rightarrow> string option \<Rightarrow> thread_world \<Rightarrow> (thread_world \<times> (nat \<times> string) list \<times> gallus_result_t) option" where
  "gallus_thread_set_name thdptr name w =
    (case thdptr of
       Some a \<Rightarrow>
         if is_valid_string name then
           (case th_heap w a of
              None \<Rightarrow> None
            | Some thd \<Rightarrow>
                (let thd = thd\<lparr>m_name := take 15 (the name)\<rparr>
                 in Some (w\<lparr>th_heap := (th_heap w)(a \<mapsto> thd)\<rparr>,
                          (case m_pthd thd of Some tid \<Rightarrow> [(tid, m_name thd)] | None \<Rightarrow> []),
                          GALLUS_RESULT_OK)))
         else Some (w, [], GALLUS_RESULT_INVALID_ARGS)
     | None \<Rightarrow> Some (w, [], GALLUS_RESULT_INVALID_ARGS))"

end
