(* ===== verification/Thread_Run.thy ===== *)
theory Thread_Run
  imports Thread
begin

text \<open>
  A thread object at work (\<^verbatim>\<open>framework/lib/thread.c\<close>): the threads it spawns, from
  \<^verbatim>\<open>s_pthd_entry_point\<close> to the end of \<^verbatim>\<open>s_finalize\<close>, and the clients that start, cancel, wait
  for and destroy it.

  One object at address \<open>a\<close> is looked at. What a thread does between taking a lock of the object and
  releasing it or falling asleep is one turn; \<^verbatim>\<open>m_wait_lock\<close> is free between turns, and
  \<^verbatim>\<open>m_finalize_lock\<close>, which a spawned thread keeps over several turns, has its holder in the state. A
  sleeping thread may be woken at any time. A turn that is not possible is None; one that reads the
  object after its destruction sets \<open>sy_crash\<close>, and one that cancels a thread that has ended \<open>sy_stale\<close>.
\<close>

text \<open>
  Where a spawned thread is: not yet running; asleep for the acknowledgement of its start or woken from
  it; about to call its main procedure, in it, or returned from it; in \<^verbatim>\<open>s_finalize\<close>, before the check
  of the object, after it, and with \<^verbatim>\<open>m_finalize_lock\<close> before and after the final procedure; deleting the
  object; ended.
\<close>

datatype child_pc =
    New | Sync_wait | Sync_woken | Synced | In_main | Main_done gallus_result_t
  | Finalize bool gallus_result_t | Validated bool gallus_result_t
  | Final_locked bool gallus_result_t | Finalized bool
  | Autodelete | Auto_destroy | Gone

record child =
  ch_pc :: child_pc
  ch_cancel :: bool

text \<open>
  Where a client is: in no call; in a start; in a wait, without a limit of time, with one, or as part of
  a destruction: about to wait, asleep on \<^verbatim>\<open>m_wait_cond\<close> or woken, past it with a result,
  about to take \<^verbatim>\<open>m_finalize_lock\<close>, asleep on \<^verbatim>\<open>m_finalize_cond\<close> or woken; about to destroy.
\<close>

datatype wait_kind = Forever | Limited | For_destroy

datatype client_pc =
    Idle | Start_sleep | Start_woken
  | Wait_call wait_kind | Wait_sleep wait_kind | Wait_woken wait_kind
  | Wait_final wait_kind gallus_result_t | Wait_lock wait_kind gallus_result_t
  | Final_sleep wait_kind | Final_woken wait_kind
  | Destroying

datatype thread_event =
  Called_main nat | Called_final nat bool | Returned nat gallus_result_t | Destroyed

record thread_sys =
  sy_w :: thread_world
  sy_ch :: "child list"
  sy_cl :: "client_pc list"
  sy_owner :: "nat option"
  sy_events :: "thread_event list"
  sy_crash :: bool
  sy_stale :: bool

section \<open>Steps\<close>

definition set_child :: "nat \<Rightarrow> child_pc \<Rightarrow> thread_sys \<Rightarrow> thread_sys" where
  "set_child k pc s = s\<lparr>sy_ch := (sy_ch s)[k := (sy_ch s ! k)\<lparr>ch_pc := pc\<rparr>]\<rparr>"

definition set_client :: "nat \<Rightarrow> client_pc \<Rightarrow> thread_sys \<Rightarrow> thread_sys" where
  "set_client i pc s = s\<lparr>sy_cl := (sy_cl s)[i := pc]\<rparr>"

definition record_event :: "thread_event \<Rightarrow> thread_sys \<Rightarrow> thread_sys" where
  "record_event e s = s\<lparr>sy_events := sy_events s @ [e]\<rparr>"

text \<open>A turn on the object: it crashes when the object is gone.\<close>

definition with_thd :: "nat \<Rightarrow> (thread \<Rightarrow> thread_sys) \<Rightarrow> thread_sys \<Rightarrow> thread_sys" where
  "with_thd a f s = (case th_heap (sy_w s) a of None \<Rightarrow> s\<lparr>sy_crash := True\<rparr> | Some thd \<Rightarrow> f thd)"

definition put_thd :: "nat \<Rightarrow> thread \<Rightarrow> thread_sys \<Rightarrow> thread_sys" where
  "put_thd a thd s = s\<lparr>sy_w := (sy_w s)\<lparr>th_heap := (th_heap (sy_w s))(a \<mapsto> thd)\<rparr>\<rparr>"

text \<open>The three condition variables, all of them broadcast.\<close>

fun wake_start_client :: "client_pc \<Rightarrow> client_pc" where
  "wake_start_client Start_sleep = Start_woken"
| "wake_start_client pc = pc"

fun wake_wait_client :: "client_pc \<Rightarrow> client_pc" where
  "wake_wait_client (Wait_sleep w) = Wait_woken w"
| "wake_wait_client pc = pc"

fun wake_final_client :: "client_pc \<Rightarrow> client_pc" where
  "wake_final_client (Final_sleep w) = Final_woken w"
| "wake_final_client pc = pc"

fun wake_child_pc :: "child_pc \<Rightarrow> child_pc" where
  "wake_child_pc Sync_wait = Sync_woken"
| "wake_child_pc pc = pc"

definition wake_child :: "child \<Rightarrow> child" where
  "wake_child c = c\<lparr>ch_pc := wake_child_pc (ch_pc c)\<rparr>"

definition notify_startup :: "thread_sys \<Rightarrow> thread_sys" where
  "notify_startup s = s\<lparr>sy_ch := map wake_child (sy_ch s), sy_cl := map wake_start_client (sy_cl s)\<rparr>"

definition notify_wait :: "thread_sys \<Rightarrow> thread_sys" where
  "notify_wait s = s\<lparr>sy_cl := map wake_wait_client (sy_cl s)\<rparr>"

definition notify_finalize :: "thread_sys \<Rightarrow> thread_sys" where
  "notify_finalize s = s\<lparr>sy_cl := map wake_final_client (sy_cl s)\<rparr>"

section \<open>The spawned thread\<close>

text \<open>The check at \<^verbatim>\<open>sync_done_check\<close>.\<close>

definition sync_done_check :: "nat \<Rightarrow> thread \<Rightarrow> thread_sys \<Rightarrow> thread_sys" where
  "sync_done_check k thd s = set_child k (if m_startup_sync_done thd then Synced else Sync_wait) s"

text \<open>The first section of \<^verbatim>\<open>s_pthd_entry_point\<close>: the notification does not reach the thread itself.\<close>

definition child_enter :: "nat \<Rightarrow> nat \<Rightarrow> thread_sys \<Rightarrow> thread_sys" where
  "child_enter a k s =
    with_thd a
      (\<lambda>thd. let thd = thd\<lparr>m_is_canceled := False, m_is_finalized := False, m_is_activated := True,
                          m_is_started := True\<rparr>
             in sync_done_check k thd (notify_startup (put_thd a thd s))) s"

definition child_sync :: "nat \<Rightarrow> nat \<Rightarrow> thread_sys \<Rightarrow> thread_sys" where
  "child_sync a k s = with_thd a (\<lambda>thd. sync_done_check k thd s) s"

text \<open>The call of the main procedure, which reads the object for it.\<close>

definition child_main :: "nat \<Rightarrow> nat \<Rightarrow> thread_sys \<Rightarrow> thread_sys" where
  "child_main a k s = with_thd a (\<lambda>thd. record_event (Called_main k) (set_child k In_main s)) s"

text \<open>The steps of \<^verbatim>\<open>s_finalize\<close>.\<close>

definition finalize_check :: "nat \<Rightarrow> nat \<Rightarrow> bool \<Rightarrow> gallus_result_t \<Rightarrow> thread_sys \<Rightarrow> thread_sys" where
  "finalize_check a k is_canceled rcode s =
    (case gallus_thread_is_valid (Some a) True (sy_w s) of
       (r, is_valid) \<Rightarrow>
         set_child k (if r = GALLUS_RESULT_OK \<and> is_valid = Some True then Validated is_canceled rcode else Gone) s)"

definition finalize_enter :: "nat \<Rightarrow> nat \<Rightarrow> bool \<Rightarrow> gallus_result_t \<Rightarrow> thread_sys \<Rightarrow> thread_sys" where
  "finalize_enter a k is_canceled rcode s =
    with_thd a
      (\<lambda>thd. set_child k (Final_locked is_canceled rcode)
               (put_thd a (thd\<lparr>m_is_canceled := is_canceled, m_result_code := rcode\<rparr>)
                 (s\<lparr>sy_owner := Some k\<rparr>))) s"

definition finalize_final :: "nat \<Rightarrow> nat \<Rightarrow> bool \<Rightarrow> thread_sys \<Rightarrow> thread_sys" where
  "finalize_final a k is_canceled s =
    with_thd a
      (\<lambda>thd. let s = (if m_final_proc thd \<noteq> None \<and> m_n_finalized_count thd = 0
                      then record_event (Called_final k is_canceled) s else s);
                 thd = thd\<lparr>m_pthd := None, m_is_finalized := True, m_is_activated := False,
                          m_n_finalized_count := m_n_finalized_count thd + 1\<rparr>
             in set_child k (Finalized (m_do_autodelete thd)) (notify_wait (put_thd a thd s))) s"

definition finalize_leave :: "nat \<Rightarrow> nat \<Rightarrow> bool \<Rightarrow> thread_sys \<Rightarrow> thread_sys" where
  "finalize_leave a k do_autodelete s =
    with_thd a
      (\<lambda>thd. set_child k (if do_autodelete then Autodelete else Gone)
               (notify_finalize (s\<lparr>sy_owner := None\<rparr>))) s"

section \<open>The clients\<close>

text \<open>
  Starting, up to the sleep for the spawned thread; \<open>st\<close> is what \<^verbatim>\<open>pthread_create\<close> returns. The check of the
  handle is part of the turn.
\<close>

definition thread_start :: "nat \<Rightarrow> nat \<Rightarrow> bool \<Rightarrow> int \<Rightarrow> thread_sys \<Rightarrow> thread_sys" where
  "thread_start a i autodelete st s =
    (if s_is_thd a (sy_w s) then
       with_thd a
         (\<lambda>thd.
            if \<not> m_is_activated thd then
              (let thd = thd\<lparr>m_do_autodelete := autodelete, m_pthd := None\<rparr>
               in if st = 0 then
                    (let thd = thd\<lparr>m_pthd := Some (length (sy_ch s)), m_is_activated := False,
                                 m_is_finalized := False, m_is_destroying := False, m_is_canceled := False,
                                 m_is_started := False, m_startup_sync_done := False, m_n_finalized_count := 0\<rparr>
                     in set_client i Start_sleep
                          (put_thd a thd (s\<lparr>sy_ch := sy_ch s @ [\<lparr>ch_pc = New, ch_cancel = False\<rparr>]\<rparr>)))
                  else record_event (Returned i GALLUS_RESULT_POSIX_API_ERROR) (put_thd a thd s))
            else record_event (Returned i GALLUS_RESULT_ALREADY_EXISTS) s) s
     else record_event (Returned i GALLUS_RESULT_INVALID_OBJECT) s)"

text \<open>The check at \<^verbatim>\<open>startcheck\<close> after a wakeup.\<close>

definition thread_startcheck :: "nat \<Rightarrow> nat \<Rightarrow> thread_sys \<Rightarrow> thread_sys" where
  "thread_startcheck a i s =
    with_thd a
      (\<lambda>thd. if m_is_started thd then
               record_event (Returned i GALLUS_RESULT_OK)
                 (set_client i Idle (notify_startup (put_thd a (thd\<lparr>m_startup_sync_done := True\<rparr>) s)))
             else set_client i Start_sleep s) s"

text \<open>Cancelling: \<^verbatim>\<open>pthread_cancel\<close> of a thread that has ended is undefined.\<close>

definition pthread_cancel :: "nat \<Rightarrow> thread_sys \<Rightarrow> thread_sys" where
  "pthread_cancel k s =
    (if k < length (sy_ch s) \<and> ch_pc (sy_ch s ! k) \<noteq> Gone
     then s\<lparr>sy_ch := (sy_ch s)[k := (sy_ch s ! k)\<lparr>ch_cancel := True\<rparr>]\<rparr>
     else s\<lparr>sy_stale := True\<rparr>)"

definition thread_cancel :: "nat \<Rightarrow> int \<Rightarrow> thread_sys \<Rightarrow> thread_sys \<times> gallus_result_t" where
  "thread_cancel a pid s =
    (case th_heap (sy_w s) a of
       None \<Rightarrow> (s\<lparr>sy_crash := True\<rparr>, GALLUS_RESULT_ANY_FAILURES)
     | Some thd \<Rightarrow>
         if pid = m_creator_pid thd then
           (if s_is_thd a (sy_w s) then
              (if m_is_activated thd \<and> \<not> m_is_canceled thd then
                 (case m_pthd thd of
                    Some k \<Rightarrow> (pthread_cancel k s, GALLUS_RESULT_OK)
                  | None \<Rightarrow> (s, GALLUS_RESULT_OK))
               else (s, GALLUS_RESULT_OK))
            else (s, GALLUS_RESULT_INVALID_OBJECT))
         else (s, GALLUS_RESULT_NOT_OWNER))"

text \<open>A wait returns: to its caller, or to the destruction it is part of, which goes on.\<close>

definition wait_return :: "nat \<Rightarrow> wait_kind \<Rightarrow> gallus_result_t \<Rightarrow> thread_sys \<Rightarrow> thread_sys" where
  "wait_return i w ret s =
    (if w = For_destroy then set_client i Destroying s else record_event (Returned i ret) (set_client i Idle s))"

text \<open>The check at \<^verbatim>\<open>waitcheck\<close>.\<close>

definition waitcheck :: "nat \<Rightarrow> wait_kind \<Rightarrow> thread \<Rightarrow> thread_sys \<Rightarrow> thread_sys" where
  "waitcheck i w thd s =
    set_client i (if m_is_activated thd then Wait_sleep w else Wait_final w GALLUS_RESULT_OK) s"

definition thread_wait :: "nat \<Rightarrow> int \<Rightarrow> nat \<Rightarrow> wait_kind \<Rightarrow> thread_sys \<Rightarrow> thread_sys" where
  "thread_wait a pid i w s =
    with_thd a
      (\<lambda>thd. if pid = m_creator_pid thd then
               (if s_is_thd a (sy_w s) then
                  (if \<not> m_do_autodelete thd then waitcheck i w thd s
                   else wait_return i w GALLUS_RESULT_NOT_OPERATIONAL s)
                else wait_return i w GALLUS_RESULT_INVALID_OBJECT s)
             else wait_return i w GALLUS_RESULT_NOT_OWNER s) s"

definition wait_started :: "nat \<Rightarrow> nat \<Rightarrow> wait_kind \<Rightarrow> gallus_result_t \<Rightarrow> thread_sys \<Rightarrow> thread_sys" where
  "wait_started a i w ret s =
    with_thd a
      (\<lambda>thd. if m_is_started thd then set_client i (Wait_lock w ret) s else wait_return i w ret s) s"

text \<open>The check at \<^verbatim>\<open>finalcheck\<close>, with \<^verbatim>\<open>m_finalize_lock\<close> held.\<close>

definition finalcheck :: "nat \<Rightarrow> nat \<Rightarrow> wait_kind \<Rightarrow> gallus_result_t \<Rightarrow> thread_sys \<Rightarrow> thread_sys" where
  "finalcheck a i w ret s =
    with_thd a
      (\<lambda>thd. if m_n_finalized_count thd = 0 then set_client i (Final_sleep w) s
             else wait_return i w ret s) s"

text \<open>A destruction cancels the thread, waits without a limit, and destroys.\<close>

definition thread_destroy :: "nat \<Rightarrow> int \<Rightarrow> nat \<Rightarrow> thread_sys \<Rightarrow> thread_sys" where
  "thread_destroy a pid i s =
    (if s_is_thd a (sy_w s) then set_client i (Wait_call For_destroy) (fst (thread_cancel a pid s)) else s)"

definition destroy_object :: "nat \<Rightarrow> thread_sys \<Rightarrow> thread_sys" where
  "destroy_object a s =
    (case s_destroy id a True (sy_w s) of
       None \<Rightarrow> s\<lparr>sy_crash := True\<rparr>
     | Some w \<Rightarrow> record_event Destroyed (s\<lparr>sy_w := w\<rparr>))"

section \<open>Turns\<close>

datatype thread_turn =
    Child_enter nat | Child_sync nat | Child_main nat | Child_return nat gallus_result_t | Child_exit nat
  | Child_cancelled nat | Child_check nat | Child_lock nat | Child_final nat | Child_leave nat
  | Child_autodelete nat | Child_destroy nat | Child_spurious nat
  | Call_start nat bool int | Client_startcheck nat
  | Call_cancel nat
  | Call_wait nat bool | Client_wait nat | Client_timeout nat | Client_started nat | Client_finalcheck nat
  | Call_destroy nat | Client_destroy nat | Client_spurious nat

text \<open>A thread can be cancelled where cancellation is enabled.\<close>

fun cancellable :: "child_pc \<Rightarrow> bool" where
  "cancellable Synced = True"
| "cancellable In_main = True"
| "cancellable (Main_done r) = True"
| "cancellable pc = False"

definition child_at :: "nat \<Rightarrow> thread_sys \<Rightarrow> child_pc option" where
  "child_at k s = (if k < length (sy_ch s) then Some (ch_pc (sy_ch s ! k)) else None)"

definition client_at :: "nat \<Rightarrow> thread_sys \<Rightarrow> client_pc option" where
  "client_at i s = (if i < length (sy_cl s) then Some (sy_cl s ! i) else None)"

fun child_turn :: "nat \<Rightarrow> int \<Rightarrow> thread_turn \<Rightarrow> thread_sys \<Rightarrow> thread_sys option" where
  "child_turn a pid (Child_enter k) s = (if child_at k s = Some New then Some (child_enter a k s) else None)"
| "child_turn a pid (Child_sync k) s = (if child_at k s = Some Sync_woken then Some (child_sync a k s) else None)"
| "child_turn a pid (Child_main k) s = (if child_at k s = Some Synced then Some (child_main a k s) else None)"
| "child_turn a pid (Child_return k r) s =
     (if child_at k s = Some In_main then Some (set_child k (Main_done r) s) else None)"
| "child_turn a pid (Child_exit k) s =
     (case child_at k s of Some (Main_done r) \<Rightarrow> Some (set_child k (Finalize False r) s) | _ \<Rightarrow> None)"
| "child_turn a pid (Child_cancelled k) s =
     (case child_at k s of
        Some pc \<Rightarrow>
          if cancellable pc \<and> ch_cancel (sy_ch s ! k)
          then Some (set_child k (Finalize True GALLUS_RESULT_INTERRUPTED) s) else None
      | None \<Rightarrow> None)"
| "child_turn a pid (Child_check k) s =
     (case child_at k s of Some (Finalize c r) \<Rightarrow> Some (finalize_check a k c r s) | _ \<Rightarrow> None)"
| "child_turn a pid (Child_lock k) s =
     (case child_at k s of
        Some (Validated c r) \<Rightarrow> if sy_owner s = None then Some (finalize_enter a k c r s) else None
      | _ \<Rightarrow> None)"
| "child_turn a pid (Child_final k) s =
     (case child_at k s of Some (Final_locked c r) \<Rightarrow> Some (finalize_final a k c s) | _ \<Rightarrow> None)"
| "child_turn a pid (Child_leave k) s =
     (case child_at k s of Some (Finalized ad) \<Rightarrow> Some (finalize_leave a k ad s) | _ \<Rightarrow> None)"
| "child_turn a pid (Child_autodelete k) s =
     (if child_at k s = Some Autodelete then
        Some (if s_is_thd a (sy_w s) then set_child k Auto_destroy (fst (thread_cancel a pid s))
              else set_child k Gone s)
      else None)"
| "child_turn a pid (Child_destroy k) s =
     (if child_at k s = Some Auto_destroy then
        (case th_heap (sy_w s) a of
           Some thd \<Rightarrow> if m_do_autodelete thd then Some (set_child k Gone (destroy_object a s)) else None
         | None \<Rightarrow> Some (s\<lparr>sy_crash := True\<rparr>))
      else None)"
| "child_turn a pid (Child_spurious k) s =
     (if child_at k s = Some Sync_wait then Some (set_child k Sync_woken s) else None)"
| "child_turn a pid u s = None"

text \<open>
  The wait of an object's own thread for its deletion does not sleep: the object is one that is deleted
  automatically, and such a wait returns at once. A thread that finds that a later start has taken this
  back is not followed.
\<close>

fun client_turn :: "nat \<Rightarrow> int \<Rightarrow> thread_turn \<Rightarrow> thread_sys \<Rightarrow> thread_sys option" where
  "client_turn a pid (Call_start i ad st) s =
     (if client_at i s = Some Idle then Some (thread_start a i ad st s) else None)"
| "client_turn a pid (Client_startcheck i) s =
     (if client_at i s = Some Start_woken then Some (thread_startcheck a i s) else None)"
| "client_turn a pid (Call_cancel i) s =
     (if client_at i s = Some Idle then (let (s, ret) = thread_cancel a pid s in Some (record_event (Returned i ret) s))
      else None)"
| "client_turn a pid (Call_wait i timed) s =
     (if client_at i s = Some Idle then Some (set_client i (Wait_call (if timed then Limited else Forever)) s) else None)"
| "client_turn a pid (Client_wait i) s =
     (case client_at i s of
        Some (Wait_call w) \<Rightarrow> Some (thread_wait a pid i w s)
      | Some (Wait_woken w) \<Rightarrow> Some (with_thd a (\<lambda>thd. waitcheck i w thd s) s)
      | _ \<Rightarrow> None)"
| "client_turn a pid (Client_timeout i) s =
     (case client_at i s of
        Some (Wait_sleep Limited) \<Rightarrow> Some (set_client i (Wait_final Limited GALLUS_RESULT_TIMEDOUT) s)
      | Some (Final_sleep Limited) \<Rightarrow>
          if sy_owner s = None then Some (with_thd a (\<lambda>thd. wait_return i Limited GALLUS_RESULT_TIMEDOUT s) s) else None
      | _ \<Rightarrow> None)"
| "client_turn a pid (Client_started i) s =
     (case client_at i s of
        Some (Wait_final w ret) \<Rightarrow> Some (wait_started a i w ret s)
      | _ \<Rightarrow> None)"
| "client_turn a pid (Client_finalcheck i) s =
     (if sy_owner s = None then
        (case client_at i s of
           Some (Wait_lock w ret) \<Rightarrow> Some (finalcheck a i w ret s)
         | Some (Final_woken w) \<Rightarrow> Some (finalcheck a i w GALLUS_RESULT_OK s)
         | _ \<Rightarrow> None)
      else None)"
| "client_turn a pid (Call_destroy i) s =
     (if client_at i s = Some Idle then Some (thread_destroy a pid i s) else None)"
| "client_turn a pid (Client_destroy i) s =
     (if client_at i s = Some Destroying then Some (set_client i Idle (destroy_object a s)) else None)"
| "client_turn a pid (Client_spurious i) s =
     (case client_at i s of
        Some pc \<Rightarrow>
          (let pc' = wake_start_client (wake_wait_client (wake_final_client pc))
           in if pc' \<noteq> pc then Some (set_client i pc' s) else None)
      | None \<Rightarrow> None)"
| "client_turn a pid u s = None"

definition thread_turn :: "nat \<Rightarrow> int \<Rightarrow> thread_turn \<Rightarrow> thread_sys \<Rightarrow> thread_sys option" where
  "thread_turn a pid u s = (case child_turn a pid u s of Some s' \<Rightarrow> Some s' | None \<Rightarrow> client_turn a pid u s)"

fun thread_turns :: "nat \<Rightarrow> int \<Rightarrow> thread_turn list \<Rightarrow> thread_sys \<Rightarrow> thread_sys option" where
  "thread_turns a pid [] s = Some s"
| "thread_turns a pid (u # us) s =
     (case thread_turn a pid u s of Some s' \<Rightarrow> thread_turns a pid us s' | None \<Rightarrow> None)"

definition thread_sys_start :: "nat \<Rightarrow> thread_world \<Rightarrow> thread_sys" where
  "thread_sys_start n w =
     \<lparr>sy_w = w, sy_ch = [], sy_cl = replicate n Idle, sy_owner = None, sy_events = [], sy_crash = False,
      sy_stale = False\<rparr>"

end
