(* ===== verification/Thread_Inv.thy ===== *)
theory Thread_Inv
  imports Thread_Run
begin

text \<open>
  What a thread object promises to clients that use it as its header asks: one start at a time, no call
  on an object that is being destroyed or that deletes itself, a destruction when no other call is under
  way. The invariant relates the flags of the object to where the spawned threads and the clients are.
\<close>

section \<open>Politeness\<close>

fun starting :: "client_pc \<Rightarrow> bool" where
  "starting Start_sleep = True"
| "starting Start_woken = True"
| "starting pc = False"

fun in_destroy :: "client_pc \<Rightarrow> bool" where
  "in_destroy (Wait_call w) = (w = For_destroy)"
| "in_destroy (Wait_sleep w) = (w = For_destroy)"
| "in_destroy (Wait_woken w) = (w = For_destroy)"
| "in_destroy (Wait_final w ret) = (w = For_destroy)"
| "in_destroy (Wait_lock w ret) = (w = For_destroy)"
| "in_destroy (Final_sleep w) = (w = For_destroy)"
| "in_destroy (Final_woken w) = (w = For_destroy)"
| "in_destroy Destroying = True"
| "in_destroy pc = False"

definition deletes_itself :: "nat \<Rightarrow> thread_sys \<Rightarrow> bool" where
  "deletes_itself a s = (case th_heap (sy_w s) a of Some thd \<Rightarrow> m_do_autodelete thd | None \<Rightarrow> False)"

definition no_client :: "(client_pc \<Rightarrow> bool) \<Rightarrow> thread_sys \<Rightarrow> bool" where
  "no_client P s \<longleftrightarrow> list_all (\<lambda>pc. \<not> P pc) (sy_cl s)"

definition others_idle :: "nat \<Rightarrow> client_pc list \<Rightarrow> bool" where
  "others_idle i cl \<longleftrightarrow> list_all (\<lambda>j. j = i \<or> cl ! j = Idle) [0..<length cl]"

fun polite :: "nat \<Rightarrow> thread_turn \<Rightarrow> thread_sys \<Rightarrow> bool" where
  "polite a (Call_start i ad st) s \<longleftrightarrow>
     s_is_thd a (sy_w s) \<and> \<not> deletes_itself a s \<and> no_client starting s \<and> no_client in_destroy s \<and>
     (ad \<longrightarrow> others_idle i (sy_cl s))"
| "polite a (Call_cancel i) s \<longleftrightarrow> s_is_thd a (sy_w s) \<and> \<not> deletes_itself a s \<and> no_client in_destroy s"
| "polite a (Call_wait i timed) s \<longleftrightarrow> s_is_thd a (sy_w s) \<and> \<not> deletes_itself a s \<and> no_client in_destroy s"
| "polite a (Call_destroy i) s \<longleftrightarrow> s_is_thd a (sy_w s) \<and> \<not> deletes_itself a s \<and> others_idle i (sy_cl s)"
| "polite a u s \<longleftrightarrow> True"

fun polite_turns :: "nat \<Rightarrow> int \<Rightarrow> thread_turn list \<Rightarrow> thread_sys \<Rightarrow> bool" where
  "polite_turns a pid [] s \<longleftrightarrow> True"
| "polite_turns a pid (u # us) s \<longleftrightarrow>
     polite a u s \<and> (case thread_turn a pid u s of Some s' \<Rightarrow> polite_turns a pid us s' | None \<Rightarrow> True)"

section \<open>The invariant\<close>

text \<open>A thread that has not been through the final procedure; one that holds \<^verbatim>\<open>m_finalize_lock\<close>; one that has taken it.\<close>

fun live :: "child_pc \<Rightarrow> bool" where
  "live (Finalized ad) = False"
| "live Autodelete = False"
| "live Auto_destroy = False"
| "live Gone = False"
| "live pc = True"

fun holder :: "child_pc \<Rightarrow> bool" where
  "holder (Final_locked c r) = True"
| "holder (Finalized ad) = True"
| "holder pc = False"

fun past_lock :: "child_pc \<Rightarrow> bool" where
  "past_lock (Final_locked c r) = True"
| "past_lock pc = (\<not> live pc)"

fun auto :: "child_pc \<Rightarrow> bool" where
  "auto (Finalized ad) = ad"
| "auto Autodelete = True"
| "auto Auto_destroy = True"
| "auto pc = False"

fun unacknowledged :: "child_pc \<Rightarrow> bool" where
  "unacknowledged New = True"
| "unacknowledged Sync_wait = True"
| "unacknowledged Sync_woken = True"
| "unacknowledged pc = False"

text \<open>The flags of the object, with the earlier threads and the last one.\<close>

definition children_ok :: "thread \<Rightarrow> nat option \<Rightarrow> child_pc list \<Rightarrow> child_pc \<Rightarrow> bool" where
  "children_ok thd owner olds pc \<longleftrightarrow>
     (\<forall>x \<in> set olds. x = Gone \<or> x = Finalized False) \<and>
     m_pthd thd = (if live pc then Some (length olds) else None) \<and>
     m_is_activated thd = (live pc \<and> pc \<noteq> New) \<and>
     m_is_started thd = (pc \<noteq> New) \<and>
     m_n_finalized_count thd = (if live pc then 0 else 1) \<and>
     (\<forall>k. owner = Some k \<longleftrightarrow> k < length olds \<and> olds ! k = Finalized False \<or> k = length olds \<and> holder pc) \<and>
     (past_lock pc \<longrightarrow> (\<forall>x \<in> set olds. x = Gone)) \<and>
     (auto pc \<longrightarrow> m_do_autodelete thd)"

definition no_children_ok :: "thread \<Rightarrow> nat option \<Rightarrow> bool" where
  "no_children_ok thd owner \<longleftrightarrow>
     m_pthd thd = None \<and> \<not> m_is_activated thd \<and> \<not> m_is_started thd \<and> m_n_finalized_count thd = 0 \<and> owner = None"

text \<open>
  The clients: at most one starts; it does so while the last thread waits to be acknowledged, and some
  does while that thread has not run; one that destroys is alone, and when it is about to destroy all
  threads have ended; no one is in another call when the object deletes itself.
\<close>

definition one_starter :: "client_pc list \<Rightarrow> bool" where
  "one_starter cl \<longleftrightarrow> (\<forall>i < length cl. \<forall>j < length cl. starting (cl ! i) \<longrightarrow> starting (cl ! j) \<longrightarrow> i = j)"

definition starter :: "client_pc list \<Rightarrow> bool" where
  "starter cl \<longleftrightarrow> (\<exists>pc \<in> set cl. starting pc)"

definition alone :: "(client_pc \<Rightarrow> bool) \<Rightarrow> client_pc list \<Rightarrow> bool" where
  "alone P cl \<longleftrightarrow> (\<forall>i < length cl. P (cl ! i) \<longrightarrow> (\<forall>j < length cl. j \<noteq> i \<longrightarrow> cl ! j = Idle))"

definition clients_ok :: "thread \<Rightarrow> bool \<Rightarrow> bool \<Rightarrow> bool \<Rightarrow> client_pc list \<Rightarrow> bool" where
  "clients_ok thd ack new gone cl \<longleftrightarrow>
     one_starter cl \<and> (starter cl \<longrightarrow> ack \<and> \<not> m_startup_sync_done thd) \<and> (new \<longrightarrow> starter cl) \<and>
     alone in_destroy cl \<and> (\<forall>pc \<in> set cl. in_destroy pc \<longrightarrow> \<not> m_do_autodelete thd) \<and>
     (Destroying \<in> set cl \<longrightarrow> gone) \<and>
     (m_do_autodelete thd \<longrightarrow> (\<forall>pc \<in> set cl. pc = Idle \<or> starting pc))"

definition all_gone :: "child list \<Rightarrow> bool" where
  "all_gone cs \<longleftrightarrow> list_all (\<lambda>c. ch_pc c = Gone) cs"

definition thread_ok :: "int \<Rightarrow> thread \<Rightarrow> thread_sys \<Rightarrow> bool" where
  "thread_ok pid thd s \<longleftrightarrow>
     m_creator_pid thd = pid \<and>
     (if sy_ch s = [] then no_children_ok thd (sy_owner s) \<and> clients_ok thd False False True (sy_cl s)
      else children_ok thd (sy_owner s) (map ch_pc (butlast (sy_ch s))) (ch_pc (last (sy_ch s))) \<and>
        clients_ok thd (unacknowledged (ch_pc (last (sy_ch s)))) (ch_pc (last (sy_ch s)) = New)
          (all_gone (sy_ch s)) (sy_cl s))"

definition thread_inv :: "nat \<Rightarrow> int \<Rightarrow> thread_sys \<Rightarrow> bool" where
  "thread_inv a pid s \<longleftrightarrow>
     \<not> sy_crash s \<and> \<not> sy_stale s \<and>
     (if s_is_thd a (sy_w s) then \<exists>thd. th_heap (sy_w s) a = Some thd \<and> thread_ok pid thd s
      else all_gone (sy_ch s) \<and> list_all (\<lambda>pc. pc = Idle) (sy_cl s))"

section \<open>Parts of the state\<close>

lemma clients_ok_map:
  assumes f: "\<And>pc. starting (f pc) = starting pc" "\<And>pc. in_destroy (f pc) = in_destroy pc"
    "\<And>pc. f pc = Idle \<longleftrightarrow> pc = Idle" "\<And>pc. Destroying = f pc \<longleftrightarrow> Destroying = pc"
  shows "clients_ok thd ack new gone (map f cl) = clients_ok thd ack new gone cl"
proof -
  have "one_starter (map f cl) = one_starter cl" by (simp add: one_starter_def f cong: conj_cong)
  moreover have "starter (map f cl) = starter cl" by (simp add: starter_def f)
  moreover have "alone in_destroy (map f cl) = alone in_destroy cl" by (simp add: alone_def f)
  ultimately show ?thesis by (simp add: clients_ok_def f image_iff)
qed

lemma wake_facts:
  "starting (wake_start_client pc) = starting pc" "in_destroy (wake_start_client pc) = in_destroy pc"
  "wake_start_client pc = Idle \<longleftrightarrow> pc = Idle" "Destroying = wake_start_client pc \<longleftrightarrow> Destroying = pc"
  "starting (wake_wait_client pc) = starting pc" "in_destroy (wake_wait_client pc) = in_destroy pc"
  "wake_wait_client pc = Idle \<longleftrightarrow> pc = Idle" "Destroying = wake_wait_client pc \<longleftrightarrow> Destroying = pc"
  "starting (wake_final_client pc) = starting pc" "in_destroy (wake_final_client pc) = in_destroy pc"
  "wake_final_client pc = Idle \<longleftrightarrow> pc = Idle" "Destroying = wake_final_client pc \<longleftrightarrow> Destroying = pc"
  by (cases pc; simp)+

lemmas clients_ok_wake =
  clients_ok_map [of wake_start_client, OF wake_facts(1-4)]
  clients_ok_map [of wake_wait_client, OF wake_facts(5-8)]
  clients_ok_map [of wake_final_client, OF wake_facts(9-12)]

lemma one_starter_update:
  assumes "one_starter cl" "i < length cl" "starting pc \<longrightarrow> starting (cl ! i)"
  shows "one_starter (cl[i := pc])"
  unfolding one_starter_def
proof (intro allI impI)
  fix j k
  assume *: "j < length (cl[i := pc])" "k < length (cl[i := pc])"
    and s: "starting (cl[i := pc] ! j)" "starting (cl[i := pc] ! k)"
  have "starting (cl ! j)" using s(1) assms(2,3) by (cases "j = i") auto
  moreover have "starting (cl ! k)" using s(2) assms(2,3) by (cases "k = i") auto
  ultimately show "j = k" using * assms(1) by (simp add: one_starter_def)
qed

lemma starter_update: "starter (cl[i := pc]) \<Longrightarrow> starting pc \<longrightarrow> starting (cl ! i) \<Longrightarrow> i < length cl \<Longrightarrow> starter cl"
  unfolding starter_def using set_update_subset_insert [of cl i pc] nth_mem by blast

lemma starter_keeps:
  assumes "starter cl" "starting pc = starting (cl ! i)" "i < length cl"
  shows "starter (cl[i := pc])"
proof -
  obtain j where j: "j < length cl" "starting (cl ! j)"
    using assms(1) by (auto simp: starter_def in_set_conv_nth)
  then have "starting (cl[i := pc] ! j)" using assms(2) by (cases "j = i") auto
  with j(1) show ?thesis unfolding starter_def by (metis length_list_update nth_mem)
qed

lemma alone_update:
  assumes "alone P cl" "i < length cl" "cl ! i \<noteq> Idle" "P pc \<longrightarrow> P (cl ! i)"
  shows "alone P (cl[i := pc])"
  unfolding alone_def
proof (intro allI impI)
  fix j k
  assume *: "j < length (cl[i := pc])" "k < length (cl[i := pc])" "k \<noteq> j" and P: "P (cl[i := pc] ! j)"
  from P have "P (cl ! j)" using assms(2,4) by (cases "j = i") auto
  with * assms(1) have "cl ! k = Idle" unfolding alone_def by (metis length_list_update)
  with assms(3) show "cl[i := pc] ! k = Idle" by (cases "k = i") auto
qed

lemma clients_ok_update:
  assumes ok: "clients_ok thd ack new gone cl" and i: "i < length cl" "cl ! i \<noteq> Idle"
    and s: "starting pc = starting (cl ! i) \<or> \<not> starting pc \<and> \<not> new"
    and d: "in_destroy pc \<longrightarrow> in_destroy (cl ! i)" and g: "pc = Destroying \<longrightarrow> gone"
    and ad: "m_do_autodelete thd \<longrightarrow> pc = Idle \<or> starting pc"
  shows "clients_ok thd ack new gone (cl[i := pc])"
proof -
  have sub: "set (cl[i := pc]) \<subseteq> insert pc (set cl)" by (rule set_update_subset_insert)
  have "one_starter (cl[i := pc])" using ok s i by (auto simp: clients_ok_def intro: one_starter_update)
  moreover have "starter (cl[i := pc]) \<longrightarrow> starter cl" using s i starter_update by blast
  moreover have "new \<longrightarrow> starter (cl[i := pc])" using ok s i starter_keeps by (auto simp: clients_ok_def)
  moreover have "alone in_destroy (cl[i := pc])" using ok d i by (auto simp: clients_ok_def intro: alone_update)
  moreover have "in_destroy pc \<longrightarrow> \<not> m_do_autodelete thd" using ok d i nth_mem by (fastforce simp: clients_ok_def)
  ultimately show ?thesis using ok sub g ad by (fastforce simp: clients_ok_def)
qed

lemma clients_ok_weaken:
  assumes "clients_ok thd ack new gone cl" "starter cl \<longrightarrow> ack' \<and> \<not> m_startup_sync_done thd'"
    "new' \<longrightarrow> new" "gone \<longrightarrow> gone'" "m_do_autodelete thd' = m_do_autodelete thd"
  shows "clients_ok thd' ack' new' gone' cl"
  using assms by (auto simp: clients_ok_def)

lemma clients_ok_D:
  assumes "clients_ok thd ack new gone cl"
  shows "starter cl \<Longrightarrow> ack \<and> \<not> m_startup_sync_done thd" "new \<Longrightarrow> starter cl"
  using assms by (auto simp: clients_ok_def)

lemma sys_simps [simp]:
  "sy_w (set_child k pc s) = sy_w s" "sy_cl (set_child k pc s) = sy_cl s" "sy_owner (set_child k pc s) = sy_owner s"
  "sy_crash (set_child k pc s) = sy_crash s" "sy_stale (set_child k pc s) = sy_stale s"
  "sy_w (set_client i cpc s) = sy_w s" "sy_ch (set_client i cpc s) = sy_ch s"
  "sy_owner (set_client i cpc s) = sy_owner s" "sy_cl (set_client i cpc s) = (sy_cl s)[i := cpc]"
  "sy_crash (set_client i cpc s) = sy_crash s" "sy_stale (set_client i cpc s) = sy_stale s"
  "sy_w (record_event e s) = sy_w s" "sy_ch (record_event e s) = sy_ch s" "sy_cl (record_event e s) = sy_cl s"
  "sy_owner (record_event e s) = sy_owner s" "sy_crash (record_event e s) = sy_crash s"
  "sy_stale (record_event e s) = sy_stale s"
  "sy_ch (put_thd a thd s) = sy_ch s" "sy_cl (put_thd a thd s) = sy_cl s" "sy_owner (put_thd a thd s) = sy_owner s"
  "sy_crash (put_thd a thd s) = sy_crash s" "sy_stale (put_thd a thd s) = sy_stale s"
  "th_heap (sy_w (put_thd a thd s)) a = Some thd" "s_is_thd b (sy_w (put_thd a thd s)) = s_is_thd b (sy_w s)"
  "sy_w (notify_startup s) = sy_w s" "sy_owner (notify_startup s) = sy_owner s"
  "sy_crash (notify_startup s) = sy_crash s" "sy_stale (notify_startup s) = sy_stale s"
  "sy_ch (notify_startup s) = map wake_child (sy_ch s)" "sy_cl (notify_startup s) = map wake_start_client (sy_cl s)"
  "sy_w (notify_wait s) = sy_w s" "sy_owner (notify_wait s) = sy_owner s" "sy_ch (notify_wait s) = sy_ch s"
  "sy_crash (notify_wait s) = sy_crash s" "sy_stale (notify_wait s) = sy_stale s"
  "sy_cl (notify_wait s) = map wake_wait_client (sy_cl s)"
  "sy_w (notify_finalize s) = sy_w s" "sy_owner (notify_finalize s) = sy_owner s" "sy_ch (notify_finalize s) = sy_ch s"
  "sy_crash (notify_finalize s) = sy_crash s" "sy_stale (notify_finalize s) = sy_stale s"
  "sy_cl (notify_finalize s) = map wake_final_client (sy_cl s)"
  by (simp_all add: set_child_def set_client_def record_event_def put_thd_def notify_startup_def notify_wait_def
      notify_finalize_def s_is_thd_def)

lemma set_child_last:
  "sy_ch s = cs @ [c] \<Longrightarrow> k = length cs \<Longrightarrow> sy_ch (set_child k pc s) = cs @ [c\<lparr>ch_pc := pc\<rparr>]"
  by (simp add: set_child_def)

lemma wake_olds:
  "\<forall>x \<in> set (map ch_pc cs). x = Gone \<or> x = Finalized False \<Longrightarrow> map wake_child cs = cs"
  by (induction cs) (auto simp: wake_child_def)

section \<open>Turns of a spawned thread\<close>

text \<open>The thread whose turn it is, if it has not ended nor only to leave, is the last one spawned.\<close>

lemma last_child:
  assumes ok: "thread_ok pid thd s" and k: "child_at k s = Some pc" and pc: "pc \<noteq> Gone" "pc \<noteq> Finalized False"
  obtains cs c where "sy_ch s = cs @ [c]" "k = length cs" "ch_pc c = pc" "m_creator_pid thd = pid"
    "children_ok thd (sy_owner s) (map ch_pc cs) pc"
    "clients_ok thd (unacknowledged pc) (pc = New) False (sy_cl s)"
proof -
  have k: "k < length (sy_ch s)" "ch_pc (sy_ch s ! k) = pc" using k by (auto simp: child_at_def split: if_splits)
  then obtain cs c where s: "sy_ch s = cs @ [c]" by (metis length_0_conv less_nat_zero_code rev_exhaust)
  have ch: "children_ok thd (sy_owner s) (map ch_pc cs) (ch_pc c)" and pid: "m_creator_pid thd = pid"
    and cl: "clients_ok thd (unacknowledged (ch_pc c)) (ch_pc c = New) (all_gone (sy_ch s)) (sy_cl s)"
    using ok by (simp_all add: thread_ok_def s)
  have last: "k = length cs"
  proof (rule ccontr)
    assume "k \<noteq> length cs"
    then have "k < length cs" using k(1) s by simp
    then have "ch_pc (cs ! k) \<in> set (map ch_pc cs)" by simp
    moreover have "ch_pc (cs ! k) = pc" using k(2) s \<open>k < length cs\<close> by (simp add: nth_append)
    ultimately show False using ch pc by (auto simp: children_ok_def)
  qed
  then have c: "ch_pc c = pc" using k(2) s by simp
  then have "\<not> all_gone (sy_ch s)" using pc by (simp add: all_gone_def s)
  then show thesis using that [OF s last c pid] ch cl c by simp
qed

text \<open>The invariant after a turn that keeps the earlier threads.\<close>

lemma thread_invI:
  assumes "s_is_thd a (sy_w s)" "th_heap (sy_w s) a = Some thd" "\<not> sy_crash s" "\<not> sy_stale s"
    "m_creator_pid thd = pid" "sy_ch s = cs @ [c]"
    "children_ok thd (sy_owner s) (map ch_pc cs) (ch_pc c)"
    "clients_ok thd (unacknowledged (ch_pc c)) (ch_pc c = New) (all_gone (sy_ch s)) (sy_cl s)"
  shows "thread_inv a pid s"
  using assms by (simp add: thread_inv_def thread_ok_def)

lemma children_ok_step:
  assumes "children_ok thd owner olds pc" "live pc" "live pc'" "pc \<noteq> New" "pc' \<noteq> New" "\<not> holder pc" "\<not> holder pc'"
    "\<not> auto pc'" "\<not> past_lock pc'"
  shows "children_ok thd owner olds pc'"
  using assms by (simp add: children_ok_def)

definition registered :: "nat \<Rightarrow> int \<Rightarrow> thread \<Rightarrow> thread_sys \<Rightarrow> bool" where
  "registered a pid thd s \<longleftrightarrow>
     s_is_thd a (sy_w s) \<and> th_heap (sy_w s) a = Some thd \<and> thread_ok pid thd s \<and> \<not> sy_crash s \<and> \<not> sy_stale s"

lemma registered_D:
  assumes "registered a pid thd s"
  shows "s_is_thd a (sy_w s)" "th_heap (sy_w s) a = Some thd" "thread_ok pid thd s" "\<not> sy_crash s" "\<not> sy_stale s"
  using assms by (simp_all add: registered_def)

lemma inv_child_enter:
  assumes r: "registered a pid thd s" and k: "child_at k s = Some New"
  shows "thread_inv a pid (child_enter a k s)"
proof -
  note D = registered_D [OF r]
  obtain cs c where s: "sy_ch s = cs @ [c]" "k = length cs" "ch_pc c = New" "m_creator_pid thd = pid"
    and ch: "children_ok thd (sy_owner s) (map ch_pc cs) New" and cl: "clients_ok thd True True False (sy_cl s)"
    using last_child [OF D(3) k] by auto
  have olds: "map wake_child cs = cs" using ch by (intro wake_olds) (simp add: children_ok_def)
  have unsynced: "\<not> m_startup_sync_done thd" using clients_ok_D [OF cl] by simp
  let ?thd = "thd\<lparr>m_is_canceled := False, m_is_finalized := False, m_is_activated := True, m_is_started := True\<rparr>"
  have "children_ok ?thd (sy_owner s) (map ch_pc cs) Sync_wait" using ch by (simp add: children_ok_def)
  moreover have "clients_ok ?thd True False False (sy_cl s)"
    using clients_ok_weaken [OF cl, of True ?thd] unsynced by simp
  ultimately show ?thesis
    using D s unsynced
    by (intro thread_invI [where thd = ?thd and cs = cs and c = "c\<lparr>ch_pc := Sync_wait\<rparr>"])
      (simp_all add: child_enter_def with_thd_def sync_done_check_def set_child_def wake_child_def olds
        clients_ok_wake all_gone_def)
qed

lemma inv_sync_done_check:
  assumes r: "registered a pid thd s" and k: "child_at k s = Some Sync_woken"
  shows "thread_inv a pid (child_sync a k s)"
proof -
  note D = registered_D [OF r]
  obtain cs c where s: "sy_ch s = cs @ [c]" "k = length cs" "ch_pc c = Sync_woken" "m_creator_pid thd = pid"
    and ch: "children_ok thd (sy_owner s) (map ch_pc cs) Sync_woken"
    and cl: "clients_ok thd True False False (sy_cl s)"
    using last_child [OF D(3) k] by auto
  have "children_ok thd (sy_owner s) (map ch_pc cs) (if m_startup_sync_done thd then Synced else Sync_wait)"
    using children_ok_step [OF ch] by simp
  moreover have "clients_ok thd (\<not> m_startup_sync_done thd) False False (sy_cl s)"
    using clients_ok_weaken [OF cl, of "\<not> m_startup_sync_done thd" thd] clients_ok_D [OF cl] by auto
  ultimately show ?thesis
    using D s
    by (intro thread_invI [where thd = thd and cs = cs])
      (auto simp: child_sync_def with_thd_def sync_done_check_def set_child_last all_gone_def)
qed

text \<open>A turn that only moves the thread.\<close>

lemma inv_move_child:
  assumes r: "registered a pid thd s" and k: "child_at k s = Some pc"
    and pc: "pc \<notin> {Gone, Finalized False, New}" "live pc" "\<not> holder pc" and pc': "pc' \<noteq> New" "live pc'" "\<not> past_lock pc'"
    "\<not> holder pc'" "\<not> auto pc'" "unacknowledged pc \<Longrightarrow> unacknowledged pc'"
    and s': "sy_w s' = sy_w s" "sy_cl s' = sy_cl s" "sy_owner s' = sy_owner s" "sy_crash s' = sy_crash s"
      "sy_stale s' = sy_stale s" "sy_ch s' = sy_ch (set_child k pc' s)"
  shows "thread_inv a pid s'"
proof -
  note D = registered_D [OF r]
  obtain cs c where s: "sy_ch s = cs @ [c]" "k = length cs" "ch_pc c = pc" "m_creator_pid thd = pid"
    and ch: "children_ok thd (sy_owner s) (map ch_pc cs) pc"
    and cl: "clients_ok thd (unacknowledged pc) (pc = New) False (sy_cl s)"
    using last_child [OF D(3) k] pc(1) by auto
  have gone: "\<not> all_gone (sy_ch s')" using s pc' by (auto simp: s' set_child_last all_gone_def)
  have "children_ok thd (sy_owner s) (map ch_pc cs) pc'" using children_ok_step [OF ch] pc pc' by simp
  moreover have "clients_ok thd (unacknowledged pc') False False (sy_cl s)"
    using clients_ok_weaken [OF cl, of "unacknowledged pc'" thd] clients_ok_D [OF cl] pc' by auto
  ultimately show ?thesis
    using D s pc' gone
    by (intro thread_invI [where thd = thd and cs = cs and c = "c\<lparr>ch_pc := pc'\<rparr>"]) (simp_all add: s' set_child_last)
qed

lemma inv_finalize_enter:
  assumes r: "registered a pid thd s" and k: "child_at k s = Some (Validated c r)" and o: "sy_owner s = None"
  shows "thread_inv a pid (finalize_enter a k c r s)"
proof -
  note D = registered_D [OF r]
  obtain cs d where s: "sy_ch s = cs @ [d]" "k = length cs" "ch_pc d = Validated c r" "m_creator_pid thd = pid"
    and ch: "children_ok thd None (map ch_pc cs) (Validated c r)"
    and cl: "clients_ok thd False False False (sy_cl s)"
    using last_child [OF D(3) k] o by auto
  let ?thd = "thd\<lparr>m_is_canceled := c, m_result_code := r\<rparr>"
  have free: "x = Gone" if "x \<in> set (map ch_pc cs)" for x
  proof -
    from that obtain j where j: "j < length (map ch_pc cs)" "map ch_pc cs ! j = x" by (metis in_set_conv_nth)
    moreover have "x \<noteq> Finalized False" using ch j by (auto simp: children_ok_def)
    ultimately show ?thesis using ch that by (auto simp: children_ok_def)
  qed
  then have "map ch_pc cs ! j = Gone" if "j < length cs" for j using that nth_mem by fastforce
  then have "children_ok ?thd (Some k) (map ch_pc cs) (Final_locked c r)"
    using ch free s(2) by (auto simp: children_ok_def)
  moreover have "clients_ok ?thd False False False (sy_cl s)"
    using clients_ok_weaken [OF cl, of False ?thd] clients_ok_D [OF cl] by auto
  ultimately show ?thesis
    using D s
    by (intro thread_invI [where thd = ?thd and cs = cs and c = "d\<lparr>ch_pc := Final_locked c r\<rparr>"])
      (simp_all add: finalize_enter_def with_thd_def set_child_last all_gone_def put_thd_def s_is_thd_def set_child_def)
qed

lemma inv_finalize_final:
  assumes r: "registered a pid thd s" and k: "child_at k s = Some (Final_locked c r)"
  shows "thread_inv a pid (finalize_final a k c s)"
proof -
  note D = registered_D [OF r]
  obtain cs d where s: "sy_ch s = cs @ [d]" "k = length cs" "ch_pc d = Final_locked c r" "m_creator_pid thd = pid"
    and ch: "children_ok thd (sy_owner s) (map ch_pc cs) (Final_locked c r)"
    and cl: "clients_ok thd False False False (sy_cl s)"
    using last_child [OF D(3) k] by auto
  let ?thd = "thd\<lparr>m_pthd := None, m_is_finalized := True, m_is_activated := False,
                m_n_finalized_count := 1\<rparr>"
  have zero: "m_n_finalized_count thd = 0" using ch by (simp add: children_ok_def)
  have "children_ok ?thd (sy_owner s) (map ch_pc cs) (Finalized (m_do_autodelete thd))"
    using ch by (simp add: children_ok_def)
  moreover have "clients_ok ?thd False False False (sy_cl s)"
    using clients_ok_weaken [OF cl, of False ?thd] clients_ok_D [OF cl] by auto
  ultimately show ?thesis
    using D s
    by (intro thread_invI [where thd = ?thd and cs = cs and c = "d\<lparr>ch_pc := Finalized (m_do_autodelete thd)\<rparr>"])
      (simp_all add: finalize_final_def with_thd_def set_child_last clients_ok_wake all_gone_def zero)
qed

text \<open>The end of the section: an earlier thread leaves, or the last one does.\<close>

lemma all_gone_append: "all_gone (cs @ [c]) \<longleftrightarrow> all_gone cs \<and> ch_pc c = Gone"
  by (simp add: all_gone_def)

lemma all_gone_pcs: "all_gone cs \<longleftrightarrow> (\<forall>x \<in> set (map ch_pc cs). x = Gone)"
  by (simp add: all_gone_def list_all_iff)

lemma no_destroying: "clients_ok thd ack new False cl \<Longrightarrow> clients_ok thd ack new gone cl"
  by (simp add: clients_ok_def)

lemma inv_finalize_leave_last:
  assumes r: "registered a pid thd s" and s: "sy_ch s = cs @ [d]" "ch_pc d = Finalized ad" "k = length cs"
  shows "thread_inv a pid (finalize_leave a k ad s)"
proof -
  note D = registered_D [OF r]
  have pid: "m_creator_pid thd = pid" and ch: "children_ok thd (sy_owner s) (map ch_pc cs) (Finalized ad)"
    and cl: "clients_ok thd False False False (sy_cl s)"
    using D(3) s by (simp_all add: thread_ok_def all_gone_append)
  let ?pc = "if ad then Autodelete else Gone"
  have "children_ok thd None (map ch_pc cs) ?pc"
    using ch by (auto simp: children_ok_def dest: bspec [OF _ nth_mem])
  then show ?thesis
    using D s pid no_destroying [OF cl]
    by (intro thread_invI [where thd = thd and cs = cs and c = "d\<lparr>ch_pc := ?pc\<rparr>"])
      (simp_all add: finalize_leave_def with_thd_def set_child_def notify_finalize_def clients_ok_wake s_is_thd_def)
qed

lemma inv_finalize_leave_old:
  assumes r: "registered a pid thd s" and s: "sy_ch s = cs @ [d]" "k < length cs" "ch_pc (cs ! k) = Finalized ad"
  shows "thread_inv a pid (finalize_leave a k ad s)"
proof -
  note D = registered_D [OF r]
  have pid: "m_creator_pid thd = pid" and ch: "children_ok thd (sy_owner s) (map ch_pc cs) (ch_pc d)"
    and cl: "clients_ok thd (unacknowledged (ch_pc d)) (ch_pc d = New) (all_gone (sy_ch s)) (sy_cl s)"
    using D(3) s by (simp_all add: thread_ok_def)
  let ?cs = "cs[k := (cs ! k)\<lparr>ch_pc := Gone\<rparr>]"
  have kn: "k < length (map ch_pc cs)" using s by simp
  have old: "map ch_pc cs ! k = Finalized ad" using s by simp
  then have "Finalized ad \<in> set (map ch_pc cs)" using kn nth_mem by metis
  then have ad: "\<not> ad" and gone: "\<not> all_gone (sy_ch s)" and pl: "\<not> past_lock (ch_pc d)"
    using ch s(1) by (auto simp: children_ok_def all_gone_append all_gone_pcs)
  have holds: "\<And>j. sy_owner s = Some j \<longleftrightarrow> j < length (map ch_pc cs) \<and> map ch_pc cs ! j = Finalized False \<or>
      j = length (map ch_pc cs) \<and> holder (ch_pc d)"
    using ch by (simp add: children_ok_def)
  have o: "sy_owner s = Some k" using holds [of k] old ad kn by simp
  have only: "map ch_pc cs ! j \<noteq> Finalized False" if "j < length cs" "j \<noteq> k" for j
    using holds [of j] that o by auto
  have h: "\<not> holder (ch_pc d)" using holds [of "length cs"] o kn by auto
  have pcs: "map ch_pc ?cs = (map ch_pc cs)[k := Gone]" by (simp add: map_update)
  have "\<forall>x \<in> set ((map ch_pc cs)[k := Gone]). x = Gone \<or> x = Finalized False"
    using ch set_update_subset_insert [of "map ch_pc cs" k Gone] by (auto simp: children_ok_def)
  moreover have "(map ch_pc cs)[k := Gone] ! j \<noteq> Finalized False" if "j < length cs" for j
    using only [OF that] that by (cases "j = k") auto
  ultimately have "children_ok thd None ((map ch_pc cs)[k := Gone]) (ch_pc d)"
    using ch pl h unfolding children_ok_def by simp
  moreover have "clients_ok thd (unacknowledged (ch_pc d)) (ch_pc d = New) gone' (sy_cl s)" for gone'
    using cl gone by (simp add: no_destroying)
  ultimately show ?thesis
    using D s pid ad
    by (intro thread_invI [where thd = thd and cs = ?cs and c = d])
      (simp_all add: finalize_leave_def with_thd_def set_child_def notify_finalize_def clients_ok_wake s_is_thd_def
        pcs list_update_append nth_append del: map_update)
qed

lemma inv_finalize_leave:
  assumes r: "registered a pid thd s" and k: "child_at k s = Some (Finalized ad)"
  shows "thread_inv a pid (finalize_leave a k ad s)"
proof -
  have k: "k < length (sy_ch s)" "ch_pc (sy_ch s ! k) = Finalized ad" using k by (auto simp: child_at_def split: if_splits)
  then obtain cs d where s: "sy_ch s = cs @ [d]" by (metis length_0_conv less_nat_zero_code rev_exhaust)
  show ?thesis
  proof (cases "k = length cs")
    case True
    then show ?thesis using inv_finalize_leave_last [OF r s, of ad k] k(2) s by simp
  next
    case False
    then show ?thesis using inv_finalize_leave_old [OF r s, of k ad] k s by (simp add: nth_append)
  qed
qed

text \<open>Cancelling only marks a thread that has not ended.\<close>

lemma thread_cancel_live:
  assumes r: "registered a pid thd s"
  shows "\<exists>cs'. fst (thread_cancel a pid s) = s\<lparr>sy_ch := cs'\<rparr> \<and> map ch_pc cs' = map ch_pc (sy_ch s)"
proof (cases "m_is_activated thd \<and> \<not> m_is_canceled thd \<and> m_pthd thd \<noteq> None")
  case False
  then show ?thesis
    using registered_D [OF r] by (auto simp: thread_cancel_def thread_ok_def split: option.splits intro: exI [of _ "sy_ch s"])
next
  case True
  note D = registered_D [OF r]
  from True obtain k where k: "m_pthd thd = Some k" by blast
  have pid: "m_creator_pid thd = pid" using D(3) by (simp add: thread_ok_def)
  have "sy_ch s \<noteq> []" using D(3) True by (auto simp: thread_ok_def no_children_ok_def)
  then obtain cs d where s: "sy_ch s = cs @ [d]" by (meson rev_exhaust)
  have ch: "children_ok thd (sy_owner s) (map ch_pc cs) (ch_pc d)" using D(3) s by (simp add: thread_ok_def)
  then have kl: "k = length cs" "live (ch_pc d)" using k by (auto simp: children_ok_def split: if_splits)
  then have "ch_pc d \<noteq> Gone" by auto
  then have "fst (thread_cancel a pid s) = s\<lparr>sy_ch := cs @ [d\<lparr>ch_cancel := True\<rparr>]\<rparr>"
    using D(1,2) True k kl pid s by (simp add: thread_cancel_def pthread_cancel_def)
  then show ?thesis using s by auto
qed

lemma map_pcs_last:
  "map ch_pc cs = map ch_pc ds \<Longrightarrow>
   all_gone cs = all_gone ds \<and> (cs = [] \<longleftrightarrow> ds = []) \<and>
   (ds \<noteq> [] \<longrightarrow> map ch_pc (butlast cs) = map ch_pc (butlast ds) \<and> ch_pc (last cs) = ch_pc (last ds))"
  by (metis all_gone_pcs last_map map_butlast map_is_Nil_conv)

lemma registered_cancel:
  assumes r: "registered a pid thd s"
  shows "registered a pid thd (fst (thread_cancel a pid s))"
    "sy_cl (fst (thread_cancel a pid s)) = sy_cl s"
    "child_at k (fst (thread_cancel a pid s)) = child_at k s"
proof -
  obtain cs where cs: "fst (thread_cancel a pid s) = s\<lparr>sy_ch := cs\<rparr>" "map ch_pc cs = map ch_pc (sy_ch s)"
    using thread_cancel_live [OF r] by blast
  note same = map_pcs_last [OF cs(2)]
  show "registered a pid thd (fst (thread_cancel a pid s))"
    using r same by (auto simp: registered_def cs(1) thread_ok_def)
  show "sy_cl (fst (thread_cancel a pid s)) = sy_cl s" by (simp add: cs(1))
  show "child_at k (fst (thread_cancel a pid s)) = child_at k s"
    using cs by (auto simp: child_at_def dest: map_eq_imp_length_eq) (metis nth_map)
qed

lemma registered_inv: "registered a pid thd s \<Longrightarrow> thread_inv a pid s"
  by (auto simp: registered_def thread_inv_def)

section \<open>Turns of a client\<close>

text \<open>The invariant after a turn that changes only one client, which was in a call.\<close>

lemma inv_move_client:
  assumes r: "registered a pid thd s" and i: "client_at i s = Some cpc" "cpc \<noteq> Idle"
    and pc: "starting pc = starting cpc \<or> \<not> starting pc \<and> \<not> new_child" "in_destroy pc \<longrightarrow> in_destroy cpc"
    "pc = Destroying \<longrightarrow> all_gone (sy_ch s)" "m_do_autodelete thd \<longrightarrow> pc = Idle \<or> starting pc"
    and new: "new_child \<longleftrightarrow> sy_ch s \<noteq> [] \<and> ch_pc (last (sy_ch s)) = New"
    and s': "sy_w s' = sy_w s" "sy_ch s' = sy_ch s" "sy_owner s' = sy_owner s" "sy_crash s' = sy_crash s"
      "sy_stale s' = sy_stale s" "sy_cl s' = (sy_cl s)[i := pc]"
  shows "thread_inv a pid s'"
proof -
  note D = registered_D [OF r]
  have il: "i < length (sy_cl s)" "sy_cl s ! i = cpc" using i(1) by (auto simp: client_at_def split: if_splits)
  have upd: "clients_ok thd ack nw gone ((sy_cl s)[i := pc])"
    if "clients_ok thd ack nw gone (sy_cl s)" "nw \<longrightarrow> new_child" "all_gone (sy_ch s) \<longrightarrow> gone" for ack nw gone
    using that il i(2) pc by (intro clients_ok_update) auto
  show ?thesis
  proof (cases "sy_ch s = []")
    case True
    then have "clients_ok thd False False True ((sy_cl s)[i := pc])"
      using D(3) by (intro upd) (simp_all add: thread_ok_def)
    then show ?thesis using D True by (simp add: thread_inv_def thread_ok_def s')
  next
    case False
    let ?l = "ch_pc (last (sy_ch s))"
    have "clients_ok thd (unacknowledged ?l) (?l = New) (all_gone (sy_ch s)) ((sy_cl s)[i := pc])"
      using D(3) False new by (intro upd) (simp_all add: thread_ok_def)
    then show ?thesis using D False by (simp add: thread_inv_def thread_ok_def s')
  qed
qed

text \<open>A client that is no starter moves within its call.\<close>

lemma inv_move_waiter:
  assumes "registered a pid thd s" "client_at i s = Some cpc" "cpc \<noteq> Idle" "\<not> starting cpc" "\<not> starting pc"
    "in_destroy pc \<longrightarrow> in_destroy cpc" "pc = Destroying \<longrightarrow> all_gone (sy_ch s)"
    "sy_w s' = sy_w s" "sy_ch s' = sy_ch s" "sy_owner s' = sy_owner s" "sy_crash s' = sy_crash s"
    "sy_stale s' = sy_stale s" "sy_cl s' = (sy_cl s)[i := pc]"
  shows "thread_inv a pid s'"
proof -
  have il: "i < length (sy_cl s)" "sy_cl s ! i = cpc" using assms(2) by (auto simp: client_at_def split: if_splits)
  then have "cpc \<in> set (sy_cl s)" using nth_mem by metis
  then have "\<not> m_do_autodelete thd"
    using registered_D(3) [OF assms(1)] assms(3,4) by (auto simp: thread_ok_def clients_ok_def split: if_splits)
  then show ?thesis
    using inv_move_client [OF assms(1-3), of pc, OF _ assms(6,7) _ _ assms(8-13)] assms(4,5) by blast
qed

text \<open>What a destruction that is past its wait has found.\<close>

lemma not_started_gone:
  assumes "registered a pid thd s" "client_at i s = Some cpc" "in_destroy cpc" "\<not> m_is_started thd"
  shows "all_gone (sy_ch s)"
proof (cases "sy_ch s = []")
  case True
  then show ?thesis by (simp add: all_gone_def)
next
  case False
  note D = registered_D [OF assms(1)]
  have il: "i < length (sy_cl s)" "sy_cl s ! i = cpc" using assms(2) by (auto simp: client_at_def split: if_splits)
  have new: "ch_pc (last (sy_ch s)) = New" using D(3) False assms(4) by (simp add: thread_ok_def children_ok_def)
  then have cl: "clients_ok thd True True (all_gone (sy_ch s)) (sy_cl s)" using D(3) False by (simp add: thread_ok_def)
  then have "alone in_destroy (sy_cl s)" "starter (sy_cl s)" by (simp_all add: clients_ok_def)
  then obtain j where j: "j < length (sy_cl s)" "starting (sy_cl s ! j)" by (auto simp: starter_def in_set_conv_nth)
  show ?thesis
  proof (cases "j = i")
    case True
    then show ?thesis using j il assms(3) by (cases cpc) auto
  next
    case False
    then have "sy_cl s ! j = Idle" using \<open>alone in_destroy (sy_cl s)\<close> il assms(3) j(1) unfolding alone_def by blast
    then show ?thesis using j(2) by simp
  qed
qed

lemma finalized_gone:
  assumes "registered a pid thd s" "sy_owner s = None" "m_n_finalized_count thd \<noteq> 0" "\<not> m_do_autodelete thd"
  shows "all_gone (sy_ch s)"
proof (cases "sy_ch s = []")
  case True
  then show ?thesis by (simp add: all_gone_def)
next
  case False
  then obtain cs d where s: "sy_ch s = cs @ [d]" by (meson rev_exhaust)
  have ch: "children_ok thd None (map ch_pc cs) (ch_pc d)"
    using registered_D(3) [OF assms(1)] s assms(2) by (simp add: thread_ok_def)
  then have dead: "\<not> live (ch_pc d)" "\<not> holder (ch_pc d)" "\<not> auto (ch_pc d)"
    using assms(3,4) by (auto simp: children_ok_def split: if_splits)
  then have "ch_pc d = Gone" "past_lock (ch_pc d)" by (cases "ch_pc d"; auto)+
  then show ?thesis using ch by (simp add: s all_gone_append all_gone_pcs children_ok_def)
qed

lemma in_destroy_keeps:
  assumes "registered a pid thd s" "client_at i s = Some cpc" "in_destroy cpc"
  shows "\<not> m_do_autodelete thd"
proof -
  have "cpc \<in> set (sy_cl s)" using assms(2) nth_mem by (auto simp: client_at_def split: if_splits)
  then show ?thesis using registered_D(3) [OF assms(1)] assms(3) by (auto simp: thread_ok_def clients_ok_def split: if_splits)
qed

lemma wait_return_fields:
  "sy_w (wait_return i w ret s) = sy_w s" "sy_ch (wait_return i w ret s) = sy_ch s"
  "sy_owner (wait_return i w ret s) = sy_owner s" "sy_crash (wait_return i w ret s) = sy_crash s"
  "sy_stale (wait_return i w ret s) = sy_stale s"
  "sy_cl (wait_return i w ret s) = (sy_cl s)[i := (if w = For_destroy then Destroying else Idle)]"
  by (simp_all add: wait_return_def)

text \<open>The turns of a wait.\<close>

lemma inv_waitcheck:
  assumes r: "registered a pid thd s" and i: "client_at i s = Some cpc" "cpc \<in> {Wait_call w, Wait_woken w}"
  shows "thread_inv a pid (waitcheck i w thd s)"
  using i by (intro inv_move_waiter [OF r i(1)]) (auto simp: waitcheck_def)

lemma inv_thread_wait:
  assumes r: "registered a pid thd s" and i: "client_at i s = Some (Wait_call w)"
  shows "thread_inv a pid (thread_wait a pid i w s)"
proof -
  note D = registered_D [OF r]
  have pid: "m_creator_pid thd = pid" using D(3) by (simp add: thread_ok_def)
  show ?thesis
  proof (cases "m_do_autodelete thd")
    case True
    then have "w \<noteq> For_destroy" using in_destroy_keeps [OF r i] by auto
    then show ?thesis using D pid True
      by (intro inv_move_waiter [OF r i]) (auto simp: thread_wait_def with_thd_def wait_return_fields)
  next
    case False
    then show ?thesis using D pid inv_waitcheck [OF r i] by (simp add: thread_wait_def with_thd_def)
  qed
qed

lemma inv_wait_started:
  assumes r: "registered a pid thd s" and i: "client_at i s = Some (Wait_final w ret)"
  shows "thread_inv a pid (wait_started a i w ret s)"
proof (cases "m_is_started thd")
  case True
  then show ?thesis using registered_D [OF r]
    by (intro inv_move_waiter [OF r i]) (auto simp: wait_started_def with_thd_def)
next
  case False
  have "w = For_destroy \<longrightarrow> all_gone (sy_ch s)" using not_started_gone [OF r i] False by simp
  then show ?thesis using registered_D [OF r] False
    by (intro inv_move_waiter [OF r i]) (auto simp: wait_started_def with_thd_def wait_return_fields)
qed

lemma inv_finalcheck:
  assumes r: "registered a pid thd s" and i: "client_at i s = Some cpc"
    "cpc \<in> {Wait_lock w ret', Final_woken w}" and o: "sy_owner s = None"
  shows "thread_inv a pid (finalcheck a i w ret s)"
proof (cases "m_n_finalized_count thd = 0")
  case True
  then show ?thesis using registered_D [OF r] i
    by (intro inv_move_waiter [OF r i(1)]) (auto simp: finalcheck_def with_thd_def)
next
  case False
  have "w = For_destroy \<longrightarrow> all_gone (sy_ch s)"
    using finalized_gone [OF r o False] in_destroy_keeps [OF r i(1)] i(2) by auto
  then show ?thesis using registered_D [OF r] False i
    by (intro inv_move_waiter [OF r i(1)]) (auto simp: finalcheck_def with_thd_def wait_return_fields)
qed

lemma inv_timeout:
  assumes r: "registered a pid thd s" and t: "client_turn a pid (Client_timeout i) s = Some s'"
  shows "thread_inv a pid s'"
proof -
  from t consider (wait) "client_at i s = Some (Wait_sleep Limited)" | (final) "client_at i s = Some (Final_sleep Limited)"
    by (auto split: option.splits client_pc.splits wait_kind.splits)
  then show ?thesis
  proof cases
    case wait
    then show ?thesis using t
      by (intro inv_move_waiter [OF r wait, of "Wait_final Limited GALLUS_RESULT_TIMEDOUT"]) auto
  next
    case final
    then show ?thesis using t registered_D [OF r]
      by (intro inv_move_waiter [OF r final, of Idle]) (auto simp: with_thd_def wait_return_fields split: if_splits)
  qed
qed

text \<open>The turns of a start.\<close>

lemma inv_startcheck:
  assumes r: "registered a pid thd s" and i: "client_at i s = Some Start_woken"
  shows "thread_inv a pid (thread_startcheck a i s)"
proof -
  note D = registered_D [OF r]
  have il: "i < length (sy_cl s)" "sy_cl s ! i = Start_woken" using i by (auto simp: client_at_def split: if_splits)
  then have starter: "starter (sy_cl s)" unfolding starter_def by (metis nth_mem starting.simps(2))
  show ?thesis
  proof (cases "m_is_started thd")
    case False
    then show ?thesis using D
      by (intro inv_move_client [OF r i]) (auto simp: thread_startcheck_def with_thd_def)
  next
    case True
    have "sy_ch s \<noteq> []" using D(3) True by (auto simp: thread_ok_def no_children_ok_def)
    then obtain cs d where s: "sy_ch s = cs @ [d]" by (meson rev_exhaust)
    let ?pc = "ch_pc d"
    have ch: "children_ok thd (sy_owner s) (map ch_pc cs) ?pc" and pid: "m_creator_pid thd = pid"
      and cl: "clients_ok thd (unacknowledged ?pc) (?pc = New) (all_gone (sy_ch s)) (sy_cl s)"
      using D(3) s by (simp_all add: thread_ok_def)
    have ack: "unacknowledged ?pc" and new: "?pc \<noteq> New"
      using clients_ok_D(1) [OF cl starter] ch True by (simp_all add: children_ok_def)
    have live: "?pc = Sync_wait \<or> ?pc = Sync_woken" using ack new by (cases ?pc) auto
    then have gone: "\<not> all_gone (cs @ [d])" by (auto simp: all_gone_append)
    have ch': "children_ok thd (sy_owner s) (map ch_pc cs) (wake_child_pc ?pc)"
      using live children_ok_step [OF ch, of Sync_woken] by auto
    let ?thd = "thd\<lparr>m_startup_sync_done := True\<rparr>"
    let ?cl = "(sy_cl s)[i := Idle]"
    have one: "one_starter (sy_cl s)" using cl by (simp add: clients_ok_def)
    have none: "\<not> starter ?cl"
    proof
      assume "starter ?cl"
      then obtain j where j: "j < length (sy_cl s)" "starting (?cl ! j)" by (auto simp: starter_def in_set_conv_nth)
      then have "j \<noteq> i" "starting (sy_cl s ! j)" using il by (auto simp: nth_list_update split: if_splits)
      then show False using one il j(1) by (auto simp: one_starter_def)
    qed
    have c0: "clients_ok thd (unacknowledged ?pc) False False ?cl"
      using cl new il s gone by (intro clients_ok_update) auto
    have new': "wake_child_pc ?pc \<noteq> New" using live by auto
    have cl': "clients_ok ?thd (unacknowledged (wake_child_pc ?pc)) False False ?cl"
      using clients_ok_weaken [OF c0, of "unacknowledged (wake_child_pc ?pc)" ?thd False False] none by simp
    have olds: "map wake_child cs = cs" using ch by (intro wake_olds) (simp add: children_ok_def)
    have woken: "(map wake_start_client (sy_cl s))[i := Idle] = map wake_start_client ?cl" by (simp add: map_update)
    have cl'': "clients_ok ?thd (unacknowledged (wake_child_pc ?pc)) (wake_child_pc ?pc = New) False
        ((map wake_start_client (sy_cl s))[i := Idle])"
      using cl' new' by (simp only: woken clients_ok_wake(1))
    have "thread_startcheck a i s =
        record_event (Returned i GALLUS_RESULT_OK) (set_client i Idle (notify_startup (put_thd a ?thd s)))"
      using D True by (simp add: thread_startcheck_def with_thd_def)
    moreover have "children_ok ?thd (sy_owner s) (map ch_pc cs) (wake_child_pc ?pc)"
      using ch' by (simp add: children_ok_def)
    moreover have "\<not> all_gone (cs @ [d\<lparr>ch_pc := wake_child_pc ?pc\<rparr>])" using live by (auto simp: all_gone_append)
    ultimately show ?thesis
      using D s pid cl'' olds
      by (intro thread_invI [where thd = ?thd and cs = cs and c = "d\<lparr>ch_pc := wake_child_pc ?pc\<rparr>"])
        (simp_all add: wake_child_def)
  qed
qed

text \<open>A client that was in no call makes one.\<close>

lemma others_idle_iff: "others_idle i cl \<longleftrightarrow> (\<forall>j < length cl. j \<noteq> i \<longrightarrow> cl ! j = Idle)"
  by (auto simp: others_idle_def list_all_iff)

lemma starter_idle:
  assumes "i < length cl" "cl ! i = Idle" "\<not> starting pc"
  shows "starter (cl[i := pc]) \<longleftrightarrow> starter cl"
  using assms starter_update [of cl i pc] starter_keeps [of cl pc i] by auto

lemma clients_ok_call:
  assumes ok: "clients_ok thd ack new gone cl" and i: "i < length cl" "cl ! i = Idle"
    and pc: "\<not> starting pc" "pc \<noteq> Destroying" "\<not> m_do_autodelete thd"
    and d: "in_destroy pc \<and> others_idle i cl \<or> \<not> in_destroy pc \<and> (\<forall>pc \<in> set cl. \<not> in_destroy pc)"
  shows "clients_ok thd ack new gone (cl[i := pc])"
proof -
  have sub: "set (cl[i := pc]) \<subseteq> insert pc (set cl)" by (rule set_update_subset_insert)
  have "one_starter (cl[i := pc])" using ok i pc by (auto simp: clients_ok_def intro: one_starter_update)
  moreover have "alone in_destroy (cl[i := pc])"
  proof (cases "in_destroy pc")
    case True
    then have idle: "\<And>j. j < length cl \<Longrightarrow> j \<noteq> i \<Longrightarrow> cl ! j = Idle" using d by (auto simp: others_idle_iff)
    show ?thesis
      unfolding alone_def
    proof (intro allI impI)
      fix j k
      assume *: "j < length (cl[i := pc])" "in_destroy (cl[i := pc] ! j)" "k < length (cl[i := pc])" "k \<noteq> j"
      then have "j = i" using idle [of j] by (cases "j = i") auto
      then show "cl[i := pc] ! k = Idle" using * idle [of k] by simp
    qed
  next
    case False
    then have "\<not> in_destroy x" if "x \<in> set (cl[i := pc])" for x using d sub that by auto
    then show ?thesis by (auto simp: alone_def)
  qed
  ultimately show ?thesis
    using ok sub pc starter_idle [OF i pc(1)] by (auto simp: clients_ok_def)
qed

lemma thread_ok_clients:
  assumes "thread_ok pid thd s" "sy_ch s' = sy_ch s" "sy_owner s' = sy_owner s"
    "\<And>ack new gone. clients_ok thd ack new gone (sy_cl s) \<Longrightarrow> clients_ok thd ack new gone (sy_cl s')"
  shows "thread_ok pid thd s'"
  using assms by (simp add: thread_ok_def split: if_splits)

lemma registered_call:
  assumes r: "registered a pid thd s" and i: "client_at i s = Some Idle" and ad: "\<not> m_do_autodelete thd"
    and d: "w = For_destroy \<and> others_idle i (sy_cl s) \<or> w \<noteq> For_destroy \<and> no_client in_destroy s"
  shows "registered a pid thd (set_client i (Wait_call w) s)"
proof -
  have il: "i < length (sy_cl s)" "sy_cl s ! i = Idle" using i by (auto simp: client_at_def split: if_splits)
  have "thread_ok pid thd (set_client i (Wait_call w) s)"
    using il ad d by (intro thread_ok_clients [OF registered_D(3) [OF r]])
      (auto intro!: clients_ok_call simp: no_client_def list_all_iff)
  then show ?thesis using registered_D [OF r] by (simp add: registered_def)
qed

lemma inv_thread_destroy:
  assumes r: "registered a pid thd s" and i: "client_at i s = Some Idle" and ad: "\<not> m_do_autodelete thd"
    and d: "others_idle i (sy_cl s)"
  shows "thread_inv a pid (thread_destroy a pid i s)"
proof -
  have "registered a pid thd (set_client i (Wait_call For_destroy) (fst (thread_cancel a pid s)))"
    using registered_cancel [OF r] i ad d by (intro registered_call) (auto simp: client_at_def split: if_splits)
  then show ?thesis using registered_D [OF r] by (auto simp: thread_destroy_def intro: registered_inv)
qed

lemma inv_record_event: "thread_inv a pid (record_event e s) \<longleftrightarrow> thread_inv a pid s"
  by (simp add: thread_inv_def thread_ok_def)

lemma inv_call_cancel:
  assumes r: "registered a pid thd s"
  shows "thread_inv a pid (fst (thread_cancel a pid s))"
  using registered_inv registered_cancel(1) [OF r] .

text \<open>A start.\<close>

definition startable :: "thread \<Rightarrow> thread_sys \<Rightarrow> bool" where
  "startable thd s \<longleftrightarrow> (\<forall>x \<in> set (map ch_pc (sy_ch s)). x = Gone \<or> x = Finalized False) \<and>
     (\<forall>k. sy_owner s = Some k \<longleftrightarrow> k < length (sy_ch s) \<and> ch_pc (sy_ch s ! k) = Finalized False)"

lemma not_activated_startable:
  assumes r: "registered a pid thd s" and act: "\<not> m_is_activated thd" and ad: "\<not> m_do_autodelete thd"
    and st: "no_client starting s"
  shows "startable thd s"
proof (cases "sy_ch s = []")
  case True
  then show ?thesis using registered_D(3) [OF r] by (simp add: startable_def thread_ok_def no_children_ok_def)
next
  case False
  then obtain cs d where s: "sy_ch s = cs @ [d]" by (meson rev_exhaust)
  have ch: "children_ok thd (sy_owner s) (map ch_pc cs) (ch_pc d)"
    and cl: "clients_ok thd (unacknowledged (ch_pc d)) (ch_pc d = New) (all_gone (sy_ch s)) (sy_cl s)"
    using registered_D(3) [OF r] s by (simp_all add: thread_ok_def)
  have "\<not> starter (sy_cl s)" using st by (simp add: no_client_def starter_def list_all_iff)
  then have "ch_pc d \<noteq> New" using clients_ok_D(2) [OF cl] by blast
  then have "\<not> live (ch_pc d)" "\<not> auto (ch_pc d)" using ch act ad by (auto simp: children_ok_def)
  then have d: "ch_pc d = Gone \<or> ch_pc d = Finalized False" by (cases "ch_pc d") auto
  then show ?thesis
    using ch s by (auto simp: startable_def children_ok_def nth_append less_Suc_eq)
qed

lemma inv_start_fails:
  assumes r: "registered a pid thd s" and i: "client_at i s = Some Idle" and act: "\<not> m_is_activated thd"
    and st: "no_client starting s" "no_client in_destroy s" "ad \<longrightarrow> others_idle i (sy_cl s)" and del: "\<not> m_do_autodelete thd"
  shows "thread_inv a pid (put_thd a (thd\<lparr>m_do_autodelete := ad, m_pthd := None\<rparr>) s)"
proof -
  note D = registered_D [OF r]
  let ?thd = "thd\<lparr>m_do_autodelete := ad, m_pthd := None\<rparr>"
  have pid: "m_creator_pid thd = pid" using D(3) by (simp add: thread_ok_def)
  have il: "i < length (sy_cl s)" "sy_cl s ! i = Idle" using i by (auto simp: client_at_def split: if_splits)
  have idle: "ad \<longrightarrow> (\<forall>pc \<in> set (sy_cl s). pc = Idle)"
    using st(3) il by (auto simp: others_idle_iff in_set_conv_nth)
  have nost: "\<not> starter (sy_cl s)" "\<forall>pc \<in> set (sy_cl s). \<not> in_destroy pc"
    using st by (simp_all add: no_client_def starter_def list_all_iff)
  have cl: "clients_ok ?thd ack new gone (sy_cl s)" if "clients_ok thd ack new gone (sy_cl s)" for ack new gone
    using that idle nost by (auto simp: clients_ok_def)
  show ?thesis
  proof (cases "sy_ch s = []")
    case True
    then show ?thesis using D pid cl by (simp add: thread_inv_def thread_ok_def no_children_ok_def)
  next
    case False
    then obtain cs d where s: "sy_ch s = cs @ [d]" by (meson rev_exhaust)
    have start: "ch_pc d = Gone \<or> ch_pc d = Finalized False"
      using not_activated_startable [OF r act del st(1)] s by (simp add: startable_def)
    then have "children_ok ?thd (sy_owner s) (map ch_pc cs) (ch_pc d)"
      using D(3) s by (auto simp: thread_ok_def children_ok_def)
    then show ?thesis using D pid cl s by (simp add: thread_inv_def thread_ok_def)
  qed
qed

lemma inv_start_spawns:
  assumes r: "registered a pid thd s" and i: "client_at i s = Some Idle" and act: "\<not> m_is_activated thd"
    and st: "no_client starting s" "no_client in_destroy s" "ad \<longrightarrow> others_idle i (sy_cl s)" and del: "\<not> m_do_autodelete thd"
    and thd': "m_pthd thd' = Some (length (sy_ch s))" "\<not> m_is_activated thd'" "\<not> m_is_started thd'"
      "m_n_finalized_count thd' = 0" "\<not> m_startup_sync_done thd'" "m_do_autodelete thd' = ad"
      "m_creator_pid thd' = m_creator_pid thd"
    and s': "s_is_thd a (sy_w s')" "th_heap (sy_w s') a = Some thd'" "sy_owner s' = sy_owner s"
      "sy_crash s' = sy_crash s" "sy_stale s' = sy_stale s" "sy_ch s' = sy_ch s @ [\<lparr>ch_pc = New, ch_cancel = False\<rparr>]"
      "sy_cl s' = (sy_cl s)[i := Start_sleep]"
  shows "thread_inv a pid s'"
proof -
  note D = registered_D [OF r]
  have pid: "m_creator_pid thd = pid" using D(3) by (simp add: thread_ok_def)
  have il: "i < length (sy_cl s)" "sy_cl s ! i = Idle" using i by (auto simp: client_at_def split: if_splits)
  let ?cl = "(sy_cl s)[i := Start_sleep]"
  have sub: "set ?cl \<subseteq> insert Start_sleep (set (sy_cl s))" by (rule set_update_subset_insert)
  have nodst: "\<forall>pc \<in> set ?cl. \<not> in_destroy pc" using sub st(2) by (auto simp: no_client_def list_all_iff)
  have only: "j = i" if "j < length (sy_cl s)" "starting (?cl ! j)" for j
    using that st(1) by (cases "j = i") (auto simp: no_client_def list_all_length)
  have "one_starter ?cl" using only by (auto simp: one_starter_def)
  moreover have "Start_sleep \<in> set ?cl" using il(1) by (rule set_update_memI)
  then have "starter ?cl" unfolding starter_def using starting.simps(1) by blast
  moreover have "alone in_destroy ?cl" using nodst by (auto simp: alone_def)
  moreover have "ad \<longrightarrow> (\<forall>pc \<in> set ?cl. pc = Idle \<or> starting pc)"
    using st(3) il by (auto simp: others_idle_iff in_set_conv_nth nth_list_update)
  moreover have "Destroying \<notin> set ?cl" using nodst by auto
  ultimately have "clients_ok thd' True True False ?cl" using thd' nodst by (simp add: clients_ok_def)
  moreover have "children_ok thd' (sy_owner s) (map ch_pc (sy_ch s)) New"
    using not_activated_startable [OF r act del st(1)] thd' by (auto simp: children_ok_def startable_def)
  ultimately show ?thesis
    using D s' thd' pid
    by (intro thread_invI [where thd = thd' and cs = "sy_ch s" and c = "\<lparr>ch_pc = New, ch_cancel = False\<rparr>"])
      (simp_all add: all_gone_append)
qed

lemma inv_thread_start:
  assumes r: "registered a pid thd s" and i: "client_at i s = Some Idle"
    and pol: "polite a (Call_start i ad st) s"
  shows "thread_inv a pid (thread_start a i ad st s)"
proof -
  note D = registered_D [OF r]
  have st: "no_client starting s" "no_client in_destroy s" "ad \<longrightarrow> others_idle i (sy_cl s)" "\<not> m_do_autodelete thd"
    using pol D(2) by (auto simp: deletes_itself_def)
  consider "m_is_activated thd" | "\<not> m_is_activated thd" "st \<noteq> 0" | "\<not> m_is_activated thd" "st = 0" by blast
  then show ?thesis
  proof cases
    case 1
    then show ?thesis using D registered_inv [OF r] by (simp add: thread_start_def with_thd_def inv_record_event)
  next
    case 2
    then show ?thesis using D inv_start_fails [OF r i 2(1) st]
      by (simp add: thread_start_def with_thd_def inv_record_event)
  next
    case 3
    show ?thesis
      by (rule inv_start_spawns [OF r i 3(1) st])
        (use D 3 in \<open>simp_all add: thread_start_def with_thd_def Let_def put_thd_def set_client_def s_is_thd_def\<close>)
  qed
qed

text \<open>The destruction of the object.\<close>

lemma destroy_object_registered:
  assumes "registered a pid thd s"
  shows "\<not> s_is_thd a (sy_w (destroy_object a s)) \<and> sy_ch (destroy_object a s) = sy_ch s \<and>
    sy_cl (destroy_object a s) = sy_cl s \<and> \<not> sy_crash (destroy_object a s) \<and> \<not> sy_stale (destroy_object a s)"
  using registered_D [OF assms]
  by (auto simp: destroy_object_def s_destroy_def s_delete_thread_object_def s_is_thd_def free_thd_def s_delete_thd_def
      Let_def)

lemma inv_client_destroy:
  assumes r: "registered a pid thd s" and i: "client_at i s = Some Destroying"
  shows "thread_inv a pid (set_client i Idle (destroy_object a s))"
proof -
  have il: "i < length (sy_cl s)" "sy_cl s ! i = Destroying" using i by (auto simp: client_at_def split: if_splits)
  then have mem: "Destroying \<in> set (sy_cl s)" by (metis nth_mem)
  have al: "alone in_destroy (sy_cl s)" and gone: "all_gone (sy_ch s)"
    using registered_D(3) [OF r] mem by (auto simp: thread_ok_def clients_ok_def all_gone_def split: if_splits)
  have "in_destroy (sy_cl s ! i)" using il by simp
  then have "sy_cl s ! j = Idle" if "j < length (sy_cl s)" "j \<noteq> i" for j
    using al il(1) that unfolding alone_def by blast
  then have "(sy_cl s)[i := Idle] ! j = Idle" if "j < length (sy_cl s)" for j
    using that il(1) by (cases "j = i") simp_all
  then have "list_all (\<lambda>pc. pc = Idle) ((sy_cl s)[i := Idle])" by (simp add: list_all_length)
  then show ?thesis using destroy_object_registered [OF r] gone by (simp add: thread_inv_def)
qed

lemma inv_child_destroy:
  assumes r: "registered a pid thd s" and k: "child_at k s = Some Auto_destroy"
  shows "thread_inv a pid (set_child k Gone (destroy_object a s))"
proof -
  obtain cs c where s: "sy_ch s = cs @ [c]" "k = length cs" "ch_pc c = Auto_destroy" "m_creator_pid thd = pid"
    and ch: "children_ok thd (sy_owner s) (map ch_pc cs) Auto_destroy" and cl: "clients_ok thd False False False (sy_cl s)"
    using last_child [OF registered_D(3) [OF r] k] by auto
  have "all_gone cs" "m_do_autodelete thd" using ch by (simp_all add: children_ok_def all_gone_pcs)
  moreover have "\<forall>pc \<in> set (sy_cl s). pc = Idle"
    using cl \<open>m_do_autodelete thd\<close> clients_ok_D(1) [OF cl] by (auto simp: clients_ok_def starter_def)
  ultimately show ?thesis
    using destroy_object_registered [OF r] s
    by (simp add: thread_inv_def set_child_last all_gone_append list_all_iff)
qed

section \<open>Every turn\<close>

text \<open>A turn that is not one of the calls, when the object is gone, does not exist.\<close>

lemma turn_registered:
  assumes inv: "thread_inv a pid s" and pol: "polite a u s" and t: "thread_turn a pid u s = Some s'"
  shows "\<exists>thd. registered a pid thd s"
proof (cases "s_is_thd a (sy_w s)")
  case True
  then show ?thesis using inv by (auto simp: thread_inv_def registered_def)
next
  case False
  then have gone: "child_at k s = Some pc \<Longrightarrow> pc = Gone" and idle: "client_at i s = Some cpc \<Longrightarrow> cpc = Idle"
    for k pc i cpc
    using inv by (auto simp: thread_inv_def all_gone_def list_all_length child_at_def client_at_def split: if_splits)
  have "child_turn a pid u s = None"
    by (cases u) (auto split: option.splits child_pc.splits dest: gone)
  moreover have "client_turn a pid u s = None"
    using False pol by (cases u) (auto split: option.splits client_pc.splits wait_kind.splits dest: idle)
  ultimately show ?thesis using t by (simp add: thread_turn_def)
qed

lemma inv_finalize_check:
  assumes r: "registered a pid thd s" and k: "child_at k s = Some (Finalize c ret)"
  shows "thread_inv a pid (finalize_check a k c ret s)"
  using registered_D(1) [OF r]
  by (intro inv_move_child [OF r k, of "Validated c ret"])
    (simp_all add: finalize_check_def gallus_thread_is_valid_def)

lemma inv_child_autodelete:
  assumes r: "registered a pid thd s" and k: "child_at k s = Some Autodelete"
  shows "thread_inv a pid (set_child k Auto_destroy (fst (thread_cancel a pid s)))"
proof -
  let ?s = "fst (thread_cancel a pid s)"
  have r': "registered a pid thd ?s" and k': "child_at k ?s = Some Autodelete"
    using registered_cancel [OF r] k by simp_all
  note D = registered_D [OF r']
  obtain cs d where s: "sy_ch ?s = cs @ [d]" "k = length cs" "ch_pc d = Autodelete" "m_creator_pid thd = pid"
    and ch: "children_ok thd (sy_owner ?s) (map ch_pc cs) Autodelete" and cl: "clients_ok thd False False False (sy_cl ?s)"
    using last_child [OF D(3) k'] by auto
  have "children_ok thd (sy_owner ?s) (map ch_pc cs) Auto_destroy" using ch by (simp add: children_ok_def)
  then show ?thesis
    using D s cl
    by (intro thread_invI [where thd = thd and cs = cs and c = "d\<lparr>ch_pc := Auto_destroy\<rparr>"])
      (simp_all add: set_child_last all_gone_append)
qed

lemma inv_child_turn:
  assumes r: "registered a pid thd s" and t: "child_turn a pid u s = Some s'"
  shows "thread_inv a pid s'"
proof (cases u)
  case (Child_enter k)
  then show ?thesis using t inv_child_enter [OF r] by (auto split: if_splits)
next
  case (Child_sync k)
  then show ?thesis using t inv_sync_done_check [OF r] by (auto split: if_splits)
next
  case (Child_main k)
  then have k: "child_at k s = Some Synced" and s': "s' = child_main a k s" using t by (auto split: if_splits)
  show ?thesis using registered_D [OF r]
    by (intro inv_move_child [OF r k, of In_main]) (simp_all add: s' child_main_def with_thd_def)
next
  case (Child_return k ret)
  then have k: "child_at k s = Some In_main" and s': "s' = set_child k (Main_done ret) s" using t by (auto split: if_splits)
  show ?thesis by (intro inv_move_child [OF r k, of "Main_done ret"]) (simp_all add: s')
next
  case (Child_exit k)
  then obtain ret where k: "child_at k s = Some (Main_done ret)" and s': "s' = set_child k (Finalize False ret) s"
    using t by (auto split: option.splits child_pc.splits)
  show ?thesis by (intro inv_move_child [OF r k, of "Finalize False ret"]) (simp_all add: s')
next
  case (Child_cancelled k)
  then obtain pc where k: "child_at k s = Some pc" "cancellable pc"
    and s': "s' = set_child k (Finalize True GALLUS_RESULT_INTERRUPTED) s"
    using t by (auto split: option.splits if_splits)
  show ?thesis
    using k(2) by (intro inv_move_child [OF r k(1), of "Finalize True GALLUS_RESULT_INTERRUPTED"]; cases pc) (simp_all add: s')
next
  case (Child_check k)
  then show ?thesis using t inv_finalize_check [OF r] by (auto split: option.splits child_pc.splits)
next
  case (Child_lock k)
  then show ?thesis using t inv_finalize_enter [OF r] by (auto split: option.splits child_pc.splits if_splits)
next
  case (Child_final k)
  then show ?thesis using t inv_finalize_final [OF r] by (auto split: option.splits child_pc.splits)
next
  case (Child_leave k)
  then show ?thesis using t inv_finalize_leave [OF r] by (auto split: option.splits child_pc.splits)
next
  case (Child_autodelete k)
  then show ?thesis using t inv_child_autodelete [OF r] registered_D(1) [OF r] by (auto split: if_splits)
next
  case (Child_destroy k)
  then show ?thesis using t inv_child_destroy [OF r] registered_D(2) [OF r] by (auto split: if_splits)
next
  case (Child_spurious k)
  then have k: "child_at k s = Some Sync_wait" and s': "s' = set_child k Sync_woken s" using t by (auto split: if_splits)
  show ?thesis by (intro inv_move_child [OF r k, of Sync_woken]) (simp_all add: s')
qed (use t in auto)

lemma inv_client_turn:
  assumes r: "registered a pid thd s" and pol: "polite a u s" and t: "client_turn a pid u s = Some s'"
  shows "thread_inv a pid s'"
proof -
  note D = registered_D [OF r]
  have del: "deletes_itself a s = m_do_autodelete thd" using D(2) by (simp add: deletes_itself_def)
  show ?thesis
  proof (cases u)
    case (Call_start i ad st)
    then show ?thesis using t pol inv_thread_start [OF r, of i ad st] by (auto split: if_splits)
  next
    case (Client_startcheck i)
    then show ?thesis using t inv_startcheck [OF r] by (auto split: if_splits)
  next
    case (Call_cancel i)
    then show ?thesis using t inv_call_cancel [OF r] by (auto simp: inv_record_event split: if_splits prod.splits)
  next
    case (Call_wait i timed)
    then show ?thesis
      using t pol del registered_inv [OF registered_call [OF r, of i "if timed then Limited else Forever"]]
      by (auto split: if_splits)
  next
    case (Client_wait i)
    from t Client_wait consider w where "client_at i s = Some (Wait_call w)" "s' = thread_wait a pid i w s"
      | w where "client_at i s = Some (Wait_woken w)" "s' = with_thd a (\<lambda>thd. waitcheck i w thd s) s"
      by (auto split: option.splits client_pc.splits)
    then show ?thesis
      using inv_thread_wait [OF r] inv_waitcheck [OF r] D(2) by cases (auto simp: with_thd_def)
  next
    case (Client_timeout i)
    then show ?thesis using t inv_timeout [OF r] by blast
  next
    case (Client_started i)
    then show ?thesis using t inv_wait_started [OF r] by (auto split: option.splits client_pc.splits)
  next
    case (Client_finalcheck i)
    then show ?thesis using t inv_finalcheck [OF r]
      by (auto split: option.splits client_pc.splits if_splits)
  next
    case (Call_destroy i)
    then show ?thesis using t pol del inv_thread_destroy [OF r] by (auto split: if_splits)
  next
    case (Client_destroy i)
    then show ?thesis using t inv_client_destroy [OF r] by (auto split: if_splits)
  next
    case (Client_spurious i)
    then obtain pc where i: "client_at i s = Some pc"
      and ne: "wake_start_client (wake_wait_client (wake_final_client pc)) \<noteq> pc"
      and s': "s' = set_client i (wake_start_client (wake_wait_client (wake_final_client pc))) s"
      using t by (auto simp: Let_def split: option.splits if_splits)
    then consider "pc = Start_sleep" | w where "pc = Wait_sleep w" | w where "pc = Final_sleep w" by (cases pc) auto
    then show ?thesis
    proof cases
      case 1
      then show ?thesis using i s' by (intro inv_move_client [OF r i, of Start_woken]) auto
    next
      case (2 w)
      then show ?thesis using i s' by (intro inv_move_waiter [OF r i, of "Wait_woken w"]) auto
    next
      case (3 w)
      then show ?thesis using i s' by (intro inv_move_waiter [OF r i, of "Final_woken w"]) auto
    qed
  qed (use t in auto)
qed

lemma thread_inv_step:
  assumes inv: "thread_inv a pid s" and pol: "polite a u s" and t: "thread_turn a pid u s = Some s'"
  shows "thread_inv a pid s'"
proof -
  obtain thd where r: "registered a pid thd s" using turn_registered [OF assms] by blast
  from t consider "child_turn a pid u s = Some s'" | "client_turn a pid u s = Some s'"
    by (auto simp: thread_turn_def split: option.splits)
  then show ?thesis using inv_child_turn [OF r] inv_client_turn [OF r pol] by cases auto
qed

lemma thread_inv_turns:
  "thread_turns a pid us s = Some s' \<Longrightarrow> polite_turns a pid us s \<Longrightarrow> thread_inv a pid s \<Longrightarrow> thread_inv a pid s'"
  by (induction us arbitrary: s) (auto split: option.splits dest: thread_inv_step)

text \<open>A new object.\<close>

lemma thread_inv_start:
  assumes "s_is_thd a w" "th_heap w a = Some thd" "m_creator_pid thd = pid" "no_children_ok thd None"
  shows "thread_inv a pid (thread_sys_start n w)"
  using assms
  by (auto simp: thread_inv_def thread_sys_start_def thread_ok_def clients_ok_def one_starter_def starter_def
      alone_def)

lemma create_new_thread:
  assumes c: "gallus_thread_create ce te (Some h) mainproc finalproc freeproc name arg w = Some (w', Some (Some a), GALLUS_RESULT_OK)"
    and mem: "te_tbl te" and main: "mainproc \<noteq> None"
  obtains thd where "s_is_thd a w'" "th_heap w' a = Some thd" "m_creator_pid thd = te_pid te" "no_children_ok thd None"
    "m_final_proc thd = finalproc" "m_freeup_proc thd = freeproc"
proof -
  have init: "\<exists>thd. s_is_thd b w2 \<and> th_heap w2 b = Some thd \<and> m_creator_pid thd = te_pid te \<and> no_children_ok thd None \<and>
      m_final_proc thd = finalproc \<and> m_freeup_proc thd = freeproc"
    if "s_initialize ce te b al mainproc finalproc freeproc name arg w1 = (w2, GALLUS_RESULT_OK)" for b al w1 w2
    using that mem
    by (auto simp: s_initialize_def s_add_thd_def s_is_thd_def no_children_ok_def thread_zero_def Let_def
        split: prod.splits if_splits)
  obtain al w1 where "s_initialize ce te a al mainproc finalproc freeproc name arg w1 = (w', GALLUS_RESULT_OK)"
    using c main
    by (auto simp: gallus_thread_create_def gallus_thread_create_with_size_def Let_def split: option.splits prod.splits if_splits)
  then show thesis using init that by blast
qed

end
