(* ===== verification/Thread_Laws.thy ===== *)
theory Thread_Laws
  imports Thread_Inv
begin

text \<open>
  The properties of thread objects: what is called for each spawned thread and how often, what a wait
  and a destruction have found when they return, and that a destruction comes to its end. The last
  section has what happens to clients that are not polite.
\<close>

section \<open>Calls of the procedures\<close>

fun before_main :: "child_pc \<Rightarrow> bool" where
  "before_main New = True"
| "before_main Sync_wait = True"
| "before_main Sync_woken = True"
| "before_main Synced = True"
| "before_main pc = False"

definition mains :: "nat \<Rightarrow> thread_event list \<Rightarrow> nat" where
  "mains k es = length (filter (\<lambda>e. e = Called_main k) es)"

fun is_final :: "nat \<Rightarrow> thread_event \<Rightarrow> bool" where
  "is_final k (Called_final j c) = (j = k)"
| "is_final k e = False"

definition finals :: "nat \<Rightarrow> thread_event list \<Rightarrow> nat" where
  "finals k es = length (filter (is_final k) es)"

text \<open>\<open>pcs\<close>: where the threads are; \<open>hasf\<close>: whether the object has a final procedure.\<close>

definition calls_ok :: "bool \<Rightarrow> child_pc list \<Rightarrow> thread_event list \<Rightarrow> bool" where
  "calls_ok hasf pcs es \<longleftrightarrow>
     (\<forall>k. mains k es \<le> 1 \<and>
          (k < length pcs \<longrightarrow> before_main (pcs ! k) \<longrightarrow> mains k es = 0) \<and>
          (k < length pcs \<longrightarrow> finals k es = (if live (pcs ! k) \<or> \<not> hasf then 0 else 1)) \<and>
          (length pcs \<le> k \<longrightarrow> mains k es = 0 \<and> finals k es = 0))"

definition pcs :: "thread_sys \<Rightarrow> child_pc list" where
  "pcs s = map ch_pc (sy_ch s)"

definition has_final :: "nat \<Rightarrow> bool \<Rightarrow> thread_sys \<Rightarrow> bool" where
  "has_final a hasf s \<longleftrightarrow>
     (\<forall>thd. th_heap (sy_w s) a = Some thd \<longrightarrow> (m_final_proc thd \<noteq> None) = hasf)"

lemma calls_ok_event:
  assumes "calls_ok hasf ps es" "\<And>k. e \<noteq> Called_main k" "\<And>k c. e \<noteq> Called_final k c"
  shows "calls_ok hasf ps (es @ [e])"
proof -
  have "mains k (es @ [e]) = mains k es" "finals k (es @ [e]) = finals k es" for k
    using assms(2,3) by (cases e; simp add: mains_def finals_def)+
  then show ?thesis using assms(1) by (simp add: calls_ok_def)
qed

lemma calls_ok_move:
  assumes ok: "calls_ok hasf ps es" and len: "length ps' = length ps"
    and mv: "\<And>k. k < length ps \<Longrightarrow> (before_main (ps' ! k) \<longrightarrow> before_main (ps ! k)) \<and> live (ps' ! k) = live (ps ! k)"
  shows "calls_ok hasf ps' es"
  using ok mv unfolding calls_ok_def len by auto

lemma calls_ok_set:
  assumes "calls_ok hasf ps es" "k < length ps" "before_main pc \<longrightarrow> before_main (ps ! k)" "live pc = live (ps ! k)"
  shows "calls_ok hasf (ps[k := pc]) es"
  using assms by (intro calls_ok_move [OF assms(1)]) (auto simp: nth_list_update)

lemma calls_ok_new: "calls_ok hasf ps es \<Longrightarrow> calls_ok hasf (ps @ [New]) es"
  by (auto simp: calls_ok_def nth_append)

lemma calls_ok_main:
  assumes "calls_ok hasf ps es" "k < length ps" "ps ! k = Synced"
  shows "calls_ok hasf (ps[k := In_main]) (es @ [Called_main k])"
proof -
  have "mains j (es @ [Called_main k]) = mains j es + (if j = k then 1 else 0)" for j by (simp add: mains_def)
  moreover have "finals j (es @ [Called_main k]) = finals j es" for j by (simp add: finals_def)
  moreover have "mains k es = 0" using assms by (simp add: calls_ok_def)
  ultimately show ?thesis using assms by (auto simp: calls_ok_def nth_list_update)
qed

lemma calls_ok_final:
  assumes "calls_ok hasf ps es" "k < length ps" "live (ps ! k)" "\<not> live pc" "\<not> before_main pc"
  shows "calls_ok hasf (ps[k := pc]) (if hasf then es @ [Called_final k c] else es)"
proof -
  have "mains j (es @ [Called_final k c]) = mains j es" for j by (simp add: mains_def)
  moreover have "finals j (es @ [Called_final k c]) = finals j es + (if j = k then 1 else 0)" for j
    by (simp add: finals_def)
  moreover have "finals k es = 0" using assms by (simp add: calls_ok_def)
  ultimately show ?thesis using assms by (auto simp: calls_ok_def nth_list_update)
qed

lemma pcs_simps [simp]:
  "pcs (set_client i cpc s) = pcs s" "pcs (record_event e s) = pcs s" "pcs (put_thd a thd s) = pcs s"
  "pcs (notify_wait s) = pcs s" "pcs (notify_finalize s) = pcs s" "length (pcs s) = length (sy_ch s)"
  "pcs (set_child k pc s) = (pcs s)[k := pc]" "pcs (notify_startup s) = map wake_child_pc (pcs s)"
  "sy_events (set_client i cpc s) = sy_events s" "sy_events (record_event e s) = sy_events s @ [e]"
  "sy_events (put_thd a thd s) = sy_events s" "sy_events (notify_wait s) = sy_events s"
  "sy_events (notify_finalize s) = sy_events s" "sy_events (set_child k pc s) = sy_events s"
  "sy_events (notify_startup s) = sy_events s"
  by (simp_all add: pcs_def set_client_def record_event_def put_thd_def notify_wait_def notify_finalize_def
      set_child_def notify_startup_def map_update wake_child_def comp_def)

lemma calls_ok_wake: "calls_ok hasf ps es \<Longrightarrow> calls_ok hasf (map wake_child_pc ps) es"
proof -
  have "before_main (wake_child_pc pc) = before_main pc" "live (wake_child_pc pc) = live pc" for pc
    by (cases pc; simp)+
  then show "calls_ok hasf ps es \<Longrightarrow> calls_ok hasf (map wake_child_pc ps) es" by (auto intro: calls_ok_move)
qed

lemma child_at_pcs: "child_at k s = Some pc \<Longrightarrow> k < length (pcs s) \<and> pcs s ! k = pc"
  by (auto simp: child_at_def pcs_def split: if_splits)

lemma child_at_pcs': "child_at k s = Some pc \<Longrightarrow> k < length (sy_ch s)" "child_at k s = Some pc \<Longrightarrow> pcs s ! k = pc"
  by (auto simp: child_at_def pcs_def split: if_splits)

text \<open>What a turn keeps of the calls made and of the procedure of the object.\<close>

definition calls_inv :: "nat \<Rightarrow> bool \<Rightarrow> thread_sys \<Rightarrow> bool" where
  "calls_inv a hasf s \<longleftrightarrow> calls_ok hasf (pcs s) (sy_events s) \<and> has_final a hasf s"

lemma calls_inv_cancel:
  assumes "registered a pid thd s" "calls_inv a hasf s"
  shows "calls_inv a hasf (fst (thread_cancel a pid s))"
proof -
  obtain cs where cs: "fst (thread_cancel a pid s) = s\<lparr>sy_ch := cs\<rparr>" "map ch_pc cs = map ch_pc (sy_ch s)"
    using thread_cancel_live [OF assms(1)] by blast
  then show ?thesis using assms(2) by (simp add: calls_inv_def pcs_def has_final_def)
qed

lemma calls_inv_destroy:
  assumes "calls_inv a hasf s"
  shows "calls_inv a hasf (destroy_object a s)"
proof (cases "th_heap (sy_w s) a")
  case None
  then show ?thesis using assms by (simp add: destroy_object_def s_destroy_def calls_inv_def pcs_def has_final_def)
next
  case (Some thd)
  then have "pcs (destroy_object a s) = pcs s \<and> sy_events (destroy_object a s) = sy_events s @ [Destroyed] \<and>
      has_final a hasf (destroy_object a s)"
    using assms
    by (auto simp: calls_inv_def has_final_def destroy_object_def s_destroy_def s_delete_thread_object_def
        free_thd_def s_delete_thd_def pcs_def record_event_def Let_def split: if_splits)
  then show ?thesis using assms calls_ok_event [of hasf "pcs s" "sy_events s" Destroyed] by (simp add: calls_inv_def)
qed

lemma has_final_simps [simp]:
  "has_final a hasf (set_client i cpc s) = has_final a hasf s" "has_final a hasf (record_event e s) = has_final a hasf s"
  "has_final a hasf (set_child k pc s) = has_final a hasf s" "has_final a hasf (notify_startup s) = has_final a hasf s"
  "has_final a hasf (notify_wait s) = has_final a hasf s" "has_final a hasf (notify_finalize s) = has_final a hasf s"
  "has_final a hasf (put_thd a thd s) \<longleftrightarrow> (m_final_proc thd \<noteq> None) = hasf"
  by (simp_all add: has_final_def)

lemma has_finalD: "has_final a hasf s \<Longrightarrow> th_heap (sy_w s) a = Some thd \<Longrightarrow> (m_final_proc thd \<noteq> None) = hasf"
  by (simp add: has_final_def)

lemma calls_inv_set:
  assumes "calls_inv a hasf s" "child_at k s = Some pc" "before_main pc' \<longrightarrow> before_main pc" "live pc' = live pc"
  shows "calls_inv a hasf (set_child k pc' s)"
  using assms child_at_pcs [OF assms(2)] by (auto simp: calls_inv_def intro: calls_ok_set)

lemma calls_inv_wake: "calls_inv a hasf s \<Longrightarrow> calls_inv a hasf (notify_startup s)"
  by (simp add: calls_inv_def calls_ok_wake)

lemma calls_inv_put:
  "calls_inv a hasf s \<Longrightarrow> th_heap (sy_w s) a = Some thd \<Longrightarrow> m_final_proc thd' = m_final_proc thd \<Longrightarrow>
   calls_inv a hasf (put_thd a thd' s)"
  by (auto simp: calls_inv_def has_final_def)

lemma calls_inv_same [simp]:
  "calls_inv a hasf (set_client i cpc s) = calls_inv a hasf s"
  "calls_inv a hasf (notify_wait s) = calls_inv a hasf s" "calls_inv a hasf (notify_finalize s) = calls_inv a hasf s"
  "calls_inv a hasf (s\<lparr>sy_owner := o'\<rparr>) = calls_inv a hasf s" "calls_inv a hasf (s\<lparr>sy_crash := b\<rparr>) = calls_inv a hasf s"
  by (simp_all add: calls_inv_def pcs_def has_final_def)

lemma calls_inv_returned: "calls_inv a hasf s \<Longrightarrow> calls_inv a hasf (record_event (Returned i ret) s)"
  by (simp add: calls_inv_def calls_ok_event)

lemma calls_inv_wait_return: "calls_inv a hasf s \<Longrightarrow> calls_inv a hasf (wait_return i w ret s)"
  by (simp add: wait_return_def calls_inv_returned)

lemma child_at_keeps [simp]:
  "child_at k (put_thd a thd s) = child_at k s" "child_at k (s\<lparr>sy_owner := o'\<rparr>) = child_at k s"
  "child_at k (notify_wait s) = child_at k s" "child_at k (notify_finalize s) = child_at k s"
  "child_at k (notify_startup s) = map_option wake_child_pc (child_at k s)"
  by (simp_all add: child_at_def notify_startup_def wake_child_def)

lemma calls_inv_child_turn:
  assumes r: "registered a pid thd s" and c: "calls_inv a hasf s" and t: "child_turn a pid u s = Some s'"
  shows "calls_inv a hasf s'"
proof -
  note D = registered_D [OF r]
  show ?thesis
  proof (cases u)
    case (Child_enter k)
    then have k: "child_at k s = Some New" and s': "s' = child_enter a k s" using t by (auto split: if_splits)
    have p: "calls_inv a hasf (notify_startup (put_thd a (thd\<lparr>m_is_canceled := False, m_is_finalized := False,
        m_is_activated := True, m_is_started := True\<rparr>) s))"
      by (intro calls_inv_wake calls_inv_put [OF c D(2)]) simp
    show ?thesis
      using D k by (auto simp: s' child_enter_def with_thd_def sync_done_check_def intro: calls_inv_set [OF p])
  next
    case (Child_main k)
    then have k: "child_at k s = Some Synced" and s': "s' = child_main a k s" using t by (auto split: if_splits)
    have "calls_inv a hasf (record_event (Called_main k) (set_child k In_main s))"
      using c child_at_pcs [OF k] calls_ok_main [of hasf "pcs s" "sy_events s" k] by (simp add: calls_inv_def)
    then show ?thesis using D by (simp add: s' child_main_def with_thd_def)
  next
    case (Child_check k)
    then obtain e ret where k: "child_at k s = Some (Finalize e ret)" and s': "s' = finalize_check a k e ret s"
      using t by (auto split: option.splits child_pc.splits)
    show ?thesis using D(1) calls_inv_set [OF c k, of "Validated e ret"]
      by (simp add: s' finalize_check_def gallus_thread_is_valid_def)
  next
    case (Child_lock k)
    then obtain e ret where k: "child_at k s = Some (Validated e ret)" and s': "s' = finalize_enter a k e ret s"
      using t by (auto split: option.splits child_pc.splits if_splits)
    have p: "calls_inv a hasf (put_thd a (thd\<lparr>m_is_canceled := e, m_result_code := ret\<rparr>) (s\<lparr>sy_owner := Some k\<rparr>))"
      using c D by (intro calls_inv_put [where thd = thd]) simp_all
    show ?thesis using D k by (auto simp: s' finalize_enter_def with_thd_def intro: calls_inv_set [OF p])
  next
    case (Child_final k)
    then obtain e ret where k: "child_at k s = Some (Final_locked e ret)" and s': "s' = finalize_final a k e s"
      using t by (auto split: option.splits child_pc.splits)
    have zero: "m_n_finalized_count thd = 0" using last_child [OF D(3) k] by (auto simp: children_ok_def)
    have hasf: "(m_final_proc thd \<noteq> None) = hasf" using c D(2) by (auto simp: calls_inv_def has_final_def)
    have "calls_ok hasf ((pcs s)[k := Finalized (m_do_autodelete thd)])
        (if hasf then sy_events s @ [Called_final k e] else sy_events s)"
      using c child_at_pcs [OF k] by (intro calls_ok_final) (auto simp: calls_inv_def)
    then show ?thesis using D hasf
      by (auto simp: s' finalize_final_def with_thd_def zero calls_inv_def Let_def split: if_splits)
  next
    case (Child_leave k)
    then obtain ad where k: "child_at k s = Some (Finalized ad)" and s': "s' = finalize_leave a k ad s"
      using t by (auto split: option.splits child_pc.splits)
    have p: "calls_inv a hasf (notify_finalize (s\<lparr>sy_owner := None\<rparr>))" using c by simp
    show ?thesis using D k by (auto simp: s' finalize_leave_def with_thd_def intro: calls_inv_set [OF p])
  next
    case (Child_autodelete k)
    then have k: "child_at k s = Some Autodelete" and s': "s' = set_child k Auto_destroy (fst (thread_cancel a pid s))"
      using t D(1) by (auto split: if_splits)
    show ?thesis
      using calls_inv_set [OF calls_inv_cancel [OF r c], of k Autodelete Auto_destroy] registered_cancel(3) [OF r] k
      by (simp add: s')
  next
    case (Child_destroy k)
    then have k: "child_at k s = Some Auto_destroy" and s': "s' = set_child k Gone (destroy_object a s)"
      using t D(2) by (auto split: if_splits)
    have "child_at k (destroy_object a s) = Some Auto_destroy"
      using destroy_object_registered [OF r] k by (auto simp: child_at_def split: if_splits)
    then show ?thesis using calls_inv_set [OF calls_inv_destroy [OF c]] by (simp add: s')
  next
    case (Child_cancelled k)
    then obtain pc where k: "child_at k s = Some pc" "cancellable pc"
      and s': "s' = set_child k (Finalize True GALLUS_RESULT_INTERRUPTED) s"
      using t by (auto split: option.splits if_splits)
    have "live pc" using k(2) by (cases pc) auto
    then show ?thesis using calls_inv_set [OF c k(1)] by (simp add: s')
  qed (use t D in \<open>auto simp: child_sync_def with_thd_def sync_done_check_def split: if_splits option.splits child_pc.splits
      intro: calls_inv_set [OF c]\<close>)
qed

lemma calls_inv_start:
  assumes "registered a pid thd s" "calls_inv a hasf s"
  shows "calls_inv a hasf (thread_start a i ad st s)"
proof -
  note D = registered_D [OF assms(1)]
  have new: "calls_inv a hasf (s\<lparr>sy_ch := sy_ch s @ [\<lparr>ch_pc = New, ch_cancel = False\<rparr>]\<rparr>)"
    using assms(2) calls_ok_new by (auto simp: calls_inv_def pcs_def has_final_def)
  have put: "calls_inv a hasf (put_thd a thd' (s\<lparr>sy_ch := sy_ch s @ [\<lparr>ch_pc = New, ch_cancel = False\<rparr>]\<rparr>))"
    if "m_final_proc thd' = m_final_proc thd" for thd'
    using that D by (intro calls_inv_put [OF new, where thd = thd]) simp_all
  show ?thesis
    using D assms(2)
    by (auto simp: thread_start_def with_thd_def Let_def intro!: calls_inv_returned put intro: calls_inv_put)
qed

lemma calls_inv_client_turn:
  assumes r: "registered a pid thd s" and c: "calls_inv a hasf s" and t: "client_turn a pid u s = Some s'"
  shows "calls_inv a hasf s'"
proof -
  note D = registered_D [OF r]
  show ?thesis
  proof (cases u)
    case (Call_start i ad st)
    then show ?thesis using t calls_inv_start [OF r c] by (auto split: if_splits)
  next
    case (Client_startcheck i)
    have p: "calls_inv a hasf (put_thd a (thd\<lparr>m_startup_sync_done := True\<rparr>) s)"
      by (intro calls_inv_put [OF c D(2)]) simp
    show ?thesis using t Client_startcheck D c calls_inv_wake [OF p]
      by (auto simp: thread_startcheck_def with_thd_def intro!: calls_inv_returned split: if_splits)
  next
    case (Call_cancel i)
    then show ?thesis using t calls_inv_cancel [OF r c] by (auto intro!: calls_inv_returned split: if_splits prod.splits)
  next
    case (Call_destroy i)
    then show ?thesis using t c calls_inv_cancel [OF r c] by (auto simp: thread_destroy_def split: if_splits)
  next
    case (Client_destroy i)
    then show ?thesis using t calls_inv_destroy [OF c] by (auto split: if_splits)
  qed (use t c D in \<open>auto simp: with_thd_def waitcheck_def thread_wait_def wait_started_def finalcheck_def Let_def
      intro: calls_inv_wait_return split: if_splits option.splits client_pc.splits wait_kind.splits\<close>)
qed

lemma calls_inv_turns:
  "thread_turns a pid us s = Some s' \<Longrightarrow> polite_turns a pid us s \<Longrightarrow> thread_inv a pid s \<Longrightarrow> calls_inv a hasf s \<Longrightarrow>
   calls_inv a hasf s'"
proof (induction us arbitrary: s)
  case (Cons u us)
  then obtain t where t: "thread_turn a pid u s = Some t" "thread_turns a pid us t = Some s'"
    by (auto split: option.splits)
  have pol: "polite a u s" "polite_turns a pid us t" using Cons.prems(2) t(1) by simp_all
  obtain thd where r: "registered a pid thd s" using turn_registered [OF Cons.prems(3) pol(1) t(1)] by blast
  from t(1) consider "child_turn a pid u s = Some t" | "client_turn a pid u s = Some t"
    by (auto simp: thread_turn_def split: option.splits)
  then have "calls_inv a hasf t"
    using calls_inv_child_turn [OF r Cons.prems(4)] calls_inv_client_turn [OF r Cons.prems(4)] by cases auto
  moreover have "thread_inv a pid t" using thread_inv_step [OF Cons.prems(3) pol(1) t(1)] .
  ultimately show ?case using Cons.IH [OF t(2) pol(2)] by blast
qed simp

section \<open>The life of a thread\<close>

text \<open>
  C33. Whatever the interleaving of polite clients with the threads they spawn, by any number of starts,
  cancellations, waits, destructions and deletions of the object by its own thread: no one reads the object
  after its destruction and no cancellation goes to a thread that has ended; the object is destroyed
  only when every thread it spawned has left it; and for each thread the main procedure is called at
  most once and the final procedure, when there is one, exactly once by the time the thread is done.
\<close>

theorem thread_lifecycle:
  assumes "gallus_thread_create ce te (Some h) mainproc finalproc freeproc name arg w =
      Some (w', Some (Some a), GALLUS_RESULT_OK)" "te_tbl te"
    and "thread_turns a (te_pid te) us (thread_sys_start n w') = Some s"
    "polite_turns a (te_pid te) us (thread_sys_start n w')"
  shows "\<not> sy_crash s \<and> \<not> sy_stale s \<and> (\<not> s_is_thd a (sy_w s) \<longrightarrow> all_gone (sy_ch s)) \<and>
    (\<forall>k < length (sy_ch s). mains k (sy_events s) \<le> 1 \<and>
       finals k (sy_events s) = (if live (ch_pc (sy_ch s ! k)) \<or> finalproc = None then 0 else 1))"
proof -
  have "mainproc \<noteq> None" using assms(1) by (auto simp: gallus_thread_create_def gallus_thread_create_with_size_def split: if_splits)
  then obtain thd where new: "s_is_thd a w'" "th_heap w' a = Some thd" "m_creator_pid thd = te_pid te"
      "no_children_ok thd None" "m_final_proc thd = finalproc"
    using create_new_thread [OF assms(1,2)] by blast
  note start = thread_inv_start [OF new(1-4), of n]
  have "thread_inv a (te_pid te) s" by (rule thread_inv_turns [OF assms(3,4) start])
  moreover have "calls_inv a (finalproc \<noteq> None) (thread_sys_start n w')"
    using new(2,5) by (auto simp: calls_inv_def calls_ok_def has_final_def pcs_def thread_sys_start_def mains_def finals_def)
  then have "calls_ok (finalproc \<noteq> None) (pcs s) (sy_events s)"
    using calls_inv_turns [OF assms(3,4) start] by (simp add: calls_inv_def)
  ultimately show ?thesis by (auto simp: thread_inv_def calls_ok_def pcs_def split: if_splits)
qed

text \<open>An object that is started, cancelled, started again and destroyed by two clients.\<close>

definition example_cpus :: cpu_env where
  "example_cpus = \<lparr>s_n_cpus = 2, s_is_numa_available = False, s_n_numa_nodes = 1, numa_node_of_cpu = (\<lambda>_. 0)\<rparr>"

definition example_env :: thread_create_env where
  "example_env = \<lparr>te_alloc = Some 64, te_tbl = True, te_mark = True, te_locks = GALLUS_RESULT_OK,
     te_set = Some [False, False], te_pid = 7\<rparr>"

definition no_threads :: thread_world where
  "no_threads = \<lparr>s_thd_tbl = {}, s_alloc_tbl = {}, th_heap = Map.empty, th_freed = [], th_freeups = []\<rparr>"

definition example_created :: "(thread_world \<times> nat option option \<times> gallus_result_t) option" where
  "example_created =
     gallus_thread_create example_cpus example_env (Some None) (Some 1) (Some 2) (Some 3) (Some ''worker'') None no_threads"

definition example_world :: thread_world where
  "example_world = (case example_created of Some (w, _) \<Rightarrow> w | None \<Rightarrow> no_threads)"

lemma example_create:
  "gallus_thread_create example_cpus example_env (Some None) (Some 1) (Some 2) (Some 3) (Some ''worker'') None no_threads =
     Some (example_world, Some (Some 64), GALLUS_RESULT_OK)"
proof -
  have "map_option snd example_created = Some (Some (Some 64), GALLUS_RESULT_OK)" by code_simp
  then obtain w where c: "example_created = Some (w, Some (Some 64), GALLUS_RESULT_OK)" by auto
  have "example_world = w" unfolding example_world_def c by simp
  then show ?thesis using c by (simp only: example_created_def)
qed

definition one_start :: "nat \<Rightarrow> nat \<Rightarrow> bool \<Rightarrow> thread_turn list" where
  "one_start i k ad = [Call_start i ad 0, Child_enter k, Client_startcheck i, Child_sync k, Child_main k]"

definition one_end :: "nat \<Rightarrow> thread_turn list" where
  "one_end k = [Child_check k, Child_lock k, Child_final k, Child_leave k]"

definition example_thread_turns :: "thread_turn list" where
  "example_thread_turns =
     one_start 0 0 False @ [Call_wait 1 False, Client_wait 1, Call_cancel 0, Child_cancelled 0] @ one_end 0 @
     [Client_wait 1, Client_started 1, Client_finalcheck 1] @
     one_start 1 1 False @ [Call_destroy 0, Client_wait 0, Child_cancelled 1, Child_check 1, Child_lock 1, Child_final 1,
       Client_wait 0, Client_started 0, Child_leave 1, Client_finalcheck 0, Client_destroy 0]"

definition example_thread_end :: thread_sys where
  "example_thread_end = the (thread_turns 64 7 example_thread_turns (thread_sys_start 2 example_world))"

lemma example_thread_run:
  "thread_turns 64 7 example_thread_turns (thread_sys_start 2 example_world) = Some example_thread_end"
  "polite_turns 64 7 example_thread_turns (thread_sys_start 2 example_world)"
proof -
  have "thread_turns 64 7 example_thread_turns (thread_sys_start 2 example_world) \<noteq> None" by code_simp
  then show "thread_turns 64 7 example_thread_turns (thread_sys_start 2 example_world) = Some example_thread_end"
    by (auto simp: example_thread_end_def)
  show "polite_turns 64 7 example_thread_turns (thread_sys_start 2 example_world)" by code_simp
qed

lemma thread_lifecycle_witness:
  "\<not> sy_crash example_thread_end \<and> \<not> s_is_thd 64 (sy_w example_thread_end) \<and> length (sy_ch example_thread_end) = 2 \<and>
   all_gone (sy_ch example_thread_end) \<and> mains 1 (sy_events example_thread_end) = 1"
proof -
  have "te_tbl example_env" "te_pid example_env = 7" by (simp_all add: example_env_def)
  note thread_lifecycle [OF example_create this(1), unfolded this(2), OF example_thread_run]
  moreover have "\<not> s_is_thd 64 (sy_w example_thread_end)" "length (sy_ch example_thread_end) = 2"
    "mains 1 (sy_events example_thread_end) = 1" by code_simp+
  ultimately show ?thesis by blast
qed

text \<open>
  When a wait for a polite client returns success and no start is under way, every thread that the object
  spawned has been through the final procedure and has left the object.
\<close>

theorem thread_wait_ended:
  assumes "gallus_thread_create ce te (Some h) mainproc finalproc freeproc name arg w =
      Some (w', Some (Some a), GALLUS_RESULT_OK)" "te_tbl te"
    and "thread_turns a (te_pid te) us (thread_sys_start n w') = Some s"
    "polite_turns a (te_pid te) us (thread_sys_start n w')"
    and "no_client starting s" "u = Client_started i \<or> u = Client_finalcheck i" "thread_turn a (te_pid te) u s = Some s'"
    "sy_events s' = sy_events s @ [Returned i GALLUS_RESULT_OK]"
  shows "all_gone (sy_ch s')"
proof -
  have "mainproc \<noteq> None"
    using assms(1) by (auto simp: gallus_thread_create_def gallus_thread_create_with_size_def split: if_splits)
  then obtain thd0 where new: "s_is_thd a w'" "th_heap w' a = Some thd0" "m_creator_pid thd0 = te_pid te"
      "no_children_ok thd0 None"
    using create_new_thread [OF assms(1,2)] by blast
  have "thread_inv a (te_pid te) s" by (rule thread_inv_turns [OF assms(3,4) thread_inv_start [OF new]])
  moreover have "polite a u s" using assms(6) by auto
  ultimately obtain thd where r: "registered a (te_pid te) thd s" using turn_registered assms(7) by blast
  have t: "client_turn a (te_pid te) u s = Some s'" using assms(6,7) by (auto simp: thread_turn_def)
  have ret: "sy_events s' \<noteq> sy_events s" using assms(8) by simp
  show ?thesis
    using assms(6)
  proof
    assume u: "u = Client_started i"
    then obtain k ret where s': "s' = wait_started a i k ret s" using t by (auto split: option.splits client_pc.splits)
    then have "\<not> m_is_started thd" using registered_D [OF r] ret by (auto simp: wait_started_def with_thd_def split: if_splits)
    moreover have "\<not> starter (sy_cl s)" using assms(5) by (simp add: no_client_def starter_def list_all_iff)
    ultimately have "sy_ch s = []"
      using registered_D(3) [OF r] by (auto simp: thread_ok_def children_ok_def clients_ok_def split: if_splits)
    then show ?thesis using registered_D [OF r]
      by (simp add: s' wait_started_def with_thd_def wait_return_def all_gone_def)
  next
    assume u: "u = Client_finalcheck i"
    then obtain k ret cpc where s': "s' = finalcheck a i k ret s" and o: "sy_owner s = None"
      and c: "client_at i s = Some cpc" "cpc = Wait_lock k ret \<or> cpc = Final_woken k"
      using t by (auto split: option.splits client_pc.splits if_splits)
    have n: "m_n_finalized_count thd \<noteq> 0" using registered_D [OF r] ret s' by (auto simp: finalcheck_def with_thd_def)
    have "cpc \<in> set (sy_cl s)" using c(1) nth_mem by (auto simp: client_at_def split: if_splits)
    then have "\<not> m_do_autodelete thd"
      using registered_D(3) [OF r] c(2) by (auto simp: thread_ok_def clients_ok_def split: if_splits)
    then show ?thesis using finalized_gone [OF r o n] registered_D [OF r] n
      by (simp add: s' finalcheck_def with_thd_def wait_return_def)
  qed
qed

definition waited_turns :: "thread_turn list" where
  "waited_turns =
     one_start 0 0 False @ [Call_wait 1 False, Client_wait 1, Child_return 0 5, Child_exit 0] @ one_end 0 @
     [Client_wait 1, Client_started 1]"

definition waited :: thread_sys where
  "waited = the (thread_turns 64 7 waited_turns (thread_sys_start 2 example_world))"

definition waited_end :: thread_sys where
  "waited_end = the (thread_turn 64 7 (Client_finalcheck 1) waited)"

lemma waited_run:
  "thread_turns 64 7 waited_turns (thread_sys_start 2 example_world) = Some waited"
  "polite_turns 64 7 waited_turns (thread_sys_start 2 example_world)" "no_client starting waited"
  "thread_turn 64 7 (Client_finalcheck 1) waited = Some waited_end"
  "sy_events waited_end = sy_events waited @ [Returned 1 GALLUS_RESULT_OK]"
proof -
  have "thread_turns 64 7 waited_turns (thread_sys_start 2 example_world) \<noteq> None" by code_simp
  then show "thread_turns 64 7 waited_turns (thread_sys_start 2 example_world) = Some waited" by (auto simp: waited_def)
  have "thread_turn 64 7 (Client_finalcheck 1) waited \<noteq> None" by code_simp
  then show "thread_turn 64 7 (Client_finalcheck 1) waited = Some waited_end" by (auto simp: waited_end_def)
  show "polite_turns 64 7 waited_turns (thread_sys_start 2 example_world)" "no_client starting waited"
    "sy_events waited_end = sy_events waited @ [Returned 1 GALLUS_RESULT_OK]" by code_simp+
qed

lemma thread_wait_ended_witness:
  "sy_events waited_end = sy_events waited @ [Returned 1 GALLUS_RESULT_OK] \<and> length (sy_ch waited_end) = 1 \<and>
   all_gone (sy_ch waited_end)"
proof -
  have te: "te_tbl example_env" "te_pid example_env = 7" by (simp_all add: example_env_def)
  have "all_gone (sy_ch waited_end)"
    by (rule thread_wait_ended [OF example_create te(1), unfolded te(2), OF waited_run(1-3) _ waited_run(4,5)]) simp
  moreover have "length (sy_ch waited_end) = 1" by code_simp
  ultimately show ?thesis using waited_run(5) by blast
qed

section \<open>Behaviour that a caller may not expect\<close>

text \<open>Two clients start one object at the same time: both spawn a thread, and the main procedure runs twice at once.\<close>

lemma thread_start_twice:
  "case thread_turns 64 7 [Call_start 0 False 0, Call_start 1 False 0, Child_enter 0, Child_enter 1,
      Client_startcheck 0, Client_startcheck 1, Child_sync 0, Child_sync 1, Child_main 0, Child_main 1]
      (thread_sys_start 2 example_world) of
     Some s \<Rightarrow> map ch_pc (sy_ch s) = [In_main, In_main] | None \<Rightarrow> False"
  by code_simp

text \<open>A cancellation while the start is under way succeeds and cancels nothing.\<close>

lemma thread_cancel_lost:
  "case thread_turns 64 7 [Call_start 0 False 0, Call_cancel 1, Child_enter 0, Client_startcheck 0]
      (thread_sys_start 2 example_world) of
     Some s \<Rightarrow> Returned 1 GALLUS_RESULT_OK \<in> set (sy_events s) \<and> \<not> ch_cancel (sy_ch s ! 0) | None \<Rightarrow> False"
  by code_simp

text \<open>
  Destroying an object that deletes itself does not wait for its thread: the thread finds the object gone
  and ends without the final procedure, or it was past the check and uses the object that is gone.
\<close>

lemma thread_destroy_autodelete:
  "case thread_turns 64 7 (one_start 0 0 True @ [Call_destroy 1, Client_wait 1, Client_destroy 1, Child_cancelled 0, Child_check 0])
      (thread_sys_start 2 example_world) of
     Some s \<Rightarrow> ch_pc (sy_ch s ! 0) = Gone \<and> finals 0 (sy_events s) = 0 \<and> \<not> s_is_thd 64 (sy_w s) | None \<Rightarrow> False"
  "case thread_turns 64 7 (one_start 0 0 True @ [Child_return 0 0, Child_exit 0, Child_check 0,
      Call_destroy 1, Client_wait 1, Client_destroy 1, Child_lock 0]) (thread_sys_start 2 example_world) of
     Some s \<Rightarrow> sy_crash s | None \<Rightarrow> False"
  by code_simp+

text \<open>A call with a handle that was destroyed reads the object before it looks the handle up.\<close>

lemma thread_cancel_reads_first:
  "case thread_turns 64 7 [Call_destroy 0, Client_wait 0, Client_started 0, Client_destroy 0, Call_cancel 1]
      (thread_sys_start 2 example_world) of
     Some s \<Rightarrow> sy_crash s | None \<Rightarrow> False"
  by code_simp

text \<open>A wait with a limit of time gives up although the thread has ended meanwhile.\<close>

lemma thread_wait_late:
  "case thread_turns 64 7 (one_start 0 0 False @ [Call_wait 1 True, Client_wait 1, Client_timeout 1,
      Child_return 0 0, Child_exit 0] @ one_end 0 @ [Client_started 1, Client_finalcheck 1])
      (thread_sys_start 2 example_world) of
     Some s \<Rightarrow> all_gone (sy_ch s) \<and> last (sy_events s) = Returned 1 GALLUS_RESULT_TIMEDOUT | None \<Rightarrow> False"
  by code_simp

text \<open>A wait with a limit of time may sleep twice: a second limit starts when the first has passed.\<close>

lemma thread_wait_two_limits:
  "case thread_turns 64 7 (one_start 0 0 False @ [Call_wait 1 True, Client_wait 1, Client_timeout 1, Client_started 1,
      Client_finalcheck 1]) (thread_sys_start 2 example_world) of
     Some s \<Rightarrow> sy_cl s ! 1 = Final_sleep Limited | None \<Rightarrow> False"
  by code_simp

text \<open>A creation that fails frees the object and leaves the handle pointing at it.\<close>

lemma thread_create_dangling:
  "case gallus_thread_create example_cpus (example_env\<lparr>te_locks := GALLUS_RESULT_NO_MEMORY\<rparr>) (Some None) (Some 1) None None
      None None no_threads of
     Some (w, h, ret) \<Rightarrow> ret = GALLUS_RESULT_NO_MEMORY \<and> h = Some (Some 64) \<and> th_freed w = [64] | None \<Rightarrow> False"
  by code_simp

text \<open>An object that finds no room in the table is created with success and is not valid.\<close>

lemma thread_create_unregistered:
  "case gallus_thread_create example_cpus (example_env\<lparr>te_tbl := False\<rparr>) (Some None) (Some 1) None None None None no_threads of
     Some (w, h, ret) \<Rightarrow> ret = GALLUS_RESULT_OK \<and> \<not> s_is_thd 64 w | None \<Rightarrow> False"
  by code_simp

text \<open>
  The object is freed before it leaves the table: an object that another thread creates at the same
  address in between is taken out with it.
\<close>

definition create_at_64 :: "thread_world \<Rightarrow> thread_world" where
  "create_at_64 w =
     (case gallus_thread_create example_cpus example_env (Some None) (Some 1) None None None None w of
        Some (w, _) \<Rightarrow> w | None \<Rightarrow> w)"

lemma thread_destroy_race:
  "case s_destroy create_at_64 64 True example_world of
     Some w \<Rightarrow> th_heap w 64 \<noteq> None \<and> \<not> s_is_thd 64 w | None \<Rightarrow> False"
  by code_simp

text \<open>
  The documented way to set a new affinity, which starts by clearing the old one, fails for a thread that runs:
  the system refuses the empty set.
\<close>

lemma thread_affinity_clear_fails:
  assumes "\<And>tid. setaff tid (replicate (s_n_cpus ce) False) \<noteq> 0"
    "s_is_thd a w" "th_heap w a = Some thd" "m_is_started thd" "m_pthd thd = Some k" "m_cpusetptr thd = Some cset"
  shows "map_option snd (gallus_thread_set_cpu_affinity ce mem setaff (Some a) (- 1) w) = Some GALLUS_RESULT_POSIX_API_ERROR"
  using assms
  by (simp add: gallus_thread_set_cpu_affinity_def set_affinity_def on_thread_def s_cpu_set_cpu_def s_cpu_set_alloc_def
      s_get_pthdid_def)

text \<open>The names are read and written without a look at the table.\<close>

lemma thread_name_unchecked:
  "th_heap w a = None \<Longrightarrow> gallus_thread_set_name (Some a) (Some ''x'') w = None"
  "th_heap w a = None \<Longrightarrow> gallus_thread_get_name (Some a) True 16 w = None"
  by (simp_all add: gallus_thread_set_name_def gallus_thread_get_name_def is_valid_string_def)

end
