(* ===== verification/Task.thy ===== *)
theory Task
  imports Thread
begin

unbundle bit_operations_syntax

text \<open>
  Tasks for pooled threads: the objects of \<^verbatim>\<open>framework/lib/task.c\<close>, and the thread of a pool that runs
  them, \<^verbatim>\<open>framework/lib/pooled_thread.c\<close>, as the poolable object it is. Who does what when is in
  \<open>Task_Run\<close>.

  A handle is None when it or what it points to is NULL. A call is None when it reads an object that is
  not there. \<open>tk_has_lck\<close> and \<open>tk_has_cnd\<close> say whether the lock and the condition variable are not NULL.
\<close>

datatype task_state =
    TASK_STATE_UNKNOWN | TASK_STATE_CONSTRUCTED | TASK_STATE_ATTACHED | TASK_STATE_SETUP | TASK_STATE_RUNNING
  | TASK_STATE_CLEAN_FINISHED | TASK_STATE_HALTED | TASK_STATE_CANCELLED | TASK_STATE_RUNNER_SHUTDOWN

definition TASK_DELETE_CONTEXT_AFTER_EXEC :: "32 word" where
  "TASK_DELETE_CONTEXT_AFTER_EXEC = 1"

definition TASK_RELEASE_THREAD_AFTER_EXEC :: "32 word" where
  "TASK_RELEASE_THREAD_AFTER_EXEC = 2"

record pooled_task =
  tk_state :: task_state
  tk_name :: "string option"
  tk_has_lck :: bool
  tk_has_cnd :: bool
  tk_total_obj_size :: nat
  tk_exit_code :: gallus_result_t
  tk_is_started :: bool
  tk_is_clean_finished :: bool
  tk_is_runner_shutdown :: bool
  tk_is_cancelled :: bool
  tk_is_wait_done :: bool
  tk_main :: "nat option"
  tk_finalize :: "nat option"
  tk_freeup :: "nat option"
  tk_core_num :: int
  tk_numa_node_num :: int
  tk_flag :: "32 word"
  tk_tr :: "nat option"

text \<open>The objects, those given to \<^verbatim>\<open>free\<close>, and the freeup procedures called, with their tasks.\<close>

record task_world =
  tk_heap :: "nat \<rightharpoonup> pooled_task"
  tk_freed :: "nat list"
  tk_freeups :: "(nat \<times> nat) list"

section \<open>Creation and destruction\<close>

definition gallus_task_destroy :: "nat option \<Rightarrow> task_world \<Rightarrow> (task_world \<times> nat option) option" where
  "gallus_task_destroy tptr w =
    (case tptr of
       None \<Rightarrow> Some (w, None)
     | Some a \<Rightarrow>
         (case tk_heap w a of
            None \<Rightarrow> None
          | Some t \<Rightarrow>
              if tk_state t \<noteq> TASK_STATE_RUNNING \<and> tk_state t \<noteq> TASK_STATE_CANCELLED then
                (let w = (case tk_freeup t of Some f \<Rightarrow> w\<lparr>tk_freeups := tk_freeups w @ [(a, f)]\<rparr> | None \<Rightarrow> w)
                 in if tk_total_obj_size t \<noteq> 0
                    then Some (w\<lparr>tk_heap := (tk_heap w)(a := None), tk_freed := tk_freed w @ [a]\<rparr>, None)
                    else Some (w\<lparr>tk_heap := (tk_heap w)(a \<mapsto> t\<lparr>tk_has_cnd := False, tk_has_lck := False\<rparr>)\<rparr>, Some a))
              else Some (w, Some a)))"

text \<open>
  What creating gets from elsewhere: the address and the contents of new memory, whether there is memory
  for the name, the results of the lock and of the condition variable. \<open>sizeof\<close> is the size of the record.
\<close>

record task_create_env =
  ke_alloc :: "(nat \<times> pooled_task) option"
  ke_name :: bool
  ke_lck :: gallus_result_t
  ke_cnd :: gallus_result_t
  ke_sizeof :: nat

text \<open>The fields that are set before the first failure, and all of them.\<close>

definition task_init ::
  "task_create_env \<Rightarrow> nat \<Rightarrow> string option \<Rightarrow> nat option \<Rightarrow> nat option \<Rightarrow> nat option \<Rightarrow> pooled_task \<Rightarrow> pooled_task \<times> gallus_result_t" where
  "task_init ke alloc_sz name main_func finalize_func freeup_func t =
    (let t = t\<lparr>tk_state := TASK_STATE_UNKNOWN\<rparr>
     in if is_valid_string name \<and> \<not> ke_name ke then (t\<lparr>tk_name := None\<rparr>, GALLUS_RESULT_NO_MEMORY)
        else
          (let t = t\<lparr>tk_name := (if is_valid_string name then name else None)\<rparr>;
               t = t\<lparr>tk_has_lck := (ke_lck ke = GALLUS_RESULT_OK)\<rparr>
           in if ke_lck ke \<noteq> GALLUS_RESULT_OK then (t, ke_lck ke)
              else
                (let t = t\<lparr>tk_has_cnd := (ke_cnd ke = GALLUS_RESULT_OK)\<rparr>
                 in if ke_cnd ke \<noteq> GALLUS_RESULT_OK then (t, ke_cnd ke)
                    else
                      (t\<lparr>tk_total_obj_size := alloc_sz, tk_exit_code := GALLUS_RESULT_NOT_STARTED,
                         tk_is_started := False, tk_is_clean_finished := False, tk_is_runner_shutdown := False,
                         tk_is_cancelled := False, tk_is_wait_done := False, tk_main := main_func,
                         tk_finalize := finalize_func, tk_freeup := freeup_func, tk_core_num := - 1,
                         tk_numa_node_num := - 1, tk_flag := 0, tk_tr := None,
                         tk_state := TASK_STATE_CONSTRUCTED\<rparr>, GALLUS_RESULT_OK))))"

text \<open>The outer option of \<open>tptr\<close> is the pointer to the handle; the result has the handle as it is left.\<close>

definition gallus_task_create ::
  "task_create_env \<Rightarrow> nat option option \<Rightarrow> nat \<Rightarrow> string option \<Rightarrow> nat option \<Rightarrow> nat option \<Rightarrow> nat option \<Rightarrow>
   task_world \<Rightarrow> (task_world \<times> nat option option \<times> gallus_result_t) option" where
  "gallus_task_create ke tptr sz name main_func finalize_func freeup_func w =
    (case tptr of
       None \<Rightarrow> Some (w, tptr, GALLUS_RESULT_INVALID_ARGS)
     | Some h \<Rightarrow>
         if main_func = None then Some (w, tptr, GALLUS_RESULT_INVALID_ARGS)
         else
           (let init = (\<lambda>a t alloc_sz w.
                  (let (t, ret) = task_init ke alloc_sz name main_func finalize_func freeup_func t;
                       w = w\<lparr>tk_heap := (tk_heap w)(a \<mapsto> t)\<rparr>
                   in if ret \<noteq> GALLUS_RESULT_OK
                      then map_option (\<lambda>(w, _). (w, Some (Some a), ret)) (gallus_task_destroy (Some a) w)
                      else Some (w, Some (Some a), ret)))
            in case h of
                 Some a \<Rightarrow> (case tk_heap w a of None \<Rightarrow> None | Some t \<Rightarrow> init a t sz w)
               | None \<Rightarrow>
                   if 0 < sz \<and> sz < ke_sizeof ke then Some (w, tptr, GALLUS_RESULT_TOO_SMALL)
                   else (case ke_alloc ke of
                           None \<Rightarrow> Some (w, Some None, GALLUS_RESULT_NO_MEMORY)
                         | Some (a, junk) \<Rightarrow> init a junk (if sz = 0 then ke_sizeof ke else sz) w)))"

section \<open>Affinity\<close>

definition gallus_task_set_cpu_affinity ::
  "cpu_env \<Rightarrow> bool list option \<Rightarrow> (nat \<Rightarrow> bool list \<Rightarrow> int) \<Rightarrow> nat option \<Rightarrow> int \<Rightarrow> thread_world \<Rightarrow> task_world \<Rightarrow>
   (thread_world \<times> task_world \<times> gallus_result_t) option" where
  "gallus_task_set_cpu_affinity ce mem setaff tptr cpu tw w =
    (case tptr of
       None \<Rightarrow> Some (tw, w, GALLUS_RESULT_INVALID_ARGS)
     | Some a \<Rightarrow>
         (case tk_heap w a of
            None \<Rightarrow> None
          | Some t \<Rightarrow>
              (let w = w\<lparr>tk_heap := (tk_heap w)(a \<mapsto> t\<lparr>tk_core_num := cpu\<rparr>)\<rparr>
               in case tk_tr t of
                    None \<Rightarrow> Some (tw, w, GALLUS_RESULT_OK)
                  | Some tr \<Rightarrow>
                      (case gallus_thread_set_cpu_affinity ce mem setaff (Some tr) (- 1) tw of
                         None \<Rightarrow> None
                       | Some (tw, ret) \<Rightarrow>
                           if ret = GALLUS_RESULT_OK then
                             map_option (\<lambda>(tw, ret). (tw, w, ret))
                               (gallus_thread_set_cpu_affinity ce mem setaff (Some tr) cpu tw)
                           else Some (tw, w, GALLUS_RESULT_ANY_FAILURES)))))"

definition gallus_task_set_numa_node_affinity ::
  "cpu_env \<Rightarrow> bool list option \<Rightarrow> (nat \<Rightarrow> bool list \<Rightarrow> int) \<Rightarrow> nat option \<Rightarrow> int \<Rightarrow> thread_world \<Rightarrow> task_world \<Rightarrow>
   (thread_world \<times> task_world \<times> gallus_result_t) option" where
  "gallus_task_set_numa_node_affinity ce mem setaff tptr node tw w =
    (case tptr of
       None \<Rightarrow> Some (tw, w, GALLUS_RESULT_INVALID_ARGS)
     | Some a \<Rightarrow>
         (case tk_heap w a of
            None \<Rightarrow> None
          | Some t \<Rightarrow>
              (let w = w\<lparr>tk_heap := (tk_heap w)(a \<mapsto> t\<lparr>tk_numa_node_num := node\<rparr>)\<rparr>
               in case tk_tr t of
                    None \<Rightarrow> Some (tw, w, GALLUS_RESULT_OK)
                  | Some tr \<Rightarrow>
                      map_option (\<lambda>(tw, ret). (tw, w, ret))
                        (gallus_thread_set_numa_node_affinity ce mem setaff (Some tr) node tw))))"

section \<open>State\<close>

definition gallus_task_get_exit_code :: "nat option \<Rightarrow> task_world \<Rightarrow> gallus_result_t option" where
  "gallus_task_get_exit_code tptr w =
    (case tptr of None \<Rightarrow> Some GALLUS_RESULT_INVALID_ARGS | Some a \<Rightarrow> map_option tk_exit_code (tk_heap w a))"

definition gallus_task_get_state ::
  "nat option \<Rightarrow> bool \<Rightarrow> task_world \<Rightarrow> (gallus_result_t \<times> task_state option) option" where
  "gallus_task_get_state tptr stptr w =
    (case tptr of
       Some a \<Rightarrow>
         if stptr then map_option (\<lambda>t. (GALLUS_RESULT_OK, Some (tk_state t))) (tk_heap w a)
         else Some (GALLUS_RESULT_INVALID_ARGS, None)
     | None \<Rightarrow> Some (GALLUS_RESULT_INVALID_ARGS, None))"

end
