(* ===== verification/Task_Run.thy ===== *)
theory Task_Run
  imports Task
begin

text \<open>
  A thread of a pool that runs tasks (\<^verbatim>\<open>framework/lib/pooled_thread.c\<close>), and the clients that give it
  tasks, wait for them, destroy them and end the thread (\<^verbatim>\<open>framework/lib/task.c\<close>).

  What a thread does between taking the lock of the runner or of a task and releasing it or falling asleep
  is one turn; a finalize procedure is called in a turn of its own. A sleeping thread may be woken at any
  time. A turn that reads a task that was freed sets \<open>ts_crash\<close>. The runner's thread is at address 0. The
  global state is started, clients pass handles that are not NULL, sleeps and notifications do not fail, and the
  effect of the affinity and the name that the thread has during a task are left out, as is what follows the end
  of the thread (\<open>Poolable\<close>). That the runner can be cancelled while it sets its affinity is modelled.

  A cancelled runner unlocks its own lock and the lock of its task, whether it holds them or not. When it does not,
  a turn of a client under one of these locks is not atomic any more. For the lock of the runner this has no effect
  on the model: the runner does not take it again, and what clients do under it, to hand over a task and to request
  a shutdown, writes different fields. For the lock of the task it has: a client in a wait for the task may have
  found it not over and not have fallen asleep yet when the runner notifies. \<open>Runner_notify_late\<close> is the
  notification that such clients miss.
\<close>

datatype runner_state =
    TASK_RUNNER_STATE_UNKNOWN | TASK_RUNNER_STATE_CREATED | TASK_RUNNER_STATE_NOT_ASSIGNED
  | TASK_RUNNER_STATE_ASSIGNED | TASK_RUNNER_STATE_RUNNING | TASK_RUNNER_STATE_FINISH

text \<open>
  The runner; \<open>tr_is_used\<close> is \<^verbatim>\<open>m_is_used\<close> of the pool object it is part of, and \<open>tr_has_lck\<close> and
  \<open>tr_has_cnd\<close> say whether its lock and its condition variable are not NULL.
\<close>

record task_runner =
  tr_state :: runner_state
  tr_is_shutdown_requested :: bool
  tr_is_got_a_task :: bool
  tr_tsk :: "nat option"
  tr_is_used :: bool
  tr_has_lck :: bool
  tr_has_cnd :: bool

text \<open>
  Where the runner is: before the lock of its loop, asleep or woken from it; after it, with the task it
  got and whether it is to shut down; about to call the main procedure, in it, and returned from it, with
  whether to delete the task and to release the thread; before the finalize procedure, in it or before
  the notification, and after them; out of the loop, and the same for a task it did not finish; ended. The last
  four tell whether the runner was cancelled.
\<close>

datatype runner_pc =
    R_lock | R_sleep | R_woken | R_picked "nat option" bool
  | R_run nat bool bool | R_main nat bool bool | R_done nat bool bool gallus_result_t
  | R_finalize nat bool bool | R_notify nat bool bool | R_after nat bool bool
  | R_exit bool | R_halt nat bool | R_halt_notify nat bool | R_ended bool

text \<open>Where a client is: in no call; about to read the flags of the task it gave away; in a wait, with whether it has a limit.\<close>

datatype waiter_pc = T_idle | T_ran nat | T_sleep nat bool | T_woken nat bool

datatype task_event =
  Task_main nat | Task_result nat gallus_result_t | Task_final nat bool | Task_returned nat gallus_result_t

record task_sys =
  ts_w :: task_world
  ts_tr :: task_runner
  ts_pc :: runner_pc
  ts_cl :: "waiter_pc list"
  ts_events :: "task_event list"
  ts_crash :: bool

section \<open>Steps\<close>

definition task_event :: "task_event \<Rightarrow> task_sys \<Rightarrow> task_sys" where
  "task_event e s = s\<lparr>ts_events := ts_events s @ [e]\<rparr>"

definition runner_to :: "runner_pc \<Rightarrow> task_sys \<Rightarrow> task_sys" where
  "runner_to pc s = s\<lparr>ts_pc := pc\<rparr>"

definition waiter_to :: "nat \<Rightarrow> waiter_pc \<Rightarrow> task_sys \<Rightarrow> task_sys" where
  "waiter_to i pc s = s\<lparr>ts_cl := (ts_cl s)[i := pc]\<rparr>"

definition with_task :: "nat \<Rightarrow> (pooled_task \<Rightarrow> task_sys) \<Rightarrow> task_sys \<Rightarrow> task_sys" where
  "with_task a f s = (case tk_heap (ts_w s) a of None \<Rightarrow> s\<lparr>ts_crash := True\<rparr> | Some t \<Rightarrow> f t)"

definition put_task :: "nat \<Rightarrow> pooled_task \<Rightarrow> task_sys \<Rightarrow> task_sys" where
  "put_task a t s = s\<lparr>ts_w := (ts_w s)\<lparr>tk_heap := (tk_heap (ts_w s))(a \<mapsto> t)\<rparr>\<rparr>"

fun wake_runner :: "runner_pc \<Rightarrow> runner_pc" where
  "wake_runner R_sleep = R_woken"
| "wake_runner pc = pc"

fun wake_waiter :: "nat \<Rightarrow> waiter_pc \<Rightarrow> waiter_pc" where
  "wake_waiter a (T_sleep b timed) = (if a = b then T_woken b timed else T_sleep b timed)"
| "wake_waiter a pc = pc"

section \<open>The runner\<close>

text \<open>The wait for an assignment.\<close>

definition runner_pick :: "task_sys \<Rightarrow> task_sys" where
  "runner_pick s =
    (let tr = ts_tr s; do_shutdown = tr_is_shutdown_requested tr
     in if tr_is_got_a_task tr \<and> tr_tsk tr \<noteq> None then
          runner_to (R_picked (tr_tsk tr) do_shutdown)
            (s\<lparr>ts_tr := tr\<lparr>tr_state := TASK_RUNNER_STATE_ASSIGNED\<rparr>\<rparr>)
        else if do_shutdown then runner_to (R_picked None True) s
        else runner_to R_sleep s)"

text \<open>What follows it: the start of the task, the end of the loop, or another round.\<close>

definition runner_begin :: "nat \<Rightarrow> task_sys \<Rightarrow> task_sys" where
  "runner_begin a s =
    with_task a
      (\<lambda>t. let s = s\<lparr>ts_tr := (ts_tr s)\<lparr>tr_state := TASK_RUNNER_STATE_RUNNING\<rparr>\<rparr>
           in runner_to
                (R_run a (tk_flag t AND TASK_DELETE_CONTEXT_AFTER_EXEC \<noteq> 0) (tk_flag t AND TASK_RELEASE_THREAD_AFTER_EXEC \<noteq> 0))
                (put_task a (t\<lparr>tk_tr := Some 0, tk_is_started := True, tk_state := TASK_STATE_RUNNING\<rparr>) s)) s"

definition runner_shutdown_task :: "nat option \<Rightarrow> task_sys \<Rightarrow> task_sys" where
  "runner_shutdown_task topt s =
    (case topt of
       None \<Rightarrow> s
     | Some a \<Rightarrow>
         with_task a
           (\<lambda>t. put_task a (t\<lparr>tk_exit_code := GALLUS_RESULT_NOT_STARTED, tk_is_runner_shutdown := True,
                              tk_state := TASK_STATE_RUNNER_SHUTDOWN\<rparr>) s) s)"

definition runner_dispatch :: "nat option \<Rightarrow> bool \<Rightarrow> task_sys \<Rightarrow> task_sys" where
  "runner_dispatch topt do_shutdown s =
    (case topt of
       Some a \<Rightarrow>
         if tr_state (ts_tr s) = TASK_RUNNER_STATE_ASSIGNED \<and> \<not> do_shutdown \<and> tr_is_used (ts_tr s) then runner_begin a s
         else if do_shutdown then runner_to (R_exit False) (runner_shutdown_task topt s)
         else if \<not> tr_is_used (ts_tr s) then runner_to (R_exit False) s
         else runner_to R_lock s
     | None \<Rightarrow>
         if do_shutdown then runner_to (R_exit False) s
         else if \<not> tr_is_used (ts_tr s) then runner_to (R_exit False) s
         else runner_to R_lock s)"

text \<open>The call of the main procedure, the record of its result, and \<^verbatim>\<open>gallus_task_finalize\<close> in two steps.\<close>

definition runner_call :: "nat \<Rightarrow> bool \<Rightarrow> bool \<Rightarrow> task_sys \<Rightarrow> task_sys" where
  "runner_call a ad ar s = with_task a (\<lambda>t. task_event (Task_main a) (runner_to (R_main a ad ar) s)) s"

definition runner_finished :: "nat \<Rightarrow> bool \<Rightarrow> bool \<Rightarrow> gallus_result_t \<Rightarrow> task_sys \<Rightarrow> task_sys" where
  "runner_finished a ad ar ret s =
    with_task a
      (\<lambda>t. let s = s\<lparr>ts_tr := (ts_tr s)\<lparr>tr_is_got_a_task := False, tr_tsk := None,
                                       tr_state := TASK_RUNNER_STATE_NOT_ASSIGNED\<rparr>\<rparr>
           in runner_to (R_finalize a ad ar)
                (put_task a (t\<lparr>tk_tr := None, tk_exit_code := ret, tk_is_clean_finished := True,
                              tk_state := TASK_STATE_CLEAN_FINISHED\<rparr>) s)) s"

definition task_finalize_call :: "nat \<Rightarrow> bool \<Rightarrow> task_sys \<Rightarrow> task_sys" where
  "task_finalize_call a is_cancelled s =
    with_task a (\<lambda>t. if tk_finalize t \<noteq> None then task_event (Task_final a is_cancelled) s else s) s"

definition task_finalize_notify :: "nat \<Rightarrow> task_sys \<Rightarrow> task_sys" where
  "task_finalize_notify a s =
    with_task a
      (\<lambda>t. put_task a (t\<lparr>tk_is_wait_done := True\<rparr>) (s\<lparr>ts_cl := map (wake_waiter a) (ts_cl s)\<rparr>)) s"

text \<open>The notification that the clients in \<open>late\<close> miss, for they fall asleep only after it.\<close>

definition task_finalize_notify_late :: "nat list \<Rightarrow> nat \<Rightarrow> task_sys \<Rightarrow> task_sys" where
  "task_finalize_notify_late late a s =
    with_task a
      (\<lambda>t. put_task a (t\<lparr>tk_is_wait_done := True\<rparr>)
            (s\<lparr>ts_cl := map (\<lambda>(i, pc). if i \<in> set late then pc else wake_waiter a pc) (enumerate 0 (ts_cl s))\<rparr>)) s"

text \<open>The end of a round: the task is deleted and the thread released when that was asked for.\<close>

definition runner_delete :: "nat \<Rightarrow> task_sys \<Rightarrow> task_sys" where
  "runner_delete a s =
    (case gallus_task_destroy (Some a) (ts_w s) of None \<Rightarrow> s\<lparr>ts_crash := True\<rparr> | Some (w, _) \<Rightarrow> s\<lparr>ts_w := w\<rparr>)"

definition runner_round_end :: "nat \<Rightarrow> bool \<Rightarrow> bool \<Rightarrow> task_sys \<Rightarrow> task_sys" where
  "runner_round_end a ad ar s =
    (let s = (if ad then runner_delete a s else s);
         s = (if ar then s\<lparr>ts_tr := (ts_tr s)\<lparr>tr_is_used := False\<rparr>\<rparr> else s)
     in runner_to R_lock s)"

text \<open>
  \<^verbatim>\<open>s_task_runner_finalize\<close>, the end of the thread. The locks that it unlocks first when it was cancelled are those
  of the note above.
\<close>

definition s_task_runner_finalize :: "bool \<Rightarrow> task_sys \<Rightarrow> task_sys" where
  "s_task_runner_finalize is_cancelled s =
    (case tr_tsk (ts_tr s) of
       None \<Rightarrow> runner_to (R_ended is_cancelled) s
     | Some a \<Rightarrow>
         with_task a
           (\<lambda>t. runner_to (R_halt a is_cancelled)
                  (put_task a (t\<lparr>tk_is_cancelled := is_cancelled,
                                 tk_state := (if is_cancelled then TASK_STATE_CANCELLED else TASK_STATE_HALTED)\<rparr>) s)) s)"

section \<open>The methods of the pool object\<close>

text \<open>What \<^verbatim>\<open>gallus_thread_destroy\<close> calls, with what it destroys.\<close>

datatype runner_object = Runner_lck | Runner_cnd

definition s_task_runner_freeup :: "task_runner \<Rightarrow> task_runner \<times> runner_object list" where
  "s_task_runner_freeup tr =
    (tr\<lparr>tr_has_lck := False, tr_has_cnd := False\<rparr>,
     (if tr_has_lck tr then [Runner_lck] else []) @ (if tr_has_cnd tr then [Runner_cnd] else []))"

text \<open>
  The construction in memory with any contents: \<open>thd\<close>, \<open>lck\<close> and \<open>cnd\<close> are the results of the creation
  of the thread, the lock and the condition variable. The last part of the result is what was destroyed.
\<close>

definition s_pooled_thread_construct ::
  "gallus_result_t \<Rightarrow> gallus_result_t \<Rightarrow> gallus_result_t \<Rightarrow> task_runner \<Rightarrow>
   task_runner \<times> gallus_result_t \<times> runner_object list" where
  "s_pooled_thread_construct thd lck cnd tr =
    (if thd \<noteq> GALLUS_RESULT_OK then (tr, thd, [])
     else
       (let tr = tr\<lparr>tr_has_lck := (lck = GALLUS_RESULT_OK)\<rparr>
        in if lck \<noteq> GALLUS_RESULT_OK then (let (tr, ds) = s_task_runner_freeup tr in (tr, lck, ds))
           else
             (let tr = tr\<lparr>tr_has_cnd := (cnd = GALLUS_RESULT_OK)\<rparr>
              in if cnd \<noteq> GALLUS_RESULT_OK then (let (tr, ds) = s_task_runner_freeup tr in (tr, cnd, ds))
                 else (tr\<lparr>tr_is_shutdown_requested := False, tr_is_got_a_task := False, tr_tsk := None,
                         tr_state := TASK_RUNNER_STATE_CREATED\<rparr>, GALLUS_RESULT_OK, []))))"

text \<open>\<open>ret\<close> is what \<^verbatim>\<open>gallus_thread_start\<close> and \<^verbatim>\<open>gallus_thread_cancel\<close> return.\<close>

definition s_pooled_thread_setup :: "gallus_result_t \<Rightarrow> task_runner \<Rightarrow> task_runner \<times> gallus_result_t" where
  "s_pooled_thread_setup ret tr =
    (if tr_state tr = TASK_RUNNER_STATE_CREATED then
       (if ret = GALLUS_RESULT_OK then (tr\<lparr>tr_state := TASK_RUNNER_STATE_NOT_ASSIGNED\<rparr>, ret) else (tr, ret))
     else (tr, GALLUS_RESULT_INVALID_OBJECT))"

definition runner_stoppable :: "task_runner \<Rightarrow> bool" where
  "runner_stoppable tr \<longleftrightarrow> tr_state tr \<noteq> TASK_RUNNER_STATE_CREATED \<and> tr_state tr \<noteq> TASK_RUNNER_STATE_FINISH"

definition s_pooled_thread_shutdown :: "task_sys \<Rightarrow> task_sys \<times> gallus_result_t" where
  "s_pooled_thread_shutdown s =
    (if runner_stoppable (ts_tr s) then
       (s\<lparr>ts_tr := (ts_tr s)\<lparr>tr_is_shutdown_requested := True\<rparr>, ts_pc := wake_runner (ts_pc s)\<rparr>, GALLUS_RESULT_OK)
     else (s, GALLUS_RESULT_OK))"

definition s_pooled_thread_cancel :: "gallus_result_t \<Rightarrow> task_runner \<Rightarrow> gallus_result_t" where
  "s_pooled_thread_cancel ret tr = (if runner_stoppable tr then ret else GALLUS_RESULT_OK)"

text \<open>The end of the object; \<^verbatim>\<open>gallus_thread_destroy\<close> calls the freeup procedure once more.\<close>

definition s_pooled_thread_destruct :: "task_runner \<Rightarrow> task_runner \<times> runner_object list" where
  "s_pooled_thread_destruct tr =
    (let (tr', ds) = s_task_runner_freeup (tr\<lparr>tr_has_lck := False, tr_has_cnd := False\<rparr>)
     in (tr', (if tr_has_lck tr then [Runner_lck] else []) @ (if tr_has_cnd tr then [Runner_cnd] else []) @ ds))"

section \<open>The clients\<close>

text \<open>Giving a task to the runner, up to the read of the flags that follows.\<close>

definition gallus_task_run :: "nat \<Rightarrow> nat \<Rightarrow> 32 word \<Rightarrow> task_sys \<Rightarrow> task_sys" where
  "gallus_task_run i a flag s =
    with_task a
      (\<lambda>t. if tk_main t \<noteq> None \<and> tk_tr t = None then
             (if tr_is_used (ts_tr s) then
                waiter_to i (T_ran a)
                  ((put_task a (t\<lparr>tk_state := TASK_STATE_ATTACHED, tk_flag := flag\<rparr>) s)
                    \<lparr>ts_tr := (ts_tr s)\<lparr>tr_tsk := Some a, tr_is_got_a_task := True\<rparr>, ts_pc := wake_runner (ts_pc s)\<rparr>)
              else task_event (Task_returned i GALLUS_RESULT_INVALID_OBJECT) s)
           else task_event (Task_returned i GALLUS_RESULT_INVALID_ARGS) s) s"

definition task_run_flags :: "nat \<Rightarrow> nat \<Rightarrow> task_sys \<Rightarrow> task_sys" where
  "task_run_flags i a s =
    with_task a (\<lambda>t. task_event (Task_returned i GALLUS_RESULT_OK) (waiter_to i T_idle s)) s"

text \<open>One round of \<^verbatim>\<open>gallus_task_wait\<close>.\<close>

definition gallus_task_wait :: "nat \<Rightarrow> nat \<Rightarrow> bool \<Rightarrow> task_sys \<Rightarrow> task_sys" where
  "gallus_task_wait i a timed s =
    with_task a
      (\<lambda>t. if tk_is_wait_done t then task_event (Task_returned i GALLUS_RESULT_OK) (waiter_to i T_idle s)
           else waiter_to i (T_sleep a timed) s) s"

section \<open>Turns\<close>

datatype task_turn =
    Runner_pick | Runner_dispatch | Runner_call | Runner_return gallus_result_t | Runner_finished
  | Runner_finalize | Runner_notify | Runner_notify_late "nat list" | Runner_round_end | Runner_exit | Runner_cancelled | Runner_spurious
  | Call_run nat nat "32 word" | Client_ran nat | Call_task_wait nat nat bool | Client_recheck nat
  | Client_wait_timeout nat | Client_wait_spurious nat | Call_task_destroy nat nat | Call_shutdown nat
  | Pool_acquire

text \<open>
  \<open>Pool_acquire\<close>: a released thread is acquired again (\<open>Pool\<close>). Where the runner can be cancelled: in its wait, while
  it sets or resets its affinity, whose table of threads tests for a cancellation, and in the procedures of a task.
  Once it has left its loop the thread has disabled its cancellation, or is being cancelled already.
\<close>

definition has_finalize :: "nat \<Rightarrow> task_sys \<Rightarrow> bool" where
  "has_finalize a s \<longleftrightarrow> (case tk_heap (ts_w s) a of None \<Rightarrow> False | Some t \<Rightarrow> tk_finalize t \<noteq> None)"

fun runner_cancellable :: "runner_pc \<Rightarrow> task_sys \<Rightarrow> bool" where
  "runner_cancellable R_sleep s = True"
| "runner_cancellable R_woken s = True"
| "runner_cancellable (R_run a ad ar) s = True"
| "runner_cancellable (R_main a ad ar) s = True"
| "runner_cancellable (R_notify a ad ar) s = has_finalize a s"
| "runner_cancellable (R_after a ad ar) s = True"
| "runner_cancellable pc s = False"

definition waiter_at :: "nat \<Rightarrow> task_sys \<Rightarrow> waiter_pc option" where
  "waiter_at i s = (if i < length (ts_cl s) then Some (ts_cl s ! i) else None)"

fun runner_turn :: "task_turn \<Rightarrow> task_sys \<Rightarrow> task_sys option" where
  "runner_turn Runner_pick s = (if ts_pc s = R_lock \<or> ts_pc s = R_woken then Some (runner_pick s) else None)"
| "runner_turn Runner_dispatch s =
     (case ts_pc s of R_picked topt sd \<Rightarrow> Some (runner_dispatch topt sd s) | _ \<Rightarrow> None)"
| "runner_turn Runner_call s = (case ts_pc s of R_run a ad ar \<Rightarrow> Some (runner_call a ad ar s) | _ \<Rightarrow> None)"
| "runner_turn (Runner_return ret) s =
     (case ts_pc s of
        R_main a ad ar \<Rightarrow> Some (task_event (Task_result a ret) (runner_to (R_done a ad ar ret) s))
      | _ \<Rightarrow> None)"
| "runner_turn Runner_finished s =
     (case ts_pc s of R_done a ad ar ret \<Rightarrow> Some (runner_finished a ad ar ret s) | _ \<Rightarrow> None)"
| "runner_turn Runner_finalize s =
     (case ts_pc s of
        R_finalize a ad ar \<Rightarrow> Some (runner_to (R_notify a ad ar) (task_finalize_call a False s))
      | R_halt a c \<Rightarrow> Some (runner_to (R_halt_notify a c) (task_finalize_call a c s))
      | _ \<Rightarrow> None)"
| "runner_turn Runner_notify s =
     (case ts_pc s of
        R_notify a ad ar \<Rightarrow> Some (runner_to (R_after a ad ar) (task_finalize_notify a s))
      | R_halt_notify a c \<Rightarrow> Some (runner_to (R_ended c) (task_finalize_notify a s))
      | _ \<Rightarrow> None)"
| "runner_turn (Runner_notify_late late) s =
     (case ts_pc s of
        R_halt_notify a c \<Rightarrow> if c then Some (runner_to (R_ended c) (task_finalize_notify_late late a s)) else None
      | _ \<Rightarrow> None)"
| "runner_turn Runner_round_end s =
     (case ts_pc s of R_after a ad ar \<Rightarrow> Some (runner_round_end a ad ar s) | _ \<Rightarrow> None)"
| "runner_turn Runner_exit s = (case ts_pc s of R_exit c \<Rightarrow> Some (s_task_runner_finalize c s) | _ \<Rightarrow> None)"
| "runner_turn Runner_cancelled s =
     (if runner_cancellable (ts_pc s) s then Some (runner_to (R_exit True) s) else None)"
| "runner_turn Runner_spurious s = (if ts_pc s = R_sleep then Some (runner_to R_woken s) else None)"
| "runner_turn u s = None"

fun task_client_turn :: "task_turn \<Rightarrow> task_sys \<Rightarrow> task_sys option" where
  "task_client_turn (Call_run i a flag) s = (if waiter_at i s = Some T_idle then Some (gallus_task_run i a flag s) else None)"
| "task_client_turn (Client_ran i) s = (case waiter_at i s of Some (T_ran a) \<Rightarrow> Some (task_run_flags i a s) | _ \<Rightarrow> None)"
| "task_client_turn (Call_task_wait i a timed) s =
     (if waiter_at i s = Some T_idle then Some (gallus_task_wait i a timed s) else None)"
| "task_client_turn (Client_recheck i) s =
     (case waiter_at i s of Some (T_woken a timed) \<Rightarrow> Some (gallus_task_wait i a timed s) | _ \<Rightarrow> None)"
| "task_client_turn (Client_wait_timeout i) s =
     (case waiter_at i s of
        Some (T_sleep a True) \<Rightarrow>
          Some (with_task a (\<lambda>t. task_event (Task_returned i GALLUS_RESULT_TIMEDOUT) (waiter_to i T_idle s)) s)
      | _ \<Rightarrow> None)"
| "task_client_turn (Client_wait_spurious i) s =
     (case waiter_at i s of Some (T_sleep a timed) \<Rightarrow> Some (waiter_to i (T_woken a timed) s) | _ \<Rightarrow> None)"
| "task_client_turn (Call_task_destroy i a) s =
     (if waiter_at i s = Some T_idle then Some (runner_delete a s) else None)"
| "task_client_turn (Call_shutdown i) s =
     (if waiter_at i s = Some T_idle then
        (let (s, ret) = s_pooled_thread_shutdown s in Some (task_event (Task_returned i ret) s))
      else None)"
| "task_client_turn Pool_acquire s =
     (if tr_is_used (ts_tr s) then None else Some (s\<lparr>ts_tr := (ts_tr s)\<lparr>tr_is_used := True\<rparr>\<rparr>))"
| "task_client_turn u s = None"

definition task_turn :: "task_turn \<Rightarrow> task_sys \<Rightarrow> task_sys option" where
  "task_turn u s = (case runner_turn u s of Some s' \<Rightarrow> Some s' | None \<Rightarrow> task_client_turn u s)"

fun task_turns :: "task_turn list \<Rightarrow> task_sys \<Rightarrow> task_sys option" where
  "task_turns [] s = Some s"
| "task_turns (u # us) s = (case task_turn u s of Some s' \<Rightarrow> task_turns us s' | None \<Rightarrow> None)"

definition task_sys_start :: "nat \<Rightarrow> task_world \<Rightarrow> task_sys" where
  "task_sys_start n w =
     \<lparr>ts_w = w,
      ts_tr = \<lparr>tr_state = TASK_RUNNER_STATE_NOT_ASSIGNED, tr_is_shutdown_requested = False, tr_is_got_a_task = False,
               tr_tsk = None, tr_is_used = True, tr_has_lck = True, tr_has_cnd = True\<rparr>,
      ts_pc = R_lock, ts_cl = replicate n T_idle, ts_events = [], ts_crash = False\<rparr>"

end
