(* ===== verification/Task_Laws.thy ===== *)
theory Task_Laws
  imports Task_Run
begin

text \<open>
  What a task that is run once on a pooled thread goes through, for clients that are polite: they give the
  thread one new task at a time, not for deletion, and destroy a task that was not run or is over while
  no call on it is under way. The last section shows what happens to clients that are not.
\<close>

section \<open>Politeness\<close>

fun concerned :: "nat \<Rightarrow> waiter_pc \<Rightarrow> bool" where
  "concerned a (T_ran b) = (a = b)"
| "concerned a (T_sleep b timed) = (a = b)"
| "concerned a (T_woken b timed) = (a = b)"
| "concerned a T_idle = False"

fun runner_gone :: "runner_pc \<Rightarrow> bool" where
  "runner_gone (R_ended c) = True"
| "runner_gone pc = False"

fun polite_turn :: "task_turn \<Rightarrow> task_sys \<Rightarrow> bool" where
  "polite_turn (Call_run i a flag) s \<longleftrightarrow>
     (case tk_heap (ts_w s) a of None \<Rightarrow> False | Some t \<Rightarrow> tk_state t = TASK_STATE_CONSTRUCTED) \<and>
     tr_tsk (ts_tr s) = None \<and> \<not> runner_gone (ts_pc s) \<and> flag AND TASK_DELETE_CONTEXT_AFTER_EXEC = 0"
| "polite_turn (Call_task_wait i a timed) s \<longleftrightarrow> tk_heap (ts_w s) a \<noteq> None"
| "polite_turn (Call_task_destroy i a) s \<longleftrightarrow>
     (case tk_heap (ts_w s) a of None \<Rightarrow> False | Some t \<Rightarrow> tk_state t = TASK_STATE_CONSTRUCTED \<or> tk_is_wait_done t) \<and>
     list_all (\<lambda>pc. \<not> concerned a pc) (ts_cl s)"
| "polite_turn u s \<longleftrightarrow> True"

fun polite_task_turns :: "task_turn list \<Rightarrow> task_sys \<Rightarrow> bool" where
  "polite_task_turns [] s \<longleftrightarrow> True"
| "polite_task_turns (u # us) s \<longleftrightarrow>
     polite_turn u s \<and> (case task_turn u s of Some s' \<Rightarrow> polite_task_turns us s' | None \<Rightarrow> True)"

section \<open>The life of a task\<close>

text \<open>What has happened to a task: how often its main procedure was called, what it returned, how it was finalized.\<close>

definition main_calls :: "nat \<Rightarrow> task_event list \<Rightarrow> nat" where
  "main_calls a es = count_list es (Task_main a)"

fun task_results :: "nat \<Rightarrow> task_event list \<Rightarrow> gallus_result_t list" where
  "task_results a [] = []"
| "task_results a (Task_result b ret # es) = (if a = b then ret # task_results a es else task_results a es)"
| "task_results a (e # es) = task_results a es"

fun task_finals :: "nat \<Rightarrow> task_event list \<Rightarrow> bool list" where
  "task_finals a [] = []"
| "task_finals a (Task_final b c # es) = (if a = b then c # task_finals a es else task_finals a es)"
| "task_finals a (e # es) = task_finals a es"

lemma history_append:
  "main_calls a (es @ [e]) = main_calls a es + (if e = Task_main a then 1 else 0)"
  "task_results a (es @ [e]) = task_results a es @ task_results a [e]"
  "task_finals a (es @ [e]) = task_finals a es @ task_finals a [e]"
  by (simp add: main_calls_def, induction a es rule: task_results.induct, simp_all,
      induction a es rule: task_finals.induct, simp_all)

text \<open>Where a task is, by the runner and the task it was given last.\<close>

datatype task_place =
    Elsewhere | Given | Starting | In_main | Returned gallus_result_t | Leaving bool
  | To_finalize | To_notify | To_halt bool | To_halt_notify bool

fun place_of :: "runner_pc \<Rightarrow> nat option \<Rightarrow> nat \<Rightarrow> task_place" where
  "place_of (R_run b ad ar) tsk a = (if a = b then Starting else Elsewhere)"
| "place_of (R_main b ad ar) tsk a = (if a = b then In_main else Elsewhere)"
| "place_of (R_done b ad ar ret) tsk a = (if a = b then Returned ret else Elsewhere)"
| "place_of (R_finalize b ad ar) tsk a = (if a = b then To_finalize else if tsk = Some a then Given else Elsewhere)"
| "place_of (R_notify b ad ar) tsk a = (if a = b then To_notify else if tsk = Some a then Given else Elsewhere)"
| "place_of (R_exit c) tsk a = (if tsk = Some a then Leaving c else Elsewhere)"
| "place_of (R_halt b c) tsk a = (if a = b then To_halt c else Elsewhere)"
| "place_of (R_halt_notify b c) tsk a = (if a = b then To_halt_notify c else Elsewhere)"
| "place_of (R_ended c) tsk a = Elsewhere"
| "place_of pc tsk a = (if tsk = Some a then Given else Elsewhere)"

definition whereabouts :: "nat \<Rightarrow> task_sys \<Rightarrow> task_place" where
  "whereabouts a s = place_of (ts_pc s) (tr_tsk (ts_tr s)) a"

text \<open>A task that is over, with what has happened to it, and one that is not, by its whereabouts.\<close>

definition task_final_calls :: "pooled_task \<Rightarrow> bool \<Rightarrow> bool list" where
  "task_final_calls t c = (if tk_finalize t \<noteq> None then [c] else [])"

definition task_ended :: "pooled_task \<Rightarrow> nat \<Rightarrow> gallus_result_t list \<Rightarrow> bool list \<Rightarrow> bool" where
  "task_ended t n rs fs \<longleftrightarrow>
     (case tk_state t of
        TASK_STATE_CLEAN_FINISHED \<Rightarrow> n = 1 \<and> rs = [tk_exit_code t] \<and> fs = task_final_calls t False
      | TASK_STATE_HALTED \<Rightarrow> n = 0 \<and> rs = [] \<and> fs = task_final_calls t False \<and> tk_exit_code t = GALLUS_RESULT_NOT_STARTED
      | TASK_STATE_CANCELLED \<Rightarrow> n \<le> 1 \<and> rs = [] \<and> fs = task_final_calls t True \<and> tk_exit_code t = GALLUS_RESULT_NOT_STARTED
      | _ \<Rightarrow> False)"

fun task_at :: "task_place \<Rightarrow> pooled_task \<Rightarrow> nat \<Rightarrow> gallus_result_t list \<Rightarrow> bool list \<Rightarrow> bool" where
  "task_at Elsewhere t n rs fs \<longleftrightarrow>
     (if tk_is_wait_done t then task_ended t n rs fs
      else tk_state t = TASK_STATE_CONSTRUCTED \<and> tk_exit_code t = GALLUS_RESULT_NOT_STARTED \<and> n = 0 \<and> rs = [] \<and> fs = [])"
| "task_at Given t n rs fs \<longleftrightarrow>
     tk_state t = TASK_STATE_ATTACHED \<and> \<not> tk_is_wait_done t \<and> tk_flag t AND TASK_DELETE_CONTEXT_AFTER_EXEC = 0 \<and>
     tk_exit_code t = GALLUS_RESULT_NOT_STARTED \<and> n = 0 \<and> rs = [] \<and> fs = []"
| "task_at Starting t n rs fs \<longleftrightarrow>
     tk_state t = TASK_STATE_RUNNING \<and> \<not> tk_is_wait_done t \<and>
     tk_exit_code t = GALLUS_RESULT_NOT_STARTED \<and> n = 0 \<and> rs = [] \<and> fs = []"
| "task_at In_main t n rs fs \<longleftrightarrow>
     tk_state t = TASK_STATE_RUNNING \<and> \<not> tk_is_wait_done t \<and>
     tk_exit_code t = GALLUS_RESULT_NOT_STARTED \<and> n = 1 \<and> rs = [] \<and> fs = []"
| "task_at (Returned ret) t n rs fs \<longleftrightarrow>
     tk_state t = TASK_STATE_RUNNING \<and> \<not> tk_is_wait_done t \<and> n = 1 \<and> rs = [ret] \<and> fs = []"
| "task_at (Leaving c) t n rs fs \<longleftrightarrow>
     tk_state t \<noteq> TASK_STATE_CONSTRUCTED \<and> \<not> tk_is_wait_done t \<and>
     tk_exit_code t = GALLUS_RESULT_NOT_STARTED \<and> n \<le> (if c then 1 else 0) \<and> rs = [] \<and> fs = []"
| "task_at To_finalize t n rs fs \<longleftrightarrow>
     tk_state t = TASK_STATE_CLEAN_FINISHED \<and> \<not> tk_is_wait_done t \<and> n = 1 \<and> rs = [tk_exit_code t] \<and> fs = []"
| "task_at To_notify t n rs fs \<longleftrightarrow>
     tk_state t = TASK_STATE_CLEAN_FINISHED \<and> \<not> tk_is_wait_done t \<and> n = 1 \<and> rs = [tk_exit_code t] \<and>
     fs = task_final_calls t False"
| "task_at (To_halt c) t n rs fs \<longleftrightarrow>
     tk_state t = (if c then TASK_STATE_CANCELLED else TASK_STATE_HALTED) \<and> \<not> tk_is_wait_done t \<and>
     tk_exit_code t = GALLUS_RESULT_NOT_STARTED \<and> n \<le> (if c then 1 else 0) \<and> rs = [] \<and> fs = []"
| "task_at (To_halt_notify c) t n rs fs \<longleftrightarrow>
     tk_state t = (if c then TASK_STATE_CANCELLED else TASK_STATE_HALTED) \<and> \<not> tk_is_wait_done t \<and>
     tk_exit_code t = GALLUS_RESULT_NOT_STARTED \<and> n \<le> (if c then 1 else 0) \<and> rs = [] \<and> fs = task_final_calls t c"

text \<open>A cancelled runner, and the task in whose finalize procedure it was: it is never notified of.\<close>

fun runner_was_cancelled :: "runner_pc \<Rightarrow> bool" where
  "runner_was_cancelled (R_exit c) = c"
| "runner_was_cancelled (R_halt a c) = c"
| "runner_was_cancelled (R_halt_notify a c) = c"
| "runner_was_cancelled (R_ended c) = c"
| "runner_was_cancelled pc = False"

definition task_stranded :: "task_place \<Rightarrow> pooled_task \<Rightarrow> nat \<Rightarrow> gallus_result_t list \<Rightarrow> bool list \<Rightarrow> bool" where
  "task_stranded p t n rs fs \<longleftrightarrow>
     p = Elsewhere \<and> tk_state t = TASK_STATE_CLEAN_FINISHED \<and> \<not> tk_is_wait_done t \<and> n = 1 \<and> rs = [tk_exit_code t] \<and>
     fs = task_final_calls t False"

definition task_consistent :: "nat \<Rightarrow> task_sys \<Rightarrow> bool" where
  "task_consistent a s \<longleftrightarrow>
     (case tk_heap (ts_w s) a of
        Some t \<Rightarrow>
          task_at (whereabouts a s) t (main_calls a (ts_events s)) (task_results a (ts_events s)) (task_finals a (ts_events s)) \<or>
          runner_was_cancelled (ts_pc s) \<and>
          task_stranded (whereabouts a s) t (main_calls a (ts_events s)) (task_results a (ts_events s))
            (task_finals a (ts_events s))
      | None \<Rightarrow>
          whereabouts a s = Elsewhere \<and> main_calls a (ts_events s) \<le> 1 \<and> length (task_finals a (ts_events s)) \<le> 1)"

text \<open>The runner's own state, by where it is, and the clients.\<close>

fun runner_ok :: "runner_pc \<Rightarrow> task_runner \<Rightarrow> bool" where
  "runner_ok R_sleep tr \<longleftrightarrow> tr_tsk tr = None \<and> \<not> tr_is_shutdown_requested tr"
| "runner_ok (R_picked topt sd) tr \<longleftrightarrow>
     (case topt of Some a \<Rightarrow> tr_tsk tr = Some a \<and> tr_state tr = TASK_RUNNER_STATE_ASSIGNED | None \<Rightarrow> sd)"
| "runner_ok (R_run a ad ar) tr \<longleftrightarrow> tr_tsk tr = Some a \<and> \<not> ad"
| "runner_ok (R_main a ad ar) tr \<longleftrightarrow> tr_tsk tr = Some a \<and> \<not> ad"
| "runner_ok (R_done a ad ar ret) tr \<longleftrightarrow> tr_tsk tr = Some a \<and> \<not> ad"
| "runner_ok (R_finalize a ad ar) tr \<longleftrightarrow> tr_tsk tr \<noteq> Some a \<and> \<not> ad"
| "runner_ok (R_notify a ad ar) tr \<longleftrightarrow> tr_tsk tr \<noteq> Some a \<and> \<not> ad"
| "runner_ok (R_after a ad ar) tr \<longleftrightarrow> \<not> ad"
| "runner_ok (R_halt a c) tr \<longleftrightarrow> tr_tsk tr = Some a"
| "runner_ok (R_halt_notify a c) tr \<longleftrightarrow> tr_tsk tr = Some a"
| "runner_ok pc tr \<longleftrightarrow> True"

text \<open>Nobody sleeps in a wait for a task that is over, unless a cancelled runner has notified too early.\<close>

fun waiter_ok :: "bool \<Rightarrow> (nat \<rightharpoonup> pooled_task) \<Rightarrow> waiter_pc \<Rightarrow> bool" where
  "waiter_ok c h T_idle \<longleftrightarrow> True"
| "waiter_ok c h (T_ran a) \<longleftrightarrow> h a \<noteq> None"
| "waiter_ok c h (T_sleep a timed) \<longleftrightarrow> (case h a of None \<Rightarrow> False | Some t \<Rightarrow> c \<or> \<not> tk_is_wait_done t)"
| "waiter_ok c h (T_woken a timed) \<longleftrightarrow> h a \<noteq> None"

definition task_inv :: "task_sys \<Rightarrow> bool" where
  "task_inv s \<longleftrightarrow>
     \<not> ts_crash s \<and> tr_is_got_a_task (ts_tr s) = (tr_tsk (ts_tr s) \<noteq> None) \<and> runner_ok (ts_pc s) (ts_tr s) \<and>
     (\<forall>pc \<in> set (ts_cl s). waiter_ok (runner_was_cancelled (ts_pc s)) (tk_heap (ts_w s)) pc) \<and> (\<forall>a. task_consistent a s)"


section \<open>The invariant\<close>

lemma task_invD:
  assumes "task_inv s"
  shows "\<not> ts_crash s" "tr_is_got_a_task (ts_tr s) = (tr_tsk (ts_tr s) \<noteq> None)" "runner_ok (ts_pc s) (ts_tr s)"
    "\<forall>pc \<in> set (ts_cl s). waiter_ok (runner_was_cancelled (ts_pc s)) (tk_heap (ts_w s)) pc" "task_consistent a s"
  using assms by (simp_all add: task_inv_def)

abbreviation task_history :: "nat \<Rightarrow> task_sys \<Rightarrow> nat \<times> gallus_result_t list \<times> bool list" where
  "task_history b s \<equiv> (main_calls b (ts_events s), task_results b (ts_events s), task_finals b (ts_events s))"

text \<open>A task that is somewhere is there.\<close>

lemma task_present:
  assumes "task_inv s" "whereabouts a s = p" "p \<noteq> Elsewhere"
  shows "\<exists>t. tk_heap (ts_w s) a = Some t \<and>
    task_at p t (main_calls a (ts_events s)) (task_results a (ts_events s)) (task_finals a (ts_events s))"
  using task_invD(5) [OF assms(1), of a] assms(2,3)
  by (cases "tk_heap (ts_w s) a") (auto simp: task_consistent_def task_stranded_def)

lemma waiter_ok_mono: "waiter_ok c h pc \<Longrightarrow> (c \<Longrightarrow> c') \<Longrightarrow> waiter_ok c' h pc"
  by (cases pc) (auto split: option.splits)

text \<open>The invariant after a turn that touches no task, and after one that changes one task.\<close>

lemma task_ok_frame:
  assumes "task_consistent b s" "tk_heap (ts_w s') b = tk_heap (ts_w s) b" "whereabouts b s' = whereabouts b s"
    "task_history b s' = task_history b s" "runner_was_cancelled (ts_pc s) \<Longrightarrow> runner_was_cancelled (ts_pc s')"
  shows "task_consistent b s'"
  using assms by (cases "tk_heap (ts_w s) b") (auto simp: task_consistent_def)

lemma inv_same:
  assumes "task_inv s" "ts_w s' = ts_w s" "\<And>b. task_history b s' = task_history b s" "\<And>b. whereabouts b s' = whereabouts b s"
    "\<not> ts_crash s'" "tr_is_got_a_task (ts_tr s') = (tr_tsk (ts_tr s') \<noteq> None)" "runner_ok (ts_pc s') (ts_tr s')"
    "\<And>pc. pc \<in> set (ts_cl s') \<Longrightarrow> waiter_ok (runner_was_cancelled (ts_pc s)) (tk_heap (ts_w s)) pc"
    "runner_was_cancelled (ts_pc s) \<Longrightarrow> runner_was_cancelled (ts_pc s')"
  shows "task_inv s'"
  using assms task_ok_frame [OF task_invD(5) [OF assms(1)], of s'] waiter_ok_mono by (simp add: task_inv_def) blast

lemma inv_update:
  assumes I: "task_inv s" and h: "tk_heap (ts_w s') = (tk_heap (ts_w s))(a \<mapsto> t')"
    and other: "\<And>b. b \<noteq> a \<Longrightarrow> task_history b s' = task_history b s" "\<And>b. b \<noteq> a \<Longrightarrow> whereabouts b s' = whereabouts b s"
    and at: "task_at (whereabouts a s') t' (main_calls a (ts_events s')) (task_results a (ts_events s')) (task_finals a (ts_events s'))"
    and rest: "\<not> ts_crash s'" "tr_is_got_a_task (ts_tr s') = (tr_tsk (ts_tr s') \<noteq> None)" "runner_ok (ts_pc s') (ts_tr s')"
      "\<And>pc. pc \<in> set (ts_cl s') \<Longrightarrow> waiter_ok (runner_was_cancelled (ts_pc s)) ((tk_heap (ts_w s))(a \<mapsto> t')) pc"
    and c: "runner_was_cancelled (ts_pc s) \<Longrightarrow> runner_was_cancelled (ts_pc s')"
  shows "task_inv s'"
proof -
  have "task_consistent b s'" for b
  proof (cases "b = a")
    case True
    then show ?thesis using at h by (simp add: task_consistent_def)
  next
    case False
    then show ?thesis using other c task_ok_frame [OF task_invD(5) [OF I], of s' b] h by simp
  qed
  moreover have "\<forall>pc \<in> set (ts_cl s'). waiter_ok (runner_was_cancelled (ts_pc s')) (tk_heap (ts_w s')) pc"
    using rest(4) c waiter_ok_mono h by simp blast
  ultimately show ?thesis using rest(1-3) by (simp add: task_inv_def)
qed

lemma waiter_ok_update:
  "waiter_ok c h pc \<Longrightarrow> h a = Some t \<Longrightarrow> tk_is_wait_done t' = tk_is_wait_done t \<Longrightarrow> waiter_ok c (h(a \<mapsto> t')) pc"
  by (cases pc) (auto split: option.splits)

lemma waiter_ok_notified:
  "waiter_ok c h pc \<Longrightarrow> h a = Some t \<Longrightarrow> waiter_ok c (h(a \<mapsto> t')) (wake_waiter a pc)"
  by (cases pc) (auto split: option.splits)

lemmas turn_simps =
  task_event_def runner_to_def waiter_to_def with_task_def put_task_def history_append whereabouts_def

lemma inv_runner_pick:
  assumes I: "task_inv s" and pc: "ts_pc s = R_lock \<or> ts_pc s = R_woken"
  shows "task_inv (runner_pick s)"
  using task_invD [OF I] pc
  by (intro inv_same [OF I]; auto simp: runner_pick_def Let_def turn_simps split: if_splits)

lemma inv_runner_begin:
  assumes I: "task_inv s" and pc: "ts_pc s = R_picked (Some a) sd"
  shows "task_inv (runner_begin a s)"
proof -
  note D = task_invD [OF I]
  have tsk: "tr_tsk (ts_tr s) = Some a" using D(3) pc by simp
  obtain t where t: "tk_heap (ts_w s) a = Some t"
    and at: "task_at Given t (main_calls a (ts_events s)) (task_results a (ts_events s)) (task_finals a (ts_events s))"
    using task_present [OF I, of a Given] pc tsk by (auto simp: whereabouts_def)
  show ?thesis
    using D t at tsk pc
    by (intro inv_update [OF I, where a = a and
          t' = "t\<lparr>tk_tr := Some 0, tk_is_started := True, tk_state := TASK_STATE_RUNNING\<rparr>"])
      (auto simp: runner_begin_def Let_def turn_simps intro!: waiter_ok_update)
qed

lemma inv_runner_to_exit:
  assumes I: "task_inv s" and pc: "ts_pc s = R_picked topt sd \<or> runner_cancellable (ts_pc s) s"
    and c: "runner_cancellable (ts_pc s) s \<Longrightarrow> c"
  shows "task_inv (runner_to (R_exit c) s)"
proof -
  note D = task_invD [OF I]
  have was: "\<not> runner_was_cancelled (ts_pc s)" using pc by (cases "ts_pc s") simp_all
  have "task_consistent b (runner_to (R_exit c) s)" for b
    using D(3) D(5) [of b] pc c was
    by (cases "tk_heap (ts_w s) b"; cases "ts_pc s")
      (auto simp: task_consistent_def task_stranded_def turn_simps split: if_splits)
  moreover have "\<forall>pc \<in> set (ts_cl s). waiter_ok c (tk_heap (ts_w s)) pc"
    using D(4) was waiter_ok_mono by blast
  ultimately show ?thesis using D(1-3) by (simp add: task_inv_def runner_to_def)
qed

lemma inv_runner_shutdown:
  assumes I: "task_inv s" and pc: "ts_pc s = R_picked (Some a) sd"
  shows "task_inv (runner_to (R_exit False) (runner_shutdown_task (Some a) s))"
proof -
  note D = task_invD [OF I]
  have tsk: "tr_tsk (ts_tr s) = Some a" using D(3) pc by simp
  obtain t where t: "tk_heap (ts_w s) a = Some t"
    and at: "task_at Given t (main_calls a (ts_events s)) (task_results a (ts_events s)) (task_finals a (ts_events s))"
    using task_present [OF I, of a Given] pc tsk by (auto simp: whereabouts_def)
  show ?thesis
    using D t at tsk pc
    by (intro inv_update [OF I, where a = a and
          t' = "t\<lparr>tk_exit_code := GALLUS_RESULT_NOT_STARTED, tk_is_runner_shutdown := True,
                  tk_state := TASK_STATE_RUNNER_SHUTDOWN\<rparr>"])
      (auto simp: runner_shutdown_task_def turn_simps intro!: waiter_ok_update)
qed

lemma inv_runner_dispatch:
  assumes I: "task_inv s" and pc: "ts_pc s = R_picked topt sd"
  shows "task_inv (runner_dispatch topt sd s)"
proof (cases topt)
  case None
  then have "sd" using task_invD(3) [OF I] pc by simp
  then show ?thesis using None inv_runner_to_exit [OF I, of topt sd False] pc by (simp add: runner_dispatch_def)
next
  case (Some a)
  then have "tr_state (ts_tr s) = TASK_RUNNER_STATE_ASSIGNED" using task_invD(3) [OF I] pc by simp
  then show ?thesis
    using Some pc inv_runner_begin [OF I, of a sd] inv_runner_shutdown [OF I, of a sd]
      inv_runner_to_exit [OF I, of topt sd False] by (simp add: runner_dispatch_def)
qed

lemma inv_runner_call:
  assumes I: "task_inv s" and pc: "ts_pc s = R_run a ad ar"
  shows "task_inv (runner_call a ad ar s)"
proof -
  obtain t where t: "tk_heap (ts_w s) a = Some t"
    and at: "task_at Starting t (main_calls a (ts_events s)) (task_results a (ts_events s)) (task_finals a (ts_events s))"
    using task_present [OF I, of a Starting] pc by (auto simp: whereabouts_def)
  show ?thesis
    using task_invD [OF I] t at pc
    by (intro inv_update [OF I, where a = a and t' = t])
      (auto simp: runner_call_def turn_simps fun_upd_idem)
qed

lemma inv_runner_return:
  assumes I: "task_inv s" and pc: "ts_pc s = R_main a ad ar"
  shows "task_inv (task_event (Task_result a ret) (runner_to (R_done a ad ar ret) s))"
proof -
  obtain t where t: "tk_heap (ts_w s) a = Some t"
    and at: "task_at In_main t (main_calls a (ts_events s)) (task_results a (ts_events s)) (task_finals a (ts_events s))"
    using task_present [OF I, of a In_main] pc by (auto simp: whereabouts_def)
  show ?thesis
    using task_invD [OF I] t at pc
    by (intro inv_update [OF I, where a = a and t' = t]) (auto simp: turn_simps fun_upd_idem)
qed

lemma inv_runner_finished:
  assumes I: "task_inv s" and pc: "ts_pc s = R_done a ad ar ret"
  shows "task_inv (runner_finished a ad ar ret s)"
proof -
  obtain t where t: "tk_heap (ts_w s) a = Some t"
    and at: "task_at (Returned ret) t (main_calls a (ts_events s)) (task_results a (ts_events s)) (task_finals a (ts_events s))"
    using task_present [OF I, of a "Returned ret"] pc by (auto simp: whereabouts_def)
  show ?thesis
    using task_invD [OF I] t at pc
    by (intro inv_update [OF I, where a = a and
          t' = "t\<lparr>tk_tr := None, tk_exit_code := ret, tk_is_clean_finished := True, tk_state := TASK_STATE_CLEAN_FINISHED\<rparr>"])
      (auto simp: runner_finished_def Let_def turn_simps intro!: waiter_ok_update)
qed

text \<open>The finalize procedure and the notification, after a clean end and after a halt or a cancellation.\<close>

lemma inv_finalize_call:
  assumes I: "task_inv s" and pc: "ts_pc s = R_finalize a ad ar"
  shows "task_inv (runner_to (R_notify a ad ar) (task_finalize_call a False s))"
proof -
  obtain t where t: "tk_heap (ts_w s) a = Some t"
    and at: "task_at To_finalize t (main_calls a (ts_events s)) (task_results a (ts_events s)) (task_finals a (ts_events s))"
    using task_present [OF I, of a To_finalize] pc by (auto simp: whereabouts_def)
  show ?thesis
    using task_invD [OF I] t at pc
    by (intro inv_update [OF I, where a = a and t' = t])
      (auto simp: task_finalize_call_def task_final_calls_def turn_simps fun_upd_idem split: if_splits)
qed

lemma inv_halt_call:
  assumes I: "task_inv s" and pc: "ts_pc s = R_halt a c"
  shows "task_inv (runner_to (R_halt_notify a c) (task_finalize_call a c s))"
proof -
  obtain t where t: "tk_heap (ts_w s) a = Some t"
    and at: "task_at (To_halt c) t (main_calls a (ts_events s)) (task_results a (ts_events s)) (task_finals a (ts_events s))"
    using task_present [OF I, of a "To_halt c"] pc by (auto simp: whereabouts_def)
  show ?thesis
    using task_invD [OF I] t at pc
    by (intro inv_update [OF I, where a = a and t' = t])
      (auto simp: task_finalize_call_def task_final_calls_def turn_simps fun_upd_idem split: if_splits)
qed

lemma inv_finalize_notify:
  assumes I: "task_inv s" and pc: "ts_pc s = R_notify a ad ar"
  shows "task_inv (runner_to (R_after a ad ar) (task_finalize_notify a s))"
proof -
  obtain t where t: "tk_heap (ts_w s) a = Some t"
    and at: "task_at To_notify t (main_calls a (ts_events s)) (task_results a (ts_events s)) (task_finals a (ts_events s))"
    using task_present [OF I, of a To_notify] pc by (auto simp: whereabouts_def)
  show ?thesis
    using task_invD [OF I] t at pc
    by (intro inv_update [OF I, where a = a and t' = "t\<lparr>tk_is_wait_done := True\<rparr>"])
      (auto simp: task_finalize_notify_def task_ended_def task_final_calls_def turn_simps intro!: waiter_ok_notified)
qed

lemma inv_halt_notify:
  assumes I: "task_inv s" and pc: "ts_pc s = R_halt_notify a c"
  shows "task_inv (runner_to (R_ended c) (task_finalize_notify a s))"
proof -
  obtain t where t: "tk_heap (ts_w s) a = Some t"
    and at: "task_at (To_halt_notify c) t (main_calls a (ts_events s)) (task_results a (ts_events s)) (task_finals a (ts_events s))"
    using task_present [OF I, of a "To_halt_notify c"] pc by (auto simp: whereabouts_def)
  show ?thesis
    using task_invD [OF I] t at pc
    by (intro inv_update [OF I, where a = a and t' = "t\<lparr>tk_is_wait_done := True\<rparr>"])
      (auto simp: task_finalize_notify_def task_ended_def task_final_calls_def turn_simps
        split: if_splits intro!: waiter_ok_notified)
qed

lemma waiter_ok_late: "waiter_ok True h pc \<Longrightarrow> h a = Some t \<Longrightarrow> waiter_ok True (h(a \<mapsto> t')) pc"
  by (cases pc) (auto split: option.splits)

lemma inv_halt_notify_late:
  assumes I: "task_inv s" and pc: "ts_pc s = R_halt_notify a True"
  shows "task_inv (runner_to (R_ended True) (task_finalize_notify_late late a s))"
proof -
  obtain t where t: "tk_heap (ts_w s) a = Some t"
    and at: "task_at (To_halt_notify True) t (main_calls a (ts_events s)) (task_results a (ts_events s)) (task_finals a (ts_events s))"
    using task_present [OF I, of a "To_halt_notify True"] pc by (auto simp: whereabouts_def)
  have cl: "waiter_ok True ((tk_heap (ts_w s))(a \<mapsto> t\<lparr>tk_is_wait_done := True\<rparr>)) pc"
    if "(i, pc') \<in> set (enumerate 0 (ts_cl s))" "pc = (if i \<in> set late then pc' else wake_waiter a pc')" for i pc pc'
  proof -
    have "waiter_ok True (tk_heap (ts_w s)) pc'"
      using task_invD(4) [OF I] that(1) pc by (auto simp: in_set_enumerate_eq)
    then show ?thesis using that(2) t by (auto intro: waiter_ok_late waiter_ok_notified)
  qed
  show ?thesis
    using task_invD [OF I] t at pc cl
    by (intro inv_update [OF I, where a = a and t' = "t\<lparr>tk_is_wait_done := True\<rparr>"])
      (auto simp: task_finalize_notify_late_def task_ended_def task_final_calls_def turn_simps split: if_splits)
qed

lemma inv_runner_round_end:
  assumes I: "task_inv s" and pc: "ts_pc s = R_after a ad ar"
  shows "task_inv (runner_round_end a ad ar s)"
  using task_invD [OF I] pc
  by (intro inv_same [OF I]) (auto simp: runner_round_end_def Let_def turn_simps split: if_splits)

lemma inv_runner_ends:
  assumes I: "task_inv s" and pc: "ts_pc s = R_exit c"
  shows "task_inv (s_task_runner_finalize c s)"
proof (cases "tr_tsk (ts_tr s)")
  case None
  then show ?thesis
    using task_invD [OF I] pc by (intro inv_same [OF I]) (auto simp: s_task_runner_finalize_def turn_simps)
next
  case (Some a)
  then obtain t where t: "tk_heap (ts_w s) a = Some t"
    and at: "task_at (Leaving c) t (main_calls a (ts_events s)) (task_results a (ts_events s)) (task_finals a (ts_events s))"
    using task_present [OF I, of a "Leaving c"] pc by (auto simp: whereabouts_def)
  show ?thesis
    using task_invD [OF I] t at pc Some
    by (intro inv_update [OF I, where a = a and
          t' = "t\<lparr>tk_is_cancelled := c, tk_state := (if c then TASK_STATE_CANCELLED else TASK_STATE_HALTED)\<rparr>"])
      (auto simp: s_task_runner_finalize_def turn_simps intro!: waiter_ok_update)
qed

lemma inv_runner_turn:
  assumes "task_inv s" "runner_turn u s = Some s'"
  shows "task_inv s'"
proof (cases u)
  case Runner_spurious
  then show ?thesis using assms task_invD [OF assms(1)]
    by (intro inv_same [OF assms(1)]) (auto simp: turn_simps split: if_splits)
qed (use assms in \<open>auto split: if_splits runner_pc.splits intro: inv_runner_pick inv_runner_dispatch inv_runner_call
      inv_runner_return inv_runner_finished inv_finalize_call inv_halt_call inv_finalize_notify inv_halt_notify inv_halt_notify_late
      inv_runner_round_end inv_runner_ends inv_runner_to_exit\<close>)


text \<open>The turns of the clients.\<close>

lemma waiter_at_D: "waiter_at i s = Some pc \<Longrightarrow> i < length (ts_cl s) \<and> ts_cl s ! i = pc \<and> pc \<in> set (ts_cl s)"
  by (auto simp: waiter_at_def split: if_splits)

lemma waiters_to:
  "x \<in> set (cl[i := pc]) \<Longrightarrow> \<forall>y \<in> set cl. waiter_ok c h y \<Longrightarrow> waiter_ok c h pc \<Longrightarrow> waiter_ok c h x"
  using set_update_subset_insert [of cl i pc] by blast

lemma place_wake [simp]:
  "place_of (wake_runner pc) tsk b = place_of pc tsk b" "runner_was_cancelled (wake_runner pc) = runner_was_cancelled pc"
  by (cases pc; simp)+

lemma new_task_place:
  assumes I: "task_inv s" and t: "tk_heap (ts_w s) a = Some t" "tk_state t = TASK_STATE_CONSTRUCTED"
  shows "whereabouts a s = Elsewhere \<and> \<not> tk_is_wait_done t"
  using task_invD(5) [OF I, of a] t
  by (cases "whereabouts a s") (auto simp: task_consistent_def task_stranded_def task_ended_def split: if_splits)

lemma place_given:
  assumes "runner_ok pc tr" "tr_tsk tr = None" "place_of pc None a = Elsewhere" "\<not> runner_gone pc"
  shows "place_of pc (Some a) a = Given \<or> (\<exists>c. place_of pc (Some a) a = Leaving c)"
    "b \<noteq> a \<Longrightarrow> place_of pc (Some a) b = place_of pc None b"
    "runner_ok (wake_runner pc) (tr\<lparr>tr_tsk := Some a, tr_is_got_a_task := True\<rparr>)"
  using assms by (cases pc; auto split: option.splits if_splits)+

lemma inv_call_run:
  assumes I: "task_inv s" and p: "polite_turn (Call_run i a flag) s"
  shows "task_inv (gallus_task_run i a flag s)"
proof -
  note D = task_invD [OF I]
  obtain t where t: "tk_heap (ts_w s) a = Some t" "tk_state t = TASK_STATE_CONSTRUCTED"
    and tsk: "tr_tsk (ts_tr s) = None" and pc: "\<not> runner_gone (ts_pc s)"
    and flag: "flag AND TASK_DELETE_CONTEXT_AFTER_EXEC = 0"
    using p by (auto split: option.splits)
  have new: "whereabouts a s = Elsewhere" "\<not> tk_is_wait_done t" using new_task_place [OF I t] by simp_all
  then have at: "task_at Elsewhere t (main_calls a (ts_events s)) (task_results a (ts_events s)) (task_finals a (ts_events s))"
    using D(5) [of a] t by (auto simp: task_consistent_def task_stranded_def)
  show ?thesis
  proof (cases "tk_main t \<noteq> None \<and> tk_tr t = None \<and> tr_is_used (ts_tr s)")
    case False
    then show ?thesis
      using D(1-4) t(1) by (intro inv_same [OF I]) (auto simp: gallus_task_run_def turn_simps split: if_splits)
  next
    case True
    note given = place_given [OF D(3) tsk, of a]
    show ?thesis
      using D t at True new flag pc tsk given
      by (intro inv_update [OF I, where a = a and t' = "t\<lparr>tk_state := TASK_STATE_ATTACHED, tk_flag := flag\<rparr>"])
        (auto simp: gallus_task_run_def turn_simps place_wake intro: waiter_ok_update elim!: waiters_to)
  qed
qed

lemma inv_task_wait:
  assumes I: "task_inv s" and a: "tk_heap (ts_w s) a \<noteq> None"
  shows "task_inv (gallus_task_wait i a timed s)"
  using task_invD [OF I] a
  by (intro inv_same [OF I])
    (auto simp: gallus_task_wait_def turn_simps elim!: waiters_to split: if_splits)

lemma task_ended_closed: "task_ended (t\<lparr>tk_has_cnd := x, tk_has_lck := y\<rparr>) = task_ended t"
  by (cases "tk_state t") (simp_all add: task_ended_def task_final_calls_def fun_eq_iff)

lemma inv_task_destroy:
  assumes I: "task_inv s" and p: "polite_turn (Call_task_destroy i a) s"
  shows "task_inv (runner_delete a s)"
proof -
  note D = task_invD [OF I]
  obtain t where t: "tk_heap (ts_w s) a = Some t" "tk_state t = TASK_STATE_CONSTRUCTED \<or> tk_is_wait_done t"
    and cl: "list_all (\<lambda>pc. \<not> concerned a pc) (ts_cl s)" using p by (auto split: option.splits)
  have away: "whereabouts a s = Elsewhere"
    using t new_task_place [OF I t(1)] D(5) [of a] by (cases "whereabouts a s") (auto simp: task_consistent_def task_stranded_def)
  then have at: "task_at Elsewhere t (main_calls a (ts_events s)) (task_results a (ts_events s)) (task_finals a (ts_events s))"
    using D(5) [of a] t by (auto simp: task_consistent_def task_stranded_def)
  then have few: "main_calls a (ts_events s) \<le> 1" "length (task_finals a (ts_events s)) \<le> 1"
    by (auto simp: task_ended_def task_final_calls_def split: if_splits task_state.splits)
  have left: "waiter_ok (runner_was_cancelled (ts_pc s)) ((tk_heap (ts_w s))(a := None)) pc" if "pc \<in> set (ts_cl s)" for pc
  proof -
    have "waiter_ok (runner_was_cancelled (ts_pc s)) (tk_heap (ts_w s)) pc" "\<not> concerned a pc" using that D(4) cl by (auto simp: list_all_iff)
    then show ?thesis by (cases pc) (auto split: option.splits)
  qed
  show ?thesis
  proof (cases "tk_state t \<noteq> TASK_STATE_RUNNING \<and> tk_state t \<noteq> TASK_STATE_CANCELLED")
    case False
    then show ?thesis using t(1) I by (auto simp: runner_delete_def gallus_task_destroy_def)
  next
    case True
    show ?thesis
    proof (cases "tk_total_obj_size t = 0")
      case True': True
      show ?thesis
        using D t at True True' away
        by (intro inv_update [OF I, where a = a and t' = "t\<lparr>tk_has_cnd := False, tk_has_lck := False\<rparr>"])
          (auto simp: runner_delete_def gallus_task_destroy_def Let_def whereabouts_def task_ended_closed split: option.splits intro: waiter_ok_update)
    next
      case False
      let ?s = "runner_delete a s"
      have s': "tk_heap (ts_w ?s) = (tk_heap (ts_w s))(a := None)" "ts_events ?s = ts_events s" "ts_tr ?s = ts_tr s"
        "ts_pc ?s = ts_pc s" "ts_cl ?s = ts_cl s" "ts_crash ?s = ts_crash s"
        using True False t(1) by (auto simp: runner_delete_def gallus_task_destroy_def Let_def split: option.splits)
      have "task_consistent b ?s" for b
      proof (cases "b = a")
        case True
        then show ?thesis using few away by (simp add: task_consistent_def s' whereabouts_def)
      next
        case False
        then show ?thesis using s' by (intro task_ok_frame [OF D(5) [of b]]) (simp_all add: whereabouts_def)
      qed
      then show ?thesis using D(1-3) left by (simp add: task_inv_def s')
    qed
  qed
qed

lemma inv_shutdown:
  assumes I: "task_inv s"
  shows "task_inv (task_event (Task_returned i ret) (fst (s_pooled_thread_shutdown s)))"
proof -
  have "runner_ok (wake_runner pc) (tr\<lparr>tr_is_shutdown_requested := True\<rparr>)" if "runner_ok pc tr" for pc tr
    using that by (cases pc) (auto split: option.splits)
  then show ?thesis
    using task_invD [OF I]
    by (intro inv_same [OF I]) (auto simp: s_pooled_thread_shutdown_def turn_simps place_wake split: if_splits)
qed

lemma inv_acquire:
  assumes I: "task_inv s"
  shows "task_inv (s\<lparr>ts_tr := (ts_tr s)\<lparr>tr_is_used := True\<rparr>\<rparr>)"
proof -
  have "runner_ok pc (tr\<lparr>tr_is_used := True\<rparr>) = runner_ok pc tr" for pc tr by (cases pc) (auto split: option.splits)
  then show ?thesis using task_invD [OF I] by (intro inv_same [OF I]) (auto simp: turn_simps)
qed

lemma inv_waiter_moves:
  assumes I: "task_inv s" and i: "waiter_at i s = Some pc"
    and s': "ts_w s' = ts_w s" "ts_tr s' = ts_tr s" "ts_pc s' = ts_pc s" "ts_crash s' = ts_crash s"
      "ts_cl s' = (ts_cl s)[i := pc']" "\<And>b. task_history b s' = task_history b s"
    and pc': "waiter_ok (runner_was_cancelled (ts_pc s)) (tk_heap (ts_w s)) pc \<Longrightarrow>
      waiter_ok (runner_was_cancelled (ts_pc s)) (tk_heap (ts_w s)) pc'"
  shows "task_inv s'"
  using task_invD [OF I] waiter_at_D [OF i] s' pc'
  by (intro inv_same [OF I]) (auto simp: whereabouts_def elim!: waiters_to)

lemma inv_task_client_turn:
  assumes I: "task_inv s" and p: "polite_turn u s" and st: "task_client_turn u s = Some s'"
  shows "task_inv s'"
proof -
  have here: "tk_heap (ts_w s) a \<noteq> None"
    if "waiter_at i s = Some pc" "concerned a pc" for i a pc
    using task_invD(4) [OF I] waiter_at_D [OF that(1)] that(2) by (cases pc) (auto split: option.splits)
  show ?thesis
  proof (cases u)
    case (Client_ran i)
    then obtain a where "waiter_at i s = Some (T_ran a)" "s' = task_run_flags i a s"
      using st by (auto split: option.splits waiter_pc.splits)
    then show ?thesis using here [of i "T_ran a" a]
      by (intro inv_waiter_moves [OF I, of i "T_ran a" s' T_idle]) (auto simp: task_run_flags_def turn_simps)
  next
    case (Client_recheck i)
    then show ?thesis using st here inv_task_wait [OF I] by (auto split: option.splits waiter_pc.splits)
  next
    case (Client_wait_timeout i)
    then obtain a where "waiter_at i s = Some (T_sleep a True)"
      "s' = with_task a (\<lambda>t. task_event (Task_returned i GALLUS_RESULT_TIMEDOUT) (waiter_to i T_idle s)) s"
      using st by (auto split: option.splits waiter_pc.splits bool.splits)
    then show ?thesis using here [of i "T_sleep a True" a]
      by (intro inv_waiter_moves [OF I, of i "T_sleep a True" s' T_idle]) (auto simp: turn_simps)
  next
    case (Client_wait_spurious i)
    then obtain a timed where "waiter_at i s = Some (T_sleep a timed)" "s' = waiter_to i (T_woken a timed) s"
      using st by (auto split: option.splits waiter_pc.splits)
    then show ?thesis using here [of i "T_sleep a timed" a]
      by (intro inv_waiter_moves [OF I, of i "T_sleep a timed" s' "T_woken a timed"]) (auto simp: turn_simps)
  next
    case (Call_run i a flag)
    then show ?thesis using st p inv_call_run [OF I, of i a flag] by (simp del: polite_turn.simps split: if_splits)
  next
    case (Call_task_wait i a timed)
    then show ?thesis using st p inv_task_wait [OF I] by (auto split: if_splits)
  next
    case (Call_task_destroy i a)
    then show ?thesis using st p inv_task_destroy [OF I, of i a] by (simp del: polite_turn.simps split: if_splits)
  next
    case (Call_shutdown i)
    then show ?thesis using st inv_shutdown [OF I] by (auto split: if_splits prod.splits)
  next
    case Pool_acquire
    then show ?thesis using st inv_acquire [OF I] by (auto split: if_splits)
  qed (use st in auto)
qed

lemma task_turn_cases: "task_turn u s = Some s' \<Longrightarrow> runner_turn u s = Some s' \<or> task_client_turn u s = Some s'"
  by (cases "runner_turn u s") (simp_all add: task_turn_def)

lemma inv_task_turn: "task_inv s \<Longrightarrow> polite_turn u s \<Longrightarrow> task_turn u s = Some s' \<Longrightarrow> task_inv s'"
  using task_turn_cases inv_runner_turn inv_task_client_turn by metis

lemma inv_task_turns: "task_inv s \<Longrightarrow> polite_task_turns us s \<Longrightarrow> task_turns us s = Some s' \<Longrightarrow> task_inv s'"
proof (induction us arbitrary: s)
  case (Cons u us)
  then obtain s1 where "task_turn u s = Some s1" "task_turns us s1 = Some s'" by (auto split: option.splits)
  then show ?case using Cons.IH [of s1] Cons.prems inv_task_turn [OF Cons.prems(1)] by auto
qed simp

section \<open>Reachable states\<close>

text \<open>New tasks, as \<^verbatim>\<open>gallus_task_create\<close> makes them.\<close>

definition is_new_task :: "pooled_task \<Rightarrow> bool" where
  "is_new_task t \<longleftrightarrow>
     tk_state t = TASK_STATE_CONSTRUCTED \<and> \<not> tk_is_wait_done t \<and> tk_exit_code t = GALLUS_RESULT_NOT_STARTED \<and>
     tk_tr t = None"

definition new_tasks :: "task_world \<Rightarrow> bool" where
  "new_tasks w \<longleftrightarrow> (\<forall>a t. tk_heap w a = Some t \<longrightarrow> is_new_task t)"

lemma task_init_new:
  "task_init ke sz name mf ff uf t0 = (t, GALLUS_RESULT_OK) \<Longrightarrow> is_new_task t \<and> tk_main t = mf"
  by (auto simp: task_init_def Let_def is_new_task_def split: if_splits)

lemma gallus_task_create_new:
  assumes "gallus_task_create ke tptr sz name mf ff uf w = Some (w', h, GALLUS_RESULT_OK)"
  shows "\<exists>a. h = Some (Some a) \<and> (\<exists>t. tk_heap w' a = Some t \<and> is_new_task t \<and> tk_main t = mf \<and> mf \<noteq> None) \<and>
    (\<forall>b. b \<noteq> a \<longrightarrow> tk_heap w' b = tk_heap w b)"
  using assms
  by (auto simp: gallus_task_create_def Let_def dest: task_init_new split: option.splits if_splits prod.splits)

text \<open>The runner of a start is a constructed and set up one that was acquired.\<close>

lemma runner_of_start:
  assumes "s_pooled_thread_construct thd lck cnd tr0 = (tr1, GALLUS_RESULT_OK, ds)"
    "s_pooled_thread_setup GALLUS_RESULT_OK tr1 = (tr2, ret)"
  shows "ret = GALLUS_RESULT_OK \<and> ts_tr (task_sys_start n w) = tr2\<lparr>tr_is_used := True\<rparr> \<and> ds = []"
  using assms
  by (auto simp: s_pooled_thread_construct_def s_pooled_thread_setup_def s_task_runner_freeup_def task_sys_start_def
      Let_def split: if_splits)

lemma inv_start: "new_tasks w \<Longrightarrow> task_inv (task_sys_start n w)"
  by (auto simp: task_inv_def task_sys_start_def task_consistent_def whereabouts_def new_tasks_def is_new_task_def main_calls_def
      split: option.splits)

definition task_reached :: "nat \<Rightarrow> task_world \<Rightarrow> task_turn list \<Rightarrow> task_sys \<Rightarrow> bool" where
  "task_reached n w us s \<longleftrightarrow>
     new_tasks w \<and> polite_task_turns us (task_sys_start n w) \<and> task_turns us (task_sys_start n w) = Some s"

lemma reached_inv: "task_reached n w us s \<Longrightarrow> task_inv s"
  using inv_task_turns [OF inv_start] by (auto simp: task_reached_def)

section \<open>Progress\<close>

text \<open>How many turns of the runner a task is away from its end, at most.\<close>

fun runner_rank :: "nat \<Rightarrow> runner_pc \<Rightarrow> nat" where
  "runner_rank a (R_finalize b ad ar) = (if a = b then 2 else 10)"
| "runner_rank a (R_notify b ad ar) = (if a = b then 1 else 9)"
| "runner_rank a (R_after b ad ar) = 8"
| "runner_rank a (R_picked topt sd) = 6"
| "runner_rank a (R_run b ad ar) = 5"
| "runner_rank a (R_main b ad ar) = 4"
| "runner_rank a (R_done b ad ar ret) = 3"
| "runner_rank a (R_exit c) = 3"
| "runner_rank a (R_halt b c) = 2"
| "runner_rank a (R_halt_notify b c) = 1"
| "runner_rank a pc = 7"

definition task_rank :: "nat \<Rightarrow> task_sys \<Rightarrow> nat" where
  "task_rank a s = (if whereabouts a s = Elsewhere then 0 else runner_rank a (ts_pc s))"

definition task_over :: "nat \<Rightarrow> task_sys \<Rightarrow> bool" where
  "task_over a s \<longleftrightarrow> (case tk_heap (ts_w s) a of None \<Rightarrow> True | Some t \<Rightarrow> tk_is_wait_done t)"

definition is_runner_turn :: "task_turn \<Rightarrow> bool" where
  "is_runner_turn u \<longleftrightarrow>
     (case u of
        Runner_pick \<Rightarrow> True | Runner_dispatch \<Rightarrow> True | Runner_call \<Rightarrow> True | Runner_return ret \<Rightarrow> True
      | Runner_finished \<Rightarrow> True | Runner_finalize \<Rightarrow> True | Runner_notify \<Rightarrow> True | Runner_notify_late late \<Rightarrow> True
      | Runner_round_end \<Rightarrow> True
      | Runner_exit \<Rightarrow> True | Runner_cancelled \<Rightarrow> True | Runner_spurious \<Rightarrow> True | _ \<Rightarrow> False)"

text \<open>The turns the runner can take but for a cancellation and a spurious wake-up.\<close>

definition runner_can_move :: "task_sys \<Rightarrow> bool" where
  "runner_can_move s \<longleftrightarrow>
     list_ex (\<lambda>u. runner_turn u s \<noteq> None)
       [Runner_pick, Runner_dispatch, Runner_call, Runner_return GALLUS_RESULT_OK, Runner_finished, Runner_finalize,
        Runner_notify, Runner_round_end, Runner_exit]"

lemma runner_moves:
  assumes "task_inv s" "whereabouts a s \<noteq> Elsewhere"
  shows "runner_can_move s"
  using task_invD(3) [OF assms(1)] assms(2)
  by (cases "ts_pc s") (simp_all add: runner_can_move_def whereabouts_def)

lemma runner_has_task:
  assumes I: "task_inv s" and pc: "ts_pc s \<in> {R_run a ad ar, R_main a ad ar, R_done a ad ar ret, R_finalize a ad ar,
    R_notify a ad ar, R_halt a c, R_halt_notify a c} \<or> ts_pc s \<in> {R_picked (Some a) sd}
    \<or> ts_pc s = R_exit c \<and> tr_tsk (ts_tr s) = Some a"
  shows "\<exists>t. tk_heap (ts_w s) a = Some t"
proof -
  have "whereabouts a s \<noteq> Elsewhere" using pc task_invD(3) [OF I] by (auto simp: whereabouts_def)
  then show ?thesis using task_present [OF I refl] by blast
qed

lemma rank_runner_turn:
  assumes I: "task_inv s" and st: "runner_turn u s = Some s'"
  shows "task_rank a s' \<le> task_rank a s - 1"
proof -
  note D = task_invD(3) [OF I]
  show ?thesis
  proof (cases u)
    case Runner_pick
    then show ?thesis using st task_invD(2) [OF I]
      by (auto simp: runner_pick_def Let_def runner_to_def task_rank_def whereabouts_def split: if_splits)
  next
    case Runner_dispatch
    then obtain topt sd where pc: "ts_pc s = R_picked topt sd" "s' = runner_dispatch topt sd s"
      using st by (auto split: runner_pc.splits)
    show ?thesis
    proof (cases topt)
      case None
      then show ?thesis using pc D by (auto simp: runner_dispatch_def runner_to_def task_rank_def whereabouts_def)
    next
      case (Some b)
      then obtain t where "tk_heap (ts_w s) b = Some t" using runner_has_task [OF I] pc by blast
      then show ?thesis using Some pc D
        by (auto simp: runner_dispatch_def runner_begin_def runner_shutdown_task_def turn_simps task_rank_def)
    qed
  next
    case Runner_call
    then obtain b ad ar where pc: "ts_pc s = R_run b ad ar" "s' = runner_call b ad ar s"
      using st by (auto split: runner_pc.splits)
    then obtain t where "tk_heap (ts_w s) b = Some t" using runner_has_task [OF I] by blast
    then show ?thesis using pc D by (auto simp: runner_call_def turn_simps task_rank_def)
  next
    case (Runner_return ret)
    then show ?thesis using st D by (auto simp: turn_simps task_rank_def split: runner_pc.splits)
  next
    case Runner_finished
    then obtain b ad ar ret where pc: "ts_pc s = R_done b ad ar ret" "s' = runner_finished b ad ar ret s"
      using st by (auto split: runner_pc.splits)
    then obtain t where "tk_heap (ts_w s) b = Some t" using runner_has_task [OF I] by blast
    then show ?thesis using pc D by (auto simp: runner_finished_def Let_def turn_simps task_rank_def)
  next
    case Runner_finalize
    then consider b ad ar where "ts_pc s = R_finalize b ad ar"
        "s' = runner_to (R_notify b ad ar) (task_finalize_call b False s)"
      | b c where "ts_pc s = R_halt b c" "s' = runner_to (R_halt_notify b c) (task_finalize_call b c s)"
      using st by (auto split: runner_pc.splits)
    then show ?thesis
    proof cases
      case (1 b ad ar)
      then obtain t where "tk_heap (ts_w s) b = Some t" using runner_has_task [OF I] by blast
      then show ?thesis using 1 by (auto simp: task_finalize_call_def turn_simps task_rank_def)
    next
      case (2 b c)
      then obtain t where "tk_heap (ts_w s) b = Some t" using runner_has_task [OF I] by blast
      then show ?thesis using 2 by (auto simp: task_finalize_call_def turn_simps task_rank_def)
    qed
  next
    case Runner_notify
    then consider b ad ar where "ts_pc s = R_notify b ad ar"
        "s' = runner_to (R_after b ad ar) (task_finalize_notify b s)"
      | b c where "ts_pc s = R_halt_notify b c" "s' = runner_to (R_ended c) (task_finalize_notify b s)"
      using st by (auto split: runner_pc.splits)
    then show ?thesis
    proof cases
      case (1 b ad ar)
      then obtain t where "tk_heap (ts_w s) b = Some t" using runner_has_task [OF I] by blast
      then show ?thesis using 1 D by (auto simp: task_finalize_notify_def turn_simps task_rank_def)
    next
      case (2 b c)
      then obtain t where "tk_heap (ts_w s) b = Some t" using runner_has_task [OF I] by blast
      then show ?thesis using 2 by (auto simp: task_finalize_notify_def turn_simps task_rank_def)
    qed
  next
    case (Runner_notify_late late)
    then obtain b where b: "ts_pc s = R_halt_notify b True" "s' = runner_to (R_ended True) (task_finalize_notify_late late b s)"
      using st by (auto split: runner_pc.splits if_splits)
    then obtain t where "tk_heap (ts_w s) b = Some t" using runner_has_task [OF I] by blast
    then show ?thesis using b D by (auto simp: task_finalize_notify_late_def turn_simps task_rank_def)
  next
    case Runner_round_end
    then show ?thesis using st D
      by (auto simp: runner_round_end_def Let_def turn_simps task_rank_def split: runner_pc.splits if_splits)
  next
    case Runner_exit
    then obtain c where pc: "ts_pc s = R_exit c" "s' = s_task_runner_finalize c s"
      using st by (auto split: runner_pc.splits)
    then show ?thesis using runner_has_task [OF I, of "the (tr_tsk (ts_tr s))"]
      by (cases "tr_tsk (ts_tr s)") (auto simp: s_task_runner_finalize_def turn_simps task_rank_def)
  next
    case Runner_cancelled
    then show ?thesis using st D
      by (cases "ts_pc s") (auto simp: turn_simps task_rank_def split: if_splits)
  next
    case Runner_spurious
    then show ?thesis using st D by (auto simp: turn_simps task_rank_def split: if_splits)
  qed (use st in auto)
qed

text \<open>A task that is under way or over stays so under the turns of the clients, no further from its end.\<close>

lemma rank_client_turn:
  assumes I: "task_inv s" and p: "polite_turn u s" and st: "task_client_turn u s = Some s'"
    and on: "whereabouts a s \<noteq> Elsewhere \<or> task_over a s"
  shows "task_rank a s' \<le> task_rank a s"
proof (cases u)
  case (Call_run i b flag)
  then have s': "s' = gallus_task_run i b flag s" using st by (simp split: if_splits)
  obtain t where t: "tk_heap (ts_w s) b = Some t" "tk_state t = TASK_STATE_CONSTRUCTED" and tsk: "tr_tsk (ts_tr s) = None"
    and pc: "\<not> runner_gone (ts_pc s)"
    using p Call_run by (auto split: option.splits)
  have "a \<noteq> b" using on new_task_place [OF I t] t(1) by (auto simp: task_over_def)
  moreover have "runner_rank a (wake_runner (ts_pc s)) = runner_rank a (ts_pc s)" by (cases "ts_pc s") simp_all
  moreover have "place_of (ts_pc s) (Some b) a = place_of (ts_pc s) None a" if "place_of (ts_pc s) None b = Elsewhere"
    using place_given(2) [OF task_invD(3) [OF I] tsk that pc, of a] \<open>a \<noteq> b\<close> by simp
  ultimately show ?thesis
    using s' t tsk new_task_place [OF I t]
    by (auto simp: gallus_task_run_def turn_simps task_rank_def place_wake)
next
  case (Call_shutdown i)
  have "runner_rank a (wake_runner (ts_pc s)) = runner_rank a (ts_pc s)" by (cases "ts_pc s") simp_all
  then show ?thesis using st Call_shutdown
    by (auto simp: s_pooled_thread_shutdown_def turn_simps task_rank_def place_wake split: if_splits)
next
  case (Call_task_destroy i b)
  then show ?thesis using st p
    by (auto simp: runner_delete_def gallus_task_destroy_def Let_def task_rank_def whereabouts_def
        split: if_splits option.splits)
qed (use st in \<open>auto simp: gallus_task_wait_def task_run_flags_def turn_simps task_rank_def
      split: if_splits option.splits waiter_pc.splits bool.splits\<close>)


definition task_new :: "nat \<Rightarrow> task_sys \<Rightarrow> bool" where
  "task_new a s \<longleftrightarrow>
     (case tk_heap (ts_w s) a of None \<Rightarrow> False | Some t \<Rightarrow> tk_state t = TASK_STATE_CONSTRUCTED)"

lemma not_new:
  assumes "task_inv s" "\<not> runner_was_cancelled (ts_pc s)"
  shows "whereabouts a s \<noteq> Elsewhere \<or> task_over a s \<longleftrightarrow> \<not> task_new a s"
  using task_invD(5) [OF assms(1), of a] new_task_place [OF assms(1), of a] assms(2)
  by (cases "tk_heap (ts_w s) a") (auto simp: task_new_def task_over_def task_consistent_def split: if_splits)

lemma task_new_simps [simp]:
  "task_new a (put_task b t s) = (if a = b then tk_state t = TASK_STATE_CONSTRUCTED else task_new a s)"
  "task_new a (runner_to pc s) = task_new a s" "task_new a (task_event e s) = task_new a s"
  "task_new a (waiter_to i wpc s) = task_new a s" "task_new a (s\<lparr>ts_tr := tr\<rparr>) = task_new a s"
  "task_new a (s\<lparr>ts_cl := cl\<rparr>) = task_new a s" "task_new a (s\<lparr>ts_pc := pc\<rparr>) = task_new a s"
  "task_new a (s\<lparr>ts_crash := c\<rparr>) = task_new a s"
  "tk_heap (ts_w s) a = Some t0 \<Longrightarrow> task_new a s = (tk_state t0 = TASK_STATE_CONSTRUCTED)"
  by (simp_all add: task_new_def put_task_def runner_to_def task_event_def waiter_to_def)

lemma new_delete: "task_new a (runner_delete b s) \<Longrightarrow> task_new a s"
  by (auto simp: runner_delete_def gallus_task_destroy_def Let_def task_new_def split: option.splits if_splits)

lemma new_runner_turn: "runner_turn u s = Some s' \<Longrightarrow> task_new a s' \<Longrightarrow> task_new a s"
  by (cases u)
    (auto simp: runner_pick_def runner_dispatch_def runner_begin_def runner_shutdown_task_def runner_call_def
      runner_finished_def task_finalize_call_def task_finalize_notify_def task_finalize_notify_late_def runner_round_end_def
      s_task_runner_finalize_def with_task_def Let_def dest: new_delete split: if_splits option.splits runner_pc.splits)

lemma new_client_turn: "task_client_turn u s = Some s' \<Longrightarrow> task_new a s' \<Longrightarrow> task_new a s"
  by (cases u)
    (auto simp: gallus_task_run_def task_run_flags_def gallus_task_wait_def s_pooled_thread_shutdown_def with_task_def
      dest: new_delete split: if_splits option.splits waiter_pc.splits bool.splits)

lemma client_not_runner: "task_client_turn u s = Some s' \<Longrightarrow> \<not> is_runner_turn u"
  by (cases u) (simp_all add: is_runner_turn_def)

text \<open>A runner that was cancelled stays so.\<close>

lemma runner_pc_simps [simp]:
  "ts_pc (put_task b t s) = ts_pc s" "ts_pc (runner_to pc s) = pc" "ts_pc (task_event e s) = ts_pc s"
  "ts_pc (waiter_to i wpc s) = ts_pc s" "ts_pc (runner_delete b s) = ts_pc s"
  by (simp_all add: put_task_def runner_to_def task_event_def waiter_to_def runner_delete_def split: option.split)

lemma cancelled_runner_turn:
  "runner_turn u s = Some s' \<Longrightarrow> runner_was_cancelled (ts_pc s) \<Longrightarrow> runner_was_cancelled (ts_pc s')"
  by (cases u)
    (auto simp: task_finalize_call_def task_finalize_notify_def task_finalize_notify_late_def s_task_runner_finalize_def
      with_task_def split: if_splits option.splits runner_pc.splits)

lemma cancelled_client_turn:
  "task_client_turn u s = Some s' \<Longrightarrow> runner_was_cancelled (ts_pc s) \<Longrightarrow> runner_was_cancelled (ts_pc s')"
  by (cases u)
    (auto simp: gallus_task_run_def task_run_flags_def gallus_task_wait_def s_pooled_thread_shutdown_def with_task_def
      split: if_splits option.splits waiter_pc.splits bool.splits)

lemma not_cancelled_before:
  "task_turn u s = Some s' \<Longrightarrow> \<not> runner_was_cancelled (ts_pc s') \<Longrightarrow> \<not> runner_was_cancelled (ts_pc s)"
  using task_turn_cases cancelled_runner_turn cancelled_client_turn by blast

lemma not_cancelled_at_start:
  "task_turns us s = Some s' \<Longrightarrow> \<not> runner_was_cancelled (ts_pc s') \<Longrightarrow> \<not> runner_was_cancelled (ts_pc s)"
proof (induction us arbitrary: s)
  case (Cons u us)
  then obtain s1 where "task_turn u s = Some s1" "task_turns us s1 = Some s'" by (auto split: option.splits)
  then show ?case using Cons not_cancelled_before by blast
qed simp

lemma on_turn:
  assumes I: "task_inv s" and p: "polite_turn u s" and st: "task_turn u s = Some s'" and on: "\<not> task_new a s"
    and c: "\<not> runner_was_cancelled (ts_pc s)"
  shows "\<not> task_new a s'" "task_rank a s' \<le> task_rank a s - (if is_runner_turn u then 1 else 0)"
proof -
  show "\<not> task_new a s'" using task_turn_cases [OF st] on new_runner_turn new_client_turn by blast
  show "task_rank a s' \<le> task_rank a s - (if is_runner_turn u then 1 else 0)"
    using task_turn_cases [OF st]
  proof
    assume "runner_turn u s = Some s'"
    then show ?thesis using rank_runner_turn [OF I, of u s' a] by auto
  next
    assume t: "task_client_turn u s = Some s'"
    then show ?thesis using rank_client_turn [OF I p t] not_new [OF I c] on client_not_runner [OF t] by auto
  qed
qed

lemma on_turns:
  assumes "task_inv s" "polite_task_turns us s" "task_turns us s = Some s'" "\<not> task_new a s"
    "\<not> runner_was_cancelled (ts_pc s')"
  shows "\<not> task_new a s' \<and> task_rank a s' \<le> task_rank a s - length (filter is_runner_turn us)"
  using assms
proof (induction us arbitrary: s)
  case (Cons u us)
  then obtain s1 where s1: "task_turn u s = Some s1" "task_turns us s1 = Some s'" by (auto split: option.splits)
  have p: "polite_turn u s" "polite_task_turns us s1" using Cons.prems(2) s1 by auto
  have c: "\<not> runner_was_cancelled (ts_pc s)" by (rule not_cancelled_at_start [OF Cons.prems(3,5)])
  note on = on_turn [OF Cons.prems(1) p(1) s1(1) Cons.prems(4) c]
  have "\<not> task_new a s' \<and> task_rank a s' \<le> task_rank a s1 - length (filter is_runner_turn us)"
    using Cons.IH [OF inv_task_turn [OF Cons.prems(1) p(1) s1(1)] p(2) s1(2) on(1) Cons.prems(5)] .
  then show ?case using on(2) by auto
qed simp

lemma rank_bound: "task_rank a s \<le> 10"
  by (cases "ts_pc s") (auto simp: task_rank_def)

lemma rank_zero_over:
  assumes I: "task_inv s" and "task_rank a s = 0" "\<not> task_new a s" and c: "\<not> runner_was_cancelled (ts_pc s)"
  shows "task_over a s"
proof (rule ccontr)
  assume "\<not> task_over a s"
  then have "whereabouts a s \<noteq> Elsewhere" using not_new [OF I c] assms(3) by blast
  then show False using assms(2) by (cases "ts_pc s") (auto simp: task_rank_def whereabouts_def split: if_splits)
qed

section \<open>Properties\<close>

text \<open>
  C35. Whatever the runner and its clients do, with its cancellation and shutdown at any time: a task is run
  and finalized at most once, no freed task is read, and a task that is over has a record that tells what
  happened to it: it ran once and its exit code is what its main procedure returned, or it was halted and
  never ran, or it was cancelled, at the latest in its main procedure; and it was finalized once.
\<close>

theorem task_lifecycle:
  assumes "task_reached n w us s"
  shows "\<not> ts_crash s \<and>
    (\<forall>a. main_calls a (ts_events s) \<le> 1 \<and> length (task_finals a (ts_events s)) \<le> 1 \<and>
      (case tk_heap (ts_w s) a of
         Some t \<Rightarrow>
           tk_is_wait_done t \<longrightarrow>
             task_ended t (main_calls a (ts_events s)) (task_results a (ts_events s)) (task_finals a (ts_events s))
       | None \<Rightarrow> True))"
proof -
  note D = task_invD [OF reached_inv [OF assms]]
  have "main_calls a (ts_events s) \<le> 1 \<and> length (task_finals a (ts_events s)) \<le> 1 \<and>
      (\<forall>t. tk_heap (ts_w s) a = Some t \<longrightarrow> tk_is_wait_done t \<longrightarrow>
        task_ended t (main_calls a (ts_events s)) (task_results a (ts_events s)) (task_finals a (ts_events s)))" for a
  proof (cases "tk_heap (ts_w s) a")
    case None
    then show ?thesis using D(5) [of a] by (simp add: task_consistent_def)
  next
    case (Some t)
    then consider "task_stranded (whereabouts a s) t (main_calls a (ts_events s)) (task_results a (ts_events s))
        (task_finals a (ts_events s))"
      | "task_at (whereabouts a s) t (main_calls a (ts_events s)) (task_results a (ts_events s)) (task_finals a (ts_events s))"
      using D(5) [of a] by (auto simp: task_consistent_def)
    then show ?thesis
    proof cases
      case 1
      then show ?thesis using Some by (simp add: task_stranded_def task_final_calls_def)
    next
      case 2
      then show ?thesis using Some
        by (cases "whereabouts a s")
          (auto simp: task_ended_def task_final_calls_def split: if_splits task_state.splits)
    qed
  qed
  then show ?thesis using D(1) by (simp split: option.splits)
qed



text \<open>A task that is run, waited for and destroyed, and one that is cancelled on the thread it releases.\<close>

definition example_task :: pooled_task where
  "example_task =
     \<lparr>tk_state = TASK_STATE_CONSTRUCTED, tk_name = None, tk_has_lck = True, tk_has_cnd = True, tk_total_obj_size = 200,
      tk_exit_code = GALLUS_RESULT_NOT_STARTED, tk_is_started = False, tk_is_clean_finished = False,
      tk_is_runner_shutdown = False, tk_is_cancelled = False, tk_is_wait_done = False, tk_main = Some 1,
      tk_finalize = Some 2, tk_freeup = Some 3, tk_core_num = - 1, tk_numa_node_num = - 1, tk_flag = 0, tk_tr = None\<rparr>"

definition example_tasks :: task_world where
  "example_tasks = \<lparr>tk_heap = [1 \<mapsto> example_task, 2 \<mapsto> example_task], tk_freed = [], tk_freeups = []\<rparr>"

definition one_round :: "gallus_result_t \<Rightarrow> task_turn list" where
  "one_round ret = [Runner_pick, Runner_dispatch, Runner_call, Runner_return ret, Runner_finished, Runner_finalize,
     Runner_notify, Runner_round_end]"

definition example_task_turns :: "task_turn list" where
  "example_task_turns =
     [Call_run 0 1 TASK_RELEASE_THREAD_AFTER_EXEC, Call_task_wait 1 1 False, Client_ran 0] @ one_round 5 @
     [Client_recheck 1, Call_task_destroy 1 1, Runner_pick, Pool_acquire, Call_run 0 2 0, Client_ran 0,
      Runner_pick, Runner_dispatch, Runner_call]"

definition example_task_end :: task_sys where
  "example_task_end =
     (case task_turns example_task_turns (task_sys_start 2 example_tasks) of
        Some s \<Rightarrow> s | None \<Rightarrow> task_sys_start 2 example_tasks)"

lemma new_tasks_example: "new_tasks example_tasks"
  by (simp add: new_tasks_def is_new_task_def example_tasks_def example_task_def)

lemma task_reached_example:
  "task_reached 2 example_tasks example_task_turns example_task_end"
proof -
  have "task_turns example_task_turns (task_sys_start 2 example_tasks) \<noteq> None" by code_simp
  moreover have "polite_task_turns example_task_turns (task_sys_start 2 example_tasks)" by code_simp
  ultimately show ?thesis using new_tasks_example by (auto simp: task_reached_def example_task_end_def)
qed

lemma task_lifecycle_witness:
  "\<not> ts_crash example_task_end \<and> main_calls 1 (ts_events example_task_end) \<le> 1 \<and>
   tk_heap (ts_w example_task_end) 1 = None \<and> task_results 1 (ts_events example_task_end) = [5] \<and>
   Task_returned 1 GALLUS_RESULT_OK \<in> set (ts_events example_task_end)"
proof -
  have "tk_heap (ts_w example_task_end) 1 = None" "task_results 1 (ts_events example_task_end) = [5]"
    "Task_returned 1 GALLUS_RESULT_OK \<in> set (ts_events example_task_end)" by code_simp+
  then show ?thesis using task_lifecycle [OF task_reached_example] by simp
qed


section \<open>Behaviour that a caller may not expect\<close>

text \<open>
  A second task that is given to a thread takes the place of the first: the first is never run and a wait
  for it does not end, whether it was waiting for the thread or the second came while it ran.
\<close>

lemma task_second_run_loses_first:
  "case task_turns ([Call_run 0 1 0, Client_ran 0, Call_run 0 2 0, Client_ran 0, Call_task_wait 1 1 False] @ one_round 0 @
      [Runner_pick]) (task_sys_start 2 example_tasks) of
     Some s \<Rightarrow> ts_pc s = R_sleep \<and> waiter_at 1 s = Some (T_sleep 1 False) \<and> main_calls 1 (ts_events s) = 0 \<and>
       count_list (ts_events s) (Task_returned 0 GALLUS_RESULT_OK) = 2
   | None \<Rightarrow> False"
  by code_simp

lemma task_run_while_running_lost:
  "case task_turns ([Call_run 0 1 0, Client_ran 0, Runner_pick, Runner_dispatch, Runner_call, Call_run 0 2 0, Client_ran 0,
      Call_task_wait 1 2 False, Runner_return 0, Runner_finished, Runner_finalize, Runner_notify, Runner_round_end,
      Runner_pick]) (task_sys_start 2 example_tasks) of
     Some s \<Rightarrow> ts_pc s = R_sleep \<and> waiter_at 1 s = Some (T_sleep 2 False) \<and> main_calls 2 (ts_events s) = 0
   | None \<Rightarrow> False"
  by code_simp

text \<open>A task that is deleted after its execution may be gone when \<^verbatim>\<open>gallus_task_run\<close> reads its flags.\<close>

lemma task_run_reads_freed:
  "case task_turns ([Call_run 0 1 TASK_DELETE_CONTEXT_AFTER_EXEC] @ one_round 0 @ [Client_ran 0])
      (task_sys_start 2 example_tasks) of
     Some s \<Rightarrow> tk_freed (ts_w s) = [1] \<and> ts_crash s | None \<Rightarrow> False"
  by code_simp

text \<open>A task that is run again: a wait for it returns at once with the first result, before it is run.\<close>

lemma task_rerun_wait_early:
  "case task_turns ([Call_run 0 1 0, Client_ran 0] @ one_round 5 @ [Call_run 0 1 0, Client_ran 0, Call_task_wait 0 1 False])
      (task_sys_start 2 example_tasks) of
     Some s \<Rightarrow> last (ts_events s) = Task_returned 0 GALLUS_RESULT_OK \<and> main_calls 1 (ts_events s) = 1 \<and>
       gallus_task_get_state (Some 1) True (ts_w s) = Some (GALLUS_RESULT_OK, Some TASK_STATE_ATTACHED)
   | None \<Rightarrow> False"
  by code_simp

text \<open>A thread that has ended takes a task with success, and never runs it.\<close>

lemma task_run_on_ended_thread:
  "case task_turns [Call_shutdown 1, Runner_pick, Runner_dispatch, Runner_exit, Call_run 0 1 0, Client_ran 0,
      Call_task_wait 0 1 False] (task_sys_start 2 example_tasks) of
     Some s \<Rightarrow> ts_pc s = R_ended False \<and> Task_returned 0 GALLUS_RESULT_OK \<in> set (ts_events s) \<and> \<not> runner_can_move s \<and>
       waiter_at 0 s = Some (T_sleep 1 False)
   | None \<Rightarrow> False"
  by code_simp

text \<open>
  A thread that is cancelled in the finalize procedure of a task that has returned never notifies its waiters: the
  task is not the thread's any more, and nobody else does.
\<close>

lemma task_cancelled_in_finalize:
  "case task_turns ([Call_run 0 1 0, Client_ran 0, Call_task_wait 1 1 False, Runner_pick, Runner_dispatch, Runner_call,
      Runner_return 5, Runner_finished, Runner_finalize, Runner_cancelled, Runner_exit]) (task_sys_start 2 example_tasks) of
     Some s \<Rightarrow> ts_pc s = R_ended True \<and> \<not> runner_can_move s \<and> waiter_at 1 s = Some (T_sleep 1 False) \<and>
       gallus_task_get_state (Some 1) True (ts_w s) = Some (GALLUS_RESULT_OK, Some TASK_STATE_CLEAN_FINISHED)
   | None \<Rightarrow> False"
  by code_simp

text \<open>
  A cancelled thread unlocks the lock of its task without holding it. A client that has found the task not over
  and is about to sleep loses the lock, and the notification with it.
\<close>

lemma task_cancelled_wait_lost:
  "case task_turns ([Call_run 0 1 0, Client_ran 0, Runner_pick, Runner_dispatch, Runner_call, Runner_cancelled,
      Runner_exit, Runner_finalize, Call_task_wait 1 1 False, Runner_notify_late [1]]) (task_sys_start 2 example_tasks) of
     Some s \<Rightarrow> ts_pc s = R_ended True \<and> \<not> runner_can_move s \<and> waiter_at 1 s = Some (T_sleep 1 False) \<and>
       map_option tk_is_wait_done (tk_heap (ts_w s) 1) = Some True
   | None \<Rightarrow> False"
  by code_simp

text \<open>A task whose thread was shut down before it ran is in the state of a halted one when its waiters wake.\<close>

lemma task_runner_shutdown_halted:
  "case task_turns [Call_run 0 1 0, Client_ran 0, Call_shutdown 1, Runner_pick, Runner_dispatch, Runner_exit,
      Runner_finalize, Runner_notify] (task_sys_start 2 example_tasks) of
     Some s \<Rightarrow> map_option tk_is_runner_shutdown (tk_heap (ts_w s) 1) = Some True \<and>
       gallus_task_get_state (Some 1) True (ts_w s) = Some (GALLUS_RESULT_OK, Some TASK_STATE_HALTED)
   | None \<Rightarrow> False"
  by code_simp

text \<open>A task that was cancelled cannot be destroyed: the call leaves it as it is.\<close>

lemma task_cancelled_not_destroyed:
  "tk_heap w a = Some t \<Longrightarrow> tk_state t = TASK_STATE_CANCELLED \<Longrightarrow> gallus_task_destroy (Some a) w = Some (w, Some a)"
  by (simp add: gallus_task_destroy_def)

text \<open>
  A creation that fails destroys a task whose fields are not set yet: it calls the freeup procedure that
  the new memory happens to hold, and leaves the handle pointing at memory that is freed.
\<close>

lemma task_create_fails_early:
  assumes "ke_alloc ke = Some (a, junk)" "\<not> ke_name ke" "is_valid_string name" "tk_freeup junk = Some f"
    "tk_total_obj_size junk \<noteq> 0"
  shows "map_option (\<lambda>(w, h, ret). (h, ret, tk_freeups w, tk_freed w))
      (gallus_task_create ke (Some None) 0 name (Some mf) ff uf w) =
    Some (Some (Some a), GALLUS_RESULT_NO_MEMORY, tk_freeups w @ [(a, f)], tk_freed w @ [a])"
  using assms by (simp add: gallus_task_create_def task_init_def gallus_task_destroy_def Let_def)


text \<open>
  Setting the CPU of a task while it runs fails: the call clears the affinity of its thread first, and the
  system refuses the empty set. The CPU is kept in the task all the same.
\<close>

lemma task_set_cpu_affinity_running:
  assumes "\<And>tid. setaff tid (replicate (s_n_cpus ce) False) \<noteq> 0"
    "tk_heap w a = Some t" "tk_tr t = Some tr" "s_is_thd tr tw" "th_heap tw tr = Some thd" "m_is_started thd"
    "m_pthd thd = Some k" "m_cpusetptr thd = Some cset"
  shows "case gallus_task_set_cpu_affinity ce mem setaff (Some a) cpu tw w of
     Some (tw', w', ret) \<Rightarrow> ret = GALLUS_RESULT_ANY_FAILURES \<and> map_option tk_core_num (tk_heap w' a) = Some cpu
   | None \<Rightarrow> False"
  using assms
  by (simp add: gallus_task_set_cpu_affinity_def gallus_thread_set_cpu_affinity_def set_affinity_def on_thread_def
      s_cpu_set_cpu_def s_cpu_set_alloc_def s_get_pthdid_def Let_def)


text \<open>
  The memory of a pooled thread is not cleared: when the creation of its lock fails, the thread object is
  destroyed, and with it a condition variable that was never created.
\<close>

lemma pooled_thread_construct_destroys_garbage:
  "lck \<noteq> GALLUS_RESULT_OK \<Longrightarrow> tr_has_cnd tr \<Longrightarrow>
   snd (s_pooled_thread_construct GALLUS_RESULT_OK lck cnd tr) = (lck, [Runner_cnd])"
  by (simp add: s_pooled_thread_construct_def s_task_runner_freeup_def Let_def)

end
