(* ===== verification/Callout_Stage.thy ===== *)
theory Callout_Stage
  imports Callout GState List_Multiset
begin

text \<open>
  The stage of worker threads that run the tasks of the scheduler, \<^verbatim>\<open>framework/lib/callout_stage.c\<close>: a
  pipeline stage (\<open>Stage\<close>) whose workers have a blocking queue each. A batch of tasks is dealt to the
  queues in turn, and a worker fetches from its own queue and executes what it got.

  A queue is what was ever put in it and how much of that was fetched. What the blocking calls of the
  queues answer is a script; \<open>CBuffer_Queue\<close> shows that the code's calls answer so. None is a call that
  does not return: the script has ended, or the program traps.
\<close>

record callout_stage =
  cs_is_initialized :: bool
  cs_n_workers :: nat
  cs_put :: "task_id list list"
  cs_got :: "nat list"
  cs_last_q :: "64 word"

section \<open>The queues of the workers\<close>

definition queued_tasks :: "nat \<Rightarrow> callout_stage \<Rightarrow> task_id list" where
  "queued_tasks idx cs = drop (cs_got cs ! idx) (cs_put cs ! idx)"

definition put_tasks :: "nat \<Rightarrow> task_id list \<Rightarrow> callout_stage \<Rightarrow> callout_stage" where
  "put_tasks idx ts cs = cs\<lparr>cs_put := (cs_put cs)[idx := cs_put cs ! idx @ ts]\<rparr>"

text \<open>
  \<^verbatim>\<open>gallus_bbq_put_n\<close> without a limit of time, for \<open>n\<close> tasks: all are put, or the call is woken after some, or it
  fails after some. The result comes with the number that was put.
\<close>

datatype put_answer = Put_all | Put_woken nat | Put_error gallus_result_t nat

fun put_result :: "put_answer \<Rightarrow> nat \<Rightarrow> gallus_result_t \<times> nat" where
  "put_result Put_all n = (int n, n)"
| "put_result (Put_woken k) n = (if k < n then (GALLUS_RESULT_WAKEUP_REQUESTED, k) else (int n, n))"
| "put_result (Put_error r k) n = (r, min k n)"

section \<open>The procedures of the stage\<close>

text \<open>The loop of \<^verbatim>\<open>s_callout_worker_sched\<close>, with what it has put so far and the last result.\<close>

fun worker_sched_loop ::
  "put_answer list \<Rightarrow> nat \<Rightarrow> task_id list \<Rightarrow> nat \<Rightarrow> gallus_result_t \<Rightarrow> callout_stage \<Rightarrow>
   (callout_stage \<times> nat \<times> gallus_result_t \<times> put_answer list) option" where
  "worker_sched_loop as idx tasks n_total ret cs =
    (if n_total < length tasks then
       (case as of
          [] \<Rightarrow> None
        | a # as \<Rightarrow>
            (let (ret, n_puts) = put_result a (length tasks - n_total);
                 cs = put_tasks idx (take n_puts (drop n_total tasks)) cs
             in if ret \<ge> 0 then worker_sched_loop as idx tasks (n_total + nat ret) ret cs
                else if ret \<noteq> GALLUS_RESULT_WAKEUP_REQUESTED then Some (cs, n_total, ret, as)
                else worker_sched_loop as idx tasks (n_total + n_puts) ret cs))
     else Some (cs, n_total, ret, as))"

definition s_callout_worker_sched ::
  "put_answer list \<Rightarrow> nat \<Rightarrow> task_id list \<Rightarrow> callout_stage \<Rightarrow>
   (callout_stage \<times> gallus_result_t \<times> put_answer list) option" where
  "s_callout_worker_sched as idx tasks cs =
    (if idx < cs_n_workers cs then
       (case worker_sched_loop as idx tasks 0 GALLUS_RESULT_ANY_FAILURES cs of
          None \<Rightarrow> None
        | Some (cs, n_total, ret, as) \<Rightarrow> Some (cs, if ret > 0 then int n_total else ret, as))
     else Some (cs, GALLUS_RESULT_INVALID_ARGS, as))"

text \<open>
  \<open>answer\<close> is what \<^verbatim>\<open>gallus_bbq_get_n\<close> returns and the number it fetched. The result has the tasks
  in the buffer of the worker.
\<close>

definition s_callout_worker_fetch ::
  "gallus_result_t \<times> nat \<Rightarrow> nat \<Rightarrow> callout_stage \<Rightarrow> callout_stage \<times> task_id list \<times> gallus_result_t" where
  "s_callout_worker_fetch answer idx cs =
    (let (ret, n) = answer;
         buf = take n (queued_tasks idx cs);
         cs = cs\<lparr>cs_got := (cs_got cs)[idx := cs_got cs ! idx + length buf]\<rparr>
     in (cs, buf,
         if ret = GALLUS_RESULT_WAKEUP_REQUESTED then int n
         else if ret = GALLUS_RESULT_TIMEDOUT \<or> ret = GALLUS_RESULT_OK then 0 else ret))"

text \<open>None is the fatal exit of a task.\<close>

fun exec_tasks :: "callout_env \<Rightarrow> task_id list \<Rightarrow> callout \<Rightarrow> callout option" where
  "exec_tasks env [] c = Some c"
| "exec_tasks env (t # ts) c =
    (case s_exec_task env t c of (c, Some r) \<Rightarrow> exec_tasks env ts c | (c, None) \<Rightarrow> None)"

definition s_callout_worker_main :: "callout_env \<Rightarrow> task_id list \<Rightarrow> callout \<Rightarrow> (callout \<times> gallus_result_t) option" where
  "s_callout_worker_main env buf c = map_option (\<lambda>c. (c, int (length buf))) (exec_tasks env buf c)"

text \<open>The queues are destroyed with the tasks in them.\<close>

definition s_callout_worker_free :: "callout_stage \<Rightarrow> callout \<Rightarrow> callout_stage \<times> callout" where
  "s_callout_worker_free cs c =
    (cs\<lparr>cs_put := [], cs_got := [], cs_n_workers := 0\<rparr>,
     fold s_task_freeup (concat (map (\<lambda>idx. queued_tasks idx cs) [0..<cs_n_workers cs])) c)"

section \<open>Creation and destruction\<close>

text \<open>A handle in the array of queues: NULL, a queue, or what the new memory held.\<close>

datatype queue_handle = No_queue | Live_queue | Junk_queue

text \<open>One creation after the other until one fails; a creation stores its handle, NULL when it fails.\<close>

fun create_queues ::
  "gallus_result_t list \<Rightarrow> queue_handle list \<Rightarrow> gallus_result_t \<Rightarrow> queue_handle list \<times> gallus_result_t" where
  "create_queues rs [] ret = ([], ret)"
| "create_queues (r # rs) (q # qs) ret =
    (if r = GALLUS_RESULT_OK then map_prod (Cons Live_queue) id (create_queues rs qs r) else (No_queue # qs, r))"
| "create_queues [] (q # qs) ret = (q # qs, ret)"

text \<open>
  \<open>mem\<close> tells whether there is memory, \<open>rs\<close> are the results of the creations of the queues and \<open>ret\<close> that of the
  stage. \<^verbatim>\<open>memset\<close> clears eight bytes, the first handle. None is the access to a NULL array or to a junk handle.
\<close>

definition s_create_callout_stage ::
  "bool \<Rightarrow> gallus_result_t list \<Rightarrow> gallus_result_t \<Rightarrow> nat \<Rightarrow> callout_stage \<Rightarrow> (callout_stage \<times> gallus_result_t) option" where
  "s_create_callout_stage mem rs stage_ret n_workers cs =
    (if n_workers > 0 then
       (if mem then
          (let qs = No_queue # replicate (n_workers - 1) Junk_queue;
               (qs, ret) = create_queues rs qs GALLUS_RESULT_ANY_FAILURES;
               ret = (if ret = GALLUS_RESULT_OK then stage_ret else ret)
           in if ret = GALLUS_RESULT_OK
              then Some (cs\<lparr>cs_is_initialized := True, cs_n_workers := n_workers, cs_put := replicate n_workers [],
                            cs_got := replicate n_workers 0\<rparr>, ret)
              else if Junk_queue \<in> set qs then None
              else Some (cs, ret))
        else None)
     else Some (cs, GALLUS_RESULT_ANY_FAILURES))"

text \<open>\<open>valid\<close> tells whether the stage is registered, so that \<^verbatim>\<open>gallus_pipeline_stage_destroy\<close> calls the freeup procedure.\<close>

definition s_destroy_callout_stage :: "bool \<Rightarrow> callout_stage \<Rightarrow> callout \<Rightarrow> callout_stage \<times> callout" where
  "s_destroy_callout_stage valid cs c =
    (if cs_is_initialized cs \<and> valid then s_callout_worker_free cs c else (cs, c))"

text \<open>
  The end of the stage: \<open>sd\<close> gives the result of the shutdown at a level, \<open>w1\<close>, \<open>ca\<close> and \<open>w2\<close> are the results of
  the wait, the cancellation and the wait for its end.
\<close>

definition s_finish_callout_stage ::
  "(shutdown_grace_level \<Rightarrow> gallus_result_t) \<Rightarrow> gallus_result_t \<Rightarrow> gallus_result_t \<Rightarrow> gallus_result_t \<Rightarrow> bool \<Rightarrow>
   gallus_chrono_t \<Rightarrow> callout_stage \<Rightarrow> callout \<Rightarrow> callout_stage \<times> callout \<times> gallus_result_t" where
  "s_finish_callout_stage sd w1 ca w2 valid timeout cs c =
    (let destroyed = (\<lambda>ret. case s_destroy_callout_stage valid cs c of (cs, c) \<Rightarrow> (cs, c, ret));
         ret = sd (if timeout = 0 then SHUTDOWN_RIGHT_NOW else SHUTDOWN_GRACEFULLY)
     in if ret = GALLUS_RESULT_OK then
          (if w1 = GALLUS_RESULT_OK then destroyed w1
           else if w1 = GALLUS_RESULT_TIMEDOUT then
             (if ca = GALLUS_RESULT_OK then
                (if w2 = GALLUS_RESULT_OK then destroyed w2 else (cs, c, w2))
              else (cs, c, ca))
           else (cs, c, w1))
        else (cs, c, ret))"

section \<open>Submission\<close>

text \<open>
  The loop over the workers, with the tries that are left, what was submitted and the last error;
  \<^verbatim>\<open>gallus_pipeline_stage_submit\<close> calls the procedure of the stage.
\<close>

fun submit_rounds ::
  "nat \<Rightarrow> put_answer list \<Rightarrow> nat \<Rightarrow> task_id list \<Rightarrow> nat \<Rightarrow> gallus_result_t \<Rightarrow> callout_stage \<Rightarrow>
   (callout_stage \<times> nat \<times> gallus_result_t \<times> put_answer list) option" where
  "submit_rounds 0 as stride tasks n_total last_err cs = Some (cs, n_total, last_err, as)"
| "submit_rounds (Suc m) as stride tasks n_total last_err cs =
    (if n_total < length tasks then
       (let n_remains = length tasks - n_total;
            n_put = (if stride < n_remains then stride else n_remains);
            q = unat (ucast (cs_last_q cs mod of_nat (cs_n_workers cs)) :: 32 word)
        in case s_callout_worker_sched as q (take n_put (drop n_total tasks)) cs of
             None \<Rightarrow> None
           | Some (cs, ret, as) \<Rightarrow>
               (let cs = cs\<lparr>cs_last_q := cs_last_q cs + 1\<rparr>
                in if ret \<ge> 0 then submit_rounds m as stride tasks (n_total + nat ret) GALLUS_RESULT_OK cs
                   else submit_rounds m as stride tasks n_total ret cs))
     else Some (cs, n_total, last_err, as))"

definition s_submit_callout_stage ::
  "put_answer list \<Rightarrow> task_id list \<Rightarrow> gallus_chrono_t \<Rightarrow> callout_stage \<Rightarrow> callout \<Rightarrow>
   (callout_stage \<times> callout \<times> gallus_result_t) option" where
  "s_submit_callout_stage as tasks start_time cs c =
    (if cs_is_initialized cs then
       (if tasks \<noteq> [] then
          (let c = fold (dispatch_task start_time) tasks c
           in if cs_n_workers cs = 1 then
                map_option (\<lambda>(cs, ret, as). (cs, c, ret)) (s_callout_worker_sched as 0 tasks cs)
              else if cs_n_workers cs = 0 then None
              else
                (let stride = length tasks div cs_n_workers cs;
                     stride = (if stride = 0 then 1 else stride)
                 in map_option (\<lambda>(cs, n_total, last_err, as). (cs, c, if last_err < 0 then last_err else int n_total))
                      (submit_rounds (length tasks) as stride tasks 0 GALLUS_RESULT_OK cs)))
        else Some (cs, c, GALLUS_RESULT_INVALID_ARGS))
     else Some (cs, c, GALLUS_RESULT_NOT_OPERATIONAL))"


section \<open>A batch is dealt to the queues\<close>

declare worker_sched_loop.simps [simp del]

fun no_error :: "put_answer \<Rightarrow> bool" where
  "no_error (Put_error r k) = False"
| "no_error a = True"

text \<open>Hands of \<open>stride\<close> tasks to the queues in turn, from queue \<open>q\<close>.\<close>

function deal :: "nat \<Rightarrow> nat \<Rightarrow> nat \<Rightarrow> 'a list \<Rightarrow> 'a list list \<Rightarrow> 'a list list" where
  "deal stride q w ts qs =
    (if ts = [] \<or> stride = 0 then qs
     else deal stride (q + 1) w (drop stride ts) (qs[q mod w := qs ! (q mod w) @ take stride ts]))"
  by pat_completeness auto
termination by (relation "measure (\<lambda>(stride, q, w, ts, qs). length ts)") auto

declare deal.simps [simp del]

lemma deal_keeps:
  assumes "0 < stride" "0 < w" "w \<le> length qs"
  shows "mset (concat (deal stride q w ts qs)) = mset (concat qs) + mset ts \<and> length (deal stride q w ts qs) = length qs"
  using assms
proof (induction stride q w ts qs rule: deal.induct)
  case (1 stride q w ts qs)
  show ?case
  proof (cases "ts = []")
    case True
    then show ?thesis by (simp add: deal.simps)
  next
    case False
    let ?i = "q mod w"
    have i: "?i < length qs" using "1.prems" mod_less_divisor [of w q] by linarith
    have "mset (concat (qs[?i := qs ! ?i @ take stride ts])) = mset (concat qs) + mset (take stride ts)"
      using mset_concat_update [OF i, of "qs ! ?i @ take stride ts"] by simp
    moreover have "mset (take stride ts) + mset (drop stride ts) = mset ts"
      by (metis append_take_drop_id mset_append)
    ultimately show ?thesis using 1 False by (subst (1 2) deal.simps) (simp add: add.assoc)
  qed
qed

lemma put_tasks_append: "put_tasks idx ys (put_tasks idx xs cs) = put_tasks idx (xs @ ys) cs"
  by (cases "idx < length (cs_put cs)") (simp_all add: put_tasks_def not_less list_update_beyond)

lemma put_tasks_simps [simp]:
  "cs_n_workers (put_tasks idx ts cs) = cs_n_workers cs" "cs_last_q (put_tasks idx ts cs) = cs_last_q cs"
  "cs_got (put_tasks idx ts cs) = cs_got cs" "cs_is_initialized (put_tasks idx ts cs) = cs_is_initialized cs"
  "cs_put (put_tasks idx ts cs) = (cs_put cs)[idx := cs_put cs ! idx @ ts]"
  by (simp_all add: put_tasks_def)

text \<open>A queue that is only woken takes everything in the end.\<close>

lemma loop_end: "worker_sched_loop as idx tasks (length tasks) ret cs = Some (cs, length tasks, ret, as)"
  by (simp add: worker_sched_loop.simps)

lemma loop_takes_all:
  assumes "list_all no_error as" "Put_all \<in> set as" "n_total < length tasks"
  shows "\<exists>r as'. worker_sched_loop as idx tasks n_total ret cs = Some (put_tasks idx (drop n_total tasks) cs, length tasks, r, as') \<and>
    0 < r \<and> list_all no_error as' \<and> count_list as Put_all \<le> Suc (count_list as' Put_all)"
  using assms
proof (induction as arbitrary: n_total ret cs)
  case (Cons a as)
  let ?n = "length tasks - n_total"
  show ?case
  proof (cases "\<exists>k. a = Put_woken k \<and> k < ?n")
    case True
    then obtain k where a: "a = Put_woken k" "k < ?n" by blast
    let ?cs = "put_tasks idx (take k (drop n_total tasks)) cs"
    obtain r as' where IH: "worker_sched_loop as idx tasks (n_total + k) GALLUS_RESULT_WAKEUP_REQUESTED ?cs =
        Some (put_tasks idx (drop (n_total + k) tasks) ?cs, length tasks, r, as')" "0 < r" "list_all no_error as'"
        "count_list as Put_all \<le> Suc (count_list as' Put_all)"
      using Cons.IH [of "n_total + k"] Cons.prems a by fastforce
    have "take k (drop n_total tasks) @ drop (n_total + k) tasks = drop n_total tasks"
      by (metis add.commute append_take_drop_id drop_drop)
    then show ?thesis
      using IH Cons.prems(3) a by (subst worker_sched_loop.simps) (simp add: put_tasks_append Let_def)
  next
    case False
    then have "put_result a ?n = (int ?n, ?n)" using Cons.prems(1) by (cases a) auto
    moreover have "n_total + nat (int ?n) = length tasks" using Cons.prems(3) by simp
    ultimately show ?thesis
      using Cons.prems
      by (subst worker_sched_loop.simps) (auto simp: Let_def loop_end)
  qed
qed simp

lemma sched_takes_all:
  assumes "list_all no_error as" "Put_all \<in> set as" "ts \<noteq> []" "idx < cs_n_workers cs"
  shows "\<exists>as'. s_callout_worker_sched as idx ts cs = Some (put_tasks idx ts cs, int (length ts), as') \<and>
    list_all no_error as' \<and> count_list as Put_all \<le> Suc (count_list as' Put_all)"
  using loop_takes_all [OF assms(1,2), of 0 ts idx GALLUS_RESULT_ANY_FAILURES cs] assms(3,4)
  by (auto simp: s_callout_worker_sched_def)

lemma put_all_left: "0 < count_list as Put_all \<Longrightarrow> Put_all \<in> set as"
  by (metis count_list_0_iff less_nat_zero_code)

lemma queue_of_word:
  fixes q :: "64 word"
  assumes "0 < w" "w < 2 ^ 32"
  shows "unat (ucast (q mod of_nat w) :: 32 word) = unat q mod w"
proof -
  have "unat (of_nat w :: 64 word) = w" using assms(2) by (simp add: unat_of_nat take_bit_nat_eq_self_iff)
  then have "unat (q mod of_nat w) = unat q mod w" by (simp add: unat_mod_distrib)
  moreover have "unat q mod w < 2 ^ 32" using assms mod_less_divisor [OF assms(1), of "unat q"] by linarith
  ultimately show ?thesis by (simp add: unsigned_ucast_eq take_bit_nat_eq_self_iff)
qed

lemma rounds_deal:
  assumes "length tasks - n_total \<le> m" "n_total \<le> length tasks" "0 < stride" "0 < w" "w < 2 ^ 32" "cs_n_workers cs = w"
    "list_all no_error as" "length tasks - n_total \<le> count_list as Put_all" "unat (cs_last_q cs) + m < 2 ^ 64"
  shows "\<exists>cs' as'. submit_rounds m as stride tasks n_total GALLUS_RESULT_OK cs = Some (cs', length tasks, GALLUS_RESULT_OK, as') \<and>
    cs_put cs' = deal stride (unat (cs_last_q cs)) w (drop n_total tasks) (cs_put cs) \<and> cs_got cs' = cs_got cs"
  using assms
proof (induction m arbitrary: as n_total cs)
  case 0
  then show ?case by (simp add: deal.simps)
next
  case (Suc m)
  show ?case
  proof (cases "n_total < length tasks")
    case False
    then show ?thesis using Suc.prems by (simp add: deal.simps)
  next
    case True
    let ?q = "unat (cs_last_q cs) mod w" and ?ts = "take stride (drop n_total tasks)"
    let ?n = "length ?ts"
    have hand: "take (if stride < length tasks - n_total then stride else length tasks - n_total) (drop n_total tasks) = ?ts"
      by simp
    have "0 < count_list as Put_all" using Suc.prems(8) True by linarith
    then obtain as' where s: "s_callout_worker_sched as ?q ?ts cs = Some (put_tasks ?q ?ts cs, int ?n, as')"
        "list_all no_error as'" "count_list as Put_all \<le> Suc (count_list as' Put_all)"
      using sched_takes_all [OF Suc.prems(7) put_all_left, of ?ts ?q cs] True Suc.prems(3,4,6) by auto
    let ?cs = "(put_tasks ?q ?ts cs)\<lparr>cs_last_q := cs_last_q cs + 1\<rparr>"
    have n: "0 < ?n" "n_total + ?n \<le> length tasks" using True Suc.prems(3) by auto
    have q: "unat (cs_last_q cs + 1) = unat (cs_last_q cs) + 1"
      using Suc.prems(9) by (simp add: unat_word_ariths)
    obtain cs' as'' where IH: "submit_rounds m as' stride tasks (n_total + ?n) GALLUS_RESULT_OK ?cs =
        Some (cs', length tasks, GALLUS_RESULT_OK, as'')"
        "cs_put cs' = deal stride (unat (cs_last_q cs) + 1) w (drop (n_total + ?n) tasks) (cs_put ?cs)" "cs_got cs' = cs_got cs"
      using Suc.IH [of "n_total + ?n" ?cs as'] Suc.prems s(2,3) n q by fastforce
    have "drop (n_total + ?n) tasks = drop stride (drop n_total tasks)"
      using n by (simp add: min_def) (metis add.commute drop_all drop_drop le_add_diff_inverse nat_le_linear)
    then have "cs_put cs' = deal stride (unat (cs_last_q cs)) w (drop n_total tasks) (cs_put cs)"
      using IH(2) True Suc.prems(3) by (subst deal.simps) simp
    then show ?thesis
      using IH(1,3) s(1) True Suc.prems(4-6) by (simp add: Let_def hand queue_of_word del: take_drop)
  qed
qed


text \<open>
  C14. A batch that is submitted to the stage is dealt to the queues of the workers in turn: every task goes
  to one queue, once, in order, whenever and however often the calls of the queues are woken in between.
  The call returns the number of tasks when each task finds a queue with room in the end.
\<close>

theorem callout_stage_deals:
  assumes "cs_is_initialized cs" "0 < cs_n_workers cs" "cs_n_workers cs < 2 ^ 32" "length (cs_put cs) = cs_n_workers cs"
    "tasks \<noteq> []" "list_all no_error as" "length tasks \<le> count_list as Put_all"
    "unat (cs_last_q cs) + length tasks < 2 ^ 64"
  shows "\<exists>cs'. s_submit_callout_stage as tasks start_time cs c =
      Some (cs', fold (dispatch_task start_time) tasks c, int (length tasks)) \<and>
    cs_put cs' = deal (max 1 (length tasks div cs_n_workers cs)) (unat (cs_last_q cs)) (cs_n_workers cs) tasks (cs_put cs) \<and>
    mset (concat (cs_put cs')) = mset (concat (cs_put cs)) + mset tasks"
proof -
  let ?w = "cs_n_workers cs" and ?stride = "max 1 (length tasks div cs_n_workers cs)"
  let ?dealt = "deal ?stride (unat (cs_last_q cs)) ?w tasks (cs_put cs)"
  have "\<exists>cs'. s_submit_callout_stage as tasks start_time cs c =
      Some (cs', fold (dispatch_task start_time) tasks c, int (length tasks)) \<and> cs_put cs' = ?dealt"
  proof (cases "?w = 1")
    case True
    have "0 < count_list as Put_all" using assms(5,7) by (cases tasks) auto
    then have "\<exists>as'. s_callout_worker_sched as 0 tasks cs = Some (put_tasks 0 tasks cs, int (length tasks), as')"
      using sched_takes_all [OF assms(6) put_all_left assms(5), of 0 cs] assms(2) by auto
    moreover have "?dealt = (cs_put cs)[0 := cs_put cs ! 0 @ tasks]"
      using True assms(5) by (subst deal.simps) (simp add: deal.simps Suc_le_eq)
    ultimately show ?thesis using assms(1,5) True by (auto simp: s_submit_callout_stage_def)
  next
    case False
    have pos: "0 < ?stride" by (simp add: max_def)
    have st: "(if length tasks div ?w = 0 then 1 else length tasks div ?w) = ?stride" by simp
    obtain cs' as' where "submit_rounds (length tasks) as ?stride tasks 0 GALLUS_RESULT_OK cs =
        Some (cs', length tasks, GALLUS_RESULT_OK, as')" "cs_put cs' = ?dealt"
      using rounds_deal [of tasks 0 "length tasks" ?stride ?w cs as, OF _ _ pos assms(2,3) refl assms(6)] assms(7,8) by auto
    then show ?thesis using assms(1,2,5) False by (auto simp: s_submit_callout_stage_def st)
  qed
  moreover have "mset (concat ?dealt) = mset (concat (cs_put cs)) + mset tasks"
    using deal_keeps [of ?stride ?w "cs_put cs" "unat (cs_last_q cs)" tasks] assms(2,4) by simp
  ultimately show ?thesis by auto
qed


definition example_stage :: "nat \<Rightarrow> callout_stage" where
  "example_stage n = \<lparr>cs_is_initialized = True, cs_n_workers = n, cs_put = replicate n [], cs_got = replicate n 0, cs_last_q = 1\<rparr>"

definition example_answers :: "put_answer list" where
  "example_answers = [Put_woken 1, Put_all, Put_all, Put_woken 0, Put_all, Put_all, Put_all]"

lemma callout_stage_deals_witness:
  "\<exists>cs'. s_submit_callout_stage example_answers [10, 11, 12, 13, 14] 7 (example_stage 2) callout_init =
      Some (cs', fold (dispatch_task 7) [10, 11, 12, 13, 14] callout_init, 5) \<and> cs_put cs' = [[12, 13], [10, 11, 14]]"
proof -
  let ?ts = "[10, 11, 12, 13, 14] :: task_id list"
  have s: "cs_is_initialized (example_stage 2)" "cs_n_workers (example_stage 2) = 2" "cs_put (example_stage 2) = [[], []]"
    "unat (cs_last_q (example_stage 2)) = 1" by (simp_all add: example_stage_def numeral_2_eq_2)
  have "list_all no_error example_answers" "length ?ts \<le> count_list example_answers Put_all"
    by (simp_all add: example_answers_def)
  from callout_stage_deals [OF s(1) _ _ _ _ this, unfolded s, of 7 callout_init]
  have "\<exists>cs'. s_submit_callout_stage example_answers ?ts 7 (example_stage 2) callout_init =
      Some (cs', fold (dispatch_task 7) ?ts callout_init, int (length ?ts)) \<and>
    cs_put cs' = deal (max 1 (length ?ts div 2)) 1 2 ?ts [[], []]" by auto
  moreover have "deal (max 1 (length ?ts div 2)) 1 2 ?ts [[], []] = [[12, 13], [10, 11, 14]]" by code_simp
  moreover have "int (length ?ts) = 5" by simp
  ultimately show ?thesis by metis
qed

section \<open>Creation, fetching and the end\<close>

lemma create_queues_ok:
  "length qs \<le> length rs \<Longrightarrow> list_all (\<lambda>r. r = GALLUS_RESULT_OK) rs \<Longrightarrow> qs \<noteq> [] \<Longrightarrow>
   create_queues rs qs ret = (replicate (length qs) Live_queue, GALLUS_RESULT_OK)"
proof (induction rs qs ret rule: create_queues.induct)
  case (2 r rs q qs ret)
  then show ?case by (cases qs) auto
qed simp_all

lemma create_callout_stage_ok:
  assumes "0 < n" "length rs = n" "list_all (\<lambda>r. r = GALLUS_RESULT_OK) rs"
  shows "s_create_callout_stage True rs GALLUS_RESULT_OK n cs =
    Some (cs\<lparr>cs_is_initialized := True, cs_n_workers := n, cs_put := replicate n [], cs_got := replicate n 0\<rparr>, GALLUS_RESULT_OK)"
  using assms create_queues_ok [of "No_queue # replicate (n - 1) Junk_queue" rs GALLUS_RESULT_ANY_FAILURES]
  by (simp add: s_create_callout_stage_def)

text \<open>
  A fetch takes the oldest tasks of the worker's own queue; a wake-up and a limit that has passed are no errors.
\<close>

lemma fetch_in_order:
  assumes "s_callout_worker_fetch (ret, n) idx cs = (cs', buf, r)" "idx < length (cs_got cs)"
  shows "queued_tasks idx cs = buf @ queued_tasks idx cs'" "ret \<in> {GALLUS_RESULT_TIMEDOUT, GALLUS_RESULT_OK} \<Longrightarrow> r = 0"
proof -
  have buf: "buf = take n (queued_tasks idx cs)"
    "cs' = cs\<lparr>cs_got := (cs_got cs)[idx := cs_got cs ! idx + length buf]\<rparr>"
    using assms(1) by (auto simp: s_callout_worker_fetch_def Let_def)
  then have "queued_tasks idx cs' = drop (length buf) (queued_tasks idx cs)"
    using assms(2) by (simp add: queued_tasks_def add.commute)
  moreover have "take n xs @ drop (length (take n xs)) xs = xs" for xs :: "task_id list"
    by (cases "n \<le> length xs") (simp_all add: min_def)
  ultimately show "queued_tasks idx cs = buf @ queued_tasks idx cs'" using buf(1) by metis
  show "ret \<in> {GALLUS_RESULT_TIMEDOUT, GALLUS_RESULT_OK} \<Longrightarrow> r = 0"
    using assms(1) by (auto simp: s_callout_worker_fetch_def Let_def)
qed

text \<open>The stage ends with the destruction exactly when one of the two waits succeeds.\<close>

lemma finish_outcome:
  "s_finish_callout_stage sd w1 ca w2 True timeout cs c =
    (let ret = sd (if timeout = 0 then SHUTDOWN_RIGHT_NOW else SHUTDOWN_GRACEFULLY);
         r = (if ret \<noteq> GALLUS_RESULT_OK then ret else if w1 \<noteq> GALLUS_RESULT_TIMEDOUT then w1
              else if ca \<noteq> GALLUS_RESULT_OK then ca else w2)
     in if r = GALLUS_RESULT_OK \<and> cs_is_initialized cs
        then (case s_callout_worker_free cs c of (cs, c) \<Rightarrow> (cs, c, r)) else (cs, c, r))"
  by (auto simp: s_finish_callout_stage_def s_destroy_callout_stage_def Let_def)

section \<open>Behaviour that a caller may not expect\<close>

text \<open>
  When a queue fails after a part of a hand, the loop hands the whole of it to the next queue: the tasks of
  the part are in two queues, and the batch counts as submitted.
\<close>

lemma callout_stage_submits_twice:
  "map_option (\<lambda>(cs, n_total, last_err, as). (cs_put cs, n_total, last_err))
     (submit_rounds 4 [Put_error GALLUS_RESULT_NOT_OPERATIONAL 1, Put_all, Put_all] 2 [10, 11, 12, 13] 0 GALLUS_RESULT_OK
       (example_stage 2)) =
   Some ([[10, 11], [10, 12, 13]], 4, GALLUS_RESULT_OK)"
  by code_simp

text \<open>A submission after the end of the stage divides by zero: \<^verbatim>\<open>m_is_initialized\<close> stays.\<close>

lemma callout_stage_submit_after_end:
  "cs_is_initialized cs \<Longrightarrow> tasks \<noteq> [] \<Longrightarrow>
   s_submit_callout_stage as tasks t (fst (s_destroy_callout_stage True cs c)) c' = None"
  by (simp add: s_destroy_callout_stage_def s_callout_worker_free_def s_submit_callout_stage_def Let_def)

text \<open>
  When a queue can not be created, or there is no memory for their handles, the clean-up reads handles that
  were never set, or the NULL array.
\<close>

lemma callout_stage_create_fails:
  "s_create_callout_stage True [GALLUS_RESULT_OK, GALLUS_RESULT_NO_MEMORY] r 3 cs = None"
  "0 < n \<Longrightarrow> s_create_callout_stage False rs r n cs = None"
  by (simp_all add: s_create_callout_stage_def numeral_eq_Suc)

end
