(* ===== verification/Runnable.thy ===== *)
theory Runnable
  imports Gallus_Base
begin

text \<open>
  Runnables, \<^verbatim>\<open>framework/lib/runnable.c\<close>: a procedure with an argument. A handle is None when it is NULL,
  and the pointer to it when that is; a call is None when it reads an object that is not there. The
  freeup procedures called and the objects given to \<^verbatim>\<open>free\<close> are kept in the order of the calls.
\<close>

record runnable =
  rn_func :: nat
  rn_arg :: "nat option"
  rn_freeup_func :: "nat option"
  rn_is_heap_allocd :: bool

record runnable_world =
  rn_heap :: "nat \<rightharpoonup> runnable"
  rn_freeups :: "(nat \<times> nat) list"
  rn_freed :: "nat list"

text \<open>\<open>mem\<close> is the address of new memory. What an object at a handle that is not NULL holds is overwritten.\<close>

definition gallus_runnable_create ::
  "nat option \<Rightarrow> nat option option \<Rightarrow> nat option \<Rightarrow> nat option \<Rightarrow> nat option \<Rightarrow> runnable_world \<Rightarrow>
   runnable_world \<times> nat option option \<times> gallus_result_t" where
  "gallus_runnable_create mem rptr func arg freeup_func w =
    (case (rptr, func) of
       (Some h, Some f) \<Rightarrow>
         (case (h, mem) of
            (None, None) \<Rightarrow> (w, Some None, GALLUS_RESULT_NO_MEMORY)
          | (None, Some a) \<Rightarrow>
              (w\<lparr>rn_heap := (rn_heap w)(a \<mapsto> \<lparr>rn_func = f, rn_arg = arg, rn_freeup_func = freeup_func,
                                             rn_is_heap_allocd = True\<rparr>)\<rparr>, Some (Some a), GALLUS_RESULT_OK)
          | (Some a, _) \<Rightarrow>
              (w\<lparr>rn_heap := (rn_heap w)(a \<mapsto> \<lparr>rn_func = f, rn_arg = arg, rn_freeup_func = freeup_func,
                                             rn_is_heap_allocd = False\<rparr>)\<rparr>, Some (Some a), GALLUS_RESULT_OK))
     | (Some h, None) \<Rightarrow> (w, Some None, GALLUS_RESULT_INVALID_ARGS)
     | (None, _) \<Rightarrow> (w, None, GALLUS_RESULT_INVALID_ARGS))"

definition gallus_runnable_destroy ::
  "nat option option \<Rightarrow> runnable_world \<Rightarrow> (runnable_world \<times> nat option option) option" where
  "gallus_runnable_destroy rptr w =
    (case rptr of
       None \<Rightarrow> Some (w, None)
     | Some None \<Rightarrow> None
     | Some (Some a) \<Rightarrow>
         (case rn_heap w a of
            None \<Rightarrow> None
          | Some r \<Rightarrow>
              (let w = (case rn_freeup_func r of Some f \<Rightarrow> w\<lparr>rn_freeups := rn_freeups w @ [(a, f)]\<rparr> | None \<Rightarrow> w);
                   w = (if rn_is_heap_allocd r
                        then w\<lparr>rn_heap := (rn_heap w)(a := None), rn_freed := rn_freed w @ [a]\<rparr> else w)
               in Some (w, Some None))))"

text \<open>\<open>run\<close> is what the procedures return, by procedure, runnable and argument.\<close>

definition gallus_runnable_start ::
  "(nat \<Rightarrow> nat \<Rightarrow> nat option \<Rightarrow> gallus_result_t) \<Rightarrow> nat option option \<Rightarrow> runnable_world \<Rightarrow> gallus_result_t option" where
  "gallus_runnable_start run rptr w =
    (case rptr of
       Some (Some a) \<Rightarrow> map_option (\<lambda>r. run (rn_func r) a (rn_arg r)) (rn_heap w a)
     | _ \<Rightarrow> Some GALLUS_RESULT_ANY_FAILURES)"

section \<open>Properties\<close>

text \<open>A runnable that was created runs its procedure with its argument.\<close>

lemma runnable_create_start:
  assumes "gallus_runnable_create mem rptr func arg freeup_func w = (w', h, GALLUS_RESULT_OK)"
  shows "\<exists>a f. h = Some (Some a) \<and> func = Some f \<and> gallus_runnable_start run h w' = Some (run f a arg)"
  using assms by (auto simp: gallus_runnable_create_def gallus_runnable_start_def split: option.splits)

text \<open>
  Its destruction calls its freeup procedure, clears the handle, and frees the object when the creation allocated
  it: new memory is given back and the memory of a caller is not.
\<close>

lemma runnable_create_destroy:
  assumes "gallus_runnable_create mem (Some h) func arg freeup_func w = (w', h', GALLUS_RESULT_OK)"
    "h = None \<Longrightarrow> mem = Some a" "h \<noteq> None \<Longrightarrow> h = Some a" "h = None \<Longrightarrow> rn_heap w a = None"
  shows "\<exists>w''. gallus_runnable_destroy h' w' = Some (w'', Some None) \<and>
    rn_freed w'' = rn_freed w @ (if h = None then [a] else []) \<and> (h = None \<longrightarrow> rn_heap w'' = rn_heap w) \<and>
    rn_freeups w'' = rn_freeups w @ (case freeup_func of Some f \<Rightarrow> [(a, f)] | None \<Rightarrow> [])"
  using assms
  by (auto simp: gallus_runnable_create_def gallus_runnable_destroy_def Let_def fun_upd_idem split: option.splits)

text \<open>The destruction of a handle that is NULL, as a second destruction has it, reads the object at NULL.\<close>

lemma runnable_destroy_null: "gallus_runnable_destroy (Some None) w = None"
  by (simp add: gallus_runnable_destroy_def)

lemma runnable_destroy_twice:
  "gallus_runnable_destroy (Some (Some a)) w = Some (w', h) \<Longrightarrow> gallus_runnable_destroy h w' = None"
  by (auto simp: gallus_runnable_destroy_def Let_def split: option.splits)

text \<open>A creation without a procedure clears the handle of an object that was created before.\<close>

lemma runnable_create_loses_handle:
  "gallus_runnable_create mem (Some (Some a)) None arg freeup_func w = (w, Some None, GALLUS_RESULT_INVALID_ARGS)"
  by (simp add: gallus_runnable_create_def)

end
