(* ===== verification/Session.thy ===== *)
theory Session
  imports Gallus_Base
begin

unbundle bit_operations_syntax

text \<open>
  Sessions, \<^verbatim>\<open>framework/lib/session.c\<close> and \<^verbatim>\<open>session_tcp.c\<close>: a socket with the events it is polled for and
  a buffer for reading lines.

  What the operating system answers, and what the procedures of a TLS session do, are arguments: results,
  or scripts of the results of successive calls. A call is None when it waits for an answer that the script
  does not have, or calls a procedure that is NULL. A procedure is a boolean when only its presence matters.
\<close>

abbreviation (input) GALLUS_RESULT_SOCKET_ERROR :: int where "GALLUS_RESULT_SOCKET_ERROR \<equiv> - 17"
abbreviation (input) GALLUS_RESULT_TLS_CONN_ERROR :: int where "GALLUS_RESULT_TLS_CONN_ERROR \<equiv> - 20"
abbreviation (input) GALLUS_RESULT_EINPROGRESS :: int where "GALLUS_RESULT_EINPROGRESS \<equiv> - 21"
abbreviation (input) GALLUS_RESULT_UNSUPPORTED :: int where "GALLUS_RESULT_UNSUPPORTED \<equiv> - 22"

definition SESSION_PASSIVE :: "32 word" where "SESSION_PASSIVE = 0x0001"
definition SESSION_ACTIVE :: "32 word" where "SESSION_ACTIVE = 0x0002"
definition SESSION_ACCEPTED :: "32 word" where "SESSION_ACCEPTED = 0x0004"
definition SESSION_TCP :: "32 word" where "SESSION_TCP = 0x0010"
definition SESSION_TCP6 :: "32 word" where "SESSION_TCP6 = 0x0020"
definition SESSION_UNIX_DGRAM :: "32 word" where "SESSION_UNIX_DGRAM = 0x0100"
definition SESSION_UNIX_STREAM :: "32 word" where "SESSION_UNIX_STREAM = 0x0200"
definition SESSION_TLS :: "32 word" where "SESSION_TLS = 0x1000"

definition SESSION_BUFSIZ :: nat where "SESSION_BUFSIZ = 4096"
definition MAX_EVENTS :: nat where "MAX_EVENTS = 1024"

text \<open>The event bits of \<^verbatim>\<open>poll\<close>.\<close>

definition POLLIN :: "16 word" where "POLLIN = 0x01"
definition POLLOUT :: "16 word" where "POLLOUT = 0x04"
definition POLL_failures :: "16 word" where "POLL_failures = 0x08 OR 0x10 OR 0x20"

datatype socket_family = PF_INET | PF_INET6 | PF_UNIX

text \<open>\<open>ss_buf\<close> is what was last read into the buffer, \<open>ss_rp\<close> and \<open>ss_ep\<close> the offsets of the two pointers.\<close>

record session =
  ss_sock :: int
  ss_family :: socket_family
  ss_is_stream :: bool
  ss_session_type :: "32 word"
  ss_events :: "16 word"
  ss_revents :: "16 word"
  ss_buf :: string
  ss_rp :: nat
  ss_ep :: nat
  ss_read :: bool
  ss_write :: bool
  ss_connect :: bool
  ss_accept :: bool
  ss_close :: bool
  ss_destroy :: bool
  ss_connect_check :: bool

definition has_type :: "32 word \<Rightarrow> 32 word \<Rightarrow> bool" where
  "has_type t m \<longleftrightarrow> t AND m \<noteq> 0"

section \<open>Creation\<close>

definition session_tcp_init :: "session \<Rightarrow> session \<times> gallus_result_t" where
  "session_tcp_init s = (s\<lparr>ss_read := True, ss_write := True\<rparr>, GALLUS_RESULT_OK)"

definition legal_types :: "32 word" where
  "legal_types = SESSION_PASSIVE OR SESSION_ACTIVE OR SESSION_ACCEPTED OR SESSION_UNIX_STREAM OR SESSION_UNIX_DGRAM"

text \<open>The family and whether the socket is a stream, by type.\<close>

definition session_family :: "32 word \<Rightarrow> (socket_family \<times> bool) option" where
  "session_family t =
    (if has_type t SESSION_TCP then Some (PF_INET, True)
     else if has_type t SESSION_TCP6 then Some (PF_INET6, True)
     else if has_type t SESSION_UNIX_STREAM then Some (PF_UNIX, True)
     else if has_type t SESSION_UNIX_DGRAM then Some (PF_UNIX, False)
     else None)"

text \<open>
  \<open>tls\<close> is \<^verbatim>\<open>session_tls_init\<close>, \<open>mem\<close> whether there is memory and \<open>junk\<close> what it holds in \<^verbatim>\<open>revents\<close>. The handle is the
  outer option, NULL as None; the result has it as it is left.
\<close>

definition session_create ::
  "(session \<Rightarrow> session \<times> gallus_result_t) \<Rightarrow> bool \<Rightarrow> 16 word \<Rightarrow> 32 word \<Rightarrow> session option option \<Rightarrow>
   session option option \<times> gallus_result_t" where
  "session_create tls mem junk t h =
    (if t AND legal_types = 0 \<or> h = None then (h, GALLUS_RESULT_INVALID_ARGS)
     else if \<not> mem then (h, GALLUS_RESULT_NO_MEMORY)
     else
       (case session_family t of
          None \<Rightarrow> (Some None, GALLUS_RESULT_INVALID_ARGS)
        | Some (fam, stream) \<Rightarrow>
            (let s = \<lparr>ss_sock = - 1, ss_family = fam, ss_is_stream = stream, ss_session_type = t, ss_events = 0,
                     ss_revents = junk, ss_buf = [], ss_rp = 0, ss_ep = 0, ss_read = False, ss_write = False,
                     ss_connect = False, ss_accept = False, ss_close = True, ss_destroy = False,
                     ss_connect_check = False\<rparr>;
                 (s, ret) = (if has_type t SESSION_TLS then tls s else session_tcp_init s)
             in if ret \<noteq> GALLUS_RESULT_OK then (Some None, ret) else (Some (Some s), GALLUS_RESULT_OK))))"

text \<open>\<open>socks\<close> is what \<^verbatim>\<open>socketpair\<close> stores, None when it fails; the memory is given for each of the two.\<close>

definition session_pair ::
  "(session \<Rightarrow> session \<times> gallus_result_t) \<Rightarrow> bool \<Rightarrow> bool \<Rightarrow> 16 word \<Rightarrow> (int \<times> int) option \<Rightarrow> 32 word \<Rightarrow>
   gallus_result_t + session \<times> session" where
  "session_pair tls mem0 mem1 junk socks t =
    (if \<not> has_type t (SESSION_UNIX_STREAM OR SESSION_UNIX_DGRAM) then Inl GALLUS_RESULT_INVALID_ARGS
     else
       (case session_create tls mem0 junk t (Some None) of
          (Some (Some s0), ret0) \<Rightarrow>
            (case session_create tls mem1 junk t (Some None) of
               (Some (Some s1), ret1) \<Rightarrow>
                 (case socks of
                    None \<Rightarrow> Inl GALLUS_RESULT_POSIX_API_ERROR
                  | Some (a, b) \<Rightarrow> Inr (s0\<lparr>ss_sock := a\<rparr>, s1\<lparr>ss_sock := b\<rparr>))
             | (_, ret1) \<Rightarrow> Inl ret1)
        | (_, ret0) \<Rightarrow> Inl ret0))"

text \<open>The sockets closed, and the session.\<close>

definition close_default :: "session \<Rightarrow> int list \<times> session" where
  "close_default s = (if ss_sock s \<noteq> - 1 then ([ss_sock s], s\<lparr>ss_sock := - 1\<rparr>) else ([], s))"

text \<open>With whether the destroy procedure of the session is called.\<close>

definition session_destroy :: "session option \<Rightarrow> int list \<times> bool" where
  "session_destroy h = (case h of None \<Rightarrow> ([], False) | Some s \<Rightarrow> (fst (close_default s), ss_destroy s))"

definition session_is_alive :: "session option \<Rightarrow> bool" where
  "session_is_alive h = (case h of None \<Rightarrow> False | Some s \<Rightarrow> ss_sock s \<noteq> - 1)"

section \<open>Events\<close>

definition session_event_clear :: "session \<Rightarrow> session" where
  "session_event_clear s = s\<lparr>ss_events := 0, ss_revents := 0\<rparr>"

definition session_read_event_set :: "session \<Rightarrow> session" where
  "session_read_event_set s = s\<lparr>ss_events := ss_events s OR POLLIN, ss_revents := 0\<rparr>"

definition session_read_event_unset :: "session \<Rightarrow> session" where
  "session_read_event_unset s = s\<lparr>ss_events := ss_events s AND NOT POLLIN, ss_revents := 0\<rparr>"

definition session_write_event_set :: "session \<Rightarrow> session" where
  "session_write_event_set s = s\<lparr>ss_events := ss_events s OR POLLOUT, ss_revents := 0\<rparr>"

definition session_write_event_unset :: "session \<Rightarrow> session" where
  "session_write_event_unset s = s\<lparr>ss_events := ss_events s AND NOT POLLOUT, ss_revents := 0\<rparr>"

definition session_is_readable :: "session \<Rightarrow> bool \<times> gallus_result_t" where
  "session_is_readable s =
    (if ss_revents s AND POLLIN \<noteq> 0 then (True, GALLUS_RESULT_OK)
     else if ss_revents s AND POLL_failures \<noteq> 0 then (False, GALLUS_RESULT_SOCKET_ERROR)
     else (False, GALLUS_RESULT_OK))"

definition session_is_writable :: "session \<Rightarrow> bool \<times> gallus_result_t" where
  "session_is_writable s =
    (if ss_revents s AND POLLOUT \<noteq> 0 then (True, GALLUS_RESULT_OK)
     else if ss_revents s AND POLL_failures \<noteq> 0 then (False, GALLUS_RESULT_SOCKET_ERROR)
     else (False, GALLUS_RESULT_OK))"

definition session_is_read_on :: "session \<Rightarrow> bool \<times> gallus_result_t" where
  "session_is_read_on s = (ss_events s AND POLLIN \<noteq> 0, GALLUS_RESULT_OK)"

definition session_is_write_on :: "session \<Rightarrow> bool \<times> gallus_result_t" where
  "session_is_write_on s = (ss_events s AND POLLOUT \<noteq> 0, GALLUS_RESULT_OK)"

definition session_type_is_passive :: "32 word \<Rightarrow> bool" where "session_type_is_passive t = has_type t SESSION_PASSIVE"
definition session_type_is_active :: "32 word \<Rightarrow> bool" where "session_type_is_active t = has_type t SESSION_ACTIVE"
definition session_type_is_accepted :: "32 word \<Rightarrow> bool" where "session_type_is_accepted t = has_type t SESSION_ACCEPTED"
definition session_type_is_tcp :: "32 word \<Rightarrow> bool" where "session_type_is_tcp t = has_type t SESSION_TCP"
definition session_type_is_tcp6 :: "32 word \<Rightarrow> bool" where "session_type_is_tcp6 t = has_type t SESSION_TCP6"
definition session_type_is_tls :: "32 word \<Rightarrow> bool" where "session_type_is_tls t = has_type t SESSION_TLS"

definition session_is_passive :: "session \<Rightarrow> bool" where
  "session_is_passive s = has_type (ss_session_type s) SESSION_PASSIVE"

definition session_id_get :: "session \<Rightarrow> 64 word" where
  "session_id_get s = word_of_int (ss_sock s)"

text \<open>The number of bytes in the buffer that were not read.\<close>

definition SBUF_UNREAD_LEN :: "session \<Rightarrow> nat" where
  "SBUF_UNREAD_LEN s = ss_ep s - ss_rp s"

definition has_buffered :: "session \<Rightarrow> bool" where
  "has_buffered s \<longleftrightarrow> ss_events s AND POLLIN \<noteq> 0 \<and> 0 < SBUF_UNREAD_LEN s"

text \<open>\<open>answer\<close> is what \<^verbatim>\<open>poll\<close> returns, whether it was interrupted, and the events of each session.\<close>

definition session_poll ::
  "int \<times> bool \<times> 16 word list \<Rightarrow> session list \<Rightarrow> session list \<times> gallus_result_t" where
  "session_poll answer ss =
    (if length ss > MAX_EVENTS then (ss, GALLUS_RESULT_INVALID_ARGS)
     else
       (let ss' = map (\<lambda>s. if has_buffered s then s\<lparr>ss_revents := POLLIN\<rparr> else s) ss;
            n_events = length (filter has_buffered ss)
        in if n_events > 0 then (ss', int n_events)
           else
             (let (n, eintr, revents) = answer;
                  ret = (if n = 0 then GALLUS_RESULT_TIMEDOUT
                         else if n < 0 then (if eintr then GALLUS_RESULT_INTERRUPTED else GALLUS_RESULT_POSIX_API_ERROR)
                         else n)
              in (map2 (\<lambda>s r. s\<lparr>ss_revents := r\<rparr>) ss' revents, ret))))"

section \<open>Connections\<close>

text \<open>
  The answers on the way to a bound socket: the result and the family of the address, the new socket, and what
  \<^verbatim>\<open>setsockopt\<close> and \<^verbatim>\<open>bind\<close> return, the latter with whether it is under way.
\<close>

record bind_env =
  be_addr :: gallus_result_t
  be_family :: socket_family
  be_sock :: int
  be_setsockopt :: int
  be_bind :: int
  be_einprogress :: bool

text \<open>With the sockets closed.\<close>

definition bind_default :: "bind_env \<Rightarrow> session \<Rightarrow> session \<times> int \<times> int list" where
  "bind_default e s =
    (if be_addr e \<noteq> GALLUS_RESULT_OK then (s, - 1, [])
     else if ss_family s \<noteq> be_family e then (s, - 1, [])
     else if be_sock e < 0 then (s, - 1, [])
     else if has_type (ss_session_type s) SESSION_PASSIVE \<and> be_setsockopt e < 0 then (s, be_setsockopt e, [be_sock e])
     else if be_bind e < 0 \<and> \<not> be_einprogress e then (s, be_bind e, [be_sock e])
     else (s\<lparr>ss_sock := be_sock e\<rparr>, be_bind e, []))"

text \<open>The same for \<^verbatim>\<open>connect\<close>.\<close>

definition connect_default :: "bind_env \<Rightarrow> session \<Rightarrow> session \<times> gallus_result_t \<times> int list" where
  "connect_default e s =
    (if be_addr e \<noteq> GALLUS_RESULT_OK then (s, be_addr e, [])
     else if ss_family s \<noteq> be_family e then (s, GALLUS_RESULT_UNSUPPORTED, [])
     else if ss_sock s < 0 \<and> be_sock e < 0 then (s, GALLUS_RESULT_POSIX_API_ERROR, [])
     else
       (let s = (if ss_sock s < 0 then s\<lparr>ss_sock := be_sock e\<rparr> else s)
        in if be_bind e < 0 then
             (if be_einprogress e then (s, GALLUS_RESULT_EINPROGRESS, [])
              else (s\<lparr>ss_sock := - 1\<rparr>, GALLUS_RESULT_POSIX_API_ERROR, [ss_sock s]))
           else (s, GALLUS_RESULT_OK, [])))"

text \<open>\<open>given\<close> tells whether the session, the address and the port are there.\<close>

definition session_bind :: "bool \<Rightarrow> bind_env \<Rightarrow> int \<Rightarrow> session \<Rightarrow> session \<times> gallus_result_t" where
  "session_bind given e listen_ret s =
    (if \<not> given then (s, GALLUS_RESULT_ANY_FAILURES)
     else
       (case bind_default e s of
          (s, ret, _) \<Rightarrow>
            if ret < 0 then (s, GALLUS_RESULT_POSIX_API_ERROR)
            else if has_type (ss_session_type s) SESSION_PASSIVE \<and> listen_ret < 0 then (s, GALLUS_RESULT_POSIX_API_ERROR)
            else (s, GALLUS_RESULT_OK)))"

text \<open>\<open>src\<close> is the environment of the bind when there is a source address; \<open>proc\<close> the result of the connect procedure.\<close>

definition session_connect ::
  "bind_env \<Rightarrow> bind_env option \<Rightarrow> gallus_result_t \<Rightarrow> session option \<Rightarrow> session option \<times> gallus_result_t" where
  "session_connect e src proc h =
    (case h of
       None \<Rightarrow> (h, GALLUS_RESULT_ANY_FAILURES)
     | Some s \<Rightarrow>
         if \<not> has_type (ss_session_type s) SESSION_ACTIVE then (h, GALLUS_RESULT_TLS_CONN_ERROR)
         else
           (let (s, bound) = (case src of None \<Rightarrow> (s, 0) | Some b \<Rightarrow> (case bind_default b s of (s, r, _) \<Rightarrow> (s, r)))
            in if bound < 0 then (Some s, GALLUS_RESULT_TLS_CONN_ERROR)
               else
                 (case connect_default e s of
                    (s, ret, _) \<Rightarrow>
                      if ret \<noteq> GALLUS_RESULT_OK \<and> ret \<noteq> GALLUS_RESULT_EINPROGRESS then (Some s, ret)
                      else (Some s, if ss_connect s then proc else ret))))"

text \<open>\<open>opt\<close> is what \<^verbatim>\<open>getsockopt\<close> returns and stores.\<close>

definition session_connect_check :: "int \<times> int \<Rightarrow> gallus_result_t \<Rightarrow> session option \<Rightarrow> gallus_result_t" where
  "session_connect_check opt proc h =
    (case h of
       None \<Rightarrow> GALLUS_RESULT_ANY_FAILURES
     | Some s \<Rightarrow>
         if fst opt < 0 then GALLUS_RESULT_ANY_FAILURES
         else if snd opt \<noteq> 0 then GALLUS_RESULT_SOCKET_ERROR
         else if ss_connect_check s then proc else GALLUS_RESULT_OK)"

text \<open>\<open>sock\<close> is what \<^verbatim>\<open>accept\<close> returns; the result has the sockets that are closed.\<close>

definition session_accept ::
  "(session \<Rightarrow> session \<times> gallus_result_t) \<Rightarrow> bool \<Rightarrow> 16 word \<Rightarrow> int \<Rightarrow> gallus_result_t \<Rightarrow> session \<Rightarrow> session option \<Rightarrow>
   session option \<times> gallus_result_t \<times> int list" where
  "session_accept tls mem junk sock proc s1 h2 =
    (if sock < 0 then (h2, GALLUS_RESULT_POSIX_API_ERROR, [])
     else
       (let t = (ss_session_type s1 AND NOT (SESSION_PASSIVE OR SESSION_ACTIVE)) OR SESSION_ACCEPTED
        in case session_create tls mem junk t (Some h2) of
             (Some (Some s2), _) \<Rightarrow>
               (Some (s2\<lparr>ss_sock := sock\<rparr>), if ss_accept s1 then proc else GALLUS_RESULT_OK, [])
           | (_, ret) \<Rightarrow> (None, ret, [sock])))"

definition session_close :: "(session \<Rightarrow> int list \<times> session) \<Rightarrow> session \<Rightarrow> int list \<times> session" where
  "session_close proc s = (if ss_close s then proc s else close_default s)"

definition session_sockfd_get :: "session \<Rightarrow> int" where
  "session_sockfd_get s = ss_sock s"

definition session_sockfd_set :: "int \<Rightarrow> session \<Rightarrow> int list \<times> session" where
  "session_sockfd_set sock s = ((if ss_sock s \<ge> 0 then [ss_sock s] else []), s\<lparr>ss_sock := sock\<rparr>)"

definition session_write_set :: "bool \<Rightarrow> session \<Rightarrow> session" where
  "session_write_set writep s = s\<lparr>ss_write := writep\<rparr>"

section \<open>Reading and writing\<close>

text \<open>An answer of a read: the bytes it stored, at most as many as it was asked for, or a result that is not positive.\<close>

datatype read_answer = Read_data string | Read_end int

definition session_read :: "read_answer \<Rightarrow> nat \<Rightarrow> session option \<Rightarrow> bool \<Rightarrow> string \<times> int" where
  "session_read answer n h buf =
    (case h of
       Some s \<Rightarrow>
         if ss_read s \<and> buf then (case answer of Read_data cs \<Rightarrow> (take n cs, int (length (take n cs))) | Read_end r \<Rightarrow> ([], r))
         else ([], - 1)
     | None \<Rightarrow> ([], - 1))"

definition session_write :: "int \<Rightarrow> session option \<Rightarrow> bool \<Rightarrow> int" where
  "session_write answer h buf = (case h of Some s \<Rightarrow> if ss_write s \<and> buf then answer else - 1 | None \<Rightarrow> - 1)"

text \<open>Filling the buffer when it is empty; the boolean is false when there was nothing to read.\<close>

definition sbuf_fill :: "read_answer list \<Rightarrow> session \<Rightarrow> (bool \<times> session \<times> read_answer list) option" where
  "sbuf_fill as s =
    (if 0 < SBUF_UNREAD_LEN s then Some (True, s, as)
     else if \<not> ss_read s then None
     else
       (case as of
          [] \<Rightarrow> None
        | Read_end r # as \<Rightarrow> Some (False, s, as)
        | Read_data cs # as \<Rightarrow>
            (let data = take SESSION_BUFSIZ cs
             in if data = [] then Some (False, s, as)
                else Some (True, s\<lparr>ss_buf := data @ drop (length data) (ss_buf s), ss_rp := 0, ss_ep := length data\<rparr>, as))))"

text \<open>The loop of \<^verbatim>\<open>session_fgets\<close>, with the room that is left and what it has stored.\<close>

function fgets_loop ::
  "nat \<Rightarrow> string \<Rightarrow> read_answer list \<Rightarrow> session \<Rightarrow> (string option \<times> session \<times> read_answer list) option" where
  "fgets_loop room d as s =
    (if room = 0 then Some (Some d, s, as)
     else
       (case sbuf_fill as s of
          None \<Rightarrow> None
        | Some (False, s, as) \<Rightarrow> Some (None, s, as)
        | Some (True, s, as) \<Rightarrow>
            (let len = min (SBUF_UNREAD_LEN s) room;
                 cs = take len (drop (ss_rp s) (ss_buf s))
             in if CHR 0x0A \<in> set cs then
                  (let line = takeWhile (\<lambda>c. c \<noteq> CHR 0x0A) cs @ [CHR 0x0A]
                   in Some (Some (d @ line), s\<lparr>ss_rp := ss_rp s + length line\<rparr>, as))
                else fgets_loop (room - len) (d @ cs) as (s\<lparr>ss_rp := ss_rp s + len\<rparr>))))"
  by pat_completeness auto
termination
  by (relation "measure (\<lambda>(room, d, as, s). room)")
    (auto simp: sbuf_fill_def SBUF_UNREAD_LEN_def Let_def split: if_splits list.splits read_answer.splits)

definition session_fgets :: "int \<Rightarrow> read_answer list \<Rightarrow> session \<Rightarrow> (string option \<times> session \<times> read_answer list) option" where
  "session_fgets room as s = (if room \<le> 0 then Some (None, s, as) else fgets_loop (nat (room - 1)) [] as s)"

text \<open>
  \<^verbatim>\<open>writen\<close>: the results of the calls of the write procedure, of which none writes more than it is given, what
  is left to write, and what was written before.
\<close>

fun writen_loop :: "int list \<Rightarrow> bool \<Rightarrow> string \<Rightarrow> string \<Rightarrow> (int \<times> string) option" where
  "writen_loop as has_write [] sent = Some (int (length sent), sent)"
| "writen_loop as has_write (c # cs) sent =
    (if has_write then
       (case as of
          [] \<Rightarrow> None
        | r # as \<Rightarrow>
            (if r < 0 \<and> sent = [] then Some (r, sent)
             else if r \<le> 0 then Some (int (length sent), sent)
             else
               (let k = min (nat r) (length (c # cs))
                in writen_loop as has_write (drop k (c # cs)) (sent @ take k (c # cs)))))
     else Some (GALLUS_RESULT_INVALID_OBJECT, sent))"

definition writen :: "int list \<Rightarrow> string \<Rightarrow> session \<Rightarrow> (int \<times> string) option" where
  "writen as buf s = writen_loop as (ss_write s) buf []"

text \<open>\<open>text\<close> is what \<^verbatim>\<open>vasprintf\<close> made, or its negative result.\<close>

definition session_vprintf :: "int + string \<Rightarrow> int list \<Rightarrow> session \<Rightarrow> (int \<times> string) option" where
  "session_vprintf text as s = (case text of Inl r \<Rightarrow> Some (r, []) | Inr buf \<Rightarrow> writen as buf s)"

end
