(* ===== verification/Session_Laws.thy ===== *)
theory Session_Laws
  imports Session
begin

text \<open>
  What the lines that \<open>session_fgets\<close> returns have to do with the bytes that arrive, what \<open>writen\<close> sends, and
  when \<open>session_poll\<close> reports a session. The last section shows behaviour that a caller may not expect.
\<close>

section \<open>Reading lines\<close>

definition session_inv :: "session \<Rightarrow> bool" where
  "session_inv s \<longleftrightarrow> ss_rp s \<le> ss_ep s \<and> ss_ep s \<le> length (ss_buf s) \<and> ss_read s"

definition unread :: "session \<Rightarrow> string" where
  "unread s = take (ss_ep s - ss_rp s) (drop (ss_rp s) (ss_buf s))"

fun answer_data :: "read_answer \<Rightarrow> string" where
  "answer_data (Read_data cs) = take SESSION_BUFSIZ cs"
| "answer_data (Read_end r) = []"

text \<open>The answers that bring something, and all that is still to be read.\<close>

definition flowing :: "read_answer list \<Rightarrow> bool" where
  "flowing as \<longleftrightarrow> list_all (\<lambda>a. answer_data a \<noteq> []) as"

definition input_stream :: "read_answer list \<Rightarrow> session \<Rightarrow> string" where
  "input_stream as s = unread s @ concat (map answer_data as)"

text \<open>The line that is at the beginning of a stream, for a room of \<open>n\<close> characters.\<close>

definition first_line :: "nat \<Rightarrow> string \<Rightarrow> string" where
  "first_line n st =
    (if CHR 0x0A \<in> set (take n st) then takeWhile (\<lambda>c. c \<noteq> CHR 0x0A) st @ [CHR 0x0A] else take n st)"

definition line_there :: "nat \<Rightarrow> string \<Rightarrow> bool" where
  "line_there n st \<longleftrightarrow> n \<le> length st \<or> CHR 0x0A \<in> set st"

lemma length_unread: "session_inv s \<Longrightarrow> length (unread s) = SBUF_UNREAD_LEN s"
  by (auto simp: session_inv_def unread_def SBUF_UNREAD_LEN_def)

lemma fill_keeps:
  assumes "session_inv s" "flowing as" "input_stream as s \<noteq> []"
  shows "\<exists>s' as'. sbuf_fill as s = Some (True, s', as') \<and> session_inv s' \<and> flowing as' \<and> 0 < SBUF_UNREAD_LEN s' \<and>
    input_stream as' s' = input_stream as s"
proof (cases "0 < SBUF_UNREAD_LEN s")
  case True
  then show ?thesis using assms by (simp add: sbuf_fill_def)
next
  case False
  then have "unread s = []" using length_unread [OF assms(1)] by simp
  then obtain a as1 where as: "as = a # as1" "answer_data a \<noteq> []"
    using assms(2,3) by (cases as) (auto simp: input_stream_def flowing_def)
  then obtain cs where cs: "a = Read_data cs" by (cases a) auto
  define data where "data = take SESSION_BUFSIZ cs"
  let ?s = "s\<lparr>ss_buf := data @ drop (length data) (ss_buf s), ss_rp := 0, ss_ep := length data\<rparr>"
  have data: "data \<noteq> []" using as cs by (simp add: data_def)
  then have "sbuf_fill as s = Some (True, ?s, as1)"
    using False assms(1) as(1) cs by (simp add: sbuf_fill_def session_inv_def Let_def flip: data_def)
  moreover have "session_inv ?s" "unread ?s = data" "0 < SBUF_UNREAD_LEN ?s"
    using assms(1) data by (auto simp: session_inv_def unread_def SBUF_UNREAD_LEN_def)
  moreover have "flowing as1" using assms(2) as(1) by (simp add: flowing_def)
  ultimately show ?thesis using \<open>unread s = []\<close> as(1) cs by (auto simp: input_stream_def data_def)
qed

lemma takeWhile_shorter: "x \<in> set xs \<Longrightarrow> \<not> P x \<Longrightarrow> length (takeWhile P xs) < length xs"
  by (induction xs) auto

lemma unread_after:
  assumes "session_inv s" "k \<le> SBUF_UNREAD_LEN s"
  shows "session_inv (s\<lparr>ss_rp := ss_rp s + k\<rparr>)" "unread (s\<lparr>ss_rp := ss_rp s + k\<rparr>) = drop k (unread s)"
  using assms by (auto simp: session_inv_def unread_def SBUF_UNREAD_LEN_def drop_take add.commute)

lemma first_line_split:
  assumes "len \<le> n" "len \<le> length st" "CHR 0x0A \<notin> set (take len st)"
  shows "first_line n st = take len st @ first_line (n - len) (drop len st)"
proof -
  have st: "st = take len st @ drop len st" by simp
  have t: "take n st = take len st @ take (n - len) (drop len st)"
    using assms(1,2) by (metis append_take_drop_id le_add_diff_inverse take_add)
  have "takeWhile (\<lambda>c. c \<noteq> CHR 0x0A) st = take len st @ takeWhile (\<lambda>c. c \<noteq> CHR 0x0A) (drop len st)"
    using assms(3) by (subst st) (subst takeWhile_append2, auto)
  then show ?thesis using assms(3) t by (simp add: first_line_def)
qed

lemma fgets_loop_stream:
  assumes "session_inv s" "flowing as" "line_there room (input_stream as s)"
  shows "\<exists>s' as'. fgets_loop room d as s = Some (Some (d @ first_line room (input_stream as s)), s', as') \<and>
    session_inv s' \<and> flowing as' \<and>
    input_stream as' s' = drop (length (first_line room (input_stream as s))) (input_stream as s)"
  using assms
proof (induction room arbitrary: d as s rule: less_induct)
  case (less room)
  show ?case
  proof (cases "room = 0")
    case True
    then show ?thesis using less.prems by (subst fgets_loop.simps) (simp add: first_line_def)
  next
    case False
    let ?st = "input_stream as s"
    have "?st \<noteq> []" using less.prems(3) False by (auto simp: line_there_def)
    then obtain s1 as1 where f: "sbuf_fill as s = Some (True, s1, as1)" "session_inv s1" "flowing as1"
        "0 < SBUF_UNREAD_LEN s1" "input_stream as1 s1 = ?st"
      using fill_keeps [OF less.prems(1,2)] by blast
    let ?len = "min (SBUF_UNREAD_LEN s1) room"
    let ?cs = "take ?len (drop (ss_rp s1) (ss_buf s1))"
    have cs: "?cs = take ?len (unread s1)" by (auto simp: unread_def SBUF_UNREAD_LEN_def min_def)
    have u: "length (unread s1) = SBUF_UNREAD_LEN s1" using length_unread [OF f(2)] .
    have st: "?st = unread s1 @ concat (map answer_data as1)" using f(5) by (simp add: input_stream_def)
    have pre: "?cs = take ?len ?st" "?len \<le> length ?st" using cs u st by simp_all
    show ?thesis
    proof (cases "CHR 0x0A \<in> set ?cs")
      case True
      let ?line = "takeWhile (\<lambda>c. c \<noteq> CHR 0x0A) ?cs @ [CHR 0x0A]"
      have tw: "takeWhile (\<lambda>c. c \<noteq> CHR 0x0A) ?st = takeWhile (\<lambda>c. c \<noteq> CHR 0x0A) ?cs"
        using True pre(1) takeWhile_append1 [of "CHR 0x0A" "take ?len ?st" _ "drop ?len ?st"] by simp
      have "set (take ?len ?st) \<subseteq> set (take room ?st)" by (rule set_take_subset_set_take) simp
      then have line: "first_line room ?st = ?line" using True pre(1) tw by (auto simp: first_line_def)
      have "length (takeWhile (\<lambda>c. c \<noteq> CHR 0x0A) ?cs) < length ?cs"
        using takeWhile_shorter [OF True] by simp
      then have len: "length ?line \<le> SBUF_UNREAD_LEN s1" using cs u by simp
      have "fgets_loop room d as s = Some (Some (d @ ?line), s1\<lparr>ss_rp := ss_rp s1 + length ?line\<rparr>, as1)"
        using True False f(1) by (subst fgets_loop.simps) (simp add: Let_def)
      moreover note unread_after [OF f(2) len]
      ultimately show ?thesis using f(3) st len u line by (simp add: input_stream_def)
    next
      case no: False
      let ?s = "s1\<lparr>ss_rp := ss_rp s1 + ?len\<rparr>"
      note after = unread_after [OF f(2), of ?len]
      have rest: "input_stream as1 ?s = drop ?len ?st" using after(2) st u by (simp add: input_stream_def)
      have split: "first_line room ?st = ?cs @ first_line (room - ?len) (drop ?len ?st)"
        using first_line_split [of ?len room ?st] pre no by simp
      have "line_there (room - ?len) (drop ?len ?st)"
      proof -
        have "set ?st = set (take ?len ?st) \<union> set (drop ?len ?st)" by (metis append_take_drop_id set_append)
        then show ?thesis using less.prems(3) no pre by (auto simp: line_there_def)
      qed
      then have "\<exists>s' as'. fgets_loop (room - ?len) (d @ ?cs) as1 ?s =
          Some (Some ((d @ ?cs) @ first_line (room - ?len) (drop ?len ?st)), s', as') \<and> session_inv s' \<and> flowing as' \<and>
          input_stream as' s' = drop (length (first_line (room - ?len) (drop ?len ?st))) (drop ?len ?st)"
        using less.IH [of "room - ?len" ?s as1 "d @ ?cs"] after(1) f(3,4) False rest by simp
      moreover have "fgets_loop room d as s = fgets_loop (room - ?len) (d @ ?cs) as1 ?s"
        using no False f(1) by (subst fgets_loop.simps) (simp add: Let_def)
      moreover have "length ?cs = ?len" using pre by simp
      ultimately show ?thesis using split by (simp add: add.commute)
    qed
  qed
qed

text \<open>
  C16. The lines that are read do not depend on how the bytes arrive: while the stream of what is buffered and
  what the reads bring has a line, or enough for the room given, \<open>session_fgets\<close> returns what is at its
  beginning, up to the newline, and leaves the rest of the stream.
\<close>

theorem session_fgets_stream:
  assumes "session_inv s" "flowing as" "0 < room" "line_there (nat (room - 1)) (input_stream as s)"
  shows "\<exists>s' as'. session_fgets room as s = Some (Some (first_line (nat (room - 1)) (input_stream as s)), s', as') \<and>
    session_inv s' \<and> flowing as' \<and>
    input_stream as' s' = drop (length (first_line (nat (room - 1)) (input_stream as s))) (input_stream as s)"
  using fgets_loop_stream [OF assms(1,2,4), of "[]"] assms(3) by (simp add: session_fgets_def)


definition example_session :: session where
  "example_session =
     \<lparr>ss_sock = 3, ss_family = PF_INET, ss_is_stream = True, ss_session_type = SESSION_TCP OR SESSION_ACTIVE, ss_events = POLLIN,
      ss_revents = 0, ss_buf = ''xGET /'', ss_rp = 1, ss_ep = 6, ss_read = True, ss_write = True, ss_connect = False,
      ss_accept = False, ss_close = True, ss_destroy = False, ss_connect_check = False\<rparr>"

definition example_reads :: "read_answer list" where
  "example_reads = [Read_data ''index'', Read_data (''.html'' @ [CHR 0x0A] @ ''Ho''), Read_data ''st'']"

lemma session_fgets_stream_witness:
  "\<exists>s' as'. session_fgets 80 example_reads example_session = Some (Some (''GET /index.html'' @ [CHR 0x0A]), s', as') \<and>
     input_stream as' s' = ''Host''"
proof -
  have "session_inv example_session" "flowing example_reads" "line_there (nat (80 - 1)) (input_stream example_reads example_session)"
    "first_line (nat (80 - 1)) (input_stream example_reads example_session) = ''GET /index.html'' @ [CHR 0x0A]"
    "drop (length (''GET /index.html'' @ [CHR 0x0A])) (input_stream example_reads example_session) = ''Host''" by code_simp+
  then show ?thesis using session_fgets_stream [of example_session example_reads 80] by auto
qed

section \<open>Writing\<close>

text \<open>What is sent is a beginning of the text, and the result is its length unless nothing was sent.\<close>

lemma writen_loop_prefix:
  "writen_loop as w buf sent = Some (r, out) \<Longrightarrow> \<exists>us vs. buf = us @ vs \<and> out = sent @ us \<and> (w \<and> out \<noteq> [] \<longrightarrow> r = int (length out))"
proof (induction as w buf sent rule: writen_loop.induct)
  case (2 as w c cs sent)
  show ?case
  proof (cases "w \<and> as \<noteq> [] \<and> hd as > 0")
    case False
    then have "out = sent \<and> (w \<and> out \<noteq> [] \<longrightarrow> r = int (length out))" using 2(2) by (auto split: list.splits if_splits)
    then show ?thesis by auto
  next
    case True
    then obtain a as' where as: "as = a # as'" "0 < a" "w" by (cases as) auto
    let ?k = "min (nat a) (length (c # cs))"
    have "writen_loop as' w (drop ?k (c # cs)) (sent @ take ?k (c # cs)) = Some (r, out)" using 2(2) as by (simp add: Let_def)
    moreover have "?k = ?k \<and> \<not> (a < 0 \<and> sent = []) \<and> \<not> a \<le> 0" using as by simp
    ultimately obtain us vs where split: "drop ?k (c # cs) = us @ vs" "out = (sent @ take ?k (c # cs)) @ us"
        "w \<and> out \<noteq> [] \<longrightarrow> r = int (length out)"
      using 2(1) [OF as(3,1) _ _ refl] as by blast
    have "c # cs = (take ?k (c # cs) @ us) @ vs" using split(1) by (metis append_assoc append_take_drop_id)
    moreover have "out = sent @ (take ?k (c # cs) @ us)" using split(2) by (metis append_assoc)
    ultimately show ?thesis using split(3) by blast
  qed
qed auto

text \<open>Writes that make progress send everything.\<close>

lemma writen_loop_all:
  "list_all (\<lambda>r. 0 < r) as \<Longrightarrow> length buf \<le> length as \<Longrightarrow>
   writen_loop as True buf sent = Some (int (length (sent @ buf)), sent @ buf)"
proof (induction as arbitrary: buf sent)
  case (Cons a as)
  show ?case
  proof (cases buf)
    case (Cons c cs)
    let ?k = "min (nat a) (length buf)"
    have "0 < ?k" using Cons.prems(1) Cons by auto
    then have "length (drop ?k buf) \<le> length as"
      using Cons.prems(2) unfolding length_drop by (simp only: list.size)
    then have "writen_loop as True (drop ?k buf) (sent @ take ?k buf) = Some (int (length (sent @ buf)), sent @ buf)"
      using Cons.IH [of "drop ?k buf" "sent @ take ?k buf"] Cons.prems(1) by simp
    then show ?thesis using Cons.prems(1) Cons by (simp add: Let_def)
  qed simp
qed simp

section \<open>Polling\<close>

text \<open>A session that has unread bytes is readable at once; the system is not asked, so nothing waits for it.\<close>

lemma poll_buffered:
  assumes "length ss \<le> MAX_EVENTS" "s \<in> set ss" "has_buffered s" "session_poll answer ss = (ss', r)"
  shows "r > 0" "s\<lparr>ss_revents := POLLIN\<rparr> \<in> set ss'" "session_is_readable (s\<lparr>ss_revents := POLLIN\<rparr>) = (True, GALLUS_RESULT_OK)"
    "session_poll answer' ss = (ss', r)"
proof -
  have "0 < length (filter has_buffered ss)" using assms(2,3) by (auto simp: filter_empty_conv)
  then have "ss' = map (\<lambda>s. if has_buffered s then s\<lparr>ss_revents := POLLIN\<rparr> else s) ss" "r = int (length (filter has_buffered ss))"
    "session_poll answer' ss = session_poll answer ss"
    using assms(1,4) by (auto simp: session_poll_def Let_def)
  then show "r > 0" "s\<lparr>ss_revents := POLLIN\<rparr> \<in> set ss'" "session_poll answer' ss = (ss', r)"
    using assms(2-4) \<open>0 < length (filter has_buffered ss)\<close> by auto
  show "session_is_readable (s\<lparr>ss_revents := POLLIN\<rparr>) = (True, GALLUS_RESULT_OK)"
    by (simp add: session_is_readable_def POLLIN_def)
qed

section \<open>Behaviour that a caller may not expect\<close>

text \<open>A last line without a newline is lost: the call returns NULL and has taken its bytes.\<close>

lemma session_fgets_loses_tail:
  "case session_fgets 80 [Read_data ''ta'', Read_data ''il'', Read_end 0] (example_session\<lparr>ss_rp := 0, ss_ep := 0\<rparr>) of
     Some (line, s, as) \<Rightarrow> line = None \<and> unread s = [] \<and> as = [] | None \<Rightarrow> False"
  by code_simp

text \<open>When one session has unread bytes the others keep the events of an earlier poll.\<close>

lemma session_poll_stale:
  "case session_poll (0, False, [0, 0]) [example_session, example_session\<lparr>ss_rp := 0, ss_ep := 0, ss_revents := POLLIN\<rparr>] of
     (ss, r) \<Rightarrow> r = 1 \<and> map session_is_readable ss = [(True, GALLUS_RESULT_OK), (True, GALLUS_RESULT_OK)]"
  by code_simp

text \<open>A new session reports the events that its memory happens to hold.\<close>

lemma session_new_readable:
  "case session_create session_tcp_init True POLLIN (SESSION_TCP OR SESSION_ACTIVE) (Some None) of
     (Some (Some s), ret) \<Rightarrow> ret = GALLUS_RESULT_OK \<and> session_is_readable s = (True, GALLUS_RESULT_OK) | _ \<Rightarrow> False"
  by code_simp

text \<open>
  When there is no memory for the session of an accepted connection, the socket goes to the session that the
  handle pointed to before, and the call reports success.
\<close>

lemma session_accept_reuses_handle:
  assumes "0 \<le> sock" "\<not> ss_accept s1"
  shows "session_accept tls False junk sock proc s1 (Some s2) = (Some (s2\<lparr>ss_sock := sock\<rparr>), GALLUS_RESULT_OK, [])"
proof -
  have "((ss_session_type s1 AND NOT (SESSION_PASSIVE OR SESSION_ACTIVE)) OR SESSION_ACCEPTED) AND legal_types \<noteq> 0"
  proof -
    have "bit (((ss_session_type s1 AND NOT (SESSION_PASSIVE OR SESSION_ACTIVE)) OR SESSION_ACCEPTED) AND legal_types) 2"
      by (simp add: legal_types_def SESSION_PASSIVE_def SESSION_ACTIVE_def SESSION_ACCEPTED_def SESSION_UNIX_STREAM_def
          SESSION_UNIX_DGRAM_def bit_simps)
    then show ?thesis by (metis bit_0_eq bot_apply bot_bool_def)
  qed
  then show ?thesis using assms by (simp add: session_accept_def session_create_def Let_def)
qed

text \<open>A second bind loses the first socket without closing it.\<close>

lemma session_bind_leaks:
  assumes "be_addr e = GALLUS_RESULT_OK" "be_family e = ss_family s" "0 \<le> be_sock e" "0 \<le> be_setsockopt e" "0 \<le> be_bind e"
  shows "bind_default e s = (s\<lparr>ss_sock := be_sock e\<rparr>, be_bind e, [])"
  using assms by (simp add: bind_default_def)

end
