(* ===== verification/Check_Cert.thy ===== *)
theory Check_Cert
  imports Str_Token Str_Escape
begin

text \<open>
  The check of certificates against a configuration file, \<^verbatim>\<open>framework/lib/session_checkcert.c\<close>: rules that
  allow or deny a connection by patterns for the issuer and the subject.

  The regular expressions of the C library are a parameter: whether a pattern compiles, and whether it
  matches. The table of the rules is a hash map by their addresses (\<open>HashMap\<close>); here it is a list, and the
  order in which an iteration finds them is a parameter. A line is cut into words by the tokenizer of
  \<open>Str_Token\<close>, and None is a line that is cut into more words than its array has room for.
\<close>

abbreviation (input) GALLUS_RESULT_NOT_ALLOWED :: int where "GALLUS_RESULT_NOT_ALLOWED \<equiv> - 24"

datatype conn_permission = conn_unknown | conn_allow | conn_deny

record regex_env =
  re_compiles :: "string \<Rightarrow> bool"
  re_matches :: "string \<Rightarrow> string \<Rightarrow> bool"

record pattern_pair =
  pp_perm :: conn_permission
  pp_issuer :: "string option"
  pp_subject :: "string option"
  pp_cmplen :: int

text \<open>\<open>ck_filename\<close> is empty when no file was set; \<open>ck_pats\<close> is None for NULL.\<close>

record checkcert =
  ck_pat_tbl :: "pattern_pair list"
  ck_pats :: "pattern_pair list option"
  ck_filename :: string
  ck_last_open :: int
  ck_allow_selfsigned :: bool

section \<open>Rules\<close>

text \<open>\<open>mem\<close> tells whether there is memory.\<close>

definition s_create_pair ::
  "regex_env \<Rightarrow> bool \<Rightarrow> conn_permission \<Rightarrow> string option \<Rightarrow> string option \<Rightarrow> pattern_pair option" where
  "s_create_pair re mem perm issuer subject =
    (if perm = conn_allow \<or> perm = conn_deny \<or> is_valid_string issuer \<or> is_valid_string subject then
       (if is_valid_string issuer \<and> \<not> (re_compiles re (the issuer) \<and> mem) then None
        else if is_valid_string subject \<and> \<not> (re_compiles re (the subject) \<and> mem) then None
        else if \<not> mem then None
        else
          (let cmplen = (if is_valid_string issuer then int (length (the issuer)) else 0) +
                 (if is_valid_string subject then int (length (the subject)) else 0)
           in Some \<lparr>pp_perm = perm, pp_issuer = (if is_valid_string issuer then issuer else None),
                   pp_subject = (if is_valid_string subject then subject else None),
                   pp_cmplen = (if perm = conn_deny then cmplen + 100000 else cmplen)\<rparr>))
     else None)"

definition s_check :: "regex_env \<Rightarrow> pattern_pair \<Rightarrow> string option \<Rightarrow> string option \<Rightarrow> conn_permission" where
  "s_check re p issuer subject =
    (if is_valid_string (pp_issuer p) \<and> is_valid_string (pp_subject p) then
       (if is_valid_string issuer \<and> is_valid_string subject \<and> re_matches re (the (pp_issuer p)) (the issuer) \<and>
           re_matches re (the (pp_subject p)) (the subject)
        then pp_perm p else conn_unknown)
     else if is_valid_string (pp_issuer p) then
       (if is_valid_string issuer \<and> re_matches re (the (pp_issuer p)) (the issuer) then pp_perm p else conn_unknown)
     else if is_valid_string (pp_subject p) then
       (if is_valid_string subject \<and> re_matches re (the (pp_subject p)) (the subject) then pp_perm p else conn_unknown)
     else conn_unknown)"

section \<open>Lines\<close>

text \<open>What the words of a line have said so far; \<open>ps_allow\<close> is the global \<^verbatim>\<open>s_allow_selfsigned\<close>.\<close>

record parse_state =
  ps_issuer :: "string option"
  ps_subject :: "string option"
  ps_do_create :: bool
  ps_allow :: bool

text \<open>The pattern that follows a keyword, from the words that are left.\<close>

definition s_get_pattern :: "bool \<Rightarrow> string list \<Rightarrow> string option" where
  "s_get_pattern mem ws =
    (case ws of
       [] \<Rightarrow> None
     | w # _ \<Rightarrow>
         if w = [] then None
         else (case gallus_str_unescape mem (Some w) (Some [CHR 0x22, CHR 0x27]) True of
                 (r, Some (Some pat)) \<Rightarrow> if r > 0 then Some pat else None
               | _ \<Rightarrow> None))"

text \<open>The boolean is false when the line is refused.\<close>

fun parse_keywords :: "bool \<Rightarrow> conn_permission \<Rightarrow> string list \<Rightarrow> parse_state \<Rightarrow> bool \<times> parse_state" where
  "parse_keywords mem perm [] ps = (True, ps)"
| "parse_keywords mem perm (w # ws) ps =
    (if strcasecmp_eq w ''self-signed'' \<or> strcasecmp_eq w ''selfsigned'' then
       parse_keywords mem perm ws (ps\<lparr>ps_allow := (perm = conn_allow)\<rparr>)
     else if strcasecmp_eq w ''issuer'' then
       (if is_valid_string (ps_issuer ps) then (False, ps)
        else (case s_get_pattern mem ws of
                None \<Rightarrow> (False, ps)
              | Some pat \<Rightarrow> parse_keywords mem perm (tl ws) (ps\<lparr>ps_issuer := Some pat, ps_do_create := True\<rparr>)))
     else if strcasecmp_eq w ''subject'' then
       (if is_valid_string (ps_subject ps) then (False, ps)
        else (case s_get_pattern mem ws of
                None \<Rightarrow> (False, ps)
              | Some pat \<Rightarrow> parse_keywords mem perm (tl ws) (ps\<lparr>ps_subject := Some pat, ps_do_create := True\<rparr>)))
     else (False, ps))"

text \<open>The words of a line, with the result of the tokenizer.\<close>

definition line_words :: "string \<Rightarrow> (gallus_result_t \<times> string list) option" where
  "line_words line =
    (case gallus_str_tokenize_quote (Some (line @ [NUL])) 1024 (Some [CHR 0x09, CHR 0x0D, CHR 0x0A, CHR 0x20])
        (Some [CHR 0x22, CHR 0x27]) of
       None \<Rightarrow> None
     | Some (n, tokens, buf) \<Rightarrow> if length tokens > 16 then None else Some (n, map (cstr buf) tokens))"

definition word_permission :: "string \<Rightarrow> conn_permission" where
  "word_permission w =
    (if strcasecmp_eq w ''allow'' then conn_allow else if strcasecmp_eq w ''deny'' then conn_deny else conn_unknown)"

text \<open>The rule of a line, if it has one, and the global as it is left.\<close>

definition s_parse_line :: "regex_env \<Rightarrow> bool \<Rightarrow> string \<Rightarrow> bool \<Rightarrow> (pattern_pair option \<times> bool) option" where
  "s_parse_line re mem line allow =
    (if line = [] \<or> \<not> mem then Some (None, allow)
     else
       (case line_words line of
          None \<Rightarrow> None
        | Some (n, ws) \<Rightarrow>
            if n > 0 \<and> n < 16 \<and> ws \<noteq> [] \<and> \<not> (hd ws \<noteq> [] \<and> hd (hd ws) = CHR 0x23) \<and> n > 1 \<and>
               word_permission (hd ws) \<noteq> conn_unknown then
              (case parse_keywords mem (word_permission (hd ws)) (take (nat n - 1) (tl ws))
                  \<lparr>ps_issuer = None, ps_subject = None, ps_do_create = False, ps_allow = allow\<rparr> of
                 (isok, ps) \<Rightarrow>
                   Some (if isok \<and> ps_do_create ps
                         then s_create_pair re mem (word_permission (hd ws)) (ps_issuer ps) (ps_subject ps) else None,
                         ps_allow ps))
            else Some (None, allow)))"

section \<open>Files\<close>

text \<open>The lines as \<^verbatim>\<open>fgets\<close> delivers them to a buffer of 4096 characters.\<close>

function config_lines :: "string \<Rightarrow> string list" where
  "config_lines content =
    (if content = [] then []
     else
       (let l = takeWhile (\<lambda>c. c \<noteq> CHR 0x0A) content;
            line = take 4095 (if length l < length content then l @ [CHR 0x0A] else l)
        in line # config_lines (drop (length line) content)))"
  by pat_completeness auto
termination
proof (relation "measure length", goal_cases)
  case (2 content l line)
  then show ?case by (cases content) (auto simp: min_def split: if_splits)
qed simp

declare config_lines.simps [simp del]

text \<open>
  Lines that fill the buffer are left out; new rules go to the end of the table. A line is read as a C string, up
  to a terminator that the file may hold.
\<close>

fun load_lines :: "regex_env \<Rightarrow> bool \<Rightarrow> string list \<Rightarrow> pattern_pair list \<times> bool \<Rightarrow> (pattern_pair list \<times> bool) option" where
  "load_lines re mem [] st = Some st"
| "load_lines re mem (line # lines) (tbl, allow) =
    (if length (cstr line 0) \<ge> 4095 then load_lines re mem lines (tbl, allow)
     else
       (case s_parse_line re mem (cstr line 0) allow of
          None \<Rightarrow> None
        | Some (None, allow) \<Rightarrow> load_lines re mem lines (tbl, allow)
        | Some (Some p, allow) \<Rightarrow> load_lines re mem lines (tbl @ [p], allow)))"

text \<open>The rules in the order of an iteration, sorted by \<^verbatim>\<open>s_cmp_proc\<close>; None is NULL.\<close>

definition s_serialize_pairs ::
  "bool \<Rightarrow> (pattern_pair list \<Rightarrow> pattern_pair list) \<Rightarrow> pattern_pair list \<Rightarrow> pattern_pair list option" where
  "s_serialize_pairs mem order tbl =
    (if tbl \<noteq> [] \<and> mem then Some (sort_key (\<lambda>p. - pp_cmplen p) (order tbl)) else None)"

definition s_unload_config :: "checkcert \<Rightarrow> checkcert" where
  "s_unload_config ck = ck\<lparr>ck_pat_tbl := [], ck_pats := None\<rparr>"

text \<open>
  What a load finds: the modification time of the file, 0 without one, its contents when it can be opened, and
  the time.
\<close>

record config_env =
  ce_mtime :: int
  ce_file :: "string option"
  ce_now :: int
  ce_mem :: bool
  ce_order :: "pattern_pair list \<Rightarrow> pattern_pair list"

definition s_load_config :: "regex_env \<Rightarrow> config_env \<Rightarrow> checkcert \<Rightarrow> (checkcert \<times> gallus_result_t) option" where
  "s_load_config re ce ck =
    (let fail = (\<lambda>ck ret. Some (s_unload_config ck, ret))
     in if ck_filename ck = [] then fail ck GALLUS_RESULT_INVALID_ARGS
        else if ce_mtime ce > 0 \<and> (ck_pats ck = None \<or> ck_last_open ck = 0 \<or> ck_last_open ck < ce_mtime ce) then
          (case ce_file ce of
             None \<Rightarrow> fail ck GALLUS_RESULT_NOT_FOUND
           | Some content \<Rightarrow>
               (case load_lines re (ce_mem ce) (config_lines content) ([], ck_allow_selfsigned ck) of
                  None \<Rightarrow> None
                | Some (tbl, allow) \<Rightarrow>
                    (let ck = ck\<lparr>ck_pat_tbl := tbl, ck_allow_selfsigned := allow,
                                 ck_pats := s_serialize_pairs (ce_mem ce) (ce_order ce) tbl\<rparr>
                     in if ck_pats ck \<noteq> None then Some (ck\<lparr>ck_last_open := ce_now ce\<rparr>, GALLUS_RESULT_OK)
                        else fail ck GALLUS_RESULT_NO_MEMORY)))
        else if ce_mtime ce = 0 then fail ck GALLUS_RESULT_NOT_FOUND
        else Some (ck, GALLUS_RESULT_OK))"

section \<open>Checks\<close>

text \<open>The globals before the first check: no rules, no file.\<close>

definition s_checkcert_init :: checkcert where
  "s_checkcert_init = \<lparr>ck_pat_tbl = [], ck_pats = None, ck_filename = [], ck_last_open = 0, ck_allow_selfsigned = False\<rparr>"

definition s_checkcert_final :: "checkcert \<Rightarrow> checkcert" where
  "s_checkcert_final ck = s_unload_config ck"

definition s_check_certificates_set_config_file :: "string \<Rightarrow> checkcert \<Rightarrow> checkcert" where
  "s_check_certificates_set_config_file filename ck = ck\<lparr>ck_filename := take 4095 filename, ck_last_open := 0\<rparr>"

definition s_check_certificates_get_config_file :: "checkcert \<Rightarrow> string" where
  "s_check_certificates_get_config_file ck = ck_filename ck"

text \<open>The first rule that has a say.\<close>

fun first_permission :: "regex_env \<Rightarrow> pattern_pair list \<Rightarrow> string option \<Rightarrow> string option \<Rightarrow> conn_permission" where
  "first_permission re [] issuer subject = conn_unknown"
| "first_permission re (p # ps) issuer subject =
    (if s_check re p issuer subject \<noteq> conn_unknown then s_check re p issuer subject
     else first_permission re ps issuer subject)"

definition s_check_certificates ::
  "regex_env \<Rightarrow> config_env \<Rightarrow> string option \<Rightarrow> string option \<Rightarrow> checkcert \<Rightarrow> (checkcert \<times> gallus_result_t) option" where
  "s_check_certificates re ce issuer_dn subject_dn ck =
    (if is_valid_string issuer_dn \<or> is_valid_string subject_dn then
       (case (if ck_filename ck \<noteq> [] then s_load_config re ce ck else Some (ck, GALLUS_RESULT_ANY_FAILURES)) of
          None \<Rightarrow> None
        | Some (ck, ret) \<Rightarrow>
            (let ck = (if ck_filename ck \<noteq> [] \<and> ret \<noteq> GALLUS_RESULT_OK then ck\<lparr>ck_allow_selfsigned := False\<rparr> else ck);
                 is_selfsigned = (is_valid_string issuer_dn \<and> is_valid_string subject_dn \<and> issuer_dn = subject_dn)
             in if \<not> ck_allow_selfsigned ck \<and> is_selfsigned then Some (ck, GALLUS_RESULT_NOT_ALLOWED)
                else if ret = GALLUS_RESULT_OK then
                  Some (ck, case ck_pats ck of
                              Some ps \<Rightarrow> if first_permission re ps issuer_dn subject_dn = conn_allow then GALLUS_RESULT_OK
                                        else GALLUS_RESULT_NOT_ALLOWED
                            | None \<Rightarrow> GALLUS_RESULT_NOT_ALLOWED)
                else Some (ck, ret)))
     else Some (ck, GALLUS_RESULT_INVALID_ARGS))"

end
