(* ===== verification/Check_Cert_Laws.thy ===== *)
theory Check_Cert_Laws
  imports Check_Cert Str_Token_Laws "HOL-Library.Multiset"
begin

text \<open>
  The decision on a certificate (\<open>Check_Cert\<close>). The patterns of a rule are no longer than the line it comes
  from, so that the offset of the rules that deny puts all of them before all of the rules that allow, whatever
  the order of the table is.
\<close>

section \<open>Lengths\<close>

lemma unescape_loop_length: "length (unescape_loop esc b s) \<le> length s + (if b then 1 else 0)"
proof (induction s arbitrary: b)
  case (Cons c s)
  show ?case using Cons [of True] Cons [of False] by auto
qed simp

lemma s_get_pattern_length: "s_get_pattern mem ws = Some pat \<Longrightarrow> ws \<noteq> [] \<and> length pat \<le> length (hd ws)"
  using unescape_loop_length [of "[CHR 0x22, CHR 0x27]" False "hd ws"]
  by (cases ws) (auto simp: s_get_pattern_def gallus_str_unescape_def Let_def split: if_splits option.splits)

lemma length_takeWhile_bound: "n < length xs \<Longrightarrow> \<not> P (xs ! n) \<Longrightarrow> length (takeWhile P xs) \<le> n"
  by (metis linorder_not_le nth_mem set_takeWhileD takeWhile_nth)

lemma cstr_bound: "ends_at e rest buf \<Longrightarrow> t \<le> e \<Longrightarrow> length (cstr buf t) \<le> e"
  using length_takeWhile_bound [of "e - t" "drop t buf" "\<lambda>c. c \<noteq> NUL"]
  by (auto simp: ends_at_def cstr_def diff_less_mono)

lemma cstr_no_nul: "NUL \<notin> set (cstr buf t)"
  by (auto simp: cstr_def dest: set_takeWhileD)

text \<open>No word of a line is longer than the line.\<close>

lemma line_words_length:
  assumes "line_words line = Some (n, ws)" "NUL \<notin> set line"
  shows "list_all (\<lambda>w. length w \<le> length line) ws"
proof (cases "line = []")
  case True
  then show ?thesis using assms(1)
    by (auto simp: line_words_def gallus_str_tokenize_quote_def cstr_def split: if_splits)
next
  case False
  let ?e = "length line"
  have "ends_at ?e [] (line @ [NUL])" by (simp add: ends_at_def)
  then obtain r ts b where b: "quote_outer [CHR 0x09, CHR 0x0D, CHR 0x0A, CHR 0x20] [CHR 0x22, CHR 0x27] 1024
      (line @ [NUL]) 0 0 [] = Some (r, ts, b)" "ends_at ?e [] b" "tokens_ok ?e 0 ts"
    using quote_outer_ends [of ?e "[]" "line @ [NUL]" 0 0 1024 "[]" "[CHR 0x09, CHR 0x0D, CHR 0x0A, CHR 0x20]"
        "[CHR 0x22, CHR 0x27]"]
    by (auto simp: tokens_ok_def)
  have "cstr (line @ [NUL]) 0 \<noteq> []" using assms(2) False by (simp add: cstr_0)
  then have "ws = map (cstr b) ts"
    using assms(1) b(1) by (auto simp: line_words_def gallus_str_tokenize_quote_def split: if_splits)
  then show ?thesis using b(2,3) by (auto simp: list_all_iff tokens_ok_def cstr_bound)
qed

section \<open>Rules\<close>

definition rule_ok :: "pattern_pair \<Rightarrow> bool" where
  "rule_ok p \<longleftrightarrow> pp_perm p = conn_allow \<and> pp_cmplen p < 100000 \<or> pp_perm p = conn_deny \<and> pp_cmplen p \<ge> 100000"

definition pat_short :: "string option \<Rightarrow> bool" where
  "pat_short x \<longleftrightarrow> (case x of None \<Rightarrow> True | Some s \<Rightarrow> length s < 4095)"

lemma parse_keywords_short:
  "parse_keywords mem perm ws ps = (ok, ps') \<Longrightarrow> list_all (\<lambda>w. length w < 4095) ws \<Longrightarrow>
    pat_short (ps_issuer ps) \<Longrightarrow> pat_short (ps_subject ps) \<Longrightarrow> pat_short (ps_issuer ps') \<and> pat_short (ps_subject ps')"
proof (induction mem perm ws ps rule: parse_keywords.induct)
  case (2 mem perm w ws ps)
  have short: "s_get_pattern mem ws = Some pat \<Longrightarrow> pat_short (Some pat) \<and> list_all (\<lambda>w. length w < 4095) (tl ws)" for pat
    using s_get_pattern_length [of mem ws pat] "2.prems"(2) by (cases ws) (auto simp: pat_short_def)
  consider (self) "strcasecmp_eq w ''self-signed'' \<or> strcasecmp_eq w ''selfsigned''"
    | (issuer) "\<not> (strcasecmp_eq w ''self-signed'' \<or> strcasecmp_eq w ''selfsigned'')" "strcasecmp_eq w ''issuer''"
    | (subject) "\<not> (strcasecmp_eq w ''self-signed'' \<or> strcasecmp_eq w ''selfsigned'')" "\<not> strcasecmp_eq w ''issuer''"
        "strcasecmp_eq w ''subject''"
    | (other) "\<not> (strcasecmp_eq w ''self-signed'' \<or> strcasecmp_eq w ''selfsigned'')" "\<not> strcasecmp_eq w ''issuer''"
        "\<not> strcasecmp_eq w ''subject''"
    by blast
  then show ?case
  proof cases
    case self
    then show ?thesis using "2.IH"(1) "2.prems" by auto
  next
    case issuer
    then show ?thesis using "2.IH"(2) [OF issuer] "2.prems" short
      by (auto split: if_splits option.splits)
  next
    case subject
    then show ?thesis using "2.IH"(3) [OF subject] "2.prems" short
      by (auto split: if_splits option.splits)
  next
    case other
    then show ?thesis using "2.prems" by auto
  qed
qed auto

lemma s_create_pair_ok:
  assumes "s_create_pair re mem perm issuer subject = Some p" "perm = conn_allow \<or> perm = conn_deny"
    "pat_short issuer" "pat_short subject"
  shows "rule_ok p"
proof -
  let ?l = "(if is_valid_string issuer then int (length (the issuer)) else 0) +
    (if is_valid_string subject then int (length (the subject)) else 0)"
  have "0 \<le> ?l" "?l < 100000" using assms(3,4) by (auto simp: pat_short_def is_valid_string_def split: option.splits)
  moreover have "pp_perm p = perm \<and> pp_cmplen p = (if perm = conn_deny then ?l + 100000 else ?l)"
    using assms(1) by (auto simp: s_create_pair_def Let_def split: if_splits)
  ultimately show ?thesis using assms(2) by (auto simp: rule_ok_def)
qed

lemma s_parse_line_ok:
  assumes "s_parse_line re mem line allow = Some (Some p, allow')" "NUL \<notin> set line" "length line < 4095"
  shows "rule_ok p"
proof -
  obtain n ws ok ps where w: "line_words line = Some (n, ws)" "word_permission (hd ws) \<noteq> conn_unknown" "ws \<noteq> []"
      "parse_keywords mem (word_permission (hd ws)) (take (nat n - 1) (tl ws))
        \<lparr>ps_issuer = None, ps_subject = None, ps_do_create = False, ps_allow = allow\<rparr> = (ok, ps)"
      "s_create_pair re mem (word_permission (hd ws)) (ps_issuer ps) (ps_subject ps) = Some p"
    using assms(1) by (auto simp: s_parse_line_def split: if_splits option.splits prod.splits)
  have "list_all (\<lambda>w. length w < 4095) ws"
    using line_words_length [OF w(1) assms(2)] assms(3) by (auto simp: list_all_iff)
  then have "list_all (\<lambda>w. length w < 4095) (take (nat n - 1) (tl ws))"
    using w(3) by (cases ws) (auto simp: list_all_iff dest: in_set_takeD)
  then have "pat_short (ps_issuer ps) \<and> pat_short (ps_subject ps)"
    using parse_keywords_short [OF w(4)] by (simp add: pat_short_def)
  then show ?thesis using s_create_pair_ok [OF w(5)] w(2) by (auto simp: word_permission_def split: if_splits)
qed

lemma load_lines_ok:
  "load_lines re mem lines st = Some (tbl, allow) \<Longrightarrow> list_all rule_ok (fst st) \<Longrightarrow> list_all rule_ok tbl"
proof (induction re mem lines st rule: load_lines.induct)
  case (2 re mem line lines tbl0 allow0)
  show ?case
  proof (cases "length (cstr line 0) \<ge> 4095")
    case True
    then show ?thesis using 2 by auto
  next
    case False
    then obtain x a where l: "s_parse_line re mem (cstr line 0) allow0 = Some (x, a)"
      using "2.prems"(1) by (auto split: option.splits)
    show ?thesis
    proof (cases x)
      case None
      then show ?thesis using 2 False l by auto
    next
      case (Some p)
      then have "rule_ok p" using s_parse_line_ok l False cstr_no_nul by force
      then show ?thesis using 2 False l Some by auto
    qed
  qed
qed auto

section \<open>The first rule that has a say\<close>

abbreviation rule_applies :: "regex_env \<Rightarrow> string option \<Rightarrow> string option \<Rightarrow> conn_permission \<Rightarrow> pattern_pair \<Rightarrow> bool" where
  "rule_applies re issuer subject perm p \<equiv> pp_perm p = perm \<and> s_check re p issuer subject \<noteq> conn_unknown"

lemma s_check_perm: "s_check re p issuer subject \<noteq> conn_unknown \<Longrightarrow> s_check re p issuer subject = pp_perm p"
  by (auto simp: s_check_def split: if_splits)

lemma first_permission_sorted:
  assumes "sorted (map (\<lambda>p. - pp_cmplen p) ps)" "list_all rule_ok ps"
  shows "first_permission re ps issuer subject = conn_allow \<longleftrightarrow>
    list_ex (rule_applies re issuer subject conn_allow) ps \<and> \<not> list_ex (rule_applies re issuer subject conn_deny) ps"
  using assms
proof (induction ps)
  case (Cons p ps)
  show ?case
  proof (cases "s_check re p issuer subject = conn_unknown")
    case True
    then show ?thesis using Cons by auto
  next
    case False
    then have p: "s_check re p issuer subject = pp_perm p" by (rule s_check_perm)
    have deny: "pp_perm q = conn_deny \<Longrightarrow> pp_perm p = conn_deny" if "q \<in> set ps" for q
      using Cons.prems that by (fastforce simp: list_all_iff rule_ok_def)
    show ?thesis using p False deny Cons.prems(2) by (auto simp: list_ex_iff list_all_iff rule_ok_def) blast+
  qed
qed simp

section \<open>The decision\<close>

text \<open>
  What a reading of the file says about self-signed certificates: a file that does not name them leaves the
  permission that it finds, which is the one of an earlier reading; otherwise the last line that names them decides.
  The rules do not depend on it.
\<close>

definition same_but_permission :: "bool \<Rightarrow> bool \<Rightarrow> bool \<times> parse_state \<Rightarrow> bool \<times> parse_state \<Rightarrow> bool" where
  "same_but_permission a b r r' \<longleftrightarrow> fst r = fst r' \<and> (snd r)\<lparr>ps_allow := False\<rparr> = (snd r')\<lparr>ps_allow := False\<rparr> \<and>
    (ps_allow (snd r) = ps_allow (snd r') \<or> ps_allow (snd r) = a \<and> ps_allow (snd r') = b)"

lemma same_but_permission_refl [simp]: "same_but_permission a b r r"
  by (simp add: same_but_permission_def)

lemma parse_keywords_permission:
  "same_but_permission a b (parse_keywords mem perm ws (ps\<lparr>ps_allow := a\<rparr>)) (parse_keywords mem perm ws (ps\<lparr>ps_allow := b\<rparr>))"
proof (induction ws arbitrary: ps rule: measure_induct_rule [where f = length])
  case (less ws)
  show ?case
  proof (cases ws)
    case Nil
    then show ?thesis by (simp add: same_but_permission_def)
  next
    case (Cons w ws')
    have refused: "same_but_permission a b (False, ps\<lparr>ps_allow := a\<rparr>) (False, ps\<lparr>ps_allow := b\<rparr>)"
      by (simp add: same_but_permission_def)
    have iss: "same_but_permission a b
        (parse_keywords mem perm (tl ws') (ps\<lparr>ps_issuer := v, ps_do_create := True, ps_allow := a\<rparr>))
        (parse_keywords mem perm (tl ws') (ps\<lparr>ps_issuer := v, ps_do_create := True, ps_allow := b\<rparr>))" for v
      using less [of "tl ws'" "ps\<lparr>ps_issuer := v, ps_do_create := True\<rparr>"] Cons by simp
    have sub: "same_but_permission a b
        (parse_keywords mem perm (tl ws') (ps\<lparr>ps_subject := v, ps_do_create := True, ps_allow := a\<rparr>))
        (parse_keywords mem perm (tl ws') (ps\<lparr>ps_subject := v, ps_do_create := True, ps_allow := b\<rparr>))" for v
      using less [of "tl ws'" "ps\<lparr>ps_subject := v, ps_do_create := True\<rparr>"] Cons by simp
    have comm: "ps\<lparr>ps_allow := c, ps_issuer := v, ps_do_create := True\<rparr> = ps\<lparr>ps_issuer := v, ps_do_create := True, ps_allow := c\<rparr>"
      "ps\<lparr>ps_allow := c, ps_subject := v, ps_do_create := True\<rparr> = ps\<lparr>ps_subject := v, ps_do_create := True, ps_allow := c\<rparr>" for c v
      by simp_all
    show ?thesis unfolding Cons parse_keywords.simps comm
      using refused iss sub by (simp split: option.split)
  qed
qed

lemma s_parse_line_shape:
  "(\<exists>perm ws ps. \<forall>x. s_parse_line re mem line x =
      (case parse_keywords mem perm ws (ps\<lparr>ps_allow := x\<rparr>) of (isok, ps) \<Rightarrow>
        Some (if isok \<and> ps_do_create ps then s_create_pair re mem perm (ps_issuer ps) (ps_subject ps) else None,
          ps_allow ps))) \<or>
   (\<forall>x. s_parse_line re mem line x = Some (None, x)) \<or> (\<forall>x. s_parse_line re mem line x = None)"
proof (cases "line = [] \<or> \<not> mem")
  case True
  then show ?thesis by (simp add: s_parse_line_def)
next
  case line: False
  show ?thesis
  proof (cases "line_words line")
    case None
    then show ?thesis using line by (simp add: s_parse_line_def)
  next
    case (Some nws)
    obtain n ws where [simp]: "nws = (n, ws)" by (cases nws)
    show ?thesis
    proof (cases "n > 0 \<and> n < 16 \<and> ws \<noteq> [] \<and> \<not> (hd ws \<noteq> [] \<and> hd (hd ws) = CHR 0x23) \<and> n > 1 \<and>
               word_permission (hd ws) \<noteq> conn_unknown")
      case True
      show ?thesis using True Some line
        by (intro disjI1 exI [of _ "word_permission (hd ws)"] exI [of _ "take (nat n - 1) (tl ws)"]
            exI [of _ "\<lparr>ps_issuer = None, ps_subject = None, ps_do_create = False, ps_allow = False\<rparr>"])
          (simp add: s_parse_line_def split: prod.split)
    next
      case False
      then show ?thesis using Some line by (auto simp: s_parse_line_def)
    qed
  qed
qed

lemma s_parse_line_permission:
  assumes "s_parse_line re mem line a = Some (p, r)"
  shows "\<exists>r'. s_parse_line re mem line b = Some (p, r') \<and> (r' = r \<or> r = a \<and> r' = b)"
  using s_parse_line_shape [of re mem line]
proof (elim disjE exE)
  fix perm ws ps
  assume s: "\<forall>x. s_parse_line re mem line x =
      (case parse_keywords mem perm ws (ps\<lparr>ps_allow := x\<rparr>) of (isok, ps) \<Rightarrow>
        Some (if isok \<and> ps_do_create ps then s_create_pair re mem perm (ps_issuer ps) (ps_subject ps) else None,
          ps_allow ps))"
  obtain o1 p1 o2 p2 where k: "parse_keywords mem perm ws (ps\<lparr>ps_allow := a\<rparr>) = (o1, p1)"
    "parse_keywords mem perm ws (ps\<lparr>ps_allow := b\<rparr>) = (o2, p2)"
    by (metis surj_pair)
  show ?thesis using assms s k parse_keywords_permission [of a b mem perm ws ps]
    by (cases p1; cases p2) (auto simp: same_but_permission_def)
qed (use assms in auto)

lemma load_lines_permission:
  assumes "load_lines re mem ls (tbl, a) = Some (rules, r)"
  shows "\<exists>r'. load_lines re mem ls (tbl, b) = Some (rules, r') \<and> (r' = r \<or> r = a \<and> r' = b)"
  using assms
proof (induction ls arbitrary: tbl a b)
  case (Cons l ls)
  show ?case
  proof (cases "length (cstr l 0) \<ge> 4095")
    case True
    then show ?thesis using Cons by simp
  next
    case False
    then obtain p c where c: "s_parse_line re mem (cstr l 0) a = Some (p, c)"
      "load_lines re mem ls (tbl @ (case p of None \<Rightarrow> [] | Some q \<Rightarrow> [q]), c) = Some (rules, r)"
      using Cons.prems by (auto split: option.splits)
    obtain c' where c': "s_parse_line re mem (cstr l 0) b = Some (p, c')" "c' = c \<or> c = a \<and> c' = b"
      using s_parse_line_permission [OF c(1)] by blast
    obtain r' where r': "load_lines re mem ls (tbl @ (case p of None \<Rightarrow> [] | Some q \<Rightarrow> [q]), c') = Some (rules, r')"
      "r' = r \<or> r = c \<and> r' = c'"
      using Cons.IH [OF c(2)] by blast
    have "load_lines re mem (l # ls) (tbl, b) = Some (rules, r')"
      using False c'(1) r'(1) by (auto split: option.splits)
    then show ?thesis using r'(2) c'(2) by auto
  qed
qed simp


abbreviation (input) re_equal :: regex_env where
  "re_equal \<equiv> \<lparr>re_compiles = (\<lambda>_. True), re_matches = (\<lambda>pat x. pat = x)\<rparr>"

abbreviation (input) config_with :: "string \<Rightarrow> config_env" where
  "config_with content \<equiv> \<lparr>ce_mtime = 5, ce_file = Some content, ce_now = 9, ce_mem = True, ce_order = rev\<rparr>"


section \<open>What the file does not say\<close>

text \<open>
  The tokenizer is told that its array has room for 1024 words; it has room for 16, and a line of 17 words writes
  behind it.
\<close>

lemma parse_line_overruns: "s_parse_line re_equal True (concat (replicate 17 ''a '')) False = None"
  by code_simp

text \<open>
  The permission for self-signed certificates is never taken back by a file that does not name it, and a line that
  is refused grants it.
\<close>

lemma self_signed_remains:
  "map_option snd (s_check_certificates re_equal (config_with (''allow issuer CA'' @ [CHR 0x0A])) (Some ''CA'') (Some ''CA'')
      (s_check_certificates_set_config_file ''f'' (s_checkcert_init\<lparr>ck_allow_selfsigned := True\<rparr>))) = Some GALLUS_RESULT_OK"
  by code_simp

lemma self_signed_by_refused_line: "s_parse_line re_equal True ''allow self-signed bogus'' False = Some (None, True)"
  by code_simp

text \<open>A file that only allows self-signed certificates is reported as a lack of memory, and allows none.\<close>

lemma self_signed_alone:
  "map_option snd (s_check_certificates re_equal (config_with (''allow self-signed'' @ [CHR 0x0A])) (Some ''CA'') (Some subject)
      (s_check_certificates_set_config_file ''f'' s_checkcert_init)) =
    Some (if subject = ''CA'' then GALLUS_RESULT_NOT_ALLOWED else GALLUS_RESULT_NO_MEMORY)"
proof -
  have "load_lines re_equal True (config_lines (''allow self-signed'' @ [CHR 0x0A])) ([], False) = Some ([], True)"
    by code_simp
  then show ?thesis
    by (auto simp: s_check_certificates_def s_load_config_def s_serialize_pairs_def s_unload_config_def
        s_checkcert_init_def s_check_certificates_set_config_file_def)
qed

text \<open>A file that is written in the second of the last load, or before it, is not read again.\<close>

lemma load_misses_change:
  "ck_filename ck \<noteq> [] \<Longrightarrow> ck_pats ck \<noteq> None \<Longrightarrow> ck_last_open ck = ce_mtime ce \<Longrightarrow> 0 < ce_mtime ce \<Longrightarrow>
    s_load_config re ce ck = Some (ck, GALLUS_RESULT_OK)"
  by (auto simp: s_load_config_def)

text \<open>The tail of a line that is too long is read as a line of its own.\<close>

lemma overlong_line_tail:
  assumes "length l = 4095" "CHR 0x0A \<notin> set l" "rest \<noteq> []"
  shows "config_lines (l @ rest) = l # config_lines rest"
proof -
  have "takeWhile (\<lambda>c. c \<noteq> CHR 0x0A) (l @ rest) = l @ takeWhile (\<lambda>c. c \<noteq> CHR 0x0A) rest"
    using assms(2) by (subst takeWhile_append2) auto
  with assms show ?thesis by (subst config_lines.simps) (auto simp: Let_def)
qed

end
