(* ===== verification/Spec2Isabelle.thy ===== *)
theory Spec2Isabelle
  imports Chrono GState CBuffer_Queue HashMap_Laws Module_Life Callout_Cancel Str_Parse Str_Token_Laws Str_Escape DString_Laws
    Statistic_Laws Stage_Laws Stage_Worker Stage_Pause_Laws QMuxer_Laws Pool_Laws Lock_Laws Thread_Laws Task_Laws
    Callout_Stage Runnable Session_Laws Check_Cert_Laws
begin

text \<open>
  A model of the core of the gallus framework (\<^verbatim>\<open>src/framework/lib\<close>), a C library of containers,
  schedulers and life cycle management for multi-threaded daemons.

  \<^bold>\<open>Conventions.\<close> \<open>Gallus_Base\<close> has the result codes of \<^verbatim>\<open>gallus_ecode.h\<close>, the integer
  operations of C, and byte blocks with \<^verbatim>\<open>memcpy\<close>; \<open>List_Multiset\<close> the lemmas on multisets of
  lists. An object is a record with the fields of the C structure, a pointer that may be NULL an option,
  a result code an integer. An operation that runs
  between lock and unlock is one function from the old state to the new one. A thread that waits on a
  condition variable takes a script with one entry per wait: the result of the wait and what the other
  threads did meanwhile; when the script is used up the thread is still waiting and its result is None.

  \<^bold>\<open>Theories.\<close>
  \<^item> \<open>Chrono\<close>: \<^verbatim>\<open>chrono.c\<close> and the conversion macros of \<^verbatim>\<open>gallus_macros.h\<close>.
  \<^item> \<open>GState\<close>: the global state of the process, \<^verbatim>\<open>gstate.c\<close>.
  \<^item> \<open>CBuffer\<close>, \<open>CBuffer_Wait\<close>, \<open>CBuffer_Queue\<close>: the circular buffer \<^verbatim>\<open>cbuffer.c\<close>, which is
    the bounded blocking queue of the framework; \<open>Bounded_Queue\<close> states the laws its clients use as
    a locale, interpreted on the buffer's calls. \<open>QMuxer\<close>, \<open>QMuxer_Laws\<close>: waiting for one of several
    queues, \<^verbatim>\<open>qmuxer.c\<close> and \<^verbatim>\<open>qpoll.c\<close>.
  \<^item> \<open>Hash\<close>, \<open>Hash_Refine\<close>: the hash table \<^verbatim>\<open>hash.c\<close>, its invariant and the finite map it
    represents. \<open>HashMap\<close>, \<open>HashMap_Laws\<close>: the map \<^verbatim>\<open>hashmap.c\<close>; \<open>Key_Map\<close> states the laws of a
    keyed container as a locale, interpreted on the hash map's calls.
  \<^item> \<open>Module\<close>, \<open>Module_Life\<close>: the module manager \<^verbatim>\<open>module.c\<close> and the life cycle of the modules.
  \<^item> \<open>Callout\<close>: the callout scheduler \<^verbatim>\<open>callout.c\<close>, \<^verbatim>\<open>callout_task.c\<close>, \<^verbatim>\<open>callout_queue.c\<close>.
    \<open>Callout_Run\<close> has its threads as a step relation and the invariant, \<open>Callout_Inv\<close> shows that
    every step keeps it, \<open>Callout_Life\<close> what the steps do to the life of a task, \<open>Callout_Sched\<close> what
    is run when, and \<open>Callout_Cancel\<close> cancellation and repetition. \<open>Callout_Stage\<close>: the stage of its
    workers, \<^verbatim>\<open>callout_stage.c\<close>. \<open>Runnable\<close>: runnables, \<^verbatim>\<open>runnable.c\<close>.
  \<^item> \<open>StrUtils\<close>, \<open>Str_Parse\<close>: the number parsers of \<^verbatim>\<open>strutils.c\<close> and the grammar they
    read. \<open>Str_Token\<close>, \<open>Str_Token_Laws\<close>: its two tokenizers. \<open>Str_Escape\<close>: escaping, trimming and
    searching.
  \<^item> \<open>DString\<close>, \<open>DString_Laws\<close>: the dynamic strings \<^verbatim>\<open>dstring.c\<close>.
  \<^item> \<open>Statistic\<close>, \<open>Statistic_Laws\<close>: the statistics \<^verbatim>\<open>statistic.c\<close>, with recordings of several
    threads as interleaved atomic operations.
  \<^item> \<open>Stage\<close>, \<open>Stage_Registry\<close>, \<open>Stage_Laws\<close>: the pipeline stages \<^verbatim>\<open>pipeline_stage.c\<close>, their
    calls, creation and tables. \<open>Stage_Worker\<close>: the loops of their workers, \<^verbatim>\<open>pipeline_worker.c\<close>.
    \<open>Stage_Pause\<close>, \<open>Stage_Pause_Inv\<close>, \<open>Stage_Pause_Laws\<close>: pause, resumption and maintenance as a
    protocol of the workers, the barrier and the calls, with its invariant.
  \<^item> \<open>Poolable\<close>, \<open>Poolable_Laws\<close>: the objects of a pool, \<^verbatim>\<open>poolable.c\<close>. \<open>Pool\<close>,
    \<open>Pool_Life\<close>, \<open>Pool_Laws\<close>: the pools \<^verbatim>\<open>pool.c\<close>, and their clients as interleaved turns.
  \<^item> \<open>Lock\<close>, \<open>Lock_Laws\<close>: mutexes, read-write locks, condition variables, barriers and critical sections,
    \<^verbatim>\<open>lock.c\<close>, on POSIX objects with the documented behaviour, and the spin locks of \<^verbatim>\<open>gallus_lock.h\<close>.
  \<^item> \<open>Thread\<close>: thread objects and their tables, \<^verbatim>\<open>thread.c\<close>; \<open>Thread_Run\<close>: the spawned threads and the
    clients of an object as interleaved turns; \<open>Thread_Inv\<close>, \<open>Thread_Laws\<close>: its invariant and properties,
    for clients that are polite in the sense of \<open>polite\<close>; a sleep on a condition variable does not fail.
  \<^item> \<open>Task\<close>: tasks, \<^verbatim>\<open>task.c\<close>; \<open>Task_Run\<close>: the pooled thread that runs them, \<^verbatim>\<open>pooled_thread.c\<close>, and
    its clients as interleaved turns; \<open>Task_Laws\<close>: the life of a task, its end after at most ten turns.
  \<^item> \<open>Session\<close>: sessions, \<^verbatim>\<open>session.c\<close> and \<^verbatim>\<open>session_tcp.c\<close>, with the answers of the system as arguments;
    \<open>Session_Laws\<close>: the lines they read. \<open>Check_Cert\<close>, \<open>Check_Cert_Laws\<close>: the rules for certificates and the
    decision by them, \<^verbatim>\<open>session_checkcert.c\<close>.

  \<^bold>\<open>What the lemmas show.\<close> Each container refines an abstract one (a list, a finite map) over any
  sequence of calls, and releases each element once; a dynamic string refines a string. The parsers and
  tokenizers agree with reference definitions. Each life cycle (global state, modules, tasks,
  stages) is a safety property of all reachable states. A pause excludes the workers under every
  interleaving, and completes; a pool gives an object to one client at a time; a thread object is not
  used after its destruction, and no thread is cancelled with a lock. A certificate is judged by the rules alone. Waits return what their header
  promises for every script. Lemmas at the end of a theory show where the code does something else than it means to.

  \<^bold>\<open>Bounds.\<close> There is no fuel: loops are structural recursions or have a measure. The indices of a
  buffer are kept below \<open>2 ^ 63\<close> by a headroom hypothesis, a hash table below \<open>3 * 2 ^ 30\<close> entries,
  where its rebuild overflows; both overflows are shown in lemmas.

  \<^bold>\<open>Parameters.\<close> What \<^verbatim>\<open>strdup\<close> and the allocator return, the numbers that the GMP library reads, what
  the C library reads as a float and what it expands a format to are arguments of the definitions, and so
  is what the threads of the workers of a stage answer when they are started, cancelled and waited for.
  So are the regular expressions of a certificate rule, the answers of sockets, and the procedures of a TLS
  session. The architecture has 64 bits.

  \<^bold>\<open>How the parts meet.\<close> The scheduler keeps its valid tasks in a hash map and its urgent and idle tasks
  in blocking queues. Its model has a partial map and bounded lists in their place, which is what the
  locales \<open>key_map\<close> and \<open>bounded_queue\<close> promise and their interpretations prove of the code.

  \<^bold>\<open>Not modelled.\<close> Signals, the logger and the NUMA allocator only wrap the operating
  system, the TLS sessions OpenSSL. A cancellation of a task is one step up to its wait, as if it held the global lock, which a comment in \<^verbatim>\<open>gallus_callout_cancel_task\<close> asks for. A stage does not model CPU affinity and the
  janitor of its locks.
\<close>

end
